(* ===== verification/OlmPrelude.thy ===== *)
theory OlmPrelude
  imports Main "HOL-Library.Word"
begin

text \<open>
  Shared vocabulary of the development.

  Bytes and machine words are \<open>HOL-Library.Word\<close> types.  The buffers the C and C++ code works on
  are regions of one flat memory \<open>mem\<close>, a function from addresses to bytes, so that two pointers
  into the same buffer (the in-place base64 and CBC code) alias exactly as they do in the program.
  \<open>rd\<close> is what a \<open>memcpy\<close> out of memory sees, \<open>wr\<close> is the effect of a \<open>memcpy\<close> into it.
  Sizes (\<open>size_t\<close>) are natural numbers; the error return \<open>size_t(-1)\<close> is \<open>None\<close>, and where the
  code goes on computing with that value it is \<open>size_max\<close>.  \<open>frame\<close> says that a function wrote
  nothing outside the given region, which is how buffer bounds are stated.
\<close>

unbundle bit_operations_syntax

type_synonym byte = "8 word"
type_synonym u32 = "32 word"
type_synonym u64 = "64 word"
type_synonym bytes = "byte list"
type_synonym addr = nat
type_synonym mem = "nat \<Rightarrow> byte"

named_theorems mem_simps \<open>reading and writing regions of the flat memory\<close>
named_theorems len_simps \<open>lengths of the byte strings the components produce\<close>

definition size_max :: nat where
  "size_max = 2 ^ 64 - 1"

text \<open>\<open>a - b\<close> on \<open>size_t\<close> values, which wraps around.\<close>

definition size_sub :: "nat \<Rightarrow> nat \<Rightarrow> nat" where
  "size_sub a b = (if b \<le> a then a - b else 2 ^ 64 + a - b)"

definition rd :: "mem \<Rightarrow> addr \<Rightarrow> nat \<Rightarrow> bytes" where
  "rd m a n = map m [a..<a + n]"

definition wr :: "mem \<Rightarrow> addr \<Rightarrow> bytes \<Rightarrow> mem" where
  "wr m a bs = (\<lambda>i. if a \<le> i \<and> i < a + length bs then bs ! (i - a) else m i)"

definition frame :: "mem \<Rightarrow> mem \<Rightarrow> addr \<Rightarrow> nat \<Rightarrow> bool" where
  "frame m m' a n \<longleftrightarrow> (\<forall>i. i < a \<or> a + n \<le> i \<longrightarrow> m' i = m i)"

text \<open>The bytes of a C string literal, without the terminating zero.\<close>

definition cstr :: "string \<Rightarrow> bytes" where
  "cstr s = map of_char s"

section \<open>Reading\<close>

lemma length_rd [simp, len_simps]: "length (rd m a n) = n"
  by (simp add: rd_def)

lemma rd_0 [simp]: "rd m a 0 = []"
  by (simp add: rd_def)

lemma rd_Suc: "rd m a (Suc n) = m a # rd m (Suc a) n"
  by (simp add: rd_def upt_conv_Cons del: upt_Suc)

lemma rd_1 [simp]: "rd m a (Suc 0) = [m a]"
  by (simp add: rd_def upt_conv_Cons)

lemma rd_add: "rd m a (n + k) = rd m a n @ rd m (a + n) k"
  unfolding rd_def map_append [symmetric] add.assoc [symmetric]
  by (subst upt_add_eq_append) auto

lemma nth_rd [simp]: "i < n \<Longrightarrow> rd m a n ! i = m (a + i)"
  by (simp add: rd_def)

lemma take_rd: "k \<le> n \<Longrightarrow> take k (rd m a n) = rd m a k"
  by (rule nth_equalityI) auto

lemma drop_rd: "k \<le> n \<Longrightarrow> drop k (rd m a n) = rd m (a + k) (n - k)"
  by (rule nth_equalityI) (auto simp: add.assoc)

lemma rd_cong: "(\<And>i. a \<le> i \<Longrightarrow> i < a + n \<Longrightarrow> m i = m' i) \<Longrightarrow> rd m a n = rd m' a n"
  by (simp add: rd_def)

lemma rd_eq_iff: "rd m a n = rd m' a n \<longleftrightarrow> (\<forall>i. a \<le> i \<and> i < a + n \<longrightarrow> m i = m' i)"
  by (auto simp: rd_def)

section \<open>Writing\<close>

lemma wr_Nil [simp, mem_simps]: "wr m a [] = m"
  by (auto simp: wr_def fun_eq_iff)

lemma wr_out: "i < a \<or> a + length bs \<le> i \<Longrightarrow> wr m a bs i = m i"
  by (auto simp: wr_def)

lemma wr_in: "a \<le> i \<Longrightarrow> i < a + length bs \<Longrightarrow> wr m a bs i = bs ! (i - a)"
  by (simp add: wr_def)

lemma wr_single: "m(a := b) = wr m a [b]"
  by (auto simp: wr_def fun_eq_iff)

lemma wr_append: "wr m a (xs @ ys) = wr (wr m a xs) (a + length xs) ys"
  by (auto simp: wr_def fun_eq_iff nth_append diff_diff_eq add.commute intro!: arg_cong2[where f = nth])

lemma wr_append': "wr m a (xs @ ys) = wr (wr m (a + length xs) ys) a xs"
  by (auto simp: wr_def fun_eq_iff nth_append diff_diff_eq add.commute intro!: arg_cong2[where f = nth])

lemma wr_Cons: "wr m a (x # xs) = wr (wr m (Suc a) xs) a [x]"
  using wr_append' [of m a "[x]" xs] by simp

lemma wr_append3:
  "wr m a (xs @ ys @ zs) = wr (wr (wr m a xs) (a + length xs) ys) (a + length xs + length ys) zs"
  by (simp only: wr_append)

lemma wr_comm:
  "a + length xs \<le> b \<or> b + length ys \<le> a \<Longrightarrow> wr (wr m a xs) b ys = wr (wr m b ys) a xs"
  by (auto simp: wr_def fun_eq_iff)

lemma wr_wr_same: "length xs = length ys \<Longrightarrow> wr (wr m a xs) a ys = wr m a ys"
  by (auto simp: wr_def fun_eq_iff)

lemma wr_wr_cover:
  "b \<le> a \<Longrightarrow> a + length xs \<le> b + length ys \<Longrightarrow> wr (wr m a xs) b ys = wr m b ys"
  by (auto simp: wr_def fun_eq_iff)

lemma rd_wr_same [simp, mem_simps]: "n = length bs \<Longrightarrow> rd (wr m a bs) a n = bs"
  by (rule nth_equalityI) (auto simp: wr_def)

lemma rd_wr_disj:
  "a + n \<le> b \<or> b + length bs \<le> a \<Longrightarrow> rd (wr m b bs) a n = rd m a n"
  by (rule rd_cong) (auto simp: wr_def)

lemma rd_wr_within:
  "b \<le> a \<Longrightarrow> a + n \<le> b + length bs \<Longrightarrow> rd (wr m b bs) a n = take n (drop (a - b) bs)"
  by (rule nth_equalityI) (auto simp: wr_def)

lemma wr_rd_same [simp]: "wr m a (rd m a n) = m"
  by (auto simp: wr_def fun_eq_iff)

section \<open>Regions with known content\<close>

definition stored :: "mem \<Rightarrow> addr \<Rightarrow> bytes \<Rightarrow> bool" where
  "stored m a bs \<longleftrightarrow> rd m a (length bs) = bs"

lemma stored_Nil [simp]: "stored m a []"
  by (simp add: stored_def)

lemma stored_Cons [simp]: "stored m a (x # xs) \<longleftrightarrow> m a = x \<and> stored m (Suc a) xs"
  by (simp add: stored_def rd_Suc)

lemma stored_append [simp]:
  "stored m a (xs @ ys) \<longleftrightarrow> stored m a xs \<and> stored m (a + length xs) ys"
  by (simp add: stored_def rd_add)

lemma stored_rd: "stored m a bs \<Longrightarrow> n = length bs \<Longrightarrow> rd m a n = bs"
  by (simp add: stored_def)

lemma stored_rd_self: "n = length bs \<Longrightarrow> rd m a n = bs \<Longrightarrow> stored m a bs"
  by (simp add: stored_def)

lemma stored_wr [simp]: "stored (wr m a bs) a bs"
  by (simp add: stored_def)

lemma stored_nth: "stored m a bs \<Longrightarrow> i < length bs \<Longrightarrow> m (a + i) = bs ! i"
  by (metis nth_rd stored_def)

lemma stored_cong:
  "(\<And>i. a \<le> i \<Longrightarrow> i < a + length bs \<Longrightarrow> m i = m' i) \<Longrightarrow> stored m a bs = stored m' a bs"
  unfolding stored_def by (simp add: rd_cong [of a "length bs" m m'])

lemma stored_wr_disj:
  "a + length bs \<le> b \<or> b + length cs \<le> a \<Longrightarrow> stored (wr m b cs) a bs = stored m a bs"
  by (simp add: stored_def rd_wr_disj)

section \<open>Frames\<close>

lemma frame_refl [simp]: "frame m m a n"
  by (simp add: frame_def)

lemma frame_wr: "b \<le> a \<Longrightarrow> a + length bs \<le> b + n \<Longrightarrow> frame m (wr m a bs) b n"
  by (auto simp: frame_def wr_def)

lemma frame_trans: "frame m m1 a n \<Longrightarrow> frame m1 m2 a n \<Longrightarrow> frame m m2 a n"
  by (auto simp: frame_def)

lemma frame_weaken: "frame m m' a n \<Longrightarrow> b \<le> a \<Longrightarrow> a + n \<le> b + k \<Longrightarrow> frame m m' b k"
  by (auto simp: frame_def)

lemma frame_rd: "frame m m' a n \<Longrightarrow> b + k \<le> a \<or> a + n \<le> b \<Longrightarrow> rd m' b k = rd m b k"
  by (auto simp: frame_def intro!: rd_cong)

section \<open>Lists\<close>

lemma list_eq_take_drop: "length xs = n + k \<Longrightarrow> xs = take n xs @ drop n xs"
  by simp

lemma take_append_exact: "length xs = n \<Longrightarrow> take n (xs @ ys) = xs"
  by simp

lemma drop_append_exact: "length xs = n \<Longrightarrow> drop n (xs @ ys) = ys"
  by simp

text \<open>Bytes.\<close>

lemma unat_byte_less: "unat (b :: byte) < 256"
proof -
  have "unat b < 2 ^ LENGTH(8)" by (rule unsigned_less)
  then show ?thesis by simp
qed

lemma xor_cancel: "((a::byte) XOR b) XOR b = a" "b XOR (b XOR a) = a"
  by (simp add: xor.assoc, simp flip: xor.assoc)

end
