(* ===== verification/OlmMemory.thy ===== *)
theory OlmMemory
  imports OlmPrelude
begin

text \<open>
  \<open>src/memory.cpp\<close> and \<open>include/self_olm/memory.hh\<close>: clearing a buffer, the constant time
  comparison of two buffers, and the copies between a fixed size array and a buffer.
\<close>

section \<open>Clearing\<close>

text \<open>The loop \<open>while (pos != end) *(pos++) = 0\<close>, which runs \<open>buffer_length\<close> times.\<close>

primrec unset :: "nat \<Rightarrow> mem \<Rightarrow> addr \<Rightarrow> mem" where
  "unset 0 m pos = m"
| "unset (Suc n) m pos = unset n (m(pos := 0)) (Suc pos)"

lemma unset_wr: "unset n m pos = wr m pos (replicate n 0)"
proof (induction n arbitrary: m pos)
  case 0
  show ?case by simp
next
  case (Suc n)
  have "replicate (Suc n) (0 :: byte) = [0] @ replicate n 0" by simp
  then show ?case
    by (simp only: unset.simps Suc.IH wr_append) (simp add: wr_single)
qed

section \<open>Comparing\<close>

text \<open>
  \<open>is_equal\<close> accumulates the exclusive or of the bytes in \<open>result\<close>, so that its running time does
  not depend on where the buffers differ.
\<close>

fun is_equal_loop :: "byte \<Rightarrow> mem \<Rightarrow> addr \<Rightarrow> addr \<Rightarrow> nat \<Rightarrow> byte" where
  "is_equal_loop result m a b 0 = result"
| "is_equal_loop result m a b (Suc n) =
     is_equal_loop (result OR (m a XOR m b)) m (Suc a) (Suc b) n"

definition is_equal :: "mem \<Rightarrow> addr \<Rightarrow> addr \<Rightarrow> nat \<Rightarrow> bool" where
  "is_equal m a b n \<longleftrightarrow> is_equal_loop 0 m a b n = 0"

text \<open>The same loop on two arrays that are not part of the modelled memory (\<open>array_equal\<close>).\<close>

fun array_equal_loop :: "byte \<Rightarrow> bytes \<Rightarrow> bytes \<Rightarrow> byte" where
  "array_equal_loop result (x # xs) (y # ys) = array_equal_loop (result OR (x XOR y)) xs ys"
| "array_equal_loop result _ _ = result"

definition array_equal :: "bytes \<Rightarrow> bytes \<Rightarrow> bool" where
  "array_equal a b \<longleftrightarrow> array_equal_loop 0 a b = 0"

lemma word_or_eq_0_iff: "(a :: 'a::len word) OR b = 0 \<longleftrightarrow> a = 0 \<and> b = 0"
  by (metis or.right_neutral or_eq_0_iff)

lemma word_xor_eq_0_iff: "(a :: 'a::len word) XOR b = 0 \<longleftrightarrow> a = b"
  by (metis xor_self_eq xor.assoc xor.right_neutral xor.left_neutral)

lemma is_equal_loop_0:
  "is_equal_loop r m a b n = 0 \<longleftrightarrow> r = 0 \<and> rd m a n = rd m b n"
  by (induction r m a b n rule: is_equal_loop.induct)
    (auto simp: rd_Suc word_or_eq_0_iff word_xor_eq_0_iff)

lemma is_equal_iff [simp]: "is_equal m a b n \<longleftrightarrow> rd m a n = rd m b n"
  by (simp add: is_equal_def is_equal_loop_0)

lemma array_equal_loop_0:
  "length a = length b \<Longrightarrow> array_equal_loop r a b = 0 \<longleftrightarrow> r = 0 \<and> a = b"
  by (induction r a b rule: array_equal_loop.induct)
    (auto simp: word_or_eq_0_iff word_xor_eq_0_iff)

lemma array_equal_iff: "length a = length b \<Longrightarrow> array_equal a b \<longleftrightarrow> a = b"
  by (simp add: array_equal_def array_equal_loop_0)

section \<open>Copies\<close>

text \<open>\<open>load_array\<close> fills an array of size \<open>n\<close> and returns the pointer past the bytes it read.\<close>

definition load_array :: "mem \<Rightarrow> nat \<Rightarrow> addr \<Rightarrow> bytes \<times> addr" where
  "load_array m n source = (rd m source n, source + n)"

definition store_array :: "mem \<Rightarrow> addr \<Rightarrow> bytes \<Rightarrow> mem \<times> addr" where
  "store_array m destination src = (wr m destination src, destination + length src)"

end
