(* ===== verification/OlmList.thy ===== *)
theory OlmList
  imports OlmPrelude
begin

text \<open>
  The bounded list of \<open>include/self_olm/list.hh\<close>.  The class keeps an array \<open>_data\<close> of
  \<open>max_size\<close> elements and a pointer \<open>_end\<close> into it; elements behind \<open>_end\<close> are stale and are not
  cleared.  Pointers into the array are indices here, \<open>begin()\<close> is \<open>0\<close>.  \<open>items\<close> is the
  abstraction to the list of live elements, and the section on refinement shows each operation to
  be the list operation its comment promises.
\<close>

record 'a olist =
  ol_data :: "nat \<Rightarrow> 'a"
  ol_end :: nat

definition items :: "'a olist \<Rightarrow> 'a list" where
  "items l = map (ol_data l) [0..<ol_end l]"

section \<open>Operations\<close>

text \<open>The constructor leaves the array as the memory was: \<open>d\<close> is that content.\<close>

definition ol_new :: "(nat \<Rightarrow> 'a) \<Rightarrow> 'a olist" where
  "ol_new d = \<lparr>ol_data = d, ol_end = 0\<rparr>"

definition ol_empty :: "'a olist \<Rightarrow> bool" where
  "ol_empty l \<longleftrightarrow> ol_end l = 0"

definition ol_size :: "'a olist \<Rightarrow> nat" where
  "ol_size l = ol_end l"

definition ol_nth :: "'a olist \<Rightarrow> nat \<Rightarrow> 'a" where
  "ol_nth l i = ol_data l i"

definition ol_set :: "'a olist \<Rightarrow> nat \<Rightarrow> 'a \<Rightarrow> 'a olist" where
  "ol_set l i x = l\<lparr>ol_data := (ol_data l)(i := x)\<rparr>"

text \<open>\<open>while (pos != _end) { *pos = *(pos + 1); ++pos; }\<close>, which runs \<open>_end - pos\<close> times.\<close>

primrec erase_loop :: "nat \<Rightarrow> (nat \<Rightarrow> 'a) \<Rightarrow> nat \<Rightarrow> (nat \<Rightarrow> 'a)" where
  "erase_loop 0 d pos = d"
| "erase_loop (Suc n) d pos = erase_loop n (d(pos := d (pos + 1))) (pos + 1)"

definition ol_erase :: "'a olist \<Rightarrow> nat \<Rightarrow> 'a olist" where
  "ol_erase l pos =
     (let e = ol_end l - 1
      in \<lparr>ol_data = erase_loop (e - pos) (ol_data l) pos, ol_end = e\<rparr>)"

text \<open>\<open>while (tmp != pos) { *tmp = *(tmp - 1); --tmp; }\<close>, which runs \<open>tmp - pos\<close> times.\<close>

primrec insert_loop :: "nat \<Rightarrow> (nat \<Rightarrow> 'a) \<Rightarrow> nat \<Rightarrow> (nat \<Rightarrow> 'a)" where
  "insert_loop 0 d tmp = d"
| "insert_loop (Suc n) d tmp = insert_loop n (d(tmp := d (tmp - 1))) (tmp - 1)"

text \<open>\<open>insert(pos)\<close> makes room and returns the position; the element there is left as it was.\<close>

definition ol_insert :: "nat \<Rightarrow> 'a olist \<Rightarrow> nat \<Rightarrow> 'a olist \<times> nat" where
  "ol_insert max_size l pos =
     (let (e, p) = (if ol_end l \<noteq> max_size then (ol_end l + 1, pos)
                    else if pos = ol_end l then (ol_end l, pos - 1)
                    else (ol_end l, pos));
          tmp = e - 1
      in (\<lparr>ol_data = insert_loop (tmp - p) (ol_data l) tmp, ol_end = e\<rparr>, p))"

text \<open>\<open>insert()\<close>, at the start, and \<open>insert(pos, value)\<close>.\<close>

definition ol_insert_begin :: "nat \<Rightarrow> 'a olist \<Rightarrow> 'a olist \<times> nat" where
  "ol_insert_begin max_size l = ol_insert max_size l 0"

definition ol_insert_value :: "nat \<Rightarrow> 'a olist \<Rightarrow> nat \<Rightarrow> 'a \<Rightarrow> 'a olist \<times> nat" where
  "ol_insert_value max_size l pos v =
     (let (l', p) = ol_insert max_size l pos in (ol_set l' p v, p))"

section \<open>Refinement to lists\<close>

lemma length_items [simp]: "length (items l) = ol_end l"
  by (simp add: items_def)

lemma nth_items [simp]: "i < ol_end l \<Longrightarrow> items l ! i = ol_data l i"
  by (simp add: items_def)

lemma items_new [simp]: "items (ol_new d) = []"
  by (simp add: items_def ol_new_def)

lemma ol_empty_iff: "ol_empty l \<longleftrightarrow> items l = []"
  by (simp add: ol_empty_def items_def)

lemma items_set: "i < ol_end l \<Longrightarrow> items (ol_set l i x) = (items l)[i := x]"
  by (rule nth_equalityI) (auto simp: ol_set_def items_def nth_list_update)

lemma erase_loop_apply:
  "erase_loop n d pos i = (if pos \<le> i \<and> i < pos + n then d (i + 1) else d i)"
  by (induction n arbitrary: d pos) auto

lemma items_erase:
  assumes "pos < ol_end l"
  shows "items (ol_erase l pos) = take pos (items l) @ drop (Suc pos) (items l)"
  using assms
  by (intro nth_equalityI)
    (auto simp: ol_erase_def Let_def erase_loop_apply nth_append items_def)

lemma ol_end_erase [simp]: "ol_end (ol_erase l pos) = ol_end l - 1"
  by (simp add: ol_erase_def Let_def)

lemma insert_loop_apply:
  "n \<le> tmp \<Longrightarrow> insert_loop n d tmp i = (if tmp - n < i \<and> i \<le> tmp then d (i - 1) else d i)"
  by (induction n arbitrary: d tmp) auto

lemma ol_insert_pos:
  assumes "pos \<le> ol_end l" "ol_end l \<le> max_size" "0 < max_size"
  shows "snd (ol_insert max_size l pos) = min pos (max_size - 1)"
  using assms by (auto simp: ol_insert_def Let_def)

lemma ol_insert_end:
  assumes "ol_end l \<le> max_size"
  shows "ol_end (fst (ol_insert max_size l pos)) = min (Suc (ol_end l)) max_size"
  using assms by (auto simp: ol_insert_def Let_def)

lemma ol_insert_value_end:
  assumes "ol_end l \<le> max_size"
  shows "ol_end (fst (ol_insert_value max_size l pos v)) = min (Suc (ol_end l)) max_size"
  using ol_insert_end [OF assms, of pos]
  by (cases "ol_insert max_size l pos") (simp add: ol_insert_value_def ol_set_def)

text \<open>
  Inserting a value puts it at the position and discards the last element of a full list, as the
  comment of \<open>insert\<close> says; inserting at the end of a full list replaces the last element.
\<close>

lemma items_insert_value:
  assumes "pos \<le> ol_end l" "ol_end l \<le> max_size" "0 < max_size"
  shows "items (fst (ol_insert_value max_size l pos v)) =
     (let p = min pos (max_size - 1)
      in take max_size (take p (items l) @ v # drop p (items l)))"
    (is "?l = ?r")
proof (rule nth_equalityI)
  show len: "length ?l = length ?r"
    using assms by (auto simp: ol_insert_value_end Let_def min_def)
  fix i assume i: "i < length ?l"
  then have "i < min (Suc (ol_end l)) max_size"
    using assms by (simp add: ol_insert_value_end)
  with assms show "?l ! i = ?r ! i"
    using i
    by (auto simp: ol_insert_value_def ol_insert_def ol_set_def Let_def insert_loop_apply
        nth_append nth_Cons' min_def items_def split: if_splits)
qed

lemma items_insert_begin_value:
  assumes "ol_end l \<le> max_size" "0 < max_size"
  shows "items (fst (ol_insert_value max_size l 0 v)) = take max_size (v # items l)"
  using items_insert_value [of 0 l max_size v] assms by simp

lemma items_insert_end_value:
  assumes "ol_end l < max_size"
  shows "items (fst (ol_insert_value max_size l (ol_end l) v)) = items l @ [v]"
  using items_insert_value [of "ol_end l" l max_size v] assms by (simp add: min_def)

section \<open>Property\<close>

text \<open>
  C40 The list operations refine operations on HOL lists: insertion at \<open>pos\<close> shifts the rest and
  drops what no longer fits, erasing removes the element at \<open>pos\<close>, assignment replaces it.
\<close>

theorem list_operations_refine:
  assumes "ol_end l \<le> max_size" "pos < ol_end l"
  shows "items (fst (ol_insert_value max_size l pos v)) =
           take max_size (take pos (items l) @ v # drop pos (items l)) \<and>
         items (ol_erase l pos) = take pos (items l) @ drop (Suc pos) (items l) \<and>
         items (ol_set l pos v) = (items l)[pos := v]"
  using assms by (simp add: items_erase items_set items_insert_value min_def Let_def)

theorem list_operations_refine_witness:
  "items (ol_erase \<lparr>ol_data = (\<lambda>i. i), ol_end = 3\<rparr> 1) = [0, 2] \<and>
   items (fst (ol_insert_value 3 \<lparr>ol_data = (\<lambda>i. i), ol_end = 3\<rparr> 1 7)) = [0, 7, 1]"
  using list_operations_refine [of "\<lparr>ol_data = (\<lambda>i. i), ol_end = 3\<rparr>" 3 1 7]
  by (simp add: items_def upt_rec)

end
