(* ===== verification/Sha256.thy ===== *)
theory Sha256
  imports OlmPrelude
begin

text \<open>
  \<open>lib/crypto-algorithms/sha256.c\<close>: the streaming SHA-256 the library hashes with.  The first part
  is the code: a context that buffers up to 64 bytes, a byte-wise update, and a final step that pads
  in the buffer.  The second part is the textbook hash of a whole message, padding and all, and the
  proof that the streaming code computes it however the message is cut into updates.
\<close>

section \<open>The compression function\<close>

definition ROTRIGHT :: "u32 \<Rightarrow> nat \<Rightarrow> u32" where
  "ROTRIGHT a b = drop_bit b a OR push_bit (32 - b) a"

definition CH :: "u32 \<Rightarrow> u32 \<Rightarrow> u32 \<Rightarrow> u32" where
  "CH x y z = (x AND y) XOR (NOT x AND z)"

definition MAJ :: "u32 \<Rightarrow> u32 \<Rightarrow> u32 \<Rightarrow> u32" where
  "MAJ x y z = (x AND y) XOR (x AND z) XOR (y AND z)"

definition EP0 :: "u32 \<Rightarrow> u32" where
  "EP0 x = ROTRIGHT x 2 XOR ROTRIGHT x 13 XOR ROTRIGHT x 22"

definition EP1 :: "u32 \<Rightarrow> u32" where
  "EP1 x = ROTRIGHT x 6 XOR ROTRIGHT x 11 XOR ROTRIGHT x 25"

definition SIG0 :: "u32 \<Rightarrow> u32" where
  "SIG0 x = ROTRIGHT x 7 XOR ROTRIGHT x 18 XOR drop_bit 3 x"

definition SIG1 :: "u32 \<Rightarrow> u32" where
  "SIG1 x = ROTRIGHT x 17 XOR ROTRIGHT x 19 XOR drop_bit 10 x"

definition sha_k :: "u32 list" where
  "sha_k =
     [0x428a2f98, 0x71374491, 0xb5c0fbcf, 0xe9b5dba5,
      0x3956c25b, 0x59f111f1, 0x923f82a4, 0xab1c5ed5] @
     [0xd807aa98, 0x12835b01, 0x243185be, 0x550c7dc3,
      0x72be5d74, 0x80deb1fe, 0x9bdc06a7, 0xc19bf174] @
     [0xe49b69c1, 0xefbe4786, 0x0fc19dc6, 0x240ca1cc,
      0x2de92c6f, 0x4a7484aa, 0x5cb0a9dc, 0x76f988da] @
     [0x983e5152, 0xa831c66d, 0xb00327c8, 0xbf597fc7,
      0xc6e00bf3, 0xd5a79147, 0x06ca6351, 0x14292967] @
     [0x27b70a85, 0x2e1b2138, 0x4d2c6dfc, 0x53380d13,
      0x650a7354, 0x766a0abb, 0x81c2c92e, 0x92722c85] @
     [0xa2bfe8a1, 0xa81a664b, 0xc24b8b70, 0xc76c51a3,
      0xd192e819, 0xd6990624, 0xf40e3585, 0x106aa070] @
     [0x19a4c116, 0x1e376c08, 0x2748774c, 0x34b0bcb5,
      0x391c0cb3, 0x4ed8aa4a, 0x5b9cca4f, 0x682e6ff3] @
     [0x748f82ee, 0x78a5636f, 0x84c87814, 0x8cc70208,
      0x90befffa, 0xa4506ceb, 0xbef9a3f7, 0xc67178f2]"

record SHA256_CTX =
  ctx_data :: bytes
  ctx_datalen :: u32
  ctx_bitlen :: u64
  ctx_state :: "u32 list"

text \<open>The message schedule \<open>m[64]\<close>: the first loop fills 16 words, the second appends 48.\<close>

definition schedule16 :: "bytes \<Rightarrow> u32 list" where
  "schedule16 data =
     map (\<lambda>i. push_bit 24 (ucast (data ! (4 * i))) OR push_bit 16 (ucast (data ! (4 * i + 1)))
            OR push_bit 8 (ucast (data ! (4 * i + 2))) OR ucast (data ! (4 * i + 3))) [0..<16]"

primrec schedule_extend :: "nat \<Rightarrow> u32 list \<Rightarrow> u32 list" where
  "schedule_extend 0 m = m"
| "schedule_extend (Suc n) m =
     (let i = length m
      in schedule_extend n
           (m @ [SIG1 (m ! (i - 2)) + m ! (i - 7) + SIG0 (m ! (i - 15)) + m ! (i - 16)]))"

type_synonym sha_vars = "u32 \<times> u32 \<times> u32 \<times> u32 \<times> u32 \<times> u32 \<times> u32 \<times> u32"

fun sha_round :: "u32 list \<Rightarrow> sha_vars \<Rightarrow> nat \<Rightarrow> sha_vars" where
  "sha_round m (a, b, c, d, e, f, g, h) i =
     (let t1 = h + EP1 e + CH e f g + sha_k ! i + m ! i;
          t2 = EP0 a + MAJ a b c
      in (t1 + t2, a, b, c, d + t1, e, f, g))"

definition sha256_compress :: "u32 list \<Rightarrow> bytes \<Rightarrow> u32 list" where
  "sha256_compress st data =
     (let m = schedule_extend 48 (schedule16 data);
          (a, b, c, d, e, f, g, h) =
            foldl (sha_round m)
              (st ! 0, st ! 1, st ! 2, st ! 3, st ! 4, st ! 5, st ! 6, st ! 7) [0..<64]
      in [st ! 0 + a, st ! 1 + b, st ! 2 + c, st ! 3 + d,
          st ! 4 + e, st ! 5 + f, st ! 6 + g, st ! 7 + h])"

definition sha256_transform :: "SHA256_CTX \<Rightarrow> bytes \<Rightarrow> SHA256_CTX" where
  "sha256_transform ctx data = ctx\<lparr>ctx_state := sha256_compress (ctx_state ctx) data\<rparr>"

section \<open>The streaming interface\<close>

text \<open>\<open>sha256_init\<close> leaves the data buffer as it finds it.\<close>

definition sha256_init :: "SHA256_CTX \<Rightarrow> SHA256_CTX" where
  "sha256_init ctx = ctx
     \<lparr>ctx_datalen := 0,
      ctx_bitlen := 0,
      ctx_state :=
        [0x6a09e667, 0xbb67ae85, 0x3c6ef372, 0xa54ff53a,
         0x510e527f, 0x9b05688c, 0x1f83d9ab, 0x5be0cd19]\<rparr>"

definition sha256_byte :: "SHA256_CTX \<Rightarrow> byte \<Rightarrow> SHA256_CTX" where
  "sha256_byte ctx b =
     (let ctx = ctx\<lparr>ctx_data := (ctx_data ctx)[unat (ctx_datalen ctx) := b]\<rparr>;
          ctx = ctx\<lparr>ctx_datalen := ctx_datalen ctx + 1\<rparr>
      in if ctx_datalen ctx = 64 then
           let ctx = sha256_transform ctx (ctx_data ctx)
           in ctx\<lparr>ctx_bitlen := ctx_bitlen ctx + 512, ctx_datalen := 0\<rparr>
         else ctx)"

text \<open>
  The loop counter is a 32-bit \<open>WORD\<close> and the length a \<open>size_t\<close>: from \<open>2^32\<close> bytes on the loop does not
  end, which is the value \<open>None\<close>.
\<close>

partial_function (option) sha256_update_loop :: "u32 \<Rightarrow> bytes \<Rightarrow> SHA256_CTX \<Rightarrow> SHA256_CTX option" where
  "sha256_update_loop i data ctx =
     (if unat i < length data then sha256_update_loop (i + 1) data (sha256_byte ctx (data ! unat i))
      else Some ctx)"

definition sha256_update :: "SHA256_CTX \<Rightarrow> bytes \<Rightarrow> SHA256_CTX option" where
  "sha256_update ctx data = sha256_update_loop 0 data ctx"

text \<open>\<open>while (i < limit) ctx->data[i++] = 0x00\<close>\<close>

primrec zero_fill :: "nat \<Rightarrow> bytes \<Rightarrow> nat \<Rightarrow> bytes" where
  "zero_fill 0 d i = d"
| "zero_fill (Suc n) d i = zero_fill n (d[i := 0]) (i + 1)"

definition state_bytes :: "u32 list \<Rightarrow> bytes" where
  "state_bytes st =
     concat (map (\<lambda>w. map (\<lambda>i. ucast (drop_bit (24 - i * 8) w AND 0x000000ff)) [0..<4]) (take 8 st))"

definition put_bitlen :: "u64 \<Rightarrow> bytes \<Rightarrow> bytes" where
  "put_bitlen l d =
     d[63 := ucast l, 62 := ucast (drop_bit 8 l), 61 := ucast (drop_bit 16 l),
       60 := ucast (drop_bit 24 l), 59 := ucast (drop_bit 32 l), 58 := ucast (drop_bit 40 l),
       57 := ucast (drop_bit 48 l), 56 := ucast (drop_bit 56 l)]"

definition sha256_final :: "SHA256_CTX \<Rightarrow> bytes" where
  "sha256_final ctx =
     (let i = unat (ctx_datalen ctx);
          ctx = (if ctx_datalen ctx < 56 then
                   ctx\<lparr>ctx_data := zero_fill (56 - (i + 1)) ((ctx_data ctx)[i := 0x80]) (i + 1)\<rparr>
                 else
                   let ctx = ctx\<lparr>ctx_data :=
                         zero_fill (64 - (i + 1)) ((ctx_data ctx)[i := 0x80]) (i + 1)\<rparr>;
                       ctx = sha256_transform ctx (ctx_data ctx)
                   in ctx\<lparr>ctx_data := replicate 56 0 @ drop 56 (ctx_data ctx)\<rparr>);
          ctx = ctx\<lparr>ctx_bitlen := ctx_bitlen ctx + ucast (ctx_datalen ctx * 8)\<rparr>;
          ctx = ctx\<lparr>ctx_data := put_bitlen (ctx_bitlen ctx) (ctx_data ctx)\<rparr>;
          ctx = sha256_transform ctx (ctx_data ctx)
      in state_bytes (ctx_state ctx))"

text \<open>A context on the stack before \<open>sha256_init\<close>: the array has its size and any content.\<close>

definition sha256_ctx_alloc :: SHA256_CTX where
  "sha256_ctx_alloc =
     \<lparr>ctx_data = replicate 64 0, ctx_datalen = 0, ctx_bitlen = 0, ctx_state = replicate 8 0\<rparr>"

section \<open>Reference: the hash of a message\<close>

definition sha_iv :: "u32 list" where
  "sha_iv = ctx_state (sha256_init sha256_ctx_alloc)"

definition be64 :: "u64 \<Rightarrow> bytes" where
  "be64 l = map (\<lambda>i. ucast (drop_bit (56 - 8 * i) l)) [0..<8]"

definition sha_pad :: "bytes \<Rightarrow> bytes" where
  "sha_pad msg =
     msg @ [0x80] @ replicate ((119 - length msg mod 64) mod 64) 0
       @ be64 (of_nat (8 * length msg))"

function blocks64 :: "bytes \<Rightarrow> bytes list" where
  "blocks64 bs = (if length bs < 64 then [] else take 64 bs # blocks64 (drop 64 bs))"
  by pat_completeness auto
termination
  by (relation "measure length") auto

declare blocks64.simps [simp del]

definition sha256_hash :: "bytes \<Rightarrow> bytes" where
  "sha256_hash msg = state_bytes (foldl sha256_compress sha_iv (blocks64 (sha_pad msg)))"

section \<open>The streaming code computes the reference\<close>

lemma blocks64_short [simp]: "length bs < 64 \<Longrightarrow> blocks64 bs = []"
  by (simp add: blocks64.simps)

lemma blocks64_block [simp]: "length b = 64 \<Longrightarrow> blocks64 (b @ bs) = b # blocks64 bs"
  by (simp add: blocks64.simps [of "b @ bs"])

lemma blocks64_one [simp]: "length b = 64 \<Longrightarrow> blocks64 b = [b]"
  using blocks64_block [of b "[]"] by simp

lemma blocks64_append: "64 dvd length xs \<Longrightarrow> blocks64 (xs @ ys) = blocks64 xs @ blocks64 ys"
proof (induction xs rule: blocks64.induct)
  case (1 bs)
  show ?case
  proof (cases "length bs < 64")
    case True
    with 1(2) have "bs = []" by (auto dest: dvd_imp_le)
    then show ?thesis by simp
  next
    case False
    then have "64 dvd length (drop 64 bs)" using 1(2) by (simp add: dvd_diff_nat)
    with 1(1) False have "blocks64 (drop 64 bs @ ys) = blocks64 (drop 64 bs) @ blocks64 ys" by simp
    moreover have "blocks64 (bs @ ys) = take 64 bs # blocks64 (drop 64 bs @ ys)"
      using False blocks64.simps [of "bs @ ys"] by simp
    moreover have "blocks64 bs = take 64 bs # blocks64 (drop 64 bs)"
      using False blocks64.simps [of bs] by simp
    ultimately show ?thesis by simp
  qed
qed

text \<open>The context has absorbed the whole blocks \<open>q\<close> and buffers the rest \<open>t\<close>.\<close>

definition absorbed :: "SHA256_CTX \<Rightarrow> bytes \<Rightarrow> bytes \<Rightarrow> bool" where
  "absorbed ctx q t \<longleftrightarrow>
     64 dvd length q \<and> length t < 64 \<and> length (ctx_data ctx) = 64 \<and>
     ctx_datalen ctx = of_nat (length t) \<and> take (length t) (ctx_data ctx) = t \<and>
     ctx_bitlen ctx = of_nat (8 * length q) \<and>
     ctx_state ctx = foldl sha256_compress sha_iv (blocks64 q)"

lemma absorbed_init: "length (ctx_data ctx) = 64 \<Longrightarrow> absorbed (sha256_init ctx) [] []"
  by (simp add: absorbed_def sha256_init_def sha_iv_def)

lemma datalen_eq_63: "n < 64 \<Longrightarrow> (word_of_nat n :: u32) = 63 \<longleftrightarrow> n = 63"
  unfolding word_unat_eq_iff unat_of_nat by simp

lemma absorbed_byte:
  assumes "absorbed ctx q t"
  shows "if length t = 63 then absorbed (sha256_byte ctx b) (q @ t @ [b]) []
         else absorbed (sha256_byte ctx b) q (t @ [b])"
proof -
  let ?d = "(ctx_data ctx)[length t := b]"
  have t: "length t < 64" and d: "length (ctx_data ctx) = 64" "take (length t) (ctx_data ctx) = t"
    and q: "64 dvd length q"
    using assms by (auto simp: absorbed_def)
  have un: "unat (of_nat (length t) :: u32) = length t"
    using t by (simp add: unat_of_nat)
  have tk: "take (Suc (length t)) ?d = t @ [b]"
    using t d by (simp add: take_Suc_conv_app_nth)
  have dl: "unat (ctx_datalen ctx) = length t" and dl': "ctx_datalen ctx = of_nat (length t)"
    using assms un by (auto simp: absorbed_def)
  have byte: "sha256_byte ctx b =
     (if length t = 63
      then ctx\<lparr>ctx_data := ?d, ctx_datalen := 0, ctx_bitlen := ctx_bitlen ctx + 512,
              ctx_state := sha256_compress (ctx_state ctx) ?d\<rparr>
      else ctx\<lparr>ctx_data := ?d, ctx_datalen := of_nat (Suc (length t))\<rparr>)"
    by (simp add: sha256_byte_def sha256_transform_def Let_def dl) (simp add: dl' datalen_eq_63 [OF t])
  show ?thesis
  proof (cases "length t = 63")
    case True
    then have td: "?d = t @ [b]" using tk d by simp
    have "64 dvd length q + 64" using q by simp
    with True assms show ?thesis
      unfolding byte td absorbed_def by (simp add: blocks64_append algebra_simps)
  next
    case False
    with assms show ?thesis
      unfolding byte using tk t by (simp add: absorbed_def)
  qed
qed

text \<open>The loop ends exactly below \<open>2^32\<close> bytes, and has then taken them in turn.\<close>

lemma sha256_update_loop_ends:
  assumes "length data < 2 ^ 32" "unat i \<le> length data"
  shows "sha256_update_loop i data ctx = Some (foldl sha256_byte ctx (drop (unat i) data))"
  using assms(2)
proof (induction "length data - unat i" arbitrary: i ctx)
  case 0
  then show ?case by (simp add: sha256_update_loop.simps [of i])
next
  case (Suc n)
  then have i: "unat i < length data" by simp
  have "unat (i + 1) = unat i + 1"
    using i assms(1) by (intro unat_add_lem [THEN iffD1, of i 1, unfolded unat_1]) simp
  then show ?case
    using Suc.hyps(1) [of "i + 1" "sha256_byte ctx (data ! unat i)"] Suc.hyps(2) i
    by (simp add: sha256_update_loop.simps [of i] Cons_nth_drop_Suc [OF i, symmetric])
qed

lemma sha256_update_loop_diverges:
  assumes "2 ^ 32 \<le> length data"
  shows "sha256_update_loop i data ctx = None"
proof -
  have no: "length d < 2 ^ 32" if "sha256_update_loop i d ctx = Some r" for i d ctx r
  proof (rule sha256_update_loop.raw_induct [where P = "\<lambda>i d ctx r. length d < 2 ^ 32", OF _ that])
    fix loop i d ctx r
    assume IH: "\<And>i d ctx r. loop i d ctx = Some r \<Longrightarrow> length d < 2 ^ 32"
      and r: "(if unat (i :: u32) < length (d :: bytes) then loop (i + 1) d (sha256_byte ctx (d ! unat i)) else Some ctx) = Some r"
    have "unat i < 2 ^ LENGTH(32)" by (rule unsigned_less)
    then show "length d < 2 ^ 32" using IH r by (auto split: if_splits)
  qed
  show ?thesis using no [of i data ctx] assms by (cases "sha256_update_loop i data ctx") auto
qed

lemma sha256_update_ends: "length data < 2 ^ 32 \<Longrightarrow> sha256_update ctx data = Some (foldl sha256_byte ctx data)"
  by (simp add: sha256_update_def sha256_update_loop_ends)

lemma sha256_update_diverges: "2 ^ 32 \<le> length data \<Longrightarrow> sha256_update ctx data = None"
  by (simp add: sha256_update_def sha256_update_loop_diverges)

lemma absorbed_bytes:
  assumes "absorbed ctx q t"
  shows "\<exists>q' t'. q' @ t' = q @ t @ bs \<and> absorbed (foldl sha256_byte ctx bs) q' t'"
  using assms
proof (induction bs arbitrary: ctx q t)
  case Nil
  then show ?case by auto
next
  case (Cons b bs)
  have step: "if length t = 63 then absorbed (sha256_byte ctx b) (q @ t @ [b]) []
       else absorbed (sha256_byte ctx b) q (t @ [b])"
    by (rule absorbed_byte [OF Cons.prems])
  show ?case
    using step Cons.IH [of "sha256_byte ctx b" "q @ t @ [b]" "[]"]
      Cons.IH [of "sha256_byte ctx b" q "t @ [b]"]
    by (auto split: if_splits)
qed

lemma zero_fill_eq:
  "i + n \<le> length d \<Longrightarrow> zero_fill n d i = take i d @ replicate n 0 @ drop (i + n) d"
proof (induction n arbitrary: d i)
  case 0
  then show ?case by simp
next
  case (Suc n)
  then have "zero_fill (Suc n) d i =
      take (Suc i) (d[i := 0]) @ replicate n 0 @ drop (Suc i + n) (d[i := 0])"
    by simp
  also have "take (Suc i) (d[i := 0]) = take i d @ [0]"
    using Suc.prems by (simp add: take_Suc_conv_app_nth)
  finally show ?case by simp
qed

lemma put_bitlen_eq: "length d = 64 \<Longrightarrow> put_bitlen l d = take 56 d @ be64 l"
  by (rule nth_equalityI)
    (auto simp: put_bitlen_def be64_def nth_append nth_list_update less_Suc_eq_le
      numeral_eq_Suc)


lemma length_put_bitlen [simp]: "length (put_bitlen l d) = length d"
  by (simp add: put_bitlen_def)

lemma put_bitlen_append:
  "length p = 56 \<Longrightarrow> length r = 8 \<Longrightarrow> put_bitlen l (p @ r) = p @ be64 l"
  by (simp add: put_bitlen_eq)

lemma length_be64 [simp]: "length (be64 l) = 8"
  by (simp add: be64_def)

lemma absorbed_final:
  assumes "absorbed ctx q t"
  shows "sha256_final ctx = sha256_hash (q @ t)"
proof -
  let ?n = "length t"
  let ?l = "word_of_nat (8 * length (q @ t)) :: u64"
  have t: "?n < 64" and d: "length (ctx_data ctx) = 64" "take ?n (ctx_data ctx) = t"
    and q: "64 dvd length q" and dl: "ctx_datalen ctx = of_nat ?n"
    and bl: "ctx_bitlen ctx = of_nat (8 * length q)"
    and st: "ctx_state ctx = foldl sha256_compress sha_iv (blocks64 q)"
    using assms by (auto simp: absorbed_def)
  have un: "unat (of_nat ?n :: u32) = ?n" using t by (simp add: unat_of_nat)
  have less: "(of_nat ?n :: u32) < 56 \<longleftrightarrow> ?n < 56"
    by (simp add: word_less_nat_alt un)
  have "of_nat ?n * 8 = (word_of_nat (8 * ?n) :: u32)" by (simp add: mult.commute)
  moreover have "ucast (word_of_nat (8 * ?n) :: u32) = (word_of_nat (8 * ?n) :: u64)"
    using t by (simp only: unsigned_of_nat) (simp add: take_bit_nat_eq_self)
  ultimately have "ucast (of_nat ?n * 8 :: u32) = (word_of_nat (8 * ?n) :: u64)" by (simp only:)
  then have len: "ctx_bitlen ctx + ucast (ctx_datalen ctx * 8) = ?l"
    by (simp add: bl dl algebra_simps)
  have m: "length (q @ t) mod 64 = ?n" using q t by (auto elim!: dvdE)
  have fill: "zero_fill k ((ctx_data ctx)[?n := 0x80]) (Suc ?n)
       = t @ [0x80] @ replicate k 0 @ drop (Suc ?n + k) (ctx_data ctx)" if "Suc ?n + k \<le> 64" for k
    using that d t by (simp add: zero_fill_eq take_Suc_conv_app_nth)
  show ?thesis
  proof (cases "?n < 56")
    case True
    let ?b = "t @ [0x80] @ replicate (55 - ?n) 0 @ be64 ?l"
    have z: "(119 - ?n) mod 64 = 55 - ?n" using True by (simp add: mod_if)
    have "sha_pad (q @ t) = q @ ?b"
      unfolding sha_pad_def m z by simp
    moreover have "length ?b = 64" using True by simp
    ultimately have "sha256_hash (q @ t) =
        state_bytes (sha256_compress (foldl sha256_compress sha_iv (blocks64 q)) ?b)"
      unfolding sha256_hash_def by (simp only: blocks64_append [OF q] blocks64_one) simp
    moreover have "put_bitlen ?l (zero_fill (55 - ?n) ((ctx_data ctx)[?n := 0x80]) (Suc ?n)) = ?b"
    proof -
      have "zero_fill (55 - ?n) ((ctx_data ctx)[?n := 0x80]) (Suc ?n) =
          (t @ [0x80] @ replicate (55 - ?n) 0) @ drop 56 (ctx_data ctx)"
        using True by (simp add: fill)
      moreover have "put_bitlen ?l ((t @ [0x80] @ replicate (55 - ?n) 0) @ drop 56 (ctx_data ctx))
          = (t @ [0x80] @ replicate (55 - ?n) 0) @ be64 ?l"
        by (rule put_bitlen_append) (use True d in simp_all)
      ultimately show ?thesis by (simp only: append_assoc)
    qed
    ultimately show ?thesis
      using True by (simp add: sha256_final_def Let_def sha256_transform_def dl less un st
          len [unfolded dl])
  next
    case False
    let ?b1 = "t @ [0x80] @ replicate (63 - ?n) 0"
    let ?b2 = "replicate 56 0 @ be64 ?l"
    have z: "(119 - ?n) mod 64 = (63 - ?n) + 56" using False t by (simp add: mod_if)
    have "sha_pad (q @ t) = q @ (?b1 @ ?b2)"
      unfolding sha_pad_def m z by (simp add: replicate_add)
    moreover have "length ?b1 = 64" "length ?b2 = 64" using False t by simp_all
    ultimately have "sha256_hash (q @ t) = state_bytes (sha256_compress
        (sha256_compress (foldl sha256_compress sha_iv (blocks64 q)) ?b1) ?b2)"
      unfolding sha256_hash_def
      by (simp only: blocks64_append [OF q] blocks64_one blocks64_block) simp
    moreover have "zero_fill (63 - ?n) ((ctx_data ctx)[?n := 0x80]) (Suc ?n) = ?b1"
      using False d t by (simp add: fill)
    moreover have "put_bitlen ?l (replicate 56 0 @ drop 56 ?b1) = ?b2"
      using False t by (subst put_bitlen_eq) simp_all
    ultimately show ?thesis
      using False by (simp add: sha256_final_def Let_def sha256_transform_def dl less un st
          len [unfolded dl])
  qed
qed

lemma sha256_stream:
  "length (ctx_data ctx) = 64 \<Longrightarrow>
   sha256_final (foldl sha256_byte (sha256_init ctx) msg) = sha256_hash msg"
  using absorbed_bytes [OF absorbed_init, of ctx msg] absorbed_final by force

lemma length_state_bytes: "length st = 8 \<Longrightarrow> length (state_bytes st) = 32"
  by (simp add: state_bytes_def length_concat comp_def sum_list_triv)

lemma length_compress [simp]: "length (sha256_compress st b) = 8"
  by (simp add: sha256_compress_def Let_def split: prod.split)

lemma length_sha256_final [simp, len_simps]: "length (sha256_final ctx) = 32"
  by (simp add: sha256_final_def Let_def sha256_transform_def length_state_bytes)

lemma length_foldl_compress: "length st = 8 \<Longrightarrow> length (foldl sha256_compress st bs) = 8"
  by (induction bs arbitrary: st) simp_all

lemma length_sha256_hash [simp, len_simps]: "length (sha256_hash msg) = 32"
  unfolding sha256_hash_def
  by (intro length_state_bytes length_foldl_compress) (simp add: sha_iv_def sha256_init_def)

section \<open>Property\<close>

text \<open>A sequence of updates: it ends if each of them does.\<close>

primrec sha256_updates :: "SHA256_CTX \<Rightarrow> bytes list \<Rightarrow> SHA256_CTX option" where
  "sha256_updates ctx [] = Some ctx"
| "sha256_updates ctx (c # cs) =
     (case sha256_update ctx c of
        None \<Rightarrow> None
      | Some ctx \<Rightarrow> sha256_updates ctx cs)"

lemma sha256_updates_end:
  "\<forall>c\<in>set cs. length c < 2 ^ 32 \<Longrightarrow> sha256_updates ctx cs = Some (foldl sha256_byte ctx (concat cs))"
  by (induction cs arbitrary: ctx) (simp_all add: sha256_update_ends)

lemma sha256_updates_diverge: "\<exists>c\<in>set cs. 2 ^ 32 \<le> length c \<Longrightarrow> sha256_updates ctx cs = None"
  by (induction cs arbitrary: ctx) (auto simp: sha256_update_diverges split: option.split)

text \<open>
  C38 A sequence of calls of \<open>sha256_update\<close> returns exactly if every piece is shorter than 2^32 bytes,
  what the 32-bit loop counter can count to; however a message is cut into such pieces,
  \<open>sha256_final\<close> then gives the digest of the whole: the compression of the padded message's 64 byte
  blocks from the standard's initial value, written out in big endian.
\<close>

theorem sha256_streaming:
  assumes "length (ctx_data ctx) = 64"
  shows "map_option sha256_final (sha256_updates (sha256_init ctx) chunks) =
    (if \<forall>c\<in>set chunks. length c < 2 ^ 32
     then Some (state_bytes (foldl sha256_compress sha_iv (blocks64 (sha_pad (concat chunks)))))
     else None)"
proof (cases "\<forall>c\<in>set chunks. length c < 2 ^ 32")
  case True
  then show ?thesis using assms by (simp add: sha256_updates_end sha256_stream sha256_hash_def)
next
  case False
  then have "\<exists>c\<in>set chunks. 2 ^ 32 \<le> length c" by (meson not_less)
  from sha256_updates_diverge [OF this] False show ?thesis by simp
qed

theorem sha256_streaming_witness:
  "map_option sha256_final (sha256_updates (sha256_init sha256_ctx_alloc) [[0x61], [0x62, 0x63]]) =
    Some (state_bytes (foldl sha256_compress sha_iv (blocks64 (sha_pad [0x61, 0x62, 0x63]))))"
  using sha256_streaming [of sha256_ctx_alloc "[[0x61], [0x62, 0x63]]"]
  by (simp add: sha256_ctx_alloc_def)

end
