(* ===== verification/Aes.thy ===== *)
theory Aes
  imports OlmPrelude
begin

text \<open>
  \<open>lib/crypto-algorithms/aes.c\<close>: the AES block cipher with its tables, as far as the library uses
  it (key schedule, encryption and decryption of one block; the modes of that file are not called).
  The 4 by 4 state is a tuple of rows, \<open>state[r][c]\<close> being column \<open>c\<close> of row \<open>r\<close>.  The lemmas show
  that each step of decryption undoes its step of encryption, the table-driven column mixing
  included, and hence that \<open>aes_decrypt\<close> inverts \<open>aes_encrypt\<close> for every key schedule.
\<close>

section \<open>Tables\<close>

definition aes_sbox :: "byte list list" where
  "aes_sbox =
    [[0x63,0x7C,0x77,0x7B,0xF2,0x6B,0x6F,0xC5,0x30,0x01,0x67,0x2B,0xFE,0xD7,0xAB,0x76],
     [0xCA,0x82,0xC9,0x7D,0xFA,0x59,0x47,0xF0,0xAD,0xD4,0xA2,0xAF,0x9C,0xA4,0x72,0xC0],
     [0xB7,0xFD,0x93,0x26,0x36,0x3F,0xF7,0xCC,0x34,0xA5,0xE5,0xF1,0x71,0xD8,0x31,0x15],
     [0x04,0xC7,0x23,0xC3,0x18,0x96,0x05,0x9A,0x07,0x12,0x80,0xE2,0xEB,0x27,0xB2,0x75],
     [0x09,0x83,0x2C,0x1A,0x1B,0x6E,0x5A,0xA0,0x52,0x3B,0xD6,0xB3,0x29,0xE3,0x2F,0x84],
     [0x53,0xD1,0x00,0xED,0x20,0xFC,0xB1,0x5B,0x6A,0xCB,0xBE,0x39,0x4A,0x4C,0x58,0xCF],
     [0xD0,0xEF,0xAA,0xFB,0x43,0x4D,0x33,0x85,0x45,0xF9,0x02,0x7F,0x50,0x3C,0x9F,0xA8],
     [0x51,0xA3,0x40,0x8F,0x92,0x9D,0x38,0xF5,0xBC,0xB6,0xDA,0x21,0x10,0xFF,0xF3,0xD2],
     [0xCD,0x0C,0x13,0xEC,0x5F,0x97,0x44,0x17,0xC4,0xA7,0x7E,0x3D,0x64,0x5D,0x19,0x73],
     [0x60,0x81,0x4F,0xDC,0x22,0x2A,0x90,0x88,0x46,0xEE,0xB8,0x14,0xDE,0x5E,0x0B,0xDB],
     [0xE0,0x32,0x3A,0x0A,0x49,0x06,0x24,0x5C,0xC2,0xD3,0xAC,0x62,0x91,0x95,0xE4,0x79],
     [0xE7,0xC8,0x37,0x6D,0x8D,0xD5,0x4E,0xA9,0x6C,0x56,0xF4,0xEA,0x65,0x7A,0xAE,0x08],
     [0xBA,0x78,0x25,0x2E,0x1C,0xA6,0xB4,0xC6,0xE8,0xDD,0x74,0x1F,0x4B,0xBD,0x8B,0x8A],
     [0x70,0x3E,0xB5,0x66,0x48,0x03,0xF6,0x0E,0x61,0x35,0x57,0xB9,0x86,0xC1,0x1D,0x9E],
     [0xE1,0xF8,0x98,0x11,0x69,0xD9,0x8E,0x94,0x9B,0x1E,0x87,0xE9,0xCE,0x55,0x28,0xDF],
     [0x8C,0xA1,0x89,0x0D,0xBF,0xE6,0x42,0x68,0x41,0x99,0x2D,0x0F,0xB0,0x54,0xBB,0x16]]"

definition aes_invsbox :: "byte list list" where
  "aes_invsbox =
    [[0x52,0x09,0x6A,0xD5,0x30,0x36,0xA5,0x38,0xBF,0x40,0xA3,0x9E,0x81,0xF3,0xD7,0xFB],
     [0x7C,0xE3,0x39,0x82,0x9B,0x2F,0xFF,0x87,0x34,0x8E,0x43,0x44,0xC4,0xDE,0xE9,0xCB],
     [0x54,0x7B,0x94,0x32,0xA6,0xC2,0x23,0x3D,0xEE,0x4C,0x95,0x0B,0x42,0xFA,0xC3,0x4E],
     [0x08,0x2E,0xA1,0x66,0x28,0xD9,0x24,0xB2,0x76,0x5B,0xA2,0x49,0x6D,0x8B,0xD1,0x25],
     [0x72,0xF8,0xF6,0x64,0x86,0x68,0x98,0x16,0xD4,0xA4,0x5C,0xCC,0x5D,0x65,0xB6,0x92],
     [0x6C,0x70,0x48,0x50,0xFD,0xED,0xB9,0xDA,0x5E,0x15,0x46,0x57,0xA7,0x8D,0x9D,0x84],
     [0x90,0xD8,0xAB,0x00,0x8C,0xBC,0xD3,0x0A,0xF7,0xE4,0x58,0x05,0xB8,0xB3,0x45,0x06],
     [0xD0,0x2C,0x1E,0x8F,0xCA,0x3F,0x0F,0x02,0xC1,0xAF,0xBD,0x03,0x01,0x13,0x8A,0x6B],
     [0x3A,0x91,0x11,0x41,0x4F,0x67,0xDC,0xEA,0x97,0xF2,0xCF,0xCE,0xF0,0xB4,0xE6,0x73],
     [0x96,0xAC,0x74,0x22,0xE7,0xAD,0x35,0x85,0xE2,0xF9,0x37,0xE8,0x1C,0x75,0xDF,0x6E],
     [0x47,0xF1,0x1A,0x71,0x1D,0x29,0xC5,0x89,0x6F,0xB7,0x62,0x0E,0xAA,0x18,0xBE,0x1B],
     [0xFC,0x56,0x3E,0x4B,0xC6,0xD2,0x79,0x20,0x9A,0xDB,0xC0,0xFE,0x78,0xCD,0x5A,0xF4],
     [0x1F,0xDD,0xA8,0x33,0x88,0x07,0xC7,0x31,0xB1,0x12,0x10,0x59,0x27,0x80,0xEC,0x5F],
     [0x60,0x51,0x7F,0xA9,0x19,0xB5,0x4A,0x0D,0x2D,0xE5,0x7A,0x9F,0x93,0xC9,0x9C,0xEF],
     [0xA0,0xE0,0x3B,0x4D,0xAE,0x2A,0xF5,0xB0,0xC8,0xEB,0xBB,0x3C,0x83,0x53,0x99,0x61],
     [0x17,0x2B,0x04,0x7E,0xBA,0x77,0xD6,0x26,0xE1,0x69,0x14,0x63,0x55,0x21,0x0C,0x7D]]"

definition gf_mul :: "byte list list" where
  "gf_mul =
    [[0x00,0x00,0x00,0x00,0x00,0x00], [0x02,0x03,0x09,0x0b,0x0d,0x0e],
     [0x04,0x06,0x12,0x16,0x1a,0x1c], [0x06,0x05,0x1b,0x1d,0x17,0x12],
     [0x08,0x0c,0x24,0x2c,0x34,0x38], [0x0a,0x0f,0x2d,0x27,0x39,0x36],
     [0x0c,0x0a,0x36,0x3a,0x2e,0x24], [0x0e,0x09,0x3f,0x31,0x23,0x2a],
     [0x10,0x18,0x48,0x58,0x68,0x70], [0x12,0x1b,0x41,0x53,0x65,0x7e],
     [0x14,0x1e,0x5a,0x4e,0x72,0x6c], [0x16,0x1d,0x53,0x45,0x7f,0x62],
     [0x18,0x14,0x6c,0x74,0x5c,0x48], [0x1a,0x17,0x65,0x7f,0x51,0x46],
     [0x1c,0x12,0x7e,0x62,0x46,0x54], [0x1e,0x11,0x77,0x69,0x4b,0x5a],
     [0x20,0x30,0x90,0xb0,0xd0,0xe0], [0x22,0x33,0x99,0xbb,0xdd,0xee],
     [0x24,0x36,0x82,0xa6,0xca,0xfc], [0x26,0x35,0x8b,0xad,0xc7,0xf2],
     [0x28,0x3c,0xb4,0x9c,0xe4,0xd8], [0x2a,0x3f,0xbd,0x97,0xe9,0xd6],
     [0x2c,0x3a,0xa6,0x8a,0xfe,0xc4], [0x2e,0x39,0xaf,0x81,0xf3,0xca],
     [0x30,0x28,0xd8,0xe8,0xb8,0x90], [0x32,0x2b,0xd1,0xe3,0xb5,0x9e],
     [0x34,0x2e,0xca,0xfe,0xa2,0x8c], [0x36,0x2d,0xc3,0xf5,0xaf,0x82],
     [0x38,0x24,0xfc,0xc4,0x8c,0xa8], [0x3a,0x27,0xf5,0xcf,0x81,0xa6],
     [0x3c,0x22,0xee,0xd2,0x96,0xb4], [0x3e,0x21,0xe7,0xd9,0x9b,0xba],
     [0x40,0x60,0x3b,0x7b,0xbb,0xdb], [0x42,0x63,0x32,0x70,0xb6,0xd5],
     [0x44,0x66,0x29,0x6d,0xa1,0xc7], [0x46,0x65,0x20,0x66,0xac,0xc9],
     [0x48,0x6c,0x1f,0x57,0x8f,0xe3], [0x4a,0x6f,0x16,0x5c,0x82,0xed],
     [0x4c,0x6a,0x0d,0x41,0x95,0xff], [0x4e,0x69,0x04,0x4a,0x98,0xf1],
     [0x50,0x78,0x73,0x23,0xd3,0xab], [0x52,0x7b,0x7a,0x28,0xde,0xa5],
     [0x54,0x7e,0x61,0x35,0xc9,0xb7], [0x56,0x7d,0x68,0x3e,0xc4,0xb9],
     [0x58,0x74,0x57,0x0f,0xe7,0x93], [0x5a,0x77,0x5e,0x04,0xea,0x9d],
     [0x5c,0x72,0x45,0x19,0xfd,0x8f], [0x5e,0x71,0x4c,0x12,0xf0,0x81],
     [0x60,0x50,0xab,0xcb,0x6b,0x3b], [0x62,0x53,0xa2,0xc0,0x66,0x35],
     [0x64,0x56,0xb9,0xdd,0x71,0x27], [0x66,0x55,0xb0,0xd6,0x7c,0x29],
     [0x68,0x5c,0x8f,0xe7,0x5f,0x03], [0x6a,0x5f,0x86,0xec,0x52,0x0d],
     [0x6c,0x5a,0x9d,0xf1,0x45,0x1f], [0x6e,0x59,0x94,0xfa,0x48,0x11],
     [0x70,0x48,0xe3,0x93,0x03,0x4b], [0x72,0x4b,0xea,0x98,0x0e,0x45],
     [0x74,0x4e,0xf1,0x85,0x19,0x57], [0x76,0x4d,0xf8,0x8e,0x14,0x59],
     [0x78,0x44,0xc7,0xbf,0x37,0x73], [0x7a,0x47,0xce,0xb4,0x3a,0x7d],
     [0x7c,0x42,0xd5,0xa9,0x2d,0x6f], [0x7e,0x41,0xdc,0xa2,0x20,0x61],
     [0x80,0xc0,0x76,0xf6,0x6d,0xad], [0x82,0xc3,0x7f,0xfd,0x60,0xa3],
     [0x84,0xc6,0x64,0xe0,0x77,0xb1], [0x86,0xc5,0x6d,0xeb,0x7a,0xbf],
     [0x88,0xcc,0x52,0xda,0x59,0x95], [0x8a,0xcf,0x5b,0xd1,0x54,0x9b],
     [0x8c,0xca,0x40,0xcc,0x43,0x89], [0x8e,0xc9,0x49,0xc7,0x4e,0x87],
     [0x90,0xd8,0x3e,0xae,0x05,0xdd], [0x92,0xdb,0x37,0xa5,0x08,0xd3],
     [0x94,0xde,0x2c,0xb8,0x1f,0xc1], [0x96,0xdd,0x25,0xb3,0x12,0xcf],
     [0x98,0xd4,0x1a,0x82,0x31,0xe5], [0x9a,0xd7,0x13,0x89,0x3c,0xeb],
     [0x9c,0xd2,0x08,0x94,0x2b,0xf9], [0x9e,0xd1,0x01,0x9f,0x26,0xf7],
     [0xa0,0xf0,0xe6,0x46,0xbd,0x4d], [0xa2,0xf3,0xef,0x4d,0xb0,0x43],
     [0xa4,0xf6,0xf4,0x50,0xa7,0x51], [0xa6,0xf5,0xfd,0x5b,0xaa,0x5f],
     [0xa8,0xfc,0xc2,0x6a,0x89,0x75], [0xaa,0xff,0xcb,0x61,0x84,0x7b],
     [0xac,0xfa,0xd0,0x7c,0x93,0x69], [0xae,0xf9,0xd9,0x77,0x9e,0x67],
     [0xb0,0xe8,0xae,0x1e,0xd5,0x3d], [0xb2,0xeb,0xa7,0x15,0xd8,0x33],
     [0xb4,0xee,0xbc,0x08,0xcf,0x21], [0xb6,0xed,0xb5,0x03,0xc2,0x2f],
     [0xb8,0xe4,0x8a,0x32,0xe1,0x05], [0xba,0xe7,0x83,0x39,0xec,0x0b],
     [0xbc,0xe2,0x98,0x24,0xfb,0x19], [0xbe,0xe1,0x91,0x2f,0xf6,0x17],
     [0xc0,0xa0,0x4d,0x8d,0xd6,0x76], [0xc2,0xa3,0x44,0x86,0xdb,0x78],
     [0xc4,0xa6,0x5f,0x9b,0xcc,0x6a], [0xc6,0xa5,0x56,0x90,0xc1,0x64],
     [0xc8,0xac,0x69,0xa1,0xe2,0x4e], [0xca,0xaf,0x60,0xaa,0xef,0x40],
     [0xcc,0xaa,0x7b,0xb7,0xf8,0x52], [0xce,0xa9,0x72,0xbc,0xf5,0x5c],
     [0xd0,0xb8,0x05,0xd5,0xbe,0x06], [0xd2,0xbb,0x0c,0xde,0xb3,0x08],
     [0xd4,0xbe,0x17,0xc3,0xa4,0x1a], [0xd6,0xbd,0x1e,0xc8,0xa9,0x14],
     [0xd8,0xb4,0x21,0xf9,0x8a,0x3e], [0xda,0xb7,0x28,0xf2,0x87,0x30],
     [0xdc,0xb2,0x33,0xef,0x90,0x22], [0xde,0xb1,0x3a,0xe4,0x9d,0x2c],
     [0xe0,0x90,0xdd,0x3d,0x06,0x96], [0xe2,0x93,0xd4,0x36,0x0b,0x98],
     [0xe4,0x96,0xcf,0x2b,0x1c,0x8a], [0xe6,0x95,0xc6,0x20,0x11,0x84],
     [0xe8,0x9c,0xf9,0x11,0x32,0xae], [0xea,0x9f,0xf0,0x1a,0x3f,0xa0],
     [0xec,0x9a,0xeb,0x07,0x28,0xb2], [0xee,0x99,0xe2,0x0c,0x25,0xbc],
     [0xf0,0x88,0x95,0x65,0x6e,0xe6], [0xf2,0x8b,0x9c,0x6e,0x63,0xe8],
     [0xf4,0x8e,0x87,0x73,0x74,0xfa], [0xf6,0x8d,0x8e,0x78,0x79,0xf4],
     [0xf8,0x84,0xb1,0x49,0x5a,0xde], [0xfa,0x87,0xb8,0x42,0x57,0xd0],
     [0xfc,0x82,0xa3,0x5f,0x40,0xc2], [0xfe,0x81,0xaa,0x54,0x4d,0xcc],
     [0x1b,0x9b,0xec,0xf7,0xda,0x41], [0x19,0x98,0xe5,0xfc,0xd7,0x4f],
     [0x1f,0x9d,0xfe,0xe1,0xc0,0x5d], [0x1d,0x9e,0xf7,0xea,0xcd,0x53],
     [0x13,0x97,0xc8,0xdb,0xee,0x79], [0x11,0x94,0xc1,0xd0,0xe3,0x77],
     [0x17,0x91,0xda,0xcd,0xf4,0x65], [0x15,0x92,0xd3,0xc6,0xf9,0x6b],
     [0x0b,0x83,0xa4,0xaf,0xb2,0x31], [0x09,0x80,0xad,0xa4,0xbf,0x3f],
     [0x0f,0x85,0xb6,0xb9,0xa8,0x2d], [0x0d,0x86,0xbf,0xb2,0xa5,0x23],
     [0x03,0x8f,0x80,0x83,0x86,0x09], [0x01,0x8c,0x89,0x88,0x8b,0x07],
     [0x07,0x89,0x92,0x95,0x9c,0x15], [0x05,0x8a,0x9b,0x9e,0x91,0x1b],
     [0x3b,0xab,0x7c,0x47,0x0a,0xa1], [0x39,0xa8,0x75,0x4c,0x07,0xaf],
     [0x3f,0xad,0x6e,0x51,0x10,0xbd], [0x3d,0xae,0x67,0x5a,0x1d,0xb3],
     [0x33,0xa7,0x58,0x6b,0x3e,0x99], [0x31,0xa4,0x51,0x60,0x33,0x97],
     [0x37,0xa1,0x4a,0x7d,0x24,0x85], [0x35,0xa2,0x43,0x76,0x29,0x8b],
     [0x2b,0xb3,0x34,0x1f,0x62,0xd1], [0x29,0xb0,0x3d,0x14,0x6f,0xdf],
     [0x2f,0xb5,0x26,0x09,0x78,0xcd], [0x2d,0xb6,0x2f,0x02,0x75,0xc3],
     [0x23,0xbf,0x10,0x33,0x56,0xe9], [0x21,0xbc,0x19,0x38,0x5b,0xe7],
     [0x27,0xb9,0x02,0x25,0x4c,0xf5], [0x25,0xba,0x0b,0x2e,0x41,0xfb],
     [0x5b,0xfb,0xd7,0x8c,0x61,0x9a], [0x59,0xf8,0xde,0x87,0x6c,0x94],
     [0x5f,0xfd,0xc5,0x9a,0x7b,0x86], [0x5d,0xfe,0xcc,0x91,0x76,0x88],
     [0x53,0xf7,0xf3,0xa0,0x55,0xa2], [0x51,0xf4,0xfa,0xab,0x58,0xac],
     [0x57,0xf1,0xe1,0xb6,0x4f,0xbe], [0x55,0xf2,0xe8,0xbd,0x42,0xb0],
     [0x4b,0xe3,0x9f,0xd4,0x09,0xea], [0x49,0xe0,0x96,0xdf,0x04,0xe4],
     [0x4f,0xe5,0x8d,0xc2,0x13,0xf6], [0x4d,0xe6,0x84,0xc9,0x1e,0xf8],
     [0x43,0xef,0xbb,0xf8,0x3d,0xd2], [0x41,0xec,0xb2,0xf3,0x30,0xdc],
     [0x47,0xe9,0xa9,0xee,0x27,0xce], [0x45,0xea,0xa0,0xe5,0x2a,0xc0],
     [0x7b,0xcb,0x47,0x3c,0xb1,0x7a], [0x79,0xc8,0x4e,0x37,0xbc,0x74],
     [0x7f,0xcd,0x55,0x2a,0xab,0x66], [0x7d,0xce,0x5c,0x21,0xa6,0x68],
     [0x73,0xc7,0x63,0x10,0x85,0x42], [0x71,0xc4,0x6a,0x1b,0x88,0x4c],
     [0x77,0xc1,0x71,0x06,0x9f,0x5e], [0x75,0xc2,0x78,0x0d,0x92,0x50],
     [0x6b,0xd3,0x0f,0x64,0xd9,0x0a], [0x69,0xd0,0x06,0x6f,0xd4,0x04],
     [0x6f,0xd5,0x1d,0x72,0xc3,0x16], [0x6d,0xd6,0x14,0x79,0xce,0x18],
     [0x63,0xdf,0x2b,0x48,0xed,0x32], [0x61,0xdc,0x22,0x43,0xe0,0x3c],
     [0x67,0xd9,0x39,0x5e,0xf7,0x2e], [0x65,0xda,0x30,0x55,0xfa,0x20],
     [0x9b,0x5b,0x9a,0x01,0xb7,0xec], [0x99,0x58,0x93,0x0a,0xba,0xe2],
     [0x9f,0x5d,0x88,0x17,0xad,0xf0], [0x9d,0x5e,0x81,0x1c,0xa0,0xfe],
     [0x93,0x57,0xbe,0x2d,0x83,0xd4], [0x91,0x54,0xb7,0x26,0x8e,0xda],
     [0x97,0x51,0xac,0x3b,0x99,0xc8], [0x95,0x52,0xa5,0x30,0x94,0xc6],
     [0x8b,0x43,0xd2,0x59,0xdf,0x9c], [0x89,0x40,0xdb,0x52,0xd2,0x92],
     [0x8f,0x45,0xc0,0x4f,0xc5,0x80], [0x8d,0x46,0xc9,0x44,0xc8,0x8e],
     [0x83,0x4f,0xf6,0x75,0xeb,0xa4], [0x81,0x4c,0xff,0x7e,0xe6,0xaa],
     [0x87,0x49,0xe4,0x63,0xf1,0xb8], [0x85,0x4a,0xed,0x68,0xfc,0xb6],
     [0xbb,0x6b,0x0a,0xb1,0x67,0x0c], [0xb9,0x68,0x03,0xba,0x6a,0x02],
     [0xbf,0x6d,0x18,0xa7,0x7d,0x10], [0xbd,0x6e,0x11,0xac,0x70,0x1e],
     [0xb3,0x67,0x2e,0x9d,0x53,0x34], [0xb1,0x64,0x27,0x96,0x5e,0x3a],
     [0xb7,0x61,0x3c,0x8b,0x49,0x28], [0xb5,0x62,0x35,0x80,0x44,0x26],
     [0xab,0x73,0x42,0xe9,0x0f,0x7c], [0xa9,0x70,0x4b,0xe2,0x02,0x72],
     [0xaf,0x75,0x50,0xff,0x15,0x60], [0xad,0x76,0x59,0xf4,0x18,0x6e],
     [0xa3,0x7f,0x66,0xc5,0x3b,0x44], [0xa1,0x7c,0x6f,0xce,0x36,0x4a],
     [0xa7,0x79,0x74,0xd3,0x21,0x58], [0xa5,0x7a,0x7d,0xd8,0x2c,0x56],
     [0xdb,0x3b,0xa1,0x7a,0x0c,0x37], [0xd9,0x38,0xa8,0x71,0x01,0x39],
     [0xdf,0x3d,0xb3,0x6c,0x16,0x2b], [0xdd,0x3e,0xba,0x67,0x1b,0x25],
     [0xd3,0x37,0x85,0x56,0x38,0x0f], [0xd1,0x34,0x8c,0x5d,0x35,0x01],
     [0xd7,0x31,0x97,0x40,0x22,0x13], [0xd5,0x32,0x9e,0x4b,0x2f,0x1d],
     [0xcb,0x23,0xe9,0x22,0x64,0x47], [0xc9,0x20,0xe0,0x29,0x69,0x49],
     [0xcf,0x25,0xfb,0x34,0x7e,0x5b], [0xcd,0x26,0xf2,0x3f,0x73,0x55],
     [0xc3,0x2f,0xcd,0x0e,0x50,0x7f], [0xc1,0x2c,0xc4,0x05,0x5d,0x71],
     [0xc7,0x29,0xdf,0x18,0x4a,0x63], [0xc5,0x2a,0xd6,0x13,0x47,0x6d],
     [0xfb,0x0b,0x31,0xca,0xdc,0xd7], [0xf9,0x08,0x38,0xc1,0xd1,0xd9],
     [0xff,0x0d,0x23,0xdc,0xc6,0xcb], [0xfd,0x0e,0x2a,0xd7,0xcb,0xc5],
     [0xf3,0x07,0x15,0xe6,0xe8,0xef], [0xf1,0x04,0x1c,0xed,0xe5,0xe1],
     [0xf7,0x01,0x07,0xf0,0xf2,0xf3], [0xf5,0x02,0x0e,0xfb,0xff,0xfd],
     [0xeb,0x13,0x79,0x92,0xb4,0xa7], [0xe9,0x10,0x70,0x99,0xb9,0xa9],
     [0xef,0x15,0x6b,0x84,0xae,0xbb], [0xed,0x16,0x62,0x8f,0xa3,0xb5],
     [0xe3,0x1f,0x5d,0xbe,0x80,0x9f], [0xe1,0x1c,0x54,0xb5,0x8d,0x91],
     [0xe7,0x19,0x4f,0xa8,0x9a,0x83], [0xe5,0x1a,0x46,0xa3,0x97,0x8d]]"

definition Rcon :: "u32 list" where
  "Rcon =
    [0x01000000, 0x02000000, 0x04000000, 0x08000000, 0x10000000, 0x20000000,
     0x40000000, 0x80000000, 0x1b000000, 0x36000000, 0x6c000000, 0xd8000000,
     0xab000000, 0x4d000000, 0x9a000000]"

section \<open>Key schedule\<close>

definition KE_ROTWORD :: "u32 \<Rightarrow> u32" where
  "KE_ROTWORD x = push_bit 8 x OR drop_bit 24 x"

definition SubWord :: "u32 \<Rightarrow> u32" where
  "SubWord word =
     (let s = (\<lambda>hi lo. ucast (aes_sbox ! unat (drop_bit hi word AND 0x0F) !
                  unat (drop_bit lo word AND 0x0F)) :: u32)
      in s 4 0 + push_bit 8 (s 12 8) + push_bit 16 (s 20 16) + push_bit 24 (s 28 24))"

definition key_word :: "bytes \<Rightarrow> nat \<Rightarrow> u32" where
  "key_word key idx =
     push_bit 24 (ucast (key ! (4 * idx))) OR push_bit 16 (ucast (key ! (4 * idx + 1))) OR
     push_bit 8 (ucast (key ! (4 * idx + 2))) OR ucast (key ! (4 * idx + 3))"

primrec key_expand :: "nat \<Rightarrow> nat \<Rightarrow> u32 list \<Rightarrow> u32 list" where
  "key_expand 0 Nk w = w"
| "key_expand (Suc n) Nk w =
     (let idx = length w;
          temp = w ! (idx - 1);
          temp = (if idx mod Nk = 0 then SubWord (KE_ROTWORD temp) XOR Rcon ! ((idx - 1) div Nk)
                  else if Nk > 6 \<and> idx mod Nk = 4 then SubWord temp
                  else temp)
      in key_expand n Nk (w @ [w ! (idx - Nk) XOR temp]))"

text \<open>The schedule \<open>w\<close>; a key size the switch does not know leaves the caller's array as it is.\<close>

definition aes_key_setup :: "bytes \<Rightarrow> u32 list \<Rightarrow> nat \<Rightarrow> u32 list" where
  "aes_key_setup key w keysize =
     (let Nb = 4;
          setup = (\<lambda>Nr Nk. key_expand (Nb * (Nr + 1) - Nk) Nk (map (key_word key) [0..<Nk]))
      in if keysize = 128 then setup 10 4
         else if keysize = 192 then setup 12 6
         else if keysize = 256 then setup 14 8
         else w)"

section \<open>Round steps\<close>

type_synonym aes_row = "byte \<times> byte \<times> byte \<times> byte"
type_synonym aes_state = "aes_row \<times> aes_row \<times> aes_row \<times> aes_row"

fun AddRoundKey :: "aes_state \<Rightarrow> u32 \<times> u32 \<times> u32 \<times> u32 \<Rightarrow> aes_state" where
  "AddRoundKey ((s00, s01, s02, s03), (s10, s11, s12, s13),
                (s20, s21, s22, s23), (s30, s31, s32, s33)) (w0, w1, w2, w3) =
     ((s00 XOR ucast (drop_bit 24 w0), s01 XOR ucast (drop_bit 24 w1),
       s02 XOR ucast (drop_bit 24 w2), s03 XOR ucast (drop_bit 24 w3)),
      (s10 XOR ucast (drop_bit 16 w0), s11 XOR ucast (drop_bit 16 w1),
       s12 XOR ucast (drop_bit 16 w2), s13 XOR ucast (drop_bit 16 w3)),
      (s20 XOR ucast (drop_bit 8 w0), s21 XOR ucast (drop_bit 8 w1),
       s22 XOR ucast (drop_bit 8 w2), s23 XOR ucast (drop_bit 8 w3)),
      (s30 XOR ucast w0, s31 XOR ucast w1, s32 XOR ucast w2, s33 XOR ucast w3))"

text \<open>\<open>&key[i]\<close>, of which the step reads four words.\<close>

definition round_key :: "u32 list \<Rightarrow> nat \<Rightarrow> u32 \<times> u32 \<times> u32 \<times> u32" where
  "round_key key i = (key ! i, key ! (i + 1), key ! (i + 2), key ! (i + 3))"

definition sbox :: "byte \<Rightarrow> byte" where
  "sbox b = aes_sbox ! unat (drop_bit 4 b) ! unat (b AND 0x0F)"

definition invsbox :: "byte \<Rightarrow> byte" where
  "invsbox b = aes_invsbox ! unat (drop_bit 4 b) ! unat (b AND 0x0F)"

fun SubBytes :: "aes_state \<Rightarrow> aes_state" where
  "SubBytes ((s00, s01, s02, s03), (s10, s11, s12, s13),
             (s20, s21, s22, s23), (s30, s31, s32, s33)) =
     ((sbox s00, sbox s01, sbox s02, sbox s03), (sbox s10, sbox s11, sbox s12, sbox s13),
      (sbox s20, sbox s21, sbox s22, sbox s23), (sbox s30, sbox s31, sbox s32, sbox s33))"

fun InvSubBytes :: "aes_state \<Rightarrow> aes_state" where
  "InvSubBytes ((s00, s01, s02, s03), (s10, s11, s12, s13),
                (s20, s21, s22, s23), (s30, s31, s32, s33)) =
     ((invsbox s00, invsbox s01, invsbox s02, invsbox s03),
      (invsbox s10, invsbox s11, invsbox s12, invsbox s13),
      (invsbox s20, invsbox s21, invsbox s22, invsbox s23),
      (invsbox s30, invsbox s31, invsbox s32, invsbox s33))"

fun ShiftRows :: "aes_state \<Rightarrow> aes_state" where
  "ShiftRows (r0, (s10, s11, s12, s13), (s20, s21, s22, s23), (s30, s31, s32, s33)) =
     (r0, (s11, s12, s13, s10), (s22, s23, s20, s21), (s33, s30, s31, s32))"

fun InvShiftRows :: "aes_state \<Rightarrow> aes_state" where
  "InvShiftRows (r0, (s10, s11, s12, s13), (s20, s21, s22, s23), (s30, s31, s32, s33)) =
     (r0, (s13, s10, s11, s12), (s22, s23, s20, s21), (s31, s32, s33, s30))"

text \<open>The code unrolls the column step four times; this is one column.\<close>

definition gf :: "byte \<Rightarrow> nat \<Rightarrow> byte" where
  "gf b k = gf_mul ! unat b ! k"

fun mix_column :: "byte \<times> byte \<times> byte \<times> byte \<Rightarrow> byte \<times> byte \<times> byte \<times> byte" where
  "mix_column (c0, c1, c2, c3) =
     (gf c0 0 XOR gf c1 1 XOR c2 XOR c3,
      c0 XOR gf c1 0 XOR gf c2 1 XOR c3,
      c0 XOR c1 XOR gf c2 0 XOR gf c3 1,
      gf c0 1 XOR c1 XOR c2 XOR gf c3 0)"

fun inv_mix_column :: "byte \<times> byte \<times> byte \<times> byte \<Rightarrow> byte \<times> byte \<times> byte \<times> byte" where
  "inv_mix_column (c0, c1, c2, c3) =
     (gf c0 5 XOR gf c1 3 XOR gf c2 4 XOR gf c3 2,
      gf c0 2 XOR gf c1 5 XOR gf c2 3 XOR gf c3 4,
      gf c0 4 XOR gf c1 2 XOR gf c2 5 XOR gf c3 3,
      gf c0 3 XOR gf c1 4 XOR gf c2 2 XOR gf c3 5)"

fun on_columns ::
  "(byte \<times> byte \<times> byte \<times> byte \<Rightarrow> byte \<times> byte \<times> byte \<times> byte) \<Rightarrow> aes_state \<Rightarrow> aes_state" where
  "on_columns f ((s00, s01, s02, s03), (s10, s11, s12, s13),
                 (s20, s21, s22, s23), (s30, s31, s32, s33)) =
     (let (a0, a1, a2, a3) = f (s00, s10, s20, s30);
          (b0, b1, b2, b3) = f (s01, s11, s21, s31);
          (c0, c1, c2, c3) = f (s02, s12, s22, s32);
          (d0, d1, d2, d3) = f (s03, s13, s23, s33)
      in ((a0, b0, c0, d0), (a1, b1, c1, d1), (a2, b2, c2, d2), (a3, b3, c3, d3)))"

definition MixColumns :: "aes_state \<Rightarrow> aes_state" where
  "MixColumns state = on_columns mix_column state"

definition InvMixColumns :: "aes_state \<Rightarrow> aes_state" where
  "InvMixColumns state = on_columns inv_mix_column state"

section \<open>One block\<close>

definition load_state :: "bytes \<Rightarrow> aes_state" where
  "load_state i =
     ((i ! 0, i ! 4, i ! 8, i ! 12), (i ! 1, i ! 5, i ! 9, i ! 13),
      (i ! 2, i ! 6, i ! 10, i ! 14), (i ! 3, i ! 7, i ! 11, i ! 15))"

fun store_state :: "aes_state \<Rightarrow> bytes" where
  "store_state ((s00, s01, s02, s03), (s10, s11, s12, s13),
                (s20, s21, s22, s23), (s30, s31, s32, s33)) =
     [s00, s10, s20, s30, s01, s11, s21, s31, s02, s12, s22, s32, s03, s13, s23, s33]"

definition enc_round :: "u32 list \<Rightarrow> nat \<Rightarrow> aes_state \<Rightarrow> aes_state" where
  "enc_round key i state =
     AddRoundKey (MixColumns (ShiftRows (SubBytes state))) (round_key key i)"

definition enc_last_round :: "u32 list \<Rightarrow> nat \<Rightarrow> aes_state \<Rightarrow> aes_state" where
  "enc_last_round key i state = AddRoundKey (ShiftRows (SubBytes state)) (round_key key i)"

definition aes_encrypt :: "bytes \<Rightarrow> u32 list \<Rightarrow> nat \<Rightarrow> bytes" where
  "aes_encrypt inp key keysize =
     (let state = load_state inp;
          state = AddRoundKey state (round_key key 0);
          state = enc_round key 4 state;
          state = enc_round key 8 state;
          state = enc_round key 12 state;
          state = enc_round key 16 state;
          state = enc_round key 20 state;
          state = enc_round key 24 state;
          state = enc_round key 28 state;
          state = enc_round key 32 state;
          state = enc_round key 36 state;
          state =
            (if keysize \<noteq> 128 then
               let state = enc_round key 40 state;
                   state = enc_round key 44 state
               in if keysize \<noteq> 192 then
                    let state = enc_round key 48 state;
                        state = enc_round key 52 state
                    in enc_last_round key 56 state
                  else enc_last_round key 48 state
             else enc_last_round key 40 state)
      in store_state state)"

definition dec_round :: "u32 list \<Rightarrow> nat \<Rightarrow> aes_state \<Rightarrow> aes_state" where
  "dec_round key i state =
     InvMixColumns (AddRoundKey (InvSubBytes (InvShiftRows state)) (round_key key i))"

definition dec_last_round :: "u32 list \<Rightarrow> nat \<Rightarrow> aes_state \<Rightarrow> aes_state" where
  "dec_last_round key i state =
     AddRoundKey (InvSubBytes (InvShiftRows state)) (round_key key i)"

definition aes_decrypt :: "bytes \<Rightarrow> u32 list \<Rightarrow> nat \<Rightarrow> bytes" where
  "aes_decrypt inp key keysize =
     (let state = load_state inp;
          state =
            (if keysize > 128 then
               let state =
                     (if keysize > 192 then
                        let state = AddRoundKey state (round_key key 56);
                            state = dec_round key 52 state
                        in dec_round key 48 state
                      else AddRoundKey state (round_key key 48));
                   state = dec_round key 44 state
               in dec_round key 40 state
             else AddRoundKey state (round_key key 40));
          state = dec_round key 36 state;
          state = dec_round key 32 state;
          state = dec_round key 28 state;
          state = dec_round key 24 state;
          state = dec_round key 20 state;
          state = dec_round key 16 state;
          state = dec_round key 12 state;
          state = dec_round key 8 state;
          state = dec_round key 4 state;
          state = dec_last_round key 0 state
      in store_state state)"

section \<open>Decryption inverts encryption\<close>

text \<open>Facts about the tables are checked entry by entry.\<close>

lemma all_bytes: "list_all (\<lambda>n. P (word_of_nat n :: byte)) [0..<256] \<Longrightarrow> P b"
proof -
  assume a: "list_all (\<lambda>n. P (word_of_nat n :: byte)) [0..<256]"
  have "unat b < 256" by (rule unat_byte_less)
  then have "P (word_of_nat (unat b))" using a unfolding list_all_iff by force
  then show ?thesis by simp
qed

lemma invsbox_sbox [simp]: "invsbox (sbox b) = b"
  by (rule all_bytes) code_simp

definition xtime :: "byte \<Rightarrow> byte" where
  "xtime b = push_bit 1 b XOR (if b AND 0x80 = 0 then 0 else 0x1b)"

definition gf_row :: "byte \<Rightarrow> bytes" where
  "gf_row b =
     (let x2 = xtime b; x4 = xtime x2; x8 = xtime x4
      in [x2, x2 XOR b, x8 XOR b, x8 XOR x2 XOR b, x8 XOR x4 XOR b, x8 XOR x4 XOR x2])"

lemma upt_bytes: "[0..<256] = 0 # Suc 0 # [2..<256]"
  by (simp add: upt_conv_Cons numeral_2_eq_2)

lemma gf_mul_rows: "gf_mul = map (\<lambda>n. gf_row (word_of_nat n)) [0..<256]"
  unfolding upt_bytes by (simp add: gf_mul_def gf_row_def xtime_def upt_rec_numeral)

lemma gf_columns:
  "gf b 0 = xtime b"
  "gf b (Suc 0) = xtime b XOR b"
  "gf b 2 = xtime (xtime (xtime b)) XOR b"
  "gf b 3 = xtime (xtime (xtime b)) XOR xtime b XOR b"
  "gf b 4 = xtime (xtime (xtime b)) XOR xtime (xtime b) XOR b"
  "gf b 5 = xtime (xtime (xtime b)) XOR xtime (xtime b) XOR xtime b"
proof -
  have "unat b < 256" by (rule unat_byte_less)
  then have r: "gf_mul ! unat b = gf_row b" by (simp add: gf_mul_rows)
  show "gf b 0 = xtime b"
    "gf b (Suc 0) = xtime b XOR b"
    "gf b 2 = xtime (xtime (xtime b)) XOR b"
    "gf b 3 = xtime (xtime (xtime b)) XOR xtime b XOR b"
    "gf b 4 = xtime (xtime (xtime b)) XOR xtime (xtime b) XOR b"
    "gf b 5 = xtime (xtime (xtime b)) XOR xtime (xtime b) XOR xtime b"
    by (simp_all add: gf_def r gf_row_def Let_def)
qed

lemma xtime_xor: "xtime (a XOR b) = xtime a XOR xtime b"
proof -
  have "(x AND 0x80 = 0) = (\<not> bit x 7)" for x :: byte
    using bit_iff_and_push_bit_not_eq_0 [of x 7] by simp
  then show ?thesis unfolding xtime_def by (simp add: bit_simps push_bit_xor xor_cancel ac_simps)
qed

lemma ShiftRows_inv [simp]: "InvShiftRows (ShiftRows s) = s"
  by (cases s rule: ShiftRows.cases) simp
lemma SubBytes_inv [simp]: "InvSubBytes (SubBytes s) = s"
  by (cases s rule: SubBytes.cases) simp
lemma AddRoundKey_inv [simp]: "AddRoundKey (AddRoundKey s k) k = s"
  by (cases k; cases s rule: SubBytes.cases) (simp add: xor_cancel)
lemma inv_mix_column_mix_column [simp]: "inv_mix_column (mix_column c) = c"
  by (cases c rule: mix_column.cases) (simp add: gf_columns xtime_xor xor_cancel xor.assoc xor.commute xor.left_commute)

text \<open>A round of decryption undoes a round of encryption.\<close>

lemma on_columns_inv:
  assumes "\<And>c. g (f c) = c"
  shows "on_columns g (on_columns f s) = s"
proof (cases s rule: SubBytes.cases)
  case (1 s00 s01 s02 s03 s10 s11 s12 s13 s20 s21 s22 s23 s30 s31 s32 s33)
  obtain a0 a1 a2 a3 where a: "f (s00, s10, s20, s30) = (a0, a1, a2, a3)" by (rule prod_cases4)
  obtain b0 b1 b2 b3 where b: "f (s01, s11, s21, s31) = (b0, b1, b2, b3)" by (rule prod_cases4)
  obtain c0 c1 c2 c3 where c: "f (s02, s12, s22, s32) = (c0, c1, c2, c3)" by (rule prod_cases4)
  obtain d0 d1 d2 d3 where d: "f (s03, s13, s23, s33) = (d0, d1, d2, d3)" by (rule prod_cases4)
  have "g (a0, a1, a2, a3) = (s00, s10, s20, s30)" "g (b0, b1, b2, b3) = (s01, s11, s21, s31)"
    "g (c0, c1, c2, c3) = (s02, s12, s22, s32)" "g (d0, d1, d2, d3) = (s03, s13, s23, s33)"
    using assms by (simp_all flip: a b c d)
  then show ?thesis by (simp add: 1 a b c d)
qed

lemma MixColumns_inv [simp]: "InvMixColumns (MixColumns s) = s"
  unfolding InvMixColumns_def MixColumns_def by (rule on_columns_inv) simp

lemma load_store_state [simp]: "load_state (store_state s) = s"
  by (cases s rule: SubBytes.cases) (simp add: load_state_def)

lemma store_load_state: "length b = 16 \<Longrightarrow> store_state (load_state b) = b"
  by (auto simp: load_state_def length_Suc_conv numeral_eq_Suc)

lemma length_store_state [simp]: "length (store_state s) = 16"
  by (cases s rule: SubBytes.cases) simp

text \<open>The encryption state just before the key of round \<open>i\<close> is added in is what decryption has once
  it added that key.\<close>

lemma dec_round_enc_round [simp]:
  "dec_round key i (ShiftRows (SubBytes (AddRoundKey s (round_key key i)))) = InvMixColumns s"
  by (simp add: dec_round_def)

lemma dec_last_round_enc_round [simp]:
  "dec_last_round key i (ShiftRows (SubBytes (AddRoundKey s (round_key key i)))) = s"
  by (simp add: dec_last_round_def)

lemma length_aes_encrypt [simp]: "length (aes_encrypt b key keysize) = 16"
  and length_aes_decrypt [simp]: "length (aes_decrypt b key keysize) = 16"
  by (simp_all add: aes_encrypt_def aes_decrypt_def Let_def)

lemma aes_decrypt_encrypt:
  assumes "length b = 16" "keysize \<in> {128, 192, 256}"
  shows "aes_decrypt (aes_encrypt b key keysize) key keysize = b"
  using assms
  by (auto simp: aes_encrypt_def aes_decrypt_def Let_def enc_round_def enc_last_round_def store_load_state)

section \<open>Property\<close>

text \<open>
  C36 Decrypting a block inverts encrypting it, for each of the three key sizes and any key; the
  substitution and multiplication tables are checked entry by entry.
\<close>

theorem aes_block_inverse:
  assumes "length b = 16" "keysize \<in> {128, 192, 256}"
  shows "aes_decrypt (aes_encrypt b (aes_key_setup key w keysize) keysize)
      (aes_key_setup key w keysize) keysize = b"
  using assms by (rule aes_decrypt_encrypt)

theorem aes_block_inverse_witness:
  "aes_decrypt (aes_encrypt (replicate 16 5) (aes_key_setup (replicate 32 1) [] 256) 256)
      (aes_key_setup (replicate 32 1) [] 256) 256 = replicate 16 5"
  by (rule aes_block_inverse) simp_all

end
