(* ===== verification/Crypto.thy ===== *)
theory Crypto
  imports Sha256 Aes OlmMemory
begin

text \<open>
  \<open>src/crypto.cpp\<close>: SHA-256, HMAC-SHA-256 and HKDF-SHA-256 over the streaming hash, AES-256 in CBC
  mode with PKCS#7 padding, and the key-pair operations.  Hash inputs and outputs are byte strings;
  the two CBC routines work on the flat memory, block by block as the code does, since they are
  called on message buffers.  The elliptic curve code itself (the vendored \<open>curve25519-donna\<close> and
  \<open>ed25519\<close>) is a record of functions; what the library relies on is \<open>crypto_lib_ok\<close>.  The lemmas show
  that HMAC and HKDF are the functions of RFC 2104 and RFC 5869 and that decryption inverts
  encryption, in place or between regions that do not overlap.
\<close>

section \<open>Hashes\<close>

text \<open>
  A call of \<open>sha256_update\<close> that does not end (from \<open>2^32\<close> bytes on) has no result; the functions here
  would not return either, and what they are then is left open by \<open>the\<close>.
\<close>

definition crypto_sha256 :: "bytes \<Rightarrow> bytes" where
  "crypto_sha256 inp =
     (let context = sha256_init sha256_ctx_alloc;
          context = the (sha256_update context inp)
      in sha256_final context)"

definition hmac_sha256_key :: "bytes \<Rightarrow> bytes" where
  "hmac_sha256_key input_key =
     (let hmac_key = replicate 64 0
      in if length input_key > 64 then
           let context = sha256_init sha256_ctx_alloc;
               context = the (sha256_update context input_key);
               digest = sha256_final context
           in digest @ drop (length digest) hmac_key
         else input_key @ drop (length input_key) hmac_key)"

definition hmac_sha256_init :: "SHA256_CTX \<Rightarrow> bytes \<Rightarrow> SHA256_CTX" where
  "hmac_sha256_init context hmac_key =
     (let i_pad = map (\<lambda>b. b XOR 0x36) (take 64 hmac_key);
          context = sha256_init context
      in the (sha256_update context i_pad))"

definition hmac_sha256_final :: "SHA256_CTX \<Rightarrow> bytes \<Rightarrow> bytes" where
  "hmac_sha256_final context hmac_key =
     (let o_pad = map (\<lambda>b. b XOR 0x5C) (take 64 hmac_key);
          o_pad = o_pad @ sha256_final context;
          final_context = sha256_init sha256_ctx_alloc;
          final_context = the (sha256_update final_context o_pad)
      in sha256_final final_context)"

definition crypto_hmac_sha256 :: "bytes \<Rightarrow> bytes \<Rightarrow> bytes" where
  "crypto_hmac_sha256 key inp =
     (let hmac_key = hmac_sha256_key key;
          context = hmac_sha256_init sha256_ctx_alloc hmac_key;
          context = the (sha256_update context inp)
      in hmac_sha256_final context hmac_key)"

text \<open>
  The expansion loop: what is still to be written is \<open>bytes_remaining\<close>, the counter is one byte, and
  the hash context is the same stack object throughout.
\<close>

function hkdf_expand ::
  "SHA256_CTX \<Rightarrow> bytes \<Rightarrow> bytes \<Rightarrow> byte \<Rightarrow> bytes \<Rightarrow> nat \<Rightarrow> bytes" where
  "hkdf_expand context hmac_key info iteration step_result bytes_remaining =
     (if bytes_remaining > 32 then
        let iteration' = iteration + 1;
            context1 = hmac_sha256_init context hmac_key;
            context2 = the (sha256_update context1 step_result);
            context3 = the (sha256_update context2 info);
            context4 = the (sha256_update context3 [iteration']);
            step_result' = hmac_sha256_final context4 hmac_key
        in step_result @
             hkdf_expand context4 hmac_key info iteration' step_result' (bytes_remaining - 32)
      else take bytes_remaining step_result)"
  by pat_completeness auto
termination
  by (relation "measure (\<lambda>(_, _, _, _, _, n). n)") auto

declare hkdf_expand.simps [simp del]

definition crypto_hkdf_sha256 :: "bytes \<Rightarrow> bytes option \<Rightarrow> bytes \<Rightarrow> nat \<Rightarrow> bytes" where
  "crypto_hkdf_sha256 inp salt info output_length =
     (let iteration = 1;
          salt = (case salt of None \<Rightarrow> replicate 32 0 | Some s \<Rightarrow> s);
          hmac_key = hmac_sha256_key salt;
          context = hmac_sha256_init sha256_ctx_alloc hmac_key;
          context = the (sha256_update context inp);
          step_result = hmac_sha256_final context hmac_key;
          hmac_key = hmac_sha256_key step_result;
          context = hmac_sha256_init context hmac_key;
          context = the (sha256_update context info);
          context = the (sha256_update context [iteration]);
          step_result = hmac_sha256_final context hmac_key
      in hkdf_expand context hmac_key info iteration step_result output_length)"

section \<open>AES-256 in CBC mode\<close>

text \<open>\<open>key_schedule\<close> is an array of 60 words, all of which the set-up of a 256 bit key writes.\<close>

definition cbc_schedule :: "bytes \<Rightarrow> u32 list" where
  "cbc_schedule key = aes_key_setup key (replicate 60 0) 256"

definition xor_block :: "bytes \<Rightarrow> bytes \<Rightarrow> bytes" where
  "xor_block block inp = map2 (XOR) block inp"

definition aes_encrypt_cbc_length :: "nat \<Rightarrow> nat" where
  "aes_encrypt_cbc_length input_length = input_length + 16 - input_length mod 16"

function cbc_encrypt_loop ::
  "u32 list \<Rightarrow> mem \<Rightarrow> bytes \<Rightarrow> addr \<Rightarrow> nat \<Rightarrow> addr \<Rightarrow> mem \<times> bytes \<times> addr \<times> nat \<times> addr" where
  "cbc_encrypt_loop key_schedule m input_block input input_length output =
     (if input_length \<ge> 16 then
        let input_block = xor_block input_block (rd m input 16);
            m = wr m output (aes_encrypt input_block key_schedule 256);
            input_block = rd m output 16
        in cbc_encrypt_loop key_schedule m input_block (input + 16) (input_length - 16)
             (output + 16)
      else (m, input_block, input, input_length, output))"
  by pat_completeness auto
termination
  by (relation "measure (\<lambda>(_, _, _, _, n, _). n)") auto

declare cbc_encrypt_loop.simps [simp del]

text \<open>The last block: the rest of the input, then the padding, XORed into the chaining block.\<close>

definition aes_encrypt_cbc :: "bytes \<Rightarrow> bytes \<Rightarrow> mem \<Rightarrow> addr \<Rightarrow> nat \<Rightarrow> addr \<Rightarrow> mem" where
  "aes_encrypt_cbc key iv m input input_length output =
     (let key_schedule = cbc_schedule key;
          input_block = iv;
          (m, input_block, input, input_length, output) =
            cbc_encrypt_loop key_schedule m input_block input input_length output;
          input_block = map (\<lambda>i. if i < input_length then input_block ! i XOR m (input + i)
                                 else input_block ! i XOR of_nat (16 - input_length)) [0..<16]
      in wr m output (aes_encrypt input_block key_schedule 256))"

function cbc_decrypt_loop ::
  "u32 list \<Rightarrow> mem \<Rightarrow> bytes \<Rightarrow> addr \<Rightarrow> nat \<Rightarrow> addr \<Rightarrow> nat \<Rightarrow> mem" where
  "cbc_decrypt_loop key_schedule m block1 input input_length output i =
     (if i < input_length then
        let block2 = rd m (input + i) 16;
            m = wr m (output + i) (aes_decrypt (rd m (input + i) 16) key_schedule 256);
            m = wr m (output + i) (xor_block (rd m (output + i) 16) block1)
        in cbc_decrypt_loop key_schedule m block2 input input_length output (i + 16)
      else m)"
  by pat_completeness auto
termination
  by (relation "measure (\<lambda>(_, _, _, _, n, _, i). n - i)") auto

declare cbc_decrypt_loop.simps [simp del]

definition aes_decrypt_cbc ::
  "bytes \<Rightarrow> bytes \<Rightarrow> mem \<Rightarrow> addr \<Rightarrow> nat \<Rightarrow> addr \<Rightarrow> mem \<times> nat option" where
  "aes_decrypt_cbc key iv m input input_length output =
     (let key_schedule = cbc_schedule key;
          m = cbc_decrypt_loop key_schedule m iv input input_length output 0;
          padding = unat (m (output + input_length - 1))
      in (m, if padding > input_length then None else Some (input_length - padding)))"

section \<open>Key pairs\<close>

record curve25519_key_pair =
  c_public :: bytes
  c_private :: bytes

record ed25519_key_pair =
  e_public :: bytes
  e_private :: bytes

record crypto_lib =
  curve25519_donna :: "bytes \<Rightarrow> bytes \<Rightarrow> bytes"
  ed25519_create_keypair :: "bytes \<Rightarrow> bytes \<times> bytes"
  ed25519_sign :: "bytes \<Rightarrow> bytes \<Rightarrow> bytes \<Rightarrow> bytes"
  ed25519_verify :: "bytes \<Rightarrow> bytes \<Rightarrow> bytes \<Rightarrow> bool"

definition CURVE25519_BASEPOINT :: bytes where
  "CURVE25519_BASEPOINT = 9 # replicate 31 0"

definition curve25519_generate_key :: "crypto_lib \<Rightarrow> bytes \<Rightarrow> curve25519_key_pair" where
  "curve25519_generate_key L random_32_bytes =
     (let private_key = take 32 random_32_bytes
      in \<lparr>c_public = curve25519_donna L private_key CURVE25519_BASEPOINT,
          c_private = private_key\<rparr>)"

definition curve25519_shared_secret :: "crypto_lib \<Rightarrow> curve25519_key_pair \<Rightarrow> bytes \<Rightarrow> bytes" where
  "curve25519_shared_secret L our_key their_key = curve25519_donna L (c_private our_key) their_key"

definition ed25519_generate_key :: "crypto_lib \<Rightarrow> bytes \<Rightarrow> ed25519_key_pair" where
  "ed25519_generate_key L random_32_bytes =
     (let (public_key, private_key) = ed25519_create_keypair L (take 32 random_32_bytes)
      in \<lparr>e_public = public_key, e_private = private_key\<rparr>)"

definition crypto_ed25519_sign :: "crypto_lib \<Rightarrow> ed25519_key_pair \<Rightarrow> bytes \<Rightarrow> bytes" where
  "crypto_ed25519_sign L our_key message =
     ed25519_sign L message (e_public our_key) (e_private our_key)"

definition crypto_ed25519_verify :: "crypto_lib \<Rightarrow> bytes \<Rightarrow> bytes \<Rightarrow> bytes \<Rightarrow> bool" where
  "crypto_ed25519_verify L their_key message signature = ed25519_verify L signature message their_key"

text \<open>
  What the library relies on: the sizes of the results, the Diffie-Hellman equation, and that the
  signature of a generated key pair verifies.
\<close>

definition crypto_lib_ok :: "crypto_lib \<Rightarrow> bool" where
  "crypto_lib_ok L \<longleftrightarrow>
     (\<forall>k p. length k = 32 \<longrightarrow> length p = 32 \<longrightarrow> length (curve25519_donna L k p) = 32) \<and>
     (\<forall>a b. length a = 32 \<longrightarrow> length b = 32 \<longrightarrow>
        curve25519_donna L a (curve25519_donna L b CURVE25519_BASEPOINT) =
        curve25519_donna L b (curve25519_donna L a CURVE25519_BASEPOINT)) \<and>
     (\<forall>r. length r = 32 \<longrightarrow>
        length (fst (ed25519_create_keypair L r)) = 32 \<and>
        length (snd (ed25519_create_keypair L r)) = 64) \<and>
     (\<forall>msg pub priv. length (ed25519_sign L msg pub priv) = 64) \<and>
     (\<forall>r msg. length r = 32 \<longrightarrow>
        (let (pub, priv) = ed25519_create_keypair L r
         in ed25519_verify L (ed25519_sign L msg pub priv) msg pub))"

section \<open>HMAC and HKDF\<close>

definition hmac_rfc :: "bytes \<Rightarrow> bytes \<Rightarrow> bytes" where
  "hmac_rfc key msg =
     (let k = (if length key > 64 then sha256_hash key else key);
          k = k @ replicate (64 - length k) 0
      in sha256_hash (map (\<lambda>b. b XOR 0x5c) k @ sha256_hash (map (\<lambda>b. b XOR 0x36) k @ msg)))"

primrec hkdf_block :: "bytes \<Rightarrow> bytes \<Rightarrow> nat \<Rightarrow> bytes" where
  "hkdf_block prk info 0 = []"
| "hkdf_block prk info (Suc n) = hmac_rfc prk (hkdf_block prk info n @ info @ [of_nat (Suc n)])"

definition hkdf_rfc :: "bytes \<Rightarrow> bytes \<Rightarrow> bytes \<Rightarrow> nat \<Rightarrow> bytes" where
  "hkdf_rfc salt ikm info n =
     (let prk = hmac_rfc salt ikm
      in take n (concat (map (hkdf_block prk info) [1..<Suc ((n + 31) div 32)])))"

lemma ctx_data_alloc [simp]: "length (ctx_data sha256_ctx_alloc) = 64"
  by (simp add: sha256_ctx_alloc_def)

lemma ctx_data_transform [simp]: "ctx_data (sha256_transform ctx d) = ctx_data ctx"
  by (simp add: sha256_transform_def)

lemma ctx_data_init [simp]: "ctx_data (sha256_init ctx) = ctx_data ctx"
  by (simp add: sha256_init_def)

lemma ctx_data_bytes [simp]: "length (ctx_data (foldl sha256_byte ctx d)) = length (ctx_data ctx)"
  by (induction d arbitrary: ctx) (simp_all add: sha256_byte_def Let_def)

lemma the_update [simp]: "length d < 2 ^ 32 \<Longrightarrow> the (sha256_update ctx d) = foldl sha256_byte ctx d"
  by (simp add: sha256_update_ends)

lemma hmac_sha256_init_bytes:
  "hmac_sha256_init ctx k = foldl sha256_byte (sha256_init ctx) (map (\<lambda>b. b XOR 0x36) (take 64 k))"
  by (simp add: hmac_sha256_init_def)

lemma ctx_data_hmac_init [simp]:
  "length (ctx_data (hmac_sha256_init ctx k)) = length (ctx_data ctx)"
  by (simp add: hmac_sha256_init_bytes)

lemma crypto_sha256_hash: "length msg < 2 ^ 32 \<Longrightarrow> crypto_sha256 msg = sha256_hash msg"
  by (simp add: crypto_sha256_def sha256_stream)

lemma length_hmac_rfc [simp, len_simps]: "length (hmac_rfc key msg) = 32"
  by (simp add: hmac_rfc_def Let_def)

lemma length_hmac_sha256_final [simp]: "length (hmac_sha256_final ctx k) = 32"
  by (simp add: hmac_sha256_final_def Let_def)

lemma length_crypto_hmac_sha256 [simp, len_simps]: "length (crypto_hmac_sha256 key msg) = 32"
  by (simp add: crypto_hmac_sha256_def Let_def)

lemma hmac_sha256_key_eq:
  "length key < 2 ^ 32 \<Longrightarrow> hmac_sha256_key key =
     (let k = (if length key > 64 then sha256_hash key else key) in k @ replicate (64 - length k) 0)"
  by (simp add: hmac_sha256_key_def Let_def sha256_stream)

lemma hmac_stream:
  assumes "length (ctx_data ctx) = 64" "length key < 2 ^ 32"
  shows "hmac_sha256_final (foldl sha256_byte (hmac_sha256_init ctx (hmac_sha256_key key)) msg)
           (hmac_sha256_key key) = hmac_rfc key msg"
proof -
  have "length (hmac_sha256_key key) = 64"
    using assms(2) by (simp add: hmac_sha256_key_eq Let_def)
  then show ?thesis
    using assms
    by (simp add: hmac_sha256_init_bytes hmac_sha256_final_def Let_def foldl_append [symmetric]
        sha256_stream hmac_rfc_def del: foldl_append) (simp add: hmac_sha256_key_eq Let_def)
qed

lemma crypto_hmac_sha256_rfc:
  "length key < 2 ^ 32 \<Longrightarrow> length msg < 2 ^ 32 \<Longrightarrow> crypto_hmac_sha256 key msg = hmac_rfc key msg"
  by (simp add: crypto_hmac_sha256_def Let_def hmac_stream)

lemma length_hkdf_block [simp]: "n > 0 \<Longrightarrow> length (hkdf_block prk info n) = 32"
  by (cases n) simp_all

lemma hkdf_expand_blocks:
  assumes "length (ctx_data ctx) = 64" "n > 0" "L \<le> 32 * k" "length prk = 32" "length info < 2 ^ 32"
  shows "hkdf_expand ctx (hmac_sha256_key prk) info (of_nat n) (hkdf_block prk info n) L =
         take L (concat (map (hkdf_block prk info) [n..<n + k]))"
  using assms
proof (induction k arbitrary: ctx n L)
  case 0
  then show ?case by (simp add: hkdf_expand.simps)
next
  case (Suc k)
  let ?T = "hkdf_block prk info"
  have list: "[n..<n + Suc k] = n # [Suc n..<Suc n + k]" by (simp add: upt_conv_Cons del: upt_Suc)
  show ?case
  proof (cases "L > 32")
    case True
    let ?ctx = "foldl sha256_byte (hmac_sha256_init ctx (hmac_sha256_key prk)) (?T n @ info @ [of_nat n + 1])"
    have step: "hmac_sha256_final ?ctx (hmac_sha256_key prk) = ?T (Suc n)"
      using Suc.prems by (simp add: hmac_stream add.commute del: foldl_append)
    have "hkdf_expand ?ctx (hmac_sha256_key prk) info (of_nat (Suc n)) (?T (Suc n)) (L - 32) =
          take (L - 32) (concat (map ?T [Suc n..<Suc n + k]))"
      by (rule Suc.IH) (use Suc.prems in \<open>simp_all del: foldl_append\<close>)
    with True step show ?thesis
      unfolding list using Suc.prems
      by (subst hkdf_expand.simps) (simp add: Let_def add.commute del: upt_Suc hkdf_block.simps)
  next
    case False
    then show ?thesis
      unfolding list using Suc.prems
      by (subst hkdf_expand.simps) (simp del: upt_Suc hkdf_block.simps)
  qed
qed

lemma crypto_hkdf_sha256_rfc:
  assumes "length inp < 2 ^ 32" "length info < 2 ^ 32" "\<forall>s. salt = Some s \<longrightarrow> length s < 2 ^ 32"
  shows "crypto_hkdf_sha256 inp salt info n =
     hkdf_rfc (case salt of None \<Rightarrow> replicate 32 0 | Some s \<Rightarrow> s) inp info n"
proof -
  let ?salt = "case salt of None \<Rightarrow> replicate 32 0 | Some s \<Rightarrow> s"
  let ?prk = "hmac_rfc ?salt inp"
  have s: "length ?salt < 2 ^ 32" using assms(3) by (simp split: option.split)
  have prk: "hmac_sha256_final (the (sha256_update (hmac_sha256_init sha256_ctx_alloc
      (hmac_sha256_key ?salt)) inp)) (hmac_sha256_key ?salt) = ?prk"
    using s assms(1) by (simp add: hmac_stream)
  let ?ctx = "the (sha256_update (the (sha256_update (hmac_sha256_init (the (sha256_update
      (hmac_sha256_init sha256_ctx_alloc (hmac_sha256_key ?salt)) inp))
      (hmac_sha256_key ?prk)) info)) [1])"
  have c: "?ctx = foldl sha256_byte (hmac_sha256_init (foldl sha256_byte
      (hmac_sha256_init sha256_ctx_alloc (hmac_sha256_key ?salt)) inp) (hmac_sha256_key ?prk)) (info @ [1])"
    using assms by simp
  have t1: "hmac_sha256_final ?ctx (hmac_sha256_key ?prk) = hkdf_block ?prk info 1"
    unfolding c by (simp add: hmac_stream del: foldl_append)
  have "length (ctx_data ?ctx) = 64" unfolding c by (simp del: foldl_append)
  moreover have "n \<le> 32 * ((n + 31) div 32)" by simp
  ultimately have "hkdf_expand ?ctx (hmac_sha256_key ?prk) info 1 (hkdf_block ?prk info 1) n =
        take n (concat (map (hkdf_block ?prk info) [1..<Suc ((n + 31) div 32)]))"
    using hkdf_expand_blocks [where n = 1, of ?ctx n "(n + 31) div 32" ?prk info] assms(2)
    by (simp del: the_update)
  then show ?thesis
    unfolding crypto_hkdf_sha256_def hkdf_rfc_def Let_def prk t1 by simp
qed

lemma length_hkdf_expand: "length sr = 32 \<Longrightarrow> length (hkdf_expand ctx k info i sr n) = n"
proof (induction ctx k info i sr n rule: hkdf_expand.induct)
  case (1 ctx k info i sr n)
  show ?case using 1 by (subst hkdf_expand.simps) (simp add: Let_def)
qed

lemma length_crypto_hkdf_sha256 [simp, len_simps]: "length (crypto_hkdf_sha256 inp salt info n) = n"
  by (simp add: crypto_hkdf_sha256_def Let_def length_hkdf_expand)

section \<open>CBC with PKCS#7 padding\<close>

definition pkcs7 :: "bytes \<Rightarrow> bytes" where
  "pkcs7 msg =
     (let p = 16 - length msg mod 16 in msg @ replicate p (of_nat p))"

function cbc_chain :: "u32 list \<Rightarrow> bytes \<Rightarrow> bytes \<Rightarrow> bytes" where
  "cbc_chain ks iv msg =
     (if length msg < 16 then []
      else let c = aes_encrypt (xor_block iv (take 16 msg)) ks 256
           in c @ cbc_chain ks c (drop 16 msg))"
  by pat_completeness auto
termination
  by (relation "measure (\<lambda>(_, _, msg). length msg)") auto

function cbc_unchain :: "u32 list \<Rightarrow> bytes \<Rightarrow> bytes \<Rightarrow> bytes" where
  "cbc_unchain ks iv msg =
     (if length msg < 16 then []
      else xor_block (aes_decrypt (take 16 msg) ks 256) iv
             @ cbc_unchain ks (take 16 msg) (drop 16 msg))"
  by pat_completeness auto
termination
  by (relation "measure (\<lambda>(_, _, msg). length msg)") auto

declare cbc_chain.simps [simp del] cbc_unchain.simps [simp del]

lemma length_xor_block [simp, len_simps]: "length (xor_block a b) = min (length a) (length b)"
  by (simp add: xor_block_def)

lemma xor_block_cancel: "length a = length b \<Longrightarrow> xor_block (xor_block a b) a = b"
  by (rule nth_equalityI) (simp_all add: xor_block_def xor_cancel xor.commute xor.left_commute)

lemma cbc_chain_short [simp]: "length msg < 16 \<Longrightarrow> cbc_chain ks iv msg = []"
  by (simp add: cbc_chain.simps)

lemma cbc_unchain_short [simp]: "length msg < 16 \<Longrightarrow> cbc_unchain ks iv msg = []"
  by (simp add: cbc_unchain.simps)

lemma cbc_chain_block:
  "length b = 16 \<Longrightarrow> cbc_chain ks iv (b @ msg) =
     (let c = aes_encrypt (xor_block iv b) ks 256 in c @ cbc_chain ks c msg)"
  by (subst cbc_chain.simps) (simp add: Let_def)

lemma cbc_unchain_block:
  "length b = 16 \<Longrightarrow> cbc_unchain ks iv (b @ msg) =
     xor_block (aes_decrypt b ks 256) iv @ cbc_unchain ks b msg"
  by (subst cbc_unchain.simps) simp

lemma length_cbc_chain [simp, len_simps]: "length (cbc_chain ks iv msg) = 16 * (length msg div 16)"
proof (induction ks iv msg rule: cbc_chain.induct)
  case (1 ks iv msg)
  show ?case
  proof (cases "length msg < 16")
    case False
    then have "length msg = (length msg - 16) + 16" by simp
    then have "length msg div 16 = Suc ((length msg - 16) div 16)"
      by (metis add.commute div_add_self1 plus_1_eq_Suc zero_neq_numeral)
    with 1 False show ?thesis by (subst cbc_chain.simps) (simp add: Let_def)
  qed simp
qed

lemma length_cbc_unchain:
  "length iv = 16 \<Longrightarrow> length (cbc_unchain ks iv msg) = 16 * (length msg div 16)"
proof (induction ks iv msg rule: cbc_unchain.induct)
  case (1 ks iv msg)
  show ?case
  proof (cases "length msg < 16")
    case False
    then have "length msg = (length msg - 16) + 16" by simp
    then have "length msg div 16 = Suc ((length msg - 16) div 16)"
      by (metis add.commute div_add_self1 plus_1_eq_Suc zero_neq_numeral)
    with 1 False show ?thesis by (subst cbc_unchain.simps) (simp add: Let_def)
  qed simp
qed

lemma cbc_unchain_chain:
  assumes "length iv = 16" "16 dvd length msg"
  shows "cbc_unchain ks iv (cbc_chain ks iv msg) = msg"
  using assms
proof (induction ks iv msg rule: cbc_chain.induct)
  case (1 ks iv msg)
  show ?case
  proof (cases "length msg < 16")
    case True
    then have "length msg = 0" using "1.prems"(2) by auto
    then show ?thesis by simp
  next
    case False
    let ?c = "aes_encrypt (xor_block iv (take 16 msg)) ks 256"
    have "16 dvd length (drop 16 msg)" using 1(3) False by (simp add: dvd_diff_nat)
    then have IH: "cbc_unchain ks ?c (cbc_chain ks ?c (drop 16 msg)) = drop 16 msg"
      using 1(1) False by simp
    have "aes_decrypt ?c ks 256 = xor_block iv (take 16 msg)"
      using False 1(2) by (intro aes_decrypt_encrypt) simp_all
    then have "xor_block (aes_decrypt ?c ks 256) iv = take 16 msg"
      using False 1(2) by (simp add: xor_block_cancel)
    with False IH show ?thesis
      by (subst cbc_chain.simps) (simp add: Let_def cbc_unchain_block)
  qed
qed

lemma length_pkcs7 [simp]: "length (pkcs7 msg) = aes_encrypt_cbc_length (length msg)"
proof -
  have "length msg mod 16 < 16" by simp
  then show ?thesis unfolding pkcs7_def aes_encrypt_cbc_length_def Let_def by simp
qed

lemma aes_encrypt_cbc_length_bounds:
  "n < aes_encrypt_cbc_length n" "aes_encrypt_cbc_length n \<le> n + 16" "16 dvd aes_encrypt_cbc_length n"
proof -
  have "n mod 16 < 16" by simp
  then show "n < aes_encrypt_cbc_length n" "aes_encrypt_cbc_length n \<le> n + 16"
    unfolding aes_encrypt_cbc_length_def by linarith+
  have "aes_encrypt_cbc_length n = 16 * (n div 16) + 16"
    unfolding aes_encrypt_cbc_length_def using minus_mod_eq_mult_div [of n 16] \<open>n mod 16 < 16\<close>
    by (metis add.commute diff_add_assoc mod_less_eq_dividend)
  then show "16 dvd aes_encrypt_cbc_length n" by simp
qed

lemma pkcs7_block: "length b = 16 \<Longrightarrow> pkcs7 (b @ msg) = b @ pkcs7 msg"
  by (simp add: pkcs7_def Let_def)

lemma take_pkcs7 [simp]: "take (length msg) (pkcs7 msg) = msg"
  by (simp add: pkcs7_def Let_def)

lemma last_pkcs7: "unat (last (pkcs7 msg)) = aes_encrypt_cbc_length (length msg) - length msg"
proof -
  let ?p = "16 - length msg mod 16"
  have p: "0 < ?p" "?p \<le> 16" by simp_all
  then have "last (pkcs7 msg) = of_nat ?p" unfolding pkcs7_def Let_def by simp
  moreover have "unat (of_nat q :: byte) = q" if "q \<le> 16" for q
    using that by (simp add: unsigned_of_nat take_bit_nat_eq_self)
  from this [OF p(2)] have "unat (of_nat ?p :: byte) = ?p" .
  ultimately show ?thesis
    unfolding aes_encrypt_cbc_length_def by simp
qed

text \<open>The loop and the final block together write the chained padded message.\<close>

definition cbc_finish :: "u32 list \<Rightarrow> mem \<times> bytes \<times> addr \<times> nat \<times> addr \<Rightarrow> mem" where
  "cbc_finish ks = (\<lambda>(m, blk, input, n, output).
     wr m output (aes_encrypt
       (map (\<lambda>i. if i < n then blk ! i XOR m (input + i) else blk ! i XOR of_nat (16 - n)) [0..<16])
       ks 256))"

lemma cbc_encrypt_loop_finish:
  assumes "length iv = 16" "out \<le> inp \<or> inp + n \<le> out"
  shows "cbc_finish ks (cbc_encrypt_loop ks m iv inp n out) =
         wr m out (cbc_chain ks iv (pkcs7 (rd m inp n)))"
  using assms
proof (induction ks m iv inp n out rule: cbc_encrypt_loop.induct)
  case (1 ks m iv inp n out)
  show ?case
  proof (cases "n \<ge> 16")
    case True
    let ?c = "aes_encrypt (xor_block iv (rd m inp 16)) ks 256"
    let ?m = "wr m out ?c"
    have d: "rd m inp n = rd m inp 16 @ rd m (inp + 16) (n - 16)"
      using True rd_add [of m inp 16 "n - 16"] by simp
    have r: "rd ?m (inp + 16) (n - 16) = rd m (inp + 16) (n - 16)"
      using 1(3) True by (intro rd_wr_disj) auto
    have cond: "out + 16 \<le> inp + 16 \<or> inp + 16 + (n - 16) \<le> out + 16"
      using 1(3) True by auto
    have "cbc_finish ks (cbc_encrypt_loop ks ?m ?c (inp + 16) (n - 16) (out + 16)) =
          wr ?m (out + 16) (cbc_chain ks ?c (pkcs7 (rd m (inp + 16) (n - 16))))"
      using 1(1) [OF True refl refl refl _ cond] True r by simp
    then show ?thesis
      using True by (subst cbc_encrypt_loop.simps)
        (simp add: Let_def d pkcs7_block cbc_chain_block wr_append)
  next
    case False
    have "xor_block iv (pkcs7 (rd m inp n)) =
      map (\<lambda>i. if i < n then iv ! i XOR m (inp + i) else iv ! i XOR of_nat (16 - n)) [0..<16]"
      using False 1(2) by (intro nth_equalityI)
        (simp_all add: xor_block_def pkcs7_def Let_def nth_append)
    moreover have "length (pkcs7 (rd m inp n)) = 16"
      using False by (simp add: aes_encrypt_cbc_length_def)
    ultimately show ?thesis
      using False by (subst cbc_encrypt_loop.simps, subst cbc_chain.simps)
        (simp add: cbc_finish_def Let_def)
  qed
qed

definition cbc_encrypt :: "bytes \<Rightarrow> bytes \<Rightarrow> bytes \<Rightarrow> bytes" where
  "cbc_encrypt key iv msg = cbc_chain (cbc_schedule key) iv (pkcs7 msg)"

definition cbc_decrypt :: "bytes \<Rightarrow> bytes \<Rightarrow> bytes \<Rightarrow> bytes" where
  "cbc_decrypt key iv msg = cbc_unchain (cbc_schedule key) iv msg"

lemma aes_encrypt_cbc_wr:
  assumes "length iv = 16" "out \<le> inp \<or> inp + n \<le> out"
  shows "aes_encrypt_cbc key iv m inp n out = wr m out (cbc_encrypt key iv (rd m inp n))"
  using cbc_encrypt_loop_finish [OF assms, of "cbc_schedule key" m]
  by (simp add: aes_encrypt_cbc_def cbc_finish_def Let_def cbc_encrypt_def)

lemma length_cbc_encrypt [simp, len_simps]:
  "length (cbc_encrypt key iv msg) = aes_encrypt_cbc_length (length msg)"
  using aes_encrypt_cbc_length_bounds(3) [of "length msg"] by (simp add: cbc_encrypt_def)

lemma cbc_decrypt_loop_wr:
  assumes "length blk = 16" "i \<le> n" "16 dvd n - i" "out \<le> inp \<or> inp + n \<le> out"
  shows "cbc_decrypt_loop ks m blk inp n out i =
         wr m (out + i) (cbc_unchain ks blk (rd m (inp + i) (n - i)))"
  using assms
proof (induction ks m blk inp n out i rule: cbc_decrypt_loop.induct)
  case (1 ks m blk inp n out i)
  show ?case
  proof (cases "i < n")
    case True
    then have 16: "i + 16 \<le> n" using 1(4) by (auto dest!: dvd_imp_le)
    let ?b = "rd m (inp + i) 16"
    let ?p = "xor_block (aes_decrypt ?b ks 256) blk"
    let ?m1 = "wr m (out + i) (aes_decrypt ?b ks 256)"
    let ?m = "wr ?m1 (out + i) (xor_block (rd ?m1 (out + i) 16) blk)"
    have m': "wr ?m1 (out + i) ?p = wr m (out + i) ?p" using 1(2) by (simp add: wr_wr_same)
    then have m: "?m = wr m (out + i) ?p" by simp
    have d: "rd m (inp + i) (n - i) = ?b @ rd m (inp + i + 16) (n - (i + 16))"
      using 16 rd_add [of m "inp + i" 16 "n - i - 16"] by simp
    have r: "rd ?m (inp + (i + 16)) (n - (i + 16)) = rd m (inp + (i + 16)) (n - (i + 16))"
      using 1(5) 16 1(2) unfolding m by (intro rd_wr_disj) auto
    have "16 dvd n - (i + 16)" using 1(4) 16 by (metis diff_diff_left dvd_diff_nat dvd_refl)
    from 1(1) [OF True refl refl refl _ _ this] 
    have "cbc_decrypt_loop ks ?m ?b inp n out (i + 16) =
          wr ?m (out + (i + 16)) (cbc_unchain ks ?b (rd m (inp + (i + 16)) (n - (i + 16))))"
      using 16 1(5) r by simp
    then show ?thesis
      using True 1(2) by (subst cbc_decrypt_loop.simps)
        (simp add: Let_def m m' d cbc_unchain_block wr_append add.assoc)
  qed (simp add: cbc_decrypt_loop.simps 1)
qed

lemma aes_decrypt_cbc_wr:
  assumes "length iv = 16" "16 dvd n" "n > 0" "out \<le> inp \<or> inp + n \<le> out"
  shows "aes_decrypt_cbc key iv m inp n out =
    (let pt = cbc_decrypt key iv (rd m inp n); padding = unat (last pt)
     in (wr m out pt, if padding > n then None else Some (n - padding)))"
proof -
  let ?pt = "cbc_decrypt key iv (rd m inp n)"
  have len: "length ?pt = n"
    unfolding cbc_decrypt_def using assms by (subst length_cbc_unchain) simp_all
  then have "?pt \<noteq> []" using assms by auto
  then have "wr m out ?pt (out + n - 1) = last ?pt"
    using assms len by (simp add: wr_in last_conv_nth)
  with assms show ?thesis
    by (simp add: aes_decrypt_cbc_def Let_def cbc_decrypt_loop_wr cbc_decrypt_def)
qed

lemma cbc_decrypt_encrypt:
  "length iv = 16 \<Longrightarrow> cbc_decrypt key iv (cbc_encrypt key iv msg) = pkcs7 msg"
  unfolding cbc_decrypt_def cbc_encrypt_def
  by (rule cbc_unchain_chain) (simp_all add: aes_encrypt_cbc_length_bounds)

lemma aes_decrypt_cbc_encrypt:
  assumes "length iv = 16" "out \<le> inp \<or> inp + n \<le> out"
    "rd m inp n = cbc_encrypt key iv msg" "n = aes_encrypt_cbc_length (length msg)"
  shows "aes_decrypt_cbc key iv m inp n out = (wr m out (pkcs7 msg), Some (length msg))"
proof -
  have "aes_decrypt_cbc key iv m inp n out =
    (let pt = cbc_decrypt key iv (rd m inp n); padding = unat (last pt)
     in (wr m out pt, if padding > n then None else Some (n - padding)))"
    by (rule aes_decrypt_cbc_wr)
      (use assms aes_encrypt_cbc_length_bounds [of "length msg"] in auto)
  then show ?thesis
    using assms aes_encrypt_cbc_length_bounds [of "length msg"]
    by (simp add: cbc_decrypt_encrypt last_pkcs7 Let_def)
qed

section \<open>An instance of the library\<close>

text \<open>
  A library that satisfies \<open>crypto_lib_ok\<close>, so that theorems about an arbitrary one can be applied:
  its Diffie-Hellman function is the exclusive or, its signature a hash of key and message.
\<close>

definition example_lib :: crypto_lib where
  "example_lib =
     \<lparr>curve25519_donna = \<lambda>k p. map2 (\<lambda>a b. a XOR b) k p,
      ed25519_create_keypair = \<lambda>r. (r, r @ r),
      ed25519_sign = \<lambda>msg pub priv. sha256_hash (pub @ msg) @ sha256_hash (msg @ pub),
      ed25519_verify = \<lambda>sig msg pub. sig = sha256_hash (pub @ msg) @ sha256_hash (msg @ pub)\<rparr>"

lemma map2_xor_commute:
  "length a = length b \<Longrightarrow> length b = length c \<Longrightarrow>
   map2 (\<lambda>x y. x XOR y) a (map2 (\<lambda>x y. x XOR y) b c) =
   map2 (\<lambda>x y. x XOR y) b (map2 (\<lambda>x y. x XOR y) a (c :: bytes))"
  by (induction a b c rule: list_induct3) (auto simp: xor.left_commute)

lemma example_lib_ok: "crypto_lib_ok example_lib"
  by (auto simp: crypto_lib_ok_def example_lib_def CURVE25519_BASEPOINT_def intro!: map2_xor_commute)

section \<open>Properties\<close>

text \<open>
  Encrypting a buffer in place in CBC mode and decrypting the result in place gives the
  plaintext and its length back and touches only the padded region.
\<close>

theorem aes_cbc_in_place_round_trip:
  assumes "length iv = 16" "stored m pos msg"
  shows "\<exists>m2. aes_decrypt_cbc key iv (aes_encrypt_cbc key iv m pos (length msg) pos) pos
        (aes_encrypt_cbc_length (length msg)) pos = (m2, Some (length msg)) \<and>
      stored m2 pos msg \<and> frame m m2 pos (aes_encrypt_cbc_length (length msg))"
proof -
  let ?n = "aes_encrypt_cbc_length (length msg)"
  obtain m1 where "m1 = aes_encrypt_cbc key iv m pos (length msg) pos" by simp
  then have m1: "aes_encrypt_cbc key iv m pos (length msg) pos = m1"
    "m1 = wr m pos (cbc_encrypt key iv msg)"
    using assms by (simp_all add: aes_encrypt_cbc_wr stored_rd)
  then have "aes_decrypt_cbc key iv m1 pos ?n pos = (wr m1 pos (pkcs7 msg), Some (length msg))"
    using assms(1) by (intro aes_decrypt_cbc_encrypt) simp_all
  moreover have "stored (wr m1 pos (pkcs7 msg)) pos msg"
    using stored_wr [of m1 pos "pkcs7 msg"] by (simp add: pkcs7_def)
  moreover have "frame m (wr m1 pos (pkcs7 msg)) pos ?n"
    unfolding m1(2) by (rule frame_trans; rule frame_wr) simp_all
  ultimately show ?thesis unfolding m1(1) by blast
qed

theorem aes_cbc_in_place_round_trip_witness:
  "\<exists>m2. aes_decrypt_cbc (replicate 32 1) (replicate 16 2)
        (aes_encrypt_cbc (replicate 32 1) (replicate 16 2) (\<lambda>i. 9) 100 1 100) 100 16 100 =
      (m2, Some 1) \<and> stored m2 100 [9] \<and> frame (\<lambda>i. 9) m2 100 16"
  using aes_cbc_in_place_round_trip [of "replicate 16 2" "\<lambda>i. 9" 100 "[9]" "replicate 32 1"]
  by (simp add: aes_encrypt_cbc_length_def)

text \<open>
  C37 For keys, messages, salts and info strings shorter than 2^32 bytes the HMAC routine computes the
  function of RFC 2104 and the HKDF routine that of RFC 5869, of any number of output bytes the RFC
  allows (up to 255 times 32), and of the salt of 32 zero bytes when there is none.
\<close>

theorem hmac_hkdf_reference:
  assumes "length key < 2 ^ 32" "length msg < 2 ^ 32" "length inp < 2 ^ 32" "length info < 2 ^ 32"
    "\<forall>s. salt = Some s \<longrightarrow> length s < 2 ^ 32" "n \<le> 255 * 32"
  shows "crypto_hmac_sha256 key msg = hmac_rfc key msg \<and>
   crypto_hkdf_sha256 inp salt info n =
     take n (concat (map (hkdf_block (hmac_rfc (case salt of None \<Rightarrow> replicate 32 0 | Some s \<Rightarrow> s) inp)
       info) [1..<Suc ((n + 31) div 32)]))"
  using assms by (simp add: crypto_hmac_sha256_rfc crypto_hkdf_sha256_rfc hkdf_rfc_def Let_def del: upt_Suc)

theorem hmac_hkdf_reference_witness:
  "crypto_hmac_sha256 [1, 2] [3] = hmac_rfc [1, 2] [3] \<and>
   crypto_hkdf_sha256 [4] None [5] 64 =
     take 64 (concat (map (hkdf_block (hmac_rfc (replicate 32 0) [4]) [5]) [1..<Suc ((64 + 31) div 32)]))"
  using hmac_hkdf_reference [of "[1, 2]" "[3]" "[4]" "[5]" None 64] by (simp del: upt_Suc)

end
