(* ===== verification/DonnaField.thy ===== *)
theory DonnaField
  imports OlmPrelude
begin

text \<open>
  \<open>lib/curve25519-donna/curve25519-donna.c\<close>, first part: arithmetic modulo \<open>2^255 - 19\<close> on arrays
  of signed 64-bit limbs that are 26 and 25 bits wide in turn.  The arrays are lists of words; an
  output parameter is the result of the function.  The lemmas show that under the bounds the
  comments of the source give no operation overflows, what its result is modulo the prime, and
  that it keeps the bounds of the operation that follows.
\<close>

section \<open>Operations on limbs\<close>

type_synonym limb = "64 word"
type_synonym s32 = "32 word"

definition fsum :: "limb list \<Rightarrow> limb list \<Rightarrow> limb list" where
  "fsum output inp =
     foldl (\<lambda>output i. output[i := output ! i + inp ! i, 1 + i := output ! (1 + i) + inp ! (1 + i)])
       output [0, 2, 4, 6, 8]"

definition fdifference :: "limb list \<Rightarrow> limb list \<Rightarrow> limb list" where
  "fdifference output inp = foldl (\<lambda>output i. output[i := inp ! i - output ! i]) output [0..<10]"

definition fscalar_product :: "limb list \<Rightarrow> limb list \<Rightarrow> limb \<Rightarrow> limb list" where
  "fscalar_product output inp scalar =
     foldl (\<lambda>output i. output[i := inp ! i * scalar]) output [0..<10]"

definition limb_of_s32 :: "s32 \<Rightarrow> limb" where
  "limb_of_s32 v = scast v"

definition s32_of_limb :: "limb \<Rightarrow> s32" where
  "s32_of_limb v = ucast v"

text \<open>
  The sums of \<open>fproduct\<close> and \<open>fsquare_inner\<close>, for the limbs of the operands after the cast to
  \<open>s32\<close> and back; they are stated for any ring, so that the same sums can be read over the integers.
\<close>

definition product_sums :: "(nat \<Rightarrow> 'a::comm_ring_1) \<Rightarrow> (nat \<Rightarrow> 'a) \<Rightarrow> 'a list" where
  "product_sums f g =
     [f 0 * g 0,
      f 0 * g 1 + f 1 * g 0,
      2 * f 1 * g 1 + f 0 * g 2 + f 2 * g 0,
      f 1 * g 2 + f 2 * g 1 + f 0 * g 3 + f 3 * g 0,
      f 2 * g 2 + 2 * (f 1 * g 3 + f 3 * g 1) + f 0 * g 4 + f 4 * g 0,
      f 2 * g 3 + f 3 * g 2 + f 1 * g 4 + f 4 * g 1 + f 0 * g 5 + f 5 * g 0,
      2 * (f 3 * g 3 + f 1 * g 5 + f 5 * g 1) + f 2 * g 4 + f 4 * g 2 + f 0 * g 6 + f 6 * g 0,
      f 3 * g 4 + f 4 * g 3 + f 2 * g 5 + f 5 * g 2 + f 1 * g 6 + f 6 * g 1 + f 0 * g 7 +
        f 7 * g 0,
      f 4 * g 4 + 2 * (f 3 * g 5 + f 5 * g 3 + f 1 * g 7 + f 7 * g 1) + f 2 * g 6 + f 6 * g 2 +
        f 0 * g 8 + f 8 * g 0,
      f 4 * g 5 + f 5 * g 4 + f 3 * g 6 + f 6 * g 3 + f 2 * g 7 + f 7 * g 2 + f 1 * g 8 +
        f 8 * g 1 + f 0 * g 9 + f 9 * g 0,
      2 * (f 5 * g 5 + f 3 * g 7 + f 7 * g 3 + f 1 * g 9 + f 9 * g 1) + f 4 * g 6 + f 6 * g 4 +
        f 2 * g 8 + f 8 * g 2,
      f 5 * g 6 + f 6 * g 5 + f 4 * g 7 + f 7 * g 4 + f 3 * g 8 + f 8 * g 3 + f 2 * g 9 +
        f 9 * g 2,
      f 6 * g 6 + 2 * (f 5 * g 7 + f 7 * g 5 + f 3 * g 9 + f 9 * g 3) + f 4 * g 8 + f 8 * g 4,
      f 6 * g 7 + f 7 * g 6 + f 5 * g 8 + f 8 * g 5 + f 4 * g 9 + f 9 * g 4,
      2 * (f 7 * g 7 + f 5 * g 9 + f 9 * g 5) + f 6 * g 8 + f 8 * g 6,
      f 7 * g 8 + f 8 * g 7 + f 6 * g 9 + f 9 * g 6,
      f 8 * g 8 + 2 * (f 7 * g 9 + f 9 * g 7),
      f 8 * g 9 + f 9 * g 8,
      2 * f 9 * g 9]"

definition fproduct :: "limb list \<Rightarrow> limb list \<Rightarrow> limb list" where
  "fproduct in2 inp =
     product_sums (\<lambda>i. limb_of_s32 (s32_of_limb (in2 ! i))) (\<lambda>i. limb_of_s32 (s32_of_limb (inp ! i)))"

definition freduce_degree :: "limb list \<Rightarrow> limb list" where
  "freduce_degree output =
     foldl (\<lambda>output i.
         let output = output[i := output ! i + push_bit 4 (output ! (i + 10))];
             output = output[i := output ! i + push_bit 1 (output ! (i + 10))]
         in output[i := output ! i + output ! (i + 10)])
       output [8, 7, 6, 5, 4, 3, 2, 1, 0]"

definition div_by_2_26 :: "limb \<Rightarrow> limb" where
  "div_by_2_26 v =
     (let highword = ucast (drop_bit 32 v) :: s32;
          sign = signed_drop_bit 31 highword;
          roundoff = drop_bit 6 sign
      in signed_drop_bit 26 (v + limb_of_s32 roundoff))"

definition div_by_2_25 :: "limb \<Rightarrow> limb" where
  "div_by_2_25 v =
     (let highword = ucast (drop_bit 32 v) :: s32;
          sign = signed_drop_bit 31 highword;
          roundoff = drop_bit 7 sign
      in signed_drop_bit 25 (v + limb_of_s32 roundoff))"

definition freduce_step :: "limb list \<Rightarrow> nat \<Rightarrow> limb list" where
  "freduce_step output i =
     (let over = div_by_2_26 (output ! i);
          output = output[i := output ! i - push_bit 26 over];
          output = output[i + 1 := output ! (i + 1) + over];
          over = div_by_2_25 (output ! (i + 1));
          output = output[i + 1 := output ! (i + 1) - push_bit 25 over]
      in output[i + 2 := output ! (i + 2) + over])"

definition freduce_coefficients :: "limb list \<Rightarrow> limb list" where
  "freduce_coefficients output =
     (let output = output[10 := 0];
          output = foldl freduce_step output [0, 2, 4, 6, 8];
          output = output[0 := output ! 0 + push_bit 4 (output ! 10)];
          output = output[0 := output ! 0 + push_bit 1 (output ! 10)];
          output = output[0 := output ! 0 + output ! 10];
          output = output[10 := 0];
          over = div_by_2_26 (output ! 0);
          output = output[0 := output ! 0 - push_bit 26 over]
      in output[1 := output ! 1 + over])"

definition fmul :: "limb list \<Rightarrow> limb list \<Rightarrow> limb list" where
  "fmul inp in2 =
     (let t = fproduct inp in2;
          t = freduce_degree t;
          t = freduce_coefficients t
      in take 10 t)"

definition square_sums :: "(nat \<Rightarrow> 'a::comm_ring_1) \<Rightarrow> 'a list" where
  "square_sums f =
     [f 0 * f 0,
      2 * f 0 * f 1,
      2 * (f 1 * f 1 + f 0 * f 2),
      2 * (f 1 * f 2 + f 0 * f 3),
      f 2 * f 2 + 4 * f 1 * f 3 + 2 * f 0 * f 4,
      2 * (f 2 * f 3 + f 1 * f 4 + f 0 * f 5),
      2 * (f 3 * f 3 + f 2 * f 4 + f 0 * f 6 + 2 * f 1 * f 5),
      2 * (f 3 * f 4 + f 2 * f 5 + f 1 * f 6 + f 0 * f 7),
      f 4 * f 4 + 2 * (f 2 * f 6 + f 0 * f 8 + 2 * (f 1 * f 7 + f 3 * f 5)),
      2 * (f 4 * f 5 + f 3 * f 6 + f 2 * f 7 + f 1 * f 8 + f 0 * f 9),
      2 * (f 5 * f 5 + f 4 * f 6 + f 2 * f 8 + 2 * (f 3 * f 7 + f 1 * f 9)),
      2 * (f 5 * f 6 + f 4 * f 7 + f 3 * f 8 + f 2 * f 9),
      f 6 * f 6 + 2 * (f 4 * f 8 + 2 * (f 5 * f 7 + f 3 * f 9)),
      2 * (f 6 * f 7 + f 5 * f 8 + f 4 * f 9),
      2 * (f 7 * f 7 + f 6 * f 8 + 2 * f 5 * f 9),
      2 * (f 7 * f 8 + f 6 * f 9),
      f 8 * f 8 + 4 * f 7 * f 9,
      2 * f 8 * f 9,
      2 * f 9 * f 9]"

definition fsquare_inner :: "limb list \<Rightarrow> limb list" where
  "fsquare_inner inp = square_sums (\<lambda>i. limb_of_s32 (s32_of_limb (inp ! i)))"

definition fsquare :: "limb list \<Rightarrow> limb list" where
  "fsquare inp =
     (let t = fsquare_inner inp;
          t = freduce_degree t;
          t = freduce_coefficients t
      in take 10 t)"

text \<open>
  \<open>crecip\<close>: the loops square twice per round, from one temporary to the other and back.
\<close>

function square_rounds :: "nat \<Rightarrow> nat \<Rightarrow> limb list \<Rightarrow> limb list" where
  "square_rounds i n t = (if i < n then square_rounds (i + 2) n (fsquare (fsquare t)) else t)"
  by pat_completeness auto
termination by (relation "measure (\<lambda>(i, n, t). n - i)") auto

declare square_rounds.simps [simp del]

definition crecip :: "limb list \<Rightarrow> limb list" where
  "crecip z =
     (let z2 = fsquare z;
          t1 = fsquare z2;
          t0 = fsquare t1;
          z9 = fmul t0 z;
          z11 = fmul z9 z2;
          t0 = fsquare z11;
          z2_5_0 = fmul t0 z9;
          t0 = fsquare z2_5_0;
          t1 = fsquare t0;
          t0 = fsquare t1;
          t1 = fsquare t0;
          t0 = fsquare t1;
          z2_10_0 = fmul t0 z2_5_0;
          t0 = fsquare z2_10_0;
          t1 = fsquare t0;
          t1 = square_rounds 2 10 t1;
          z2_20_0 = fmul t1 z2_10_0;
          t0 = fsquare z2_20_0;
          t1 = fsquare t0;
          t1 = square_rounds 2 20 t1;
          t0 = fmul t1 z2_20_0;
          t1 = fsquare t0;
          t0 = fsquare t1;
          t0 = square_rounds 2 10 t0;
          z2_50_0 = fmul t0 z2_10_0;
          t0 = fsquare z2_50_0;
          t1 = fsquare t0;
          t1 = square_rounds 2 50 t1;
          z2_100_0 = fmul t1 z2_50_0;
          t1 = fsquare z2_100_0;
          t0 = fsquare t1;
          t0 = square_rounds 2 100 t0;
          t1 = fmul t0 z2_100_0;
          t0 = fsquare t1;
          t1 = fsquare t0;
          t1 = square_rounds 2 50 t1;
          t0 = fmul t1 z2_50_0;
          t1 = fsquare t0;
          t0 = fsquare t1;
          t1 = fsquare t0;
          t0 = fsquare t1;
          t1 = fsquare t0
      in fmul t1 z11)"

section \<open>Values and bounds\<close>

text \<open>
  The limbs have weights \<open>2^0\<close>, \<open>2^26\<close>, \<open>2^51\<close>, \<open>2^77\<close> and so on; \<open>fval\<close> is the number an array stands
  for and \<open>fbound\<close> the bound on its limbs that the comments of the source state.
\<close>

definition p25519 :: int where "p25519 = 2 ^ 255 - 19"

definition width :: "nat \<Rightarrow> nat" where "width i = (if even i then 26 else 25)"

definition weight :: "nat \<Rightarrow> int" where "weight i = 2 ^ ((51 * i + 1) div 2)"

definition lval :: "nat \<Rightarrow> 'a::len word list \<Rightarrow> int" where "lval n x = (\<Sum>i<n. weight i * sint (x ! i))"

definition fval :: "limb list \<Rightarrow> int" where "fval x = lval 10 x"

definition fbound :: "int \<Rightarrow> limb list \<Rightarrow> bool" where "fbound B x \<longleftrightarrow> 10 \<le> length x \<and> (\<forall>i<10. \<bar>sint (x ! i)\<bar> < B)"

section \<open>Limbs as integers\<close>

lemma sint_of_int_exact:
  assumes "- (2 ^ 63) \<le> k" "k < 2 ^ 63"
  shows "sint (of_int k :: limb) = k"
  using assms by (simp add: sint_sbintrunc' signed_take_bit_int_eq_self)

lemma s32_of_int_exact:
  assumes "- (2 ^ 31) \<le> k" "k < 2 ^ 31"
  shows "sint (of_int k :: s32) = k"
  using assms by (simp add: sint_sbintrunc' signed_take_bit_int_eq_self)

lemma s32_of_limb_sint: "s32_of_limb x = of_int (sint x)"
    unfolding s32_of_limb_def by (rule bit_word_eqI) (simp add: bit_simps)

lemma sint_s32_of_limb:
  assumes "\<bar>sint (x::limb)\<bar> < 2 ^ 31"
  shows "sint (s32_of_limb x) = sint x"
  unfolding s32_of_limb_sint by (rule s32_of_int_exact) (use assms in auto)

lemma limb_of_s32_sint: "limb_of_s32 x = of_int (sint x)"
  by (simp add: limb_of_s32_def)

lemma limb_of_s32_of_limb:
  assumes "\<bar>sint (x::limb)\<bar> < 2 ^ 31"
  shows "limb_of_s32 (s32_of_limb x) = x"
  unfolding limb_of_s32_sint sint_s32_of_limb [OF assms] by simp

lemma upto_10: "[0..<10] = [0, 1, 2, 3, 4, 5, 6, 7, 8, 9]"
  by (simp add: upt_conv_Cons)

lemma foldl_update_upt:
  "n \<le> length x \<Longrightarrow> foldl (\<lambda>u i. u[i := h i (u ! i)]) x [0..<n] = map (\<lambda>i. h i (x ! i)) [0..<n] @ drop n x"
proof (induction n)
  case (Suc n)
  then show ?case by (simp add: Cons_nth_drop_Suc [symmetric] list_update_append nth_append)
qed simp

lemma fsum_nth:
  assumes "10 \<le> length x"
  shows "length (fsum x y) = length x" "i < 10 \<Longrightarrow> fsum x y ! i = x ! i + y ! i"
proof -
  show "length (fsum x y) = length x" by (simp add: fsum_def)
  have ne: "x \<noteq> []" using assms by auto
  have "list_all (\<lambda>i. fsum x y ! i = x ! i + y ! i) [0, 1, 2, 3, 4, 5, 6, 7, 8, 9]"
    using assms ne by (simp add: fsum_def)
  then show "i < 10 \<Longrightarrow> fsum x y ! i = x ! i + y ! i" unfolding upto_10 [symmetric] by (simp add: list_all_iff)
qed

lemma fdifference_nth:
  assumes "10 \<le> length x"
  shows "length (fdifference x y) = length x" "i < 10 \<Longrightarrow> fdifference x y ! i = y ! i - x ! i"
  unfolding fdifference_def foldl_update_upt [OF assms, of "\<lambda>i v. y ! i - v"] using assms by (simp_all add: nth_append)

lemma fscalar_product_nth:
  assumes "10 \<le> length x"
  shows "length (fscalar_product x y c) = length x" "i < 10 \<Longrightarrow> fscalar_product x y c ! i = y ! i * c"
  unfolding fscalar_product_def foldl_update_upt [OF assms, of "\<lambda>i v. y ! i * c"] using assms by (simp_all add: nth_append)

lemma sign_word:
  "signed_drop_bit 31 (ucast (drop_bit 32 v) :: s32) = (if sint (v :: limb) < 0 then -1 else 0)"
  by (rule bit_word_eqI) (use bit_last_iff [of v] in \<open>auto simp: bit_simps not_le\<close>)

lemma div_trunc: 
  assumes "sint v < 0 \<Longrightarrow> sint w = sint v + (2 ^ n - 1)" "0 \<le> sint v \<Longrightarrow> w = v"
  shows "sint (signed_drop_bit n w) = sgn (sint v) * (\<bar>sint v\<bar> div 2 ^ n)"
proof (cases "sint v < 0")
  case True
  define r where "r = - sint v mod 2 ^ n"
  have r: "0 \<le> r" "r < 2 ^ n" "- sint v = 2 ^ n * (- sint v div 2 ^ n) + r" by (simp_all add: r_def)
  have "(sint v + (2 ^ n - 1)) div 2 ^ n = - (- sint v div 2 ^ n)"
    by (rule int_div_pos_eq [where r = "2 ^ n - 1 - r"]) (use r in \<open>auto simp: algebra_simps\<close>)
  then show ?thesis using True assms(1) by (simp add: sint_signed_drop_bit_eq drop_bit_eq_div)
next
  case False
  then show ?thesis using assms(2) by (simp add: sint_signed_drop_bit_eq drop_bit_eq_div sgn_if)
qed

lemma sint_add:
  assumes "- (2 ^ 63) \<le> sint (x::limb) + sint y" "sint x + sint y < 2 ^ 63"
  shows "sint (x + y) = sint x + sint y"
  using sint_of_int_exact [OF assms] by simp

lemma limb_len: "LENGTH(64) - 1 = 63" by simp

lemma sint_limb: "- (2 ^ 63) \<le> sint (x::limb)" "sint (x::limb) < 2 ^ 63"
  by (fact sint_ge [of x, unfolded limb_len], fact sint_lt [of x, unfolded limb_len])

lemma sint_div_26:
  "sint (div_by_2_26 v) = sgn (sint v) * (\<bar>sint v\<bar> div 2 ^ 26)"
  unfolding div_by_2_26_def Let_def sign_word
proof (rule div_trunc)
  assume "sint v < 0"
  moreover have "limb_of_s32 (drop_bit 6 (- 1)) = 0x3ffffff" by (simp add: limb_of_s32_def mask_eq_exp_minus_1)
  ultimately show "sint (v + limb_of_s32 (drop_bit 6 (if sint v < 0 then - 1 else 0))) = sint v + (2 ^ 26 - 1)"
   using sint_limb [of v] by (subst sint_add) simp_all
qed (simp add: limb_of_s32_def)

section \<open>Carries\<close>

definition carry_limb :: "nat \<Rightarrow> limb list \<Rightarrow> limb list" where
  "carry_limb i x =
     (let over = (if even i then div_by_2_26 (x ! i) else div_by_2_25 (x ! i))
      in x[i := x ! i - push_bit (width i) over, i + 1 := x ! (i + 1) + over])"

lemma sint_div_25:
  "sint (div_by_2_25 v) = sgn (sint v) * (\<bar>sint v\<bar> div 2 ^ 25)"
  unfolding div_by_2_25_def Let_def sign_word
proof (rule div_trunc)
  assume "sint v < 0"
  moreover have "limb_of_s32 (drop_bit 7 (- 1)) = 0x1ffffff" by (simp add: limb_of_s32_def mask_eq_exp_minus_1)
  ultimately show "sint (v + limb_of_s32 (drop_bit 7 (if sint v < 0 then - 1 else 0))) = sint v + (2 ^ 25 - 1)"
   using sint_limb [of v] by (subst sint_add) simp_all
qed (simp add: limb_of_s32_def)

lemma freduce_step_carry:
  assumes "even i" "i + 2 < length x"
  shows "freduce_step x i = carry_limb (i + 1) (carry_limb i x)"
  using assms by (simp add: freduce_step_def carry_limb_def width_def Let_def)

lemma trunc_rem:
  fixes s :: int and w :: nat
  defines "q \<equiv> sgn s * (\<bar>s\<bar> div 2 ^ w)"
  shows "\<bar>s - 2 ^ w * q\<bar> < 2 ^ w" "\<bar>q\<bar> = \<bar>s\<bar> div 2 ^ w" "\<bar>s - 2 ^ w * q\<bar> \<le> \<bar>s\<bar>"
proof -
  have e: "s - 2 ^ w * q = sgn s * (\<bar>s\<bar> mod 2 ^ w)"
    unfolding q_def by (simp add: minus_mult_div_eq_mod [symmetric] right_diff_distrib algebra_simps) (simp add: abs_sgn mult.commute)
  show "\<bar>s - 2 ^ w * q\<bar> < 2 ^ w" "\<bar>s - 2 ^ w * q\<bar> \<le> \<bar>s\<bar>" unfolding e by (auto simp: abs_mult sgn_if zmod_le_nonneg_dividend)
  show "\<bar>q\<bar> = \<bar>s\<bar> div 2 ^ w" by (auto simp: q_def abs_mult sgn_if pos_imp_zdiv_nonneg_iff)
qed

lemma carry_limb_nth:
  assumes "i + 1 < length x" "\<bar>sint (x ! (i + 1))\<bar> + \<bar>sint (x ! i)\<bar> div 2 ^ width i < 2 ^ 63"
  shows "length (carry_limb i x) = length x"
    "\<bar>sint (carry_limb i x ! i)\<bar> < 2 ^ width i"
    "\<bar>sint (carry_limb i x ! (i + 1))\<bar> \<le> \<bar>sint (x ! (i + 1))\<bar> + \<bar>sint (x ! i)\<bar> div 2 ^ width i"
    "sint (carry_limb i x ! i) + 2 ^ width i * sint (carry_limb i x ! (i + 1)) =
     sint (x ! i) + 2 ^ width i * sint (x ! (i + 1))"
    "j \<noteq> i \<Longrightarrow> j \<noteq> i + 1 \<Longrightarrow> carry_limb i x ! j = x ! j"
proof -
  define over where "over = (if even i then div_by_2_26 (x ! i) else div_by_2_25 (x ! i))"
  let ?s = "sint (x ! i)" and ?w = "width i"
  define q where "q = sgn ?s * (\<bar>?s\<bar> div 2 ^ ?w)"
  have over: "sint over = q" by (simp add: over_def q_def width_def sint_div_26 sint_div_25)
  have t: "\<bar>?s - 2 ^ ?w * q\<bar> < 2 ^ ?w" "\<bar>q\<bar> = \<bar>?s\<bar> div 2 ^ ?w" "\<bar>?s - 2 ^ ?w * q\<bar> \<le> \<bar>?s\<bar>" unfolding q_def by (rule trunc_rem)+
  have w: "(2 :: int) ^ ?w \<le> 2 ^ 63" by (simp add: width_def)
  have c: "carry_limb i x = x[i := x ! i - push_bit ?w over, i + 1 := x ! (i + 1) + over]"
    by (simp add: carry_limb_def over_def Let_def)
  have i: "carry_limb i x ! i = of_int (?s - 2 ^ ?w * q)"
    using assms(1) by (simp add: c push_bit_eq_mult flip: over)
  have i1: "carry_limb i x ! (i + 1) = of_int (sint (x ! (i + 1)) + q)"
    using assms(1) by (simp add: c flip: over)
  have si: "sint (carry_limb i x ! i) = ?s - 2 ^ ?w * q"
    unfolding i by (rule sint_of_int_exact) (use t(1) w in linarith)+
  have si1: "sint (carry_limb i x ! (i + 1)) = sint (x ! (i + 1)) + q"
    unfolding i1 by (rule sint_of_int_exact) (use t(2) assms(2) in linarith)+
  show "\<bar>sint (carry_limb i x ! i)\<bar> < 2 ^ ?w" unfolding si by (rule t)
  show "\<bar>sint (carry_limb i x ! (i + 1))\<bar> \<le> \<bar>sint (x ! (i + 1))\<bar> + \<bar>?s\<bar> div 2 ^ ?w"
    unfolding si1 t(2) [symmetric] by linarith
  show "sint (carry_limb i x ! i) + 2 ^ ?w * sint (carry_limb i x ! (i + 1)) = ?s + 2 ^ ?w * sint (x ! (i + 1))"
    unfolding si si1 by (simp add: algebra_simps)
  show "length (carry_limb i x) = length x" by (simp add: c)
  show "j \<noteq> i \<Longrightarrow> j \<noteq> i + 1 \<Longrightarrow> carry_limb i x ! j = x ! j" by (simp add: c)
qed

lemma weight_Suc: "weight (i + 1) = 2 ^ width i * weight i"
proof -
  have "(51 * (i + 1) + 1) div 2 = width i + (51 * i + 1) div 2" by (auto simp: width_def elim!: evenE oddE)
  then show ?thesis by (simp only: weight_def power_add)
qed

text \<open>
  A step that moves a multiple of the width of a limb to the next one keeps the value.
\<close>

lemma lval_move:
  assumes "i + 1 < n" "\<And>j. j \<noteq> i \<Longrightarrow> j \<noteq> i + 1 \<Longrightarrow> y ! j = x ! j"
    "sint (y ! i) + 2 ^ width i * sint (y ! (i + 1)) = sint (x ! i) + 2 ^ width i * sint (x ! (i + 1))"
  shows "lval n y = lval n x"
proof -
  have sp: "(\<Sum>j<n. f j) = f i + f (i + 1) + (\<Sum>j\<in>{..<n} - {i, i + 1}. f j)" for f :: "nat \<Rightarrow> int"
    using assms(1)
    by (simp add: sum.remove [of _ i] sum.remove [of _ "i + 1"] Diff_insert2 [of _ i "{i + 1}"]
      Diff_insert [of _ "i + 1" "{i}"] insert_commute add.assoc flip: Diff_insert)
  have r: "(\<Sum>j\<in>{..<n} - {i, i + 1}. weight j * sint (y ! j)) =
      (\<Sum>j\<in>{..<n} - {i, i + 1}. weight j * sint (x ! j))"
    by (intro sum.cong refl) (simp add: assms(2))
  have "weight i * (sint (y ! i) + 2 ^ width i * sint (y ! (i + 1))) =
      weight i * (sint (x ! i) + 2 ^ width i * sint (x ! (i + 1)))"
    unfolding assms(3) ..
  then show ?thesis unfolding lval_def sp r weight_Suc by (simp add: algebra_simps)
qed

lemma carry_limb_lval:
  assumes "i + 1 < length x" "\<bar>sint (x ! (i + 1))\<bar> + \<bar>sint (x ! i)\<bar> div 2 ^ width i < 2 ^ 63" "i + 1 < n"
  shows "lval n (carry_limb i x) = lval n x"
  by (rule lval_move [OF assms(3)]) (fact carry_limb_nth [OF assms(1,2)])+

lemma lval_upd:
  "length x \<ge> n \<Longrightarrow> n \<le> i \<Longrightarrow> lval n (x[i := v]) = lval n x"
  by (auto simp: lval_def intro!: sum.cong)

text \<open>After \<open>n\<close> carries the first \<open>n\<close> limbs are within their width and the next may have grown by a carry.\<close>

definition carried :: "int \<Rightarrow> nat \<Rightarrow> limb list \<Rightarrow> bool" where
  "carried V n x \<longleftrightarrow> length x = 19 \<and> lval 11 x = V \<and>
    (\<forall>i<n. \<bar>sint (x ! i)\<bar> < 2 ^ width i) \<and>
    (n < 10 \<longrightarrow> \<bar>sint (x ! n)\<bar> < 281 * 2 ^ 54) \<and>
    (\<forall>i. n < i \<longrightarrow> i < 10 \<longrightarrow> \<bar>sint (x ! i)\<bar> < 280 * 2 ^ 54) \<and>
    (if n < 10 then x ! 10 = 0 else \<bar>sint (x ! 10)\<bar> < 281 * 2 ^ 29)"

lemma carried_step:
  assumes "carried V n x" "n < 10"
  shows "carried V (n + 1) (carry_limb n x)"
proof -
  have x: "length x = 19" "lval 11 x = V" "x ! 10 = 0" "\<And>i. i < n \<Longrightarrow> \<bar>sint (x ! i)\<bar> < 2 ^ width i"
    "\<bar>sint (x ! n)\<bar> < 281 * 2 ^ 54" "\<And>i. n < i \<Longrightarrow> i < 10 \<Longrightarrow> \<bar>sint (x ! i)\<bar> < 280 * 2 ^ 54"
    using assms by (auto simp: carried_def)
  have n1: "\<bar>sint (x ! (n + 1))\<bar> < 280 * 2 ^ 54"
    using x(3) x(6) [of "n + 1"] assms(2) by (cases "n + 1 = 10") auto
  have d: "\<bar>sint (x ! n)\<bar> div 2 ^ width n < 281 * 2 ^ 29"
  proof -
    have "\<bar>sint (x ! n)\<bar> div 2 ^ width n \<le> \<bar>sint (x ! n)\<bar> div 2 ^ 25"
      by (rule zdiv_mono2) (auto simp: width_def)
    also have "\<dots> < 281 * 2 ^ 29" using x(5) by (simp add: div_less_iff_less_mult)
    finally show ?thesis .
  qed
  have a: "n + 1 < length x" "\<bar>sint (x ! (n + 1))\<bar> + \<bar>sint (x ! n)\<bar> div 2 ^ width n < 2 ^ 63"
    using x(1) d n1 assms(2) by auto
  note c = carry_limb_nth [OF a]
  show ?thesis unfolding carried_def
  proof (intro conjI)
    show "length (carry_limb n x) = 19" using c(1) x(1) by simp
    show "lval 11 (carry_limb n x) = V" using carry_limb_lval [OF a] assms(2) x(2) by simp
    show "\<forall>i<n + 1. \<bar>sint (carry_limb n x ! i)\<bar> < 2 ^ width i"
      using c(2) c(5) x(4) by (auto simp: less_Suc_eq)
    show "n + 1 < 10 \<longrightarrow> \<bar>sint (carry_limb n x ! (n + 1))\<bar> < 281 * 2 ^ 54"
      using c(3) n1 d by simp
    show "\<forall>i. n + 1 < i \<longrightarrow> i < 10 \<longrightarrow> \<bar>sint (carry_limb n x ! i)\<bar> < 280 * 2 ^ 54"
      using c(5) x(6) by simp
    show "if n + 1 < 10 then carry_limb n x ! 10 = 0 else \<bar>sint (carry_limb n x ! 10)\<bar> < 281 * 2 ^ 29"
    proof (cases "n + 1 < 10")
      case True
      then show ?thesis using c(5) [of 10] x(3) by simp
    next
      case False
      then have "n = 9" using assms(2) by simp
      then show ?thesis using c(3) d x(3) by simp
    qed
  qed
qed

lemma carried_freduce_step:
  assumes "carried V i x" "even i" "i < 9" "n = i + 2"
  shows "carried V n (freduce_step x i)"
proof -
  have "length x = 19" using assms(1) by (simp add: carried_def)
  moreover have "carried V (i + 1 + 1) (carry_limb (i + 1) (carry_limb i x))"
    using assms(3) by (intro carried_step assms(1)) simp_all
  ultimately show ?thesis using assms(2-4) by (simp add: freduce_step_carry)
qed

lemma carried_steps:
  assumes "carried V 0 x"
  shows "carried V 10 (foldl freduce_step x [0, 2, 4, 6, 8])"
proof -
  have "carried V 2 (freduce_step x 0)" by (rule carried_freduce_step [OF assms]) simp_all
  from carried_freduce_step [OF this] have "carried V 4 (freduce_step (freduce_step x 0) 2)" by simp_all
  from carried_freduce_step [OF this] have "carried V 6 (freduce_step (freduce_step (freduce_step x 0) 2) 4)" by simp_all
  from carried_freduce_step [OF this] have "carried V 8 (freduce_step (freduce_step (freduce_step (freduce_step x 0) 2) 4) 6)" by simp
  from carried_freduce_step [OF this] show ?thesis by simp
qed

lemma freduce_coefficients_spec:
  assumes "length x = 19" "fbound (280 * 2 ^ 54) x"
  shows "length (freduce_coefficients x) = 19" "fbound (2 ^ 26) (freduce_coefficients x)"
    "fval (freduce_coefficients x) mod p25519 = fval x mod p25519"
proof -
  define y where "y = foldl freduce_step (x[10 := 0]) [0, 2, 4, 6, 8]"
  have l11: "lval 11 u = fval u + weight 10 * sint (u ! 10)" for u
    by (simp add: lval_def fval_def lessThan_Suc eval_nat_numeral)
  have "lval 11 (x[10 := 0]) = fval x"
    using assms(1) by (simp add: l11 fval_def lval_upd)
  then have "carried (fval x) 0 (x[10 := 0])"
    using assms by (fastforce simp: carried_def fbound_def)
  from carried_steps [OF this] have y: "length y = 19" "fval y + weight 10 * sint (y ! 10) = fval x"
    "\<And>i. i < 10 \<Longrightarrow> \<bar>sint (y ! i)\<bar> < 2 ^ width i" "\<bar>sint (y ! 10)\<bar> < 281 * 2 ^ 29"
    unfolding y_def [symmetric] by (auto simp: carried_def l11)
  define z where "z = y[0 := y ! 0 + 19 * y ! 10, 10 := 0]"
  have ne: "y \<noteq> []" using y(1) by auto
  have "y[0 := y ! 0 + push_bit 4 (y ! 10), 0 := y ! 0 + push_bit 4 (y ! 10) + push_bit 1 (y ! 10),
      0 := y ! 0 + push_bit 4 (y ! 10) + push_bit 1 (y ! 10) + y ! 10, 10 := 0] = z"
    by (simp add: z_def push_bit_eq_mult add.commute)
  then have z: "freduce_coefficients x = carry_limb 0 z"
    using y(1) ne unfolding freduce_coefficients_def Let_def y_def [symmetric]
    by (simp add: carry_limb_def width_def Let_def)
  have w0: "width 0 = 26" "width 1 = 25" "width (Suc 0) = 25" by (simp_all add: width_def)
  have "z ! 0 = of_int (sint (y ! 0) + 19 * sint (y ! 10))" using y(1) by (simp add: z_def)
  then have z0: "sint (z ! 0) = sint (y ! 0) + 19 * sint (y ! 10)"
    using y(3) [of 0] y(4) by (simp only:) (rule sint_of_int_exact, simp_all add: w0)
  have zi: "0 < i \<Longrightarrow> i < 10 \<Longrightarrow> z ! i = y ! i" for i by (simp add: z_def)
  have d: "\<bar>sint (z ! 0)\<bar> div 2 ^ 26 < 42714"
    using y(3) [of 0] y(4) z0 by (simp add: w0 div_less_iff_less_mult)
  have a: "0 + 1 < length z" "\<bar>sint (z ! (0 + 1))\<bar> + \<bar>sint (z ! 0)\<bar> div 2 ^ width 0 < 2 ^ 63"
    using y(1) y(3) [of 1] zi [of 1] d by (simp_all add: z_def w0)
  note c = carry_limb_nth [OF a]
  show "length (freduce_coefficients x) = 19" using c(1) y(1) by (simp add: z z_def)
  have one: "\<bar>sint (carry_limb 0 z ! 1)\<bar> < 2 ^ 26"
    using c(3) y(3) [of 1] zi [of 1] d by (simp add: w0)
  show "fbound (2 ^ 26) (freduce_coefficients x)" unfolding z fbound_def
  proof (intro conjI allI impI)
    show "10 \<le> length (carry_limb 0 z)" using c(1) y(1) by (simp add: z_def)
    fix i :: nat assume i: "i < 10"
    consider "i = 0" | "i = 1" | "1 < i" by linarith
    then show "\<bar>sint (carry_limb 0 z ! i)\<bar> < 2 ^ 26"
    proof cases
      case 3
      then have "\<bar>sint (carry_limb 0 z ! i)\<bar> < 2 ^ width i" using c(5) [of i] zi [of i] y(3) [of i] i by simp
      then show ?thesis by (simp add: width_def split: if_splits)
    qed (use c(2) one in \<open>simp_all add: w0\<close>)
  qed
  have "fval (carry_limb 0 z) = fval z" using carry_limb_lval [OF a, of 10] by (simp add: fval_def)
  also have "\<dots> = fval y + 19 * sint (y ! 10)"
  proof -
    have s: "fval u = sint (u ! 0) + (\<Sum>i\<in>{1..<10}. weight i * sint (u ! i))" for u
      by (simp add: fval_def lval_def sum.atLeast1_atMost_eq weight_def lessThan_atLeast0 sum.atLeast_Suc_lessThan)
    have "(\<Sum>i\<in>{1..<10}. weight i * sint (z ! i)) = (\<Sum>i\<in>{1..<10}. weight i * sint (y ! i))"
      by (intro sum.cong refl) (simp add: zi)
    then show ?thesis unfolding s z0 by simp
  qed
  also have "\<dots> = fval x - p25519 * sint (y ! 10)"
    using y(2) by (simp add: weight_def p25519_def algebra_simps)
  finally show "fval (freduce_coefficients x) mod p25519 = fval x mod p25519"
    unfolding z by (simp add: mod_diff_right_eq [symmetric])
qed

section \<open>Products\<close>

lemma bound_add:
  "\<bar>a\<bar> \<le> m * M \<Longrightarrow> \<bar>b\<bar> \<le> n * M \<Longrightarrow> \<bar>a + b\<bar> \<le> (m + n) * (M :: int)"
  by (simp add: distrib_right)

lemma bound_double:
  "\<bar>a\<bar> \<le> m * M \<Longrightarrow> \<bar>2 * a\<bar> \<le> (2 * m) * (M :: int)"
  by simp

lemma bound_le:
  "\<bar>a\<bar> \<le> m * M \<Longrightarrow> m \<le> n \<Longrightarrow> 0 \<le> M \<Longrightarrow> \<bar>a\<bar> \<le> n * (M :: int)"
  by (meson mult_right_mono order_trans)

lemma product_sums_bound:
  assumes f: "\<And>i. i < 10 \<Longrightarrow> \<bar>f i\<bar> \<le> A" and g: "\<And>i. i < 10 \<Longrightarrow> \<bar>g i\<bar> \<le> (B::int)" 
  shows "list_all (\<lambda>t. \<bar>t\<bar> \<le> 14 * (A * B)) (product_sums f g)"
proof -
  have nn: "0 \<le> A * B" using f [of 0] g [of 0] by simp
  have p: "\<bar>f i * g j\<bar> \<le> 1 * (A * B)" if "i < 10" "j < 10" for i j
    using f [OF that(1)] g [OF that(2)] by (simp add: abs_mult mult_mono')
  have p2: "\<bar>2 * f i * g j\<bar> \<le> 2 * (A * B)" if "i < 10" "j < 10" for i j
    using p [OF that] by (simp add: abs_mult)
  show ?thesis unfolding product_sums_def list.pred_inject(2)
    by (intro conjI list.pred_inject(1); rule bound_le [OF _ _ nn], (rule bound_add bound_double p2 p | simp)+)
qed

lemma upto_9: "[0..<9] = [0, 1, 2, 3, 4, 5, 6, 7, 8]"
  by (simp add: upt_conv_Cons)

lemma freduce_degree_nth:
  assumes "length t = 19"
  shows "length (freduce_degree t) = 19" "i < 9 \<Longrightarrow> freduce_degree t ! i = t ! i + 19 * t ! (i + 10)"
    "freduce_degree t ! 9 = t ! 9"
proof -
  have ne: "t \<noteq> []" using assms by auto
  show "length (freduce_degree t) = 19" using assms by (simp add: freduce_degree_def Let_def)
  show "freduce_degree t ! 9 = t ! 9" using assms by (simp add: freduce_degree_def Let_def)
  have "list_all (\<lambda>i. freduce_degree t ! i = t ! i + 19 * t ! (i + 10)) [0,1,2,3,4,5,6,7,8]"
    using assms ne by (simp add: freduce_degree_def Let_def push_bit_eq_mult)
  then show "i < 9 \<Longrightarrow> freduce_degree t ! i = t ! i + 19 * t ! (i + 10)"
    unfolding upto_9 [symmetric] by (simp add: list_all_iff)
qed

lemma freduce_degree_spec:
  assumes "length t = 19" "\<And>i. i < 19 \<Longrightarrow> \<bar>sint (t ! i)\<bar> < 14 * 2 ^ 54"
  shows "fbound (280 * 2 ^ 54) (freduce_degree t)"
    "fval (freduce_degree t) mod p25519 = lval 19 t mod p25519"
proof -
  note d = freduce_degree_nth [OF assms(1)]
  have s: "sint (freduce_degree t ! i) = sint (t ! i) + 19 * sint (t ! (i + 10))" if "i < 9" for i
  proof -
    have "freduce_degree t ! i = of_int (sint (t ! i) + 19 * sint (t ! (i + 10)))"
      using d(2) [OF that] by simp
    then show ?thesis
      using assms(2) [of i] assms(2) [of "i + 10"] that
      by (simp only:) (rule sint_of_int_exact, simp_all)
  qed
  show "fbound (280 * 2 ^ 54) (freduce_degree t)" unfolding fbound_def
  proof (intro conjI allI impI)
    fix i :: nat assume "i < 10"
    then consider "i < 9" | "i = 9" by linarith
    then show "\<bar>sint (freduce_degree t ! i)\<bar> < 280 * 2 ^ 54"
    proof cases
      case 1
      then show ?thesis using s [of i] assms(2) [of i] assms(2) [of "i + 10"] by simp
    qed (use d(3) assms(2) [of 9] in simp)
  qed (use d(1) in simp)
  have w: "weight (i + 10) = 2 ^ 255 * weight i" for i
  proof -
    have "(51 * (i + 10) + 1) div 2 = 255 + (51 * i + 1) div 2" by simp
    then show ?thesis by (simp only: weight_def power_add)
  qed
  have "lval 19 t = lval 10 t + (\<Sum>i<9. weight (i + 10) * sint (t ! (i + 10)))"
    unfolding lval_def by (simp add: sum.lessThan_Suc eval_nat_numeral)
  also have "\<dots> = lval 10 t + 2 ^ 255 * (\<Sum>i<9. weight i * sint (t ! (i + 10)))"
    unfolding w by (simp only: sum_distrib_left mult.assoc)
  also have "\<dots> mod p25519 = (lval 10 t + 19 * (\<Sum>i<9. weight i * sint (t ! (i + 10)))) mod p25519"
  proof -
    have "(a + 2 ^ 255 * b) mod p25519 = (a + 19 * b) mod p25519" for a b
    proof -
      have "a + 2 ^ 255 * b = a + 19 * b + b * p25519" by (simp add: p25519_def algebra_simps)
      then show ?thesis by (simp only: mod_mult_self1)
    qed
    then show ?thesis .
  qed
  also have "lval 10 t + 19 * (\<Sum>i<9. weight i * sint (t ! (i + 10))) = fval (freduce_degree t)"
  proof -
    have r: "lval 10 u = (\<Sum>i<9. weight i * sint (u ! i)) + weight 9 * sint (u ! 9)" for u
      by (simp add: lval_def lessThan_Suc eval_nat_numeral)
    show ?thesis unfolding fval_def r d(3) sum_distrib_left
      by (simp add: s algebra_simps sum.distrib)
  qed
  finally show "fval (freduce_degree t) mod p25519 = lval 19 t mod p25519" ..
qed

lemma sum_10:
  "(\<Sum>i<(10::nat). h i) = h 0 + h 1 + h 2 + h 3 + h 4 + h 5 + h 6 + h 7 + h 8 + (h 9 :: int)"
  by (simp add: lessThan_nat_numeral)

lemma sum_19:
  "(\<Sum>i<(19::nat). h i) = h 0 + h 1 + h 2 + h 3 + h 4 + h 5 + h 6 + h 7 + h 8 + h 9 + h 10 + h 11 + h 12 + h 13 + h 14 + h 15 + h 16 + h 17 + (h 18 :: int)"
  by (simp add: lessThan_nat_numeral)

lemma product_sums_value:
  "(\<Sum>i<19. weight i * product_sums f g ! i) = (\<Sum>i<10. weight i * f i) * (\<Sum>i<10. weight i * g i :: int)"
  unfolding sum_10 sum_19
  by (simp add: weight_def product_sums_def) (simp add:  algebra_simps)

lemma map_product_sums:
  "map of_int (product_sums f g) = (product_sums (\<lambda>i. of_int (f i)) (\<lambda>i. of_int (g i)) :: limb list)"
  by (simp add: product_sums_def)

lemma length_product_sums: "length (product_sums f g) = 19"
  by (simp add: product_sums_def)

lemma product_sums_cong:
  "(\<And>i. i < 10 \<Longrightarrow> f i = f' i) \<Longrightarrow> (\<And>i. i < 10 \<Longrightarrow> g i = g' i) \<Longrightarrow> product_sums f g = product_sums f' g'"
  by (simp add: product_sums_def)

lemma fproduct_spec:
  assumes x: "fbound (2 ^ 27) x" and y: "fbound (2 ^ 27) y"
  shows "length (fproduct x y) = 19" "i < 19 \<Longrightarrow> \<bar>sint (fproduct x y ! i)\<bar> < 14 * 2 ^ 54"
    "lval 19 (fproduct x y) = fval x * fval y"
proof -
  define P where "P = product_sums (\<lambda>i. sint (x ! i)) (\<lambda>i. sint (y ! i))"
  have b: "\<bar>sint (u ! i)\<bar> \<le> 2 ^ 27 - 1" "limb_of_s32 (s32_of_limb (u ! i)) = of_int (sint (u ! i))"
    if "fbound (2 ^ 27) u" "i < 10" for u i
  proof -
    have "\<bar>sint (u ! i)\<bar> < 2 ^ 27" using that by (auto simp: fbound_def)
    then show "\<bar>sint (u ! i)\<bar> \<le> 2 ^ 27 - 1" "limb_of_s32 (s32_of_limb (u ! i)) = of_int (sint (u ! i))"
      by (simp_all add: limb_of_s32_of_limb)
  qed
  have p: "fproduct x y = map of_int P"
    unfolding fproduct_def P_def map_product_sums by (rule product_sums_cong) (use b x y in auto)
  have "list_all (\<lambda>t. \<bar>t\<bar> \<le> 14 * ((2 ^ 27 - 1) * (2 ^ 27 - 1))) P"
    unfolding P_def by (rule product_sums_bound) (use b(1) x y in auto)
  then have P: "\<bar>P ! i\<bar> < 14 * 2 ^ 54" if "i < 19" for i
  proof -
    have "\<bar>P ! i\<bar> \<le> 14 * ((2 ^ 27 - 1) * (2 ^ 27 - 1))"
      using \<open>list_all _ P\<close> that by (simp add: list_all_length P_def length_product_sums)
    then show ?thesis by simp
  qed
  have s: "sint (fproduct x y ! i) = P ! i" if "i < 19" for i
  proof -
    have "fproduct x y ! i = of_int (P ! i)" unfolding p using that by (simp add: P_def length_product_sums)
    then show ?thesis using P [OF that] by (simp only:) (rule sint_of_int_exact, simp_all)
  qed
  show "length (fproduct x y) = 19" by (simp add: fproduct_def length_product_sums)
  show "i < 19 \<Longrightarrow> \<bar>sint (fproduct x y ! i)\<bar> < 14 * 2 ^ 54" using s P by simp
  show "lval 19 (fproduct x y) = fval x * fval y"
    unfolding fval_def lval_def product_sums_value [symmetric] P_def [symmetric]
    by (rule sum.cong) (simp_all add: s)
qed

lemma square_sums_product: "square_sums f = product_sums f f"
  by (simp add: product_sums_def square_sums_def algebra_simps)

lemma freduced_product:
  assumes "fbound (2 ^ 27) x" "fbound (2 ^ 27) y"
  defines "t \<equiv> freduce_coefficients (freduce_degree (fproduct x y))"
  shows "length t = 19" "fbound (2 ^ 26) t" "fval t mod p25519 = (fval x * fval y) mod p25519"
proof -
  note p = fproduct_spec [OF assms(1,2)]
  note d = freduce_degree_spec [OF p(1) p(2)] freduce_degree_nth(1) [OF p(1)]
  note c = freduce_coefficients_spec [OF d(3) d(1)]
  show "length t = 19" "fbound (2 ^ 26) t" using c(1,2) by (simp_all add: t_def)
  show "fval t mod p25519 = (fval x * fval y) mod p25519" using c(3) d(2) p(3) by (simp add: t_def)
qed

lemma fbound_take: "fbound B (take 10 x) \<longleftrightarrow> fbound B x"
  by (auto simp: fbound_def)

lemma fval_take: "fval (take 10 x) = fval x"
  by (simp add: fval_def lval_def)

lemma fmul_spec:
  assumes "fbound (2 ^ 27) x" "fbound (2 ^ 27) y"
  shows "length (fmul x y) = 10" "fbound (2 ^ 26) (fmul x y)"
    "fval (fmul x y) mod p25519 = (fval x * fval y) mod p25519"
  using freduced_product [OF assms] by (simp_all add: fmul_def fbound_take fval_take)

lemma fsquare_fmul: "fsquare x = fmul x x"
  by (simp add: fsquare_def fmul_def fsquare_inner_def fproduct_def square_sums_product)

section \<open>Sums and differences\<close>

lemma fsum_spec:
  assumes "fbound A x" "fbound B y" "A + B \<le> 2 ^ 63"
  shows "length (fsum x y) = length x" "fbound (A + B) (fsum x y)" "fval (fsum x y) = fval x + fval y"
proof -
  have l: "10 \<le> length x" using assms(1) by (simp add: fbound_def)
  note n = fsum_nth [OF l]
  have s: "sint (fsum x y ! i) = sint (x ! i) + sint (y ! i)" "\<bar>sint (fsum x y ! i)\<bar> < A + B" if "i < 10" for i
  proof -
    have b: "\<bar>sint (x ! i)\<bar> < A" "\<bar>sint (y ! i)\<bar> < B" using assms that by (auto simp: fbound_def)
    show e: "sint (fsum x y ! i) = sint (x ! i) + sint (y ! i)"
      unfolding n(2) [OF that] by (rule sint_add) (use b assms(3) in linarith)+
    show "\<bar>sint (fsum x y ! i)\<bar> < A + B" unfolding e using b by linarith
  qed
  show "length (fsum x y) = length x" by (rule n)
  show "fbound (A + B) (fsum x y)" using s l n(1) by (simp add: fbound_def)
  show "fval (fsum x y) = fval x + fval y"
    by (simp add: fval_def lval_def s distrib_left sum.distrib)
qed

lemma fdifference_spec:
  assumes "fbound A x" "fbound B y" "A + B \<le> 2 ^ 63"
  shows "length (fdifference x y) = length x" "fbound (A + B) (fdifference x y)"
    "fval (fdifference x y) = fval y - fval x"
proof -
  have l: "10 \<le> length x" using assms(1) by (simp add: fbound_def)
  note n = fdifference_nth [OF l]
  have s: "sint (fdifference x y ! i) = sint (y ! i) - sint (x ! i)" "\<bar>sint (fdifference x y ! i)\<bar> < A + B" if "i < 10" for i
  proof -
    have b: "\<bar>sint (x ! i)\<bar> < A" "\<bar>sint (y ! i)\<bar> < B" using assms that by (auto simp: fbound_def)
    have "fdifference x y ! i = of_int (sint (y ! i) - sint (x ! i))" using n(2) [OF that] by simp
    then show e: "sint (fdifference x y ! i) = sint (y ! i) - sint (x ! i)"
      by (simp only:) (rule sint_of_int_exact, (use b assms(3) in linarith)+)
    show "\<bar>sint (fdifference x y ! i)\<bar> < A + B" unfolding e using b by linarith
  qed
  show "length (fdifference x y) = length x" by (rule n)
  show "fbound (A + B) (fdifference x y)" using s l n(1) by (simp add: fbound_def)
  show "fval (fdifference x y) = fval y - fval x"
    by (simp add: fval_def lval_def s right_diff_distrib sum_subtractf)
qed

lemma fscalar_product_spec:
  assumes "10 \<le> length x" "fbound (2 ^ 27) y"
  shows "length (fscalar_product x y 121665) = length x" "fbound (2 ^ 44) (fscalar_product x y 121665)"
    "fval (fscalar_product x y 121665) = 121665 * fval y"
proof -
  note n = fscalar_product_nth [OF assms(1)]
  have s: "sint (fscalar_product x y 121665 ! i) = 121665 * sint (y ! i)" "\<bar>sint (fscalar_product x y 121665 ! i)\<bar> < 2 ^ 44" if "i < 10" for i
  proof -
    have b: "\<bar>sint (y ! i)\<bar> < 2 ^ 27" using assms that by (auto simp: fbound_def)
    have "fscalar_product x y 121665 ! i = of_int (121665 * sint (y ! i))" using n(2) [OF that] by simp
    then show e: "sint (fscalar_product x y 121665 ! i) = 121665 * sint (y ! i)"
      using b by (simp only:) (rule sint_of_int_exact, simp_all)
    show "\<bar>sint (fscalar_product x y 121665 ! i)\<bar> < 2 ^ 44" unfolding e using b by simp
  qed
  show "length (fscalar_product x y 121665) = length x" by (rule n)
  show "fbound (2 ^ 44) (fscalar_product x y 121665)" using s assms(1) n(1) by (simp add: fbound_def)
  show "fval (fscalar_product x y 121665) = 121665 * fval y"
    by (simp add: fval_def lval_def s sum_distrib_left mult.left_commute)
qed

lemma fsquare_spec:
  assumes "fbound (2 ^ 27) x"
  shows "length (fsquare x) = 10" "fbound (2 ^ 26) (fsquare x)" "fval (fsquare x) mod p25519 = (fval x) ^ 2 mod p25519"
  using fmul_spec [OF assms assms] by (simp_all add: fsquare_fmul power2_eq_square)

section \<open>Inversion\<close>

text \<open>
  \<open>fpow a n t\<close>: the array \<open>t\<close> is reduced and stands for the \<open>n\<close>-th power of \<open>a\<close>.
\<close>

definition fpow :: "int \<Rightarrow> nat \<Rightarrow> limb list \<Rightarrow> bool" where
  "fpow a n t \<longleftrightarrow> length t = 10 \<and> fbound (2 ^ 26) t \<and> fval t mod p25519 = a ^ n mod p25519"

lemma fbound_mono: "fbound A x \<Longrightarrow> A \<le> B \<Longrightarrow> fbound B x"
  by (fastforce simp: fbound_def)

lemma fpow_mul:
  assumes "fpow a m x" "fpow a n y"
  shows "fpow a (m + n) (fmul x y)"
proof -
  have b: "fbound (2 ^ 27) x" "fbound (2 ^ 27) y"
    using assms by (auto simp: fpow_def intro: fbound_mono)
  have "(fval x * fval y) mod p25519 = (a ^ m * a ^ n) mod p25519"
    using assms by (metis fpow_def mod_mult_eq)
  then show ?thesis using fmul_spec [OF b] by (simp add: fpow_def power_add)
qed

lemma fpow_square: "fpow a n x \<Longrightarrow> fpow a (2 * n) (fsquare x)"
  using fpow_mul [of a n x n x] by (simp add: fsquare_fmul mult_2)

lemma fpow_rounds:
  "fpow a n x \<Longrightarrow> fpow a (n * 4 ^ ((k + 1 - i) div 2)) (square_rounds i k x)"
proof (induction i k x arbitrary: n rule: square_rounds.induct)
  case (1 i k x)
  show ?case
  proof (cases "i < k")
    case True
    have "fpow a (4 * n) (fsquare (fsquare x))" using fpow_square [OF fpow_square [OF 1(2)]] by simp
    from 1(1) [OF True this] have "fpow a (4 * n * 4 ^ ((k + 1 - (i + 2)) div 2)) (square_rounds (i + 2) k (fsquare (fsquare x)))" .
    moreover have "(k + 1 - i) div 2 = Suc ((k + 1 - (i + 2)) div 2)" using True by auto
    ultimately show ?thesis using True by (subst square_rounds.simps) (simp add: ac_simps)
  next
    case False
    then have "(k + 1 - i) div 2 = 0" by auto
    then show ?thesis using 1(2) False by (subst square_rounds.simps) simp
  qed
qed

lemma fpow_1:
  "length z = 10 \<Longrightarrow> fbound (2 ^ 26) z \<Longrightarrow> fpow (fval z) 1 z"
  by (simp add: fpow_def)

lemma crecip_fpow:
  assumes "fpow a 1 z"
  shows "fpow a (2 ^ 255 - 21) (crecip z)"
proof -
  have e: "fpow a m t" if "fpow a n t" "n = m" for m n t using that by simp
  show ?thesis
   unfolding crecip_def Let_def
   apply (rule e)
   apply (rule fpow_mul fpow_square fpow_rounds assms)+
   apply simp
   done
qed

section \<open>Properties\<close>

text \<open>
  Field multiplication: for operands whose limbs are below \<open>2^27\<close> in absolute value, as sums and
  differences of reduced numbers are, no operation of \<open>fmul\<close> overflows, and its result is the product
  modulo the prime with limbs below \<open>2^26\<close>; \<open>fsquare\<close>, with sums of its own, computes the same words
  as the product of the operand with itself.
\<close>

theorem multiplication_mod_prime:
  assumes "fbound (2 ^ 27) x" "fbound (2 ^ 27) y"
  shows "length (fmul x y) = 10 \<and> fbound (2 ^ 26) (fmul x y) \<and>
    fval (fmul x y) mod p25519 = (fval x * fval y) mod p25519 \<and> fsquare x = fmul x x"
  using fmul_spec [OF assms] fsquare_fmul by simp

theorem multiplication_mod_prime_witness:
  "fbound (2 ^ 26) (fmul (replicate 10 (- 67108864)) (replicate 10 67108863)) \<and>
   fval (fmul (replicate 10 (- 67108864)) (replicate 10 67108863)) mod p25519 =
     (fval (replicate 10 (- 67108864)) * fval (replicate 10 67108863)) mod p25519"
proof -
  have "fbound (2 ^ 27) (replicate 10 (- 67108864))" "fbound (2 ^ 27) (replicate 10 67108863)"
    by (simp_all add: fbound_def)
  from multiplication_mod_prime [OF this] show ?thesis by blast
qed

text \<open>
  Inversion: the chain of squarings and multiplications of \<open>crecip\<close> computes the power \<open>p - 2\<close> of a
  reduced number modulo the prime \<open>p\<close>, which by Fermat's theorem is the inverse.
\<close>

theorem inversion_is_power:
  assumes "length z = 10" "fbound (2 ^ 26) z"
  shows "length (crecip z) = 10 \<and> fbound (2 ^ 26) (crecip z) \<and>
    fval (crecip z) mod p25519 = fval z ^ nat (p25519 - 2) mod p25519"
  using crecip_fpow [OF fpow_1 [OF assms]] by (simp add: fpow_def p25519_def)

theorem inversion_is_power_witness:
  "fval (crecip (2 # replicate 9 0)) mod p25519 = fval (2 # replicate 9 0) ^ nat (p25519 - 2) mod p25519"
proof -
  have "fbound (2 ^ 26) (2 # replicate 9 0)" by (simp add: fbound_def nth_Cons split: nat.splits)
  then show ?thesis using inversion_is_power [of "2 # replicate 9 0"] by simp
qed

end
