(* ===== verification/DonnaCodec.thy ===== *)
theory DonnaCodec
  imports DonnaField
begin

text \<open>
  \<open>lib/curve25519-donna/curve25519-donna.c\<close>, second part: \<open>fexpand\<close> and \<open>fcontract\<close>, which
  convert between 32 bytes, least significant first, and arrays of limbs.  The lemmas show that
  \<open>fexpand\<close> reads the number modulo \<open>2^255\<close> and that \<open>fcontract\<close>, which works without branches on
  signed 32-bit words, writes the one representative below the prime.
\<close>

section \<open>Operations\<close>

definition expand_limb :: "bytes \<Rightarrow> nat \<Rightarrow> nat \<Rightarrow> limb \<Rightarrow> limb" where
  "expand_limb inp start shift msk =
     signed_drop_bit shift
       (ucast (inp ! (start + 0)) OR push_bit 8 (ucast (inp ! (start + 1))) OR
        push_bit 16 (ucast (inp ! (start + 2))) OR push_bit 24 (ucast (inp ! (start + 3)))) AND msk"

definition fexpand :: "bytes \<Rightarrow> limb list" where
  "fexpand inp =
     [expand_limb inp 0 0 0x3ffffff, expand_limb inp 3 2 0x1ffffff, expand_limb inp 6 3 0x3ffffff,
      expand_limb inp 9 5 0x1ffffff, expand_limb inp 12 6 0x3ffffff, expand_limb inp 16 0 0x1ffffff,
      expand_limb inp 19 1 0x3ffffff, expand_limb inp 22 3 0x1ffffff, expand_limb inp 25 4 0x3ffffff,
      expand_limb inp 28 6 0x1ffffff]"

definition s32_eq :: "s32 \<Rightarrow> s32 \<Rightarrow> s32" where
  "s32_eq a b =
     (let a = NOT (a XOR b);
          a = a AND push_bit 16 a;
          a = a AND push_bit 8 a;
          a = a AND push_bit 4 a;
          a = a AND push_bit 2 a;
          a = a AND push_bit 1 a
      in signed_drop_bit 31 a)"

definition s32_gte :: "s32 \<Rightarrow> s32 \<Rightarrow> s32" where
  "s32_gte a b = (let a = a - b in NOT (signed_drop_bit 31 a))"

text \<open>
  The two loops of \<open>fcontract\<close> over the limbs: borrowing from the next limb to make a limb
  non-negative, and carrying what exceeds its width to the next limb.
\<close>

definition borrow_step :: "s32 list \<Rightarrow> nat \<Rightarrow> s32 list" where
  "borrow_step inp i =
     (if i AND 1 = 1 then
        let mask = signed_drop_bit 31 (inp ! i);
            carry = - signed_drop_bit 25 ((inp ! i) AND mask);
            inp = inp[i := inp ! i + push_bit 25 carry]
        in inp[i + 1 := inp ! (i + 1) - carry]
      else
        let mask = signed_drop_bit 31 (inp ! i);
            carry = - signed_drop_bit 26 ((inp ! i) AND mask);
            inp = inp[i := inp ! i + push_bit 26 carry]
        in inp[i + 1 := inp ! (i + 1) - carry])"

definition borrow_pass :: "s32 list \<Rightarrow> s32 list" where
  "borrow_pass inp =
     (let inp = foldl borrow_step inp [0..<9];
          mask = signed_drop_bit 31 (inp ! 9);
          carry = - signed_drop_bit 25 ((inp ! 9) AND mask);
          inp = inp[9 := inp ! 9 + push_bit 25 carry]
      in inp[0 := inp ! 0 - carry * 19])"

definition carry_step :: "s32 list \<Rightarrow> nat \<Rightarrow> s32 list" where
  "carry_step inp i =
     (if i AND 1 = 1 then
        let carry = signed_drop_bit 25 (inp ! i);
            inp = inp[i := (inp ! i) AND 0x1ffffff]
        in inp[i + 1 := inp ! (i + 1) + carry]
      else
        let carry = signed_drop_bit 26 (inp ! i);
            inp = inp[i := (inp ! i) AND 0x3ffffff]
        in inp[i + 1 := inp ! (i + 1) + carry])"

definition carry_pass :: "s32 list \<Rightarrow> s32 list" where
  "carry_pass inp =
     (let inp = foldl carry_step inp [0..<9];
          carry = signed_drop_bit 25 (inp ! 9);
          inp = inp[9 := (inp ! 9) AND 0x1ffffff]
      in inp[0 := inp ! 0 + 19 * carry])"

text \<open>
  The conditional subtraction of the prime, without a branch.
\<close>

definition subtract_prime :: "s32 list \<Rightarrow> s32 list" where
  "subtract_prime inp =
     (let mask = s32_gte (inp ! 0) 0x3ffffed;
          mask = foldl (\<lambda>mask i.
              if i AND 1 = 1 then mask AND s32_eq (inp ! i) 0x1ffffff
              else mask AND s32_eq (inp ! i) 0x3ffffff)
            mask [1..<10];
          inp = inp[0 := inp ! 0 - (mask AND 0x3ffffed)]
      in foldl (\<lambda>inp i.
             if i AND 1 = 1 then inp[i := inp ! i - (mask AND 0x1ffffff)]
             else inp[i := inp ! i - (mask AND 0x3ffffff)])
           inp [1..<10])"

text \<open>
  The macro that writes a limb to the output: its first byte is added to the last byte of the limb
  before.
\<close>

definition contract_limb :: "s32 list \<Rightarrow> bytes \<Rightarrow> nat \<times> nat \<Rightarrow> bytes" where
  "contract_limb inp output = (\<lambda>(i, s).
     output[s + 0 := output ! (s + 0) OR ucast (inp ! i AND 0xff),
            s + 1 := ucast (signed_drop_bit 8 (inp ! i) AND 0xff),
            s + 2 := ucast (signed_drop_bit 16 (inp ! i) AND 0xff),
            s + 3 := ucast (signed_drop_bit 24 (inp ! i) AND 0xff)])"

definition contract_bytes :: "s32 list \<Rightarrow> bytes \<Rightarrow> bytes" where
  "contract_bytes inp output =
     (let inp = inp[1 := push_bit 2 (inp ! 1), 2 := push_bit 3 (inp ! 2), 3 := push_bit 5 (inp ! 3),
            4 := push_bit 6 (inp ! 4), 6 := push_bit 1 (inp ! 6), 7 := push_bit 3 (inp ! 7),
            8 := push_bit 4 (inp ! 8), 9 := push_bit 6 (inp ! 9)];
          output = output[0 := 0, 16 := 0]
      in foldl (contract_limb inp) output
           [(0, 0), (1, 3), (2, 6), (3, 9), (4, 12), (5, 16), (6, 19), (7, 22), (8, 25), (9, 28)])"

definition fcontract :: "bytes \<Rightarrow> limb list \<Rightarrow> bytes" where
  "fcontract output input_limbs =
     (let inp = map (\<lambda>i. s32_of_limb (input_limbs ! i)) [0..<10];
          inp = borrow_pass (borrow_pass inp);
          mask = signed_drop_bit 31 (inp ! 0);
          carry = - signed_drop_bit 26 ((inp ! 0) AND mask);
          inp = inp[0 := inp ! 0 + push_bit 26 carry];
          inp = inp[1 := inp ! 1 - carry];
          inp = carry_pass (carry_pass inp);
          inp = subtract_prime inp
      in contract_bytes inp output)"


section \<open>Byte strings as numbers\<close>

definition le_val :: "bytes \<Rightarrow> int" where "le_val bs = horner_sum uint 256 bs"

lemma bit_le_val: "bit (le_val bs) n \<longleftrightarrow> n div 8 < length bs \<and> bit (bs ! (n div 8)) (n mod 8)"
  using bit_horner_sum_uint_exp_iff [of bs n] by (simp add: le_val_def)

lemma bit_le_val_byte: "a < 8 \<Longrightarrow> bit (le_val bs) (8 * t + a) \<longleftrightarrow> t < length bs \<and> bit (bs ! t) a"
  by (simp add: bit_le_val)

lemma le_val_inject:
  assumes "length a = 32" "length b = 32" "le_val a = le_val b"
  shows "a = b"
proof (rule nth_equalityI)
  show "length a = length b" using assms by simp
  fix t assume t: "t < length a"
  show "a ! t = b ! t"
  proof (rule bit_word_eqI)
    fix n :: nat assume "n < LENGTH(8)"
    then show "bit (a ! t) n \<longleftrightarrow> bit (b ! t) n"
      using bit_le_val_byte [of n a t] bit_le_val_byte [of n b t] assms t by simp
  qed
qed

lemma le_val_zeros: "le_val (replicate n 0) = 0"
  by (induction n) (simp_all add: le_val_def)

lemma byte_high: "8 \<le> n \<Longrightarrow> \<not> bit (b :: byte) n"
  using bit_imp_le_length [of b n] by auto

definition offset :: "nat \<Rightarrow> nat" where "offset i = (51 * i + 1) div 2"

lemma take_bit_split:
  "take_bit (m + k) (N :: int) = take_bit m N + 2 ^ m * take_bit k (drop_bit m N)"
  by (simp add: take_bit_eq_mod drop_bit_eq_div power_add mod_mult2_eq' zmod_zmult2_eq)

lemma bit_expand_limb:
  assumes "s + 3 < length inp" "sh + k \<le> 32"
  shows "bit (expand_limb inp s sh (mask k)) n \<longleftrightarrow> n < k \<and> bit (le_val inp) (8 * s + sh + n)"
proof (cases "n < k")
  case True
  define W :: limb where "W = ucast (inp ! s) OR push_bit 8 (ucast (inp ! (s + 1))) OR
        push_bit 16 (ucast (inp ! (s + 2))) OR push_bit 24 (ucast (inp ! (s + 3)))"
  have W: "bit W j \<longleftrightarrow> bit (le_val inp) (8 * s + j)" if "j < 32" for j
  proof -
    define a d where "a = j mod 8" and "d = j div 8"
    have a: "a < 8" by (simp add: a_def)
    have j: "j = 8 * d + a" by (simp add: a_def d_def)
    then have "d < 4" using that by simp
    then consider "d = 0" | "d = 1" | "d = 2" | "d = 3" by linarith
    then have "bit W (8 * d + a) \<longleftrightarrow> bit (inp ! (s + d)) a"
      by cases (use a in \<open>simp_all add: W_def bit_simps byte_high\<close>)
    then show ?thesis
      using bit_le_val_byte [OF a, of inp "s + d"] assms(1) \<open>d < 4\<close> by (simp add: j algebra_simps)
  qed
  have "\<not> bit W 63" by (auto simp: W_def bit_simps dest: bit_imp_le_length)
  moreover have "expand_limb inp s sh (mask k) = signed_drop_bit sh W AND mask k"
    by (simp add: expand_limb_def W_def)
  moreover have "\<not> 64 - sh \<le> n" using True assms(2) by linarith
  ultimately show ?thesis using True assms(2) W [of "sh + n"]
    by (simp add: bit_and_iff bit_mask_iff bit_signed_drop_bit_iff add.assoc)
next
  case False
  then show ?thesis by (simp add: expand_limb_def bit_simps)
qed

lemma sint_expand_limb:
  assumes "s + 3 < length inp" "sh + k \<le> 32" "8 * s + sh = m"
  shows "sint (expand_limb inp s sh (mask k)) = take_bit k (drop_bit m (le_val inp))"
proof (rule bit_eqI)
  fix n
  have "8 * s + sh + n = m + n" using assms(3) by simp
  then have e: "bit (expand_limb inp s sh (mask k)) i \<longleftrightarrow> i < k \<and> bit (le_val inp) (m + i)" for i
    using bit_expand_limb [OF assms(1,2)] assms(3) by simp
  show "bit (sint (expand_limb inp s sh (mask k))) n \<longleftrightarrow> bit (take_bit k (drop_bit m (le_val inp))) n"
    using assms(2) by (auto simp: bit_sint_iff e bit_take_bit_iff bit_drop_bit_eq)
qed

lemma fexpand_nth:
  assumes "length inp = 32" "i < 10"
  shows "sint (fexpand inp ! i) = take_bit (width i) (drop_bit (offset i) (le_val inp))"
proof -
  have m: "0x3ffffff = (mask 26 :: limb)" "0x1ffffff = (mask 25 :: limb)" by (simp_all add: mask_eq_exp_minus_1)
  have "list_all (\<lambda>i. sint (fexpand inp ! i) = take_bit (width i) (drop_bit (offset i) (le_val inp)))
    [0, 1, 2, 3, 4, 5, 6, 7, 8, 9]"
    using assms(1) unfolding fexpand_def m
    by (simp add: width_def offset_def sint_expand_limb)
  then show ?thesis using assms(2) unfolding upto_10 [symmetric] by (simp add: list_all_iff)
qed

lemma length_fexpand: "length (fexpand inp) = 10" by (simp add: fexpand_def)

lemma weight_offset: "weight i = 2 ^ offset i" by (simp add: weight_def offset_def)

lemma offset_Suc: "offset (Suc i) = offset i + width i"
  by (auto simp: offset_def width_def elim!: evenE oddE)

lemma lval_fexpand:
  assumes "length inp = 32" "n \<le> 10"
  shows "lval n (fexpand inp) = take_bit (offset n) (le_val inp)"
  using assms(2)
proof (induction n)
  case 0
  then show ?case by (simp add: lval_def offset_def)
next
  case (Suc n)
  then show ?case using assms(1)
    by (simp add: lval_def fexpand_nth weight_offset offset_Suc take_bit_split)
qed

lemma fexpand_spec:
  assumes "length inp = 32"
  shows "fval (fexpand inp) = le_val inp mod 2 ^ 255" "fbound (2 ^ 26) (fexpand inp)"
proof -
  show "fval (fexpand inp) = le_val inp mod 2 ^ 255"
    using lval_fexpand [OF assms, of 10] by (simp add: fval_def offset_def take_bit_eq_mod)
  have "\<bar>sint (fexpand inp ! i)\<bar> < 2 ^ 26" if "i < 10" for i
  proof -
    have "take_bit (width i) (drop_bit (offset i) (le_val inp)) < 2 ^ width i" by (rule take_bit_int_less_exp)
    also have "(2 :: int) ^ width i \<le> 2 ^ 26" by (simp add: width_def)
    finally show ?thesis by (simp add: fexpand_nth [OF assms that])
  qed
  then show "fbound (2 ^ 26) (fexpand inp)" by (simp add: fbound_def length_fexpand)
qed

lemma s32_eq_spec: "s32_eq a b = (if a = b then - 1 else 0)"
proof -
  define x where "x = NOT (a XOR b)"
  define c where "c = (let a = x AND push_bit 16 x; a = a AND push_bit 8 a; a = a AND push_bit 4 a; a = a AND push_bit 2 a in a AND push_bit 1 a)"
  have c: "s32_eq a b = signed_drop_bit 31 c" by (simp add: s32_eq_def c_def x_def Let_def)
  have "bit c 31 \<longleftrightarrow> list_all (bit x) [0, 1, 2, 3, 4, 5, 6, 7, 8, 9, 10, 11, 12, 13, 14, 15, 16, 17, 18, 19, 20, 21, 22, 23, 24, 25, 26, 27, 28, 29, 30, 31]"
    unfolding c_def Let_def bit_and_iff bit_push_bit_iff by auto
  also have "[0, 1, 2, 3, 4, 5, 6, 7, 8, 9, 10, 11, 12, 13, 14, 15, 16, 17, 18, 19, 20, 21, 22, 23, 24, 25, 26, 27, 28, 29, 30, 31] = [0..<32]" by (simp add: upt_conv_Cons)
  also have "list_all (bit x) [0..<32] \<longleftrightarrow> a = b"
    unfolding x_def by (auto simp: list_all_iff bit_simps intro: bit_word_eqI)
  finally show ?thesis unfolding c
    by (intro bit_word_eqI) (auto simp: bit_simps not_le)
qed

lemma s32_sint: "- (2 ^ 31) \<le> sint (x :: s32)" "sint x < 2 ^ 31"
  using sint_ge [of x] sint_lt [of x] by simp_all

lemma sign_s32: "signed_drop_bit 31 x = (if sint (x :: s32) < 0 then - 1 else 0)"
  by (rule bit_word_eqI) (use bit_last_iff [of x] in \<open>auto simp: bit_simps not_le\<close>)

lemma s32_gte_spec:
  assumes "0 \<le> sint a" "0 \<le> sint b"
  shows "s32_gte a b = (if sint b \<le> sint a then - 1 else 0)"
proof -
  have "a - b = of_int (sint a - sint b)" by simp
  then have "sint (a - b) = sint a - sint b"
    using assms s32_sint [of a] s32_sint [of b] by (simp only:) (rule s32_of_int_exact, simp_all)
  then show ?thesis by (simp add: s32_gte_def sign_s32)
qed

section \<open>Single steps of the contraction\<close>

lemma sint_mask_neg:
  fixes x :: s32
  shows "sint (signed_drop_bit k (x AND signed_drop_bit 31 x)) = (if sint x < 0 then sint x div 2 ^ k else 0)"
  by (simp add: sign_s32 sint_signed_drop_bit_eq drop_bit_eq_div)

lemma nat_and_1: "n AND 1 = (1 :: nat) \<longleftrightarrow> odd n"
  by (simp add: and_one_eq odd_iff_mod_2_eq_one)

lemma borrow_step_eq:
  "borrow_step x i =
     (let c = signed_drop_bit (width i) ((x ! i) AND signed_drop_bit 31 (x ! i))
      in x[i := x ! i + push_bit (width i) (- c), i + 1 := x ! (i + 1) + c])"
  if "i + 1 < length x"
  using that by (auto simp: borrow_step_def nat_and_1 width_def Let_def)

lemma borrow_step_nth:
  assumes "i + 1 < length x" "\<bar>sint (x ! i)\<bar> < 2 ^ 28" "\<bar>sint (x ! (i + 1))\<bar> < 2 ^ 28"
  defines "s \<equiv> sint (x ! i)"
  shows "length (borrow_step x i) = length x"
    "sint (borrow_step x i ! i) = (if s < 0 then s mod 2 ^ width i else s)"
    "sint (borrow_step x i ! (i + 1)) = sint (x ! (i + 1)) + (if s < 0 then s div 2 ^ width i else 0)"
    "j \<noteq> i \<Longrightarrow> j \<noteq> i + 1 \<Longrightarrow> borrow_step x i ! j = x ! j"
proof -
  define c where "c = (if s < 0 then s div 2 ^ width i else 0)"
  let ?c = "signed_drop_bit (width i) ((x ! i) AND signed_drop_bit 31 (x ! i))"
  have c: "sint ?c = c" by (simp add: sint_mask_neg c_def s_def)
  note e = borrow_step_eq [OF assms(1), unfolded Let_def]
  show "length (borrow_step x i) = length x" "j \<noteq> i \<Longrightarrow> j \<noteq> i + 1 \<Longrightarrow> borrow_step x i ! j = x ! j"
    by (simp_all add: e)
  have m: "s - 2 ^ width i * c = (if s < 0 then s mod 2 ^ width i else s)"
    by (simp add: c_def minus_mult_div_eq_mod)
  have b: "0 \<le> s mod 2 ^ width i" "s mod 2 ^ width i < 2 ^ 26"
    by (auto simp: width_def intro: order_less_le_trans [OF pos_mod_bound])
  have d: "\<bar>c\<bar> \<le> 8"
    using assms(2) by (auto simp: c_def s_def width_def)
  have "borrow_step x i ! i = of_int (s - 2 ^ width i * c)"
    using assms(1) by (simp add: e push_bit_eq_mult s_def flip: c)
  moreover have "- (2 ^ 31) \<le> (if s < 0 then s mod 2 ^ width i else s)"
    "(if s < 0 then s mod 2 ^ width i else s) < 2 ^ 31"
    using b assms(2) unfolding s_def by (auto intro: order_trans [of _ 0])
  ultimately show "sint (borrow_step x i ! i) = (if s < 0 then s mod 2 ^ width i else s)"
    unfolding m by (simp only: s32_of_int_exact)
  have "borrow_step x i ! (i + 1) = of_int (sint (x ! (i + 1)) + c)"
    using assms(1) by (simp add: e flip: c)
  then show "sint (borrow_step x i ! (i + 1)) = sint (x ! (i + 1)) + (if s < 0 then s div 2 ^ width i else 0)"
    unfolding c_def [symmetric] using d assms(3) by (simp only:) (rule s32_of_int_exact, simp_all)
qed

lemma carry_step_eq:
  "carry_step x i = x[i := take_bit (width i) (x ! i), i + 1 := x ! (i + 1) + signed_drop_bit (width i) (x ! i)]"
  if "i + 1 < length x"
proof -
  have "(0x3ffffff :: s32) = mask 26" "(0x1ffffff :: s32) = mask 25" by (simp_all add: mask_eq_exp_minus_1)
  then show ?thesis using that by (auto simp: carry_step_def nat_and_1 width_def Let_def take_bit_eq_mask)
qed

lemma sint_take_bit_width: "sint (take_bit (width i) (x :: s32)) = sint x mod 2 ^ width i"
proof (rule bit_eqI)
  fix n show "bit (sint (take_bit (width i) x)) n \<longleftrightarrow> bit (sint x mod 2 ^ width i) n"
    by (auto simp: bit_sint_iff bit_take_bit_iff width_def simp flip: take_bit_eq_mod)
qed

lemma carry_step_nth:
  assumes "i + 1 < length x" "\<bar>sint (x ! i)\<bar> < 2 ^ 28" "\<bar>sint (x ! (i + 1))\<bar> < 2 ^ 28"
  defines "s \<equiv> sint (x ! i)"
  shows "length (carry_step x i) = length x"
    "sint (carry_step x i ! i) = s mod 2 ^ width i"
    "sint (carry_step x i ! (i + 1)) = sint (x ! (i + 1)) + s div 2 ^ width i"
    "j \<noteq> i \<Longrightarrow> j \<noteq> i + 1 \<Longrightarrow> carry_step x i ! j = x ! j"
proof -
  let ?c = "signed_drop_bit (width i) (x ! i)"
  have c: "sint ?c = s div 2 ^ width i" by (simp add: sint_signed_drop_bit_eq drop_bit_eq_div s_def)
  note e = carry_step_eq [OF assms(1)]
  show "length (carry_step x i) = length x" "j \<noteq> i \<Longrightarrow> j \<noteq> i + 1 \<Longrightarrow> carry_step x i ! j = x ! j"
    by (simp_all add: e)
  show "sint (carry_step x i ! i) = s mod 2 ^ width i"
    using assms(1) by (simp add: e sint_take_bit_width s_def)
  have d: "\<bar>s div 2 ^ width i\<bar> \<le> 8"
    using assms(2) by (auto simp: s_def width_def)
  have "carry_step x i ! (i + 1) = of_int (sint (x ! (i + 1)) + s div 2 ^ width i)"
    using assms(1) by (simp add: e flip: c)
  then show "sint (carry_step x i ! (i + 1)) = sint (x ! (i + 1)) + s div 2 ^ width i"
    using d assms(3) by (simp only:) (rule s32_of_int_exact, simp_all)
qed

lemma borrow_step_lval:
  assumes "i + 1 < length x" "\<bar>sint (x ! i)\<bar> < 2 ^ 28" "\<bar>sint (x ! (i + 1))\<bar> < 2 ^ 28" "i + 1 < n"
  shows "lval n (borrow_step x i) = lval n x"
  by (rule lval_move [OF assms(4) borrow_step_nth(4) [OF assms(1-3)]], assumption, assumption)
    (simp only: borrow_step_nth(2,3) [OF assms(1-3)], simp add: distrib_left)

lemma carry_step_lval:
  assumes "i + 1 < length x" "\<bar>sint (x ! i)\<bar> < 2 ^ 28" "\<bar>sint (x ! (i + 1))\<bar> < 2 ^ 28" "i + 1 < n"
  shows "lval n (carry_step x i) = lval n x"
  by (rule lval_move [OF assms(4) carry_step_nth(4) [OF assms(1-3)]], assumption, assumption)
    (simp only: carry_step_nth(2,3) [OF assms(1-3)], simp add: distrib_left)

section \<open>Borrowing\<close>

lemma foldl_upt_invariant:
  assumes "I 0 x" "\<And>n y. n < N \<Longrightarrow> I n y \<Longrightarrow> I (Suc n) (f y n)"
  shows "I N (foldl f x [0..<N])"
  using assms by (induction N) auto

lemma lval_wrap:
  fixes x y :: "'a::len word list"
  assumes "\<And>j. 0 < j \<Longrightarrow> j < 9 \<Longrightarrow> y ! j = x ! j"
    "sint (y ! 9) = sint (x ! 9) - 2 ^ 25 * c" "sint (y ! 0) = sint (x ! 0) + 19 * c"
  shows "lval 10 y mod p25519 = lval 10 x mod p25519"
proof -
  have "lval 10 y = lval 10 x + (- c) * p25519"
    unfolding lval_def sum_10 by (simp add: assms weight_def p25519_def algebra_simps)
  then show ?thesis by (simp only: mod_mult_self1)
qed

definition s32_within :: "s32 list \<Rightarrow> bool" where
  "s32_within x \<longleftrightarrow> length x = 10 \<and> (\<forall>i<10. 0 \<le> sint (x ! i) \<and> sint (x ! i) < 2 ^ 26)"

definition borrow_wrap :: "s32 list \<Rightarrow> s32 list" where
  "borrow_wrap x = (let c = signed_drop_bit 25 ((x ! 9) AND signed_drop_bit 31 (x ! 9))
     in x[9 := x ! 9 + push_bit 25 (- c), 0 := x ! 0 + 19 * c])"

lemma borrow_pass_wrap: "length x = 10 \<Longrightarrow> borrow_pass x = borrow_wrap (foldl borrow_step x [0..<9])"
proof -
  assume a: "length x = 10"
  have "length (foldl borrow_step x [0..<9]) = 10"
    by (rule foldl_upt_invariant [where I = "\<lambda>n y. length y = 10"]) (auto simp: a borrow_step_def Let_def)
  then show ?thesis by (simp add: borrow_pass_def borrow_wrap_def Let_def mult.commute [of 19])
qed

lemma borrow_wrap_nth:
  assumes "length x = 10" "\<bar>sint (x ! 9)\<bar> < 2 ^ 28" "\<bar>sint (x ! 0)\<bar> < 2 ^ 28"
  defines "c \<equiv> if sint (x ! 9) < 0 then sint (x ! 9) div 2 ^ 25 else 0"
  shows "length (borrow_wrap x) = 10" "0 < j \<Longrightarrow> j < 9 \<Longrightarrow> borrow_wrap x ! j = x ! j"
    "sint (borrow_wrap x ! 9) = sint (x ! 9) - 2 ^ 25 * c"
    "sint (borrow_wrap x ! 0) = sint (x ! 0) + 19 * c"
proof -
  let ?c = "signed_drop_bit 25 ((x ! 9) AND signed_drop_bit 31 (x ! 9))"
  have ne: "x \<noteq> []" using assms(1) by auto
  have c: "sint ?c = c" by (simp add: sint_mask_neg c_def)
  show "length (borrow_wrap x) = 10" using assms(1) by (simp add: borrow_wrap_def Let_def)
  show "0 < j \<Longrightarrow> j < 9 \<Longrightarrow> borrow_wrap x ! j = x ! j" by (simp add: borrow_wrap_def Let_def)
  have d: "\<bar>c\<bar> \<le> 8" "\<bar>sint (x ! 9) - 2 ^ 25 * c\<bar> < 2 ^ 28"
    using assms(2) by (auto simp: c_def minus_mult_div_eq_mod intro: order_less_trans [OF pos_mod_bound])
  have "borrow_wrap x ! 9 = of_int (sint (x ! 9) - 2 ^ 25 * c)"
    using assms(1) by (simp add: borrow_wrap_def Let_def push_bit_eq_mult flip: c)
  then show "sint (borrow_wrap x ! 9) = sint (x ! 9) - 2 ^ 25 * c"
    using d(2) by (simp only:) (rule s32_of_int_exact, simp_all)
  have "borrow_wrap x ! 0 = of_int (sint (x ! 0) + 19 * c)"
    using assms(1) ne by (simp add: borrow_wrap_def Let_def flip: c)
  then show "sint (borrow_wrap x ! 0) = sint (x ! 0) + 19 * c"
    using d(1) assms(3) by (simp only:) (rule s32_of_int_exact, simp_all)
qed

lemma width_cases: "2 ^ width i = (2 ^ 25 :: int) \<or> 2 ^ width i = (2 ^ 26 :: int)"
  by (simp add: width_def)

definition borrowed1 :: "int \<Rightarrow> nat \<Rightarrow> s32 list \<Rightarrow> bool" where
  "borrowed1 V n x \<longleftrightarrow> length x = 10 \<and> lval 10 x = V \<and>
     (\<forall>i<n. 0 \<le> sint (x ! i) \<and> sint (x ! i) < 2 ^ 26) \<and>
     - (2 ^ 26) - 4 \<le> sint (x ! n) \<and> sint (x ! n) < 2 ^ 26 \<and>
     (\<forall>i. n < i \<longrightarrow> i < 10 \<longrightarrow> \<bar>sint (x ! i)\<bar> < 2 ^ 26)"

lemma borrowed1_step:
  assumes "n < 9" "borrowed1 V n x"
  shows "borrowed1 V (Suc n) (borrow_step x n)"
proof -
  let ?s = "sint (x ! n)"
  have x: "length x = 10" "lval 10 x = V" "- (2 ^ 26) - 4 \<le> ?s" "?s < 2 ^ 26" "\<bar>sint (x ! (n + 1))\<bar> < 2 ^ 26"
    using assms by (auto simp: borrowed1_def)
  have a: "n + 1 < length x" "\<bar>?s\<bar> < 2 ^ 28" "\<bar>sint (x ! (n + 1))\<bar> < 2 ^ 28" "n + 1 < 10"
    using x assms(1) by auto
  note b = borrow_step_nth [OF a(1-3)]
  have m: "0 \<le> ?s mod 2 ^ width n" "?s mod 2 ^ width n < 2 ^ 26"
    using width_cases [of n] by (auto intro: order_less_trans [OF pos_mod_bound])
  have d: "?s < 0 \<Longrightarrow> - 3 \<le> ?s div 2 ^ width n" "?s < 0 \<Longrightarrow> ?s div 2 ^ width n < 0"
    using width_cases [of n] x(3) by auto
  show ?thesis unfolding borrowed1_def
  proof (intro conjI allI impI)
    show "length (borrow_step x n) = 10" using b(1) x(1) by simp
    show "lval 10 (borrow_step x n) = V" using borrow_step_lval [OF a] x(2) by simp
    show "- (2 ^ 26) - 4 \<le> sint (borrow_step x n ! Suc n)" "sint (borrow_step x n ! Suc n) < 2 ^ 26"
      using b(3) d x(5) by (auto split: if_splits)
    show "\<bar>sint (borrow_step x n ! i)\<bar> < 2 ^ 26" if "Suc n < i" "i < 10" for i
      using b(4) [of i] assms(2) that by (simp add: borrowed1_def)
    show "0 \<le> sint (borrow_step x n ! i)" "sint (borrow_step x n ! i) < 2 ^ 26" if "i < Suc n" for i
      using b(2) b(4) [of i] m x(4) assms(2) that by (cases "i = n"; force simp: borrowed1_def split: if_splits)+
  qed
qed

text \<open>
  The comment of the source bounds the carry out of the last limb by one, so that the first limb
  would stay above \<open>-20\<close>; a carry of two is possible, and the second pass has to make up for it.
\<close>

lemma borrow_carry_of_two:
  "sint (borrow_pass [0, 0, 0, 0, 0, 0, 0, 0, 0, - 67108863] ! 0) = - 38"
  by code_simp

definition borrowed2 :: "int \<Rightarrow> nat \<Rightarrow> s32 list \<Rightarrow> bool" where
  "borrowed2 V n x \<longleftrightarrow> length x = 10 \<and> lval 10 x = V \<and>
     (\<forall>i<10. i \<noteq> n \<longrightarrow> 0 \<le> sint (x ! i) \<and> sint (x ! i) < 2 ^ 26) \<and>
     (if n = 0 then - 76 else - 1) \<le> sint (x ! n) \<and> sint (x ! n) < 2 ^ 26 \<and>
     (0 < n \<longrightarrow> sint (x ! n) < 0 \<longrightarrow> 2 ^ 26 - 76 \<le> sint (x ! 0))"

lemma borrowed2_step:
  assumes "n < 9" "borrowed2 V n x"
  shows "borrowed2 V (Suc n) (borrow_step x n)"
proof -
  let ?s = "sint (x ! n)"
  have x: "length x = 10" "lval 10 x = V" "- 76 \<le> ?s" "?s < 2 ^ 26" "0 \<le> sint (x ! (n + 1))" "sint (x ! (n + 1)) < 2 ^ 26"
    "0 < n \<Longrightarrow> - 1 \<le> ?s" "0 < n \<Longrightarrow> ?s < 0 \<Longrightarrow> 2 ^ 26 - 76 \<le> sint (x ! 0)"
    "\<And>i. i < 10 \<Longrightarrow> i \<noteq> n \<Longrightarrow> 0 \<le> sint (x ! i) \<and> sint (x ! i) < 2 ^ 26"
    using assms by (auto simp: borrowed2_def split: if_splits)
  have a: "n + 1 < length x" "\<bar>?s\<bar> < 2 ^ 28" "\<bar>sint (x ! (n + 1))\<bar> < 2 ^ 28" "n + 1 < 10"
    using x(1,3-6) assms(1) by auto
  note b = borrow_step_nth [OF a(1-3)]
  have d: "?s div 2 ^ width n = - 1" if "?s < 0"
    by (rule int_div_pos_eq [where r = "?s + 2 ^ width n"]) (use width_cases [of n] x(3) that in auto)
  then have m: "?s mod 2 ^ width n = ?s + 2 ^ width n" if "?s < 0"
    using that by (simp add: minus_mult_div_eq_mod [symmetric])
  have m': "0 \<le> ?s + 2 ^ width n" using width_cases [of n] x(3) by auto
  have m0: "n = 0 \<Longrightarrow> 2 ^ width n = (2 ^ 26 :: int)" by (simp add: width_def)
  have ml: "?s < 0 \<Longrightarrow> ?s + 2 ^ width n < 2 ^ 26" using width_cases [of n] by auto
  show ?thesis unfolding borrowed2_def
  proof (intro conjI allI impI)
    show "length (borrow_step x n) = 10" using b(1) x(1) by simp
    show "lval 10 (borrow_step x n) = V" using borrow_step_lval [OF a] x(2) by simp
    show "(if Suc n = 0 then - 76 else - 1) \<le> sint (borrow_step x n ! Suc n)" "sint (borrow_step x n ! Suc n) < 2 ^ 26"
      using b(3) d x(5,6) by (auto split: if_splits)
    show "0 \<le> sint (borrow_step x n ! i)" "sint (borrow_step x n ! i) < 2 ^ 26" if "i < 10" "i \<noteq> Suc n" for i
      using b(2) b(4) [of i] m m' ml x(4) x(9) [of i] that by (cases "i = n"; force split: if_splits)+
    assume n: "sint (borrow_step x n ! Suc n) < 0"
    then have s: "?s < 0" using b(3) x(5) by (auto split: if_splits)
    show "2 ^ 26 - 76 \<le> sint (borrow_step x n ! 0)"
    proof (cases "n = 0")
      case True
      then show ?thesis using b(2) m [OF s] m0 s x(3) by simp
    next
      case False
      then show ?thesis using b(4) [of 0] x(8) s by simp
    qed
  qed
qed

lemma borrow_passes:
  assumes "length x = 10" "\<And>i. i < 10 \<Longrightarrow> \<bar>sint (x ! i)\<bar> < 2 ^ 26"
  shows "s32_within (borrow_pass (borrow_pass x))"
    "lval 10 (borrow_pass (borrow_pass x)) mod p25519 = lval 10 x mod p25519"
proof -
  define y where "y = foldl borrow_step x [0..<9]"
  have "borrowed1 (lval 10 x) 0 x"
    using assms(1) assms(2) [of 0] assms(2) unfolding borrowed1_def by fastforce
  then have y: "borrowed1 (lval 10 x) 9 y"
    unfolding y_def by (rule foldl_upt_invariant) (rule borrowed1_step)
  have ya: "length y = 10" "lval 10 y = lval 10 x" "- (2 ^ 26) - 4 \<le> sint (y ! 9)" "sint (y ! 9) < 2 ^ 26"
    "\<And>i. i < 9 \<Longrightarrow> 0 \<le> sint (y ! i) \<and> sint (y ! i) < 2 ^ 26"
    using y by (auto simp: borrowed1_def)
  have yb: "\<bar>sint (y ! 9)\<bar> < 2 ^ 28" "\<bar>sint (y ! 0)\<bar> < 2 ^ 28" using ya(3,4) ya(5) [of 0] by auto
  note w = borrow_wrap_nth [OF ya(1) yb]
  let ?c = "if sint (y ! 9) < 0 then sint (y ! 9) div 2 ^ 25 else 0"
  let ?z = "borrow_wrap y"
  have z9: "0 \<le> sint (?z ! 9)" "sint (?z ! 9) < 2 ^ 26"
    using w(3) ya(4) by (auto simp: minus_mult_div_eq_mod intro: order_less_trans [OF pos_mod_bound])
  have c: "- 3 \<le> ?c" "?c \<le> 0" using ya(3) by auto
  have zi: "0 \<le> sint (?z ! i) \<and> sint (?z ! i) < 2 ^ 26" if "0 < i" "i < 10" for i
    using w(2) [of i] ya(5) [of i] z9 that by (cases "i = 9") auto
  have "borrowed2 (lval 10 ?z) 0 ?z" unfolding borrowed2_def
    using w(1) w(4) c ya(5) [of 0] zi by auto
  then have "borrowed2 (lval 10 ?z) 9 (foldl borrow_step ?z [0..<9])"
    by (rule foldl_upt_invariant) (rule borrowed2_step)
  moreover define u where "u = foldl borrow_step ?z [0..<9]"
  ultimately have u: "length u = 10" "lval 10 u = lval 10 ?z" "- 1 \<le> sint (u ! 9)" "sint (u ! 9) < 2 ^ 26"
    "\<And>i. i < 9 \<Longrightarrow> 0 \<le> sint (u ! i) \<and> sint (u ! i) < 2 ^ 26"
    "sint (u ! 9) < 0 \<Longrightarrow> 2 ^ 26 - 76 \<le> sint (u ! 0)"
    by (auto simp: borrowed2_def)
  have ub: "\<bar>sint (u ! 9)\<bar> < 2 ^ 28" "\<bar>sint (u ! 0)\<bar> < 2 ^ 28" using u(3,4) u(5) [of 0] by auto
  note v = borrow_wrap_nth [OF u(1) ub]
  have d: "sint (u ! 9) = - 1" if "sint (u ! 9) < 0" using u(3) that by simp
  have e: "borrow_pass (borrow_pass x) = borrow_wrap u"
    using assms(1) w(1) by (simp add: borrow_pass_wrap y_def u_def)
  have "0 \<le> sint (borrow_wrap u ! i) \<and> sint (borrow_wrap u ! i) < 2 ^ 26" if "i < 10" for i
  proof -
    have "i = 0 \<or> i = 9 \<or> 0 < i \<and> i < 9" using that by auto
    then consider "i = 0" | "i = 9" | "0 < i" "i < 9" by blast
    then show ?thesis
    proof cases
      case 1
      then show ?thesis using v(4) u(5) [of 0] u(6) d by (cases "sint (u ! 9) < 0") auto
    next
      case 2
      then show ?thesis using v(3) u(4) d by (cases "sint (u ! 9) < 0") auto
    qed (use v(2) [of i] u(5) [of i] in auto)
  qed
  then show "s32_within (borrow_pass (borrow_pass x))" unfolding e s32_within_def using v(1) by simp
  have "lval 10 (borrow_wrap u) mod p25519 = lval 10 u mod p25519" by (rule lval_wrap [OF v(2) v(3) v(4)])
  moreover have "lval 10 ?z mod p25519 = lval 10 y mod p25519" by (rule lval_wrap [OF w(2) w(3) w(4)])
  ultimately show "lval 10 (borrow_pass (borrow_pass x)) mod p25519 = lval 10 x mod p25519"
    unfolding e using u(2) ya(2) by simp
qed

section \<open>Carrying\<close>

definition s32_canonical :: "s32 list \<Rightarrow> bool" where
  "s32_canonical x \<longleftrightarrow> length x = 10 \<and> (\<forall>i<10. 0 \<le> sint (x ! i) \<and> sint (x ! i) < 2 ^ width i)"

definition carry_wrap :: "s32 list \<Rightarrow> s32 list" where
  "carry_wrap x = (let c = signed_drop_bit 25 (x ! 9) in x[9 := take_bit 25 (x ! 9), 0 := x ! 0 + 19 * c])"

lemma carry_pass_wrap:
  assumes "length x = 10"
  shows "carry_pass x = carry_wrap (foldl carry_step x [0..<9])"
proof -
  have "length (foldl carry_step x [0..<9]) = 10"
    by (rule foldl_upt_invariant [where I = "\<lambda>n y. length y = 10"]) (auto simp: assms carry_step_def Let_def)
  moreover have "(0x1ffffff :: s32) = mask 25" by (simp add: mask_eq_exp_minus_1)
  ultimately show ?thesis by (simp add: carry_pass_def carry_wrap_def Let_def take_bit_eq_mask)
qed

lemma carry_wrap_nth:
  assumes "length x = 10" "\<bar>sint (x ! 9)\<bar> < 2 ^ 28" "\<bar>sint (x ! 0)\<bar> < 2 ^ 28"
  defines "c \<equiv> sint (x ! 9) div 2 ^ 25"
  shows "length (carry_wrap x) = 10" "0 < j \<Longrightarrow> j < 9 \<Longrightarrow> carry_wrap x ! j = x ! j"
    "sint (carry_wrap x ! 9) = sint (x ! 9) - 2 ^ 25 * c"
    "sint (carry_wrap x ! 0) = sint (x ! 0) + 19 * c"
proof -
  let ?c = "signed_drop_bit 25 (x ! 9)"
  have ne: "x \<noteq> []" using assms(1) by auto
  have c: "sint ?c = c" by (simp add: sint_signed_drop_bit_eq drop_bit_eq_div c_def)
  have w: "width 9 = 25" by (simp add: width_def)
  show "length (carry_wrap x) = 10" using assms(1) by (simp add: carry_wrap_def Let_def)
  show "0 < j \<Longrightarrow> j < 9 \<Longrightarrow> carry_wrap x ! j = x ! j" by (simp add: carry_wrap_def Let_def)
  have d: "\<bar>c\<bar> \<le> 8" using assms(2) by (auto simp: c_def)
  show "sint (carry_wrap x ! 9) = sint (x ! 9) - 2 ^ 25 * c"
    using assms(1) sint_take_bit_width [of 9 "x ! 9"]
    by (simp add: carry_wrap_def Let_def c_def w minus_mult_div_eq_mod)
  have "carry_wrap x ! 0 = of_int (sint (x ! 0) + 19 * c)"
    using assms(1) ne by (simp add: carry_wrap_def Let_def flip: c)
  then show "sint (carry_wrap x ! 0) = sint (x ! 0) + 19 * c"
    using d(1) assms(3) by (simp only:) (rule s32_of_int_exact, simp_all)
qed

definition carried1 :: "int \<Rightarrow> nat \<Rightarrow> s32 list \<Rightarrow> bool" where
  "carried1 V n x \<longleftrightarrow> length x = 10 \<and> lval 10 x = V \<and>
     (\<forall>i<n. 0 \<le> sint (x ! i) \<and> sint (x ! i) < 2 ^ width i) \<and>
     0 \<le> sint (x ! n) \<and> sint (x ! n) < 2 ^ 26 + 4 \<and>
     (\<forall>i. n < i \<longrightarrow> i < 10 \<longrightarrow> 0 \<le> sint (x ! i) \<and> sint (x ! i) < 2 ^ 26)"

lemma carried1_step:
  assumes "n < 9" "carried1 V n x"
  shows "carried1 V (Suc n) (carry_step x n)"
proof -
  let ?s = "sint (x ! n)"
  have x: "length x = 10" "lval 10 x = V" "0 \<le> ?s" "?s < 2 ^ 26 + 4" "0 \<le> sint (x ! (n + 1))" "sint (x ! (n + 1)) < 2 ^ 26"
    using assms by (auto simp: carried1_def)
  have a: "n + 1 < length x" "\<bar>?s\<bar> < 2 ^ 28" "\<bar>sint (x ! (n + 1))\<bar> < 2 ^ 28" "n + 1 < 10"
    using x assms(1) by auto
  note b = carry_step_nth [OF a(1-3)]
  have d: "0 \<le> ?s div 2 ^ width n" "?s div 2 ^ width n \<le> 2"
    using width_cases [of n] x(3,4) by auto
  show ?thesis unfolding carried1_def
  proof (intro conjI allI impI)
    show "length (carry_step x n) = 10" using b(1) x(1) by simp
    show "lval 10 (carry_step x n) = V" using carry_step_lval [OF a] x(2) by simp
    show "0 \<le> sint (carry_step x n ! Suc n)" "sint (carry_step x n ! Suc n) < 2 ^ 26 + 4"
      using b(3) d x(5,6) by auto
    show "0 \<le> sint (carry_step x n ! i)" "sint (carry_step x n ! i) < 2 ^ 26" if "Suc n < i" "i < 10" for i
      using b(4) [of i] assms(2) that by (auto simp: carried1_def)
    show "0 \<le> sint (carry_step x n ! i)" "sint (carry_step x n ! i) < 2 ^ width i" if "i < Suc n" for i
      using b(2) b(4) [of i] assms(2) that by (cases "i = n"; force simp: carried1_def)+
  qed
qed

definition carried2 :: "int \<Rightarrow> nat \<Rightarrow> s32 list \<Rightarrow> bool" where
  "carried2 V n x \<longleftrightarrow> length x = 10 \<and> lval 10 x = V \<and>
     (\<forall>i<10. i \<noteq> n \<longrightarrow> 0 \<le> sint (x ! i) \<and> sint (x ! i) < 2 ^ width i) \<and>
     0 \<le> sint (x ! n) \<and> sint (x ! n) < 2 ^ width n + 38 \<and>
     (0 < n \<longrightarrow> sint (x ! n) \<le> 2 ^ width n \<and> (sint (x ! n) = 2 ^ width n \<longrightarrow> sint (x ! 0) < 38))"

lemma carried2_step:
  assumes "n < 9" "carried2 V n x"
  shows "carried2 V (Suc n) (carry_step x n)"
proof -
  let ?s = "sint (x ! n)" and ?w = "2 ^ width n :: int"
  have x: "length x = 10" "lval 10 x = V" "0 \<le> ?s" "?s < ?w + 38"
    "0 \<le> sint (x ! (n + 1))" "sint (x ! (n + 1)) < 2 ^ width (n + 1)"
    "0 < n \<Longrightarrow> ?s \<le> ?w" "0 < n \<Longrightarrow> ?s = ?w \<Longrightarrow> sint (x ! 0) < 38"
    "\<And>i. i < 10 \<Longrightarrow> i \<noteq> n \<Longrightarrow> 0 \<le> sint (x ! i) \<and> sint (x ! i) < 2 ^ width i"
    using assms by (auto simp: carried2_def)
  have a: "n + 1 < length x" "\<bar>?s\<bar> < 2 ^ 28" "\<bar>sint (x ! (n + 1))\<bar> < 2 ^ 28" "n + 1 < 10"
    using x(1,3-6) assms(1) width_cases [of n] width_cases [of "n + 1"] by auto
  note b = carry_step_nth [OF a(1-3)]
  have c: "?s div ?w = (if ?s < ?w then 0 else 1)" "?s mod ?w = (if ?s < ?w then ?s else ?s - ?w)"
  proof -
    show "?s div ?w = (if ?s < ?w then 0 else 1)"
      by (rule int_div_pos_eq [where r = "if ?s < ?w then ?s else ?s - ?w"]) (use x(3,4) width_cases [of n] in auto)
    then show "?s mod ?w = (if ?s < ?w then ?s else ?s - ?w)"
      by (simp add: minus_mult_div_eq_mod [symmetric])
  qed
  show ?thesis unfolding carried2_def
  proof (intro conjI allI impI)
    show "length (carry_step x n) = 10" using b(1) x(1) by simp
    show "lval 10 (carry_step x n) = V" using carry_step_lval [OF a] x(2) by simp
    show n1: "0 \<le> sint (carry_step x n ! Suc n)" "sint (carry_step x n ! Suc n) < 2 ^ width (Suc n) + 38"
      "sint (carry_step x n ! Suc n) \<le> 2 ^ width (Suc n)"
      using b(3) c(1) x(5,6) by (auto split: if_splits)
    show "0 \<le> sint (carry_step x n ! i)" "sint (carry_step x n ! i) < 2 ^ width i" if "i < 10" "i \<noteq> Suc n" for i
      using b(2) b(4) [of i] x(9) [of i] that by (cases "i = n"; force)+
    assume "sint (carry_step x n ! Suc n) = 2 ^ width (Suc n)"
    then have s: "\<not> ?s < ?w" using b(3) c(1) x(6) by (auto split: if_splits)
    show "sint (carry_step x n ! 0) < 38"
    proof (cases "n = 0")
      case True
      then show ?thesis using b(2) c(2) s x(4) by simp
    next
      case False
      then show ?thesis using b(4) [of 0] x(7,8) s by simp
    qed
  qed
qed

lemma carry_passes:
  assumes "s32_within x"
  shows "s32_canonical (carry_pass (carry_pass x))"
    "lval 10 (carry_pass (carry_pass x)) mod p25519 = lval 10 x mod p25519"
proof -
  define y where "y = foldl carry_step x [0..<9]"
  have "carried1 (lval 10 x) 0 x"
    using assms unfolding carried1_def s32_within_def by fastforce
  then have y: "carried1 (lval 10 x) 9 y"
    unfolding y_def by (rule foldl_upt_invariant) (rule carried1_step)
  have ya: "length y = 10" "lval 10 y = lval 10 x" "0 \<le> sint (y ! 9)" "sint (y ! 9) < 2 ^ 26 + 4"
    "\<And>i. i < 9 \<Longrightarrow> 0 \<le> sint (y ! i) \<and> sint (y ! i) < 2 ^ width i"
    using y by (auto simp: carried1_def)
  have w0: "width 0 = 26" "width 9 = 25" by (simp_all add: width_def)
  have yb: "\<bar>sint (y ! 9)\<bar> < 2 ^ 28" "\<bar>sint (y ! 0)\<bar> < 2 ^ 28" using ya(3,4) ya(5) [of 0] w0 by auto
  note w = carry_wrap_nth [OF ya(1) yb]
  let ?c = "sint (y ! 9) div 2 ^ 25" and ?z = "carry_wrap y"
  have z9: "0 \<le> sint (?z ! 9)" "sint (?z ! 9) < 2 ^ width 9"
    using w(3) by (auto simp: minus_mult_div_eq_mod w0)
  have c: "0 \<le> ?c" "?c \<le> 2" using ya(3,4) by auto
  have zi: "0 \<le> sint (?z ! i) \<and> sint (?z ! i) < 2 ^ width i" if "0 < i" "i < 10" for i
    using w(2) [of i] ya(5) [of i] z9 that by (cases "i = 9") auto
  have "carried2 (lval 10 ?z) 0 ?z" unfolding carried2_def
    using w(1) w(4) c ya(5) [of 0] zi by auto
  then have "carried2 (lval 10 ?z) 9 (foldl carry_step ?z [0..<9])"
    by (rule foldl_upt_invariant) (rule carried2_step)
  moreover define u where "u = foldl carry_step ?z [0..<9]"
  ultimately have u: "length u = 10" "lval 10 u = lval 10 ?z" "0 \<le> sint (u ! 9)" "sint (u ! 9) \<le> 2 ^ 25"
    "\<And>i. i < 9 \<Longrightarrow> 0 \<le> sint (u ! i) \<and> sint (u ! i) < 2 ^ width i"
    "sint (u ! 9) = 2 ^ 25 \<Longrightarrow> sint (u ! 0) < 38"
    by (auto simp: carried2_def w0)
  have ub: "\<bar>sint (u ! 9)\<bar> < 2 ^ 28" "\<bar>sint (u ! 0)\<bar> < 2 ^ 28" using u(3,4) u(5) [of 0] w0 by auto
  note v = carry_wrap_nth [OF u(1) ub]
  have e: "carry_pass (carry_pass x) = carry_wrap u"
    using assms w(1) by (simp add: carry_pass_wrap y_def u_def s32_within_def)
  have d: "sint (u ! 9) div 2 ^ 25 = (if sint (u ! 9) = 2 ^ 25 then 1 else 0)"
    using u(3,4) by auto
  have "0 \<le> sint (carry_wrap u ! i) \<and> sint (carry_wrap u ! i) < 2 ^ width i" if "i < 10" for i
  proof -
    have "i = 0 \<or> i = 9 \<or> 0 < i \<and> i < 9" using that by auto
    then consider "i = 0" | "i = 9" | "0 < i" "i < 9" by blast
    then show ?thesis
    proof cases
      case 1
      then show ?thesis using v(4) u(5) [of 0] u(6) d w0 by (auto split: if_splits)
    next
      case 2
      then show ?thesis using v(3) u(3,4) d w0 by (auto split: if_splits)
    qed (use v(2) [of i] u(5) [of i] in auto)
  qed
  then show "s32_canonical (carry_pass (carry_pass x))" unfolding e s32_canonical_def using v(1) by simp
  have "lval 10 (carry_wrap u) mod p25519 = lval 10 u mod p25519" by (rule lval_wrap [OF v(2) v(3) v(4)])
  moreover have "lval 10 ?z mod p25519 = lval 10 y mod p25519" by (rule lval_wrap [OF w(2) w(3) w(4)])
  ultimately show "lval 10 (carry_pass (carry_pass x)) mod p25519 = lval 10 x mod p25519"
    unfolding e using u(2) ya(2) by simp
qed

section \<open>The conditional subtraction\<close>

definition max_limb :: "nat \<Rightarrow> int" where "max_limb i = 2 ^ width i - (if i = 0 then 19 else 1)"

definition is_over :: "s32 list \<Rightarrow> bool" where
  "is_over x \<longleftrightarrow> max_limb 0 \<le> sint (x ! 0) \<and> (\<forall>i\<in>{1..<10}. sint (x ! i) = max_limb i)"

lemma s32_eqI: "a = b \<longleftrightarrow> sint a = sint (b :: s32)" by (rule word_eq_iff_signed)

lemma subtract_prime_nth:
  assumes "s32_canonical x" "i < 10"
  shows "sint (subtract_prime x ! i) = sint (x ! i) - (if is_over x then max_limb i else 0)"
proof -
  have x: "length x = 10" "\<And>i. i < 10 \<Longrightarrow> 0 \<le> sint (x ! i) \<and> sint (x ! i) < 2 ^ width i"
    using assms by (auto simp: s32_canonical_def)
  have ne: "x \<noteq> []" using x(1) by auto
  have l: "[Suc 0..<10] = [1, 2, 3, 4, 5, 6, 7, 8, 9]" by (simp add: upt_conv_Cons)
  define msk where "msk = (if is_over x then - 1 else 0 :: s32)"
  have m: "foldl (\<lambda>mask i. if i AND 1 = 1 then mask AND s32_eq (x ! i) 0x1ffffff else mask AND s32_eq (x ! i) 0x3ffffff)
      (s32_gte (x ! 0) 0x3ffffed) [1..<10] = msk"
  proof -
    have "{1..<10} = {1, 2, 3, 4, 5, 6, 7, 8, 9 :: nat}" by auto
    then have "is_over x \<longleftrightarrow> 0x3ffffed \<le> sint (x ! 0) \<and> x ! 1 = 0x1ffffff \<and> x ! 2 = 0x3ffffff \<and> x ! 3 = 0x1ffffff \<and>
      x ! 4 = 0x3ffffff \<and> x ! 5 = 0x1ffffff \<and> x ! 6 = 0x3ffffff \<and> x ! 7 = 0x1ffffff \<and> x ! 8 = 0x3ffffff \<and> x ! 9 = 0x1ffffff"
      by (simp add: is_over_def max_limb_def width_def s32_eqI)
    then show ?thesis using x(2) [of 0]
      by (auto simp add: l nat_and_1 s32_eq_spec s32_gte_spec msk_def)
  qed
  have "list_all (\<lambda>i. subtract_prime x ! i = x ! i - (msk AND of_int (max_limb i))) [0, 1, 2, 3, 4, 5, 6, 7, 8, 9]"
    using x(1) ne unfolding subtract_prime_def Let_def m
    by (simp add: l nat_and_1 max_limb_def width_def)
  then have s: "subtract_prime x ! i = of_int (sint (x ! i) - (if is_over x then max_limb i else 0))"
    using assms(2) unfolding upto_10 [symmetric] by (simp add: list_all_iff msk_def)
  have "0 \<le> max_limb i" "max_limb i < 2 ^ 26" by (auto simp: max_limb_def width_def)
  then show ?thesis unfolding s using x(2) [OF assms(2)] width_cases [of i]
    by (intro s32_of_int_exact) auto
qed

lemma subtract_prime_spec:
  assumes "s32_canonical x"
  shows "length (subtract_prime x) = 10"
    "i < 10 \<Longrightarrow> 0 \<le> sint (subtract_prime x ! i) \<and> sint (subtract_prime x ! i) < 2 ^ width i"
    "lval 10 (subtract_prime x) = lval 10 x mod p25519"
proof -
  have x: "length x = 10" "\<And>i. i < 10 \<Longrightarrow> 0 \<le> sint (x ! i) \<and> sint (x ! i) < 2 ^ width i"
    using assms by (auto simp: s32_canonical_def)
  note s = subtract_prime_nth [OF assms]
  show "length (subtract_prime x) = 10"
    using x(1) by (simp add: subtract_prime_def Let_def upt_conv_Cons)
  have w0: "max_limb 0 = 2 ^ 26 - 19" "2 ^ width 0 = (2 ^ 26 :: int)" by (simp_all add: max_limb_def width_def)
  show "0 \<le> sint (subtract_prime x ! i) \<and> sint (subtract_prime x ! i) < 2 ^ width i" if "i < 10"
  proof (cases "is_over x \<and> i \<noteq> 0")
    case True
    then show ?thesis using s [OF that] that by (simp add: is_over_def)
  next
    case False
    then show ?thesis using s [OF that] x(2) [OF that] w0 by (auto simp: is_over_def)
  qed
  have top: "(\<Sum>i<10. weight i * max_limb i) = p25519"
    unfolding sum_10 by (simp add: weight_def max_limb_def width_def p25519_def)
  have l: "lval 10 (subtract_prime x) = lval 10 x - (if is_over x then p25519 else 0)"
  proof -
    have "lval 10 (subtract_prime x) = (\<Sum>i<10. weight i * sint (x ! i) - (if is_over x then weight i * max_limb i else 0))"
      unfolding lval_def by (intro sum.cong refl) (simp add: s algebra_simps)
    then show ?thesis by (simp add: lval_def sum_subtractf top)
  qed
  have pos: "0 \<le> weight i" for i by (simp add: weight_def)
  have nn: "0 \<le> lval 10 x" unfolding lval_def by (intro sum_nonneg mult_nonneg_nonneg pos) (use x(2) in simp)
  have "lval 10 x mod p25519 = lval 10 x - (if is_over x then p25519 else 0)"
  proof (cases "is_over x")
    case True
    have "lval 10 x = p25519 + (sint (x ! 0) - max_limb 0)"
    proof -
      have "lval 10 x - p25519 = (\<Sum>i<10. weight i * (sint (x ! i) - max_limb i))"
        unfolding lval_def top [symmetric] by (simp add: sum_subtractf right_diff_distrib)
      also have "\<dots> = sint (x ! 0) - max_limb 0"
        using True unfolding sum_10 by (simp add: is_over_def weight_def)
      finally show ?thesis by simp
    qed
    moreover have "0 \<le> sint (x ! 0) - max_limb 0" "sint (x ! 0) - max_limb 0 < 19"
      using True x(2) [of 0] w0 by (auto simp: is_over_def)
    ultimately show ?thesis using True by (simp add: p25519_def)
  next
    case False
    have ub: "weight i * sint (x ! i) \<le> weight i * (2 ^ width i - 1)" if "i < 10" for i
      using x(2) [OF that] pos [of i] by (intro mult_left_mono) auto
    have all: "(\<Sum>i<10. weight i * (2 ^ width i - 1)) = 2 ^ 255 - 1"
      unfolding sum_10 by (simp add: weight_def width_def)
    have "lval 10 x < p25519"
    proof (cases "sint (x ! 0) < max_limb 0")
      case True
      have "lval 10 x \<le> (\<Sum>i<10. weight i * (if i = 0 then 2 ^ 26 - 20 else 2 ^ width i - 1))"
        unfolding lval_def using True ub w0 by (intro sum_mono) (auto simp: weight_def)
      also have "\<dots> < p25519" unfolding sum_10 by (simp add: weight_def width_def p25519_def)
      finally show ?thesis .
    next
      case F: False
      then obtain k where k: "k \<in> {1..<10}" "sint (x ! k) \<noteq> max_limb k" using False by (auto simp: is_over_def)
      then have k': "sint (x ! k) \<le> 2 ^ width k - 2" "k < 10" "0 < k" using x(2) [of k] by (auto simp: max_limb_def)
      have "lval 10 x \<le> (\<Sum>i<10. weight i * (2 ^ width i - 1) - (if i = k then weight k else 0))"
        unfolding lval_def
      proof (rule sum_mono)
        fix i :: nat assume i: "i \<in> {..<10}"
        show "weight i * sint (x ! i) \<le> weight i * (2 ^ width i - 1) - (if i = k then weight k else 0)"
        proof (cases "i = k")
          case True
          have "weight k * sint (x ! k) \<le> weight k * (2 ^ width k - 2)" using k'(1) pos [of k] by (rule mult_left_mono)
          then show ?thesis using True by (simp add: algebra_simps)
        qed (use ub [of i] i in simp)
      qed
      also have "\<dots> = 2 ^ 255 - 1 - weight k" using k'(2) by (simp add: sum_subtractf all)
      also have "\<dots> < p25519"
      proof -
        have "weight 1 \<le> weight k" unfolding weight_def using k'(3) by (intro power_increasing) auto
        then show ?thesis by (simp add: weight_def p25519_def)
      qed
      finally show ?thesis .
    qed
    then show ?thesis using False nn by simp
  qed
  then show "lval 10 (subtract_prime x) = lval 10 x mod p25519" using l by simp
qed

section \<open>Writing the bytes\<close>

definition limb_byte :: "nat \<Rightarrow> s32 \<Rightarrow> byte" where "limb_byte k w = ucast (drop_bit (8 * k) w)"

lemma limb_byte_0: "ucast (w AND 0xff) = limb_byte 0 w"
proof -
  have m: "(0xff :: s32) = mask 8" by (simp add: mask_eq_exp_minus_1)
  show ?thesis unfolding limb_byte_def m by (rule bit_word_eqI) (simp add: bit_simps)
qed

lemma limb_byte_shift: "k \<le> 3 \<Longrightarrow> limb_byte 0 (signed_drop_bit (8 * k) w) = limb_byte k w"
  unfolding limb_byte_def by (rule bit_word_eqI) (auto simp: bit_simps)

lemmas limb_byte_shifts = limb_byte_shift [of 1, simplified] limb_byte_shift [of 2, simplified] limb_byte_shift [of 3, simplified]

lemma uint_limb_byte: "uint (limb_byte k w) = (uint w div 2 ^ (8 * k)) mod 256"
proof -
  have "uint (limb_byte k w) = take_bit 8 (drop_bit (8 * k) (uint w))"
    by (rule bit_eqI) (auto simp: limb_byte_def bit_simps)
  then show ?thesis by (simp add: take_bit_eq_mod drop_bit_eq_div)
qed

lemma limb_bytes_sum:
  "uint (limb_byte 0 w) + 256 * uint (limb_byte 1 w) + 65536 * uint (limb_byte 2 w) + 16777216 * uint (limb_byte 3 w) = uint w"
proof -
  define u where "u = uint w"
  have u: "0 \<le> u" "u < 2 ^ 32" using unsigned_less [of w] by (simp_all add: u_def)
  have d: "u div 65536 = u div 256 div 256" "u div 16777216 = u div 65536 div 256"
    using zdiv_zmult2_eq [of 256 u 256] zdiv_zmult2_eq [of 256 u 65536] by simp_all
  have "u div 16777216 mod 256 = u div 16777216"
    by (rule mod_pos_pos_trivial) (use u in \<open>simp_all add: pos_imp_zdiv_nonneg_iff div_less_iff_less_mult\<close>)
  moreover have "u = 256 * (u div 256) + u mod 256" "u div 256 = 256 * (u div 65536) + u div 256 mod 256"
    "u div 65536 = 256 * (u div 16777216) + u div 65536 mod 256"
    unfolding d(2) unfolding d(1) by simp_all
  moreover have "uint (limb_byte 0 w) = u mod 256" "uint (limb_byte 1 w) = u div 256 mod 256"
    "uint (limb_byte 2 w) = u div 65536 mod 256" "uint (limb_byte 3 w) = u div 16777216 mod 256"
    by (simp_all add: uint_limb_byte u_def)
  ultimately show ?thesis unfolding u_def [symmetric] by linarith
qed

lemma uint_or_disjoint:
  assumes "uint a < 2 ^ m" "uint b mod 2 ^ m = 0"
  shows "uint (a OR b) = uint a + uint (b :: 'a::len word)"
proof -
  have "\<not> (bit (uint a) n \<and> bit (uint b) n)" for n
  proof (cases "n < m")
    case True
    have "take_bit m (uint b) = 0" using assms(2) by (simp add: take_bit_eq_mod)
    then have "\<not> bit (take_bit m (uint b)) n" by simp
    then show ?thesis using True by (simp add: bit_take_bit_iff)
  next
    case False
    have "take_bit m (uint a) = uint a" using assms(1) by (simp add: take_bit_int_eq_self)
    then have "\<not> bit (uint a) n" using False by (metis bit_take_bit_iff)
    then show ?thesis by simp
  qed
  then have "uint a AND uint b = 0" by (intro bit_eqI) (simp add: bit_and_iff)
  then show ?thesis using disjunctive_add_eq_or [of "uint a" "uint b"] by (simp add: unsigned_or_eq) 
qed

lemma length_32_cases:
  assumes "length l = 32"
  obtains o0 o1 o2 o3 o4 o5 o6 o7 o8 o9 o10 o11 o12 o13 o14 o15 o16 o17 o18 o19 o20 o21 o22 o23 o24 o25 o26 o27 o28 o29 o30 o31 where "l = [o0, o1, o2, o3, o4, o5, o6, o7, o8, o9, o10, o11, o12, o13, o14, o15, o16, o17, o18, o19, o20, o21, o22, o23, o24, o25, o26, o27, o28, o29, o30, o31]"
  using assms by (auto simp: numeral_eq_Suc length_Suc_conv)

lemma contract_bytes_eq:
  assumes "length inp = 10" "length output = 32"
    and w_def: "w = (\<lambda>i. push_bit ([0, 2, 3, 5, 6, 0, 1, 3, 4, 6] ! i) (inp ! i))"
  shows "contract_bytes inp output =
     [limb_byte 0 (w 0), limb_byte 1 (w 0), limb_byte 2 (w 0), limb_byte 3 (w 0) OR limb_byte 0 (w 1),
      limb_byte 1 (w 1), limb_byte 2 (w 1), limb_byte 3 (w 1) OR limb_byte 0 (w 2), limb_byte 1 (w 2),
      limb_byte 2 (w 2), limb_byte 3 (w 2) OR limb_byte 0 (w 3), limb_byte 1 (w 3), limb_byte 2 (w 3),
      limb_byte 3 (w 3) OR limb_byte 0 (w 4), limb_byte 1 (w 4), limb_byte 2 (w 4), limb_byte 3 (w 4),
      limb_byte 0 (w 5), limb_byte 1 (w 5), limb_byte 2 (w 5), limb_byte 3 (w 5) OR limb_byte 0 (w 6),
      limb_byte 1 (w 6), limb_byte 2 (w 6), limb_byte 3 (w 6) OR limb_byte 0 (w 7), limb_byte 1 (w 7),
      limb_byte 2 (w 7), limb_byte 3 (w 7) OR limb_byte 0 (w 8), limb_byte 1 (w 8), limb_byte 2 (w 8),
      limb_byte 3 (w 8) OR limb_byte 0 (w 9), limb_byte 1 (w 9), limb_byte 2 (w 9), limb_byte 3 (w 9)]"
proof -
  define u where "u = inp[1 := push_bit 2 (inp ! 1), 2 := push_bit 3 (inp ! 2), 3 := push_bit 5 (inp ! 3),
            4 := push_bit 6 (inp ! 4), 6 := push_bit 1 (inp ! 6), 7 := push_bit 3 (inp ! 7),
            8 := push_bit 4 (inp ! 8), 9 := push_bit 6 (inp ! 9)]"
  have ne: "inp \<noteq> []" using assms(1) by auto
  have u: "u ! 0 = w 0" "u ! 1 = w 1" "u ! 2 = w 2" "u ! 3 = w 3" "u ! 4 = w 4" "u ! 5 = w 5" "u ! 6 = w 6"
    "u ! 7 = w 7" "u ! 8 = w 8" "u ! 9 = w 9"
    using assms(1) ne by (simp_all add: u_def w_def)
  obtain o0 o1 o2 o3 o4 o5 o6 o7 o8 o9 o10 o11 o12 o13 o14 o15 o16 o17 o18 o19 o20 o21 o22 o23 o24 o25 o26 o27 o28 o29 o30 o31 where o: "output = [o0, o1, o2, o3, o4, o5, o6, o7, o8, o9, o10, o11, o12, o13, o14, o15, o16, o17, o18, o19, o20, o21, o22, o23, o24, o25, o26, o27, o28, o29, o30, o31]"
    using length_32_cases [OF assms(2)] .
  show ?thesis
    unfolding contract_bytes_def Let_def u_def [symmetric] o
    by (simp add: contract_limb_def limb_byte_0 limb_byte_shifts u u [unfolded One_nat_def])
qed

definition limb_shift :: "nat \<Rightarrow> nat" where "limb_shift i = [0, 2, 3, 5, 6, 0, 1, 3, 4, 6] ! i"

lemma contract_bytes_spec:
  assumes "length inp = 10" "\<And>i. i < 10 \<Longrightarrow> 0 \<le> sint (inp ! i) \<and> sint (inp ! i) < 2 ^ width i" "length output = 32"
  shows "length (contract_bytes inp output) = 32" "le_val (contract_bytes inp output) = lval 10 inp"
proof -
  define w where "w = (\<lambda>i. push_bit ([0, 2, 3, 5, 6, 0, 1, 3, 4, 6] ! i) (inp ! i))"
  note e = contract_bytes_eq [OF assms(1,3) w_def]
  show "length (contract_bytes inp output) = 32" by (simp add: e)
  have sh: "limb_shift i + width i \<le> 32" if "i < 10" for i
  proof -
    have "list_all (\<lambda>i. limb_shift i + width i \<le> 32) [0..<10]" by (simp add: upto_10 limb_shift_def width_def)
    then show ?thesis using that by (simp add: list_all_iff)
  qed
  have v: "uint (w i) = 2 ^ limb_shift i * sint (inp ! i)" "0 \<le> sint (inp ! i)" "sint (inp ! i) < 2 ^ width i" if "i < 10" for i
  proof -
    have x: "0 \<le> sint (inp ! i)" "sint (inp ! i) < 2 ^ width i" using assms(2) [OF that] by auto
    then show "0 \<le> sint (inp ! i)" "sint (inp ! i) < 2 ^ width i" by auto
    have "sint (inp ! i) * 2 ^ limb_shift i < 2 ^ width i * 2 ^ limb_shift i" using x(2) by simp
    also have "\<dots> \<le> 2 ^ 32"
      unfolding power_add [symmetric] by (rule power_increasing) (use sh [OF that] in simp_all)
    finally have "sint (inp ! i) * 2 ^ limb_shift i < 2 ^ 32" .
    moreover have "w i = of_int (sint (inp ! i) * 2 ^ limb_shift i)"
      by (simp add: w_def limb_shift_def push_bit_eq_mult)
    then have "uint (w i) = take_bit 32 (sint (inp ! i) * 2 ^ limb_shift i)"
      by (simp only: unsigned_of_int) simp
    ultimately show "uint (w i) = 2 ^ limb_shift i * sint (inp ! i)"
      using x(1) by (simp add: take_bit_int_eq_self mult.commute)
  qed
  have d: "uint (limb_byte 3 (w i) OR limb_byte 0 (w (Suc i))) = uint (limb_byte 3 (w i)) + uint (limb_byte 0 (w (Suc i)))"
    if "Suc i < 10" "limb_shift i + width i \<le> 24 + limb_shift (Suc i)" "limb_shift (Suc i) \<le> 8" for i
  proof (rule uint_or_disjoint)
    let ?t = "limb_shift (Suc i)"
    have "uint (w i) < 2 ^ (24 + ?t)"
    proof -
      have "2 ^ limb_shift i * sint (inp ! i) < 2 ^ limb_shift i * 2 ^ width i" using v(3) [of i] that(1) by simp
      also have "\<dots> \<le> 2 ^ (24 + ?t)" unfolding power_add [symmetric] using that(2) by (intro power_increasing) auto
      finally show ?thesis using v(1) [of i] that(1) by simp
    qed
    then have "uint (w i) div 2 ^ 24 < 2 ^ ?t" by (simp add: div_less_iff_less_mult power_add mult.commute)
    moreover have "uint (limb_byte 3 (w i)) \<le> uint (w i) div 2 ^ 24"
      by (simp add: uint_limb_byte zmod_le_nonneg_dividend pos_imp_zdiv_nonneg_iff)
    ultimately show "uint (limb_byte 3 (w i)) < 2 ^ ?t" by linarith
    have "(256 :: int) = 2 ^ ?t * 2 ^ (8 - ?t)" using that(3) by (simp add: power_add [symmetric])
    then have "(2 :: int) ^ ?t dvd 256" by (metis dvd_triv_left)
    then show "uint (limb_byte 0 (w (Suc i))) mod 2 ^ ?t = 0"
      using v(1) [of "Suc i"] that(1) by (simp add: uint_limb_byte mod_mod_cancel)
  qed
  have d': "uint (limb_byte 3 (w 0) OR limb_byte 0 (w 1)) = uint (limb_byte 3 (w 0)) + uint (limb_byte 0 (w 1))"
    "uint (limb_byte 3 (w 1) OR limb_byte 0 (w 2)) = uint (limb_byte 3 (w 1)) + uint (limb_byte 0 (w 2))"
    "uint (limb_byte 3 (w 2) OR limb_byte 0 (w 3)) = uint (limb_byte 3 (w 2)) + uint (limb_byte 0 (w 3))"
    "uint (limb_byte 3 (w 3) OR limb_byte 0 (w 4)) = uint (limb_byte 3 (w 3)) + uint (limb_byte 0 (w 4))"
    "uint (limb_byte 3 (w 5) OR limb_byte 0 (w 6)) = uint (limb_byte 3 (w 5)) + uint (limb_byte 0 (w 6))"
    "uint (limb_byte 3 (w 6) OR limb_byte 0 (w 7)) = uint (limb_byte 3 (w 6)) + uint (limb_byte 0 (w 7))"
    "uint (limb_byte 3 (w 7) OR limb_byte 0 (w 8)) = uint (limb_byte 3 (w 7)) + uint (limb_byte 0 (w 8))"
    "uint (limb_byte 3 (w 8) OR limb_byte 0 (w 9)) = uint (limb_byte 3 (w 8)) + uint (limb_byte 0 (w 9))"
    using d [of 0] d [of 1, unfolded Suc_1] d [of 2] d [of 3] d [of 5] d [of 6] d [of 7] d [of 8]
    by (simp_all add: limb_shift_def width_def)
  have val: "le_val (contract_bytes inp output) =
    uint (w 0) + 2 ^ 24 * uint (w 1) + 2 ^ 48 * uint (w 2) + 2 ^ 72 * uint (w 3) + 2 ^ 96 * uint (w 4) +
    2 ^ 128 * uint (w 5) + 2 ^ 152 * uint (w 6) + 2 ^ 176 * uint (w 7) + 2 ^ 200 * uint (w 8) + 2 ^ 224 * uint (w 9)"
    unfolding e le_val_def horner_sum_simps d' limb_bytes_sum [symmetric]
    by (simp add: algebra_simps)
  show "le_val (contract_bytes inp output) = lval 10 inp"
    unfolding val lval_def sum_10 by (simp add: v(1) limb_shift_def weight_def)
qed

lemma fcontract_spec:
  assumes "length output = 32" "fbound (2 ^ 26) x"
  shows "length (fcontract output x) = 32" "le_val (fcontract output x) = fval x mod p25519"
proof -
  define y where "y = map (\<lambda>i. s32_of_limb (x ! i)) [0..<10]"
  have xb: "\<bar>sint (x ! i)\<bar> < 2 ^ 26" if "i < 10" for i using assms(2) that by (simp add: fbound_def)
  have y: "length y = 10" "\<And>i. i < 10 \<Longrightarrow> sint (y ! i) = sint (x ! i)"
  proof -
    show "length y = 10" by (simp add: y_def)
    fix i :: nat assume i: "i < 10"
    have "\<bar>sint (x ! i)\<bar> < 2 ^ 31" using xb [OF i] by simp
    then show "sint (y ! i) = sint (x ! i)" using i by (simp add: y_def sint_s32_of_limb)
  qed
  have yb: "\<bar>sint (y ! i)\<bar> < 2 ^ 26" if "i < 10" for i using y(2) [OF that] xb [OF that] by simp
  have yv: "lval 10 y = fval x" by (simp add: fval_def lval_def y(2))
  define z where "z = borrow_pass (borrow_pass y)"
  have b: "s32_within z" "lval 10 z mod p25519 = lval 10 y mod p25519"
    unfolding z_def by (rule borrow_passes [OF y(1)], rule yb, assumption)+
  have z0: "0 \<le> sint (z ! 0)" using b(1) by (auto simp: s32_within_def)
  have "z[0 := z ! 0 + push_bit 26 (- signed_drop_bit 26 ((z ! 0) AND signed_drop_bit 31 (z ! 0))),
      1 := z[0 := z ! 0 + push_bit 26 (- signed_drop_bit 26 ((z ! 0) AND signed_drop_bit 31 (z ! 0)))] ! 1 -
        - signed_drop_bit 26 ((z ! 0) AND signed_drop_bit 31 (z ! 0))] = z"
    using z0 by (simp add: sign_s32)
  then have e: "fcontract output x = contract_bytes (subtract_prime (carry_pass (carry_pass z))) output"
    unfolding fcontract_def Let_def y_def [symmetric] z_def [symmetric] by simp
  note c = carry_passes [OF b(1)]
  note s = subtract_prime_spec [OF c(1)]
  show "length (fcontract output x) = 32"
    unfolding e by (rule contract_bytes_spec(1) [OF s(1) _ assms(1)]) (rule s(2))
  have "le_val (fcontract output x) = lval 10 (subtract_prime (carry_pass (carry_pass z)))"
    unfolding e by (rule contract_bytes_spec(2) [OF s(1) _ assms(1)]) (rule s(2))
  then show "le_val (fcontract output x) = fval x mod p25519" using s(3) c(2) b(2) yv by simp
qed

section \<open>Properties\<close>

text \<open>
  The encoding of field elements is canonical: \<open>fcontract\<close> writes the 32 bytes of the number below
  the prime that the limbs stand for, and \<open>fexpand\<close> reads from them a reduced array with that value.
\<close>

theorem contraction_canonical:
  assumes "length output = 32" "fbound (2 ^ 26) x"
  shows "length (fcontract output x) = 32 \<and> le_val (fcontract output x) = fval x mod p25519 \<and>
    fval (fexpand (fcontract output x)) = fval x mod p25519 \<and> fbound (2 ^ 26) (fexpand (fcontract output x))"
proof -
  note c = fcontract_spec [OF assms] and e = fexpand_spec [OF fcontract_spec(1) [OF assms]]
  have "fval x mod p25519 < 2 ^ 255" "0 \<le> fval x mod p25519"
    by (rule order_less_trans [OF pos_mod_bound]) (simp_all add: p25519_def)
  then show ?thesis using c e by simp
qed

theorem contraction_canonical_witness:
  "le_val (fcontract (replicate 32 255) (replicate 10 (- 67108863))) =
     fval (replicate 10 (- 67108863)) mod p25519"
proof -
  have "fbound (2 ^ 26) (replicate 10 (- 67108863))" by (simp add: fbound_def)
  from contraction_canonical [OF _ this, of "replicate 32 255"] show ?thesis by simp
qed

end
