(* ===== verification/Donna.thy ===== *)
theory Donna
  imports DonnaCodec
begin

text \<open>
  \<open>lib/curve25519-donna/curve25519-donna.c\<close>, third part: the Montgomery ladder and the function
  \<open>curve25519_donna\<close>, which computes the public keys and shared secrets of the library.  The
  reference is the function X25519 of RFC 7748 on integers modulo the prime.
\<close>

section \<open>Operations\<close>

definition fmonty ::
  "limb list \<Rightarrow> limb list \<Rightarrow> limb list \<Rightarrow> limb list \<Rightarrow> limb list \<Rightarrow>
   limb list \<times> limb list \<times> limb list \<times> limb list" where
  "fmonty x z xprime zprime qmqp =
     (let origx = take 10 x;
          x = fsum x z;
          z = fdifference z origx;
          origxprime = take 10 xprime;
          xprime = fsum xprime zprime;
          zprime = fdifference zprime origxprime;
          xxprime = fproduct xprime z;
          zzprime = fproduct x zprime;
          xxprime = freduce_degree xxprime;
          xxprime = freduce_coefficients xxprime;
          zzprime = freduce_degree zzprime;
          zzprime = freduce_coefficients zzprime;
          origxprime = take 10 xxprime;
          xxprime = fsum xxprime zzprime;
          zzprime = fdifference zzprime origxprime;
          xxxprime = fsquare xxprime;
          zzzprime = fsquare zzprime;
          zzprime = fproduct zzzprime qmqp;
          zzprime = freduce_degree zzprime;
          zzprime = freduce_coefficients zzprime;
          x3 = take 10 xxxprime;
          z3 = take 10 zzprime;
          xx = fsquare x;
          zz = fsquare z;
          x2 = fproduct xx zz;
          x2 = freduce_degree x2;
          x2 = freduce_coefficients x2;
          zz = fdifference zz xx;
          zzz = replicate 19 0;
          zzz = fscalar_product zzz zz 121665;
          zzz = freduce_coefficients zzz;
          zzz = fsum zzz xx;
          z2 = fproduct zz zzz;
          z2 = freduce_degree z2;
          z2 = freduce_coefficients z2
      in (x2, z2, x3, z3))"

definition swap_conditional :: "limb list \<Rightarrow> limb list \<Rightarrow> limb \<Rightarrow> limb list \<times> limb list" where
  "swap_conditional a b iswap =
     (let swap = s32_of_limb (- iswap)
      in foldl (\<lambda>(a, b) i.
           let x = swap AND (s32_of_limb (a ! i) XOR s32_of_limb (b ! i))
           in (a[i := limb_of_s32 (s32_of_limb (a ! i) XOR x)],
               b[i := limb_of_s32 (s32_of_limb (b ! i) XOR x)]))
         (a, b) [0..<10])"

text \<open>
  One round of the inner loop of \<open>cmult\<close>; the four arrays are \<open>nqx\<close>, \<open>nqz\<close>, \<open>nqpqx\<close> and \<open>nqpqz\<close>.
  The pointer swap at its end makes the results the inputs of the next round.
\<close>

type_synonym ladder = "limb list \<times> limb list \<times> limb list \<times> limb list"

definition cmult_round :: "limb list \<Rightarrow> limb \<Rightarrow> ladder \<Rightarrow> ladder" where
  "cmult_round q b = (\<lambda>(nqx, nqz, nqpqx, nqpqz).
     let (nqx, nqpqx) = swap_conditional nqx nqpqx b;
         (nqz, nqpqz) = swap_conditional nqz nqpqz b;
         (nqx2, nqz2, nqpqx2, nqpqz2) = fmonty nqx nqz nqpqx nqpqz q;
         (nqx2, nqpqx2) = swap_conditional nqx2 nqpqx2 b;
         (nqz2, nqpqz2) = swap_conditional nqz2 nqpqz2 b
     in (nqx2, nqz2, nqpqx2, nqpqz2))"

definition cmult_byte :: "limb list \<Rightarrow> byte \<Rightarrow> ladder \<Rightarrow> ladder" where
  "cmult_byte q byte s =
     fst (foldl (\<lambda>(s, byte :: byte) j.
            (cmult_round q (ucast (drop_bit 7 byte)) s, push_bit 1 byte)) (s, byte) [0..<8])"

definition cmult :: "bytes \<Rightarrow> limb list \<Rightarrow> limb list \<times> limb list" where
  "cmult n q =
     (let a = take 10 q @ replicate 9 0;
          b = 1 # replicate 18 0;
          c = 1 # replicate 18 0;
          d = replicate 19 0;
          (nqx, nqz, nqpqx, nqpqz) = foldl (\<lambda>s i. cmult_byte q (n ! (31 - i)) s) (c, d, a, b) [0..<32]
      in (take 10 nqx, take 10 nqz))"

definition clamp :: "bytes \<Rightarrow> bytes" where
  "clamp secret =
     (let e = map (\<lambda>i. secret ! i) [0..<32];
          e = e[0 := e ! 0 AND 248];
          e = e[31 := e ! 31 AND 127]
      in e[31 := e ! 31 OR 64])"

definition curve25519_donna_c :: "bytes \<Rightarrow> bytes \<Rightarrow> bytes \<Rightarrow> bytes" where
  "curve25519_donna_c mypublic secret basepoint =
     (let e = clamp secret;
          bp = fexpand basepoint;
          (x, z) = cmult e bp;
          zmone = crecip z;
          z = fmul x zmone
      in fcontract mypublic z)"

section \<open>The ladder of RFC 7748\<close>

type_synonym ladder_state = "int \<times> int \<times> int \<times> int"

definition ladder_step :: "int \<Rightarrow> ladder_state \<Rightarrow> ladder_state" where
  "ladder_step x1 = (\<lambda>(x2, z2, x3, z3).
     let A = x2 + z2; AA = A ^ 2; B = x2 - z2; BB = B ^ 2; E = AA - BB;
         C = x3 + z3; D = x3 - z3; DA = D * A; CB = C * B
     in ((AA * BB) mod p25519, (E * (AA + 121665 * E)) mod p25519,
         ((DA + CB) ^ 2) mod p25519, (x1 * (DA - CB) ^ 2) mod p25519))"

definition ladder_swap :: "bool \<Rightarrow> ladder_state \<Rightarrow> ladder_state" where
  "ladder_swap b = (\<lambda>(x2, z2, x3, z3). if b then (x3, z3, x2, z2) else (x2, z2, x3, z3))"

definition ladder_round :: "int \<Rightarrow> bool \<Rightarrow> ladder_state \<Rightarrow> ladder_state" where
  "ladder_round x1 b s = ladder_swap b (ladder_step x1 (ladder_swap b s))"

definition x25519_ladder :: "int \<Rightarrow> int \<Rightarrow> ladder_state" where
  "x25519_ladder k u =
     (let x1 = u mod p25519
      in foldl (\<lambda>s t. ladder_round x1 (bit k t) s) (1, 0, x1, 1) (rev [0..<256]))"

definition x25519 :: "int \<Rightarrow> int \<Rightarrow> int" where
  "x25519 k u = (case x25519_ladder k u of (x2, z2, _) \<Rightarrow> (x2 * z2 ^ (2 ^ 255 - 21)) mod p25519)"

definition decode_scalar :: "bytes \<Rightarrow> int" where
  "decode_scalar secret = 2 ^ 254 + 8 * ((le_val secret div 8) mod 2 ^ 251)"

definition decode_u :: "bytes \<Rightarrow> int" where "decode_u u = le_val u mod 2 ^ 255"

section \<open>The scalar\<close>

lemma bit_add_top:
  fixes X :: int
  assumes "0 \<le> X" "X < 2 ^ k"
  shows "bit (2 ^ k + X) n \<longleftrightarrow> n = k \<or> bit X n"
proof -
  have "take_bit k X = X" using assms by (simp add: take_bit_int_eq_self)
  then have "2 ^ k AND X = 0" by (intro bit_eqI) (metis bit_0_eq bit_and_iff bit_exp_iff bit_take_bit_iff bot_apply less_irrefl bot_bool_def)
  then show ?thesis by (simp add: disjunctive_add_eq_or bit_or_iff bit_exp_iff)
qed

lemma bit_decode_scalar: "bit (decode_scalar secret) n \<longleftrightarrow> n = 254 \<or> 3 \<le> n \<and> n < 254 \<and> bit (le_val secret) n"
proof -
  define X where "X = take_bit 251 (drop_bit 3 (le_val secret))"
  have e: "decode_scalar secret = 2 ^ 254 + push_bit 3 X"
    by (simp add: decode_scalar_def X_def push_bit_eq_mult take_bit_eq_mod drop_bit_eq_div)
  have "X < 2 ^ 251" unfolding X_def by (rule take_bit_int_less_exp)
  then have "0 \<le> push_bit 3 X" "push_bit 3 X < 2 ^ 254" by (simp_all add: X_def push_bit_eq_mult)
  then show ?thesis unfolding e by (subst bit_add_top) (auto simp: X_def bit_push_bit_iff_int bit_take_bit_iff bit_drop_bit_eq)
qed

lemma clamp_spec:
  assumes "length secret = 32"
  shows "length (clamp secret) = 32" "le_val (clamp secret) = decode_scalar secret"
proof -
  show l: "length (clamp secret) = 32" by (simp add: clamp_def Let_def)
  have m: "map ((!) secret) [0..<32] = secret" using map_nth [of secret] assms by simp
  have c: "clamp secret = secret[0 := secret ! 0 AND 248, 31 := (secret ! 31 AND 127) OR 64]"
    using assms by (simp add: clamp_def Let_def m)
  have k: "bit (248 :: byte) a \<longleftrightarrow> a \<in> {3, 4, 5, 6, 7}" "bit (127 :: byte) a \<longleftrightarrow> a < 7" "bit (64 :: byte) a \<longleftrightarrow> a = 6" if "a < 8" for a
  proof -
    have "a \<in> {0, 1, 2, 3, 4, 5, 6, 7}" using that by auto
    then show "bit (248 :: byte) a \<longleftrightarrow> a \<in> {3, 4, 5, 6, 7}" "bit (127 :: byte) a \<longleftrightarrow> a < 7" "bit (64 :: byte) a \<longleftrightarrow> a = 6"
      by auto
  qed
  show "le_val (clamp secret) = decode_scalar secret"
  proof (rule bit_eqI)
    fix n :: nat
    define a where "a = n mod 8"
    define t where "t = n div 8"
    have a: "a < 8" and n: "n = 8 * t + a" by (simp_all add: a_def t_def)
    consider "t = 0" | "t = 31" | "t \<noteq> 0" "t < 31" | "31 < t" by linarith
    then show "bit (le_val (clamp secret)) n \<longleftrightarrow> bit (decode_scalar secret) n"
      unfolding n bit_decode_scalar bit_le_val_byte [OF a]
      by cases (use assms a k [OF a] bit_le_val_byte [OF a, of secret t] l in \<open>auto simp: c bit_simps\<close>)
  qed
qed

section \<open>One round of the ladder\<close>

definition freduce :: "limb list \<Rightarrow> limb list" where
  "freduce t = freduce_coefficients (freduce_degree t)"

text \<open>
  The arithmetic of the step, on any representatives of the values.
\<close>

lemma ladder_step_congruence:
  fixes x z x' z' q :: int
  defines "A \<equiv> x + z" and "B \<equiv> x - z" and "C \<equiv> x' + z'" and "D \<equiv> x' - z'"
  assumes "cb mod p25519 = (C * B) mod p25519" "ad mod p25519 = (D * A) mod p25519"
    and "s mod p25519 = (cb + ad) ^ 2 mod p25519" "t mod p25519 = (cb - ad) ^ 2 mod p25519"
    and "r mod p25519 = (t * q) mod p25519"
    and "aa mod p25519 = A ^ 2 mod p25519" "bb mod p25519 = B ^ 2 mod p25519"
    and "x2 mod p25519 = (aa * bb) mod p25519"
    and "h mod p25519 = (121665 * (aa - bb)) mod p25519"
    and "z2 mod p25519 = ((aa - bb) * (h + aa)) mod p25519"
  shows "(x2 mod p25519, z2 mod p25519, s mod p25519, r mod p25519) = ladder_step q (x, z, x', z')"
proof -
  note add = mod_add_cong and diff = mod_diff_cong and mult = mod_mult_cong
  note c = assms(5-14)
  have pow: "u ^ 2 mod p25519 = v ^ 2 mod p25519" if "u mod p25519 = v mod p25519" for u v
    using that by (metis power_mod)
  have ab: "(aa - bb) mod p25519 = (A ^ 2 - B ^ 2) mod p25519" by (rule diff [OF c(6,7)])
  have "(cb + ad) mod p25519 = (D * A + C * B) mod p25519"
    using add [OF c(1,2)] by (simp only: add.commute [of "C * B"])
  from pow [OF this] c(3) have s: "s mod p25519 = (D * A + C * B) ^ 2 mod p25519" by (rule trans [rotated])
  have "(cb - ad) mod p25519 = (C * B - D * A) mod p25519" by (rule diff [OF c(1,2)])
  from pow [OF this] c(4) have "t mod p25519 = (D * A - C * B) ^ 2 mod p25519"
    unfolding power2_commute [of "C * B"] by (rule trans [rotated])
  from mult [OF this refl, of q] c(5) have r: "r mod p25519 = (q * (D * A - C * B) ^ 2) mod p25519"
    unfolding mult.commute [of q] by (rule trans [rotated])
  have x2: "x2 mod p25519 = (A ^ 2 * B ^ 2) mod p25519" 
    using c(8) by (rule trans) (rule mult [OF c(6,7)])
  have "h mod p25519 = (121665 * (A ^ 2 - B ^ 2)) mod p25519"
    using c(9) by (rule trans) (rule mult [OF refl ab])
  from add [OF this c(6)] have k: "(h + aa) mod p25519 = (A ^ 2 + 121665 * (A ^ 2 - B ^ 2)) mod p25519"
    by (simp add: add.commute)
  have z2: "z2 mod p25519 = ((A ^ 2 - B ^ 2) * (A ^ 2 + 121665 * (A ^ 2 - B ^ 2))) mod p25519"
    using c(10) by (rule trans) (rule mult [OF ab k])
  show ?thesis unfolding s r x2 z2 by (simp add: ladder_step_def Let_def A_def B_def C_def D_def)
qed

lemma fmonty_spec:
  assumes "fbound (2 ^ 26) x" "fbound (2 ^ 26) z" "fbound (2 ^ 26) x'" "fbound (2 ^ 26) z'" "fbound (2 ^ 26) q"
    "fmonty x z x' z' q = (x2, z2, x3, z3)"
  shows "fbound (2 ^ 26) x2 \<and> fbound (2 ^ 26) z2 \<and> fbound (2 ^ 26) x3 \<and> fbound (2 ^ 26) z3 \<and>
    (fval x2 mod p25519, fval z2 mod p25519, fval x3 mod p25519, fval z3 mod p25519) =
      ladder_step (fval q) (fval x, fval z, fval x', fval z')"
proof -
  have b27: "fbound (2 ^ 26) u \<Longrightarrow> fbound (2 ^ 27) u" for u by (rule fbound_mono [of "2 ^ 26"]) simp_all
  have plus: "fbound (2 ^ 27) (fsum u v)" "fval (fsum u v) = fval u + fval v"
      "fbound (2 ^ 27) (fdifference u v)" "fval (fdifference u v) = fval v - fval u"
      "length (fsum u v) = length u" "length (fdifference u v) = length u"
    if "fbound (2 ^ 26) u" "fbound (2 ^ 26) v" for u v
    using fsum_spec [OF that] fdifference_spec [OF that] by simp_all
  define a where "a = fsum x z"
  define b where "b = fdifference z (take 10 x)"
  define c where "c = fsum x' z'"
  define d where "d = fdifference z' (take 10 x')"
  have abcd: "fbound (2 ^ 27) a" "fbound (2 ^ 27) b" "fbound (2 ^ 27) c" "fbound (2 ^ 27) d"
      "fval a = fval x + fval z" "fval b = fval x - fval z" "fval c = fval x' + fval z'" "fval d = fval x' - fval z'"
    using assms plus by (simp_all add: a_def b_def c_def d_def fbound_take fval_take)
  define cb where "cb = freduce (fproduct c b)"
  define ad where "ad = freduce (fproduct a d)"
  note cb = freduced_product [OF abcd(3) abcd(2), folded freduce_def, folded cb_def]
  note ad = freduced_product [OF abcd(1) abcd(4), folded freduce_def, folded ad_def]
  define s where "s = fsum cb ad"
  define t where "t = fdifference ad (take 10 cb)"
  have st: "fbound (2 ^ 27) s" "fbound (2 ^ 27) t" "fval s = fval cb + fval ad" "fval t = fval cb - fval ad"
    using plus cb ad by (simp_all add: s_def t_def fbound_take fval_take)
  note s2 = fsquare_spec [OF st(1)] and t2 = fsquare_spec [OF st(2)]
  define r where "r = freduce (fproduct (fsquare t) q)"
  note r = freduced_product [OF b27 [OF t2(2)] b27 [OF assms(5)], folded freduce_def, folded r_def]
  note a2 = fsquare_spec [OF abcd(1)] and b2 = fsquare_spec [OF abcd(2)]
  define x2' where "x2' = freduce (fproduct (fsquare a) (fsquare b))"
  note x2' = freduced_product [OF b27 [OF a2(2)] b27 [OF b2(2)], folded freduce_def, folded x2'_def]
  define e where "e = fdifference (fsquare b) (fsquare a)"
  have e: "fbound (2 ^ 27) e" "fval e = fval (fsquare a) - fval (fsquare b)"
    using plus a2 b2 by (simp_all add: e_def)
  define g where "g = fscalar_product (replicate 19 0) e 121665"
  have g: "length g = 19" "fbound (2 ^ 44) g" "fval g = 121665 * fval e"
    using fscalar_product_spec [OF _ e(1), of "replicate 19 0"] by (simp_all add: g_def)
  define h where "h = freduce_coefficients g"
  have "fbound (280 * 2 ^ 54) g" by (rule fbound_mono [OF g(2)]) simp
  note h = freduce_coefficients_spec [OF g(1) this, folded h_def]
  define k where "k = fsum h (fsquare a)"
  have k: "fbound (2 ^ 27) k" "fval k = fval h + fval (fsquare a)"
    using plus h(2) a2 by (simp_all add: k_def)
  define z2' where "z2' = freduce (fproduct e k)"
  note z2' = freduced_product [OF e(1) k(1), folded freduce_def, folded z2'_def]
  have m: "x2 = x2'" "z2 = z2'" "x3 = take 10 (fsquare s)" "z3 = take 10 r"
    using assms(6) by (simp_all add: fmonty_def freduce_def Let_def x2'_def z2'_def r_def k_def h_def g_def e_def s_def t_def cb_def ad_def a_def b_def c_def d_def)
  have "(fval x2' mod p25519, fval z2' mod p25519, fval (fsquare s) mod p25519, fval r mod p25519) =
      ladder_step (fval q) (fval x, fval z, fval x', fval z')"
  proof (rule ladder_step_congruence)
    show "fval ad mod p25519 = ((fval x' - fval z') * (fval x + fval z)) mod p25519"
      using ad(3) by (simp add: abcd mult.commute)
    show "fval h mod p25519 = (121665 * (fval (fsquare a) - fval (fsquare b))) mod p25519"
      using h(3) g(3) e(2) by simp
  qed (use cb(3) s2(3) t2(3) r(3) a2(3) b2(3) x2'(3) z2'(3) abcd(5-8) st(3,4) e(2) k(2) in simp_all)
  then show ?thesis
    using x2'(2) z2'(2) s2(2) r(2) by (simp add: m fbound_take fval_take)
qed

lemma swap_conditional_spec:
  assumes "fbound (2 ^ 31) a" "fbound (2 ^ 31) b" "length a = n" "length b = m"
  shows "swap_conditional a b (of_bool s) =
     (if s then (take 10 b @ drop 10 a, take 10 a @ drop 10 b) else (a, b))"
proof -
  define sw where "sw = (if s then - 1 else 0 :: s32)"
  have sw: "s32_of_limb (- of_bool s) = sw" by (auto simp: s32_of_limb_sint sw_def)
  have l: "10 \<le> length a" "10 \<le> length b" using assms by (auto simp: fbound_def)
  define f where "f = (\<lambda>(a, b) i. let x = sw AND (s32_of_limb (a ! i) XOR s32_of_limb (b ! i))
           in (a[i := limb_of_s32 (s32_of_limb (a ! i) XOR x)], b[i := limb_of_s32 (s32_of_limb (b ! i) XOR x)]))"
  have c: "limb_of_s32 (s32_of_limb (u ! i)) = u ! i" if "fbound (2 ^ 31) u" "i < 10" for u i
    using that by (intro limb_of_s32_of_limb) (auto simp: fbound_def)
  have "foldl f (a, b) [0..<k] = (if s then (take k b @ drop k a, take k a @ drop k b) else (a, b))" if "k \<le> 10" for k
    using that
  proof (induction k)
    case (Suc k)
    then have k: "k < 10" "k < length a" "k < length b" using l by auto
    have x: "u XOR (v XOR (u :: s32)) = v" "u XOR (u XOR v) = v" for u v by (simp_all add: xor.left_commute xor.commute)
    show ?case
    proof (cases s)
      case True
      then show ?thesis using Suc k c [OF assms(1) k(1)] c [OF assms(2) k(1)]
        by (simp add: f_def sw_def Let_def nth_append x take_Suc_conv_app_nth list_update_append Cons_nth_drop_Suc [symmetric])
    next
      case False
      then show ?thesis using Suc k c [OF assms(1) k(1)] c [OF assms(2) k(1)] by (simp add: f_def sw_def Let_def)
    qed
  qed simp
  from this [of 10] show ?thesis unfolding swap_conditional_def Let_def sw f_def by simp
qed

definition ladder_value :: "ladder \<Rightarrow> ladder_state" where
  "ladder_value = (\<lambda>(x2, z2, x3, z3). (fval x2 mod p25519, fval z2 mod p25519, fval x3 mod p25519, fval z3 mod p25519))"

definition ladder_ok :: "ladder \<Rightarrow> bool" where
  "ladder_ok = (\<lambda>(x2, z2, x3, z3). fbound (2 ^ 26) x2 \<and> fbound (2 ^ 26) z2 \<and> fbound (2 ^ 26) x3 \<and> fbound (2 ^ 26) z3)"

lemma swap_conditional_cases:
  assumes "fbound (2 ^ 26) a" "fbound (2 ^ 26) b" "swap_conditional a b (of_bool s) = (a', b')"
  shows "fbound (2 ^ 26) a'" "fbound (2 ^ 26) b'" "fval a' = (if s then fval b else fval a)"
    "fval b' = (if s then fval a else fval b)"
proof -
  have b: "fbound (2 ^ 31) a" "fbound (2 ^ 31) b" using assms(1,2) by (auto elim!: fbound_mono)
  have t: "fbound (2 ^ 26) (take 10 u @ drop 10 v)" "fval (take 10 u @ drop 10 v) = fval u" if "fbound (2 ^ 26) u" for u v
    using that by (auto simp: fbound_def fval_def lval_def nth_append)
  show "fbound (2 ^ 26) a'" "fbound (2 ^ 26) b'" "fval a' = (if s then fval b else fval a)"
    "fval b' = (if s then fval a else fval b)"
    using assms t swap_conditional_spec [OF b refl refl, of s] by (auto split: if_splits)
qed

lemma ladder_step_mod:
  "ladder_step (x1 mod p25519) (a mod p25519, b mod p25519, c mod p25519, d mod p25519) = ladder_step x1 (a, b, c, d)"
  unfolding ladder_step_def Let_def prod.case prod.inject power2_eq_square
  by (intro conjI mod_mult_cong mod_add_cong mod_diff_cong mod_mod_trivial refl)

lemma cmult_round_spec:
  assumes "ladder_ok s" "fbound (2 ^ 26) q"
  shows "ladder_ok (cmult_round q (of_bool b) s)"
    "ladder_value (cmult_round q (of_bool b) s) = ladder_round (fval q mod p25519) b (ladder_value s)"
proof -
  obtain x z x' z' where s: "s = (x, z, x', z')" by (cases s)
  obtain x1 x1' where 1: "swap_conditional x x' (of_bool b) = (x1, x1')" by fastforce
  obtain z1 z1' where 2: "swap_conditional z z' (of_bool b) = (z1, z1')" by fastforce
  obtain x2 z2 x2' z2' where 3: "fmonty x1 z1 x1' z1' q = (x2, z2, x2', z2')" by (cases "fmonty x1 z1 x1' z1' q")
  obtain x3 x3' where 4: "swap_conditional x2 x2' (of_bool b) = (x3, x3')" by fastforce
  obtain z3 z3' where 5: "swap_conditional z2 z2' (of_bool b) = (z3, z3')" by fastforce
  have r: "cmult_round q (of_bool b) s = (x3, z3, x3', z3')"
    by (simp add: s cmult_round_def 1 2 3 4 5)
  have ok: "fbound (2 ^ 26) x" "fbound (2 ^ 26) x'" "fbound (2 ^ 26) z" "fbound (2 ^ 26) z'"
    using assms(1) by (auto simp: ladder_ok_def s)
  note s1 = swap_conditional_cases [OF ok(1,2) 1] and s2 = swap_conditional_cases [OF ok(3,4) 2]
  have m: "fbound (2 ^ 26) x2" "fbound (2 ^ 26) z2" "fbound (2 ^ 26) x2'" "fbound (2 ^ 26) z2'"
    "(fval x2 mod p25519, fval z2 mod p25519, fval x2' mod p25519, fval z2' mod p25519) =
      ladder_step (fval q) (fval x1, fval z1, fval x1', fval z1')"
    using fmonty_spec [OF s1(1) s2(1) s1(2) s2(2) assms(2) 3] by auto
  note s3 = swap_conditional_cases [OF m(1,3) 4] and s4 = swap_conditional_cases [OF m(2,4) 5]
  show "ladder_ok (cmult_round q (of_bool b) s)" using s3 s4 by (simp add: r ladder_ok_def)
  show "ladder_value (cmult_round q (of_bool b) s) = ladder_round (fval q mod p25519) b (ladder_value s)"
  proof -
    obtain l1 l2 l3 l4 where l: "ladder_step (fval q) (fval x1, fval z1, fval x1', fval z1') = (l1, l2, l3, l4)"
      by (cases "ladder_step (fval q) (fval x1, fval z1, fval x1', fval z1')")
    have "ladder_swap b (ladder_value s) = (fval x1 mod p25519, fval z1 mod p25519, fval x1' mod p25519, fval z1' mod p25519)"
      by (simp add: s ladder_value_def ladder_swap_def s1 s2)
    then have "ladder_round (fval q mod p25519) b (ladder_value s) = ladder_swap b (l1, l2, l3, l4)"
      by (simp add: ladder_round_def ladder_step_mod l)
    then show ?thesis using m(5) unfolding l by (simp add: r ladder_value_def ladder_swap_def s3 s4)
  qed
qed

lemma cmult_byte_spec:
  assumes "ladder_ok s" "fbound (2 ^ 26) q"
  shows "ladder_ok (cmult_byte q byte s)"
    "ladder_value (cmult_byte q byte s) = foldl (\<lambda>s t. ladder_round (fval q mod p25519) (bit byte t) s) (ladder_value s) (rev [0..<8])"
proof -
  define f where "f = (\<lambda>(s, byte :: byte) (j :: nat). (cmult_round q (ucast (drop_bit 7 byte)) s, push_bit 1 byte))"
  have b: "(ucast (drop_bit 7 (push_bit j byte)) :: limb) = of_bool (bit byte (7 - j))" if "j < 8" for j
    by (rule bit_word_eqI) (use that in \<open>auto simp: bit_simps dest: bit_imp_le_length\<close>)
  have "ladder_ok (fst (foldl f (s, byte) [0..<j])) \<and> snd (foldl f (s, byte) [0..<j]) = push_bit j byte \<and>
      ladder_value (fst (foldl f (s, byte) [0..<j])) =
        foldl (\<lambda>s t. ladder_round (fval q mod p25519) (bit byte t) s) (ladder_value s) (rev [8 - j..<8])"
    if "j \<le> 8" for j
    using that
  proof (induction j)
    case (Suc j)
    let ?r = "foldl f (s, byte) [0..<j]"
    have IH: "ladder_ok (fst ?r)" "snd ?r = push_bit j byte"
      "ladder_value (fst ?r) = foldl (\<lambda>s t. ladder_round (fval q mod p25519) (bit byte t) s) (ladder_value s) (rev [8 - j..<8])"
      using Suc by simp_all
    have e: "foldl f (s, byte) [0..<Suc j] = (cmult_round q (of_bool (bit byte (7 - j))) (fst ?r), push_bit (Suc j) byte)"
    proof -
      have "foldl f (s, byte) [0..<Suc j] = (cmult_round q (ucast (drop_bit 7 (snd ?r))) (fst ?r), push_bit 1 (snd ?r))"
        by (simp add: f_def split_beta)
      then show ?thesis unfolding IH(2) push_bit_push_bit using b [of j] Suc.prems by simp
    qed
    have "8 - Suc j = 7 - j" "Suc (7 - j) = 8 - j" using Suc.prems by simp_all
    then have u: "[8 - Suc j..<8] = (7 - j) # [8 - j..<8]" using upt_conv_Cons [of "7 - j" 8] by simp
    show ?case unfolding e u using cmult_round_spec [OF IH(1) assms(2)] IH(3) by simp
  qed (use assms in simp)
  from this [of 8] show "ladder_ok (cmult_byte q byte s)"
    "ladder_value (cmult_byte q byte s) = foldl (\<lambda>s t. ladder_round (fval q mod p25519) (bit byte t) s) (ladder_value s) (rev [0..<8])"
    by (simp_all add: cmult_byte_def f_def)
qed

lemma cmult_spec:
  assumes "length n = 32" "fbound (2 ^ 26) q" "cmult n q = (x, z)"
  shows "length x = 10" "length z = 10" "fbound (2 ^ 26) x" "fbound (2 ^ 26) z"
    "\<exists>x3 z3. x25519_ladder (le_val n) (fval q) = (fval x mod p25519, fval z mod p25519, x3, z3)"
proof -
  define s0 :: ladder where "s0 = (1 # replicate 18 0, replicate 19 0, take 10 q @ replicate 9 0, 1 # replicate 18 0)"
  define g where "g = (\<lambda>s t. ladder_round (fval q mod p25519) (bit (le_val n) t) s)"
  have q: "fbound (2 ^ 26) (take 10 q @ replicate 9 0)" "fval (take 10 q @ replicate 9 0) = fval q"
    using assms(2) by (auto simp: fbound_def fval_def lval_def nth_append)
  have c: "fbound (2 ^ 26) (1 # replicate 18 0)" "fval (1 # replicate 18 0) = 1"
      "fbound (2 ^ 26) (replicate 19 0)" "fval (replicate 19 0) = 0"
    by (auto simp: fbound_def fval_def lval_def nth_Cons sum_10 weight_def split: nat.splits)
  have s0: "ladder_ok s0" "ladder_value s0 = (1, 0, fval q mod p25519, 1)"
    using q c by (simp_all add: s0_def ladder_ok_def ladder_value_def p25519_def)
  have "ladder_ok (foldl (\<lambda>s i. cmult_byte q (n ! (31 - i)) s) s0 [0..<i]) \<and>
      ladder_value (foldl (\<lambda>s i. cmult_byte q (n ! (31 - i)) s) s0 [0..<i]) = foldl g (ladder_value s0) (rev [256 - 8 * i..<256])"
    if "i \<le> 32" for i
    using that
  proof (induction i)
    case (Suc i)
    let ?s = "foldl (\<lambda>s i. cmult_byte q (n ! (31 - i)) s) s0 [0..<i]"
    have IH: "ladder_ok ?s" "ladder_value ?s = foldl g (ladder_value s0) (rev [256 - 8 * i..<256])" using Suc by simp_all
    have "[256 - 8 * Suc i..<256] = [256 - 8 * Suc i..<256 - 8 * i] @ [256 - 8 * i..<256]"
      using upt_add_eq_append [of "256 - 8 * Suc i" "256 - 8 * i" "8 * i"] Suc.prems by simp
    moreover have "[256 - 8 * Suc i..<256 - 8 * i] = map (\<lambda>t. 8 * (31 - i) + t) [0..<8]"
      using Suc.prems map_add_upt [of "8 * (31 - i)" 8] by (simp add: add.commute diff_mult_distrib2)
    ultimately have u: "rev [256 - 8 * Suc i..<256] = rev [256 - 8 * i..<256] @ map (\<lambda>t. 8 * (31 - i) + t) (rev [0..<8])"
      by (simp only: rev_append rev_map)
    have "foldl g v (map (\<lambda>t. 8 * (31 - i) + t) (rev [0..<8])) =
        foldl (\<lambda>s t. ladder_round (fval q mod p25519) (bit (n ! (31 - i)) t) s) v (rev [0..<8])" for v
    proof -
      have "31 - i < 32" by simp
      then show ?thesis
        unfolding foldl_map using assms(1) by (intro foldl_cong refl) (simp add: g_def bit_le_val_byte)
    qed
    then show ?case
      using cmult_byte_spec [OF IH(1) assms(2)] IH(2) unfolding u by simp
  qed (simp add: s0(1))
  from this [of 32] have e: "ladder_ok (foldl (\<lambda>s i. cmult_byte q (n ! (31 - i)) s) s0 [0..<32])"
      "ladder_value (foldl (\<lambda>s i. cmult_byte q (n ! (31 - i)) s) s0 [0..<32]) = foldl g (ladder_value s0) (rev [0..<256])"
    by simp_all
  obtain x' z' u v where r: "foldl (\<lambda>s i. cmult_byte q (n ! (31 - i)) s) s0 [0..<32] = (x', z', u, v)"
    by (cases "foldl (\<lambda>s i. cmult_byte q (n ! (31 - i)) s) s0 [0..<32]")
  have xz: "x = take 10 x'" "z = take 10 z'"
    using assms(3) r by (simp_all add: cmult_def s0_def Let_def)
  show "length x = 10" "length z = 10" "fbound (2 ^ 26) x" "fbound (2 ^ 26) z"
    using e(1) unfolding r by (auto simp: xz fbound_take ladder_ok_def fbound_def)
  show "\<exists>x3 z3. x25519_ladder (le_val n) (fval q) = (fval x mod p25519, fval z mod p25519, x3, z3)"
    using e(2) [symmetric] unfolding r s0(2) by (simp add: x25519_ladder_def g_def ladder_value_def xz fval_take Let_def)
qed

section \<open>The whole function\<close>

text \<open>
  \<open>curve25519_donna\<close> is the function X25519 of RFC 7748: the bytes it writes are the little-endian
  encoding of the u-coordinate the reference ladder computes from the clamped scalar and the
  coordinate modulo \<open>2^255\<close>, reduced modulo the prime, whatever the output buffer held before.
\<close>

lemma curve25519_donna_c_spec:
  assumes "length mypublic = 32" "length secret = 32" "length basepoint = 32"
  shows "length (curve25519_donna_c mypublic secret basepoint) = 32 \<and>
    le_val (curve25519_donna_c mypublic secret basepoint) = x25519 (decode_scalar secret) (decode_u basepoint)"
proof -
  obtain x z where xz: "cmult (clamp secret) (fexpand basepoint) = (x, z)" by fastforce
  note e = fexpand_spec [OF assms(3)] and c = clamp_spec [OF assms(2)]
  note m = cmult_spec [OF c(1) e(2) xz]
  obtain x3 z3 where l: "x25519_ladder (decode_scalar secret) (decode_u basepoint) = (fval x mod p25519, fval z mod p25519, x3, z3)"
    using m(5) unfolding c(2) e(1) decode_u_def by blast
  have "fpow (fval z) 1 z" by (rule fpow_1 [OF m(2,4)])
  then have r: "fpow (fval z) (2 ^ 255 - 21) (crecip z)" by (rule crecip_fpow)
  have b: "fbound (2 ^ 27) x" "fbound (2 ^ 27) (crecip z)"
    using m(3) r by (auto simp: fpow_def elim!: fbound_mono)
  note f = fmul_spec [OF b]
  have "(fval x * fval (crecip z)) mod p25519 = ((fval x mod p25519) * (fval z mod p25519) ^ (2 ^ 255 - 21)) mod p25519"
    using r unfolding fpow_def by (metis mod_mult_eq power_mod mod_mod_trivial)
  then show ?thesis
    using fcontract_spec [OF assms(1) f(2)] f(3) xz
    by (simp only: curve25519_donna_c_def Let_def prod.case x25519_def l)
qed

end
