(* ===== verification/KeyAgreement.thy ===== *)
theory KeyAgreement
  imports Crypto Donna
begin

text \<open>
  The key agreement of the library: the wrappers of \<open>src/crypto.cpp\<close> over the function of
  \<open>lib/curve25519-donna\<close>.  Here the parameter of the other theories for that function is the model of
  its code; its properties are those of the reference function of RFC 7748.
\<close>

section \<open>The library with its curve\<close>

text \<open>
  The output buffer is an argument, because the code reads it before it writes it.
\<close>

definition donna_lib :: "bytes \<Rightarrow> crypto_lib \<Rightarrow> crypto_lib" where
  "donna_lib out L = L\<lparr>curve25519_donna := curve25519_donna_c out\<rparr>"

lemma donna_output_irrelevant:
  assumes "length out = 32" "length out' = 32" "length secret = 32" "length basepoint = 32"
  shows "curve25519_donna_c out secret basepoint = curve25519_donna_c out' secret basepoint"
  using curve25519_donna_c_spec [OF assms(1,3,4)] curve25519_donna_c_spec [OF assms(2,3,4)]
  by (auto intro: le_val_inject)

section \<open>A point of order two\<close>

lemma ladder_zero:
  "foldl (\<lambda>s t. ladder_round 0 (bit k t) s) (0, 0, 0, 0) ts = (0, 0, 0, 0)"
  by (induction ts) (simp_all add: ladder_round_def ladder_step_def ladder_swap_def)

lemma x25519_zero:
  assumes "u mod p25519 = 0" "\<not> bit k 255" "bit k 254"
  shows "x25519 k u = 0"
proof -
  obtain ts where r: "rev [0..<256] = 255 # 254 # ts"
  proof (rule that)
    show "rev [0..<256] = 255 # 254 # rev [0..<254]" using upt_add_eq_append [of 0 254 2] by simp
  qed
  have "x25519_ladder k u = foldl (\<lambda>s t. ladder_round 0 (bit k t) s) (0, 0, 0, 0) ts"
    unfolding x25519_ladder_def r Let_def assms(1)
    using assms(2,3) by (simp add: ladder_round_def ladder_step_def ladder_swap_def p25519_def)
  then show ?thesis by (simp add: x25519_def ladder_zero)
qed

section \<open>Properties\<close>

text \<open>
  C8 The key pairs and shared secrets of the library are those of X25519 in RFC 7748: the public
  key of a private key is the scalar multiple of the base point 9, the shared secret the multiple of
  the other party's coordinate, both as 32 bytes, least significant first.
\<close>

theorem key_agreement_is_x25519:
  assumes "length out = 32" "32 \<le> length random" "length their_key = 32"
    "key = curve25519_generate_key (donna_lib out L) random"
  shows "length (c_public key) = 32 \<and> c_private key = take 32 random \<and>
    le_val (c_public key) = x25519 (decode_scalar (c_private key)) 9 \<and>
    length (curve25519_shared_secret (donna_lib out L) key their_key) = 32 \<and>
    le_val (curve25519_shared_secret (donna_lib out L) key their_key) =
      x25519 (decode_scalar (c_private key)) (decode_u their_key)"
proof -
  have p: "c_private key = take 32 random" by (simp add: assms(4) curve25519_generate_key_def Let_def)
  have l: "length (take 32 random) = 32" "length CURVE25519_BASEPOINT = 32"
    using assms(2) by (simp_all add: CURVE25519_BASEPOINT_def)
  have b: "decode_u CURVE25519_BASEPOINT = 9"
    using le_val_zeros [of 31] by (simp add: decode_u_def le_val_def CURVE25519_BASEPOINT_def)
  have k: "c_public key = curve25519_donna_c out (take 32 random) CURVE25519_BASEPOINT"
    "curve25519_shared_secret (donna_lib out L) key their_key =
      curve25519_donna_c out (take 32 random) their_key"
    by (simp_all add: assms(4) donna_lib_def curve25519_generate_key_def curve25519_shared_secret_def Let_def)
  show ?thesis
    using curve25519_donna_c_spec [OF assms(1) l] curve25519_donna_c_spec [OF assms(1) l(1) assms(3)]
    unfolding p k b by blast
qed

theorem key_agreement_is_x25519_witness:
  "le_val (c_public (curve25519_generate_key (donna_lib (replicate 32 7) example_lib) (replicate 32 1))) =
     x25519 (decode_scalar (replicate 32 1)) 9 \<and>
   le_val (curve25519_shared_secret (donna_lib (replicate 32 7) example_lib)
       (curve25519_generate_key (donna_lib (replicate 32 7) example_lib) (replicate 32 1)) (replicate 32 2)) =
     x25519 (decode_scalar (replicate 32 1)) (decode_u (replicate 32 2))"
  using key_agreement_is_x25519 [OF _ _ _ refl, of "replicate 32 7" "replicate 32 1" "replicate 32 2" example_lib]
  by (simp add: curve25519_generate_key_def Let_def)

text \<open>
  C16 A public key that is zero modulo the prime makes the shared secret 32 zero bytes, whatever the
  private key is; the library does not test for it.
\<close>

theorem zero_key_gives_zero_secret:
  assumes "length out = 32" "length (c_private key) = 32" "length their_key = 32"
    "decode_u their_key mod p25519 = 0"
  shows "curve25519_shared_secret (donna_lib out L) key their_key = replicate 32 0"
proof -
  have "x25519 (decode_scalar (c_private key)) (decode_u their_key) = 0"
    by (rule x25519_zero [OF assms(4)]) (simp_all add: bit_decode_scalar)
  then show ?thesis
    using curve25519_donna_c_spec [OF assms(1-3)] le_val_zeros [of 32]
    by (intro le_val_inject) (simp_all add: donna_lib_def curve25519_shared_secret_def)
qed

theorem zero_key_gives_zero_secret_witness:
  "curve25519_shared_secret (donna_lib (replicate 32 0) example_lib)
     \<lparr>c_public = replicate 32 0, c_private = replicate 32 5\<rparr> 
     [237, 255, 255, 255, 255, 255, 255, 255, 255, 255, 255, 255, 255, 255, 255,
       255, 255, 255, 255, 255, 255, 255, 255, 255, 255, 255, 255, 255, 255, 255, 255, 127] =
   replicate 32 0"
proof (rule zero_key_gives_zero_secret)
  show "decode_u [237, 255, 255, 255, 255, 255, 255, 255, 255, 255, 255, 255, 255, 255, 255,
       255, 255, 255, 255, 255, 255, 255, 255, 255, 255, 255, 255, 255, 255, 255, 255, 127] mod p25519 = 0"
    by (simp add: decode_u_def le_val_def p25519_def)
qed simp_all

end
