(* ===== verification/Cipher.thy ===== *)
theory Cipher
  imports Crypto
begin

text \<open>
  \<open>src/cipher.cpp\<close>: the cipher of the library, AES-256-CBC with an HMAC-SHA-256 tag cut to eight
  bytes, its keys derived by HKDF.  Encryption writes the ciphertext region and the tag at the end
  of the output region; decryption checks the tag in constant time before it decrypts.  The lemmas
  give both as one write to memory, the three error branches, and that decryption inverts
  encryption.
\<close>

record aes_sha_256_cipher =
  kdf_info :: bytes

record DerivedKeys =
  dk_aes_key :: bytes
  dk_mac_key :: bytes
  dk_aes_iv :: bytes

definition derive_keys :: "bytes \<Rightarrow> bytes \<Rightarrow> DerivedKeys" where
  "derive_keys info key =
     (let derived_secrets = crypto_hkdf_sha256 key None info (32 + 32 + 16);
          aes_key = take 32 derived_secrets;
          pos = drop 32 derived_secrets;
          mac_key = take 32 pos;
          pos = drop 32 pos;
          aes_iv = take 16 pos
      in \<lparr>dk_aes_key = aes_key, dk_mac_key = mac_key, dk_aes_iv = aes_iv\<rparr>)"

definition MAC_LENGTH :: nat where
  "MAC_LENGTH = 8"

definition cipher_mac_length :: "aes_sha_256_cipher \<Rightarrow> nat" where
  "cipher_mac_length cipher = MAC_LENGTH"

definition cipher_encrypt_ciphertext_length :: "aes_sha_256_cipher \<Rightarrow> nat \<Rightarrow> nat" where
  "cipher_encrypt_ciphertext_length cipher plaintext_length = aes_encrypt_cbc_length plaintext_length"

definition cipher_encrypt ::
  "aes_sha_256_cipher \<Rightarrow> bytes \<Rightarrow> mem \<Rightarrow> addr \<Rightarrow> nat \<Rightarrow> addr \<Rightarrow> nat \<Rightarrow> addr \<Rightarrow> nat \<Rightarrow>
   mem \<times> nat option" where
  "cipher_encrypt c key m plaintext plaintext_length ciphertext ciphertext_length
      output output_length =
     (if ciphertext_length < cipher_encrypt_ciphertext_length c plaintext_length
         \<or> output_length < MAC_LENGTH then (m, None)
      else
        let keys = derive_keys (kdf_info c) key;
            m = aes_encrypt_cbc (dk_aes_key keys) (dk_aes_iv keys) m plaintext plaintext_length
                  ciphertext;
            mac = crypto_hmac_sha256 (dk_mac_key keys) (rd m output (output_length - MAC_LENGTH));
            m = wr m (output + output_length - MAC_LENGTH) (take MAC_LENGTH mac)
        in (m, Some output_length))"

definition cipher_decrypt_max_plaintext_length :: "aes_sha_256_cipher \<Rightarrow> nat \<Rightarrow> nat" where
  "cipher_decrypt_max_plaintext_length cipher ciphertext_length = ciphertext_length"

text \<open>The tag comparison is \<open>is_equal\<close> of the input's last bytes with the computed array.\<close>

definition cipher_decrypt ::
  "aes_sha_256_cipher \<Rightarrow> bytes \<Rightarrow> mem \<Rightarrow> addr \<Rightarrow> nat \<Rightarrow> addr \<Rightarrow> nat \<Rightarrow> addr \<Rightarrow> nat \<Rightarrow>
   mem \<times> nat option" where
  "cipher_decrypt c key m input input_length ciphertext ciphertext_length
      plaintext max_plaintext_length =
     (if max_plaintext_length < cipher_decrypt_max_plaintext_length c ciphertext_length
         \<or> input_length < MAC_LENGTH then (m, None)
      else
        let keys = derive_keys (kdf_info c) key;
            mac = crypto_hmac_sha256 (dk_mac_key keys) (rd m input (input_length - MAC_LENGTH));
            input_mac = input + input_length - MAC_LENGTH
        in if \<not> array_equal (rd m input_mac MAC_LENGTH) (take MAC_LENGTH mac) then (m, None)
           else aes_decrypt_cbc (dk_aes_key keys) (dk_aes_iv keys) m ciphertext ciphertext_length
                  plaintext)"

section \<open>Results as writes to memory\<close>

lemma length_derive_keys [simp]:
  "length (dk_aes_key (derive_keys info key)) = 32"
  "length (dk_mac_key (derive_keys info key)) = 32"
  "length (dk_aes_iv (derive_keys info key)) = 16"
  by (simp_all add: derive_keys_def Let_def)

definition cipher_body :: "aes_sha_256_cipher \<Rightarrow> bytes \<Rightarrow> bytes \<Rightarrow> bytes" where
  "cipher_body c key msg =
     (let keys = derive_keys (kdf_info c) key in cbc_encrypt (dk_aes_key keys) (dk_aes_iv keys) msg)"

definition cipher_tag :: "aes_sha_256_cipher \<Rightarrow> bytes \<Rightarrow> bytes \<Rightarrow> bytes" where
  "cipher_tag c key data = take 8 (crypto_hmac_sha256 (dk_mac_key (derive_keys (kdf_info c) key)) data)"

lemma length_cipher_tag [simp, len_simps]: "length (cipher_tag c key data) = 8"
  by (simp add: cipher_tag_def)

lemma length_cipher_body [simp, len_simps]:
  "length (cipher_body c key msg) = aes_encrypt_cbc_length (length msg)"
  by (simp add: cipher_body_def Let_def)

text \<open>
  The layout every caller uses: the ciphertext lies inside the output region, before the tag; the
  plaintext is elsewhere or not behind the ciphertext.
\<close>

lemma cipher_encrypt_wr:
  assumes "aes_encrypt_cbc_length n \<le> k" "8 \<le> len"
    "ciphertext \<le> plaintext \<or> plaintext + n \<le> ciphertext"
  shows "cipher_encrypt c key m plaintext n ciphertext k output len =
    (let m1 = wr m ciphertext (cipher_body c key (rd m plaintext n))
     in (wr m1 (output + (len - 8)) (cipher_tag c key (rd m1 output (len - 8))), Some len))"
  using assms
  by (simp add: cipher_encrypt_def cipher_encrypt_ciphertext_length_def MAC_LENGTH_def Let_def
      aes_encrypt_cbc_wr cipher_body_def cipher_tag_def)

lemma cipher_encrypt_error:
  "snd (cipher_encrypt c key m p n ct k output len) = None \<longleftrightarrow> k < aes_encrypt_cbc_length n \<or> len < 8"
  "k < aes_encrypt_cbc_length n \<or> len < 8 \<Longrightarrow>
   cipher_encrypt c key m p n ct k output len = (m, None)"
  by (auto simp: cipher_encrypt_def cipher_encrypt_ciphertext_length_def MAC_LENGTH_def Let_def)

lemma cipher_decrypt_tag:
  assumes "k \<le> max_len" "8 \<le> len"
  shows "cipher_decrypt c key m input len ct k pt max_len =
    (if rd m (input + (len - 8)) 8 = cipher_tag c key (rd m input (len - 8))
     then aes_decrypt_cbc (dk_aes_key (derive_keys (kdf_info c) key))
            (dk_aes_iv (derive_keys (kdf_info c) key)) m ct k pt
     else (m, None))"
  using assms
  by (simp add: cipher_decrypt_def cipher_decrypt_max_plaintext_length_def MAC_LENGTH_def Let_def
      array_equal_iff cipher_tag_def)

lemma cipher_decrypt_error:
  "max_len < k \<or> len < 8 \<Longrightarrow> cipher_decrypt c key m input len ct k pt max_len = (m, None)"
  by (auto simp: cipher_decrypt_def cipher_decrypt_max_plaintext_length_def MAC_LENGTH_def)

lemma cipher_decrypt_sealed:
  assumes "k \<le> max_len" "8 \<le> len" "k = aes_encrypt_cbc_length (length msg)"
    "rd m (input + (len - 8)) 8 = cipher_tag c key (rd m input (len - 8))"
    "rd m ct k = cipher_body c key msg" "pt \<le> ct \<or> ct + k \<le> pt"
  shows "cipher_decrypt c key m input len ct k pt max_len = (wr m pt (pkcs7 msg), Some (length msg))"
  using assms by (simp add: cipher_decrypt_tag cipher_body_def Let_def aes_decrypt_cbc_encrypt)

section \<open>Properties\<close>

text \<open>
  What the cipher encrypts into a message buffer, ciphertext and tag, it decrypts to the same
  plaintext with the same key; the ciphertext may overlap the plaintext from the front.
\<close>

theorem cipher_round_trip:
  assumes "stored m pt msg" "ct \<le> pt \<or> pt + length msg \<le> ct"
    "ct + aes_encrypt_cbc_length (length msg) + 8 = buf + len" "buf \<le> ct"
    "out \<le> ct \<or> ct + aes_encrypt_cbc_length (length msg) \<le> out"
    "cipher_encrypt c key m pt (length msg) ct (aes_encrypt_cbc_length (length msg)) buf len = (m1, r)"
  shows "r = Some len \<and>
    cipher_decrypt c key m1 buf len ct (aes_encrypt_cbc_length (length msg)) out
      (aes_encrypt_cbc_length (length msg)) = (wr m1 out (pkcs7 msg), Some (length msg))"
proof -
  let ?n = "aes_encrypt_cbc_length (length msg)" and ?body = "cipher_body c key msg"
  define q where "q = wr m ct ?body"
  have tag_pos: "buf + (len - 8) = ct + ?n" and len: "8 \<le> len" using assms(3,4) by linarith+
  have enc: "m1 = wr q (ct + ?n) (cipher_tag c key (rd q buf (len - 8)))" "r = Some len"
    using assms(1,2,6) len by (simp_all add: cipher_encrypt_wr Let_def q_def tag_pos stored_rd)
  have "rd m1 ct ?n = ?body"
    unfolding enc q_def by (subst rd_wr_disj) simp_all
  moreover have "rd m1 buf (len - 8) = rd q buf (len - 8)"
    unfolding enc by (rule rd_wr_disj) (use tag_pos in simp)
  moreover have "rd m1 (ct + ?n) 8 = cipher_tag c key (rd q buf (len - 8))"
    unfolding enc by (rule rd_wr_same) (simp add: len_simps)
  ultimately show ?thesis
    using enc(2) len assms(5) tag_pos by (intro conjI cipher_decrypt_sealed) simp_all
qed

theorem cipher_round_trip_witness:
  "\<exists>m1. cipher_encrypt \<lparr>kdf_info = []\<rparr> [1] (\<lambda>i. 9) 100 1 4 16 0 28 = (m1, Some 28) \<and>
     cipher_decrypt \<lparr>kdf_info = []\<rparr> [1] m1 0 28 4 16 200 16 = (wr m1 200 (pkcs7 [9]), Some 1)"
proof -
  obtain m1 r where e: "cipher_encrypt \<lparr>kdf_info = []\<rparr> [1] (\<lambda>i. 9) 100 1 4 16 0 28 = (m1, r)"
    by fastforce
  then show ?thesis
    using cipher_round_trip [of "\<lambda>i. 9" 100 "[9]" 4 0 28 200 "\<lparr>kdf_info = []\<rparr>" "[1]" m1 r]
    by (simp add: aes_encrypt_cbc_length_def)
qed

text \<open>
  A message whose last eight bytes are not the tag of the rest is refused, and nothing is
  written; so is a message shorter than a tag or a plaintext buffer smaller than the ciphertext.
\<close>

theorem cipher_refuses:
  assumes "max_len < k \<or> len < 8 \<or>
    rd m (buf + (len - 8)) 8 \<noteq> cipher_tag c key (rd m buf (len - 8))"
  shows "cipher_decrypt c key m buf len ct k out max_len = (m, None)"
proof (cases "max_len < k \<or> len < 8")
  case False
  then show ?thesis using assms by (simp add: cipher_decrypt_tag)
qed (rule cipher_decrypt_error)

theorem cipher_refuses_witness:
  "cipher_decrypt \<lparr>kdf_info = []\<rparr> [1] (\<lambda>i. 9) 0 7 0 16 200 16 = (\<lambda>i. 9, None)"
  by (rule cipher_refuses) simp

end
