(* ===== verification/Pickle.thy ===== *)
theory Pickle
  imports Crypto OlmList
begin

text \<open>
  \<open>src/pickle.cpp\<close>, \<open>pickle.h\<close> and the templates of \<open>pickle.hh\<close>: the binary format in which the
  library stores its objects.  A \<open>pickle\<close> function writes a value and returns the position behind
  it; an \<open>unpickle\<close> function reads a value between \<open>pos\<close> and \<open>end\<close>, returns the position behind it,
  and returns \<open>end\<close> when the bytes run out.  It overwrites an object, so it takes the old value.

  The locale \<open>pickler\<close> is the contract of such a group of functions: what is written is an encoding
  of the value, reading the encoding gives the value back, reading never passes \<open>end\<close>.  The list
  templates are proved once for any element type that satisfies it.
\<close>

section \<open>Integers, booleans and byte arrays\<close>

definition pickle_u32_length :: "u32 \<Rightarrow> nat" where
  "pickle_u32_length value = 4"

text \<open>\<open>for (i = 4; i--;) { *(--pos) = value; value >>= 8; }\<close>\<close>

primrec pickle_u32_loop :: "nat \<Rightarrow> mem \<Rightarrow> addr \<Rightarrow> u32 \<Rightarrow> mem \<times> addr \<times> u32" where
  "pickle_u32_loop 0 m pos value = (m, pos, value)"
| "pickle_u32_loop (Suc i) m pos value =
     pickle_u32_loop i (m(pos - 1 := ucast value)) (pos - 1) (drop_bit 8 value)"

definition pickle_u32 :: "mem \<Rightarrow> addr \<Rightarrow> u32 \<Rightarrow> mem \<times> addr" where
  "pickle_u32 m pos value =
     (let pos = pos + 4;
          (m, pos, value) = pickle_u32_loop 4 m pos value
      in (m, pos + 4))"

primrec unpickle_u32_loop :: "nat \<Rightarrow> mem \<Rightarrow> addr \<Rightarrow> u32 \<Rightarrow> addr \<times> u32" where
  "unpickle_u32_loop 0 m pos value = (pos, value)"
| "unpickle_u32_loop (Suc i) m pos value =
     unpickle_u32_loop i m (pos + 1) (push_bit 8 value OR ucast (m pos))"

definition unpickle_u32 :: "mem \<Rightarrow> addr \<Rightarrow> addr \<Rightarrow> u32 \<Rightarrow> addr \<times> u32" where
  "unpickle_u32 m pos end value =
     (if end < pos + 4 then (end, 0) else unpickle_u32_loop 4 m pos 0)"

definition pickle_bool_length :: "bool \<Rightarrow> nat" where
  "pickle_bool_length value = 1"

definition pickle_bool :: "mem \<Rightarrow> addr \<Rightarrow> bool \<Rightarrow> mem \<times> addr" where
  "pickle_bool m pos value = (m(pos := if value then 1 else 0), pos + 1)"

definition unpickle_bool :: "mem \<Rightarrow> addr \<Rightarrow> addr \<Rightarrow> bool \<Rightarrow> addr \<times> bool" where
  "unpickle_bool m pos end value = (if pos = end then (end, value) else (pos + 1, m pos \<noteq> 0))"

text \<open>The C interface: \<open>int\<close> for \<open>bool\<close>, of which reading replaces only the low byte.\<close>

definition pickle_int_bool :: "mem \<Rightarrow> addr \<Rightarrow> u32 \<Rightarrow> mem \<times> addr" where
  "pickle_int_bool m pos value = pickle_bool m pos (value \<noteq> 0)"

definition unpickle_int_bool :: "mem \<Rightarrow> addr \<Rightarrow> addr \<Rightarrow> u32 \<Rightarrow> addr \<times> u32" where
  "unpickle_int_bool m pos end value =
     (let (pos', b) = unpickle_bool m pos end (value AND 0xFF \<noteq> 0)
      in (pos', if pos = end then value else (value AND NOT 0xFF) OR (if b then 1 else 0)))"

definition pickle_bytes :: "mem \<Rightarrow> addr \<Rightarrow> bytes \<Rightarrow> mem \<times> addr" where
  "pickle_bytes m pos bs = (wr m pos bs, pos + length bs)"

text \<open>The length read is the size of the array read into.\<close>

definition unpickle_bytes :: "mem \<Rightarrow> addr \<Rightarrow> addr \<Rightarrow> bytes \<Rightarrow> addr \<times> bytes" where
  "unpickle_bytes m pos end bs =
     (if end < pos + length bs then (end, bs) else (pos + length bs, rd m pos (length bs)))"

section \<open>Keys\<close>

definition pickle_curve25519_public_key_length :: "bytes \<Rightarrow> nat" where
  "pickle_curve25519_public_key_length value = length value"

definition pickle_curve25519_public_key :: "mem \<Rightarrow> addr \<Rightarrow> bytes \<Rightarrow> mem \<times> addr" where
  "pickle_curve25519_public_key m pos value = pickle_bytes m pos value"

definition unpickle_curve25519_public_key :: "mem \<Rightarrow> addr \<Rightarrow> addr \<Rightarrow> bytes \<Rightarrow> addr \<times> bytes" where
  "unpickle_curve25519_public_key m pos end value = unpickle_bytes m pos end value"

definition pickle_curve25519_key_pair_length :: "curve25519_key_pair \<Rightarrow> nat" where
  "pickle_curve25519_key_pair_length value = length (c_public value) + length (c_private value)"

definition pickle_curve25519_key_pair ::
  "mem \<Rightarrow> addr \<Rightarrow> curve25519_key_pair \<Rightarrow> mem \<times> addr" where
  "pickle_curve25519_key_pair m pos value =
     (let (m, pos) = pickle_bytes m pos (c_public value)
      in pickle_bytes m pos (c_private value))"

definition unpickle_curve25519_key_pair ::
  "mem \<Rightarrow> addr \<Rightarrow> addr \<Rightarrow> curve25519_key_pair \<Rightarrow> addr \<times> curve25519_key_pair" where
  "unpickle_curve25519_key_pair m pos end value =
     (let (pos, pub) = unpickle_bytes m pos end (c_public value);
          (pos, priv) = unpickle_bytes m pos end (c_private value)
      in (pos, value\<lparr>c_public := pub, c_private := priv\<rparr>))"

definition pickle_ed25519_public_key_length :: "bytes \<Rightarrow> nat" where
  "pickle_ed25519_public_key_length value = length value"

definition pickle_ed25519_public_key :: "mem \<Rightarrow> addr \<Rightarrow> bytes \<Rightarrow> mem \<times> addr" where
  "pickle_ed25519_public_key m pos value = pickle_bytes m pos value"

definition unpickle_ed25519_public_key :: "mem \<Rightarrow> addr \<Rightarrow> addr \<Rightarrow> bytes \<Rightarrow> addr \<times> bytes" where
  "unpickle_ed25519_public_key m pos end value = unpickle_bytes m pos end value"

definition pickle_ed25519_key_pair_length :: "ed25519_key_pair \<Rightarrow> nat" where
  "pickle_ed25519_key_pair_length value = length (e_public value) + length (e_private value)"

definition pickle_ed25519_key_pair ::
  "mem \<Rightarrow> addr \<Rightarrow> ed25519_key_pair \<Rightarrow> mem \<times> addr" where
  "pickle_ed25519_key_pair m pos value =
     (let (m, pos) = pickle_bytes m pos (e_public value)
      in pickle_bytes m pos (e_private value))"

definition unpickle_ed25519_key_pair ::
  "mem \<Rightarrow> addr \<Rightarrow> addr \<Rightarrow> ed25519_key_pair \<Rightarrow> addr \<times> ed25519_key_pair" where
  "unpickle_ed25519_key_pair m pos end value =
     (let (pos, pub) = unpickle_bytes m pos end (e_public value);
          (pos, priv) = unpickle_bytes m pos end (e_private value)
      in (pos, value\<lparr>e_public := pub, e_private := priv\<rparr>))"

section \<open>Lists\<close>

text \<open>The templates of \<open>pickle.hh\<close>, over the functions of the element type.\<close>

definition pickle_list_length :: "('a \<Rightarrow> nat) \<Rightarrow> 'a olist \<Rightarrow> nat" where
  "pickle_list_length pk_length l =
     foldl (\<lambda>n value. n + pk_length value) (pickle_u32_length (of_nat (ol_size l))) (items l)"

definition pickle_list ::
  "(mem \<Rightarrow> addr \<Rightarrow> 'a \<Rightarrow> mem \<times> addr) \<Rightarrow> mem \<Rightarrow> addr \<Rightarrow> 'a olist \<Rightarrow> mem \<times> addr" where
  "pickle_list pk m pos l =
     foldl (\<lambda>(m, pos) value. pk m pos value) (pickle_u32 m pos (of_nat (ol_size l))) (items l)"

text \<open>\<open>while (size-- && pos != end)\<close>: the first argument is \<open>size\<close> before the test.\<close>

primrec unpickle_list_loop ::
  "nat \<Rightarrow> (mem \<Rightarrow> addr \<Rightarrow> addr \<Rightarrow> 'a \<Rightarrow> addr \<times> 'a) \<Rightarrow> nat \<Rightarrow> mem \<Rightarrow> addr \<Rightarrow> addr \<Rightarrow> 'a olist \<Rightarrow>
   addr \<times> 'a olist" where
  "unpickle_list_loop 0 unpk max_size m pos end l = (pos, l)"
| "unpickle_list_loop (Suc n) unpk max_size m pos end l =
     (if pos \<noteq> end then
        let (l, value) = ol_insert max_size l (ol_end l);
            (pos, v) = unpk m pos end (ol_nth l value)
        in unpickle_list_loop n unpk max_size m pos end (ol_set l value v)
      else (pos, l))"

definition unpickle_list ::
  "(mem \<Rightarrow> addr \<Rightarrow> addr \<Rightarrow> 'a \<Rightarrow> addr \<times> 'a) \<Rightarrow> nat \<Rightarrow> mem \<Rightarrow> addr \<Rightarrow> addr \<Rightarrow> 'a olist \<Rightarrow>
   addr \<times> 'a olist" where
  "unpickle_list unpk max_size m pos end l =
     (let (pos, size) = unpickle_u32 m pos end 0
      in unpickle_list_loop (unat size) unpk max_size m pos end l)"

section \<open>The contract\<close>

locale pickler =
  fixes pk_length :: "'a \<Rightarrow> nat"
    and pk :: "mem \<Rightarrow> addr \<Rightarrow> 'a \<Rightarrow> mem \<times> addr"
    and unpk :: "mem \<Rightarrow> addr \<Rightarrow> addr \<Rightarrow> 'a \<Rightarrow> addr \<times> 'a"
    and enc :: "'a \<Rightarrow> bytes"
    and valid :: "'a \<Rightarrow> bool"
    and fresh :: "'a \<Rightarrow> bool"
    and view :: "'a \<Rightarrow> 'v"
  assumes pk_length: "valid v \<Longrightarrow> pk_length v = length (enc v)"
    and pk: "valid v \<Longrightarrow> pk m pos v = (wr m pos (enc v), pos + length (enc v))"
    and unpk_pos: "\<lbrakk>valid v; valid old; fresh old; stored m pos (enc v);
          pos + length (enc v) \<le> end\<rbrakk> \<Longrightarrow> fst (unpk m pos end old) = pos + length (enc v)"
    and unpk_view: "\<lbrakk>valid v; valid old; fresh old; stored m pos (enc v);
          pos + length (enc v) \<le> end\<rbrakk> \<Longrightarrow> view (snd (unpk m pos end old)) = view v"
    and unpk_valid: "valid old \<Longrightarrow> valid (snd (unpk m pos end old))"
    and unpk_bounds: "valid old \<Longrightarrow> pos \<le> end \<Longrightarrow>
          pos \<le> fst (unpk m pos end old) \<and> fst (unpk m pos end old) \<le> end"
begin

text \<open>Unpickling what was just pickled, with anything that was written elsewhere in between.\<close>

lemma unpk_pk:
  assumes "valid v" "valid old" "fresh old" "pos + length (enc v) \<le> end"
    "\<And>i. pos \<le> i \<Longrightarrow> i < pos + length (enc v) \<Longrightarrow> m' i = fst (pk m pos v) i"
  shows "fst (unpk m' pos end old) = snd (pk m pos v)"
    and "view (snd (unpk m' pos end old)) = view v"
proof -
  have "stored m' pos (enc v) = stored (fst (pk m pos v)) pos (enc v)"
    by (rule stored_cong) (use assms(5) in simp)
  then have r: "stored m' pos (enc v)"
    using assms(1) by (simp add: pk)
  show "fst (unpk m' pos end old) = snd (pk m pos v)"
    using unpk_pos [OF assms(1-3) r assms(4)] assms(1) by (simp add: pk)
  show "view (snd (unpk m' pos end old)) = view v"
    by (rule unpk_view [OF assms(1-3) r assms(4)])
qed

end

section \<open>The contract holds\<close>

definition be32 :: "u32 \<Rightarrow> bytes" where
  "be32 v = [ucast (drop_bit 24 v), ucast (drop_bit 16 v), ucast (drop_bit 8 v), ucast v]"

definition of_be32 :: "bytes \<Rightarrow> u32" where
  "of_be32 bs = foldl (\<lambda>v b. push_bit 8 v OR ucast b) 0 bs"

lemma length_be32 [simp, len_simps]: "length (be32 v) = 4"
  by (simp add: be32_def)

lemma of_be32_be32 [simp]: "of_be32 (be32 v) = v"
proof (rule bit_word_eqI)
  fix n assume n: "n < LENGTH(32)"
  consider "n < 8" | "8 \<le> n" "n < 16" | "16 \<le> n" "n < 24" | "24 \<le> n" "n < 32"
    using n by fastforce
  then show "bit (of_be32 (be32 v)) n = bit v n"
    by cases (auto simp: of_be32_def be32_def bit_simps)
qed

lemma pickle_u32_wr: "pickle_u32 m pos v = (wr m pos (be32 v), pos + 4)"
proof -
  have "fst (pickle_u32 m pos v) i = wr m pos (be32 v) i" for i
    by (auto simp: pickle_u32_def Let_def numeral_eq_Suc wr_def be32_def nth_Cons' fun_upd_def
        diff_Suc split: nat.splits)
  then show ?thesis
    by (simp add: pickle_u32_def Let_def numeral_eq_Suc prod_eq_iff fun_eq_iff)
qed

lemma unpickle_u32_eq:
  "unpickle_u32 m pos end old =
     (if end < pos + 4 then (end, 0) else (pos + 4, of_be32 (rd m pos 4)))"
proof -
  have "unpickle_u32_loop n m pos v =
        (pos + n, foldl (\<lambda>v b. push_bit 8 v OR ucast b) v (rd m pos n))" for n v
    by (induction n arbitrary: pos v) (simp_all add: rd_Suc)
  then show ?thesis by (simp add: unpickle_u32_def of_be32_def)
qed

interpretation u32: pickler pickle_u32_length pickle_u32 unpickle_u32 be32 "\<lambda>_. True" "\<lambda>_. True" id
  by unfold_locales (auto simp: pickle_u32_length_def pickle_u32_wr unpickle_u32_eq stored_rd)

interpretation bool: pickler pickle_bool_length pickle_bool unpickle_bool
  "\<lambda>b. [if b then 1 else 0]" "\<lambda>_. True" "\<lambda>_. True" id
  by unfold_locales
    (auto simp: pickle_bool_length_def pickle_bool_def unpickle_bool_def wr_single)

lemma pickle_int_bool_wr: "pickle_int_bool m pos v = (wr m pos [if v = 0 then 0 else 1], pos + 1)"
  by (simp add: pickle_int_bool_def pickle_bool_def wr_single)

lemma unpickle_bytes_pos: "pos + length bs \<le> end \<Longrightarrow>
   unpickle_bytes m pos end bs = (pos + length bs, rd m pos (length bs))"
  by (simp add: unpickle_bytes_def)

lemma length_unpickle_bytes [simp]: "length (snd (unpickle_bytes m pos end bs)) = length bs"
  by (simp add: unpickle_bytes_def)

lemma unpickle_bytes_bounds:
  "pos \<le> end \<Longrightarrow> pos \<le> fst (unpickle_bytes m pos end bs) \<and> fst (unpickle_bytes m pos end bs) \<le> end"
  by (simp add: unpickle_bytes_def)

interpretation curve_pub: pickler pickle_curve25519_public_key_length pickle_curve25519_public_key
  unpickle_curve25519_public_key id "\<lambda>k. length k = 32" "\<lambda>_. True" id
  by unfold_locales
    (auto simp: pickle_curve25519_public_key_length_def pickle_curve25519_public_key_def
      unpickle_curve25519_public_key_def pickle_bytes_def unpickle_bytes_def stored_rd)

definition wf_curve_pair :: "curve25519_key_pair \<Rightarrow> bool" where
  "wf_curve_pair k \<longleftrightarrow> length (c_public k) = 32 \<and> length (c_private k) = 32"

definition wf_ed_pair :: "ed25519_key_pair \<Rightarrow> bool" where
  "wf_ed_pair k \<longleftrightarrow> length (e_public k) = 32 \<and> length (e_private k) = 64"

interpretation curve_pair: pickler pickle_curve25519_key_pair_length pickle_curve25519_key_pair
  unpickle_curve25519_key_pair "\<lambda>k. c_public k @ c_private k" wf_curve_pair "\<lambda>_. True" id
  by unfold_locales
    (auto simp: pickle_curve25519_key_pair_length_def pickle_curve25519_key_pair_def wf_curve_pair_def
      unpickle_curve25519_key_pair_def pickle_bytes_def unpickle_bytes_def wr_append stored_rd add.assoc
      split: prod.splits)

interpretation ed_pub: pickler pickle_ed25519_public_key_length pickle_ed25519_public_key
  unpickle_ed25519_public_key id "\<lambda>k. length k = 32" "\<lambda>_. True" id
  by unfold_locales
    (auto simp: pickle_ed25519_public_key_length_def pickle_ed25519_public_key_def
      unpickle_ed25519_public_key_def pickle_bytes_def unpickle_bytes_def stored_rd)

interpretation ed_pair: pickler pickle_ed25519_key_pair_length pickle_ed25519_key_pair
  unpickle_ed25519_key_pair "\<lambda>k. e_public k @ e_private k" wf_ed_pair "\<lambda>_. True" id
  by unfold_locales
    (auto simp: pickle_ed25519_key_pair_length_def pickle_ed25519_key_pair_def wf_ed_pair_def
      unpickle_ed25519_key_pair_def pickle_bytes_def unpickle_bytes_def wr_append stored_rd add.assoc
      split: prod.splits)

section \<open>Lists of picklable elements\<close>

lemma stored_be32: "stored m pos (be32 v) \<Longrightarrow> of_be32 (rd m pos 4) = v"
  by (simp add: stored_rd)

definition list_enc :: "('a \<Rightarrow> bytes) \<Rightarrow> 'a olist \<Rightarrow> bytes" where
  "list_enc enc l = be32 (of_nat (ol_end l)) @ concat (map enc (items l))"

definition list_wf :: "('a \<Rightarrow> bool) \<Rightarrow> nat \<Rightarrow> 'a olist \<Rightarrow> bool" where
  "list_wf valid max_size l \<longleftrightarrow> ol_end l \<le> max_size \<and> (\<forall>i. valid (ol_data l i))"

definition list_view :: "('a \<Rightarrow> 'v) \<Rightarrow> 'a olist \<Rightarrow> 'v list" where
  "list_view view l = map view (items l)"

lemma list_wf_new: "list_wf valid max_size (ol_new d) \<longleftrightarrow> (\<forall>i. valid (d i))"
  by (simp add: list_wf_def ol_new_def)

lemma list_wf_set: "list_wf valid n l \<Longrightarrow> valid v \<Longrightarrow> list_wf valid n (ol_set l i v)"
  by (simp add: list_wf_def ol_set_def)

lemma list_wf_insert: "list_wf valid n l \<Longrightarrow> list_wf valid n (fst (ol_insert n l p))"
proof -
  have "(\<forall>i. valid (d i)) \<Longrightarrow> valid (insert_loop k d t i)" for k d t i
    by (induction k arbitrary: d t) auto
  then show "list_wf valid n l \<Longrightarrow> list_wf valid n (fst (ol_insert n l p))"
    by (auto simp: list_wf_def ol_insert_def Let_def)
qed

lemma list_wf_insert_value:
  assumes "list_wf valid n l" "valid v"
  shows "list_wf valid n (fst (ol_insert_value n l p v))"
proof -
  obtain l' q where l': "ol_insert n l p = (l', q)" by fastforce
  then have "list_wf valid n l'" using list_wf_insert [OF assms(1), of p] by simp
  from list_wf_set [OF this assms(2)] show ?thesis by (simp add: ol_insert_value_def l')
qed

lemma list_wf_erase: "list_wf valid n l \<Longrightarrow> list_wf valid n (ol_erase l p)"
proof -
  have "(\<forall>i. valid (d i)) \<Longrightarrow> valid (erase_loop k d t i)" for k d t i
    by (induction k arbitrary: d t) auto
  then show "list_wf valid n l \<Longrightarrow> list_wf valid n (ol_erase l p)"
    by (auto simp: list_wf_def ol_erase_def Let_def)
qed

lemma list_wf_items: "list_wf valid n l \<Longrightarrow> x \<in> set (items l) \<Longrightarrow> valid x"
  by (auto simp: list_wf_def items_def)

lemma ol_insert_at_end:
  "ol_end l < max_size \<Longrightarrow> ol_insert max_size l (ol_end l) = (l\<lparr>ol_end := Suc (ol_end l)\<rparr>, ol_end l)"
  by (simp add: ol_insert_def)

lemma items_append_slot:
  "items (ol_set (l\<lparr>ol_end := Suc (ol_end l)\<rparr>) (ol_end l) v) = items l @ [v]"
  by (simp add: items_def ol_set_def)

locale list_pickler = pickler pk_length pk unpk enc valid fresh view
  for pk_length :: "'a \<Rightarrow> nat"
    and pk :: "mem \<Rightarrow> addr \<Rightarrow> 'a \<Rightarrow> mem \<times> addr"
    and unpk :: "mem \<Rightarrow> addr \<Rightarrow> addr \<Rightarrow> 'a \<Rightarrow> addr \<times> 'a"
    and enc :: "'a \<Rightarrow> bytes"
    and valid :: "'a \<Rightarrow> bool"
    and fresh :: "'a \<Rightarrow> bool"
    and view :: "'a \<Rightarrow> 'v" +
  fixes max_size :: nat
  assumes fresh: "fresh v"
    and enc_nonempty: "valid v \<Longrightarrow> enc v \<noteq> []"
    and max_size: "0 < max_size" "max_size < 2 ^ 32"
begin

lemma foldl_length:
  "\<forall>x\<in>set xs. valid x \<Longrightarrow> foldl (\<lambda>n v. n + pk_length v) n xs = n + length (concat (map enc xs))"
  by (induction xs arbitrary: n) (simp_all add: pk_length)

lemma foldl_pk:
  "\<forall>x\<in>set xs. valid x \<Longrightarrow> foldl (\<lambda>(m, pos) v. pk m pos v) (m, pos) xs =
     (wr m pos (concat (map enc xs)), pos + length (concat (map enc xs)))"
  by (induction xs arbitrary: m pos) (simp_all add: pk wr_append add.assoc)

lemma unpickle_loop_enc:
  assumes "\<forall>x\<in>set xs. valid x" "list_wf valid max_size l" "ol_end l + length xs \<le> max_size"
    "stored m pos (concat (map enc xs))" "pos + length (concat (map enc xs)) \<le> end"
  shows "fst (unpickle_list_loop (length xs) unpk max_size m pos end l) =
           pos + length (concat (map enc xs)) \<and>
         list_view view (snd (unpickle_list_loop (length xs) unpk max_size m pos end l)) =
           list_view view l @ map view xs"
  using assms
proof (induction xs arbitrary: pos l)
  case (Cons x xs)
  let ?l = "l\<lparr>ol_end := Suc (ol_end l)\<rparr>"
  let ?old = "ol_nth ?l (ol_end l)"
  have old: "valid ?old" using Cons.prems(2) by (simp add: list_wf_def ol_nth_def)
  have x: "valid x" "stored m pos (enc x)" "pos + length (enc x) \<le> end" using Cons.prems by simp_all
  have ins: "ol_insert max_size l (ol_end l) = (?l, ol_end l)"
    by (rule ol_insert_at_end) (use Cons.prems in simp)
  obtain pos' v where unpk: "unpk m pos end ?old = (pos', v)" by fastforce
  then have v: "pos' = pos + length (enc x)" "view v = view x" "valid v"
    using unpk_pos [OF x(1) old fresh x(2,3)] unpk_view [OF x(1) old fresh x(2,3)]
      unpk_valid [OF old, of m pos "end"] by simp_all
  obtain L where L: "L = ol_set ?l (ol_end l) v" by simp
  have "list_wf valid max_size L"
    using Cons.prems v(3) unfolding L by (simp add: list_wf_def ol_set_def)
  moreover have "list_view view L = list_view view l @ [view x]"
    by (simp add: L list_view_def items_append_slot v(2))
  moreover have "ol_end L = Suc (ol_end l)" by (simp add: L ol_set_def)
  moreover have "pos \<noteq> end" using x(3) enc_nonempty [OF x(1)] by auto
  then have "unpickle_list_loop (length (x # xs)) unpk max_size m pos end l =
      unpickle_list_loop (length xs) unpk max_size m (pos + length (enc x)) end L"
    by (simp add: ins unpk v(1) L)
  ultimately show ?case
    using Cons.prems Cons.IH [of L "pos + length (enc x)"] by (simp add: add.assoc)
qed simp

lemma unpickle_loop_wf:
  "list_wf valid max_size l \<Longrightarrow>
   list_wf valid max_size (snd (unpickle_list_loop n unpk max_size m pos end l))"
proof (induction n arbitrary: pos l)
  case (Suc n)
  obtain l' p where l': "ol_insert max_size l (ol_end l) = (l', p)" by fastforce
  have valid': "list_wf valid max_size l'" using list_wf_insert [OF Suc.prems, of "ol_end l"] l' by simp
  obtain pos' v where v: "unpk m pos end (ol_nth l' p) = (pos', v)" by fastforce
  have "valid v" using unpk_valid [of "ol_nth l' p" m pos "end"] v valid' by (simp add: list_wf_def ol_nth_def)
  then show ?case using Suc.IH [OF list_wf_set [OF valid']] Suc.prems by (simp add: l' v)
qed simp

lemma unpickle_loop_bounds:
  "list_wf valid max_size l \<Longrightarrow> pos \<le> end \<Longrightarrow>
   pos \<le> fst (unpickle_list_loop n unpk max_size m pos end l) \<and>
   fst (unpickle_list_loop n unpk max_size m pos end l) \<le> end"
proof (induction n arbitrary: pos l)
  case (Suc n)
  obtain l' p where l': "ol_insert max_size l (ol_end l) = (l', p)" by fastforce
  have valid': "list_wf valid max_size l'"
    using list_wf_insert [OF Suc.prems(1), of "ol_end l"] l' by simp
  then have old: "valid (ol_nth l' p)" by (simp add: list_wf_def ol_nth_def)
  obtain pos' v where v: "unpk m pos end (ol_nth l' p) = (pos', v)" by fastforce
  have "valid v" using unpk_valid [OF old, of m pos "end"] v by simp
  moreover have "pos \<le> pos'" "pos' \<le> end"
    using unpk_bounds [OF old Suc.prems(2), where m = m] v by simp_all
  ultimately show ?case using Suc.IH [OF list_wf_set [OF valid'], of v pos' p] by (auto simp: l' v)
qed simp

lemma list_contract:
  "pickler (pickle_list_length pk_length) (pickle_list pk) (unpickle_list unpk max_size)
     (list_enc enc) (list_wf valid max_size) (\<lambda>l. ol_end l = 0) (list_view view)"
proof unfold_locales
  fix v old :: "'a olist" and m and pos "end" :: addr
  assume v: "list_wf valid max_size v"
  have all: "\<forall>x\<in>set (items v). valid x" using v by (auto intro: list_wf_items)
  show "pickle_list_length pk_length v = length (list_enc enc v)"
    by (simp add: pickle_list_length_def foldl_length [OF all] list_enc_def pickle_u32_length_def)
  show "pickle_list pk m pos v = (wr m pos (list_enc enc v), pos + length (list_enc enc v))"
    by (simp add: pickle_list_def foldl_pk [OF all] list_enc_def pickle_u32_wr wr_append add.assoc
        ol_size_def)
  assume old: "list_wf valid max_size old" "ol_end old = 0"
    and st: "stored m pos (list_enc enc v)" and len: "pos + length (list_enc enc v) \<le> end"
  have size: "unat (of_nat (ol_end v) :: u32) = length (items v)"
    using v max_size by (simp add: list_wf_def unsigned_of_nat take_bit_nat_eq_self)
  have u: "unpickle_u32 m pos end 0 = (pos + 4, of_nat (ol_end v))"
    using st len by (auto simp: unpickle_u32_eq list_enc_def dest: stored_be32)
  have "stored m (pos + 4) (concat (map enc (items v)))"
       "pos + 4 + length (concat (map enc (items v))) \<le> end"
    using st len by (simp_all add: list_enc_def)
  from unpickle_loop_enc [OF all old(1) _ this]
  have "fst (unpickle_list unpk max_size m pos end old) = pos + length (list_enc enc v) \<and>
    list_view view (snd (unpickle_list unpk max_size m pos end old)) =
    list_view view old @ map view (items v)"
    using v old(2) by (simp add: unpickle_list_def u size list_enc_def list_wf_def)
  then show "fst (unpickle_list unpk max_size m pos end old) = pos + length (list_enc enc v)"
    "list_view view (snd (unpickle_list unpk max_size m pos end old)) = list_view view v"
    using old(2) by (simp_all add: list_view_def items_def)
next
  fix old m pos "end" assume "list_wf valid max_size old"
  then show "list_wf valid max_size (snd (unpickle_list unpk max_size m pos end old))"
    by (simp add: unpickle_list_def unpickle_loop_wf split: prod.split)
next
  fix old :: "'a olist" and m and pos "end" :: addr
  assume a: "list_wf valid max_size old" "pos \<le> end"
  obtain pos' n where u: "unpickle_u32 m pos end 0 = (pos', n)" by fastforce
  then have "pos \<le> pos' \<and> pos' \<le> end" using u32.unpk_bounds [OF _ a(2), where m = m and old = 0] by simp
  then show "pos \<le> fst (unpickle_list unpk max_size m pos end old) \<and>
    fst (unpickle_list unpk max_size m pos end old) \<le> end"
    using unpickle_loop_bounds [OF a(1), of pos' "end" "unat n" m]
    by (auto simp: unpickle_list_def u)
qed

end

end
