(* ===== verification/Megolm.thy ===== *)
theory Megolm
  imports Cipher Pickle
begin

text \<open>
  \<open>src/megolm.c\<close>: the Megolm ratchet, four 32 byte parts and a counter.  A step rehashes the parts
  from the one that corresponds to the highest byte of the counter that changes; \<open>megolm_advance_to\<close>
  reaches any later counter with at most 256 rehashes per part.  The main lemma is that this equals
  stepping one by one, wrap-around of the counter included.
\<close>

definition MEGOLM_CIPHER :: aes_sha_256_cipher where
  "MEGOLM_CIPHER = \<lparr>kdf_info = cstr ''MEGOLM_KEYS''\<rparr>"

record Megolm =
  mg_data :: "bytes list"
  mg_counter :: u32

definition megolm_get_data :: "Megolm \<Rightarrow> bytes" where
  "megolm_get_data megolm = concat (mg_data megolm)"

text \<open>128 bytes as the array of four parts.\<close>

definition ratchet_parts :: "bytes \<Rightarrow> bytes list" where
  "ratchet_parts bs = map (\<lambda>i. take 32 (drop (32 * i) bs)) [0..<4]"

definition HASH_KEY_SEEDS :: "bytes list" where
  "HASH_KEY_SEEDS = [[0x00], [0x01], [0x02], [0x03]]"

definition rehash_part :: "bytes list \<Rightarrow> nat \<Rightarrow> nat \<Rightarrow> bytes list" where
  "rehash_part data rehash_from_part rehash_to_part =
     data[rehash_to_part := crypto_hmac_sha256 (data ! rehash_from_part)
                              (HASH_KEY_SEEDS ! rehash_to_part)]"

definition megolm_init :: "bytes \<Rightarrow> u32 \<Rightarrow> Megolm" where
  "megolm_init random_data counter =
     \<lparr>mg_data = ratchet_parts (take 128 random_data), mg_counter = counter\<rparr>"

definition megolm_pickle_length :: "Megolm \<Rightarrow> nat" where
  "megolm_pickle_length megolm = 128 + 4"

definition megolm_pickle :: "mem \<Rightarrow> addr \<Rightarrow> Megolm \<Rightarrow> mem \<times> addr" where
  "megolm_pickle m pos megolm =
     (let (m, pos) = pickle_bytes m pos (megolm_get_data megolm)
      in pickle_u32 m pos (mg_counter megolm))"

definition megolm_unpickle :: "mem \<Rightarrow> addr \<Rightarrow> addr \<Rightarrow> Megolm \<Rightarrow> addr \<times> Megolm" where
  "megolm_unpickle m pos end megolm =
     (let (pos, data) = unpickle_bytes m pos end (megolm_get_data megolm);
          megolm = megolm\<lparr>mg_data := ratchet_parts data\<rparr>;
          (pos, counter) = unpickle_u32 m pos end (mg_counter megolm)
      in (pos, megolm\<lparr>mg_counter := counter\<rparr>))"

text \<open>\<open>while (h < 4) { if (!(counter & mask)) break; h++; mask >>= 8; }\<close>\<close>

function rekey_level :: "u32 \<Rightarrow> nat \<Rightarrow> u32 \<Rightarrow> nat" where
  "rekey_level counter h msk =
     (if h < 4 then
        if counter AND msk = 0 then h else rekey_level counter (h + 1) (drop_bit 8 msk)
      else h)"
  by pat_completeness auto
termination
  by (relation "measure (\<lambda>(_, h, _). 4 - h)") auto

declare rekey_level.simps [simp del]

definition megolm_advance :: "Megolm \<Rightarrow> Megolm" where
  "megolm_advance megolm =
     (let megolm = megolm\<lparr>mg_counter := mg_counter megolm + 1\<rparr>;
          h = rekey_level (mg_counter megolm) 0 0x00FFFFFF
      in megolm\<lparr>mg_data := foldl (\<lambda>data i. rehash_part data h i) (mg_data megolm) (rev [h..<4])\<rparr>)"

text \<open>\<open>while (steps > 1) { rehash_part(data, j, j); steps--; }\<close>\<close>

primrec rehash_self :: "nat \<Rightarrow> nat \<Rightarrow> bytes list \<Rightarrow> bytes list" where
  "rehash_self 0 j data = data"
| "rehash_self (Suc n) j data = rehash_self n j (rehash_part data j j)"

definition advance_to_part :: "u32 \<Rightarrow> Megolm \<Rightarrow> nat \<Rightarrow> Megolm" where
  "advance_to_part advance_to megolm j =
     (let shift = (4 - j - 1) * 8;
          msk = push_bit shift (NOT 0) :: u32;
          steps = (drop_bit shift advance_to - drop_bit shift (mg_counter megolm)) AND 0xff;
          n = (if steps = 0 then if advance_to < mg_counter megolm then 0x100 else 0
               else unat steps)
      in if n = 0 then megolm
         else
           let data = rehash_self (n - 1) j (mg_data megolm);
               data = foldl (\<lambda>data k. rehash_part data j k) data (rev [j..<4])
           in \<lparr>mg_data = data, mg_counter = advance_to AND msk\<rparr>)"

definition megolm_advance_to :: "Megolm \<Rightarrow> u32 \<Rightarrow> Megolm" where
  "megolm_advance_to megolm advance_to = foldl (advance_to_part advance_to) megolm [0..<4]"

definition wf_megolm :: "Megolm \<Rightarrow> bool" where
  "wf_megolm megolm \<longleftrightarrow> length (mg_data megolm) = 4 \<and> (\<forall>p \<in> set (mg_data megolm). length p = 32)"

section \<open>Advancing\<close>

definition part_hash :: "nat \<Rightarrow> bytes \<Rightarrow> bytes" where
  "part_hash k x = crypto_hmac_sha256 x [of_nat k]"

text \<open>What a rekey of level \<open>j\<close> makes of the parts.\<close>

definition jump :: "nat \<Rightarrow> bytes list \<Rightarrow> bytes list" where
  "jump j data = map (\<lambda>k. if k < j then data ! k else part_hash k (data ! j)) [0..<4]"

lemma length_jump [simp]: "length (jump j data) = 4"
  by (simp add: jump_def)

lemma nth_jump: "k < 4 \<Longrightarrow> jump j data ! k = (if k < j then data ! k else part_hash k (data ! j))"
  by (simp add: jump_def)

lemma jump_cong: "(\<And>k. k \<le> j \<Longrightarrow> data ! k = data' ! k) \<Longrightarrow> jump j data = jump j data'"
  by (simp add: jump_def)

lemma rehash_part_eq:
  "k < 4 \<Longrightarrow> rehash_part data j k = data[k := part_hash k (data ! j)]"
  by (auto simp: rehash_part_def part_hash_def HASH_KEY_SEEDS_def
      less_Suc_eq numeral_eq_Suc)

lemma rehash_down:
  assumes "length data = 4" "j < 4"
  shows "foldl (\<lambda>data k. rehash_part data j k) data (rev [j..<4]) = jump j data"
proof -
  obtain a b c d where data: "data = [a, b, c, d]"
    using assms(1) by (auto simp: length_Suc_conv numeral_eq_Suc)
  consider "j = 0" | "j = 1" | "j = 2" | "j = 3" using assms(2) by linarith
  then show ?thesis
    by cases (simp_all add: data jump_def rehash_part_eq upt_rec numeral_eq_Suc)
qed

lemma rehash_self_eq:
  "j < 4 \<Longrightarrow> length data = 4 \<Longrightarrow> rehash_self n j data = data[j := (part_hash j ^^ n) (data ! j)]"
  by (induction n arbitrary: data) (simp_all add: rehash_part_eq funpow_swap1)

text \<open>The counter as a number without wrap-around; part \<open>j\<close> changes at the multiples of \<open>period j\<close>.\<close>

definition period :: "nat \<Rightarrow> nat" where
  "period j = 2 ^ (8 * (3 - j))"

definition level :: "nat \<Rightarrow> nat" where
  "level n = (if period 0 dvd n then 0 else if period 1 dvd n then 1 else if period 2 dvd n then 2 else 3)"

lemma period_simps: "period 0 = 16777216" "period (Suc 0) = 65536" "period 2 = 256" "period 3 = 1"
  by (simp_all add: period_def)

lemma period_pos [simp]: "0 < period j"
  by (simp add: period_def)

lemma period_Suc: "j < 3 \<Longrightarrow> period j = 256 * period (Suc j)"
proof -
  assume "j < 3"
  then consider "j = 0" | "j = 1" | "j = 2" by linarith
  then show ?thesis by cases (simp_all add: period_def)
qed

lemma level_less: "level n < 4"
  by (simp add: level_def)

lemma level_above: "j < 4 \<Longrightarrow> \<not> period j dvd n \<Longrightarrow> j < level n"
proof -
  assume j: "j < 4" "\<not> period j dvd n"
  have chain: "period 2 dvd period 1" "period 1 dvd period 0" "period 2 dvd period 0"
    by (simp_all add: period_simps)
  consider "j = 0" | "j = 1" | "j = 2" | "j = 3" using j(1) by linarith
  then show ?thesis
    using j(2) chain by cases (auto simp: level_def period_simps(4) dest: dvd_trans)
qed

lemma level_exact:
  assumes "j < 4" "period j dvd n" "j = 0 \<or> \<not> period (j - 1) dvd n"
  shows "level n = j"
proof -
  have chain: "period 1 dvd period 0" "period 2 dvd period 1"
    by (simp_all add: period_simps)
  consider "j = 0" | "j = 1" | "j = 2" | "j = 3" using assms(1) by linarith
  then show ?thesis
    using assms(2,3) chain by cases (auto simp: level_def dest: dvd_trans)
qed

lemma and_mask_dvd: "(w :: u32) AND mask k = 0 \<longleftrightarrow> 2 ^ k dvd unat w"
proof -
  have "w AND mask k = take_bit k w" by (simp add: take_bit_eq_mask)
  also have "\<dots> = 0 \<longleftrightarrow> take_bit k (unat w) = 0"
    by (metis unsigned_0 unsigned_take_bit_eq unsigned_word_eqI)
  also have "\<dots> \<longleftrightarrow> 2 ^ k dvd unat w" by (simp add: take_bit_eq_mod dvd_eq_mod_eq_0)
  finally show ?thesis .
qed

lemma rekey_level_eq: "rekey_level c 0 0x00FFFFFF = level (unat c)"
proof -
  have m: "(0x00FFFFFF :: u32) = mask 24" "(0xFFFF :: u32) = mask 16" "(0xFF :: u32) = mask 8"
    by (simp_all add: mask_eq_exp_minus_1)
  have d: "drop_bit 8 (0xFFFFFF :: u32) = 0xFFFF" "drop_bit 8 (0xFFFF :: u32) = 0xFF"
    "drop_bit 8 (0xFF :: u32) = 0"
    by simp_all
  show ?thesis
    by (subst rekey_level.simps, subst rekey_level.simps, subst rekey_level.simps,
        subst rekey_level.simps)
      (simp only: d, simp add: m and_mask_dvd level_def period_def)
qed

lemma period_dvd_mod: "period j dvd n mod 2 ^ 32 \<longleftrightarrow> period j dvd n"
  unfolding period_def by (intro dvd_mod_iff le_imp_power_dvd) simp

lemma unat_of_nat_u32: "unat (of_nat n :: u32) = n mod 2 ^ 32"
  by (simp add: unsigned_of_nat take_bit_eq_mod)

lemma level_word: "level (unat (of_nat n :: u32)) = level n"
  unfolding level_def unat_of_nat_u32 period_dvd_mod ..

text \<open>Stepping from the number \<open>T\<close>.\<close>

primrec steps_from :: "nat \<Rightarrow> nat \<Rightarrow> bytes list \<Rightarrow> bytes list" where
  "steps_from T 0 data = data"
| "steps_from T (Suc n) data = jump (level (T + Suc n)) (steps_from T n data)"

lemma length_steps_from [simp]: "length data = 4 \<Longrightarrow> length (steps_from T n data) = 4"
  by (induction n) simp_all

lemma steps_from_add: "steps_from T (a + b) data = steps_from (T + a) b (steps_from T a data)"
  by (induction b) (simp_all add: add.assoc)

lemma advance_steps:
  "length data = 4 \<Longrightarrow>
   (megolm_advance ^^ n) \<lparr>mg_data = data, mg_counter = of_nat T\<rparr> =
   \<lparr>mg_data = steps_from T n data, mg_counter = of_nat (T + n)\<rparr>"
proof (induction n)
  case (Suc n)
  have "level (unat (of_nat (T + n) + 1 :: u32)) = level (T + Suc n)"
    using level_word [of "T + Suc n"] by (simp add: add.commute)
  then show ?case
    using Suc by (simp add: megolm_advance_def Let_def rekey_level_eq rehash_down level_less add.commute)
qed simp

lemma steps_keep:
  assumes "\<And>i. 0 < i \<Longrightarrow> i \<le> n \<Longrightarrow> \<not> period j dvd T + i" "k \<le> j" "j < 4"
  shows "steps_from T n data ! k = data ! k"
  using assms
proof (induction n)
  case (Suc n)
  have "j < level (T + Suc n)"
    by (rule level_above [OF Suc.prems(3) Suc.prems(1)]) simp_all
  then show ?case using Suc by (simp add: nth_jump)
qed simp

lemma steps_block:
  assumes "j < 4" "period j dvd T + d" "0 < d" "d \<le> period j" "j = 0 \<or> \<not> period (j - 1) dvd T + d"
  shows "steps_from T d data = jump j data"
proof -
  obtain n where d: "d = Suc n" using assms(3) by (cases d) auto
  have "\<not> period j dvd T + i" if i: "0 < i" "i \<le> n" for i
  proof
    assume "period j dvd T + i"
    then have "period j dvd (T + d) - (T + i)" using assms(2) by (rule dvd_diff_nat [rotated])
    then have "period j dvd d - i" by simp
    then have "period j \<le> d - i" using i d by (intro dvd_imp_le) auto
    then show False using i d assms(4) by simp
  qed
  then have "steps_from T n data ! k = data ! k" if "k \<le> j" for k
    using steps_keep [OF _ that assms(1)] by blast
  then show ?thesis
    using level_exact [OF assms(1,2,5)] by (simp add: d) (rule jump_cong)
qed

lemma steps_blocks:
  assumes "j < 4" "period j dvd T + d" "0 < d" "d \<le> period j" "length data = 4"
    "\<And>i. i \<le> n \<Longrightarrow> j = 0 \<or> \<not> period (j - 1) dvd T + d + i * period j"
  shows "steps_from T (d + n * period j) data = jump j (rehash_self n j data)"
  using assms(6)
proof (induction n)
  case 0
  then show ?case using steps_block [OF assms(1-4)] by simp
next
  case (Suc n)
  have "steps_from T (d + Suc n * period j) data =
      steps_from (T + (d + n * period j)) (period j) (steps_from T (d + n * period j) data)"
    unfolding steps_from_add [symmetric] by (simp add: algebra_simps)
  also have "steps_from T (d + n * period j) data = jump j (rehash_self n j data)"
    by (rule Suc.IH) (use Suc.prems in auto)
  also have "steps_from (T + (d + n * period j)) (period j) (jump j (rehash_self n j data)) =
      jump j (jump j (rehash_self n j data))"
  proof (rule steps_block)
    have "T + (d + n * period j) + period j = (T + d) + Suc n * period j" by simp
    then show "period j dvd T + (d + n * period j) + period j"
      using assms(2) by (metis dvd_add dvd_triv_right)
    show "j = 0 \<or> \<not> period (j - 1) dvd T + (d + n * period j) + period j"
      using Suc.prems [of "Suc n"] by (simp add: add.assoc add.commute add.left_commute)
  qed (simp_all add: assms(1))
  also have "\<dots> = jump j (rehash_self (Suc n) j data)"
    by (rule nth_equalityI)
      (use assms(1,5) in \<open>simp_all add: nth_jump rehash_self_eq del: rehash_self.simps\<close>)
  finally show ?case .
qed

lemma wf_advance: "wf_megolm mg \<Longrightarrow> wf_megolm (megolm_advance mg)"
proof -
  assume wf: "wf_megolm mg"
  have "wf_megolm (mg\<lparr>mg_counter := c, mg_data := jump (level n) (mg_data mg)\<rparr>)" for c n
    using wf by (auto simp: wf_megolm_def jump_def part_hash_def)
  with wf show ?thesis
    by (simp add: megolm_advance_def Let_def rekey_level_eq wf_megolm_def rehash_down level_less)
qed

lemma period_dvd_32: "j < 4 \<Longrightarrow> 256 * period j dvd 2 ^ 32"
proof -
  assume "j < 4"
  then consider "j = 0" | "j = 1" | "j = 2" | "j = 3" by linarith
  then show ?thesis by cases (simp_all add: period_def)
qed

lemma take_8_diff: "take_bit 8 (a - b :: u32) = take_bit 8 (take_bit 8 a - take_bit 8 b)"
  by transfer (simp add: take_bit_diff)

lemma drop_bit_period:
  "j < 4 \<Longrightarrow> take_bit 8 (drop_bit ((4 - j - 1) * 8) (of_nat t :: u32)) = take_bit 8 (of_nat (t div period j))"
proof (rule bit_word_eqI)
  fix n assume j: "j < 4" and n: "n < LENGTH(32)"
  have "t div period j = drop_bit ((4 - j - 1) * 8) t"
    using j by (simp add: period_def drop_bit_eq_div mult.commute diff_Suc_1 diff_right_commute)
  then show "bit (take_bit 8 (drop_bit ((4 - j - 1) * 8) (of_nat t :: u32))) n =
    bit (take_bit 8 (of_nat (t div period j) :: u32)) n"
    using j n by (auto simp: bit_simps)
qed

lemma steps_byte:
  assumes "j < 4" "T \<le> t"
  shows "unat ((drop_bit ((4 - j - 1) * 8) (of_nat t) - drop_bit ((4 - j - 1) * 8) (of_nat T)) AND 0xff :: u32)
    = (t div period j - T div period j) mod 256"
proof -
  let ?d = "\<lambda>x. drop_bit ((4 - j - 1) * 8) (of_nat x) :: u32"
  have "(?d t - ?d T) AND 0xff = take_bit 8 (?d t - ?d T)"
    by (simp add: take_bit_eq_mask mask_eq_exp_minus_1)
  also have "\<dots> = take_bit 8 (of_nat (t div period j) - of_nat (T div period j))"
    by (subst (1 2) take_8_diff) (simp only: drop_bit_period [OF assms(1)])
  also have "\<dots> = take_bit 8 (of_nat (t div period j - T div period j))"
    using assms(2) by (simp add: div_le_mono of_nat_diff)
  finally have e: "(?d t - ?d T) AND 0xff = take_bit 8 (of_nat (t div period j - T div period j))" .
  show ?thesis
    unfolding e unsigned_take_bit_eq unat_of_nat_u32
    by (simp add: take_bit_eq_mod mod_mod_cancel)
qed

lemma clear_low_bits:
  "j < 4 \<Longrightarrow> (of_nat t :: u32) AND push_bit ((4 - j - 1) * 8) (NOT 0) = of_nat (t div period j * period j)"
proof (rule bit_word_eqI)
  fix n assume j: "j < 4" and n: "n < LENGTH(32)"
  have "t div period j * period j = push_bit ((4 - j - 1) * 8) (drop_bit ((4 - j - 1) * 8) t)"
    using j by (simp add: period_def drop_bit_eq_div push_bit_eq_mult mult.commute diff_right_commute)
  then show "bit ((of_nat t :: u32) AND push_bit ((4 - j - 1) * 8) (NOT 0)) n =
    bit (of_nat (t div period j * period j) :: u32) n"
    using j n by (auto simp: bit_simps)
qed

lemma of_nat_less_same_block:
  assumes "T div period 0 = t div period 0"
  shows "(of_nat t :: u32) < of_nat T \<longleftrightarrow> t < T"
proof -
  have m: "x mod 2 ^ 32 = period 0 * (x div period 0 mod 256) + x mod period 0" for x
    using mod_mult2_eq [of x "period 0" 256] by (simp add: period_def)
  have x: "x = period 0 * (x div period 0) + x mod period 0" for x by simp
  have "t mod 2 ^ 32 < T mod 2 ^ 32 \<longleftrightarrow> t mod period 0 < T mod period 0"
    by (simp only: m assms add_less_cancel_left)
  also have "\<dots> \<longleftrightarrow> t < T"
    by (metis x assms add_less_cancel_left)
  finally show ?thesis unfolding word_less_nat_alt unat_of_nat_u32 .
qed

text \<open>How many times part \<open>j\<close> is rehashed: once for every multiple of its period that is passed.\<close>

lemma steps_wrapped:
  assumes "T \<le> t" "t < T + 2 ^ 32" "t div period 0 - T div period 0 = 256"
  shows "(of_nat t :: u32) < of_nat T"
proof -
  have m: "x mod 2 ^ 32 = period 0 * (x div period 0 mod 256) + x mod period 0" for x
    using mod_mult2_eq [of x "period 0" 256] by (simp add: period_def)
  have x: "x = period 0 * (x div period 0) + x mod period 0" for x by simp
  have d: "t div period 0 = T div period 0 + 256" using assms(3) by simp
  have "period 0 * (T div period 0 + 256) + t mod period 0 = t" using x [of t] d by simp
  then have "period 0 * (T div period 0) + 2 ^ 32 + t mod period 0 = t"
    by (simp add: add_mult_distrib2 period_def)
  then have "t mod period 0 < T mod period 0" using x [of T] assms(2) by linarith
  then show ?thesis
    unfolding word_less_nat_alt unat_of_nat_u32 m d by simp
qed

lemma advance_to_part_steps:
  assumes "j < 4" "length data = 4" "T \<le> t"
    "if j = 0 then t < T + 2 ^ 32 else T div period (j - 1) = t div period (j - 1)"
  shows "advance_to_part (of_nat t) \<lparr>mg_data = data, mg_counter = of_nat T\<rparr> j =
    (let T' = (if t div period j = T div period j then T else t div period j * period j)
     in \<lparr>mg_data = steps_from T (T' - T) data, mg_counter = of_nat T'\<rparr>)"
proof -
  let ?P = "period j"
  let ?a = "t div ?P" and ?b = "T div ?P"
  let ?s = "(drop_bit ((4 - j - 1) * 8) (of_nat t) - drop_bit ((4 - j - 1) * 8) (of_nat T)) AND 0xff :: u32"
  have us: "unat ?s = (?a - ?b) mod 256" by (rule steps_byte [OF assms(1,3)])
  have ab: "?b \<le> ?a" using assms(3) by (rule div_le_mono)
  have block: "T div period 0 = t div period 0" if "j \<noteq> 0 \<or> ?a = ?b"
  proof (cases "j = 0")
    case False
    have "j = 1 \<or> j = 2 \<or> j = 3" using False assms(1) by linarith
    then have "period 0 = period (j - 1) * 2 ^ (8 * (j - 1))"
      by (auto simp: period_def)
    then show ?thesis using assms(4) False by (simp add: div_mult2_eq)
  qed (use that in auto)
  have n: "(if ?s = 0 then if (of_nat t :: u32) < of_nat T then 0x100 else 0 else unat ?s) = ?a - ?b"
  proof (cases "j = 0 \<and> ?a - ?b = 256")
    case True
    then have "unat ?s = 0" "(of_nat t :: u32) < of_nat T"
      using us steps_wrapped [OF assms(3)] assms(4) by auto
    then have "(if ?s = 0 then if (of_nat t :: u32) < of_nat T then 0x100 else 0 else unat ?s) = 256"
      by (simp only: unat_eq_0 if_True refl)
    then show ?thesis unfolding conjunct2 [OF True] .
  next
    case False
    have "?a - ?b < 256"
    proof (cases "j = 0")
      case True
      have "t \<le> T + 256 * ?P" using assms(4) True by (simp add: period_def)
      then have "?a \<le> (T + 256 * ?P) div ?P" by (rule div_le_mono)
      then have "?a \<le> ?b + 256" by simp
      then show ?thesis using False True by linarith
    next
      case j: False
      have q: "period (j - 1) = ?P * 256" using j assms(1) period_Suc [of "j - 1"] by simp
      have "T div period (j - 1) = t div period (j - 1)" using assms(4) j by simp
      then have "?a div 256 = ?b div 256" unfolding q div_mult2_eq by simp
      then show ?thesis by linarith
    qed
    then have "unat ?s = ?a - ?b" using us by simp
    moreover have "\<not> (of_nat t :: u32) < of_nat T" if "?a = ?b"
      using of_nat_less_same_block [OF block] that assms(3) by simp
    ultimately show ?thesis using ab by (auto simp: unat_eq_0)
  qed
  show ?thesis
  proof (cases "?a = ?b")
    case True
    then show ?thesis
      unfolding advance_to_part_def Let_def Megolm.select_convs n by simp
  next
    case False
    obtain k where k: "?a = Suc (?b + k)" using ab False by (metis add_Suc_right le_neq_implies_less less_iff_Suc_add)
    let ?d = "Suc ?b * ?P - T"
    have T: "?b * ?P \<le> T" "T < Suc ?b * ?P"
      using dividend_less_div_times [OF period_pos, of T j] by simp_all
    have d: "0 < ?d" "?d \<le> ?P" "T + ?d = Suc ?b * ?P"
      using T unfolding mult_Suc by linarith+
    have total: "?a * ?P - T = ?d + k * ?P"
      using T unfolding k mult_Suc add_mult_distrib by linarith
    have "steps_from T (?d + k * ?P) data = jump j (rehash_self k j data)"
    proof (rule steps_blocks [OF assms(1) _ d(1,2) assms(2)])
      show "?P dvd T + ?d" unfolding d(3) by simp
      fix i assume i: "i \<le> k"
      show "j = 0 \<or> \<not> period (j - 1) dvd T + ?d + i * ?P"
      proof (cases "j = 0")
        case j: False
        have q: "period (j - 1) = 256 * ?P" using j assms(1) period_Suc [of "j - 1"] by simp
        have "T div period (j - 1) = t div period (j - 1)" using assms(4) j by simp
        then have bl: "?a div 256 = ?b div 256"
          unfolding q by (simp add: mult.commute [of 256] div_mult2_eq)
        have "\<not> 256 dvd Suc ?b + i"
        proof
          assume "256 dvd Suc ?b + i"
          then obtain x where x: "Suc ?b + i = 256 * x" by (rule dvdE)
          then have "?b < 256 * x" "256 * x \<le> ?a" using i k by linarith+
          then have "?b div 256 < x" "x \<le> ?a div 256" by (simp_all add: less_mult_imp_div_less mult.commute
                less_eq_div_iff_mult_less_eq)
          then show False using bl by simp
        qed
        then have "\<not> 256 * ?P dvd (Suc ?b + i) * ?P"
          unfolding dvd_times_right_cancel_iff [OF period_pos [THEN less_imp_neq, symmetric]] .
        then show ?thesis unfolding d(3) q add_mult_distrib by blast
      qed simp
    qed
    moreover have "?a - ?b - 1 = k" "?a - ?b \<noteq> 0" using k by simp_all
    ultimately show ?thesis
      using False assms(1,2) unfolding advance_to_part_def Let_def Megolm.select_convs n
        clear_low_bits [OF assms(1)]
      by (simp add: rehash_down rehash_self_eq total)
  qed
qed

lemma advance_to_parts:
  assumes "length data = 4" "T \<le> t" "n \<le> 4"
    "if n = 4 then t < T + 2 ^ 32 else T div period (3 - n) = t div period (3 - n)"
  shows "foldl (advance_to_part (of_nat t)) \<lparr>mg_data = data, mg_counter = of_nat T\<rparr> [4 - n..<4] =
     \<lparr>mg_data = steps_from T (t - T) data, mg_counter = of_nat t\<rparr>"
  using assms
proof (induction n arbitrary: T data)
  case 0
  then show ?case by (simp add: period_simps)
next
  case (Suc n)
  let ?j = "4 - Suc n"
  let ?T = "if t div period ?j = T div period ?j then T else t div period ?j * period ?j"
  have j: "?j < 4" "?j = 3 - n" "Suc ?j = 4 - n" using Suc.prems by simp_all
  then have list: "[4 - Suc n..<4] = ?j # [4 - n..<4]" by (metis upt_conv_Cons)
  have le: "t div period ?j * period ?j \<le> t" by simp
  have "T div period ?j \<le> t div period ?j" using Suc.prems by (intro div_le_mono)
  have "T \<le> ?T"
  proof (cases "t div period ?j = T div period ?j")
    case False
    then have "Suc (T div period ?j) * period ?j \<le> t div period ?j * period ?j"
      using \<open>T div period ?j \<le> t div period ?j\<close> by (intro mult_le_mono1) simp
    moreover have "T < Suc (T div period ?j) * period ?j"
      using dividend_less_div_times [OF period_pos, of T ?j] by simp
    ultimately show ?thesis using False by (simp only: if_False)
  qed simp
  have T: "T \<le> ?T" "?T \<le> t" using \<open>T \<le> ?T\<close> Suc.prems le by simp_all
  have "advance_to_part (of_nat t) \<lparr>mg_data = data, mg_counter = of_nat T\<rparr> ?j =
      \<lparr>mg_data = steps_from T (?T - T) data, mg_counter = of_nat ?T\<rparr>"
    using advance_to_part_steps [OF j(1) Suc.prems(1,2)] Suc.prems(3,4) by (auto simp: Let_def split: if_splits)
  moreover have "foldl (advance_to_part (of_nat t))
      \<lparr>mg_data = steps_from T (?T - T) data, mg_counter = of_nat ?T\<rparr> [4 - n..<4] =
      \<lparr>mg_data = steps_from ?T (t - ?T) (steps_from T (?T - T) data), mg_counter = of_nat t\<rparr>"
    by (rule Suc.IH) (use Suc.prems T j(2) in auto)
  moreover have "steps_from ?T (t - ?T) (steps_from T (?T - T) data) = steps_from T (t - T) data"
    using steps_from_add [of T "?T - T" "t - ?T" data] T by simp
  ultimately show ?case unfolding list by simp
qed

lemma advance_to_steps:
  assumes "wf_megolm mg"
  shows "megolm_advance_to mg advance_to = (megolm_advance ^^ unat (advance_to - mg_counter mg)) mg"
proof -
  let ?T = "unat (mg_counter mg)" and ?n = "unat (advance_to - mg_counter mg)"
  have mg: "mg = \<lparr>mg_data = mg_data mg, mg_counter = of_nat ?T\<rparr>" by simp
  have len: "length (mg_data mg) = 4" using assms by (simp add: wf_megolm_def)
  have to: "advance_to = of_nat (?T + ?n)" by simp
  have lt: "?n < 2 ^ 32" using unsigned_less [of "advance_to - mg_counter mg"] by simp
  have "megolm_advance_to mg advance_to =
    foldl (advance_to_part (of_nat (?T + ?n))) \<lparr>mg_data = mg_data mg, mg_counter = of_nat ?T\<rparr> [4 - 4..<4]"
    unfolding megolm_advance_to_def by (cases mg) simp
  also have "\<dots> = \<lparr>mg_data = steps_from ?T (?T + ?n - ?T) (mg_data mg), mg_counter = of_nat (?T + ?n)\<rparr>"
    by (rule advance_to_parts [OF len]) (use lt in simp_all)
  also have "\<dots> = (megolm_advance ^^ ?n) \<lparr>mg_data = mg_data mg, mg_counter = of_nat ?T\<rparr>"
    by (subst advance_steps [OF len]) simp
  finally show ?thesis unfolding mg [symmetric] .
qed

lemma ratchet_parts_4: "ratchet_parts bs =
    [take 32 bs, take 32 (drop 32 bs), take 32 (drop 64 bs), take 32 (drop 96 bs)]"
  by (simp add: ratchet_parts_def upt_rec numeral_eq_Suc)

lemma length_megolm_data [simp]: "wf_megolm mg \<Longrightarrow> length (megolm_get_data mg) = 128"
proof -
  assume wf: "wf_megolm mg"
  then obtain a b c d where "mg_data mg = [a, b, c, d]"
    by (auto simp: wf_megolm_def length_Suc_conv numeral_eq_Suc)
  with wf show ?thesis by (simp add: wf_megolm_def megolm_get_data_def)
qed

lemma ratchet_parts_data [simp]: "wf_megolm mg \<Longrightarrow> ratchet_parts (megolm_get_data mg) = mg_data mg"
proof -
  assume wf: "wf_megolm mg"
  then obtain a b c d where "mg_data mg = [a, b, c, d]"
    by (auto simp: wf_megolm_def length_Suc_conv numeral_eq_Suc)
  with wf show ?thesis by (simp add: wf_megolm_def megolm_get_data_def ratchet_parts_4)
qed

lemma concat_ratchet_parts [simp]: "length bs = 128 \<Longrightarrow> concat (ratchet_parts bs) = bs"
proof -
  assume "length bs = 128"
  then have "bs = take (32 + (32 + (32 + 32))) bs" by simp
  also have "\<dots> = take 32 bs @ take 32 (drop 32 bs) @ take 32 (drop 64 bs) @ take 32 (drop 96 bs)"
    by (simp only: take_add drop_drop append_assoc) simp
  finally have "take 32 bs @ take 32 (drop 32 bs) @ take 32 (drop 64 bs) @ take 32 (drop 96 bs) = bs" ..
  then show ?thesis by (simp add: ratchet_parts_4)
qed

lemma wf_ratchet_parts: "length bs = 128 \<Longrightarrow> wf_megolm \<lparr>mg_data = ratchet_parts bs, mg_counter = c\<rparr>"
  by (simp add: wf_megolm_def ratchet_parts_4)

lemma wf_megolm_init: "128 \<le> length r \<Longrightarrow> wf_megolm (megolm_init r c)"
  unfolding megolm_init_def by (rule wf_ratchet_parts) simp

lemma megolm_init_self: "wf_megolm mg \<Longrightarrow> megolm_init (megolm_get_data mg) (mg_counter mg) = mg"
  by (simp add: megolm_init_def)

lemma wf_advance_to: "wf_megolm mg \<Longrightarrow> wf_megolm (megolm_advance_to mg a)"
proof -
  assume "wf_megolm mg"
  then have "wf_megolm ((megolm_advance ^^ n) mg)" for n
    by (induction n) (simp_all add: wf_advance)
  then show ?thesis using \<open>wf_megolm mg\<close> by (simp add: advance_to_steps)
qed

lemma counter_advance_n: "wf_megolm mg \<Longrightarrow> mg_counter ((megolm_advance ^^ n) mg) = mg_counter mg + of_nat n"
  by (induction n) (simp_all add: megolm_advance_def Let_def)

lemma counter_advance_to: "wf_megolm mg \<Longrightarrow> mg_counter (megolm_advance_to mg a) = a"
  by (simp add: advance_to_steps counter_advance_n)

lemma advance_to_self: "wf_megolm mg \<Longrightarrow> megolm_advance_to mg (mg_counter mg) = mg"
  by (simp add: advance_to_steps)

lemma advance_to_advance:
  "wf_megolm mg \<Longrightarrow> megolm_advance_to mg (mg_counter mg + of_nat n) = (megolm_advance ^^ (n mod 2 ^ 32)) mg"
  by (simp add: advance_to_steps unat_of_nat_u32)

text \<open>Going to \<open>b\<close> by way of \<open>a\<close> is going to \<open>b\<close>, when \<open>a\<close> is not beyond \<open>b\<close>.\<close>

lemma advance_to_trans:
  assumes "wf_megolm mg" "a - mg_counter mg \<le> b - mg_counter mg"
  shows "megolm_advance_to (megolm_advance_to mg a) b = megolm_advance_to mg b"
proof -
  let ?a = "unat (a - mg_counter mg)" and ?b = "unat (b - mg_counter mg)"
  have c: "mg_counter (megolm_advance_to mg a) = a" by (rule counter_advance_to [OF assms(1)])
  have ab: "?a \<le> ?b" using assms(2) by (simp add: word_le_nat_alt)
  have "b - a = (b - mg_counter mg) - (a - mg_counter mg)" by simp
  also have "unat \<dots> = ?b - ?a" using assms(2) by (rule unat_sub)
  finally have d: "unat (b - a) = ?b - ?a" .
  have "megolm_advance_to (megolm_advance_to mg a) b =
      (megolm_advance ^^ (?b - ?a)) ((megolm_advance ^^ ?a) mg)"
    using advance_to_steps [OF wf_advance_to [OF assms(1)], of a b] c d advance_to_steps [OF assms(1), of a]
    by simp
  also have "\<dots> = (megolm_advance ^^ ?b) mg"
    using ab funpow_add [of "?b - ?a" ?a megolm_advance] by simp
  finally show ?thesis by (simp add: advance_to_steps [OF assms(1)])
qed

interpretation megolm: pickler megolm_pickle_length megolm_pickle megolm_unpickle
  "\<lambda>mg. megolm_get_data mg @ be32 (mg_counter mg)" wf_megolm "\<lambda>_. True" id
proof unfold_locales
  fix v old :: Megolm and m and pos "end" :: addr
  assume v: "wf_megolm v"
  show "megolm_pickle_length v = length (megolm_get_data v @ be32 (mg_counter v))"
    using v by (simp add: megolm_pickle_length_def)
  show "megolm_pickle m pos v = (wr m pos (megolm_get_data v @ be32 (mg_counter v)),
      pos + length (megolm_get_data v @ be32 (mg_counter v)))"
    using v by (simp add: megolm_pickle_def pickle_bytes_def pickle_u32_wr wr_append)
  assume old: "wf_megolm old" and st: "stored m pos (megolm_get_data v @ be32 (mg_counter v))"
    and len: "pos + length (megolm_get_data v @ be32 (mg_counter v)) \<le> end"
  have "rd m pos 128 = megolm_get_data v" "of_be32 (rd m (pos + 128) 4) = mg_counter v"
    using st v by (auto intro: stored_rd stored_be32)
  then have "megolm_unpickle m pos end old = (pos + 132, v)"
    using v old len by (simp add: megolm_unpickle_def unpickle_bytes_def unpickle_u32_eq)
  then show "fst (megolm_unpickle m pos end old) = pos + length (megolm_get_data v @ be32 (mg_counter v))"
    "id (snd (megolm_unpickle m pos end old)) = id v"
    using v by simp_all
next
  fix old :: Megolm and m and pos "end" :: addr
  assume old: "wf_megolm old"
  show "wf_megolm (snd (megolm_unpickle m pos end old))"
    using old wf_ratchet_parts [of "rd m pos 128"]
    by (auto simp: megolm_unpickle_def unpickle_bytes_def wf_megolm_def split: prod.splits)
  assume "pos \<le> end"
  then show "pos \<le> fst (megolm_unpickle m pos end old) \<and> fst (megolm_unpickle m pos end old) \<le> end"
    by (auto simp: megolm_unpickle_def unpickle_bytes_def unpickle_u32_eq)
qed

section \<open>Property\<close>

text \<open>
  C7 The fast \<open>megolm_advance_to\<close> gives the state that single steps of \<open>megolm_advance\<close> give when
  taken until the 32-bit counter is the wanted one, wrapping around if need be.
\<close>

theorem megolm_advance_to_is_iterated_advance:
  assumes "wf_megolm mg"
  shows "megolm_advance_to mg c = (megolm_advance ^^ unat (c - mg_counter mg)) mg \<and>
    mg_counter (megolm_advance_to mg c) = c \<and> wf_megolm (megolm_advance_to mg c)"
  using assms by (simp only: advance_to_steps [symmetric] counter_advance_to wf_advance_to simp_thms)

theorem megolm_advance_to_is_iterated_advance_witness:
  "megolm_advance_to \<lparr>mg_data = replicate 4 (replicate 32 7), mg_counter = 255\<rparr> 257 =
    megolm_advance (megolm_advance \<lparr>mg_data = replicate 4 (replicate 32 7), mg_counter = 255\<rparr>)"
proof -
  have "unat (257 - 255 :: u32) = Suc (Suc 0)" by simp
  then show ?thesis
    using megolm_advance_to_is_iterated_advance
      [of "\<lparr>mg_data = replicate 4 (replicate 32 7), mg_counter = 255\<rparr>" 257]
    by (simp only: wf_megolm_def Megolm.simps funpow.simps comp_apply id_apply length_replicate
        set_replicate_conv_if) simp
qed

end
