(* ===== verification/Message.thy ===== *)
theory Message
  imports OlmMemory
begin

text \<open>
  \<open>src/message.cpp\<close>: the wire format of normal, pre-key and group messages, a protocol-buffer like
  list of tagged fields.  The encoders write the tags and lengths and return pointers to the places
  the caller fills in; the decoders return pointers into the input, null when a field is missing, and
  skip fields they do not know.

  The three decoders run the same loop around their own list of fields: \<open>field_loop\<close> takes that list
  as \<open>step\<close>.  Each iteration of the loop consumes a byte, so its bound, the number of bytes between
  \<open>pos\<close> and \<open>end\<close>, is never reached before \<open>pos = end\<close>: lemma \<open>loop_done\<close> of the locale
  \<open>field_decoder\<close>, which also shows that the decoders stay inside their input.
\<close>

section \<open>Variable-length integers\<close>

text \<open>The templates, over the width of the integer; \<open>size_t\<close> is 64 bits wide.\<close>

lemma unat_drop_bit_7: "unat (drop_bit 7 (v :: 'a::len word)) = unat v div 128"
proof -
  have "unat (drop_bit 7 v) = drop_bit 7 (unat v)" by (rule unat_drop_bit_eq)
  also have "\<dots> = unat v div 2 ^ 7" by (rule drop_bit_eq_div)
  finally show ?thesis by simp
qed

lemma drop_bit_7_less: "128 \<le> unat v \<Longrightarrow> unat (drop_bit 7 (v :: 'a::len word)) < unat v"
  by (simp only: unat_drop_bit_7)

function varint_length_loop :: "nat \<Rightarrow> 'a::len word \<Rightarrow> nat" where
  "varint_length_loop result value =
     (if unat value \<ge> 128 then varint_length_loop (result + 1) (drop_bit 7 value) else result)"
  by pat_completeness auto
termination
  by (relation "measure (\<lambda>(_, v). unat v)") (auto intro: drop_bit_7_less)

declare varint_length_loop.simps [simp del]

definition varint_length :: "'a::len word \<Rightarrow> nat" where
  "varint_length value = varint_length_loop 1 value"

function varint_encode :: "mem \<Rightarrow> addr \<Rightarrow> 'a::len word \<Rightarrow> mem \<times> addr" where
  "varint_encode m output value =
     (if unat value \<ge> 128 then
        varint_encode (m(output := (0x7F AND ucast value) OR 0x80)) (output + 1) (drop_bit 7 value)
      else (m(output := ucast value), output + 1))"
  by pat_completeness auto
termination
  by (relation "measure (\<lambda>(_, _, v). unat v)") (auto intro: drop_bit_7_less)

declare varint_encode.simps [simp del]

text \<open>From the last byte to the first; the number of bytes is \<open>varint_end - varint_start\<close>.\<close>

primrec varint_field_loop :: "nat \<Rightarrow> mem \<Rightarrow> addr \<Rightarrow> 'a::len word \<Rightarrow> 'a word" where
  "varint_field_loop 0 m varint_end value = value"
| "varint_field_loop (Suc n) m varint_end value =
     varint_field_loop n m (varint_end - 1)
       (push_bit 7 value OR ucast (0x7F AND m (varint_end - 1)))"

definition varint_decode :: "mem \<Rightarrow> addr \<Rightarrow> addr \<Rightarrow> 'a::len word" where
  "varint_decode m varint_start varint_end =
     varint_field_loop (varint_end - varint_start) m varint_end 0"

primrec varint_skip_loop :: "nat \<Rightarrow> mem \<Rightarrow> addr \<Rightarrow> addr" where
  "varint_skip_loop 0 m inp = inp"
| "varint_skip_loop (Suc n) m inp =
     (if m inp AND 0x80 = 0 then inp + 1 else varint_skip_loop n m (inp + 1))"

definition varint_skip :: "mem \<Rightarrow> addr \<Rightarrow> addr \<Rightarrow> addr" where
  "varint_skip m input input_end = varint_skip_loop (input_end - input) m input"

definition varstring_length :: "nat \<Rightarrow> nat" where
  "varstring_length string_length = varint_length (of_nat string_length :: u64) + string_length"

section \<open>Fields\<close>

definition RATCHET_KEY_TAG :: byte where "RATCHET_KEY_TAG = 0x0A"
definition COUNTER_TAG :: byte where "COUNTER_TAG = 0x10"
definition CIPHERTEXT_TAG :: byte where "CIPHERTEXT_TAG = 0x22"

definition encode_varint :: "mem \<Rightarrow> addr \<Rightarrow> byte \<Rightarrow> u32 \<Rightarrow> mem \<times> addr" where
  "encode_varint m pos tag value = varint_encode (m(pos := tag)) (pos + 1) value"

text \<open>The third component is the pointer the code stores through its reference argument.\<close>

definition encode_bytes :: "mem \<Rightarrow> addr \<Rightarrow> byte \<Rightarrow> nat \<Rightarrow> mem \<times> addr \<times> addr" where
  "encode_bytes m pos tag value_length =
     (let (m, pos) = varint_encode (m(pos := tag)) (pos + 1) (of_nat value_length :: u64);
          value = pos
      in (m, pos + value_length, value))"

definition decode_varint ::
  "mem \<Rightarrow> addr \<Rightarrow> addr \<Rightarrow> byte \<Rightarrow> u32 \<Rightarrow> bool \<Rightarrow> addr \<times> u32 \<times> bool" where
  "decode_varint m pos end tag value has_value =
     (if pos \<noteq> end \<and> m pos = tag then
        let value_start = pos + 1;
            pos = varint_skip m value_start end
        in (pos, varint_decode m value_start pos, True)
      else (pos, value, has_value))"

definition decode_bytes ::
  "mem \<Rightarrow> addr \<Rightarrow> addr \<Rightarrow> byte \<Rightarrow> addr option \<Rightarrow> nat \<Rightarrow> addr \<times> addr option \<times> nat" where
  "decode_bytes m pos end tag value value_length =
     (if pos \<noteq> end \<and> m pos = tag then
        let len_start = pos + 1;
            pos = varint_skip m len_start end;
            len = unat (varint_decode m len_start pos :: u64)
        in if len > end - pos then (end, value, value_length)
           else (pos + len, Some pos, len)
      else (pos, value, value_length))"

definition skip_unknown :: "mem \<Rightarrow> addr \<Rightarrow> addr \<Rightarrow> addr" where
  "skip_unknown m pos end =
     (if pos \<noteq> end then
        let tag = m pos
        in if tag AND 0x7 = 0 then
             let pos = varint_skip m pos end
             in varint_skip m pos end
           else if tag AND 0x7 = 2 then
             let len_start = varint_skip m pos end;
                 pos = varint_skip m len_start end;
                 len = unat (varint_decode m len_start pos :: u64)
             in if len > end - pos then end else pos + len
           else end
      else pos)"

text \<open>\<open>while (pos != end) { unknown = pos; step; if (unknown == pos) pos = skip_unknown(pos, end); }\<close>\<close>

primrec field_loop ::
  "nat \<Rightarrow> (mem \<Rightarrow> addr \<Rightarrow> addr \<Rightarrow> 'r \<Rightarrow> addr \<times> 'r) \<Rightarrow> mem \<Rightarrow> addr \<Rightarrow> addr \<Rightarrow> 'r \<Rightarrow> addr \<times> 'r" where
  "field_loop 0 step m pos end reader = (pos, reader)"
| "field_loop (Suc n) step m pos end reader =
     (if pos \<noteq> end then
        let unknown = pos;
            (pos, reader) = step m pos end reader;
            pos = (if unknown = pos then skip_unknown m pos end else pos)
        in field_loop n step m pos end reader
      else (pos, reader))"

section \<open>Normal messages\<close>

record MessageReader =
  mr_version :: byte
  mr_has_counter :: bool
  mr_counter :: u32
  mr_input :: addr
  mr_input_length :: nat
  mr_ratchet_key :: "addr option"
  mr_ratchet_key_length :: nat
  mr_ciphertext :: "addr option"
  mr_ciphertext_length :: nat

record MessageWriter =
  mw_ratchet_key :: addr
  mw_ciphertext :: addr

definition encode_message_length :: "u32 \<Rightarrow> nat \<Rightarrow> nat \<Rightarrow> nat \<Rightarrow> nat" where
  "encode_message_length counter ratchet_key_length ciphertext_length mac_length =
     (let n = 1;
          n = n + (1 + varstring_length ratchet_key_length);
          n = n + (1 + varint_length counter);
          n = n + (1 + varstring_length ciphertext_length);
          n = n + mac_length
      in n)"

definition encode_message ::
  "mem \<Rightarrow> byte \<Rightarrow> u32 \<Rightarrow> nat \<Rightarrow> nat \<Rightarrow> addr \<Rightarrow> mem \<times> MessageWriter" where
  "encode_message m version counter ratchet_key_length ciphertext_length output =
     (let pos = output;
          m = m(pos := version);
          pos = pos + 1;
          (m, pos, ratchet_key) = encode_bytes m pos RATCHET_KEY_TAG ratchet_key_length;
          (m, pos) = encode_varint m pos COUNTER_TAG counter;
          (m, pos, ciphertext) = encode_bytes m pos CIPHERTEXT_TAG ciphertext_length
      in (m, \<lparr>mw_ratchet_key = ratchet_key, mw_ciphertext = ciphertext\<rparr>))"

definition message_step ::
  "mem \<Rightarrow> addr \<Rightarrow> addr \<Rightarrow> MessageReader \<Rightarrow> addr \<times> MessageReader" where
  "message_step m pos end reader =
     (let (pos, ratchet_key, ratchet_key_length) =
            decode_bytes m pos end RATCHET_KEY_TAG
              (mr_ratchet_key reader) (mr_ratchet_key_length reader);
          (pos, counter, has_counter) =
            decode_varint m pos end COUNTER_TAG (mr_counter reader) (mr_has_counter reader);
          (pos, ciphertext, ciphertext_length) =
            decode_bytes m pos end CIPHERTEXT_TAG
              (mr_ciphertext reader) (mr_ciphertext_length reader)
      in (pos, reader
            \<lparr>mr_ratchet_key := ratchet_key, mr_ratchet_key_length := ratchet_key_length,
             mr_counter := counter, mr_has_counter := has_counter,
             mr_ciphertext := ciphertext, mr_ciphertext_length := ciphertext_length\<rparr>))"

definition decode_message ::
  "mem \<Rightarrow> MessageReader \<Rightarrow> addr \<Rightarrow> nat \<Rightarrow> nat \<Rightarrow> MessageReader" where
  "decode_message m reader input input_length mac_length =
     (let pos = input;
          end = input + input_length - mac_length;
          reader = reader
            \<lparr>mr_input := input, mr_input_length := input_length, mr_has_counter := False,
             mr_ratchet_key := None, mr_ratchet_key_length := 0,
             mr_ciphertext := None, mr_ciphertext_length := 0\<rparr>
      in if input_length < mac_length then reader
         else if pos = end then reader
         else
           let reader = reader\<lparr>mr_version := m pos\<rparr>;
               pos = pos + 1
           in snd (field_loop (end - pos) message_step m pos end reader))"

section \<open>Pre-key messages\<close>

definition ONE_TIME_KEY_ID_TAG :: byte where "ONE_TIME_KEY_ID_TAG = 0x0A"
definition BASE_KEY_TAG :: byte where "BASE_KEY_TAG = 0x12"
definition IDENTITY_KEY_TAG :: byte where "IDENTITY_KEY_TAG = 0x1A"
definition MESSAGE_TAG :: byte where "MESSAGE_TAG = 0x22"

record PreKeyMessageReader =
  pk_version :: byte
  pk_identity_key :: "addr option"
  pk_identity_key_length :: nat
  pk_base_key :: "addr option"
  pk_base_key_length :: nat
  pk_one_time_key :: "addr option"
  pk_one_time_key_length :: nat
  pk_message :: "addr option"
  pk_message_length :: nat

record PreKeyMessageWriter =
  pw_identity_key :: addr
  pw_base_key :: addr
  pw_one_time_key :: addr
  pw_message :: addr

definition encode_one_time_key_message_length :: "nat \<Rightarrow> nat \<Rightarrow> nat \<Rightarrow> nat \<Rightarrow> nat" where
  "encode_one_time_key_message_length one_time_key_length identity_key_length base_key_length
      message_length =
     (let n = 1;
          n = n + (1 + varstring_length one_time_key_length);
          n = n + (1 + varstring_length identity_key_length);
          n = n + (1 + varstring_length base_key_length);
          n = n + (1 + varstring_length message_length)
      in n)"

definition encode_one_time_key_message ::
  "mem \<Rightarrow> byte \<Rightarrow> nat \<Rightarrow> nat \<Rightarrow> nat \<Rightarrow> nat \<Rightarrow> addr \<Rightarrow> mem \<times> PreKeyMessageWriter" where
  "encode_one_time_key_message m version identity_key_length base_key_length one_time_key_length
      message_length output =
     (let pos = output;
          m = m(pos := version);
          pos = pos + 1;
          (m, pos, one_time_key) = encode_bytes m pos ONE_TIME_KEY_ID_TAG one_time_key_length;
          (m, pos, base_key) = encode_bytes m pos BASE_KEY_TAG base_key_length;
          (m, pos, identity_key) = encode_bytes m pos IDENTITY_KEY_TAG identity_key_length;
          (m, pos, message) = encode_bytes m pos MESSAGE_TAG message_length
      in (m, \<lparr>pw_identity_key = identity_key, pw_base_key = base_key,
              pw_one_time_key = one_time_key, pw_message = message\<rparr>))"

definition prekey_step ::
  "mem \<Rightarrow> addr \<Rightarrow> addr \<Rightarrow> PreKeyMessageReader \<Rightarrow> addr \<times> PreKeyMessageReader" where
  "prekey_step m pos end reader =
     (let (pos, one_time_key, one_time_key_length) =
            decode_bytes m pos end ONE_TIME_KEY_ID_TAG
              (pk_one_time_key reader) (pk_one_time_key_length reader);
          (pos, base_key, base_key_length) =
            decode_bytes m pos end BASE_KEY_TAG (pk_base_key reader) (pk_base_key_length reader);
          (pos, identity_key, identity_key_length) =
            decode_bytes m pos end IDENTITY_KEY_TAG
              (pk_identity_key reader) (pk_identity_key_length reader);
          (pos, message, message_length) =
            decode_bytes m pos end MESSAGE_TAG (pk_message reader) (pk_message_length reader)
      in (pos, reader
            \<lparr>pk_one_time_key := one_time_key, pk_one_time_key_length := one_time_key_length,
             pk_base_key := base_key, pk_base_key_length := base_key_length,
             pk_identity_key := identity_key, pk_identity_key_length := identity_key_length,
             pk_message := message, pk_message_length := message_length\<rparr>))"

definition decode_one_time_key_message ::
  "mem \<Rightarrow> PreKeyMessageReader \<Rightarrow> addr \<Rightarrow> nat \<Rightarrow> PreKeyMessageReader" where
  "decode_one_time_key_message m reader input input_length =
     (let pos = input;
          end = input + input_length;
          reader = reader
            \<lparr>pk_one_time_key := None, pk_one_time_key_length := 0,
             pk_identity_key := None, pk_identity_key_length := 0,
             pk_base_key := None, pk_base_key_length := 0,
             pk_message := None, pk_message_length := 0\<rparr>
      in if pos = end then reader
         else
           let reader = reader\<lparr>pk_version := m pos\<rparr>;
               pos = pos + 1
           in snd (field_loop (end - pos) prekey_step m pos end reader))"

section \<open>Group messages\<close>

definition GROUP_MESSAGE_INDEX_TAG :: byte where "GROUP_MESSAGE_INDEX_TAG = 0x08"
definition GROUP_CIPHERTEXT_TAG :: byte where "GROUP_CIPHERTEXT_TAG = 0x12"

record DecodeGroupMessageResults =
  gr_version :: byte
  gr_message_index :: u32
  gr_has_message_index :: bool
  gr_ciphertext :: "addr option"
  gr_ciphertext_length :: nat

definition encode_group_message_length :: "u32 \<Rightarrow> nat \<Rightarrow> nat \<Rightarrow> nat \<Rightarrow> nat" where
  "encode_group_message_length message_index ciphertext_length mac_length signature_length =
     (let n = 1;
          n = n + (1 + varint_length message_index);
          n = n + (1 + varstring_length ciphertext_length);
          n = n + mac_length;
          n = n + signature_length
      in n)"

text \<open>The result is the length up to the MAC and the ciphertext pointer.\<close>

definition encode_group_message ::
  "mem \<Rightarrow> byte \<Rightarrow> u32 \<Rightarrow> nat \<Rightarrow> addr \<Rightarrow> mem \<times> nat \<times> addr" where
  "encode_group_message m version message_index ciphertext_length output =
     (let pos = output;
          m = m(pos := version);
          pos = pos + 1;
          (m, pos) = encode_varint m pos GROUP_MESSAGE_INDEX_TAG message_index;
          (m, pos, ciphertext_ptr) = encode_bytes m pos GROUP_CIPHERTEXT_TAG ciphertext_length
      in (m, pos - output, ciphertext_ptr))"

text \<open>\<open>has_message_index\<close> is a local of the code, copied to the results at the very end.\<close>

definition group_step ::
  "mem \<Rightarrow> addr \<Rightarrow> addr \<Rightarrow> DecodeGroupMessageResults \<times> bool \<Rightarrow>
   addr \<times> DecodeGroupMessageResults \<times> bool" where
  "group_step m pos end = (\<lambda>(results, has_message_index).
     let (pos, message_index, has_message_index) =
           decode_varint m pos end GROUP_MESSAGE_INDEX_TAG
             (gr_message_index results) has_message_index;
         (pos, ciphertext, ciphertext_length) =
           decode_bytes m pos end GROUP_CIPHERTEXT_TAG
             (gr_ciphertext results) (gr_ciphertext_length results)
     in (pos, results
           \<lparr>gr_message_index := message_index, gr_ciphertext := ciphertext,
            gr_ciphertext_length := ciphertext_length\<rparr>, has_message_index))"

definition decode_group_message ::
  "mem \<Rightarrow> addr \<Rightarrow> nat \<Rightarrow> nat \<Rightarrow> nat \<Rightarrow> DecodeGroupMessageResults \<Rightarrow> DecodeGroupMessageResults" where
  "decode_group_message m input input_length mac_length signature_length results =
     (let pos = input;
          trailer_length = mac_length + signature_length;
          end = input + input_length - trailer_length;
          results = results
            \<lparr>gr_message_index := 0, gr_ciphertext := None, gr_ciphertext_length := 0\<rparr>
      in if input_length < trailer_length then results
         else if pos = end then results
         else
           let results = results\<lparr>gr_version := m pos\<rparr>;
               pos = pos + 1;
               (results, has_message_index) =
                 snd (field_loop (end - pos) group_step m pos end (results, False))
           in results\<lparr>gr_has_message_index := has_message_index\<rparr>)"

section \<open>Variable-length integers: encoding and decoding\<close>

function varint_bytes :: "'a::len word \<Rightarrow> bytes" where
  "varint_bytes v =
     (if unat v \<ge> 128 then ((0x7F AND ucast v) OR 0x80) # varint_bytes (drop_bit 7 v) else [ucast v])"
  by pat_completeness auto
termination
  by (relation "measure unat") (auto intro: drop_bit_7_less)

lemma varint_bytes_more:
  "128 \<le> unat v \<Longrightarrow> varint_bytes v = ((0x7F AND ucast v) OR 0x80) # varint_bytes (drop_bit 7 v)"
  by simp

lemma varint_bytes_last: "unat v < 128 \<Longrightarrow> varint_bytes v = [ucast v]"
  by simp

declare varint_bytes.simps [simp del]

lemma varint_bytes_induct [case_names more last]:
  assumes "\<And>v :: 'a::len word. 128 \<le> unat v \<Longrightarrow> P (drop_bit 7 v) \<Longrightarrow> P v"
    and "\<And>v. unat v < 128 \<Longrightarrow> P v"
  shows "P v"
  using assms by (induction v rule: varint_bytes.induct) (metis not_less)

definition varint_value :: "bytes \<Rightarrow> 'a::len word" where
  "varint_value bs = foldr (\<lambda>b v. push_bit 7 v OR ucast (0x7F AND b)) bs 0"

lemma byte_top_bit: "(b :: byte) AND 0x80 = 0 \<longleftrightarrow> \<not> bit b 7"
  using bit_iff_and_push_bit_not_eq_0 [of b 7] by simp

lemma low_7_bits: "bit (0x7F :: 'a::len word) n \<longleftrightarrow> n < 7 \<and> n < LENGTH('a)"
proof -
  have "(0x7F :: 'a word) = mask 7" by (simp add: mask_eq_exp_minus_1)
  then show ?thesis by (simp only: bit_mask_iff possible_bit_word) auto
qed

lemma top_bit: "bit (0x80 :: 'a::len word) n \<longleftrightarrow> n = 7 \<and> n < LENGTH('a)"
proof -
  have "(0x80 :: 'a word) = push_bit 7 1" by simp
  then show ?thesis by (simp only: bit_push_bit_iff bit_1_iff possible_bit_word) auto
qed

lemma varint_more_byte: "((0x7F AND b) OR 0x80) AND 0x80 \<noteq> (0 :: byte)"
  by (simp add: byte_top_bit bit_or_iff top_bit)

lemma small_word: "unat (v :: 'a::len word) < 128 \<Longrightarrow> take_bit 7 v = v"
proof -
  assume "unat v < 128"
  then have "take_bit 7 (unat v) = unat v" by (simp add: take_bit_nat_eq_self)
  then have "unat (take_bit 7 v) = unat v" by (simp only: unsigned_take_bit_eq)
  then show ?thesis by (simp only: unsigned_word_eqI)
qed

lemma varint_last_byte:
  assumes "unat (v :: 'a::len word) < 128"
  shows "(ucast v :: byte) AND 0x80 = 0" "(ucast (0x7F AND (ucast v :: byte)) :: 'a word) = v"
proof -
  have b: "bit v n \<Longrightarrow> n < 7" for n
    by (subst (asm) small_word [OF assms, symmetric]) (simp add: bit_take_bit_iff)
  then show "(ucast v :: byte) AND 0x80 = 0" by (auto simp: byte_top_bit bit_simps)
  show "(ucast (0x7F AND (ucast v :: byte)) :: 'a word) = v"
    by (rule bit_word_eqI)
      (simp only: bit_unsigned_iff bit_and_iff low_7_bits possible_bit_word, auto dest: b)
qed

lemma varint_group:
  "push_bit 7 (drop_bit 7 v) OR ucast (0x7F AND ((0x7F AND (ucast v :: byte)) OR 0x80)) = (v :: 'a::len word)"
proof (rule bit_word_eqI)
  fix n assume "n < LENGTH('a)"
  then show "bit (push_bit 7 (drop_bit 7 v) OR ucast (0x7F AND ((0x7F AND (ucast v :: byte)) OR 0x80))) n = bit v n"
    by (cases "n < 7") (simp_all only: bit_or_iff bit_push_bit_iff bit_drop_bit_eq comp_def bit_unsigned_iff bit_and_iff
      low_7_bits top_bit possible_bit_word, auto)
qed

lemma varint_value_bytes [simp]: "varint_value (varint_bytes v) = v"
  by (induction v rule: varint_bytes_induct)
    (simp_all add: varint_bytes_more varint_bytes_last varint_value_def varint_group varint_last_byte)

lemma varint_bytes_nonempty [simp]: "varint_bytes v \<noteq> []"
  by (subst varint_bytes.simps) simp

lemma varint_length_bytes: "varint_length v = length (varint_bytes v)"
proof -
  have "varint_length_loop (Suc n) v = n + length (varint_bytes v)" for n
  proof (induction v arbitrary: n rule: varint_bytes_induct)
    case (more v)
    have "varint_length_loop (Suc n) v = varint_length_loop (Suc (Suc n)) (drop_bit 7 v)"
      using more(1) by (subst varint_length_loop.simps) simp
    then show ?case by (simp only: more(2) varint_bytes_more [OF more(1)]) simp
  next
    case (last v)
    then show ?case by (subst varint_length_loop.simps) (simp add: varint_bytes_last)
  qed
  then show ?thesis by (simp add: varint_length_def)
qed

lemma varint_encode_wr:
  "varint_encode m out v = (wr m out (varint_bytes v), out + length (varint_bytes v))"
proof (induction v arbitrary: m out rule: varint_bytes_induct)
  case (more v)
  let ?b = "(0x7F AND ucast v) OR 0x80 :: byte"
  have "wr m out (?b # varint_bytes (drop_bit 7 v)) =
        wr (m(out := ?b)) (out + 1) (varint_bytes (drop_bit 7 v))"
    using wr_append [of m out "[?b]" "varint_bytes (drop_bit 7 v)"] by (simp add: wr_single)
  with more show ?case
    by (subst varint_encode.simps) (simp add: varint_bytes_more [OF more(1)] fun_upd_def)
next
  case (last v)
  then show ?case by (subst varint_encode.simps) (simp add: varint_bytes_last wr_single)
qed

lemma varint_skip_bytes:
  assumes "stored m pos (varint_bytes v)" "pos + length (varint_bytes v) \<le> end"
  shows "varint_skip m pos end = pos + length (varint_bytes v)"
proof -
  have "stored m pos (varint_bytes v) \<Longrightarrow> length (varint_bytes v) \<le> n \<Longrightarrow>
        varint_skip_loop n m pos = pos + length (varint_bytes v)" for n
  proof (induction v arbitrary: n pos rule: varint_bytes_induct)
    case (more v)
    then show ?case by (cases n) (simp_all add: varint_bytes_more varint_more_byte)
  next
    case (last v)
    then show ?case by (cases n) (simp_all add: varint_bytes_last varint_last_byte)
  qed
  from this [of "end - pos"] assms show ?thesis by (simp add: varint_skip_def)
qed

lemma varint_decode_rd:
  assumes "varint_start \<le> varint_end"
  shows "varint_decode m varint_start varint_end =
         varint_value (rd m varint_start (varint_end - varint_start))"
proof -
  have "varint_field_loop n m e v =
        foldr (\<lambda>b v. push_bit 7 v OR ucast (0x7F AND b)) (rd m (e - n) n) v" if "n \<le> e" for n e v
    using that
  proof (induction n arbitrary: e v)
    case (Suc n)
    have "rd m (e - Suc n) (Suc n) = rd m (e - 1 - n) n @ [m (e - 1)]"
      using rd_add [of m "e - Suc n" n 1] Suc.prems by simp
    with Suc show ?case by simp
  qed simp
  from this [of "varint_end - varint_start" varint_end 0] assms show ?thesis
    by (simp add: varint_decode_def varint_value_def)
qed

lemma varint_decode_bytes:
  "stored m pos (varint_bytes v) \<Longrightarrow> varint_decode m pos (pos + length (varint_bytes v)) = v"
  by (simp add: varint_decode_rd stored_rd)

section \<open>Bounds of the decoders\<close>

lemma varint_skip_bounds:
  "pos \<le> end \<Longrightarrow> pos \<le> varint_skip m pos end \<and> varint_skip m pos end \<le> end"
proof -
  have "pos \<le> varint_skip_loop n m pos \<and> varint_skip_loop n m pos \<le> pos + n" for n
  proof (induction n arbitrary: pos)
    case (Suc n)
    from Suc.IH [of "pos + 1"] show ?case by auto
  qed simp
  from this [of "end - pos"] show "pos \<le> end \<Longrightarrow> ?thesis" by (simp add: varint_skip_def)
qed

lemma varint_skip_progress:
  assumes "pos < end"
  shows "pos < varint_skip m pos end"
proof -
  from assms have n: "end - pos = Suc (end - (pos + 1))" by simp
  have "pos + 1 \<le> varint_skip m (pos + 1) end"
    using varint_skip_bounds [of "pos + 1" "end" m] assms by simp
  then show ?thesis unfolding varint_skip_def n by simp
qed

lemma decode_varint_bounds:
  "pos \<le> end \<Longrightarrow> pos \<le> fst (decode_varint m pos end tag v h) \<and> fst (decode_varint m pos end tag v h) \<le> end"
  using varint_skip_bounds [of "pos + 1" "end" m]
  by (auto simp: decode_varint_def Let_def)

lemma decode_bytes_bounds:
  "pos \<le> end \<Longrightarrow> pos \<le> fst (decode_bytes m pos end tag v n) \<and> fst (decode_bytes m pos end tag v n) \<le> end"
  using varint_skip_bounds [of "pos + 1" "end" m]
  by (auto simp: decode_bytes_def Let_def)

text \<open>A pointer and a length that describe bytes between \<open>lo\<close> and \<open>hi\<close>, or nothing.\<close>

definition within :: "addr \<Rightarrow> addr \<Rightarrow> addr option \<Rightarrow> nat \<Rightarrow> bool" where
  "within lo hi p n \<longleftrightarrow> (case p of None \<Rightarrow> n = 0 | Some a \<Rightarrow> lo \<le> a \<and> a + n \<le> hi)"

lemma within_None [simp]: "within lo hi None n \<longleftrightarrow> n = 0"
  by (simp add: within_def)

lemma within_Some [simp]: "within lo hi (Some a) n \<longleftrightarrow> lo \<le> a \<and> a + n \<le> hi"
  by (simp add: within_def)

lemma decode_bytes_within:
  assumes "lo \<le> pos" "pos \<le> end" "within lo end v n"
  shows "within lo end (fst (snd (decode_bytes m pos end tag v n))) (snd (snd (decode_bytes m pos end tag v n)))"
  using assms varint_skip_bounds [of "pos + 1" "end" m]
  by (auto simp: decode_bytes_def Let_def)

lemma skip_unknown_bounds:
  assumes "pos < end"
  shows "pos < skip_unknown m pos end \<and> skip_unknown m pos end \<le> end"
proof -
  let ?a = "varint_skip m pos end"
  have a: "pos < ?a" "?a \<le> end"
    using varint_skip_progress [OF assms] varint_skip_bounds [of pos "end"] assms by auto
  then have "?a \<le> varint_skip m ?a end" "varint_skip m ?a end \<le> end"
    using varint_skip_bounds [of ?a "end" m] by auto
  with a assms show ?thesis by (auto simp: skip_unknown_def Let_def)
qed

text \<open>What the decoders read lies between \<open>pos\<close> and \<open>end\<close>: on memories that agree there they agree.\<close>

definition same_bytes :: "addr \<Rightarrow> addr \<Rightarrow> mem \<Rightarrow> mem \<Rightarrow> bool" where
  "same_bytes lo hi m m' \<longleftrightarrow> (\<forall>a. lo \<le> a \<longrightarrow> a < hi \<longrightarrow> m' a = m a)"

lemma same_bytes_sub: "same_bytes lo hi m m' \<Longrightarrow> lo \<le> lo' \<Longrightarrow> hi' \<le> hi \<Longrightarrow> same_bytes lo' hi' m m'"
  by (simp add: same_bytes_def)

lemma same_byte: "same_bytes lo hi m m' \<Longrightarrow> lo \<le> a \<Longrightarrow> a < hi \<Longrightarrow> m' a = m a"
  by (simp add: same_bytes_def)

lemma varint_skip_reads:
  assumes "same_bytes pos end m m'"
  shows "varint_skip m' pos end = varint_skip m pos end"
proof -
  have "varint_skip_loop n m' a = varint_skip_loop n m a" if "pos \<le> a" "a + n \<le> end" for n a
    using that by (induction n arbitrary: a) (simp_all add: same_byte [OF assms])
  then show ?thesis by (cases "pos \<le> end") (simp_all add: varint_skip_def)
qed

lemma varint_decode_reads:
  assumes "same_bytes a b m m'"
  shows "varint_decode m' a b = varint_decode m a b"
proof -
  have "varint_field_loop n m' e v = varint_field_loop n m e v" if "a + n \<le> e" "e \<le> b" for n e and v :: "'a word"
    using that by (induction n arbitrary: e v) (simp_all add: same_byte [OF assms])
  then show ?thesis by (cases "a \<le> b") (simp_all add: varint_decode_def)
qed

lemma decode_varint_reads:
  assumes "same_bytes pos end m m'" "pos \<le> end"
  shows "decode_varint m' pos end tag v h = decode_varint m pos end tag v h"
proof (cases "pos = end")
  case False
  with assms have s: "same_bytes (Suc pos) end m m'" "m' pos = m pos" and "Suc pos \<le> end"
    by (simp_all add: same_bytes_def)
  then have "same_bytes (Suc pos) (varint_skip m (Suc pos) end) m m'"
    using varint_skip_bounds [of "Suc pos" "end" m] by (auto elim: same_bytes_sub)
  note d = varint_decode_reads [OF this]
  show ?thesis by (simp add: decode_varint_def Let_def s(2) varint_skip_reads [OF s(1)] d)
qed (simp add: decode_varint_def)

lemma decode_bytes_reads:
  assumes "same_bytes pos end m m'" "pos \<le> end"
  shows "decode_bytes m' pos end tag v n = decode_bytes m pos end tag v n"
proof (cases "pos = end")
  case False
  with assms have s: "same_bytes (Suc pos) end m m'" "m' pos = m pos" and "Suc pos \<le> end"
    by (simp_all add: same_bytes_def)
  then have "same_bytes (Suc pos) (varint_skip m (Suc pos) end) m m'"
    using varint_skip_bounds [of "Suc pos" "end" m] by (auto elim: same_bytes_sub)
  note d = varint_decode_reads [OF this]
  show ?thesis by (simp add: decode_bytes_def Let_def s(2) varint_skip_reads [OF s(1)] d)
qed (simp add: decode_bytes_def)

lemma skip_unknown_reads:
  assumes "same_bytes pos end m m'" "pos \<le> end"
  shows "skip_unknown m' pos end = skip_unknown m pos end"
proof (cases "pos = end")
  case False
  let ?a = "varint_skip m pos end" and ?b = "varint_skip m (varint_skip m pos end) end"
  have a: "pos \<le> ?a" "?a \<le> end" using varint_skip_bounds [OF assms(2), of m] by auto
  then have b: "?a \<le> ?b" "?b \<le> end" using varint_skip_bounds [of ?a "end" m] by auto
  have s: "same_bytes ?a end m m'" "same_bytes ?a ?b m m'" "m' pos = m pos"
    using a b False assms by (simp_all add: same_bytes_def)
  show ?thesis
    by (simp add: skip_unknown_def Let_def varint_skip_reads [OF assms(1)] varint_skip_reads [OF s(1)]
        varint_decode_reads [OF s(2)] s(3))
qed (simp add: skip_unknown_def)

locale field_decoder =
  fixes step :: "mem \<Rightarrow> addr \<Rightarrow> addr \<Rightarrow> 'r \<Rightarrow> addr \<times> 'r"
    and inside :: "addr \<Rightarrow> addr \<Rightarrow> 'r \<Rightarrow> bool"
  assumes step_bounds: "pos \<le> end \<Longrightarrow>
        pos \<le> fst (step m pos end r) \<and> fst (step m pos end r) \<le> end"
    and step_inside: "lo \<le> pos \<Longrightarrow> pos \<le> end \<Longrightarrow> inside lo end r \<Longrightarrow>
        inside lo end (snd (step m pos end r))"
    and step_reads: "pos \<le> end \<Longrightarrow> same_bytes pos end m m' \<Longrightarrow> step m' pos end r = step m pos end r"
begin

text \<open>The loop ends because its position reaches the end of the input.\<close>

lemma loop_done: "pos \<le> end \<Longrightarrow> end - pos \<le> n \<Longrightarrow> fst (field_loop n step m pos end r) = end"
proof (induction n arbitrary: pos r)
  case (Suc n)
  show ?case
  proof (cases "pos = end")
    case False
    obtain pos1 r1 where s: "step m pos end r = (pos1, r1)" by fastforce
    let ?p = "if pos = pos1 then skip_unknown m pos1 end else pos1"
    have "pos < ?p" "?p \<le> end"
      using step_bounds [OF Suc.prems(1), of m r] skip_unknown_bounds [of pos "end" m] s False Suc.prems(1)
      by auto
    with Suc.IH [of ?p r1] Suc.prems False show ?thesis by (simp add: s)
  qed simp
qed simp

text \<open>With a bound of one iteration per byte, a larger bound changes nothing.\<close>

lemma loop_more:
  "pos \<le> end \<Longrightarrow> end - pos \<le> n \<Longrightarrow> field_loop (n + k) step m pos end r = field_loop n step m pos end r"
proof (induction n arbitrary: pos r)
  case 0
  then show ?case by (cases k) simp_all
next
  case (Suc n)
  show ?case
  proof (cases "pos = end")
    case False
    obtain pos1 r1 where s: "step m pos end r = (pos1, r1)" by fastforce
    let ?p = "if pos = pos1 then skip_unknown m pos1 end else pos1"
    have "pos < ?p" "?p \<le> end"
      using step_bounds [OF Suc.prems(1), of m r] skip_unknown_bounds [of pos "end" m] s False Suc.prems(1)
      by auto
    with Suc.IH [of ?p r1] Suc.prems False show ?thesis by (simp add: s)
  qed simp
qed

lemma loop_inside:
  "lo \<le> pos \<Longrightarrow> pos \<le> end \<Longrightarrow> inside lo end r \<Longrightarrow> inside lo end (snd (field_loop n step m pos end r))"
proof (induction n arbitrary: pos r)
  case (Suc n)
  show ?case
  proof (cases "pos = end")
    case False
    obtain pos1 r1 where s: "step m pos end r = (pos1, r1)" by fastforce
    let ?p = "if pos = pos1 then skip_unknown m pos1 end else pos1"
    have "pos < ?p" "?p \<le> end"
      using step_bounds [OF Suc.prems(2), of m r] skip_unknown_bounds [of pos "end" m] s False Suc.prems
      by auto
    moreover have "inside lo end r1" using step_inside [OF Suc.prems] s by (metis snd_conv)
    ultimately show ?thesis using Suc.IH [of ?p r1] Suc.prems(1) False by (simp add: s)
  qed (use Suc.prems in simp)
qed simp

lemma loop_reads:
  "pos \<le> end \<Longrightarrow> same_bytes pos end m m' \<Longrightarrow> field_loop n step m' pos end r = field_loop n step m pos end r"
proof (induction n arbitrary: pos r)
  case (Suc n)
  obtain pos1 r1 where s: "step m pos end r = (pos1, r1)" by fastforce
  have p1: "pos \<le> pos1" "pos1 \<le> end" using step_bounds [OF Suc.prems(1), of m r] s by simp_all
  let ?p = "if pos = pos1 then skip_unknown m pos1 end else pos1"
  have p: "?p = (if pos = pos1 then skip_unknown m' pos1 end else pos1)"
    using skip_unknown_reads [OF Suc.prems(2,1)] by auto
  have b: "pos \<le> ?p" "?p \<le> end" if "pos \<noteq> end"
    using p1 skip_unknown_bounds [of pos "end" m] that Suc.prems(1) by auto
  show ?case
    using Suc.IH [OF b(2) same_bytes_sub [OF Suc.prems(2) b(1) order.refl]] step_reads [OF Suc.prems] p
    by (simp add: s)
qed simp

text \<open>When one pass over the fields reads everything, the loop is that pass.\<close>

lemma loop_one_pass:
  "step m pos end r = (end, r') \<Longrightarrow> pos < end \<Longrightarrow> 0 < n \<Longrightarrow> field_loop n step m pos end r = (end, r')"
  by (cases n) (auto, (case_tac nat; simp))

end

definition message_inside :: "addr \<Rightarrow> addr \<Rightarrow> MessageReader \<Rightarrow> bool" where
  "message_inside lo hi r \<longleftrightarrow>
     within lo hi (mr_ratchet_key r) (mr_ratchet_key_length r) \<and>
     within lo hi (mr_ciphertext r) (mr_ciphertext_length r)"

definition prekey_inside :: "addr \<Rightarrow> addr \<Rightarrow> PreKeyMessageReader \<Rightarrow> bool" where
  "prekey_inside lo hi r \<longleftrightarrow>
     within lo hi (pk_one_time_key r) (pk_one_time_key_length r) \<and>
     within lo hi (pk_base_key r) (pk_base_key_length r) \<and>
     within lo hi (pk_identity_key r) (pk_identity_key_length r) \<and>
     within lo hi (pk_message r) (pk_message_length r)"

definition group_inside :: "addr \<Rightarrow> addr \<Rightarrow> DecodeGroupMessageResults \<times> bool \<Rightarrow> bool" where
  "group_inside lo hi r \<longleftrightarrow> within lo hi (gr_ciphertext (fst r)) (gr_ciphertext_length (fst r))"

text \<open>A chain of field decoders, each taken from the position the last one returned.\<close>

lemma decode_bytes_chain:
  assumes "lo \<le> pos" "pos \<le> end" "within lo end v n" "decode_bytes m pos end tag v n = (p, v', n')"
  shows "lo \<le> p \<and> pos \<le> p \<and> p \<le> end \<and> within lo end v' n'"
  using decode_bytes_bounds [OF assms(2), of m tag v n] decode_bytes_within [OF assms(1-3), of m tag]
    assms(1,4) by simp

lemma decode_varint_chain:
  assumes "pos \<le> end" "decode_varint m pos end tag v h = (p, v', h')"
  shows "pos \<le> p \<and> p \<le> end"
  using decode_varint_bounds [OF assms(1), of m tag v h] assms(2) by simp

lemma decode_bytes_pos:
  assumes "pos \<le> end" "decode_bytes m pos end tag v n = (p, v', n')"
  shows "pos \<le> p \<and> p \<le> end"
  using decode_bytes_bounds [OF assms(1), of m tag v n] assms(2) by simp

interpretation message: field_decoder message_step message_inside
proof unfold_locales
  fix pos "end" :: addr and m and r :: MessageReader assume b: "pos \<le> end"
  obtain p1 v1 n1 where 1: "decode_bytes m pos end RATCHET_KEY_TAG (mr_ratchet_key r)
    (mr_ratchet_key_length r) = (p1, v1, n1)" by (rule prod_cases3)
  obtain p2 v2 n2 where 2: "decode_varint m p1 end COUNTER_TAG (mr_counter r) (mr_has_counter r) =
    (p2, v2, n2)" by (rule prod_cases3)
  obtain p3 v3 n3 where 3: "decode_bytes m p2 end CIPHERTEXT_TAG (mr_ciphertext r)
    (mr_ciphertext_length r) = (p3, v3, n3)" by (rule prod_cases3)
  have p1: "pos \<le> p1" "p1 \<le> end" using decode_bytes_pos [OF b 1] by auto
  have p2: "p1 \<le> p2" "p2 \<le> end" using decode_varint_chain [OF p1(2) 2] by auto
  have p3: "p2 \<le> p3" "p3 \<le> end" using decode_bytes_pos [OF p2(2) 3] by auto
  show "pos \<le> fst (message_step m pos end r) \<and> fst (message_step m pos end r) \<le> end"
    using p1 p2 p3 by (simp add: message_step_def 1 2 3)
  fix lo assume lo: "lo \<le> pos" and i: "message_inside lo end r"
  show "message_inside lo end (snd (message_step m pos end r))"
    using i decode_bytes_chain [OF lo b _ 1] decode_bytes_chain [OF _ p2(2) _ 3, of lo] lo p1 p2
    by (simp add: message_step_def 1 2 3 message_inside_def)
next
  fix pos "end" :: addr and m m' and r :: MessageReader
  assume b: "pos \<le> end" "same_bytes pos end m m'"
  obtain p1 v1 n1 where 1: "decode_bytes m pos end RATCHET_KEY_TAG (mr_ratchet_key r)
    (mr_ratchet_key_length r) = (p1, v1, n1)" by (rule prod_cases3)
  obtain p2 v2 n2 where 2: "decode_varint m p1 end COUNTER_TAG (mr_counter r) (mr_has_counter r) =
    (p2, v2, n2)" by (rule prod_cases3)
  have p1: "pos \<le> p1" "p1 \<le> end" using decode_bytes_pos [OF b(1) 1] by auto
  have p2: "p1 \<le> p2" "p2 \<le> end" using decode_varint_chain [OF p1(2) 2] by auto
  have s: "same_bytes p1 end m m'" "same_bytes p2 end m m'" using b(2) p1 p2 by (auto elim: same_bytes_sub)
  show "message_step m' pos end r = message_step m pos end r"
    by (simp add: message_step_def decode_bytes_reads [OF b(2,1)] decode_varint_reads [OF s(1) p1(2)]
        decode_bytes_reads [OF s(2) p2(2)] 1 2)
qed

interpretation prekey: field_decoder prekey_step prekey_inside
proof unfold_locales
  fix pos "end" :: addr and m and r :: PreKeyMessageReader assume b: "pos \<le> end"
  obtain p1 v1 n1 where 1: "decode_bytes m pos end ONE_TIME_KEY_ID_TAG (pk_one_time_key r)
    (pk_one_time_key_length r) = (p1, v1, n1)" by (rule prod_cases3)
  obtain p2 v2 n2 where 2: "decode_bytes m p1 end BASE_KEY_TAG (pk_base_key r) (pk_base_key_length r) =
    (p2, v2, n2)" by (rule prod_cases3)
  obtain p3 v3 n3 where 3: "decode_bytes m p2 end IDENTITY_KEY_TAG (pk_identity_key r)
    (pk_identity_key_length r) = (p3, v3, n3)" by (rule prod_cases3)
  obtain p4 v4 n4 where 4: "decode_bytes m p3 end MESSAGE_TAG (pk_message r) (pk_message_length r) =
    (p4, v4, n4)" by (rule prod_cases3)
  have p1: "pos \<le> p1" "p1 \<le> end" using decode_bytes_pos [OF b 1] by auto
  have p2: "p1 \<le> p2" "p2 \<le> end" using decode_bytes_pos [OF p1(2) 2] by auto
  have p3: "p2 \<le> p3" "p3 \<le> end" using decode_bytes_pos [OF p2(2) 3] by auto
  have p4: "p3 \<le> p4" "p4 \<le> end" using decode_bytes_pos [OF p3(2) 4] by auto
  show "pos \<le> fst (prekey_step m pos end r) \<and> fst (prekey_step m pos end r) \<le> end"
    using p1 p2 p3 p4 by (simp add: prekey_step_def 1 2 3 4)
  fix lo assume lo: "lo \<le> pos" and i: "prekey_inside lo end r"
  show "prekey_inside lo end (snd (prekey_step m pos end r))"
    using i decode_bytes_chain [OF lo b _ 1] decode_bytes_chain [OF _ p1(2) _ 2, of lo]
      decode_bytes_chain [OF _ p2(2) _ 3, of lo] decode_bytes_chain [OF _ p3(2) _ 4, of lo] lo p1 p2 p3
    by (simp add: prekey_step_def 1 2 3 4 prekey_inside_def)
next
  fix pos "end" :: addr and m m' and r :: PreKeyMessageReader
  assume b: "pos \<le> end" "same_bytes pos end m m'"
  obtain p1 v1 n1 where 1: "decode_bytes m pos end ONE_TIME_KEY_ID_TAG (pk_one_time_key r)
    (pk_one_time_key_length r) = (p1, v1, n1)" by (rule prod_cases3)
  obtain p2 v2 n2 where 2: "decode_bytes m p1 end BASE_KEY_TAG (pk_base_key r) (pk_base_key_length r) =
    (p2, v2, n2)" by (rule prod_cases3)
  obtain p3 v3 n3 where 3: "decode_bytes m p2 end IDENTITY_KEY_TAG (pk_identity_key r)
    (pk_identity_key_length r) = (p3, v3, n3)" by (rule prod_cases3)
  have p1: "pos \<le> p1" "p1 \<le> end" using decode_bytes_pos [OF b(1) 1] by auto
  have p2: "p1 \<le> p2" "p2 \<le> end" using decode_bytes_pos [OF p1(2) 2] by auto
  have p3: "p2 \<le> p3" "p3 \<le> end" using decode_bytes_pos [OF p2(2) 3] by auto
  have s: "same_bytes p1 end m m'" "same_bytes p2 end m m'" "same_bytes p3 end m m'"
    using b(2) p1 p2 p3 by (auto elim: same_bytes_sub)
  show "prekey_step m' pos end r = prekey_step m pos end r"
    by (simp add: prekey_step_def decode_bytes_reads [OF b(2,1)] decode_bytes_reads [OF s(1) p1(2)]
        decode_bytes_reads [OF s(2) p2(2)] decode_bytes_reads [OF s(3) p3(2)] 1 2 3)
qed

interpretation group: field_decoder group_step group_inside
proof unfold_locales
  fix pos "end" :: addr and m and r :: "DecodeGroupMessageResults \<times> bool" assume b: "pos \<le> end"
  obtain g h where r: "r = (g, h)" by fastforce
  obtain p1 v1 n1 where 1: "decode_varint m pos end GROUP_MESSAGE_INDEX_TAG (gr_message_index g) h =
    (p1, v1, n1)" by (rule prod_cases3)
  obtain p2 v2 n2 where 2: "decode_bytes m p1 end GROUP_CIPHERTEXT_TAG (gr_ciphertext g)
    (gr_ciphertext_length g) = (p2, v2, n2)" by (rule prod_cases3)
  have p1: "pos \<le> p1" "p1 \<le> end" using decode_varint_chain [OF b 1] by auto
  have p2: "p1 \<le> p2" "p2 \<le> end" using decode_bytes_pos [OF p1(2) 2] by auto
  show "pos \<le> fst (group_step m pos end r) \<and> fst (group_step m pos end r) \<le> end"
    using p1 p2 by (simp add: group_step_def 1 2 r)
  fix lo assume lo: "lo \<le> pos" and i: "group_inside lo end r"
  show "group_inside lo end (snd (group_step m pos end r))"
    using i decode_bytes_chain [OF _ p1(2) _ 2, of lo] lo p1
    by (simp add: group_step_def 1 2 r group_inside_def)
next
  fix pos "end" :: addr and m m' and r :: "DecodeGroupMessageResults \<times> bool"
  assume b: "pos \<le> end" "same_bytes pos end m m'"
  obtain g h where r: "r = (g, h)" by fastforce
  obtain p1 v1 n1 where 1: "decode_varint m pos end GROUP_MESSAGE_INDEX_TAG (gr_message_index g) h =
    (p1, v1, n1)" by (rule prod_cases3)
  have p1: "pos \<le> p1" "p1 \<le> end" using decode_varint_chain [OF b(1) 1] by auto
  have s: "same_bytes p1 end m m'" using b(2) p1 by (auto elim: same_bytes_sub)
  show "group_step m' pos end r = group_step m pos end r"
    by (simp add: group_step_def decode_varint_reads [OF b(2,1)] decode_bytes_reads [OF s p1(2)] 1 r)
qed

text \<open>
  An input shorter than the trailer has no body: the difference of the two lengths is then zero, and the
  decoder returns before it reads anything.
\<close>

lemma decode_message_inside:
  "message_inside input (input + (input_length - mac_length))
     (decode_message m reader input input_length mac_length)"
  unfolding decode_message_def Let_def
  by (auto intro!: message.loop_inside) (auto simp: message_inside_def)

lemma decode_one_time_key_message_inside:
  "prekey_inside input (input + input_length)
     (decode_one_time_key_message m reader input input_length)"
  unfolding decode_one_time_key_message_def Let_def
  by (auto intro!: prekey.loop_inside) (auto simp: prekey_inside_def)

lemma decode_group_message_inside:
  "group_inside input (input + (input_length - (mac_length + signature_length)))
     (decode_group_message m input input_length mac_length signature_length results, h)"
proof -
  let ?lim = "input + input_length - (mac_length + signature_length)"
  have "group_inside input ?lim (snd (field_loop n group_step m (Suc input) ?lim (r, b)))"
    if "input < ?lim" "gr_ciphertext r = None" "gr_ciphertext_length r = 0" for n r b
    by (rule group.loop_inside) (use that in \<open>auto simp: group_inside_def\<close>)
  then show ?thesis
    by (auto simp: decode_group_message_def Let_def group_inside_def case_prod_beta)
qed

lemma decode_message_reads:
  assumes "same_bytes input (input + (input_length - mac_length)) m m'"
  shows "decode_message m' reader input input_length mac_length =
    decode_message m reader input input_length mac_length"
proof (cases "mac_length < input_length")
  case True
  let ?lim = "input + input_length - mac_length"
  have "m' input = m input" "same_bytes (Suc input) ?lim m m'" "Suc input \<le> ?lim"
    using True assms by (simp_all add: same_bytes_def)
  then show ?thesis by (simp add: decode_message_def Let_def message.loop_reads [of _ _ m])
qed (auto simp: decode_message_def Let_def)

lemma decode_one_time_key_message_reads:
  assumes "same_bytes input (input + input_length) m m'"
  shows "decode_one_time_key_message m' reader input input_length =
    decode_one_time_key_message m reader input input_length"
proof (cases "input_length = 0")
  case False
  then have "m' input = m input" "same_bytes (Suc input) (input + input_length) m m'" "Suc input \<le> input + input_length"
    using assms by (simp_all add: same_bytes_def)
  then show ?thesis by (simp add: decode_one_time_key_message_def Let_def prekey.loop_reads [of _ _ m])
qed (auto simp: decode_one_time_key_message_def Let_def)

lemma decode_group_message_reads:
  assumes "same_bytes input (input + (input_length - (mac_length + signature_length))) m m'"
  shows "decode_group_message m' input input_length mac_length signature_length results =
    decode_group_message m input input_length mac_length signature_length results"
proof (cases "mac_length + signature_length < input_length")
  case True
  let ?lim = "input + input_length - (mac_length + signature_length)"
  have "m' input = m input" "same_bytes (Suc input) ?lim m m'" "Suc input \<le> ?lim"
    using True assms by (simp_all add: same_bytes_def)
  then show ?thesis by (simp add: decode_group_message_def Let_def group.loop_reads [of _ _ m])
qed (auto simp: decode_group_message_def Let_def)

section \<open>Layout of the messages\<close>

definition field :: "byte \<Rightarrow> bytes \<Rightarrow> bytes" where
  "field tag data = tag # varint_bytes (of_nat (length data) :: u64) @ data"

definition message_bytes :: "byte \<Rightarrow> bytes \<Rightarrow> u32 \<Rightarrow> bytes \<Rightarrow> bytes" where
  "message_bytes version ratchet_key counter ciphertext =
     version # field RATCHET_KEY_TAG ratchet_key @ (COUNTER_TAG # varint_bytes counter) @
       field CIPHERTEXT_TAG ciphertext"

definition prekey_bytes :: "byte \<Rightarrow> bytes \<Rightarrow> bytes \<Rightarrow> bytes \<Rightarrow> bytes \<Rightarrow> bytes" where
  "prekey_bytes version one_time_key base_key identity_key message =
     version # field ONE_TIME_KEY_ID_TAG one_time_key @ field BASE_KEY_TAG base_key @
       field IDENTITY_KEY_TAG identity_key @ field MESSAGE_TAG message"

definition group_bytes :: "byte \<Rightarrow> u32 \<Rightarrow> bytes \<Rightarrow> bytes" where
  "group_bytes version message_index ciphertext =
     version # (GROUP_MESSAGE_INDEX_TAG # varint_bytes message_index) @
       field GROUP_CIPHERTEXT_TAG ciphertext"

definition field_head :: "byte \<Rightarrow> nat \<Rightarrow> bytes" where
  "field_head tag n = tag # varint_bytes (of_nat n :: u64)"

lemma field_split: "field tag data = field_head tag (length data) @ data"
  by (simp add: field_def field_head_def)

lemma length_field_head: "length (field_head tag n) = 1 + varint_length (of_nat n :: u64)"
  by (simp add: field_head_def varint_length_bytes)

lemma length_field: "length (field tag data) = 1 + varstring_length (length data)"
  by (simp add: field_split length_field_head varstring_length_def)

lemma length_message_bytes:
  "length (message_bytes v k c ct) + mac = encode_message_length c (length k) (length ct) mac"
  by (simp add: message_bytes_def length_field encode_message_length_def varint_length_bytes)

lemma length_prekey_bytes:
  "length (prekey_bytes v otk base idk msg) =
   encode_one_time_key_message_length (length otk) (length idk) (length base) (length msg)"
  by (simp add: prekey_bytes_def length_field encode_one_time_key_message_length_def)

lemma length_group_bytes:
  "length (group_bytes v i ct) + mac + sig = encode_group_message_length i (length ct) mac sig"
  by (simp add: group_bytes_def length_field encode_group_message_length_def varint_length_bytes)

lemma group_bytes_split:
  obtains pre where "group_bytes v i ct = pre @ ct"
  by (rule that [of "v # (GROUP_MESSAGE_INDEX_TAG # varint_bytes i) @
        field_head GROUP_CIPHERTEXT_TAG (length ct)"])
    (simp add: group_bytes_def field_split)

lemma encode_varint_wr:
  "encode_varint m pos tag v =
     (wr m pos (tag # varint_bytes v), pos + length (tag # varint_bytes v))"
  using wr_append [of m pos "[tag]" "varint_bytes v"]
  by (simp add: encode_varint_def varint_encode_wr wr_single)

lemma encode_bytes_wr:
  "encode_bytes m pos tag n =
     (wr m pos (field_head tag n), pos + length (field_head tag n) + n,
      pos + length (field_head tag n))"
  using wr_append [of m pos "[tag]" "varint_bytes (of_nat n :: u64)"]
  by (simp add: encode_bytes_def varint_encode_wr wr_single field_head_def)

text \<open>Filling the gap between two pieces that are already there.\<close>

lemma wr_gap:
  "b = a + length xs \<Longrightarrow> c = b + length gap \<Longrightarrow>
   wr (wr (wr m a xs) c ys) b gap = wr m a (xs @ gap @ ys)"
  by (simp add: wr_append wr_comm)

lemma wr_append_at: "b = a + length xs \<Longrightarrow> wr (wr m a xs) b ys = wr m a (xs @ ys)"
  by (simp add: wr_append)

text \<open>
  What an encoder writes is the message around the gaps it returns pointers to: filling them gives
  the message.
\<close>

definition message_key_pos :: "addr \<Rightarrow> nat \<Rightarrow> addr" where
  "message_key_pos out key_length = out + 1 + length (field_head RATCHET_KEY_TAG key_length)"

definition message_ct_pos :: "addr \<Rightarrow> nat \<Rightarrow> u32 \<Rightarrow> nat \<Rightarrow> addr" where
  "message_ct_pos out key_length counter ct_length =
     message_key_pos out key_length + key_length + 1 + length (varint_bytes counter)
       + length (field_head CIPHERTEXT_TAG ct_length)"

lemma encode_message_layout:
  assumes "encode_message m version counter key_length ct_length out = (m', w)"
    "length key = key_length" "length ct = ct_length"
  shows "mw_ratchet_key w = message_key_pos out key_length"
    "mw_ciphertext w = message_ct_pos out key_length counter ct_length"
    "wr (wr m' (mw_ratchet_key w) key) (mw_ciphertext w) ct =
       wr m out (message_bytes version key counter ct)"
proof -
  let ?A = "version # field_head RATCHET_KEY_TAG key_length"
  let ?B = "(COUNTER_TAG # varint_bytes counter) @ field_head CIPHERTEXT_TAG ct_length"
  let ?kp = "message_key_pos out key_length"
  let ?cp = "message_ct_pos out key_length counter ct_length"
  have e: "m' = wr (wr m out ?A) (?kp + key_length) ?B \<and> mw_ratchet_key w = ?kp \<and> mw_ciphertext w = ?cp"
    using assms(1) wr_append [of m out "[version]" "field_head RATCHET_KEY_TAG key_length"]
      wr_append [of "wr m out ?A" "?kp + key_length" "COUNTER_TAG # varint_bytes counter"
        "field_head CIPHERTEXT_TAG ct_length"]
    by (auto simp: encode_message_def encode_bytes_wr encode_varint_wr wr_single Let_def
        message_key_pos_def message_ct_pos_def add.assoc)
  then show "mw_ratchet_key w = ?kp" "mw_ciphertext w = ?cp" by auto
  have "wr (wr (wr m out ?A) (?kp + key_length) ?B) ?kp key = wr m out (?A @ key @ ?B)"
    by (rule wr_gap) (simp_all add: message_key_pos_def assms(2))
  moreover have "wr (wr m out (?A @ key @ ?B)) ?cp ct = wr m out ((?A @ key @ ?B) @ ct)"
    by (rule wr_append_at) (simp add: message_ct_pos_def message_key_pos_def assms(2))
  ultimately show "wr (wr m' (mw_ratchet_key w) key) (mw_ciphertext w) ct =
      wr m out (message_bytes version key counter ct)"
    using e by (simp add: message_bytes_def field_split assms(2,3))
qed

lemma encode_group_message_layout:
  assumes "encode_group_message m version idx ct_length out = (m', n, p)" "length ct = ct_length"
  shows "wr m' p ct = wr m out (group_bytes version idx ct)"
    "n = length (group_bytes version idx ct)" "p + ct_length = out + n"
proof -
  let ?A = "version # (GROUP_MESSAGE_INDEX_TAG # varint_bytes idx) @
    field_head GROUP_CIPHERTEXT_TAG ct_length"
  have e: "m' = wr m out ?A \<and> n = length ?A + ct_length \<and> p = out + length ?A"
    using assms(1) wr_append [of m out "[version]" "(GROUP_MESSAGE_INDEX_TAG # varint_bytes idx) @
        field_head GROUP_CIPHERTEXT_TAG ct_length"]
      wr_append [of "wr m out [version]" "Suc out" "GROUP_MESSAGE_INDEX_TAG # varint_bytes idx"
        "field_head GROUP_CIPHERTEXT_TAG ct_length"]
    by (auto simp: encode_group_message_def encode_bytes_wr encode_varint_wr wr_single Let_def add.assoc)
  have "wr (wr m out ?A) p ct = wr m out (?A @ ct)"
    by (rule wr_append_at) (use e in simp)
  then show "wr m' p ct = wr m out (group_bytes version idx ct)"
    using e by (simp add: group_bytes_def field_split assms(2))
  show "n = length (group_bytes version idx ct)" "p + ct_length = out + n"
    using e by (simp_all add: group_bytes_def field_split assms(2))
qed

lemma encode_one_time_key_message_layout:
  assumes "encode_one_time_key_message m version (length idk) (length base) (length otk)
      (length msg) out = (m', w)"
  shows "wr (wr (wr (wr m' (pw_one_time_key w) otk) (pw_base_key w) base) (pw_identity_key w) idk)
      (pw_message w) msg = wr m out (prekey_bytes version otk base idk msg)"
proof -
  let ?h1 = "field_head ONE_TIME_KEY_ID_TAG (length otk)"
  let ?h2 = "field_head BASE_KEY_TAG (length base)"
  let ?h3 = "field_head IDENTITY_KEY_TAG (length idk)"
  let ?h4 = "field_head MESSAGE_TAG (length msg)"
  let ?p1 = "out + 1 + length ?h1"
  let ?p2 = "?p1 + length otk + length ?h2"
  let ?p3 = "?p2 + length base + length ?h3"
  let ?p4 = "?p3 + length idk + length ?h4"
  have e: "m' = wr (wr (wr (wr m out (version # ?h1)) (?p1 + length otk) ?h2)
      (?p2 + length base) ?h3) (?p3 + length idk) ?h4"
    and w: "pw_one_time_key w = ?p1" "pw_base_key w = ?p2" "pw_identity_key w = ?p3" "pw_message w = ?p4"
    using assms wr_append [of m out "[version]" ?h1]
    by (auto simp: encode_one_time_key_message_def encode_bytes_wr wr_single Let_def add.assoc)
  have "wr m' ?p1 otk = wr (wr (wr (wr (wr m out (version # ?h1)) (?p1 + length otk) ?h2) ?p1 otk)
      (?p2 + length base) ?h3) (?p3 + length idk) ?h4"
    unfolding e by (simp add: wr_comm)
  also have "wr (wr (wr m out (version # ?h1)) (?p1 + length otk) ?h2) ?p1 otk =
      wr m out ((version # ?h1) @ otk @ ?h2)"
    by (rule wr_gap) simp_all
  finally have 1: "wr m' ?p1 otk = wr (wr (wr m out ((version # ?h1) @ otk @ ?h2))
      (?p2 + length base) ?h3) (?p3 + length idk) ?h4" .
  have "wr (wr m' ?p1 otk) ?p2 base = wr (wr (wr (wr m out ((version # ?h1) @ otk @ ?h2))
      (?p2 + length base) ?h3) ?p2 base) (?p3 + length idk) ?h4"
    unfolding 1 by (rule wr_comm) simp
  also have "wr (wr (wr m out ((version # ?h1) @ otk @ ?h2)) (?p2 + length base) ?h3) ?p2 base =
      wr m out (((version # ?h1) @ otk @ ?h2) @ base @ ?h3)"
    by (rule wr_gap) simp_all
  finally have 2: "wr (wr m' ?p1 otk) ?p2 base =
      wr (wr m out (((version # ?h1) @ otk @ ?h2) @ base @ ?h3)) (?p3 + length idk) ?h4" .
  have 3: "wr (wr (wr m' ?p1 otk) ?p2 base) ?p3 idk =
      wr m out ((((version # ?h1) @ otk @ ?h2) @ base @ ?h3) @ idk @ ?h4)"
    unfolding 2 by (rule wr_gap) simp_all
  have "wr (wr (wr (wr m' ?p1 otk) ?p2 base) ?p3 idk) ?p4 msg =
      wr m out (((((version # ?h1) @ otk @ ?h2) @ base @ ?h3) @ idk @ ?h4) @ msg)"
    unfolding 3 by (rule wr_append_at) simp
  then show ?thesis
    by (simp add: w prekey_bytes_def field_split)
qed

section \<open>Decoding what was encoded\<close>

lemma decode_bytes_field:
  assumes "stored m pos (field tag data)" "pos + length (field tag data) \<le> end" "length data < 2 ^ 64"
  shows "decode_bytes m pos end tag v n =
    (pos + length (field tag data), Some (pos + length (field_head tag (length data))), length data)"
proof -
  let ?v = "of_nat (length data) :: u64"
  have u: "unat ?v = length data" using assms(3) by (simp add: unsigned_of_nat take_bit_nat_eq_self)
  have s: "varint_skip m (pos + 1) end = pos + 1 + length (varint_bytes ?v)"
    by (rule varint_skip_bytes) (use assms in \<open>simp_all add: field_def\<close>)
  have d: "varint_decode m (pos + 1) (pos + 1 + length (varint_bytes ?v)) = ?v"
    by (rule varint_decode_bytes) (use assms in \<open>simp add: field_def\<close>)
  have t: "m pos = tag" "pos \<noteq> end" using assms by (simp_all add: field_def)
  have l: "\<not> length data > end - (pos + 1 + length (varint_bytes ?v))"
    using assms(2) by (simp add: field_def)
  show ?thesis
    unfolding decode_bytes_def Let_def s d u
    using t l by (simp add: field_def field_head_def)
qed

lemma decode_varint_field:
  assumes "stored m pos (tag # varint_bytes v)" "pos + length (tag # varint_bytes v) \<le> end"
  shows "decode_varint m pos end tag old h = (pos + length (tag # varint_bytes v), v, True)"
proof -
  have s: "varint_skip m (pos + 1) end = pos + 1 + length (varint_bytes v)"
    by (rule varint_skip_bytes) (use assms in simp_all)
  have d: "varint_decode m (pos + 1) (pos + 1 + length (varint_bytes v)) = v"
    by (rule varint_decode_bytes) (use assms in simp)
  show ?thesis
    unfolding decode_varint_def Let_def s d using assms by simp
qed

text \<open>Lengths are \<open>size_t\<close>: the fields have to be shorter than the address space.\<close>

lemma decode_message_bytes:
  assumes "stored m inp (message_bytes version key counter ct)"
    "n = length (message_bytes version key counter ct) + mac"
    "length key < 2 ^ 64" "length ct < 2 ^ 64"
  shows "decode_message m reader inp n mac = reader
    \<lparr>mr_version := version, mr_has_counter := True, mr_counter := counter,
     mr_input := inp, mr_input_length := n,
     mr_ratchet_key := Some (message_key_pos inp (length key)), mr_ratchet_key_length := length key,
     mr_ciphertext := Some (message_ct_pos inp (length key) counter (length ct)),
     mr_ciphertext_length := length ct\<rparr>"
proof -
  let ?lim = "inp + length (message_bytes version key counter ct)"
  let ?f1 = "field RATCHET_KEY_TAG key" and ?f2 = "COUNTER_TAG # varint_bytes counter"
  let ?f3 = "field CIPHERTEXT_TAG ct"
  have e: "?lim = inp + 1 + length ?f1 + length ?f2 + length ?f3"
    by (simp add: message_bytes_def)
  have st: "m inp = version" "stored m (inp + 1) ?f1" "stored m (inp + 1 + length ?f1) ?f2"
    "stored m (inp + 1 + length ?f1 + length ?f2) ?f3"
    using assms(1) by (simp_all add: message_bytes_def)
  have 1: "decode_bytes m (inp + 1) ?lim RATCHET_KEY_TAG v k =
     (inp + 1 + length ?f1, Some (message_key_pos inp (length key)), length key)" for v k
    using st assms(3) e unfolding message_key_pos_def by (intro decode_bytes_field) simp_all
  have 2: "decode_varint m (inp + 1 + length ?f1) ?lim COUNTER_TAG v h =
     (inp + 1 + length ?f1 + length ?f2, counter, True)" for v h
    using st e by (intro decode_varint_field) simp_all
  have 3: "decode_bytes m (inp + 1 + length ?f1 + length ?f2) ?lim CIPHERTEXT_TAG v k =
     (?lim, Some (message_ct_pos inp (length key) counter (length ct)), length ct)" for v k
    using st assms(4) e
    by (subst decode_bytes_field)
      (simp_all add: message_ct_pos_def message_key_pos_def field_split)
  have step: "message_step m (inp + 1) ?lim r = (?lim, r
    \<lparr>mr_ratchet_key := Some (message_key_pos inp (length key)), mr_ratchet_key_length := length key,
     mr_counter := counter, mr_has_counter := True,
     mr_ciphertext := Some (message_ct_pos inp (length key) counter (length ct)),
     mr_ciphertext_length := length ct\<rparr>)" for r
    unfolding message_step_def by (simp only: 1 2 3 Let_def prod.case)
  have "0 < ?lim - (inp + 1)" "inp + 1 < ?lim" unfolding e by (simp_all add: field_def)
  note loop = message.loop_one_pass [OF step this(2,1)]
  have en: "inp + n - mac = ?lim" "(n < mac) = False" "(inp = ?lim) = False"
    using assms(2) e by simp_all
  show ?thesis
    unfolding decode_message_def Let_def en
    by (simp only: if_False loop snd_conv st(1)) simp
qed

lemma decode_group_message_bytes:
  assumes "stored m inp (group_bytes version idx ct)"
    "n = length (group_bytes version idx ct) + mac + sig" "length ct < 2 ^ 64"
  shows "decode_group_message m inp n mac sig results = results
    \<lparr>gr_version := version, gr_message_index := idx, gr_has_message_index := True,
     gr_ciphertext := Some (inp + length (group_bytes version idx ct) - length ct),
     gr_ciphertext_length := length ct\<rparr>"
proof -
  let ?lim = "inp + length (group_bytes version idx ct)"
  let ?f1 = "GROUP_MESSAGE_INDEX_TAG # varint_bytes idx" and ?f2 = "field GROUP_CIPHERTEXT_TAG ct"
  have e: "?lim = inp + 1 + length ?f1 + length ?f2"
    by (simp add: group_bytes_def)
  have st: "m inp = version" "stored m (inp + 1) ?f1" "stored m (inp + 1 + length ?f1) ?f2"
    using assms(1) by (simp_all add: group_bytes_def)
  have 1: "decode_varint m (inp + 1) ?lim GROUP_MESSAGE_INDEX_TAG v h =
     (inp + 1 + length ?f1, idx, True)" for v h
    using st e by (intro decode_varint_field) simp_all
  have 2: "decode_bytes m (inp + 1 + length ?f1) ?lim GROUP_CIPHERTEXT_TAG v k =
     (?lim, Some (?lim - length ct), length ct)" for v k
    using st assms(3) e by (subst decode_bytes_field) (simp_all add: field_split)
  have step: "group_step m (inp + 1) ?lim (r, h) = (?lim, r
    \<lparr>gr_message_index := idx, gr_ciphertext := Some (?lim - length ct),
     gr_ciphertext_length := length ct\<rparr>, True)" for r h
    unfolding group_step_def by (simp only: 1 2 Let_def prod.case)
  have "0 < ?lim - (inp + 1)" "inp + 1 < ?lim" unfolding e by (simp_all add: field_def)
  note loop = group.loop_one_pass [OF step this(2,1)]
  have en: "inp + n - (mac + sig) = ?lim" "(n < mac + sig) = False" "(inp = ?lim) = False"
    using assms(2) e by simp_all
  show ?thesis
    unfolding decode_group_message_def Let_def en
    by (simp only: if_False loop snd_conv st(1) prod.case) simp
qed

definition prekey_otk_pos :: "addr \<Rightarrow> nat \<Rightarrow> addr" where
  "prekey_otk_pos inp otk_length = inp + 1 + length (field_head ONE_TIME_KEY_ID_TAG otk_length)"

definition prekey_base_pos :: "addr \<Rightarrow> nat \<Rightarrow> nat \<Rightarrow> addr" where
  "prekey_base_pos inp otk_length base_length =
     prekey_otk_pos inp otk_length + otk_length + length (field_head BASE_KEY_TAG base_length)"

definition prekey_identity_pos :: "addr \<Rightarrow> nat \<Rightarrow> nat \<Rightarrow> nat \<Rightarrow> addr" where
  "prekey_identity_pos inp otk_length base_length identity_length =
     prekey_base_pos inp otk_length base_length + base_length
       + length (field_head IDENTITY_KEY_TAG identity_length)"

definition prekey_message_pos :: "addr \<Rightarrow> nat \<Rightarrow> nat \<Rightarrow> nat \<Rightarrow> nat \<Rightarrow> addr" where
  "prekey_message_pos inp otk_length base_length identity_length message_length =
     prekey_identity_pos inp otk_length base_length identity_length + identity_length
       + length (field_head MESSAGE_TAG message_length)"

lemma decode_one_time_key_message_bytes:
  assumes "stored m inp (prekey_bytes version otk base idk msg)"
    "length otk < 2 ^ 64" "length base < 2 ^ 64" "length idk < 2 ^ 64" "length msg < 2 ^ 64"
  shows "decode_one_time_key_message m reader inp (length (prekey_bytes version otk base idk msg)) =
    reader
    \<lparr>pk_version := version,
     pk_one_time_key := Some (prekey_otk_pos inp (length otk)), pk_one_time_key_length := length otk,
     pk_base_key := Some (prekey_base_pos inp (length otk) (length base)),
     pk_base_key_length := length base,
     pk_identity_key := Some (prekey_identity_pos inp (length otk) (length base) (length idk)),
     pk_identity_key_length := length idk,
     pk_message := Some (prekey_message_pos inp (length otk) (length base) (length idk) (length msg)),
     pk_message_length := length msg\<rparr>"
proof -
  let ?lim = "inp + length (prekey_bytes version otk base idk msg)"
  let ?f1 = "field ONE_TIME_KEY_ID_TAG otk" and ?f2 = "field BASE_KEY_TAG base"
  let ?f3 = "field IDENTITY_KEY_TAG idk" and ?f4 = "field MESSAGE_TAG msg"
  let ?p1 = "inp + 1"
  let ?p2 = "?p1 + length ?f1"
  let ?p3 = "?p2 + length ?f2"
  let ?p4 = "?p3 + length ?f3"
  have e: "?lim = ?p4 + length ?f4"
    by (simp add: prekey_bytes_def)
  have st: "m inp = version" "stored m ?p1 ?f1" "stored m ?p2 ?f2" "stored m ?p3 ?f3" "stored m ?p4 ?f4"
    using assms(1) by (simp_all add: prekey_bytes_def)
  note pos = prekey_otk_pos_def prekey_base_pos_def prekey_identity_pos_def prekey_message_pos_def
  have 1: "decode_bytes m ?p1 ?lim ONE_TIME_KEY_ID_TAG v k =
     (?p2, Some (prekey_otk_pos inp (length otk)), length otk)" for v k
    using st assms(2) e by (subst decode_bytes_field) (simp_all add: pos)
  have 2: "decode_bytes m ?p2 ?lim BASE_KEY_TAG v k =
     (?p3, Some (prekey_base_pos inp (length otk) (length base)), length base)" for v k
    using st assms(3) e by (subst decode_bytes_field) (simp_all add: pos field_split)
  have 3: "decode_bytes m ?p3 ?lim IDENTITY_KEY_TAG v k =
     (?p4, Some (prekey_identity_pos inp (length otk) (length base) (length idk)), length idk)" for v k
    using st assms(4) e by (subst decode_bytes_field) (simp_all add: pos field_split)
  have 4: "decode_bytes m ?p4 ?lim MESSAGE_TAG v k =
     (?lim, Some (prekey_message_pos inp (length otk) (length base) (length idk) (length msg)),
      length msg)" for v k
    using st assms(5) e by (subst decode_bytes_field) (simp_all add: pos field_split)
  note step = prekey_step_def [of m ?p1 ?lim, unfolded 1 2 3 4 Let_def prod.case]
  have "0 < ?lim - ?p1" "?p1 < ?lim" unfolding e by (simp_all add: field_def)
  note loop = prekey.loop_one_pass [OF step this(2,1)]
  have "inp \<noteq> ?lim" using e by simp
  then show ?thesis
    unfolding decode_one_time_key_message_def Let_def
    by (simp only: if_False loop snd_conv st(1)) simp
qed

section \<open>Where the fields are\<close>

lemma message_fields:
  assumes "stored m inp (message_bytes version key counter ct)"
  shows "stored m (message_key_pos inp (length key)) key"
    "stored m (message_ct_pos inp (length key) counter (length ct)) ct"
  using assms by (simp_all add: message_bytes_def field_split message_key_pos_def message_ct_pos_def
      add.assoc add.commute add.left_commute)

lemma prekey_fields:
  assumes "stored m inp (prekey_bytes version otk base idk msg)"
  shows "stored m (prekey_otk_pos inp (length otk)) otk"
    "stored m (prekey_base_pos inp (length otk) (length base)) base"
    "stored m (prekey_identity_pos inp (length otk) (length base) (length idk)) idk"
    "stored m (prekey_message_pos inp (length otk) (length base) (length idk) (length msg)) msg"
  using assms by (simp_all add: prekey_bytes_def field_split prekey_otk_pos_def prekey_base_pos_def
      prekey_identity_pos_def prekey_message_pos_def add.assoc add.commute add.left_commute)

section \<open>Zeroed readers\<close>

text \<open>A possible content of the uninitialised readers, for the examples.\<close>

definition zero_reader :: MessageReader where
  "zero_reader =
     \<lparr>mr_version = 0, mr_has_counter = False, mr_counter = 0, mr_input = 0, mr_input_length = 0,
      mr_ratchet_key = None, mr_ratchet_key_length = 0, mr_ciphertext = None, mr_ciphertext_length = 0\<rparr>"

definition zero_prekey_reader :: PreKeyMessageReader where
  "zero_prekey_reader =
     \<lparr>pk_version = 0, pk_identity_key = None, pk_identity_key_length = 0, pk_base_key = None,
      pk_base_key_length = 0, pk_one_time_key = None, pk_one_time_key_length = 0,
      pk_message = None, pk_message_length = 0\<rparr>"

definition zero_group_results :: DecodeGroupMessageResults where
  "zero_group_results =
     \<lparr>gr_version = 0, gr_message_index = 0, gr_has_message_index = False, gr_ciphertext = None,
      gr_ciphertext_length = 0\<rparr>"

section \<open>Properties\<close>

text \<open>
  Varints round-trip: what \<open>varint_encode\<close> writes for a word, \<open>varint_skip\<close> passes over exactly
  and \<open>varint_decode\<close> reads back, and its size is what \<open>varint_length\<close> announces.
\<close>

theorem varint_round_trip:
  assumes "varint_encode m pos (v :: 'a::len word) = (m', end')" "end' \<le> lim" "8 \<le> LENGTH('a)"
  shows "varint_skip m' pos lim = end' \<and> varint_decode m' pos end' = v \<and>
    end' = pos + varint_length v"
  using assms by (auto simp: varint_encode_wr varint_skip_bytes varint_decode_bytes varint_length_bytes)

theorem varint_round_trip_witness:
  "\<exists>m' e. varint_encode (\<lambda>i. 0) 4 (300 :: u32) = (m', e) \<and> varint_skip m' 4 e = e \<and>
     varint_decode m' 4 e = (300 :: u32)"
proof -
  obtain m' e where v: "varint_encode (\<lambda>i. 0) 4 (300 :: u32) = (m', e)" by fastforce
  show ?thesis using varint_round_trip [OF v, of e] v by auto
qed

text \<open>
  C33 Decoding is memory safe on any input, however malformed or short: every field pointer of the
  reader is null with length zero or points to a region inside the input before the trailer, which is
  empty where the input is shorter than the trailer; and the result depends on the bytes of that
  region only, so that no other byte is read.
\<close>

theorem decoders_stay_inside:
  "message_inside inp (inp + (n - mac_length)) (decode_message m mr inp n mac_length) \<and>
    prekey_inside inp (inp + n) (decode_one_time_key_message m pk inp n) \<and>
    group_inside inp (inp + (n - (mac_length + sig_length)))
      (decode_group_message m inp n mac_length sig_length gr, has_index) \<and>
    (same_bytes inp (inp + (n - mac_length)) m m' \<longrightarrow>
      decode_message m' mr inp n mac_length = decode_message m mr inp n mac_length) \<and>
    (same_bytes inp (inp + n) m m' \<longrightarrow>
      decode_one_time_key_message m' pk inp n = decode_one_time_key_message m pk inp n) \<and>
    (same_bytes inp (inp + (n - (mac_length + sig_length))) m m' \<longrightarrow>
      decode_group_message m' inp n mac_length sig_length gr =
      decode_group_message m inp n mac_length sig_length gr)"
  by (intro conjI impI decode_message_inside decode_one_time_key_message_inside decode_group_message_inside
      decode_message_reads decode_one_time_key_message_reads decode_group_message_reads)

theorem decoders_stay_inside_witness:
  "message_inside 10 16 (decode_message (\<lambda>i. 0x0A) zero_reader 10 14 8) \<and>
   prekey_inside 10 24 (decode_one_time_key_message (\<lambda>i. 0x0A) zero_prekey_reader 10 14) \<and>
   decode_message (\<lambda>i. if i < 16 then 0x0A else 7) zero_reader 10 14 8 =
     decode_message (\<lambda>i. 0x0A) zero_reader 10 14 8 \<and>
   decode_message (\<lambda>i. 7) zero_reader 10 5 8 = decode_message (\<lambda>i. 0x0A) zero_reader 10 5 8"
proof -
  have s: "same_bytes 10 (10 + (14 - 8)) (\<lambda>i. 0x0A) (\<lambda>i. if i < 16 then 0x0A else 7)"
    "same_bytes 10 (10 + (5 - 8)) (\<lambda>i. 0x0A) (\<lambda>i. 7)"
    by (simp_all add: same_bytes_def)
  note t = decoders_stay_inside [where inp = 10 and mac_length = 8 and m = "\<lambda>i. 0x0A" and mr = zero_reader
      and pk = zero_prekey_reader and sig_length = 0]
  show ?thesis
    using t [of 14 _ _ "\<lambda>i. if i < 16 then 0x0A else 7"] t [of 5 _ _ "\<lambda>i. 7"] s by simp
qed

text \<open>
  C34 The loop of each decoder terminates whatever the bytes are: with one iteration per byte it
  reaches the end of the input, and more iterations change nothing.
\<close>

theorem decode_loops_terminate:
  assumes "pos \<le> end"
  shows "fst (field_loop (end - pos) message_step m pos end mr) = end \<and>
    field_loop (end - pos + k) message_step m pos end mr = field_loop (end - pos) message_step m pos end mr \<and>
    fst (field_loop (end - pos) prekey_step m pos end pk) = end \<and>
    field_loop (end - pos + k) prekey_step m pos end pk = field_loop (end - pos) prekey_step m pos end pk \<and>
    fst (field_loop (end - pos) group_step m pos end gr) = end \<and>
    field_loop (end - pos + k) group_step m pos end gr = field_loop (end - pos) group_step m pos end gr"
  by (intro conjI message.loop_done message.loop_more prekey.loop_done prekey.loop_more
      group.loop_done group.loop_more assms order.refl)

theorem decode_loops_terminate_witness:
  "fst (field_loop 4 message_step (\<lambda>i. 7) 10 14 zero_reader) = 14"
  using decode_loops_terminate [of 10 14 "\<lambda>i. 7" zero_reader 0] by simp

text \<open>
  Decoding a pre-key message inverts encoding it: after \<open>encode_one_time_key_message\<close> and the
  caller's copies of the keys and the inner message to the returned pointers, the reader's pointers
  give exactly these bytes.
\<close>

theorem prekey_message_round_trip:
  assumes "encode_one_time_key_message m version (length idk) (length base) (length otk) (length msg) out
      = (m1, w)"
    "m2 = wr (wr (wr (wr m1 (pw_one_time_key w) otk) (pw_base_key w) base) (pw_identity_key w) idk)
      (pw_message w) msg"
    "length idk = 32" "length base = 32" "length otk = 32" "length msg < 2 ^ 64"
    "n = encode_one_time_key_message_length 32 32 32 (length msg)"
    "r = decode_one_time_key_message m2 junk out n"
  shows "pk_version r = version \<and>
    rd m2 (the (pk_one_time_key r)) (pk_one_time_key_length r) = otk \<and>
    rd m2 (the (pk_base_key r)) (pk_base_key_length r) = base \<and>
    rd m2 (the (pk_identity_key r)) (pk_identity_key_length r) = idk \<and>
    rd m2 (the (pk_message r)) (pk_message_length r) = msg \<and>
    frame m m2 out n"
proof -
  let ?msg = "prekey_bytes version otk base idk msg"
  have n: "n = length ?msg" by (simp add: assms(3-5,7) length_prekey_bytes)
  have m2: "m2 = wr m out ?msg"
    unfolding assms(2) by (rule encode_one_time_key_message_layout [OF assms(1)])
  then have st: "stored m2 out ?msg" by simp
  have "frame m m2 out n" unfolding m2 by (rule frame_wr) (simp_all add: n)
  with prekey_fields [OF st] show ?thesis
    using decode_one_time_key_message_bytes [OF st, of junk] assms(3-6)
    by (simp add: assms(8) n stored_rd)
qed

theorem prekey_message_round_trip_witness:
  "\<exists>m1 w. encode_one_time_key_message (\<lambda>i. 0) 3 32 32 32 0 100 = (m1, w) \<and>
    pk_version (decode_one_time_key_message (wr (wr (wr (wr m1 (pw_one_time_key w) (replicate 32 1))
      (pw_base_key w) (replicate 32 2)) (pw_identity_key w) (replicate 32 3)) (pw_message w) [])
      zero_prekey_reader 100 (encode_one_time_key_message_length 32 32 32 0)) = 3"
proof -
  obtain m1 w where e: "encode_one_time_key_message (\<lambda>i. 0) 3 32 32 32 0 100 = (m1, w)" by fastforce
  then show ?thesis
    using prekey_message_round_trip [of "\<lambda>i. 0" 3 "replicate 32 3" "replicate 32 2" "replicate 32 1"
        "[]" 100 m1 w _ _ _ zero_prekey_reader] by simp
qed

end
