(* ===== verification/Base64.thy ===== *)
theory Base64
  imports OlmMemory
begin

text \<open>
  \<open>src/base64.cpp\<close>: unpadded base64.  The loops run over the flat memory, because the library
  encodes and decodes in place: a message is built at the end of the caller's buffer and encoded to
  its start, and a received message is decoded over itself.  The lists \<open>b64_encode\<close> and
  \<open>b64_decode\<close> are the reference the in-place loops are shown to compute.
\<close>

section \<open>Tables\<close>

definition ENCODE_BASE64 :: bytes where
  "ENCODE_BASE64 =
     [0x41, 0x42, 0x43, 0x44, 0x45, 0x46, 0x47, 0x48,
      0x49, 0x4A, 0x4B, 0x4C, 0x4D, 0x4E, 0x4F, 0x50,
      0x51, 0x52, 0x53, 0x54, 0x55, 0x56, 0x57, 0x58,
      0x59, 0x5A, 0x61, 0x62, 0x63, 0x64, 0x65, 0x66,
      0x67, 0x68, 0x69, 0x6A, 0x6B, 0x6C, 0x6D, 0x6E,
      0x6F, 0x70, 0x71, 0x72, 0x73, 0x74, 0x75, 0x76,
      0x77, 0x78, 0x79, 0x7A, 0x30, 0x31, 0x32, 0x33,
      0x34, 0x35, 0x36, 0x37, 0x38, 0x39, 0x2B, 0x2F]"

abbreviation E :: byte where
  "E \<equiv> 255"

definition DECODE_BASE64 :: bytes where
  "DECODE_BASE64 =
     [E,  E,  E,  E,  E,  E,  E,  E,  E,  E,  E,  E,  E,  E,  E,  E,
      E,  E,  E,  E,  E,  E,  E,  E,  E,  E,  E,  E,  E,  E,  E,  E,
      E,  E,  E,  E,  E,  E,  E,  E,  E,  E,  E, 62,  E,  E,  E, 63,
     52, 53, 54, 55, 56, 57, 58, 59, 60, 61,  E,  E,  E,  E,  E,  E,
      E,  0,  1,  2,  3,  4,  5,  6,  7,  8,  9, 10, 11, 12, 13, 14,
     15, 16, 17, 18, 19, 20, 21, 22, 23, 24, 25,  E,  E,  E,  E,  E,
      E, 26, 27, 28, 29, 30, 31, 32, 33, 34, 35, 36, 37, 38, 39, 40,
     41, 42, 43, 44, 45, 46, 47, 48, 49, 50, 51,  E,  E,  E,  E,  E]"

text \<open>The two table look-ups of the loops, on the 32-bit \<open>unsigned value\<close> and on a character.\<close>

definition enc_char :: "u32 \<Rightarrow> byte" where
  "enc_char v = ENCODE_BASE64 ! unat v"

definition dec_char :: "byte \<Rightarrow> u32" where
  "dec_char c = ucast (DECODE_BASE64 ! unat (c AND 0x7F))"

section \<open>Lengths\<close>

definition encode_base64_length :: "nat \<Rightarrow> nat" where
  "encode_base64_length input_length =
     4 * ((input_length + 2) div 3) + (input_length + 2) mod 3 - 2"

text \<open>\<open>None\<close> is the code's \<open>size_t(-1)\<close>.\<close>

definition decode_base64_length :: "nat \<Rightarrow> nat option" where
  "decode_base64_length input_length =
     (if input_length mod 4 = 1 then None
      else Some (3 * ((input_length + 2) div 4) + (input_length + 2) mod 4 - 2))"

section \<open>Encoding\<close>

text \<open>The loop over the whole groups, \<open>n = input_length / 3\<close> of them.\<close>

primrec encode_loop :: "nat \<Rightarrow> mem \<Rightarrow> addr \<Rightarrow> addr \<Rightarrow> mem \<times> addr \<times> addr" where
  "encode_loop 0 m pos output = (m, pos, output)"
| "encode_loop (Suc n) m pos output =
     (let value = ucast (m pos) :: u32;
          value = push_bit 8 value OR ucast (m (pos + 1));
          value = push_bit 8 value OR ucast (m (pos + 2));
          m = m(output + 3 := enc_char (value AND 0x3F));
          value = drop_bit 6 value;
          m = m(output + 2 := enc_char (value AND 0x3F));
          value = drop_bit 6 value;
          m = m(output + 1 := enc_char (value AND 0x3F));
          value = drop_bit 6 value;
          m = m(output := enc_char value)
      in encode_loop n m (pos + 3) (output + 4))"

definition encode_base64 :: "mem \<Rightarrow> addr \<Rightarrow> nat \<Rightarrow> addr \<Rightarrow> mem \<times> addr" where
  "encode_base64 m input input_length output =
     (let (m, pos, output) = encode_loop (input_length div 3) m input output;
          remainder = input + input_length - pos
      in if remainder \<noteq> 0 then
           let value = ucast (m pos) :: u32;
               (m, value, result) =
                 (if remainder = 2 then
                    let value = push_bit 8 value OR ucast (m (pos + 1));
                        value = push_bit 2 value;
                        m = m(output + 2 := enc_char (value AND 0x3F))
                    in (m, drop_bit 6 value, output + 3)
                  else (m, push_bit 4 value, output + 2));
               m = m(output + 1 := enc_char (value AND 0x3F));
               value = drop_bit 6 value;
               m = m(output := enc_char value)
           in (m, result)
         else (m, output))"

section \<open>Decoding\<close>

primrec decode_loop :: "nat \<Rightarrow> mem \<Rightarrow> addr \<Rightarrow> addr \<Rightarrow> mem \<times> addr \<times> addr" where
  "decode_loop 0 m pos output = (m, pos, output)"
| "decode_loop (Suc n) m pos output =
     (let value = dec_char (m pos);
          value = push_bit 6 value OR dec_char (m (pos + 1));
          value = push_bit 6 value OR dec_char (m (pos + 2));
          value = push_bit 6 value OR dec_char (m (pos + 3));
          m = m(output + 2 := ucast value);
          value = drop_bit 8 value;
          m = m(output + 1 := ucast value);
          value = drop_bit 8 value;
          m = m(output := ucast value)
      in decode_loop n m (pos + 4) (output + 3))"

definition decode_base64 :: "mem \<Rightarrow> addr \<Rightarrow> nat \<Rightarrow> addr \<Rightarrow> mem" where
  "decode_base64 m input input_length output =
     (let (m, pos, output) = decode_loop (input_length div 4) m input output;
          remainder = input + input_length - pos
      in if remainder \<noteq> 0 then
           let value = dec_char (m pos);
               value = push_bit 6 value OR dec_char (m (pos + 1));
               (m, value) =
                 (if remainder = 3 then
                    let value = push_bit 6 value OR dec_char (m (pos + 2));
                        value = drop_bit 2 value;
                        m = m(output + 1 := ucast value)
                    in (m, drop_bit 8 value)
                  else (m, drop_bit 4 value));
               m = m(output := ucast value)
           in m
         else m)"

text \<open>The wrappers of \<open>base64.h\<close>, which return a length.\<close>

definition olm_encode_base64 :: "mem \<Rightarrow> addr \<Rightarrow> nat \<Rightarrow> addr \<Rightarrow> mem \<times> nat" where
  "olm_encode_base64 m input input_length output =
     (let (m', r) = encode_base64 m input input_length output in (m', r - output))"

definition olm_decode_base64 :: "mem \<Rightarrow> addr \<Rightarrow> nat \<Rightarrow> addr \<Rightarrow> mem \<times> nat option" where
  "olm_decode_base64 m input input_length output =
     (decode_base64 m input input_length output, decode_base64_length input_length)"

section \<open>Reference: base64 of a list\<close>

definition enc3 :: "byte \<Rightarrow> byte \<Rightarrow> byte \<Rightarrow> bytes" where
  "enc3 a b c =
     (let v = push_bit 8 (push_bit 8 (ucast a) OR ucast b) OR ucast c :: u32
      in [enc_char (drop_bit 6 (drop_bit 6 (drop_bit 6 v))),
          enc_char (drop_bit 6 (drop_bit 6 v) AND 0x3F),
          enc_char (drop_bit 6 v AND 0x3F),
          enc_char (v AND 0x3F)])"

definition enc2 :: "byte \<Rightarrow> byte \<Rightarrow> bytes" where
  "enc2 a b =
     (let v = push_bit 2 (push_bit 8 (ucast a) OR ucast b) :: u32
      in [enc_char (drop_bit 6 (drop_bit 6 v)), enc_char (drop_bit 6 v AND 0x3F),
          enc_char (v AND 0x3F)])"

definition enc1 :: "byte \<Rightarrow> bytes" where
  "enc1 a =
     (let v = push_bit 4 (ucast a) :: u32 in [enc_char (drop_bit 6 v), enc_char (v AND 0x3F)])"

fun b64_encode :: "bytes \<Rightarrow> bytes" where
  "b64_encode (a # b # c # xs) = enc3 a b c @ b64_encode xs"
| "b64_encode [a, b] = enc2 a b"
| "b64_encode [a] = enc1 a"
| "b64_encode [] = []"

definition dec4 :: "byte \<Rightarrow> byte \<Rightarrow> byte \<Rightarrow> byte \<Rightarrow> bytes" where
  "dec4 a b c d =
     (let v = push_bit 6 (push_bit 6 (push_bit 6 (dec_char a) OR dec_char b) OR dec_char c)
                OR dec_char d
      in [ucast (drop_bit 8 (drop_bit 8 v)), ucast (drop_bit 8 v), ucast v])"

definition dec3 :: "byte \<Rightarrow> byte \<Rightarrow> byte \<Rightarrow> bytes" where
  "dec3 a b c =
     (let v = drop_bit 2 (push_bit 6 (push_bit 6 (dec_char a) OR dec_char b) OR dec_char c)
      in [ucast (drop_bit 8 v), ucast v])"

definition dec2 :: "byte \<Rightarrow> byte \<Rightarrow> bytes" where
  "dec2 a b = [ucast (drop_bit 4 (push_bit 6 (dec_char a) OR dec_char b))]"

text \<open>A single left-over character is not a base64 string; the length function refuses it.\<close>

fun b64_decode :: "bytes \<Rightarrow> bytes" where
  "b64_decode (a # b # c # d # xs) = dec4 a b c d @ b64_decode xs"
| "b64_decode [a, b, c] = dec3 a b c"
| "b64_decode [a, b] = dec2 a b"
| "b64_decode _ = []"

section \<open>The loops compute the reference\<close>

lemma length_enc [simp]:
  "length (enc3 a b c) = 4" "length (enc2 a b) = 3" "length (enc1 a) = 2"
  by (simp_all add: enc3_def enc2_def enc1_def Let_def)

lemma length_dec [simp]:
  "length (dec4 a b c d) = 3" "length (dec3 a b c) = 2" "length (dec2 a b) = 1"
  by (simp_all add: dec4_def dec3_def dec2_def Let_def)

lemma encode_base64_length_add3:
  "encode_base64_length (Suc (Suc (Suc n))) = 4 + encode_base64_length n"
proof -
  obtain q r where q: "(n + 2) div 3 = q" and r: "(n + 2) mod 3 = r" by blast
  have le: "2 \<le> 4 * q + r"
    using div_mult_mod_eq [of "n + 2" 3] unfolding q r by linarith
  have eq: "Suc (Suc (Suc n)) + 2 = (n + 2) + 3" by simp
  have "(n + 2 + 3) div 3 = Suc q" "(n + 2 + 3) mod 3 = r"
    unfolding q [symmetric] r [symmetric] by (subst div_add_self2; simp) (rule mod_add_self2)
  then show ?thesis
    unfolding encode_base64_length_def eq q r using le by simp
qed

lemma length_b64_encode [simp, len_simps]:
  "length (b64_encode bs) = encode_base64_length (length bs)"
proof (induction bs rule: b64_encode.induct)
  case (1 a b c xs)
  then show ?case by (simp only: b64_encode.simps length_append length_enc list.size(4)
        add_Suc_right add_0_right plus_1_eq_Suc One_nat_def add_Suc encode_base64_length_add3)
qed (simp_all add: encode_base64_length_def)

lemma Suc3_mod3: "Suc (Suc (Suc n)) mod 3 = n mod 3"
  by presburger

lemma Suc4_mod4: "Suc (Suc (Suc (Suc n))) mod 4 = n mod 4"
  by presburger

lemma b64_encode_append:
  "length xs mod 3 = 0 \<Longrightarrow> b64_encode (xs @ ys) = b64_encode xs @ b64_encode ys"
  by (induction xs rule: b64_encode.induct) (auto simp: Suc3_mod3)

lemma b64_decode_append:
  "length xs mod 4 = 0 \<Longrightarrow> b64_decode (xs @ ys) = b64_decode xs @ b64_decode ys"
  by (induction xs rule: b64_decode.induct) (auto simp: Suc4_mod4)

lemma length_b64_decode4:
  "length xs = 4 * q \<Longrightarrow> length (b64_decode xs) = 3 * q"
proof (induction xs arbitrary: q rule: b64_decode.induct)
  case (1 a b c d xs)
  then obtain k where "q = Suc k" by (cases q) auto
  with 1 show ?case by simp
qed (simp_all, presburger+)

lemma rd3: "rd m a 3 = [m a, m (a + 1), m (a + 2)]"
  by (simp add: numeral_3_eq_3 rd_Suc)

lemma rd4: "rd m a 4 = [m a, m (a + 1), m (a + 2), m (a + 3)]"
  by (simp add: numeral_eq_Suc rd_Suc)

lemma wr4: "wr m a [w, x, y, z] = (((m(a + 3 := z))(a + 2 := y))(a + 1 := x))(a := w)"
  by (auto simp: wr_def fun_eq_iff nth_Cons split: nat.splits)

lemma wr3: "wr m a [w, x, y] = ((m(a + 2 := y))(a + 1 := x))(a := w)"
  by (auto simp: wr_def fun_eq_iff nth_Cons split: nat.splits)

lemma wr2: "wr m a [w, x] = (m(a + 1 := x))(a := w)"
  by (auto simp: wr_def fun_eq_iff nth_Cons split: nat.splits)

lemma encode_loop_step:
  "encode_loop (Suc n) m pos out =
     encode_loop n (wr m out (enc3 (m pos) (m (pos + 1)) (m (pos + 2)))) (pos + 3) (out + 4)"
  by (simp add: enc3_def Let_def wr4 del: One_nat_def)

lemma decode_loop_step:
  "decode_loop (Suc n) m pos out =
     decode_loop n (wr m out (dec4 (m pos) (m (pos + 1)) (m (pos + 2)) (m (pos + 3))))
       (pos + 4) (out + 3)"
  by (simp add: dec4_def Let_def wr3 del: One_nat_def)

lemma encode_loop_wr:
  assumes "out + n \<le> pos \<or> pos + 3 * n \<le> out"
  shows "encode_loop n m pos out =
     (wr m out (b64_encode (rd m pos (3 * n))), pos + 3 * n, out + 4 * n)"
  using assms
proof (induction n arbitrary: m pos out)
  case 0
  then show ?case by simp
next
  case (Suc n)
  let ?e = "enc3 (m pos) (m (pos + 1)) (m (pos + 2))"
  let ?m = "wr m out ?e"
  have rest: "rd ?m (pos + 3) (3 * n) = rd m (pos + 3) (3 * n)"
    using Suc.prems by (intro rd_wr_disj) auto
  have split: "rd m pos (3 * Suc n) = rd m pos 3 @ rd m (pos + 3) (3 * n)"
    using rd_add [of m pos 3 "3 * n"] by simp
  have "encode_loop n ?m (pos + 3) (out + 4) =
     (wr ?m (out + 4) (b64_encode (rd ?m (pos + 3) (3 * n))), pos + 3 + 3 * n, out + 4 + 4 * n)"
    using Suc.prems by (intro Suc.IH) auto
  then show ?case
    by (simp only: encode_loop_step split rest) (simp add: rd3 wr_append)
qed

lemma decode_loop_wr:
  assumes "out \<le> pos \<or> pos + 4 * n \<le> out"
  shows "decode_loop n m pos out =
     (wr m out (b64_decode (rd m pos (4 * n))), pos + 4 * n, out + 3 * n)"
  using assms
proof (induction n arbitrary: m pos out)
  case 0
  then show ?case by simp
next
  case (Suc n)
  let ?e = "dec4 (m pos) (m (pos + 1)) (m (pos + 2)) (m (pos + 3))"
  let ?m = "wr m out ?e"
  have rest: "rd ?m (pos + 4) (4 * n) = rd m (pos + 4) (4 * n)"
    using Suc.prems by (intro rd_wr_disj) auto
  have split: "rd m pos (4 * Suc n) = rd m pos 4 @ rd m (pos + 4) (4 * n)"
    using rd_add [of m pos 4 "4 * n"] by simp
  have "decode_loop n ?m (pos + 4) (out + 3) =
     (wr ?m (out + 3) (b64_decode (rd ?m (pos + 4) (4 * n))), pos + 4 + 4 * n, out + 3 + 3 * n)"
    using Suc.prems by (intro Suc.IH) auto
  then show ?case
    by (simp only: decode_loop_step split rest) (simp add: rd4 wr_append)
qed

section \<open>Whole calls, in place or disjoint\<close>

lemma encode_base64_length_cases:
  assumes "n = 3 * q + r" "r < 3"
  shows "encode_base64_length n = 4 * q + (if r = 0 then 0 else r + 1)"
proof -
  have eq: "n + 2 = (r + 2) + q * 3" using assms(1) by simp
  have "(n + 2) div 3 = q + (r + 2) div 3" "(n + 2) mod 3 = (r + 2) mod 3"
    unfolding eq by (subst div_mult_self1; simp) (rule mod_mult_self1)
  note facts = this
  from assms(2) consider "r = 0" | "r = 1" | "r = 2" by linarith
  then show ?thesis
    unfolding encode_base64_length_def facts by cases simp_all
qed

lemma decode_base64_length_cases:
  assumes "n = 4 * q + r" "r < 4"
  shows "decode_base64_length n =
    (if r = 1 then None else Some (3 * q + (if r = 0 then 0 else r - 1)))"
proof -
  have eq: "n + 2 = (r + 2) + q * 4" "n = r + q * 4" using assms(1) by simp_all
  have "(n + 2) div 4 = q + (r + 2) div 4" "(n + 2) mod 4 = (r + 2) mod 4"
    unfolding eq(1) by (subst div_mult_self1; simp) (rule mod_mult_self1)
  moreover have "n mod 4 = r"
    unfolding eq(2) using assms(2) by simp
  ultimately have facts: "(n + 2) div 4 = q + (r + 2) div 4" "(n + 2) mod 4 = (r + 2) mod 4"
    "n mod 4 = r" .
  from assms(2) consider "r = 0" | "r = 1" | "r = 2" | "r = 3" by linarith
  then show ?thesis
    unfolding decode_base64_length_def facts by cases simp_all
qed

text \<open>
  Encoding reads every group before it overwrites it as long as the input starts at least
  \<open>\<lceil>n / 3\<rceil>\<close> bytes behind the output; the callers put the raw bytes at the very end of the output
  region, which is exactly that far.
\<close>

lemma encode_base64_wr:
  assumes "out + (n + 2) div 3 \<le> inp \<or> inp + n \<le> out"
  shows "encode_base64 m inp n out =
     (wr m out (b64_encode (rd m inp n)), out + encode_base64_length n)"
proof -
  obtain q r where n: "n = 3 * q + r" and r: "r < 3" and q: "n div 3 = q"
    using div_mult_mod_eq [of n 3] mod_less_divisor [of 3 n] by (metis mult.commute zero_less_numeral)
  let ?m = "wr m out (b64_encode (rd m inp (3 * q)))"
  have len3: "encode_base64_length (3 * q) = 4 * q"
    using encode_base64_length_cases [of "3 * q" q 0] by simp
  then have len: "length (b64_encode (rd m inp (3 * q))) = 4 * q"
    by simp
  have loop: "encode_loop q m inp out = (?m, inp + 3 * q, out + 4 * q)"
    using assms n by (intro encode_loop_wr) linarith
  have app: "b64_encode (rd m inp n) = b64_encode (rd m inp (3 * q)) @ b64_encode (rd m (inp + 3 * q) r)"
    using b64_encode_append [of "rd m inp (3 * q)"] by (simp add: n rd_add)
  have keep: "?m i = m i" if "inp + 3 * q \<le> i" "i < inp + n" for i
    using assms n len that r by (intro wr_out) (auto split: if_splits)
  have rem: "n - 3 * q = r" "3 * q < n \<longleftrightarrow> 0 < r" using n by simp_all
  note out_len = encode_base64_length_cases [OF n r]
  from r consider "r = 0" | "r = 1" | "r = 2" by linarith
  then show ?thesis
  proof cases
    case 1
    then show ?thesis
      by (simp add: encode_base64_def q loop app n len3)
  next
    case 2
    have e: "b64_encode (rd m (inp + 3 * q) r) = enc1 (m (inp + 3 * q))" using 2 by simp
    have k: "?m (inp + 3 * q) = m (inp + 3 * q)" using 2 n by (intro keep) auto
    from 2 show ?thesis
      unfolding encode_base64_def q loop app e
      by (simp add: rem out_len k wr_append len3 enc1_def Let_def wr2)
  next
    case 3
    have e: "b64_encode (rd m (inp + 3 * q) r) = enc2 (m (inp + 3 * q)) (m (inp + 3 * q + 1))"
      using 3 by (simp add: numeral_2_eq_2 rd_Suc)
    have k: "?m (inp + 3 * q) = m (inp + 3 * q)" "?m (inp + 3 * q + 1) = m (inp + 3 * q + 1)"
      using 3 n by (auto intro!: keep)
    from 3 show ?thesis
      unfolding encode_base64_def q loop app e
      by (simp add: rem out_len k [simplified] wr_append len3 enc2_def Let_def wr3)
  qed
qed

lemma decode_base64_wr:
  assumes "out \<le> inp \<or> inp + n \<le> out" and "n mod 4 \<noteq> 1"
  shows "decode_base64 m inp n out = wr m out (b64_decode (rd m inp n))"
proof -
  obtain q r where n: "n = 4 * q + r" and r: "r < 4" and q: "n div 4 = q"
    using div_mult_mod_eq [of n 4] mod_less_divisor [of 4 n] by (metis mult.commute zero_less_numeral)
  let ?m = "wr m out (b64_decode (rd m inp (4 * q)))"
  have loop: "decode_loop q m inp out = (?m, inp + 4 * q, out + 3 * q)"
    using assms n by (intro decode_loop_wr) linarith
  have app: "b64_decode (rd m inp n) = b64_decode (rd m inp (4 * q)) @ b64_decode (rd m (inp + 4 * q) r)"
    using b64_decode_append [of "rd m inp (4 * q)"] by (simp add: n rd_add)
  have len: "length (b64_decode (rd m inp (4 * q))) = 3 * q"
    by (rule length_b64_decode4) simp
  have keep: "?m i = m i" if "inp + 4 * q \<le> i" "i < inp + n" for i
    using assms n len that r by (intro wr_out) (auto split: if_splits)
  have rem: "n - 4 * q = r" "4 * q < n \<longleftrightarrow> 0 < r" using n by simp_all
  have "r \<noteq> 1" using assms(2) n r by auto
  with r consider "r = 0" | "r = 2" | "r = 3" by linarith
  then show ?thesis
  proof cases
    case 1
    then show ?thesis
      by (simp add: decode_base64_def q loop app n)
  next
    case 2
    have e: "b64_decode (rd m (inp + 4 * q) r) = dec2 (m (inp + 4 * q)) (m (inp + 4 * q + 1))"
      using 2 by (simp add: numeral_2_eq_2 rd_Suc)
    have k: "?m (inp + 4 * q) = m (inp + 4 * q)" "?m (inp + 4 * q + 1) = m (inp + 4 * q + 1)"
      using 2 n by (auto intro!: keep)
    from 2 show ?thesis
      unfolding decode_base64_def q loop app e
      by (simp add: rem k [simplified] wr_append len dec2_def Let_def wr_single)
  next
    case 3
    have e: "b64_decode (rd m (inp + 4 * q) r) =
        dec3 (m (inp + 4 * q)) (m (inp + 4 * q + 1)) (m (inp + 4 * q + 2))"
      using 3 by (simp add: rd3)
    have k: "?m (inp + 4 * q) = m (inp + 4 * q)" "?m (inp + 4 * q + 1) = m (inp + 4 * q + 1)"
        "?m (inp + 4 * q + 2) = m (inp + 4 * q + 2)"
      using 3 n by (auto intro!: keep)
    from 3 show ?thesis
      unfolding decode_base64_def q loop app e
      by (simp add: rem k [simplified] wr_append len dec3_def Let_def wr2)
  qed
qed

section \<open>Decoding undoes encoding\<close>

lemma mask6: "(63 :: u32) = mask 6"
  by (simp add: mask_eq_exp_minus_1)

lemma slices24:
  assumes v: "\<forall>k\<ge>24. \<not> bit v k"
  shows "push_bit 6 (push_bit 6 (push_bit 6 (drop_bit 6 (drop_bit 6 (drop_bit 6 v)))
      OR drop_bit 6 (drop_bit 6 v) AND 63) OR drop_bit 6 v AND 63) OR v AND 63 = (v :: u32)"
    (is "?l = v")
proof (rule bit_word_eqI)
  fix n :: nat
  consider "n < 6" | "6 \<le> n" "n < 12" | "12 \<le> n" "n < 18" | "18 \<le> n" "n < 24" | "24 \<le> n"
    by linarith
  then show "bit ?l n = bit v n"
    unfolding mask6 using v by cases (auto simp: bit_simps dest!: le_Suc_ex)
qed

lemma slices18:
  assumes v: "\<forall>k\<ge>18. \<not> bit v k"
  shows "push_bit 6 (push_bit 6 (drop_bit 6 (drop_bit 6 v)) OR drop_bit 6 v AND 63) OR v AND 63
      = (v :: u32)" (is "?l = v")
proof (rule bit_word_eqI)
  fix n :: nat
  consider "n < 6" | "6 \<le> n" "n < 12" | "12 \<le> n" "n < 18" | "18 \<le> n" by linarith
  then show "bit ?l n = bit v n"
    unfolding mask6 using v by cases (auto simp: bit_simps dest!: le_Suc_ex)
qed

lemma slices12:
  assumes v: "\<forall>k\<ge>12. \<not> bit v k"
  shows "push_bit 6 (drop_bit 6 v) OR v AND 63 = (v :: u32)" (is "?l = v")
proof (rule bit_word_eqI)
  fix n :: nat
  consider "n < 6" | "6 \<le> n" "n < 12" | "12 \<le> n" by linarith
  then show "bit ?l n = bit v n"
    unfolding mask6 using v by cases (auto simp: bit_simps dest!: le_Suc_ex)
qed

lemma dec_enc_char: "i < 64 \<Longrightarrow> dec_char (enc_char i) = i"
proof -
  assume "i < 64"
  then have i: "unat i < 64" by (simp add: word_less_nat_alt)
  have l: "list_all (\<lambda>i. (ucast (DECODE_BASE64 ! unat (ENCODE_BASE64 ! i AND 0x7F)) :: u32) = word_of_nat i) [0..<64]"
    by code_simp
  show ?thesis using i l unfolding list_all_iff dec_char_def enc_char_def by simp
qed

lemma and_63_less: "(v :: u32) AND 63 < 64"
  using word_and_le1 [of v 63] by (simp add: word_le_nat_alt word_less_nat_alt)

lemma bits_less_64:
  assumes "\<And>k. 6 \<le> k \<Longrightarrow> \<not> bit v k"
  shows "(v :: u32) < 64"
proof -
  have "v = v AND 63"
    unfolding mask6 using assms by (intro bit_word_eqI) (auto simp: bit_simps not_le [symmetric])
  then show ?thesis using and_63_less [of v] by simp
qed

lemma dec4_enc3: "b64_decode (enc3 a b c) = [a, b, c]"
proof -
  let ?v = "push_bit 8 (push_bit 8 (ucast a) OR ucast b) OR ucast c :: u32"
  have v: "\<forall>k\<ge>24. \<not> bit ?v k"
    by (auto simp: bit_simps dest: bit_imp_le_length)
  have t: "drop_bit 6 (drop_bit 6 (drop_bit 6 ?v)) < 64"
    by (rule bits_less_64) (use v in \<open>auto simp: bit_simps dest: bit_imp_le_length\<close>)
  have "ucast (drop_bit 8 (drop_bit 8 ?v)) = a" "ucast (drop_bit 8 ?v) = b" "ucast ?v = c"
    by (rule bit_word_eqI; auto simp: bit_simps dest: bit_imp_le_length)+
  then show ?thesis
    unfolding enc3_def Let_def b64_decode.simps dec4_def
      dec_enc_char [OF t] dec_enc_char [OF and_63_less] slices24 [OF v] by simp
qed

lemma dec3_enc2: "b64_decode (enc2 a b) = [a, b]"
proof -
  let ?v = "push_bit 2 (push_bit 8 (ucast a) OR ucast b) :: u32"
  have v: "\<forall>k\<ge>18. \<not> bit ?v k"
    by (auto simp: bit_simps dest: bit_imp_le_length)
  have t: "drop_bit 6 (drop_bit 6 ?v) < 64"
    by (rule bits_less_64) (use v in \<open>auto simp: bit_simps dest: bit_imp_le_length\<close>)
  have "ucast (drop_bit 8 (drop_bit 2 ?v)) = a" "ucast (drop_bit 2 ?v) = b"
    by (rule bit_word_eqI; auto simp: bit_simps dest: bit_imp_le_length)+
  then show ?thesis
    unfolding enc2_def Let_def b64_decode.simps dec3_def
      dec_enc_char [OF t] dec_enc_char [OF and_63_less] slices18 [OF v] by simp
qed

lemma dec2_enc1: "b64_decode (enc1 a) = [a]"
proof -
  let ?v = "push_bit 4 (ucast a) :: u32"
  have v: "\<forall>k\<ge>12. \<not> bit ?v k"
    by (auto simp: bit_simps dest: bit_imp_le_length)
  have t: "drop_bit 6 ?v < 64"
    by (rule bits_less_64) (use v in \<open>auto simp: bit_simps dest: bit_imp_le_length\<close>)
  have "ucast (drop_bit 4 ?v) = a"
    by (rule bit_word_eqI; auto simp: bit_simps dest: bit_imp_le_length)
  then show ?thesis
    unfolding enc1_def Let_def b64_decode.simps dec2_def
      dec_enc_char [OF t] dec_enc_char [OF and_63_less] slices12 [OF v] by simp
qed

lemma b64_decode_encode [simp]: "b64_decode (b64_encode bs) = bs"
proof (induction bs rule: b64_encode.induct)
  case (1 a b c xs)
  have "b64_decode (enc3 a b c @ b64_encode xs) = b64_decode (enc3 a b c) @ b64_decode (b64_encode xs)"
    by (rule b64_decode_append) simp
  with 1 show ?case by (simp add: dec4_enc3)
qed (simp_all add: dec3_enc2 dec2_enc1)

lemma decode_encode_length: "decode_base64_length (encode_base64_length n) = Some n"
proof -
  obtain q r where n: "n = 3 * q + r" and r: "r < 3"
    using div_mult_mod_eq [of n 3] mod_less_divisor [of 3 n] by (metis mult.commute zero_less_numeral)
  have e: "encode_base64_length n = 4 * q + (if r = 0 then 0 else r + 1)"
    by (rule encode_base64_length_cases [OF n r])
  have "(if r = 0 then 0 else r + 1) < 4" using r by auto
  from decode_base64_length_cases [OF e this] show ?thesis
    using n by auto
qed

lemma encode_base64_length_mod4: "encode_base64_length n mod 4 \<noteq> 1"
  using decode_encode_length [of n] by (auto simp: decode_base64_length_def)

lemma encode_base64_length_ge: "n \<le> encode_base64_length n"
  and encode_base64_length_diff: "encode_base64_length n - n = (n + 2) div 3"
proof -
  obtain q r where n: "n = 3 * q + r" and r: "r < 3"
    using div_mult_mod_eq [of n 3] mod_less_divisor [of 3 n] by (metis mult.commute zero_less_numeral)
  have d: "(n + 2) div 3 = q + (r + 2) div 3"
    unfolding n by simp
  from r consider "r = 0" | "r = 1" | "r = 2" by linarith
  then have "n \<le> encode_base64_length n \<and> encode_base64_length n - n = (n + 2) div 3"
    unfolding d encode_base64_length_cases [OF n r] by cases (simp_all add: n)
  then show "n \<le> encode_base64_length n" "encode_base64_length n - n = (n + 2) div 3" by auto
qed


lemma length_b64_decode [len_simps]:
  "decode_base64_length (length bs) = Some k \<Longrightarrow> length (b64_decode bs) = k"
proof -
  assume k: "decode_base64_length (length bs) = Some k"
  obtain q r where n: "length bs = 4 * q + r" and r: "r < 4"
    using div_mult_mod_eq [of "length bs" 4] mod_less_divisor [of 4 "length bs"]
    by (metis mult.commute zero_less_numeral)
  have "length (b64_decode (take (4 * q) bs)) = 3 * q"
    using n by (intro length_b64_decode4) simp
  moreover have "b64_decode bs = b64_decode (take (4 * q) bs) @ b64_decode (drop (4 * q) bs)"
    using b64_decode_append [of "take (4 * q) bs" "drop (4 * q) bs"] n by (simp add: min_def)
  moreover have "length (drop (4 * q) bs) = r" using n by simp
  then have "r \<noteq> 1 \<Longrightarrow> length (b64_decode (drop (4 * q) bs)) = (if r = 0 then 0 else r - 1)"
    using r by (cases "drop (4 * q) bs" rule: b64_decode.cases) auto
  ultimately show ?thesis
    using k unfolding decode_base64_length_cases [OF n r] by (auto split: if_splits)
qed

text \<open>The two uses the library makes of the loops: encode the end of a region over the region, and
  decode a region over itself.\<close>

lemma encode_base64_in_place:
  "encode_base64 m (out + encode_base64_length n - n) n out =
     (wr m out (b64_encode (rd m (out + encode_base64_length n - n) n)),
      out + encode_base64_length n)"
  using encode_base64_length_ge [of n] encode_base64_length_diff [of n]
  by (intro encode_base64_wr) linarith

lemma decode_base64_in_place:
  "n mod 4 \<noteq> 1 \<Longrightarrow> decode_base64 m a n a = wr m a (b64_decode (rd m a n))"
  by (intro decode_base64_wr) auto

lemma olm_encode_base64_in_place:
  "olm_encode_base64 m (out + encode_base64_length n - n) n out =
     (wr m out (b64_encode (rd m (out + encode_base64_length n - n) n)), encode_base64_length n)"
  by (simp add: olm_encode_base64_def encode_base64_in_place)

lemma olm_encode_base64_wr:
  "out + (n + 2) div 3 \<le> inp \<or> inp + n \<le> out \<Longrightarrow>
   olm_encode_base64 m inp n out = (wr m out (b64_encode (rd m inp n)), encode_base64_length n)"
  by (simp add: olm_encode_base64_def encode_base64_wr)

section \<open>Objects outside the flat memory\<close>

text \<open>
  The sessions and accounts are records and local buffers are byte lists, so an encoder that reads a
  field of a struct, or a decoder that fills a local buffer, has one side outside the flat memory.
  By the lemmas the result is that of the routine above for a copy of the object anywhere else.
\<close>

definition encode_base64_object :: "bytes \<Rightarrow> mem \<Rightarrow> addr \<Rightarrow> mem \<times> nat" where
  "encode_base64_object bs m output = (wr m output (b64_encode bs), encode_base64_length (length bs))"

definition decode_base64_object :: "mem \<Rightarrow> addr \<Rightarrow> nat \<Rightarrow> bytes" where
  "decode_base64_object m input input_length = b64_decode (rd m input input_length)"

lemma encode_base64_object_eq:
  "\<lbrakk>stored m inp bs; out + encode_base64_length (length bs) \<le> inp \<or> inp + length bs \<le> out\<rbrakk> \<Longrightarrow>
   olm_encode_base64 m inp (length bs) out = encode_base64_object bs m out"
  using encode_base64_length_diff [of "length bs"] encode_base64_length_ge [of "length bs"]
  by (subst olm_encode_base64_wr) (auto simp: encode_base64_object_def stored_def)

lemma decode_base64_object_eq:
  assumes "decode_base64_length n = Some k" "out + k \<le> inp \<or> inp + n \<le> out"
  shows "rd (fst (olm_decode_base64 m inp n out)) out k = decode_base64_object m inp n"
proof -
  have n: "n mod 4 \<noteq> 1" using assms(1) by (auto simp: decode_base64_length_def)
  have "length (b64_decode (rd m inp n)) = k" by (rule length_b64_decode) (simp add: assms(1))
  moreover have "out \<le> inp \<or> inp + n \<le> out" using assms(2) by auto
  ultimately show ?thesis
    using n by (simp add: olm_decode_base64_def decode_base64_wr decode_base64_object_def)
qed

section \<open>Property\<close>

text \<open>
  C39 Encoding a buffer's tail over the whole buffer in place, as the pickle and message code does,
  gives the base64 text; decoding that text in place gives the bytes back, and the length
  functions agree.
\<close>

theorem base64_in_place_round_trip:
  assumes "stored m (buf + encode_base64_length (length bs) - length bs) bs"
  shows "encode_base64 m (buf + encode_base64_length (length bs) - length bs) (length bs) buf =
           (wr m buf (b64_encode bs), buf + encode_base64_length (length bs)) \<and>
         stored (decode_base64 (wr m buf (b64_encode bs)) buf (encode_base64_length (length bs)) buf)
           buf bs \<and>
         decode_base64_length (encode_base64_length (length bs)) = Some (length bs)"
proof (intro conjI)
  show "encode_base64 m (buf + encode_base64_length (length bs) - length bs) (length bs) buf =
      (wr m buf (b64_encode bs), buf + encode_base64_length (length bs))"
    using assms by (simp add: encode_base64_in_place stored_rd)
  have "rd (wr m buf (b64_encode bs)) buf (encode_base64_length (length bs)) = b64_encode bs"
    by (rule rd_wr_same) simp
  then show "stored (decode_base64 (wr m buf (b64_encode bs)) buf
      (encode_base64_length (length bs)) buf) buf bs"
    by (simp only: decode_base64_in_place encode_base64_length_mod4 simp_thms b64_decode_encode
        stored_wr)
qed (rule decode_encode_length)

theorem base64_in_place_round_trip_witness:
  "stored (decode_base64 (wr (\<lambda>i. 7) 10 (b64_encode [7, 7])) 10 3 10) 10 [7, 7]"
  using base64_in_place_round_trip [of "\<lambda>i. 7" 10 "[7, 7]"] by (simp add: encode_base64_length_def)

end
