(* ===== verification/OlmError.thy ===== *)
theory OlmError
  imports OlmPrelude
begin

text \<open>
  The error codes of \<open>include/self_olm/error.h\<close> and the string table of \<open>src/error.c\<close>.
  Every object of the library keeps the code of its last failure in a field \<open>last_error\<close>.
\<close>

datatype OlmErrorCode =
    OLM_SUCCESS
  | OLM_NOT_ENOUGH_RANDOM
  | OLM_OUTPUT_BUFFER_TOO_SMALL
  | OLM_BAD_MESSAGE_VERSION
  | OLM_BAD_MESSAGE_FORMAT
  | OLM_BAD_MESSAGE_MAC
  | OLM_BAD_MESSAGE_KEY_ID
  | OLM_INVALID_BASE64
  | OLM_BAD_ACCOUNT_KEY
  | OLM_UNKNOWN_PICKLE_VERSION
  | OLM_CORRUPTED_PICKLE
  | OLM_BAD_SESSION_KEY
  | OLM_UNKNOWN_MESSAGE_INDEX
  | OLM_BAD_LEGACY_ACCOUNT_PICKLE
  | OLM_BAD_SIGNATURE
  | OLM_INPUT_BUFFER_TOO_SMALL
  | OLM_ERROR_NOT_INVENTED_YET

fun error_code :: "OlmErrorCode \<Rightarrow> nat" where
  "error_code OLM_SUCCESS = 0"
| "error_code OLM_NOT_ENOUGH_RANDOM = 1"
| "error_code OLM_OUTPUT_BUFFER_TOO_SMALL = 2"
| "error_code OLM_BAD_MESSAGE_VERSION = 3"
| "error_code OLM_BAD_MESSAGE_FORMAT = 4"
| "error_code OLM_BAD_MESSAGE_MAC = 5"
| "error_code OLM_BAD_MESSAGE_KEY_ID = 6"
| "error_code OLM_INVALID_BASE64 = 7"
| "error_code OLM_BAD_ACCOUNT_KEY = 8"
| "error_code OLM_UNKNOWN_PICKLE_VERSION = 9"
| "error_code OLM_CORRUPTED_PICKLE = 10"
| "error_code OLM_BAD_SESSION_KEY = 11"
| "error_code OLM_UNKNOWN_MESSAGE_INDEX = 12"
| "error_code OLM_BAD_LEGACY_ACCOUNT_PICKLE = 13"
| "error_code OLM_BAD_SIGNATURE = 14"
| "error_code OLM_INPUT_BUFFER_TOO_SMALL = 15"
| "error_code OLM_ERROR_NOT_INVENTED_YET = 16"

text \<open>The table \<open>ERRORS\<close> and the lookup, with the code's bound check on the table's size.\<close>

definition ERRORS :: "string list" where
  "ERRORS =
     [''SUCCESS'',
      ''NOT_ENOUGH_RANDOM'',
      ''OUTPUT_BUFFER_TOO_SMALL'',
      ''BAD_MESSAGE_VERSION'',
      ''BAD_MESSAGE_FORMAT'',
      ''BAD_MESSAGE_MAC'',
      ''BAD_MESSAGE_KEY_ID'',
      ''INVALID_BASE64'',
      ''BAD_ACCOUNT_KEY'',
      ''UNKNOWN_PICKLE_VERSION'',
      ''CORRUPTED_PICKLE'',
      ''BAD_SESSION_KEY'',
      ''UNKNOWN_MESSAGE_INDEX'',
      ''BAD_LEGACY_ACCOUNT_PICKLE'',
      ''BAD_SIGNATURE'',
      ''OLM_INPUT_BUFFER_TOO_SMALL'']"

definition olm_error_to_string :: "OlmErrorCode \<Rightarrow> string" where
  "olm_error_to_string error =
     (if error_code error < length ERRORS then ERRORS ! error_code error
      else ''UNKNOWN_ERROR'')"

lemma error_code_inj: "error_code a = error_code b \<Longrightarrow> a = b"
  by (cases a; cases b) simp_all

lemma length_ERRORS [simp]: "length ERRORS = 16"
  by (simp add: ERRORS_def)

end
