(* ===== verification/PickleEncoding.thy ===== *)
theory PickleEncoding
  imports Base64 Cipher OlmError
begin

text \<open>
  \<open>src/pickle_encoding.c\<close>: the envelope of a pickle.  The pickled bytes are put at the position
  \<open>enc_output_pos\<close> gives, encrypted where they stand, and encoded to base64 towards the start of the
  buffer; \<open>enc_input\<close> undoes both in place.  The lemmas show what the buffer holds afterwards, that
  nothing outside it changes, the two error codes, and that opening gives back what was sealed.
\<close>

definition PICKLE_CIPHER :: aes_sha_256_cipher where
  "PICKLE_CIPHER = \<lparr>kdf_info = cstr ''Pickle''\<rparr>"

definition enc_output_length :: "nat \<Rightarrow> nat" where
  "enc_output_length raw_length =
     (let n = cipher_encrypt_ciphertext_length PICKLE_CIPHER raw_length;
          n = n + cipher_mac_length PICKLE_CIPHER
      in encode_base64_length n)"

definition enc_output_pos :: "addr \<Rightarrow> nat \<Rightarrow> addr" where
  "enc_output_pos output raw_length =
     (let n = cipher_encrypt_ciphertext_length PICKLE_CIPHER raw_length;
          n = n + cipher_mac_length PICKLE_CIPHER
      in output + encode_base64_length n - n)"

definition enc_output :: "bytes \<Rightarrow> mem \<Rightarrow> addr \<Rightarrow> nat \<Rightarrow> mem \<times> nat" where
  "enc_output key m output raw_length =
     (let ciphertext_length = cipher_encrypt_ciphertext_length PICKLE_CIPHER raw_length;
          n = ciphertext_length + cipher_mac_length PICKLE_CIPHER;
          base64_length = encode_base64_length n;
          raw_output = output + base64_length - n;
          m = fst (cipher_encrypt PICKLE_CIPHER key m raw_output raw_length
                raw_output ciphertext_length raw_output n);
          m = fst (olm_encode_base64 m raw_output n output)
      in (m, base64_length))"

text \<open>\<open>last_error\<close> may be a null pointer, which is \<open>None\<close>.\<close>

definition set_error :: "OlmErrorCode option \<Rightarrow> OlmErrorCode \<Rightarrow> OlmErrorCode option" where
  "set_error last_error e = (case last_error of None \<Rightarrow> None | Some _ \<Rightarrow> Some e)"

definition enc_input ::
  "bytes \<Rightarrow> mem \<Rightarrow> addr \<Rightarrow> nat \<Rightarrow> OlmErrorCode option \<Rightarrow> mem \<times> OlmErrorCode option \<times> nat option" where
  "enc_input key m input b64_length last_error =
     (case decode_base64_length b64_length of
        None \<Rightarrow> (m, set_error last_error OLM_INVALID_BASE64, None)
      | Some enc_length \<Rightarrow>
          let m = fst (olm_decode_base64 m input b64_length input);
              raw_length = size_sub enc_length (cipher_mac_length PICKLE_CIPHER);
              (m, result) = cipher_decrypt PICKLE_CIPHER key m input enc_length
                              input raw_length input raw_length
          in (m, if result = None then set_error last_error OLM_BAD_ACCOUNT_KEY else last_error,
              result))"

section \<open>Sealing and opening\<close>

definition pickle_seal :: "bytes \<Rightarrow> bytes \<Rightarrow> bytes" where
  "pickle_seal key raw =
     (let body = cipher_body PICKLE_CIPHER key raw
      in b64_encode (body @ cipher_tag PICKLE_CIPHER key body))"

lemma length_pickle_seal [simp, len_simps]:
  "length (pickle_seal key raw) = enc_output_length (length raw)"
  by (simp add: pickle_seal_def enc_output_length_def cipher_encrypt_ciphertext_length_def
      cipher_mac_length_def MAC_LENGTH_def Let_def)

lemma enc_output_pos_bounds:
  "output \<le> enc_output_pos output n"
  "enc_output_pos output n + n + 8 \<le> output + enc_output_length n"
proof -
  let ?k = "aes_encrypt_cbc_length n + 8"
  have "?k \<le> encode_base64_length ?k" by (rule encode_base64_length_ge)
  moreover have "n < aes_encrypt_cbc_length n" by (rule aes_encrypt_cbc_length_bounds)
  ultimately show "output \<le> enc_output_pos output n"
    "enc_output_pos output n + n + 8 \<le> output + enc_output_length n"
    by (simp_all add: enc_output_pos_def enc_output_length_def Let_def
        cipher_encrypt_ciphertext_length_def cipher_mac_length_def MAC_LENGTH_def)
qed

lemma enc_output_wr:
  "enc_output key m output n =
     (wr m output (pickle_seal key (rd m (enc_output_pos output n) n)), enc_output_length n)"
proof -
  let ?k = "aes_encrypt_cbc_length n"
  let ?pos = "enc_output_pos output n"
  have pos: "?pos = output + encode_base64_length (?k + 8) - (?k + 8)"
    by (simp add: enc_output_pos_def Let_def cipher_encrypt_ciphertext_length_def
        cipher_mac_length_def MAC_LENGTH_def)
  let ?body = "cipher_body PICKLE_CIPHER key (rd m ?pos n)"
  let ?raw = "?body @ cipher_tag PICKLE_CIPHER key ?body"
  have enc: "fst (cipher_encrypt PICKLE_CIPHER key m ?pos n ?pos ?k ?pos (?k + 8)) = wr m ?pos ?raw"
    by (subst cipher_encrypt_wr) (simp_all add: Let_def wr_append)
  have len: "length ?raw = ?k + 8" by simp
  then have "rd (wr m ?pos ?raw) ?pos (?k + 8) = ?raw" by simp
  then have "fst (olm_encode_base64 (wr m ?pos ?raw) ?pos (?k + 8) output) =
      wr (wr m ?pos ?raw) output (b64_encode ?raw)"
    unfolding pos by (simp add: olm_encode_base64_in_place)
  also have "\<dots> = wr m output (b64_encode ?raw)"
    using encode_base64_length_ge [of "?k + 8"] len
    by (intro wr_wr_cover) (simp_all add: pos)
  finally have e: "fst (olm_encode_base64 (wr m ?pos ?raw) ?pos (?k + 8) output) =
      wr m output (pickle_seal key (rd m ?pos n))"
    by (simp add: pickle_seal_def Let_def)
  show ?thesis
    unfolding enc_output_def cipher_encrypt_ciphertext_length_def cipher_mac_length_def
      MAC_LENGTH_def Let_def
    by (simp only: pos [symmetric] enc e)
      (simp add: enc_output_length_def Let_def cipher_encrypt_ciphertext_length_def
        cipher_mac_length_def MAC_LENGTH_def)
qed

text \<open>Pickling writes the raw bytes at the position first.\<close>

lemma enc_output_pickled:
  assumes "n = length raw"
  shows "enc_output key (wr m (enc_output_pos output n) raw) output n =
    (wr m output (pickle_seal key raw), enc_output_length n)"
proof -
  have "wr (wr m (enc_output_pos output n) raw) output (pickle_seal key raw) =
      wr m output (pickle_seal key raw)"
    using enc_output_pos_bounds [of "output" n] assms by (intro wr_wr_cover) simp_all
  then show ?thesis using assms by (simp add: enc_output_wr)
qed

lemma enc_input_sealed:
  assumes "stored m input (pickle_seal key raw)"
  shows "\<exists>m'. enc_input key m input (enc_output_length (length raw)) err = (m', err, Some (length raw)) \<and>
           stored m' input raw \<and> frame m m' input (enc_output_length (length raw))"
proof -
  let ?k = "aes_encrypt_cbc_length (length raw)"
  let ?body = "cipher_body PICKLE_CIPHER key raw"
  let ?raw = "?body @ cipher_tag PICKLE_CIPHER key ?body"
  let ?n = "enc_output_length (length raw)"
  have n: "?n = encode_base64_length (?k + 8)"
    by (simp add: enc_output_length_def Let_def cipher_encrypt_ciphertext_length_def
        cipher_mac_length_def MAC_LENGTH_def)
  have r: "rd m input ?n = b64_encode ?raw"
    using assms by (simp add: stored_def) (simp add: pickle_seal_def Let_def)
  have len: "decode_base64_length ?n = Some (?k + 8)"
    unfolding n by (rule decode_encode_length)
  have "?n mod 4 \<noteq> 1" unfolding n by (rule encode_base64_length_mod4)
  then have d: "fst (olm_decode_base64 m input ?n input) = wr m input ?raw"
    by (simp add: olm_decode_base64_def decode_base64_in_place r)
  have dec: "cipher_decrypt PICKLE_CIPHER key (wr m input ?raw) input (?k + 8) input ?k input ?k =
      (wr (wr m input ?raw) input (pkcs7 raw), Some (length raw))"
    by (rule cipher_decrypt_sealed) (simp_all add: rd_wr_within)
  have ss: "size_sub (?k + 8) 8 = ?k" by (simp add: size_sub_def)
  let ?m = "wr (wr m input ?raw) input (pkcs7 raw)"
  have e: "enc_input key m input ?n err = (?m, err, Some (length raw))"
    by (simp only: enc_input_def len option.case Let_def d cipher_mac_length_def MAC_LENGTH_def
        ss dec prod.case) simp
  have "length ?raw = ?k + 8" "?k + 8 \<le> ?n"
    using encode_base64_length_ge [of "?k + 8"] by (simp_all add: n)
  then have "frame m ?m input ?n"
    by (intro frame_trans [OF frame_wr frame_wr]) simp_all
  moreover have "stored ?m input raw"
  proof (rule stored_rd_self)
    have "rd ?m input (length raw) = take (length raw) (rd ?m input ?k)"
      using aes_encrypt_cbc_length_bounds(1) [of "length raw"] by (subst take_rd) simp_all
    then show "rd ?m input (length raw) = raw" by simp
  qed simp
  ultimately show ?thesis using e by blast
qed

lemma enc_input_bad_length:
  "decode_base64_length n = None \<Longrightarrow>
   enc_input key m input n err = (m, set_error err OLM_INVALID_BASE64, None)"
  by (simp add: enc_input_def)

text \<open>Every other failure is a tag that does not fit the data, and then only the decoding happened.\<close>

lemma enc_input_bad_key:
  assumes "decode_base64_length n = Some k"
    "k < 8 \<or> drop (k - 8) bs \<noteq> cipher_tag PICKLE_CIPHER key (take (k - 8) bs)"
    "bs = b64_decode (rd m input n)"
  shows "enc_input key m input n err = (wr m input bs, set_error err OLM_BAD_ACCOUNT_KEY, None)"
proof -
  have n: "n mod 4 \<noteq> 1" using assms(1) by (auto simp: decode_base64_length_def)
  have len: "length bs = k" unfolding assms(3) by (rule length_b64_decode) (simp add: assms(1))
  have d: "fst (olm_decode_base64 m input n input) = wr m input bs"
    by (simp add: olm_decode_base64_def decode_base64_in_place [OF n] assms(3))
  have "cipher_decrypt PICKLE_CIPHER key (wr m input bs) input k input (size_sub k 8) input
      (size_sub k 8) = (wr m input bs, None)"
  proof (cases "k < 8")
    case True
    then show ?thesis by (simp add: cipher_decrypt_error)
  next
    case False
    then have "rd (wr m input bs) (input + (k - 8)) 8 = drop (k - 8) bs"
      "rd (wr m input bs) input (k - 8) = take (k - 8) bs"
      using len by (simp_all add: rd_wr_within)
    with assms(2) False show ?thesis
      by (subst cipher_decrypt_tag) (simp_all add: size_sub_def)
  qed
  then show ?thesis
    by (simp add: enc_input_def assms(1) d cipher_mac_length_def MAC_LENGTH_def)
qed

section \<open>Properties\<close>

text \<open>
  What \<open>_olm_enc_output\<close> seals in the output buffer \<open>_olm_enc_input\<close> opens with the same key:
  it returns the length of the raw pickle, leaves the raw pickle at the start of the buffer, the
  error code as it was and everything outside the buffer untouched.
\<close>

theorem enc_input_output:
  assumes "stored m (enc_output_pos p (length raw)) raw"
  shows "\<exists>m'. enc_input key (fst (enc_output key m p (length raw))) p
        (snd (enc_output key m p (length raw))) err = (m', err, Some (length raw)) \<and>
      stored m' p raw \<and> frame m m' p (enc_output_length (length raw))"
proof -
  let ?m1 = "wr m p (pickle_seal key raw)"
  have e: "enc_output key m p (length raw) = (?m1, enc_output_length (length raw))"
    using assms by (simp add: enc_output_wr stored_rd)
  have f: "frame m ?m1 p (enc_output_length (length raw))"
    by (rule frame_wr) (simp_all add: len_simps)
  have "stored ?m1 p (pickle_seal key raw)" by simp
  from enc_input_sealed [OF this, of err]
  obtain m' where "enc_input key ?m1 p (enc_output_length (length raw)) err =
      (m', err, Some (length raw))" "stored m' p raw"
    and f': "frame ?m1 m' p (enc_output_length (length raw))"
    by blast
  with frame_trans [OF f f'] show ?thesis unfolding e fst_conv snd_conv by blast
qed

theorem enc_input_output_witness:
  "\<exists>m'. enc_input [1] (fst (enc_output [1] (\<lambda>i. 9) 10 1)) 10 (snd (enc_output [1] (\<lambda>i. 9) 10 1)) None =
      (m', None, Some 1) \<and> stored m' 10 [9] \<and> frame (\<lambda>i. 9) m' 10 (enc_output_length 1)"
  using enc_input_output [of "\<lambda>i. 9" 10 "[9]" "[1]" None] by simp

text \<open>
  A pickle whose length no base64 text has, or whose decoded bytes do not end with the tag of
  the rest under the key, is refused with the documented error; nothing but the in-place base64
  decoding is written.
\<close>

theorem enc_input_refuses:
  assumes "bs = b64_decode (rd m p n)"
    "\<forall>k. decode_base64_length n = Some k \<longrightarrow>
       k < 8 \<or> drop (k - 8) bs \<noteq> cipher_tag PICKLE_CIPHER key (take (k - 8) bs)"
  shows "enc_input key m p n err =
    (if decode_base64_length n = None then (m, set_error err OLM_INVALID_BASE64, None)
     else (wr m p bs, set_error err OLM_BAD_ACCOUNT_KEY, None))"
proof (cases "decode_base64_length n")
  case None
  then show ?thesis by (simp add: enc_input_bad_length)
next
  case (Some k)
  then show ?thesis using assms enc_input_bad_key [of n k bs key m p err] by simp
qed

theorem enc_input_refuses_witness:
  "enc_input [1] (\<lambda>i. 0) 0 5 (Some OLM_SUCCESS) = (\<lambda>i. 0, Some OLM_INVALID_BASE64, None)"
  using enc_input_refuses [of "b64_decode (rd (\<lambda>i. 0) 0 5)" "\<lambda>i. 0" 0 5 "[1]" "Some OLM_SUCCESS"]
  by (simp add: decode_base64_length_def set_error_def)

end
