(* ===== verification/OutboundGroupSession.thy ===== *)
theory OutboundGroupSession
  imports Megolm Message PickleEncoding
begin

text \<open>
  \<open>src/outbound_group_session.c\<close>: the sending side of a group conversation, a Megolm ratchet and the
  Ed25519 key pair that signs the messages.  An operation takes the session and the flat memory with
  the caller's buffers and returns both, and the value the code returns (\<open>None\<close> for
  \<open>(size_t)-1\<close>).  The lemmas give the message an encryption leaves in the output buffer, the shared
  session key, and the pickle; every function fails before it writes anything.
\<close>

record OlmOutboundGroupSession =
  og_ratchet :: Megolm
  og_signing_key :: ed25519_key_pair
  og_last_error :: OlmErrorCode

definition OLM_PROTOCOL_VERSION :: byte where "OLM_PROTOCOL_VERSION = 3"
definition GROUP_SESSION_ID_LENGTH :: nat where "GROUP_SESSION_ID_LENGTH = 32"
definition OUTBOUND_PICKLE_VERSION :: u32 where "OUTBOUND_PICKLE_VERSION = 1"
definition SESSION_KEY_VERSION :: byte where "SESSION_KEY_VERSION = 2"

text \<open>The memory is cleared: every field is zero, and \<open>OLM_SUCCESS\<close> is the error code zero.\<close>

definition olm_clear_outbound_group_session :: OlmOutboundGroupSession where
  "olm_clear_outbound_group_session =
     \<lparr>og_ratchet = \<lparr>mg_data = replicate 4 (replicate 32 0), mg_counter = 0\<rparr>,
      og_signing_key = \<lparr>e_public = replicate 32 0, e_private = replicate 64 0\<rparr>,
      og_last_error = OLM_SUCCESS\<rparr>"

definition olm_outbound_group_session_last_error :: "OlmOutboundGroupSession \<Rightarrow> string" where
  "olm_outbound_group_session_last_error session = olm_error_to_string (og_last_error session)"

definition outbound_raw_pickle_length :: "OlmOutboundGroupSession \<Rightarrow> nat" where
  "outbound_raw_pickle_length session =
     (let n = 0;
          n = n + pickle_u32_length OUTBOUND_PICKLE_VERSION;
          n = n + megolm_pickle_length (og_ratchet session);
          n = n + pickle_ed25519_key_pair_length (og_signing_key session)
      in n)"

definition olm_pickle_outbound_group_session_length :: "OlmOutboundGroupSession \<Rightarrow> nat" where
  "olm_pickle_outbound_group_session_length session =
     enc_output_length (outbound_raw_pickle_length session)"

definition olm_pickle_outbound_group_session ::
  "OlmOutboundGroupSession \<Rightarrow> bytes \<Rightarrow> mem \<Rightarrow> addr \<Rightarrow> nat \<Rightarrow>
   OlmOutboundGroupSession \<times> mem \<times> nat option" where
  "olm_pickle_outbound_group_session session key m pickled pickled_length =
     (let raw_length = outbound_raw_pickle_length session
      in if pickled_length < enc_output_length raw_length then
           (session\<lparr>og_last_error := OLM_OUTPUT_BUFFER_TOO_SMALL\<rparr>, m, None)
         else
           let pos = enc_output_pos pickled raw_length;
               (m, pos) = pickle_u32 m pos OUTBOUND_PICKLE_VERSION;
               (m, pos) = megolm_pickle m pos (og_ratchet session);
               (m, pos) = pickle_ed25519_key_pair m pos (og_signing_key session);
               (m, n) = enc_output key m pickled raw_length
           in (session, m, Some n))"

definition olm_unpickle_outbound_group_session ::
  "OlmOutboundGroupSession \<Rightarrow> bytes \<Rightarrow> mem \<Rightarrow> addr \<Rightarrow> nat \<Rightarrow>
   OlmOutboundGroupSession \<times> mem \<times> nat option" where
  "olm_unpickle_outbound_group_session session key m pickled pickled_length =
     (case enc_input key m pickled pickled_length (Some (og_last_error session)) of
        (m, err, result) \<Rightarrow>
          let session = session\<lparr>og_last_error := the err\<rparr>
          in case result of
               None \<Rightarrow> (session, m, None)
             | Some raw_length \<Rightarrow>
                 let pos = pickled;
                     end = pos + raw_length;
                     (pos, pickle_version) = unpickle_u32 m pos end 0
                 in if pickle_version \<noteq> OUTBOUND_PICKLE_VERSION then
                      (session\<lparr>og_last_error := OLM_UNKNOWN_PICKLE_VERSION\<rparr>, m, None)
                    else
                      let (pos, ratchet) = megolm_unpickle m pos end (og_ratchet session);
                          session = session\<lparr>og_ratchet := ratchet\<rparr>;
                          (pos, signing_key) =
                            unpickle_ed25519_key_pair m pos end (og_signing_key session);
                          session = session\<lparr>og_signing_key := signing_key\<rparr>
                      in if end \<noteq> pos then
                           (session\<lparr>og_last_error := OLM_CORRUPTED_PICKLE\<rparr>, m, None)
                         else (session, m, Some pickled_length))"

definition olm_init_outbound_group_session_random_length :: nat where
  "olm_init_outbound_group_session_random_length = 128 + 32"

definition olm_init_outbound_group_session ::
  "crypto_lib \<Rightarrow> OlmOutboundGroupSession \<Rightarrow> mem \<Rightarrow> addr \<Rightarrow> nat \<Rightarrow>
   OlmOutboundGroupSession \<times> mem \<times> nat option" where
  "olm_init_outbound_group_session L session m random random_length =
     (if random_length < olm_init_outbound_group_session_random_length then
        (session\<lparr>og_last_error := OLM_NOT_ENOUGH_RANDOM\<rparr>, m, None)
      else
        let random_ptr = random;
            session = session\<lparr>og_ratchet := megolm_init (rd m random_ptr 128) 0\<rparr>;
            random_ptr = random_ptr + 128;
            session = session\<lparr>og_signing_key := ed25519_generate_key L (rd m random_ptr 32)\<rparr>;
            m = unset random_length m random
        in (session, m, Some 0))"

definition outbound_raw_message_length :: "OlmOutboundGroupSession \<Rightarrow> nat \<Rightarrow> nat" where
  "outbound_raw_message_length session plaintext_length =
     (let ciphertext_length = cipher_encrypt_ciphertext_length MEGOLM_CIPHER plaintext_length;
          mac_length = cipher_mac_length MEGOLM_CIPHER
      in encode_group_message_length (mg_counter (og_ratchet session)) ciphertext_length
           mac_length 64)"

definition olm_group_encrypt_message_length :: "OlmOutboundGroupSession \<Rightarrow> nat \<Rightarrow> nat" where
  "olm_group_encrypt_message_length session plaintext_length =
     encode_base64_length (outbound_raw_message_length session plaintext_length)"

definition outbound_encrypt ::
  "crypto_lib \<Rightarrow> OlmOutboundGroupSession \<Rightarrow> mem \<Rightarrow> addr \<Rightarrow> nat \<Rightarrow> addr \<Rightarrow>
   OlmOutboundGroupSession \<times> mem \<times> nat option" where
  "outbound_encrypt L session m plaintext plaintext_length buffer =
     (let ciphertext_length = cipher_encrypt_ciphertext_length MEGOLM_CIPHER plaintext_length;
          mac_length = cipher_mac_length MEGOLM_CIPHER;
          (m, message_length, ciphertext_ptr) =
            encode_group_message m OLM_PROTOCOL_VERSION (mg_counter (og_ratchet session))
              ciphertext_length buffer;
          message_length = message_length + mac_length;
          (m, result) =
            cipher_encrypt MEGOLM_CIPHER (megolm_get_data (og_ratchet session)) m
              plaintext plaintext_length ciphertext_ptr ciphertext_length buffer message_length
      in if result = None then (session, m, None)
         else
           let session = session\<lparr>og_ratchet := megolm_advance (og_ratchet session)\<rparr>;
               signature = crypto_ed25519_sign L (og_signing_key session) (rd m buffer message_length);
               m = wr m (buffer + message_length) signature
           in (session, m, result))"

definition olm_group_encrypt ::
  "crypto_lib \<Rightarrow> OlmOutboundGroupSession \<Rightarrow> mem \<Rightarrow> addr \<Rightarrow> nat \<Rightarrow> addr \<Rightarrow> nat \<Rightarrow>
   OlmOutboundGroupSession \<times> mem \<times> nat option" where
  "olm_group_encrypt L session m plaintext plaintext_length message max_message_length =
     (let rawmsglen = outbound_raw_message_length session plaintext_length
      in if max_message_length < encode_base64_length rawmsglen then
           (session\<lparr>og_last_error := OLM_OUTPUT_BUFFER_TOO_SMALL\<rparr>, m, None)
         else
           let message_pos = message + encode_base64_length rawmsglen - rawmsglen;
               (session, m, result) =
                 outbound_encrypt L session m plaintext plaintext_length message_pos
           in if result = None then (session, m, None)
              else
                let (m, n) = olm_encode_base64 m message_pos rawmsglen message
                in (session, m, Some n))"

definition olm_outbound_group_session_id_length :: nat where
  "olm_outbound_group_session_id_length = encode_base64_length GROUP_SESSION_ID_LENGTH"

definition olm_outbound_group_session_id ::
  "OlmOutboundGroupSession \<Rightarrow> mem \<Rightarrow> addr \<Rightarrow> nat \<Rightarrow> OlmOutboundGroupSession \<times> mem \<times> nat option" where
  "olm_outbound_group_session_id session m id_ptr id_length =
     (if id_length < olm_outbound_group_session_id_length then
        (session\<lparr>og_last_error := OLM_OUTPUT_BUFFER_TOO_SMALL\<rparr>, m, None)
      else
        let (m, n) = encode_base64_object (e_public (og_signing_key session)) m id_ptr
        in (session, m, Some n))"

definition olm_outbound_group_session_message_index :: "OlmOutboundGroupSession \<Rightarrow> u32" where
  "olm_outbound_group_session_message_index session = mg_counter (og_ratchet session)"

definition SESSION_KEY_RAW_LENGTH :: nat where
  "SESSION_KEY_RAW_LENGTH = 1 + 4 + 128 + 32 + 64"

definition olm_outbound_group_session_key_length :: nat where
  "olm_outbound_group_session_key_length = encode_base64_length SESSION_KEY_RAW_LENGTH"

text \<open>\<open>for (i = 0; i < 4; i++) { *ptr++ = 0xFF & (counter >> 24); counter <<= 8; }\<close>\<close>

primrec put_counter :: "nat \<Rightarrow> mem \<Rightarrow> addr \<Rightarrow> u32 \<Rightarrow> mem \<times> addr" where
  "put_counter 0 m ptr counter = (m, ptr)"
| "put_counter (Suc n) m ptr counter =
     put_counter n (m(ptr := 0xFF AND ucast (drop_bit 24 counter))) (ptr + 1) (push_bit 8 counter)"

definition olm_outbound_group_session_key ::
  "crypto_lib \<Rightarrow> OlmOutboundGroupSession \<Rightarrow> mem \<Rightarrow> addr \<Rightarrow> nat \<Rightarrow>
   OlmOutboundGroupSession \<times> mem \<times> nat option" where
  "olm_outbound_group_session_key L session m key key_length =
     (let encoded_length = olm_outbound_group_session_key_length
      in if key_length < encoded_length then
           (session\<lparr>og_last_error := OLM_OUTPUT_BUFFER_TOO_SMALL\<rparr>, m, None)
         else
           let raw = key + encoded_length - SESSION_KEY_RAW_LENGTH;
               ptr = raw;
               m = m(ptr := SESSION_KEY_VERSION);
               ptr = ptr + 1;
               (m, ptr) = put_counter 4 m ptr (mg_counter (og_ratchet session));
               m = wr m ptr (megolm_get_data (og_ratchet session));
               ptr = ptr + 128;
               m = wr m ptr (e_public (og_signing_key session));
               ptr = ptr + 32;
               m = wr m ptr (crypto_ed25519_sign L (og_signing_key session) (rd m raw (ptr - raw)));
               (m, n) = olm_encode_base64 m raw SESSION_KEY_RAW_LENGTH key
           in (session, m, Some n))"

section \<open>What the operations write\<close>

definition wf_outbound :: "OlmOutboundGroupSession \<Rightarrow> bool" where
  "wf_outbound og \<longleftrightarrow> wf_megolm (og_ratchet og) \<and> wf_ed_pair (og_signing_key og)"

lemma put_counter_wr: "put_counter 4 m ptr c = (wr m ptr (be32 c), ptr + 4)"
proof -
  have b: "0xFF AND ucast (drop_bit 24 (push_bit n c)) = (ucast (drop_bit (24 - n) c) :: byte)"
    if "n \<le> 24" for n
  proof -
    have "(0xFF :: byte) = - 1" by simp
    then have a: "0xFF AND x = x" for x :: byte by (simp only: and.left_neutral)
    show ?thesis unfolding a using that by (intro bit_word_eqI) (auto simp: bit_simps)
  qed
  have "fst (put_counter 4 m ptr c) i = wr m ptr (be32 c) i" for i
    using b [of 0] b [of 8] b [of 16] b [of 24]
    by (auto simp: numeral_eq_Suc wr_def be32_def nth_Cons' push_bit_push_bit)
  moreover have "snd (put_counter 4 m ptr c) = ptr + 4"
    by (simp add: numeral_eq_Suc)
  ultimately show ?thesis by (simp add: prod_eq_iff fun_eq_iff)
qed

lemma length_sign: "crypto_lib_ok L \<Longrightarrow> length (crypto_ed25519_sign L k msg) = 64"
  by (simp add: crypto_lib_ok_def crypto_ed25519_sign_def)

definition group_body :: "Megolm \<Rightarrow> bytes \<Rightarrow> bytes" where
  "group_body ratchet pt =
     (let data = megolm_get_data ratchet;
          g = group_bytes OLM_PROTOCOL_VERSION (mg_counter ratchet) (cipher_body MEGOLM_CIPHER data pt)
      in g @ cipher_tag MEGOLM_CIPHER data g)"

definition group_message :: "crypto_lib \<Rightarrow> OlmOutboundGroupSession \<Rightarrow> bytes \<Rightarrow> bytes" where
  "group_message L og pt =
     group_body (og_ratchet og) pt @
       crypto_ed25519_sign L (og_signing_key og) (group_body (og_ratchet og) pt)"

lemma length_group_message:
  "crypto_lib_ok L \<Longrightarrow> length (group_message L og pt) = outbound_raw_message_length og (length pt)"
  using length_group_bytes [of OLM_PROTOCOL_VERSION "mg_counter (og_ratchet og)"
      "cipher_body MEGOLM_CIPHER (megolm_get_data (og_ratchet og)) pt" 8 64]
  by (simp add: group_message_def group_body_def Let_def length_sign outbound_raw_message_length_def
      cipher_encrypt_ciphertext_length_def cipher_mac_length_def MAC_LENGTH_def)

lemma outbound_encrypt_wr:
  assumes L: "crypto_lib_ok L"
    and disj: "pt + n \<le> buf \<or> buf + outbound_raw_message_length og n \<le> pt"
  shows "outbound_encrypt L og m pt n buf =
    (og\<lparr>og_ratchet := megolm_advance (og_ratchet og)\<rparr>,
     wr m buf (group_message L og (rd m pt n)),
     Some (outbound_raw_message_length og n - 64))"
proof -
  let ?msg = "rd m pt n"
  let ?data = "megolm_get_data (og_ratchet og)"
  let ?ct = "cipher_body MEGOLM_CIPHER ?data ?msg"
  let ?k = "aes_encrypt_cbc_length n"
  let ?g = "group_bytes OLM_PROTOCOL_VERSION (mg_counter (og_ratchet og)) ?ct"
  let ?body = "group_body (og_ratchet og) ?msg"
  let ?raw = "outbound_raw_message_length og n"
  have raw: "?raw = length ?g + 8 + 64"
    using length_group_message [OF L, of og ?msg]
    by (simp add: group_message_def group_body_def Let_def length_sign [OF L])
  obtain m1 l p where e: "encode_group_message m OLM_PROTOCOL_VERSION (mg_counter (og_ratchet og)) ?k buf
    = (m1, l, p)" by (rule prod_cases3)
  have ctl: "length ?ct = ?k" by simp
  note lay = encode_group_message_layout [OF e ctl]
  have "?k \<le> length ?g" by (simp add: group_bytes_def field_def)
  then have p: "buf \<le> p" using lay(2,3) by simp
  have frame1: "rd m1 pt n = ?msg"
  proof (rule rd_cong)
    fix i assume i: "pt \<le> i" "i < pt + n"
    have "wr m1 p ?ct i = wr m buf ?g i" using lay(1) by simp
    moreover have "wr m1 p ?ct i = m1 i" "wr m buf ?g i = m i"
      using i disj raw lay(2,3) ctl p by (intro wr_out; linarith)+
    ultimately show "m1 i = m i" by simp
  qed
  have ct: "cipher_encrypt MEGOLM_CIPHER ?data m1 pt n p ?k buf (l + 8) =
      (wr m buf ?body, Some (l + 8))"
  proof -
    have m2: "wr m1 p (cipher_body MEGOLM_CIPHER ?data (rd m1 pt n)) = wr m buf ?g"
      unfolding frame1 by (rule lay(1))
    have "cipher_encrypt MEGOLM_CIPHER ?data m1 pt n p ?k buf (l + 8) =
      (wr (wr m buf ?g) (buf + l) (cipher_tag MEGOLM_CIPHER ?data (rd (wr m buf ?g) buf l)), Some (l + 8))"
      using disj raw lay(2,3) ctl p by (subst cipher_encrypt_wr) (auto simp: Let_def m2)
    then show ?thesis using lay(2) by (simp add: group_body_def Let_def wr_append)
  qed
  have l: "length ?body = l + 8" using lay(2) by (simp add: group_body_def Let_def)
  then have "rd (wr m buf ?body) buf (l + 8) = ?body" by simp
  then show ?thesis
    unfolding outbound_encrypt_def Let_def cipher_encrypt_ciphertext_length_def cipher_mac_length_def
      MAC_LENGTH_def e prod.case ct
    using l raw lay(2) by (simp add: group_message_def wr_append)
qed

lemma olm_group_encrypt_wr:
  assumes L: "crypto_lib_ok L"
    and len: "olm_group_encrypt_message_length og n \<le> max_len"
    and disj: "pt + n \<le> out \<or> out + olm_group_encrypt_message_length og n \<le> pt"
  shows "olm_group_encrypt L og m pt n out max_len =
    (og\<lparr>og_ratchet := megolm_advance (og_ratchet og)\<rparr>,
     wr m out (b64_encode (group_message L og (rd m pt n))),
     Some (olm_group_encrypt_message_length og n))"
proof -
  let ?raw = "outbound_raw_message_length og n"
  let ?pos = "out + encode_base64_length ?raw - ?raw"
  let ?msg = "group_message L og (rd m pt n)"
  have ge: "?raw \<le> encode_base64_length ?raw" by (rule encode_base64_length_ge)
  have "pt + n \<le> ?pos \<or> ?pos + ?raw \<le> pt"
    using disj ge by (auto simp: olm_group_encrypt_message_length_def)
  note enc = outbound_encrypt_wr [OF L this]
  have lmsg: "length ?msg = ?raw" by (simp add: length_group_message [OF L])
  have "olm_encode_base64 (wr m ?pos ?msg) ?pos ?raw out =
      (wr (wr m ?pos ?msg) out (b64_encode ?msg), encode_base64_length ?raw)"
    using lmsg by (subst olm_encode_base64_in_place) simp
  also have "wr (wr m ?pos ?msg) out (b64_encode ?msg) = wr m out (b64_encode ?msg)"
    using ge lmsg by (intro wr_wr_cover) simp_all
  finally have b64: "olm_encode_base64 (wr m ?pos ?msg) ?pos ?raw out =
      (wr m out (b64_encode ?msg), encode_base64_length ?raw)" .
  show ?thesis
    using len unfolding olm_group_encrypt_def Let_def enc
    by (simp add: b64 olm_group_encrypt_message_length_def)
qed

lemma olm_group_encrypt_too_small:
  "max_len < olm_group_encrypt_message_length og n \<Longrightarrow>
   olm_group_encrypt L og m pt n out max_len =
     (og\<lparr>og_last_error := OLM_OUTPUT_BUFFER_TOO_SMALL\<rparr>, m, None)"
  by (simp add: olm_group_encrypt_def olm_group_encrypt_message_length_def)

definition session_key_body :: "OlmOutboundGroupSession \<Rightarrow> bytes" where
  "session_key_body og =
     SESSION_KEY_VERSION # be32 (mg_counter (og_ratchet og)) @ megolm_get_data (og_ratchet og) @
       e_public (og_signing_key og)"

definition session_key_bytes :: "crypto_lib \<Rightarrow> OlmOutboundGroupSession \<Rightarrow> bytes" where
  "session_key_bytes L og =
     session_key_body og @ crypto_ed25519_sign L (og_signing_key og) (session_key_body og)"

lemma olm_outbound_group_session_key_wr:
  assumes L: "crypto_lib_ok L" and wf: "wf_outbound og"
    and len: "olm_outbound_group_session_key_length \<le> key_length"
  shows "olm_outbound_group_session_key L og m key key_length =
    (og, wr m key (b64_encode (session_key_bytes L og)), Some olm_outbound_group_session_key_length)"
proof -
  let ?n = "SESSION_KEY_RAW_LENGTH"
  let ?raw = "key + encode_base64_length ?n - ?n"
  let ?body = "session_key_body og" and ?all = "session_key_bytes L og"
  have wf': "wf_megolm (og_ratchet og)" "length (e_public (og_signing_key og)) = 32"
    using wf by (simp_all add: wf_outbound_def wf_ed_pair_def)
  have lb: "length ?body = 165" using wf' by (simp add: session_key_body_def)
  have la: "length ?all = ?n"
    using lb by (simp add: session_key_bytes_def length_sign [OF L] SESSION_KEY_RAW_LENGTH_def)
  have w: "wr (wr (wr (m(?raw := SESSION_KEY_VERSION)) (?raw + 1) (be32 (mg_counter (og_ratchet og))))
      (?raw + 1 + 4) (megolm_get_data (og_ratchet og))) (?raw + 1 + 4 + 128) (e_public (og_signing_key og))
      = wr m ?raw ?body"
    using wr_append [of m ?raw "[SESSION_KEY_VERSION]" "be32 (mg_counter (og_ratchet og)) @
        megolm_get_data (og_ratchet og) @ e_public (og_signing_key og)"] wf'
    by (simp add: session_key_body_def wr_single wr_append add.assoc)
  have r: "rd (wr m ?raw ?body) ?raw (?raw + 1 + 4 + 128 + 32 - ?raw) = ?body"
    using lb by simp
  have s: "wr (wr m ?raw ?body) (?raw + 1 + 4 + 128 + 32)
      (crypto_ed25519_sign L (og_signing_key og) ?body) = wr m ?raw ?all"
  proof -
    have e: "?raw + 1 + 4 + 128 + 32 = ?raw + 165" by simp
    show ?thesis unfolding e session_key_bytes_def by (simp only: wr_append lb)
  qed
  have ge: "?n \<le> encode_base64_length ?n" by (rule encode_base64_length_ge)
  have "olm_encode_base64 (wr m ?raw ?all) ?raw ?n key =
      (wr (wr m ?raw ?all) key (b64_encode ?all), encode_base64_length ?n)"
    using la by (subst olm_encode_base64_in_place) simp
  also have "wr (wr m ?raw ?all) key (b64_encode ?all) = wr m key (b64_encode ?all)"
    using ge la by (intro wr_wr_cover) simp_all
  finally have b64: "olm_encode_base64 (wr m ?raw ?all) ?raw ?n key =
      (wr m key (b64_encode ?all), encode_base64_length ?n)" .
  show ?thesis
    using len
    unfolding olm_outbound_group_session_key_def Let_def put_counter_wr prod.case
      olm_outbound_group_session_key_length_def w r s b64
    by simp
qed

section \<open>Pickling\<close>

definition outbound_enc :: "OlmOutboundGroupSession \<Rightarrow> bytes" where
  "outbound_enc og =
     be32 OUTBOUND_PICKLE_VERSION @
     (megolm_get_data (og_ratchet og) @ be32 (mg_counter (og_ratchet og))) @
     (e_public (og_signing_key og) @ e_private (og_signing_key og))"

lemma length_outbound_enc: "wf_outbound og \<Longrightarrow> length (outbound_enc og) = outbound_raw_pickle_length og"
  by (simp add: outbound_enc_def wf_outbound_def outbound_raw_pickle_length_def pickle_u32_length_def
      megolm_pickle_length_def pickle_ed25519_key_pair_length_def)

lemma olm_pickle_outbound_wr:
  assumes "wf_outbound og" "olm_pickle_outbound_group_session_length og \<le> n"
  shows "olm_pickle_outbound_group_session og key m p n =
    (og, wr m p (pickle_seal key (outbound_enc og)), Some (olm_pickle_outbound_group_session_length og))"
proof -
  let ?k = "outbound_raw_pickle_length og"
  let ?pos = "enc_output_pos p ?k"
  have wf: "wf_megolm (og_ratchet og)" "wf_ed_pair (og_signing_key og)"
    using assms(1) by (simp_all add: wf_outbound_def)
  have "enc_output key (wr m ?pos (outbound_enc og)) p ?k =
      (wr m p (pickle_seal key (outbound_enc og)), enc_output_length ?k)"
    by (rule enc_output_pickled) (simp add: length_outbound_enc [OF assms(1)])
  moreover have "wr m ?pos (outbound_enc og) =
    wr (wr (wr m ?pos (be32 OUTBOUND_PICKLE_VERSION)) (?pos + 4)
      (megolm_get_data (og_ratchet og) @ be32 (mg_counter (og_ratchet og))))
      (?pos + 4 + length (megolm_get_data (og_ratchet og) @ be32 (mg_counter (og_ratchet og))))
      (e_public (og_signing_key og) @ e_private (og_signing_key og))"
    unfolding outbound_enc_def wr_append3 length_be32 ..
  ultimately show ?thesis
    using assms(2)
    by (simp only: olm_pickle_outbound_group_session_def Let_def pickle_u32_wr prod.case
        megolm.pk [OF wf(1)] ed_pair.pk [OF wf(2)] olm_pickle_outbound_group_session_length_def
        if_False not_less [symmetric] simp_thms)
qed

lemma olm_unpickle_outbound_sealed:
  assumes "wf_outbound og" "wf_outbound og0" "stored m p (pickle_seal key (outbound_enc og))"
  shows "\<exists>m'. olm_unpickle_outbound_group_session og0 key m p (olm_pickle_outbound_group_session_length og) =
     (og\<lparr>og_last_error := og_last_error og0\<rparr>, m', Some (olm_pickle_outbound_group_session_length og)) \<and>
     frame m m' p (olm_pickle_outbound_group_session_length og)"
proof -
  let ?n = "olm_pickle_outbound_group_session_length og"
  let ?mg = "megolm_get_data (og_ratchet og) @ be32 (mg_counter (og_ratchet og))"
  let ?ed = "e_public (og_signing_key og) @ e_private (og_signing_key og)"
  have wf: "wf_megolm (og_ratchet og)" "wf_ed_pair (og_signing_key og)"
    "wf_megolm (og_ratchet og0)" "wf_ed_pair (og_signing_key og0)"
    using assms(1,2) by (simp_all add: wf_outbound_def)
  have len: "length (outbound_enc og) = 4 + length ?mg + length ?ed"
    by (simp add: outbound_enc_def)
  have n: "enc_output_length (length (outbound_enc og)) = ?n"
    by (simp add: olm_pickle_outbound_group_session_length_def length_outbound_enc [OF assms(1)])
  obtain m' where m': "enc_input key m p ?n (Some (og_last_error og0)) =
      (m', Some (og_last_error og0), Some (length (outbound_enc og)))"
    "stored m' p (outbound_enc og)" "frame m m' p ?n"
    using enc_input_sealed [OF assms(3), of "Some (og_last_error og0)"] unfolding n by blast
  have st: "stored m' p (be32 OUTBOUND_PICKLE_VERSION)" "stored m' (p + 4) ?mg"
    "stored m' (p + 4 + length ?mg) ?ed"
    using m'(2) by (auto simp: outbound_enc_def add.assoc)
  let ?lim = "p + length (outbound_enc og)"
  have 1: "unpickle_u32 m' p ?lim 0 = (p + 4, OUTBOUND_PICKLE_VERSION)"
    using st(1) len by (simp add: unpickle_u32_eq stored_be32)
  have 2: "megolm_unpickle m' (p + 4) ?lim (og_ratchet og0) = (p + 4 + length ?mg, og_ratchet og)"
    using megolm.unpk_pos [OF wf(1,3) TrueI st(2), of ?lim] len
      megolm.unpk_view [OF wf(1,3) TrueI st(2), of ?lim] by (simp add: prod_eq_iff)
  obtain q where q: "p + 4 + length ?mg = q" by simp
  obtain e where e: "?lim = e" by simp
  have 3: "unpickle_ed25519_key_pair m' (p + 4 + length ?mg) ?lim (og_signing_key og0) =
      (?lim, og_signing_key og)"
    using ed_pair.unpk_pos [OF wf(2,4) TrueI st(3), of ?lim] len
      ed_pair.unpk_view [OF wf(2,4) TrueI st(3), of ?lim] by (simp add: prod_eq_iff)
  have "olm_unpickle_outbound_group_session og0 key m p ?n =
     (og\<lparr>og_last_error := og_last_error og0\<rparr>, m', Some ?n)"
    unfolding olm_unpickle_outbound_group_session_def m'(1) Let_def prod.case option.case option.sel 1
    using 2 3 by (simp add: q e)
  with m'(3) show ?thesis by blast
qed

section \<open>An example session\<close>

definition example_outbound :: OlmOutboundGroupSession where
  "example_outbound =
     fst (olm_init_outbound_group_session example_lib olm_clear_outbound_group_session (\<lambda>i. 5) 0 160)"

lemma wf_example_outbound: "wf_outbound example_outbound"
  by (simp add: example_outbound_def olm_init_outbound_group_session_def Let_def wf_outbound_def
      olm_init_outbound_group_session_random_length_def wf_megolm_init wf_ed_pair_def
      ed25519_generate_key_def example_lib_def)

section \<open>Property\<close>

text \<open>
  A pickled outbound session is restored from its pickle with the same key, whatever session is
  overwritten; only the error code stays that of the object read into.
\<close>

theorem outbound_pickle_round_trip:
  assumes "wf_outbound og" "wf_outbound og0" "olm_pickle_outbound_group_session_length og \<le> n"
  shows "\<exists>m1 k m2. olm_pickle_outbound_group_session og key m p n = (og, m1, Some k) \<and>
    olm_unpickle_outbound_group_session og0 key m1 p k =
      (og\<lparr>og_last_error := og_last_error og0\<rparr>, m2, Some k) \<and> frame m m2 p k"
proof -
  let ?k = "olm_pickle_outbound_group_session_length og"
  let ?m1 = "wr m p (pickle_seal key (outbound_enc og))"
  have "stored ?m1 p (pickle_seal key (outbound_enc og))" by simp
  from olm_unpickle_outbound_sealed [OF assms(1,2) this]
  obtain m2 where u: "olm_unpickle_outbound_group_session og0 key ?m1 p ?k =
      (og\<lparr>og_last_error := og_last_error og0\<rparr>, m2, Some ?k)" and f: "frame ?m1 m2 p ?k" by blast
  have "frame m ?m1 p ?k"
    by (rule frame_wr) (simp_all add: len_simps length_outbound_enc [OF assms(1)]
        olm_pickle_outbound_group_session_length_def)
  from frame_trans [OF this f] show ?thesis
    using olm_pickle_outbound_wr [OF assms(1,3)] u by blast
qed

theorem outbound_pickle_round_trip_witness:
  "\<exists>m1 k m2. olm_pickle_outbound_group_session example_outbound [1] (\<lambda>i. 0) 10
      (olm_pickle_outbound_group_session_length example_outbound) = (example_outbound, m1, Some k) \<and>
    olm_unpickle_outbound_group_session example_outbound [1] m1 10 k =
      (example_outbound\<lparr>og_last_error := og_last_error example_outbound\<rparr>, m2, Some k) \<and>
    frame (\<lambda>i. 0) m2 10 k"
  by (rule outbound_pickle_round_trip [OF wf_example_outbound wf_example_outbound order.refl])

end
