(* ===== verification/InboundGroupSession.thy ===== *)
theory InboundGroupSession
  imports OutboundGroupSession
begin

text \<open>
  \<open>src/inbound_group_session.c\<close>: the receiving side of a group conversation: the ratchet as it was
  shared, the ratchet at the latest message, and the sender's signing key.  \<open>decoded_results\<close> is an
  uninitialised local of the code, whose content is the parameter \<open>junk\<close>.  The lemmas show that the
  session reaches the same ratchet value for a message whichever of its two ratchets it starts
  from, what a successful decryption returns, and which failures change nothing but the error code.
\<close>

record OlmInboundGroupSession =
  ig_initial_ratchet :: Megolm
  ig_latest_ratchet :: Megolm
  ig_signing_key :: bytes
  ig_signing_key_verified :: u32
  ig_last_error :: OlmErrorCode

definition INBOUND_PICKLE_VERSION :: u32 where "INBOUND_PICKLE_VERSION = 2"
definition SESSION_EXPORT_VERSION :: byte where "SESSION_EXPORT_VERSION = 1"

definition SESSION_EXPORT_RAW_LENGTH :: nat where
  "SESSION_EXPORT_RAW_LENGTH = 1 + 4 + 128 + 32"

definition olm_clear_inbound_group_session :: OlmInboundGroupSession where
  "olm_clear_inbound_group_session =
     \<lparr>ig_initial_ratchet = \<lparr>mg_data = replicate 4 (replicate 32 0), mg_counter = 0\<rparr>,
      ig_latest_ratchet = \<lparr>mg_data = replicate 4 (replicate 32 0), mg_counter = 0\<rparr>,
      ig_signing_key = replicate 32 0,
      ig_signing_key_verified = 0,
      ig_last_error = OLM_SUCCESS\<rparr>"

definition olm_inbound_group_session_last_error :: "OlmInboundGroupSession \<Rightarrow> string" where
  "olm_inbound_group_session_last_error session = olm_error_to_string (ig_last_error session)"

text \<open>\<open>for (i = 0; i < 4; i++) { counter <<= 8; counter |= *ptr++; }\<close>\<close>

definition get_counter :: "bytes \<Rightarrow> u32" where
  "get_counter ptr = foldl (\<lambda>counter b. push_bit 8 counter OR ucast b) 0 (take 4 ptr)"

definition init_group_session_keys ::
  "crypto_lib \<Rightarrow> OlmInboundGroupSession \<Rightarrow> bytes \<Rightarrow> bool \<Rightarrow> OlmInboundGroupSession \<times> nat option" where
  "init_group_session_keys L session key_buf export_format =
     (let expected_version = (if export_format then SESSION_EXPORT_VERSION else SESSION_KEY_VERSION);
          version = key_buf ! 0;
          ptr = 1
      in if version \<noteq> expected_version then
           (session\<lparr>ig_last_error := OLM_BAD_SESSION_KEY\<rparr>, None)
         else
           let counter = get_counter (drop ptr key_buf);
               ptr = ptr + 4;
               session = session\<lparr>ig_initial_ratchet := megolm_init (drop ptr key_buf) counter\<rparr>;
               session = session\<lparr>ig_latest_ratchet := megolm_init (drop ptr key_buf) counter\<rparr>;
               ptr = ptr + 128;
               session = session\<lparr>ig_signing_key := take 32 (drop ptr key_buf)\<rparr>;
               ptr = ptr + 32
           in if \<not> export_format then
                if \<not> crypto_ed25519_verify L (ig_signing_key session) (take ptr key_buf)
                       (take 64 (drop ptr key_buf)) then
                  (session\<lparr>ig_last_error := OLM_BAD_SIGNATURE\<rparr>, None)
                else (session\<lparr>ig_signing_key_verified := 1\<rparr>, Some 0)
              else (session, Some 0))"

definition olm_init_inbound_group_session ::
  "crypto_lib \<Rightarrow> OlmInboundGroupSession \<Rightarrow> mem \<Rightarrow> addr \<Rightarrow> nat \<Rightarrow>
   OlmInboundGroupSession \<times> nat option" where
  "olm_init_inbound_group_session L session m session_key session_key_length =
     (case decode_base64_length session_key_length of
        None \<Rightarrow> (session\<lparr>ig_last_error := OLM_INVALID_BASE64\<rparr>, None)
      | Some raw_length \<Rightarrow>
          if raw_length \<noteq> SESSION_KEY_RAW_LENGTH then
            (session\<lparr>ig_last_error := OLM_BAD_SESSION_KEY\<rparr>, None)
          else
            let key_buf = decode_base64_object m session_key session_key_length
            in init_group_session_keys L session key_buf False)"

definition olm_import_inbound_group_session ::
  "crypto_lib \<Rightarrow> OlmInboundGroupSession \<Rightarrow> mem \<Rightarrow> addr \<Rightarrow> nat \<Rightarrow>
   OlmInboundGroupSession \<times> nat option" where
  "olm_import_inbound_group_session L session m session_key session_key_length =
     (case decode_base64_length session_key_length of
        None \<Rightarrow> (session\<lparr>ig_last_error := OLM_INVALID_BASE64\<rparr>, None)
      | Some raw_length \<Rightarrow>
          if raw_length \<noteq> SESSION_EXPORT_RAW_LENGTH then
            (session\<lparr>ig_last_error := OLM_BAD_SESSION_KEY\<rparr>, None)
          else
            let key_buf = decode_base64_object m session_key session_key_length
            in init_group_session_keys L session key_buf True)"

definition inbound_raw_pickle_length :: "OlmInboundGroupSession \<Rightarrow> nat" where
  "inbound_raw_pickle_length session =
     (let n = 0;
          n = n + pickle_u32_length INBOUND_PICKLE_VERSION;
          n = n + megolm_pickle_length (ig_initial_ratchet session);
          n = n + megolm_pickle_length (ig_latest_ratchet session);
          n = n + pickle_ed25519_public_key_length (ig_signing_key session);
          n = n + 1
      in n)"

definition olm_pickle_inbound_group_session_length :: "OlmInboundGroupSession \<Rightarrow> nat" where
  "olm_pickle_inbound_group_session_length session =
     enc_output_length (inbound_raw_pickle_length session)"

definition olm_pickle_inbound_group_session ::
  "OlmInboundGroupSession \<Rightarrow> bytes \<Rightarrow> mem \<Rightarrow> addr \<Rightarrow> nat \<Rightarrow>
   OlmInboundGroupSession \<times> mem \<times> nat option" where
  "olm_pickle_inbound_group_session session key m pickled pickled_length =
     (let raw_length = inbound_raw_pickle_length session
      in if pickled_length < enc_output_length raw_length then
           (session\<lparr>ig_last_error := OLM_OUTPUT_BUFFER_TOO_SMALL\<rparr>, m, None)
         else
           let pos = enc_output_pos pickled raw_length;
               (m, pos) = pickle_u32 m pos INBOUND_PICKLE_VERSION;
               (m, pos) = megolm_pickle m pos (ig_initial_ratchet session);
               (m, pos) = megolm_pickle m pos (ig_latest_ratchet session);
               (m, pos) = pickle_ed25519_public_key m pos (ig_signing_key session);
               (m, pos) = pickle_int_bool m pos (ig_signing_key_verified session);
               (m, n) = enc_output key m pickled raw_length
           in (session, m, Some n))"

definition olm_unpickle_inbound_group_session ::
  "OlmInboundGroupSession \<Rightarrow> bytes \<Rightarrow> mem \<Rightarrow> addr \<Rightarrow> nat \<Rightarrow>
   OlmInboundGroupSession \<times> mem \<times> nat option" where
  "olm_unpickle_inbound_group_session session key m pickled pickled_length =
     (case enc_input key m pickled pickled_length (Some (ig_last_error session)) of
        (m, err, result) \<Rightarrow>
          let session = session\<lparr>ig_last_error := the err\<rparr>
          in case result of
               None \<Rightarrow> (session, m, None)
             | Some raw_length \<Rightarrow>
                 let pos = pickled;
                     end = pos + raw_length;
                     (pos, pickle_version) = unpickle_u32 m pos end 0
                 in if pickle_version < 1 \<or> pickle_version > INBOUND_PICKLE_VERSION then
                      (session\<lparr>ig_last_error := OLM_UNKNOWN_PICKLE_VERSION\<rparr>, m, None)
                    else
                      let (pos, ratchet) = megolm_unpickle m pos end (ig_initial_ratchet session);
                          session = session\<lparr>ig_initial_ratchet := ratchet\<rparr>;
                          (pos, ratchet) = megolm_unpickle m pos end (ig_latest_ratchet session);
                          session = session\<lparr>ig_latest_ratchet := ratchet\<rparr>;
                          (pos, signing_key) =
                            unpickle_ed25519_public_key m pos end (ig_signing_key session);
                          session = session\<lparr>ig_signing_key := signing_key\<rparr>;
                          (pos, verified) =
                            (if pickle_version = 1 then (pos, 1)
                             else unpickle_int_bool m pos end (ig_signing_key_verified session));
                          session = session\<lparr>ig_signing_key_verified := verified\<rparr>
                      in if end \<noteq> pos then
                           (session\<lparr>ig_last_error := OLM_CORRUPTED_PICKLE\<rparr>, m, None)
                         else (session, m, Some pickled_length))"

definition inbound_decrypt_max_plaintext_length ::
  "DecodeGroupMessageResults \<Rightarrow> OlmInboundGroupSession \<Rightarrow> mem \<Rightarrow> addr \<Rightarrow> nat \<Rightarrow>
   OlmInboundGroupSession \<times> nat option" where
  "inbound_decrypt_max_plaintext_length junk session m message message_length =
     (let decoded_results =
            decode_group_message m message message_length (cipher_mac_length MEGOLM_CIPHER) 64 junk
      in if gr_version decoded_results \<noteq> OLM_PROTOCOL_VERSION then
           (session\<lparr>ig_last_error := OLM_BAD_MESSAGE_VERSION\<rparr>, None)
         else if gr_ciphertext decoded_results = None then
           (session\<lparr>ig_last_error := OLM_BAD_MESSAGE_FORMAT\<rparr>, None)
         else
           (session, Some (cipher_decrypt_max_plaintext_length MEGOLM_CIPHER
                             (gr_ciphertext_length decoded_results))))"

definition olm_group_decrypt_max_plaintext_length ::
  "DecodeGroupMessageResults \<Rightarrow> OlmInboundGroupSession \<Rightarrow> mem \<Rightarrow> addr \<Rightarrow> nat \<Rightarrow>
   OlmInboundGroupSession \<times> mem \<times> nat option" where
  "olm_group_decrypt_max_plaintext_length junk session m message message_length =
     (let (m, raw_length) = olm_decode_base64 m message message_length message
      in case raw_length of
           None \<Rightarrow> (session\<lparr>ig_last_error := OLM_INVALID_BASE64\<rparr>, m, None)
         | Some raw_length \<Rightarrow>
             let (session, r) = inbound_decrypt_max_plaintext_length junk session m message raw_length
             in (session, m, r))"

text \<open>The comparisons are on unsigned 32 bit numbers; the result is the ratchet to use.\<close>

definition get_megolm ::
  "OlmInboundGroupSession \<Rightarrow> u32 \<Rightarrow> OlmInboundGroupSession \<times> Megolm option" where
  "get_megolm session message_index =
     (if message_index - mg_counter (ig_latest_ratchet session) < push_bit 31 1 then
        let session = session\<lparr>ig_latest_ratchet :=
              megolm_advance_to (ig_latest_ratchet session) message_index\<rparr>
        in (session, Some (ig_latest_ratchet session))
      else if message_index - mg_counter (ig_initial_ratchet session) \<ge> push_bit 31 1 then
        (session\<lparr>ig_last_error := OLM_UNKNOWN_MESSAGE_INDEX\<rparr>, None)
      else
        let result = ig_initial_ratchet session;
            result = megolm_advance_to result message_index
        in (session, Some result))"

text \<open>The last result is what \<open>*message_index\<close> holds if the caller passed that pointer.\<close>

definition inbound_decrypt ::
  "crypto_lib \<Rightarrow> DecodeGroupMessageResults \<Rightarrow> OlmInboundGroupSession \<Rightarrow> mem \<Rightarrow> addr \<Rightarrow> nat \<Rightarrow>
   addr \<Rightarrow> nat \<Rightarrow> u32 option \<Rightarrow> OlmInboundGroupSession \<times> mem \<times> nat option \<times> u32 option" where
  "inbound_decrypt L junk session m message message_length plaintext max_plaintext_length
      message_index =
     (let decoded_results =
            decode_group_message m message message_length (cipher_mac_length MEGOLM_CIPHER) 64 junk
      in if gr_version decoded_results \<noteq> OLM_PROTOCOL_VERSION then
           (session\<lparr>ig_last_error := OLM_BAD_MESSAGE_VERSION\<rparr>, m, None, message_index)
         else if \<not> gr_has_message_index decoded_results \<or> gr_ciphertext decoded_results = None then
           (session\<lparr>ig_last_error := OLM_BAD_MESSAGE_FORMAT\<rparr>, m, None, message_index)
         else
           let message_index = map_option (\<lambda>_. gr_message_index decoded_results) message_index;
               message_length = size_sub message_length 64;
               r = crypto_ed25519_verify L (ig_signing_key session) (rd m message message_length)
                     (rd m (message + message_length) 64)
           in if \<not> r then
                (session\<lparr>ig_last_error := OLM_BAD_SIGNATURE\<rparr>, m, None, message_index)
              else if max_plaintext_length <
                   cipher_decrypt_max_plaintext_length MEGOLM_CIPHER
                     (gr_ciphertext_length decoded_results) then
                (session\<lparr>ig_last_error := OLM_OUTPUT_BUFFER_TOO_SMALL\<rparr>, m, None, message_index)
              else
                case get_megolm session (gr_message_index decoded_results) of
                  (session, None) \<Rightarrow> (session, m, None, message_index)
                | (session, Some megolm) \<Rightarrow>
                    let (m, r) =
                          cipher_decrypt MEGOLM_CIPHER (megolm_get_data megolm) m
                            message message_length
                            (the (gr_ciphertext decoded_results))
                            (gr_ciphertext_length decoded_results)
                            plaintext max_plaintext_length
                    in if r = None then
                         (session\<lparr>ig_last_error := OLM_BAD_MESSAGE_MAC\<rparr>, m, None, message_index)
                       else (session\<lparr>ig_signing_key_verified := 1\<rparr>, m, r, message_index))"

definition olm_group_decrypt ::
  "crypto_lib \<Rightarrow> DecodeGroupMessageResults \<Rightarrow> OlmInboundGroupSession \<Rightarrow> mem \<Rightarrow> addr \<Rightarrow> nat \<Rightarrow>
   addr \<Rightarrow> nat \<Rightarrow> u32 option \<Rightarrow> OlmInboundGroupSession \<times> mem \<times> nat option \<times> u32 option" where
  "olm_group_decrypt L junk session m message message_length plaintext max_plaintext_length
      message_index =
     (let (m, raw_message_length) = olm_decode_base64 m message message_length message
      in case raw_message_length of
           None \<Rightarrow> (session\<lparr>ig_last_error := OLM_INVALID_BASE64\<rparr>, m, None, message_index)
         | Some raw_message_length \<Rightarrow>
             inbound_decrypt L junk session m message raw_message_length
               plaintext max_plaintext_length message_index)"

definition olm_inbound_group_session_id_length :: nat where
  "olm_inbound_group_session_id_length = encode_base64_length GROUP_SESSION_ID_LENGTH"

definition olm_inbound_group_session_id ::
  "OlmInboundGroupSession \<Rightarrow> mem \<Rightarrow> addr \<Rightarrow> nat \<Rightarrow> OlmInboundGroupSession \<times> mem \<times> nat option" where
  "olm_inbound_group_session_id session m id_ptr id_length =
     (if id_length < olm_inbound_group_session_id_length then
        (session\<lparr>ig_last_error := OLM_OUTPUT_BUFFER_TOO_SMALL\<rparr>, m, None)
      else
        let (m, n) = encode_base64_object (ig_signing_key session) m id_ptr
        in (session, m, Some n))"

definition olm_inbound_group_session_first_known_index :: "OlmInboundGroupSession \<Rightarrow> u32" where
  "olm_inbound_group_session_first_known_index session = mg_counter (ig_initial_ratchet session)"

definition olm_inbound_group_session_is_verified :: "OlmInboundGroupSession \<Rightarrow> u32" where
  "olm_inbound_group_session_is_verified session = ig_signing_key_verified session"

definition olm_export_inbound_group_session_length :: nat where
  "olm_export_inbound_group_session_length = encode_base64_length SESSION_EXPORT_RAW_LENGTH"

definition olm_export_inbound_group_session ::
  "OlmInboundGroupSession \<Rightarrow> mem \<Rightarrow> addr \<Rightarrow> nat \<Rightarrow> u32 \<Rightarrow>
   OlmInboundGroupSession \<times> mem \<times> nat option" where
  "olm_export_inbound_group_session session m key key_length message_index =
     (let encoded_length = olm_export_inbound_group_session_length
      in if key_length < encoded_length then
           (session\<lparr>ig_last_error := OLM_OUTPUT_BUFFER_TOO_SMALL\<rparr>, m, None)
         else
           case get_megolm session message_index of
             (session, None) \<Rightarrow> (session, m, None)
           | (session, Some megolm) \<Rightarrow>
               let raw = key + encoded_length - SESSION_EXPORT_RAW_LENGTH;
                   ptr = raw;
                   m = m(ptr := SESSION_EXPORT_VERSION);
                   ptr = ptr + 1;
                   (m, ptr) = put_counter 4 m ptr message_index;
                   m = wr m ptr (megolm_get_data megolm);
                   ptr = ptr + 128;
                   m = wr m ptr (ig_signing_key session);
                   (m, n) = olm_encode_base64 m raw SESSION_EXPORT_RAW_LENGTH key
               in (session, m, Some n))"

section \<open>The ratchet for a message\<close>

definition wf_inbound :: "OlmInboundGroupSession \<Rightarrow> bool" where
  "wf_inbound ig \<longleftrightarrow>
     wf_megolm (ig_initial_ratchet ig) \<and> wf_megolm (ig_latest_ratchet ig) \<and>
     length (ig_signing_key ig) = 32"

text \<open>The latest ratchet is the initial one advanced by less than half of the counter's range.\<close>

definition inbound_inv :: "OlmInboundGroupSession \<Rightarrow> bool" where
  "inbound_inv ig \<longleftrightarrow>
     wf_inbound ig \<and>
     ig_latest_ratchet ig =
       megolm_advance_to (ig_initial_ratchet ig) (mg_counter (ig_latest_ratchet ig)) \<and>
     mg_counter (ig_latest_ratchet ig) - mg_counter (ig_initial_ratchet ig) < push_bit 31 1"

lemma half_range: "(push_bit 31 1 :: u32) = 0x80000000"
  by simp

lemma index_order:
  fixes i c l :: u32
  assumes "i - c < push_bit 31 1" "l - c < push_bit 31 1" "i - l < push_bit 31 1"
  shows "l - c \<le> i - c"
proof (rule ccontr)
  assume "\<not> l - c \<le> i - c"
  then have less: "i - c < l - c" by simp
  let ?x = "i - c" and ?y = "l - c"
  have u: "unat (?y - ?x) = unat ?y - unat ?x" using less by (intro unat_sub) simp
  have "unat ?y < 2 ^ 31" using assms(2) by (simp add: word_less_nat_alt)
  then have d: "0 < unat (?y - ?x)" "unat (?y - ?x) < 2 ^ 31"
    using less u by (simp_all add: word_less_nat_alt)
  moreover have "unat (i - l) < 2 ^ 31" using assms(3) by (simp add: word_less_nat_alt)
  moreover have "unat (p + q) = unat p + unat q" if "unat p < 2 ^ 31" "unat q < 2 ^ 31" for p q :: u32
    using that by (simp add: unat_word_ariths)
  ultimately have "unat (i - l + (?y - ?x)) = unat (i - l) + unat (?y - ?x)" by blast
  moreover have "i - l + (?y - ?x) = 0" by simp
  ultimately have "unat (i - l) + unat (?y - ?x) = 0" by (metis unsigned_0)
  with d(1) show False by simp
qed

lemma get_megolm_index:
  assumes "inbound_inv ig" "i - mg_counter (ig_initial_ratchet ig) < push_bit 31 1"
  shows "snd (get_megolm ig i) = Some (megolm_advance_to (ig_initial_ratchet ig) i)"
    and "inbound_inv (fst (get_megolm ig i))"
    and "ig_initial_ratchet (fst (get_megolm ig i)) = ig_initial_ratchet ig"
    and "ig_signing_key (fst (get_megolm ig i)) = ig_signing_key ig"
    and "ig_last_error (fst (get_megolm ig i)) = ig_last_error ig"
proof -
  let ?c = "mg_counter (ig_initial_ratchet ig)" and ?l = "mg_counter (ig_latest_ratchet ig)"
  have wf: "wf_megolm (ig_initial_ratchet ig)" "wf_megolm (ig_latest_ratchet ig)"
    and lat: "ig_latest_ratchet ig = megolm_advance_to (ig_initial_ratchet ig) ?l"
    and l: "?l - ?c < push_bit 31 1"
    using assms(1) by (simp_all add: inbound_inv_def wf_inbound_def)
  have t: "megolm_advance_to (ig_latest_ratchet ig) i = megolm_advance_to (ig_initial_ratchet ig) i"
    if "i - ?l < push_bit 31 1"
    using advance_to_trans [OF wf(1) index_order [OF assms(2) l that]] lat by metis
  show "snd (get_megolm ig i) = Some (megolm_advance_to (ig_initial_ratchet ig) i)"
    "ig_initial_ratchet (fst (get_megolm ig i)) = ig_initial_ratchet ig"
    "ig_signing_key (fst (get_megolm ig i)) = ig_signing_key ig"
    "ig_last_error (fst (get_megolm ig i)) = ig_last_error ig"
    using t assms(2) by (auto simp: get_megolm_def Let_def dest: leD)
  show "inbound_inv (fst (get_megolm ig i))"
    using t assms wf by (auto simp: get_megolm_def not_le inbound_inv_def wf_inbound_def
        counter_advance_to wf_advance_to Let_def)
qed

lemma get_megolm_unknown:
  assumes "\<not> i - mg_counter (ig_latest_ratchet ig) < push_bit 31 1"
    "\<not> i - mg_counter (ig_initial_ratchet ig) < push_bit 31 1"
  shows "get_megolm ig i = (ig\<lparr>ig_last_error := OLM_UNKNOWN_MESSAGE_INDEX\<rparr>, None)"
  using assms by (simp add: get_megolm_def not_less)

section \<open>Decrypting a group message\<close>

definition verifies :: "crypto_lib \<Rightarrow> ed25519_key_pair \<Rightarrow> bool" where
  "verifies L k \<longleftrightarrow> (\<forall>msg. crypto_ed25519_verify L (e_public k) msg (crypto_ed25519_sign L k msg))"

lemma verifies_generated:
  "crypto_lib_ok L \<Longrightarrow> length r = 32 \<Longrightarrow> verifies L (ed25519_generate_key L r)"
  by (auto simp: verifies_def crypto_lib_ok_def ed25519_generate_key_def crypto_ed25519_verify_def
      crypto_ed25519_sign_def Let_def split: prod.splits)

lemma inbound_decrypt_group_message:
  assumes L: "crypto_lib_ok L" and ver: "verifies L (og_signing_key og)"
    and st: "stored m msg (group_message L og pt)" and n: "n = outbound_raw_message_length og (length pt)"
    and key: "ig_signing_key ig = e_public (og_signing_key og)"
    and mg: "get_megolm ig (mg_counter (og_ratchet og)) = (ig', Some (og_ratchet og))"
    and max: "aes_encrypt_cbc_length (length pt) \<le> max_len" "aes_encrypt_cbc_length (length pt) < 2 ^ 64"
    and disj: "out + aes_encrypt_cbc_length (length pt) \<le> msg \<or> msg + n \<le> out"
  shows "inbound_decrypt L junk ig m msg n out max_len idx =
    (ig'\<lparr>ig_signing_key_verified := 1\<rparr>, wr m out (pkcs7 pt), Some (length pt),
     map_option (\<lambda>_. mg_counter (og_ratchet og)) idx)"
proof -
  let ?data = "megolm_get_data (og_ratchet og)"
  let ?k = "aes_encrypt_cbc_length (length pt)"
  let ?ct = "cipher_body MEGOLM_CIPHER ?data pt"
  let ?g = "group_bytes OLM_PROTOCOL_VERSION (mg_counter (og_ratchet og)) ?ct"
  let ?tag = "cipher_tag MEGOLM_CIPHER ?data ?g"
  let ?body = "group_body (og_ratchet og) pt"
  have body: "?body = ?g @ ?tag" by (simp add: group_body_def Let_def)
  have len: "n = length ?g + 8 + 64"
    using length_group_message [OF L, of og pt] n by (simp add: group_message_def body length_sign [OF L])
  have stg: "stored m msg ?g" "stored m (msg + length ?g) ?tag"
    "stored m (msg + length ?body) (crypto_ed25519_sign L (og_signing_key og) ?body)"
    using st by (simp_all add: group_message_def body add.assoc)
  have ctl: "length ?ct = ?k" by simp
  obtain pre where pre: "?g = pre @ ?ct" by (rule group_bytes_split)
  then have kg: "?k \<le> length ?g" and "length ?g - ?k = length pre" by simp_all
  then have stct: "stored m (msg + length ?g - ?k) ?ct" using stg(1) unfolding pre by simp
  obtain r where r: "decode_group_message m msg n 8 64 junk = r" by simp
  have res: "r = junk\<lparr>gr_version := OLM_PROTOCOL_VERSION,
      gr_message_index := mg_counter (og_ratchet og), gr_has_message_index := True,
      gr_ciphertext := Some (msg + length ?g - ?k), gr_ciphertext_length := ?k\<rparr>"
    using decode_group_message_bytes [OF stg(1), of n 8 64 junk] len max(2) ctl r by simp
  have sub: "size_sub n 64 = length ?body" using len by (simp add: size_sub_def body)
  have rdb: "rd m msg (length ?body) = ?body" using stg by (simp add: body rd_add stored_rd)
  have rds: "rd m (msg + length ?body) 64 = crypto_ed25519_sign L (og_signing_key og) ?body"
    using stg(3) by (simp add: stored_rd length_sign [OF L])
  have v: "crypto_ed25519_verify L (ig_signing_key ig) ?body (crypto_ed25519_sign L (og_signing_key og) ?body)"
    using ver by (simp add: verifies_def key)
  have dec: "cipher_decrypt MEGOLM_CIPHER ?data m msg (length ?body) (msg + length ?g - ?k) ?k out max_len
      = (wr m out (pkcs7 pt), Some (length pt))"
  proof (rule cipher_decrypt_sealed)
    show "rd m (msg + (length ?body - 8)) 8 = cipher_tag MEGOLM_CIPHER ?data (rd m msg (length ?body - 8))"
      using stg by (simp add: body stored_rd)
    show "rd m (msg + length ?g - ?k) ?k = ?ct" using stct by (simp add: stored_rd)
    show "out \<le> msg + length ?g - ?k \<or> msg + length ?g - ?k + ?k \<le> out"
      using disj len kg by auto
  qed (use max in \<open>simp_all add: body\<close>)
  show ?thesis
    unfolding inbound_decrypt_def cipher_mac_length_def MAC_LENGTH_def Let_def r sub rdb rds
    using max(1) by (simp add: res v cipher_decrypt_max_plaintext_length_def mg dec)
qed

lemma group_decrypt_message:
  assumes L: "crypto_lib_ok L" and ver: "verifies L (og_signing_key og)"
    and st: "stored m msg (b64_encode (group_message L og pt))"
    and n: "n = olm_group_encrypt_message_length og (length pt)"
    and key: "ig_signing_key ig = e_public (og_signing_key og)"
    and mg: "get_megolm ig (mg_counter (og_ratchet og)) = (ig', Some (og_ratchet og))"
    and max: "aes_encrypt_cbc_length (length pt) \<le> max_len" "aes_encrypt_cbc_length (length pt) < 2 ^ 64"
    and disj: "out + aes_encrypt_cbc_length (length pt) \<le> msg \<or> msg + n \<le> out"
  shows "olm_group_decrypt L junk ig m msg n out max_len idx =
    (ig'\<lparr>ig_signing_key_verified := 1\<rparr>, wr (wr m msg (group_message L og pt)) out (pkcs7 pt),
     Some (length pt), map_option (\<lambda>_. mg_counter (og_ratchet og)) idx)"
proof -
  let ?raw = "outbound_raw_message_length og (length pt)"
  have len: "length (group_message L og pt) = ?raw" by (rule length_group_message [OF L])
  have nr: "n = encode_base64_length ?raw" "?raw \<le> n"
    using n encode_base64_length_ge by (simp_all add: olm_group_encrypt_message_length_def)
  have "rd m msg n = b64_encode (group_message L og pt)"
    using st nr len by (simp add: stored_rd)
  then have d: "olm_decode_base64 m msg n msg = (wr m msg (group_message L og pt), Some ?raw)"
    using nr(1) encode_base64_length_mod4 [of ?raw] decode_encode_length [of ?raw]
    by (simp add: olm_decode_base64_def decode_base64_in_place)
  have "out + aes_encrypt_cbc_length (length pt) \<le> msg \<or> msg + ?raw \<le> out"
    using disj nr by auto
  from inbound_decrypt_group_message [OF L ver stored_wr refl key mg max this]
  show ?thesis by (simp add: olm_group_decrypt_def d)
qed

text \<open>A message whose signature does not verify is refused before anything of it is used.\<close>

lemma inbound_decrypt_bad_signature:
  assumes "gr_version res = OLM_PROTOCOL_VERSION" "gr_has_message_index res" "gr_ciphertext res \<noteq> None"
    "decode_group_message m msg n 8 64 junk = res"
    "\<not> crypto_ed25519_verify L (ig_signing_key ig) (rd m msg (size_sub n 64))
        (rd m (msg + size_sub n 64) 64)"
  shows "inbound_decrypt L junk ig m msg n out max_len idx =
    (ig\<lparr>ig_last_error := OLM_BAD_SIGNATURE\<rparr>, m, None, map_option (\<lambda>_. gr_message_index res) idx)"
  using assms by (auto simp: inbound_decrypt_def cipher_mac_length_def MAC_LENGTH_def Let_def)

text \<open>Whatever the message: the shared ratchet and the signing key stay, and a failure leaves the
  verified flag.\<close>

lemma get_megolm_keeps:
  "ig_initial_ratchet (fst (get_megolm ig i)) = ig_initial_ratchet ig \<and>
   ig_signing_key (fst (get_megolm ig i)) = ig_signing_key ig \<and>
   ig_signing_key_verified (fst (get_megolm ig i)) = ig_signing_key_verified ig"
  by (simp add: get_megolm_def Let_def)

lemma inbound_decrypt_keeps:
  assumes "inbound_decrypt L junk ig m msg n out max_len idx = (ig', m', r, idx')"
  shows "ig_initial_ratchet ig' = ig_initial_ratchet ig \<and> ig_signing_key ig' = ig_signing_key ig \<and>
    (r = None \<longrightarrow> ig_signing_key_verified ig' = ig_signing_key_verified ig)"
proof -
  obtain g where g: "decode_group_message m msg n (cipher_mac_length MEGOLM_CIPHER) 64 junk = g" by simp
  obtain ig1 mg where 1: "get_megolm ig (gr_message_index g) = (ig1, mg)" by fastforce
  have k: "ig_initial_ratchet ig1 = ig_initial_ratchet ig" "ig_signing_key ig1 = ig_signing_key ig"
    "ig_signing_key_verified ig1 = ig_signing_key_verified ig"
    using get_megolm_keeps [of ig "gr_message_index g"] 1 by simp_all
  show ?thesis
    using assms k unfolding inbound_decrypt_def Let_def g
    by (auto simp: 1 split: if_splits option.splits prod.splits)
qed

section \<open>Shared and exported session keys\<close>

lemma get_counter_be32 [simp]: "get_counter (be32 c @ bs) = c"
  using of_be32_be32 [of c] by (simp add: get_counter_def of_be32_def)

definition shared_key_bytes :: "byte \<Rightarrow> Megolm \<Rightarrow> bytes \<Rightarrow> bytes" where
  "shared_key_bytes version mg key = version # be32 (mg_counter mg) @ megolm_get_data mg @ key"

lemma session_key_body_shared:
  "session_key_body og = shared_key_bytes SESSION_KEY_VERSION (og_ratchet og) (e_public (og_signing_key og))"
  by (simp add: session_key_body_def shared_key_bytes_def)

lemma init_keys_signed:
  assumes "wf_megolm mg" "length key = 32" "length sig = 64"
  shows "init_group_session_keys L ig (shared_key_bytes SESSION_KEY_VERSION mg key @ sig) False =
    (let ig = ig\<lparr>ig_initial_ratchet := mg, ig_latest_ratchet := mg, ig_signing_key := key\<rparr>
     in if crypto_ed25519_verify L key (shared_key_bytes SESSION_KEY_VERSION mg key) sig
        then (ig\<lparr>ig_signing_key_verified := 1\<rparr>, Some 0)
        else (ig\<lparr>ig_last_error := OLM_BAD_SIGNATURE\<rparr>, None))"
proof -
  have "megolm_init (megolm_get_data mg @ xs) c = megolm_init (megolm_get_data mg) c" for xs c
    using assms(1) by (simp add: megolm_init_def)
  then have i: "megolm_init (megolm_get_data mg @ xs) (mg_counter mg) = mg" for xs
    using megolm_init_self [OF assms(1)] by simp
  show ?thesis
    using assms by (simp add: init_group_session_keys_def shared_key_bytes_def Let_def i)
qed

lemma init_keys_export:
  assumes "wf_megolm mg" "length key = 32"
  shows "init_group_session_keys L ig (shared_key_bytes SESSION_EXPORT_VERSION mg key) True =
    (ig\<lparr>ig_initial_ratchet := mg, ig_latest_ratchet := mg, ig_signing_key := key\<rparr>, Some 0)"
proof -
  have "megolm_init (megolm_get_data mg @ xs) c = megolm_init (megolm_get_data mg) c" for xs c
    using assms(1) by (simp add: megolm_init_def)
  then have i: "megolm_init (megolm_get_data mg @ xs) (mg_counter mg) = mg" for xs
    using megolm_init_self [OF assms(1)] by simp
  show ?thesis
    using assms by (simp add: init_group_session_keys_def shared_key_bytes_def Let_def i)
qed

lemma length_shared_key_bytes:
  "wf_megolm mg \<Longrightarrow> length key = 32 \<Longrightarrow> length (shared_key_bytes v mg key) = 165"
  by (simp add: shared_key_bytes_def)

lemma inbound_from_session_key:
  assumes L: "crypto_lib_ok L" and wf: "wf_outbound og" and ver: "verifies L (og_signing_key og)"
    and st: "stored m sk (b64_encode (session_key_bytes L og))"
  shows "olm_init_inbound_group_session L ig m sk olm_outbound_group_session_key_length =
    (ig\<lparr>ig_initial_ratchet := og_ratchet og, ig_latest_ratchet := og_ratchet og,
        ig_signing_key := e_public (og_signing_key og), ig_signing_key_verified := 1\<rparr>, Some 0)"
proof -
  have wf': "wf_megolm (og_ratchet og)" "length (e_public (og_signing_key og)) = 32"
    using wf by (simp_all add: wf_outbound_def wf_ed_pair_def)
  let ?body = "shared_key_bytes SESSION_KEY_VERSION (og_ratchet og) (e_public (og_signing_key og))"
  have len: "length (session_key_bytes L og) = SESSION_KEY_RAW_LENGTH"
    using length_shared_key_bytes [OF wf'] 
    by (simp add: session_key_bytes_def session_key_body_shared length_sign [OF L] SESSION_KEY_RAW_LENGTH_def)
  then have d: "decode_base64_object m sk olm_outbound_group_session_key_length = session_key_bytes L og"
    using st by (simp add: decode_base64_object_def stored_rd olm_outbound_group_session_key_length_def)
  have "crypto_ed25519_verify L (e_public (og_signing_key og)) ?body
      (crypto_ed25519_sign L (og_signing_key og) ?body)"
    using ver by (simp add: verifies_def)
  then show ?thesis
    by (simp add: olm_init_inbound_group_session_def olm_outbound_group_session_key_length_def
        decode_encode_length d [unfolded olm_outbound_group_session_key_length_def]
        session_key_bytes_def session_key_body_shared init_keys_signed [OF wf'] length_sign [OF L] Let_def)
qed

lemma olm_export_wr:
  assumes "inbound_inv ig" "i - mg_counter (ig_initial_ratchet ig) < push_bit 31 1"
    "olm_export_inbound_group_session_length \<le> n"
  shows "olm_export_inbound_group_session ig m key n i =
    (fst (get_megolm ig i),
     wr m key (b64_encode (shared_key_bytes SESSION_EXPORT_VERSION
        (megolm_advance_to (ig_initial_ratchet ig) i) (ig_signing_key ig))),
     Some olm_export_inbound_group_session_length)"
proof -
  let ?n = "SESSION_EXPORT_RAW_LENGTH"
  let ?raw = "key + encode_base64_length ?n - ?n"
  let ?mg = "megolm_advance_to (ig_initial_ratchet ig) i"
  let ?all = "shared_key_bytes SESSION_EXPORT_VERSION ?mg (ig_signing_key ig)"
  have wf: "wf_megolm (ig_initial_ratchet ig)" "length (ig_signing_key ig) = 32"
    using assms(1) by (simp_all add: inbound_inv_def wf_inbound_def)
  then have mg: "wf_megolm ?mg" "mg_counter ?mg = i" by (simp_all add: wf_advance_to counter_advance_to)
  obtain ig' where g: "get_megolm ig i = (ig', Some ?mg)"
    using get_megolm_index(1) [OF assms(1,2)] by (metis prod.collapse)
  have sk: "ig_signing_key ig' = ig_signing_key ig"
    using get_megolm_index(4) [OF assms(1,2)] g by simp
  have la: "length ?all = ?n"
    using length_shared_key_bytes [OF mg(1) wf(2)] by (simp add: SESSION_EXPORT_RAW_LENGTH_def)
  have w: "wr (wr (wr (m(?raw := SESSION_EXPORT_VERSION)) (?raw + 1) (be32 i))
      (?raw + 1 + 4) (megolm_get_data ?mg)) (?raw + 1 + 4 + 128) (ig_signing_key ig) = wr m ?raw ?all"
    using wr_append [of m ?raw "[SESSION_EXPORT_VERSION]" "be32 i @ megolm_get_data ?mg @ ig_signing_key ig"]
      mg by (simp add: shared_key_bytes_def wr_single wr_append add.assoc)
  have ge: "?n \<le> encode_base64_length ?n" by (rule encode_base64_length_ge)
  have "olm_encode_base64 (wr m ?raw ?all) ?raw ?n key =
      (wr (wr m ?raw ?all) key (b64_encode ?all), encode_base64_length ?n)"
    using la by (subst olm_encode_base64_in_place) simp
  also have "wr (wr m ?raw ?all) key (b64_encode ?all) = wr m key (b64_encode ?all)"
    using ge la by (intro wr_wr_cover) simp_all
  finally have b64: "olm_encode_base64 (wr m ?raw ?all) ?raw ?n key =
      (wr m key (b64_encode ?all), encode_base64_length ?n)" .
  show ?thesis
    unfolding olm_export_inbound_group_session_def Let_def put_counter_wr
      olm_export_inbound_group_session_length_def g
    using assms(3)
    by (simp only: prod.case option.case sk w b64 fst_conv olm_export_inbound_group_session_length_def
        not_less [symmetric] if_False simp_thms)
qed

lemma olm_import_exported:
  assumes "wf_megolm mg" "length key = 32"
    "stored m sk (b64_encode (shared_key_bytes SESSION_EXPORT_VERSION mg key))"
  shows "olm_import_inbound_group_session L ig m sk olm_export_inbound_group_session_length =
    (ig\<lparr>ig_initial_ratchet := mg, ig_latest_ratchet := mg, ig_signing_key := key\<rparr>, Some 0)"
proof -
  have len: "length (shared_key_bytes SESSION_EXPORT_VERSION mg key) = SESSION_EXPORT_RAW_LENGTH"
    using length_shared_key_bytes [OF assms(1,2)] by (simp add: SESSION_EXPORT_RAW_LENGTH_def)
  then have d: "decode_base64_object m sk (encode_base64_length SESSION_EXPORT_RAW_LENGTH) =
      shared_key_bytes SESSION_EXPORT_VERSION mg key"
    using assms(3) by (simp add: decode_base64_object_def stored_rd)
  show ?thesis
    by (simp add: olm_import_inbound_group_session_def olm_export_inbound_group_session_length_def
        decode_encode_length d init_keys_export [OF assms(1,2)])
qed

section \<open>Pickling\<close>

definition inbound_enc :: "OlmInboundGroupSession \<Rightarrow> bytes" where
  "inbound_enc ig =
     be32 INBOUND_PICKLE_VERSION @
     (megolm_get_data (ig_initial_ratchet ig) @ be32 (mg_counter (ig_initial_ratchet ig))) @
     (megolm_get_data (ig_latest_ratchet ig) @ be32 (mg_counter (ig_latest_ratchet ig))) @
     ig_signing_key ig @ [if ig_signing_key_verified ig = 0 then 0 else 1]"

lemma length_inbound_enc: "wf_inbound ig \<Longrightarrow> length (inbound_enc ig) = inbound_raw_pickle_length ig"
  by (simp add: inbound_enc_def wf_inbound_def inbound_raw_pickle_length_def pickle_u32_length_def
      megolm_pickle_length_def pickle_ed25519_public_key_length_def)

lemma wr_append5:
  "wr m a (vs @ ws @ xs @ ys @ zs) =
   wr (wr (wr (wr (wr m a vs) (a + length vs) ws) (a + length vs + length ws) xs)
     (a + length vs + length ws + length xs) ys) (a + length vs + length ws + length xs + length ys) zs"
  by (simp only: wr_append)

lemma olm_pickle_inbound_wr:
  assumes "wf_inbound ig" "olm_pickle_inbound_group_session_length ig \<le> n"
  shows "olm_pickle_inbound_group_session ig key m p n =
    (ig, wr m p (pickle_seal key (inbound_enc ig)), Some (olm_pickle_inbound_group_session_length ig))"
proof -
  let ?k = "inbound_raw_pickle_length ig"
  let ?pos = "enc_output_pos p ?k"
  have wf: "wf_megolm (ig_initial_ratchet ig)" "wf_megolm (ig_latest_ratchet ig)"
    using assms(1) by (simp_all add: wf_inbound_def)
  have "enc_output key (wr m ?pos (inbound_enc ig)) p ?k =
      (wr m p (pickle_seal key (inbound_enc ig)), enc_output_length ?k)"
    by (rule enc_output_pickled) (simp add: length_inbound_enc [OF assms(1)])
  then show ?thesis
    unfolding inbound_enc_def wr_append5 length_be32
    using assms(2)
    by (simp only: olm_pickle_inbound_group_session_def Let_def pickle_u32_wr prod.case
        megolm.pk [OF wf(1)] megolm.pk [OF wf(2)] pickle_ed25519_public_key_def pickle_bytes_def
        pickle_int_bool_wr olm_pickle_inbound_group_session_length_def
        if_False not_less [symmetric] simp_thms)
qed

lemma olm_unpickle_inbound_sealed:
  assumes "wf_inbound ig" "wf_inbound ig0" "stored m p (pickle_seal key (inbound_enc ig))"
  shows "\<exists>m'. olm_unpickle_inbound_group_session ig0 key m p (olm_pickle_inbound_group_session_length ig) =
     (ig\<lparr>ig_last_error := ig_last_error ig0,
         ig_signing_key_verified := (ig_signing_key_verified ig0 AND NOT 0xFF) OR
            (if ig_signing_key_verified ig = 0 then 0 else 1)\<rparr>,
      m', Some (olm_pickle_inbound_group_session_length ig)) \<and>
     frame m m' p (olm_pickle_inbound_group_session_length ig)"
proof -
  let ?n = "olm_pickle_inbound_group_session_length ig"
  let ?mi = "megolm_get_data (ig_initial_ratchet ig) @ be32 (mg_counter (ig_initial_ratchet ig))"
  let ?ml = "megolm_get_data (ig_latest_ratchet ig) @ be32 (mg_counter (ig_latest_ratchet ig))"
  let ?v = "if ig_signing_key_verified ig = 0 then 0 else 1 :: byte"
  have wf: "wf_megolm (ig_initial_ratchet ig)" "wf_megolm (ig_latest_ratchet ig)"
    "wf_megolm (ig_initial_ratchet ig0)" "wf_megolm (ig_latest_ratchet ig0)"
    "length (ig_signing_key ig) = 32" "length (ig_signing_key ig0) = 32"
    using assms(1,2) by (simp_all add: wf_inbound_def)
  have len: "length (inbound_enc ig) = 4 + length ?mi + length ?ml + 32 + 1"
    using wf by (simp add: inbound_enc_def)
  have n: "enc_output_length (length (inbound_enc ig)) = ?n"
    by (simp add: olm_pickle_inbound_group_session_length_def length_inbound_enc [OF assms(1)])
  obtain m' where m': "enc_input key m p ?n (Some (ig_last_error ig0)) =
      (m', Some (ig_last_error ig0), Some (length (inbound_enc ig)))"
    "stored m' p (inbound_enc ig)" "frame m m' p ?n"
    using enc_input_sealed [OF assms(3), of "Some (ig_last_error ig0)"] unfolding n by blast
  obtain q where q: "p + 4 + length ?mi = q" by simp
  obtain r where r: "q + length ?ml = r" by simp
  obtain e where e: "p + length (inbound_enc ig) = e" by simp
  have st: "stored m' p (be32 INBOUND_PICKLE_VERSION)" "stored m' (p + 4) ?mi"
    "stored m' q ?ml" "stored m' r (ig_signing_key ig)" "m' (r + 32) = ?v"
    using m'(2) wf by (auto simp: inbound_enc_def add.assoc simp flip: q r)
  have ends: "p + 4 + length ?mi \<le> e" "q + length ?ml \<le> e" "r + 32 + 1 = e"
    using len by (simp_all flip: q r e)
  have 1: "unpickle_u32 m' p e 0 = (p + 4, INBOUND_PICKLE_VERSION)"
    using st(1) ends by (simp add: unpickle_u32_eq stored_be32)
  have 2: "megolm_unpickle m' (p + 4) e (ig_initial_ratchet ig0) = (q, ig_initial_ratchet ig)"
    using megolm.unpk_pos [OF wf(1,3) TrueI st(2) ends(1)] q
      megolm.unpk_view [OF wf(1,3) TrueI st(2) ends(1)] by (simp add: prod_eq_iff)
  have 3: "megolm_unpickle m' q e (ig_latest_ratchet ig0) = (r, ig_latest_ratchet ig)"
    using megolm.unpk_pos [OF wf(2,4) TrueI st(3) ends(2)] r
      megolm.unpk_view [OF wf(2,4) TrueI st(3) ends(2)] by (simp add: prod_eq_iff)
  have 4: "unpickle_ed25519_public_key m' r e (ig_signing_key ig0) = (r + 32, ig_signing_key ig)"
    using st(4) wf ends(3)
    by (simp add: unpickle_ed25519_public_key_def unpickle_bytes_def stored_rd)
  have 5: "unpickle_int_bool m' (r + 32) e v = (e, (v AND NOT 0xFF) OR
      (if ig_signing_key_verified ig = 0 then 0 else 1))" for v
    using st(5) ends(3) by (auto simp: unpickle_int_bool_def unpickle_bool_def Let_def)
  have ver: "\<not> (INBOUND_PICKLE_VERSION < 1 \<or> INBOUND_PICKLE_VERSION > INBOUND_PICKLE_VERSION)"
    "INBOUND_PICKLE_VERSION \<noteq> 1"
    by (simp_all add: INBOUND_PICKLE_VERSION_def)
  have "olm_unpickle_inbound_group_session ig0 key m p ?n =
     (ig\<lparr>ig_last_error := ig_last_error ig0,
         ig_signing_key_verified := (ig_signing_key_verified ig0 AND NOT 0xFF) OR
            (if ig_signing_key_verified ig = 0 then 0 else 1)\<rparr>, m', Some ?n)"
    unfolding olm_unpickle_inbound_group_session_def m'(1) Let_def prod.case option.case option.sel e 1
    using ver by (simp add: 2 3 4 5)
  with m'(3) show ?thesis by blast
qed

section \<open>Properties\<close>

text \<open>
  C6 A receiver that was given the session key decrypts what the sender encrypts later, whatever
  messages it has decrypted before and in whatever order: the plaintext, its length, the message's
  index, and a session that is still in its invariant and now verified.
\<close>

theorem group_message_round_trip:
  assumes L: "crypto_lib_ok L" and r: "length r = 32"
    and key: "og_signing_key og = ed25519_generate_key L r" "ig_signing_key ig = e_public (og_signing_key og)"
    and inv: "inbound_inv ig"
    and ratchet: "og_ratchet og = megolm_advance_to (ig_initial_ratchet ig) i"
      "i - mg_counter (ig_initial_ratchet ig) < push_bit 31 1"
    and msg: "stored m pt msg" "aes_encrypt_cbc_length (length msg) < 2 ^ 64"
    and buffers: "olm_group_encrypt_message_length og (length msg) \<le> max_len"
      "pt + length msg \<le> out \<or> out + olm_group_encrypt_message_length og (length msg) \<le> pt"
      "aes_encrypt_cbc_length (length msg) \<le> max_pt"
      "buf + aes_encrypt_cbc_length (length msg) \<le> out \<or>
       out + olm_group_encrypt_message_length og (length msg) \<le> buf"
  shows "\<exists>og' m1 n ig' m2.
    olm_group_encrypt L og m pt (length msg) out max_len = (og', m1, Some n) \<and>
    og_ratchet og' = megolm_advance (og_ratchet og) \<and>
    olm_group_decrypt L junk ig m1 out n buf max_pt (Some x) = (ig', m2, Some (length msg), Some i) \<and>
    stored m2 buf msg \<and> inbound_inv ig' \<and> ig_signing_key_verified ig' = 1 \<and>
    ig_initial_ratchet ig' = ig_initial_ratchet ig"
proof -
  let ?n = "olm_group_encrypt_message_length og (length msg)"
  let ?m1 = "wr m out (b64_encode (group_message L og msg))"
  have c: "mg_counter (og_ratchet og) = i"
    using inv ratchet(1) by (simp add: counter_advance_to inbound_inv_def wf_inbound_def)
  note g = get_megolm_index [OF inv ratchet(2)]
  obtain ig' where ig': "get_megolm ig i = (ig', Some (og_ratchet og))"
    using g(1) ratchet(1) by (metis prod.collapse)
  have enc: "olm_group_encrypt L og m pt (length msg) out max_len =
      (og\<lparr>og_ratchet := megolm_advance (og_ratchet og)\<rparr>, ?m1, Some ?n)"
    using olm_group_encrypt_wr [OF L buffers(1,2)] msg(1) by (simp add: stored_rd)
  have "stored ?m1 out (b64_encode (group_message L og msg))" by simp
  from group_decrypt_message [OF L _ this refl key(2) _ buffers(3) msg(2) buffers(4)]
  have dec: "olm_group_decrypt L junk ig ?m1 out ?n buf max_pt (Some x) =
    (ig'\<lparr>ig_signing_key_verified := 1\<rparr>, wr (wr ?m1 out (group_message L og msg)) buf (pkcs7 msg),
     Some (length msg), Some i)"
    using verifies_generated [OF L r] key(1) c ig' by simp
  have "stored (wr (wr ?m1 out (group_message L og msg)) buf (pkcs7 msg)) buf msg"
    using stored_wr [of "wr ?m1 out (group_message L og msg)" buf "pkcs7 msg"]
    by (simp add: pkcs7_def)
  moreover have "inbound_inv (ig'\<lparr>ig_signing_key_verified := 1\<rparr>)"
    using g(2) ig' by (simp add: inbound_inv_def wf_inbound_def)
  moreover have "ig_initial_ratchet (ig'\<lparr>ig_signing_key_verified := 1\<rparr>) = ig_initial_ratchet ig"
    using g(3) ig' by simp
  ultimately show ?thesis
    by (intro exI conjI) (rule enc, simp, rule dec, simp_all)
qed

text \<open>A key whose signature is wrong is refused, and leaves the session as unverified as it was.\<close>

lemma bad_session_key_refused:
  assumes "\<not> crypto_ed25519_verify L (take 32 (drop 133 kb)) (take 165 kb) (take 64 (drop 165 kb))"
    "decode_base64_object m p n = kb"
  shows "snd (olm_init_inbound_group_session L ig m p n) = None"
    "ig_signing_key_verified (fst (olm_init_inbound_group_session L ig m p n)) = ig_signing_key_verified ig"
    "ig_last_error (fst (olm_init_inbound_group_session L ig m p n)) \<in>
       {OLM_INVALID_BASE64, OLM_BAD_SESSION_KEY, OLM_BAD_SIGNATURE}"
  using assms by (auto simp: olm_init_inbound_group_session_def init_group_session_keys_def Let_def
      split: option.splits)

text \<open>
  C13 Sharing a session: the inbound session made from the exported session key starts at the
  sender's ratchet, is verified and satisfies the invariant; and any text, wherever it is and whatever
  its length, that decodes to a key whose last 64 bytes are not a signature of the rest under the
  signing key in it is refused, with an error code, and does not make the session a verified one.
\<close>

theorem session_key_sharing:
  assumes L: "crypto_lib_ok L" and wf: "wf_outbound og" and r: "length r = 32"
    and key: "og_signing_key og = ed25519_generate_key L r"
    and len: "olm_outbound_group_session_key_length \<le> n"
  shows "(\<exists>m1. olm_outbound_group_session_key L og m sk n =
      (og, m1, Some olm_outbound_group_session_key_length) \<and>
    olm_init_inbound_group_session L ig m1 sk olm_outbound_group_session_key_length =
      (ig\<lparr>ig_initial_ratchet := og_ratchet og, ig_latest_ratchet := og_ratchet og,
          ig_signing_key := e_public (og_signing_key og), ig_signing_key_verified := 1\<rparr>, Some 0) \<and>
    inbound_inv (fst (olm_init_inbound_group_session L ig m1 sk olm_outbound_group_session_key_length))) \<and>
    (\<forall>m2 p k kb. decode_base64_object m2 p k = kb \<longrightarrow>
      \<not> crypto_ed25519_verify L (take 32 (drop 133 kb)) (take 165 kb) (take 64 (drop 165 kb)) \<longrightarrow>
      (\<exists>ig'. olm_init_inbound_group_session L ig m2 p k = (ig', None) \<and>
        ig_signing_key_verified ig' = ig_signing_key_verified ig \<and>
        ig_last_error ig' \<in> {OLM_INVALID_BASE64, OLM_BAD_SESSION_KEY, OLM_BAD_SIGNATURE}))"
proof (intro conjI allI impI)
  let ?m1 = "wr m sk (b64_encode (session_key_bytes L og))"
  have ver: "verifies L (og_signing_key og)" using verifies_generated [OF L r] key by simp
  have "stored ?m1 sk (b64_encode (session_key_bytes L og))" by simp
  from inbound_from_session_key [OF L wf ver this] olm_outbound_group_session_key_wr [OF L wf len]
  show "\<exists>m1. olm_outbound_group_session_key L og m sk n = (og, m1, Some olm_outbound_group_session_key_length) \<and>
    olm_init_inbound_group_session L ig m1 sk olm_outbound_group_session_key_length =
      (ig\<lparr>ig_initial_ratchet := og_ratchet og, ig_latest_ratchet := og_ratchet og,
          ig_signing_key := e_public (og_signing_key og), ig_signing_key_verified := 1\<rparr>, Some 0) \<and>
    inbound_inv (fst (olm_init_inbound_group_session L ig m1 sk olm_outbound_group_session_key_length))"
    using wf by (simp add: inbound_inv_def wf_inbound_def wf_outbound_def wf_ed_pair_def advance_to_self)
next
  fix m2 p k kb
  assume "decode_base64_object m2 p k = kb"
    "\<not> crypto_ed25519_verify L (take 32 (drop 133 kb)) (take 165 kb) (take 64 (drop 165 kb))"
  from bad_session_key_refused [OF this(2,1), of ig]
  show "\<exists>ig'. olm_init_inbound_group_session L ig m2 p k = (ig', None) \<and>
      ig_signing_key_verified ig' = ig_signing_key_verified ig \<and>
      ig_last_error ig' \<in> {OLM_INVALID_BASE64, OLM_BAD_SESSION_KEY, OLM_BAD_SIGNATURE}"
    by (metis prod.collapse)
qed

theorem session_key_sharing_witness:
  "(\<exists>m1. olm_outbound_group_session_key example_lib example_outbound (\<lambda>i. 0) 10
      olm_outbound_group_session_key_length =
      (example_outbound, m1, Some olm_outbound_group_session_key_length) \<and>
    inbound_inv (fst (olm_init_inbound_group_session example_lib olm_clear_inbound_group_session m1 10
      olm_outbound_group_session_key_length)))"
  using session_key_sharing [OF example_lib_ok wf_example_outbound, of "replicate 32 5"
      olm_outbound_group_session_key_length "\<lambda>i. 0" 10 olm_clear_inbound_group_session]
  by (auto simp: example_outbound_def olm_init_outbound_group_session_def Let_def rd_def
      olm_init_outbound_group_session_random_length_def map_replicate_const)

definition example_inbound :: OlmInboundGroupSession where
  "example_inbound = olm_clear_inbound_group_session
     \<lparr>ig_initial_ratchet := og_ratchet example_outbound, ig_latest_ratchet := og_ratchet example_outbound,
      ig_signing_key := e_public (og_signing_key example_outbound)\<rparr>"

lemma example_inbound_inv: "inbound_inv example_inbound"
  using wf_example_outbound
  by (simp add: inbound_inv_def wf_inbound_def example_inbound_def advance_to_self wf_outbound_def
      wf_ed_pair_def)

lemma example_signing_key:
  "og_signing_key example_outbound = ed25519_generate_key example_lib (replicate 32 5)"
  by (simp add: example_outbound_def olm_init_outbound_group_session_def Let_def rd_def
      olm_init_outbound_group_session_random_length_def map_replicate_const)

theorem group_message_round_trip_witness:
  "\<exists>og' m1 n ig' m2.
    olm_group_encrypt example_lib example_outbound (\<lambda>i. 9) 5000 3 0 4000 = (og', m1, Some n) \<and>
    olm_group_decrypt example_lib zero_group_results example_inbound m1 0 n 4000 16 (Some 0) =
      (ig', m2, Some 3, Some (mg_counter (og_ratchet example_outbound))) \<and> stored m2 4000 [9, 9, 9]"
proof -
  have c: "mg_counter (og_ratchet example_outbound) = 0"
    by (simp add: example_outbound_def olm_init_outbound_group_session_def Let_def megolm_init_def
        olm_init_outbound_group_session_random_length_def)
  have k: "aes_encrypt_cbc_length 3 = 16" by (simp add: aes_encrypt_cbc_length_def)
  have n: "olm_group_encrypt_message_length example_outbound 3 \<le> 4000"
    by (simp add: olm_group_encrypt_message_length_def outbound_raw_message_length_def c Let_def
        cipher_encrypt_ciphertext_length_def k encode_group_message_length_def varint_length_def
        varstring_length_def varint_length_loop.simps encode_base64_length_def cipher_mac_length_def
        MAC_LENGTH_def)
  have r: "og_ratchet example_outbound = megolm_advance_to (ig_initial_ratchet example_inbound) 0"
    using wf_example_outbound c advance_to_self [of "og_ratchet example_outbound"]
    by (simp add: example_inbound_def wf_outbound_def)
  have l: "length [9, 9, 9 :: byte] = 3" by simp
  show ?thesis
    using group_message_round_trip [OF example_lib_ok _ example_signing_key _ example_inbound_inv r,
      of "\<lambda>i. 9" 5000 "[9, 9, 9]" 4000 0 16 4000 zero_group_results 0] n
    unfolding l k c by (fastforce simp: example_inbound_def c)
qed

text \<open>
  C14 For message indices less than half the counter's range (2^31) after the initial ratchet, the
  ratchet used for an index depends only on the index, not on a message of that range seen before, and
  asking for it keeps the invariant; an index that is 2^31 or more ahead of both stored ratchets, in
  arithmetic modulo 2^32, is refused and changes nothing but the error code.
\<close>

theorem get_megolm_order_independent:
  assumes "inbound_inv ig" "i - mg_counter (ig_initial_ratchet ig) < push_bit 31 1"
    "j - mg_counter (ig_initial_ratchet ig) < push_bit 31 1"
  shows "snd (get_megolm (fst (get_megolm ig j)) i) = snd (get_megolm ig i) \<and>
    snd (get_megolm ig i) = Some (megolm_advance_to (ig_initial_ratchet ig) i) \<and>
    inbound_inv (fst (get_megolm ig i)) \<and>
    (\<forall>k. push_bit 31 1 \<le> k - mg_counter (ig_latest_ratchet ig) \<longrightarrow>
         push_bit 31 1 \<le> k - mg_counter (ig_initial_ratchet ig) \<longrightarrow>
         get_megolm ig k = (ig\<lparr>ig_last_error := OLM_UNKNOWN_MESSAGE_INDEX\<rparr>, None))"
proof -
  note j = get_megolm_index [OF assms(1,3)]
  have "i - mg_counter (ig_initial_ratchet (fst (get_megolm ig j))) < push_bit 31 1"
    using assms(2) j(3) by simp
  from get_megolm_index(1) [OF j(2) this] j(3)
  show ?thesis
    using get_megolm_index(1,2) [OF assms(1,2)] get_megolm_unknown [of _ ig] by (auto simp: not_less)
qed

theorem get_megolm_order_independent_witness:
  "snd (get_megolm (fst (get_megolm example_inbound 70000)) 5) = snd (get_megolm example_inbound 5)"
proof -
  have "mg_counter (ig_initial_ratchet example_inbound) = 0"
    by (simp add: example_inbound_def example_outbound_def olm_init_outbound_group_session_def Let_def
        megolm_init_def olm_init_outbound_group_session_random_length_def)
  then show ?thesis
    using get_megolm_order_independent [OF example_inbound_inv, of 5 70000] by simp
qed

text \<open>
  A session exported at a known index and imported elsewhere has the ratchet of that index as
  its first one, the same signing key, and satisfies the invariant, so it decrypts from there on.
\<close>

theorem export_import_round_trip:
  assumes inv: "inbound_inv ig" and i: "i - mg_counter (ig_initial_ratchet ig) < push_bit 31 1"
    and n: "olm_export_inbound_group_session_length \<le> n"
  shows "\<exists>ig1 m1. olm_export_inbound_group_session ig m key n i =
      (ig1, m1, Some olm_export_inbound_group_session_length) \<and> inbound_inv ig1 \<and>
    olm_import_inbound_group_session L ig0 m1 key olm_export_inbound_group_session_length =
      (ig0\<lparr>ig_initial_ratchet := megolm_advance_to (ig_initial_ratchet ig) i,
           ig_latest_ratchet := megolm_advance_to (ig_initial_ratchet ig) i,
           ig_signing_key := ig_signing_key ig\<rparr>, Some 0) \<and>
    inbound_inv (fst (olm_import_inbound_group_session L ig0 m1 key
      olm_export_inbound_group_session_length))"
proof -
  let ?mg = "megolm_advance_to (ig_initial_ratchet ig) i"
  let ?m1 = "wr m key (b64_encode (shared_key_bytes SESSION_EXPORT_VERSION ?mg (ig_signing_key ig)))"
  have wf: "wf_megolm ?mg" "length (ig_signing_key ig) = 32"
    using inv by (simp_all add: inbound_inv_def wf_inbound_def wf_advance_to)
  have "stored ?m1 key (b64_encode (shared_key_bytes SESSION_EXPORT_VERSION ?mg (ig_signing_key ig)))"
    by simp
  note imp = olm_import_exported [OF wf this, of L ig0]
  then have "inbound_inv (fst (olm_import_inbound_group_session L ig0 ?m1 key
      olm_export_inbound_group_session_length))"
    using wf by (simp add: inbound_inv_def wf_inbound_def advance_to_self)
  with imp olm_export_wr [OF inv i n, of m key] get_megolm_index(2) [OF inv i]
  show ?thesis by blast
qed

theorem export_import_round_trip_witness:
  "\<exists>ig1 m1. olm_export_inbound_group_session example_inbound (\<lambda>i. 0) 10
      olm_export_inbound_group_session_length (mg_counter (ig_initial_ratchet example_inbound)) =
      (ig1, m1, Some olm_export_inbound_group_session_length) \<and> inbound_inv ig1"
  using export_import_round_trip [OF example_inbound_inv _ order.refl,
      of "mg_counter (ig_initial_ratchet example_inbound)" "\<lambda>i. 0" 10 L ig0] by auto

text \<open>
  C31 Nothing is decrypted from a group message whose last 64 bytes are not a signature of the rest
  under the session's key: memory is untouched, of the session only the error code changes, and no
  plaintext length is returned, whatever else is wrong or right with the message.
\<close>

theorem group_forgery_refused:
  assumes "\<not> crypto_ed25519_verify L (ig_signing_key ig) (rd m msg (size_sub n 64))
        (rd m (msg + size_sub n 64) 64)"
  shows "\<exists>e idx'. inbound_decrypt L junk ig m msg n out max_len idx =
      (ig\<lparr>ig_last_error := e\<rparr>, m, None, idx') \<and>
    e \<in> {OLM_BAD_MESSAGE_VERSION, OLM_BAD_MESSAGE_FORMAT, OLM_BAD_SIGNATURE}"
  using assms by (simp add: inbound_decrypt_def Let_def) blast

theorem group_forgery_refused_witness:
  "\<exists>e idx'. inbound_decrypt (example_lib\<lparr>ed25519_verify := \<lambda>sig msg pub. False\<rparr>) zero_group_results example_inbound
      (\<lambda>i. 3) 10 100 0 16 (Some 0) = (example_inbound\<lparr>ig_last_error := e\<rparr>, \<lambda>i. 3, None, idx') \<and>
    e \<in> {OLM_BAD_MESSAGE_VERSION, OLM_BAD_MESSAGE_FORMAT, OLM_BAD_SIGNATURE}"
  by (rule group_forgery_refused) (simp add: crypto_ed25519_verify_def)

text \<open>
  Decrypting never changes the first known ratchet or the signing key, and a session becomes
  verified only by a message that decrypts.
\<close>

theorem group_decrypt_keeps_keys:
  assumes "olm_group_decrypt L junk ig m msg n out max_len idx = (ig', m', r, idx')"
  shows "ig_initial_ratchet ig' = ig_initial_ratchet ig \<and> ig_signing_key ig' = ig_signing_key ig \<and>
    (r = None \<longrightarrow> ig_signing_key_verified ig' = ig_signing_key_verified ig)"
  using assms inbound_decrypt_keeps
  by (fastforce simp: olm_group_decrypt_def Let_def split: prod.splits option.splits)

theorem group_decrypt_keeps_keys_witness:
  "ig_signing_key_verified (fst (olm_group_decrypt example_lib zero_group_results example_inbound (\<lambda>i. 0x41) 0 5 100 9
      None)) = ig_signing_key_verified example_inbound"
proof -
  obtain ig' m' r idx' where d: "olm_group_decrypt example_lib zero_group_results example_inbound (\<lambda>i. 0x41) 0 5 100 9
      None = (ig', m', r, idx')" by (rule prod_cases4)
  moreover have "r = None"
    using d by (simp add: olm_group_decrypt_def olm_decode_base64_def decode_base64_length_def)
  ultimately show ?thesis using group_decrypt_keeps_keys [OF d] by simp
qed

text \<open>
  A pickled inbound session is restored with the same key: both ratchets, the signing key and,
  in the byte the pickle holds of it, the verified flag.
\<close>

theorem inbound_pickle_round_trip:
  assumes "wf_inbound ig" "wf_inbound ig0" "olm_pickle_inbound_group_session_length ig \<le> n"
    "ig_signing_key_verified ig0 = 0" "ig_signing_key_verified ig \<in> {0, 1}"
  shows "\<exists>m1 k m2. olm_pickle_inbound_group_session ig key m p n = (ig, m1, Some k) \<and>
    olm_unpickle_inbound_group_session ig0 key m1 p k =
      (ig\<lparr>ig_last_error := ig_last_error ig0\<rparr>, m2, Some k) \<and> frame m m2 p k"
proof -
  let ?k = "olm_pickle_inbound_group_session_length ig"
  let ?m1 = "wr m p (pickle_seal key (inbound_enc ig))"
  have "stored ?m1 p (pickle_seal key (inbound_enc ig))" by simp
  moreover have "ig\<lparr>ig_last_error := e, ig_signing_key_verified :=
      (if ig_signing_key_verified ig = 0 then 0 else 1)\<rparr> = ig\<lparr>ig_last_error := e\<rparr>" for e
    using assms(5) by (cases ig) auto
  ultimately obtain m2 where u: "olm_unpickle_inbound_group_session ig0 key ?m1 p ?k =
      (ig\<lparr>ig_last_error := ig_last_error ig0\<rparr>, m2, Some ?k)" and f: "frame ?m1 m2 p ?k"
    using olm_unpickle_inbound_sealed [OF assms(1,2), of ?m1 p key] assms(4) by auto
  have "frame m ?m1 p ?k"
    by (rule frame_wr) (simp_all add: len_simps length_inbound_enc [OF assms(1)]
        olm_pickle_inbound_group_session_length_def)
  from frame_trans [OF this f] show ?thesis
    using olm_pickle_inbound_wr [OF assms(1,3)] u by blast
qed

theorem inbound_pickle_round_trip_witness:
  "\<exists>m1 k m2. olm_pickle_inbound_group_session example_inbound [1] (\<lambda>i. 0) 10
      (olm_pickle_inbound_group_session_length example_inbound) = (example_inbound, m1, Some k) \<and>
    olm_unpickle_inbound_group_session example_inbound [1] m1 10 k =
      (example_inbound\<lparr>ig_last_error := ig_last_error example_inbound\<rparr>, m2, Some k) \<and>
    frame (\<lambda>i. 0) m2 10 k"
proof -
  have "wf_inbound example_inbound" using example_inbound_inv by (simp add: inbound_inv_def)
  moreover have "ig_signing_key_verified example_inbound = 0"
    by (simp add: example_inbound_def olm_clear_inbound_group_session_def)
  ultimately show ?thesis by (intro inbound_pickle_round_trip) simp_all
qed

end
