(* ===== verification/Sas.thy ===== *)
theory Sas
  imports OlmMemory Base64 Crypto OlmError
begin

text \<open>
  \<open>src/sas.c\<close>: short authentication strings.  Two parties exchange Curve25519 keys as texts; both
  then derive the same bytes and compute the same MACs from the shared secret.  The struct is a
  record; the cleared memory of a new object is \<open>olm_sas\<close>.  The input and info buffers do not overlap
  the output, so their contents are read up front.
\<close>

record OlmSAS =
  sas_last_error :: OlmErrorCode
  sas_curve25519_key :: curve25519_key_pair
  sas_secret :: bytes

definition olm_sas_last_error :: "OlmSAS \<Rightarrow> string" where
  "olm_sas_last_error sas = olm_error_to_string (sas_last_error sas)"

definition olm_sas :: OlmSAS where
  "olm_sas = \<lparr>sas_last_error = OLM_SUCCESS,
     sas_curve25519_key = \<lparr>c_public = replicate 32 0, c_private = replicate 32 0\<rparr>,
     sas_secret = replicate 32 0\<rparr>"

definition olm_clear_sas :: "OlmSAS \<Rightarrow> OlmSAS" where
  "olm_clear_sas sas = olm_sas"

definition olm_create_sas_random_length :: "OlmSAS \<Rightarrow> nat" where
  "olm_create_sas_random_length sas = 32"

definition olm_create_sas ::
  "crypto_lib \<Rightarrow> OlmSAS \<Rightarrow> mem \<Rightarrow> addr \<Rightarrow> nat \<Rightarrow> OlmSAS \<times> nat option" where
  "olm_create_sas L sas m random random_length =
     (if random_length < olm_create_sas_random_length sas then
        (sas\<lparr>sas_last_error := OLM_NOT_ENOUGH_RANDOM\<rparr>, None)
      else (sas\<lparr>sas_curve25519_key := curve25519_generate_key L (rd m random 32)\<rparr>, Some 0))"

definition olm_sas_pubkey_length :: "OlmSAS \<Rightarrow> nat" where
  "olm_sas_pubkey_length sas = encode_base64_length 32"

definition olm_sas_get_pubkey ::
  "OlmSAS \<Rightarrow> mem \<Rightarrow> addr \<Rightarrow> nat \<Rightarrow> OlmSAS \<times> mem \<times> nat option" where
  "olm_sas_get_pubkey sas m pubkey pubkey_length =
     (if pubkey_length < olm_sas_pubkey_length sas then
        (sas\<lparr>sas_last_error := OLM_OUTPUT_BUFFER_TOO_SMALL\<rparr>, m, None)
      else (sas, fst (encode_base64_object (c_public (sas_curve25519_key sas)) m pubkey), Some 0))"

definition olm_sas_set_their_key ::
  "crypto_lib \<Rightarrow> OlmSAS \<Rightarrow> mem \<Rightarrow> addr \<Rightarrow> nat \<Rightarrow> OlmSAS \<times> mem \<times> nat option" where
  "olm_sas_set_their_key L sas m their_key their_key_length =
     (if their_key_length < olm_sas_pubkey_length sas then
        (sas\<lparr>sas_last_error := OLM_INPUT_BUFFER_TOO_SMALL\<rparr>, m, None)
      else
        let (m, _) = olm_decode_base64 m their_key their_key_length their_key
        in (sas\<lparr>sas_secret := curve25519_shared_secret L (sas_curve25519_key sas) (rd m their_key 32)\<rparr>,
            m, Some 0))"

definition olm_sas_generate_bytes ::
  "OlmSAS \<Rightarrow> mem \<Rightarrow> addr \<Rightarrow> nat \<Rightarrow> addr \<Rightarrow> nat \<Rightarrow> OlmSAS \<times> mem \<times> nat option" where
  "olm_sas_generate_bytes sas m info info_length output output_length =
     (sas, wr m output (crypto_hkdf_sha256 (sas_secret sas) None (rd m info info_length) output_length), Some 0)"

definition olm_sas_mac_length :: "OlmSAS \<Rightarrow> nat" where
  "olm_sas_mac_length sas = encode_base64_length 32"

definition olm_sas_calculate_mac ::
  "OlmSAS \<Rightarrow> mem \<Rightarrow> addr \<Rightarrow> nat \<Rightarrow> addr \<Rightarrow> nat \<Rightarrow> addr \<Rightarrow> nat \<Rightarrow> OlmSAS \<times> mem \<times> nat option" where
  "olm_sas_calculate_mac sas m input input_length info info_length mac mac_length =
     (if mac_length < olm_sas_mac_length sas then
        (sas\<lparr>sas_last_error := OLM_OUTPUT_BUFFER_TOO_SMALL\<rparr>, m, None)
      else
        let key = crypto_hkdf_sha256 (sas_secret sas) None (rd m info info_length) 32;
            m = wr m mac (crypto_hmac_sha256 key (rd m input input_length));
            (m, _) = olm_encode_base64 m mac 32 mac
        in (sas, m, Some 0))"

definition olm_sas_calculate_mac_long_kdf ::
  "OlmSAS \<Rightarrow> mem \<Rightarrow> addr \<Rightarrow> nat \<Rightarrow> addr \<Rightarrow> nat \<Rightarrow> addr \<Rightarrow> nat \<Rightarrow> OlmSAS \<times> mem \<times> nat option" where
  "olm_sas_calculate_mac_long_kdf sas m input input_length info info_length mac mac_length =
     (if mac_length < olm_sas_mac_length sas then
        (sas\<lparr>sas_last_error := OLM_OUTPUT_BUFFER_TOO_SMALL\<rparr>, m, None)
      else
        let key = crypto_hkdf_sha256 (sas_secret sas) None (rd m info info_length) 256;
            m = wr m mac (crypto_hmac_sha256 key (rd m input input_length));
            (m, _) = olm_encode_base64 m mac 32 mac
        in (sas, m, Some 0))"

section \<open>The shared secret\<close>

text \<open>Both parties, each with its random input, publish their keys and read the other's.\<close>

definition sas_party :: "crypto_lib \<Rightarrow> bytes \<Rightarrow> OlmSAS" where
  "sas_party L random = fst (olm_create_sas L olm_sas (wr (\<lambda>_. 0) 0 random) 0 (length random))"

definition sas_accept :: "crypto_lib \<Rightarrow> OlmSAS \<Rightarrow> OlmSAS \<Rightarrow> mem \<Rightarrow> addr \<Rightarrow> OlmSAS" where
  "sas_accept L sas other m p =
     (let (_, m, _) = olm_sas_get_pubkey other m p (olm_sas_pubkey_length other)
      in fst (olm_sas_set_their_key L sas m p (olm_sas_pubkey_length other)))"

lemma sas_party_key:
  "length random = 32 \<Longrightarrow> sas_party L random = olm_sas\<lparr>sas_curve25519_key := curve25519_generate_key L random\<rparr>"
  by (simp add: sas_party_def olm_create_sas_def olm_create_sas_random_length_def)

lemma sas_accept_secret:
  assumes "length (c_public (sas_curve25519_key other)) = 32"
  shows "sas_accept L sas other m p =
    sas\<lparr>sas_secret := curve25519_shared_secret L (sas_curve25519_key sas) (c_public (sas_curve25519_key other))\<rparr>"
proof -
  let ?k = "c_public (sas_curve25519_key other)" and ?n = "encode_base64_length 32"
  have "rd (wr m p (b64_encode ?k)) p ?n = b64_encode ?k" using assms by simp
  then have "fst (olm_decode_base64 (wr m p (b64_encode ?k)) p ?n p) = wr (wr m p (b64_encode ?k)) p ?k"
    by (simp only: olm_decode_base64_def fst_conv decode_base64_in_place [OF encode_base64_length_mod4]
        b64_decode_encode)
  then show ?thesis
    using assms by (simp add: sas_accept_def olm_sas_get_pubkey_def olm_sas_pubkey_length_def
        encode_base64_object_def olm_sas_set_their_key_def case_prod_beta)
qed

lemma sas_secrets_agree:
  assumes "crypto_lib_ok L" "length ra = 32" "length rb = 32"
  shows "sas_secret (sas_accept L (sas_party L ra) (sas_party L rb) m p) =
    sas_secret (sas_accept L (sas_party L rb) (sas_party L ra) m' p')"
proof -
  have "length CURVE25519_BASEPOINT = 32" by (simp add: CURVE25519_BASEPOINT_def)
  then have "length (c_public (sas_curve25519_key (sas_party L r))) = 32" if "length r = 32" for r
    using assms(1) that by (simp add: sas_party_key curve25519_generate_key_def crypto_lib_ok_def)
  then show ?thesis
    using assms by (simp add: sas_accept_secret sas_party_key curve25519_generate_key_def
        curve25519_shared_secret_def crypto_lib_ok_def)
qed

section \<open>Encoding a buffer over its own start\<close>

text \<open>Two memories that agree where the loop reads agree afterwards where it has written.\<close>

definition agree :: "addr set \<Rightarrow> mem \<Rightarrow> mem \<Rightarrow> bool" where
  "agree A m m' \<longleftrightarrow> (\<forall>i\<in>A. m i = m' i)"

lemma agree_wr: "agree A m m' \<Longrightarrow> agree (A \<union> {p..<p + length bs}) (wr m p bs) (wr m' p bs)"
  by (auto simp: agree_def wr_def)

lemma agree_mono: "agree A m m' \<Longrightarrow> B \<subseteq> A \<Longrightarrow> agree B m m'"
  by (auto simp: agree_def)

lemma agree_step:
  assumes "agree A m m'" "{pos, pos + 1, pos + 2} \<subseteq> A"
  obtains m1 m1' where
    "\<And>n. encode_loop (Suc n) m pos out = encode_loop n m1 (pos + 3) (out + 4)"
    "\<And>n. encode_loop (Suc n) m' pos out = encode_loop n m1' (pos + 3) (out + 4)"
    "agree (A \<union> {out..<out + 4}) m1 m1'"
proof -
  let ?e = "enc3 (m pos) (m (pos + 1)) (m (pos + 2))"
  have e: "enc3 (m' pos) (m' (pos + 1)) (m' (pos + 2)) = ?e" using assms by (simp add: agree_def)
  show thesis
    using agree_wr [OF assms(1), of out ?e] by (intro that) (simp_all only: encode_loop_step e length_enc)
qed

lemma agree_loop:
  assumes "agree {p..<p + 4 * k} m m'" "3 \<le> k"
  shows "agree {p..<p + 4 * (k + n)} (fst (encode_loop n m (p + 3 * k) (p + 4 * k)))
     (fst (encode_loop n m' (p + 3 * k) (p + 4 * k)))"
  using assms
proof (induction n arbitrary: k m m')
  case (Suc n)
  have "{p + 3 * k, p + 3 * k + 1, p + 3 * k + 2} \<subseteq> {p..<p + 4 * k}" using Suc.prems(2) by auto
  from agree_step [OF Suc.prems(1) this, of "p + 4 * k"] obtain m1 m1' where s:
    "encode_loop (Suc n) m (p + 3 * k) (p + 4 * k) = encode_loop n m1 (p + 3 * k + 3) (p + 4 * k + 4)"
    "encode_loop (Suc n) m' (p + 3 * k) (p + 4 * k) = encode_loop n m1' (p + 3 * k + 3) (p + 4 * k + 4)"
    "agree ({p..<p + 4 * k} \<union> {p + 4 * k..<p + 4 * k + 4}) m1 m1'" by metis
  have "agree {p..<p + 4 * Suc k} m1 m1'" by (rule agree_mono [OF s(3)]) auto
  moreover have "p + 3 * k + 3 = p + 3 * Suc k" "p + 4 * k + 4 = p + 4 * Suc k" "k + Suc n = Suc k + n"
    by simp_all
  ultimately show ?case using Suc.IH [of "Suc k" m1 m1'] Suc.prems(2) by (simp only: s(1,2))
qed simp

lemma encode_loop_end: "snd (encode_loop n m q r) = (q + 3 * n, r + 4 * n)"
proof (induction n arbitrary: m q r)
  case (Suc n)
  then show ?case by (simp only: encode_loop_step) simp
qed simp

lemma agree_32:
  assumes "agree {p, p + 1, p + 2, p + 4, p + 5, p + 8} m m'"
  shows "rd (fst (encode_base64 m p 32 p)) p 43 = rd (fst (encode_base64 m' p 32 p)) p 43"
proof -
  let ?A = "{p, p + 1, p + 2, p + 4, p + 5, p + 8}"
  obtain m1 m1' where 1: "\<And>n. encode_loop (Suc n) m p p = encode_loop n m1 (p + 3) (p + 4)"
    "\<And>n. encode_loop (Suc n) m' p p = encode_loop n m1' (p + 3) (p + 4)" "agree (?A \<union> {p..<p + 4}) m1 m1'"
    by (rule agree_step [OF assms, of p p]) auto
  obtain m2 m2' where 2: "\<And>n. encode_loop (Suc n) m1 (p + 3) (p + 4) = encode_loop n m2 (p + 3 + 3) (p + 4 + 4)"
    "\<And>n. encode_loop (Suc n) m1' (p + 3) (p + 4) = encode_loop n m2' (p + 3 + 3) (p + 4 + 4)"
    "agree (?A \<union> {p..<p + 4} \<union> {p + 4..<p + 4 + 4}) m2 m2'"
    by (rule agree_step [OF 1(3), of "p + 3" "p + 4"]) auto
  obtain m3 m3' where 3: "\<And>n. encode_loop (Suc n) m2 (p + 3 + 3) (p + 4 + 4) = encode_loop n m3 (p + 3 + 3 + 3) (p + 4 + 4 + 4)"
    "\<And>n. encode_loop (Suc n) m2' (p + 3 + 3) (p + 4 + 4) = encode_loop n m3' (p + 3 + 3 + 3) (p + 4 + 4 + 4)"
    "agree (?A \<union> {p..<p + 4} \<union> {p + 4..<p + 4 + 4} \<union> {p + 4 + 4..<p + 4 + 4 + 4}) m3 m3'"
    by (rule agree_step [OF 2(3), of "p + 3 + 3" "p + 4 + 4"]) auto
  have "agree {p..<p + 4 * 3} m3 m3'" by (rule agree_mono [OF 3(3)]) auto
  from agree_loop [OF this, of 7]
  have a: "agree {p..<p + 40} (fst (encode_loop 7 m3 (p + 9) (p + 12))) (fst (encode_loop 7 m3' (p + 9) (p + 12)))"
    by simp
  have ten: "(10 :: nat) = Suc (Suc (Suc 7))" by simp
  have l: "encode_loop 10 m p p = encode_loop 7 m3 (p + 9) (p + 12)"
    "encode_loop 10 m' p p = encode_loop 7 m3' (p + 9) (p + 12)"
    by (simp_all only: ten 1 2 3) (simp_all add: add.assoc)
  let ?last = "\<lambda>m. wr m (p + 40) (enc2 (m (p + 30)) (m (p + 31)))"
  have e: "fst (encode_base64 m p 32 p) = ?last (fst (encode_loop 10 m p p))" for m
  proof -
    have "encode_loop 10 m p p = (fst (encode_loop 10 m p p), p + 30, p + 40)"
      using encode_loop_end [of 10 m p p] by (simp add: prod_eq_iff)
    then obtain y where y: "encode_loop 10 m p p = (y, p + 30, p + 40)" by blast
    show ?thesis by (simp add: encode_base64_def y enc2_def Let_def wr3 add.commute [of p 31])
  qed
  have last: "agree {p..<p + 43} (?last y) (?last y')" if "agree {p..<p + 40} y y'" for y y'
  proof -
    have "y (p + 30) = y' (p + 30)" "y (p + 31) = y' (p + 31)" using that by (simp_all add: agree_def)
    then show ?thesis
      using agree_wr [OF that, of "p + 40" "enc2 (y (p + 30)) (y (p + 31))"] by (auto simp: agree_def)
  qed
  have "agree {p..<p + 43} (?last (fst (encode_loop 10 m p p))) (?last (fst (encode_loop 10 m' p p)))"
    using a unfolding l by (rule last)
  then show ?thesis unfolding e by (simp add: rd_eq_iff agree_def)
qed

section \<open>Properties\<close>

text \<open>
  Two parties that read each other's published key derive the same bytes and the same MAC, for
  every info and input, from whatever addresses they work at.
\<close>

theorem sas_parties_agree:
  assumes "crypto_lib_ok L" "length ra = 32" "length rb = 32"
    "a = sas_accept L (sas_party L ra) (sas_party L rb) m1 p1"
    "b = sas_accept L (sas_party L rb) (sas_party L ra) m2 p2"
  shows "fst (snd (olm_sas_generate_bytes a m info k out n)) = fst (snd (olm_sas_generate_bytes b m info k out n)) \<and>
    fst (snd (olm_sas_calculate_mac a m inp len info k out n)) =
      fst (snd (olm_sas_calculate_mac b m inp len info k out n))"
proof -
  have s: "sas_secret a = sas_secret b" using sas_secrets_agree [OF assms(1-3)] assms(4,5) by simp
  have "fst (snd (olm_sas_calculate_mac x m inp len info k out n)) =
      (if n < encode_base64_length 32 then m
       else fst (olm_encode_base64 (wr m out (crypto_hmac_sha256 (crypto_hkdf_sha256 (sas_secret x) None
         (rd m info k) 32) (rd m inp len))) out 32 out))" for x
    by (simp add: olm_sas_calculate_mac_def olm_sas_mac_length_def case_prod_beta Let_def)
  then show ?thesis using s by (simp add: olm_sas_generate_bytes_def)
qed

theorem sas_parties_agree_witness:
  "fst (snd (olm_sas_calculate_mac
      (sas_accept example_lib (sas_party example_lib (replicate 32 1)) (sas_party example_lib (replicate 32 2)) (\<lambda>i. 0) 4)
      (\<lambda>i. 5) 0 3 10 2 100 43)) =
    fst (snd (olm_sas_calculate_mac
      (sas_accept example_lib (sas_party example_lib (replicate 32 2)) (sas_party example_lib (replicate 32 1)) (\<lambda>i. 0) 9)
      (\<lambda>i. 5) 0 3 10 2 100 43))"
  using sas_parties_agree [OF example_lib_ok _ _ refl refl, of "replicate 32 1" "replicate 32 2"] by simp

text \<open>The MAC of the input before it is encoded.\<close>

definition sas_hmac :: "OlmSAS \<Rightarrow> bytes \<Rightarrow> bytes \<Rightarrow> bytes" where
  "sas_hmac sas info inp = crypto_hmac_sha256 (crypto_hkdf_sha256 (sas_secret sas) None info 32) inp"

lemma length_sas_hmac [simp]: "length (sas_hmac sas info inp) = 32"
  by (simp add: sas_hmac_def)

lemma sas_mac_encoded:
  assumes "43 \<le> n"
  shows "fst (snd (olm_sas_calculate_mac x m inp len info k mac n)) =
    fst (encode_base64 (wr m mac (sas_hmac x (rd m info k) (rd m inp len))) mac 32 mac)"
  using assms by (simp add: olm_sas_calculate_mac_def olm_sas_mac_length_def encode_base64_length_def
      sas_hmac_def olm_encode_base64_def case_prod_beta Let_def)

text \<open>What the buffer holds in the end, from the six bytes that are read before they are overwritten.\<close>

definition sas_mac_text :: "addr \<Rightarrow> bytes \<Rightarrow> bytes" where
  "sas_mac_text p bs = rd (fst (encode_base64
     (wr (\<lambda>_. 0) p [bs ! 0, bs ! 1, bs ! 2, 0, bs ! 3, bs ! 4, 0, 0, bs ! 5]) p 32 p)) p 43"

text \<open>
  C35 The MAC is encoded over its own start, so that the encoder reads characters it has written: the
  text is a function of the bytes 0, 1, 2, 4, 5 and 8 of the HMAC, that is of 48 of its 256 bits.
\<close>

theorem sas_mac_keeps_six_bytes:
  assumes "43 \<le> n"
  shows "rd (fst (snd (olm_sas_calculate_mac a m inp len info k mac n))) mac 43 =
    sas_mac_text mac (map ((!) (sas_hmac a (rd m info k) (rd m inp len))) [0, 1, 2, 4, 5, 8])"
proof -
  let ?h = "sas_hmac a (rd m info k) (rd m inp len)"
  let ?six = "[?h ! 0, ?h ! 1, ?h ! 2, 0, ?h ! 4, ?h ! 5, 0, 0, ?h ! 8]"
  have "agree {mac, mac + 1, mac + 2, mac + 4, mac + 5, mac + 8} (wr m mac ?h) (wr (\<lambda>_. 0) mac ?six)"
    by (simp add: agree_def wr_def)
  from agree_32 [OF this] show ?thesis by (simp add: sas_mac_encoded [OF assms] sas_mac_text_def)
qed

theorem sas_mac_keeps_six_bytes_witness:
  "rd (fst (snd (olm_sas_calculate_mac olm_sas (\<lambda>i. 0) 1 2 3 4 100 43))) 100 43 =
    sas_mac_text 100 (map ((!) (sas_hmac olm_sas (rd (\<lambda>i. 0) 3 4) (rd (\<lambda>i. 0) 1 2))) [0, 1, 2, 4, 5, 8])"
  by (rule sas_mac_keeps_six_bytes) simp

end
