(* ===== verification/Account.thy ===== *)
theory Account
  imports Pickle Base64 OlmError
begin

text \<open>
  \<open>src/account.cpp\<close> and \<open>account.hh\<close>: the identity keys of a device and its list of one-time keys.
  The operations take the account, and the memory where they write to a caller's buffer, and return
  both with the value the code returns (\<open>None\<close> for \<open>std::size_t(-1)\<close>).  Random input is the byte
  string the caller passes.  The libsodium functions the file calls are a record of functions; each
  returns its code and what it writes.
\<close>

section \<open>State\<close>

record sodium =
  crypto_sign :: "bytes \<Rightarrow> bytes \<Rightarrow> int \<times> bytes"
  crypto_sign_seed_keypair :: "bytes \<Rightarrow> int \<times> bytes \<times> bytes"
  crypto_sign_ed25519_sk_to_curve25519 :: "bytes \<Rightarrow> int \<times> bytes"
  crypto_sign_ed25519_pk_to_curve25519 :: "bytes \<Rightarrow> int \<times> bytes"

record IdentityKeys =
  ik_ed25519_key :: ed25519_key_pair
  ik_curve25519_key :: curve25519_key_pair

record OneTimeKey =
  otk_id :: u32
  otk_published :: bool
  otk_key :: curve25519_key_pair

definition MAX_ONE_TIME_KEYS :: nat where "MAX_ONE_TIME_KEYS = 100000"
definition ED25519_RANDOM_LENGTH :: nat where "ED25519_RANDOM_LENGTH = 32"
definition CURVE25519_RANDOM_LENGTH :: nat where "CURVE25519_RANDOM_LENGTH = 32"
definition ED25519_SIGNATURE_LENGTH :: nat where "ED25519_SIGNATURE_LENGTH = 64"

record Account =
  ac_identity_keys :: IdentityKeys
  ac_one_time_keys :: "OneTimeKey olist"
  ac_next_one_time_key_id :: u32
  ac_last_error :: OlmErrorCode

text \<open>
  The constructor, on the cleared memory that \<open>olm_account\<close> gives it: the identity keys and the
  unused slots of the list stay zero.
\<close>

definition zero_curve_pair :: curve25519_key_pair where
  "zero_curve_pair = \<lparr>c_public = replicate 32 0, c_private = replicate 32 0\<rparr>"

definition zero_one_time_key :: OneTimeKey where
  "zero_one_time_key = \<lparr>otk_id = 0, otk_published = False, otk_key = zero_curve_pair\<rparr>"

definition fresh_account :: Account where
  "fresh_account =
     \<lparr>ac_identity_keys = \<lparr>ik_ed25519_key = \<lparr>e_public = replicate 32 0, e_private = replicate 64 0\<rparr>,
        ik_curve25519_key = zero_curve_pair\<rparr>,
      ac_one_time_keys = ol_new (\<lambda>_. zero_one_time_key), ac_next_one_time_key_id = 0,
      ac_last_error = OLM_SUCCESS\<rparr>"

section \<open>Looking up and removing a key\<close>

text \<open>Both loops run from \<open>begin()\<close>; \<open>n\<close> elements are left at position \<open>i\<close>.\<close>

primrec lookup_loop :: "nat \<Rightarrow> OneTimeKey olist \<Rightarrow> bytes \<Rightarrow> nat \<Rightarrow> nat option" where
  "lookup_loop 0 keys public_key i = None"
| "lookup_loop (Suc n) keys public_key i =
     (if array_equal (c_public (otk_key (ol_nth keys i))) public_key then Some i
      else lookup_loop n keys public_key (i + 1))"

text \<open>The result is the position of the key the code returns a pointer to.\<close>

definition lookup_key :: "Account \<Rightarrow> bytes \<Rightarrow> nat option" where
  "lookup_key account public_key =
     lookup_loop (ol_size (ac_one_time_keys account)) (ac_one_time_keys account) public_key 0"

definition remove_key :: "Account \<Rightarrow> bytes \<Rightarrow> Account \<times> nat option" where
  "remove_key account public_key =
     (case lookup_loop (ol_size (ac_one_time_keys account)) (ac_one_time_keys account) public_key 0 of
        None \<Rightarrow> (account, None)
      | Some i \<Rightarrow>
          let id = otk_id (ol_nth (ac_one_time_keys account) i)
          in (account\<lparr>ac_one_time_keys := ol_erase (ac_one_time_keys account) i\<rparr>, Some (unat id)))"

section \<open>Identity keys\<close>

definition new_account_random_length :: nat where
  "new_account_random_length = ED25519_RANDOM_LENGTH + CURVE25519_RANDOM_LENGTH"

definition new_account :: "crypto_lib \<Rightarrow> bytes \<Rightarrow> Account \<Rightarrow> Account \<times> nat option" where
  "new_account L random account =
     (if length random < new_account_random_length then
        (account\<lparr>ac_last_error := OLM_NOT_ENOUGH_RANDOM\<rparr>, None)
      else
        let ed25519_key = ed25519_generate_key L random;
            random = drop ED25519_RANDOM_LENGTH random;
            curve25519_key = curve25519_generate_key L random
        in (account\<lparr>ac_identity_keys :=
              \<lparr>ik_ed25519_key = ed25519_key, ik_curve25519_key = curve25519_key\<rparr>\<rparr>, Some 0))"

definition new_account_derrived_keys :: "sodium \<Rightarrow> bytes \<Rightarrow> Account \<Rightarrow> Account \<times> nat option" where
  "new_account_derrived_keys S random account =
     (if length random < ED25519_RANDOM_LENGTH then
        (account\<lparr>ac_last_error := OLM_NOT_ENOUGH_RANDOM\<rparr>, None)
      else
        let keys = ac_identity_keys account;
            (rc, pk, sk) = crypto_sign_seed_keypair S (take 32 random);
            keys = keys\<lparr>ik_ed25519_key := \<lparr>e_public = pk, e_private = sk\<rparr>\<rparr>
        in if rc \<noteq> 0 then
             (account\<lparr>ac_identity_keys := keys, ac_last_error := OLM_NOT_ENOUGH_RANDOM\<rparr>, None)
           else
             let (rc, csk) = crypto_sign_ed25519_sk_to_curve25519 S sk;
                 keys = keys\<lparr>ik_curve25519_key := (ik_curve25519_key keys)\<lparr>c_private := csk\<rparr>\<rparr>
             in if rc \<noteq> 0 then
                  (account\<lparr>ac_identity_keys := keys, ac_last_error := OLM_NOT_ENOUGH_RANDOM\<rparr>, None)
                else
                  let (rc, cpk) = crypto_sign_ed25519_pk_to_curve25519 S pk;
                      keys = keys\<lparr>ik_curve25519_key := (ik_curve25519_key keys)\<lparr>c_public := cpk\<rparr>\<rparr>
                  in if rc \<noteq> 0 then
                       (account\<lparr>ac_identity_keys := keys, ac_last_error := OLM_NOT_ENOUGH_RANDOM\<rparr>, None)
                     else (account\<lparr>ac_identity_keys := keys\<rparr>, Some 0))"

section \<open>JSON\<close>

definition KEY_JSON_ED25519 :: bytes where
  "KEY_JSON_ED25519 = cstr (CHR 0x22 # ''ed25519'' @ [CHR 0x22, CHR 0x3A])"

definition KEY_JSON_CURVE25519 :: bytes where
  "KEY_JSON_CURVE25519 = cstr (CHR 0x22 # ''curve25519'' @ [CHR 0x22, CHR 0x3A])"

definition write_string :: "mem \<Rightarrow> addr \<Rightarrow> bytes \<Rightarrow> mem \<times> addr" where
  "write_string m pos value = (wr m pos value, pos + length value)"

text \<open>\<open>*(pos++) = c\<close>.\<close>

definition put :: "mem \<Rightarrow> addr \<Rightarrow> char \<Rightarrow> mem \<times> addr" where
  "put m pos c = (m(pos := of_char c), pos + 1)"

text \<open>\<open>encode_base64\<close> of an array of the account, which returns the position behind its output.\<close>

definition put_base64 :: "mem \<Rightarrow> addr \<Rightarrow> bytes \<Rightarrow> mem \<times> addr" where
  "put_base64 m pos bs = (let (m, n) = encode_base64_object bs m pos in (m, pos + n))"

definition get_identity_json_length :: "Account \<Rightarrow> nat" where
  "get_identity_json_length account =
     1 + length KEY_JSON_CURVE25519 + 1 +
     encode_base64_length (length (c_public (ik_curve25519_key (ac_identity_keys account)))) + 2 +
     length KEY_JSON_ED25519 + 1 +
     encode_base64_length (length (e_public (ik_ed25519_key (ac_identity_keys account)))) + 2"

definition get_identity_json :: "Account \<Rightarrow> mem \<Rightarrow> addr \<Rightarrow> nat \<Rightarrow> Account \<times> mem \<times> nat option" where
  "get_identity_json account m identity_json identity_json_length =
     (if identity_json_length < get_identity_json_length account then
        (account\<lparr>ac_last_error := OLM_OUTPUT_BUFFER_TOO_SMALL\<rparr>, m, None)
      else
        let (m, pos) = put m identity_json (CHR ''{'');
            (m, pos) = write_string m pos KEY_JSON_CURVE25519;
            (m, pos) = put m pos (CHR 0x22);
            (m, pos) = put_base64 m pos (c_public (ik_curve25519_key (ac_identity_keys account)));
            (m, pos) = put m pos (CHR 0x22);
            (m, pos) = put m pos (CHR '','');
            (m, pos) = write_string m pos KEY_JSON_ED25519;
            (m, pos) = put m pos (CHR 0x22);
            (m, pos) = put_base64 m pos (e_public (ik_ed25519_key (ac_identity_keys account)));
            (m, pos) = put m pos (CHR 0x22);
            (m, pos) = put m pos (CHR ''}'')
        in (account, m, Some (pos - identity_json)))"

section \<open>Signing\<close>

definition signature_length :: nat where
  "signature_length = ED25519_SIGNATURE_LENGTH"

text \<open>
  \<open>crypto_sign\<close> writes the signed message, a signature and the message behind it, to \<open>signature\<close>.
\<close>

definition account_sign ::
  "sodium \<Rightarrow> Account \<Rightarrow> mem \<Rightarrow> addr \<Rightarrow> nat \<Rightarrow> addr \<Rightarrow> nat \<Rightarrow> Account \<times> mem \<times> nat option" where
  "account_sign S account m message message_length signature signature_len =
     (if signature_len < signature_length then
        (account\<lparr>ac_last_error := OLM_OUTPUT_BUFFER_TOO_SMALL\<rparr>, m, None)
      else
        let sk = e_private (ik_ed25519_key (ac_identity_keys account));
            (rc, signed) = crypto_sign S (rd m message message_length) sk;
            m = wr m signature signed
        in if rc \<noteq> 0 then (account\<lparr>ac_last_error := OLM_OUTPUT_BUFFER_TOO_SMALL\<rparr>, m, None)
           else (account, m, Some signature_length))"

section \<open>One-time keys\<close>

text \<open>The range-based \<open>for\<close> loops go over the live elements in order.\<close>

primrec one_time_keys_json_length_loop :: "OneTimeKey list \<Rightarrow> nat \<Rightarrow> bool \<Rightarrow> nat \<times> bool" where
  "one_time_keys_json_length_loop [] n is_empty = (n, is_empty)"
| "one_time_keys_json_length_loop (key # keys) n is_empty =
     (if otk_published key then one_time_keys_json_length_loop keys n is_empty
      else one_time_keys_json_length_loop keys
        (n + 2 + encode_base64_length (pickle_u32_length (otk_id key)) + 3 +
         encode_base64_length (length (c_public (otk_key key))) + 1) False)"

definition get_one_time_keys_json_length :: "Account \<Rightarrow> nat" where
  "get_one_time_keys_json_length account =
     (let (n, is_empty) = one_time_keys_json_length_loop (items (ac_one_time_keys account)) 0 True
      in (if is_empty then n + 1 else n) + 3 + length KEY_JSON_CURVE25519)"

text \<open>The key id is written big-endian into a local array.\<close>

definition key_id_bytes :: "u32 \<Rightarrow> bytes" where
  "key_id_bytes i = rd (fst (pickle_u32 (\<lambda>_. 0) 0 i)) 0 (pickle_u32_length i)"

primrec one_time_keys_json_loop ::
  "OneTimeKey list \<Rightarrow> mem \<Rightarrow> addr \<Rightarrow> char \<Rightarrow> mem \<times> addr \<times> char" where
  "one_time_keys_json_loop [] m pos sep = (m, pos, sep)"
| "one_time_keys_json_loop (key # keys) m pos sep =
     (if otk_published key then one_time_keys_json_loop keys m pos sep
      else
        let (m, pos) = put m pos sep;
            (m, pos) = put m pos (CHR 0x22);
            (m, pos) = put_base64 m pos (key_id_bytes (otk_id key));
            (m, pos) = put m pos (CHR 0x22);
            (m, pos) = put m pos (CHR '':'');
            (m, pos) = put m pos (CHR 0x22);
            (m, pos) = put_base64 m pos (c_public (otk_key key));
            (m, pos) = put m pos (CHR 0x22)
        in one_time_keys_json_loop keys m pos (CHR '',''))"

definition get_one_time_keys_json ::
  "Account \<Rightarrow> mem \<Rightarrow> addr \<Rightarrow> nat \<Rightarrow> Account \<times> mem \<times> nat option" where
  "get_one_time_keys_json account m one_time_json one_time_json_length =
     (if one_time_json_length < get_one_time_keys_json_length account then
        (account\<lparr>ac_last_error := OLM_OUTPUT_BUFFER_TOO_SMALL\<rparr>, m, None)
      else
        let (m, pos) = put m one_time_json (CHR ''{'');
            (m, pos) = write_string m pos KEY_JSON_CURVE25519;
            (m, pos, sep) =
              one_time_keys_json_loop (items (ac_one_time_keys account)) m pos (CHR ''{'');
            (m, pos) = (if sep \<noteq> CHR '','' then put m pos sep else (m, pos));
            (m, pos) = put m pos (CHR ''}'');
            (m, pos) = put m pos (CHR ''}'')
        in (account, m, Some (pos - one_time_json)))"

primrec mark_loop :: "nat \<Rightarrow> OneTimeKey olist \<Rightarrow> nat \<Rightarrow> nat \<Rightarrow> OneTimeKey olist \<times> nat" where
  "mark_loop 0 keys i count = (keys, count)"
| "mark_loop (Suc n) keys i count =
     (if \<not> otk_published (ol_nth keys i) then
        mark_loop n (ol_set keys i ((ol_nth keys i)\<lparr>otk_published := True\<rparr>)) (i + 1) (count + 1)
      else mark_loop n keys (i + 1) count)"

definition mark_keys_as_published :: "Account \<Rightarrow> Account \<times> nat" where
  "mark_keys_as_published account =
     (let (keys, count) =
        mark_loop (ol_size (ac_one_time_keys account)) (ac_one_time_keys account) 0 0
      in (account\<lparr>ac_one_time_keys := keys\<rparr>, count))"

definition max_number_of_one_time_keys :: nat where
  "max_number_of_one_time_keys = MAX_ONE_TIME_KEYS"

text \<open>A product of two \<open>size_t\<close> values.\<close>

definition generate_one_time_keys_random_length :: "nat \<Rightarrow> nat" where
  "generate_one_time_keys_random_length number_of_keys =
     CURVE25519_RANDOM_LENGTH * number_of_keys mod 2 ^ 64"

definition add_one_time_key :: "crypto_lib \<Rightarrow> bytes \<Rightarrow> Account \<Rightarrow> Account" where
  "add_one_time_key L random account =
     (let (keys, p) = ol_insert_begin MAX_ONE_TIME_KEYS (ac_one_time_keys account);
          id = ac_next_one_time_key_id account + 1
      in account\<lparr>ac_next_one_time_key_id := id,
           ac_one_time_keys := ol_set keys p
             \<lparr>otk_id = id, otk_published = False, otk_key = curve25519_generate_key L random\<rparr>\<rparr>)"

text \<open>
  The loop counter is an \<open>unsigned\<close>, the bound a \<open>size_t\<close>: for \<open>2\<^sup>3\<^sup>2\<close> keys and more the loop does not
  end, which is the value \<open>None\<close>.
\<close>

partial_function (option) generate_loop ::
  "crypto_lib \<Rightarrow> nat \<Rightarrow> u32 \<Rightarrow> bytes \<Rightarrow> Account \<Rightarrow> Account option" where
  "generate_loop L number_of_keys i random account =
     (if unat i < number_of_keys then
        generate_loop L number_of_keys (i + 1) (drop CURVE25519_RANDOM_LENGTH random)
          (add_one_time_key L random account)
      else Some account)"

definition generate_one_time_keys ::
  "crypto_lib \<Rightarrow> nat \<Rightarrow> bytes \<Rightarrow> Account \<Rightarrow> (Account \<times> nat option) option" where
  "generate_one_time_keys L number_of_keys random account =
     (if length random < generate_one_time_keys_random_length number_of_keys then
        Some (account\<lparr>ac_last_error := OLM_NOT_ENOUGH_RANDOM\<rparr>, None)
      else
        case generate_loop L number_of_keys 0 random account of
          None \<Rightarrow> None
        | Some account \<Rightarrow> Some (account, Some number_of_keys))"

section \<open>Well-formed accounts\<close>

definition valid_one_time_key :: "OneTimeKey \<Rightarrow> bool" where
  "valid_one_time_key k \<longleftrightarrow> wf_curve_pair (otk_key k)"

definition wf_identity_keys :: "IdentityKeys \<Rightarrow> bool" where
  "wf_identity_keys k \<longleftrightarrow> wf_ed_pair (ik_ed25519_key k) \<and> wf_curve_pair (ik_curve25519_key k)"

definition wf_account :: "Account \<Rightarrow> bool" where
  "wf_account a \<longleftrightarrow> wf_identity_keys (ac_identity_keys a) \<and>
     list_wf valid_one_time_key MAX_ONE_TIME_KEYS (ac_one_time_keys a)"

abbreviation keys :: "Account \<Rightarrow> OneTimeKey list" where
  "keys a \<equiv> items (ac_one_time_keys a)"

lemma wf_fresh_account: "wf_account fresh_account" "keys fresh_account = []"
  by (simp_all add: wf_account_def fresh_account_def wf_identity_keys_def wf_ed_pair_def zero_curve_pair_def
      wf_curve_pair_def list_wf_new valid_one_time_key_def zero_one_time_key_def)

lemma wf_generated_pair:
  "crypto_lib_ok L \<Longrightarrow> length r = 32 \<Longrightarrow> wf_curve_pair (curve25519_generate_key L (r @ s))"
  by (simp add: wf_curve_pair_def curve25519_generate_key_def Let_def crypto_lib_ok_def CURVE25519_BASEPOINT_def)

lemma wf_generated_pair_take:
  "crypto_lib_ok L \<Longrightarrow> 32 \<le> length r \<Longrightarrow> wf_curve_pair (curve25519_generate_key L r)"
  using wf_generated_pair [of L "take 32 r" "drop 32 r"] by simp

lemma wf_generated_ed_pair:
  "crypto_lib_ok L \<Longrightarrow> 32 \<le> length r \<Longrightarrow> wf_ed_pair (ed25519_generate_key L r)"
  by (auto simp: wf_ed_pair_def ed25519_generate_key_def crypto_lib_ok_def split: prod.split
      dest!: spec [of _ "take 32 r"])

section \<open>Looking up and removing\<close>

lemma lookup_loop_Some:
  "lookup_loop n ks k i = Some p \<Longrightarrow>
   i \<le> p \<and> p < i + n \<and> array_equal (c_public (otk_key (ol_nth ks p))) k \<and>
   (\<forall>j. i \<le> j \<and> j < p \<longrightarrow> \<not> array_equal (c_public (otk_key (ol_nth ks j))) k)"
proof (induction n arbitrary: i)
  case (Suc n)
  show ?case
  proof (cases "array_equal (c_public (otk_key (ol_nth ks i))) k")
    case False
    then have "lookup_loop n ks k (i + 1) = Some p" using Suc.prems by simp
    note r = Suc.IH [OF this]
    have "\<not> array_equal (c_public (otk_key (ol_nth ks j))) k" if "i \<le> j" "j < p" for j
      using r False that by (cases "j = i") auto
    then show ?thesis using r by auto
  qed (use Suc.prems in auto)
qed simp

lemma lookup_loop_None:
  "lookup_loop n ks k i = None \<longleftrightarrow>
   (\<forall>j. i \<le> j \<and> j < i + n \<longrightarrow> \<not> array_equal (c_public (otk_key (ol_nth ks j))) k)"
proof (induction n arbitrary: i)
  case (Suc n)
  have "(\<forall>j. i \<le> j \<and> j < i + Suc n \<longrightarrow> P j) \<longleftrightarrow> P i \<and> (\<forall>j. i + 1 \<le> j \<and> j < i + 1 + n \<longrightarrow> P j)" for P
    by (auto simp: le_less_Suc_eq) (metis Suc_leI le_neq_implies_less)
  from this [of "\<lambda>j. \<not> array_equal (c_public (otk_key (ol_nth ks j))) k"] show ?case
    by (simp only: lookup_loop.simps Suc.IH [symmetric]) simp
qed auto

lemma valid_key_length: "wf_account a \<Longrightarrow> length (c_public (otk_key (ol_data (ac_one_time_keys a) i))) = 32"
  by (simp add: wf_account_def list_wf_def valid_one_time_key_def wf_curve_pair_def)

text \<open>On a well-formed account: the first key in the list with that public part.\<close>

lemma lookup_key_Some:
  assumes "wf_account a" "length k = 32" "lookup_key a k = Some i"
  shows "i < length (keys a)" "c_public (otk_key (keys a ! i)) = k"
    "\<forall>j<i. c_public (otk_key (keys a ! j)) \<noteq> k"
  using lookup_loop_Some [OF assms(3) [unfolded lookup_key_def]] assms(1,2)
  by (auto simp: ol_size_def ol_nth_def array_equal_iff valid_key_length)

lemma lookup_key_None:
  assumes "wf_account a" "length k = 32"
  shows "lookup_key a k = None \<longleftrightarrow> (\<forall>x\<in>set (keys a). c_public (otk_key x) \<noteq> k)"
  using assms by (auto simp: lookup_key_def lookup_loop_None ol_size_def ol_nth_def items_def
      array_equal_iff valid_key_length)

lemma remove_key_eq:
  "remove_key a k = (case lookup_key a k of None \<Rightarrow> (a, None)
     | Some i \<Rightarrow> (a\<lparr>ac_one_time_keys := ol_erase (ac_one_time_keys a) i\<rparr>,
                  Some (unat (otk_id (ol_nth (ac_one_time_keys a) i)))))"
  by (simp add: remove_key_def lookup_key_def Let_def split: option.split)

lemma remove_key_wf: "wf_account a \<Longrightarrow> wf_account (fst (remove_key a k))"
  by (auto simp: remove_key_eq wf_account_def split: option.split intro: list_wf_erase)

lemma keys_remove:
  assumes "wf_account a" "length k = 32"
  shows "keys (fst (remove_key a k)) =
      takeWhile (\<lambda>x. c_public (otk_key x) \<noteq> k) (keys a) @ tl (dropWhile (\<lambda>x. c_public (otk_key x) \<noteq> k) (keys a))"
    (is "_ = takeWhile ?P _ @ tl (dropWhile ?P _)")
proof (cases "lookup_key a k")
  case None
  then have all: "\<forall>x\<in>set (keys a). ?P x" using lookup_key_None [OF assms] by simp
  then have d: "dropWhile ?P (keys a) = []" by (simp add: dropWhile_eq_Nil_conv)
  have t: "takeWhile ?P (keys a) = keys a" using all by (simp add: takeWhile_eq_all_conv)
  show ?thesis unfolding t d using None by (simp add: remove_key_eq)
next
  case (Some i)
  note s = lookup_key_Some [OF assms Some]
  have t: "takeWhile ?P (keys a) = take i (keys a)"
    by (rule takeWhile_eq_take_P_nth) (use s in auto)
  then have "dropWhile ?P (keys a) = drop i (keys a)"
    using s(1) by (metis append_eq_conv_conj dropWhile_eq_drop length_take min.absorb4 takeWhile_dropWhile_id)
  then have d: "tl (dropWhile ?P (keys a)) = drop (Suc i) (keys a)" by (simp add: tl_drop drop_Suc)
  show ?thesis using s(1) Some by (simp add: remove_key_eq t d items_erase)
qed

section \<open>Publishing\<close>

lemma published_again: "otk_published k \<Longrightarrow> k\<lparr>otk_published := True\<rparr> = (k :: OneTimeKey)"
  by (cases k) simp

lemma mark_loop_keys:
  "ol_end (fst (mark_loop n ks i c)) = ol_end ks"
  "ol_data (fst (mark_loop n ks i c)) j =
     (if i \<le> j \<and> j < i + n then (ol_data ks j)\<lparr>otk_published := True\<rparr> else ol_data ks j)"
  by (induction n arbitrary: ks i c)
    (auto simp: ol_nth_def ol_set_def published_again not_less_eq_eq dest: le_antisym)

lemma mark_loop_count:
  "snd (mark_loop n ks i c) = c + length (filter (\<lambda>k. \<not> otk_published k) (map (ol_data ks) [i..<i + n]))"
proof (induction n arbitrary: ks i c)
  case (Suc n)
  have up: "[i..<i + Suc n] = i # [Suc i..<Suc i + n]" by (simp add: upt_conv_Cons del: upt_Suc)
  show ?case
    unfolding up
    by (simp add: Suc.IH ol_nth_def ol_set_def del: upt_Suc) (auto intro!: arg_cong [where f = length] filter_cong)
qed simp

lemma mark_keys:
  "keys (fst (mark_keys_as_published a)) = map (\<lambda>k. k\<lparr>otk_published := True\<rparr>) (keys a)"
  "snd (mark_keys_as_published a) = length (filter (\<lambda>k. \<not> otk_published k) (keys a))"
proof -
  obtain ks n where m: "mark_loop (ol_size (ac_one_time_keys a)) (ac_one_time_keys a) 0 0 = (ks, n)"
    by fastforce
  note k = mark_loop_keys [of "ol_size (ac_one_time_keys a)" "ac_one_time_keys a" 0 0, unfolded m]
  show "keys (fst (mark_keys_as_published a)) = map (\<lambda>k. k\<lparr>otk_published := True\<rparr>) (keys a)"
    unfolding mark_keys_as_published_def m using k by (simp add: items_def ol_size_def)
  show "snd (mark_keys_as_published a) = length (filter (\<lambda>k. \<not> otk_published k) (keys a))"
    using mark_loop_count [of "ol_size (ac_one_time_keys a)" "ac_one_time_keys a" 0 0]
    unfolding mark_keys_as_published_def m by (simp add: items_def ol_size_def)
qed

lemma mark_keys_wf: "wf_account a \<Longrightarrow> wf_account (fst (mark_keys_as_published a))"
  using mark_loop_keys [of "ol_size (ac_one_time_keys a)" "ac_one_time_keys a" 0 0]
  by (auto simp: mark_keys_as_published_def wf_account_def list_wf_def valid_one_time_key_def
      split: prod.split)

section \<open>Generating one-time keys\<close>

definition new_one_time_key :: "crypto_lib \<Rightarrow> u32 \<Rightarrow> bytes \<Rightarrow> nat \<Rightarrow> OneTimeKey" where
  "new_one_time_key L start random j =
     \<lparr>otk_id = start + 1 + of_nat j, otk_published = False,
      otk_key = curve25519_generate_key L (drop (32 * j) random)\<rparr>"

primrec add_one_time_keys :: "crypto_lib \<Rightarrow> nat \<Rightarrow> bytes \<Rightarrow> Account \<Rightarrow> Account" where
  "add_one_time_keys L 0 random a = a"
| "add_one_time_keys L (Suc n) random a =
     add_one_time_keys L n (drop 32 random) (add_one_time_key L random a)"

lemma generate_loop_counts:
  "\<lbrakk>unat i + k = n; n < 2 ^ 32\<rbrakk> \<Longrightarrow> generate_loop L n i random a = Some (add_one_time_keys L k random a)"
proof (induction k arbitrary: i random a)
  case (Suc k)
  have "unat i + 1 < 2 ^ LENGTH(32)" using Suc.prems by simp
  then have "unat (i + 1) = unat i + 1" by (simp add: unat_word_ariths)
  then show ?case
    using Suc.IH [of "i + 1"] Suc.prems
    by (subst generate_loop.simps) (simp add: CURVE25519_RANDOM_LENGTH_def)
qed (simp add: generate_loop.simps)

lemma generate_loop_ends:
  assumes "generate_loop L n i random a = Some y"
  shows "n < 2 ^ 32"
proof (rule generate_loop.raw_induct [of "\<lambda>L n i random a y. n < 2 ^ 32", OF _ assms])
  fix f L n and i :: u32 and random a y
  assume IH: "\<And>L n i random a y. f L n i random a = Some y \<Longrightarrow> n < 2 ^ 32"
    and r: "(if unat i < n then f L n (i + 1) (drop CURVE25519_RANDOM_LENGTH random) (add_one_time_key L random a)
      else Some a) = Some y"
  show "n < 2 ^ 32"
  proof (cases "unat i < n")
    case True
    then show ?thesis using IH r by simp
  next
    case False
    moreover have "unat i < 2 ^ LENGTH(32)" by (rule unsigned_less)
    ultimately show ?thesis by simp
  qed
qed

lemma wf_size: "wf_account a \<Longrightarrow> ol_end (ac_one_time_keys a) \<le> MAX_ONE_TIME_KEYS"
  by (simp add: wf_account_def list_wf_def)

lemma add_one_time_key:
  assumes "wf_account a"
  shows "keys (add_one_time_key L r a) =
      take MAX_ONE_TIME_KEYS (new_one_time_key L (ac_next_one_time_key_id a) r 0 # keys a)"
    "ac_next_one_time_key_id (add_one_time_key L r a) = ac_next_one_time_key_id a + 1"
    "ac_identity_keys (add_one_time_key L r a) = ac_identity_keys a"
    "ac_last_error (add_one_time_key L r a) = ac_last_error a"
  using items_insert_begin_value [OF wf_size [OF assms], of "new_one_time_key L (ac_next_one_time_key_id a) r 0"]
  by (simp_all add: add_one_time_key_def ol_insert_begin_def ol_insert_value_def new_one_time_key_def
      MAX_ONE_TIME_KEYS_def Let_def split: prod.splits)

lemma add_one_time_key_wf:
  assumes "wf_account a" "crypto_lib_ok L" "32 \<le> length r"
  shows "wf_account (add_one_time_key L r a)"
proof -
  obtain ks p where i: "ol_insert_begin MAX_ONE_TIME_KEYS (ac_one_time_keys a) = (ks, p)" by fastforce
  have "list_wf valid_one_time_key MAX_ONE_TIME_KEYS ks"
    using list_wf_insert [of _ _ "ac_one_time_keys a" 0] assms(1) i
    by (metis fst_conv ol_insert_begin_def wf_account_def)
  then show ?thesis
    using assms(1) wf_generated_pair_take [OF assms(2,3)]
    by (auto simp: wf_account_def add_one_time_key_def i Let_def valid_one_time_key_def intro: list_wf_set)
qed

lemma take_append_take: "take n (xs @ take n ys) = take n (xs @ ys)"
  by (simp add: min_def)

lemma add_one_time_keys:
  assumes "wf_account a" "crypto_lib_ok L" "32 * n \<le> length r"
  shows "keys (add_one_time_keys L n r a) = take MAX_ONE_TIME_KEYS
      (rev (map (new_one_time_key L (ac_next_one_time_key_id a) r) [0..<n]) @ keys a)"
    "ac_next_one_time_key_id (add_one_time_keys L n r a) = ac_next_one_time_key_id a + of_nat n"
    "ac_identity_keys (add_one_time_keys L n r a) = ac_identity_keys a"
    "ac_last_error (add_one_time_keys L n r a) = ac_last_error a"
    "wf_account (add_one_time_keys L n r a)"
proof -
  let ?M = MAX_ONE_TIME_KEYS
  have "keys (add_one_time_keys L n r a) = take ?M
      (rev (map (new_one_time_key L (ac_next_one_time_key_id a) r) [0..<n]) @ keys a) \<and>
    ac_next_one_time_key_id (add_one_time_keys L n r a) = ac_next_one_time_key_id a + of_nat n \<and>
    ac_identity_keys (add_one_time_keys L n r a) = ac_identity_keys a \<and>
    ac_last_error (add_one_time_keys L n r a) = ac_last_error a \<and>
    wf_account (add_one_time_keys L n r a)"
    using assms
  proof (induction n arbitrary: r a)
    case 0
    then show ?case using wf_size [OF 0(1)] by simp
  next
    case (Suc n)
    let ?a = "add_one_time_key L r a" and ?i = "ac_next_one_time_key_id a"
    have wf: "wf_account ?a" by (rule add_one_time_key_wf) (use Suc.prems in simp_all)
    note k = add_one_time_key [OF Suc.prems(1), of L r]
    have shift: "new_one_time_key L (?i + 1) (drop 32 r) = (\<lambda>j. new_one_time_key L ?i r (Suc j))"
      by (simp add: new_one_time_key_def fun_eq_iff add.commute)
    have "rev (map (new_one_time_key L (?i + 1) (drop 32 r)) [0..<n]) @ [new_one_time_key L ?i r 0] =
        rev (map (new_one_time_key L ?i r) [0..<Suc n])"
      by (simp only: shift upt_conv_Cons [of 0 "Suc n"] map_Suc_upt [symmetric] zero_less_Suc list.map
          map_map comp_def rev.simps)
    then have "take ?M (rev (map (new_one_time_key L (?i + 1) (drop 32 r)) [0..<n]) @
        take ?M (new_one_time_key L ?i r 0 # keys a)) =
      take ?M (rev (map (new_one_time_key L ?i r) [0..<Suc n]) @ keys a)"
      unfolding take_append_take by (metis append.assoc append_Cons append_Nil)
    then show ?case
      using Suc.IH [OF wf Suc.prems(2), of "drop 32 r"] Suc.prems k by (simp add: add.commute)
  qed
  then show "keys (add_one_time_keys L n r a) = take ?M
      (rev (map (new_one_time_key L (ac_next_one_time_key_id a) r) [0..<n]) @ keys a)"
    "ac_next_one_time_key_id (add_one_time_keys L n r a) = ac_next_one_time_key_id a + of_nat n"
    "ac_identity_keys (add_one_time_keys L n r a) = ac_identity_keys a"
    "ac_last_error (add_one_time_keys L n r a) = ac_last_error a"
    "wf_account (add_one_time_keys L n r a)"
    by simp_all
qed

lemma generate_one_time_keys_eq:
  assumes "n < 2 ^ 32"
  shows "generate_one_time_keys L n random a =
    (if length random < 32 * n then Some (a\<lparr>ac_last_error := OLM_NOT_ENOUGH_RANDOM\<rparr>, None)
     else Some (add_one_time_keys L n random a, Some n))"
  using generate_loop_counts [of 0 n n L random a] assms
  by (simp add: generate_one_time_keys_def generate_one_time_keys_random_length_def
      CURVE25519_RANDOM_LENGTH_def)

section \<open>The JSON texts\<close>

text \<open>What the two functions are meant to write, as plain byte strings.\<close>

abbreviation quote :: bytes where "quote \<equiv> [0x22]"

definition quoted :: "bytes \<Rightarrow> bytes" where
  "quoted s = quote @ s @ quote"

definition identity_json :: "Account \<Rightarrow> bytes" where
  "identity_json a =
     cstr ''{'' @ quoted (cstr ''curve25519'') @ cstr '':'' @
       quoted (b64_encode (c_public (ik_curve25519_key (ac_identity_keys a)))) @ cstr '','' @
       quoted (cstr ''ed25519'') @ cstr '':'' @
       quoted (b64_encode (e_public (ik_ed25519_key (ac_identity_keys a)))) @ cstr ''}''"

fun join :: "bytes \<Rightarrow> bytes list \<Rightarrow> bytes" where
  "join sep [] = []"
| "join sep [x] = x"
| "join sep (x # y # xs) = x @ sep @ join sep (y # xs)"

definition one_time_key_json :: "OneTimeKey \<Rightarrow> bytes" where
  "one_time_key_json k =
     quoted (b64_encode (be32 (otk_id k))) @ cstr '':'' @ quoted (b64_encode (c_public (otk_key k)))"

definition unpublished :: "Account \<Rightarrow> OneTimeKey list" where
  "unpublished a = filter (\<lambda>k. \<not> otk_published k) (keys a)"

definition one_time_keys_json :: "Account \<Rightarrow> bytes" where
  "one_time_keys_json a =
     cstr ''{'' @ quoted (cstr ''curve25519'') @ cstr '':'' @ cstr ''{'' @
       join (cstr '','') (map one_time_key_json (unpublished a)) @ cstr ''}}''"

lemma key_id_bytes_be32: "key_id_bytes i = be32 i"
  by (simp add: key_id_bytes_def pickle_u32_wr pickle_u32_length_def)

lemma put_base64_wr:
  "put_base64 m pos bs = (wr m pos (b64_encode bs), pos + length (b64_encode bs))"
  by (simp add: put_base64_def encode_base64_object_def)

lemma put_wr: "put m pos c = (wr m pos [of_char c], pos + length [of_char c :: byte])"
  by (simp add: put_def wr_single)

lemma write_string_wr: "write_string m pos bs = (wr m pos bs, pos + length bs)"
  by (simp add: write_string_def)

text \<open>Writing pieces one after the other writes their concatenation.\<close>

lemma wr_then: "wr (wr m pos xs) (pos + length xs) ys = wr m pos (xs @ ys)"
  by (simp add: wr_append)

lemma add_length: "pos + length xs + length ys = pos + length (xs @ ys)"
  by simp

lemmas writing = put_wr write_string_wr put_base64_wr wr_then add_length append_assoc

lemma key_json:
  "KEY_JSON_CURVE25519 = quoted (cstr ''curve25519'') @ cstr '':''"
  "KEY_JSON_ED25519 = quoted (cstr ''ed25519'') @ cstr '':''"
  by (simp_all add: KEY_JSON_CURVE25519_def KEY_JSON_ED25519_def quoted_def cstr_def)

lemma get_identity_json_length_text: "get_identity_json_length a = length (identity_json a)"
  by (simp add: get_identity_json_length_def identity_json_def key_json quoted_def cstr_def)

lemma get_identity_json_wr:
  "get_identity_json a m p n =
     (if n < length (identity_json a) then (a\<lparr>ac_last_error := OLM_OUTPUT_BUFFER_TOO_SMALL\<rparr>, m, None)
      else (a, wr m p (identity_json a), Some (length (identity_json a))))"
proof -
  have c: "of_char (CHR 0x22) = (0x22 :: byte)" by simp
  have "identity_json a = [of_char (CHR ''{'')] @ KEY_JSON_CURVE25519 @ [of_char (CHR 0x22)] @
      b64_encode (c_public (ik_curve25519_key (ac_identity_keys a))) @ [of_char (CHR 0x22)] @
      [of_char (CHR '','')] @ KEY_JSON_ED25519 @ [of_char (CHR 0x22)] @
      b64_encode (e_public (ik_ed25519_key (ac_identity_keys a))) @ [of_char (CHR 0x22)] @
      [of_char (CHR ''}'')]"
    by (simp add: identity_json_def key_json quoted_def cstr_def)
  then show ?thesis
    unfolding get_identity_json_def get_identity_json_length_text
    by (simp only: writing Let_def prod.case) simp
qed

text \<open>The loop over the keys writes every entry behind its separator.\<close>

definition entries :: "char \<Rightarrow> OneTimeKey list \<Rightarrow> bytes" where
  "entries sep us = (case us of [] \<Rightarrow> [] | u # us' \<Rightarrow> of_char sep # join (cstr '','') (map one_time_key_json us))"

lemma entries_Cons:
  "entries sep (u # us) = [of_char sep] @ one_time_key_json u @ entries (CHR '','') us"
  by (cases us) (simp_all add: entries_def cstr_def)

lemma one_time_keys_json_loop_wr:
  "one_time_keys_json_loop ks m pos sep =
     (wr m pos (entries sep (filter (\<lambda>k. \<not> otk_published k) ks)),
      pos + length (entries sep (filter (\<lambda>k. \<not> otk_published k) ks)),
      if filter (\<lambda>k. \<not> otk_published k) ks = [] then sep else CHR '','')"
proof (induction ks arbitrary: m pos sep)
  case (Cons k ks)
  show ?case
  proof (cases "otk_published k")
    case False
    have e: "one_time_key_json k = [of_char (CHR 0x22)] @ b64_encode (be32 (otk_id k)) @
        [of_char (CHR 0x22)] @ [of_char (CHR '':'')] @ [of_char (CHR 0x22)] @
        b64_encode (c_public (otk_key k)) @ [of_char (CHR 0x22)]"
      by (simp add: one_time_key_json_def quoted_def cstr_def)
    from False show ?thesis
      by (simp only: one_time_keys_json_loop.simps Cons.IH writing Let_def prod.case key_id_bytes_be32
          filter.simps e if_True if_False not_True_eq_False) (simp add: entries_Cons e)
  qed (simp add: Cons.IH)
qed (simp add: entries_def)

lemma one_time_keys_json_length_loop:
  "one_time_keys_json_length_loop ks n e =
     (n + length (entries (CHR ''{'') (filter (\<lambda>k. \<not> otk_published k) ks)),
      e \<and> filter (\<lambda>k. \<not> otk_published k) ks = [])"
proof -
  have entries_length: "length (entries s us) = length (entries t us)" for s t us
    by (simp add: entries_def split: list.split)
  have one: "length (one_time_key_json k) =
      2 + encode_base64_length 4 + 3 + encode_base64_length (length (c_public (otk_key k))) + 1 - 1" for k
    by (simp add: one_time_key_json_def quoted_def cstr_def)
  show ?thesis
  proof (induction ks arbitrary: n e)
    case (Cons k ks)
    then show ?case
      using entries_length [of "CHR '',''" "filter (\<lambda>k. \<not> otk_published k) ks" "CHR ''{''"]
      by (simp add: entries_Cons one pickle_u32_length_def)
  qed (simp add: entries_def)
qed

lemma one_time_keys_json_entries:
  "one_time_keys_json a =
     cstr ''{'' @ KEY_JSON_CURVE25519 @ entries (CHR ''{'') (unpublished a) @
       (if unpublished a = [] then cstr ''{'' else []) @ cstr ''}}''"
  by (cases "unpublished a") (simp_all add: one_time_keys_json_def key_json entries_def cstr_def)

lemma get_one_time_keys_json_length_text:
  "get_one_time_keys_json_length a = length (one_time_keys_json a)"
  by (simp add: get_one_time_keys_json_length_def one_time_keys_json_length_loop
      one_time_keys_json_entries unpublished_def cstr_def)

lemma get_one_time_keys_json_wr:
  "get_one_time_keys_json a m p n =
     (if n < length (one_time_keys_json a) then (a\<lparr>ac_last_error := OLM_OUTPUT_BUFFER_TOO_SMALL\<rparr>, m, None)
      else (a, wr m p (one_time_keys_json a), Some (length (one_time_keys_json a))))"
proof (cases "unpublished a = []")
  case True
  then have t: "filter (\<lambda>k. \<not> otk_published k) (keys a) = []" by (simp add: unpublished_def)
  have "one_time_keys_json a = [of_char (CHR ''{'')] @ KEY_JSON_CURVE25519 @ [of_char (CHR ''{'')] @
      [of_char (CHR ''}'')] @ [of_char (CHR ''}'')]"
    using True by (simp add: one_time_keys_json_entries entries_def cstr_def)
  moreover have e: "entries (CHR ''{'') [] = []" "pos + length ([] :: bytes) = pos" "([] = ([] :: OneTimeKey list)) = True"
    for pos by (simp_all add: entries_def)
  moreover have c: "(CHR ''{'' \<noteq> CHR '','') = True" by simp
  ultimately show ?thesis
    unfolding get_one_time_keys_json_def get_one_time_keys_json_length_text one_time_keys_json_loop_wr t
    by (simp only: writing Let_def prod.case e if_True append_Nil wr_Nil c) simp
next
  case False
  then have t: "filter (\<lambda>k. \<not> otk_published k) (keys a) = unpublished a" by (simp add: unpublished_def)
  have "one_time_keys_json a = [of_char (CHR ''{'')] @ KEY_JSON_CURVE25519 @
      entries (CHR ''{'') (unpublished a) @ [of_char (CHR ''}'')] @ [of_char (CHR ''}'')]"
    using False by (simp add: one_time_keys_json_entries cstr_def)
  moreover have c: "(CHR '','' \<noteq> CHR '','') = False" "(unpublished a = []) = False"
    using False by simp_all
  ultimately show ?thesis
    unfolding get_one_time_keys_json_def get_one_time_keys_json_length_text one_time_keys_json_loop_wr t
    by (simp only: writing Let_def prod.case c if_False) simp
qed

section \<open>Pickling\<close>

definition pickle_identity_keys_length :: "IdentityKeys \<Rightarrow> nat" where
  "pickle_identity_keys_length value =
     pickle_ed25519_key_pair_length (ik_ed25519_key value) +
     pickle_curve25519_key_pair_length (ik_curve25519_key value)"

definition pickle_identity_keys :: "mem \<Rightarrow> addr \<Rightarrow> IdentityKeys \<Rightarrow> mem \<times> addr" where
  "pickle_identity_keys m pos value =
     (let (m, pos) = pickle_ed25519_key_pair m pos (ik_ed25519_key value)
      in pickle_curve25519_key_pair m pos (ik_curve25519_key value))"

definition unpickle_identity_keys ::
  "mem \<Rightarrow> addr \<Rightarrow> addr \<Rightarrow> IdentityKeys \<Rightarrow> addr \<times> IdentityKeys" where
  "unpickle_identity_keys m pos end value =
     (let (pos, ed25519_key) = unpickle_ed25519_key_pair m pos end (ik_ed25519_key value);
          (pos, curve25519_key) = unpickle_curve25519_key_pair m pos end (ik_curve25519_key value)
      in (pos, \<lparr>ik_ed25519_key = ed25519_key, ik_curve25519_key = curve25519_key\<rparr>))"

definition pickle_one_time_key_length :: "OneTimeKey \<Rightarrow> nat" where
  "pickle_one_time_key_length value =
     pickle_u32_length (otk_id value) + pickle_bool_length (otk_published value) +
     pickle_curve25519_key_pair_length (otk_key value)"

definition pickle_one_time_key :: "mem \<Rightarrow> addr \<Rightarrow> OneTimeKey \<Rightarrow> mem \<times> addr" where
  "pickle_one_time_key m pos value =
     (let (m, pos) = pickle_u32 m pos (otk_id value);
          (m, pos) = pickle_bool m pos (otk_published value)
      in pickle_curve25519_key_pair m pos (otk_key value))"

definition unpickle_one_time_key ::
  "mem \<Rightarrow> addr \<Rightarrow> addr \<Rightarrow> OneTimeKey \<Rightarrow> addr \<times> OneTimeKey" where
  "unpickle_one_time_key m pos end value =
     (let (pos, i) = unpickle_u32 m pos end (otk_id value);
          (pos, published) = unpickle_bool m pos end (otk_published value);
          (pos, key) = unpickle_curve25519_key_pair m pos end (otk_key value)
      in (pos, \<lparr>otk_id = i, otk_published = published, otk_key = key\<rparr>))"

definition ACCOUNT_PICKLE_VERSION :: u32 where "ACCOUNT_PICKLE_VERSION = 2"

definition pickle_account_length :: "Account \<Rightarrow> nat" where
  "pickle_account_length value =
     pickle_u32_length ACCOUNT_PICKLE_VERSION +
     pickle_identity_keys_length (ac_identity_keys value) +
     pickle_list_length pickle_one_time_key_length (ac_one_time_keys value) +
     pickle_u32_length (ac_next_one_time_key_id value)"

definition pickle_account :: "mem \<Rightarrow> addr \<Rightarrow> Account \<Rightarrow> mem \<times> addr" where
  "pickle_account m pos value =
     (let (m, pos) = pickle_u32 m pos ACCOUNT_PICKLE_VERSION;
          (m, pos) = pickle_identity_keys m pos (ac_identity_keys value);
          (m, pos) = pickle_list pickle_one_time_key m pos (ac_one_time_keys value)
      in pickle_u32 m pos (ac_next_one_time_key_id value))"

definition unpickle_account :: "mem \<Rightarrow> addr \<Rightarrow> addr \<Rightarrow> Account \<Rightarrow> addr \<times> Account" where
  "unpickle_account m pos end value =
     (let (pos, pickle_version) = unpickle_u32 m pos end 0
      in if pickle_version = ACCOUNT_PICKLE_VERSION then
           let (pos, identity_keys) = unpickle_identity_keys m pos end (ac_identity_keys value);
               (pos, one_time_keys) = unpickle_list unpickle_one_time_key MAX_ONE_TIME_KEYS m pos end
                 (ac_one_time_keys value);
               (pos, next_id) = unpickle_u32 m pos end (ac_next_one_time_key_id value)
           in (pos, value\<lparr>ac_identity_keys := identity_keys, ac_one_time_keys := one_time_keys,
                 ac_next_one_time_key_id := next_id\<rparr>)
         else if pickle_version = 1 then
           (end, value\<lparr>ac_last_error := OLM_BAD_LEGACY_ACCOUNT_PICKLE\<rparr>)
         else (end, value\<lparr>ac_last_error := OLM_UNKNOWN_PICKLE_VERSION\<rparr>))"

definition identity_enc :: "IdentityKeys \<Rightarrow> bytes" where
  "identity_enc k = (e_public (ik_ed25519_key k) @ e_private (ik_ed25519_key k)) @
     c_public (ik_curve25519_key k) @ c_private (ik_curve25519_key k)"

definition one_time_key_enc :: "OneTimeKey \<Rightarrow> bytes" where
  "one_time_key_enc k = be32 (otk_id k) @ [if otk_published k then 1 else 0] @
     c_public (otk_key k) @ c_private (otk_key k)"

definition account_enc :: "Account \<Rightarrow> bytes" where
  "account_enc a = be32 ACCOUNT_PICKLE_VERSION @ identity_enc (ac_identity_keys a) @
     list_enc one_time_key_enc (ac_one_time_keys a) @ be32 (ac_next_one_time_key_id a)"

definition account_view :: "Account \<Rightarrow> IdentityKeys \<times> OneTimeKey list \<times> u32" where
  "account_view a = (ac_identity_keys a, keys a, ac_next_one_time_key_id a)"

lemmas account_pickle_defs = pickle_curve25519_key_pair_length_def pickle_curve25519_key_pair_def
  unpickle_curve25519_key_pair_def pickle_bytes_def unpickle_bytes_def
  pickle_ed25519_key_pair_length_def pickle_ed25519_key_pair_def unpickle_ed25519_key_pair_def
  pickle_u32_wr unpickle_u32_eq pickle_u32_length_def pickle_bool_def unpickle_bool_def
  pickle_bool_length_def wf_curve_pair_def wf_ed_pair_def wr_append Let_def

lemma wr_Cons_append: "wr m a (x # xs @ ys) = wr (wr m a [x]) (Suc a) (xs @ ys)"
  using wr_append [of m a "[x]" "xs @ ys"] by simp

interpretation identity: pickler pickle_identity_keys_length pickle_identity_keys
  unpickle_identity_keys identity_enc wf_identity_keys "\<lambda>_. True" id
  by unfold_locales
    (auto simp: pickle_identity_keys_length_def pickle_identity_keys_def unpickle_identity_keys_def
      identity_enc_def wf_identity_keys_def account_pickle_defs stored_rd add.assoc
      split: prod.splits if_splits)

interpretation one_time_key: list_pickler pickle_one_time_key_length pickle_one_time_key
  unpickle_one_time_key one_time_key_enc valid_one_time_key "\<lambda>_. True" id MAX_ONE_TIME_KEYS
  by unfold_locales
    (auto simp: pickle_one_time_key_length_def pickle_one_time_key_def unpickle_one_time_key_def
      one_time_key_enc_def valid_one_time_key_def account_pickle_defs stored_rd stored_be32 add.assoc
      wr_single wr_Cons_append MAX_ONE_TIME_KEYS_def split: prod.splits if_splits)

interpretation one_time_keys: pickler "pickle_list_length pickle_one_time_key_length"
  "pickle_list pickle_one_time_key" "unpickle_list unpickle_one_time_key MAX_ONE_TIME_KEYS"
  "list_enc one_time_key_enc" "list_wf valid_one_time_key MAX_ONE_TIME_KEYS" "\<lambda>l. ol_end l = 0"
  "list_view id"
  by (rule one_time_key.list_contract)


lemma pickle_account_length_enc: "wf_account a \<Longrightarrow> pickle_account_length a = length (account_enc a)"
  by (simp add: pickle_account_length_def wf_account_def identity.pk_length one_time_keys.pk_length
      account_enc_def pickle_u32_length_def)

lemma pickle_account_wr:
  "wf_account a \<Longrightarrow> pickle_account m pos a = (wr m pos (account_enc a), pos + length (account_enc a))"
  by (simp add: pickle_account_def wf_account_def identity.pk one_time_keys.pk account_enc_def
      pickle_u32_wr wr_append add.assoc)

lemma unpickle_account_enc:
  assumes "wf_account a" "wf_account old" "ol_end (ac_one_time_keys old) = 0" "stored m pos (account_enc a)"
    "pos + length (account_enc a) \<le> lim"
  shows "fst (unpickle_account m pos lim old) = pos + length (account_enc a)"
    "account_view (snd (unpickle_account m pos lim old)) = account_view a"
    "ac_last_error (snd (unpickle_account m pos lim old)) = ac_last_error old"
proof -
  note wf = assms(1,2) [unfolded wf_account_def]
  let ?i = "ac_identity_keys a" and ?l = "ac_one_time_keys a" and ?n = "ac_next_one_time_key_id a"
  let ?p1 = "pos + 4" let ?p2 = "?p1 + length (identity_enc ?i)"
  let ?p3 = "?p2 + length (list_enc one_time_key_enc ?l)"
  have st: "stored m pos (be32 ACCOUNT_PICKLE_VERSION)" "stored m ?p1 (identity_enc ?i)"
    "stored m ?p2 (list_enc one_time_key_enc ?l)" "stored m ?p3 (be32 ?n)"
    using assms(4) by (simp_all add: account_enc_def add.assoc)
  have len: "?p3 + 4 \<le> lim" using assms(5) by (simp add: account_enc_def)
  have v: "unpickle_u32 m pos lim 0 = (?p1, ACCOUNT_PICKLE_VERSION)"
    using st(1) len by (auto simp: unpickle_u32_eq dest: stored_be32)
  have i: "unpickle_identity_keys m ?p1 lim (ac_identity_keys old) = (?p2, ?i)"
    using identity.unpk_pos [of ?i "ac_identity_keys old" m ?p1 lim]
      identity.unpk_view [of ?i "ac_identity_keys old" m ?p1 lim] wf st(2) len
    by (simp add: prod_eq_iff)
  obtain l where l: "unpickle_list unpickle_one_time_key MAX_ONE_TIME_KEYS m ?p2 lim (ac_one_time_keys old) =
      (?p3, l)" "items l = items ?l"
    using one_time_keys.unpk_pos [of ?l "ac_one_time_keys old" m ?p2 lim]
      one_time_keys.unpk_view [of ?l "ac_one_time_keys old" m ?p2 lim] wf st(3) len assms(3)
    by (cases "unpickle_list unpickle_one_time_key MAX_ONE_TIME_KEYS m ?p2 lim (ac_one_time_keys old)")
      (auto simp: list_view_def)
  have n: "unpickle_u32 m ?p3 lim (ac_next_one_time_key_id old) = (?p3 + 4, ?n)"
    using st(4) len by (auto simp: unpickle_u32_eq dest: stored_be32)
  show "fst (unpickle_account m pos lim old) = pos + length (account_enc a)"
    "account_view (snd (unpickle_account m pos lim old)) = account_view a"
    "ac_last_error (snd (unpickle_account m pos lim old)) = ac_last_error old"
    unfolding unpickle_account_def v prod.case Let_def simp_thms if_True i l(1) n
    by (simp_all add: account_enc_def account_view_def l(2))
qed

lemma unpickle_account_cases:
  obtains v where "unpickle_u32 m pos lim 0 = (v, 2)"
    "unpickle_account m pos lim old =
      (let (pos, identity_keys) = unpickle_identity_keys m v lim (ac_identity_keys old);
           (pos, one_time_keys) = unpickle_list unpickle_one_time_key MAX_ONE_TIME_KEYS m pos lim
             (ac_one_time_keys old);
           (pos, next_id) = unpickle_u32 m pos lim (ac_next_one_time_key_id old)
       in (pos, old\<lparr>ac_identity_keys := identity_keys, ac_one_time_keys := one_time_keys,
             ac_next_one_time_key_id := next_id\<rparr>))"
  | e where "unpickle_account m pos lim old = (lim, old\<lparr>ac_last_error := e\<rparr>)"
proof -
  obtain p v where u: "unpickle_u32 m pos lim 0 = (p, v)" by fastforce
  show thesis
  proof (cases "v = 2")
    case True
    then show ?thesis using u by (intro that(1) [of p]) (simp_all add: unpickle_account_def ACCOUNT_PICKLE_VERSION_def)
  next
    case False
    then show ?thesis
      using u by (intro that(2) [of "if v = 1 then OLM_BAD_LEGACY_ACCOUNT_PICKLE else OLM_UNKNOWN_PICKLE_VERSION"])
        (simp add: unpickle_account_def ACCOUNT_PICKLE_VERSION_def)
  qed
qed

lemma unpickle_account_wf_bounds:
  assumes "wf_account old"
  shows "wf_account (snd (unpickle_account m pos lim old))"
    "pos \<le> lim \<Longrightarrow> pos \<le> fst (unpickle_account m pos lim old) \<and> fst (unpickle_account m pos lim old) \<le> lim"
proof -
  note wf = assms [unfolded wf_account_def]
  have "wf_account (snd (unpickle_account m pos lim old)) \<and> (pos \<le> lim \<longrightarrow>
    pos \<le> fst (unpickle_account m pos lim old) \<and> fst (unpickle_account m pos lim old) \<le> lim)"
  proof (cases rule: unpickle_account_cases [of m pos lim old])
    case (1 p1)
    obtain p2 i where i: "unpickle_identity_keys m p1 lim (ac_identity_keys old) = (p2, i)" by fastforce
    obtain p3 l where l: "unpickle_list unpickle_one_time_key MAX_ONE_TIME_KEYS m p2 lim
        (ac_one_time_keys old) = (p3, l)" by fastforce
    obtain p4 n where n: "unpickle_u32 m p3 lim (ac_next_one_time_key_id old) = (p4, n)" by fastforce
    have w: "wf_identity_keys i" "list_wf valid_one_time_key MAX_ONE_TIME_KEYS l"
      using identity.unpk_valid [of "ac_identity_keys old" m p1 lim] i wf
        one_time_keys.unpk_valid [of "ac_one_time_keys old" m p2 lim] l by simp_all
    have b: "pos \<le> p1 \<and> p1 \<le> p2 \<and> p2 \<le> p3 \<and> p3 \<le> p4 \<and> p4 \<le> lim" if "pos \<le> lim"
      using u32.unpk_bounds [where old = 0 and pos = pos and m = m] 1(1) that
        identity.unpk_bounds [where old = "ac_identity_keys old" and pos = p1 and m = m] i wf
        one_time_keys.unpk_bounds [where old = "ac_one_time_keys old" and pos = p2 and m = m] l
        u32.unpk_bounds [where old = "ac_next_one_time_key_id old" and pos = p3 and m = m] n
      by (metis (no_types, lifting) fst_conv)
    show ?thesis
      unfolding 1(2) i prod.case Let_def l n using w b wf by (auto simp: wf_account_def)
  next
    case (2 e)
    then show ?thesis using wf by (simp add: wf_account_def)
  qed
  then show "wf_account (snd (unpickle_account m pos lim old))"
    "pos \<le> lim \<Longrightarrow> pos \<le> fst (unpickle_account m pos lim old) \<and> fst (unpickle_account m pos lim old) \<le> lim"
    by blast+
qed

interpretation account: pickler pickle_account_length pickle_account unpickle_account account_enc
  wf_account "\<lambda>a. ol_end (ac_one_time_keys a) = 0" account_view
  by unfold_locales (simp_all add: pickle_account_length_enc pickle_account_wr unpickle_account_enc
      unpickle_account_wf_bounds)

section \<open>Documented behaviour of the libsodium functions\<close>

text \<open>
  Combined-mode signing puts a signature of 64 bytes in front of the message; a key pair made from a
  seed of 32 bytes converts to a Curve25519 key pair.
\<close>

definition sodium_ok :: "crypto_lib \<Rightarrow> sodium \<Rightarrow> bool" where
  "sodium_ok L S \<longleftrightarrow>
     (\<forall>msg sk. length sk = 64 \<longrightarrow> fst (crypto_sign S msg sk) = 0 \<and>
        (\<exists>sig. length sig = 64 \<and> snd (crypto_sign S msg sk) = sig @ msg)) \<and>
     (\<forall>seed. length seed = 32 \<longrightarrow>
        (case crypto_sign_seed_keypair S seed of (rc, pk, sk) \<Rightarrow>
           rc = 0 \<and> length pk = 32 \<and> length sk = 64 \<and>
           (case crypto_sign_ed25519_sk_to_curve25519 S sk of (rc, csk) \<Rightarrow>
              rc = 0 \<and> length csk = 32 \<and>
              crypto_sign_ed25519_pk_to_curve25519 S pk = (0, curve25519_donna L csk CURVE25519_BASEPOINT))))"

definition example_sodium :: sodium where
  "example_sodium =
     \<lparr>crypto_sign = \<lambda>msg sk. (0, replicate 64 1 @ msg),
      crypto_sign_seed_keypair = \<lambda>seed. (0, map2 (\<lambda>a b. a XOR b) seed CURVE25519_BASEPOINT, seed @ seed),
      crypto_sign_ed25519_sk_to_curve25519 = \<lambda>sk. (0, take 32 sk),
      crypto_sign_ed25519_pk_to_curve25519 = \<lambda>pk. (0, pk)\<rparr>"

lemma example_sodium_ok: "sodium_ok example_lib example_sodium"
  by (simp add: sodium_ok_def example_sodium_def example_lib_def CURVE25519_BASEPOINT_def)

lemma new_account_wf:
  assumes "crypto_lib_ok L" "wf_account a"
  shows "wf_account (fst (new_account L r a))"
  using assms wf_generated_ed_pair [OF assms(1), of r] wf_generated_pair_take [OF assms(1), of "drop 32 r"]
  by (simp add: new_account_def new_account_random_length_def ED25519_RANDOM_LENGTH_def
      CURVE25519_RANDOM_LENGTH_def wf_account_def wf_identity_keys_def Let_def)

lemma new_account_derrived_keys_eq:
  assumes "crypto_lib_ok L" "sodium_ok L S" "32 \<le> length r"
  obtains pk sk csk where "crypto_sign_seed_keypair S (take 32 r) = (0, pk, sk)" "length pk = 32" "length sk = 64"
    "crypto_sign_ed25519_sk_to_curve25519 S sk = (0, csk)" "length csk = 32"
    "length (curve25519_donna L csk CURVE25519_BASEPOINT) = 32"
    "new_account_derrived_keys S r a = (a\<lparr>ac_identity_keys :=
       \<lparr>ik_ed25519_key = \<lparr>e_public = pk, e_private = sk\<rparr>,
        ik_curve25519_key = \<lparr>c_public = curve25519_donna L csk CURVE25519_BASEPOINT, c_private = csk\<rparr>\<rparr>\<rparr>, Some 0)"
proof -
  obtain rc pk sk where k: "crypto_sign_seed_keypair S (take 32 r) = (rc, pk, sk)" by (rule prod_cases3)
  obtain rc2 csk where c: "crypto_sign_ed25519_sk_to_curve25519 S sk = (rc2, csk)" by fastforce
  have ok: "rc = 0" "length pk = 32" "length sk = 64" "rc2 = 0" "length csk = 32"
    "crypto_sign_ed25519_pk_to_curve25519 S pk = (0, curve25519_donna L csk CURVE25519_BASEPOINT)"
    using assms(2,3) k c unfolding sodium_ok_def by (auto dest!: spec [of _ "take 32 r"])
  have len: "length (curve25519_donna L csk CURVE25519_BASEPOINT) = 32"
    using assms(1) ok(5) by (simp add: crypto_lib_ok_def CURVE25519_BASEPOINT_def)
  show thesis
    using assms(3) by (intro that [OF _ ok(2,3) _ ok(5) len]; cases "ac_identity_keys a";
        cases "ik_curve25519_key (ac_identity_keys a)")
      (simp_all add: k c ok new_account_derrived_keys_def ED25519_RANDOM_LENGTH_def Let_def)
qed

lemma new_account_derrived_keys_wf:
  assumes "crypto_lib_ok L" "sodium_ok L S" "wf_account a"
  shows "wf_account (fst (new_account_derrived_keys S r a))"
proof (cases "32 \<le> length r")
  case True
  obtain pk sk csk where "length pk = 32" "length sk = 64" "length csk = 32"
    "length (curve25519_donna L csk CURVE25519_BASEPOINT) = 32"
    "new_account_derrived_keys S r a = (a\<lparr>ac_identity_keys :=
       \<lparr>ik_ed25519_key = \<lparr>e_public = pk, e_private = sk\<rparr>,
        ik_curve25519_key = \<lparr>c_public = curve25519_donna L csk CURVE25519_BASEPOINT, c_private = csk\<rparr>\<rparr>\<rparr>, Some 0)"
    by (rule new_account_derrived_keys_eq [OF assms(1,2) True])
  then show ?thesis using assms(3) by (simp add: wf_account_def wf_identity_keys_def wf_ed_pair_def wf_curve_pair_def)
qed (use assms(3) in \<open>simp add: new_account_derrived_keys_def ED25519_RANDOM_LENGTH_def wf_account_def\<close>)

section \<open>The life of an account\<close>

text \<open>
  The states an account can get into, with the number of one-time keys generated so far.  Calls that
  fail change \<open>ac_last_error\<close> only.
\<close>

inductive account_history :: "crypto_lib \<Rightarrow> sodium \<Rightarrow> nat \<Rightarrow> Account \<Rightarrow> bool" for L S where
  fresh: "account_history L S 0 fresh_account"
| create: "account_history L S n a \<Longrightarrow> account_history L S n (fst (new_account L r a))"
| derive: "account_history L S n a \<Longrightarrow> account_history L S n (fst (new_account_derrived_keys S r a))"
| generate: "account_history L S n a \<Longrightarrow> generate_one_time_keys L k r a = Some (a', Some i) \<Longrightarrow>
    account_history L S (n + k) a'"
| generate_fails: "account_history L S n a \<Longrightarrow> generate_one_time_keys L k r a = Some (a', None) \<Longrightarrow>
    account_history L S n a'"
| publish: "account_history L S n a \<Longrightarrow> account_history L S n (fst (mark_keys_as_published a))"
| remove: "account_history L S n a \<Longrightarrow> account_history L S n (fst (remove_key a k))"
| restore: "account_history L S n a \<Longrightarrow> pickle_account m pos a = (m', pos') \<Longrightarrow> pos' \<le> lim \<Longrightarrow>
    account_history L S n (snd (unpickle_account m' pos lim fresh_account))"

definition key_ids :: "Account \<Rightarrow> nat list" where
  "key_ids a = map (\<lambda>k. unat (otk_id k)) (keys a)"

lemma generate_returns:
  assumes "generate_one_time_keys L k r a = Some (a', res)"
  shows "(res = None \<and> a' = a\<lparr>ac_last_error := OLM_NOT_ENOUGH_RANDOM\<rparr>) \<or>
    (res = Some k \<and> k < 2 ^ 32 \<and> 32 * k \<le> length r \<and> a' = add_one_time_keys L k r a)"
proof (cases "length r < generate_one_time_keys_random_length k")
  case True
  then show ?thesis using assms by (simp add: generate_one_time_keys_def)
next
  case False
  then have k: "k < 2 ^ 32"
    using assms generate_loop_ends by (fastforce simp: generate_one_time_keys_def split: option.splits)
  then show ?thesis using assms by (auto simp: generate_one_time_keys_eq split: if_splits)
qed

lemma identity_update_keeps:
  "keys (fst (new_account L r a)) = keys a"
  "ac_next_one_time_key_id (fst (new_account L r a)) = ac_next_one_time_key_id a"
  "keys (fst (new_account_derrived_keys S r a)) = keys a"
  "ac_next_one_time_key_id (fst (new_account_derrived_keys S r a)) = ac_next_one_time_key_id a"
  by (simp_all add: new_account_def new_account_derrived_keys_def Let_def split: prod.split)

definition ids_fresh :: "nat \<Rightarrow> Account \<Rightarrow> bool" where
  "ids_fresh n a \<longleftrightarrow> (n < 2 ^ 32 \<longrightarrow> unat (ac_next_one_time_key_id a) = n \<and>
     sorted_wrt (>) (key_ids a) \<and> (\<forall>i\<in>set (key_ids a). 0 < i \<and> i \<le> n))"

lemma unat_add_u32:
  fixes w :: u32
  assumes "unat w + k < 2 ^ 32"
  shows "unat (w + of_nat k) = unat w + k"
proof -
  have "k < 2 ^ LENGTH(32)" using assms by simp
  then have "unat (of_nat k :: u32) = k" by (simp add: unat_of_nat take_bit_nat_eq_self)
  then show ?thesis using assms by (subst unat_add_lem [THEN iffD1]) simp_all
qed

lemma new_ids:
  assumes "unat s + n < 2 ^ 32"
  shows "map (\<lambda>k. unat (otk_id k)) (rev (map (new_one_time_key L s r) [0..<n])) = rev [unat s + 1..<unat s + 1 + n]"
proof -
  have "unat (s + 1 + of_nat j) = unat s + 1 + j" if "j < n" for j
    using unat_add_u32 [of s "Suc j"] that assms by (simp add: add.assoc)
  then have "map (\<lambda>k. unat (otk_id k)) (map (new_one_time_key L s r) [0..<n]) = map (\<lambda>j. unat s + 1 + j) [0..<n]"
    by (simp add: new_one_time_key_def)
  also have "\<dots> = [unat s + 1..<unat s + 1 + n]"
    using map_add_upt [of "unat s + 1" n] by (simp add: add.commute)
  finally show ?thesis by (simp only: rev_map [symmetric])
qed

lemma sorted_rev_upt: "sorted_wrt (>) (rev [m..<n])"
  by (simp add: sorted_wrt_rev)

lemma ids_fresh_generate:
  assumes "wf_account a" "crypto_lib_ok L" "32 * k \<le> length r" "ids_fresh n a"
  shows "ids_fresh (n + k) (add_one_time_keys L k r a)"
proof (cases "n + k < 2 ^ 32")
  case True
  note g = add_one_time_keys [OF assms(1-3)]
  let ?new = "rev [n + 1..<n + 1 + k]"
  have n: "unat (ac_next_one_time_key_id a) = n" "sorted_wrt (>) (key_ids a)"
    "\<forall>i\<in>set (key_ids a). 0 < i \<and> i \<le> n"
    using assms(4) True by (simp_all add: ids_fresh_def)
  have ids: "key_ids (add_one_time_keys L k r a) = take MAX_ONE_TIME_KEYS (?new @ key_ids a)"
    using new_ids [of "ac_next_one_time_key_id a" k L r] True
    by (simp only: key_ids_def g(1) take_map [symmetric] map_append n(1) simp_thms)
  have sorted: "sorted_wrt (>) (?new @ key_ids a)"
    using n(2,3) by (auto simp: sorted_wrt_append sorted_rev_upt)
  have "\<forall>i\<in>set (?new @ key_ids a). 0 < i \<and> i \<le> n + k" using n(3) by auto
  then have "\<forall>i\<in>set (key_ids (add_one_time_keys L k r a)). 0 < i \<and> i \<le> n + k"
    unfolding ids by (blast dest: in_set_takeD)
  moreover have "sorted_wrt (>) (key_ids (add_one_time_keys L k r a))"
    unfolding ids by (rule sorted_wrt_take [OF sorted])
  moreover have "unat (ac_next_one_time_key_id (add_one_time_keys L k r a)) = n + k"
    using unat_add_u32 [of "ac_next_one_time_key_id a" k] True by (simp add: g(2) n(1))
  ultimately show ?thesis by (simp add: ids_fresh_def)
qed (simp add: ids_fresh_def)

lemma key_ids_remove:
  assumes "wf_account a"
  shows "sorted_wrt (>) (key_ids a) \<Longrightarrow> sorted_wrt (>) (key_ids (fst (remove_key a k)))"
    "set (key_ids (fst (remove_key a k))) \<subseteq> set (key_ids a)"
    "ac_next_one_time_key_id (fst (remove_key a k)) = ac_next_one_time_key_id a"
proof -
  show "ac_next_one_time_key_id (fst (remove_key a k)) = ac_next_one_time_key_id a"
    by (simp add: remove_key_eq split: option.split)
  have "\<exists>xs y ys. key_ids a = xs @ y # ys \<and> key_ids (fst (remove_key a k)) = xs @ ys \<or>
      key_ids (fst (remove_key a k)) = key_ids a"
  proof (cases "lookup_key a k")
    case (Some i)
    then have i: "i < ol_end (ac_one_time_keys a)"
      using lookup_loop_Some [of _ _ k 0 i] by (simp add: lookup_key_def ol_size_def)
    then have "key_ids a = take i (key_ids a) @ key_ids a ! i # drop (Suc i) (key_ids a)"
      by (intro id_take_nth_drop) (simp add: key_ids_def)
    moreover have "key_ids (fst (remove_key a k)) = take i (key_ids a) @ drop (Suc i) (key_ids a)"
      using i Some by (simp add: remove_key_eq key_ids_def items_erase take_map drop_map)
    ultimately show ?thesis by blast
  qed (simp add: remove_key_eq)
  then show "sorted_wrt (>) (key_ids a) \<Longrightarrow> sorted_wrt (>) (key_ids (fst (remove_key a k)))"
    "set (key_ids (fst (remove_key a k))) \<subseteq> set (key_ids a)"
    by (auto simp: sorted_wrt_append)
qed

lemma account_history_inv:
  assumes "crypto_lib_ok L" "sodium_ok L S" "account_history L S n a"
  shows "wf_account a \<and> ids_fresh n a"
  using assms(3)
proof (induction rule: account_history.induct)
  case fresh
  then show ?case using wf_fresh_account by (simp add: ids_fresh_def key_ids_def) (simp add: fresh_account_def)
next
  case (create n a r)
  then show ?case using new_account_wf [OF assms(1)] by (simp add: ids_fresh_def key_ids_def identity_update_keeps)
next
  case (derive n a r)
  then show ?case
    using new_account_derrived_keys_wf [OF assms(1,2)] by (simp add: ids_fresh_def key_ids_def identity_update_keeps)
next
  case (generate n a k r a' i)
  then have g: "32 * k \<le> length r" "a' = add_one_time_keys L k r a" using generate_returns by blast+
  then show ?case
    using generate ids_fresh_generate [OF _ assms(1) g(1)] add_one_time_keys(5) [OF _ assms(1) g(1)] by simp
next
  case (generate_fails n a k r a')
  then have "a' = a\<lparr>ac_last_error := OLM_NOT_ENOUGH_RANDOM\<rparr>" using generate_returns by blast
  then show ?case using generate_fails by (simp add: wf_account_def ids_fresh_def key_ids_def)
next
  case (publish n a)
  have "ac_next_one_time_key_id (fst (mark_keys_as_published a)) = ac_next_one_time_key_id a"
    by (simp add: mark_keys_as_published_def split: prod.split)
  then show ?case using publish mark_keys_wf by (simp add: ids_fresh_def key_ids_def mark_keys comp_def)
next
  case (remove n a k)
  then show ?case using remove_key_wf key_ids_remove by (fastforce simp: ids_fresh_def)
next
  case (restore n a m pos m' pos' lim)
  then have wf: "wf_account a" and f: "ids_fresh n a" by simp_all
  note old = wf_fresh_account(1)
  have e: "ol_end (ac_one_time_keys fresh_account) = 0" by (simp add: fresh_account_def ol_new_def)
  have w: "m' = wr m pos (account_enc a)" "pos' = pos + length (account_enc a)"
    using restore.hyps(2) by (simp_all add: pickle_account_wr [OF wf])
  then have "stored m' pos (account_enc a)" "pos + length (account_enc a) \<le> lim" using restore.hyps(3) by simp_all
  from unpickle_account_enc(2) [OF wf old e this] f
  have "ids_fresh n (snd (unpickle_account m' pos lim fresh_account))"
    by (simp add: account_view_def ids_fresh_def key_ids_def)
  with unpickle_account_wf_bounds(1) [OF old] show ?case by blast
qed

section \<open>Properties\<close>

definition example_account :: Account where
  "example_account = add_one_time_keys example_lib 2 (replicate 64 1) fresh_account"

lemma example_account_history: "account_history example_lib example_sodium 2 example_account"
proof -
  have "generate_one_time_keys example_lib 2 (replicate 64 1) fresh_account = Some (example_account, Some 2)"
    by (simp add: generate_one_time_keys_eq example_account_def)
  from account_history.generate [OF account_history.fresh this] show ?thesis by (simp add: numeral_2_eq_2)
qed

lemma wf_example_account: "wf_account example_account"
  using account_history_inv [OF example_lib_ok example_sodium_ok example_account_history] by simp

text \<open>
  C12 Whatever sequence of key creation (of both kinds), generation of one-time keys, failing or not,
  publishing, removal, and pickling followed by unpickling into a new object an account goes through, it
  stays well-formed, it never holds more than the documented number of one-time keys, and as long as
  fewer than 2^32 keys were generated the ids of its keys are distinct: they decrease along the list and
  lie between 1 and the number of keys generated.  Unpickling any bytes over it, whatever they are, also
  leaves it well-formed and within that number of keys; distinct ids are not promised then.
\<close>

theorem account_invariant:
  assumes "crypto_lib_ok L" "sodium_ok L S" "account_history L S n a" "n < 2 ^ 32"
  shows "wf_account a \<and> length (keys a) \<le> MAX_ONE_TIME_KEYS \<and> sorted_wrt (>) (key_ids a) \<and>
    (\<forall>i\<in>set (key_ids a). 0 < i \<and> i \<le> n) \<and>
    wf_account (snd (unpickle_account m pos lim a)) \<and>
    length (keys (snd (unpickle_account m pos lim a))) \<le> MAX_ONE_TIME_KEYS"
  using account_history_inv [OF assms(1-3)] assms(4) wf_size unpickle_account_wf_bounds(1)
  by (simp add: ids_fresh_def)

theorem account_invariant_witness:
  "wf_account example_account \<and> length (keys example_account) \<le> MAX_ONE_TIME_KEYS \<and>
    sorted_wrt (>) (key_ids example_account) \<and> list_all (\<lambda>i. 0 < i \<and> i \<le> 2) (key_ids example_account)"
  using account_invariant [OF example_lib_ok example_sodium_ok example_account_history]
  by (simp add: list_all_iff)

text \<open>
  Generating n one-time keys returns n, puts the new keys in front of the list with the next ids
  and the successive 32 byte blocks of the random input as private keys, and drops the oldest keys
  that no longer fit; everything else stays as it was.
\<close>

theorem one_time_keys_generated:
  assumes "wf_account a" "crypto_lib_ok L" "n < 2 ^ 32" "32 * n \<le> length random"
  shows "\<exists>a'. generate_one_time_keys L n random a = Some (a', Some n) \<and>
    keys a' = take MAX_ONE_TIME_KEYS
      (rev (map (new_one_time_key L (ac_next_one_time_key_id a) random) [0..<n]) @ keys a) \<and>
    ac_next_one_time_key_id a' = ac_next_one_time_key_id a + of_nat n \<and>
    ac_identity_keys a' = ac_identity_keys a \<and> wf_account a'"
  using add_one_time_keys [OF assms(1,2,4)] assms(3,4) by (simp add: generate_one_time_keys_eq)

theorem one_time_keys_generated_witness:
  "\<exists>a'. generate_one_time_keys example_lib 1 (replicate 32 7) example_account = Some (a', Some 1) \<and>
    keys a' = take MAX_ONE_TIME_KEYS (rev (map (new_one_time_key example_lib
      (ac_next_one_time_key_id example_account) (replicate 32 7)) [0..<1]) @ keys example_account) \<and>
    ac_next_one_time_key_id a' = ac_next_one_time_key_id example_account + of_nat 1 \<and>
    ac_identity_keys a' = ac_identity_keys example_account \<and> wf_account a'"
  by (rule one_time_keys_generated [OF wf_example_account example_lib_ok]) simp_all

text \<open>
  With 2^32 keys or more \<open>generate_one_time_keys\<close> does not return: its loop counter is 32 bits
  wide and wraps around below the bound.
\<close>

theorem generate_one_time_keys_diverges:
  assumes "2 ^ 32 \<le> n" "generate_one_time_keys_random_length n \<le> length random"
  shows "generate_one_time_keys L n random a = None"
proof (cases "generate_loop L n 0 random a")
  case None
  then show ?thesis using assms(2) by (simp add: generate_one_time_keys_def)
next
  case (Some y)
  then show ?thesis using generate_loop_ends assms(1) by (meson not_le)
qed

theorem generate_one_time_keys_diverges_witness:
  "generate_one_time_keys example_lib (2 ^ 59) [] fresh_account = None"
  by (rule generate_one_time_keys_diverges)
    (simp_all add: generate_one_time_keys_random_length_def CURVE25519_RANDOM_LENGTH_def)

text \<open>
  Both JSON functions write exactly the documented text, without white space, and nothing else,
  the length functions announce its length, and a buffer that is too small is refused untouched.
\<close>

theorem account_json_text:
  "get_identity_json_length a = length (identity_json a) \<and>
   get_one_time_keys_json_length a = length (one_time_keys_json a) \<and>
   get_identity_json a m p n =
     (if n < length (identity_json a) then (a\<lparr>ac_last_error := OLM_OUTPUT_BUFFER_TOO_SMALL\<rparr>, m, None)
      else (a, wr m p (identity_json a), Some (length (identity_json a)))) \<and>
   get_one_time_keys_json a m p n =
     (if n < length (one_time_keys_json a) then (a\<lparr>ac_last_error := OLM_OUTPUT_BUFFER_TOO_SMALL\<rparr>, m, None)
      else (a, wr m p (one_time_keys_json a), Some (length (one_time_keys_json a))))"
  by (simp add: get_identity_json_length_text get_one_time_keys_json_length_text get_identity_json_wr
      get_one_time_keys_json_wr)

text \<open>
  Marking the keys as published returns the number of keys that were not published, keeps the
  keys, and leaves nothing to publish.
\<close>

theorem publishing_empties_the_list:
  "snd (mark_keys_as_published a) = length (unpublished a) \<and>
   map otk_key (keys (fst (mark_keys_as_published a))) = map otk_key (keys a) \<and>
   unpublished (fst (mark_keys_as_published a)) = [] \<and>
   one_time_keys_json (fst (mark_keys_as_published a)) =
     cstr ''{'' @ quoted (cstr ''curve25519'') @ cstr '':'' @ cstr ''{}}''"
proof -
  have "unpublished (fst (mark_keys_as_published a)) = []"
    by (simp add: unpublished_def mark_keys filter_empty_conv)
  then show ?thesis
    by (simp add: mark_keys unpublished_def one_time_keys_json_def cstr_def)
qed

text \<open>
  Removing a key removes the first key with that public part and no other, and returns its id;
  when no key has it, the account stays as it was and the result is the error value.
\<close>

theorem remove_key_removes_one:
  assumes "wf_account a" "length k = 32"
  shows "if \<exists>x\<in>set (keys a). c_public (otk_key x) = k
    then \<exists>xs x ys. keys a = xs @ x # ys \<and> c_public (otk_key x) = k \<and>
        (\<forall>y\<in>set xs. c_public (otk_key y) \<noteq> k) \<and> snd (remove_key a k) = Some (unat (otk_id x)) \<and>
        keys (fst (remove_key a k)) = xs @ ys
    else remove_key a k = (a, None)"
proof (cases "lookup_key a k")
  case None
  then show ?thesis using lookup_key_None [OF assms] by (simp add: remove_key_eq)
next
  case (Some i)
  note s = lookup_key_Some [OF assms Some]
  have i: "i < ol_end (ac_one_time_keys a)" using s(1) by simp
  let ?xs = "take i (keys a)" and ?ys = "drop (Suc i) (keys a)"
  have "keys a = ?xs @ keys a ! i # ?ys" using s(1) by (rule id_take_nth_drop)
  moreover have "\<forall>y\<in>set ?xs. c_public (otk_key y) \<noteq> k" 
  proof
    fix y assume "y \<in> set ?xs"
    then obtain j where "j < length ?xs" "y = ?xs ! j" unfolding in_set_conv_nth by blast
    then have "j < i" "y = keys a ! j" by (simp_all del: nth_items)
    then show "c_public (otk_key y) \<noteq> k" using s(3) by blast
  qed
  moreover have "snd (remove_key a k) = Some (unat (otk_id (keys a ! i)))"
    using Some i by (simp add: remove_key_eq ol_nth_def)
  moreover have "keys (fst (remove_key a k)) = ?xs @ ?ys"
    using Some i by (simp add: remove_key_eq items_erase)
  moreover have "\<exists>x\<in>set (keys a). c_public (otk_key x) = k" using s(1,2) nth_mem by blast
  ultimately show ?thesis using s(2) by auto
qed

theorem remove_key_removes_one_witness:
  "if \<exists>x\<in>set (keys example_account). c_public (otk_key x) = replicate 32 0
    then \<exists>xs x ys. keys example_account = xs @ x # ys \<and> c_public (otk_key x) = replicate 32 0 \<and>
        (\<forall>y\<in>set xs. c_public (otk_key y) \<noteq> replicate 32 0) \<and>
        snd (remove_key example_account (replicate 32 0)) = Some (unat (otk_id x)) \<and>
        keys (fst (remove_key example_account (replicate 32 0))) = xs @ ys
    else remove_key example_account (replicate 32 0) = (example_account, None)"
  by (rule remove_key_removes_one [OF wf_example_account]) simp

text \<open>
  An account made from one seed holds a Curve25519 key pair that belongs together: the public key
  is the private key times the base point, as for a generated pair.
\<close>

theorem derived_keys_match:
  assumes "crypto_lib_ok L" "sodium_ok L S" "32 \<le> length r"
  shows "\<exists>a' pair. new_account_derrived_keys S r a = (a', Some 0) \<and>
    pair = ik_curve25519_key (ac_identity_keys a') \<and> wf_identity_keys (ac_identity_keys a') \<and>
    pair = curve25519_generate_key L (c_private pair)"
proof -
  obtain pk sk csk where k: "length pk = 32" "length sk = 64" "length csk = 32"
    "length (curve25519_donna L csk CURVE25519_BASEPOINT) = 32"
    "new_account_derrived_keys S r a = (a\<lparr>ac_identity_keys :=
       \<lparr>ik_ed25519_key = \<lparr>e_public = pk, e_private = sk\<rparr>,
        ik_curve25519_key = \<lparr>c_public = curve25519_donna L csk CURVE25519_BASEPOINT, c_private = csk\<rparr>\<rparr>\<rparr>, Some 0)"
    by (rule new_account_derrived_keys_eq [OF assms])
  show ?thesis
    using k(1-4) unfolding k(5)
    by (simp add: wf_identity_keys_def wf_ed_pair_def wf_curve_pair_def curve25519_generate_key_def)
qed

theorem derived_keys_match_witness:
  "\<exists>a' pair. new_account_derrived_keys example_sodium (replicate 32 3) fresh_account = (a', Some 0) \<and>
    pair = ik_curve25519_key (ac_identity_keys a') \<and> wf_identity_keys (ac_identity_keys a') \<and>
    pair = curve25519_generate_key example_lib (c_private pair)"
  by (rule derived_keys_match [OF example_lib_ok example_sodium_ok]) simp

text \<open>
  Signing writes 64 bytes and the message behind them, although the buffer it is given has to
  have 64 bytes only and 64 is the length it returns.
\<close>

theorem sign_writes_past_the_signature:
  assumes "crypto_lib_ok L" "sodium_ok L S" "wf_account a" "64 \<le> n"
  shows "\<exists>m'. account_sign S a m msg len sig n = (a, m', Some 64) \<and>
    rd m' (sig + 64) len = rd m msg len \<and> frame m m' sig (64 + len)"
proof -
  let ?sk = "e_private (ik_ed25519_key (ac_identity_keys a))"
  have "length ?sk = 64" using assms(3) by (simp add: wf_account_def wf_identity_keys_def wf_ed_pair_def)
  then have "fst (crypto_sign S (rd m msg len) ?sk) = 0"
    "\<exists>s. length s = 64 \<and> snd (crypto_sign S (rd m msg len) ?sk) = s @ rd m msg len"
    using assms(2) unfolding sodium_ok_def by blast+
  then obtain s where s: "length s = 64" "crypto_sign S (rd m msg len) ?sk = (0, s @ rd m msg len)"
    by (metis prod.collapse)
  have "account_sign S a m msg len sig n = (a, wr m sig (s @ rd m msg len), Some 64)"
    using assms(4) s(2) by (simp add: account_sign_def signature_length_def ED25519_SIGNATURE_LENGTH_def)
  moreover have "rd (wr m sig (s @ rd m msg len)) (sig + 64) len = rd m msg len"
    using s(1) by (simp add: rd_wr_within)
  moreover have "frame m (wr m sig (s @ rd m msg len)) sig (64 + len)"
    by (rule frame_wr) (simp_all add: s(1))
  ultimately show ?thesis by blast
qed

theorem sign_writes_past_the_signature_witness:
  "\<exists>m'. account_sign example_sodium fresh_account (\<lambda>i. 7) 500 100 0 64 = (fresh_account, m', Some 64) \<and>
    rd m' (0 + 64) 100 = rd (\<lambda>i. 7) 500 100 \<and> frame (\<lambda>i. 7) m' 0 (64 + 100)"
  by (rule sign_writes_past_the_signature [OF example_lib_ok example_sodium_ok wf_fresh_account(1)]) simp

end
