(* ===== verification/Ratchet.thy ===== *)
theory Ratchet
  imports Cipher Pickle Message OlmError
begin

text \<open>
  \<open>src/ratchet.cpp\<close> and \<open>ratchet.hh\<close>: the double ratchet of a session between two devices.  The state
  is a root key, at most one chain for sending, up to five chains for receiving and up to forty keys
  of messages that were skipped.  The members \<open>encrypt\<close> and \<open>decrypt\<close> take the ratchet and the flat
  memory with the caller's buffers and return both with the value the code returns (\<open>None\<close> for
  \<open>std::size_t(-1)\<close>).  The local \<open>reader\<close> of \<open>decrypt\<close> is uninitialised in the code; its content
  before the call of \<open>decode_message\<close> is the parameter \<open>junk\<close>.
\<close>

section \<open>State\<close>

definition PROTOCOL_VERSION :: byte where "PROTOCOL_VERSION = 3"
definition MESSAGE_KEY_SEED :: bytes where "MESSAGE_KEY_SEED = [0x01]"
definition CHAIN_KEY_SEED :: bytes where "CHAIN_KEY_SEED = [0x02]"
definition MAX_MESSAGE_GAP :: u32 where "MAX_MESSAGE_GAP = 2000"
definition OLM_SHARED_KEY_LENGTH :: nat where "OLM_SHARED_KEY_LENGTH = 32"
definition MAX_RECEIVER_CHAINS :: nat where "MAX_RECEIVER_CHAINS = 5"
definition MAX_SKIPPED_MESSAGE_KEYS :: nat where "MAX_SKIPPED_MESSAGE_KEYS = 40"

record ChainKey =
  ck_index :: u32
  ck_key :: bytes

record MessageKey =
  mk_index :: u32
  mk_key :: bytes

record SenderChain =
  sc_ratchet_key :: curve25519_key_pair
  sc_chain_key :: ChainKey

record ReceiverChain =
  rc_ratchet_key :: bytes
  rc_chain_key :: ChainKey

record SkippedMessageKey =
  sm_ratchet_key :: bytes
  sm_message_key :: MessageKey

record KdfInfo =
  root_info :: bytes
  ratchet_info :: bytes

record Ratchet =
  rt_kdf_info :: KdfInfo
  rt_cipher :: aes_sha_256_cipher
  rt_last_error :: OlmErrorCode
  rt_root_key :: bytes
  rt_sender_chain :: "SenderChain olist"
  rt_receiver_chains :: "ReceiverChain olist"
  rt_skipped_message_keys :: "SkippedMessageKey olist"

text \<open>What \<open>olm::unset\<close> leaves of an element.\<close>

definition zero_chain_key :: ChainKey where
  "zero_chain_key = \<lparr>ck_index = 0, ck_key = replicate 32 0\<rparr>"

definition zero_sender_chain :: SenderChain where
  "zero_sender_chain =
     \<lparr>sc_ratchet_key = \<lparr>c_public = replicate 32 0, c_private = replicate 32 0\<rparr>,
      sc_chain_key = zero_chain_key\<rparr>"

definition zero_receiver_chain :: ReceiverChain where
  "zero_receiver_chain = \<lparr>rc_ratchet_key = replicate 32 0, rc_chain_key = zero_chain_key\<rparr>"

definition zero_skipped :: SkippedMessageKey where
  "zero_skipped =
     \<lparr>sm_ratchet_key = replicate 32 0, sm_message_key = \<lparr>mk_index = 0, mk_key = replicate 32 0\<rparr>\<rparr>"

section \<open>Key derivation\<close>

text \<open>The new root key and the first chain key.\<close>

definition create_chain_key ::
  "crypto_lib \<Rightarrow> bytes \<Rightarrow> curve25519_key_pair \<Rightarrow> bytes \<Rightarrow> KdfInfo \<Rightarrow> bytes \<times> ChainKey" where
  "create_chain_key L root_key our_key their_key info =
     (let secret = curve25519_shared_secret L our_key their_key;
          derived_secrets =
            crypto_hkdf_sha256 secret (Some root_key) (ratchet_info info) (2 * OLM_SHARED_KEY_LENGTH);
          new_root_key = take 32 derived_secrets;
          pos = drop 32 derived_secrets
      in (new_root_key, \<lparr>ck_index = 0, ck_key = take 32 pos\<rparr>))"

definition advance_chain_key :: "ChainKey \<Rightarrow> ChainKey" where
  "advance_chain_key chain_key =
     \<lparr>ck_index = ck_index chain_key + 1,
      ck_key = crypto_hmac_sha256 (ck_key chain_key) CHAIN_KEY_SEED\<rparr>"

definition create_message_keys :: "ChainKey \<Rightarrow> KdfInfo \<Rightarrow> MessageKey" where
  "create_message_keys chain_key info =
     \<lparr>mk_index = ck_index chain_key,
      mk_key = crypto_hmac_sha256 (ck_key chain_key) MESSAGE_KEY_SEED\<rparr>"

section \<open>Trying a message\<close>

definition verify_mac_and_decrypt ::
  "aes_sha_256_cipher \<Rightarrow> MessageKey \<Rightarrow> MessageReader \<Rightarrow> mem \<Rightarrow> addr \<Rightarrow> nat \<Rightarrow> mem \<times> nat option" where
  "verify_mac_and_decrypt cipher message_key reader m plaintext max_plaintext_length =
     cipher_decrypt cipher (mk_key message_key) m
       (mr_input reader) (mr_input_length reader)
       (the (mr_ciphertext reader)) (mr_ciphertext_length reader)
       plaintext max_plaintext_length"

lemma chain_gap_less: "(i :: u32) < c \<Longrightarrow> unat (c - (i + 1)) < unat (c - i)"
proof -
  assume "i < c"
  then have "unat (c - i - 1) < unat (c - i)"
    by (metis cancel_comm_monoid_add_class.diff_cancel diff_add_cancel less_irrefl measure_unat
        right_minus_eq)
  then show ?thesis by (simp add: diff_diff_eq)
qed

text \<open>\<open>while (new_chain.index < reader.counter) advance_chain_key(new_chain, new_chain);\<close>\<close>

function advance_chain_to :: "u32 \<Rightarrow> ChainKey \<Rightarrow> ChainKey" where
  "advance_chain_to counter chain =
     (if ck_index chain < counter then advance_chain_to counter (advance_chain_key chain) else chain)"
  by pat_completeness auto
termination
  by (relation "measure (\<lambda>(c, ch). unat (c - ck_index ch))")
    (auto simp: advance_chain_key_def intro: chain_gap_less)

declare advance_chain_to.simps [simp del]

definition verify_mac_and_decrypt_for_existing_chain ::
  "Ratchet \<Rightarrow> ChainKey \<Rightarrow> MessageReader \<Rightarrow> mem \<Rightarrow> addr \<Rightarrow> nat \<Rightarrow> mem \<times> nat option" where
  "verify_mac_and_decrypt_for_existing_chain session chain reader m plaintext max_plaintext_length =
     (if mr_counter reader < ck_index chain then (m, None)
      else if mr_counter reader - ck_index chain > MAX_MESSAGE_GAP then (m, None)
      else
        let new_chain = advance_chain_to (mr_counter reader) chain;
            message_key = create_message_keys new_chain (rt_kdf_info session)
        in verify_mac_and_decrypt (rt_cipher session) message_key reader m
             plaintext max_plaintext_length)"

definition verify_mac_and_decrypt_for_new_chain ::
  "crypto_lib \<Rightarrow> Ratchet \<Rightarrow> MessageReader \<Rightarrow> mem \<Rightarrow> addr \<Rightarrow> nat \<Rightarrow> mem \<times> nat option" where
  "verify_mac_and_decrypt_for_new_chain L session reader m plaintext max_plaintext_length =
     (if ol_empty (rt_sender_chain session) then (m, None)
      else if mr_counter reader > MAX_MESSAGE_GAP then (m, None)
      else
        let ratchet_key = rd m (the (mr_ratchet_key reader)) 32;
            (new_root_key, chain_key) =
              create_chain_key L (rt_root_key session)
                (sc_ratchet_key (ol_nth (rt_sender_chain session) 0)) ratchet_key
                (rt_kdf_info session)
        in verify_mac_and_decrypt_for_existing_chain session chain_key reader m
             plaintext max_plaintext_length)"

section \<open>Initialisation\<close>

definition initialise_as_bob :: "Ratchet \<Rightarrow> bytes \<Rightarrow> bytes \<Rightarrow> Ratchet" where
  "initialise_as_bob session shared_secret their_ratchet_key =
     (let derived_secrets =
            crypto_hkdf_sha256 shared_secret None (root_info (rt_kdf_info session))
              (2 * OLM_SHARED_KEY_LENGTH);
          chains = fst (ol_insert_begin MAX_RECEIVER_CHAINS (rt_receiver_chains session));
          root_key = take 32 derived_secrets;
          pos = drop 32 derived_secrets;
          chain = \<lparr>rc_ratchet_key = their_ratchet_key,
                   rc_chain_key = \<lparr>ck_index = 0, ck_key = take 32 pos\<rparr>\<rparr>
      in session\<lparr>rt_root_key := root_key, rt_receiver_chains := ol_set chains 0 chain\<rparr>)"

definition initialise_as_alice :: "Ratchet \<Rightarrow> bytes \<Rightarrow> curve25519_key_pair \<Rightarrow> Ratchet" where
  "initialise_as_alice session shared_secret our_ratchet_key =
     (let derived_secrets =
            crypto_hkdf_sha256 shared_secret None (root_info (rt_kdf_info session))
              (2 * OLM_SHARED_KEY_LENGTH);
          chains = fst (ol_insert_begin 1 (rt_sender_chain session));
          root_key = take 32 derived_secrets;
          pos = drop 32 derived_secrets;
          chain = \<lparr>sc_ratchet_key = our_ratchet_key,
                   sc_chain_key = \<lparr>ck_index = 0, ck_key = take 32 pos\<rparr>\<rparr>
      in session\<lparr>rt_root_key := root_key, rt_sender_chain := ol_set chains 0 chain\<rparr>)"

section \<open>Encryption\<close>

definition encrypt_output_length :: "Ratchet \<Rightarrow> nat \<Rightarrow> nat" where
  "encrypt_output_length session plaintext_length =
     (let counter = (if \<not> ol_empty (rt_sender_chain session)
                     then ck_index (sc_chain_key (ol_nth (rt_sender_chain session) 0)) else 0);
          padded = cipher_encrypt_ciphertext_length (rt_cipher session) plaintext_length
      in encode_message_length counter 32 padded (cipher_mac_length (rt_cipher session)))"

definition encrypt_random_length :: "Ratchet \<Rightarrow> nat" where
  "encrypt_random_length session = (if ol_empty (rt_sender_chain session) then 32 else 0)"

text \<open>The part of \<open>encrypt\<close> that starts a new sender chain when there is none.\<close>

definition start_sender_chain :: "crypto_lib \<Rightarrow> Ratchet \<Rightarrow> bytes \<Rightarrow> Ratchet" where
  "start_sender_chain L session random =
     (if ol_empty (rt_sender_chain session) then
        let chains = fst (ol_insert_begin 1 (rt_sender_chain session));
            ratchet_key = curve25519_generate_key L random;
            (root_key, chain_key) =
              create_chain_key L (rt_root_key session) ratchet_key
                (rc_ratchet_key (ol_nth (rt_receiver_chains session) 0)) (rt_kdf_info session)
        in session\<lparr>rt_root_key := root_key,
             rt_sender_chain := ol_set chains 0 \<lparr>sc_ratchet_key = ratchet_key, sc_chain_key = chain_key\<rparr>\<rparr>
      else session)"

definition ratchet_encrypt ::
  "crypto_lib \<Rightarrow> Ratchet \<Rightarrow> mem \<Rightarrow> addr \<Rightarrow> nat \<Rightarrow> bytes \<Rightarrow> addr \<Rightarrow> nat \<Rightarrow> Ratchet \<times> mem \<times> nat option" where
  "ratchet_encrypt L session m plaintext plaintext_length random output max_output_length =
     (let output_length = encrypt_output_length session plaintext_length
      in if length random < encrypt_random_length session then
           (session\<lparr>rt_last_error := OLM_NOT_ENOUGH_RANDOM\<rparr>, m, None)
         else if max_output_length < output_length then
           (session\<lparr>rt_last_error := OLM_OUTPUT_BUFFER_TOO_SMALL\<rparr>, m, None)
         else
           let session = start_sender_chain L session random;
               chain = ol_nth (rt_sender_chain session) 0;
               keys = create_message_keys (sc_chain_key chain) (rt_kdf_info session);
               chain = chain\<lparr>sc_chain_key := advance_chain_key (sc_chain_key chain)\<rparr>;
               session = session\<lparr>rt_sender_chain := ol_set (rt_sender_chain session) 0 chain\<rparr>;
               ciphertext_length =
                 cipher_encrypt_ciphertext_length (rt_cipher session) plaintext_length;
               counter = mk_index keys;
               ratchet_key = c_public (sc_ratchet_key chain);
               (m, writer) =
                 encode_message m PROTOCOL_VERSION counter 32 ciphertext_length output;
               m = wr m (mw_ratchet_key writer) ratchet_key;
               (m, _) =
                 cipher_encrypt (rt_cipher session) (mk_key keys) m plaintext plaintext_length
                   (mw_ciphertext writer) ciphertext_length output output_length
           in (session, m, Some output_length))"

section \<open>Decryption\<close>

definition decrypt_max_plaintext_length ::
  "MessageReader \<Rightarrow> Ratchet \<Rightarrow> mem \<Rightarrow> addr \<Rightarrow> nat \<Rightarrow> Ratchet \<times> nat option" where
  "decrypt_max_plaintext_length junk session m input input_length =
     (let reader = decode_message m junk input input_length (cipher_mac_length (rt_cipher session))
      in if mr_ciphertext reader = None then
           (session\<lparr>rt_last_error := OLM_BAD_MESSAGE_FORMAT\<rparr>, None)
         else
           (session, Some (cipher_decrypt_max_plaintext_length (rt_cipher session)
                             (mr_ciphertext_length reader))))"

text \<open>The position of the chain with the message's ratchet key; \<open>memcmp\<close> compares 32 bytes.\<close>

primrec find_chain :: "nat \<Rightarrow> ReceiverChain olist \<Rightarrow> bytes \<Rightarrow> nat \<Rightarrow> nat option" where
  "find_chain 0 cs key i = None"
| "find_chain (Suc n) cs key i =
     (if take 32 (rc_ratchet_key (ol_nth cs i)) = key then Some i
      else find_chain n cs key (i + 1))"

text \<open>
  The loop over the skipped keys, from position \<open>i\<close> with \<open>n\<close> of them left; the result is the position
  of the key that fits and the length of the plaintext.
\<close>

primrec try_skipped ::
  "nat \<Rightarrow> Ratchet \<Rightarrow> MessageReader \<Rightarrow> mem \<Rightarrow> addr \<Rightarrow> nat \<Rightarrow> nat \<Rightarrow> mem \<times> (nat \<times> nat) option" where
  "try_skipped 0 session reader m plaintext max_plaintext_length i = (m, None)"
| "try_skipped (Suc n) session reader m plaintext max_plaintext_length i =
     (let skipped = ol_nth (rt_skipped_message_keys session) i
      in if mr_counter reader = mk_index (sm_message_key skipped)
            \<and> take 32 (sm_ratchet_key skipped) = rd m (the (mr_ratchet_key reader)) 32 then
           let (m, result) =
                 verify_mac_and_decrypt (rt_cipher session) (sm_message_key skipped) reader m
                   plaintext max_plaintext_length
           in case result of
                Some len \<Rightarrow> (m, Some (i, len))
              | None \<Rightarrow> try_skipped n session reader m plaintext max_plaintext_length (i + 1)
         else try_skipped n session reader m plaintext max_plaintext_length (i + 1))"

text \<open>The last loop of \<open>decrypt\<close>: keys the message skips are kept.\<close>

function skip_keys ::
  "KdfInfo \<Rightarrow> u32 \<Rightarrow> ReceiverChain \<Rightarrow> SkippedMessageKey olist \<Rightarrow> ReceiverChain \<times> SkippedMessageKey olist"
where
  "skip_keys info counter chain skipped =
     (if ck_index (rc_chain_key chain) < counter then
        let (skipped, p) = ol_insert_begin MAX_SKIPPED_MESSAGE_KEYS skipped;
            key = \<lparr>sm_ratchet_key = rc_ratchet_key chain,
                   sm_message_key = create_message_keys (rc_chain_key chain) info\<rparr>;
            skipped = ol_set skipped p key;
            chain = chain\<lparr>rc_chain_key := advance_chain_key (rc_chain_key chain)\<rparr>
        in skip_keys info counter chain skipped
      else (chain, skipped))"
  by pat_completeness auto
termination
  by (relation "measure (\<lambda>(_, c, ch, _). unat (c - ck_index (rc_chain_key ch)))")
    (auto simp: advance_chain_key_def intro: chain_gap_less)

declare skip_keys.simps [simp del]

definition ratchet_decrypt ::
  "crypto_lib \<Rightarrow> MessageReader \<Rightarrow> Ratchet \<Rightarrow> mem \<Rightarrow> addr \<Rightarrow> nat \<Rightarrow> addr \<Rightarrow> nat \<Rightarrow>
   Ratchet \<times> mem \<times> nat option" where
  "ratchet_decrypt L junk session m input input_length plaintext max_plaintext_length =
     (let reader = decode_message m junk input input_length (cipher_mac_length (rt_cipher session))
      in if mr_version reader \<noteq> PROTOCOL_VERSION then
           (session\<lparr>rt_last_error := OLM_BAD_MESSAGE_VERSION\<rparr>, m, None)
         else if \<not> mr_has_counter reader \<or> mr_ratchet_key reader = None
                 \<or> mr_ciphertext reader = None then
           (session\<lparr>rt_last_error := OLM_BAD_MESSAGE_FORMAT\<rparr>, m, None)
         else if max_plaintext_length <
                 cipher_decrypt_max_plaintext_length (rt_cipher session)
                   (mr_ciphertext_length reader) then
           (session\<lparr>rt_last_error := OLM_OUTPUT_BUFFER_TOO_SMALL\<rparr>, m, None)
         else if mr_ratchet_key_length reader \<noteq> 32 then
           (session\<lparr>rt_last_error := OLM_BAD_MESSAGE_FORMAT\<rparr>, m, None)
         else
           let their_key = rd m (the (mr_ratchet_key reader)) 32;
               chains = rt_receiver_chains session;
               chain = find_chain (ol_size chains) chains their_key 0;
               (m, skipped, result) =
                 (case chain of
                    None \<Rightarrow>
                      let (m, result) = verify_mac_and_decrypt_for_new_chain L session reader m
                                          plaintext max_plaintext_length
                      in (m, None, result)
                  | Some i \<Rightarrow>
                      if ck_index (rc_chain_key (ol_nth chains i)) > mr_counter reader then
                        let (m, r) = try_skipped (ol_size (rt_skipped_message_keys session)) session
                                       reader m plaintext max_plaintext_length 0
                        in (m, map_option fst r, map_option snd r)
                      else
                        let (m, result) =
                              verify_mac_and_decrypt_for_existing_chain session
                                (rc_chain_key (ol_nth chains i)) reader m
                                plaintext max_plaintext_length
                        in (m, None, result))
           in case (skipped, result) of
                (Some k, Some len) \<Rightarrow>
                  let l = ol_set (rt_skipped_message_keys session) k zero_skipped
                  in (session\<lparr>rt_skipped_message_keys := ol_erase l k\<rparr>, m, Some len)
              | (_, None) \<Rightarrow> (session\<lparr>rt_last_error := OLM_BAD_MESSAGE_MAC\<rparr>, m, None)
              | (None, Some len) \<Rightarrow>
                  let (session, i) =
                        (case chain of
                           Some i \<Rightarrow> (session, i)
                         | None \<Rightarrow>
                             let their_key = rd m (the (mr_ratchet_key reader)) 32;
                                 (chains, i) = ol_insert_begin MAX_RECEIVER_CHAINS chains;
                                 (root_key, chain_key) =
                                   create_chain_key L (rt_root_key session)
                                     (sc_ratchet_key (ol_nth (rt_sender_chain session) 0)) their_key
                                     (rt_kdf_info session);
                                 chains = ol_set chains i
                                   \<lparr>rc_ratchet_key = their_key, rc_chain_key = chain_key\<rparr>;
                                 sender = ol_set (rt_sender_chain session) 0 zero_sender_chain;
                                 sender = ol_erase sender 0
                             in (session\<lparr>rt_root_key := root_key, rt_receiver_chains := chains,
                                   rt_sender_chain := sender\<rparr>, i));
                      (chain, skipped_keys) =
                        skip_keys (rt_kdf_info session) (mr_counter reader)
                          (ol_nth (rt_receiver_chains session) i) (rt_skipped_message_keys session);
                      chain = chain\<lparr>rc_chain_key := advance_chain_key (rc_chain_key chain)\<rparr>
                  in (session\<lparr>rt_receiver_chains := ol_set (rt_receiver_chains session) i chain,
                        rt_skipped_message_keys := skipped_keys\<rparr>, m, Some len))"

section \<open>Chains\<close>

lemma ck_index_advance [simp]: "ck_index (advance_chain_key c) = ck_index c + 1"
  by (simp add: advance_chain_key_def)

lemma advance_chain_to_iter:
  assumes "ck_index c \<le> n"
  shows "advance_chain_to n c = (advance_chain_key ^^ unat (n - ck_index c)) c"
  using assms
proof (induction n c rule: advance_chain_to.induct)
  case (1 n c)
  show ?case
  proof (cases "ck_index c < n")
    case True
    have "unat (n - ck_index c) = Suc (unat (n - (ck_index c + 1)))"
    proof -
      have "n - ck_index c \<noteq> 0" using True by auto
      then have "Suc (unat (n - ck_index c - 1)) = unat (n - ck_index c)"
        using unatSuc [of "n - ck_index c - 1"] by simp
      then show ?thesis by (simp add: diff_diff_eq)
    qed
    moreover have "ck_index c + 1 \<le> n" using True by (rule inc_le)
    ultimately show ?thesis
      using 1(1) [OF True] True by (subst advance_chain_to.simps) (simp add: funpow_swap1)
  next
    case False
    then have "n = ck_index c" using 1(2) by simp
    then show ?thesis by (subst advance_chain_to.simps) simp
  qed
qed

lemma advance_chain_to_index: "ck_index c \<le> n \<Longrightarrow> ck_index (advance_chain_to n c) = n"
proof (induction n c rule: advance_chain_to.induct)
  case (1 n c)
  then show ?case by (subst advance_chain_to.simps) (auto simp: inc_le)
qed

lemma advance_chain_to_self: "\<not> ck_index c < n \<Longrightarrow> advance_chain_to n c = c"
  by (subst advance_chain_to.simps) simp

lemma advance_chain_to_step:
  assumes "advance_chain_to n c = d" "ck_index c \<le> n" "n \<noteq> - 1"
  shows "advance_chain_to (n + 1) c = advance_chain_key d"
proof -
  have "1 + n \<noteq> 0" using assms(3) by (metis add.commute add_eq_0_iff)
  then have s: "unat (n + 1) = Suc (unat n)" using unatSuc [of n] by (simp add: add.commute)
  then have le: "ck_index c \<le> n + 1" using assms(2) by (simp add: word_le_nat_alt)
  moreover have "unat (n + 1 - ck_index c) = Suc (unat (n - ck_index c))"
    using assms(2) s unat_sub [OF le] unat_sub [OF assms(2)] by (simp add: word_le_nat_alt Suc_diff_le)
  ultimately show ?thesis
    using advance_chain_to_iter [OF assms(2)] assms(1) by (simp add: advance_chain_to_iter)
qed

lemma skip_keys_chain:
  "fst (skip_keys info n ch sk) = ch\<lparr>rc_chain_key := advance_chain_to n (rc_chain_key ch)\<rparr>"
proof (induction info n ch sk rule: skip_keys.induct)
  case (1 info n ch sk)
  show ?case
  proof (cases "ck_index (rc_chain_key ch) < n")
    case True
    then show ?thesis
      using 1 by (subst skip_keys.simps, subst advance_chain_to.simps) (auto split: prod.split)
  qed (simp add: skip_keys.simps advance_chain_to_self)
qed

section \<open>Well-formed ratchets\<close>

definition valid_chain_key :: "ChainKey \<Rightarrow> bool" where
  "valid_chain_key c \<longleftrightarrow> length (ck_key c) = 32"

definition valid_sender :: "SenderChain \<Rightarrow> bool" where
  "valid_sender c \<longleftrightarrow> wf_curve_pair (sc_ratchet_key c) \<and> valid_chain_key (sc_chain_key c)"

definition valid_receiver :: "ReceiverChain \<Rightarrow> bool" where
  "valid_receiver c \<longleftrightarrow> length (rc_ratchet_key c) = 32 \<and> valid_chain_key (rc_chain_key c)"

definition valid_skipped :: "SkippedMessageKey \<Rightarrow> bool" where
  "valid_skipped k \<longleftrightarrow> length (sm_ratchet_key k) = 32 \<and> length (mk_key (sm_message_key k)) = 32"

definition wf_ratchet :: "Ratchet \<Rightarrow> bool" where
  "wf_ratchet s \<longleftrightarrow>
     length (rt_root_key s) = 32 \<and>
     list_wf valid_sender 1 (rt_sender_chain s) \<and>
     list_wf valid_receiver MAX_RECEIVER_CHAINS (rt_receiver_chains s) \<and>
     list_wf valid_skipped MAX_SKIPPED_MESSAGE_KEYS (rt_skipped_message_keys s)"

lemma valid_advance [simp]: "valid_chain_key (advance_chain_key c)"
  by (simp add: valid_chain_key_def advance_chain_key_def)

lemma valid_create [simp]: "valid_chain_key (snd (create_chain_key L root k p info))"
  "length (fst (create_chain_key L root k p info)) = 32"
  by (simp_all add: valid_chain_key_def create_chain_key_def Let_def
      OLM_SHARED_KEY_LENGTH_def)

lemma length_message_keys [simp]: "length (mk_key (create_message_keys c info)) = 32"
  by (simp add: create_message_keys_def)

lemma valid_skip_keys:
  assumes "valid_receiver ch" "list_wf valid_skipped MAX_SKIPPED_MESSAGE_KEYS sk"
  shows "valid_receiver (fst (skip_keys info n ch sk))"
    "list_wf valid_skipped MAX_SKIPPED_MESSAGE_KEYS (snd (skip_keys info n ch sk))"
proof -
  have "valid_receiver (fst (skip_keys info n ch sk)) \<and>
    list_wf valid_skipped MAX_SKIPPED_MESSAGE_KEYS (snd (skip_keys info n ch sk))"
    using assms
  proof (induction info n ch sk rule: skip_keys.induct)
    case (1 info n ch sk)
    show ?case
    proof (cases "ck_index (rc_chain_key ch) < n")
      case True
      obtain sk' p where i: "ol_insert_begin MAX_SKIPPED_MESSAGE_KEYS sk = (sk', p)" by fastforce
      let ?key = "\<lparr>sm_ratchet_key = rc_ratchet_key ch,
        sm_message_key = create_message_keys (rc_chain_key ch) info\<rparr>"
      let ?ch = "ch\<lparr>rc_chain_key := advance_chain_key (rc_chain_key ch)\<rparr>"
      have "list_wf valid_skipped MAX_SKIPPED_MESSAGE_KEYS sk'"
        using list_wf_insert [OF 1(3), of 0] i by (simp add: ol_insert_begin_def)
      moreover have "valid_skipped ?key"
        using 1(2) by (simp add: valid_skipped_def valid_receiver_def)
      ultimately have "list_wf valid_skipped MAX_SKIPPED_MESSAGE_KEYS (ol_set sk' p ?key)"
        by (rule list_wf_set)
      moreover have "valid_receiver ?ch" using 1(2) by (simp add: valid_receiver_def)
      ultimately show ?thesis
        using 1(1) [OF True i [symmetric] refl refl refl refl] True
        by (subst (1 2) skip_keys.simps) (simp add: i)
    next
      case False
      then show ?thesis using 1 by (simp add: skip_keys.simps)
    qed
  qed
  then show "valid_receiver (fst (skip_keys info n ch sk))"
    "list_wf valid_skipped MAX_SKIPPED_MESSAGE_KEYS (snd (skip_keys info n ch sk))" by auto
qed

section \<open>Failure and well-formedness\<close>

lemma try_skipped_bound:
  "try_skipped n s r m out k i = (m', Some (j, len)) \<Longrightarrow> i \<le> j \<and> j < i + n"
proof (induction n arbitrary: m i)
  case (Suc n)
  obtain m1 res where 1: "verify_mac_and_decrypt (rt_cipher s)
      (sm_message_key (ol_nth (rt_skipped_message_keys s) i)) r m out k = (m1, res)" by fastforce
  have "try_skipped n s r m2 out k (i + 1) = (m', Some (j, len)) \<Longrightarrow> i \<le> j \<and> j < i + Suc n" for m2
    using Suc.IH [of m2 "i + 1"] by simp
  with Suc.prems show ?case by (auto simp: 1 Let_def split: if_splits option.splits)
qed simp

lemma ratchet_decrypt_failure:
  assumes "ratchet_decrypt L junk s m inp n out max_len = (s', m', None)"
  shows "s' = s\<lparr>rt_last_error := rt_last_error s'\<rparr>"
  using assms unfolding ratchet_decrypt_def Let_def
  by (auto split: if_splits option.splits prod.splits)

lemma ratchet_decrypt_error_set:
  assumes "ratchet_decrypt L junk s m inp n out max_len = (s', m', None)"
  shows "rt_last_error s' \<in> {OLM_BAD_MESSAGE_VERSION, OLM_BAD_MESSAGE_FORMAT,
      OLM_OUTPUT_BUFFER_TOO_SMALL, OLM_BAD_MESSAGE_MAC}"
  using assms unfolding ratchet_decrypt_def Let_def
  by (auto split: if_splits option.splits prod.splits)

lemma create_chain_key_valid:
  "create_chain_key L a b c d = (root, ck) \<Longrightarrow> length root = 32 \<and> valid_chain_key ck"
  using valid_create [of L a b c d] by simp

lemma start_sender_chain_wf:
  assumes "wf_ratchet s" "crypto_lib_ok L" "encrypt_random_length s \<le> length random"
    "\<not> ol_empty (rt_sender_chain s) \<or> ol_end (rt_receiver_chains s) > 0"
  shows "wf_ratchet (start_sender_chain L s random)"
proof (cases "ol_empty (rt_sender_chain s)")
  case True
  obtain cs where cs: "cs = fst (ol_insert_begin (Suc 0) (rt_sender_chain s))" by simp
  have "list_wf valid_sender (Suc 0) cs"
    using list_wf_insert [of valid_sender "Suc 0" "rt_sender_chain s" 0] assms(1)
    by (simp add: wf_ratchet_def ol_insert_begin_def cs)
  moreover have "wf_curve_pair (curve25519_generate_key L random)"
    using assms(2,3) True
    by (simp add: wf_curve_pair_def curve25519_generate_key_def Let_def crypto_lib_ok_def
        encrypt_random_length_def CURVE25519_BASEPOINT_def)
  moreover obtain root ck where c: "create_chain_key L (rt_root_key s) (curve25519_generate_key L random)
      (rc_ratchet_key (ol_nth (rt_receiver_chains s) 0)) (rt_kdf_info s) = (root, ck)" by fastforce
  moreover have "length root = 32" "valid_chain_key ck"
    using create_chain_key_valid [OF c] by simp_all
  ultimately show ?thesis
    using assms(1) True
    by (simp add: start_sender_chain_def cs [symmetric] c Let_def wf_ratchet_def valid_sender_def list_wf_set)
next
  case False
  then show ?thesis using assms(1) by (simp add: start_sender_chain_def)
qed


lemma ratchet_decrypt_wf:
  assumes wf: "wf_ratchet s" and r: "ratchet_decrypt L junk s m inp n out max_len = (s', m', res)"
  shows "wf_ratchet s'"
proof (cases res)
  case None
  then have "s' = s\<lparr>rt_last_error := rt_last_error s'\<rparr>" using ratchet_decrypt_failure r by blast
  moreover have "wf_ratchet (s\<lparr>rt_last_error := e\<rparr>)" for e using wf by (simp add: wf_ratchet_def)
  ultimately show ?thesis by metis
next
  case (Some len)
  have skipped: "wf_ratchet (s\<lparr>rt_skipped_message_keys :=
      ol_erase (ol_set (rt_skipped_message_keys s) k zero_skipped) k\<rparr>)" for k
    using wf by (auto simp: wf_ratchet_def valid_skipped_def zero_skipped_def
        intro!: list_wf_erase list_wf_set)
  have final: "wf_ratchet (t\<lparr>rt_receiver_chains := ol_set (rt_receiver_chains t) i
      (c\<lparr>rc_chain_key := advance_chain_key (rc_chain_key c)\<rparr>), rt_skipped_message_keys := sk\<rparr>)"
    if "wf_ratchet t" "skip_keys info cnt (ol_nth (rt_receiver_chains t) i)
          (rt_skipped_message_keys t) = (c, sk)" for t i c sk info cnt
  proof -
    have v: "valid_receiver (ol_nth (rt_receiver_chains t) i)"
      using that(1) by (simp add: wf_ratchet_def list_wf_def ol_nth_def)
    have sk: "list_wf valid_skipped MAX_SKIPPED_MESSAGE_KEYS (rt_skipped_message_keys t)"
      using that(1) by (simp add: wf_ratchet_def)
    have "valid_receiver c" "list_wf valid_skipped MAX_SKIPPED_MESSAGE_KEYS sk"
      using valid_skip_keys [OF v sk, of info cnt] that(2) by simp_all
    then show ?thesis
      using that(1) by (auto simp: wf_ratchet_def valid_receiver_def intro!: list_wf_set)
  qed
  have new: "wf_ratchet (s\<lparr>rt_root_key := root,
      rt_receiver_chains := ol_set cs i \<lparr>rc_ratchet_key = rd m1 p 32, rc_chain_key = ck\<rparr>,
      rt_sender_chain := ol_erase (ol_set (rt_sender_chain s) 0 zero_sender_chain) 0\<rparr>)"
    if "create_chain_key L a b c d = (root, ck)"
      "ol_insert_begin MAX_RECEIVER_CHAINS (rt_receiver_chains s) = (cs, i)"
    for a b c d root ck cs i m1 p
  proof -
    have "length root = 32" "valid_chain_key ck"
      using create_chain_key_valid [OF that(1)] by simp_all
    moreover have "list_wf valid_receiver MAX_RECEIVER_CHAINS cs"
      using list_wf_insert [of valid_receiver MAX_RECEIVER_CHAINS "rt_receiver_chains s" 0] wf that(2)
      by (simp add: wf_ratchet_def ol_insert_begin_def)
    moreover have "valid_sender zero_sender_chain"
      by (simp add: valid_sender_def zero_sender_chain_def wf_curve_pair_def valid_chain_key_def
          zero_chain_key_def)
    ultimately show ?thesis
      using wf by (auto simp: wf_ratchet_def valid_receiver_def intro!: list_wf_set list_wf_erase)
  qed
  show ?thesis
    using r [unfolded Some ratchet_decrypt_def Let_def]
    by (auto split: if_splits option.splits prod.splits simp: wf intro!: skipped final new)
qed

section \<open>A new ratchet\<close>

text \<open>
  The constructor \<open>Ratchet::Ratchet\<close>: the lists are empty.  The memory of a session is cleared before
  the constructor runs, which leaves the root key and the list slots zero.
\<close>

definition new_ratchet :: "KdfInfo \<Rightarrow> aes_sha_256_cipher \<Rightarrow> Ratchet" where
  "new_ratchet info c =
     \<lparr>rt_kdf_info = info, rt_cipher = c, rt_last_error = OLM_SUCCESS, rt_root_key = replicate 32 0,
      rt_sender_chain = ol_new (\<lambda>_. zero_sender_chain),
      rt_receiver_chains = ol_new (\<lambda>_. zero_receiver_chain),
      rt_skipped_message_keys = ol_new (\<lambda>_. zero_skipped)\<rparr>"

lemma valid_zero [simp]: "valid_sender zero_sender_chain" "valid_receiver zero_receiver_chain"
  "valid_skipped zero_skipped" "valid_chain_key zero_chain_key"
  by (simp_all add: valid_sender_def zero_sender_chain_def wf_curve_pair_def valid_chain_key_def
      zero_chain_key_def valid_receiver_def zero_receiver_chain_def valid_skipped_def zero_skipped_def)

definition example_ratchet :: Ratchet where
  "example_ratchet = new_ratchet \<lparr>root_info = [1], ratchet_info = [2]\<rparr> \<lparr>kdf_info = [3]\<rparr>"

lemma wf_new_ratchet: "wf_ratchet (new_ratchet info c)"
  by (simp add: wf_ratchet_def new_ratchet_def list_wf_new)

section \<open>Property\<close>

text \<open>
  A message that the double ratchet refuses leaves the session as it was, with the error code
  as the only change, and the code is one of the four that \<open>decrypt\<close> documents.
\<close>

theorem ratchet_decrypt_failure_keeps_state:
  assumes "ratchet_decrypt L junk s m inp n out max_len = (s', m', None)"
  shows "s' = s\<lparr>rt_last_error := rt_last_error s'\<rparr> \<and>
    rt_last_error s' \<in> {OLM_BAD_MESSAGE_VERSION, OLM_BAD_MESSAGE_FORMAT,
      OLM_OUTPUT_BUFFER_TOO_SMALL, OLM_BAD_MESSAGE_MAC}"
  using ratchet_decrypt_failure [OF assms] ratchet_decrypt_error_set [OF assms] by blast

theorem ratchet_decrypt_failure_keeps_state_witness:
  "\<exists>s' m'. ratchet_decrypt example_lib zero_reader example_ratchet (\<lambda>i. 0) 0 0 0 0 = (s', m', None) \<and>
     s' = example_ratchet\<lparr>rt_last_error := rt_last_error s'\<rparr>"
proof -
  obtain s' m' r where d: "ratchet_decrypt example_lib zero_reader example_ratchet (\<lambda>i. 0) 0 0 0 0 =
      (s', m', r)" by (rule prod_cases3)
  moreover have "r = None"
    using d by (simp add: ratchet_decrypt_def decode_message_def cipher_mac_length_def MAC_LENGTH_def
        Let_def PROTOCOL_VERSION_def zero_reader_def)
  ultimately show ?thesis
    using ratchet_decrypt_failure_keeps_state [of example_lib zero_reader example_ratchet] by blast
qed

section \<open>Pickling\<close>

definition pickle_shared_key_length :: "bytes \<Rightarrow> nat" where
  "pickle_shared_key_length value = OLM_SHARED_KEY_LENGTH"

definition pickle_shared_key :: "mem \<Rightarrow> addr \<Rightarrow> bytes \<Rightarrow> mem \<times> addr" where
  "pickle_shared_key m pos value = pickle_bytes m pos value"

definition unpickle_shared_key :: "mem \<Rightarrow> addr \<Rightarrow> addr \<Rightarrow> bytes \<Rightarrow> addr \<times> bytes" where
  "unpickle_shared_key m pos end value = unpickle_bytes m pos end value"

definition pickle_sender_chain_length :: "SenderChain \<Rightarrow> nat" where
  "pickle_sender_chain_length value =
     pickle_curve25519_key_pair_length (sc_ratchet_key value) +
     pickle_shared_key_length (ck_key (sc_chain_key value)) +
     pickle_u32_length (ck_index (sc_chain_key value))"

definition pickle_sender_chain :: "mem \<Rightarrow> addr \<Rightarrow> SenderChain \<Rightarrow> mem \<times> addr" where
  "pickle_sender_chain m pos value =
     (let (m, pos) = pickle_curve25519_key_pair m pos (sc_ratchet_key value);
          (m, pos) = pickle_shared_key m pos (ck_key (sc_chain_key value))
      in pickle_u32 m pos (ck_index (sc_chain_key value)))"

definition unpickle_sender_chain ::
  "mem \<Rightarrow> addr \<Rightarrow> addr \<Rightarrow> SenderChain \<Rightarrow> addr \<times> SenderChain" where
  "unpickle_sender_chain m pos end value =
     (let (pos, ratchet_key) = unpickle_curve25519_key_pair m pos end (sc_ratchet_key value);
          (pos, key) = unpickle_shared_key m pos end (ck_key (sc_chain_key value));
          (pos, index) = unpickle_u32 m pos end (ck_index (sc_chain_key value))
      in (pos, \<lparr>sc_ratchet_key = ratchet_key, sc_chain_key = \<lparr>ck_index = index, ck_key = key\<rparr>\<rparr>))"

definition pickle_receiver_chain_length :: "ReceiverChain \<Rightarrow> nat" where
  "pickle_receiver_chain_length value =
     pickle_curve25519_public_key_length (rc_ratchet_key value) +
     pickle_shared_key_length (ck_key (rc_chain_key value)) +
     pickle_u32_length (ck_index (rc_chain_key value))"

definition pickle_receiver_chain :: "mem \<Rightarrow> addr \<Rightarrow> ReceiverChain \<Rightarrow> mem \<times> addr" where
  "pickle_receiver_chain m pos value =
     (let (m, pos) = pickle_curve25519_public_key m pos (rc_ratchet_key value);
          (m, pos) = pickle_shared_key m pos (ck_key (rc_chain_key value))
      in pickle_u32 m pos (ck_index (rc_chain_key value)))"

definition unpickle_receiver_chain ::
  "mem \<Rightarrow> addr \<Rightarrow> addr \<Rightarrow> ReceiverChain \<Rightarrow> addr \<times> ReceiverChain" where
  "unpickle_receiver_chain m pos end value =
     (let (pos, ratchet_key) = unpickle_curve25519_public_key m pos end (rc_ratchet_key value);
          (pos, key) = unpickle_shared_key m pos end (ck_key (rc_chain_key value));
          (pos, index) = unpickle_u32 m pos end (ck_index (rc_chain_key value))
      in (pos, \<lparr>rc_ratchet_key = ratchet_key, rc_chain_key = \<lparr>ck_index = index, ck_key = key\<rparr>\<rparr>))"

definition pickle_skipped_length :: "SkippedMessageKey \<Rightarrow> nat" where
  "pickle_skipped_length value =
     pickle_curve25519_public_key_length (sm_ratchet_key value) +
     pickle_shared_key_length (mk_key (sm_message_key value)) +
     pickle_u32_length (mk_index (sm_message_key value))"

definition pickle_skipped :: "mem \<Rightarrow> addr \<Rightarrow> SkippedMessageKey \<Rightarrow> mem \<times> addr" where
  "pickle_skipped m pos value =
     (let (m, pos) = pickle_curve25519_public_key m pos (sm_ratchet_key value);
          (m, pos) = pickle_shared_key m pos (mk_key (sm_message_key value))
      in pickle_u32 m pos (mk_index (sm_message_key value)))"

definition unpickle_skipped ::
  "mem \<Rightarrow> addr \<Rightarrow> addr \<Rightarrow> SkippedMessageKey \<Rightarrow> addr \<times> SkippedMessageKey" where
  "unpickle_skipped m pos end value =
     (let (pos, ratchet_key) = unpickle_curve25519_public_key m pos end (sm_ratchet_key value);
          (pos, key) = unpickle_shared_key m pos end (mk_key (sm_message_key value));
          (pos, index) = unpickle_u32 m pos end (mk_index (sm_message_key value))
      in (pos, \<lparr>sm_ratchet_key = ratchet_key, sm_message_key = \<lparr>mk_index = index, mk_key = key\<rparr>\<rparr>))"

definition pickle_ratchet_length :: "Ratchet \<Rightarrow> nat" where
  "pickle_ratchet_length value =
     OLM_SHARED_KEY_LENGTH +
     pickle_list_length pickle_sender_chain_length (rt_sender_chain value) +
     pickle_list_length pickle_receiver_chain_length (rt_receiver_chains value) +
     pickle_list_length pickle_skipped_length (rt_skipped_message_keys value)"

definition pickle_ratchet :: "mem \<Rightarrow> addr \<Rightarrow> Ratchet \<Rightarrow> mem \<times> addr" where
  "pickle_ratchet m pos value =
     (let (m, pos) = pickle_shared_key m pos (rt_root_key value);
          (m, pos) = pickle_list pickle_sender_chain m pos (rt_sender_chain value);
          (m, pos) = pickle_list pickle_receiver_chain m pos (rt_receiver_chains value)
      in pickle_list pickle_skipped m pos (rt_skipped_message_keys value))"

definition unpickle_ratchet ::
  "mem \<Rightarrow> addr \<Rightarrow> addr \<Rightarrow> Ratchet \<Rightarrow> bool \<Rightarrow> addr \<times> Ratchet" where
  "unpickle_ratchet m pos end value includes_chain_index =
     (let (pos, root_key) = unpickle_shared_key m pos end (rt_root_key value);
          (pos, sender) = unpickle_list unpickle_sender_chain 1 m pos end (rt_sender_chain value);
          (pos, receivers) =
            unpickle_list unpickle_receiver_chain MAX_RECEIVER_CHAINS m pos end
              (rt_receiver_chains value);
          (pos, skipped) =
            unpickle_list unpickle_skipped MAX_SKIPPED_MESSAGE_KEYS m pos end
              (rt_skipped_message_keys value);
          value = value\<lparr>rt_root_key := root_key, rt_sender_chain := sender,
            rt_receiver_chains := receivers, rt_skipped_message_keys := skipped\<rparr>;
          pos = (if includes_chain_index then fst (unpickle_u32 m pos end 0) else pos)
      in (pos, value))"

text \<open>The encodings, and the contract of the element functions and of their lists.\<close>

definition sender_enc :: "SenderChain \<Rightarrow> bytes" where
  "sender_enc c = (c_public (sc_ratchet_key c) @ c_private (sc_ratchet_key c)) @
     ck_key (sc_chain_key c) @ be32 (ck_index (sc_chain_key c))"

definition receiver_enc :: "ReceiverChain \<Rightarrow> bytes" where
  "receiver_enc c = rc_ratchet_key c @ ck_key (rc_chain_key c) @ be32 (ck_index (rc_chain_key c))"

definition skipped_enc :: "SkippedMessageKey \<Rightarrow> bytes" where
  "skipped_enc k = sm_ratchet_key k @ mk_key (sm_message_key k) @ be32 (mk_index (sm_message_key k))"

lemmas chain_pickle_defs = pickle_shared_key_length_def pickle_shared_key_def unpickle_shared_key_def
  pickle_curve25519_public_key_length_def pickle_curve25519_public_key_def
  unpickle_curve25519_public_key_def pickle_curve25519_key_pair_length_def
  pickle_curve25519_key_pair_def unpickle_curve25519_key_pair_def pickle_u32_length_def
  pickle_u32_wr unpickle_u32_eq pickle_bytes_def unpickle_bytes_def OLM_SHARED_KEY_LENGTH_def
  valid_chain_key_def wf_curve_pair_def wr_append

interpretation sender: list_pickler pickle_sender_chain_length pickle_sender_chain
  unpickle_sender_chain sender_enc valid_sender "\<lambda>_. True" id 1
  by unfold_locales
    (auto simp: pickle_sender_chain_length_def pickle_sender_chain_def unpickle_sender_chain_def
      sender_enc_def valid_sender_def chain_pickle_defs stored_rd stored_be32 add.assoc
      split: prod.splits if_splits)

interpretation receiver: list_pickler pickle_receiver_chain_length pickle_receiver_chain
  unpickle_receiver_chain receiver_enc valid_receiver "\<lambda>_. True" id MAX_RECEIVER_CHAINS
  by unfold_locales
    (auto simp: pickle_receiver_chain_length_def pickle_receiver_chain_def unpickle_receiver_chain_def
      receiver_enc_def valid_receiver_def chain_pickle_defs stored_rd stored_be32 add.assoc
      MAX_RECEIVER_CHAINS_def split: prod.splits if_splits)

interpretation skipped: list_pickler pickle_skipped_length pickle_skipped
  unpickle_skipped skipped_enc valid_skipped "\<lambda>_. True" id MAX_SKIPPED_MESSAGE_KEYS
  by unfold_locales
    (auto simp: pickle_skipped_length_def pickle_skipped_def unpickle_skipped_def
      skipped_enc_def valid_skipped_def chain_pickle_defs stored_rd stored_be32 add.assoc
      MAX_SKIPPED_MESSAGE_KEYS_def split: prod.splits if_splits)

interpretation senders: pickler "pickle_list_length pickle_sender_chain_length"
  "pickle_list pickle_sender_chain" "unpickle_list unpickle_sender_chain 1"
  "list_enc sender_enc" "list_wf valid_sender 1" "\<lambda>l. ol_end l = 0" "list_view id"
  by (rule sender.list_contract)

interpretation receivers: pickler "pickle_list_length pickle_receiver_chain_length"
  "pickle_list pickle_receiver_chain" "unpickle_list unpickle_receiver_chain MAX_RECEIVER_CHAINS"
  "list_enc receiver_enc" "list_wf valid_receiver MAX_RECEIVER_CHAINS" "\<lambda>l. ol_end l = 0"
  "list_view id"
  by (rule receiver.list_contract)

interpretation skippeds: pickler "pickle_list_length pickle_skipped_length"
  "pickle_list pickle_skipped" "unpickle_list unpickle_skipped MAX_SKIPPED_MESSAGE_KEYS"
  "list_enc skipped_enc" "list_wf valid_skipped MAX_SKIPPED_MESSAGE_KEYS" "\<lambda>l. ol_end l = 0"
  "list_view id"
  by (rule skipped.list_contract)

definition ratchet_enc :: "Ratchet \<Rightarrow> bytes" where
  "ratchet_enc s = rt_root_key s @ list_enc sender_enc (rt_sender_chain s) @
     list_enc receiver_enc (rt_receiver_chains s) @ list_enc skipped_enc (rt_skipped_message_keys s)"

text \<open>What a pickle stores of a ratchet, and the ratchets it can be read into.\<close>

definition ratchet_view ::
  "Ratchet \<Rightarrow> bytes \<times> SenderChain list \<times> ReceiverChain list \<times> SkippedMessageKey list" where
  "ratchet_view s = (rt_root_key s, items (rt_sender_chain s), items (rt_receiver_chains s),
     items (rt_skipped_message_keys s))"

definition ratchet_fresh :: "Ratchet \<Rightarrow> bool" where
  "ratchet_fresh s \<longleftrightarrow> ol_end (rt_sender_chain s) = 0 \<and> ol_end (rt_receiver_chains s) = 0 \<and>
     ol_end (rt_skipped_message_keys s) = 0"

lemma list_view_id [simp]: "list_view id l = items l"
  by (simp add: list_view_def)

lemma pickle_ratchet_wr:
  assumes "wf_ratchet s"
  shows "pickle_ratchet m pos s = (wr m pos (ratchet_enc s), pos + length (ratchet_enc s))"
  using assms by (simp add: pickle_ratchet_def pickle_shared_key_def pickle_bytes_def wf_ratchet_def
      senders.pk receivers.pk skippeds.pk ratchet_enc_def wr_append add.assoc)

lemma unpickle_ratchet_enc:
  assumes "wf_ratchet s" "wf_ratchet old" "ratchet_fresh old" "stored m pos (ratchet_enc s)"
    "pos + length (ratchet_enc s) \<le> end"
  shows "fst (unpickle_ratchet m pos end old False) = pos + length (ratchet_enc s)"
    "ratchet_view (snd (unpickle_ratchet m pos end old False)) = ratchet_view s"
proof -
  let ?p1 = "pos + length (rt_root_key s)"
  let ?p2 = "?p1 + length (list_enc sender_enc (rt_sender_chain s))"
  let ?p3 = "?p2 + length (list_enc receiver_enc (rt_receiver_chains s))"
  note wf = assms(1,2) [unfolded wf_ratchet_def]
  note st = assms(4) [unfolded ratchet_enc_def stored_append]
  note len = assms(5) [unfolded ratchet_enc_def length_append]
  note fr = assms(3) [unfolded ratchet_fresh_def]
  obtain a where 1: "unpickle_list unpickle_sender_chain 1 m ?p1 end (rt_sender_chain old) = (?p2, a)"
      "items a = items (rt_sender_chain s)"
    using senders.unpk_pos [of "rt_sender_chain s" "rt_sender_chain old" m ?p1 "end"]
      senders.unpk_view [of "rt_sender_chain s" "rt_sender_chain old" m ?p1 "end"] wf st len fr
    by (cases "unpickle_list unpickle_sender_chain 1 m ?p1 end (rt_sender_chain old)") auto
  obtain b where 2: "unpickle_list unpickle_receiver_chain MAX_RECEIVER_CHAINS m ?p2 end
      (rt_receiver_chains old) = (?p3, b)" "items b = items (rt_receiver_chains s)"
    using receivers.unpk_pos [of "rt_receiver_chains s" "rt_receiver_chains old" m ?p2 "end"]
      receivers.unpk_view [of "rt_receiver_chains s" "rt_receiver_chains old" m ?p2 "end"] wf st len fr
    by (cases "unpickle_list unpickle_receiver_chain MAX_RECEIVER_CHAINS m ?p2 end
        (rt_receiver_chains old)") auto
  obtain c where 3: "unpickle_list unpickle_skipped MAX_SKIPPED_MESSAGE_KEYS m ?p3 end
      (rt_skipped_message_keys old) =
      (?p3 + length (list_enc skipped_enc (rt_skipped_message_keys s)), c)"
      "items c = items (rt_skipped_message_keys s)"
    using skippeds.unpk_pos [of "rt_skipped_message_keys s" "rt_skipped_message_keys old" m ?p3 "end"]
      skippeds.unpk_view [of "rt_skipped_message_keys s" "rt_skipped_message_keys old" m ?p3 "end"]
      wf st len fr
    by (cases "unpickle_list unpickle_skipped MAX_SKIPPED_MESSAGE_KEYS m ?p3 end
        (rt_skipped_message_keys old)") auto
  have r: "unpickle_shared_key m pos end (rt_root_key old) = (?p1, rt_root_key s)"
    using wf st len by (simp add: unpickle_shared_key_def unpickle_bytes_def stored_rd)
  show "fst (unpickle_ratchet m pos end old False) = pos + length (ratchet_enc s)"
    "ratchet_view (snd (unpickle_ratchet m pos end old False)) = ratchet_view s"
    using 1 2 3 r by (simp_all add: unpickle_ratchet_def ratchet_view_def ratchet_enc_def)
qed

lemma unpickle_ratchet_wf:
  assumes "wf_ratchet old"
  shows "wf_ratchet (snd (unpickle_ratchet m pos end old inc))"
proof -
  obtain p1 k where 1: "unpickle_shared_key m pos end (rt_root_key old) = (p1, k)" by fastforce
  obtain p2 a where 2: "unpickle_list unpickle_sender_chain 1 m p1 end (rt_sender_chain old) = (p2, a)"
    by fastforce
  obtain p3 b where 3: "unpickle_list unpickle_receiver_chain MAX_RECEIVER_CHAINS m p2 end
      (rt_receiver_chains old) = (p3, b)" by fastforce
  obtain p4 c where 4: "unpickle_list unpickle_skipped MAX_SKIPPED_MESSAGE_KEYS m p3 end
      (rt_skipped_message_keys old) = (p4, c)" by fastforce
  have "length k = 32" using 1 assms
    by (auto simp: unpickle_shared_key_def unpickle_bytes_def wf_ratchet_def split: if_splits)
  moreover have "list_wf valid_sender 1 a" "list_wf valid_receiver MAX_RECEIVER_CHAINS b"
    "list_wf valid_skipped MAX_SKIPPED_MESSAGE_KEYS c"
    using senders.unpk_valid [of "rt_sender_chain old" m p1 "end"]
      receivers.unpk_valid [of "rt_receiver_chains old" m p2 "end"]
      skippeds.unpk_valid [of "rt_skipped_message_keys old" m p3 "end"] assms 2 3 4
    by (simp_all add: wf_ratchet_def)
  ultimately show ?thesis using 1 2 3 4 by (simp add: unpickle_ratchet_def wf_ratchet_def)
qed

lemma unpickle_ratchet_bounds:
  assumes "wf_ratchet old" "pos \<le> end"
  shows "pos \<le> fst (unpickle_ratchet m pos end old inc) \<and> fst (unpickle_ratchet m pos end old inc) \<le> end"
proof -
  obtain p1 k where 1: "unpickle_shared_key m pos end (rt_root_key old) = (p1, k)" by fastforce
  obtain p2 a where 2: "unpickle_list unpickle_sender_chain 1 m p1 end (rt_sender_chain old) = (p2, a)"
    by fastforce
  obtain p3 b where 3: "unpickle_list unpickle_receiver_chain MAX_RECEIVER_CHAINS m p2 end
      (rt_receiver_chains old) = (p3, b)" by fastforce
  obtain p4 c where 4: "unpickle_list unpickle_skipped MAX_SKIPPED_MESSAGE_KEYS m p3 end
      (rt_skipped_message_keys old) = (p4, c)" by fastforce
  note wf = assms(1) [unfolded wf_ratchet_def]
  have a: "pos \<le> p1" "p1 \<le> end"
    using unpickle_bytes_bounds [OF assms(2), of m "rt_root_key old"] 1
    by (simp_all add: unpickle_shared_key_def)
  have b: "p1 \<le> p2" "p2 \<le> end"
    using senders.unpk_bounds [OF _ a(2), of "rt_sender_chain old" m] wf 2 by simp_all
  have c: "p2 \<le> p3" "p3 \<le> end"
    using receivers.unpk_bounds [OF _ b(2), of "rt_receiver_chains old" m] wf 3 by simp_all
  have d: "p3 \<le> p4" "p4 \<le> end"
    using skippeds.unpk_bounds [OF _ c(2), of "rt_skipped_message_keys old" m] wf 4 by simp_all
  have "p4 \<le> fst (unpickle_u32 m p4 end 0) \<and> fst (unpickle_u32 m p4 end 0) \<le> end"
    by (rule u32.unpk_bounds) (simp_all add: d)
  then show ?thesis using 1 2 3 4 a b c d by (simp add: unpickle_ratchet_def)
qed

lemma pickle_ratchet_length_enc: "wf_ratchet s \<Longrightarrow> pickle_ratchet_length s = length (ratchet_enc s)"
  by (simp add: pickle_ratchet_length_def wf_ratchet_def senders.pk_length receivers.pk_length
      skippeds.pk_length ratchet_enc_def OLM_SHARED_KEY_LENGTH_def)

interpretation ratchet: pickler pickle_ratchet_length pickle_ratchet
  "\<lambda>m pos end old. unpickle_ratchet m pos end old False" ratchet_enc wf_ratchet ratchet_fresh ratchet_view
  by unfold_locales (simp_all add: pickle_ratchet_length_enc pickle_ratchet_wr unpickle_ratchet_enc
      unpickle_ratchet_wf unpickle_ratchet_bounds)

end
