(* ===== verification/Conversation.thy ===== *)
theory Conversation
  imports Ratchet
begin

text \<open>
  Two ratchets that talk to each other: what one party writes, the other reads. The theory gives
  the bytes of an encrypted message, shows that the other party decrypts them on an existing and on
  a new chain, defines when two ratchets are in sync and shows that every exchange keeps them so,
  in both directions and with lost, late and repeated messages.
\<close>

section \<open>The message an encryption leaves in the buffer\<close>

definition sender_chain :: "Ratchet \<Rightarrow> SenderChain" where
  "sender_chain s = ol_nth (rt_sender_chain s) 0"

definition message_key :: "Ratchet \<Rightarrow> bytes" where
  "message_key s = mk_key (create_message_keys (sc_chain_key (sender_chain s)) (rt_kdf_info s))"

definition ratchet_body :: "Ratchet \<Rightarrow> bytes \<Rightarrow> bytes" where
  "ratchet_body s pt =
     message_bytes PROTOCOL_VERSION (c_public (sc_ratchet_key (sender_chain s)))
       (ck_index (sc_chain_key (sender_chain s))) (cipher_body (rt_cipher s) (message_key s) pt)"

definition ratchet_message :: "Ratchet \<Rightarrow> bytes \<Rightarrow> bytes" where
  "ratchet_message s pt =
     ratchet_body s pt @ cipher_tag (rt_cipher s) (message_key s) (ratchet_body s pt)"

definition advance_sender :: "Ratchet \<Rightarrow> Ratchet" where
  "advance_sender s = s\<lparr>rt_sender_chain := ol_set (rt_sender_chain s) 0
     ((sender_chain s)\<lparr>sc_chain_key := advance_chain_key (sc_chain_key (sender_chain s))\<rparr>)\<rparr>"

lemma length_ratchet_message:
  assumes "wf_ratchet s" "\<not> ol_empty (rt_sender_chain s)"
  shows "length (ratchet_message s pt) = encrypt_output_length s (length pt)"
proof -
  have "valid_sender (sender_chain s)"
    using assms(1) by (simp add: wf_ratchet_def list_wf_def sender_chain_def ol_nth_def)
  then have k: "length (c_public (sc_ratchet_key (sender_chain s))) = 32"
    by (simp add: valid_sender_def wf_curve_pair_def)
  show ?thesis
    using assms(2) length_message_bytes [of PROTOCOL_VERSION
        "c_public (sc_ratchet_key (sender_chain s))" "ck_index (sc_chain_key (sender_chain s))"
        "cipher_body (rt_cipher s) (message_key s) pt" 8]
    by (simp add: ratchet_message_def ratchet_body_def encrypt_output_length_def Let_def k [unfolded sender_chain_def]
        cipher_mac_length_def MAC_LENGTH_def cipher_encrypt_ciphertext_length_def sender_chain_def)
qed

lemma start_sender_chain_simps:
  "rt_kdf_info (start_sender_chain L s r) = rt_kdf_info s"
  "rt_cipher (start_sender_chain L s r) = rt_cipher s"
  "rt_receiver_chains (start_sender_chain L s r) = rt_receiver_chains s"
  "rt_skipped_message_keys (start_sender_chain L s r) = rt_skipped_message_keys s"
  "rt_last_error (start_sender_chain L s r) = rt_last_error s"
  "\<not> ol_empty (rt_sender_chain s) \<Longrightarrow> start_sender_chain L s r = s"
  by (simp_all add: start_sender_chain_def Let_def split: prod.split)

lemma start_sender_chain_new:
  assumes "ol_empty (rt_sender_chain s)"
    "create_chain_key L (rt_root_key s) (curve25519_generate_key L r)
      (rc_ratchet_key (ol_nth (rt_receiver_chains s) 0)) (rt_kdf_info s) = (root, ck)"
  shows "\<not> ol_empty (rt_sender_chain (start_sender_chain L s r))"
    "sender_chain (start_sender_chain L s r) =
       \<lparr>sc_ratchet_key = curve25519_generate_key L r, sc_chain_key = ck\<rparr>"
    "rt_root_key (start_sender_chain L s r) = root" "ck_index ck = 0"
  using assms
  by (simp_all add: start_sender_chain_def Let_def ol_empty_def ol_insert_begin_def ol_insert_def
      sender_chain_def ol_nth_def ol_set_def) (auto simp: create_chain_key_def Let_def)

lemma start_sender_chain_nonempty: "\<not> ol_empty (rt_sender_chain (start_sender_chain L s r))"
proof (cases "ol_empty (rt_sender_chain s)")
  case True
  obtain root ck where "create_chain_key L (rt_root_key s) (curve25519_generate_key L r)
      (rc_ratchet_key (ol_nth (rt_receiver_chains s) 0)) (rt_kdf_info s) = (root, ck)" by fastforce
  from start_sender_chain_new(1) [OF True this] show ?thesis .
qed (simp add: start_sender_chain_simps)

lemma start_sender_chain_output_length:
  "encrypt_output_length (start_sender_chain L s r) n = encrypt_output_length s n"
proof (cases "ol_empty (rt_sender_chain s)")
  case True
  obtain root ck where "create_chain_key L (rt_root_key s) (curve25519_generate_key L r)
      (rc_ratchet_key (ol_nth (rt_receiver_chains s) 0)) (rt_kdf_info s) = (root, ck)" by fastforce
  from start_sender_chain_new [OF True this] True show ?thesis
    by (simp add: encrypt_output_length_def sender_chain_def Let_def start_sender_chain_simps)
qed (simp add: start_sender_chain_simps)

lemma ratchet_encrypt_wr:
  assumes t: "t = start_sender_chain L s random" and wf: "wf_ratchet t"
    and rnd: "encrypt_random_length s \<le> length random"
    and len: "encrypt_output_length s n \<le> max_len"
    and disj: "pt + n \<le> out \<or> out + encrypt_output_length s n \<le> pt"
  shows "ratchet_encrypt L s m pt n random out max_len =
    (advance_sender t, wr m out (ratchet_message t (rd m pt n)), Some (encrypt_output_length s n))"
proof -
  let ?msg = "rd m pt n"
  let ?sc = "sender_chain t"
  let ?pub = "c_public (sc_ratchet_key ?sc)"
  let ?i = "ck_index (sc_chain_key ?sc)"
  let ?k = "aes_encrypt_cbc_length n"
  let ?ct = "cipher_body (rt_cipher t) (message_key t) ?msg"
  let ?g = "message_bytes PROTOCOL_VERSION ?pub ?i ?ct"
  have ne: "\<not> ol_empty (rt_sender_chain t)" unfolding t by (rule start_sender_chain_nonempty)
  have "valid_sender ?sc"
    using wf by (simp add: wf_ratchet_def list_wf_def sender_chain_def ol_nth_def)
  then have pub: "length ?pub = 32" by (simp add: valid_sender_def wf_curve_pair_def)
  have ctl: "length ?ct = ?k" by simp
  have total: "encrypt_output_length s n = length ?g + 8"
    using length_ratchet_message [OF wf ne, of ?msg] start_sender_chain_output_length [of L s random n]
    by (simp add: t ratchet_message_def ratchet_body_def)
  obtain m1 w where e: "encode_message m PROTOCOL_VERSION ?i 32 ?k out = (m1, w)" by fastforce
  note lay = encode_message_layout [OF e pub ctl]
  let ?m2 = "wr m1 (mw_ratchet_key w) ?pub"
  have pos: "out \<le> mw_ratchet_key w" "mw_ratchet_key w + 32 \<le> mw_ciphertext w"
    "mw_ciphertext w + ?k = out + length ?g"
    using pub ctl unfolding lay(1,2)
    by (simp_all add: message_key_pos_def message_ct_pos_def message_bytes_def field_split)
  have frame1: "rd ?m2 pt n = ?msg"
  proof (rule rd_cong)
    fix i assume i: "pt \<le> i" "i < pt + n"
    have "wr ?m2 (mw_ciphertext w) ?ct i = wr m out ?g i" using lay(3) by simp
    moreover have "wr ?m2 (mw_ciphertext w) ?ct i = ?m2 i" "wr m out ?g i = m i"
      using i disj total pos ctl by (intro wr_out; linarith)+
    ultimately show "?m2 i = m i" by simp
  qed
  have ct: "cipher_encrypt (rt_cipher t) (message_key t) ?m2 pt n (mw_ciphertext w) ?k out (length ?g + 8) =
      (wr m out (ratchet_message t ?msg), Some (length ?g + 8))"
  proof -
    have m3: "wr ?m2 (mw_ciphertext w) (cipher_body (rt_cipher t) (message_key t) (rd ?m2 pt n)) =
        wr m out ?g"
      unfolding frame1 by (rule lay(3))
    have "cipher_encrypt (rt_cipher t) (message_key t) ?m2 pt n (mw_ciphertext w) ?k out (length ?g + 8) =
      (wr (wr m out ?g) (out + length ?g)
        (cipher_tag (rt_cipher t) (message_key t) (rd (wr m out ?g) out (length ?g))),
       Some (length ?g + 8))"
      using disj total pos by (subst cipher_encrypt_wr) (auto simp: Let_def m3)
    then show ?thesis by (simp add: ratchet_message_def ratchet_body_def wr_append)
  qed
  have c: "rt_cipher s = rt_cipher t" "rt_kdf_info s = rt_kdf_info t"
    by (simp_all add: t start_sender_chain_simps)
  have i: "mk_index (create_message_keys c inf) = ck_index c" for c inf
    by (simp add: create_message_keys_def)
  have "\<not> length random < encrypt_random_length s" "\<not> max_len < encrypt_output_length s n"
    using rnd len by simp_all
  then show ?thesis
    unfolding ratchet_encrypt_def Let_def t [symmetric] cipher_encrypt_ciphertext_length_def
    using e ct total by (simp add: advance_sender_def sender_chain_def message_key_def i c
        ol_nth_def ol_set_def)
qed

section \<open>Decrypting that message\<close>

text \<open>The reader \<open>decode_message\<close> makes of a message, and its fields.\<close>

definition message_reader :: "MessageReader \<Rightarrow> Ratchet \<Rightarrow> bytes \<Rightarrow> addr \<Rightarrow> MessageReader" where
  "message_reader junk t pt inp = junk
     \<lparr>mr_version := PROTOCOL_VERSION, mr_has_counter := True,
      mr_counter := ck_index (sc_chain_key (sender_chain t)),
      mr_input := inp, mr_input_length := length (ratchet_message t pt),
      mr_ratchet_key := Some (message_key_pos inp 32), mr_ratchet_key_length := 32,
      mr_ciphertext := Some (message_ct_pos inp 32 (ck_index (sc_chain_key (sender_chain t)))
        (aes_encrypt_cbc_length (length pt))),
      mr_ciphertext_length := aes_encrypt_cbc_length (length pt)\<rparr>"

lemma decode_ratchet_message:
  assumes st: "stored m inp (ratchet_message t pt)"
    and key: "length (c_public (sc_ratchet_key (sender_chain t))) = 32"
    and len: "aes_encrypt_cbc_length (length pt) < 2 ^ 64"
  shows "decode_message m junk inp (length (ratchet_message t pt)) 8 = message_reader junk t pt inp"
    "rd m (message_key_pos inp 32) 32 = c_public (sc_ratchet_key (sender_chain t))"
    "rd m (message_ct_pos inp 32 (ck_index (sc_chain_key (sender_chain t)))
        (aes_encrypt_cbc_length (length pt))) (aes_encrypt_cbc_length (length pt)) =
      cipher_body (rt_cipher t) (message_key t) pt"
proof -
  have b: "stored m inp (ratchet_body t pt)" using st by (simp add: ratchet_message_def)
  note b' = b [unfolded ratchet_body_def]
  have n: "length (ratchet_message t pt) = length (ratchet_body t pt) + 8"
    by (simp add: ratchet_message_def)
  show "decode_message m junk inp (length (ratchet_message t pt)) 8 = message_reader junk t pt inp"
    unfolding n ratchet_body_def
    by (subst decode_message_bytes [OF b' refl])
      (use key len in \<open>simp_all add: message_reader_def n ratchet_body_def\<close>)
  show "rd m (message_key_pos inp 32) 32 = c_public (sc_ratchet_key (sender_chain t))"
    "rd m (message_ct_pos inp 32 (ck_index (sc_chain_key (sender_chain t)))
        (aes_encrypt_cbc_length (length pt))) (aes_encrypt_cbc_length (length pt)) =
      cipher_body (rt_cipher t) (message_key t) pt"
    using message_fields [OF b'] key by (simp_all add: stored_rd)
qed

lemma message_ct_inside:
  "message_key_pos inp 32 + 32 \<le> message_ct_pos inp 32 c k" "inp \<le> message_key_pos inp 32"
  by (simp_all add: message_ct_pos_def message_key_pos_def)

lemma message_ct_end:
  assumes "length (c_public (sc_ratchet_key (sender_chain t))) = 32"
  shows "message_ct_pos inp 32 (ck_index (sc_chain_key (sender_chain t)))
      (aes_encrypt_cbc_length (length pt)) + aes_encrypt_cbc_length (length pt) + 8 =
    inp + length (ratchet_message t pt)"
  using assms
  by (simp add: ratchet_message_def ratchet_body_def message_bytes_def field_split message_ct_pos_def
      message_key_pos_def)

text \<open>With the right message key the message decrypts.\<close>

lemma verify_ratchet_message:
  assumes st: "stored m inp (ratchet_message t pt)"
    and key: "length (c_public (sc_ratchet_key (sender_chain t))) = 32"
    and len: "aes_encrypt_cbc_length (length pt) < 2 ^ 64" "aes_encrypt_cbc_length (length pt) \<le> max_len"
    and disj: "out + aes_encrypt_cbc_length (length pt) \<le> inp \<or> inp + length (ratchet_message t pt) \<le> out"
    and mk: "mk_key mk = message_key t"
  shows "verify_mac_and_decrypt (rt_cipher t) mk (message_reader junk t pt inp) m out max_len =
    (wr m out (pkcs7 pt), Some (length pt))"
proof -
  let ?c = "message_ct_pos inp 32 (ck_index (sc_chain_key (sender_chain t)))
      (aes_encrypt_cbc_length (length pt))"
  let ?k = "aes_encrypt_cbc_length (length pt)" and ?n = "length (ratchet_message t pt)"
  have n: "?n - 8 = length (ratchet_body t pt)" "8 \<le> ?n" by (simp_all add: ratchet_message_def)
  have tag: "rd m (inp + (?n - 8)) 8 = cipher_tag (rt_cipher t) (message_key t) (rd m inp (?n - 8))"
  proof -
    have "rd m inp (length (ratchet_body t pt)) = ratchet_body t pt"
      "rd m (inp + length (ratchet_body t pt)) 8 =
        cipher_tag (rt_cipher t) (message_key t) (ratchet_body t pt)"
      using st by (simp_all add: ratchet_message_def stored_rd)
    then show ?thesis unfolding n by simp
  qed
  have "cipher_decrypt (rt_cipher t) (message_key t) m inp ?n ?c ?k out max_len =
      (wr m out (pkcs7 pt), Some (length pt))"
  proof (rule cipher_decrypt_sealed [OF len(2) n(2) refl tag decode_ratchet_message(3) [OF st key len(1)]])
    show "out \<le> ?c \<or> ?c + ?k \<le> out"
      using disj message_ct_end [OF key, of inp pt] message_ct_inside(2) [of inp]
          message_ct_inside(1) [of inp "ck_index (sc_chain_key (sender_chain t))" "aes_encrypt_cbc_length (length pt)"] by auto
  qed
  then show ?thesis by (simp add: verify_mac_and_decrypt_def message_reader_def mk)
qed

lemma ratchet_decrypt_existing:
  assumes st: "stored m inp (ratchet_message t pt)"
    and key: "length (c_public (sc_ratchet_key (sender_chain t))) = 32"
    and len: "aes_encrypt_cbc_length (length pt) < 2 ^ 64" "aes_encrypt_cbc_length (length pt) \<le> max_len"
    and disj: "out + aes_encrypt_cbc_length (length pt) \<le> inp \<or> inp + length (ratchet_message t pt) \<le> out"
    and same: "rt_cipher s = rt_cipher t" "rt_kdf_info s = rt_kdf_info t"
    and ch: "find_chain (ol_size (rt_receiver_chains s)) (rt_receiver_chains s)
      (c_public (sc_ratchet_key (sender_chain t))) 0 = Some i"
      "c = ol_nth (rt_receiver_chains s) i"
    and step: "ck_index (rc_chain_key c) \<le> ck_index (sc_chain_key (sender_chain t))"
      "ck_index (sc_chain_key (sender_chain t)) - ck_index (rc_chain_key c) \<le> MAX_MESSAGE_GAP"
      "advance_chain_to (ck_index (sc_chain_key (sender_chain t))) (rc_chain_key c) =
        sc_chain_key (sender_chain t)"
  shows "ratchet_decrypt L junk s m inp (length (ratchet_message t pt)) out max_len =
    (s\<lparr>rt_receiver_chains := ol_set (rt_receiver_chains s) i
        (c\<lparr>rc_chain_key := advance_chain_key (sc_chain_key (sender_chain t))\<rparr>),
       rt_skipped_message_keys := snd (skip_keys (rt_kdf_info t)
         (ck_index (sc_chain_key (sender_chain t))) c (rt_skipped_message_keys s))\<rparr>,
     wr m out (pkcs7 pt), Some (length pt))"
proof -
  let ?k = "aes_encrypt_cbc_length (length pt)" and ?n = "length (ratchet_message t pt)"
  let ?r = "message_reader junk t pt inp"
  note d = decode_ratchet_message [OF st key len(1)]
  obtain c' sk where sk: "skip_keys (rt_kdf_info t) (ck_index (sc_chain_key (sender_chain t))) c
      (rt_skipped_message_keys s) = (c', sk)" by fastforce
  then have c': "c' = c\<lparr>rc_chain_key := sc_chain_key (sender_chain t)\<rparr>"
    using skip_keys_chain [of "rt_kdf_info t" "ck_index (sc_chain_key (sender_chain t))" c
        "rt_skipped_message_keys s"] step(3) by simp
  have v: "verify_mac_and_decrypt_for_existing_chain s (rc_chain_key c) ?r m out max_len =
      (wr m out (pkcs7 pt), Some (length pt))"
    using step verify_ratchet_message [OF st key len disj, of _ junk]
    by (simp add: verify_mac_and_decrypt_for_existing_chain_def message_reader_def same Let_def
        message_key_def leD)
  show ?thesis
    unfolding ratchet_decrypt_def cipher_mac_length_def MAC_LENGTH_def Let_def d(1)
    using len(2) step(1) v
    by (simp add: message_reader_def d(2) cipher_decrypt_max_plaintext_length_def ch(1) ch(2) [symmetric]
        same sk leD c')
qed

lemma ratchet_decrypt_new:
  assumes st: "stored m inp (ratchet_message t pt)"
    and key: "length (c_public (sc_ratchet_key (sender_chain t))) = 32"
    and len: "aes_encrypt_cbc_length (length pt) < 2 ^ 64" "aes_encrypt_cbc_length (length pt) \<le> max_len"
    and disj: "out + aes_encrypt_cbc_length (length pt) \<le> inp \<or> inp + length (ratchet_message t pt) \<le> out"
    and same: "rt_cipher s = rt_cipher t" "rt_kdf_info s = rt_kdf_info t"
    and ch: "find_chain (ol_size (rt_receiver_chains s)) (rt_receiver_chains s)
      (c_public (sc_ratchet_key (sender_chain t))) 0 = None"
    and sender: "\<not> ol_empty (rt_sender_chain s)"
    and ck: "create_chain_key L (rt_root_key s) (sc_ratchet_key (sender_chain s))
      (c_public (sc_ratchet_key (sender_chain t))) (rt_kdf_info t) = (root, ck)"
    and step: "ck_index (sc_chain_key (sender_chain t)) \<le> MAX_MESSAGE_GAP"
      "advance_chain_to (ck_index (sc_chain_key (sender_chain t))) ck = sc_chain_key (sender_chain t)"
    and ins: "ol_insert_begin MAX_RECEIVER_CHAINS (rt_receiver_chains s) = (cs, i)"
  shows "ratchet_decrypt L junk s m inp (length (ratchet_message t pt)) out max_len =
    (s\<lparr>rt_root_key := root,
       rt_receiver_chains := ol_set (ol_set cs i
           \<lparr>rc_ratchet_key = c_public (sc_ratchet_key (sender_chain t)), rc_chain_key = ck\<rparr>) i
         \<lparr>rc_ratchet_key = c_public (sc_ratchet_key (sender_chain t)),
          rc_chain_key = advance_chain_key (sc_chain_key (sender_chain t))\<rparr>,
       rt_sender_chain := ol_erase (ol_set (rt_sender_chain s) 0 zero_sender_chain) 0,
       rt_skipped_message_keys := snd (skip_keys (rt_kdf_info t)
         (ck_index (sc_chain_key (sender_chain t)))
         \<lparr>rc_ratchet_key = c_public (sc_ratchet_key (sender_chain t)), rc_chain_key = ck\<rparr>
         (rt_skipped_message_keys s))\<rparr>,
     wr m out (pkcs7 pt), Some (length pt))"
proof -
  let ?k = "aes_encrypt_cbc_length (length pt)" and ?n = "length (ratchet_message t pt)"
  let ?r = "message_reader junk t pt inp"
  let ?pub = "c_public (sc_ratchet_key (sender_chain t))"
  let ?chain = "\<lparr>rc_ratchet_key = ?pub, rc_chain_key = ck\<rparr>"
  note d = decode_ratchet_message [OF st key len(1)]
  have idx: "ck_index ck = 0" using ck by (auto simp: create_chain_key_def Let_def)
  obtain c' sk where sk: "skip_keys (rt_kdf_info t) (ck_index (sc_chain_key (sender_chain t))) ?chain
      (rt_skipped_message_keys s) = (c', sk)" by fastforce
  then have c': "c' = ?chain\<lparr>rc_chain_key := sc_chain_key (sender_chain t)\<rparr>"
    using skip_keys_chain [of "rt_kdf_info t" "ck_index (sc_chain_key (sender_chain t))" ?chain
        "rt_skipped_message_keys s"] step(2) by simp
  have pub: "rd (wr m out (pkcs7 pt)) (message_key_pos inp 32) 32 = ?pub"
    unfolding d(2) [symmetric] using disj message_ct_end [OF key, of inp pt] message_ct_inside(2) [of inp]
          message_ct_inside(1) [of inp "ck_index (sc_chain_key (sender_chain t))" "aes_encrypt_cbc_length (length pt)"]
    by (intro rd_wr_disj) auto
  have e: "verify_mac_and_decrypt_for_existing_chain s ck ?r m out max_len =
      (wr m out (pkcs7 pt), Some (length pt))"
    using step verify_ratchet_message [OF st key len disj, of _ junk]
    by (simp add: verify_mac_and_decrypt_for_existing_chain_def message_reader_def same Let_def
        message_key_def leD idx)
  have v: "verify_mac_and_decrypt_for_new_chain L s ?r m out max_len =
      (wr m out (pkcs7 pt), Some (length pt))"
    using e step(1) sender ck
    by (simp add: verify_mac_and_decrypt_for_new_chain_def message_reader_def d(2) same leD
        sender_chain_def)
  have nth: "ol_nth (ol_set cs i x) i = x" for x by (simp add: ol_nth_def ol_set_def)
  show ?thesis
    unfolding ratchet_decrypt_def cipher_mac_length_def MAC_LENGTH_def Let_def d(1)
    using len(2) v
    by (simp add: message_reader_def d(2) cipher_decrypt_max_plaintext_length_def ch same sk c' pub ins
        ck sender_chain_def [symmetric] nth)
qed

section \<open>Two parties in step\<close>

lemma find_chain_cong:
  "(\<And>k. take 32 (rc_ratchet_key (ol_nth cs k)) = take 32 (rc_ratchet_key (ol_nth cs' k))) \<Longrightarrow>
   find_chain n cs key i = find_chain n cs' key i"
  by (induction n arbitrary: i) simp_all

lemma find_chain_set_chain_key:
  "c = ol_nth cs i \<Longrightarrow>
   find_chain n (ol_set cs i (c\<lparr>rc_chain_key := k\<rparr>)) key j = find_chain n cs key j"
  by (rule find_chain_cong) (simp add: ol_nth_def ol_set_def)

text \<open>The receiver can decrypt the sender's next message on one of its chains.\<close>

definition in_step :: "Ratchet \<Rightarrow> Ratchet \<Rightarrow> bool" where
  "in_step a b \<longleftrightarrow>
     \<not> ol_empty (rt_sender_chain a) \<and> rt_cipher b = rt_cipher a \<and> rt_kdf_info b = rt_kdf_info a \<and>
     (case find_chain (ol_size (rt_receiver_chains b)) (rt_receiver_chains b)
             (c_public (sc_ratchet_key (sender_chain a))) 0 of
        None \<Rightarrow> False
      | Some i \<Rightarrow>
          let c = rc_chain_key (ol_nth (rt_receiver_chains b) i); k = sc_chain_key (sender_chain a)
          in ck_index c \<le> ck_index k \<and> ck_index k - ck_index c \<le> MAX_MESSAGE_GAP \<and>
             advance_chain_to (ck_index k) c = k)"

definition generated :: "crypto_lib \<Rightarrow> curve25519_key_pair \<Rightarrow> bool" where
  "generated L k \<longleftrightarrow>
     length (c_private k) = 32 \<and> c_public k = curve25519_donna L (c_private k) CURVE25519_BASEPOINT"

text \<open>The party that received last can start a new chain with the other's ratchet key.\<close>

definition can_reply :: "crypto_lib \<Rightarrow> Ratchet \<Rightarrow> Ratchet \<Rightarrow> bool" where
  "can_reply L b a \<longleftrightarrow>
     ol_empty (rt_sender_chain b) \<and> 0 < ol_end (rt_receiver_chains b) \<and>
     rc_ratchet_key (ol_nth (rt_receiver_chains b) 0) = c_public (sc_ratchet_key (sender_chain a)) \<and>
     \<not> ol_empty (rt_sender_chain a) \<and> generated L (sc_ratchet_key (sender_chain a)) \<and>
     rt_root_key b = rt_root_key a"

definition in_sync :: "crypto_lib \<Rightarrow> Ratchet \<Rightarrow> Ratchet \<Rightarrow> bool" where
  "in_sync L a b \<longleftrightarrow> wf_ratchet a \<and> wf_ratchet b \<and> in_step a b \<and> can_reply L b a"

lemma advance_sender_simps [simp]:
  "rt_cipher (advance_sender a) = rt_cipher a" "rt_kdf_info (advance_sender a) = rt_kdf_info a"
  "rt_root_key (advance_sender a) = rt_root_key a"
  "rt_receiver_chains (advance_sender a) = rt_receiver_chains a"
  "rt_skipped_message_keys (advance_sender a) = rt_skipped_message_keys a"
  "ol_empty (rt_sender_chain (advance_sender a)) = ol_empty (rt_sender_chain a)"
  "sender_chain (advance_sender a) =
     (sender_chain a)\<lparr>sc_chain_key := advance_chain_key (sc_chain_key (sender_chain a))\<rparr>"
  by (simp_all add: advance_sender_def ol_empty_def ol_set_def sender_chain_def ol_nth_def)

lemma valid_sender_chain: "wf_ratchet a \<Longrightarrow> valid_sender (sender_chain a)"
  by (simp add: wf_ratchet_def list_wf_def sender_chain_def ol_nth_def)

lemma advance_sender_wf: "wf_ratchet a \<Longrightarrow> wf_ratchet (advance_sender a)"
  using valid_sender_chain [of a]
  by (auto simp: wf_ratchet_def advance_sender_def valid_sender_def intro!: list_wf_set)

lemma sender_public_length: "wf_ratchet a \<Longrightarrow> length (c_public (sc_ratchet_key (sender_chain a))) = 32"
  using valid_sender_chain [of a] by (simp add: valid_sender_def wf_curve_pair_def)

lemma le_inc: "(n :: u32) \<noteq> - 1 \<Longrightarrow> n \<le> n + 1"
proof -
  assume "n \<noteq> - 1"
  then have "1 + n \<noteq> 0" by (metis add.commute add_eq_0_iff)
  then show ?thesis using unatSuc [of n] by (simp add: add.commute word_le_nat_alt)
qed

text \<open>A message that gets lost leaves the parties in step until the gap is too wide.\<close>

lemma in_step_lost:
  assumes "in_step a b"
    and i: "find_chain (ol_size (rt_receiver_chains b)) (rt_receiver_chains b)
      (c_public (sc_ratchet_key (sender_chain a))) 0 = Some i"
    and gap: "ck_index (sc_chain_key (sender_chain a)) -
      ck_index (rc_chain_key (ol_nth (rt_receiver_chains b) i)) < MAX_MESSAGE_GAP"
      "ck_index (sc_chain_key (sender_chain a)) \<noteq> - 1"
  shows "in_step (advance_sender a) b"
proof -
  let ?c = "rc_chain_key (ol_nth (rt_receiver_chains b) i)" and ?k = "sc_chain_key (sender_chain a)"
  have le: "ck_index ?c \<le> ck_index ?k" and adv: "advance_chain_to (ck_index ?k) ?c = ?k"
    using assms(1) i by (simp_all add: in_step_def Let_def)
  have "ck_index ?k \<le> ck_index ?k + 1" using gap(2)
    by (rule le_inc)
  then have "ck_index ?c \<le> ck_index ?k + 1" using le by (rule order.trans [rotated])
  moreover have "ck_index ?k + 1 - ck_index ?c \<le> MAX_MESSAGE_GAP"
    using inc_le [OF gap(1)] by (simp add: algebra_simps)
  ultimately show ?thesis
    using assms(1) i advance_chain_to_step [OF adv le gap(2)] by (simp add: in_step_def Let_def)
qed

lemma in_step_delivered:
  assumes step: "in_step a b" and wf: "wf_ratchet a"
    and st: "stored m inp (ratchet_message a pt)"
    and len: "aes_encrypt_cbc_length (length pt) < 2 ^ 64" "aes_encrypt_cbc_length (length pt) \<le> max_len"
    and disj: "out + aes_encrypt_cbc_length (length pt) \<le> inp \<or> inp + length (ratchet_message a pt) \<le> out"
  obtains b' where
    "ratchet_decrypt L junk b m inp (length (ratchet_message a pt)) out max_len =
      (b', wr m out (pkcs7 pt), Some (length pt))"
    "in_step (advance_sender a) b'" "rt_sender_chain b' = rt_sender_chain b"
    "rt_root_key b' = rt_root_key b" "ol_end (rt_receiver_chains b') = ol_end (rt_receiver_chains b)"
    "\<forall>k. rc_ratchet_key (ol_nth (rt_receiver_chains b') k) = rc_ratchet_key (ol_nth (rt_receiver_chains b) k)"
proof -
  let ?pub = "c_public (sc_ratchet_key (sender_chain a))" and ?k = "sc_chain_key (sender_chain a)"
  obtain i where i: "find_chain (ol_size (rt_receiver_chains b)) (rt_receiver_chains b) ?pub 0 = Some i"
    and same: "rt_cipher b = rt_cipher a" "rt_kdf_info b = rt_kdf_info a"
    and s: "ck_index (rc_chain_key (ol_nth (rt_receiver_chains b) i)) \<le> ck_index ?k"
      "ck_index ?k - ck_index (rc_chain_key (ol_nth (rt_receiver_chains b) i)) \<le> MAX_MESSAGE_GAP"
      "advance_chain_to (ck_index ?k) (rc_chain_key (ol_nth (rt_receiver_chains b) i)) = ?k"
    using step by (auto simp: in_step_def Let_def split: option.splits)
  let ?c = "ol_nth (rt_receiver_chains b) i"
  let ?cs = "ol_set (rt_receiver_chains b) i (?c\<lparr>rc_chain_key := advance_chain_key ?k\<rparr>)"
  define b' where "b' = b\<lparr>rt_receiver_chains := ?cs,
    rt_skipped_message_keys := snd (skip_keys (rt_kdf_info a) (ck_index ?k) ?c (rt_skipped_message_keys b))\<rparr>"
  have dec: "ratchet_decrypt L junk b m inp (length (ratchet_message a pt)) out max_len =
      (b', wr m out (pkcs7 pt), Some (length pt))"
    unfolding b'_def
    by (rule ratchet_decrypt_existing [OF st sender_public_length [OF wf] len disj same i refl s])
  have "find_chain (ol_size ?cs) ?cs ?pub 0 = Some i" "rc_chain_key (ol_nth ?cs i) = advance_chain_key ?k"
    using i by (simp_all add: find_chain_set_chain_key) (simp_all add: ol_size_def ol_set_def ol_nth_def)
  then have "in_step (advance_sender a) b'"
    using step same by (simp add: in_step_def b'_def advance_chain_to_self)
  then show thesis
    by (rule that [OF dec]) (simp_all add: b'_def ol_set_def ol_nth_def)
qed

lemma in_sync_delivered:
  assumes sync: "in_sync L a b"
    and st: "stored m inp (ratchet_message a pt)"
    and len: "aes_encrypt_cbc_length (length pt) < 2 ^ 64" "aes_encrypt_cbc_length (length pt) \<le> max_len"
    and disj: "out + aes_encrypt_cbc_length (length pt) \<le> inp \<or> inp + length (ratchet_message a pt) \<le> out"
  obtains b' where
    "ratchet_decrypt L junk b m inp (length (ratchet_message a pt)) out max_len =
      (b', wr m out (pkcs7 pt), Some (length pt))"
    "in_sync L (advance_sender a) b'"
proof -
  have wf: "wf_ratchet a" "wf_ratchet b" and step: "in_step a b" and reply: "can_reply L b a"
    using sync by (simp_all add: in_sync_def)
  obtain b' where dec: "ratchet_decrypt L junk b m inp (length (ratchet_message a pt)) out max_len =
      (b', wr m out (pkcs7 pt), Some (length pt))"
    and b': "in_step (advance_sender a) b'" "rt_sender_chain b' = rt_sender_chain b"
    "rt_root_key b' = rt_root_key b" "ol_end (rt_receiver_chains b') = ol_end (rt_receiver_chains b)"
    "\<forall>k. rc_ratchet_key (ol_nth (rt_receiver_chains b') k) = rc_ratchet_key (ol_nth (rt_receiver_chains b) k)"
    by (rule in_step_delivered [OF step wf(1) st len disj, where L = L and junk = junk])
  have "wf_ratchet b'" by (rule ratchet_decrypt_wf [OF wf(2) dec])
  with b' reply advance_sender_wf [OF wf(1)] have "in_sync L (advance_sender a) b'"
    by (simp add: in_sync_def can_reply_def)
  with dec show thesis by (rule that)
qed

text \<open>A new chain: both sides derive the same keys by the Diffie-Hellman equation.\<close>

lemma new_chain_agrees:
  assumes L: "crypto_lib_ok L" and reply: "can_reply L b a" and r: "length r = 32"
    and info: "rt_kdf_info b = rt_kdf_info a"
  shows "create_chain_key L (rt_root_key b) (curve25519_generate_key L r)
      (rc_ratchet_key (ol_nth (rt_receiver_chains b) 0)) (rt_kdf_info b) =
    create_chain_key L (rt_root_key a) (sc_ratchet_key (sender_chain a))
      (c_public (curve25519_generate_key L r)) (rt_kdf_info a)"
proof -
  have "curve25519_shared_secret L (curve25519_generate_key L r) (c_public (sc_ratchet_key (sender_chain a)))
    = curve25519_shared_secret L (sc_ratchet_key (sender_chain a)) (c_public (curve25519_generate_key L r))"
    using L reply r
    by (simp add: curve25519_shared_secret_def curve25519_generate_key_def Let_def can_reply_def
        generated_def crypto_lib_ok_def)
  then show ?thesis using reply by (simp add: create_chain_key_def can_reply_def info)
qed

lemma in_sync_reply:
  assumes L: "crypto_lib_ok L" and sync: "in_sync L a b" and r: "length r = 32"
    and t: "t = start_sender_chain L b r"
    and new: "find_chain (ol_size (rt_receiver_chains a)) (rt_receiver_chains a)
      (c_public (curve25519_generate_key L r)) 0 = None"
    and st: "stored m inp (ratchet_message t pt)"
    and len: "aes_encrypt_cbc_length (length pt) < 2 ^ 64" "aes_encrypt_cbc_length (length pt) \<le> max_len"
    and disj: "out + aes_encrypt_cbc_length (length pt) \<le> inp \<or> inp + length (ratchet_message t pt) \<le> out"
  obtains a' where
    "ratchet_decrypt L junk a m inp (length (ratchet_message t pt)) out max_len =
      (a', wr m out (pkcs7 pt), Some (length pt))"
    "in_sync L (advance_sender t) a'" "wf_ratchet t"
proof -
  have wf: "wf_ratchet a" "wf_ratchet b" and step: "in_step a b" and reply: "can_reply L b a"
    using sync by (simp_all add: in_sync_def)
  have same: "rt_cipher a = rt_cipher t" "rt_kdf_info a = rt_kdf_info t"
    using step by (simp_all add: in_step_def t start_sender_chain_simps)
  have empty: "ol_empty (rt_sender_chain b)" and ne: "\<not> ol_empty (rt_sender_chain a)"
    using reply by (simp_all add: can_reply_def)
  obtain root ck where key: "create_chain_key L (rt_root_key b) (curve25519_generate_key L r)
      (rc_ratchet_key (ol_nth (rt_receiver_chains b) 0)) (rt_kdf_info b) = (root, ck)" by fastforce
  note s = start_sender_chain_new [OF empty key, folded t]
  have pub: "c_public (sc_ratchet_key (sender_chain t)) = c_public (curve25519_generate_key L r)"
    "sc_chain_key (sender_chain t) = ck"
    by (simp_all add: s(2))
  have wft: "wf_ratchet t"
    unfolding t using reply r
    by (intro start_sender_chain_wf [OF wf(2) L]) (auto simp: encrypt_random_length_def can_reply_def)
  have key': "create_chain_key L (rt_root_key a) (sc_ratchet_key (sender_chain a))
      (c_public (sc_ratchet_key (sender_chain t))) (rt_kdf_info t) = (root, ck)"
    using new_chain_agrees [OF L reply r] key step same by (simp add: pub in_step_def)
  obtain cs i where ins: "ol_insert_begin MAX_RECEIVER_CHAINS (rt_receiver_chains a) = (cs, i)"
    by fastforce
  have size: "ol_end (rt_receiver_chains a) \<le> MAX_RECEIVER_CHAINS"
    using wf(1) by (simp add: wf_ratchet_def list_wf_def)
  have i: "i = 0" "0 < ol_end cs"
    using ol_insert_pos [of 0 "rt_receiver_chains a" MAX_RECEIVER_CHAINS]
      ol_insert_end [OF size, of 0] ins size
    by (simp_all add: ol_insert_begin_def MAX_RECEIVER_CHAINS_def)
  let ?new = "\<lparr>rc_ratchet_key = c_public (sc_ratchet_key (sender_chain t)), rc_chain_key = ck\<rparr>"
  let ?adv = "?new\<lparr>rc_chain_key := advance_chain_key ck\<rparr>"
  define a' where "a' = a\<lparr>rt_root_key := root,
    rt_receiver_chains := ol_set (ol_set cs i ?new) i ?adv,
    rt_sender_chain := ol_erase (ol_set (rt_sender_chain a) 0 zero_sender_chain) 0,
    rt_skipped_message_keys := snd (skip_keys (rt_kdf_info t) (ck_index ck) ?new
      (rt_skipped_message_keys a))\<rparr>"
  have dec: "ratchet_decrypt L junk a m inp (length (ratchet_message t pt)) out max_len =
      (a', wr m out (pkcs7 pt), Some (length pt))"
    using ratchet_decrypt_new [OF st sender_public_length [OF wft] len disj same _ ne key' _ _ ins] new
    by (simp add: pub s(4) a'_def advance_chain_to_self)
  have "ol_end (rt_sender_chain a) \<le> 1" using wf(1) by (simp add: wf_ratchet_def list_wf_def)
  then have sender: "ol_empty (rt_sender_chain a')" by (simp add: a'_def ol_empty_def ol_set_def)
  have chain: "ol_nth (rt_receiver_chains a') 0 = ?adv" "0 < ol_end (rt_receiver_chains a')"
    using i by (simp_all add: a'_def ol_nth_def ol_set_def)
  have len_pub: "length (c_public (sc_ratchet_key (sender_chain t))) = 32"
    by (rule sender_public_length [OF wft])
  have "find_chain (ol_size (rt_receiver_chains a')) (rt_receiver_chains a')
      (c_public (sc_ratchet_key (sender_chain t))) 0 = Some 0"
    using chain len_pub by (cases "ol_size (rt_receiver_chains a')") (simp_all add: ol_size_def)
  then have "in_step (advance_sender t) a'"
    using s(1) same chain pub by (simp add: in_step_def advance_chain_to_self a'_def)
  moreover have "can_reply L a' (advance_sender t)"
    using sender chain s r
    by (simp add: can_reply_def generated_def a'_def curve25519_generate_key_def Let_def)
  moreover have "wf_ratchet a'" by (rule ratchet_decrypt_wf [OF wf(1) dec])
  ultimately have "in_sync L (advance_sender t) a'"
    using advance_sender_wf [OF wft] by (simp add: in_sync_def)
  with dec show thesis by (rule that) (rule wft)
qed

section \<open>Skipped message keys\<close>

text \<open>
  The keys of the messages that are jumped over are put in front of the list, the newest first, and
  the oldest keys fall out of its forty places.
\<close>

definition skipped_key :: "KdfInfo \<Rightarrow> bytes \<Rightarrow> ChainKey \<Rightarrow> SkippedMessageKey" where
  "skipped_key info key c =
     \<lparr>sm_ratchet_key = key, sm_message_key = create_message_keys c info\<rparr>"

definition chain_segment :: "ChainKey \<Rightarrow> nat \<Rightarrow> ChainKey list" where
  "chain_segment c n = map (\<lambda>j. (advance_chain_key ^^ j) c) [0..<n]"

lemma chain_segment_0 [simp]: "chain_segment c 0 = []"
  by (simp add: chain_segment_def)

lemma chain_segment_Suc: "chain_segment c (Suc n) = c # chain_segment (advance_chain_key c) n"
  by (simp add: chain_segment_def upt_conv_Cons funpow_swap1 map_Suc_upt [symmetric] del: upt_Suc)

lemma items_skip_keys:
  assumes "ol_end sk \<le> MAX_SKIPPED_MESSAGE_KEYS" "ck_index (rc_chain_key ch) \<le> n"
  shows "items (snd (skip_keys info n ch sk)) =
    take MAX_SKIPPED_MESSAGE_KEYS
      (rev (map (skipped_key info (rc_ratchet_key ch))
          (chain_segment (rc_chain_key ch) (unat (n - ck_index (rc_chain_key ch))))) @ items sk)"
  using assms
proof (induction info n ch sk rule: skip_keys.induct)
  case (1 info n ch sk)
  let ?c = "rc_chain_key ch" and ?M = MAX_SKIPPED_MESSAGE_KEYS
  have M: "0 < ?M" by (simp add: MAX_SKIPPED_MESSAGE_KEYS_def)
  show ?case
  proof (cases "ck_index ?c < n")
    case True
    let ?key = "skipped_key info (rc_ratchet_key ch) ?c"
    let ?ch = "ch\<lparr>rc_chain_key := advance_chain_key ?c\<rparr>"
    obtain sk' p where i: "ol_insert_begin ?M sk = (sk', p)" by fastforce
    have set: "items (ol_set sk' p ?key) = take ?M (?key # items sk)"
      using items_insert_begin_value [OF 1(2) M, of ?key] i
      by (simp add: ol_insert_value_def ol_insert_begin_def)
    have "ol_end (ol_set sk' p ?key) \<le> ?M"
      using ol_insert_end [OF 1(2), of 0] i by (simp add: ol_insert_begin_def ol_set_def)
    note IH = 1(1) [OF True i [symmetric] refl refl refl refl,
        folded skipped_key_def, OF this]
    have d: "unat (n - ck_index ?c) = Suc (unat (n - (ck_index ?c + 1)))"
      using True unatSuc [of "n - ck_index ?c - 1"] by (simp add: diff_diff_eq)
    have "items (snd (skip_keys info n ch sk)) = items (snd (skip_keys info n ?ch (ol_set sk' p ?key)))"
      using True i by (subst skip_keys.simps) (simp add: skipped_key_def)
    also have "\<dots> = take ?M (rev (map (skipped_key info (rc_ratchet_key ch))
        (chain_segment (advance_chain_key ?c) (unat (n - (ck_index ?c + 1))))) @ take ?M (?key # items sk))"
      using IH inc_le [OF True] by (simp add: set)
    finally show ?thesis
      by (simp add: d chain_segment_Suc take_append min_def)
  next
    case False
    then show ?thesis using 1(2,3) by (simp add: skip_keys.simps)
  qed
qed

lemma try_skipped_other:
  assumes "\<forall>j. i \<le> j \<and> j < i + n \<longrightarrow>
    \<not> (mr_counter r = mk_index (sm_message_key (ol_nth (rt_skipped_message_keys s) j)) \<and>
       take 32 (sm_ratchet_key (ol_nth (rt_skipped_message_keys s) j)) = rd m (the (mr_ratchet_key r)) 32)"
  shows "try_skipped n s r m out k i = (m, None)"
  using assms
proof (induction n arbitrary: i)
  case (Suc n)
  have "try_skipped n s r m out k (i + 1) = (m, None)"
    by (rule Suc.IH) (use Suc.prems in auto)
  moreover have "\<not> (mr_counter r = mk_index (sm_message_key (ol_nth (rt_skipped_message_keys s) i)) \<and>
       take 32 (sm_ratchet_key (ol_nth (rt_skipped_message_keys s) i)) = rd m (the (mr_ratchet_key r)) 32)"
    using Suc.prems by simp
  ultimately show ?case by (auto simp: Let_def)
qed simp

lemma try_skipped_found:
  assumes "i \<le> p" "p < i + n"
    "\<forall>j. i \<le> j \<and> j < p \<longrightarrow>
    \<not> (mr_counter r = mk_index (sm_message_key (ol_nth (rt_skipped_message_keys s) j)) \<and>
       take 32 (sm_ratchet_key (ol_nth (rt_skipped_message_keys s) j)) = rd m (the (mr_ratchet_key r)) 32)"
    "mr_counter r = mk_index (sm_message_key (ol_nth (rt_skipped_message_keys s) p))"
    "take 32 (sm_ratchet_key (ol_nth (rt_skipped_message_keys s) p)) = rd m (the (mr_ratchet_key r)) 32"
    "verify_mac_and_decrypt (rt_cipher s) (sm_message_key (ol_nth (rt_skipped_message_keys s) p)) r m
      out k = (m', Some len)"
  shows "try_skipped n s r m out k i = (m', Some (p, len))"
  using assms
proof (induction n arbitrary: i)
  case (Suc n)
  show ?case
  proof (cases "i = p")
    case False
    then have "try_skipped n s r m out k (i + 1) = (m', Some (p, len))"
      by (intro Suc.IH) (use Suc.prems in auto)
    moreover have "\<not> (mr_counter r = mk_index (sm_message_key (ol_nth (rt_skipped_message_keys s) i)) \<and>
       take 32 (sm_ratchet_key (ol_nth (rt_skipped_message_keys s) i)) = rd m (the (mr_ratchet_key r)) 32)"
      using Suc.prems False by simp
    ultimately show ?thesis by (auto simp: Let_def)
  qed (use Suc.prems in simp)
qed simp

section \<open>Late and repeated messages\<close>

lemma ratchet_decrypt_late:
  assumes st: "stored m inp (ratchet_message t pt)"
    and key: "length (c_public (sc_ratchet_key (sender_chain t))) = 32"
    and len: "aes_encrypt_cbc_length (length pt) < 2 ^ 64" "aes_encrypt_cbc_length (length pt) \<le> max_len"
    and disj: "out + aes_encrypt_cbc_length (length pt) \<le> inp \<or> inp + length (ratchet_message t pt) \<le> out"
    and same: "rt_cipher s = rt_cipher t" "rt_kdf_info s = rt_kdf_info t"
    and ch: "find_chain (ol_size (rt_receiver_chains s)) (rt_receiver_chains s)
      (c_public (sc_ratchet_key (sender_chain t))) 0 = Some i"
    and past: "ck_index (sc_chain_key (sender_chain t)) < ck_index (rc_chain_key (ol_nth (rt_receiver_chains s) i))"
    and p: "p < length (items (rt_skipped_message_keys s))"
      "items (rt_skipped_message_keys s) ! p =
        skipped_key (rt_kdf_info t) (c_public (sc_ratchet_key (sender_chain t))) (sc_chain_key (sender_chain t))"
    and first: "\<forall>j<p. \<not> (mk_index (sm_message_key (items (rt_skipped_message_keys s) ! j)) =
          ck_index (sc_chain_key (sender_chain t)) \<and>
        take 32 (sm_ratchet_key (items (rt_skipped_message_keys s) ! j)) = c_public (sc_ratchet_key (sender_chain t)))"
  shows "ratchet_decrypt L junk s m inp (length (ratchet_message t pt)) out max_len =
    (s\<lparr>rt_skipped_message_keys := ol_erase (ol_set (rt_skipped_message_keys s) p zero_skipped) p\<rparr>,
     wr m out (pkcs7 pt), Some (length pt))"
proof -
  let ?r = "message_reader junk t pt inp"
  note d = decode_ratchet_message [OF st key len(1)]
  have nth: "items (rt_skipped_message_keys s) ! j = ol_nth (rt_skipped_message_keys s) j"
    if "j < ol_end (rt_skipped_message_keys s)" for j using that by (simp add: ol_nth_def)
  have i: "mk_index (create_message_keys c inf) = ck_index c" for c inf
    by (simp add: create_message_keys_def)
  have sk: "ol_nth (rt_skipped_message_keys s) p = skipped_key (rt_kdf_info t)
      (c_public (sc_ratchet_key (sender_chain t))) (sc_chain_key (sender_chain t))"
    using p nth by simp
  have v: "verify_mac_and_decrypt (rt_cipher s) (sm_message_key (ol_nth (rt_skipped_message_keys s) p)) ?r m
      out max_len = (wr m out (pkcs7 pt), Some (length pt))"
    unfolding same(1) sk skipped_key_def
    by (rule verify_ratchet_message [OF st key len disj]) (simp add: message_key_def)
  have "try_skipped (ol_size (rt_skipped_message_keys s)) s ?r m out max_len 0 =
      (wr m out (pkcs7 pt), Some (p, length pt))"
  proof (rule try_skipped_found [OF _ _ _ _ _ v])
    show "p < 0 + ol_size (rt_skipped_message_keys s)" using p by (simp add: ol_size_def)
    show "\<forall>j. 0 \<le> j \<and> j < p \<longrightarrow>
      \<not> (mr_counter ?r = mk_index (sm_message_key (ol_nth (rt_skipped_message_keys s) j)) \<and>
         take 32 (sm_ratchet_key (ol_nth (rt_skipped_message_keys s) j)) = rd m (the (mr_ratchet_key ?r)) 32)"
      using first p(1) nth by (auto simp: message_reader_def d(2))
  qed (use key in \<open>simp_all add: message_reader_def d(2) sk skipped_key_def i\<close>)
  then show ?thesis
    unfolding ratchet_decrypt_def cipher_mac_length_def MAC_LENGTH_def Let_def d(1)
    using len(2) past
    by (simp add: message_reader_def d(2) cipher_decrypt_max_plaintext_length_def ch)
qed

lemma ratchet_decrypt_replay:
  assumes st: "stored m inp (ratchet_message t pt)"
    and key: "length (c_public (sc_ratchet_key (sender_chain t))) = 32"
    and len: "aes_encrypt_cbc_length (length pt) < 2 ^ 64"
    and same: "rt_cipher s = rt_cipher t"
    and ch: "find_chain (ol_size (rt_receiver_chains s)) (rt_receiver_chains s)
      (c_public (sc_ratchet_key (sender_chain t))) 0 = Some i"
    and past: "ck_index (sc_chain_key (sender_chain t)) < ck_index (rc_chain_key (ol_nth (rt_receiver_chains s) i))"
    and none: "\<forall>k\<in>set (items (rt_skipped_message_keys s)).
      \<not> (mk_index (sm_message_key k) = ck_index (sc_chain_key (sender_chain t)) \<and>
         take 32 (sm_ratchet_key k) = c_public (sc_ratchet_key (sender_chain t)))"
  shows "\<exists>e. ratchet_decrypt L junk s m inp (length (ratchet_message t pt)) out max_len =
    (s\<lparr>rt_last_error := e\<rparr>, m, None)"
proof -
  let ?r = "message_reader junk t pt inp"
  note d = decode_ratchet_message [OF st key len(1)]
  have "try_skipped (ol_size (rt_skipped_message_keys s)) s ?r m out max_len 0 = (m, None)"
  proof (rule try_skipped_other, intro allI impI)
    fix j assume "0 \<le> j \<and> j < 0 + ol_size (rt_skipped_message_keys s)"
    then have "ol_nth (rt_skipped_message_keys s) j \<in> set (items (rt_skipped_message_keys s))"
      by (simp add: items_def ol_size_def ol_nth_def)
    with none show "\<not> (mr_counter ?r = mk_index (sm_message_key (ol_nth (rt_skipped_message_keys s) j)) \<and>
         take 32 (sm_ratchet_key (ol_nth (rt_skipped_message_keys s) j)) = rd m (the (mr_ratchet_key ?r)) 32)"
      by (auto simp: message_reader_def d(2))
  qed
  then show ?thesis
    unfolding ratchet_decrypt_def cipher_mac_length_def MAC_LENGTH_def Let_def d(1)
    using past by (auto simp: message_reader_def d(2) ch)
qed

section \<open>Conversations\<close>

text \<open>One message: the first party encrypts, the second decrypts what is in the output buffer.\<close>

definition exchange ::
  "crypto_lib \<Rightarrow> MessageReader \<Rightarrow> Ratchet \<Rightarrow> Ratchet \<Rightarrow> mem \<Rightarrow> addr \<Rightarrow> nat \<Rightarrow> bytes \<Rightarrow> addr \<Rightarrow> addr \<Rightarrow>
   Ratchet \<times> Ratchet \<times> mem \<times> nat option" where
  "exchange L junk a b m pt n random out buf =
     (case ratchet_encrypt L a m pt n random out (encrypt_output_length a n) of
        (a', m, None) \<Rightarrow> (a', b, m, None)
      | (a', m, Some len) \<Rightarrow>
          let (b', m, r) = ratchet_decrypt L junk b m out len buf (aes_encrypt_cbc_length n)
          in (a', b', m, r))"

text \<open>
  The buffers do not overlap, and a party that starts a new chain has 32 random bytes from which a
  key pair results that the other party does not know yet.
\<close>

definition exchange_ok ::
  "crypto_lib \<Rightarrow> Ratchet \<Rightarrow> Ratchet \<Rightarrow> addr \<Rightarrow> nat \<Rightarrow> bytes \<Rightarrow> addr \<Rightarrow> addr \<Rightarrow> bool" where
  "exchange_ok L a b pt n random out buf \<longleftrightarrow>
     aes_encrypt_cbc_length n < 2 ^ 64 \<and>
     (pt + n \<le> out \<or> out + encrypt_output_length a n \<le> pt) \<and>
     (buf + aes_encrypt_cbc_length n \<le> out \<or> out + encrypt_output_length a n \<le> buf) \<and>
     (ol_empty (rt_sender_chain a) \<longrightarrow> length random = 32 \<and>
        find_chain (ol_size (rt_receiver_chains b)) (rt_receiver_chains b)
          (c_public (curve25519_generate_key L random)) 0 = None)"

inductive conversation :: "crypto_lib \<Rightarrow> Ratchet \<Rightarrow> Ratchet \<Rightarrow> bool" for L where
  start: "length random = 32 \<Longrightarrow> kp = curve25519_generate_key L random \<Longrightarrow>
    conversation L (initialise_as_alice (new_ratchet info c) secret kp)
      (initialise_as_bob (new_ratchet info c) secret (c_public kp))"
| left: "conversation L a b \<Longrightarrow> exchange_ok L a b pt n random out buf \<Longrightarrow>
    exchange L junk a b m pt n random out buf = (a', b', m', r) \<Longrightarrow> conversation L a' b'"
| right: "conversation L a b \<Longrightarrow> exchange_ok L b a pt n random out buf \<Longrightarrow>
    exchange L junk b a m pt n random out buf = (b', a', m', r) \<Longrightarrow> conversation L a' b'"

lemma initial_in_sync:
  assumes L: "crypto_lib_ok L" and r: "length random = 32" "kp = curve25519_generate_key L random"
  shows "in_sync L (initialise_as_alice (new_ratchet info c) secret kp)
    (initialise_as_bob (new_ratchet info c) secret (c_public kp))"
proof -
  have kp: "wf_curve_pair kp" "generated L kp"
    using L r by (simp_all add: wf_curve_pair_def generated_def curve25519_generate_key_def Let_def
        crypto_lib_ok_def CURVE25519_BASEPOINT_def)
  let ?s = "crypto_hkdf_sha256 secret None (root_info info) 64"
  have len: "length ?s = 64" by simp
  let ?a = "initialise_as_alice (new_ratchet info c) secret kp"
  let ?b = "initialise_as_bob (new_ratchet info c) secret (c_public kp)"
  note defs = initialise_as_alice_def initialise_as_bob_def new_ratchet_def Let_def ol_insert_begin_def
    ol_insert_def ol_new_def ol_set_def MAX_RECEIVER_CHAINS_def OLM_SHARED_KEY_LENGTH_def
  have "wf_ratchet ?a" "wf_ratchet ?b"
    using kp(1) len by (auto simp: wf_ratchet_def defs list_wf_def valid_sender_def valid_receiver_def
        valid_chain_key_def wf_curve_pair_def MAX_SKIPPED_MESSAGE_KEYS_def zero_sender_chain_def
        zero_receiver_chain_def zero_chain_key_def zero_skipped_def valid_skipped_def
        )
  moreover have "in_step ?a ?b"
    using kp(1) by (simp add: in_step_def defs ol_empty_def ol_size_def ol_nth_def sender_chain_def
        wf_curve_pair_def advance_chain_to_self MAX_MESSAGE_GAP_def)
  moreover have "can_reply L ?b ?a"
    using kp(2) by (simp add: can_reply_def defs ol_empty_def ol_size_def ol_nth_def sender_chain_def)
  ultimately show ?thesis by (simp add: in_sync_def)
qed

text \<open>Whoever of two ratchets in sync writes next, the other one decrypts the message, wherever it is.\<close>

lemma sent_message_delivered:
  assumes L: "crypto_lib_ok L" and sync: "in_sync L a b \<or> in_sync L b a"
    and fresh: "ol_empty (rt_sender_chain a) \<longrightarrow> length random = 32 \<and>
      find_chain (ol_size (rt_receiver_chains b)) (rt_receiver_chains b)
        (c_public (curve25519_generate_key L random)) 0 = None"
    and t: "t = start_sender_chain L a random"
    and len: "aes_encrypt_cbc_length (length msg) < 2 ^ 64" "aes_encrypt_cbc_length (length msg) \<le> max_len"
    and st: "stored m inp (ratchet_message t msg)"
    and disj: "buf + aes_encrypt_cbc_length (length msg) \<le> inp \<or> inp + length (ratchet_message t msg) \<le> buf"
  shows "\<exists>b'. ratchet_decrypt L junk b m inp (length (ratchet_message t msg)) buf max_len =
      (b', wr m buf (pkcs7 msg), Some (length msg)) \<and> in_sync L (advance_sender t) b'"
proof (cases "ol_empty (rt_sender_chain a)")
  case True
  then have "in_sync L b a" using sync by (auto simp: in_sync_def in_step_def)
  moreover have "length random = 32" "find_chain (ol_size (rt_receiver_chains b)) (rt_receiver_chains b)
      (c_public (curve25519_generate_key L random)) 0 = None"
    using fresh True by simp_all
  ultimately show ?thesis
    using in_sync_reply [OF L _ _ t _ st len disj, of b junk] by metis
next
  case False
  then have "in_sync L a b" using sync by (auto simp: in_sync_def can_reply_def)
  moreover have "t = a" using False by (simp add: t start_sender_chain_simps)
  ultimately show ?thesis
    using in_sync_delivered [OF _ st [unfolded \<open>t = a\<close>] len disj [unfolded \<open>t = a\<close>], of L b junk] by metis
qed

lemma sender_ready:
  assumes L: "crypto_lib_ok L" and sync: "in_sync L a b \<or> in_sync L b a"
    and fresh: "ol_empty (rt_sender_chain a) \<longrightarrow> length random = 32"
  shows "wf_ratchet (start_sender_chain L a random)" "encrypt_random_length a \<le> length random"
  using sync fresh
  by (auto simp: in_sync_def encrypt_random_length_def can_reply_def
      in_step_def start_sender_chain_simps intro!: start_sender_chain_wf [OF _ L])

lemma exchange_in_sync:
  assumes L: "crypto_lib_ok L" and ok: "exchange_ok L a b pt n random out buf"
    and sync: "in_sync L a b \<or> in_sync L b a" and st: "stored m pt msg" "length msg = n"
  shows "\<exists>a' b' m'. exchange L junk a b m pt n random out buf = (a', b', m', Some n) \<and>
    in_sync L a' b' \<and> stored m' buf msg"
proof -
  let ?len = "encrypt_output_length a n" and ?k = "aes_encrypt_cbc_length n"
  define t where "t = start_sender_chain L a random"
  have fresh: "ol_empty (rt_sender_chain a) \<longrightarrow> length random = 32 \<and>
      find_chain (ol_size (rt_receiver_chains b)) (rt_receiver_chains b)
        (c_public (curve25519_generate_key L random)) 0 = None"
    using ok by (simp add: exchange_ok_def)
  note ready = sender_ready [OF L sync, of random, folded t_def]
  have wft: "wf_ratchet t" and rnd: "encrypt_random_length a \<le> length random" using ready fresh by blast+
  have enc: "ratchet_encrypt L a m pt n random out ?len =
      (advance_sender t, wr m out (ratchet_message t msg), Some ?len)"
    using ratchet_encrypt_wr [OF t_def wft rnd order.refl, of pt n out m] ok st
    by (simp add: exchange_ok_def stored_rd)
  have lm: "length (ratchet_message t msg) = ?len"
    using length_ratchet_message [OF wft, of msg] start_sender_chain_nonempty [of L a random]
      start_sender_chain_output_length [of L a random n] st(2) by (simp add: t_def)
  let ?m1 = "wr m out (ratchet_message t msg)"
  have len: "aes_encrypt_cbc_length (length msg) < 2 ^ 64" "aes_encrypt_cbc_length (length msg) \<le> ?k"
    "buf + aes_encrypt_cbc_length (length msg) \<le> out \<or> out + length (ratchet_message t msg) \<le> buf"
    using ok st(2) by (simp_all add: exchange_ok_def lm)
  obtain b' where "ratchet_decrypt L junk b ?m1 out (length (ratchet_message t msg)) buf ?k =
      (b', wr ?m1 buf (pkcs7 msg), Some (length msg))" "in_sync L (advance_sender t) b'"
    using sent_message_delivered [OF L sync fresh t_def len(1,2) stored_wr len(3), of junk] by blast
  moreover have "stored (wr ?m1 buf (pkcs7 msg)) buf msg"
    using stored_wr [of ?m1 buf "pkcs7 msg"] by (simp add: pkcs7_def)
  ultimately show ?thesis using enc lm st(2) by (auto simp: exchange_def)
qed

lemma conversation_in_sync:
  assumes "crypto_lib_ok L" "conversation L a b"
  shows "in_sync L a b \<or> in_sync L b a"
  using assms(2)
proof (induction rule: conversation.induct)
  case (start random kp info c secret)
  then show ?case using initial_in_sync [OF assms(1)] by blast
next
  case (left a b pt n random out buf junk m a' b' m' r)
  show ?case
    using exchange_in_sync [OF assms(1) left(2) left(4) stored_rd_self [OF length_rd [symmetric] refl] length_rd, of junk m] left(3)
    by auto
next
  case (right a b pt n random out buf junk m b' a' m' r)
  have s: "in_sync L b a \<or> in_sync L a b" using right(4) by blast
  show ?case
    using exchange_in_sync [OF assms(1) right(2) s stored_rd_self [OF length_rd [symmetric] refl] length_rd, of junk m] right(3)
    by auto
qed


lemma funpow_advance_sender:
  "rt_cipher ((advance_sender ^^ n) a) = rt_cipher a" "rt_kdf_info ((advance_sender ^^ n) a) = rt_kdf_info a"
  "sender_chain ((advance_sender ^^ n) a) =
     (sender_chain a)\<lparr>sc_chain_key := (advance_chain_key ^^ n) (sc_chain_key (sender_chain a))\<rparr>"
  "wf_ratchet a \<Longrightarrow> wf_ratchet ((advance_sender ^^ n) a)"
  by (induction n) (simp_all add: advance_sender_wf)

lemma funpow_advance_index: "ck_index ((advance_chain_key ^^ n) c) = ck_index c + of_nat n"
  by (induction n) (simp_all add: advance_chain_key_def)

lemma u32_of_nat: "n < 2 ^ 32 \<Longrightarrow> unat (of_nat n :: u32) = n"
  by (simp add: unat_of_nat take_bit_nat_eq_self)

lemma find_chain_Some:
  "find_chain n cs key i = Some p \<Longrightarrow> take 32 (rc_ratchet_key (ol_nth cs p)) = key"
  by (induction n arbitrary: i) (auto split: if_splits)

lemma delayed_gap:
  fixes k c :: u32
  assumes "k - c \<le> MAX_MESSAGE_GAP" "n \<le> MAX_SKIPPED_MESSAGE_KEYS"
  shows "unat (k + of_nat n - c) = unat (k - c) + n"
proof -
  have "unat (k - c) \<le> 2000" using assms(1) by (simp add: word_le_nat_alt MAX_MESSAGE_GAP_def)
  moreover have n: "unat (of_nat n :: u32) = n" using assms(2)
    by (simp add: MAX_SKIPPED_MESSAGE_KEYS_def u32_of_nat)
  ultimately have "unat (k - c + of_nat n) = unat (k - c) + n"
    using assms(2) by (subst unat_add_lem [THEN iffD1]) (simp_all add: MAX_SKIPPED_MESSAGE_KEYS_def)
  then show ?thesis by (simp add: algebra_simps)
qed

lemma rev_segment_nth:
  assumes "j < n"
  shows "j < d + n"
    "rev (map f (chain_segment c (d + n))) ! j = f ((advance_chain_key ^^ (d + n - Suc j)) c)"
  using assms by (simp_all add: rev_nth chain_segment_def)

text \<open>
  The \<open>n\<close>th message after one that is delayed arrives first: the key of the delayed message is then
  in the list of skipped keys, behind the keys of the messages in between.
\<close>

lemma delayed_key_stored:
  assumes gap: "ck_index k - ck_index (rc_chain_key ch) \<le> MAX_MESSAGE_GAP"
    "ck_index (rc_chain_key ch) \<le> ck_index k" "advance_chain_to (ck_index k) (rc_chain_key ch) = k"
    and n: "0 < n" "n \<le> MAX_SKIPPED_MESSAGE_KEYS"
    and sk: "ol_end sk \<le> MAX_SKIPPED_MESSAGE_KEYS"
    and le: "ck_index (rc_chain_key ch) \<le> ck_index k + of_nat n"
    and new: "new = snd (skip_keys info (ck_index k + of_nat n) ch sk)"
  shows "n - 1 < length (items new)"
    "items new ! (n - 1) = skipped_key info (rc_ratchet_key ch) k"
    "\<forall>j<n - 1. mk_index (sm_message_key (items new ! j)) \<noteq> ck_index k"
proof -
  let ?c = "rc_chain_key ch" and ?M = MAX_SKIPPED_MESSAGE_KEYS
  define d where "d = unat (ck_index k - ck_index ?c)"
  have k: "k = (advance_chain_key ^^ d) ?c"
    using gap(3) advance_chain_to_iter [OF gap(2)] by (simp add: d_def)
  have items: "items new = take ?M (rev (map (skipped_key info (rc_ratchet_key ch))
      (chain_segment ?c (d + n))) @ items sk)"
    using items_skip_keys [OF sk le, of info] delayed_gap [OF gap(1) n(2)] by (simp add: new d_def)
  have nth: "items new ! j = skipped_key info (rc_ratchet_key ch) ((advance_chain_key ^^ (d + n - Suc j)) ?c)"
    if "j < n" for j
    using rev_segment_nth(2) [OF that, of "skipped_key info (rc_ratchet_key ch)" ?c d] that n(2)
    by (simp add: items nth_append chain_segment_def)
  show "n - 1 < length (items new)"
    using n by (simp add: items chain_segment_def)
  show "items new ! (n - 1) = skipped_key info (rc_ratchet_key ch) k"
    using nth [of "n - 1"] n(1) by (simp add: k)
  have d: "d \<le> 2000" using gap(1) by (simp add: d_def word_le_nat_alt MAX_MESSAGE_GAP_def)
  have "mk_index (sm_message_key (items new ! j)) \<noteq> ck_index k" if "j < n - 1" for j
  proof
    assume "mk_index (sm_message_key (items new ! j)) = ck_index k"
    then have "(of_nat (d + n - Suc j) :: u32) = of_nat d"
      using that by (simp add: nth skipped_key_def create_message_keys_def funpow_advance_index k)
    then have "unat (of_nat (d + n - Suc j) :: u32) = unat (of_nat d :: u32)" by simp
    moreover have "unat (of_nat (d + n - Suc j) :: u32) = d + n - Suc j" "unat (of_nat d :: u32) = d"
      using d n(2) by (simp_all add: u32_of_nat MAX_SKIPPED_MESSAGE_KEYS_def)
    ultimately show False using that by simp
  qed
  then show "\<forall>j<n - 1. mk_index (sm_message_key (items new ! j)) \<noteq> ck_index k" by blast
qed

lemma in_step_delayed:
  assumes step: "in_step a b" "in_step t b" and t: "t = (advance_sender ^^ n) a"
    and wf: "wf_ratchet a" "wf_ratchet b" and n: "0 < n" "n \<le> MAX_SKIPPED_MESSAGE_KEYS"
    and last: "ck_index (sc_chain_key (sender_chain t)) \<noteq> - 1"
    and st: "stored m inp (ratchet_message t pt)"
    and len: "aes_encrypt_cbc_length (length pt) < 2 ^ 64" "aes_encrypt_cbc_length (length pt) \<le> max_len"
    and disj: "out + aes_encrypt_cbc_length (length pt) \<le> inp \<or> inp + length (ratchet_message t pt) \<le> out"
  obtains b' i where
    "ratchet_decrypt L junk b m inp (length (ratchet_message t pt)) out max_len =
      (b', wr m out (pkcs7 pt), Some (length pt))"
    "rt_cipher b' = rt_cipher a" "rt_kdf_info b' = rt_kdf_info a"
    "find_chain (ol_size (rt_receiver_chains b')) (rt_receiver_chains b')
      (c_public (sc_ratchet_key (sender_chain a))) 0 = Some i"
    "ck_index (sc_chain_key (sender_chain a)) < ck_index (rc_chain_key (ol_nth (rt_receiver_chains b') i))"
    "n - 1 < length (items (rt_skipped_message_keys b'))"
    "items (rt_skipped_message_keys b') ! (n - 1) =
      skipped_key (rt_kdf_info a) (c_public (sc_ratchet_key (sender_chain a))) (sc_chain_key (sender_chain a))"
    "\<forall>j<n - 1. mk_index (sm_message_key (items (rt_skipped_message_keys b') ! j)) \<noteq>
      ck_index (sc_chain_key (sender_chain a))"
proof -
  let ?pub = "c_public (sc_ratchet_key (sender_chain a))" and ?k = "sc_chain_key (sender_chain a)"
  note t' = funpow_advance_sender [where n = n and a = a, folded t]
  have kt: "sc_chain_key (sender_chain t) = (advance_chain_key ^^ n) ?k" by (simp add: t'(3))
  have it: "ck_index (sc_chain_key (sender_chain t)) = ck_index ?k + of_nat n"
    by (simp add: kt funpow_advance_index)
  obtain i where i: "find_chain (ol_size (rt_receiver_chains b)) (rt_receiver_chains b) ?pub 0 = Some i"
    and same: "rt_cipher b = rt_cipher a" "rt_kdf_info b = rt_kdf_info a"
    and sa: "ck_index (rc_chain_key (ol_nth (rt_receiver_chains b) i)) \<le> ck_index ?k"
      "ck_index ?k - ck_index (rc_chain_key (ol_nth (rt_receiver_chains b) i)) \<le> MAX_MESSAGE_GAP"
      "advance_chain_to (ck_index ?k) (rc_chain_key (ol_nth (rt_receiver_chains b) i)) = ?k"
    using step(1) by (auto simp: in_step_def Let_def split: option.splits)
  let ?c = "ol_nth (rt_receiver_chains b) i" and ?kt = "sc_chain_key (sender_chain t)"
  have s: "ck_index (rc_chain_key ?c) \<le> ck_index ?kt"
    "ck_index ?kt - ck_index (rc_chain_key ?c) \<le> MAX_MESSAGE_GAP"
    "advance_chain_to (ck_index ?kt) (rc_chain_key ?c) = ?kt"
    using step(2) i by (simp_all add: in_step_def Let_def t'(3))
  have pubt: "c_public (sc_ratchet_key (sender_chain t)) = ?pub" by (simp add: t'(3))
  define b' where "b' = b\<lparr>rt_receiver_chains := ol_set (rt_receiver_chains b) i
      (?c\<lparr>rc_chain_key := advance_chain_key ?kt\<rparr>),
    rt_skipped_message_keys := snd (skip_keys (rt_kdf_info t) (ck_index ?kt) ?c (rt_skipped_message_keys b))\<rparr>"
  have dec: "ratchet_decrypt L junk b m inp (length (ratchet_message t pt)) out max_len =
      (b', wr m out (pkcs7 pt), Some (length pt))"
    unfolding b'_def
    by (rule ratchet_decrypt_existing [OF st sender_public_length [OF t'(4) [OF wf(1)]] len disj _ _ _ refl s])
      (simp_all add: t' same i)
  have size: "ol_end (rt_skipped_message_keys b) \<le> MAX_SKIPPED_MESSAGE_KEYS"
    using wf(2) by (simp add: wf_ratchet_def list_wf_def)
  have valid: "valid_receiver ?c"
    using wf(2) by (simp add: wf_ratchet_def list_wf_def ol_nth_def)
  have key: "rc_ratchet_key ?c = ?pub"
    using find_chain_Some [OF i] valid by (simp add: valid_receiver_def)
  note d = delayed_key_stored [OF sa(2,1,3) n size _ refl, of "rt_kdf_info t", folded it, OF s(1), folded b'_def]
  have sk: "rt_skipped_message_keys b' = snd (skip_keys (rt_kdf_info t) (ck_index ?kt) ?c (rt_skipped_message_keys b))"
    by (simp add: b'_def)
  show thesis
  proof (rule that [OF dec])
    show "find_chain (ol_size (rt_receiver_chains b')) (rt_receiver_chains b') ?pub 0 = Some i"
      using i by (simp add: b'_def find_chain_set_chain_key) (simp add: ol_size_def ol_set_def)
    have lt: "ck_index ?k < ck_index ?kt"
      using delayed_gap [OF sa(2) n(2)] n(1) unat_sub [OF sa(1)] unat_sub [OF s(1)] sa(1) s(1)
      by (simp add: it word_le_nat_alt word_less_nat_alt)
    have "ck_index ?kt < ck_index ?kt + 1"
      using le_inc [OF last] last by (metis add_cancel_right_right order_le_less zero_neq_one)
    with lt show "ck_index ?k < ck_index (rc_chain_key (ol_nth (rt_receiver_chains b') i))"
      by (simp add: b'_def ol_set_def ol_nth_def advance_chain_key_def)
    show "rt_cipher b' = rt_cipher a" "rt_kdf_info b' = rt_kdf_info a" by (simp_all add: b'_def same)
  qed (use d key in \<open>simp_all add: sk t'(2)\<close>)
qed



lemma in_step_decrypt:
  assumes step: "in_step a b" and wf: "wf_ratchet a" "wf_ratchet b"
    and st: "stored m inp (ratchet_message a pt)"
    and len: "aes_encrypt_cbc_length (length pt) < 2 ^ 64" "aes_encrypt_cbc_length (length pt) \<le> max_len"
    and disj: "out + aes_encrypt_cbc_length (length pt) \<le> inp \<or> inp + length (ratchet_message a pt) \<le> out"
  obtains i c where
    "find_chain (ol_size (rt_receiver_chains b)) (rt_receiver_chains b)
      (c_public (sc_ratchet_key (sender_chain a))) 0 = Some i"
    "c = ol_nth (rt_receiver_chains b) i" "rt_cipher b = rt_cipher a"
    "rc_ratchet_key c = c_public (sc_ratchet_key (sender_chain a))"
    "ck_index (rc_chain_key c) \<le> ck_index (sc_chain_key (sender_chain a))"
    "ck_index (sc_chain_key (sender_chain a)) - ck_index (rc_chain_key c) \<le> MAX_MESSAGE_GAP"
    "ratchet_decrypt L junk b m inp (length (ratchet_message a pt)) out max_len =
    (b\<lparr>rt_receiver_chains := ol_set (rt_receiver_chains b) i
        (c\<lparr>rc_chain_key := advance_chain_key (sc_chain_key (sender_chain a))\<rparr>),
       rt_skipped_message_keys := snd (skip_keys (rt_kdf_info a)
         (ck_index (sc_chain_key (sender_chain a))) c (rt_skipped_message_keys b))\<rparr>,
     wr m out (pkcs7 pt), Some (length pt))"
proof -
  let ?pub = "c_public (sc_ratchet_key (sender_chain a))" and ?k = "sc_chain_key (sender_chain a)"
  obtain i where i: "find_chain (ol_size (rt_receiver_chains b)) (rt_receiver_chains b) ?pub 0 = Some i"
    and same: "rt_cipher b = rt_cipher a" "rt_kdf_info b = rt_kdf_info a"
    and s: "ck_index (rc_chain_key (ol_nth (rt_receiver_chains b) i)) \<le> ck_index ?k"
      "ck_index ?k - ck_index (rc_chain_key (ol_nth (rt_receiver_chains b) i)) \<le> MAX_MESSAGE_GAP"
      "advance_chain_to (ck_index ?k) (rc_chain_key (ol_nth (rt_receiver_chains b) i)) = ?k"
    using step by (auto simp: in_step_def Let_def split: option.splits)
  have "valid_receiver (ol_nth (rt_receiver_chains b) i)"
    using wf(2) by (simp add: wf_ratchet_def list_wf_def ol_nth_def)
  then have key: "rc_ratchet_key (ol_nth (rt_receiver_chains b) i) = ?pub"
    using find_chain_Some [OF i] by (simp add: valid_receiver_def)
  show thesis
    by (rule that [OF i refl same(1) key s(1,2)
          ratchet_decrypt_existing [OF st sender_public_length [OF wf(1)] len disj same i refl s]])
qed

lemma chain_segment_index:
  "c \<in> set (chain_segment d n) \<Longrightarrow> \<exists>j<n. ck_index c = ck_index d + of_nat j"
  by (auto simp: chain_segment_def funpow_advance_index)

lemma items_skip_keys_index:
  assumes "ol_end sk \<le> MAX_SKIPPED_MESSAGE_KEYS" "ck_index (rc_chain_key ch) \<le> n"
    "k \<in> set (items (snd (skip_keys info n ch sk)))"
  shows "k \<in> set (items sk) \<or> mk_index (sm_message_key k) \<noteq> n"
proof (cases "k \<in> set (items sk)")
  case False
  then obtain c where c: "c \<in> set (chain_segment (rc_chain_key ch) (unat (n - ck_index (rc_chain_key ch))))"
    "k = skipped_key info (rc_ratchet_key ch) c"
    using set_mp [OF set_take_subset assms(3) [unfolded items_skip_keys [OF assms(1,2)]]] by auto
  then obtain j where j: "j < unat (n - ck_index (rc_chain_key ch))"
    "mk_index (sm_message_key k) = ck_index (rc_chain_key ch) + of_nat j"
    using chain_segment_index by (force simp: skipped_key_def create_message_keys_def)
  have "unat (n - ck_index (rc_chain_key ch)) < 2 ^ 32" using unsigned_less [of "n - ck_index (rc_chain_key ch)", where 'a = nat] by simp
  with j(1) have "j < 2 ^ 32" by (rule order.strict_trans)
  then have "unat (of_nat j :: u32) = j" by (rule u32_of_nat)
  then have "n - ck_index (rc_chain_key ch) \<noteq> of_nat j" using j(1) by (metis less_irrefl)
  then show ?thesis using j(2) by (metis add_diff_cancel_left')
qed simp

text \<open>A conversation that has just begun, for the instances below.\<close>

definition example_key :: curve25519_key_pair where
  "example_key = curve25519_generate_key example_lib (replicate 32 1)"

definition example_alice :: Ratchet where
  "example_alice = initialise_as_alice example_ratchet [5] example_key"

definition example_bob :: Ratchet where
  "example_bob = initialise_as_bob example_ratchet [5] (c_public example_key)"

lemma example_in_sync: "in_sync example_lib example_alice example_bob"
  unfolding example_alice_def example_bob_def example_ratchet_def example_key_def
  by (rule initial_in_sync [OF example_lib_ok _ refl]) simp

lemma example_chain:
  "find_chain (ol_size (rt_receiver_chains example_bob)) (rt_receiver_chains example_bob)
     (c_public (sc_ratchet_key (sender_chain example_alice))) 0 = Some 0"
  "ck_index (rc_chain_key (ol_nth (rt_receiver_chains example_bob) 0)) = 0"
  "ck_index (sc_chain_key (sender_chain example_alice)) = 0"
  "ol_empty (rt_sender_chain example_alice) = False" "ol_end (rt_skipped_message_keys example_bob) = 0"
proof -
  have "length (c_public example_key) = 32"
    using sender_public_length [of example_alice] example_in_sync
    by (simp add: in_sync_def example_alice_def initialise_as_alice_def example_ratchet_def new_ratchet_def
        Let_def ol_insert_begin_def ol_insert_def ol_new_def ol_set_def sender_chain_def ol_nth_def)
  then show
    "find_chain (ol_size (rt_receiver_chains example_bob)) (rt_receiver_chains example_bob)
     (c_public (sc_ratchet_key (sender_chain example_alice))) 0 = Some 0"
    "ck_index (rc_chain_key (ol_nth (rt_receiver_chains example_bob) 0)) = 0"
    "ck_index (sc_chain_key (sender_chain example_alice)) = 0"
    "ol_empty (rt_sender_chain example_alice) = False" "ol_end (rt_skipped_message_keys example_bob) = 0"
    by (simp_all add: example_alice_def example_bob_def initialise_as_alice_def initialise_as_bob_def
        example_ratchet_def new_ratchet_def Let_def ol_insert_begin_def ol_insert_def ol_new_def ol_set_def
        sender_chain_def ol_nth_def ol_empty_def ol_size_def MAX_RECEIVER_CHAINS_def)
qed

lemma example_exchange_ok:
  "exchange_ok example_lib example_alice example_bob 0 1 [] 1000 100"
  by (simp add: exchange_ok_def example_chain aes_encrypt_cbc_length_def)

section \<open>Properties of the double ratchet\<close>

text \<open>
  C4 In every conversation that two parties can reach from a common secret, whoever writes next and
  however many messages went either way, the next message is delivered: encryption succeeds,
  decryption succeeds, and the receiver's buffer holds the plaintext.
\<close>

theorem conversation_delivers:
  assumes "crypto_lib_ok L" "conversation L a b \<or> conversation L b a"
    "exchange_ok L a b pt n random out buf" "stored m pt msg" "length msg = n"
  shows "\<exists>a' b' m'. exchange L junk a b m pt n random out buf = (a', b', m', Some n) \<and>
    stored m' buf msg \<and> wf_ratchet a' \<and> wf_ratchet b'"
proof -
  have "in_sync L a b \<or> in_sync L b a"
    using assms(2) conversation_in_sync [OF assms(1)] by blast
  from exchange_in_sync [OF assms(1,3) this assms(4,5), of junk]
  obtain a' b' m' where "exchange L junk a b m pt n random out buf = (a', b', m', Some n)"
    "in_sync L a' b'" "stored m' buf msg" by blast
  then show ?thesis unfolding in_sync_def by blast
qed

theorem conversation_delivers_witness:
  "\<exists>a' b' m'. exchange example_lib zero_reader example_alice example_bob (\<lambda>i. 0) 0 1 [] 1000 100 =
      (a', b', m', Some 1) \<and> stored m' 100 [0] \<and> wf_ratchet a' \<and> wf_ratchet b'"
proof -
  have "conversation example_lib example_alice example_bob"
    unfolding example_alice_def example_bob_def example_ratchet_def example_key_def
    by (rule conversation.start [OF _ refl]) simp
  then show ?thesis
    by (intro conversation_delivers example_lib_ok example_exchange_ok) simp_all
qed

text \<open>
  C9 A message that arrives after a later one (up to forty later) is still decrypted: the later
  message jumps over it and keeps its key, the late message is found by that key, its plaintext
  ends up in the output buffer, and the key is removed.
\<close>

theorem late_message_delivered:
  assumes "in_step a b" "in_step t b" "t = (advance_sender ^^ n) a" "wf_ratchet a" "wf_ratchet b"
    "0 < n" "n \<le> MAX_SKIPPED_MESSAGE_KEYS" "ck_index (sc_chain_key (sender_chain t)) \<noteq> - 1"
    and first: "stored m inp (ratchet_message t pt)" "aes_encrypt_cbc_length (length pt) < 2 ^ 64"
      "aes_encrypt_cbc_length (length pt) \<le> max_len"
      "out + aes_encrypt_cbc_length (length pt) \<le> inp \<or> inp + length (ratchet_message t pt) \<le> out"
    and late: "stored m2 inp2 (ratchet_message a pt2)" "aes_encrypt_cbc_length (length pt2) < 2 ^ 64"
      "aes_encrypt_cbc_length (length pt2) \<le> max_len2"
      "out2 + aes_encrypt_cbc_length (length pt2) \<le> inp2 \<or> inp2 + length (ratchet_message a pt2) \<le> out2"
  shows "\<exists>b'. ratchet_decrypt L junk b m inp (length (ratchet_message t pt)) out max_len =
      (b', wr m out (pkcs7 pt), Some (length pt)) \<and>
    n - 1 < ol_end (rt_skipped_message_keys b') \<and>
    ratchet_decrypt L junk b' m2 inp2 (length (ratchet_message a pt2)) out2 max_len2 =
      (b'\<lparr>rt_skipped_message_keys :=
          ol_erase (ol_set (rt_skipped_message_keys b') (n - 1) zero_skipped) (n - 1)\<rparr>,
       wr m2 out2 (pkcs7 pt2), Some (length pt2))"
proof -
  obtain b' i where b':
    "ratchet_decrypt L junk b m inp (length (ratchet_message t pt)) out max_len =
      (b', wr m out (pkcs7 pt), Some (length pt))"
    "rt_cipher b' = rt_cipher a" "rt_kdf_info b' = rt_kdf_info a"
    "find_chain (ol_size (rt_receiver_chains b')) (rt_receiver_chains b')
      (c_public (sc_ratchet_key (sender_chain a))) 0 = Some i"
    "ck_index (sc_chain_key (sender_chain a)) < ck_index (rc_chain_key (ol_nth (rt_receiver_chains b') i))"
    and sk: "n - 1 < length (items (rt_skipped_message_keys b'))"
    "items (rt_skipped_message_keys b') ! (n - 1) =
      skipped_key (rt_kdf_info a) (c_public (sc_ratchet_key (sender_chain a))) (sc_chain_key (sender_chain a))"
    "\<forall>j<n - 1. mk_index (sm_message_key (items (rt_skipped_message_keys b') ! j)) \<noteq>
      ck_index (sc_chain_key (sender_chain a))"
    by (rule in_step_delayed [OF assms(1-8) first, where L = L and junk = junk])
  have "ratchet_decrypt L junk b' m2 inp2 (length (ratchet_message a pt2)) out2 max_len2 =
      (b'\<lparr>rt_skipped_message_keys :=
          ol_erase (ol_set (rt_skipped_message_keys b') (n - 1) zero_skipped) (n - 1)\<rparr>,
       wr m2 out2 (pkcs7 pt2), Some (length pt2))"
    using sk(3) by (intro ratchet_decrypt_late [OF late(1) sender_public_length [OF assms(4)]
          late(2-4) b'(2,3) b'(4,5) sk(1,2)]) blast
  with b'(1) sk(1) show ?thesis by auto
qed

theorem late_message_delivered_witness:
  "\<exists>b'. ratchet_decrypt example_lib zero_reader example_bob
      (wr (\<lambda>i. 0) 100 (ratchet_message (advance_sender example_alice) [1]))
      100 (length (ratchet_message (advance_sender example_alice) [1])) 0 16 =
      (b', wr (wr (\<lambda>i. 0) 100 (ratchet_message (advance_sender example_alice) [1])) 0 (pkcs7 [1]), Some 1) \<and>
    0 < ol_end (rt_skipped_message_keys b') \<and>
    ratchet_decrypt example_lib zero_reader b' (wr (\<lambda>i. 0) 100 (ratchet_message example_alice [2]))
      100 (length (ratchet_message example_alice [2])) 0 16 =
      (b'\<lparr>rt_skipped_message_keys := ol_erase (ol_set (rt_skipped_message_keys b') 0 zero_skipped) 0\<rparr>,
       wr (wr (\<lambda>i. 0) 100 (ratchet_message example_alice [2])) 0 (pkcs7 [2]), Some 1)"
proof -
  have s: "in_step example_alice example_bob" "wf_ratchet example_alice" "wf_ratchet example_bob"
    using example_in_sync by (simp_all add: in_sync_def)
  have "in_step (advance_sender example_alice) example_bob"
    by (rule in_step_lost [OF s(1) example_chain(1)]) (simp_all add: example_chain MAX_MESSAGE_GAP_def)
  from late_message_delivered [OF s(1) this _ s(2,3), of 1 "wr (\<lambda>i. 0) 100 (ratchet_message (advance_sender example_alice) [1])"
      100 "[1]" 16 0 "wr (\<lambda>i. 0) 100 (ratchet_message example_alice [2])" 100 "[2]" 16 0 example_lib zero_reader]
  show ?thesis
    by (simp add: aes_encrypt_cbc_length_def MAX_SKIPPED_MESSAGE_KEYS_def example_chain advance_chain_key_def)
qed


text \<open>
  C10 A message is accepted once: after it was decrypted the same bytes are refused, and the refusal
  changes neither the ratchet, apart from its error, nor the output buffer. The hypothesis about
  the skipped keys says that the list does not hold a key of this very message already.
\<close>

theorem replay_refused:
  assumes "in_step a b" "wf_ratchet a" "wf_ratchet b" "ck_index (sc_chain_key (sender_chain a)) \<noteq> - 1"
    "\<forall>k\<in>set (items (rt_skipped_message_keys b)).
      \<not> (mk_index (sm_message_key k) = ck_index (sc_chain_key (sender_chain a)) \<and>
         take 32 (sm_ratchet_key k) = c_public (sc_ratchet_key (sender_chain a)))"
    and first: "stored m inp (ratchet_message a pt)" "aes_encrypt_cbc_length (length pt) < 2 ^ 64"
      "aes_encrypt_cbc_length (length pt) \<le> max_len"
      "out + aes_encrypt_cbc_length (length pt) \<le> inp \<or> inp + length (ratchet_message a pt) \<le> out"
    and again: "stored m2 inp2 (ratchet_message a pt)"
  shows "\<exists>b' e. ratchet_decrypt L junk b m inp (length (ratchet_message a pt)) out max_len =
      (b', wr m out (pkcs7 pt), Some (length pt)) \<and>
    ratchet_decrypt L junk b' m2 inp2 (length (ratchet_message a pt)) out2 max_len2 =
      (b'\<lparr>rt_last_error := e\<rparr>, m2, None)"
proof -
  let ?k = "sc_chain_key (sender_chain a)" and ?pub = "c_public (sc_ratchet_key (sender_chain a))"
  obtain i c where i: "find_chain (ol_size (rt_receiver_chains b)) (rt_receiver_chains b) ?pub 0 = Some i"
    and c: "c = ol_nth (rt_receiver_chains b) i" "rt_cipher b = rt_cipher a"
    "rc_ratchet_key c = ?pub" "ck_index (rc_chain_key c) \<le> ck_index ?k"
    and dec: "ratchet_decrypt L junk b m inp (length (ratchet_message a pt)) out max_len =
    (b\<lparr>rt_receiver_chains := ol_set (rt_receiver_chains b) i (c\<lparr>rc_chain_key := advance_chain_key ?k\<rparr>),
       rt_skipped_message_keys := snd (skip_keys (rt_kdf_info a) (ck_index ?k) c (rt_skipped_message_keys b))\<rparr>,
     wr m out (pkcs7 pt), Some (length pt))"
    by (rule in_step_decrypt [OF assms(1-3) first, where L = L and junk = junk])
  define b' where "b' = b\<lparr>rt_receiver_chains := ol_set (rt_receiver_chains b) i
      (c\<lparr>rc_chain_key := advance_chain_key ?k\<rparr>),
    rt_skipped_message_keys := snd (skip_keys (rt_kdf_info a) (ck_index ?k) c (rt_skipped_message_keys b))\<rparr>"
  have size: "ol_end (rt_skipped_message_keys b) \<le> MAX_SKIPPED_MESSAGE_KEYS"
    using assms(3) by (simp add: wf_ratchet_def list_wf_def)
  have "\<exists>e. ratchet_decrypt L junk b' m2 inp2 (length (ratchet_message a pt)) out2 max_len2 =
      (b'\<lparr>rt_last_error := e\<rparr>, m2, None)"
  proof (rule ratchet_decrypt_replay [OF again sender_public_length [OF assms(2)] first(2)])
    show "rt_cipher b' = rt_cipher a" by (simp add: b'_def c(2))
    show "find_chain (ol_size (rt_receiver_chains b')) (rt_receiver_chains b') ?pub 0 = Some i"
      using i c(1) by (simp add: b'_def find_chain_set_chain_key) (simp add: ol_size_def ol_set_def)
    have "ck_index ?k < ck_index ?k + 1"
      using le_inc [OF assms(4)] by (metis add_cancel_right_right order_le_less zero_neq_one)
    then show "ck_index ?k < ck_index (rc_chain_key (ol_nth (rt_receiver_chains b') i))"
      by (simp add: b'_def ol_set_def ol_nth_def advance_chain_key_def)
    show "\<forall>k\<in>set (items (rt_skipped_message_keys b')).
      \<not> (mk_index (sm_message_key k) = ck_index ?k \<and> take 32 (sm_ratchet_key k) = ?pub)"
      using assms(5) items_skip_keys_index [OF size c(4)] by (auto simp: b'_def)
  qed
  then show ?thesis using dec [folded b'_def] by blast
qed

theorem replay_refused_witness:
  "\<exists>b' e. ratchet_decrypt example_lib zero_reader example_bob
      (wr (\<lambda>i. 0) 100 (ratchet_message example_alice [1]))
      100 (length (ratchet_message example_alice [1])) 0 16 =
      (b', wr (wr (\<lambda>i. 0) 100 (ratchet_message example_alice [1])) 0 (pkcs7 [1]), Some 1) \<and>
    ratchet_decrypt example_lib zero_reader b' (wr (\<lambda>i. 0) 200 (ratchet_message example_alice [1]))
      200 (length (ratchet_message example_alice [1])) 0 16 =
      (b'\<lparr>rt_last_error := e\<rparr>, wr (\<lambda>i. 0) 200 (ratchet_message example_alice [1]), None)"
proof -
  have s: "in_step example_alice example_bob" "wf_ratchet example_alice" "wf_ratchet example_bob"
    using example_in_sync by (simp_all add: in_sync_def)
  from replay_refused [OF s, of "wr (\<lambda>i. 0) 100 (ratchet_message example_alice [1])" 100 "[1]" 16 0
      "wr (\<lambda>i. 0) 200 (ratchet_message example_alice [1])" 200 example_lib zero_reader 0 16]
  show ?thesis
    by (simp add: aes_encrypt_cbc_length_def example_chain items_def)
qed

text \<open>
  Pickling a well-formed ratchet writes exactly the announced number of bytes, and unpickling
  them into a fresh ratchet gives the root key and the three lists back.
\<close>

theorem ratchet_pickle_round_trip:
  assumes "wf_ratchet s" "pos + pickle_ratchet_length s \<le> lim"
  shows "\<exists>m' s'. pickle_ratchet m pos s = (m', pos + pickle_ratchet_length s) \<and>
    frame m m' pos (pickle_ratchet_length s) \<and>
    unpickle_ratchet m' pos lim (new_ratchet (rt_kdf_info s) (rt_cipher s)) False =
      (pos + pickle_ratchet_length s, s') \<and>
    wf_ratchet s' \<and> rt_root_key s' = rt_root_key s \<and> items (rt_sender_chain s') = items (rt_sender_chain s) \<and>
    items (rt_receiver_chains s') = items (rt_receiver_chains s) \<and>
    items (rt_skipped_message_keys s') = items (rt_skipped_message_keys s)"
proof -
  let ?old = "new_ratchet (rt_kdf_info s) (rt_cipher s)" and ?m = "wr m pos (ratchet_enc s)"
  have len: "pickle_ratchet_length s = length (ratchet_enc s)" by (rule ratchet.pk_length [OF assms(1)])
  have old: "wf_ratchet ?old" "ratchet_fresh ?old"
    by (simp_all add: wf_new_ratchet) (simp add: ratchet_fresh_def new_ratchet_def ol_new_def)
  obtain p s' where u: "unpickle_ratchet ?m pos lim ?old False = (p, s')" by fastforce
  have st: "stored ?m pos (ratchet_enc s)" by simp
  have le: "pos + length (ratchet_enc s) \<le> lim" using assms(2) len by simp
  have "p = pos + length (ratchet_enc s)" "ratchet_view s' = ratchet_view s" "wf_ratchet s'"
    using ratchet.unpk_pos [OF assms(1) old st le] ratchet.unpk_view [OF assms(1) old st le]
      ratchet.unpk_valid [OF old(1), of ?m pos lim] u by simp_all
  moreover have "frame m ?m pos (pickle_ratchet_length s)" by (rule frame_wr) (simp_all add: len)
  ultimately show ?thesis
    using ratchet.pk [OF assms(1), of m pos] u by (auto simp: len ratchet_view_def)
qed

theorem ratchet_pickle_round_trip_witness:
  "\<exists>m' s'. pickle_ratchet (\<lambda>i. 0) 10 example_alice = (m', 10 + pickle_ratchet_length example_alice) \<and>
    frame (\<lambda>i. 0) m' 10 (pickle_ratchet_length example_alice) \<and>
    unpickle_ratchet m' 10 (10 + pickle_ratchet_length example_alice)
      (new_ratchet (rt_kdf_info example_alice) (rt_cipher example_alice)) False =
      (10 + pickle_ratchet_length example_alice, s') \<and>
    wf_ratchet s' \<and> rt_root_key s' = rt_root_key example_alice \<and>
    items (rt_sender_chain s') = items (rt_sender_chain example_alice) \<and>
    items (rt_receiver_chains s') = items (rt_receiver_chains example_alice) \<and>
    items (rt_skipped_message_keys s') = items (rt_skipped_message_keys example_alice)"
  using ratchet_pickle_round_trip [of example_alice 10 "10 + pickle_ratchet_length example_alice" "\<lambda>i. 0"]
    example_in_sync by (simp add: in_sync_def)

end
