(* ===== verification/Session.thy ===== *)
theory Session
  imports Account Conversation
begin

text \<open>
  \<open>src/session.cpp\<close> and \<open>session.hh\<close>: an Olm session, that is a double ratchet with the three public
  keys its triple Diffie-Hellman handshake used.  The operations take the session and the memory and
  return both with the value the code returns (\<open>None\<close> for \<open>std::size_t(-1)\<close>).  The readers the code
  declares without initialising them are the parameters \<open>junk\<close> and \<open>junk_message\<close>.
\<close>

section \<open>State\<close>

datatype MessageType = PRE_KEY | MESSAGE

record Session =
  ss_ratchet :: Ratchet
  ss_last_error :: OlmErrorCode
  ss_received_message :: bool
  ss_alice_identity_key :: bytes
  ss_alice_base_key :: bytes
  ss_bob_one_time_key :: bytes

definition CURVE25519_KEY_LENGTH :: nat where "CURVE25519_KEY_LENGTH = 32"

definition OLM_KDF_INFO :: KdfInfo where
  "OLM_KDF_INFO = \<lparr>root_info = cstr ''OLM_ROOT'', ratchet_info = cstr ''OLM_RATCHET''\<rparr>"

definition OLM_CIPHER :: aes_sha_256_cipher where
  "OLM_CIPHER = \<lparr>kdf_info = cstr ''OLM_KEYS''\<rparr>"

text \<open>The constructor, on the cleared memory that \<open>olm_session\<close> gives it.\<close>

definition fresh_session :: Session where
  "fresh_session =
     \<lparr>ss_ratchet = new_ratchet OLM_KDF_INFO OLM_CIPHER, ss_last_error = OLM_SUCCESS,
      ss_received_message = False, ss_alice_identity_key = replicate 32 0,
      ss_alice_base_key = replicate 32 0, ss_bob_one_time_key = replicate 32 0\<rparr>"

section \<open>Outbound sessions\<close>

definition new_outbound_session_random_length :: nat where
  "new_outbound_session_random_length = CURVE25519_RANDOM_LENGTH * 2"

definition new_outbound_session ::
  "crypto_lib \<Rightarrow> Session \<Rightarrow> Account \<Rightarrow> bytes \<Rightarrow> bytes \<Rightarrow> bytes \<Rightarrow> Session \<times> nat option" where
  "new_outbound_session L session local_account identity_key one_time_key random =
     (if length random < new_outbound_session_random_length then
        (session\<lparr>ss_last_error := OLM_NOT_ENOUGH_RANDOM\<rparr>, None)
      else
        let base_key = curve25519_generate_key L random;
            ratchet_key = curve25519_generate_key L (drop CURVE25519_RANDOM_LENGTH random);
            alice_identity_key_pair = ik_curve25519_key (ac_identity_keys local_account);
            session = session\<lparr>ss_received_message := False,
              ss_alice_identity_key := c_public alice_identity_key_pair,
              ss_alice_base_key := c_public base_key,
              ss_bob_one_time_key := one_time_key\<rparr>;
            secret = curve25519_shared_secret L alice_identity_key_pair one_time_key @
              curve25519_shared_secret L base_key identity_key @
              curve25519_shared_secret L base_key one_time_key
        in (session\<lparr>ss_ratchet := initialise_as_alice (ss_ratchet session) secret ratchet_key\<rparr>, Some 0))"

section \<open>Inbound sessions\<close>

definition check_message_fields :: "PreKeyMessageReader \<Rightarrow> bool \<Rightarrow> bool" where
  "check_message_fields reader have_their_identity_key =
     (let ok = True;
          ok = (ok \<and> (have_their_identity_key \<or> pk_identity_key reader \<noteq> None));
          ok = (if pk_identity_key reader \<noteq> None
                then ok \<and> pk_identity_key_length reader = CURVE25519_KEY_LENGTH else ok);
          ok = (ok \<and> pk_message reader \<noteq> None);
          ok = (ok \<and> pk_base_key reader \<noteq> None);
          ok = (ok \<and> pk_base_key_length reader = CURVE25519_KEY_LENGTH);
          ok = (ok \<and> pk_one_time_key reader \<noteq> None);
          ok = (ok \<and> pk_one_time_key_length reader = CURVE25519_KEY_LENGTH)
      in ok)"

text \<open>
  \<open>None\<close> is the read through a null pointer that \<open>load_array\<close> makes when the message carries no
  identity key: \<open>check_message_fields\<close> lets such a message pass when the caller gives a key.
\<close>

definition new_inbound_session ::
  "crypto_lib \<Rightarrow> PreKeyMessageReader \<Rightarrow> MessageReader \<Rightarrow> Session \<Rightarrow> Account \<Rightarrow> bytes option \<Rightarrow>
   mem \<Rightarrow> addr \<Rightarrow> nat \<Rightarrow> (Session \<times> nat option) option" where
  "new_inbound_session L junk junk_message session local_account their_identity_key m
      one_time_key_message message_length =
     (let reader = decode_one_time_key_message m junk one_time_key_message message_length
      in if \<not> check_message_fields reader (their_identity_key \<noteq> None) then
           Some (session\<lparr>ss_last_error := OLM_BAD_MESSAGE_FORMAT\<rparr>, None)
         else if pk_identity_key reader \<noteq> None \<and> their_identity_key \<noteq> None \<and>
             the their_identity_key \<noteq> rd m (the (pk_identity_key reader)) 32 then
           Some (session\<lparr>ss_last_error := OLM_BAD_MESSAGE_KEY_ID\<rparr>, None)
         else case pk_identity_key reader of
           None \<Rightarrow> None
         | Some identity_key \<Rightarrow>
             let session = session\<lparr>
                   ss_alice_identity_key := fst (load_array m 32 identity_key),
                   ss_alice_base_key := fst (load_array m 32 (the (pk_base_key reader))),
                   ss_bob_one_time_key := fst (load_array m 32 (the (pk_one_time_key reader)))\<rparr>;
                 message_reader = decode_message m junk_message (the (pk_message reader))
                   (pk_message_length reader) (cipher_mac_length (rt_cipher (ss_ratchet session)))
             in if mr_ratchet_key message_reader = None
                   \<or> mr_ratchet_key_length message_reader \<noteq> CURVE25519_KEY_LENGTH then
                  Some (session\<lparr>ss_last_error := OLM_BAD_MESSAGE_FORMAT\<rparr>, None)
                else
                  let ratchet_key = fst (load_array m 32 (the (mr_ratchet_key message_reader)))
                  in case lookup_key local_account (ss_bob_one_time_key session) of
                       None \<Rightarrow> Some (session\<lparr>ss_last_error := OLM_BAD_MESSAGE_KEY_ID\<rparr>, None)
                     | Some i \<Rightarrow>
                         let bob_identity_key = ik_curve25519_key (ac_identity_keys local_account);
                             bob_one_time_key = otk_key (ol_nth (ac_one_time_keys local_account) i);
                             secret =
                               curve25519_shared_secret L bob_one_time_key (ss_alice_identity_key session) @
                               curve25519_shared_secret L bob_identity_key (ss_alice_base_key session) @
                               curve25519_shared_secret L bob_one_time_key (ss_alice_base_key session)
                         in Some (session\<lparr>ss_ratchet :=
                              initialise_as_bob (ss_ratchet session) secret ratchet_key\<rparr>, Some 0))"

section \<open>Identifying sessions\<close>

definition session_id_length :: nat where
  "session_id_length = 32"

definition session_id :: "Session \<Rightarrow> mem \<Rightarrow> addr \<Rightarrow> nat \<Rightarrow> Session \<times> mem \<times> nat option" where
  "session_id session m id_ptr id_length =
     (if id_length < session_id_length then
        (session\<lparr>ss_last_error := OLM_OUTPUT_BUFFER_TOO_SMALL\<rparr>, m, None)
      else
        let tmp = ss_alice_identity_key session @ ss_alice_base_key session @ ss_bob_one_time_key session
        in (session, wr m id_ptr (crypto_sha256 tmp), Some session_id_length))"

definition matches_inbound_session ::
  "PreKeyMessageReader \<Rightarrow> Session \<Rightarrow> bytes option \<Rightarrow> mem \<Rightarrow> addr \<Rightarrow> nat \<Rightarrow> bool" where
  "matches_inbound_session junk session their_identity_key m one_time_key_message message_length =
     (let reader = decode_one_time_key_message m junk one_time_key_message message_length
      in if \<not> check_message_fields reader (their_identity_key \<noteq> None) then False
         else
           let same = True;
               same = (if pk_identity_key reader \<noteq> None
                       then same \<and> rd m (the (pk_identity_key reader)) 32 = ss_alice_identity_key session
                       else same);
               same = (if their_identity_key \<noteq> None
                       then same \<and> the their_identity_key = ss_alice_identity_key session else same);
               same = (same \<and> rd m (the (pk_base_key reader)) 32 = ss_alice_base_key session);
               same = (same \<and> rd m (the (pk_one_time_key reader)) 32 = ss_bob_one_time_key session)
           in same)"

section \<open>Encryption\<close>

definition encrypt_message_type :: "Session \<Rightarrow> MessageType" where
  "encrypt_message_type session = (if ss_received_message session then MESSAGE else PRE_KEY)"

definition encrypt_message_length :: "Session \<Rightarrow> nat \<Rightarrow> nat" where
  "encrypt_message_length session plaintext_length =
     (let message_length = encrypt_output_length (ss_ratchet session) plaintext_length
      in if ss_received_message session then message_length
         else encode_one_time_key_message_length CURVE25519_KEY_LENGTH CURVE25519_KEY_LENGTH
                CURVE25519_KEY_LENGTH message_length)"

definition session_encrypt_random_length :: "Session \<Rightarrow> nat" where
  "session_encrypt_random_length session = encrypt_random_length (ss_ratchet session)"

definition session_encrypt ::
  "crypto_lib \<Rightarrow> Session \<Rightarrow> mem \<Rightarrow> addr \<Rightarrow> nat \<Rightarrow> bytes \<Rightarrow> addr \<Rightarrow> nat \<Rightarrow> Session \<times> mem \<times> nat option" where
  "session_encrypt L session m plaintext plaintext_length random message message_length =
     (if message_length < encrypt_message_length session plaintext_length then
        (session\<lparr>ss_last_error := OLM_OUTPUT_BUFFER_TOO_SMALL\<rparr>, m, None)
      else
        let message_body_length = encrypt_output_length (ss_ratchet session) plaintext_length;
            (m, message_body) =
              (if ss_received_message session then (m, message)
               else
                 let (m, writer) = encode_one_time_key_message m PROTOCOL_VERSION
                       CURVE25519_KEY_LENGTH CURVE25519_KEY_LENGTH CURVE25519_KEY_LENGTH
                       message_body_length message;
                     m = fst (store_array m (pw_one_time_key writer) (ss_bob_one_time_key session));
                     m = fst (store_array m (pw_identity_key writer) (ss_alice_identity_key session));
                     m = fst (store_array m (pw_base_key writer) (ss_alice_base_key session))
                 in (m, pw_message writer));
            (ratchet, m, result) =
              ratchet_encrypt L (ss_ratchet session) m plaintext plaintext_length random
                message_body message_body_length;
            session = session\<lparr>ss_ratchet := ratchet\<rparr>
        in case result of
             None \<Rightarrow>
               (session\<lparr>ss_last_error := rt_last_error ratchet,
                  ss_ratchet := ratchet\<lparr>rt_last_error := OLM_SUCCESS\<rparr>\<rparr>, m, None)
           | Some len \<Rightarrow> (session, m, Some len))"

section \<open>Decryption\<close>

text \<open>The start of both functions: where the message for the ratchet is.\<close>

definition message_body ::
  "PreKeyMessageReader \<Rightarrow> MessageType \<Rightarrow> mem \<Rightarrow> addr \<Rightarrow> nat \<Rightarrow> (addr \<times> nat) option" where
  "message_body junk message_type m message message_length =
     (if message_type = MESSAGE then Some (message, message_length)
      else
        let reader = decode_one_time_key_message m junk message message_length
        in case pk_message reader of None \<Rightarrow> None | Some p \<Rightarrow> Some (p, pk_message_length reader))"

definition session_decrypt_max_plaintext_length ::
  "PreKeyMessageReader \<Rightarrow> MessageReader \<Rightarrow> Session \<Rightarrow> MessageType \<Rightarrow> mem \<Rightarrow> addr \<Rightarrow> nat \<Rightarrow>
   Session \<times> nat option" where
  "session_decrypt_max_plaintext_length junk junk_message session message_type m message message_length =
     (case message_body junk message_type m message message_length of
        None \<Rightarrow> (session\<lparr>ss_last_error := OLM_BAD_MESSAGE_FORMAT\<rparr>, None)
      | Some (body, body_length) \<Rightarrow>
          let (ratchet, result) =
                decrypt_max_plaintext_length junk_message (ss_ratchet session) m body body_length;
              session = session\<lparr>ss_ratchet := ratchet\<rparr>
          in case result of
               None \<Rightarrow>
                 (session\<lparr>ss_last_error := rt_last_error ratchet,
                    ss_ratchet := ratchet\<lparr>rt_last_error := OLM_SUCCESS\<rparr>\<rparr>, None)
             | Some n \<Rightarrow> (session, Some n))"

definition session_decrypt ::
  "crypto_lib \<Rightarrow> PreKeyMessageReader \<Rightarrow> MessageReader \<Rightarrow> Session \<Rightarrow> MessageType \<Rightarrow> mem \<Rightarrow> addr \<Rightarrow> nat \<Rightarrow>
   addr \<Rightarrow> nat \<Rightarrow> Session \<times> mem \<times> nat option" where
  "session_decrypt L junk junk_message session message_type m message message_length
      plaintext max_plaintext_length =
     (case message_body junk message_type m message message_length of
        None \<Rightarrow> (session\<lparr>ss_last_error := OLM_BAD_MESSAGE_FORMAT\<rparr>, m, None)
      | Some (body, body_length) \<Rightarrow>
          let (ratchet, m, result) =
                ratchet_decrypt L junk_message (ss_ratchet session) m body body_length
                  plaintext max_plaintext_length;
              session = session\<lparr>ss_ratchet := ratchet\<rparr>
          in case result of
               None \<Rightarrow>
                 (session\<lparr>ss_last_error := rt_last_error ratchet,
                    ss_ratchet := ratchet\<lparr>rt_last_error := OLM_SUCCESS\<rparr>\<rparr>, m, None)
             | Some n \<Rightarrow> (session\<lparr>ss_received_message := True\<rparr>, m, Some n))"

section \<open>Describing a session\<close>

text \<open>The standard library's \<open>snprintf\<close> on a finished text, and its decimal conversion \<open>%d\<close>.\<close>

definition snprintf :: "mem \<Rightarrow> addr \<Rightarrow> nat \<Rightarrow> bytes \<Rightarrow> mem \<times> nat" where
  "snprintf m pos n txt =
     (if n = 0 then m else wr m pos (take (n - 1) txt @ [0]), length txt)"

function decimal :: "nat \<Rightarrow> bytes" where
  "decimal n = (if n < 10 then [0x30 + of_nat n] else decimal (n div 10) @ [0x30 + of_nat (n mod 10)])"
  by pat_completeness auto
termination
  by (relation "measure (\<lambda>n. n)") auto

declare decimal.simps [simp del]

definition format_d :: "u32 \<Rightarrow> bytes" where
  "format_d v = (let i = sint v in if i < 0 then 0x2D # decimal (nat (- i)) else decimal (nat i))"

text \<open>
  One call: \<open>size = snprintf(buf_pos, buflen - (buf_pos - describe_buffer), ...)\<close>, then \<open>buf_pos\<close>
  advances by the length of the whole text.  The difference is one of \<open>size_t\<close> values.
\<close>

definition describe_part :: "addr \<Rightarrow> nat \<Rightarrow> mem \<times> addr \<Rightarrow> bytes \<Rightarrow> mem \<times> addr" where
  "describe_part describe_buffer buflen = (\<lambda>(m, buf_pos) txt.
     let (m, written) = snprintf m buf_pos (size_sub buflen (buf_pos - describe_buffer)) txt
     in (m, buf_pos + written))"

primrec describe_loop ::
  "nat \<Rightarrow> (nat \<Rightarrow> u32) \<Rightarrow> nat \<Rightarrow> addr \<Rightarrow> nat \<Rightarrow> mem \<times> addr \<Rightarrow> mem \<times> addr" where
  "describe_loop 0 index i describe_buffer buflen st = st"
| "describe_loop (Suc n) index i describe_buffer buflen st =
     describe_loop n index (i + 1) describe_buffer buflen
       (describe_part describe_buffer buflen st (cstr '' '' @ format_d (index i)))"

definition describe :: "Session \<Rightarrow> mem \<Rightarrow> addr \<Rightarrow> nat \<Rightarrow> mem" where
  "describe session m describe_buffer buflen =
     (if buflen = 0 then m
      else
        let m = m(describe_buffer := 0);
            ratchet = ss_ratchet session;
            st = (m, describe_buffer);
            st = describe_part describe_buffer buflen st
              (cstr ''sender chain index: '' @
               format_d (ck_index (sc_chain_key (ol_nth (rt_sender_chain ratchet) 0))) @ cstr '' '');
            st = describe_part describe_buffer buflen st (cstr ''receiver chain indices:'');
            st = describe_loop (ol_size (rt_receiver_chains ratchet))
              (\<lambda>i. ck_index (rc_chain_key (ol_nth (rt_receiver_chains ratchet) i))) 0
              describe_buffer buflen st;
            st = describe_part describe_buffer buflen st (cstr '' skipped message keys:'');
            st = describe_loop (ol_size (rt_skipped_message_keys ratchet))
              (\<lambda>i. mk_index (sm_message_key (ol_nth (rt_skipped_message_keys ratchet) i))) 0
              describe_buffer buflen st
        in fst st)"

section \<open>Pickling\<close>

definition SESSION_PICKLE_VERSION :: u32 where "SESSION_PICKLE_VERSION = 1"

definition pickle_session_length :: "Session \<Rightarrow> nat" where
  "pickle_session_length value =
     pickle_u32_length SESSION_PICKLE_VERSION + pickle_bool_length (ss_received_message value) +
     pickle_curve25519_public_key_length (ss_alice_identity_key value) +
     pickle_curve25519_public_key_length (ss_alice_base_key value) +
     pickle_curve25519_public_key_length (ss_bob_one_time_key value) +
     pickle_ratchet_length (ss_ratchet value)"

definition pickle_session :: "mem \<Rightarrow> addr \<Rightarrow> Session \<Rightarrow> mem \<times> addr" where
  "pickle_session m pos value =
     (let (m, pos) = pickle_u32 m pos SESSION_PICKLE_VERSION;
          (m, pos) = pickle_bool m pos (ss_received_message value);
          (m, pos) = pickle_curve25519_public_key m pos (ss_alice_identity_key value);
          (m, pos) = pickle_curve25519_public_key m pos (ss_alice_base_key value);
          (m, pos) = pickle_curve25519_public_key m pos (ss_bob_one_time_key value)
      in pickle_ratchet m pos (ss_ratchet value))"

definition unpickle_session :: "mem \<Rightarrow> addr \<Rightarrow> addr \<Rightarrow> Session \<Rightarrow> addr \<times> Session" where
  "unpickle_session m pos end value =
     (let (pos, pickle_version) = unpickle_u32 m pos end 0
      in if pickle_version = 1 \<or> pickle_version = 0x80000001 then
           let includes_chain_index = (pickle_version = 0x80000001);
               (pos, received_message) = unpickle_bool m pos end (ss_received_message value);
               (pos, alice_identity_key) =
                 unpickle_curve25519_public_key m pos end (ss_alice_identity_key value);
               (pos, alice_base_key) =
                 unpickle_curve25519_public_key m pos end (ss_alice_base_key value);
               (pos, bob_one_time_key) =
                 unpickle_curve25519_public_key m pos end (ss_bob_one_time_key value);
               (pos, ratchet) = unpickle_ratchet m pos end (ss_ratchet value) includes_chain_index
           in (pos, value\<lparr>ss_received_message := received_message,
                 ss_alice_identity_key := alice_identity_key, ss_alice_base_key := alice_base_key,
                 ss_bob_one_time_key := bob_one_time_key, ss_ratchet := ratchet\<rparr>)
         else (end, value\<lparr>ss_last_error := OLM_UNKNOWN_PICKLE_VERSION\<rparr>))"

section \<open>Well-formed sessions\<close>

definition wf_session :: "Session \<Rightarrow> bool" where
  "wf_session s \<longleftrightarrow> wf_ratchet (ss_ratchet s) \<and> length (ss_alice_identity_key s) = 32 \<and>
     length (ss_alice_base_key s) = 32 \<and> length (ss_bob_one_time_key s) = 32"

lemma wf_fresh_session: "wf_session fresh_session"
  by (simp add: wf_session_def fresh_session_def wf_new_ratchet)

text \<open>The constants of the constructor, which no operation changes.\<close>

definition constructor_params :: "Session \<Rightarrow> bool" where
  "constructor_params s \<longleftrightarrow> rt_cipher (ss_ratchet s) = OLM_CIPHER \<and> rt_kdf_info (ss_ratchet s) = OLM_KDF_INFO"

section \<open>The bytes of a message\<close>

definition session_message :: "Session \<Rightarrow> Ratchet \<Rightarrow> bytes \<Rightarrow> bytes" where
  "session_message s t pt =
     (if ss_received_message s then ratchet_message t pt
      else prekey_bytes PROTOCOL_VERSION (ss_bob_one_time_key s) (ss_alice_base_key s)
             (ss_alice_identity_key s) (ratchet_message t pt))"

definition body_pos :: "Session \<Rightarrow> addr \<Rightarrow> nat \<Rightarrow> addr" where
  "body_pos s out n = (if ss_received_message s then out else prekey_message_pos out 32 32 32 n)"

lemma ratchet_message_length:
  assumes "t = start_sender_chain L s random" "wf_ratchet t"
  shows "length (ratchet_message t pt) = encrypt_output_length s (length pt)"
  using length_ratchet_message [OF assms(2), of pt] start_sender_chain_nonempty [of L s random]
    start_sender_chain_output_length [of L s random "length pt"] by (simp add: assms(1))

lemma length_session_message:
  assumes "wf_session s" "t = start_sender_chain L (ss_ratchet s) random" "wf_ratchet t"
  shows "length (session_message s t pt) = encrypt_message_length s (length pt)"
  using ratchet_message_length [OF assms(2,3), of pt] assms(1)
  by (simp add: session_message_def encrypt_message_length_def wf_session_def length_prekey_bytes
      CURVE25519_KEY_LENGTH_def)

text \<open>The header and the three keys of a pre-key message leave room for the body.\<close>

lemma prekey_header:
  assumes e: "encode_one_time_key_message m version 32 32 32 n out = (m1, w)"
    and k: "length otk = 32" "length base = 32" "length idk = 32"
    and m2: "m2 = fst (store_array (fst (store_array (fst (store_array m1 (pw_one_time_key w) otk))
      (pw_identity_key w) idk)) (pw_base_key w) base)"
  shows "pw_message w = prekey_message_pos out 32 32 32 n"
    "length msg = n \<Longrightarrow> wr m2 (pw_message w) msg = wr m out (prekey_bytes version otk base idk msg)"
    "pw_message w + n = out + length (prekey_bytes version otk base idk (replicate n 0))"
    "a + k \<le> out \<or> out + length (prekey_bytes version otk base idk (replicate n 0)) \<le> a \<Longrightarrow> rd m2 a k = rd m a k"
proof -
  show pos: "pw_message w = prekey_message_pos out 32 32 32 n"
    using e by (auto simp: encode_one_time_key_message_def encode_bytes_wr Let_def prekey_message_pos_def
        prekey_identity_pos_def prekey_base_pos_def prekey_otk_pos_def add.assoc)
  have order: "pw_base_key w + 32 \<le> pw_identity_key w"
    using e by (auto simp: encode_one_time_key_message_def encode_bytes_wr Let_def)
  have m2': "m2 = wr (wr (wr m1 (pw_one_time_key w) otk) (pw_base_key w) base) (pw_identity_key w) idk"
    unfolding m2 store_array_def fst_conv using order k by (subst wr_comm) auto
  show w: "wr m2 (pw_message w) msg = wr m out (prekey_bytes version otk base idk msg)"
    if "length msg = n" for msg
    using encode_one_time_key_message_layout [of m version idk base otk msg out m1 w] e k that
    by (simp add: m2')
  show lim: "pw_message w + n = out + length (prekey_bytes version otk base idk (replicate n 0))"
    by (simp add: pos prekey_message_pos_def prekey_identity_pos_def prekey_base_pos_def
        prekey_otk_pos_def prekey_bytes_def field_split k)
  assume d: "a + k \<le> out \<or> out + length (prekey_bytes version otk base idk (replicate n 0)) \<le> a"
  have "out \<le> pw_message w"
    by (simp add: pos prekey_message_pos_def prekey_identity_pos_def prekey_base_pos_def prekey_otk_pos_def)
  then have "rd m2 a k = rd (wr m2 (pw_message w) (replicate n 0)) a k"
    using d lim by (subst rd_wr_disj) auto
  also have "\<dots> = rd m a k"
    unfolding w [of "replicate n 0", OF length_replicate] using d by (subst rd_wr_disj) auto
  finally show "rd m2 a k = rd m a k" .
qed

lemma session_encrypt_wr:
  assumes t: "t = start_sender_chain L (ss_ratchet s) random" and wf: "wf_session s" "wf_ratchet t"
    and rnd: "encrypt_random_length (ss_ratchet s) \<le> length random"
    and len: "encrypt_message_length s n \<le> max_len"
    and disj: "pt + n \<le> out \<or> out + encrypt_message_length s n \<le> pt"
  shows "session_encrypt L s m pt n random out max_len =
    (s\<lparr>ss_ratchet := advance_sender t\<rparr>, wr m out (session_message s t (rd m pt n)),
     Some (encrypt_output_length (ss_ratchet s) n))"
proof -
  let ?k = "encrypt_output_length (ss_ratchet s) n" and ?msg = "rd m pt n"
  have lm: "length (ratchet_message t ?msg) = ?k" using ratchet_message_length [OF t wf(2), of ?msg] by simp
  show ?thesis
  proof (cases "ss_received_message s")
    case True
    have "ratchet_encrypt L (ss_ratchet s) m pt n random out ?k =
        (advance_sender t, wr m out (ratchet_message t ?msg), Some ?k)"
      using disj True by (intro ratchet_encrypt_wr [OF t wf(2) rnd]) (simp_all add: encrypt_message_length_def)
    then show ?thesis
      using True len by (simp add: session_encrypt_def session_message_def Let_def)
  next
    case False
    obtain m1 w where e: "encode_one_time_key_message m PROTOCOL_VERSION 32 32 32 ?k out = (m1, w)" by fastforce
    let ?otk = "ss_bob_one_time_key s" and ?idk = "ss_alice_identity_key s" and ?base = "ss_alice_base_key s"
    obtain m2 where m2: "m2 = fst (store_array (fst (store_array (fst (store_array m1 (pw_one_time_key w) ?otk))
      (pw_identity_key w) ?idk)) (pw_base_key w) ?base)" by simp
    have k: "length ?otk = 32" "length ?base = 32" "length ?idk = 32" using wf(1) by (simp_all add: wf_session_def)
    note h = prekey_header [OF e k m2]
    have total: "length (prekey_bytes PROTOCOL_VERSION ?otk ?base ?idk (replicate ?k 0)) = encrypt_message_length s n"
      using False k by (simp add: encrypt_message_length_def length_prekey_bytes CURVE25519_KEY_LENGTH_def)
    have "out \<le> pw_message w"
      by (simp add: h(1) prekey_message_pos_def prekey_identity_pos_def prekey_base_pos_def prekey_otk_pos_def)
    then have "pt + n \<le> pw_message w \<or> pw_message w + ?k \<le> pt" using h(3) disj total by linarith
    from ratchet_encrypt_wr [OF t wf(2) rnd order.refl this]
    have r: "ratchet_encrypt L (ss_ratchet s) m2 pt n random (pw_message w) ?k =
        (advance_sender t, wr m2 (pw_message w) (ratchet_message t (rd m2 pt n)), Some ?k)" .
    have pt: "rd m2 pt n = ?msg" using h(4) disj total by simp
    show ?thesis
      using False len e r h(2) [OF lm]
      by (simp add: session_encrypt_def CURVE25519_KEY_LENGTH_def m2 [symmetric] session_message_def Let_def pt)
  qed
qed

lemma message_body_found:
  assumes st: "stored m inp (session_message s t pt)" and wf: "wf_session s"
    and len: "length (ratchet_message t pt) < 2 ^ 64"
  shows "message_body junk (encrypt_message_type s) m inp (length (session_message s t pt)) =
      Some (body_pos s inp (length (ratchet_message t pt)), length (ratchet_message t pt))"
    "stored m (body_pos s inp (length (ratchet_message t pt))) (ratchet_message t pt)"
    "body_pos s inp (length (ratchet_message t pt)) + length (ratchet_message t pt) =
       inp + length (session_message s t pt)"
    "inp \<le> body_pos s inp (length (ratchet_message t pt))"
proof -
  let ?otk = "ss_bob_one_time_key s" and ?idk = "ss_alice_identity_key s" and ?base = "ss_alice_base_key s"
  have k: "length ?otk = 32" "length ?base = 32" "length ?idk = 32" using wf by (simp_all add: wf_session_def)
  note pos = prekey_message_pos_def prekey_identity_pos_def prekey_base_pos_def prekey_otk_pos_def
  show "inp \<le> body_pos s inp (length (ratchet_message t pt))" by (simp add: body_pos_def pos)
  show "body_pos s inp (length (ratchet_message t pt)) + length (ratchet_message t pt) =
       inp + length (session_message s t pt)"
    by (simp add: body_pos_def pos session_message_def prekey_bytes_def field_split k)
  show "stored m (body_pos s inp (length (ratchet_message t pt))) (ratchet_message t pt)"
    using st prekey_fields(4) [of m inp PROTOCOL_VERSION ?otk ?base ?idk "ratchet_message t pt"] k
    by (simp add: session_message_def body_pos_def split: if_splits)
  show "message_body junk (encrypt_message_type s) m inp (length (session_message s t pt)) =
      Some (body_pos s inp (length (ratchet_message t pt)), length (ratchet_message t pt))"
    using decode_one_time_key_message_bytes [of m inp PROTOCOL_VERSION ?otk ?base ?idk "ratchet_message t pt" junk]
      st k len
    by (simp add: message_body_def encrypt_message_type_def session_message_def body_pos_def split: if_splits)
qed

section \<open>The handshake\<close>

definition account_generated :: "crypto_lib \<Rightarrow> Account \<Rightarrow> bool" where
  "account_generated L a \<longleftrightarrow> wf_account a \<and> generated L (ik_curve25519_key (ac_identity_keys a)) \<and>
     (\<forall>k\<in>set (keys a). generated L (otk_key k))"

lemma generated_key: "32 \<le> length r \<Longrightarrow> generated L (curve25519_generate_key L r)"
  by (simp add: generated_def curve25519_generate_key_def Let_def)

lemma generate_key_take: "curve25519_generate_key L (take 32 r) = curve25519_generate_key L r"
  by (simp add: curve25519_generate_key_def)

lemma shared_secret_agrees:
  assumes "crypto_lib_ok L" "generated L a" "generated L b"
  shows "curve25519_shared_secret L a (c_public b) = curve25519_shared_secret L b (c_public a)"
  using assms by (simp add: crypto_lib_ok_def generated_def curve25519_shared_secret_def)

text \<open>The session Bob makes of the first message, with any key he looks up.\<close>

definition inbound_session :: "crypto_lib \<Rightarrow> Session \<Rightarrow> Account \<Rightarrow> Session \<Rightarrow> curve25519_key_pair \<Rightarrow> bytes \<Rightarrow> Session" where
  "inbound_session L f bob s one_time_key ratchet_key = f
     \<lparr>ss_alice_identity_key := ss_alice_identity_key s, ss_alice_base_key := ss_alice_base_key s,
      ss_bob_one_time_key := ss_bob_one_time_key s,
      ss_ratchet := initialise_as_bob (ss_ratchet f)
        (curve25519_shared_secret L one_time_key (ss_alice_identity_key s) @
         curve25519_shared_secret L (ik_curve25519_key (ac_identity_keys bob)) (ss_alice_base_key s) @
         curve25519_shared_secret L one_time_key (ss_alice_base_key s)) ratchet_key\<rparr>"

lemma new_inbound_message:
  assumes st: "stored m inp (session_message s t pt)" and wf: "wf_session s" "wf_ratchet t"
    and first: "\<not> ss_received_message s" "their \<in> {None, Some (ss_alice_identity_key s)}"
    and len: "length (ratchet_message t pt) < 2 ^ 64" "aes_encrypt_cbc_length (length pt) < 2 ^ 64"
    and bob: "wf_account bob"
  shows "new_inbound_session L junk junkm f bob their m inp (length (session_message s t pt)) =
    (case lookup_key bob (ss_bob_one_time_key s) of
       None \<Rightarrow> Some (f\<lparr>ss_alice_identity_key := ss_alice_identity_key s,
           ss_alice_base_key := ss_alice_base_key s, ss_bob_one_time_key := ss_bob_one_time_key s,
           ss_last_error := OLM_BAD_MESSAGE_KEY_ID\<rparr>, None)
     | Some i \<Rightarrow> Some (inbound_session L f bob s (otk_key (keys bob ! i))
           (c_public (sc_ratchet_key (sender_chain t))), Some 0))"
proof -
  let ?otk = "ss_bob_one_time_key s" and ?idk = "ss_alice_identity_key s" and ?base = "ss_alice_base_key s"
  let ?msg = "ratchet_message t pt"
  have k: "length ?otk = 32" "length ?base = 32" "length ?idk = 32" using wf(1) by (simp_all add: wf_session_def)
  have st': "stored m inp (prekey_bytes PROTOCOL_VERSION ?otk ?base ?idk ?msg)"
    using st first(1) by (simp add: session_message_def)
  note f = prekey_fields [OF st', unfolded k]
  note d = decode_one_time_key_message_bytes [OF st', of junk, unfolded k]
  have d: "decode_one_time_key_message m junk inp (length (session_message s t pt)) = junk
    \<lparr>pk_version := PROTOCOL_VERSION,
     pk_one_time_key := Some (prekey_otk_pos inp 32), pk_one_time_key_length := 32,
     pk_base_key := Some (prekey_base_pos inp 32 32), pk_base_key_length := 32,
     pk_identity_key := Some (prekey_identity_pos inp 32 32 32), pk_identity_key_length := 32,
     pk_message := Some (prekey_message_pos inp 32 32 32 (length ?msg)), pk_message_length := length ?msg\<rparr>"
    using d len(1) first(1) by (simp add: session_message_def)
  note r = decode_ratchet_message [OF f(4) sender_public_length [OF wf(2)] len(2)]
  have i: "i < ol_end (ac_one_time_keys bob)" if "lookup_key bob ?otk = Some i" for i
    using lookup_key_Some(1) [OF bob k(1) that] by simp
  have "rd m (prekey_identity_pos inp 32 32 32) 32 = ?idk" "rd m (prekey_base_pos inp 32 32) 32 = ?base"
    "rd m (prekey_otk_pos inp 32) 32 = ?otk"
    using f k by (simp_all add: stored_rd)
  then show ?thesis
    unfolding new_inbound_session_def d
    using first(2) r i
    by (auto simp: check_message_fields_def CURVE25519_KEY_LENGTH_def load_array_def Let_def
        cipher_mac_length_def MAC_LENGTH_def message_reader_def inbound_session_def ol_nth_def
        split: option.split)
qed

lemma outbound_session_eq:
  assumes "64 \<le> length random"
  shows "new_outbound_session L s alice idk otk random =
    (s\<lparr>ss_received_message := False,
       ss_alice_identity_key := c_public (ik_curve25519_key (ac_identity_keys alice)),
       ss_alice_base_key := c_public (curve25519_generate_key L random), ss_bob_one_time_key := otk,
       ss_ratchet := initialise_as_alice (ss_ratchet s)
         (curve25519_shared_secret L (ik_curve25519_key (ac_identity_keys alice)) otk @
          curve25519_shared_secret L (curve25519_generate_key L random) idk @
          curve25519_shared_secret L (curve25519_generate_key L random) otk)
         (curve25519_generate_key L (drop 32 random))\<rparr>, Some 0)"
  using assms by (simp add: new_outbound_session_def new_outbound_session_random_length_def
      CURVE25519_RANDOM_LENGTH_def Let_def)

lemma handshake_in_sync:
  assumes L: "crypto_lib_ok L" and acc: "account_generated L alice" "account_generated L bob"
    and r: "64 \<le> length random" and i: "lookup_key bob otk = Some i" "length otk = 32"
    and a: "new_outbound_session L fresh_session alice (c_public (ik_curve25519_key (ac_identity_keys bob)))
      otk random = (a, Some 0)"
    and b: "b = inbound_session L fresh_session bob a (otk_key (keys bob ! i))
      (c_public (sc_ratchet_key (sender_chain (ss_ratchet a))))"
  shows "in_sync L (ss_ratchet a) (ss_ratchet b)" "wf_session a" "wf_session b"
    "\<not> ss_received_message a" "ss_bob_one_time_key a = otk"
    "ss_alice_identity_key a = c_public (ik_curve25519_key (ac_identity_keys alice))"
    "constructor_params a"
proof -
  let ?A = "ik_curve25519_key (ac_identity_keys alice)" and ?B = "ik_curve25519_key (ac_identity_keys bob)"
  let ?E = "curve25519_generate_key L random" and ?K = "curve25519_generate_key L (drop 32 random)"
  let ?O = "otk_key (keys bob ! i)"
  have wfb: "wf_account bob" using acc(2) by (simp add: account_generated_def)
  note o = lookup_key_Some [OF wfb i(2,1)]
  have otk: "otk = c_public ?O" using o(2) by simp
  have g: "generated L ?A" "generated L ?B" "generated L ?E" "generated L ?O"
    using acc r o(1) nth_mem [OF o(1)] by (auto simp: account_generated_def generated_key simp del: nth_items)
  let ?S = "curve25519_shared_secret L ?A otk @ curve25519_shared_secret L ?E (c_public ?B) @
    curve25519_shared_secret L ?E otk"
  have a': "a = fresh_session\<lparr>ss_received_message := False, ss_alice_identity_key := c_public ?A,
       ss_alice_base_key := c_public ?E, ss_bob_one_time_key := otk,
       ss_ratchet := initialise_as_alice (ss_ratchet fresh_session) ?S ?K\<rparr>"
    using a r by (simp add: outbound_session_eq)
  have S: "?S = curve25519_shared_secret L ?O (c_public ?A) @ curve25519_shared_secret L ?B (c_public ?E) @
      curve25519_shared_secret L ?O (c_public ?E)"
    unfolding otk using shared_secret_agrees [OF L] g by metis
  have rk: "sc_ratchet_key (sender_chain (ss_ratchet a)) = ?K"
    by (simp add: a' initialise_as_alice_def fresh_session_def new_ratchet_def Let_def ol_insert_begin_def
        ol_insert_def ol_new_def ol_set_def sender_chain_def ol_nth_def)
  have b': "ss_ratchet b = initialise_as_bob (ss_ratchet fresh_session) ?S (c_public ?K)"
    unfolding b inbound_session_def S rk by (simp add: a')
  show sync: "in_sync L (ss_ratchet a) (ss_ratchet b)"
    using initial_in_sync [OF L, of "take 32 (drop 32 random)" ?K OLM_KDF_INFO OLM_CIPHER ?S] r
    by (simp add: a' b' fresh_session_def generate_key_take)
  have len: "length (c_public ?A) = 32" "length (c_public ?E) = 32" "length otk = 32"
    using acc(1) i(2) wf_generated_pair_take [OF L, of random] r
    by (simp_all add: account_generated_def wf_account_def wf_identity_keys_def wf_curve_pair_def)
  show "wf_session a" "wf_session b"
    using sync len by (simp_all add: wf_session_def in_sync_def a' b inbound_session_def)
  show "\<not> ss_received_message a" "ss_bob_one_time_key a = otk" "ss_alice_identity_key a = c_public ?A"
    by (simp_all add: a')
  show "constructor_params a"
    by (simp add: a' constructor_params_def initialise_as_alice_def fresh_session_def new_ratchet_def Let_def)
qed

section \<open>Exchanging messages\<close>

text \<open>The first party encrypts, the second decrypts the buffer with the message type announced.\<close>

definition session_exchange ::
  "crypto_lib \<Rightarrow> PreKeyMessageReader \<Rightarrow> MessageReader \<Rightarrow> Session \<Rightarrow> Session \<Rightarrow> mem \<Rightarrow> addr \<Rightarrow> nat \<Rightarrow>
   bytes \<Rightarrow> addr \<Rightarrow> addr \<Rightarrow> Session \<times> Session \<times> mem \<times> nat option" where
  "session_exchange L junk junkm a b m pt n random out buf =
     (case session_encrypt L a m pt n random out (encrypt_message_length a n) of
        (a', m, None) \<Rightarrow> (a', b, m, None)
      | (a', m, Some _) \<Rightarrow>
          let (b', m, r) = session_decrypt L junk junkm b (encrypt_message_type a) m out
                (encrypt_message_length a n) buf (aes_encrypt_cbc_length n)
          in (a', b', m, r))"

text \<open>
  The caller's part: buffers that do not overlap, and 32 random bytes with a key pair that is new to
  the other party when a new chain has to be started.
\<close>

definition session_exchange_ok ::
  "crypto_lib \<Rightarrow> Session \<Rightarrow> Session \<Rightarrow> addr \<Rightarrow> nat \<Rightarrow> bytes \<Rightarrow> addr \<Rightarrow> addr \<Rightarrow> bool" where
  "session_exchange_ok L a b pt n random out buf \<longleftrightarrow>
     encrypt_output_length (ss_ratchet a) n < 2 ^ 64 \<and>
     (pt + n \<le> out \<or> out + encrypt_message_length a n \<le> pt) \<and>
     (buf + aes_encrypt_cbc_length n \<le> out \<or> out + encrypt_message_length a n \<le> buf) \<and>
     (ol_empty (rt_sender_chain (ss_ratchet a)) \<longrightarrow> length random = 32 \<and>
        find_chain (ol_size (rt_receiver_chains (ss_ratchet b))) (rt_receiver_chains (ss_ratchet b))
          (c_public (curve25519_generate_key L random)) 0 = None)"

definition sessions_in_sync :: "crypto_lib \<Rightarrow> Session \<Rightarrow> Session \<Rightarrow> bool" where
  "sessions_in_sync L a b \<longleftrightarrow> wf_session a \<and> wf_session b \<and>
     (in_sync L (ss_ratchet a) (ss_ratchet b) \<or> in_sync L (ss_ratchet b) (ss_ratchet a))"

text \<open>The keys that make up a session's id.\<close>

definition session_keys :: "Session \<Rightarrow> bytes \<times> bytes \<times> bytes" where
  "session_keys s = (ss_alice_identity_key s, ss_alice_base_key s, ss_bob_one_time_key s)"

lemma encrypt_output_length_cbc: "aes_encrypt_cbc_length n < encrypt_output_length s n"
  by (simp add: encrypt_output_length_def Let_def encode_message_length_def varstring_length_def
      cipher_encrypt_ciphertext_length_def)

lemma session_keys_update [simp]:
  "session_keys (s\<lparr>ss_ratchet := r\<rparr>) = session_keys s"
  "session_keys (s\<lparr>ss_received_message := x\<rparr>) = session_keys s"
  by (simp_all add: session_keys_def)

text \<open>A message of a session is decrypted wherever it was carried.\<close>

lemma session_message_delivered:
  assumes L: "crypto_lib_ok L" and sync: "sessions_in_sync L a b"
    and fresh: "ol_empty (rt_sender_chain (ss_ratchet a)) \<longrightarrow> length random = 32 \<and>
      find_chain (ol_size (rt_receiver_chains (ss_ratchet b))) (rt_receiver_chains (ss_ratchet b))
        (c_public (curve25519_generate_key L random)) 0 = None"
    and t: "t = start_sender_chain L (ss_ratchet a) random"
    and small: "encrypt_output_length (ss_ratchet a) (length msg) < 2 ^ 64"
    and st: "stored m inp (session_message a t msg)"
    and disj: "buf + aes_encrypt_cbc_length (length msg) \<le> inp \<or>
      inp + encrypt_message_length a (length msg) \<le> buf"
    and k: "aes_encrypt_cbc_length (length msg) \<le> k"
  obtains b' where
    "session_decrypt L junk junkm b (encrypt_message_type a) m inp (encrypt_message_length a (length msg)) buf k =
      (b', wr m buf (pkcs7 msg), Some (length msg))"
    "sessions_in_sync L (a\<lparr>ss_ratchet := advance_sender t\<rparr>) b'" "session_keys b' = session_keys b"
    "ss_received_message b'"
proof -
  let ?ra = "ss_ratchet a" and ?rb = "ss_ratchet b"
  have wf: "wf_session a" "wf_session b" and rs: "in_sync L ?ra ?rb \<or> in_sync L ?rb ?ra"
    using sync by (simp_all add: sessions_in_sync_def)
  have wft: "wf_ratchet t" using sender_ready [OF L rs, of random, folded t] fresh by blast
  let ?msg = "session_message a t msg" and ?body = "ratchet_message t msg"
  have lm: "length ?msg = encrypt_message_length a (length msg)" "length ?body = encrypt_output_length ?ra (length msg)"
    using length_session_message [OF wf(1) t wft, of msg] ratchet_message_length [OF t wft, of msg] by simp_all
  have small': "length ?body < 2 ^ 64" "aes_encrypt_cbc_length (length msg) < 2 ^ 64"
    using small encrypt_output_length_cbc [of "length msg" ?ra] lm(2) by simp_all
  note body = message_body_found [OF st wf(1) small'(1), unfolded lm(1)]
  let ?p = "body_pos a inp (length ?body)"
  have disj': "buf + aes_encrypt_cbc_length (length msg) \<le> ?p \<or> ?p + length ?body \<le> buf"
    using disj body(3,4) by auto
  obtain b' where b': "ratchet_decrypt L junkm ?rb m ?p (length ?body) buf k =
      (b', wr m buf (pkcs7 msg), Some (length msg))" "in_sync L (advance_sender t) b'"
    using sent_message_delivered [OF L rs fresh t small'(2) _ body(2) disj', of k junkm] k by auto
  let ?b' = "b\<lparr>ss_ratchet := b', ss_received_message := True\<rparr>"
  have "session_decrypt L junk junkm b (encrypt_message_type a) m inp (encrypt_message_length a (length msg)) buf k =
      (?b', wr m buf (pkcs7 msg), Some (length msg))"
    using body(1) b'(1) by (simp add: session_decrypt_def)
  moreover have "sessions_in_sync L (a\<lparr>ss_ratchet := advance_sender t\<rparr>) ?b'"
    using wf b'(2) by (simp add: sessions_in_sync_def wf_session_def in_sync_def)
  ultimately show thesis by (rule that) simp_all
qed

lemma stored_pkcs7: "stored (wr m buf (pkcs7 msg)) buf msg"
  using stored_wr [of m buf "pkcs7 msg"] by (simp add: pkcs7_def)

lemma session_exchange_in_sync:
  assumes L: "crypto_lib_ok L" and ok: "session_exchange_ok L a b pt n random out buf"
    and sync: "sessions_in_sync L a b" and st: "stored m pt msg" "length msg = n"
  obtains a' b' m' where
    "session_exchange L junk junkm a b m pt n random out buf = (a', b', m', Some n)"
    "sessions_in_sync L a' b'" "stored m' buf msg" "session_keys a' = session_keys a"
    "session_keys b' = session_keys b" "ss_received_message a' = ss_received_message a"
    "ss_received_message b'" "constructor_params a' = constructor_params a"
proof -
  define t where "t = start_sender_chain L (ss_ratchet a) random"
  have wf: "wf_session a" and rs: "in_sync L (ss_ratchet a) (ss_ratchet b) \<or> in_sync L (ss_ratchet b) (ss_ratchet a)"
    using sync by (simp_all add: sessions_in_sync_def)
  have fresh: "ol_empty (rt_sender_chain (ss_ratchet a)) \<longrightarrow> length random = 32 \<and>
      find_chain (ol_size (rt_receiver_chains (ss_ratchet b))) (rt_receiver_chains (ss_ratchet b))
        (c_public (curve25519_generate_key L random)) 0 = None"
    using ok by (simp add: session_exchange_ok_def)
  have wft: "wf_ratchet t" and rnd: "encrypt_random_length (ss_ratchet a) \<le> length random"
    using sender_ready [OF L rs, of random, folded t_def] fresh by blast+
  let ?m1 = "wr m out (session_message a t msg)"
  have enc: "session_encrypt L a m pt n random out (encrypt_message_length a n) =
      (a\<lparr>ss_ratchet := advance_sender t\<rparr>, ?m1, Some (encrypt_output_length (ss_ratchet a) n))"
    using session_encrypt_wr [OF t_def wf wft rnd order.refl, of pt n out m] ok st
    by (simp add: session_exchange_ok_def stored_rd)
  have small: "encrypt_output_length (ss_ratchet a) (length msg) < 2 ^ 64"
    and disj: "buf + aes_encrypt_cbc_length (length msg) \<le> out \<or>
      out + encrypt_message_length a (length msg) \<le> buf"
    using ok st(2) by (simp_all add: session_exchange_ok_def)
  obtain b' where "session_decrypt L junk junkm b (encrypt_message_type a) ?m1 out
      (encrypt_message_length a (length msg)) buf (aes_encrypt_cbc_length n) =
      (b', wr ?m1 buf (pkcs7 msg), Some (length msg))"
    "sessions_in_sync L (a\<lparr>ss_ratchet := advance_sender t\<rparr>) b'" "session_keys b' = session_keys b"
    "ss_received_message b'"
    by (rule session_message_delivered [OF L sync fresh t_def small stored_wr disj,
          of "aes_encrypt_cbc_length n" junk junkm]) (simp add: st(2))
  then show thesis
    using enc st(2) stored_pkcs7 [of ?m1 buf msg]
    by (intro that [of "a\<lparr>ss_ratchet := advance_sender t\<rparr>" b' "wr ?m1 buf (pkcs7 msg)"])
      (simp_all add: session_exchange_def constructor_params_def t_def start_sender_chain_simps)
qed

section \<open>Establishing a session\<close>

text \<open>
  Alice makes an outbound session from Bob's published keys and encrypts a first message; Bob makes
  an inbound session from it and decrypts it.  \<open>None\<close> if any of the four calls fails.
\<close>

definition establish ::
  "crypto_lib \<Rightarrow> PreKeyMessageReader \<Rightarrow> MessageReader \<Rightarrow> Account \<Rightarrow> Account \<Rightarrow> bytes \<Rightarrow> bytes \<Rightarrow> mem \<Rightarrow>
   addr \<Rightarrow> nat \<Rightarrow> addr \<Rightarrow> addr \<Rightarrow> (Session \<times> Session \<times> mem \<times> nat) option" where
  "establish L junk junkm alice bob one_time_key random m pt n out buf =
     (case new_outbound_session L fresh_session alice
         (c_public (ik_curve25519_key (ac_identity_keys bob))) one_time_key random of
        (_, None) \<Rightarrow> None
      | (a, Some _) \<Rightarrow>
     (case session_encrypt L a m pt n [] out (encrypt_message_length a n) of
        (_, _, None) \<Rightarrow> None
      | (a', m, Some _) \<Rightarrow>
     (case new_inbound_session L junk junkm fresh_session bob None m out (encrypt_message_length a n) of
        Some (b, Some _) \<Rightarrow>
          (case session_decrypt L junk junkm b PRE_KEY m out (encrypt_message_length a n) buf
              (aes_encrypt_cbc_length n) of
             (_, _, None) \<Rightarrow> None
           | (b', m, Some len) \<Rightarrow> Some (a', b', m, len))
      | _ \<Rightarrow> None)))"

definition establish_ok ::
  "crypto_lib \<Rightarrow> Account \<Rightarrow> Account \<Rightarrow> bytes \<Rightarrow> bytes \<Rightarrow> addr \<Rightarrow> nat \<Rightarrow> addr \<Rightarrow> addr \<Rightarrow> bool" where
  "establish_ok L alice bob one_time_key random pt n out buf \<longleftrightarrow>
     account_generated L alice \<and> account_generated L bob \<and>
     one_time_key \<in> c_public ` otk_key ` set (keys bob) \<and> length random = 64 \<and>
     (let a = fst (new_outbound_session L fresh_session alice
           (c_public (ik_curve25519_key (ac_identity_keys bob))) one_time_key random)
      in encrypt_output_length (ss_ratchet a) n < 2 ^ 64 \<and>
         (pt + n \<le> out \<or> out + encrypt_message_length a n \<le> pt) \<and>
         (buf + aes_encrypt_cbc_length n \<le> out \<or> out + encrypt_message_length a n \<le> buf))"

lemma establish_in_sync:
  assumes L: "crypto_lib_ok L" and ok: "establish_ok L alice bob otk random pt n out buf"
    and st: "stored m pt msg" "length msg = n"
  obtains a b m' where
    "establish L junk junkm alice bob otk random m pt n out buf = Some (a, b, m', n)"
    "sessions_in_sync L a b" "stored m' buf msg" "session_keys a = session_keys b"
    "ss_alice_identity_key b = c_public (ik_curve25519_key (ac_identity_keys alice))"
    "ss_bob_one_time_key b = otk" "\<not> ss_received_message a" "ss_received_message b" "constructor_params a"
proof -
  let ?bk = "c_public (ik_curve25519_key (ac_identity_keys bob))"
  have acc: "account_generated L alice" "account_generated L bob" and r: "64 \<le> length random"
    using ok by (simp_all add: establish_ok_def)
  then have wfb: "wf_account bob" by (simp add: account_generated_def)
  have otk: "otk \<in> c_public ` otk_key ` set (keys bob)" using ok by (simp add: establish_ok_def)
  then obtain x where x: "x \<in> set (keys bob)" "otk = c_public (otk_key x)" by blast
  then have "valid_one_time_key x" using wfb by (auto simp: wf_account_def intro: list_wf_items)
  then have lo: "length otk = 32" by (simp add: x(2) valid_one_time_key_def wf_curve_pair_def)
  have "lookup_key bob otk \<noteq> None" using lookup_key_None [OF wfb lo] x by auto
  then obtain i where i: "lookup_key bob otk = Some i" by blast
  obtain a where a: "new_outbound_session L fresh_session alice ?bk otk random = (a, Some 0)"
    using outbound_session_eq [OF r, of L fresh_session alice ?bk otk] by blast
  let ?b = "inbound_session L fresh_session bob a (otk_key (keys bob ! i))
      (c_public (sc_ratchet_key (sender_chain (ss_ratchet a))))"
  note h = handshake_in_sync [OF L acc r i lo a refl]
  have wf: "wf_ratchet (ss_ratchet a)" and ne: "\<not> ol_empty (rt_sender_chain (ss_ratchet a))"
    using h(1) by (simp_all add: in_sync_def can_reply_def)
  have t: "start_sender_chain L (ss_ratchet a) [] = ss_ratchet a" using ne by (simp add: start_sender_chain_simps)
  have eok: "session_exchange_ok L a ?b pt n [] out buf"
    using ok ne a by (simp add: establish_ok_def session_exchange_ok_def)
  have sync: "sessions_in_sync L a ?b" using h(1-3) by (simp add: sessions_in_sync_def)
  obtain a' b' m' where ex: "session_exchange L junk junkm a ?b m pt n [] out buf = (a', b', m', Some n)"
    "sessions_in_sync L a' b'" "stored m' buf msg" "session_keys a' = session_keys a"
    "session_keys b' = session_keys ?b" "ss_received_message a' = ss_received_message a"
    "ss_received_message b'" "constructor_params a' = constructor_params a"
    by (rule session_exchange_in_sync [OF L eok sync st, where junk = junk and junkm = junkm])
  have rnd: "encrypt_random_length (ss_ratchet a) \<le> length ([] :: bytes)" using ne by (simp add: encrypt_random_length_def)
  have enc: "session_encrypt L a m pt n [] out (encrypt_message_length a n) =
      (a\<lparr>ss_ratchet := advance_sender (ss_ratchet a)\<rparr>, wr m out (session_message a (ss_ratchet a) msg),
       Some (encrypt_output_length (ss_ratchet a) n))"
    using session_encrypt_wr [OF t [symmetric] h(2) wf rnd order.refl, of pt n out m] eok st
    by (simp add: session_exchange_ok_def stored_rd)
  have lm: "length (session_message a (ss_ratchet a) msg) = encrypt_message_length a n"
    "length (ratchet_message (ss_ratchet a) msg) = encrypt_output_length (ss_ratchet a) n"
    using length_session_message [OF h(2) t [symmetric] wf, of msg] st(2)
      ratchet_message_length [OF t [symmetric] wf, of msg] by simp_all
  have small: "length (ratchet_message (ss_ratchet a) msg) < 2 ^ 64" "aes_encrypt_cbc_length (length msg) < 2 ^ 64"
    using eok encrypt_output_length_cbc [of n "ss_ratchet a"] st(2) by (simp_all add: lm session_exchange_ok_def)
  have inb: "new_inbound_session L junk junkm fresh_session bob None (wr m out (session_message a (ss_ratchet a) msg))
      out (encrypt_message_length a n) = Some (?b, Some 0)"
    using new_inbound_message [of "wr m out (session_message a (ss_ratchet a) msg)" out a
        "ss_ratchet a" msg None bob L junk junkm fresh_session, OF stored_wr h(2) wf h(4) _ small wfb] i h(5) by (simp add: lm(1))
  have ty: "encrypt_message_type a = PRE_KEY" using h(4) by (simp add: encrypt_message_type_def)
  have "establish L junk junkm alice bob otk random m pt n out buf = Some (a', b', m', n)"
    using ex(1) by (simp add: establish_def a session_exchange_def enc inb ty split: prod.splits option.splits)
  moreover have "session_keys a' = session_keys b'"
    by (simp add: ex(4,5)) (simp add: session_keys_def inbound_session_def)
  moreover have "ss_alice_identity_key b' = c_public (ik_curve25519_key (ac_identity_keys alice))"
    "ss_bob_one_time_key b' = otk"
    using ex(5) h(5,6) by (simp_all add: session_keys_def inbound_session_def)
  moreover have "constructor_params a'"
    using ex(8) h(7) by simp
  ultimately show thesis using ex(2,3,6,7) h(4) by (intro that) simp_all
qed

text \<open>Sessions in sync have the same constants.\<close>

lemma in_sync_constructor_params:
  "sessions_in_sync L a b \<Longrightarrow> constructor_params b = constructor_params a"
  by (auto simp: sessions_in_sync_def in_sync_def in_step_def constructor_params_def)

section \<open>Conversations of sessions\<close>

inductive olm_conversation :: "crypto_lib \<Rightarrow> Session \<Rightarrow> Session \<Rightarrow> bool" for L where
  established: "establish_ok L alice bob otk random pt n out buf \<Longrightarrow>
    establish L junk junkm alice bob otk random m pt n out buf = Some (a, b, m', k) \<Longrightarrow>
    olm_conversation L a b"
| left: "olm_conversation L a b \<Longrightarrow> session_exchange_ok L a b pt n random out buf \<Longrightarrow>
    session_exchange L junk junkm a b m pt n random out buf = (a', b', m', r) \<Longrightarrow> olm_conversation L a' b'"
| right: "olm_conversation L a b \<Longrightarrow> session_exchange_ok L b a pt n random out buf \<Longrightarrow>
    session_exchange L junk junkm b a m pt n random out buf = (b', a', m', r) \<Longrightarrow> olm_conversation L a' b'"

lemma sessions_in_sync_commute: "sessions_in_sync L a b \<longleftrightarrow> sessions_in_sync L b a"
  by (auto simp: sessions_in_sync_def)

lemma olm_conversation_in_sync:
  assumes L: "crypto_lib_ok L" and "olm_conversation L a b"
  shows "sessions_in_sync L a b \<and> session_keys a = session_keys b \<and> constructor_params a"
  using assms(2)
proof (induction rule: olm_conversation.induct)
  case (established alice bob otk random pt n out buf junk junkm m a b m' k)
  show ?case
    by (rule establish_in_sync [OF L established(1) stored_rd_self [OF length_rd [symmetric] refl] length_rd,
          where junk = junk and junkm = junkm and m = m]) (use established(2) in auto)
next
  case (left a b pt n random out buf junk junkm m a' b' m' r)
  then have "sessions_in_sync L a b" by blast
  from session_exchange_in_sync [OF L left(2) this stored_rd_self [OF length_rd [symmetric] refl] length_rd,
      where junk = junk and junkm = junkm and m = m]
  obtain a2 b2 m2 where "session_exchange L junk junkm a b m pt n random out buf = (a2, b2, m2, Some n)"
    "sessions_in_sync L a2 b2" "session_keys a2 = session_keys a" "session_keys b2 = session_keys b"
    "constructor_params a2 = constructor_params a" by blast
  then show ?case using left by simp
next
  case (right a b pt n random out buf junk junkm m b' a' m' r)
  then have "sessions_in_sync L b a" using sessions_in_sync_commute by blast
  from session_exchange_in_sync [OF L right(2) this stored_rd_self [OF length_rd [symmetric] refl] length_rd,
      where junk = junk and junkm = junkm and m = m]
  obtain b2 a2 m2 where e: "session_exchange L junk junkm b a m pt n random out buf = (b2, a2, m2, Some n)"
    "sessions_in_sync L b2 a2" "session_keys b2 = session_keys b" "session_keys a2 = session_keys a"
    "constructor_params b2 = constructor_params b" by blast
  have "constructor_params a2 = constructor_params a"
    using in_sync_constructor_params [OF e(2)] e(5) in_sync_constructor_params [of L a b] right(4) by simp
  then show ?case using right e sessions_in_sync_commute by simp
qed

section \<open>Matching a pre-key message\<close>

lemma matches_message:
  assumes st: "stored m inp (session_message s t pt)" and wf: "wf_session s"
    and first: "\<not> ss_received_message s" and len: "length (ratchet_message t pt) < 2 ^ 64"
  shows "matches_inbound_session junk b their m inp (length (session_message s t pt)) \<longleftrightarrow>
    session_keys b = session_keys s \<and> their \<in> {None, Some (ss_alice_identity_key s)}"
proof -
  let ?otk = "ss_bob_one_time_key s" and ?idk = "ss_alice_identity_key s" and ?base = "ss_alice_base_key s"
  let ?msg = "ratchet_message t pt"
  have k: "length ?otk = 32" "length ?base = 32" "length ?idk = 32" using wf by (simp_all add: wf_session_def)
  have st': "stored m inp (prekey_bytes PROTOCOL_VERSION ?otk ?base ?idk ?msg)"
    using st first by (simp add: session_message_def)
  note f = prekey_fields [OF st', unfolded k]
  have r: "rd m (prekey_identity_pos inp 32 32 32) 32 = ?idk" "rd m (prekey_base_pos inp 32 32) 32 = ?base"
    "rd m (prekey_otk_pos inp 32) 32 = ?otk"
    using f k by (simp_all add: stored_rd)
  show ?thesis
    using decode_one_time_key_message_bytes [OF st', of junk, unfolded k] len first r
    by (auto simp: session_message_def matches_inbound_session_def check_message_fields_def
        CURVE25519_KEY_LENGTH_def session_keys_def Let_def)
qed

section \<open>Failures\<close>

lemma session_decrypt_failure:
  assumes "session_decrypt L junk junkm s ty m inp n out k = (s', m', None)"
    "rt_last_error (ss_ratchet s) = OLM_SUCCESS"
  shows "s' = s\<lparr>ss_last_error := ss_last_error s'\<rparr>"
    "ss_last_error s' \<in> {OLM_BAD_MESSAGE_VERSION, OLM_BAD_MESSAGE_FORMAT,
      OLM_OUTPUT_BUFFER_TOO_SMALL, OLM_BAD_MESSAGE_MAC}"
proof -
  have "s' = s\<lparr>ss_last_error := ss_last_error s'\<rparr> \<and> ss_last_error s' \<in> {OLM_BAD_MESSAGE_VERSION,
      OLM_BAD_MESSAGE_FORMAT, OLM_OUTPUT_BUFFER_TOO_SMALL, OLM_BAD_MESSAGE_MAC}"
  proof (cases "message_body junk ty m inp n")
    case None
    then show ?thesis using assms(1) by (auto simp: session_decrypt_def)
  next
    case (Some p)
    obtain body len where p: "p = (body, len)" by fastforce
    obtain r mem res where d: "ratchet_decrypt L junkm (ss_ratchet s) m body len out k = (r, mem, res)"
      by (rule prod_cases3)
    have res: "res = None" using assms(1) Some p d by (auto simp: session_decrypt_def Let_def split: option.splits)
    then have r: "r = (ss_ratchet s)\<lparr>rt_last_error := rt_last_error r\<rparr>"
      "rt_last_error r \<in> {OLM_BAD_MESSAGE_VERSION, OLM_BAD_MESSAGE_FORMAT,
        OLM_OUTPUT_BUFFER_TOO_SMALL, OLM_BAD_MESSAGE_MAC}"
      using ratchet_decrypt_failure d ratchet_decrypt_error_set d by blast+
    have s': "s' = s\<lparr>ss_ratchet := r\<lparr>rt_last_error := OLM_SUCCESS\<rparr>, ss_last_error := rt_last_error r\<rparr>"
      using assms(1) Some p d res by (cases s) (auto simp: session_decrypt_def)
    have "r\<lparr>rt_last_error := OLM_SUCCESS\<rparr> = ss_ratchet s"
      using r(1) assms(2) by (metis Ratchet.surjective Ratchet.update_convs(3))
    then show ?thesis using r(2) unfolding s' by (cases s) simp
  qed
  then show "s' = s\<lparr>ss_last_error := ss_last_error s'\<rparr>"
    "ss_last_error s' \<in> {OLM_BAD_MESSAGE_VERSION, OLM_BAD_MESSAGE_FORMAT,
      OLM_OUTPUT_BUFFER_TOO_SMALL, OLM_BAD_MESSAGE_MAC}" by blast+
qed

section \<open>A message without an identity key\<close>

definition anonymous_bytes :: "bytes \<Rightarrow> bytes \<Rightarrow> bytes \<Rightarrow> bytes" where
  "anonymous_bytes otk base msg = PROTOCOL_VERSION # field ONE_TIME_KEY_ID_TAG otk @
     field BASE_KEY_TAG base @ field MESSAGE_TAG msg"

lemma decode_bytes_other: "m pos \<noteq> tag \<Longrightarrow> decode_bytes m pos lim tag v k = (pos, v, k)"
  by (simp add: decode_bytes_def)

lemma decode_bytes_some:
  assumes "stored m pos (field tag data)" "pos + length (field tag data) \<le> lim" "length data < 2 ^ 64"
    "k = length data"
  obtains p where "\<And>v n. decode_bytes m pos lim tag v n = (pos + length (field tag data), Some p, k)"
  using decode_bytes_field [OF assms(1,2,3)] assms(4) by blast

lemma decode_anonymous:
  assumes st: "stored m inp (anonymous_bytes otk base msg)"
    and len: "length otk = 32" "length base = 32" "length msg < 2 ^ 64"
  obtains po pb pm where "decode_one_time_key_message m junk inp (length (anonymous_bytes otk base msg)) =
    junk\<lparr>pk_version := PROTOCOL_VERSION, pk_one_time_key := Some po, pk_one_time_key_length := 32,
      pk_base_key := Some pb, pk_base_key_length := 32, pk_identity_key := None, pk_identity_key_length := 0,
      pk_message := Some pm, pk_message_length := length msg\<rparr>"
proof -
  let ?f1 = "field ONE_TIME_KEY_ID_TAG otk" and ?f2 = "field BASE_KEY_TAG base" and ?f3 = "field MESSAGE_TAG msg"
  let ?lim = "inp + length (anonymous_bytes otk base msg)"
  let ?p1 = "inp + 1" let ?p2 = "?p1 + length ?f1" let ?p3 = "?p2 + length ?f2"
  have e: "?lim = ?p3 + length ?f3" by (simp add: anonymous_bytes_def)
  have s: "m inp = PROTOCOL_VERSION" "stored m ?p1 ?f1" "stored m ?p2 ?f2" "stored m ?p3 ?f3"
    using st by (simp_all add: anonymous_bytes_def)
  obtain po where 1: "\<And>v k. decode_bytes m ?p1 ?lim ONE_TIME_KEY_ID_TAG v k = (?p2, Some po, 32)"
    by (rule decode_bytes_some [OF s(2), of ?lim 32]) (use e len in simp_all)
  obtain pb where 2: "\<And>v k. decode_bytes m ?p2 ?lim BASE_KEY_TAG v k = (?p3, Some pb, 32)"
    by (rule decode_bytes_some [OF s(3), of ?lim 32]) (use e len in simp_all)
  have "m ?p3 = MESSAGE_TAG" using s(4) by (simp add: field_def)
  then have 3: "decode_bytes m ?p3 ?lim IDENTITY_KEY_TAG v k = (?p3, v, k)" for v k
    by (intro decode_bytes_other) (simp add: MESSAGE_TAG_def IDENTITY_KEY_TAG_def)
  obtain pm where 4: "\<And>v k. decode_bytes m ?p3 ?lim MESSAGE_TAG v k = (?lim, Some pm, length msg)"
    by (rule decode_bytes_some [OF s(4), of ?lim "length msg"]) (use e len in simp_all)
  note step = prekey_step_def [of m ?p1 ?lim, unfolded 1 2 3 4 Let_def prod.case]
  have "0 < ?lim - ?p1" "?p1 < ?lim" unfolding e by (simp_all add: field_def)
  note loop = prekey.loop_one_pass [OF step this(2,1)]
  have ne: "inp \<noteq> ?lim" using e by simp
  show thesis
    by (rule that [of pm pb po], unfold decode_one_time_key_message_def Let_def,
        simp only: ne if_False loop snd_conv s(1)) simp
qed

section \<open>The description\<close>

lemma describe_part_far:
  assumes "buf \<le> p" "q < p"
  shows "fst (describe_part buf n (m, p) txt) q = m q" "p \<le> snd (describe_part buf n (m, p) txt)"
  using assms by (simp_all add: describe_part_def snprintf_def wr_def)

lemma describe_loop_far:
  "buf \<le> snd st \<Longrightarrow> q < snd st \<Longrightarrow> fst (describe_loop k f i buf n st) q = fst st q"
proof (induction k arbitrary: i st)
  case (Suc k)
  obtain m p where st: "st = (m, p)" by fastforce
  let ?st = "describe_part buf n (m, p) (cstr '' '' @ format_d (f i))"
  have "p \<le> snd ?st" by (rule describe_part_far) (use Suc.prems st in auto)
  moreover have "fst ?st q = m q" by (rule describe_part_far) (use Suc.prems st in auto)
  ultimately show ?case using Suc.IH [of ?st "i + 1"] Suc.prems st by simp
qed simp

lemma describe_loop_grows: "snd st \<le> snd (describe_loop k f i buf n st)"
proof (induction k arbitrary: i st)
  case (Suc k)
  have "snd st \<le> snd (describe_part buf n st (cstr '' '' @ format_d (f i)))"
    by (cases st) (simp add: describe_part_def snprintf_def)
  from order.trans [OF this Suc.IH] show ?case by simp
qed simp

definition chain_text :: "Session \<Rightarrow> bytes" where
  "chain_text s = cstr ''sender chain index: '' @
     format_d (ck_index (sc_chain_key (ol_nth (rt_sender_chain (ss_ratchet s)) 0))) @ cstr '' ''"

text \<open>Once a text did not fit, the space left underflows and the next text is written behind the buffer.\<close>

lemma describe_overrun:
  assumes n: "0 < n" "n < length (chain_text s)" "length (chain_text s) < 2 ^ 32"
  shows "describe s m buf n (buf + length (chain_text s)) = 0x72"
proof -
  let ?k = "length (chain_text s)"
  let ?m1 = "fst (snprintf (m(buf := 0)) buf n (chain_text s))"
  have p1: "describe_part buf n (m(buf := 0), buf) (chain_text s) = (?m1, buf + ?k)"
    by (simp add: describe_part_def snprintf_def size_sub_def)
  let ?txt = "cstr ''receiver chain indices:''"
  obtain big where sub: "size_sub n ?k = big" and big: "length ?txt < big"
  proof (rule that [OF refl])
    show "length ?txt < size_sub n ?k" using n by (simp add: size_sub_def cstr_def)
  qed
  have p2: "describe_part buf n (?m1, buf + ?k) ?txt = (wr ?m1 (buf + ?k) (?txt @ [0]), buf + ?k + length ?txt)"
    using big by (simp add: describe_part_def snprintf_def sub)
  obtain m2 where m2: "m2 = wr ?m1 (buf + ?k) (?txt @ [0])" by simp
  have first: "m2 (buf + ?k) = 0x72" by (simp add: m2 wr_def cstr_def)
  have tl: "0 < length ?txt" by (simp add: cstr_def)
  let ?r = "rt_receiver_chains (ss_ratchet s)"
  define st3 where "st3 = describe_loop (ol_size ?r) (\<lambda>i. ck_index (rc_chain_key (ol_nth ?r i))) 0 buf n
    (m2, buf + ?k + length ?txt)"
  have q3: "buf + ?k + length ?txt \<le> snd st3" "fst st3 (buf + ?k) = 0x72"
    using describe_loop_grows [of "(m2, buf + ?k + length ?txt)"]
      describe_loop_far [of buf "(m2, buf + ?k + length ?txt)" "buf + ?k"] tl first by (simp_all add: st3_def)
  define st4 where "st4 = describe_part buf n st3 (cstr '' skipped message keys:'')"
  have lt: "buf + ?k < snd st3" using q3(1) tl by linarith
  have le: "buf \<le> snd st3" using lt by linarith
  note far = describe_part_far [OF le lt]
  have q4: "buf + ?k < snd st4" "fst st4 (buf + ?k) = 0x72"
    unfolding st4_def
    using far [where m = "fst st3" and n = n] lt q3(2) by (auto intro: order.strict_trans2)
  have "describe s m buf n = fst (describe_loop (ol_size (rt_skipped_message_keys (ss_ratchet s)))
      (\<lambda>i. mk_index (sm_message_key (ol_nth (rt_skipped_message_keys (ss_ratchet s)) i))) 0 buf n st4)"
    using n(1) p1 p2 [folded m2] unfolding st4_def st3_def by (simp add: describe_def Let_def chain_text_def)
  moreover have "fst (describe_loop k f i buf n st4) (buf + ?k) = 0x72" for k f i
    using describe_loop_far [of buf st4 "buf + ?k" k f i n] q4 by simp
  ultimately show ?thesis by simp
qed

section \<open>The pickle contract\<close>

definition session_enc :: "Session \<Rightarrow> bytes" where
  "session_enc s = be32 SESSION_PICKLE_VERSION @ [if ss_received_message s then 1 else 0] @
     ss_alice_identity_key s @ ss_alice_base_key s @ ss_bob_one_time_key s @ ratchet_enc (ss_ratchet s)"

definition session_view ::
  "Session \<Rightarrow> bool \<times> (bytes \<times> bytes \<times> bytes) \<times> bytes \<times> SenderChain list \<times> ReceiverChain list \<times> SkippedMessageKey list"
where
  "session_view s = (ss_received_message s, session_keys s, ratchet_view (ss_ratchet s))"

lemma pickle_session_wr:
  assumes "wf_session s"
  shows "pickle_session m pos s = (wr m pos (session_enc s), pos + length (session_enc s))"
    "pickle_session_length s = length (session_enc s)"
proof -
  have len: "length (ss_alice_identity_key s) = 32" "length (ss_alice_base_key s) = 32"
    "length (ss_bob_one_time_key s) = 32" and r: "wf_ratchet (ss_ratchet s)"
    using assms by (simp_all add: wf_session_def)
  show "pickle_session m pos s = (wr m pos (session_enc s), pos + length (session_enc s))"
    using len by (simp add: pickle_session_def session_enc_def pickle_u32_wr pickle_bool_def wr_single
        pickle_curve25519_public_key_def pickle_bytes_def ratchet.pk [OF r] wr_append wr_Cons_append add.assoc)
  show "pickle_session_length s = length (session_enc s)"
    using len by (simp add: pickle_session_length_def session_enc_def pickle_u32_length_def
        pickle_bool_length_def pickle_curve25519_public_key_length_def ratchet.pk_length [OF r])
qed

lemma unpickle_session_cases:
  obtains p inc where "unpickle_u32 m pos lim 0 = (p, if inc then 0x80000001 else 1)"
    "unpickle_session m pos lim old =
      (let (pos, received_message) = unpickle_bool m p lim (ss_received_message old);
           (pos, alice_identity_key) = unpickle_curve25519_public_key m pos lim (ss_alice_identity_key old);
           (pos, alice_base_key) = unpickle_curve25519_public_key m pos lim (ss_alice_base_key old);
           (pos, bob_one_time_key) = unpickle_curve25519_public_key m pos lim (ss_bob_one_time_key old);
           (pos, ratchet) = unpickle_ratchet m pos lim (ss_ratchet old) inc
       in (pos, old\<lparr>ss_received_message := received_message, ss_alice_identity_key := alice_identity_key,
             ss_alice_base_key := alice_base_key, ss_bob_one_time_key := bob_one_time_key,
             ss_ratchet := ratchet\<rparr>))"
  | "unpickle_session m pos lim old = (lim, old\<lparr>ss_last_error := OLM_UNKNOWN_PICKLE_VERSION\<rparr>)"
proof -
  obtain p v where u: "unpickle_u32 m pos lim 0 = (p, v)" by fastforce
  consider "v = 1" | "v = 0x80000001" | "v \<noteq> 1" "v \<noteq> 0x80000001" by blast
  then show thesis
  proof cases
    case 1
    then show ?thesis using u by (intro that(1) [of p False]) (simp_all add: unpickle_session_def)
  next
    case 2
    then show ?thesis using u by (intro that(1) [of p True]) (simp_all add: unpickle_session_def)
  next
    case 3
    then show ?thesis using u by (intro that(2)) (simp add: unpickle_session_def)
  qed
qed

lemma unpickle_session_enc:
  assumes "wf_session s" "wf_session old" "ratchet_fresh (ss_ratchet old)" "stored m pos (session_enc s)"
    "pos + length (session_enc s) \<le> lim"
  shows "fst (unpickle_session m pos lim old) = pos + length (session_enc s)"
    "session_view (snd (unpickle_session m pos lim old)) = session_view s"
    "ss_last_error (snd (unpickle_session m pos lim old)) = ss_last_error old"
proof -
  have len: "length (ss_alice_identity_key s) = 32" "length (ss_alice_base_key s) = 32"
    "length (ss_bob_one_time_key s) = 32" "length (ss_alice_identity_key old) = 32"
    "length (ss_alice_base_key old) = 32" "length (ss_bob_one_time_key old) = 32"
    and r: "wf_ratchet (ss_ratchet s)" "wf_ratchet (ss_ratchet old)"
    using assms(1,2) by (simp_all add: wf_session_def)
  let ?p1 = "pos + 4" let ?p2 = "?p1 + 1" let ?p3 = "?p2 + 32" let ?p4 = "?p3 + 32" let ?p5 = "?p4 + 32"
  have st: "stored m pos (be32 SESSION_PICKLE_VERSION)" "m ?p1 = (if ss_received_message s then 1 else 0)"
    "stored m ?p2 (ss_alice_identity_key s)" "stored m ?p3 (ss_alice_base_key s)"
    "stored m ?p4 (ss_bob_one_time_key s)" "stored m ?p5 (ratchet_enc (ss_ratchet s))"
    using assms(4) len by (simp_all add: session_enc_def)
  have le: "?p5 + length (ratchet_enc (ss_ratchet s)) \<le> lim"
    "pos + length (session_enc s) = ?p5 + length (ratchet_enc (ss_ratchet s))"
    using assms(5) len by (simp_all add: session_enc_def)
  have v: "unpickle_u32 m pos lim 0 = (?p1, 1)"
    using st(1) le by (auto simp: unpickle_u32_eq SESSION_PICKLE_VERSION_def dest: stored_be32)
  have b: "unpickle_bool m ?p1 lim x = (?p2, ss_received_message s)" for x
    using st(2) le by (simp add: unpickle_bool_def)
  have k: "unpickle_curve25519_public_key m ?p2 lim (ss_alice_identity_key old) = (?p3, ss_alice_identity_key s)"
    "unpickle_curve25519_public_key m ?p3 lim (ss_alice_base_key old) = (?p4, ss_alice_base_key s)"
    "unpickle_curve25519_public_key m ?p4 lim (ss_bob_one_time_key old) = (?p5, ss_bob_one_time_key s)"
    using st(3-5) le len
    by (simp_all add: unpickle_curve25519_public_key_def unpickle_bytes_def stored_rd)
  obtain r' where u: "unpickle_ratchet m ?p5 lim (ss_ratchet old) False =
      (?p5 + length (ratchet_enc (ss_ratchet s)), r')" "ratchet_view r' = ratchet_view (ss_ratchet s)"
    using ratchet.unpk_pos [OF r assms(3) st(6) le(1)] ratchet.unpk_view [OF r assms(3) st(6) le(1)]
    by (metis prod.collapse)
  have ne: "((1 :: u32) = 0x80000001) = False" by simp
  show "fst (unpickle_session m pos lim old) = pos + length (session_enc s)"
    "session_view (snd (unpickle_session m pos lim old)) = session_view s"
    "ss_last_error (snd (unpickle_session m pos lim old)) = ss_last_error old"
    unfolding unpickle_session_def v Let_def prod.case ne simp_thms if_True b k u(1) le(2)
    by (simp_all add: session_view_def session_keys_def u(2))
qed

lemma unpickle_session_wf_bounds:
  assumes "wf_session old"
  shows "wf_session (snd (unpickle_session m pos lim old))"
    "pos \<le> lim \<Longrightarrow> pos \<le> fst (unpickle_session m pos lim old) \<and> fst (unpickle_session m pos lim old) \<le> lim"
proof -
  have len: "length (ss_alice_identity_key old) = 32" "length (ss_alice_base_key old) = 32"
    "length (ss_bob_one_time_key old) = 32" and r: "wf_ratchet (ss_ratchet old)"
    using assms by (simp_all add: wf_session_def)
  have "wf_session (snd (unpickle_session m pos lim old)) \<and> (pos \<le> lim \<longrightarrow>
    pos \<le> fst (unpickle_session m pos lim old) \<and> fst (unpickle_session m pos lim old) \<le> lim)"
  proof (cases rule: unpickle_session_cases [of m pos lim old])
    case (1 p1 inc)
    obtain p2 b where b: "unpickle_bool m p1 lim (ss_received_message old) = (p2, b)" by fastforce
    obtain p3 x where x: "unpickle_curve25519_public_key m p2 lim (ss_alice_identity_key old) = (p3, x)" by fastforce
    obtain p4 y where y: "unpickle_curve25519_public_key m p3 lim (ss_alice_base_key old) = (p4, y)" by fastforce
    obtain p5 z where z: "unpickle_curve25519_public_key m p4 lim (ss_bob_one_time_key old) = (p5, z)" by fastforce
    obtain p6 q where q: "unpickle_ratchet m p5 lim (ss_ratchet old) inc = (p6, q)" by fastforce
    have w: "length x = 32" "length y = 32" "length z = 32" "wf_ratchet q"
      using curve_pub.unpk_valid [OF len(1), of m p2 lim] curve_pub.unpk_valid [OF len(2), of m p3 lim]
        curve_pub.unpk_valid [OF len(3), of m p4 lim] unpickle_ratchet_wf [OF r, of m p5 lim inc] x y z q
      by simp_all
    have "pos \<le> p1 \<and> p1 \<le> p2 \<and> p2 \<le> p3 \<and> p3 \<le> p4 \<and> p4 \<le> p5 \<and> p5 \<le> p6 \<and> p6 \<le> lim" if "pos \<le> lim"
    proof -
      have 1: "pos \<le> p1" "p1 \<le> lim"
        using u32.unpk_bounds [OF TrueI that, where m = m and old = 0] 1(1) by simp_all
      have 2: "p1 \<le> p2" "p2 \<le> lim" using bool.unpk_bounds [OF TrueI 1(2), where m = m] b by (metis fst_conv)+
      have 3: "p2 \<le> p3" "p3 \<le> lim" using curve_pub.unpk_bounds [OF len(1) 2(2), where m = m] x by simp_all
      have 4: "p3 \<le> p4" "p4 \<le> lim" using curve_pub.unpk_bounds [OF len(2) 3(2), where m = m] y by simp_all
      have 5: "p4 \<le> p5" "p5 \<le> lim" using curve_pub.unpk_bounds [OF len(3) 4(2), where m = m] z by simp_all
      have "p5 \<le> p6" "p6 \<le> lim" using unpickle_ratchet_bounds [OF r 5(2), of m inc] q by simp_all
      with 1 2 3 4 5 show ?thesis by blast
    qed
    then show ?thesis unfolding 1(2) b prod.case Let_def x y z q using w by (auto simp: wf_session_def)
  next
    case 2
    then show ?thesis using assms by (simp add: wf_session_def)
  qed
  then show "wf_session (snd (unpickle_session m pos lim old))"
    "pos \<le> lim \<Longrightarrow> pos \<le> fst (unpickle_session m pos lim old) \<and> fst (unpickle_session m pos lim old) \<le> lim"
    by blast+
qed

interpretation session: pickler pickle_session_length pickle_session unpickle_session session_enc
  wf_session "\<lambda>s. ratchet_fresh (ss_ratchet s)" session_view
  by unfold_locales (simp_all add: pickle_session_wr unpickle_session_enc unpickle_session_wf_bounds)

section \<open>Example parties\<close>

definition example_party :: "byte \<Rightarrow> Account" where
  "example_party b = add_one_time_keys example_lib 1 (replicate 32 (b + 1))
     (fst (new_account example_lib (replicate 64 b) fresh_account))"

lemma example_party_keys:
  "keys (example_party b) = [new_one_time_key example_lib 0 (replicate 32 (b + 1)) 0]"
  "wf_account (example_party b)"
  "ac_identity_keys (example_party b) = ac_identity_keys (fst (new_account example_lib (replicate 64 b) fresh_account))"
proof -
  have wf: "wf_account (fst (new_account example_lib (replicate 64 b) fresh_account))"
    by (rule new_account_wf [OF example_lib_ok wf_fresh_account(1)])
  note g = add_one_time_keys [OF wf example_lib_ok, of 1 "replicate 32 (b + 1)"]
  show "keys (example_party b) = [new_one_time_key example_lib 0 (replicate 32 (b + 1)) 0]"
    "wf_account (example_party b)"
    "ac_identity_keys (example_party b) = ac_identity_keys (fst (new_account example_lib (replicate 64 b) fresh_account))"
    using g by (simp_all add: example_party_def identity_update_keeps wf_fresh_account MAX_ONE_TIME_KEYS_def)
      (simp add: fresh_account_def)
qed

lemma example_party_generated: "account_generated example_lib (example_party b)"
proof -
  have "generated example_lib (ik_curve25519_key (ac_identity_keys (example_party b)))"
    by (simp add: example_party_keys(3) new_account_def new_account_random_length_def ED25519_RANDOM_LENGTH_def
        CURVE25519_RANDOM_LENGTH_def Let_def generated_key)
  moreover have "generated example_lib (otk_key (new_one_time_key example_lib 0 (replicate 32 (b + 1)) 0))"
    by (simp add: new_one_time_key_def generated_key)
  ultimately show ?thesis using example_party_keys(1,2) by (simp add: account_generated_def)
qed

definition example_otk :: bytes where
  "example_otk = c_public (otk_key (hd (keys (example_party 5))))"

lemma varint_loop_bound: "unat v < 2 ^ k \<Longrightarrow> varint_length_loop n v \<le> n + k"
proof (induction n v arbitrary: k rule: varint_length_loop.induct)
  case (1 n v)
  show ?case
  proof (cases "128 \<le> unat v")
    case True
    then have "(2 :: nat) ^ 7 < 2 ^ k" using 1(2) by simp
    then have k: "7 < k" by (simp only: power_strict_increasing_iff)
    have "unat v < 2 ^ (7 + (k - 7))" using 1(2) k by simp
    then have "unat (drop_bit 7 v) < 2 ^ (k - 7)"
      by (simp add: unat_drop_bit_7 power_add less_mult_imp_div_less mult.commute)
    from 1(1) [OF True this] show ?thesis using k True by (subst varint_length_loop.simps) simp
  next
    case False
    then show ?thesis by (subst varint_length_loop.simps) simp
  qed
qed

lemma varint_length_bound: "varint_length (v :: 'a::len word) \<le> 1 + LENGTH('a)"
  using varint_loop_bound [of v "LENGTH('a)" 1] by (simp add: varint_length_def unsigned_less)

lemma encrypt_output_length_bound: "encrypt_output_length s n < n + 400"
proof -
  have "aes_encrypt_cbc_length n \<le> n + 16" by (simp add: aes_encrypt_cbc_length_def)
  then show ?thesis
    using varint_length_bound [of "of_nat 32 :: u64"]
      varint_length_bound [of "of_nat (aes_encrypt_cbc_length n) :: u64"]
      varint_length_bound [of "if \<not> ol_empty (rt_sender_chain s)
        then ck_index (sc_chain_key (ol_nth (rt_sender_chain s) 0)) else 0"]
    by (simp add: encrypt_output_length_def Let_def encode_message_length_def varstring_length_def
        cipher_encrypt_ciphertext_length_def cipher_mac_length_def MAC_LENGTH_def)
qed

lemma encrypt_message_length_bound: "encrypt_message_length s n < n + 800"
proof -
  let ?n = "encrypt_output_length (ss_ratchet s) n"
  show ?thesis
    using varint_length_bound [of "of_nat 32 :: u64"] varint_length_bound [of "of_nat ?n :: u64"]
      encrypt_output_length_bound [of "ss_ratchet s" n]
    by (simp add: encrypt_message_length_def encode_one_time_key_message_length_def varstring_length_def
        CURVE25519_KEY_LENGTH_def Let_def)
qed

lemma example_establish_ok:
  "establish_ok example_lib (example_party 1) (example_party 5) example_otk (replicate 64 9) 2000 1 3000 0"
proof -
  have "encrypt_output_length r 1 < 2 ^ 64" for r
    by (rule order.strict_trans [OF encrypt_output_length_bound]) simp
  then show ?thesis
    by (simp add: establish_ok_def example_party_generated example_otk_def example_party_keys(1) Let_def
        aes_encrypt_cbc_length_def)
qed

section \<open>Properties\<close>

text \<open>
  A session is established by the first message: Alice makes an outbound session from Bob's
  identity key and one of his one-time keys and encrypts a message, Bob makes an inbound session
  from it, decrypts it and gets the plaintext; both sessions hold the same keys, those of the two
  accounts, and their ratchets are in sync.
\<close>

theorem session_established:
  assumes "crypto_lib_ok L" "establish_ok L alice bob otk random pt n out buf" "stored m pt msg" "length msg = n"
  shows "\<exists>a b m'. establish L junk junkm alice bob otk random m pt n out buf = Some (a, b, m', n) \<and>
    stored m' buf msg \<and> sessions_in_sync L a b \<and> session_keys a = session_keys b \<and>
    ss_alice_identity_key b = c_public (ik_curve25519_key (ac_identity_keys alice)) \<and>
    ss_bob_one_time_key b = otk \<and> encrypt_message_type a = PRE_KEY \<and> encrypt_message_type b = MESSAGE"
proof -
  obtain a b m' where e: "establish L junk junkm alice bob otk random m pt n out buf = Some (a, b, m', n)"
    "sessions_in_sync L a b" "stored m' buf msg" "session_keys a = session_keys b"
    "ss_alice_identity_key b = c_public (ik_curve25519_key (ac_identity_keys alice))"
    "ss_bob_one_time_key b = otk" "\<not> ss_received_message a" "ss_received_message b" "constructor_params a"
    by (rule establish_in_sync [OF assms, where junk = junk and junkm = junkm])
  then show ?thesis by (intro exI [of _ a] exI [of _ b] exI [of _ m']) (simp add: encrypt_message_type_def)
qed

theorem session_established_witness:
  "\<exists>a b m'. establish example_lib zero_prekey_reader zero_reader (example_party 1) (example_party 5)
      example_otk (replicate 64 9) (\<lambda>i. 7) 2000 1 3000 0 = Some (a, b, m', 1) \<and>
    stored m' 0 [7] \<and> sessions_in_sync example_lib a b \<and> session_keys a = session_keys b \<and>
    ss_alice_identity_key b = c_public (ik_curve25519_key (ac_identity_keys (example_party 1))) \<and>
    ss_bob_one_time_key b = example_otk \<and> encrypt_message_type a = PRE_KEY \<and> encrypt_message_type b = MESSAGE"
  by (rule session_established [OF example_lib_ok example_establish_ok]) simp_all

text \<open>
  C5 However two parties that established a session go on, whoever writes and with whatever message
  type the session announces, the next message is delivered, and it always stays a conversation
  under the same keys.
\<close>

theorem olm_conversation_delivers:
  assumes "crypto_lib_ok L" "olm_conversation L a b \<or> olm_conversation L b a"
    "session_exchange_ok L a b pt n random out buf" "stored m pt msg" "length msg = n"
  shows "\<exists>a' b' m'. session_exchange L junk junkm a b m pt n random out buf = (a', b', m', Some n) \<and>
    stored m' buf msg \<and> sessions_in_sync L a' b' \<and> session_keys a' = session_keys b' \<and>
    session_keys a' = session_keys a \<and> encrypt_message_type b' = MESSAGE"
proof -
  have "sessions_in_sync L a b" "session_keys a = session_keys b"
    using assms(2) olm_conversation_in_sync [OF assms(1)] sessions_in_sync_commute by metis+
  from session_exchange_in_sync [OF assms(1,3) this(1) assms(4,5), where junk = junk and junkm = junkm]
  obtain a' b' m' where "session_exchange L junk junkm a b m pt n random out buf = (a', b', m', Some n)"
    "sessions_in_sync L a' b'" "stored m' buf msg" "session_keys a' = session_keys a"
    "session_keys b' = session_keys b" "ss_received_message b'" by blast
  then show ?thesis using \<open>session_keys a = session_keys b\<close> by (simp add: encrypt_message_type_def)
qed

text \<open>Two sessions that were just established, and a reply.\<close>

definition example_sessions :: "Session \<times> Session" where
  "example_sessions =
     (case establish example_lib zero_prekey_reader zero_reader (example_party 1) (example_party 5)
        example_otk (replicate 64 9) (\<lambda>i. 7) 2000 1 3000 0 of
        Some (a, b, _, _) \<Rightarrow> (a, b) | None \<Rightarrow> (fresh_session, fresh_session))"

lemma example_conversation: "olm_conversation example_lib (fst example_sessions) (snd example_sessions)"
proof -
  obtain a b m' where e: "establish example_lib zero_prekey_reader zero_reader (example_party 1)
      (example_party 5) example_otk (replicate 64 9) (\<lambda>i. 7) 2000 1 3000 0 = Some (a, b, m', 1)"
    by (rule establish_in_sync [OF example_lib_ok example_establish_ok, of "\<lambda>i. 7" "[7]"]) auto
  from olm_conversation.established [OF example_establish_ok this] show ?thesis
    unfolding example_sessions_def e by simp
qed

lemma session_encrypt_sender:
  assumes "session_encrypt L s m pt n random out k = (s', m', Some len)"
  shows "\<not> ol_empty (rt_sender_chain (ss_ratchet s'))"
proof -
  have "\<not> ol_empty (rt_sender_chain r)" if "ratchet_encrypt L q m pt n random out k = (r, m', Some len)"
    for q r m m' out k len
    using that start_sender_chain_nonempty [of L q random]
    by (auto simp: ratchet_encrypt_def Let_def ol_empty_def ol_set_def split: if_splits prod.splits)
  then show ?thesis
    using assms by (auto simp: session_encrypt_def Let_def split: if_splits prod.splits option.splits)
qed

lemma example_exchange:
  "session_exchange_ok example_lib (fst example_sessions) (snd example_sessions) 2000 1 [] 3000 0"
proof -
  obtain a b m' where e: "establish example_lib zero_prekey_reader zero_reader (example_party 1)
      (example_party 5) example_otk (replicate 64 9) (\<lambda>i. 7) 2000 1 3000 0 = Some (a, b, m', 1)"
    by (rule establish_in_sync [OF example_lib_ok example_establish_ok, of "\<lambda>i. 7" "[7]"]) auto
  have "\<not> ol_empty (rt_sender_chain (ss_ratchet a))"
    using e session_encrypt_sender unfolding establish_def
    by (fastforce split: prod.splits option.splits)
  moreover have "encrypt_output_length r 1 < 2 ^ 64" for r
    by (rule order.strict_trans [OF encrypt_output_length_bound]) simp
  ultimately show ?thesis
    unfolding example_sessions_def e by (simp add: session_exchange_ok_def aes_encrypt_cbc_length_def)
qed

theorem olm_conversation_delivers_witness:
  "\<exists>a' b' m'. session_exchange example_lib zero_prekey_reader zero_reader (fst example_sessions)
      (snd example_sessions) (\<lambda>i. 4) 2000 1 [] 3000 0 = (a', b', m', Some 1) \<and>
    stored m' 0 [4] \<and> sessions_in_sync example_lib a' b' \<and> session_keys a' = session_keys b' \<and>
    session_keys a' = session_keys (fst example_sessions) \<and> encrypt_message_type b' = MESSAGE"
  using example_conversation
  by (intro olm_conversation_delivers [OF example_lib_ok _ example_exchange]) simp_all

text \<open>
  In every conversation both parties compute the same session id, the hash of the three keys.
\<close>

theorem session_ids_agree:
  assumes "crypto_lib_ok L" "olm_conversation L a b" "32 \<le> n"
  shows "\<exists>m'. session_id a m p n = (a, m', Some 32) \<and> session_id b m p n = (b, m', Some 32) \<and>
    rd m' p 32 = sha256_hash (ss_alice_identity_key a @ ss_alice_base_key a @ ss_bob_one_time_key a)"
proof -
  have "session_keys a = session_keys b" "wf_session a"
    using olm_conversation_in_sync [OF assms(1,2)] by (auto simp: sessions_in_sync_def)
  then show ?thesis using assms(3) by (simp add: wf_session_def session_id_def session_id_length_def session_keys_def
        crypto_sha256_hash)
qed

theorem session_ids_agree_witness:
  "\<exists>m'. session_id (fst example_sessions) (\<lambda>i. 0) 5 32 = (fst example_sessions, m', Some 32) \<and>
    session_id (snd example_sessions) (\<lambda>i. 0) 5 32 = (snd example_sessions, m', Some 32) \<and>
    rd m' 5 32 = sha256_hash (ss_alice_identity_key (fst example_sessions) @
      ss_alice_base_key (fst example_sessions) @ ss_bob_one_time_key (fst example_sessions))"
  by (rule session_ids_agree [OF example_lib_ok example_conversation]) simp


text \<open>
  \<open>matches_inbound_session\<close> tells the sessions apart: on a pre-key message of a session it is true
  exactly for the sessions with that session's three keys, provided that the identity key the caller
  gives, if any, is the sender's.
\<close>

theorem matches_exactly_the_same_session:
  assumes "stored m inp (session_message s t pt)" "wf_session s" "\<not> ss_received_message s"
    "length (ratchet_message t pt) < 2 ^ 64"
  shows "matches_inbound_session junk b their m inp (length (session_message s t pt)) \<longleftrightarrow>
    session_keys b = session_keys s \<and> their \<in> {None, Some (ss_alice_identity_key s)}"
  by (rule matches_message [OF assms])

theorem matches_exactly_the_same_session_witness:
  "matches_inbound_session zero_prekey_reader fresh_session None
     (wr (\<lambda>i. 0) 9 (session_message fresh_session example_alice [1])) 9
     (length (session_message fresh_session example_alice [1]))"
proof -
  have "wf_ratchet example_alice" using example_in_sync by (simp add: in_sync_def)
  then have "length (ratchet_message example_alice [1]) = encrypt_output_length example_alice 1"
    using length_ratchet_message [of example_alice "[1]"] example_chain(4) by simp
  then have "length (ratchet_message example_alice [1]) < 2 ^ 64"
    using encrypt_output_length_bound [of example_alice 1] by simp
  then show ?thesis
    using matches_exactly_the_same_session [of "wr (\<lambda>i. 0) 9 (session_message fresh_session example_alice [1])" 9
        fresh_session example_alice "[1]" zero_prekey_reader fresh_session None, OF stored_wr wf_fresh_session] by (simp add: fresh_session_def)
qed

text \<open>
  C15 A message that a session refuses changes nothing in the session but its error code, which is
  one of the documented ones.
\<close>

theorem session_refusal_keeps_state:
  assumes "session_decrypt L junk junkm s ty m inp n out k = (s', m', None)"
    "rt_last_error (ss_ratchet s) = OLM_SUCCESS"
  shows "s' = s\<lparr>ss_last_error := ss_last_error s'\<rparr> \<and>
    ss_last_error s' \<in> {OLM_BAD_MESSAGE_VERSION, OLM_BAD_MESSAGE_FORMAT,
      OLM_OUTPUT_BUFFER_TOO_SMALL, OLM_BAD_MESSAGE_MAC}"
  using session_decrypt_failure [OF assms] by blast

theorem session_refusal_keeps_state_witness:
  "\<exists>s' m'. session_decrypt example_lib zero_prekey_reader zero_reader fresh_session PRE_KEY (\<lambda>i. 0) 0 0 0 0
      = (s', m', None) \<and> s' = fresh_session\<lparr>ss_last_error := ss_last_error s'\<rparr>"
proof -
  have "session_decrypt example_lib zero_prekey_reader zero_reader fresh_session PRE_KEY (\<lambda>i. 0) 0 0 0 0
      = (fresh_session\<lparr>ss_last_error := OLM_BAD_MESSAGE_FORMAT\<rparr>, (\<lambda>i. 0), None)"
    by (simp add: session_decrypt_def message_body_def decode_one_time_key_message_def)
  from session_refusal_keeps_state [OF this] show ?thesis
    using \<open>session_decrypt example_lib zero_prekey_reader zero_reader fresh_session PRE_KEY (\<lambda>i. 0) 0 0 0 0
      = (fresh_session\<lparr>ss_last_error := OLM_BAD_MESSAGE_FORMAT\<rparr>, (\<lambda>i. 0), None)\<close>
    by (simp add: fresh_session_def new_ratchet_def)
qed

text \<open>
  A pre-key message without an identity key makes \<open>new_inbound_session\<close> read through a null
  pointer when the caller gives the sender's key.
\<close>

theorem anonymous_message_crashes:
  assumes "stored m inp (anonymous_bytes otk base msg)" "length otk = 32" "length base = 32"
    "length msg < 2 ^ 64"
  shows "new_inbound_session L junk junkm s account (Some key) m inp
    (length (anonymous_bytes otk base msg)) = None"
proof -
  obtain po pb pm where d: "decode_one_time_key_message m junk inp (length (anonymous_bytes otk base msg)) =
    junk\<lparr>pk_version := PROTOCOL_VERSION, pk_one_time_key := Some po, pk_one_time_key_length := 32,
      pk_base_key := Some pb, pk_base_key_length := 32, pk_identity_key := None, pk_identity_key_length := 0,
      pk_message := Some pm, pk_message_length := length msg\<rparr>"
    by (rule decode_anonymous [OF assms, where junk = junk])
  show ?thesis
    unfolding new_inbound_session_def d
    by (simp add: check_message_fields_def CURVE25519_KEY_LENGTH_def)
qed

theorem anonymous_message_crashes_witness:
  "new_inbound_session example_lib zero_prekey_reader zero_reader fresh_session fresh_account (Some [])
    (wr (\<lambda>i. 0) 3 (anonymous_bytes (replicate 32 1) (replicate 32 2) [])) 3
    (length (anonymous_bytes (replicate 32 1) (replicate 32 2) [])) = None"
  by (rule anonymous_message_crashes) simp_all

text \<open>
  \<open>describe\<close> with a buffer shorter than its first text writes behind the buffer: the byte at the
  offset where that text would end becomes the first letter of the second text.
\<close>

theorem describe_writes_past_the_buffer:
  assumes "0 < n" "n < length (chain_text s)" "length (chain_text s) < 2 ^ 32"
  shows "describe s m buf n (buf + length (chain_text s)) = 0x72"
  by (rule describe_overrun [OF assms])

lemma fresh_chain_text: "length (chain_text fresh_session) = 22"
  by (simp add: chain_text_def fresh_session_def new_ratchet_def ol_new_def ol_nth_def zero_sender_chain_def
      zero_chain_key_def cstr_def format_d_def decimal.simps)

theorem describe_writes_past_the_buffer_witness:
  "describe fresh_session (\<lambda>i. 0) 0 10 22 = 0x72"
  using describe_writes_past_the_buffer [of 10 fresh_session "\<lambda>i. 0" 0]
  by (simp add: fresh_chain_text)

end
