(* ===== verification/SealedPickle.thy ===== *)
theory SealedPickle
  imports Pickle PickleEncoding
begin

text \<open>
  The interface behind every \<open>olm_pickle_*\<close> and \<open>olm_unpickle_*\<close> function of the objects that are
  unpickled with the limit \<open>end + 1\<close>: accounts, sessions and decryption keys.  The locale states the
  two functions over the object's raw pickler and the sealed envelope of \<open>pickle_encoding.c\<close>, as they
  are written for each object, and what its error code has to do with its pickle; it proves once what
  they do.
\<close>

locale sealed_pickler = pickler pk_length pk unpk enc valid fresh view
  for pk_length :: "'a \<Rightarrow> nat"
    and pk :: "mem \<Rightarrow> addr \<Rightarrow> 'a \<Rightarrow> mem \<times> addr"
    and unpk :: "mem \<Rightarrow> addr \<Rightarrow> addr \<Rightarrow> 'a \<Rightarrow> addr \<times> 'a"
    and enc :: "'a \<Rightarrow> bytes"
    and valid :: "'a \<Rightarrow> bool"
    and fresh :: "'a \<Rightarrow> bool"
    and view :: "'a \<Rightarrow> 'v" +
  fixes err :: "'a \<Rightarrow> OlmErrorCode"
    and set_err :: "OlmErrorCode \<Rightarrow> 'a \<Rightarrow> 'a"
    and seal_length :: "'a \<Rightarrow> nat"
    and seal :: "'a \<Rightarrow> bytes \<Rightarrow> mem \<Rightarrow> addr \<Rightarrow> nat \<Rightarrow> 'a \<times> mem \<times> nat option"
    and open_seal :: "'a \<Rightarrow> bytes \<Rightarrow> mem \<Rightarrow> addr \<Rightarrow> nat \<Rightarrow> 'a \<times> mem \<times> nat option"
  assumes seal_length: "seal_length v = enc_output_length (pk_length v)"
    and seal: "seal v key m p n =
      (if n < enc_output_length (pk_length v) then (set_err OLM_OUTPUT_BUFFER_TOO_SMALL v, m, None)
       else let (m, k) = enc_output key (fst (pk m (enc_output_pos p (pk_length v)) v)) p (pk_length v)
            in (v, m, Some k))"
    and open_seal: "open_seal v key m p n =
      (let (m, e, raw) = enc_input key m p n (Some (err v)); v = set_err (the e) v
       in case raw of
            None \<Rightarrow> (v, m, None)
          | Some raw \<Rightarrow>
              let (pos, v) = unpk m p (p + raw + 1) v
              in if p + raw \<noteq> pos then
                   ((if err v = OLM_SUCCESS then set_err OLM_CORRUPTED_PICKLE v else v), m, None)
                 else (v, m, Some n))"
    and set_err: "set_err (err v) v = v" "set_err e (set_err e' v) = set_err e v"
    and err_set: "err (set_err e v) = e"
    and valid_set: "valid (set_err e v) = valid v"
    and fresh_set: "fresh (set_err e v) = fresh v"
    and view_set: "view (set_err e v) = view v"
    and unpk_err: "\<lbrakk>valid v; valid old; fresh old; stored m pos (enc v); pos + length (enc v) \<le> lim\<rbrakk> \<Longrightarrow>
          err (snd (unpk m pos lim old)) = err old"
begin

lemma seal_wr:
  assumes "valid v"
  shows "seal v key m p n =
    (if n < seal_length v then (set_err OLM_OUTPUT_BUFFER_TOO_SMALL v, m, None)
     else (v, wr m p (pickle_seal key (enc v)), Some (seal_length v)))"
  using assms by (simp add: seal seal_length pk pk_length enc_output_pickled Let_def)

lemma seal_length_enc: "valid v \<Longrightarrow> seal_length v = length (pickle_seal key (enc v))"
  by (simp add: seal_length pk_length)

lemma open_sealed:
  assumes "valid v" "valid old" "fresh old" "stored m p (pickle_seal key (enc v))"
  shows "\<exists>new m'. open_seal old key m p (seal_length v) = (new, m', Some (seal_length v)) \<and>
    view new = view v \<and> valid new \<and> err new = err old \<and> frame m m' p (seal_length v)"
proof -
  let ?n = "length (enc v)"
  have n: "seal_length v = enc_output_length ?n" using assms(1) by (simp add: seal_length pk_length)
  obtain m' where m': "enc_input key m p (enc_output_length ?n) (Some (err old)) = (m', Some (err old), Some ?n)"
    "stored m' p (enc v)" "frame m m' p (enc_output_length ?n)"
    using enc_input_sealed [OF assms(4)] by blast
  have pos: "fst (unpk m' p (p + ?n + 1) old) = p + ?n"
    using assms m'(2) by (intro unpk_pos) simp_all
  have "open_seal old key m p (seal_length v) = (snd (unpk m' p (p + ?n + 1) old), m', Some (seal_length v))"
    using pos unfolding n open_seal m'(1)
    by (cases "unpk m' p (p + ?n + 1) old") (simp add: set_err)
  moreover have "view (snd (unpk m' p (p + ?n + 1) old)) = view v"
    using assms m'(2) by (intro unpk_view) simp_all
  moreover have "valid (snd (unpk m' p (p + ?n + 1) old))" using assms(2) by (rule unpk_valid)
  moreover have "err (snd (unpk m' p (p + ?n + 1) old)) = err old"
    using unpk_err [OF assms(1-3) m'(2)] by simp
  ultimately show ?thesis using m'(3) by (auto simp: n)
qed

text \<open>Sealing and opening in the same buffer.\<close>

lemma open_seal_seal:
  assumes "valid v" "valid old" "fresh old" "seal_length v \<le> n"
  shows "\<exists>m1 new m2. seal v key m p n = (v, m1, Some (seal_length v)) \<and>
    open_seal old key m1 p (seal_length v) = (new, m2, Some (seal_length v)) \<and>
    view new = view v \<and> valid new \<and> err new = err old \<and> frame m m2 p (seal_length v)"
proof -
  let ?m1 = "wr m p (pickle_seal key (enc v))"
  have s: "seal v key m p n = (v, ?m1, Some (seal_length v))"
    using assms(1,4) by (simp add: seal_wr)
  have f: "frame m ?m1 p (seal_length v)"
    using assms(1) by (intro frame_wr) (simp_all add: seal_length pk_length)
  obtain new m2 where "open_seal old key ?m1 p (seal_length v) = (new, m2, Some (seal_length v))"
    "view new = view v" "valid new" "err new = err old" "frame ?m1 m2 p (seal_length v)"
    using open_sealed [OF assms(1-3) stored_wr] by blast
  then show ?thesis using s frame_trans [OF f] by blast
qed

text \<open>A text that is no sealed pickle under the key: only the error code of the object changes.\<close>

lemma open_refused:
  assumes "bs = b64_decode (rd m p n)"
    "\<forall>k. decode_base64_length n = Some k \<longrightarrow>
       k < 8 \<or> drop (k - 8) bs \<noteq> cipher_tag PICKLE_CIPHER key (take (k - 8) bs)"
  shows "open_seal v key m p n =
    (if decode_base64_length n = None then (set_err OLM_INVALID_BASE64 v, m, None)
     else (set_err OLM_BAD_ACCOUNT_KEY v, wr m p bs, None))"
proof (cases "decode_base64_length n")
  case None
  then show ?thesis by (simp add: open_seal enc_input_bad_length set_error_def)
next
  case (Some k)
  then show ?thesis
    using assms enc_input_bad_key [of n k bs key m p "Some (err v)"]
    by (simp add: open_seal set_error_def)
qed

end

end
