(* ===== verification/OlmApi.thy ===== *)
theory OlmApi
  imports Session SealedPickle
begin

text \<open>
  \<open>src/olm.cpp\<close> and \<open>src/utility.cpp\<close>: the C interface.  It puts base64 around the operations of the
  C++ objects, in place in the caller's buffers, erases the random input, and stores objects as
  encrypted pickles.  The casts between the C and C++ types and the \<open>sizeof\<close> functions have no
  counterpart; the objects are the records of the theories \<open>Account\<close> and \<open>Session\<close>.
\<close>

section \<open>Base64 around an operation\<close>

definition b64_output_length :: "nat \<Rightarrow> nat" where
  "b64_output_length raw_length = encode_base64_length raw_length"

definition b64_output_pos :: "addr \<Rightarrow> nat \<Rightarrow> addr" where
  "b64_output_pos output raw_length = output + encode_base64_length raw_length - raw_length"

definition b64_output :: "mem \<Rightarrow> addr \<Rightarrow> nat \<Rightarrow> mem \<times> nat" where
  "b64_output m output raw_length =
     (let base64_length = encode_base64_length raw_length;
          raw_output = output + base64_length - raw_length;
          (m, _) = encode_base64 m raw_output raw_length output
      in (m, base64_length))"

definition b64_input :: "mem \<Rightarrow> addr \<Rightarrow> nat \<Rightarrow> OlmErrorCode \<Rightarrow> mem \<times> OlmErrorCode \<times> nat option" where
  "b64_input m input b64_length last_error =
     (case decode_base64_length b64_length of
        None \<Rightarrow> (m, OLM_INVALID_BASE64, None)
      | Some raw_length \<Rightarrow> (decode_base64 m input b64_length input, last_error, Some raw_length))"

text \<open>\<open>decode_base64\<close> into a public key, an object of 32 bytes outside the memory.\<close>

definition decode_key :: "mem \<Rightarrow> addr \<Rightarrow> nat \<Rightarrow> bytes" where
  "decode_key m input input_length = decode_base64_object m input input_length"

section \<open>Objects\<close>

definition olm_account_last_error :: "Account \<Rightarrow> string" where
  "olm_account_last_error account = olm_error_to_string (ac_last_error account)"

definition olm_session_last_error :: "Session \<Rightarrow> string" where
  "olm_session_last_error session = olm_error_to_string (ss_last_error session)"

text \<open>The constructors run on cleared memory, for a new object and for one that is cleared.\<close>

definition olm_account :: Account where "olm_account = fresh_account"
definition olm_session :: Session where "olm_session = fresh_session"

definition olm_clear_account :: "Account \<Rightarrow> Account" where
  "olm_clear_account account = fresh_account"

definition olm_clear_session :: "Session \<Rightarrow> Session" where
  "olm_clear_session session = fresh_session"

definition olm_error :: "nat option" where
  "olm_error = None"

section \<open>Pickles\<close>

definition olm_pickle_account_length :: "Account \<Rightarrow> nat" where
  "olm_pickle_account_length account = enc_output_length (pickle_account_length account)"

definition olm_pickle_session_length :: "Session \<Rightarrow> nat" where
  "olm_pickle_session_length session = enc_output_length (pickle_session_length session)"

definition olm_pickle_account ::
  "Account \<Rightarrow> bytes \<Rightarrow> mem \<Rightarrow> addr \<Rightarrow> nat \<Rightarrow> Account \<times> mem \<times> nat option" where
  "olm_pickle_account object key m pickled pickled_length =
     (let raw_length = pickle_account_length object
      in if pickled_length < enc_output_length raw_length then
           (object\<lparr>ac_last_error := OLM_OUTPUT_BUFFER_TOO_SMALL\<rparr>, m, None)
         else
           let m = fst (pickle_account m (enc_output_pos pickled raw_length) object);
               (m, n) = enc_output key m pickled raw_length
           in (object, m, Some n))"

definition olm_pickle_session ::
  "Session \<Rightarrow> bytes \<Rightarrow> mem \<Rightarrow> addr \<Rightarrow> nat \<Rightarrow> Session \<times> mem \<times> nat option" where
  "olm_pickle_session object key m pickled pickled_length =
     (let raw_length = pickle_session_length object
      in if pickled_length < enc_output_length raw_length then
           (object\<lparr>ss_last_error := OLM_OUTPUT_BUFFER_TOO_SMALL\<rparr>, m, None)
         else
           let m = fst (pickle_session m (enc_output_pos pickled raw_length) object);
               (m, n) = enc_output key m pickled raw_length
           in (object, m, Some n))"

definition olm_unpickle_account ::
  "Account \<Rightarrow> bytes \<Rightarrow> mem \<Rightarrow> addr \<Rightarrow> nat \<Rightarrow> Account \<times> mem \<times> nat option" where
  "olm_unpickle_account object key m pickled pickled_length =
     (let (m, last_error, raw_length) = enc_input key m pickled pickled_length (Some (ac_last_error object));
          object = object\<lparr>ac_last_error := the last_error\<rparr>
      in case raw_length of
           None \<Rightarrow> (object, m, None)
         | Some raw_length \<Rightarrow>
             let end = pickled + raw_length;
                 (pos, object) = unpickle_account m pickled (end + 1) object
             in if end \<noteq> pos then
                  ((if ac_last_error object = OLM_SUCCESS
                    then object\<lparr>ac_last_error := OLM_CORRUPTED_PICKLE\<rparr> else object), m, None)
                else (object, m, Some pickled_length))"

definition olm_unpickle_session ::
  "Session \<Rightarrow> bytes \<Rightarrow> mem \<Rightarrow> addr \<Rightarrow> nat \<Rightarrow> Session \<times> mem \<times> nat option" where
  "olm_unpickle_session object key m pickled pickled_length =
     (let (m, last_error, raw_length) = enc_input key m pickled pickled_length (Some (ss_last_error object));
          object = object\<lparr>ss_last_error := the last_error\<rparr>
      in case raw_length of
           None \<Rightarrow> (object, m, None)
         | Some raw_length \<Rightarrow>
             let end = pickled + raw_length;
                 (pos, object) = unpickle_session m pickled (end + 1) object
             in if end \<noteq> pos then
                  ((if ss_last_error object = OLM_SUCCESS
                    then object\<lparr>ss_last_error := OLM_CORRUPTED_PICKLE\<rparr> else object), m, None)
                else (object, m, Some pickled_length))"

section \<open>Accounts\<close>

definition olm_create_account_random_length :: "Account \<Rightarrow> nat" where
  "olm_create_account_random_length account = new_account_random_length"

definition olm_account_identity_keys_length :: "Account \<Rightarrow> nat" where
  "olm_account_identity_keys_length account = get_identity_json_length account"

definition olm_account_one_time_keys_length :: "Account \<Rightarrow> nat" where
  "olm_account_one_time_keys_length account = get_one_time_keys_json_length account"

definition olm_account_max_number_of_one_time_keys :: "Account \<Rightarrow> nat" where
  "olm_account_max_number_of_one_time_keys account = max_number_of_one_time_keys"

definition olm_account_generate_one_time_keys_random_length :: "Account \<Rightarrow> nat \<Rightarrow> nat" where
  "olm_account_generate_one_time_keys_random_length account number_of_keys =
     generate_one_time_keys_random_length number_of_keys"

definition olm_create_outbound_session_random_length :: "Session \<Rightarrow> nat" where
  "olm_create_outbound_session_random_length session = new_outbound_session_random_length"

text \<open>The random input is a buffer of the caller, which is cleared afterwards, on errors too.\<close>

definition olm_create_account ::
  "crypto_lib \<Rightarrow> Account \<Rightarrow> mem \<Rightarrow> addr \<Rightarrow> nat \<Rightarrow> Account \<times> mem \<times> nat option" where
  "olm_create_account L account m random random_length =
     (let (account, result) = new_account L (rd m random random_length) account
      in (account, unset random_length m random, result))"

definition olm_create_account_derrived_keys ::
  "sodium \<Rightarrow> Account \<Rightarrow> mem \<Rightarrow> addr \<Rightarrow> nat \<Rightarrow> Account \<times> mem \<times> nat option" where
  "olm_create_account_derrived_keys S account m random random_length =
     (let (account, result) = new_account_derrived_keys S (rd m random random_length) account
      in (account, unset random_length m random, result))"

definition olm_account_identity_keys ::
  "Account \<Rightarrow> mem \<Rightarrow> addr \<Rightarrow> nat \<Rightarrow> Account \<times> mem \<times> nat option" where
  "olm_account_identity_keys account m identity_keys identity_key_length =
     get_identity_json account m identity_keys identity_key_length"

definition olm_account_signature_length :: "Account \<Rightarrow> nat" where
  "olm_account_signature_length account = b64_output_length signature_length"

definition olm_account_sign ::
  "sodium \<Rightarrow> Account \<Rightarrow> mem \<Rightarrow> addr \<Rightarrow> nat \<Rightarrow> addr \<Rightarrow> nat \<Rightarrow> Account \<times> mem \<times> nat option" where
  "olm_account_sign S account m message message_length signature signature_len =
     (let raw_length = signature_length
      in if signature_len < b64_output_length raw_length then
           (account\<lparr>ac_last_error := OLM_OUTPUT_BUFFER_TOO_SMALL\<rparr>, m, None)
         else
           let (account, m, _) = account_sign S account m message message_length
                 (b64_output_pos signature raw_length) raw_length;
               (m, n) = b64_output m signature raw_length
           in (account, m, Some n))"

definition olm_account_one_time_keys ::
  "Account \<Rightarrow> mem \<Rightarrow> addr \<Rightarrow> nat \<Rightarrow> Account \<times> mem \<times> nat option" where
  "olm_account_one_time_keys account m keys_json keys_json_length =
     get_one_time_keys_json account m keys_json keys_json_length"

definition olm_account_mark_keys_as_published :: "Account \<Rightarrow> Account \<times> nat" where
  "olm_account_mark_keys_as_published account = mark_keys_as_published account"

definition olm_account_generate_one_time_keys ::
  "crypto_lib \<Rightarrow> Account \<Rightarrow> nat \<Rightarrow> mem \<Rightarrow> addr \<Rightarrow> nat \<Rightarrow> (Account \<times> mem \<times> nat option) option" where
  "olm_account_generate_one_time_keys L account number_of_keys m random random_length =
     (case generate_one_time_keys L number_of_keys (rd m random random_length) account of
        None \<Rightarrow> None
      | Some (account, result) \<Rightarrow> Some (account, unset random_length m random, result))"

section \<open>Creating sessions\<close>

definition olm_create_outbound_session ::
  "crypto_lib \<Rightarrow> Session \<Rightarrow> Account \<Rightarrow> mem \<Rightarrow> addr \<Rightarrow> nat \<Rightarrow> addr \<Rightarrow> nat \<Rightarrow> addr \<Rightarrow> nat \<Rightarrow>
   Session \<times> mem \<times> nat option" where
  "olm_create_outbound_session L session account m id_key id_key_length ot_key ot_key_length
      random random_length =
     (if decode_base64_length id_key_length \<noteq> Some CURVE25519_KEY_LENGTH \<or>
         decode_base64_length ot_key_length \<noteq> Some CURVE25519_KEY_LENGTH then
        (session\<lparr>ss_last_error := OLM_INVALID_BASE64\<rparr>, m, None)
      else
        let identity_key = decode_key m id_key id_key_length;
            one_time_key = decode_key m ot_key ot_key_length;
            (session, result) = new_outbound_session L session account identity_key one_time_key
              (rd m random random_length)
        in (session, unset random_length m random, result))"

text \<open>\<open>None\<close> is the crash of \<open>new_inbound_session\<close>.\<close>

definition olm_create_inbound_session ::
  "crypto_lib \<Rightarrow> PreKeyMessageReader \<Rightarrow> MessageReader \<Rightarrow> Session \<Rightarrow> Account \<Rightarrow> mem \<Rightarrow> addr \<Rightarrow> nat \<Rightarrow>
   (Session \<times> mem \<times> nat option) option" where
  "olm_create_inbound_session L junk junkm session account m one_time_key_message message_length =
     (let (m, last_error, raw_length) =
            b64_input m one_time_key_message message_length (ss_last_error session);
          session = session\<lparr>ss_last_error := last_error\<rparr>
      in case raw_length of
           None \<Rightarrow> Some (session, m, None)
         | Some raw_length \<Rightarrow>
             map_option (\<lambda>(session, result). (session, m, result))
               (new_inbound_session L junk junkm session account None m one_time_key_message raw_length))"

definition olm_create_inbound_session_from ::
  "crypto_lib \<Rightarrow> PreKeyMessageReader \<Rightarrow> MessageReader \<Rightarrow> Session \<Rightarrow> Account \<Rightarrow> mem \<Rightarrow> addr \<Rightarrow> nat \<Rightarrow>
   addr \<Rightarrow> nat \<Rightarrow> (Session \<times> mem \<times> nat option) option" where
  "olm_create_inbound_session_from L junk junkm session account m id_key id_key_length
      one_time_key_message message_length =
     (if decode_base64_length id_key_length \<noteq> Some CURVE25519_KEY_LENGTH then
        Some (session\<lparr>ss_last_error := OLM_INVALID_BASE64\<rparr>, m, None)
      else
        let identity_key = decode_key m id_key id_key_length;
            (m, last_error, raw_length) =
              b64_input m one_time_key_message message_length (ss_last_error session);
            session = session\<lparr>ss_last_error := last_error\<rparr>
        in case raw_length of
             None \<Rightarrow> Some (session, m, None)
           | Some raw_length \<Rightarrow>
               map_option (\<lambda>(session, result). (session, m, result))
                 (new_inbound_session L junk junkm session account (Some identity_key) m
                    one_time_key_message raw_length))"

definition olm_session_id_length :: "Session \<Rightarrow> nat" where
  "olm_session_id_length session = b64_output_length session_id_length"

definition olm_session_id :: "Session \<Rightarrow> mem \<Rightarrow> addr \<Rightarrow> nat \<Rightarrow> Session \<times> mem \<times> nat option" where
  "olm_session_id session m id_ptr id_length =
     (let raw_length = session_id_length
      in if id_length < b64_output_length raw_length then
           (session\<lparr>ss_last_error := OLM_OUTPUT_BUFFER_TOO_SMALL\<rparr>, m, None)
         else
           case session_id session m (b64_output_pos id_ptr raw_length) raw_length of
             (session, m, None) \<Rightarrow> (session, m, None)
           | (session, m, Some _) \<Rightarrow>
               let (m, n) = b64_output m id_ptr raw_length in (session, m, Some n))"

definition olm_session_has_received_message :: "Session \<Rightarrow> bool" where
  "olm_session_has_received_message session = ss_received_message session"

definition olm_session_describe :: "Session \<Rightarrow> mem \<Rightarrow> addr \<Rightarrow> nat \<Rightarrow> mem" where
  "olm_session_describe session m buf buflen = describe session m buf buflen"

definition olm_matches_inbound_session ::
  "PreKeyMessageReader \<Rightarrow> Session \<Rightarrow> mem \<Rightarrow> addr \<Rightarrow> nat \<Rightarrow> Session \<times> mem \<times> nat option" where
  "olm_matches_inbound_session junk session m one_time_key_message message_length =
     (let (m, last_error, raw_length) =
            b64_input m one_time_key_message message_length (ss_last_error session);
          session = session\<lparr>ss_last_error := last_error\<rparr>
      in case raw_length of
           None \<Rightarrow> (session, m, None)
         | Some raw_length \<Rightarrow>
             let matches = matches_inbound_session junk session None m one_time_key_message raw_length
             in (session, m, Some (if matches then 1 else 0)))"

definition olm_matches_inbound_session_from ::
  "PreKeyMessageReader \<Rightarrow> Session \<Rightarrow> mem \<Rightarrow> addr \<Rightarrow> nat \<Rightarrow> addr \<Rightarrow> nat \<Rightarrow> Session \<times> mem \<times> nat option" where
  "olm_matches_inbound_session_from junk session m id_key id_key_length one_time_key_message message_length =
     (if decode_base64_length id_key_length \<noteq> Some CURVE25519_KEY_LENGTH then
        (session\<lparr>ss_last_error := OLM_INVALID_BASE64\<rparr>, m, None)
      else
        let identity_key = decode_key m id_key id_key_length;
            (m, last_error, raw_length) =
              b64_input m one_time_key_message message_length (ss_last_error session);
            session = session\<lparr>ss_last_error := last_error\<rparr>
        in case raw_length of
             None \<Rightarrow> (session, m, None)
           | Some raw_length \<Rightarrow>
               let matches = matches_inbound_session junk session (Some identity_key) m
                     one_time_key_message raw_length
               in (session, m, Some (if matches then 1 else 0)))"

definition olm_remove_one_time_keys :: "Account \<Rightarrow> Session \<Rightarrow> Account \<times> nat option" where
  "olm_remove_one_time_keys account session =
     (case remove_key account (ss_bob_one_time_key session) of
        (account, None) \<Rightarrow> (account\<lparr>ac_last_error := OLM_BAD_MESSAGE_KEY_ID\<rparr>, None)
      | (account, Some i) \<Rightarrow> (account, Some i))"

section \<open>Messages\<close>

text \<open>The message type is a \<open>size_t\<close> at the interface; the conversion keeps its low 32 bits.\<close>

definition message_type_number :: "MessageType \<Rightarrow> nat" where
  "message_type_number t = (case t of PRE_KEY \<Rightarrow> 0 | MESSAGE \<Rightarrow> 1)"

definition message_type_of :: "nat \<Rightarrow> MessageType" where
  "message_type_of n = (if n mod 2 ^ 32 = 1 then MESSAGE else PRE_KEY)"

definition olm_encrypt_message_type :: "Session \<Rightarrow> nat" where
  "olm_encrypt_message_type session = message_type_number (encrypt_message_type session)"

definition olm_encrypt_random_length :: "Session \<Rightarrow> nat" where
  "olm_encrypt_random_length session = session_encrypt_random_length session"

definition olm_encrypt_message_length :: "Session \<Rightarrow> nat \<Rightarrow> nat" where
  "olm_encrypt_message_length session plaintext_length =
     b64_output_length (encrypt_message_length session plaintext_length)"

text \<open>The random buffer does not overlap the message buffer, so its content is read up front.\<close>

definition olm_encrypt ::
  "crypto_lib \<Rightarrow> Session \<Rightarrow> mem \<Rightarrow> addr \<Rightarrow> nat \<Rightarrow> addr \<Rightarrow> nat \<Rightarrow> addr \<Rightarrow> nat \<Rightarrow> Session \<times> mem \<times> nat option" where
  "olm_encrypt L session m plaintext plaintext_length random random_length message message_length =
     (let raw_length = encrypt_message_length session plaintext_length
      in if message_length < b64_output_length raw_length then
           (session\<lparr>ss_last_error := OLM_OUTPUT_BUFFER_TOO_SMALL\<rparr>, m, None)
         else
           let (session, m, result) =
                 session_encrypt L session m plaintext plaintext_length (rd m random random_length)
                   (b64_output_pos message raw_length) raw_length;
               m = unset random_length m random
           in case result of
                None \<Rightarrow> (session, m, None)
              | Some _ \<Rightarrow> let (m, n) = b64_output m message raw_length in (session, m, Some n))"

definition olm_decrypt_max_plaintext_length ::
  "PreKeyMessageReader \<Rightarrow> MessageReader \<Rightarrow> Session \<Rightarrow> nat \<Rightarrow> mem \<Rightarrow> addr \<Rightarrow> nat \<Rightarrow> Session \<times> mem \<times> nat option" where
  "olm_decrypt_max_plaintext_length junk junkm session message_type m message message_length =
     (let (m, last_error, raw_length) = b64_input m message message_length (ss_last_error session);
          session = session\<lparr>ss_last_error := last_error\<rparr>
      in case raw_length of
           None \<Rightarrow> (session, m, None)
         | Some raw_length \<Rightarrow>
             let (session, result) = session_decrypt_max_plaintext_length junk junkm session
                   (message_type_of message_type) m message raw_length
             in (session, m, result))"

definition olm_decrypt ::
  "crypto_lib \<Rightarrow> PreKeyMessageReader \<Rightarrow> MessageReader \<Rightarrow> Session \<Rightarrow> nat \<Rightarrow> mem \<Rightarrow> addr \<Rightarrow> nat \<Rightarrow>
   addr \<Rightarrow> nat \<Rightarrow> Session \<times> mem \<times> nat option" where
  "olm_decrypt L junk junkm session message_type m message message_length plaintext max_plaintext_length =
     (let (m, last_error, raw_length) = b64_input m message message_length (ss_last_error session);
          session = session\<lparr>ss_last_error := last_error\<rparr>
      in case raw_length of
           None \<Rightarrow> (session, m, None)
         | Some raw_length \<Rightarrow>
             session_decrypt L junk junkm session (message_type_of message_type) m message raw_length
               plaintext max_plaintext_length)"

section \<open>Utilities\<close>

record Utility =
  ut_last_error :: OlmErrorCode

definition olm_utility :: Utility where
  "olm_utility = \<lparr>ut_last_error = OLM_SUCCESS\<rparr>"

definition olm_clear_utility :: "Utility \<Rightarrow> Utility" where
  "olm_clear_utility utility = olm_utility"

definition olm_utility_last_error :: "Utility \<Rightarrow> string" where
  "olm_utility_last_error utility = olm_error_to_string (ut_last_error utility)"

definition sha256_length :: nat where
  "sha256_length = 32"

definition utility_sha256 ::
  "Utility \<Rightarrow> mem \<Rightarrow> addr \<Rightarrow> nat \<Rightarrow> addr \<Rightarrow> nat \<Rightarrow> Utility \<times> mem \<times> nat option" where
  "utility_sha256 utility m input input_length output output_length =
     (if output_length < sha256_length then
        (utility\<lparr>ut_last_error := OLM_OUTPUT_BUFFER_TOO_SMALL\<rparr>, m, None)
      else (utility, wr m output (crypto_sha256 (rd m input input_length)), Some sha256_length))"

definition utility_ed25519_verify ::
  "crypto_lib \<Rightarrow> Utility \<Rightarrow> bytes \<Rightarrow> mem \<Rightarrow> addr \<Rightarrow> nat \<Rightarrow> addr \<Rightarrow> nat \<Rightarrow> Utility \<times> nat option" where
  "utility_ed25519_verify L utility key m message message_length signature signature_len =
     (if signature_len < ED25519_SIGNATURE_LENGTH then
        (utility\<lparr>ut_last_error := OLM_BAD_MESSAGE_MAC\<rparr>, None)
      else if \<not> crypto_ed25519_verify L key (rd m message message_length) (rd m signature 64) then
        (utility\<lparr>ut_last_error := OLM_BAD_MESSAGE_MAC\<rparr>, None)
      else (utility, Some 0))"

definition olm_sha256_length :: "Utility \<Rightarrow> nat" where
  "olm_sha256_length utility = b64_output_length sha256_length"

definition olm_sha256 ::
  "Utility \<Rightarrow> mem \<Rightarrow> addr \<Rightarrow> nat \<Rightarrow> addr \<Rightarrow> nat \<Rightarrow> Utility \<times> mem \<times> nat option" where
  "olm_sha256 utility m input input_length output output_length =
     (let raw_length = sha256_length
      in if output_length < b64_output_length raw_length then
           (utility\<lparr>ut_last_error := OLM_OUTPUT_BUFFER_TOO_SMALL\<rparr>, m, None)
         else
           case utility_sha256 utility m input input_length (b64_output_pos output raw_length) raw_length of
             (utility, m, None) \<Rightarrow> (utility, m, None)
           | (utility, m, Some _) \<Rightarrow>
               let (m, n) = b64_output m output raw_length in (utility, m, Some n))"

definition olm_ed25519_verify ::
  "crypto_lib \<Rightarrow> Utility \<Rightarrow> mem \<Rightarrow> addr \<Rightarrow> nat \<Rightarrow> addr \<Rightarrow> nat \<Rightarrow> addr \<Rightarrow> nat \<Rightarrow> Utility \<times> mem \<times> nat option" where
  "olm_ed25519_verify L utility m key key_length message message_length signature signature_len =
     (if decode_base64_length key_length \<noteq> Some CURVE25519_KEY_LENGTH then
        (utility\<lparr>ut_last_error := OLM_INVALID_BASE64\<rparr>, m, None)
      else
        let verify_key = decode_key m key key_length;
            (m, last_error, raw_signature_length) =
              b64_input m signature signature_len (ut_last_error utility);
            utility = utility\<lparr>ut_last_error := last_error\<rparr>
        in case raw_signature_length of
             None \<Rightarrow> (utility, m, None)
           | Some raw_signature_length \<Rightarrow>
               let (utility, result) = utility_ed25519_verify L utility verify_key m message message_length
                     signature raw_signature_length
               in (utility, m, result))"

section \<open>Sealed pickles of accounts and sessions\<close>

interpretation account_api: sealed_pickler pickle_account_length pickle_account unpickle_account
  account_enc wf_account "\<lambda>a. ol_end (ac_one_time_keys a) = 0" account_view ac_last_error
  "\<lambda>e a. a\<lparr>ac_last_error := e\<rparr>" olm_pickle_account_length olm_pickle_account olm_unpickle_account
proof unfold_locales
  fix v old :: Account and m :: mem and pos lim :: addr
  assume "wf_account v" "wf_account old" "ol_end (ac_one_time_keys old) = 0"
    "stored m pos (account_enc v)" "pos + length (account_enc v) \<le> lim"
  then show "ac_last_error (snd (unpickle_account m pos lim old)) = ac_last_error old"
    by (rule unpickle_account_enc(3))
qed (simp_all add: olm_pickle_account_length_def olm_pickle_account_def olm_unpickle_account_def
    wf_account_def account_view_def Let_def split: prod.split)

interpretation session_api: sealed_pickler pickle_session_length pickle_session unpickle_session
  session_enc wf_session "\<lambda>s. ratchet_fresh (ss_ratchet s)" session_view ss_last_error
  "\<lambda>e s. s\<lparr>ss_last_error := e\<rparr>" olm_pickle_session_length olm_pickle_session olm_unpickle_session
proof unfold_locales
  fix v old :: Session and m :: mem and pos lim :: addr
  assume "wf_session v" "wf_session old" "ratchet_fresh (ss_ratchet old)"
    "stored m pos (session_enc v)" "pos + length (session_enc v) \<le> lim"
  then show "ss_last_error (snd (unpickle_session m pos lim old)) = ss_last_error old"
    by (rule unpickle_session_enc(3))
qed (simp_all add: olm_pickle_session_length_def olm_pickle_session_def olm_unpickle_session_def
    wf_session_def session_view_def session_keys_def Let_def split: prod.split)

section \<open>Base64 texts\<close>

lemma b64_output_pos_bounds:
  "output \<le> b64_output_pos output n" "b64_output_pos output n + n = output + b64_output_length n"
  using encode_base64_length_ge [of n] by (simp_all add: b64_output_pos_def b64_output_length_def)

lemma b64_output_done:
  assumes "length raw = n"
  shows "b64_output (wr m (b64_output_pos out n) raw) out n = (wr m out (b64_encode raw), b64_output_length n)"
proof -
  have "wr (wr m (b64_output_pos out n) raw) out (b64_encode raw) = wr m out (b64_encode raw)"
    using b64_output_pos_bounds [of out n] assms
    by (intro wr_wr_cover) (simp_all add: b64_output_length_def)
  then show ?thesis
    using assms encode_base64_in_place [of "wr m (b64_output_pos out n) raw" out n]
    by (simp add: b64_output_def b64_output_length_def b64_output_pos_def Let_def)
qed

lemma b64_input_text:
  assumes "stored m inp (b64_encode raw)"
  shows "b64_input m inp (b64_output_length (length raw)) e = (wr m inp raw, e, Some (length raw))"
  using assms decode_base64_in_place [OF encode_base64_length_mod4, of m inp "length raw"]
  by (simp add: b64_input_def b64_output_length_def decode_encode_length stored_rd)

lemma decode_key_text:
  assumes "stored m p (b64_encode key)" "length key = 32"
  shows "decode_base64_length (b64_output_length 32) = Some CURVE25519_KEY_LENGTH"
    "decode_key m p (b64_output_length 32) = key"
  using assms by (simp_all add: decode_key_def decode_base64_object_def b64_output_length_def
      decode_encode_length CURVE25519_KEY_LENGTH_def stored_rd)

section \<open>Messages as texts\<close>

lemma message_type_number [simp]: "message_type_of (message_type_number t) = t"
  by (cases t) (simp_all add: message_type_of_def message_type_number_def)

definition message_text :: "Session \<Rightarrow> Ratchet \<Rightarrow> bytes \<Rightarrow> bytes" where
  "message_text s t pt = b64_encode (session_message s t pt)"

text \<open>What the caller of \<open>olm_encrypt\<close> provides: separate buffers, and enough random bytes.\<close>

definition olm_encrypt_ok :: "Session \<Rightarrow> addr \<Rightarrow> nat \<Rightarrow> addr \<Rightarrow> nat \<Rightarrow> addr \<Rightarrow> nat \<Rightarrow> bool" where
  "olm_encrypt_ok s pt n random random_length out out_length \<longleftrightarrow>
     olm_encrypt_message_length s n \<le> out_length \<and> olm_encrypt_random_length s \<le> random_length \<and>
     (pt + n \<le> out \<or> out + olm_encrypt_message_length s n \<le> pt) \<and>
     (random + random_length \<le> out \<or> out + olm_encrypt_message_length s n \<le> random)"

lemma olm_encrypt_wr:
  assumes t: "t = start_sender_chain L (ss_ratchet s) (rd m random rlen)"
    and wf: "wf_session s" "wf_ratchet t" and ok: "olm_encrypt_ok s pt n random rlen out olen"
  shows "olm_encrypt L s m pt n random rlen out olen =
    (s\<lparr>ss_ratchet := advance_sender t\<rparr>,
     wr (wr m random (replicate rlen 0)) out (message_text s t (rd m pt n)),
     Some (olm_encrypt_message_length s n))"
proof -
  let ?k = "encrypt_message_length s n" let ?pos = "b64_output_pos out ?k"
  let ?raw = "session_message s t (rd m pt n)"
  have k: "olm_encrypt_message_length s n = b64_output_length ?k"
    by (simp add: olm_encrypt_message_length_def)
  have pos: "out \<le> ?pos" "?pos + ?k = out + b64_output_length ?k" by (rule b64_output_pos_bounds)+
  have len: "length ?raw = ?k" using length_session_message [OF wf(1) t wf(2), of "rd m pt n"] by simp
  have enc: "session_encrypt L s m pt n (rd m random rlen) ?pos ?k =
      (s\<lparr>ss_ratchet := advance_sender t\<rparr>, wr m ?pos ?raw, Some (encrypt_output_length (ss_ratchet s) n))"
    using ok pos by (intro session_encrypt_wr [OF t wf])
      (auto simp: olm_encrypt_ok_def k olm_encrypt_random_length_def session_encrypt_random_length_def)
  have un: "unset rlen (wr m ?pos ?raw) random = wr (wr m random (replicate rlen 0)) ?pos ?raw"
    unfolding unset_wr using ok pos len by (subst wr_comm) (auto simp: olm_encrypt_ok_def k)
  show ?thesis
    using ok enc b64_output_done [OF len, of "wr m random (replicate rlen 0)" out]
    by (simp add: olm_encrypt_def olm_encrypt_ok_def k un message_text_def Let_def)
qed

lemma olm_decrypt_text:
  assumes L: "crypto_lib_ok L" and sync: "sessions_in_sync L a b"
    and fresh: "ol_empty (rt_sender_chain (ss_ratchet a)) \<longrightarrow> length random = 32 \<and>
      find_chain (ol_size (rt_receiver_chains (ss_ratchet b))) (rt_receiver_chains (ss_ratchet b))
        (c_public (curve25519_generate_key L random)) 0 = None"
    and t: "t = start_sender_chain L (ss_ratchet a) random"
    and small: "encrypt_output_length (ss_ratchet a) (length msg) < 2 ^ 64"
    and st: "stored m inp (message_text a t msg)"
    and disj: "buf + aes_encrypt_cbc_length (length msg) \<le> inp \<or>
      inp + olm_encrypt_message_length a (length msg) \<le> buf"
    and k: "aes_encrypt_cbc_length (length msg) \<le> k"
  obtains b' m' where
    "olm_decrypt L junk junkm b (olm_encrypt_message_type a) m inp
       (olm_encrypt_message_length a (length msg)) buf k = (b', m', Some (length msg))"
    "stored m' buf msg" "sessions_in_sync L (a\<lparr>ss_ratchet := advance_sender t\<rparr>) b'"
    "session_keys b' = session_keys b" "ss_received_message b'"
proof -
  let ?raw = "session_message a t msg" and ?k = "encrypt_message_length a (length msg)"
  have wf: "wf_session a" and rs: "in_sync L (ss_ratchet a) (ss_ratchet b) \<or> in_sync L (ss_ratchet b) (ss_ratchet a)"
    using sync by (simp_all add: sessions_in_sync_def)
  have wft: "wf_ratchet t" using sender_ready [OF L rs, of random, folded t] fresh by blast
  have len: "length ?raw = ?k" using length_session_message [OF wf t wft, of msg] .
  have in_: "b64_input m inp (olm_encrypt_message_length a (length msg)) e = (wr m inp ?raw, e, Some ?k)" for e
    using b64_input_text [OF st [unfolded message_text_def], of e] len
    by (simp add: olm_encrypt_message_length_def)
  have d: "buf + aes_encrypt_cbc_length (length msg) \<le> inp \<or> inp + ?k \<le> buf"
    using disj encode_base64_length_ge [of ?k]
    by (auto simp: olm_encrypt_message_length_def b64_output_length_def)
  obtain b' where b': "session_decrypt L junk junkm b (encrypt_message_type a) (wr m inp ?raw) inp ?k buf k =
      (b', wr (wr m inp ?raw) buf (pkcs7 msg), Some (length msg))"
    "sessions_in_sync L (a\<lparr>ss_ratchet := advance_sender t\<rparr>) b'" "session_keys b' = session_keys b"
    "ss_received_message b'"
    by (rule session_message_delivered [OF L sync fresh t small stored_wr d k, of junk junkm])
  have "olm_decrypt L junk junkm b (olm_encrypt_message_type a) m inp
      (olm_encrypt_message_length a (length msg)) buf k =
      (b', wr (wr m inp ?raw) buf (pkcs7 msg), Some (length msg))"
    using b'(1) by (simp add: olm_decrypt_def in_ olm_encrypt_message_type_def)
  then show thesis using b'(2-4) stored_pkcs7 by (intro that)
qed

section \<open>Sessions from texts\<close>

lemma b64_output_length_32: "b64_output_length 32 = 43"
  by (simp add: b64_output_length_def encode_base64_length_def)

lemma olm_create_outbound_session_text:
  assumes "stored m idp (b64_encode idk)" "length idk = 32" "stored m otp (b64_encode otk)" "length otk = 32"
  shows "olm_create_outbound_session L s alice m idp 43 otp 43 rnd rlen =
    (fst (new_outbound_session L s alice idk otk (rd m rnd rlen)), wr m rnd (replicate rlen 0),
     snd (new_outbound_session L s alice idk otk (rd m rnd rlen)))"
  using decode_key_text [OF assms(1,2), unfolded b64_output_length_32]
    decode_key_text [OF assms(3,4), unfolded b64_output_length_32]
  by (simp add: olm_create_outbound_session_def Let_def unset_wr split: prod.split)

lemma olm_create_inbound_session_text:
  assumes st: "stored m inp (message_text s t pt)" and wf: "wf_session s" "wf_ratchet t"
    and first: "\<not> ss_received_message s" "wf_account bob"
    and len: "length (ratchet_message t pt) < 2 ^ 64" "aes_encrypt_cbc_length (length pt) < 2 ^ 64"
    and n: "n = b64_output_length (length (session_message s t pt))"
  shows "olm_create_inbound_session L junk junkm f bob m inp n =
    (case lookup_key bob (ss_bob_one_time_key s) of
       None \<Rightarrow> Some (f\<lparr>ss_alice_identity_key := ss_alice_identity_key s,
           ss_alice_base_key := ss_alice_base_key s, ss_bob_one_time_key := ss_bob_one_time_key s,
           ss_last_error := OLM_BAD_MESSAGE_KEY_ID\<rparr>, wr m inp (session_message s t pt), None)
     | Some i \<Rightarrow> Some (inbound_session L f bob s (otk_key (keys bob ! i))
           (c_public (sc_ratchet_key (sender_chain t))), wr m inp (session_message s t pt), Some 0))"
    "stored m idp (b64_encode (ss_alice_identity_key s)) \<Longrightarrow>
     olm_create_inbound_session_from L junk junkm f bob m idp 43 inp n =
     olm_create_inbound_session L junk junkm f bob m inp n"
proof -
  let ?raw = "session_message s t pt"
  have in_: "b64_input m inp n e = (wr m inp ?raw, e, Some (length ?raw))" for e
    using b64_input_text [OF st [unfolded message_text_def], of e] by (simp add: n)
  have new: "new_inbound_session L junk junkm f bob their (wr m inp ?raw) inp (length ?raw) =
    (case lookup_key bob (ss_bob_one_time_key s) of
       None \<Rightarrow> Some (f\<lparr>ss_alice_identity_key := ss_alice_identity_key s,
           ss_alice_base_key := ss_alice_base_key s, ss_bob_one_time_key := ss_bob_one_time_key s,
           ss_last_error := OLM_BAD_MESSAGE_KEY_ID\<rparr>, None)
     | Some i \<Rightarrow> Some (inbound_session L f bob s (otk_key (keys bob ! i))
           (c_public (sc_ratchet_key (sender_chain t))), Some 0))"
    if "their \<in> {None, Some (ss_alice_identity_key s)}" for their
    using that by (intro new_inbound_message [OF stored_wr wf first(1) _ len first(2)])
  show e: "olm_create_inbound_session L junk junkm f bob m inp n =
    (case lookup_key bob (ss_bob_one_time_key s) of
       None \<Rightarrow> Some (f\<lparr>ss_alice_identity_key := ss_alice_identity_key s,
           ss_alice_base_key := ss_alice_base_key s, ss_bob_one_time_key := ss_bob_one_time_key s,
           ss_last_error := OLM_BAD_MESSAGE_KEY_ID\<rparr>, wr m inp ?raw, None)
     | Some i \<Rightarrow> Some (inbound_session L f bob s (otk_key (keys bob ! i))
           (c_public (sc_ratchet_key (sender_chain t))), wr m inp ?raw, Some 0))"
    by (simp add: olm_create_inbound_session_def in_ new split: option.split)
  assume "stored m idp (b64_encode (ss_alice_identity_key s))"
  moreover have "length (ss_alice_identity_key s) = 32" using wf(1) by (simp add: wf_session_def)
  ultimately show "olm_create_inbound_session_from L junk junkm f bob m idp 43 inp n =
     olm_create_inbound_session L junk junkm f bob m inp n"
    unfolding e using decode_key_text [of m idp "ss_alice_identity_key s", unfolded b64_output_length_32]
    by (simp add: olm_create_inbound_session_from_def in_ new split: option.split)
qed

section \<open>From a key bundle to a session\<close>

text \<open>
  Alice reads Bob's two keys as texts, makes a session and encrypts; the text is carried to Bob, who
  makes a session from one copy of it and decrypts another (decoding is in place).
\<close>

definition olm_handshake ::
  "crypto_lib \<Rightarrow> PreKeyMessageReader \<Rightarrow> MessageReader \<Rightarrow> Account \<Rightarrow> Account \<Rightarrow> mem \<Rightarrow> addr \<Rightarrow> addr \<Rightarrow> addr \<Rightarrow>
   addr \<Rightarrow> nat \<Rightarrow> addr \<Rightarrow> mem \<Rightarrow> addr \<Rightarrow> addr \<Rightarrow> (Session \<times> Session \<times> mem \<times> nat) option" where
  "olm_handshake L junk junkm alice bob ma idp otp rnd pt n out mb inp buf =
     (case olm_create_outbound_session L fresh_session alice ma idp 43 otp 43 rnd 64 of
        (_, _, None) \<Rightarrow> None
      | (a, ma, Some _) \<Rightarrow>
     (case olm_encrypt L a ma pt n 0 0 out (olm_encrypt_message_length a n) of
        (_, _, None) \<Rightarrow> None
      | (a', ma, Some len) \<Rightarrow>
     (case olm_create_inbound_session L junk junkm fresh_session bob (wr mb inp (rd ma out len)) inp len of
        Some (b, mb, Some _) \<Rightarrow>
          (case olm_decrypt L junk junkm b 0 (wr mb inp (rd ma out len)) inp len buf (aes_encrypt_cbc_length n) of
             (_, _, None) \<Rightarrow> None
           | (b', mb, Some k) \<Rightarrow> Some (a', b', mb, k))
      | _ \<Rightarrow> None)))"

definition olm_handshake_ok ::
  "crypto_lib \<Rightarrow> Account \<Rightarrow> Account \<Rightarrow> bytes \<Rightarrow> mem \<Rightarrow> addr \<Rightarrow> addr \<Rightarrow> addr \<Rightarrow> addr \<Rightarrow> nat \<Rightarrow> addr \<Rightarrow> addr \<Rightarrow> addr \<Rightarrow> bool"
where
  "olm_handshake_ok L alice bob otk ma idp otp rnd pt n out inp buf \<longleftrightarrow>
     account_generated L alice \<and> account_generated L bob \<and> otk \<in> c_public ` otk_key ` set (keys bob) \<and>
     stored ma idp (b64_encode (c_public (ik_curve25519_key (ac_identity_keys bob)))) \<and>
     stored ma otp (b64_encode otk) \<and> (pt + n \<le> rnd \<or> rnd + 64 \<le> pt) \<and>
     (let a = fst (olm_create_outbound_session L fresh_session alice ma idp 43 otp 43 rnd 64)
      in encrypt_output_length (ss_ratchet a) n < 2 ^ 64 \<and>
         (pt + n \<le> out \<or> out + olm_encrypt_message_length a n \<le> pt) \<and>
         (buf + aes_encrypt_cbc_length n \<le> inp \<or> inp + olm_encrypt_message_length a n \<le> buf))"

lemma olm_handshake_in_sync:
  assumes L: "crypto_lib_ok L" and ok: "olm_handshake_ok L alice bob otk ma idp otp rnd pt n out inp buf"
    and st: "stored ma pt msg" "length msg = n"
  obtains a b m' where
    "olm_handshake L junk junkm alice bob ma idp otp rnd pt n out mb inp buf = Some (a, b, m', n)"
    "stored m' buf msg" "sessions_in_sync L a b" "session_keys a = session_keys b"
    "ss_alice_identity_key b = c_public (ik_curve25519_key (ac_identity_keys alice))"
    "ss_bob_one_time_key b = otk" "\<not> ss_received_message a" "ss_received_message b" "constructor_params a"
proof -
  let ?bk = "c_public (ik_curve25519_key (ac_identity_keys bob))"
  have acc: "account_generated L alice" "account_generated L bob" and wfb: "wf_account bob"
    and otk: "otk \<in> c_public ` otk_key ` set (keys bob)"
    and texts: "stored ma idp (b64_encode ?bk)" "stored ma otp (b64_encode otk)"
    using ok by (simp_all add: olm_handshake_ok_def account_generated_def)
  have lb: "length ?bk = 32" using wfb by (simp add: wf_account_def wf_identity_keys_def wf_curve_pair_def)
  obtain x where x: "x \<in> set (keys bob)" "otk = c_public (otk_key x)" using otk by blast
  then have "valid_one_time_key x" using wfb by (auto simp: wf_account_def intro: list_wf_items)
  then have lo: "length otk = 32" by (simp add: x(2) valid_one_time_key_def wf_curve_pair_def)
  have "lookup_key bob otk \<noteq> None" using lookup_key_None [OF wfb lo] x by auto
  then obtain i where i: "lookup_key bob otk = Some i" by blast
  have r: "64 \<le> length (rd ma rnd 64)" by simp
  obtain a where a: "new_outbound_session L fresh_session alice ?bk otk (rd ma rnd 64) = (a, Some 0)"
    using outbound_session_eq [OF r, of L fresh_session alice ?bk otk] by blast
  let ?b = "inbound_session L fresh_session bob a (otk_key (keys bob ! i))
      (c_public (sc_ratchet_key (sender_chain (ss_ratchet a))))"
  let ?ma = "wr ma rnd (replicate 64 0)" and ?t = "ss_ratchet a"
  have create: "olm_create_outbound_session L fresh_session alice ma idp 43 otp 43 rnd 64 = (a, ?ma, Some 0)"
    using a by (simp add: olm_create_outbound_session_text [OF texts(1) lb texts(2) lo])
  have pt: "rd ?ma pt n = msg" using ok st by (subst rd_wr_disj) (auto simp: olm_handshake_ok_def stored_rd)
  have eok: "encrypt_output_length ?t (length msg) < 2 ^ 64" "olm_encrypt_ok a pt n 0 0 out (olm_encrypt_message_length a n)"
    "buf + aes_encrypt_cbc_length (length msg) \<le> inp \<or> inp + olm_encrypt_message_length a (length msg) \<le> buf"
    if "olm_encrypt_random_length a \<le> 0"
    using ok st(2) create that by (simp_all add: olm_handshake_ok_def olm_encrypt_ok_def)
  note h = handshake_in_sync [OF L acc r i lo a refl]
  have wf: "wf_ratchet ?t" and ne: "\<not> ol_empty (rt_sender_chain ?t)"
    using h(1) by (simp_all add: in_sync_def can_reply_def)
  have t: "?t = start_sender_chain L ?t q" for q using ne by (simp add: start_sender_chain_simps)
  have "olm_encrypt_random_length a \<le> 0"
    using ne by (simp add: olm_encrypt_random_length_def session_encrypt_random_length_def encrypt_random_length_def)
  note eok = eok [OF this]
  let ?text = "message_text a ?t msg"
  have enc: "olm_encrypt L a ?ma pt n 0 0 out (olm_encrypt_message_length a n) =
      (a\<lparr>ss_ratchet := advance_sender ?t\<rparr>, wr ?ma out ?text, Some (olm_encrypt_message_length a n))"
    using olm_encrypt_wr [OF t h(2) wf eok(2), where m = ?ma] by (simp add: pt)
  have lm: "olm_encrypt_message_length a n = b64_output_length (length (session_message a ?t msg))"
    "length (ratchet_message ?t msg) = encrypt_output_length ?t (length msg)"
    using length_session_message [OF h(2) t wf, of msg] ratchet_message_length [OF t wf, of msg] st(2)
    by (simp_all add: olm_encrypt_message_length_def)
  have lt: "length ?text = olm_encrypt_message_length a n"
    by (simp add: message_text_def lm(1) b64_output_length_def)
  have small: "length (ratchet_message ?t msg) < 2 ^ 64" "aes_encrypt_cbc_length (length msg) < 2 ^ 64"
    using eok(1) encrypt_output_length_cbc [of "length msg" ?t] by (simp_all add: lm(2))
  have rd_text: "rd (wr ?ma out ?text) out (olm_encrypt_message_length a n) = ?text" by (simp add: lt)
  obtain mb' where inb: "olm_create_inbound_session L junk junkm fresh_session bob (wr mb inp ?text) inp
      (olm_encrypt_message_length a n) = Some (?b, mb', Some 0)"
    using olm_create_inbound_session_text(1) [OF stored_wr h(2) wf h(4) wfb small lm(1),
      where f = fresh_session and L = L and junk = junk and junkm = junkm] i h(5) by simp
  have sync: "sessions_in_sync L a ?b" using h(1-3) by (simp add: sessions_in_sync_def)
  have fresh: "ol_empty (rt_sender_chain ?t) \<longrightarrow> length [] = 32 \<and> P" for P using ne by simp
  obtain b' m' where dec: "olm_decrypt L junk junkm ?b (olm_encrypt_message_type a) (wr mb' inp ?text) inp
      (olm_encrypt_message_length a (length msg)) buf (aes_encrypt_cbc_length n) = (b', m', Some (length msg))"
    "stored m' buf msg" "sessions_in_sync L (a\<lparr>ss_ratchet := advance_sender ?t\<rparr>) b'"
    "session_keys b' = session_keys ?b" "ss_received_message b'"
    by (rule olm_decrypt_text [OF L sync fresh t eok(1) stored_wr eok(3),
          where k = "aes_encrypt_cbc_length n" and junk = junk and junkm = junkm]) (simp add: st(2))
  have ty: "olm_encrypt_message_type a = 0"
    using h(4) by (simp add: olm_encrypt_message_type_def encrypt_message_type_def message_type_number_def)
  have "olm_handshake L junk junkm alice bob ma idp otp rnd pt n out mb inp buf =
      Some (a\<lparr>ss_ratchet := advance_sender ?t\<rparr>, b', m', n)"
    using dec(1) st(2) by (simp add: olm_handshake_def create enc rd_text inb ty)
  moreover have "session_keys ?b = session_keys a" by (simp add: session_keys_def inbound_session_def)
  ultimately show thesis
    using dec(2-5) h(4-6)
    by (intro that [of "a\<lparr>ss_ratchet := advance_sender ?t\<rparr>" b' m'])
      (use h(7) in \<open>auto simp: session_keys_def inbound_session_def constructor_params_def\<close>)
qed

section \<open>Exchanging texts\<close>

definition olm_exchange ::
  "crypto_lib \<Rightarrow> PreKeyMessageReader \<Rightarrow> MessageReader \<Rightarrow> Session \<Rightarrow> Session \<Rightarrow> mem \<Rightarrow> addr \<Rightarrow> nat \<Rightarrow>
   addr \<Rightarrow> nat \<Rightarrow> addr \<Rightarrow> nat \<Rightarrow> mem \<Rightarrow> addr \<Rightarrow> addr \<Rightarrow> Session \<times> Session \<times> mem \<times> mem \<times> nat option" where
  "olm_exchange L junk junkm a b ma pt n rnd rlen out olen mb inp buf =
     (case olm_encrypt L a ma pt n rnd rlen out olen of
        (a', ma, None) \<Rightarrow> (a', b, ma, mb, None)
      | (a', ma, Some len) \<Rightarrow>
          let (b', mb, r) = olm_decrypt L junk junkm b (olm_encrypt_message_type a)
                (wr mb inp (rd ma out len)) inp len buf (aes_encrypt_cbc_length n)
          in (a', b', ma, mb, r))"

definition olm_exchange_ok ::
  "crypto_lib \<Rightarrow> Session \<Rightarrow> Session \<Rightarrow> mem \<Rightarrow> addr \<Rightarrow> nat \<Rightarrow> addr \<Rightarrow> nat \<Rightarrow> addr \<Rightarrow> nat \<Rightarrow> addr \<Rightarrow> addr \<Rightarrow> bool" where
  "olm_exchange_ok L a b ma pt n rnd rlen out olen inp buf \<longleftrightarrow>
     olm_encrypt_ok a pt n rnd rlen out olen \<and> encrypt_output_length (ss_ratchet a) n < 2 ^ 64 \<and>
     (buf + aes_encrypt_cbc_length n \<le> inp \<or> inp + olm_encrypt_message_length a n \<le> buf) \<and>
     (ol_empty (rt_sender_chain (ss_ratchet a)) \<longrightarrow> rlen = 32 \<and>
        find_chain (ol_size (rt_receiver_chains (ss_ratchet b))) (rt_receiver_chains (ss_ratchet b))
          (c_public (curve25519_generate_key L (rd ma rnd rlen))) 0 = None)"

lemma olm_exchange_in_sync:
  assumes L: "crypto_lib_ok L" and ok: "olm_exchange_ok L a b ma pt n rnd rlen out olen inp buf"
    and sync: "sessions_in_sync L a b" and st: "stored ma pt msg" "length msg = n"
  obtains a' b' ma' mb' where
    "olm_exchange L junk junkm a b ma pt n rnd rlen out olen mb inp buf = (a', b', ma', mb', Some n)"
    "stored mb' buf msg" "rd ma' rnd rlen = replicate rlen 0" "sessions_in_sync L a' b'"
    "session_keys a' = session_keys a" "session_keys b' = session_keys b" "ss_received_message b'"
proof -
  define random where "random = rd ma rnd rlen"
  define t where "t = start_sender_chain L (ss_ratchet a) random"
  have wf: "wf_session a" and rs: "in_sync L (ss_ratchet a) (ss_ratchet b) \<or> in_sync L (ss_ratchet b) (ss_ratchet a)"
    using sync by (simp_all add: sessions_in_sync_def)
  have fresh: "ol_empty (rt_sender_chain (ss_ratchet a)) \<longrightarrow> length random = 32 \<and>
      find_chain (ol_size (rt_receiver_chains (ss_ratchet b))) (rt_receiver_chains (ss_ratchet b))
        (c_public (curve25519_generate_key L random)) 0 = None"
    using ok unfolding olm_exchange_ok_def random_def length_rd by blast
  have wft: "wf_ratchet t" using sender_ready [OF L rs, of random, folded t_def] fresh by blast
  have eok: "olm_encrypt_ok a pt n rnd rlen out olen"
    and small: "encrypt_output_length (ss_ratchet a) (length msg) < 2 ^ 64"
    and disj: "buf + aes_encrypt_cbc_length (length msg) \<le> inp \<or> inp + olm_encrypt_message_length a (length msg) \<le> buf"
    using ok st(2) by (simp_all add: olm_exchange_ok_def)
  let ?text = "message_text a t msg" and ?m = "wr ma rnd (replicate rlen 0)"
  have lt: "length ?text = olm_encrypt_message_length a n"
    using length_session_message [OF wf t_def wft, of msg] st(2)
    by (simp add: message_text_def olm_encrypt_message_length_def b64_output_length_def)
  have enc: "olm_encrypt L a ma pt n rnd rlen out olen =
      (a\<lparr>ss_ratchet := advance_sender t\<rparr>, wr ?m out ?text, Some (olm_encrypt_message_length a n))"
    using olm_encrypt_wr [OF t_def [unfolded random_def] wf wft eok] st by (simp add: stored_rd)
  have carried: "rd (wr ?m out ?text) out (olm_encrypt_message_length a n) = ?text" by (simp add: lt)
  have erased: "rd (wr ?m out ?text) rnd rlen = replicate rlen 0"
    using eok by (subst rd_wr_disj) (auto simp: lt olm_encrypt_ok_def)
  obtain b' mb' where "olm_decrypt L junk junkm b (olm_encrypt_message_type a) (wr mb inp ?text) inp
      (olm_encrypt_message_length a (length msg)) buf (aes_encrypt_cbc_length n) = (b', mb', Some (length msg))"
    "stored mb' buf msg" "sessions_in_sync L (a\<lparr>ss_ratchet := advance_sender t\<rparr>) b'"
    "session_keys b' = session_keys b" "ss_received_message b'"
    by (rule olm_decrypt_text [OF L sync fresh t_def small stored_wr disj,
          where k = "aes_encrypt_cbc_length n" and junk = junk and junkm = junkm]) (simp add: st(2))
  then show thesis
    using st(2) erased by (intro that [of "a\<lparr>ss_ratchet := advance_sender t\<rparr>" b' "wr ?m out ?text" mb'])
      (simp_all add: olm_exchange_def enc carried)
qed

section \<open>Properties\<close>

lemma example_party_key_length: "length (c_public (ik_curve25519_key (ac_identity_keys (example_party b)))) = 32"
  using example_party_keys(2) [of b] by (simp add: wf_account_def wf_identity_keys_def wf_curve_pair_def)

lemma example_otk_key:
  "example_otk \<in> c_public ` otk_key ` set (keys (example_party 5))" "length example_otk = 32"
proof -
  show "example_otk \<in> c_public ` otk_key ` set (keys (example_party 5))"
    by (simp add: example_otk_def example_party_keys(1))
  show "length example_otk = 32"
    using example_party_keys(2) [of 5] list_wf_items
    by (fastforce simp: example_otk_def example_party_keys(1) wf_account_def valid_one_time_key_def wf_curve_pair_def)
qed

definition example_bundle :: mem where
  "example_bundle = wr (wr (\<lambda>i. 7) 5100 (b64_encode example_otk)) 5000
     (b64_encode (c_public (ik_curve25519_key (ac_identity_keys (example_party 5)))))"

lemma example_bundle:
  "stored example_bundle 5000 (b64_encode (c_public (ik_curve25519_key (ac_identity_keys (example_party 5)))))"
  "stored example_bundle 5100 (b64_encode example_otk)" "stored example_bundle 2000 [7]"
proof -
  show "stored example_bundle 5000 (b64_encode (c_public (ik_curve25519_key (ac_identity_keys (example_party 5)))))"
    by (simp add: example_bundle_def)
  show "stored example_bundle 5100 (b64_encode example_otk)"
    unfolding example_bundle_def by (subst stored_wr_disj) (simp_all add: example_party_key_length encode_base64_length_def)
  show "stored example_bundle 2000 [7]" by (simp add: example_bundle_def wr_def)
qed

lemma example_handshake_ok:
  "olm_handshake_ok example_lib (example_party 1) (example_party 5) example_otk example_bundle 5000 5100 6000
    2000 1 3000 3000 0"
proof -
  have "encrypt_output_length r 1 < 2 ^ 64" for r
    by (rule order.strict_trans [OF encrypt_output_length_bound]) simp
  then show ?thesis
    by (simp add: olm_handshake_ok_def example_party_generated example_otk_key example_bundle Let_def
        aes_encrypt_cbc_length_def)
qed

text \<open>
  C1 From two keys that Bob published as texts Alice makes a session and encrypts; from the text of
  that message Bob makes his session and decrypts the plaintext.  Both sessions hold the same keys
  and are in sync, and Bob's knows Alice's identity key and which of his one-time keys was used.
\<close>

theorem olm_handshake_delivers:
  assumes "crypto_lib_ok L" "olm_handshake_ok L alice bob otk ma idp otp rnd pt n out inp buf"
    "stored ma pt msg" "length msg = n"
  shows "\<exists>a b m'. olm_handshake L junk junkm alice bob ma idp otp rnd pt n out mb inp buf = Some (a, b, m', n) \<and>
    stored m' buf msg \<and> sessions_in_sync L a b \<and> session_keys a = session_keys b \<and>
    ss_alice_identity_key b = c_public (ik_curve25519_key (ac_identity_keys alice)) \<and>
    ss_bob_one_time_key b = otk \<and> olm_encrypt_message_type a = 0 \<and> olm_encrypt_message_type b = 1 \<and>
    olm_session_has_received_message b"
proof -
  obtain a b m' where e: "olm_handshake L junk junkm alice bob ma idp otp rnd pt n out mb inp buf = Some (a, b, m', n)"
    "stored m' buf msg" "sessions_in_sync L a b" "session_keys a = session_keys b"
    "ss_alice_identity_key b = c_public (ik_curve25519_key (ac_identity_keys alice))"
    "ss_bob_one_time_key b = otk" "\<not> ss_received_message a" "ss_received_message b" "constructor_params a"
    by (rule olm_handshake_in_sync [OF assms, where junk = junk and junkm = junkm and mb = mb])
  then show ?thesis
    by (intro exI [of _ a] exI [of _ b] exI [of _ m']) (simp add: olm_encrypt_message_type_def
        encrypt_message_type_def message_type_number_def olm_session_has_received_message_def)
qed

theorem olm_handshake_delivers_witness:
  "\<exists>a b m'. olm_handshake example_lib zero_prekey_reader zero_reader (example_party 1) (example_party 5)
      example_bundle 5000 5100 6000 2000 1 3000 (\<lambda>i. 0) 3000 0 = Some (a, b, m', 1) \<and>
    stored m' 0 [7] \<and> sessions_in_sync example_lib a b \<and> session_keys a = session_keys b \<and>
    ss_alice_identity_key b = c_public (ik_curve25519_key (ac_identity_keys (example_party 1))) \<and>
    ss_bob_one_time_key b = example_otk \<and> olm_encrypt_message_type a = 0 \<and> olm_encrypt_message_type b = 1 \<and>
    olm_session_has_received_message b"
  by (rule olm_handshake_delivers [OF example_lib_ok example_handshake_ok example_bundle(3)]) simp

text \<open>
  C2 Between sessions in sync every message that \<open>olm_encrypt\<close> makes is decrypted by \<open>olm_decrypt\<close>
  from its base64 text with the announced type; the random input is erased, the sessions keep
  their keys and stay in sync.
\<close>

theorem olm_message_delivered:
  assumes "crypto_lib_ok L" "olm_exchange_ok L a b ma pt n rnd rlen out olen inp buf"
    "sessions_in_sync L a b" "stored ma pt msg" "length msg = n"
  shows "\<exists>a' b' ma' mb'. olm_exchange L junk junkm a b ma pt n rnd rlen out olen mb inp buf =
      (a', b', ma', mb', Some n) \<and> stored mb' buf msg \<and> rd ma' rnd rlen = replicate rlen 0 \<and>
    sessions_in_sync L a' b' \<and> session_keys a' = session_keys a \<and> session_keys b' = session_keys b"
proof -
  obtain a' b' ma' mb' where
    "olm_exchange L junk junkm a b ma pt n rnd rlen out olen mb inp buf = (a', b', ma', mb', Some n)"
    "stored mb' buf msg" "rd ma' rnd rlen = replicate rlen 0" "sessions_in_sync L a' b'"
    "session_keys a' = session_keys a" "session_keys b' = session_keys b" "ss_received_message b'"
    by (rule olm_exchange_in_sync [OF assms, where junk = junk and junkm = junkm and mb = mb])
  then show ?thesis by blast
qed

lemma example_sessions_in_sync: "sessions_in_sync example_lib (fst example_sessions) (snd example_sessions)"
  using olm_conversation_in_sync [OF example_lib_ok example_conversation] by blast

lemma example_olm_exchange_ok:
  "olm_exchange_ok example_lib (fst example_sessions) (snd example_sessions) (\<lambda>i. 4) 2000 1 100 32 3000
    (olm_encrypt_message_length (fst example_sessions) 1) 3000 0"
proof -
  have "\<not> ol_empty (rt_sender_chain (ss_ratchet (fst example_sessions)))"
    using example_exchange by (auto simp: session_exchange_ok_def)
  moreover have "encrypt_output_length r 1 < 2 ^ 64" for r
    by (rule order.strict_trans [OF encrypt_output_length_bound]) simp
  ultimately show ?thesis
    by (simp add: olm_exchange_ok_def olm_encrypt_ok_def aes_encrypt_cbc_length_def
        olm_encrypt_random_length_def session_encrypt_random_length_def encrypt_random_length_def)
qed

theorem olm_message_delivered_witness:
  "\<exists>a' b' ma' mb'. olm_exchange example_lib zero_prekey_reader zero_reader (fst example_sessions)
      (snd example_sessions) (\<lambda>i. 4) 2000 1 100 32 3000 (olm_encrypt_message_length (fst example_sessions) 1)
      (\<lambda>i. 0) 3000 0 = (a', b', ma', mb', Some 1) \<and> stored mb' 0 [4] \<and> rd ma' 100 32 = replicate 32 0 \<and>
    sessions_in_sync example_lib a' b' \<and> session_keys a' = session_keys (fst example_sessions) \<and>
    session_keys b' = session_keys (snd example_sessions)"
  by (rule olm_message_delivered [OF example_lib_ok example_olm_exchange_ok example_sessions_in_sync]) simp_all

text \<open>
  An account that is pickled under a key and unpickled with the same key into an empty account
  object has the identity keys, the one-time keys and the next key id it had; both calls return the
  announced length, keep the error code and write nothing outside the buffer.
\<close>

theorem olm_account_pickle_round_trip:
  assumes "wf_account a" "wf_account old" "ol_end (ac_one_time_keys old) = 0"
    "olm_pickle_account_length a \<le> n"
  shows "\<exists>m1 new m2. olm_pickle_account a key m p n = (a, m1, Some (olm_pickle_account_length a)) \<and>
    olm_unpickle_account old key m1 p (olm_pickle_account_length a) =
      (new, m2, Some (olm_pickle_account_length a)) \<and>
    account_view new = account_view a \<and> wf_account new \<and> ac_last_error new = ac_last_error old \<and>
    frame m m2 p (olm_pickle_account_length a)"
  by (rule account_api.open_seal_seal [OF assms])

theorem olm_account_pickle_round_trip_witness:
  "\<exists>m1 new m2. olm_pickle_account example_account [1] (\<lambda>i. 0) 0 (olm_pickle_account_length example_account) =
      (example_account, m1, Some (olm_pickle_account_length example_account)) \<and>
    olm_unpickle_account fresh_account [1] m1 0 (olm_pickle_account_length example_account) =
      (new, m2, Some (olm_pickle_account_length example_account)) \<and>
    account_view new = account_view example_account \<and> wf_account new \<and>
    ac_last_error new = ac_last_error fresh_account \<and>
    frame (\<lambda>i. 0) m2 0 (olm_pickle_account_length example_account)"
  by (rule olm_account_pickle_round_trip [OF wf_example_account wf_fresh_account(1)])
    (simp_all add: fresh_account_def ol_new_def)

text \<open>
  The same for sessions: the keys of the session, whether a message was received, the chains and
  the skipped message keys survive.
\<close>

theorem olm_session_pickle_round_trip:
  assumes "wf_session s" "wf_session old" "ratchet_fresh (ss_ratchet old)"
    "olm_pickle_session_length s \<le> n"
  shows "\<exists>m1 new m2. olm_pickle_session s key m p n = (s, m1, Some (olm_pickle_session_length s)) \<and>
    olm_unpickle_session old key m1 p (olm_pickle_session_length s) =
      (new, m2, Some (olm_pickle_session_length s)) \<and>
    session_view new = session_view s \<and> wf_session new \<and> ss_last_error new = ss_last_error old \<and>
    frame m m2 p (olm_pickle_session_length s)"
  by (rule session_api.open_seal_seal [OF assms])

lemma fresh_ratchet: "ratchet_fresh (ss_ratchet fresh_session)"
  by (simp add: ratchet_fresh_def fresh_session_def new_ratchet_def ol_new_def)

theorem olm_session_pickle_round_trip_witness:
  "\<exists>m1 new m2. olm_pickle_session (fst example_sessions) [1] (\<lambda>i. 0) 0
        (olm_pickle_session_length (fst example_sessions)) =
      (fst example_sessions, m1, Some (olm_pickle_session_length (fst example_sessions))) \<and>
    olm_unpickle_session fresh_session [1] m1 0 (olm_pickle_session_length (fst example_sessions)) =
      (new, m2, Some (olm_pickle_session_length (fst example_sessions))) \<and>
    session_view new = session_view (fst example_sessions) \<and> wf_session new \<and>
    ss_last_error new = ss_last_error fresh_session \<and>
    frame (\<lambda>i. 0) m2 0 (olm_pickle_session_length (fst example_sessions))"
  by (rule olm_session_pickle_round_trip [OF _ wf_fresh_session fresh_ratchet])
    (use example_sessions_in_sync in \<open>simp_all add: sessions_in_sync_def\<close>)

text \<open>
  C30 A text of an impossible length, or whose bytes do not end with the tag of the rest under the
  key, unpickles into neither an account nor a session: only the error code of the object changes.
\<close>

theorem olm_unpickle_refuses:
  assumes "bs = b64_decode (rd m p n)"
    "\<forall>k. decode_base64_length n = Some k \<longrightarrow>
       k < 8 \<or> drop (k - 8) bs \<noteq> cipher_tag PICKLE_CIPHER key (take (k - 8) bs)"
  shows "olm_unpickle_account a key m p n =
      (if decode_base64_length n = None then (a\<lparr>ac_last_error := OLM_INVALID_BASE64\<rparr>, m, None)
       else (a\<lparr>ac_last_error := OLM_BAD_ACCOUNT_KEY\<rparr>, wr m p bs, None)) \<and>
    olm_unpickle_session s key m p n =
      (if decode_base64_length n = None then (s\<lparr>ss_last_error := OLM_INVALID_BASE64\<rparr>, m, None)
       else (s\<lparr>ss_last_error := OLM_BAD_ACCOUNT_KEY\<rparr>, wr m p bs, None))"
  using account_api.open_refused [OF assms] session_api.open_refused [OF assms] by blast

theorem olm_unpickle_refuses_witness:
  "olm_unpickle_account fresh_account [1] (\<lambda>i. 0) 0 4 =
      (fresh_account\<lparr>ac_last_error := OLM_BAD_ACCOUNT_KEY\<rparr>, wr (\<lambda>i. 0) 0 (b64_decode [0, 0, 0, 0]), None)"
  using olm_unpickle_refuses [of "b64_decode (rd (\<lambda>i. 0) 0 4)" "\<lambda>i. 0" 0 4 "[1]" fresh_account fresh_session]
  by (simp add: decode_base64_length_def rd4)

lemma remove_then_lookup:
  assumes "wf_account bob" "distinct (map (\<lambda>x. c_public (otk_key x)) (keys bob))"
    "length (ss_bob_one_time_key b) = 32"
  shows "wf_account (fst (olm_remove_one_time_keys bob b))"
    "lookup_key (fst (olm_remove_one_time_keys bob b)) (ss_bob_one_time_key b) = None"
proof -
  let ?k = "ss_bob_one_time_key b" and ?new = "fst (olm_remove_one_time_keys bob b)"
  have new: "keys ?new = keys (fst (remove_key bob ?k))"
    "wf_account ?new = wf_account (fst (remove_key bob ?k))"
    by (simp_all add: olm_remove_one_time_keys_def wf_account_def split: prod.split option.split)
  then show wf: "wf_account ?new" using remove_key_wf [OF assms(1)] by simp
  have "distinct (map f xs) \<Longrightarrow> x \<in> set (takeWhile (\<lambda>x. f x \<noteq> k) xs @ tl (dropWhile (\<lambda>x. f x \<noteq> k) xs)) \<Longrightarrow>
      f x \<noteq> k" for f :: "OneTimeKey \<Rightarrow> bytes" and k xs x
  proof (induction xs)
    case (Cons y ys)
    then show ?case by (cases "f y = k") (auto intro: rev_image_eqI)
  qed simp
  from this [OF assms(2)] show "lookup_key ?new ?k = None"
    unfolding lookup_key_None [OF wf assms(3)] new(1) keys_remove [OF assms(1,3)] by blast
qed

text \<open>
  C11 A one-time key serves once: after \<open>olm_remove_one_time_keys\<close> for a session, every pre-key
  message to that key is refused with \<open>BAD_MESSAGE_KEY_ID\<close> and makes no ratchet, if the public
  keys of the account differ.
\<close>

theorem one_time_key_used_once:
  assumes "wf_account bob" "distinct (map (\<lambda>x. c_public (otk_key x)) (keys bob))"
    "ss_bob_one_time_key b = ss_bob_one_time_key s" "wf_session s" "wf_ratchet t" "\<not> ss_received_message s"
    "length (ratchet_message t pt) < 2 ^ 64" "aes_encrypt_cbc_length (length pt) < 2 ^ 64"
    "stored m inp (message_text s t pt)"
  shows "olm_create_inbound_session L junk junkm f (fst (olm_remove_one_time_keys bob b)) m inp
      (b64_output_length (length (session_message s t pt))) =
    Some (f\<lparr>ss_alice_identity_key := ss_alice_identity_key s, ss_alice_base_key := ss_alice_base_key s,
      ss_bob_one_time_key := ss_bob_one_time_key s, ss_last_error := OLM_BAD_MESSAGE_KEY_ID\<rparr>,
      wr m inp (session_message s t pt), None)"
proof -
  have "length (ss_bob_one_time_key b) = 32" using assms(3,4) by (simp add: wf_session_def)
  note r = remove_then_lookup [OF assms(1,2) this]
  show ?thesis
    using olm_create_inbound_session_text(1) [OF assms(9,4,5,6) r(1) assms(7,8) refl,
      where L = L and junk = junk and junkm = junkm and f = f] r(2) by (simp add: assms(3))
qed

definition example_first :: Session where
  "example_first = fresh_session\<lparr>ss_bob_one_time_key := example_otk\<rparr>"

theorem one_time_key_used_once_witness:
  "\<exists>f m'. olm_create_inbound_session example_lib zero_prekey_reader zero_reader fresh_session
      (fst (olm_remove_one_time_keys (example_party 5) example_first))
      (wr (\<lambda>i. 0) 9 (message_text example_first example_alice [1])) 9
      (b64_output_length (length (session_message example_first example_alice [1]))) =
    Some (f, m', None) \<and> ss_last_error f = OLM_BAD_MESSAGE_KEY_ID"
proof -
  have wf: "wf_session example_first" using wf_fresh_session
    by (simp add: example_first_def wf_session_def example_otk_key(2))
  have t: "wf_ratchet example_alice" using example_in_sync by (simp add: in_sync_def)
  then have "length (ratchet_message example_alice [1]) = encrypt_output_length example_alice 1"
    using length_ratchet_message [of example_alice "[1]"] example_chain(4) by simp
  then have l: "length (ratchet_message example_alice [1]) < 2 ^ 64"
    using encrypt_output_length_bound [of example_alice 1] by simp
  have d: "distinct (map (\<lambda>x. c_public (otk_key x)) (keys (example_party 5)))"
    by (simp add: example_party_keys(1))
  have n: "\<not> ss_received_message example_first" by (simp add: example_first_def fresh_session_def)
  have c: "aes_encrypt_cbc_length (length [1]) < 2 ^ 64" by (simp add: aes_encrypt_cbc_length_def)
  show ?thesis
    using one_time_key_used_once [OF example_party_keys(2) d refl wf t n l c stored_wr, where
      L = example_lib and junk = zero_prekey_reader and junkm = zero_reader and f = fresh_session] by fastforce
qed

end
