(* ===== verification/Pk.thy ===== *)
theory Pk
  imports OlmApi
begin

text \<open>
  \<open>src/pk.cpp\<close>: encryption to a public key, and signing with a key pair made from a seed.  The
  structs are records; the local array \<open>raw_mac\<close> of the two message functions is in the flat memory,
  at an address that is a parameter, because the cipher reads and writes through its pointer.  The
  other locals are byte lists.
\<close>

definition olm_pk_cipher :: aes_sha_256_cipher where
  "olm_pk_cipher = \<lparr>kdf_info = []\<rparr>"

section \<open>Encryption\<close>

record OlmPkEncryption =
  pe_last_error :: OlmErrorCode
  pe_recipient_key :: bytes

definition olm_pk_encryption_last_error :: "OlmPkEncryption \<Rightarrow> string" where
  "olm_pk_encryption_last_error encryption = olm_error_to_string (pe_last_error encryption)"

definition olm_pk_encryption :: OlmPkEncryption where
  "olm_pk_encryption = \<lparr>pe_last_error = OLM_SUCCESS, pe_recipient_key = replicate 32 0\<rparr>"

definition olm_clear_pk_encryption :: "OlmPkEncryption \<Rightarrow> OlmPkEncryption" where
  "olm_clear_pk_encryption encryption = olm_pk_encryption"

definition olm_pk_private_key_length :: nat where
  "olm_pk_private_key_length = CURVE25519_KEY_LENGTH"

definition olm_pk_generate_key_random_length :: nat where
  "olm_pk_generate_key_random_length = olm_pk_private_key_length"

definition olm_pk_key_length :: nat where
  "olm_pk_key_length = encode_base64_length CURVE25519_KEY_LENGTH"

definition olm_pk_encryption_set_recipient_key ::
  "OlmPkEncryption \<Rightarrow> mem \<Rightarrow> addr \<Rightarrow> nat \<Rightarrow> OlmPkEncryption \<times> nat option" where
  "olm_pk_encryption_set_recipient_key encryption m key key_length =
     (if key_length < olm_pk_key_length then
        (encryption\<lparr>pe_last_error := OLM_INPUT_BUFFER_TOO_SMALL\<rparr>, None)
      else (encryption\<lparr>pe_recipient_key := decode_base64_object m key olm_pk_key_length\<rparr>, Some 0))"

definition olm_pk_ciphertext_length :: "OlmPkEncryption \<Rightarrow> nat \<Rightarrow> nat" where
  "olm_pk_ciphertext_length encryption plaintext_length =
     encode_base64_length (cipher_encrypt_ciphertext_length olm_pk_cipher plaintext_length)"

definition olm_pk_mac_length :: "OlmPkEncryption \<Rightarrow> nat" where
  "olm_pk_mac_length encryption = encode_base64_length (cipher_mac_length olm_pk_cipher)"

definition olm_pk_encrypt_random_length :: "OlmPkEncryption \<Rightarrow> nat" where
  "olm_pk_encrypt_random_length encryption = CURVE25519_KEY_LENGTH"

definition olm_pk_encrypt ::
  "crypto_lib \<Rightarrow> addr \<Rightarrow> OlmPkEncryption \<Rightarrow> mem \<Rightarrow> addr \<Rightarrow> nat \<Rightarrow> addr \<Rightarrow> nat \<Rightarrow> addr \<Rightarrow> nat \<Rightarrow> addr \<Rightarrow> nat \<Rightarrow>
   addr \<Rightarrow> nat \<Rightarrow> OlmPkEncryption \<times> mem \<times> nat option" where
  "olm_pk_encrypt L raw_mac encryption m plaintext plaintext_length ciphertext ciphertext_length
      mac mac_length ephemeral_key ephemeral_key_size random random_length =
     (if ciphertext_length < olm_pk_ciphertext_length encryption plaintext_length
         \<or> mac_length < cipher_mac_length olm_pk_cipher
         \<or> ephemeral_key_size < olm_pk_key_length then
        (encryption\<lparr>pe_last_error := OLM_OUTPUT_BUFFER_TOO_SMALL\<rparr>, m, None)
      else if random_length < olm_pk_encrypt_random_length encryption then
        (encryption\<lparr>pe_last_error := OLM_NOT_ENOUGH_RANDOM\<rparr>, m, None)
      else
        let ephemeral_keypair = curve25519_generate_key L (rd m random 32);
            m = fst (encode_base64_object (c_public ephemeral_keypair) m ephemeral_key);
            secret = curve25519_shared_secret L ephemeral_keypair (pe_recipient_key encryption);
            raw_ciphertext_length = cipher_encrypt_ciphertext_length olm_pk_cipher plaintext_length;
            ciphertext_pos = ciphertext + ciphertext_length - raw_ciphertext_length;
            (m, result) = cipher_encrypt olm_pk_cipher secret m plaintext plaintext_length
              ciphertext_pos raw_ciphertext_length raw_mac MAC_LENGTH;
            m = (if result \<noteq> None then
                   let m = fst (encode_base64 m raw_mac MAC_LENGTH mac)
                   in fst (encode_base64 m ciphertext_pos raw_ciphertext_length ciphertext)
                 else m)
        in (encryption, m, result))"

section \<open>Decryption\<close>

record OlmPkDecryption =
  pd_last_error :: OlmErrorCode
  pd_key_pair :: curve25519_key_pair

definition olm_pk_decryption_last_error :: "OlmPkDecryption \<Rightarrow> string" where
  "olm_pk_decryption_last_error decryption = olm_error_to_string (pd_last_error decryption)"

definition olm_pk_decryption :: OlmPkDecryption where
  "olm_pk_decryption = \<lparr>pd_last_error = OLM_SUCCESS, pd_key_pair = zero_curve_pair\<rparr>"

definition olm_clear_pk_decryption :: "OlmPkDecryption \<Rightarrow> OlmPkDecryption" where
  "olm_clear_pk_decryption decryption = olm_pk_decryption"

definition olm_pk_key_from_private ::
  "crypto_lib \<Rightarrow> OlmPkDecryption \<Rightarrow> mem \<Rightarrow> addr \<Rightarrow> nat \<Rightarrow> addr \<Rightarrow> nat \<Rightarrow> OlmPkDecryption \<times> mem \<times> nat option" where
  "olm_pk_key_from_private L decryption m pubkey pubkey_length privkey privkey_length =
     (if pubkey_length < olm_pk_key_length then
        (decryption\<lparr>pd_last_error := OLM_OUTPUT_BUFFER_TOO_SMALL\<rparr>, m, None)
      else if privkey_length < olm_pk_private_key_length then
        (decryption\<lparr>pd_last_error := OLM_INPUT_BUFFER_TOO_SMALL\<rparr>, m, None)
      else
        let decryption = decryption\<lparr>pd_key_pair := curve25519_generate_key L (rd m privkey 32)\<rparr>
        in (decryption, fst (encode_base64_object (c_public (pd_key_pair decryption)) m pubkey), Some 0))"

definition olm_pk_generate_key ::
  "crypto_lib \<Rightarrow> OlmPkDecryption \<Rightarrow> mem \<Rightarrow> addr \<Rightarrow> nat \<Rightarrow> addr \<Rightarrow> nat \<Rightarrow> OlmPkDecryption \<times> mem \<times> nat option" where
  "olm_pk_generate_key L decryption m pubkey pubkey_length privkey privkey_length =
     olm_pk_key_from_private L decryption m pubkey pubkey_length privkey privkey_length"

definition PK_DECRYPTION_PICKLE_VERSION :: u32 where "PK_DECRYPTION_PICKLE_VERSION = 1"

definition pickle_pk_decryption_length :: "OlmPkDecryption \<Rightarrow> nat" where
  "pickle_pk_decryption_length value =
     pickle_u32_length PK_DECRYPTION_PICKLE_VERSION + pickle_curve25519_key_pair_length (pd_key_pair value)"

definition pickle_pk_decryption :: "mem \<Rightarrow> addr \<Rightarrow> OlmPkDecryption \<Rightarrow> mem \<times> addr" where
  "pickle_pk_decryption m pos value =
     (let (m, pos) = pickle_u32 m pos PK_DECRYPTION_PICKLE_VERSION
      in pickle_curve25519_key_pair m pos (pd_key_pair value))"

text \<open>\<open>pickle_version\<close> is written by every call of \<open>unpickle\<close>, so its first value does not matter.\<close>

definition unpickle_pk_decryption ::
  "mem \<Rightarrow> addr \<Rightarrow> addr \<Rightarrow> OlmPkDecryption \<Rightarrow> addr \<times> OlmPkDecryption" where
  "unpickle_pk_decryption m pos end value =
     (let (pos, pickle_version) = unpickle_u32 m pos end 0
      in if pickle_version = 1 then
           let (pos, key_pair) = unpickle_curve25519_key_pair m pos end (pd_key_pair value)
           in (pos, value\<lparr>pd_key_pair := key_pair\<rparr>)
         else (end, value\<lparr>pd_last_error := OLM_UNKNOWN_PICKLE_VERSION\<rparr>))"

definition olm_pickle_pk_decryption_length :: "OlmPkDecryption \<Rightarrow> nat" where
  "olm_pickle_pk_decryption_length decryption = enc_output_length (pickle_pk_decryption_length decryption)"

definition olm_pickle_pk_decryption ::
  "OlmPkDecryption \<Rightarrow> bytes \<Rightarrow> mem \<Rightarrow> addr \<Rightarrow> nat \<Rightarrow> OlmPkDecryption \<times> mem \<times> nat option" where
  "olm_pickle_pk_decryption object key m pickled pickled_length =
     (let raw_length = pickle_pk_decryption_length object
      in if pickled_length < enc_output_length raw_length then
           (object\<lparr>pd_last_error := OLM_OUTPUT_BUFFER_TOO_SMALL\<rparr>, m, None)
         else
           let m = fst (pickle_pk_decryption m (enc_output_pos pickled raw_length) object);
               (m, n) = enc_output key m pickled raw_length
           in (object, m, Some n))"

text \<open>\<open>pubkey\<close> may be a null pointer, \<open>None\<close>.\<close>

definition olm_unpickle_pk_decryption ::
  "OlmPkDecryption \<Rightarrow> bytes \<Rightarrow> mem \<Rightarrow> addr \<Rightarrow> nat \<Rightarrow> addr option \<Rightarrow> nat \<Rightarrow> OlmPkDecryption \<times> mem \<times> nat option" where
  "olm_unpickle_pk_decryption object key m pickled pickled_length pubkey pubkey_length =
     (if pubkey \<noteq> None \<and> pubkey_length < olm_pk_key_length then
        (object\<lparr>pd_last_error := OLM_OUTPUT_BUFFER_TOO_SMALL\<rparr>, m, None)
      else
        let (m, last_error, raw_length) = enc_input key m pickled pickled_length (Some (pd_last_error object));
            object = object\<lparr>pd_last_error := the last_error\<rparr>
        in case raw_length of
             None \<Rightarrow> (object, m, None)
           | Some raw_length \<Rightarrow>
               let end = pickled + raw_length;
                   (pos, object) = unpickle_pk_decryption m pickled (end + 1) object
               in if end \<noteq> pos then
                    ((if pd_last_error object = OLM_SUCCESS
                      then object\<lparr>pd_last_error := OLM_CORRUPTED_PICKLE\<rparr> else object), m, None)
                  else
                    let m = (case pubkey of None \<Rightarrow> m
                             | Some p \<Rightarrow> fst (encode_base64_object (c_public (pd_key_pair object)) m p))
                    in (object, m, Some pickled_length))"

text \<open>A length that no base64 text has gives \<open>size_t(-1)\<close>, and the code goes on with that number.\<close>

definition olm_pk_max_plaintext_length :: "OlmPkDecryption \<Rightarrow> nat \<Rightarrow> nat" where
  "olm_pk_max_plaintext_length decryption ciphertext_length =
     cipher_decrypt_max_plaintext_length olm_pk_cipher
       (case decode_base64_length ciphertext_length of None \<Rightarrow> size_max | Some n \<Rightarrow> n)"

definition olm_pk_decrypt ::
  "crypto_lib \<Rightarrow> addr \<Rightarrow> OlmPkDecryption \<Rightarrow> mem \<Rightarrow> addr \<Rightarrow> nat \<Rightarrow> addr \<Rightarrow> nat \<Rightarrow> addr \<Rightarrow> nat \<Rightarrow> addr \<Rightarrow> nat \<Rightarrow>
   OlmPkDecryption \<times> mem \<times> nat option" where
  "olm_pk_decrypt L raw_mac decryption m ephemeral_key ephemeral_key_length mac mac_length
      ciphertext ciphertext_length plaintext max_plaintext_length =
     (if max_plaintext_length < olm_pk_max_plaintext_length decryption ciphertext_length then
        (decryption\<lparr>pd_last_error := OLM_OUTPUT_BUFFER_TOO_SMALL\<rparr>, m, None)
      else
        let ephemeral = take 32 (decode_base64_object m ephemeral_key ephemeral_key_length);
            secret = curve25519_shared_secret L (pd_key_pair decryption) ephemeral;
            m = decode_base64 m mac (encode_base64_length MAC_LENGTH) raw_mac;
            raw_ciphertext_length =
              (case decode_base64_length ciphertext_length of None \<Rightarrow> size_max | Some n \<Rightarrow> n);
            m = decode_base64 m ciphertext ciphertext_length ciphertext;
            (m, result) = cipher_decrypt olm_pk_cipher secret m raw_mac MAC_LENGTH
              ciphertext raw_ciphertext_length plaintext max_plaintext_length
        in case result of
             None \<Rightarrow> (decryption\<lparr>pd_last_error := OLM_BAD_MESSAGE_MAC\<rparr>, m, None)
           | Some n \<Rightarrow> (decryption, m, Some n))"

definition olm_pk_get_private_key ::
  "OlmPkDecryption \<Rightarrow> mem \<Rightarrow> addr \<Rightarrow> nat \<Rightarrow> OlmPkDecryption \<times> mem \<times> nat option" where
  "olm_pk_get_private_key decryption m private_key private_key_length =
     (if private_key_length < olm_pk_private_key_length then
        (decryption\<lparr>pd_last_error := OLM_OUTPUT_BUFFER_TOO_SMALL\<rparr>, m, None)
      else (decryption, wr m private_key (c_private (pd_key_pair decryption)), Some olm_pk_private_key_length))"

section \<open>Signing\<close>

record OlmPkSigning =
  pg_last_error :: OlmErrorCode
  pg_key_pair :: ed25519_key_pair

definition olm_pk_signing :: OlmPkSigning where
  "olm_pk_signing = \<lparr>pg_last_error = OLM_SUCCESS,
     pg_key_pair = \<lparr>e_public = replicate 32 0, e_private = replicate 64 0\<rparr>\<rparr>"

definition olm_pk_signing_last_error :: "OlmPkSigning \<Rightarrow> string" where
  "olm_pk_signing_last_error sign = olm_error_to_string (pg_last_error sign)"

definition olm_clear_pk_signing :: "OlmPkSigning \<Rightarrow> OlmPkSigning" where
  "olm_clear_pk_signing sign = olm_pk_signing"

definition olm_pk_signing_seed_length :: nat where
  "olm_pk_signing_seed_length = ED25519_RANDOM_LENGTH"

definition olm_pk_signing_public_key_length :: nat where
  "olm_pk_signing_public_key_length = encode_base64_length 32"

definition olm_pk_signing_key_from_seed ::
  "crypto_lib \<Rightarrow> OlmPkSigning \<Rightarrow> mem \<Rightarrow> addr \<Rightarrow> nat \<Rightarrow> addr \<Rightarrow> nat \<Rightarrow> OlmPkSigning \<times> mem \<times> nat option" where
  "olm_pk_signing_key_from_seed L signing m pubkey pubkey_length seed seed_length =
     (if pubkey_length < olm_pk_signing_public_key_length then
        (signing\<lparr>pg_last_error := OLM_OUTPUT_BUFFER_TOO_SMALL\<rparr>, m, None)
      else if seed_length < olm_pk_signing_seed_length then
        (signing\<lparr>pg_last_error := OLM_INPUT_BUFFER_TOO_SMALL\<rparr>, m, None)
      else
        let signing = signing\<lparr>pg_key_pair := ed25519_generate_key L (rd m seed 32)\<rparr>
        in (signing, fst (encode_base64_object (e_public (pg_key_pair signing)) m pubkey), Some 0))"

definition olm_pk_signature_length :: nat where
  "olm_pk_signature_length = encode_base64_length ED25519_SIGNATURE_LENGTH"

definition olm_pk_sign ::
  "crypto_lib \<Rightarrow> OlmPkSigning \<Rightarrow> mem \<Rightarrow> addr \<Rightarrow> nat \<Rightarrow> addr \<Rightarrow> nat \<Rightarrow> OlmPkSigning \<times> mem \<times> nat option" where
  "olm_pk_sign L signing m message message_length signature signature_len =
     (if signature_len < olm_pk_signature_length then
        (signing\<lparr>pg_last_error := OLM_OUTPUT_BUFFER_TOO_SMALL\<rparr>, m, None)
      else
        let raw_sig = signature + olm_pk_signature_length - ED25519_SIGNATURE_LENGTH;
            m = wr m raw_sig (crypto_ed25519_sign L (pg_key_pair signing) (rd m message message_length));
            m = fst (encode_base64 m raw_sig ED25519_SIGNATURE_LENGTH signature)
        in (signing, m, Some olm_pk_signature_length))"

section \<open>What a message looks like\<close>

definition apart :: "addr \<Rightarrow> nat \<Rightarrow> addr \<Rightarrow> nat \<Rightarrow> bool" where
  "apart a n b k \<longleftrightarrow> a + n \<le> b \<or> b + k \<le> a"

lemma rd_wr_apart: "apart a n b k \<Longrightarrow> length bs = k \<Longrightarrow> rd (wr m b bs) a n = rd m a n"
  by (rule rd_wr_disj) (simp add: apart_def)

lemma stored_rd_region: "stored m a (rd m a n)"
  by (simp add: stored_def)

lemma apart_commute: "apart a n b k \<longleftrightarrow> apart b k a n"
  by (auto simp: apart_def)

lemma apart_within: "apart a n b k \<Longrightarrow> b \<le> c \<Longrightarrow> c + j \<le> b + k \<Longrightarrow> apart a n c j"
  by (auto simp: apart_def)

text \<open>The three texts, from the shared secret and the plaintext.  The tag is that of no data at all.\<close>

definition pk_mac_text :: "bytes \<Rightarrow> bytes" where
  "pk_mac_text secret = b64_encode (cipher_tag olm_pk_cipher secret [])"

definition pk_ciphertext :: "bytes \<Rightarrow> bytes \<Rightarrow> bytes" where
  "pk_ciphertext secret msg = b64_encode (cipher_body olm_pk_cipher secret msg)"

lemma pk_lengths:
  "olm_pk_key_length = 43" "encode_base64_length 8 = 11" "length (pk_mac_text secret) = 11"
  "length (pk_ciphertext secret msg) = olm_pk_ciphertext_length e (length msg)"
  by (simp_all add: olm_pk_key_length_def CURVE25519_KEY_LENGTH_def encode_base64_length_def pk_mac_text_def
      pk_ciphertext_def olm_pk_ciphertext_length_def cipher_encrypt_ciphertext_length_def)

definition pk_encrypt_ok ::
  "addr \<Rightarrow> addr \<Rightarrow> nat \<Rightarrow> addr \<Rightarrow> nat \<Rightarrow> addr \<Rightarrow> addr \<Rightarrow> bool" where
  "pk_encrypt_ok raw_mac pt n ct ctlen mac eph \<longleftrightarrow>
     apart pt n eph 43 \<and> apart pt n ct ctlen \<and> apart raw_mac 8 ct ctlen \<and> apart raw_mac 8 eph 43 \<and>
     apart mac 11 ct ctlen \<and> apart mac 11 eph 43 \<and> apart mac 11 raw_mac 8 \<and> apart eph 43 ct ctlen"

lemma olm_pk_encrypt_texts:
  assumes ok: "pk_encrypt_ok raw_mac pt n ct ctlen mac eph" and L: "crypto_lib_ok L"
    and len: "olm_pk_ciphertext_length e n \<le> ctlen" "8 \<le> maclen" "43 \<le> ephlen" "32 \<le> rlen"
    and key: "k = curve25519_generate_key L (rd m random 32)"
    and secret: "secret = curve25519_shared_secret L k (pe_recipient_key e)"
  obtains m' where
    "olm_pk_encrypt L raw_mac e m pt n ct ctlen mac maclen eph ephlen random rlen = (e, m', Some 8)"
    "stored m' eph (b64_encode (c_public k))" "stored m' mac (pk_mac_text secret)"
    "stored m' ct (pk_ciphertext secret (rd m pt n))"
proof -
  let ?k = "aes_encrypt_cbc_length n" let ?pos = "ct + ctlen - ?k"
  let ?E = "b64_encode (c_public k)" and ?body = "cipher_body olm_pk_cipher secret (rd m pt n)"
  let ?tag = "cipher_tag olm_pk_cipher secret []"
  have pub: "length (c_public k) = 32"
    using wf_generated_pair_take [OF L, of "rd m random 32"] by (simp add: key wf_curve_pair_def)
  have lE: "length ?E = 43" by (simp add: pub encode_base64_length_def)
  have ctl: "encode_base64_length ?k \<le> ctlen"
    using len(1) by (simp add: olm_pk_ciphertext_length_def cipher_encrypt_ciphertext_length_def)
  then have pos: "ct \<le> ?pos" "?pos + ?k = ct + ctlen" "ct + (?k + 2) div 3 \<le> ?pos"
    using encode_base64_length_ge [of ?k] encode_base64_length_diff [of ?k] by linarith+
  note a = ok [unfolded pk_encrypt_ok_def]
  note body_apart = apart_within [OF _ pos(1) order.eq_iff [THEN iffD1, OF pos(2), THEN conjunct1]]
  define m1 where "m1 = wr m eph ?E"
  have pt: "rd m1 pt n = rd m pt n" unfolding m1_def using a by (intro rd_wr_apart [OF _ lE]) blast
  define m2 where "m2 = wr (wr m1 ?pos ?body) raw_mac ?tag"
  have enc: "cipher_encrypt olm_pk_cipher secret m1 pt n ?pos ?k raw_mac 8 = (m2, Some 8)"
  proof (subst cipher_encrypt_wr)
    have "apart pt n ?pos ?k" using a body_apart by blast
    then show "?pos \<le> pt \<or> pt + n \<le> ?pos" by (auto simp: apart_def)
  qed (simp_all add: pt m2_def Let_def)
  define m3 where "m3 = wr m2 mac (pk_mac_text secret)"
  have mac: "encode_base64 m2 raw_mac 8 mac = (m3, mac + 11)"
    using a by (subst encode_base64_wr) (auto simp: apart_def m2_def m3_def pk_mac_text_def pk_lengths)
  have "rd m3 ?pos ?k = ?body"
  proof -
    have "apart ?pos ?k mac 11" "apart ?pos ?k raw_mac 8" using a body_apart apart_commute by blast+
    then show ?thesis unfolding m3_def m2_def by (simp add: rd_wr_apart pk_lengths)
  qed
  then have ct: "encode_base64 m3 ?pos ?k ct = (wr m3 ct (pk_ciphertext secret (rd m pt n)), ct + encode_base64_length ?k)"
    using pos(3) by (subst encode_base64_wr) (simp_all add: pk_ciphertext_def)
  let ?m = "wr m3 ct (pk_ciphertext secret (rd m pt n))"
  have "olm_pk_encrypt L raw_mac e m pt n ct ctlen mac maclen eph ephlen random rlen = (e, ?m, Some 8)"
    using len enc mac ct by (simp add: olm_pk_encrypt_def cipher_mac_length_def MAC_LENGTH_def pk_lengths
        olm_pk_encrypt_random_length_def CURVE25519_KEY_LENGTH_def key [symmetric] secret [symmetric]
        encode_base64_object_def m1_def [symmetric] cipher_encrypt_ciphertext_length_def Let_def)
  moreover have lct: "length (pk_ciphertext secret (rd m pt n)) \<le> ctlen"
    using ctl by (simp add: pk_ciphertext_def)
  have "apart eph 43 ct (length (pk_ciphertext secret (rd m pt n)))"
    "apart mac 11 ct (length (pk_ciphertext secret (rd m pt n)))"
    using a lct by (auto simp: apart_def)
  note texts = this
  have "apart eph 43 ?pos ?k" "apart eph 43 mac 11" "apart eph 43 raw_mac 8"
    using a body_apart apart_commute by blast+
  then have "rd ?m eph 43 = ?E"
    using texts(1) lE by (simp add: m3_def m2_def m1_def rd_wr_apart pk_lengths)
  then have "stored ?m eph ?E" by (intro stored_rd_self) (simp_all add: lE [simplified])
  moreover have "rd ?m mac 11 = pk_mac_text secret"
    using texts(2) by (simp add: m3_def rd_wr_apart pk_lengths)
  then have "stored ?m mac (pk_mac_text secret)" by (intro stored_rd_self) (simp_all add: pk_lengths)
  ultimately show thesis by (rule that) simp
qed

text \<open>
  Decryption: the ephemeral key gives the secret; a MAC text that decodes to the tag of no data
  passes; the ciphertext is whatever whole blocks the third text decodes to.
\<close>

definition pk_decrypt_ok :: "addr \<Rightarrow> addr \<Rightarrow> addr \<Rightarrow> addr \<Rightarrow> nat \<Rightarrow> addr \<Rightarrow> nat \<Rightarrow> bool" where
  "pk_decrypt_ok raw_mac eph mac ct ctlen out k \<longleftrightarrow>
     apart mac 11 raw_mac 8 \<and> apart raw_mac 8 ct ctlen \<and> apart out k ct ctlen"

lemma olm_pk_decrypt_body:
  assumes ok: "pk_decrypt_ok raw_mac eph mac ct (encode_base64_length (length body)) out maxlen"
    and body: "16 dvd length body" "body \<noteq> []" "length body \<le> maxlen"
    and secret: "secret = curve25519_shared_secret L (pd_key_pair d) ephemeral" "length ephemeral = 32"
    and st: "stored m eph (b64_encode ephemeral)" "stored m mac (pk_mac_text secret)" "stored m ct (b64_encode body)"
  shows "olm_pk_decrypt L raw_mac d m eph 43 mac maclen ct (encode_base64_length (length body)) out maxlen =
    (let keys = derive_keys [] secret;
         pt = cbc_decrypt (dk_aes_key keys) (dk_aes_iv keys) body; padding = unat (last pt);
         m' = wr (wr (wr m raw_mac (cipher_tag olm_pk_cipher secret [])) ct body) out pt
     in if padding > length body then (d\<lparr>pd_last_error := OLM_BAD_MESSAGE_MAC\<rparr>, m', None)
        else (d, m', Some (length body - padding)))"
proof -
  let ?n = "encode_base64_length (length body)" and ?tag = "cipher_tag olm_pk_cipher secret []"
  note a = ok [unfolded pk_decrypt_ok_def]
  let ?m1 = "wr m raw_mac ?tag" let ?m2 = "wr ?m1 ct body"
  have le: "length body \<le> ?n" by (rule encode_base64_length_ge)
  have e: "take 32 (decode_base64_object m eph 43) = ephemeral"
    using st(1) secret(2) stored_rd [OF st(1), of 43]
    by (simp add: decode_base64_object_def encode_base64_length_def)
  have "rd m mac 11 = pk_mac_text secret" using st(2) by (simp add: stored_rd pk_lengths)
  then have d1: "decode_base64 m mac 11 raw_mac = ?m1"
    using a by (subst decode_base64_wr) (auto simp: apart_def pk_mac_text_def)
  have "rd ?m1 ct ?n = b64_encode body"
    using a st(3) apart_commute [of ct ?n raw_mac 8] by (subst rd_wr_apart) (auto simp: stored_rd)
  then have d2: "decode_base64 ?m1 ct ?n ct = ?m2"
    by (simp add: decode_base64_in_place [OF encode_base64_length_mod4])
  have tag: "rd ?m2 raw_mac 8 = ?tag"
    using a le by (subst rd_wr_apart [of raw_mac 8 ct "length body"]) (auto simp: apart_def)
  have d: "cipher_decrypt olm_pk_cipher secret ?m2 raw_mac 8 ct (length body) out maxlen =
      aes_decrypt_cbc (dk_aes_key (derive_keys [] secret)) (dk_aes_iv (derive_keys [] secret)) ?m2 ct (length body) out"
    using body(3) tag by (subst cipher_decrypt_tag) (simp_all add: olm_pk_cipher_def)
  have "out \<le> ct \<or> ct + length body \<le> out" using a le by (auto simp: apart_def)
  then have aes: "aes_decrypt_cbc (dk_aes_key (derive_keys [] secret)) (dk_aes_iv (derive_keys [] secret)) ?m2 ct (length body) out =
    (let pt = cbc_decrypt (dk_aes_key (derive_keys [] secret)) (dk_aes_iv (derive_keys [] secret)) body;
         padding = unat (last pt)
     in (wr ?m2 out pt, if padding > length body then None else Some (length body - padding)))"
    using body by (subst aes_decrypt_cbc_wr) simp_all
  show ?thesis
    using body(3) by (simp add: olm_pk_decrypt_def olm_pk_max_plaintext_length_def decode_encode_length
        cipher_decrypt_max_plaintext_length_def e MAC_LENGTH_def pk_lengths secret(1) [symmetric] d1 d2 d aes Let_def)
qed

lemma olm_pk_decrypt_text:
  assumes ok: "pk_decrypt_ok raw_mac eph mac ct (olm_pk_ciphertext_length e (length msg)) out maxlen"
    and len: "aes_encrypt_cbc_length (length msg) \<le> maxlen"
    and secret: "secret = curve25519_shared_secret L (pd_key_pair d) ephemeral" "length ephemeral = 32"
    and st: "stored m eph (b64_encode ephemeral)" "stored m mac (pk_mac_text secret)"
      "stored m ct (pk_ciphertext secret msg)"
  shows "\<exists>m'. olm_pk_decrypt L raw_mac d m eph 43 mac maclen ct (olm_pk_ciphertext_length e (length msg)) out maxlen =
    (d, m', Some (length msg)) \<and> stored m' out msg"
proof -
  let ?body = "cipher_body olm_pk_cipher secret msg" and ?k = "aes_encrypt_cbc_length (length msg)"
  have n: "olm_pk_ciphertext_length e (length msg) = encode_base64_length (length ?body)"
    by (simp add: olm_pk_ciphertext_length_def cipher_encrypt_ciphertext_length_def)
  have b: "16 dvd length ?body" "?body \<noteq> []"
    using aes_encrypt_cbc_length_bounds [of "length msg"] length_cipher_body [of olm_pk_cipher secret msg]
    by (auto simp del: length_cipher_body)
  let ?keys = "derive_keys [] secret"
  have pt: "cbc_decrypt (dk_aes_key ?keys) (dk_aes_iv ?keys) ?body = pkcs7 msg"
    by (simp add: cipher_body_def Let_def olm_pk_cipher_def cbc_decrypt_encrypt)
  have l: "length ?body = ?k" by simp
  let ?m = "wr (wr m raw_mac (cipher_tag olm_pk_cipher secret [])) ct ?body"
  have "olm_pk_decrypt L raw_mac d m eph 43 mac maclen ct (olm_pk_ciphertext_length e (length msg)) out maxlen =
      (d, wr ?m out (pkcs7 msg), Some (length msg))"
    using olm_pk_decrypt_body [OF ok [unfolded n] b _ secret st(1,2) st(3) [unfolded pk_ciphertext_def],
      where maclen = maclen] len aes_encrypt_cbc_length_bounds [of "length msg"]
    by (simp add: n pt last_pkcs7 Let_def)
  then show ?thesis using stored_pkcs7 [of ?m out msg] by blast
qed

section \<open>Pickled decryption keys\<close>

definition pk_decryption_enc :: "OlmPkDecryption \<Rightarrow> bytes" where
  "pk_decryption_enc d = be32 PK_DECRYPTION_PICKLE_VERSION @ c_public (pd_key_pair d) @ c_private (pd_key_pair d)"

interpretation pk_raw: pickler pickle_pk_decryption_length pickle_pk_decryption unpickle_pk_decryption
  pk_decryption_enc "\<lambda>d. wf_curve_pair (pd_key_pair d)" "\<lambda>_. True" pd_key_pair
  by unfold_locales
    (auto simp: pickle_pk_decryption_length_def pickle_pk_decryption_def unpickle_pk_decryption_def
      pk_decryption_enc_def PK_DECRYPTION_PICKLE_VERSION_def account_pickle_defs stored_rd stored_be32 add.assoc
      split: prod.splits if_splits)

interpretation pk_api: sealed_pickler pickle_pk_decryption_length pickle_pk_decryption unpickle_pk_decryption
  pk_decryption_enc "\<lambda>d. wf_curve_pair (pd_key_pair d)" "\<lambda>_. True" pd_key_pair pd_last_error
  "\<lambda>e d. d\<lparr>pd_last_error := e\<rparr>" olm_pickle_pk_decryption_length olm_pickle_pk_decryption
  "\<lambda>d key m p n. olm_unpickle_pk_decryption d key m p n None 0"
proof unfold_locales
  fix v old :: OlmPkDecryption and m :: mem and pos lim :: addr
  assume "wf_curve_pair (pd_key_pair v)" "wf_curve_pair (pd_key_pair old)"
    "stored m pos (pk_decryption_enc v)" "pos + length (pk_decryption_enc v) \<le> lim"
  then show "pd_last_error (snd (unpickle_pk_decryption m pos lim old)) = pd_last_error old"
    by (auto simp: unpickle_pk_decryption_def pk_decryption_enc_def PK_DECRYPTION_PICKLE_VERSION_def
        unpickle_u32_eq stored_be32 split: prod.split)
qed (simp_all add: olm_pickle_pk_decryption_length_def olm_pickle_pk_decryption_def
    olm_unpickle_pk_decryption_def Let_def split: prod.split option.split)

lemma olm_unpickle_pk_decryption_pubkey:
  assumes "olm_unpickle_pk_decryption d key m p n None 0 = (new, m', Some k)" "43 \<le> pubkey_length"
  shows "olm_unpickle_pk_decryption d key m p n (Some q) pubkey_length =
    (new, wr m' q (b64_encode (c_public (pd_key_pair new))), Some k)"
  using assms by (auto simp: olm_unpickle_pk_decryption_def pk_lengths encode_base64_object_def Let_def
      split: prod.splits option.splits if_splits)

section \<open>Properties\<close>

text \<open>
  C32 A message encrypted to the public key of a decryption object is decrypted by that object to the
  plaintext, from the three texts that the encryption wrote, wherever they were carried.
\<close>

theorem pk_round_trip:
  assumes "crypto_lib_ok L" "generated L (pd_key_pair d)" "pe_recipient_key e = c_public (pd_key_pair d)"
    "pk_encrypt_ok raw_mac pt n ct (olm_pk_ciphertext_length e n) mac eph"
    "olm_pk_encrypt L raw_mac e m pt n ct (olm_pk_ciphertext_length e n) mac 11 eph 43 random 32 = (e', m', r)"
    "stored M eph2 (rd m' eph 43)" "stored M mac2 (rd m' mac 11)"
    "stored M ct2 (rd m' ct (olm_pk_ciphertext_length e n))"
    "pk_decrypt_ok raw_mac2 eph2 mac2 ct2 (olm_pk_ciphertext_length e n) out (aes_encrypt_cbc_length n)"
  shows "r = Some 8 \<and> e' = e \<and>
    (\<exists>M'. olm_pk_decrypt L raw_mac2 d M eph2 43 mac2 11 ct2 (olm_pk_ciphertext_length e n) out
        (aes_encrypt_cbc_length n) = (d, M', Some n) \<and> stored M' out (rd m pt n))"
proof -
  define k where "k = curve25519_generate_key L (rd m random 32)"
  define secret where "secret = curve25519_shared_secret L k (pe_recipient_key e)"
  obtain m1 where m1: "olm_pk_encrypt L raw_mac e m pt n ct (olm_pk_ciphertext_length e n) mac 11 eph 43 random 32 =
      (e, m1, Some 8)" "stored m1 eph (b64_encode (c_public k))" "stored m1 mac (pk_mac_text secret)"
    "stored m1 ct (pk_ciphertext secret (rd m pt n))"
    by (rule olm_pk_encrypt_texts [OF assms(4,1) order.refl _ _ _ k_def secret_def, of 11 43 32]) auto
  have lk: "length (c_public k) = 32"
    using wf_generated_pair_take [OF assms(1), of "rd m random 32"] by (simp add: k_def wf_curve_pair_def)
  have "generated L k" by (simp add: k_def generated_key)
  then have s: "secret = curve25519_shared_secret L (pd_key_pair d) (c_public k)"
    unfolding secret_def assms(3) by (intro shared_secret_agrees [OF assms(1) _ assms(2)])
  have r: "e' = e" "m' = m1" "r = Some 8" using assms(5) m1(1) by auto
  have c: "rd m1 ct (olm_pk_ciphertext_length e n) = pk_ciphertext secret (rd m pt n)"
    using m1(4) by (simp add: stored_rd pk_lengths(4) [of secret "rd m pt n" e])
  have "rd m1 eph 43 = b64_encode (c_public k)" "rd m1 mac 11 = pk_mac_text secret"
    using m1(2,3) by (simp_all add: stored_rd pk_lengths lk encode_base64_length_def)
  then have st: "stored M eph2 (b64_encode (c_public k))" "stored M mac2 (pk_mac_text secret)"
    "stored M ct2 (pk_ciphertext secret (rd m pt n))"
    using assms(6-8) c by (simp_all add: r(2))
  show ?thesis
    using olm_pk_decrypt_text [of raw_mac2 eph2 mac2 ct2 e "rd m pt n" out "aes_encrypt_cbc_length n", OF _ _ s lk st,
      where maclen = 11] assms(9) r by simp
qed

definition example_pk :: OlmPkDecryption where
  "example_pk = \<lparr>pd_last_error = OLM_SUCCESS, pd_key_pair = curve25519_generate_key example_lib (replicate 32 3)\<rparr>"

definition example_recipient :: OlmPkEncryption where
  "example_recipient = \<lparr>pe_last_error = OLM_SUCCESS, pe_recipient_key = c_public (pd_key_pair example_pk)\<rparr>"

lemma example_pk:
  "generated example_lib (pd_key_pair example_pk)" "wf_curve_pair (pd_key_pair example_pk)"
  "pe_recipient_key example_recipient = c_public (pd_key_pair example_pk)"
  "olm_pk_ciphertext_length e 1 = 22"
  using wf_generated_pair_take [OF example_lib_ok, of "replicate 32 3"]
  by (simp_all add: example_pk_def example_recipient_def generated_key olm_pk_ciphertext_length_def
      cipher_encrypt_ciphertext_length_def aes_encrypt_cbc_length_def encode_base64_length_def)

theorem pk_round_trip_witness:
  "\<exists>m' M'. olm_pk_encrypt example_lib 500 example_recipient (\<lambda>i. 5) 100 1 200 22 300 11 400 43 0 32 =
      (example_recipient, m', Some 8) \<and>
    olm_pk_decrypt example_lib 500 example_pk m' 400 43 300 11 200 22 600 16 = (example_pk, M', Some 1) \<and>
    stored M' 600 [5]"
proof -
  obtain e' m' r where m': "olm_pk_encrypt example_lib 500 example_recipient (\<lambda>i. 5) 100 1 200 22 300 11 400 43 0 32 =
      (e', m', r)" by (rule prod_cases3)
  then show ?thesis
    using pk_round_trip [OF example_lib_ok example_pk(1,3), of 500 100 1 200 300 400 "\<lambda>i. 5" 0 e' m' r m' 400 300 200 500 600]
    by (auto simp: pk_encrypt_ok_def pk_decrypt_ok_def apart_def example_pk(4) [unfolded One_nat_def]
        aes_encrypt_cbc_length_def stored_rd_region)
qed

text \<open>
  The MAC does not cover the message: with the ephemeral key and the MAC text of any message under
  it, every text of whole blocks is decrypted in place of the ciphertext; it is refused only when the
  last byte of its decryption is larger than its length.
\<close>

theorem pk_mac_ignores_ciphertext:
  assumes "pk_decrypt_ok raw_mac eph mac ct (encode_base64_length (length body)) out maxlen"
    "16 dvd length body" "body \<noteq> []" "length body \<le> maxlen" "length ephemeral = 32"
    "stored m eph (b64_encode ephemeral)" "stored m ct (b64_encode body)"
    "stored m mac (pk_mac_text (curve25519_shared_secret L (pd_key_pair d) ephemeral))"
  shows "snd (snd (olm_pk_decrypt L raw_mac d m eph 43 mac 11 ct (encode_base64_length (length body)) out maxlen)) =
    (let keys = derive_keys [] (curve25519_shared_secret L (pd_key_pair d) ephemeral);
         padding = unat (last (cbc_decrypt (dk_aes_key keys) (dk_aes_iv keys) body))
     in if padding > length body then None else Some (length body - padding))"
  using olm_pk_decrypt_body [OF assms(1-4) refl assms(5,6,8,7), where maclen = 11] by (simp add: Let_def)

theorem pk_mac_ignores_ciphertext_witness:
  "\<exists>m k. snd (snd (olm_pk_decrypt example_lib 500 example_pk m 400 43 300 11 1000 342 2000 256)) = Some k"
proof -
  let ?s = "curve25519_shared_secret example_lib (pd_key_pair example_pk) (replicate 32 1)"
  define body :: bytes where "body = replicate 256 7"
  let ?m = "wr (wr (wr (\<lambda>i. 0) 1000 (b64_encode body)) 400 (b64_encode (replicate 32 1))) 300 (pk_mac_text ?s)"
  have len: "length body = 256" "16 dvd (256 :: nat)" "body \<noteq> []" "encode_base64_length 256 = 342"
    by (simp_all add: body_def encode_base64_length_def)
  have st: "stored ?m 400 (b64_encode (replicate 32 1))" "stored ?m 1000 (b64_encode body)"
    "stored ?m 300 (pk_mac_text ?s)"
    by (simp_all add: stored_wr_disj pk_lengths encode_base64_length_def)
  have ok: "pk_decrypt_ok 500 400 300 1000 342 2000 256" by (simp add: pk_decrypt_ok_def apart_def)
  have "\<not> unat (b :: byte) > 256" for b using unat_byte_less [of b] by simp
  then show ?thesis
    using pk_mac_ignores_ciphertext [where raw_mac = 500 and eph = 400 and mac = 300 and ct = 1000 and m = ?m
      and L = example_lib and d = example_pk and out = 2000 and maxlen = 256 and body = body,
      unfolded len, OF ok len(2,3) _ _ st] by (auto simp: Let_def)
qed

text \<open>
  The check of \<open>mac_length\<close> is against the 8 raw bytes, but 11 characters are written: with a
  buffer of 8 bytes the call succeeds and sets three bytes behind it.
\<close>

theorem pk_encrypt_writes_past_mac:
  assumes "crypto_lib_ok L" "pk_encrypt_ok raw_mac pt n ct (olm_pk_ciphertext_length e n) mac eph"
  shows "\<exists>m' text. olm_pk_encrypt L raw_mac e m pt n ct (olm_pk_ciphertext_length e n) mac 8 eph 43 random 32 =
      (e, m', Some 8) \<and> length text = 11 \<and> rd m' mac 11 = text \<and>
    rd m' (mac + 8) 3 = drop 8 text \<and>
    b64_decode text = cipher_tag olm_pk_cipher (curve25519_shared_secret L
      (curve25519_generate_key L (rd m random 32)) (pe_recipient_key e)) []"
proof -
  let ?s = "curve25519_shared_secret L (curve25519_generate_key L (rd m random 32)) (pe_recipient_key e)"
  obtain m' where m': "olm_pk_encrypt L raw_mac e m pt n ct (olm_pk_ciphertext_length e n) mac 8 eph 43 random 32 =
      (e, m', Some 8)" "stored m' mac (pk_mac_text ?s)"
    by (rule olm_pk_encrypt_texts [OF assms(2,1) order.refl _ _ _ refl refl, of 8 43 32]) auto
  have t: "rd m' mac 11 = pk_mac_text ?s" using m'(2) by (simp add: stored_rd pk_lengths)
  moreover have "rd m' (mac + 8) 3 = drop 8 (pk_mac_text ?s)"
    using drop_rd [of 8 11 m' mac] t by simp
  ultimately show ?thesis using m'(1) by (auto simp: pk_lengths) (auto simp: pk_mac_text_def)
qed

theorem pk_encrypt_writes_past_mac_witness:
  "\<exists>m' text. olm_pk_encrypt example_lib 500 example_recipient (\<lambda>i. 5) 100 1 200 22 300 8 400 43 0 32 =
      (example_recipient, m', Some 8) \<and> length text = 11 \<and> rd m' 300 11 = text \<and> rd m' (300 + 8) 3 = drop 8 text"
  using pk_encrypt_writes_past_mac [OF example_lib_ok, of 500 100 1 200 example_recipient 300 400 "\<lambda>i. 5" 0]
  by (auto simp: pk_encrypt_ok_def apart_def example_pk(4) [unfolded One_nat_def])

text \<open>
  A pickled decryption key comes back with its key pair, into any decryption object, and the call
  writes the text of its public key where the caller asks for it.
\<close>

theorem pk_pickle_round_trip:
  assumes "wf_curve_pair (pd_key_pair d)" "wf_curve_pair (pd_key_pair old)"
    "olm_pickle_pk_decryption_length d \<le> n" "43 \<le> pubkey_length"
  shows "\<exists>m1 new m2. olm_pickle_pk_decryption d key m p n = (d, m1, Some (olm_pickle_pk_decryption_length d)) \<and>
    olm_unpickle_pk_decryption old key m1 p (olm_pickle_pk_decryption_length d) (Some q) pubkey_length =
      (new, m2, Some (olm_pickle_pk_decryption_length d)) \<and>
    pd_key_pair new = pd_key_pair d \<and> stored m2 q (b64_encode (c_public (pd_key_pair d)))"
proof -
  obtain m1 new m2 where p: "olm_pickle_pk_decryption d key m p n = (d, m1, Some (olm_pickle_pk_decryption_length d))"
    "olm_unpickle_pk_decryption old key m1 p (olm_pickle_pk_decryption_length d) None 0 =
      (new, m2, Some (olm_pickle_pk_decryption_length d))" "pd_key_pair new = pd_key_pair d"
    using pk_api.open_seal_seal [OF assms(1,2) TrueI assms(3), of key m p] by blast
  show ?thesis
    using p(1,3) olm_unpickle_pk_decryption_pubkey [OF p(2) assms(4), of q] by auto
qed

theorem pk_pickle_round_trip_witness:
  "\<exists>m1 new m2. olm_pickle_pk_decryption example_pk [1] (\<lambda>i. 0) 0 (olm_pickle_pk_decryption_length example_pk) =
      (example_pk, m1, Some (olm_pickle_pk_decryption_length example_pk)) \<and>
    olm_unpickle_pk_decryption olm_pk_decryption [1] m1 0 (olm_pickle_pk_decryption_length example_pk) (Some 900) 43 =
      (new, m2, Some (olm_pickle_pk_decryption_length example_pk)) \<and>
    pd_key_pair new = pd_key_pair example_pk \<and> stored m2 900 (b64_encode (c_public (pd_key_pair example_pk)))"
  by (rule pk_pickle_round_trip [OF example_pk(2)])
    (simp_all add: olm_pk_decryption_def zero_curve_pair_def wf_curve_pair_def)

lemma length_ed_keys:
  assumes "crypto_lib_ok L" "length seed = 32"
  shows "length (e_public (ed25519_generate_key L seed)) = 32"
    "crypto_ed25519_verify L (e_public (ed25519_generate_key L seed)) msg
       (crypto_ed25519_sign L (ed25519_generate_key L seed) msg)"
    "length (crypto_ed25519_sign L (ed25519_generate_key L seed) msg) = 64"
  using assms by (auto simp: crypto_lib_ok_def ed25519_generate_key_def crypto_ed25519_verify_def
      crypto_ed25519_sign_def case_prod_beta Let_def)

lemma olm_pk_sign_text:
  assumes "length (crypto_ed25519_sign L (pg_key_pair s) (rd m msg n)) = 64"
  shows "olm_pk_sign L s m msg n p 86 = (s,
    wr (wr m (p + 22) (crypto_ed25519_sign L (pg_key_pair s) (rd m msg n))) p
      (b64_encode (crypto_ed25519_sign L (pg_key_pair s) (rd m msg n))), Some 86)"
  using assms encode_base64_in_place [of _ p 64]
  by (simp add: olm_pk_sign_def olm_pk_signature_length_def ED25519_SIGNATURE_LENGTH_def
      encode_base64_length_def Let_def add.commute [of p 22])

text \<open>
  A signature text of \<open>olm_pk_sign\<close> verifies with \<open>olm_ed25519_verify\<close> under the public key text
  that the same seed gave.
\<close>

theorem pk_signature_verifies:
  assumes "crypto_lib_ok L" "olm_pk_signing_key_from_seed L s0 m0 pubkey 43 seed 32 = (s, m1, r1)"
    "olm_pk_sign L s m msg n sig 86 = (s', m2, r2)"
    "stored M kp (rd m1 pubkey 43)" "stored M sp (rd m2 sig 86)" "rd M mp n = rd m msg n" "apart mp n sp 86"
  shows "r1 = Some 0 \<and> r2 = Some 86 \<and> (\<exists>M'. olm_ed25519_verify L u M kp 43 mp n sp 86 = (u, M', Some 0))"
proof -
  let ?k = "ed25519_generate_key L (rd m0 seed 32)"
  let ?sig = "crypto_ed25519_sign L ?k (rd m msg n)"
  note k = length_ed_keys [OF assms(1), of "rd m0 seed 32", OF length_rd]
  have s: "s = s0\<lparr>pg_key_pair := ?k\<rparr>" "m1 = wr m0 pubkey (b64_encode (e_public ?k))" "r1 = Some 0"
    using assms(2) by (auto simp: olm_pk_signing_key_from_seed_def olm_pk_signing_public_key_length_def
        olm_pk_signing_seed_length_def ED25519_RANDOM_LENGTH_def encode_base64_length_def
        encode_base64_object_def Let_def split: if_splits)
  have "olm_pk_sign L s m msg n sig 86 = (s, wr (wr m (sig + 22) ?sig) sig (b64_encode ?sig), Some 86)"
    using olm_pk_sign_text [of L s m msg n sig] k(3) by (simp add: s(1))
  then have m2: "m2 = wr (wr m (sig + 22) ?sig) sig (b64_encode ?sig)" "r2 = Some 86"
    using assms(3) by simp_all
  have "stored M kp (b64_encode (e_public ?k))"
    using assms(4) k(1) by (simp add: s(2) encode_base64_length_def)
  note key = decode_key_text [OF this k(1), unfolded b64_output_length_32]
  have "stored M sp (b64_encode ?sig)"
    using assms(5) k(3) by (simp add: m2(1) encode_base64_length_def)
  from b64_input_text [OF this]
  have in_: "b64_input M sp 86 e = (wr M sp ?sig, e, Some 64)" for e
    by (simp add: k(3) b64_output_length_def encode_base64_length_def)
  have "apart mp n sp 64" using assms(7) by (auto simp: apart_def)
  then have msg: "rd (wr M sp ?sig) mp n = rd m msg n"
    using assms(6) by (simp add: rd_wr_apart k(3))
  have "rd (wr M sp ?sig) sp 64 = ?sig" by (simp add: k(3))
  then show ?thesis
    using s(3) m2(2) k(2) [of "rd m msg n"] msg key
    by (simp add: olm_ed25519_verify_def in_ utility_ed25519_verify_def ED25519_SIGNATURE_LENGTH_def)
qed

theorem pk_signature_verifies_witness:
  "\<exists>s m1 s' m2 M M'. olm_pk_signing_key_from_seed example_lib olm_pk_signing (\<lambda>i. 3) 100 43 0 32 = (s, m1, Some 0) \<and>
    olm_pk_sign example_lib s m1 0 5 200 86 = (s', m2, Some 86) \<and>
    olm_ed25519_verify example_lib olm_utility M 100 43 0 5 200 86 = (olm_utility, M', Some 0)"
proof -
  obtain s m1 r1 where k: "olm_pk_signing_key_from_seed example_lib olm_pk_signing (\<lambda>i. 3) 100 43 0 32 = (s, m1, r1)"
    by (rule prod_cases3)
  obtain s' m2 r2 where g: "olm_pk_sign example_lib s m1 0 5 200 86 = (s', m2, r2)" by (rule prod_cases3)
  let ?M = "wr (wr m1 100 (rd m1 100 43)) 200 (rd m2 200 86)"
  have st: "stored ?M 100 (rd m1 100 43)" "stored ?M 200 (rd m2 200 86)" "rd ?M 0 5 = rd m1 0 5"
    "apart 0 5 200 86"
    by (simp_all only: stored_wr) (simp_all add: stored_wr_disj rd_wr_disj apart_def stored_rd_region)
  show ?thesis using pk_signature_verifies [OF example_lib_ok k g st, of olm_utility] k g by blast
qed

end
