(* ===== verification/EdLimbs.thy ===== *)
theory EdLimbs
  imports DonnaCodec
begin

text \<open>
  What \<open>lib/ed25519/src/fe.c\<close> and \<open>lib/ed25519/src/sc.c\<close> share: reading little-endian bytes, and carries
  between signed 64-bit limbs.  A bound on the absolute value of every limb is a list of integers;
  \<open>move_limb\<close> says what a carry does to such bounds and to the number the limbs stand for, so
  that a chain of carries is checked by evaluating its effect on the bounds.
\<close>

section \<open>Operations\<close>

definition load_3 :: "bytes \<Rightarrow> u64" where
  "load_3 inp =
     (let result = ucast (inp ! 0);
          result = result OR push_bit 8 (ucast (inp ! 1))
      in result OR push_bit 16 (ucast (inp ! 2)))"

definition load_4 :: "bytes \<Rightarrow> u64" where
  "load_4 inp =
     (let result = ucast (inp ! 0);
          result = result OR push_bit 8 (ucast (inp ! 1));
          result = result OR push_bit 16 (ucast (inp ! 2))
      in result OR push_bit 24 (ucast (inp ! 3)))"

text \<open>The carry out of a limb of \<open>w\<close> bits, rounded to the nearest, and rounded down.\<close>

definition round_carry :: "nat \<Rightarrow> limb \<Rightarrow> limb" where
  "round_carry w h = signed_drop_bit w (h + push_bit (w - 1) 1)"

definition floor_carry :: "nat \<Rightarrow> limb \<Rightarrow> limb" where
  "floor_carry w h = signed_drop_bit w h"

section \<open>Bytes\<close>

lemma div_floor: "0 < b \<Longrightarrow> b * (a div b) \<le> (a :: int)" "0 < b \<Longrightarrow> a < b * (a div b) + b"
  using pos_mod_bound [of b a] pos_mod_sign [of b a] mult_div_mod_eq [of b a] by linarith+

lemma list_all_10:
  "list_all P [0, 1, 2, 3, 4, 5, 6, 7, 8, 9] \<Longrightarrow> i < 10 \<Longrightarrow> P (i :: nat)"
  unfolding upto_10 [symmetric] list_all_iff by simp

lemma bit_load_3:
  assumes "k + 3 \<le> length s"
  shows "bit (load_3 (drop k s)) n \<longleftrightarrow> n < 24 \<and> bit (le_val s) (8 * k + n)"
proof -
  have v: "bit (le_val s) (8 * k + (8 * j + a)) \<longleftrightarrow> bit (s ! (k + j)) a" if "a < 8" "j < 3" for a j
    using bit_le_val_byte [OF that(1), of s "k + j"] that(2) assms by (simp add: algebra_simps)
  have l: "bit (load_3 (drop k s)) n \<longleftrightarrow>
      bit (s ! k) n \<or> (8 \<le> n \<and> bit (s ! (k + 1)) (n - 8)) \<or> (16 \<le> n \<and> n < 64 \<and> bit (s ! (k + 2)) (n - 16))"
    using assms by (auto simp: load_3_def bit_simps dest: bit_imp_le_length)
  consider "n < 8" | "8 \<le> n" "n < 16" | "16 \<le> n" "n < 24" | "24 \<le> n" by linarith
  then show ?thesis
    using v [of n 0] v [of "n - 8" 1] v [of "n - 16" 2] by cases (simp_all add: l byte_high)
qed

lemma bit_load_4:
  assumes "k + 4 \<le> length s"
  shows "bit (load_4 (drop k s)) n \<longleftrightarrow> n < 32 \<and> bit (le_val s) (8 * k + n)"
proof -
  have v: "bit (le_val s) (8 * k + (8 * j + a)) \<longleftrightarrow> bit (s ! (k + j)) a" if "a < 8" "j < 4" for a j
    using bit_le_val_byte [OF that(1), of s "k + j"] that(2) assms by (simp add: algebra_simps)
  have l: "bit (load_4 (drop k s)) n \<longleftrightarrow>
      bit (load_3 (drop k s)) n \<or> (24 \<le> n \<and> n < 64 \<and> bit (s ! (k + 3)) (n - 24))"
    using assms by (auto simp: load_3_def load_4_def bit_simps dest: bit_imp_le_length)
  have b3: "bit (load_3 (drop k s)) n \<longleftrightarrow> n < 24 \<and> bit (le_val s) (8 * k + n)"
    by (rule bit_load_3) (use assms in simp)
  consider "n < 24" | "24 \<le> n" "n < 32" | "32 \<le> n" by linarith
  then show ?thesis using v [of "n - 24" 3] by cases (simp_all add: l b3 byte_high)
qed

lemma uint_load_3: "k + 3 \<le> length s \<Longrightarrow> uint (load_3 (drop k s)) = take_bit 24 (drop_bit (8 * k) (le_val s))"
  by (rule bit_eqI) (auto simp: bit_uint_iff bit_load_3 bit_take_bit_iff bit_drop_bit_eq)

lemma uint_load_4: "k + 4 \<le> length s \<Longrightarrow> uint (load_4 (drop k s)) = take_bit 32 (drop_bit (8 * k) (le_val s))"
  by (rule bit_eqI) (auto simp: bit_uint_iff bit_load_4 bit_take_bit_iff bit_drop_bit_eq)

text \<open>
  A number is the sum of the pieces of its binary notation between the positions \<open>a 0 = 0\<close>, \<open>a 1\<close>,
  \<open>a 2\<close>, ..., and the pieces of a sum of limbs within their widths are the limbs.
\<close>

lemma sum_pieces:
  assumes "a 0 = (0 :: nat)" "\<And>k. k < n \<Longrightarrow> a k \<le> a (Suc k)"
  shows "(\<Sum>k<n. 2 ^ a k * take_bit (a (Suc k) - a k) (drop_bit (a k) v)) = take_bit (a n) (v :: int)"
  using assms
proof (induction n)
  case (Suc n)
  have "take_bit (a (Suc n)) v = take_bit (a n) v + 2 ^ a n * take_bit (a (Suc n) - a n) (drop_bit (a n) v)"
    using Suc.prems(2) [of n] take_bit_split [of "a n" "a (Suc n) - a n" v] by simp
  then show ?case using Suc by simp
qed simp

lemma pieces_of_sum:
  fixes x :: "nat \<Rightarrow> int"
  assumes "a 0 = (0 :: nat)" "\<And>k. k < n \<Longrightarrow> a (Suc k) = a k + w k" "\<And>k. k < n \<Longrightarrow> 0 \<le> x k \<and> x k < 2 ^ w k"
  defines "S \<equiv> \<lambda>n. \<Sum>k<n. 2 ^ a k * x k"
  shows "0 \<le> S n" "S n < 2 ^ a n" "k < n \<Longrightarrow> take_bit (w k) (drop_bit (a k) (S n)) = x k"
proof -
  have b: "0 \<le> S m \<and> S m < 2 ^ a m" if "m \<le> n" for m
    using that
  proof (induction m)
    case (Suc m)
    then have x: "0 \<le> x m" "x m + 1 \<le> 2 ^ w m" using assms(3) [of m] by auto
    have "2 ^ a m * (x m + 1) \<le> 2 ^ a m * 2 ^ w m" using x(2) by simp
    then have "2 ^ a m * x m + 2 ^ a m \<le> 2 ^ a (Suc m)" using assms(2) [of m] Suc.prems by (simp add: power_add distrib_left)
    then show ?case using Suc x(1) by (auto simp: S_def)
  qed (simp add: S_def assms(1))
  then show "0 \<le> S n" "S n < 2 ^ a n" by auto
  assume k: "k < n"
  have "S m mod 2 ^ a (Suc k) = S (Suc k)" if "Suc k \<le> m" "m \<le> n" for m
    using that
  proof (induction m rule: dec_induct)
    case base
    then show ?case using b [of "Suc k"] k by (simp add: mod_pos_pos_trivial)
  next
    case (step m)
    have "a (Suc k) \<le> a m" using step(1,2) step.prems
    proof (induction m rule: dec_induct)
      case (step j)
      then show ?case using assms(2) [of j] by auto
    qed simp
    then have "2 ^ a (Suc k) dvd (2 :: int) ^ a m * x m" by (simp add: le_imp_power_dvd dvd_mult2)
    then have "S (Suc m) mod 2 ^ a (Suc k) = S m mod 2 ^ a (Suc k)"
      unfolding S_def by (simp add: mod_add_eq [symmetric, of "sum _ _"] dvd_imp_mod_0)
    then show ?case using step by simp
  qed
  then have m: "take_bit (a k + w k) (S n) = S (Suc k)" using k assms(2) [OF k] by (simp add: take_bit_eq_mod)
  have "take_bit (w k) (drop_bit (a k) (S n)) = drop_bit (a k) (take_bit (a k + w k) (S n))"
    by (simp add: take_bit_drop_bit add.commute)
  also have "\<dots> = (S k + 2 ^ a k * x k) div 2 ^ a k" unfolding m by (simp add: drop_bit_eq_div S_def)
  also have "\<dots> = x k" using b [of k] k by (simp add: div_pos_pos_trivial)
  finally show "take_bit (w k) (drop_bit (a k) (S n)) = x k" .
qed

lemma bit_of_piece:
  assumes "take_bit w (drop_bit p v) = (x :: int)" "j < w"
  shows "bit v (p + j) \<longleftrightarrow> bit x j"
  using assms by (auto simp: bit_simps)

text \<open>A byte written from a limb, or from the end of one and the beginning of the next.\<close>

definition vbyte :: "int \<Rightarrow> nat \<Rightarrow> byte" where
  "vbyte v t = of_int (drop_bit (8 * t) v)"

lemma bit_vbyte: "bit (vbyte v t) j \<longleftrightarrow> j < 8 \<and> bit v (8 * t + j)"
  by (simp add: vbyte_def bit_simps)

lemma le_val_vbytes: "le_val (map (vbyte v) [0..<n]) = take_bit (8 * n) v"
proof (rule bit_eqI)
  fix i :: nat
  have "8 * (i div 8) + i mod 8 = i" by simp
  then show "bit (le_val (map (vbyte v) [0..<n])) i \<longleftrightarrow> bit (take_bit (8 * n) v) i"
    by (auto simp: bit_le_val bit_vbyte bit_take_bit_iff)
qed

definition is_piece :: "int \<Rightarrow> nat \<Rightarrow> nat \<Rightarrow> 'a::len word \<Rightarrow> bool" where
  "is_piece v p w x \<longleftrightarrow> w < LENGTH('a) \<and> (\<forall>n. bit x n \<longleftrightarrow> n < w \<and> bit v (p + n))"

lemma is_piece_width: "is_piece v p w (x :: 'a::len word) \<Longrightarrow> w < LENGTH('a)"
  and is_piece_bit: "is_piece v p w x \<Longrightarrow> bit x n \<longleftrightarrow> n < w \<and> bit v (p + n)"
  by (simp_all add: is_piece_def)

lemma is_pieceI:
  assumes "sint (x :: 'a::len word) = take_bit w (drop_bit p v)" "w < LENGTH('a)"
  shows "is_piece v p w x"
proof -
  have "bit x n \<longleftrightarrow> n < w \<and> bit v (p + n)" for n
  proof (cases "n < LENGTH('a)")
    case True
    then have "bit x n \<longleftrightarrow> bit (sint x) n" by (simp add: bit_sint_iff)
    then show ?thesis by (simp add: assms(1) bit_take_bit_iff bit_drop_bit_eq)
  next
    case False
    then show ?thesis using bit_imp_le_length [of x n] assms(2) by auto
  qed
  then show ?thesis using assms(2) by (simp add: is_piece_def)
qed

lemma byte_inside:
  assumes "is_piece v p w (x :: 'a::len word)" "8 * t = p + k" "k + 8 \<le> w"
  shows "ucast (signed_drop_bit k x) = vbyte v t"
proof (rule bit_word_eqI)
  fix n assume "n < LENGTH(8)"
  then have n: "n < 8" by simp
  then have "k + n < w" "\<not> LENGTH('a) - k \<le> n" using is_piece_width [OF assms(1)] assms(3) by linarith+
  then show "bit (ucast (signed_drop_bit k x) :: byte) n = bit (vbyte v t) n"
    using n assms(2) by (simp add: is_piece_bit [OF assms(1)] bit_vbyte bit_ucast_iff bit_signed_drop_bit_iff add.assoc)
qed

lemma byte_start: "is_piece v p w x \<Longrightarrow> 8 * t = p \<Longrightarrow> 8 \<le> w \<Longrightarrow> ucast x = vbyte v t"
  using byte_inside [of v p w x t 0] by simp

lemma byte_across:
  assumes "is_piece v p w (x :: 'a::len word)" "is_piece v q u y" "q = p + w" "8 * t = p + k" "k + m = w" "m < 8" "8 \<le> u"
  shows "ucast (signed_drop_bit k x OR push_bit m y) = vbyte v t"
proof (rule bit_word_eqI)
  fix n assume "n < LENGTH(8)"
  then have n: "n < 8" by simp
  have u: "8 < LENGTH('a)" using is_piece_width [OF assms(2)] assms(7) by simp
  have l: "bit (ucast (signed_drop_bit k x OR push_bit m y) :: byte) n \<longleftrightarrow>
      bit x (if LENGTH('a) - k \<le> n then LENGTH('a) - 1 else k + n) \<or> (m \<le> n \<and> bit y (n - m))"
    using n u by (auto simp: bit_ucast_iff bit_or_iff bit_signed_drop_bit_iff bit_push_bit_iff)
  show "bit (ucast (signed_drop_bit k x OR push_bit m y) :: byte) n = bit (vbyte v t) n"
  proof (cases "n < m")
    case True
    then have "k + n < w" "\<not> LENGTH('a) - k \<le> n" using is_piece_width [OF assms(1)] assms(5) by linarith+
    then show ?thesis unfolding l using n True assms(4) by (simp add: bit_vbyte is_piece_bit [OF assms(1)] add.assoc)
  next
    case False
    then have "\<not> k + n < w" "q + (n - m) = p + (k + n)" "n - m < u" "\<not> LENGTH('a) - 1 < w"
      using is_piece_width [OF assms(1)] assms(3,5-7) n by linarith+
    then show ?thesis unfolding l using n False assms(4)
      by (simp add: bit_vbyte is_piece_bit [OF assms(1)] is_piece_bit [OF assms(2)] add.assoc)
  qed
qed

lemma upto_32: "[0..<32] = [0, 1, 2, 3, 4, 5, 6, 7, 8, 9, 10, 11, 12, 13, 14, 15, 16, 17, 18, 19, 20, 21,
    22, 23, 24, 25, 26, 27, 28, 29, 30, 31]"
  by (simp add: upt_conv_Cons)

section \<open>Bounds and weights\<close>

lemma bound_sum: "\<bar>a\<bar> \<le> A \<Longrightarrow> \<bar>b\<bar> \<le> B \<Longrightarrow> \<bar>a + b\<bar> \<le> (A + B :: int)"
  by linarith

lemma bound_product: "\<bar>a\<bar> \<le> A \<Longrightarrow> \<bar>b\<bar> \<le> B \<Longrightarrow> \<bar>a * b\<bar> \<le> (A * B :: int)"
  unfolding abs_mult by (intro mult_mono) simp_all

definition limbs_bounded :: "int list \<Rightarrow> limb list \<Rightarrow> bool" where
  "limbs_bounded B h \<longleftrightarrow> list_all2 (\<lambda>b x. \<bar>sint x\<bar> \<le> b) B h"

definition wsum :: "(nat \<Rightarrow> int) \<Rightarrow> limb list \<Rightarrow> int" where
  "wsum W h = (\<Sum>i<length h. W i * sint (h ! i))"

lemma limbs_bounded_nth: "limbs_bounded B h \<Longrightarrow> i < length h \<Longrightarrow> \<bar>sint (h ! i)\<bar> \<le> B ! i"
  by (simp add: limbs_bounded_def list_all2_conv_all_nth)

lemma limbs_bounded_length: "limbs_bounded B h \<Longrightarrow> length B = length h"
  by (simp add: limbs_bounded_def list_all2_lengthD)

lemma limbs_bounded_update: "limbs_bounded B h \<Longrightarrow> \<bar>sint x\<bar> \<le> b \<Longrightarrow> limbs_bounded (B[i := b]) (h[i := x])"
  by (simp add: limbs_bounded_def list_all2_update_cong)

lemma limbs_bounded_mono: "limbs_bounded B h \<Longrightarrow> list_all2 (\<le>) B C \<Longrightarrow> limbs_bounded C h"
  unfolding limbs_bounded_def by (fastforce simp: list_all2_conv_all_nth)

lemma wsum_update:
  "i < length h \<Longrightarrow> wsum W (h[i := x]) = wsum W h + W i * (sint x - sint (h ! i))"
proof -
  assume i: "i < length h"
  have sp: "(\<Sum>k<length h. f k) = f i + (\<Sum>k\<in>{..<length h} - {i}. f k)" for f :: "nat \<Rightarrow> int"
    using i by (simp add: sum.remove)
  have "(\<Sum>k\<in>{..<length h} - {i}. W k * sint (h[i := x] ! k)) = (\<Sum>k\<in>{..<length h} - {i}. W k * sint (h ! k))"
    by (intro sum.cong) auto
  then show ?thesis unfolding wsum_def length_list_update sp using i by (simp add: algebra_simps)
qed

lemma sint_scaled_sum:
  assumes "\<bar>sint (x :: limb)\<bar> \<le> X" "\<bar>sint c\<bar> \<le> C" "X + C * \<bar>m\<bar> < 2 ^ 63"
  shows "sint (x + c * of_int m) = sint x + sint c * m" "\<bar>sint (x + c * of_int m)\<bar> \<le> X + C * \<bar>m\<bar>"
proof -
  have "\<bar>sint c * m\<bar> \<le> C * \<bar>m\<bar>" using assms(2) by (simp add: abs_mult mult_right_mono)
  then have b: "\<bar>sint x + sint c * m\<bar> \<le> X + C * \<bar>m\<bar>" using assms(1) by linarith
  have "sint (of_int (sint x + sint c * m) :: limb) = sint x + sint c * m"
    by (rule sint_of_int_exact) (use b assms(3) in linarith)+
  then show "sint (x + c * of_int m) = sint x + sint c * m" by simp
  then show "\<bar>sint (x + c * of_int m)\<bar> \<le> X + C * \<bar>m\<bar>" using b by simp
qed

lemma add_multiple:
  assumes "limbs_bounded B h" "i < length h" "j < length h" "B ! j + B ! i * \<bar>m\<bar> < 2 ^ 63"
  shows "limbs_bounded (B[j := B ! j + B ! i * \<bar>m\<bar>]) (h[j := h ! j + h ! i * of_int m])"
    "wsum W (h[j := h ! j + h ! i * of_int m]) = wsum W h + W j * (sint (h ! i) * m)"
proof -
  note s = sint_scaled_sum [OF limbs_bounded_nth [OF assms(1,3)] limbs_bounded_nth [OF assms(1,2)] assms(4)]
  show "limbs_bounded (B[j := B ! j + B ! i * \<bar>m\<bar>]) (h[j := h ! j + h ! i * of_int m])"
    by (rule limbs_bounded_update [OF assms(1) s(2)])
  show "wsum W (h[j := h ! j + h ! i * of_int m]) = wsum W h + W j * (sint (h ! i) * m)"
    using assms(3) by (simp add: wsum_update s(1))
qed

lemma sint_remainder:
  assumes "\<bar>sint (x :: limb) - 2 ^ w * sint c\<bar> \<le> R" "R < 2 ^ 63"
  shows "sint (x - push_bit w c) = sint x - 2 ^ w * sint c"
proof -
  have "x - push_bit w c = of_int (sint x - 2 ^ w * sint c)" by (simp add: push_bit_eq_mult mult.commute)
  then show ?thesis by (simp only:) (rule sint_of_int_exact, (use assms in linarith)+)
qed

text \<open>
  A carry \<open>c\<close> out of limb \<open>i\<close> that is \<open>w\<close> bits wide, added \<open>m\<close> times to limb \<open>j\<close>.
\<close>

lemma move_limb:
  assumes h: "limbs_bounded B h" and ij: "i < length h" "j < length h" "i \<noteq> j"
    and c: "\<bar>sint c\<bar> \<le> C" "\<bar>sint (h ! i) - 2 ^ w * sint c\<bar> \<le> R" "R < 2 ^ 63"
    and m: "0 \<le> m" "B ! j + C * m < 2 ^ 63"
  shows "limbs_bounded (B[j := B ! j + C * m, i := R]) (h[j := h ! j + c * of_int m, i := h ! i - push_bit w c])"
    "wsum W (h[j := h ! j + c * of_int m, i := h ! i - push_bit w c]) = wsum W h + sint c * (m * W j - 2 ^ w * W i)"
proof -
  have "B ! j + C * \<bar>m\<bar> < 2 ^ 63" using m by simp
  note s = sint_scaled_sum [OF limbs_bounded_nth [OF h ij(2)] c(1) this]
  note r = sint_remainder [OF c(2,3)]
  show "limbs_bounded (B[j := B ! j + C * m, i := R]) (h[j := h ! j + c * of_int m, i := h ! i - push_bit w c])"
    by (intro limbs_bounded_update h) (use s r c(2) m(1) in simp_all)
  show "wsum W (h[j := h ! j + c * of_int m, i := h ! i - push_bit w c]) = wsum W h + sint c * (m * W j - 2 ^ w * W i)"
    using ij by (simp add: wsum_update s(1) r right_diff_distrib distrib_left mult.commute mult.left_commute)
qed

lemma sint_round_carry:
  assumes "\<bar>sint h\<bar> \<le> B" "B + 2 ^ (w - 1) < 2 ^ 63" "0 < w"
  shows "sint (round_carry w h) = (sint h + 2 ^ (w - 1)) div 2 ^ w"
    "\<bar>sint (round_carry w h)\<bar> \<le> (B + 2 ^ (w - 1)) div 2 ^ w"
    "\<bar>sint h - 2 ^ w * sint (round_carry w h)\<bar> \<le> 2 ^ (w - 1)"
proof -
  have w: "(2 :: int) ^ w = 2 * 2 ^ (w - 1)" using assms(3) by (cases w) auto
  define H where "H = (2 :: int) ^ (w - 1)"
  have H: "0 < H" by (simp add: H_def)
  have "h + push_bit (w - 1) 1 = of_int (sint h + H)" by (simp add: push_bit_eq_mult H_def)
  then have "sint (h + push_bit (w - 1) 1) = sint h + H"
    by (simp only:) (rule sint_of_int_exact, (use assms(1,2) H in \<open>unfold H_def, linarith\<close>)+)
  then show e: "sint (round_carry w h) = (sint h + 2 ^ (w - 1)) div 2 ^ w"
    by (simp add: round_carry_def sint_signed_drop_bit_eq drop_bit_eq_div H_def)
  define q where "q = (sint h + H) div (2 * H)"
  have q: "sint (round_carry w h) = q" unfolding e q_def w H_def ..
  have r: "2 * H * q \<le> sint h + H" "sint h + H < 2 * H * q + 2 * H"
    using pos_mod_bound [of "2 * H" "sint h + H"] pos_mod_sign [of "2 * H" "sint h + H"]
      mult_div_mod_eq [of "2 * H" "sint h + H"] H unfolding q_def by linarith+
  show "\<bar>sint h - 2 ^ w * sint (round_carry w h)\<bar> \<le> 2 ^ (w - 1)"
    unfolding q w H_def [symmetric] using r by linarith
  define Q where "Q = (B + H) div (2 * H)"
  have "B + H < 2 * H * (Q + 1)"
    using pos_mod_bound [of "2 * H" "B + H"] mult_div_mod_eq [of "2 * H" "B + H"] H
    unfolding Q_def distrib_left by linarith
  with r assms(1) have "2 * H * q < 2 * H * (Q + 1)" "2 * H * (- q) < 2 * H * (Q + 1)"
    unfolding distrib_left minus_mult_right [symmetric] by linarith+
  then have "q < Q + 1" "- q < Q + 1" using H by (simp_all only: mult_less_cancel_left_pos)
  then show "\<bar>sint (round_carry w h)\<bar> \<le> (B + 2 ^ (w - 1)) div 2 ^ w"
    unfolding q w H_def [symmetric] Q_def [symmetric] by linarith
qed

lemma sint_floor_carry:
  assumes "\<bar>sint h\<bar> \<le> B"
  shows "sint (floor_carry w h) = sint h div 2 ^ w"
    "\<bar>sint (floor_carry w h)\<bar> \<le> B div 2 ^ w + 1"
    "sint h - 2 ^ w * sint (floor_carry w h) = sint h mod 2 ^ w"
proof -
  show e: "sint (floor_carry w h) = sint h div 2 ^ w"
    by (simp add: floor_carry_def sint_signed_drop_bit_eq drop_bit_eq_div)
  show "sint h - 2 ^ w * sint (floor_carry w h) = sint h mod 2 ^ w"
    unfolding e by (simp add: minus_mult_div_eq_mod)
  have "sint h div 2 ^ w \<le> B div 2 ^ w" "(- B) div 2 ^ w \<le> sint h div 2 ^ w"
    using assms by (intro zdiv_mono1; simp)+
  moreover have "- (B div 2 ^ w) - 1 \<le> (- B) div 2 ^ w"
    by (simp add: div_minus_minus zdiv_zminus1_eq_if)
  ultimately show "\<bar>sint (floor_carry w h)\<bar> \<le> B div 2 ^ w + 1" unfolding e by linarith
qed

end
