(* ===== verification/EdField.thy ===== *)
theory EdField
  imports EdLimbs
begin

text \<open>
  \<open>lib/ed25519/src/fe.c\<close>: arithmetic modulo \<open>2^255 - 19\<close> on ten signed 32-bit limbs, in 64-bit
  products and carries.  The lemmas give for every operation the bounds the comments of the source
  state (in hundredths of \<open>2^25\<close> and \<open>2^24\<close>), show that under them nothing overflows, and that the
  result is right modulo the prime.
\<close>

section \<open>Operations\<close>

type_synonym fe = "s32 list"

definition fe_0 :: fe where
  "fe_0 = [0, 0, 0, 0, 0, 0, 0, 0, 0, 0]"

definition fe_1 :: fe where
  "fe_1 = [1, 0, 0, 0, 0, 0, 0, 0, 0, 0]"

definition fe_add :: "fe \<Rightarrow> fe \<Rightarrow> fe" where
  "fe_add f g = map (\<lambda>i. f ! i + g ! i) [0..<10]"

definition fe_cmov :: "fe \<Rightarrow> fe \<Rightarrow> u32 \<Rightarrow> fe" where
  "fe_cmov f g b = (let b = - b in map (\<lambda>i. f ! i XOR ((f ! i XOR g ! i) AND b)) [0..<10])"

definition fe_cswap :: "fe \<Rightarrow> fe \<Rightarrow> u32 \<Rightarrow> fe \<times> fe" where
  "fe_cswap f g b =
     (let b = - b;
          x = map (\<lambda>i. (f ! i XOR g ! i) AND b) [0..<10]
      in (map (\<lambda>i. f ! i XOR x ! i) [0..<10], map (\<lambda>i. g ! i XOR x ! i) [0..<10]))"

definition fe_copy :: "fe \<Rightarrow> fe" where
  "fe_copy f = map (\<lambda>i. f ! i) [0..<10]"

definition fe_neg :: "fe \<Rightarrow> fe" where
  "fe_neg f = map (\<lambda>i. - (f ! i)) [0..<10]"

definition fe_sub :: "fe \<Rightarrow> fe \<Rightarrow> fe" where
  "fe_sub f g = map (\<lambda>i. f ! i - g ! i) [0..<10]"

text \<open>
  A carry goes from a limb to the next one, and from the last, times 19, to the first; every
  operation makes its carries in an order of its own and casts the limbs to 32 bits.
\<close>

definition fe_carry :: "limb list \<Rightarrow> nat \<Rightarrow> limb list" where
  "fe_carry h i =
     (let carry = round_carry (width i) (h ! i);
          h = (if i = 9 then h[0 := h ! 0 + carry * 19] else h[i + 1 := h ! (i + 1) + carry])
      in h[i := h ! i - push_bit (width i) carry])"

definition mul_carries :: "nat list" where
  "mul_carries = [0, 4, 1, 5, 2, 6, 3, 7, 4, 8, 9, 0]"

definition odd_even_carries :: "nat list" where
  "odd_even_carries = [9, 1, 3, 5, 7, 0, 2, 4, 6, 8]"

definition fe_frombytes :: "bytes \<Rightarrow> fe" where
  "fe_frombytes s =
     (let h = [load_4 s, push_bit 6 (load_3 (drop 4 s)), push_bit 5 (load_3 (drop 7 s)),
            push_bit 3 (load_3 (drop 10 s)), push_bit 2 (load_3 (drop 13 s)), load_4 (drop 16 s),
            push_bit 7 (load_3 (drop 20 s)), push_bit 5 (load_3 (drop 23 s)),
            push_bit 4 (load_3 (drop 26 s)), push_bit 2 (load_3 (drop 29 s) AND 8388607)]
      in map s32_of_limb (foldl fe_carry h odd_even_carries))"

text \<open>
  The sums of \<open>fe_mul\<close>, \<open>fe_sq\<close> and \<open>fe_sq2\<close>: \<open>F k i\<close> and \<open>G k i\<close> stand for \<open>k\<close> times the limb \<open>i\<close> of an
  operand, which the source computes in 32 bits before the 64-bit products.
\<close>

definition mul_sums :: "(nat \<Rightarrow> nat \<Rightarrow> 'a::comm_ring_1) \<Rightarrow> (nat \<Rightarrow> nat \<Rightarrow> 'a) \<Rightarrow> 'a list" where
  "mul_sums F G =
     [F 1 0 * G 1 0 + F 2 1 * G 19 9 + F 1 2 * G 19 8 + F 2 3 * G 19 7 + F 1 4 * G 19 6 +
        F 2 5 * G 19 5 + F 1 6 * G 19 4 + F 2 7 * G 19 3 + F 1 8 * G 19 2 + F 2 9 * G 19 1,
      F 1 0 * G 1 1 + F 1 1 * G 1 0 + F 1 2 * G 19 9 + F 1 3 * G 19 8 + F 1 4 * G 19 7 +
        F 1 5 * G 19 6 + F 1 6 * G 19 5 + F 1 7 * G 19 4 + F 1 8 * G 19 3 + F 1 9 * G 19 2,
      F 1 0 * G 1 2 + F 2 1 * G 1 1 + F 1 2 * G 1 0 + F 2 3 * G 19 9 + F 1 4 * G 19 8 +
        F 2 5 * G 19 7 + F 1 6 * G 19 6 + F 2 7 * G 19 5 + F 1 8 * G 19 4 + F 2 9 * G 19 3,
      F 1 0 * G 1 3 + F 1 1 * G 1 2 + F 1 2 * G 1 1 + F 1 3 * G 1 0 + F 1 4 * G 19 9 +
        F 1 5 * G 19 8 + F 1 6 * G 19 7 + F 1 7 * G 19 6 + F 1 8 * G 19 5 + F 1 9 * G 19 4,
      F 1 0 * G 1 4 + F 2 1 * G 1 3 + F 1 2 * G 1 2 + F 2 3 * G 1 1 + F 1 4 * G 1 0 +
        F 2 5 * G 19 9 + F 1 6 * G 19 8 + F 2 7 * G 19 7 + F 1 8 * G 19 6 + F 2 9 * G 19 5,
      F 1 0 * G 1 5 + F 1 1 * G 1 4 + F 1 2 * G 1 3 + F 1 3 * G 1 2 + F 1 4 * G 1 1 +
        F 1 5 * G 1 0 + F 1 6 * G 19 9 + F 1 7 * G 19 8 + F 1 8 * G 19 7 + F 1 9 * G 19 6,
      F 1 0 * G 1 6 + F 2 1 * G 1 5 + F 1 2 * G 1 4 + F 2 3 * G 1 3 + F 1 4 * G 1 2 +
        F 2 5 * G 1 1 + F 1 6 * G 1 0 + F 2 7 * G 19 9 + F 1 8 * G 19 8 + F 2 9 * G 19 7,
      F 1 0 * G 1 7 + F 1 1 * G 1 6 + F 1 2 * G 1 5 + F 1 3 * G 1 4 + F 1 4 * G 1 3 +
        F 1 5 * G 1 2 + F 1 6 * G 1 1 + F 1 7 * G 1 0 + F 1 8 * G 19 9 + F 1 9 * G 19 8,
      F 1 0 * G 1 8 + F 2 1 * G 1 7 + F 1 2 * G 1 6 + F 2 3 * G 1 5 + F 1 4 * G 1 4 +
        F 2 5 * G 1 3 + F 1 6 * G 1 2 + F 2 7 * G 1 1 + F 1 8 * G 1 0 + F 2 9 * G 19 9,
      F 1 0 * G 1 9 + F 1 1 * G 1 8 + F 1 2 * G 1 7 + F 1 3 * G 1 6 + F 1 4 * G 1 5 +
        F 1 5 * G 1 4 + F 1 6 * G 1 3 + F 1 7 * G 1 2 + F 1 8 * G 1 1 + F 1 9 * G 1 0]"

definition sq_sums :: "(nat \<Rightarrow> nat \<Rightarrow> 'a::comm_ring_1) \<Rightarrow> 'a list" where
  "sq_sums F =
     [F 1 0 * F 1 0 + F 2 1 * F 38 9 + F 2 2 * F 19 8 + F 2 3 * F 38 7 + F 2 4 * F 19 6 +
        F 1 5 * F 38 5,
      F 2 0 * F 1 1 + F 1 2 * F 38 9 + F 2 3 * F 19 8 + F 1 4 * F 38 7 + F 2 5 * F 19 6,
      F 2 0 * F 1 2 + F 2 1 * F 1 1 + F 2 3 * F 38 9 + F 2 4 * F 19 8 + F 2 5 * F 38 7 +
        F 1 6 * F 19 6,
      F 2 0 * F 1 3 + F 2 1 * F 1 2 + F 1 4 * F 38 9 + F 2 5 * F 19 8 + F 1 6 * F 38 7,
      F 2 0 * F 1 4 + F 2 1 * F 2 3 + F 1 2 * F 1 2 + F 2 5 * F 38 9 + F 2 6 * F 19 8 +
        F 1 7 * F 38 7,
      F 2 0 * F 1 5 + F 2 1 * F 1 4 + F 2 2 * F 1 3 + F 1 6 * F 38 9 + F 2 7 * F 19 8,
      F 2 0 * F 1 6 + F 2 1 * F 2 5 + F 2 2 * F 1 4 + F 2 3 * F 1 3 + F 2 7 * F 38 9 +
        F 1 8 * F 19 8,
      F 2 0 * F 1 7 + F 2 1 * F 1 6 + F 2 2 * F 1 5 + F 2 3 * F 1 4 + F 1 8 * F 38 9,
      F 2 0 * F 1 8 + F 2 1 * F 2 7 + F 2 2 * F 1 6 + F 2 3 * F 2 5 + F 1 4 * F 1 4 +
        F 1 9 * F 38 9,
      F 2 0 * F 1 9 + F 2 1 * F 1 8 + F 2 2 * F 1 7 + F 2 3 * F 1 6 + F 2 4 * F 1 5]"

definition multiple :: "fe \<Rightarrow> nat \<Rightarrow> nat \<Rightarrow> limb" where
  "multiple f k i = limb_of_s32 (of_nat k * f ! i)"

definition fe_mul :: "fe \<Rightarrow> fe \<Rightarrow> fe" where
  "fe_mul f g = map s32_of_limb (foldl fe_carry (mul_sums (multiple f) (multiple g)) mul_carries)"

definition fe_mul121666 :: "fe \<Rightarrow> fe" where
  "fe_mul121666 f =
     (let h = map (\<lambda>i. limb_of_s32 (f ! i) * 121666) [0..<10]
      in map s32_of_limb (foldl fe_carry h odd_even_carries))"

definition fe_sq :: "fe \<Rightarrow> fe" where
  "fe_sq f = map s32_of_limb (foldl fe_carry (sq_sums (multiple f)) mul_carries)"

definition fe_sq2 :: "fe \<Rightarrow> fe" where
  "fe_sq2 f =
     (let h = map (\<lambda>h. h + h) (sq_sums (multiple f))
      in map s32_of_limb (foldl fe_carry h mul_carries))"

text \<open>The loop \<open>for (i = 1; i < n; ++i) fe_sq(t, t)\<close>.\<close>

function fe_sq_loop :: "nat \<Rightarrow> nat \<Rightarrow> fe \<Rightarrow> fe" where
  "fe_sq_loop i n t = (if i < n then fe_sq_loop (i + 1) n (fe_sq t) else t)"
  by pat_completeness auto
termination by (relation "measure (\<lambda>(i, n, t). n - i)") auto

declare fe_sq_loop.simps [simp del]

definition fe_invert :: "fe \<Rightarrow> fe" where
  "fe_invert z =
     (let t0 = fe_sq z;
          t0 = fe_sq_loop 1 1 t0;
          t1 = fe_sq t0;
          t1 = fe_sq_loop 1 2 t1;
          t1 = fe_mul z t1;
          t0 = fe_mul t0 t1;
          t2 = fe_sq t0;
          t2 = fe_sq_loop 1 1 t2;
          t1 = fe_mul t1 t2;
          t2 = fe_sq t1;
          t2 = fe_sq_loop 1 5 t2;
          t1 = fe_mul t2 t1;
          t2 = fe_sq t1;
          t2 = fe_sq_loop 1 10 t2;
          t2 = fe_mul t2 t1;
          t3 = fe_sq t2;
          t3 = fe_sq_loop 1 20 t3;
          t2 = fe_mul t3 t2;
          t2 = fe_sq t2;
          t2 = fe_sq_loop 1 10 t2;
          t1 = fe_mul t2 t1;
          t2 = fe_sq t1;
          t2 = fe_sq_loop 1 50 t2;
          t2 = fe_mul t2 t1;
          t3 = fe_sq t2;
          t3 = fe_sq_loop 1 100 t3;
          t2 = fe_mul t3 t2;
          t2 = fe_sq t2;
          t2 = fe_sq_loop 1 50 t2;
          t1 = fe_mul t2 t1;
          t1 = fe_sq t1;
          t1 = fe_sq_loop 1 5 t1
      in fe_mul t1 t0)"

definition fe_pow22523 :: "fe \<Rightarrow> fe" where
  "fe_pow22523 z =
     (let t0 = fe_sq z;
          t0 = fe_sq_loop 1 1 t0;
          t1 = fe_sq t0;
          t1 = fe_sq_loop 1 2 t1;
          t1 = fe_mul z t1;
          t0 = fe_mul t0 t1;
          t0 = fe_sq t0;
          t0 = fe_sq_loop 1 1 t0;
          t0 = fe_mul t1 t0;
          t1 = fe_sq t0;
          t1 = fe_sq_loop 1 5 t1;
          t0 = fe_mul t1 t0;
          t1 = fe_sq t0;
          t1 = fe_sq_loop 1 10 t1;
          t1 = fe_mul t1 t0;
          t2 = fe_sq t1;
          t2 = fe_sq_loop 1 20 t2;
          t1 = fe_mul t2 t1;
          t1 = fe_sq t1;
          t1 = fe_sq_loop 1 10 t1;
          t0 = fe_mul t1 t0;
          t1 = fe_sq t0;
          t1 = fe_sq_loop 1 50 t1;
          t1 = fe_mul t1 t0;
          t2 = fe_sq t1;
          t2 = fe_sq_loop 1 100 t2;
          t1 = fe_mul t2 t1;
          t1 = fe_sq t1;
          t1 = fe_sq_loop 1 50 t1;
          t0 = fe_mul t1 t0;
          t0 = fe_sq t0;
          t0 = fe_sq_loop 1 2 t0
      in fe_mul t0 z)"

text \<open>
  Before \<open>fe_tobytes\<close> writes the limbs it subtracts the prime as often as it fits, without a
  division: \<open>reduction_quotient\<close> is the \<open>q\<close> of the source, \<open>carry_up\<close> its second chain of carries.
\<close>

definition reduction_quotient :: "fe \<Rightarrow> s32" where
  "reduction_quotient h =
     foldl (\<lambda>q i. signed_drop_bit (width i) (h ! i + q))
       (signed_drop_bit 25 (19 * h ! 9 + push_bit 24 1)) [0, 1, 2, 3, 4, 5, 6, 7, 8, 9]"

definition carry_up :: "fe \<Rightarrow> nat \<Rightarrow> fe" where
  "carry_up h i =
     (let carry = signed_drop_bit (width i) (h ! i);
          h = h[i + 1 := h ! (i + 1) + carry]
      in h[i := h ! i - push_bit (width i) carry])"

definition fe_reduce :: "fe \<Rightarrow> fe" where
  "fe_reduce h =
     (let q = reduction_quotient h;
          h = h[0 := h ! 0 + 19 * q];
          h = foldl carry_up h [0, 1, 2, 3, 4, 5, 6, 7, 8];
          carry9 = signed_drop_bit 25 (h ! 9)
      in h[9 := h ! 9 - push_bit 25 carry9])"

definition limb_bytes :: "fe \<Rightarrow> bytes" where
  "limb_bytes h =
     [ucast (h ! 0), ucast (signed_drop_bit 8 (h ! 0)), ucast (signed_drop_bit 16 (h ! 0)),
      ucast (signed_drop_bit 24 (h ! 0) OR push_bit 2 (h ! 1)),
      ucast (signed_drop_bit 6 (h ! 1)), ucast (signed_drop_bit 14 (h ! 1)),
      ucast (signed_drop_bit 22 (h ! 1) OR push_bit 3 (h ! 2)),
      ucast (signed_drop_bit 5 (h ! 2)), ucast (signed_drop_bit 13 (h ! 2)),
      ucast (signed_drop_bit 21 (h ! 2) OR push_bit 5 (h ! 3)),
      ucast (signed_drop_bit 3 (h ! 3)), ucast (signed_drop_bit 11 (h ! 3)),
      ucast (signed_drop_bit 19 (h ! 3) OR push_bit 6 (h ! 4)),
      ucast (signed_drop_bit 2 (h ! 4)), ucast (signed_drop_bit 10 (h ! 4)),
      ucast (signed_drop_bit 18 (h ! 4)), ucast (h ! 5), ucast (signed_drop_bit 8 (h ! 5)),
      ucast (signed_drop_bit 16 (h ! 5)),
      ucast (signed_drop_bit 24 (h ! 5) OR push_bit 1 (h ! 6)),
      ucast (signed_drop_bit 7 (h ! 6)), ucast (signed_drop_bit 15 (h ! 6)),
      ucast (signed_drop_bit 23 (h ! 6) OR push_bit 3 (h ! 7)),
      ucast (signed_drop_bit 5 (h ! 7)), ucast (signed_drop_bit 13 (h ! 7)),
      ucast (signed_drop_bit 21 (h ! 7) OR push_bit 4 (h ! 8)),
      ucast (signed_drop_bit 4 (h ! 8)), ucast (signed_drop_bit 12 (h ! 8)),
      ucast (signed_drop_bit 20 (h ! 8) OR push_bit 6 (h ! 9)),
      ucast (signed_drop_bit 2 (h ! 9)), ucast (signed_drop_bit 10 (h ! 9)),
      ucast (signed_drop_bit 18 (h ! 9))]"

definition fe_tobytes :: "fe \<Rightarrow> bytes" where
  "fe_tobytes h = limb_bytes (fe_reduce h)"

definition fe_isnegative :: "fe \<Rightarrow> s32" where
  "fe_isnegative f = (let s = fe_tobytes f in ucast (s ! 0) AND 1)"

definition fe_isnonzero :: "fe \<Rightarrow> s32" where
  "fe_isnonzero f =
     (let s = fe_tobytes f;
          r = foldl (\<lambda>r i. r OR s ! i) (s ! 0) [1..<32]
      in if r \<noteq> 0 then 1 else 0)"

section \<open>Bounds\<close>

text \<open>
  \<open>fe_bound b f\<close>: the limbs of \<open>f\<close> are at most \<open>b\<close> hundredths of \<open>2^25\<close> and \<open>2^24\<close> in turn.  The bounds
  of the comments, \<open>1.01\<close>, \<open>1.1\<close> and \<open>1.65\<close> times \<open>2^25\<close> or \<open>2^26\<close>, are 101, 110, 220 and 330.
\<close>

definition fe_bound :: "int \<Rightarrow> fe \<Rightarrow> bool" where
  "fe_bound b f \<longleftrightarrow> length f = 10 \<and> (\<forall>i<10. 100 * \<bar>sint (f ! i)\<bar> \<le> b * 2 ^ (width i - 1))"

definition limb_bound :: "nat \<Rightarrow> int" where
  "limb_bound i = (if even i then 110729625 else 55364812)"

lemma fe_bound_length: "fe_bound b f \<Longrightarrow> length f = 10"
  by (simp add: fe_bound_def)

lemma fe_bound_mono: "fe_bound a f \<Longrightarrow> a \<le> b \<Longrightarrow> fe_bound b f"
  unfolding fe_bound_def
  by (intro conjI allI impI) (auto intro: order_trans [OF _ mult_right_mono])

lemma fe_bound_limb: "fe_bound 330 f \<Longrightarrow> i < 10 \<Longrightarrow> \<bar>sint (f ! i)\<bar> \<le> limb_bound i"
proof -
  assume "fe_bound 330 f" "i < 10"
  then have "100 * \<bar>sint (f ! i)\<bar> \<le> 330 * 2 ^ (width i - 1)" by (simp add: fe_bound_def)
  then show ?thesis by (auto simp: width_def limb_bound_def split: if_splits)
qed

text \<open>Operations limb by limb, for an operation on words that is exact on the integers in range.\<close>

lemma limbwise:
  assumes "\<And>i. i < 10 \<Longrightarrow> h i = of_int (k i)"
    "\<And>i. i < 10 \<Longrightarrow> 100 * \<bar>k i\<bar> \<le> b * 2 ^ (width i - 1)" "b \<le> 6000"
  shows "fe_bound b (map h [0..<10])" "lval 10 (map h [0..<10] :: fe) = (\<Sum>i<10. weight i * k i)"
proof -
  have s: "sint (h i) = k i" if i: "i < 10" for i
  proof -
    have "b * 2 ^ (width i - 1) \<le> 6000 * 2 ^ (width i - 1)" using assms(3) by simp
    also have "\<dots> \<le> 6000 * 2 ^ 25" by (simp add: width_def)
    finally have "\<bar>k i\<bar> < 2 ^ 31" using assms(2) [OF i] by simp
    then show ?thesis unfolding assms(1) [OF i] by (intro s32_of_int_exact) linarith+
  qed
  show "fe_bound b (map h [0..<10])" using assms(2) s by (simp add: fe_bound_def)
  show "lval 10 (map h [0..<10] :: fe) = (\<Sum>i<10. weight i * k i)"
    unfolding lval_def by (rule sum.cong) (simp_all add: s)
qed

lemma bound_plus:
  "100 * \<bar>x\<bar> \<le> a * w \<Longrightarrow> 100 * \<bar>y\<bar> \<le> b * w \<Longrightarrow> 100 * \<bar>x + y\<bar> \<le> (a + b) * w" for x :: int
  using abs_triangle_ineq [of x y] unfolding distrib_right by simp

lemma fe_add_spec:
  assumes "fe_bound a f" "fe_bound b g" "a + b \<le> 6000"
  shows "fe_bound (a + b) (fe_add f g)" "lval 10 (fe_add f g) = lval 10 f + lval 10 g"
proof -
  have b: "100 * \<bar>sint (f ! i) + sint (g ! i)\<bar> \<le> (a + b) * 2 ^ (width i - 1)" if "i < 10" for i
    using bound_plus [of "sint (f ! i)" a _ "sint (g ! i)" b] assms(1,2) that by (simp add: fe_bound_def)
  note l = limbwise [of "\<lambda>i. f ! i + g ! i" "\<lambda>i. sint (f ! i) + sint (g ! i)", OF _ b assms(3), folded fe_add_def]
  show "fe_bound (a + b) (fe_add f g)" by (rule l) simp_all
  show "lval 10 (fe_add f g) = lval 10 f + lval 10 g"
    unfolding lval_def [of _ f] lval_def [of _ g] by (subst l(2)) (simp_all add: sum.distrib distrib_left)
qed

lemma fe_sub_spec:
  assumes "fe_bound a f" "fe_bound b g" "a + b \<le> 6000"
  shows "fe_bound (a + b) (fe_sub f g)" "lval 10 (fe_sub f g) = lval 10 f - lval 10 g"
proof -
  have b: "100 * \<bar>sint (f ! i) - sint (g ! i)\<bar> \<le> (a + b) * 2 ^ (width i - 1)" if "i < 10" for i
    using bound_plus [of "sint (f ! i)" a _ "- sint (g ! i)" b] assms(1,2) that by (simp add: fe_bound_def)
  note l = limbwise [of "\<lambda>i. f ! i - g ! i" "\<lambda>i. sint (f ! i) - sint (g ! i)", OF _ b assms(3), folded fe_sub_def]
  show "fe_bound (a + b) (fe_sub f g)" by (rule l) simp_all
  show "lval 10 (fe_sub f g) = lval 10 f - lval 10 g"
    unfolding lval_def [of _ f] lval_def [of _ g]
    by (subst l(2)) (simp_all add: sum_subtractf right_diff_distrib)
qed

lemma fe_neg_spec:
  assumes "fe_bound b f" "b \<le> 6000"
  shows "fe_bound b (fe_neg f)" "lval 10 (fe_neg f) = - lval 10 f"
proof -
  have b: "100 * \<bar>- sint (f ! i)\<bar> \<le> b * 2 ^ (width i - 1)" if "i < 10" for i
    using assms(1) that by (simp add: fe_bound_def)
  note l = limbwise [of "\<lambda>i. - (f ! i)" "\<lambda>i. - sint (f ! i)", OF _ b assms(2), folded fe_neg_def]
  show "fe_bound b (fe_neg f)" by (rule l) simp_all
  show "lval 10 (fe_neg f) = - lval 10 f"
    unfolding lval_def [of _ f] by (subst l(2)) (simp_all add: sum_negf)
qed

lemma fe_0_spec: "0 \<le> b \<Longrightarrow> fe_bound b fe_0" "lval 10 fe_0 = 0"
  and fe_1_spec: "fe_bound 101 fe_1" "lval 10 fe_1 = 1"
proof -
  have l: "fe_0 ! i = 0" "fe_1 ! i = (if i = 0 then 1 else 0)" if "i < 10" for i
  proof -
    have "list_all (\<lambda>i. fe_0 ! i = 0 \<and> fe_1 ! i = (if i = 0 then 1 else 0)) [0..<10]"
      by (simp add: upto_10 fe_0_def fe_1_def)
    then show "fe_0 ! i = 0" "fe_1 ! i = (if i = 0 then 1 else 0)" using that by (simp_all add: list_all_iff)
  qed
  show "0 \<le> b \<Longrightarrow> fe_bound b fe_0" "lval 10 fe_0 = 0"
    by (simp_all add: fe_bound_def l lval_def) (simp add: fe_0_def)
  show "fe_bound 101 fe_1" "lval 10 fe_1 = 1"
    by (simp_all add: fe_bound_def l lval_def sum_10 weight_def) (simp add: fe_1_def width_def)
qed

section \<open>Carries\<close>

text \<open>What a chain of carries does to bounds on the limbs, if none of them can overflow.\<close>

primrec carry_bounds :: "int list \<Rightarrow> nat list \<Rightarrow> int list option" where
  "carry_bounds B [] = Some B"
| "carry_bounds B (i # is) =
     (let c = (B ! i + 2 ^ (width i - 1)) div 2 ^ width i;
          j = (if i = 9 then 0 else i + 1);
          m = (if i = 9 then 19 else 1)
      in if B ! i + 2 ^ (width i - 1) < 2 ^ 63 \<and> B ! j + c * m < 2 ^ 63
         then carry_bounds (B[j := B ! j + c * m, i := 2 ^ (width i - 1)]) is else None)"

lemma fe_carry_spec:
  assumes "limbs_bounded B h" "length h = 10" "i < 10" "carry_bounds B [i] = Some B'"
  shows "limbs_bounded B' (fe_carry h i)" "length (fe_carry h i) = 10"
    "wsum weight (fe_carry h i) mod p25519 = wsum weight h mod p25519"
proof -
  define w j m c where "w = width i" and "j = (if i = 9 then 0 else i + 1)"
    and "m = (if i = 9 then 19 else 1 :: int)" and "c = round_carry w (h ! i)"
  define C where "C = (B ! i + 2 ^ (w - 1)) div 2 ^ w"
  have ok: "B ! i + 2 ^ (w - 1) < 2 ^ 63" "B ! j + C * m < 2 ^ 63" "B' = B[j := B ! j + C * m, i := 2 ^ (w - 1)]"
    using assms(4) by (auto simp: Let_def w_def C_def j_def m_def split: if_splits)
  have e: "fe_carry h i = h[j := h ! j + c * of_int m, i := h ! i - push_bit w c]"
    by (simp add: fe_carry_def Let_def w_def j_def m_def c_def)
  have w0: "0 < w" by (simp add: w_def width_def)
  note r = sint_round_carry [OF limbs_bounded_nth [OF assms(1)] ok(1) w0, folded c_def C_def]
  have R: "(2 :: int) ^ (w - 1) < 2 ^ 63" by (simp add: w_def width_def)
  have ij: "i < length h" "j < length h" "i \<noteq> j" using assms(2,3) by (auto simp: j_def)
  have m0: "0 \<le> m" by (simp add: m_def)
  note mv = move_limb [OF assms(1) ij r(2,3) R m0 ok(2)]
  show "limbs_bounded B' (fe_carry h i)" unfolding e ok(3) by (rule mv) (use ij in simp_all)
  show "length (fe_carry h i) = 10" using assms(2) by (simp add: e)
  have d: "p25519 dvd m * weight j - 2 ^ w * weight i"
  proof (cases "i = 9")
    case True
    then show ?thesis by (simp add: m_def j_def w_def width_def weight_def p25519_def)
  next
    case False
    then show ?thesis using weight_Suc [of i] by (simp add: m_def j_def w_def)
  qed
  have "wsum weight (fe_carry h i) = wsum weight h + sint c * (m * weight j - 2 ^ w * weight i)"
    unfolding e by (rule mv) (use ij in simp_all)
  then show "wsum weight (fe_carry h i) mod p25519 = wsum weight h mod p25519"
    using d by (simp add: mod_eq_dvd_iff)
qed

lemma fe_carries_spec:
  assumes "limbs_bounded B h" "length h = 10" "list_all (\<lambda>i. i < 10) is" "carry_bounds B is = Some B'"
  shows "limbs_bounded B' (foldl fe_carry h is) \<and> length (foldl fe_carry h is) = 10 \<and>
    wsum weight (foldl fe_carry h is) mod p25519 = wsum weight h mod p25519"
  using assms
proof (induction "is" arbitrary: B h)
  case (Cons i "is")
  from Cons.prems(4) obtain B1 where B1: "carry_bounds B [i] = Some B1" "carry_bounds B1 is = Some B'"
    by (auto simp: Let_def split: if_splits)
  note c = fe_carry_spec [OF Cons.prems(1,2) _ B1(1)]
  show ?case using Cons.IH [OF c(1,2) _ B1(2)] c(3) Cons.prems(3) by simp
qed simp

lemma fe_carried:
  assumes "limbs_bounded B h" "length h = 10" "list_all (\<lambda>i. i < 10) is" "carry_bounds B is = Some B'"
    "list_all (\<lambda>i. 100 * B' ! i \<le> b * 2 ^ (width i - 1)) [0, 1, 2, 3, 4, 5, 6, 7, 8, 9]" "b \<le> 6000"
  shows "fe_bound b (map s32_of_limb (foldl fe_carry h is))"
    "lval 10 (map s32_of_limb (foldl fe_carry h is)) mod p25519 = wsum weight h mod p25519"
proof -
  define t where "t = foldl fe_carry h is"
  note c = fe_carries_spec [OF assms(1-4), folded t_def]
  have l: "length t = 10" using c by simp
  have k: "s32_of_limb (t ! i) = of_int (sint (t ! i))" for i by (rule s32_of_limb_sint)
  have b: "100 * \<bar>sint (t ! i)\<bar> \<le> b * 2 ^ (width i - 1)" if "i < 10" for i
  proof -
    have "\<bar>sint (t ! i)\<bar> \<le> B' ! i" using limbs_bounded_nth c l that by simp
    moreover have "100 * B' ! i \<le> b * 2 ^ (width i - 1)"
      using assms(5) that unfolding upto_10 [symmetric] list_all_iff by simp
    ultimately show ?thesis by linarith
  qed
  note s = limbwise [of "\<lambda>i. s32_of_limb (t ! i)", OF k b assms(6)]
  have m: "map s32_of_limb t = map (\<lambda>i. s32_of_limb (t ! i)) [0..<10]" using l by (simp add: map_equality_iff)
  show "fe_bound b (map s32_of_limb (foldl fe_carry h is))" using s(1) by (simp add: m t_def [symmetric])
  show "lval 10 (map s32_of_limb (foldl fe_carry h is)) mod p25519 = wsum weight h mod p25519"
    using s(2) c l by (simp add: m t_def [symmetric] wsum_def)
qed

section \<open>Multiplication\<close>

lemma multiple_exact:
  assumes "of_nat k * \<bar>sint (f ! i)\<bar> < 2 ^ 31"
  shows "multiple f k i = of_int (of_nat k * sint (f ! i))"
proof -
  have "\<bar>of_nat k * sint (f ! i)\<bar> < 2 ^ 31" using assms by (simp add: abs_mult)
  then have "sint (of_int (of_nat k * sint (f ! i)) :: s32) = of_nat k * sint (f ! i)"
    by (intro s32_of_int_exact) linarith+
  then show ?thesis by (simp add: multiple_def limb_of_s32_sint)
qed

definition int_multiple :: "(nat \<Rightarrow> int) \<Rightarrow> nat \<Rightarrow> nat \<Rightarrow> int" where
  "int_multiple x k i = of_nat k * x i"

text \<open>The multiples the source computes in 32 bits do not overflow.\<close>

lemma multiples:
  assumes "fe_bound 330 f"
  shows "i < 10 \<Longrightarrow> multiple f 1 i = of_int (int_multiple (\<lambda>i. sint (f ! i)) 1 i)"
    "i < 10 \<Longrightarrow> multiple f 2 i = of_int (int_multiple (\<lambda>i. sint (f ! i)) 2 i)"
    "i < 10 \<Longrightarrow> multiple f 19 i = of_int (int_multiple (\<lambda>i. sint (f ! i)) 19 i)"
    "i < 10 \<Longrightarrow> odd i \<Longrightarrow> multiple f 38 i = of_int (int_multiple (\<lambda>i. sint (f ! i)) 38 i)"
  unfolding int_multiple_def
  by (rule multiple_exact; use fe_bound_limb [OF assms, of i] in \<open>simp add: limb_bound_def split: if_splits\<close>)+

lemma mul_sums_exact:
  assumes "fe_bound 330 f" "fe_bound 330 g"
  shows "mul_sums (multiple f) (multiple g) =
    map of_int (mul_sums (int_multiple (\<lambda>i. sint (f ! i))) (int_multiple (\<lambda>i. sint (g ! i))))"
  unfolding mul_sums_def by (simp add: multiples [OF assms(1)] multiples [OF assms(2)] del: One_nat_def)

lemma sq_sums_exact:
  assumes "fe_bound 330 f"
  shows "sq_sums (multiple f) = mul_sums (multiple f) (multiple f)"
proof -
  have "sq_sums (multiple f) = map of_int (sq_sums (int_multiple (\<lambda>i. sint (f ! i))))"
    unfolding sq_sums_def by (simp add: multiples [OF assms] del: One_nat_def)
  also have "sq_sums (int_multiple x) = mul_sums (int_multiple x) (int_multiple x)" for x
    by (simp add: sq_sums_def mul_sums_def int_multiple_def algebra_simps)
  finally show ?thesis by (simp only: mul_sums_exact [OF assms assms])
qed

lemma mul_sums_bound:
  assumes "\<And>i. i < 10 \<Longrightarrow> \<bar>x i\<bar> \<le> limb_bound i" "\<And>i. i < 10 \<Longrightarrow> \<bar>y i\<bar> \<le> limb_bound i"
  shows "list_all2 (\<lambda>b x. \<bar>x\<bar> \<le> b) (mul_sums (int_multiple limb_bound) (int_multiple limb_bound))
    (mul_sums (int_multiple x) (int_multiple y))"
proof -
  have m: "\<bar>int_multiple x k i\<bar> \<le> int_multiple limb_bound k i" "\<bar>int_multiple y k i\<bar> \<le> int_multiple limb_bound k i"
    if "i < 10" for k i
    using assms that by (simp_all add: int_multiple_def abs_mult mult_left_mono)
  show ?thesis
    unfolding mul_sums_def list.rel_inject by (intro conjI bound_sum bound_product m list.rel_intros; simp)
qed

lemma mul_sums_product:
  "(\<Sum>k<10. weight k * mul_sums (int_multiple x) (int_multiple y) ! k) mod p25519 =
   ((\<Sum>i<10. weight i * x i) * (\<Sum>i<10. weight i * y i)) mod p25519"
proof -
  define ps where "ps = product_sums x y"
  have "mul_sums (int_multiple x) (int_multiple y) ! k = ps ! k + 19 * (if k < 9 then ps ! (k + 10) else 0)"
    if "k < 10" for k
  proof -
    have "list_all (\<lambda>k. mul_sums (int_multiple x) (int_multiple y) ! k = ps ! k + 19 * (if k < 9 then ps ! (k + 10) else 0))
      [0, 1, 2, 3, 4, 5, 6, 7, 8, 9]"
      by (simp add: ps_def mul_sums_def product_sums_def int_multiple_def algebra_simps)
    then show ?thesis using that by (rule list_all_10)
  qed
  then have "(\<Sum>k<10. weight k * mul_sums (int_multiple x) (int_multiple y) ! k) =
      (\<Sum>k<10. weight k * (ps ! k + 19 * (if k < 9 then ps ! (k + 10) else 0)))" by simp
  moreover have "(\<Sum>i<19. weight i * ps ! i) - (\<Sum>k<10. weight k * (ps ! k + 19 * (if k < 9 then ps ! (k + 10) else 0))) =
     p25519 * (\<Sum>k<9. weight k * ps ! (k + 10))"
    unfolding sum_10 sum_19 by (simp add: lessThan_nat_numeral weight_def p25519_def)
  ultimately show ?thesis
    using product_sums_value [of x y] unfolding ps_def mod_eq_dvd_iff by (metis dvd_minus_iff dvd_triv_left minus_diff_eq)
qed

lemma mul_sums_limbs:
  assumes "fe_bound 330 f" "fe_bound 330 g"
  defines "S \<equiv> mul_sums (multiple f) (multiple g)"
  shows "list_all2 (\<lambda>b x. \<bar>sint x\<bar> \<le> b) (mul_sums (int_multiple limb_bound) (int_multiple limb_bound)) S"
    "length S = 10" "wsum weight S mod p25519 = (lval 10 f * lval 10 g) mod p25519"
    "wsum weight (map (\<lambda>h. h + h) S) = 2 * wsum weight S"
    "list_all2 (\<lambda>b x. \<bar>sint x\<bar> \<le> b) (map (\<lambda>b. 2 * b) (mul_sums (int_multiple limb_bound) (int_multiple limb_bound)))
       (map (\<lambda>h. h + h) S)"
    "map sint S = mul_sums (int_multiple (\<lambda>i. sint (f ! i))) (int_multiple (\<lambda>i. sint (g ! i)))"
    "map sint (map (\<lambda>h. h + h) S) =
       map (\<lambda>h. 2 * h) (mul_sums (int_multiple (\<lambda>i. sint (f ! i))) (int_multiple (\<lambda>i. sint (g ! i))))"
proof -
  define P B where "P = mul_sums (int_multiple (\<lambda>i. sint (f ! i))) (int_multiple (\<lambda>i. sint (g ! i)))"
    and "B = mul_sums (int_multiple limb_bound) (int_multiple limb_bound)"
  have S: "S = map of_int P" unfolding S_def P_def by (rule mul_sums_exact [OF assms(1,2)])
  have b: "list_all2 (\<lambda>b x. \<bar>x\<bar> \<le> b) B P"
    unfolding B_def P_def by (rule mul_sums_bound) (rule fe_bound_limb [OF assms(1)] fe_bound_limb [OF assms(2)], assumption)+
  have l: "length P = 10" "length B = 10" by (simp_all add: P_def B_def mul_sums_def)
  have m: "list_all (\<lambda>b. 2 * b < 2 ^ 63) B" by (simp add: B_def mul_sums_def int_multiple_def limb_bound_def)
  have PB: "\<bar>P ! i\<bar> \<le> B ! i" "2 * B ! i < 2 ^ 63" if "i < 10" for i
    using b m that l by (simp_all add: list_all2_conv_all_nth list_all_length)
  have s: "sint (S ! i) = P ! i" "sint (S ! i + S ! i) = 2 * P ! i" if "i < 10" for i
  proof -
    have e: "S ! i = of_int (P ! i)" using that l by (simp add: S)
    show "sint (S ! i) = P ! i" unfolding e by (rule sint_of_int_exact; use PB [OF that] in linarith)
    have "sint (of_int (2 * P ! i) :: limb) = 2 * P ! i" by (rule sint_of_int_exact; use PB [OF that] in linarith)
    then show "sint (S ! i + S ! i) = 2 * P ! i" unfolding e by (simp only: mult_2 of_int_add)
  qed
  show ls: "length S = 10" by (simp add: S l)
  show "map sint S = mul_sums (int_multiple (\<lambda>i. sint (f ! i))) (int_multiple (\<lambda>i. sint (g ! i)))"
    "map sint (map (\<lambda>h. h + h) S) =
       map (\<lambda>h. 2 * h) (mul_sums (int_multiple (\<lambda>i. sint (f ! i))) (int_multiple (\<lambda>i. sint (g ! i))))"
    unfolding P_def [symmetric] by (intro nth_equalityI; simp add: ls l s s(2) [unfolded mult_2 [symmetric]])+
  show "list_all2 (\<lambda>b x. \<bar>sint x\<bar> \<le> b) (mul_sums (int_multiple limb_bound) (int_multiple limb_bound)) S"
    unfolding B_def [symmetric] using PB s ls l by (simp add: list_all2_conv_all_nth)
  show "list_all2 (\<lambda>b x. \<bar>sint x\<bar> \<le> b) (map (\<lambda>b. 2 * b) (mul_sums (int_multiple limb_bound) (int_multiple limb_bound)))
       (map (\<lambda>h. h + h) S)"
    unfolding B_def [symmetric] using PB s ls l by (simp add: list_all2_conv_all_nth abs_mult)
  have w: "wsum weight S = (\<Sum>k<10. weight k * P ! k)" by (simp add: wsum_def ls s)
  show "wsum weight S mod p25519 = (lval 10 f * lval 10 g) mod p25519"
    unfolding w P_def lval_def by (rule mul_sums_product)
  show "wsum weight (map (\<lambda>h. h + h) S) = 2 * wsum weight S"
    unfolding w by (simp add: wsum_def ls s [unfolded mult_2 [symmetric]] sum_distrib_left mult.left_commute)
qed

lemma mul_carries_bounds:
  "\<exists>B'. carry_bounds (mul_sums (int_multiple limb_bound) (int_multiple limb_bound)) mul_carries = Some B' \<and>
    list_all (\<lambda>i. 100 * B' ! i \<le> 101 * 2 ^ (width i - 1)) [0, 1, 2, 3, 4, 5, 6, 7, 8, 9]"
  "\<exists>B'. carry_bounds (map (\<lambda>b. 2 * b) (mul_sums (int_multiple limb_bound) (int_multiple limb_bound))) mul_carries = Some B' \<and>
    list_all (\<lambda>i. 100 * B' ! i \<le> 101 * 2 ^ (width i - 1)) [0, 1, 2, 3, 4, 5, 6, 7, 8, 9]"
  by (simp_all add: mul_sums_def int_multiple_def limb_bound_def mul_carries_def Let_def width_def)

lemma fe_mul_spec:
  assumes "fe_bound 330 f" "fe_bound 330 g"
  shows "fe_bound 101 (fe_mul f g)" "lval 10 (fe_mul f g) mod p25519 = (lval 10 f * lval 10 g) mod p25519"
proof -
  note m = mul_sums_limbs [OF assms]
  obtain B' where B: "carry_bounds (mul_sums (int_multiple limb_bound) (int_multiple limb_bound)) mul_carries = Some B'"
    "list_all (\<lambda>i. 100 * B' ! i \<le> 101 * 2 ^ (width i - 1)) [0, 1, 2, 3, 4, 5, 6, 7, 8, 9]"
    using mul_carries_bounds(1) by blast
  have i: "list_all (\<lambda>i. i < 10) mul_carries" by (simp add: mul_carries_def)
  note c = fe_carried [OF m(1) [folded limbs_bounded_def] m(2) i B, folded fe_mul_def]
  show "fe_bound 101 (fe_mul f g)" by (rule c) simp
  show "lval 10 (fe_mul f g) mod p25519 = (lval 10 f * lval 10 g) mod p25519" using c(2) m(3) by simp
qed

lemma fe_sq_mul: "fe_bound 330 f \<Longrightarrow> fe_sq f = fe_mul f f"
  by (simp add: fe_sq_def fe_mul_def sq_sums_exact)

lemma fe_sq2_spec:
  assumes "fe_bound 330 f"
  shows "fe_bound 101 (fe_sq2 f)" "lval 10 (fe_sq2 f) mod p25519 = (2 * lval 10 f ^ 2) mod p25519"
proof -
  note m = mul_sums_limbs [OF assms assms]
  obtain B' where B: "carry_bounds (map (\<lambda>b. 2 * b) (mul_sums (int_multiple limb_bound) (int_multiple limb_bound))) mul_carries = Some B'"
    "list_all (\<lambda>i. 100 * B' ! i \<le> 101 * 2 ^ (width i - 1)) [0, 1, 2, 3, 4, 5, 6, 7, 8, 9]"
    using mul_carries_bounds(2) by blast
  have i: "list_all (\<lambda>i. i < 10) mul_carries" by (simp add: mul_carries_def)
  have e: "fe_sq2 f = map s32_of_limb (foldl fe_carry (map (\<lambda>h. h + h) (mul_sums (multiple f) (multiple f))) mul_carries)"
    by (simp add: fe_sq2_def sq_sums_exact [OF assms])
  have l: "length (map (\<lambda>h. h + h) (mul_sums (multiple f) (multiple f))) = 10" using m(2) by simp
  note c = fe_carried [OF m(5) [folded limbs_bounded_def] l i B, folded e]
  show "fe_bound 101 (fe_sq2 f)" by (rule c) simp
  have "lval 10 (fe_sq2 f) mod p25519 = (2 * wsum weight (mul_sums (multiple f) (multiple f))) mod p25519"
    using c(2) m(4) by simp
  also have "\<dots> = (2 * (lval 10 f * lval 10 f)) mod p25519" using m(3) by (metis mod_mult_right_eq)
  finally show "lval 10 (fe_sq2 f) mod p25519 = (2 * lval 10 f ^ 2) mod p25519" by (simp add: power2_eq_square)
qed

section \<open>No overflow\<close>

text \<open>
  The multiplications once more, over the integers and with a test of every operation: signed overflow
  has no defined result in C, and is \<open>None\<close> here.  For a sum of products the test is that the sum of their
  absolute values is in range, so that each product and each partial sum is, in whatever order.
\<close>

definition fits :: "nat \<Rightarrow> int \<Rightarrow> bool" where
  "fits w x \<longleftrightarrow> - (2 ^ (w - 1)) \<le> x \<and> x < 2 ^ (w - 1)"

definition checked_carry :: "int list \<Rightarrow> nat \<Rightarrow> int list option" where
  "checked_carry h i =
     (let r = h ! i + 2 ^ (width i - 1);
          c = r div 2 ^ width i;
          m = (if i = 9 then 19 else 1);
          j = (if i = 9 then 0 else i + 1);
          u = h ! j + c * m;
          d = 2 ^ width i * c;
          v = h ! i - d
      in if list_all (fits 64) [r, c, c * m, u, d, v] then Some (h[j := u, i := v]) else None)"

primrec checked_carries :: "int list \<Rightarrow> nat list \<Rightarrow> int list option" where
  "checked_carries h [] = Some h"
| "checked_carries h (i # is) =
     (case checked_carry h i of
        None \<Rightarrow> None
      | Some h \<Rightarrow> checked_carries h is)"

definition checked_finish :: "int list \<Rightarrow> int list option" where
  "checked_finish h =
     (case checked_carries h mul_carries of
        None \<Rightarrow> None
      | Some h \<Rightarrow> if list_all (fits 32) h then Some h else None)"

definition checked_mul :: "int list \<Rightarrow> int list \<Rightarrow> int list option" where
  "checked_mul f g =
     (if list_all (\<lambda>i. fits 32 (2 * f ! i)) [1, 3, 5, 7, 9] \<and>
         list_all (\<lambda>i. fits 32 (19 * g ! i)) [1, 2, 3, 4, 5, 6, 7, 8, 9] \<and>
         list_all (fits 64) (mul_sums (int_multiple (\<lambda>i. \<bar>f ! i\<bar>)) (int_multiple (\<lambda>i. \<bar>g ! i\<bar>)))
      then checked_finish (mul_sums (int_multiple (\<lambda>i. f ! i)) (int_multiple (\<lambda>i. g ! i)))
      else None)"

definition checked_square :: "int \<Rightarrow> int list \<Rightarrow> int list option" where
  "checked_square m f =
     (if list_all (\<lambda>i. fits 32 (2 * f ! i)) [0, 1, 2, 3, 4, 5, 6, 7] \<and>
         list_all (\<lambda>i. fits 32 (38 * f ! i)) [5, 7, 9] \<and>
         list_all (\<lambda>i. fits 32 (19 * f ! i)) [6, 8] \<and>
         list_all (\<lambda>b. fits 64 (m * b)) (sq_sums (int_multiple (\<lambda>i. \<bar>f ! i\<bar>)))
      then checked_finish (map (\<lambda>h. m * h) (sq_sums (int_multiple (\<lambda>i. f ! i))))
      else None)"

lemma fitsI: "\<bar>x\<bar> < 2 ^ 63 \<Longrightarrow> fits 64 x"
  by (auto simp: fits_def abs_less_iff)

lemma checked_carry_exact:
  assumes "limbs_bounded B h" "length h = 10" "i < 10" "carry_bounds B [i] = Some B'"
  shows "checked_carry (map sint h) i = Some (map sint (fe_carry h i))"
proof -
  define w j m c where "w = width i" and "j = (if i = 9 then 0 else i + 1)"
    and "m = (if i = 9 then 19 else 1 :: int)" and "c = round_carry w (h ! i)"
  define C where "C = (B ! i + 2 ^ (w - 1)) div 2 ^ w"
  have ok: "B ! i + 2 ^ (w - 1) < 2 ^ 63" "B ! j + C * m < 2 ^ 63"
    using assms(4) by (auto simp: Let_def w_def C_def j_def m_def split: if_splits)
  have e: "fe_carry h i = h[j := h ! j + c * of_int m, i := h ! i - push_bit w c]"
    by (simp add: fe_carry_def Let_def w_def j_def m_def c_def)
  have w: "0 < w" "(2 :: int) ^ (w - 1) < 2 ^ 62" "(2 :: int) ^ (w - 1) < 2 ^ 63" by (simp_all add: w_def width_def)
  have ij: "i < length h" "j < length h" "i \<noteq> j" using assms(2,3) by (auto simp: j_def)
  note bi = limbs_bounded_nth [OF assms(1) ij(1)] and bj = limbs_bounded_nth [OF assms(1) ij(2)]
  note r = sint_round_carry [OF bi ok(1) w(1), folded c_def C_def]
  have m: "1 \<le> m" "\<bar>m\<bar> = m" by (simp_all add: m_def)
  have s: "sint (h ! j + c * of_int m) = sint (h ! j) + sint c * m" "\<bar>sint (h ! j + c * of_int m)\<bar> \<le> B ! j + C * m"
    using sint_scaled_sum [OF bj r(2), of m] ok(2) m by simp_all
  have v: "sint (h ! i - push_bit w c) = sint (h ! i) - 2 ^ w * sint c" by (rule sint_remainder [OF r(3) w(3)])
  have C: "0 \<le> C" using r(2) by linarith
  have cm: "\<bar>sint c * m\<bar> \<le> C * m" using r(2) m by (simp add: abs_mult mult_right_mono)
  have "C * 1 \<le> C * m" using C m by (intro mult_left_mono) simp_all
  then have C1: "\<bar>sint c\<bar> \<le> C * m" using r(2) by linarith
  have "0 < (2 :: int) ^ (w - 1)" by simp
  then have "\<bar>sint (h ! i) + 2 ^ (w - 1)\<bar> < 2 ^ 63" using bi ok(1) by linarith
  moreover have "\<bar>2 ^ w * sint c\<bar> < 2 ^ 63"
  proof -
    have "\<bar>2 ^ w * sint c\<bar> \<le> \<bar>sint (h ! i)\<bar> + 2 ^ (w - 1)" using r(3) by linarith
    then show ?thesis using bi ok(1) by linarith
  qed
  moreover have "\<bar>sint (h ! i) - 2 ^ w * sint c\<bar> < 2 ^ 63" using r(3) w(3) by linarith
  moreover have "\<bar>sint c\<bar> < 2 ^ 63" "\<bar>sint c * m\<bar> < 2 ^ 63" "\<bar>sint (h ! j) + sint c * m\<bar> < 2 ^ 63"
    using C1 cm s ok(2) bj by linarith+
  ultimately have "list_all (fits 64) [sint (h ! i) + 2 ^ (w - 1), sint c, sint c * m, sint (h ! j) + sint c * m,
      2 ^ w * sint c, sint (h ! i) - 2 ^ w * sint c]"
    by (simp add: fitsI)
  moreover have "map sint h ! i = sint (h ! i)" "map sint h ! j = sint (h ! j)" using ij by simp_all
  moreover have "map sint (fe_carry h i) = (map sint h)[j := sint (h ! j) + sint c * m, i := sint (h ! i) - 2 ^ w * sint c]"
    by (simp only: e map_update s(1) v)
  ultimately show ?thesis
    by (simp only: checked_carry_def Let_def w_def [symmetric] m_def [symmetric] j_def [symmetric] r(1) [symmetric] if_True)
qed

lemma checked_carries_exact:
  assumes "limbs_bounded B h" "length h = 10" "list_all (\<lambda>i. i < 10) is" "carry_bounds B is = Some B'"
  shows "checked_carries (map sint h) is = Some (map sint (foldl fe_carry h is))"
  using assms
proof (induction "is" arbitrary: B h)
  case (Cons i "is")
  from Cons.prems(4) obtain B1 where B1: "carry_bounds B [i] = Some B1" "carry_bounds B1 is = Some B'"
    by (auto simp: Let_def split: if_splits)
  note c = fe_carry_spec [OF Cons.prems(1,2) _ B1(1)] and x = checked_carry_exact [OF Cons.prems(1,2) _ B1(1)]
  show ?case using Cons.IH [OF c(1,2) _ B1(2)] x Cons.prems(3) by simp
qed simp

lemma checked_finish_exact:
  assumes "limbs_bounded B h" "length h = 10" "carry_bounds B mul_carries = Some B'"
    "list_all (\<lambda>i. 100 * B' ! i \<le> 101 * 2 ^ (width i - 1)) [0, 1, 2, 3, 4, 5, 6, 7, 8, 9]"
  shows "checked_finish (map sint h) = Some (map sint (map s32_of_limb (foldl fe_carry h mul_carries)))"
proof -
  define t where "t = foldl fe_carry h mul_carries"
  have i: "list_all (\<lambda>i. i < 10) mul_carries" by (simp add: mul_carries_def)
  note c = fe_carries_spec [OF assms(1,2) i assms(3), folded t_def]
  have b: "\<bar>sint (t ! k)\<bar> < 2 ^ 31" if "k < 10" for k
  proof -
    have "\<bar>sint (t ! k)\<bar> \<le> B' ! k" using limbs_bounded_nth c that by simp
    moreover have "100 * B' ! k \<le> 101 * 2 ^ (width k - 1)"
      using assms(4) that unfolding upto_10 [symmetric] list_all_iff by simp
    moreover have "(101 :: int) * 2 ^ (width k - 1) < 100 * 2 ^ 31" by (simp add: width_def)
    ultimately show ?thesis by linarith
  qed
  have l: "length t = 10" using c by simp
  have f: "list_all (fits 32) (map sint t)"
    unfolding list_all_length fits_def using b l by (simp add: abs_less_iff) (meson less_imp_le neg_less_iff_less minus_less_iff)
  have "sint (s32_of_limb (t ! k)) = sint (t ! k)" if "k < 10" for k
    unfolding s32_of_limb_sint using b [OF that] by (intro s32_of_int_exact) linarith+
  then have "map sint (map s32_of_limb t) = map sint t" by (intro nth_equalityI) (simp_all add: l)
  then show ?thesis
    using checked_carries_exact [OF assms(1,2) i assms(3), folded t_def] f
    by (simp only: checked_finish_def option.case if_True t_def [symmetric])
qed

lemma doubled_bounds:
  assumes "list_all2 (\<lambda>b x. \<bar>x\<bar> \<le> b) B P" "list_all (\<lambda>b. 2 * b < K) B"
  shows "list_all (\<lambda>x. 2 * \<bar>x\<bar> < (K :: int)) P"
  using assms by (induction rule: list_all2_induct) auto

lemma mul_sums_abs_bound:
  assumes "fe_bound 330 f" "fe_bound 330 g"
  shows "list_all (\<lambda>b. fits 64 b \<and> fits 64 (2 * b))
    (mul_sums (int_multiple (\<lambda>i. \<bar>sint (f ! i)\<bar>)) (int_multiple (\<lambda>i. \<bar>sint (g ! i)\<bar>)))"
proof -
  have "list_all2 (\<lambda>b x. \<bar>x\<bar> \<le> b) (mul_sums (int_multiple limb_bound) (int_multiple limb_bound))
      (mul_sums (int_multiple (\<lambda>i. \<bar>sint (f ! i)\<bar>)) (int_multiple (\<lambda>i. \<bar>sint (g ! i)\<bar>)))"
    by (rule mul_sums_bound) (use fe_bound_limb [OF assms(1)] fe_bound_limb [OF assms(2)] in simp_all)
  moreover have "list_all (\<lambda>b. 2 * b < 2 ^ 63) (mul_sums (int_multiple limb_bound) (int_multiple limb_bound))"
    by (simp add: mul_sums_def int_multiple_def limb_bound_def)
  ultimately have "list_all (\<lambda>x. 2 * \<bar>x\<bar> < 2 ^ 63)
      (mul_sums (int_multiple (\<lambda>i. \<bar>sint (f ! i)\<bar>)) (int_multiple (\<lambda>i. \<bar>sint (g ! i)\<bar>)))"
    by (rule doubled_bounds)
  then show ?thesis
  proof (rule list.pred_mono_strong)
    fix x :: int assume "2 * \<bar>x\<bar> < 2 ^ 63"
    then have "\<bar>x\<bar> < 2 ^ 63" "\<bar>2 * x\<bar> < 2 ^ 63" by (simp_all add: abs_mult)
    then show "fits 64 x \<and> fits 64 (2 * x)" by (simp add: fitsI)
  qed
qed

lemma limb_multiples_fit:
  assumes "fe_bound 330 f" "i < 10"
  shows "fits 32 (2 * sint (f ! i))" "fits 32 (19 * sint (f ! i))" "odd i \<Longrightarrow> fits 32 (38 * sint (f ! i))"
  using fe_bound_limb [OF assms] by (auto simp: fits_def limb_bound_def abs_le_iff split: if_splits)

text \<open>The three functions of the source compute what their checked versions do.\<close>

lemma checked_mul_exact:
  assumes "fe_bound 330 f" "fe_bound 330 g"
  shows "checked_mul (map sint f) (map sint g) = Some (map sint (fe_mul f g))"
proof -
  have l: "length f = 10" "length g = 10" using assms by (simp_all add: fe_bound_def)
  obtain B' where B: "carry_bounds (mul_sums (int_multiple limb_bound) (int_multiple limb_bound)) mul_carries = Some B'"
    "list_all (\<lambda>i. 100 * B' ! i \<le> 101 * 2 ^ (width i - 1)) [0, 1, 2, 3, 4, 5, 6, 7, 8, 9]"
    using mul_carries_bounds(1) by blast
  note m = mul_sums_limbs [OF assms]
  have sums: "mul_sums (int_multiple (\<lambda>i. a (map sint f ! i))) (int_multiple (\<lambda>i. a (map sint g ! i))) =
      mul_sums (int_multiple (\<lambda>i. a (sint (f ! i)))) (int_multiple (\<lambda>i. a (sint (g ! i))))" for a :: "int \<Rightarrow> int"
    by (simp add: mul_sums_def int_multiple_def l)
  have "list_all (fits 64) (mul_sums (int_multiple (\<lambda>i. \<bar>sint (f ! i)\<bar>)) (int_multiple (\<lambda>i. \<bar>sint (g ! i)\<bar>)))"
    using mul_sums_abs_bound [OF assms] by (simp add: list_all_iff)
  moreover have "list_all (\<lambda>i. fits 32 (2 * map sint f ! i)) [1, 3, 5, 7, 9]"
    "list_all (\<lambda>i. fits 32 (19 * map sint g ! i)) [1, 2, 3, 4, 5, 6, 7, 8, 9]"
    using limb_multiples_fit(1) [OF assms(1)] limb_multiples_fit(2) [OF assms(2)] l by simp_all
  ultimately show ?thesis
    using checked_finish_exact [OF m(1) [folded limbs_bounded_def] m(2) B] sums [of abs] sums [of "\<lambda>x. x"]
    by (simp only: checked_mul_def simp_thms if_True m(6) fe_mul_def)
qed

lemma checked_square_exact:
  assumes "fe_bound 330 f"
  shows "checked_square 1 (map sint f) = Some (map sint (fe_sq f))"
    "checked_square 2 (map sint f) = Some (map sint (fe_sq2 f))"
proof -
  have l: "length f = 10" using assms by (simp add: fe_bound_def)
  note B = mul_carries_bounds and m = mul_sums_limbs [OF assms assms]
  have sums: "sq_sums (int_multiple (\<lambda>i. a (map sint f ! i))) =
      mul_sums (int_multiple (\<lambda>i. a (sint (f ! i)))) (int_multiple (\<lambda>i. a (sint (f ! i))))" for a :: "int \<Rightarrow> int"
    by (simp add: sq_sums_def mul_sums_def int_multiple_def l algebra_simps)
  have "list_all (\<lambda>b. fits 64 (1 * b)) (sq_sums (int_multiple (\<lambda>i. \<bar>map sint f ! i\<bar>)))"
    "list_all (\<lambda>b. fits 64 (2 * b)) (sq_sums (int_multiple (\<lambda>i. \<bar>map sint f ! i\<bar>)))"
    using mul_sums_abs_bound [OF assms assms] unfolding sums by (simp_all add: list_all_iff)
  moreover have "list_all (\<lambda>i. fits 32 (2 * map sint f ! i)) [0, 1, 2, 3, 4, 5, 6, 7]"
    "list_all (\<lambda>i. fits 32 (38 * map sint f ! i)) [5, 7, 9]" "list_all (\<lambda>i. fits 32 (19 * map sint f ! i)) [6, 8]"
    using limb_multiples_fit [OF assms] l by simp_all
  ultimately have c: "checked_square k (map sint f) = checked_finish (map (\<lambda>h. k * h)
      (mul_sums (int_multiple (\<lambda>i. sint (f ! i))) (int_multiple (\<lambda>i. sint (f ! i)))))" if "k = 1 \<or> k = 2" for k
    using that sums [of "\<lambda>x. x"] by (auto simp only: checked_square_def simp_thms if_True)
  obtain B' where B': "carry_bounds (mul_sums (int_multiple limb_bound) (int_multiple limb_bound)) mul_carries = Some B'"
    "list_all (\<lambda>i. 100 * B' ! i \<le> 101 * 2 ^ (width i - 1)) [0, 1, 2, 3, 4, 5, 6, 7, 8, 9]"
    using B(1) by blast
  show "checked_square 1 (map sint f) = Some (map sint (fe_sq f))"
    using checked_finish_exact [OF m(1) [folded limbs_bounded_def] m(2) B'] c [of 1]
    by (simp add: m(6) fe_sq_def sq_sums_exact [OF assms])
  obtain B2 where B2: "carry_bounds (map (\<lambda>b. 2 * b) (mul_sums (int_multiple limb_bound) (int_multiple limb_bound))) mul_carries = Some B2"
    "list_all (\<lambda>i. 100 * B2 ! i \<le> 101 * 2 ^ (width i - 1)) [0, 1, 2, 3, 4, 5, 6, 7, 8, 9]"
    using B(2) by blast
  have "length (map (\<lambda>h. h + h) (mul_sums (multiple f) (multiple f))) = 10" using m(2) by simp
  from checked_finish_exact [OF m(5) [folded limbs_bounded_def] this B2] c [of 2]
  show "checked_square 2 (map sint f) = Some (map sint (fe_sq2 f))"
    by (simp only: m(7) fe_sq2_def Let_def sq_sums_exact [OF assms] simp_thms)
qed

section \<open>Powers\<close>

text \<open>\<open>fe_power a n t\<close>: the element \<open>t\<close> is reduced and stands for the \<open>n\<close>-th power of \<open>a\<close>.\<close>

definition fe_power :: "int \<Rightarrow> nat \<Rightarrow> fe \<Rightarrow> bool" where
  "fe_power a n t \<longleftrightarrow> fe_bound 330 t \<and> lval 10 t mod p25519 = a ^ n mod p25519"

lemma fe_power_mul: "fe_power a m x \<Longrightarrow> fe_power a n y \<Longrightarrow> fe_power a (m + n) (fe_mul x y)"
  unfolding fe_power_def using fe_mul_spec [of x y]
  by (auto intro: fe_bound_mono simp: power_add) (metis mod_mult_eq)

lemma fe_power_sq: "fe_power a n x \<Longrightarrow> fe_power a (2 * n) (fe_sq x)"
  using fe_power_mul [of a n x n x] fe_sq_mul [of x] by (simp add: fe_power_def mult_2)

lemma fe_power_loop: "fe_power a n x \<Longrightarrow> fe_power a (n * 2 ^ (k - i)) (fe_sq_loop i k x)"
proof (induction i k x arbitrary: n rule: fe_sq_loop.induct)
  case (1 i k x)
  show ?case
  proof (cases "i < k")
    case True
    then have "k - i = Suc (k - (i + 1))" by simp
    then show ?thesis
      using 1(1) [OF True fe_power_sq [OF 1(2)]] True by (subst fe_sq_loop.simps) (simp add: ac_simps)
  next
    case False
    then show ?thesis using 1(2) by (subst fe_sq_loop.simps) simp
  qed
qed

lemma fe_power_eq: "fe_power a n t \<Longrightarrow> n = m \<Longrightarrow> fe_power a m t"
  by simp

lemma fe_invert_power:
  assumes "fe_power a 1 z"
  shows "fe_power a (2 ^ 255 - 21) (fe_invert z)"
  unfolding fe_invert_def Let_def
  apply (rule fe_power_eq)
   apply (rule fe_power_mul fe_power_sq fe_power_loop assms)+
  apply simp
  done

lemma fe_pow22523_power:
  assumes "fe_power a 1 z"
  shows "fe_power a (2 ^ 252 - 3) (fe_pow22523 z)"
  unfolding fe_pow22523_def Let_def
  apply (rule fe_power_eq)
   apply (rule fe_power_mul fe_power_sq fe_power_loop assms)+
  apply simp
  done

lemma fe_bound_mul_bound: "fe_bound 330 x \<Longrightarrow> fe_bound 330 y \<Longrightarrow> fe_bound 101 (fe_mul x y)"
  by (rule fe_mul_spec)

lemma fe_invert_spec:
  assumes "fe_bound 330 z"
  shows "fe_bound 101 (fe_invert z)"
    "lval 10 (fe_invert z) mod p25519 = lval 10 z ^ nat (p25519 - 2) mod p25519"
proof -
  have p: "fe_power (lval 10 z) 1 z" using assms by (simp add: fe_power_def)
  show "lval 10 (fe_invert z) mod p25519 = lval 10 z ^ nat (p25519 - 2) mod p25519"
    using fe_invert_power [OF p] by (simp add: fe_power_def p25519_def)
  have b: "fe_power a n t \<Longrightarrow> fe_bound 330 t" for a n t by (simp add: fe_power_def)
  show "fe_bound 101 (fe_invert z)"
    unfolding fe_invert_def Let_def
    by (rule fe_bound_mul_bound; rule b, (rule fe_power_mul fe_power_sq fe_power_loop p)+)
qed

lemma fe_pow22523_spec:
  assumes "fe_bound 330 z"
  shows "fe_bound 101 (fe_pow22523 z)"
    "lval 10 (fe_pow22523 z) mod p25519 = lval 10 z ^ nat ((p25519 - 5) div 8) mod p25519"
proof -
  have p: "fe_power (lval 10 z) 1 z" using assms by (simp add: fe_power_def)
  show "lval 10 (fe_pow22523 z) mod p25519 = lval 10 z ^ nat ((p25519 - 5) div 8) mod p25519"
    using fe_pow22523_power [OF p] by (simp add: fe_power_def p25519_def)
  have b: "fe_power a n t \<Longrightarrow> fe_bound 330 t" for a n t by (simp add: fe_power_def)
  show "fe_bound 101 (fe_pow22523 z)"
    unfolding fe_pow22523_def Let_def
    by (rule fe_bound_mul_bound; rule b, (rule fe_power_mul fe_power_sq fe_power_loop p)+)
qed

section \<open>Bytes\<close>

text \<open>A piece of the input, shifted to its place in the limb.\<close>

lemma sint_piece:
  assumes "uint (x :: limb) = take_bit n v" "n + sh \<le> 32"
  shows "sint (push_bit sh x) = 2 ^ sh * take_bit n v" "\<bar>sint (push_bit sh x)\<bar> \<le> 2 ^ 32"
proof -
  have b: "0 \<le> take_bit n v" "take_bit n v < 2 ^ n" by simp_all
  have "2 ^ sh * take_bit n v \<le> 2 ^ sh * 2 ^ n" using b(2) by (simp del: take_bit_int_less_exp)
  also have "\<dots> \<le> 2 ^ 32" unfolding power_add [symmetric] using assms(2) by (intro power_increasing) auto
  finally have l: "2 ^ sh * take_bit n v \<le> 2 ^ 32" .
  have "x = of_int (take_bit n v)" by (simp add: assms(1) [symmetric])
  then have "push_bit sh x = of_int (2 ^ sh * take_bit n v)" by (simp add: push_bit_eq_mult)
  moreover have "sint (of_int (2 ^ sh * take_bit n v) :: limb) = 2 ^ sh * take_bit n v"
    using l b(1) by (intro sint_of_int_exact) (auto intro: order_trans [of _ 0])
  ultimately show "sint (push_bit sh x) = 2 ^ sh * take_bit n v" by simp
  then show "\<bar>sint (push_bit sh x)\<bar> \<le> 2 ^ 32" using l b(1) by simp
qed

definition load_positions :: "nat list" where
  "load_positions = [0, 32, 56, 80, 104, 128, 160, 184, 208, 232, 255]"

definition load_bounds :: "int list" where
  "load_bounds = [2 ^ 32, 2 ^ 32, 2 ^ 32, 2 ^ 32, 2 ^ 32, 2 ^ 32, 2 ^ 32, 2 ^ 32, 2 ^ 32, 2 ^ 32]"

lemma odd_even_bounds:
  "\<exists>B'. carry_bounds load_bounds odd_even_carries = Some B' \<and>
    list_all (\<lambda>i. 100 * B' ! i \<le> 101 * 2 ^ (width i - 1)) [0, 1, 2, 3, 4, 5, 6, 7, 8, 9]"
  by (simp add: odd_even_carries_def Let_def width_def load_bounds_def)

lemma fe_frombytes_spec:
  assumes "length s = 32"
  shows "fe_bound 101 (fe_frombytes s)" "lval 10 (fe_frombytes s) mod p25519 = (le_val s mod 2 ^ 255) mod p25519"
proof -
  define h where "h = [load_4 s, push_bit 6 (load_3 (drop 4 s)), push_bit 5 (load_3 (drop 7 s)),
            push_bit 3 (load_3 (drop 10 s)), push_bit 2 (load_3 (drop 13 s)), load_4 (drop 16 s),
            push_bit 7 (load_3 (drop 20 s)), push_bit 5 (load_3 (drop 23 s)),
            push_bit 4 (load_3 (drop 26 s)), push_bit 2 (load_3 (drop 29 s) AND 8388607)]"
  define a where "a = (\<lambda>i. load_positions ! i)"
  define piece where "piece = (\<lambda>i. take_bit (a (Suc i) - a i) (drop_bit (a i) (le_val s)))"
  have lh: "length h = 10" by (simp add: h_def)
  have m: "(8388607 :: u64) = mask 23" by (simp add: mask_eq_exp_minus_1)
  have last: "uint (load_3 (drop 29 s) AND 8388607) = take_bit 23 (drop_bit 232 (le_val s))"
  proof -
    have "uint (load_3 (drop 29 s) AND 8388607) = take_bit 23 (uint (load_3 (drop 29 s)))"
      unfolding m by (simp add: take_bit_eq_mask [symmetric] unsigned_take_bit_eq)
    also have "\<dots> = take_bit 23 (drop_bit 232 (le_val s))" using assms by (simp add: uint_load_3)
    finally show ?thesis .
  qed
  have u: "uint (load_4 s) = take_bit 32 (le_val s)" using uint_load_4 [of 0 s] assms by simp
  have s3: "sint (push_bit sh (load_3 (drop k s))) = 2 ^ sh * take_bit 24 (drop_bit (8 * k) (le_val s))"
    "\<bar>sint (push_bit sh (load_3 (drop k s)))\<bar> \<le> 2 ^ 32" if "k + 3 \<le> 32" "sh \<le> 8" for k sh
    using sint_piece [OF uint_load_3 [of k s], of sh] that assms by simp_all
  have s4: "sint (push_bit sh (load_4 (drop k s))) = 2 ^ sh * take_bit 32 (drop_bit (8 * k) (le_val s))"
    "\<bar>sint (push_bit sh (load_4 (drop k s)))\<bar> \<le> 2 ^ 32" if "k + 4 \<le> 32" "sh = 0" for k sh
    using sint_piece [OF uint_load_4 [of k s], of sh] that assms by simp_all
  have hs: "sint (h ! i) = 2 ^ (a i - offset i) * piece i \<and> \<bar>sint (h ! i)\<bar> \<le> 2 ^ 32 \<and> offset i \<le> a i" if "i < 10" for i
  proof -
    have "list_all (\<lambda>i. sint (h ! i) = 2 ^ (a i - offset i) * piece i \<and> \<bar>sint (h ! i)\<bar> \<le> 2 ^ 32 \<and> offset i \<le> a i)
      [0, 1, 2, 3, 4, 5, 6, 7, 8, 9]"
      using sint_piece [OF u, of 0] sint_piece [OF last, of 2] s3 [of 4 6] s3 [of 7 5] s3 [of 10 3] s3 [of 13 2]
        s4 [of 16 0] s3 [of 20 7] s3 [of 23 5] s3 [of 26 4]
      by (simp add: h_def a_def piece_def load_positions_def offset_def del: push_bit_and)
    then show ?thesis using that by (rule list_all_10)
  qed
  have b: "limbs_bounded load_bounds h"
    unfolding limbs_bounded_def list_all2_conv_all_nth
  proof (intro conjI allI impI)
    fix i assume "i < length load_bounds"
    then have i: "i < 10" by (simp add: load_bounds_def)
    have "load_bounds ! i = 2 ^ 32" by (rule list_all_10 [OF _ i]) (simp add: load_bounds_def)
    then show "\<bar>sint (h ! i)\<bar> \<le> load_bounds ! i" using hs [OF i] by presburger
  qed (simp add: lh load_bounds_def)
  obtain B' where B: "carry_bounds load_bounds odd_even_carries = Some B'"
    "list_all (\<lambda>i. 100 * B' ! i \<le> 101 * 2 ^ (width i - 1)) [0, 1, 2, 3, 4, 5, 6, 7, 8, 9]"
    using odd_even_bounds by blast
  have i: "list_all (\<lambda>i. i < 10) odd_even_carries" by (simp add: odd_even_carries_def)
  have e: "fe_frombytes s = map s32_of_limb (foldl fe_carry h odd_even_carries)"
    by (simp add: fe_frombytes_def h_def)
  note c = fe_carried [OF b lh i B, folded e]
  show "fe_bound 101 (fe_frombytes s)" by (rule c) simp
  have w: "weight i * sint (h ! i) = 2 ^ a i * piece i" if "i < 10" for i
  proof -
    have "(2 :: int) ^ a i = 2 ^ offset i * 2 ^ (a i - offset i)"
      using hs [OF that] by (simp add: power_add [symmetric])
    then show ?thesis using hs [OF that] by (simp add: weight_offset)
  qed
  have "wsum weight h = (\<Sum>i<10. 2 ^ a i * piece i)" using w by (simp add: wsum_def lh)
  also have "\<dots> = take_bit (a 10) (le_val s)"
    unfolding piece_def
  proof (rule sum_pieces)
    fix k :: nat assume k: "k < 10"
    have "list_all (\<lambda>k. a k \<le> a (Suc k)) [0, 1, 2, 3, 4, 5, 6, 7, 8, 9]" by (simp add: a_def load_positions_def)
    then show "a k \<le> a (Suc k)" using k by (rule list_all_10)
  qed (simp add: a_def load_positions_def)
  finally show "lval 10 (fe_frombytes s) mod p25519 = (le_val s mod 2 ^ 255) mod p25519"
    using c(2) by (simp add: a_def load_positions_def take_bit_eq_mod)
qed

section \<open>Reduction\<close>

lemma sint_shift: "sint (signed_drop_bit n (x :: s32)) = sint x div 2 ^ n"
  by (simp add: sint_signed_drop_bit_eq drop_bit_eq_div)

lemma sint_s32_add:
  assumes "\<bar>sint (x :: s32)\<bar> \<le> A" "\<bar>sint y\<bar> \<le> B" "A + B < 2 ^ 31"
  shows "sint (x + y) = sint x + sint y"
proof -
  have "sint (of_int (sint x + sint y) :: s32) = sint x + sint y"
    by (rule s32_of_int_exact; use assms in linarith)
  then show ?thesis by simp
qed

lemma fe_bound_220: "fe_bound 220 h \<Longrightarrow> i < 10 \<Longrightarrow> 10 * \<bar>sint (h ! i)\<bar> \<le> 11 * 2 ^ width i"
proof -
  assume "fe_bound 220 h" "i < 10"
  then have "100 * \<bar>sint (h ! i)\<bar> \<le> 220 * 2 ^ (width i - 1)" by (simp add: fe_bound_def)
  then show ?thesis by (auto simp: width_def split: if_splits)
qed

text \<open>The first chain of \<open>fe_tobytes\<close> divides the number, plus a first estimate, by \<open>2^255\<close>.\<close>

lemma quotient_steps:
  assumes h: "fe_bound 220 h" and n: "n \<le> 10" and q0: "\<bar>sint q0\<bar> \<le> 30"
  defines "q \<equiv> foldl (\<lambda>q i. signed_drop_bit (width i) (h ! i + q)) q0 [0..<n]"
  shows "sint q = (lval n h + sint q0) div weight n \<and> \<bar>sint q\<bar> \<le> 30"
  using n unfolding q_def
proof (induction n)
  case 0
  then show ?case using q0 by (simp add: lval_def weight_def)
next
  case (Suc n)
  define r where "r = foldl (\<lambda>q i. signed_drop_bit (width i) (h ! i + q)) q0 [0..<n]"
  have n: "n \<le> 10" using Suc.prems by simp
  have r: "sint r = (lval n h + sint q0) div weight n" "\<bar>sint r\<bar> \<le> 30"
    using Suc.IH [OF n] unfolding r_def [symmetric] by blast+
  have h': "10 * \<bar>sint (h ! n)\<bar> \<le> 11 * 2 ^ width n" using fe_bound_220 [OF h, of n] Suc.prems by simp
  have hb: "\<bar>sint (h ! n)\<bar> \<le> 2 ^ 30" using h' width_cases [of n] by auto
  have s: "sint (h ! n + r) = sint (h ! n) + sint r" using sint_s32_add [OF hb r(2)] by simp
  have w0: "0 < weight n" by (simp add: weight_def)
  have "sint (h ! n) + sint r = (lval (Suc n) h + sint q0) div weight n"
  proof -
    have "lval (Suc n) h + sint q0 = (lval n h + sint q0) + weight n * sint (h ! n)" by (simp add: lval_def)
    then have "(lval (Suc n) h + sint q0) div weight n = (lval n h + sint q0 + weight n * sint (h ! n)) div weight n"
      by (simp add: ac_simps)
    then show ?thesis using w0 by (simp add: r(1))
  qed
  moreover have "weight (Suc n) = weight n * 2 ^ width n" using weight_Suc [of n] by (simp add: mult.commute)
  ultimately have e: "sint (signed_drop_bit (width n) (h ! n + r)) = (lval (Suc n) h + sint q0) div weight (Suc n)"
    using w0 by (simp add: sint_shift s zdiv_zmult2_eq)
  have "\<bar>(sint (h ! n) + sint r) div 2 ^ width n\<bar> \<le> 30"
    using h' r(2) width_cases [of n] by (auto simp: abs_le_iff)
  then have "\<bar>sint (signed_drop_bit (width n) (h ! n + r))\<bar> \<le> 30" by (simp add: sint_shift s)
  with e show ?case by (simp add: r_def)
qed

lemma lval_Suc: "lval (Suc n) x = lval n x + weight n * sint (x ! n)"
  by (simp add: lval_def)

lemma lval_bound_220:
  assumes "fe_bound 220 h"
  shows "n \<le> 10 \<Longrightarrow> \<bar>lval n h\<bar> \<le> 2 * weight n"
proof (induction n)
  case (Suc n)
  define W x where "W = weight n" and "x = sint (h ! n)"
  have W: "0 \<le> W" by (simp add: W_def weight_def)
  have x: "\<bar>x\<bar> \<le> 2 * 2 ^ width n - 2"
    using fe_bound_220 [OF assms, of n] Suc.prems width_cases [of n] by (auto simp: x_def)
  have "\<bar>W * x\<bar> \<le> W * (2 * 2 ^ width n - 2)" unfolding abs_mult using W x by (simp add: mult_left_mono)
  then have "\<bar>W * x\<bar> \<le> 2 * (W * 2 ^ width n) - 2 * W" by (simp add: algebra_simps)
  moreover have "lval (Suc n) h = lval n h + W * x" by (simp add: lval_def W_def x_def)
  moreover have "weight (Suc n) = W * 2 ^ width n" using weight_Suc [of n] by (simp add: W_def mult.commute)
  moreover have "\<bar>lval n h\<bar> \<le> 2 * W" using Suc by (simp add: W_def)
  ultimately show ?case by linarith
qed (simp add: lval_def weight_def)

text \<open>The estimate is good enough: the quotient is the one by the prime.\<close>

lemma estimate_exact:
  fixes H q r L h9 q0 :: int
  assumes "H = (2 ^ 255 - 19) * q + r" "0 \<le> r" "r < 2 ^ 255 - 19" "2 ^ 25 * q0 \<le> 19 * h9 + 2 ^ 24"
    "19 * h9 + 2 ^ 24 < 2 ^ 25 * q0 + 2 ^ 25" "H = L + 2 ^ 230 * h9" "\<bar>L\<bar> \<le> 2 ^ 231" "\<bar>h9\<bar> \<le> 36909875"
  shows "0 \<le> r - 19 * q + q0" "r - 19 * q + q0 < 2 ^ 255"
proof -
  show "0 \<le> r - 19 * q + q0" using assms by simp
  show "r - 19 * q + q0 < 2 ^ 255" using assms by simp
qed

lemma reduction_quotient_spec:
  assumes h: "fe_bound 220 h"
  shows "sint (reduction_quotient h) = lval 10 h div p25519" "\<bar>sint (reduction_quotient h)\<bar> \<le> 30"
proof -
  define q0 where "q0 = signed_drop_bit 25 (19 * h ! 9 + push_bit 24 (1 :: s32))"
  define H L h9 q where "H = lval 10 h" and "L = lval 9 h" and "h9 = sint (h ! 9)" and "q = H div p25519"
  have h9: "\<bar>h9\<bar> \<le> 36909875" using fe_bound_220 [OF h, of 9] by (simp add: h9_def width_def)
  have "19 * h ! 9 + push_bit 24 (1 :: s32) = of_int (19 * h9 + 2 ^ 24)" by (simp add: h9_def push_bit_eq_mult)
  moreover have "sint (of_int (19 * h9 + 2 ^ 24) :: s32) = 19 * h9 + 2 ^ 24"
    by (rule s32_of_int_exact; use h9 in \<open>auto simp: abs_le_iff\<close>)
  ultimately have q0: "sint q0 = (19 * h9 + 2 ^ 24) div 2 ^ 25" by (simp only: q0_def sint_shift)
  have q0b: "\<bar>sint q0\<bar> \<le> 30" unfolding q0 using h9 by auto
  have f: "foldl (\<lambda>q i. signed_drop_bit (width i) (h ! i + q)) q0 [0..<10] = reduction_quotient h"
    by (simp only: reduction_quotient_def q0_def upto_10)
  have "weight 10 = 2 ^ 255" by (simp add: weight_def)
  then have r: "sint (reduction_quotient h) = (H + sint q0) div 2 ^ 255" "\<bar>sint (reduction_quotient h)\<bar> \<le> 30"
    using quotient_steps [OF h order_refl q0b, folded H_def, unfolded f] by (simp only:, blast)
  show "\<bar>sint (reduction_quotient h)\<bar> \<le> 30" by (fact r(2))
  have "weight 9 = 2 ^ 230" by (simp add: weight_def)
  then have HL: "H = L + 2 ^ 230 * h9" using lval_Suc [of 9 h] by (simp add: H_def L_def h9_def)
  have Lb: "\<bar>L\<bar> \<le> 2 ^ 231" using lval_bound_220 [OF h, of 9] by (simp add: L_def weight_def)
  have p: "H = p25519 * q + H mod p25519" "0 \<le> H mod p25519" "H mod p25519 < p25519"
    by (simp_all add: q_def p25519_def)
  have q0l: "2 ^ 25 * sint q0 \<le> 19 * h9 + 2 ^ 24" "19 * h9 + 2 ^ 24 < 2 ^ 25 * sint q0 + 2 ^ 25"
    unfolding q0 using div_floor [of "2 ^ 25" "19 * h9 + 2 ^ 24"] by simp_all
  have "(H + sint q0) div 2 ^ 255 = q"
  proof (rule int_div_pos_eq)
    show "H + sint q0 = 2 ^ 255 * q + (H mod p25519 - 19 * q + sint q0)"
      using p(1) by (simp add: p25519_def)
    show "0 \<le> H mod p25519 - 19 * q + sint q0" "H mod p25519 - 19 * q + sint q0 < 2 ^ 255"
      using estimate_exact [OF p(1) [unfolded p25519_def] p(2,3) [unfolded p25519_def] q0l HL Lb h9]
      by (simp_all add: p25519_def)
  qed
  then show "sint (reduction_quotient h) = lval 10 h div p25519" using r(1) by (simp add: q_def H_def)
qed

text \<open>The second chain carries upwards, rounding down, and drops the last carry.\<close>

lemma remainder_take_bit: "x - push_bit w (signed_drop_bit w x) = take_bit w (x :: s32)" if "w < 32"
proof -
  have "x = push_bit w (signed_drop_bit w x) OR take_bit w x"
    by (rule bit_word_eqI) (use that in \<open>auto simp: bit_simps\<close>)
  moreover have "push_bit w (signed_drop_bit w x) AND take_bit w x = 0"
    by (rule bit_word_eqI) (auto simp: bit_simps)
  ultimately have "x = push_bit w (signed_drop_bit w x) + take_bit w x"
    using disjunctive_add_eq_or [of "push_bit w (signed_drop_bit w x)" "take_bit w x"] by simp
  then show ?thesis by (metis add_diff_cancel_left')
qed

lemma carry_up_step:
  assumes "i + 1 < length x"
  shows "carry_up x i = carry_step x i"
  using assms remainder_take_bit [of "width i" "x ! i"]
  by (simp add: carry_up_def carry_step_eq Let_def width_def list_update_swap)

definition carried_up :: "int \<Rightarrow> nat \<Rightarrow> fe \<Rightarrow> bool" where
  "carried_up v n x \<longleftrightarrow> length x = 10 \<and> lval 10 x = v \<and>
     (\<forall>i<n. 0 \<le> sint (x ! i) \<and> sint (x ! i) < 2 ^ width i) \<and>
     (\<forall>i<10. n \<le> i \<longrightarrow> \<bar>sint (x ! i)\<bar> \<le> 2 ^ 27 + (if i = n then 600 else 0))"

lemma carried_up_step:
  assumes "n < 9" "carried_up v n x"
  shows "carried_up v (Suc n) (carry_up x n)"
proof -
  let ?s = "sint (x ! n)"
  have x: "length x = 10" "lval 10 x = v" "\<bar>?s\<bar> \<le> 2 ^ 27 + 600" "\<bar>sint (x ! (n + 1))\<bar> \<le> 2 ^ 27"
    using assms spec [of "\<lambda>i. i < 10 \<longrightarrow> n \<le> i \<longrightarrow> \<bar>sint (x ! i)\<bar> \<le> 2 ^ 27 + (if i = n then 600 else 0)" n]
      spec [of "\<lambda>i. i < 10 \<longrightarrow> n \<le> i \<longrightarrow> \<bar>sint (x ! i)\<bar> \<le> 2 ^ 27 + (if i = n then 600 else 0)" "n + 1"]
    unfolding carried_up_def by simp_all
  have a: "n + 1 < length x" "\<bar>?s\<bar> < 2 ^ 28" "\<bar>sint (x ! (n + 1))\<bar> < 2 ^ 28" "n + 1 < 10"
    using x assms(1) by auto
  note b = carry_step_nth [OF a(1-3)]
  have d: "\<bar>?s div 2 ^ width n\<bar> \<le> 600" using width_cases [of n] x(3) by auto
  show ?thesis unfolding carried_up_def carry_up_step [OF a(1)]
  proof (intro conjI allI impI)
    show "length (carry_step x n) = 10" using b(1) x(1) by simp
    show "lval 10 (carry_step x n) = v" using carry_step_lval [OF a] x(2) by simp
    show "0 \<le> sint (carry_step x n ! i)" "sint (carry_step x n ! i) < 2 ^ width i" if "i < Suc n" for i
      using b(2) b(4) [of i] assms(2) that by (cases "i = n"; force simp: carried_up_def)+
    show "\<bar>sint (carry_step x n ! i)\<bar> \<le> 2 ^ 27 + (if i = Suc n then 600 else 0)" if "i < 10" "Suc n \<le> i" for i
    proof (cases "i = Suc n")
      case True
      then show ?thesis using b(3) d x(4) by simp
    next
      case False
      then have "n \<noteq> i" "n \<le> i" "carry_step x n ! i = x ! i" using b(4) [of i] that by auto
      then show ?thesis using assms(2) that False by (auto simp: carried_up_def)
    qed
  qed
qed

lemma s32_canonical_sum:
  assumes "s32_canonical x"
  shows "0 \<le> lval 10 x" "lval 10 x < 2 ^ 255"
    "i < 10 \<Longrightarrow> take_bit (width i) (drop_bit (offset i) (lval 10 x)) = sint (x ! i)"
proof -
  note p = pieces_of_sum [of offset 10 width "\<lambda>i. sint (x ! i)", folded weight_offset lval_def]
  have o: "offset 0 = 0" "\<And>k. k < 10 \<Longrightarrow> offset (Suc k) = offset k + width k" by (simp_all only: offset_Suc) (simp add: offset_def)
  have b: "\<And>k. k < 10 \<Longrightarrow> 0 \<le> sint (x ! k) \<and> sint (x ! k) < 2 ^ width k" using assms by (simp add: s32_canonical_def)
  show "0 \<le> lval 10 x" "i < 10 \<Longrightarrow> take_bit (width i) (drop_bit (offset i) (lval 10 x)) = sint (x ! i)"
    using p(1,3) [OF o b] by (simp_all add: lval_def)
  show "lval 10 x < 2 ^ 255" using p(2) [OF o b] by (simp add: weight_def lval_def)
qed

lemma fe_reduce_spec:
  assumes h: "fe_bound 220 h"
  shows "s32_canonical (fe_reduce h)" "lval 10 (fe_reduce h) = lval 10 h mod p25519"
proof -
  define q x y where "q = reduction_quotient h" and "x = h[0 := h ! 0 + 19 * q]"
    and "y = foldl carry_up x [0..<9]"
  note q = reduction_quotient_spec [OF h, folded q_def]
  have l: "length h = 10" "length x = 10" using fe_bound_length [OF h] by (simp_all add: x_def)
  have hb: "\<bar>sint (h ! i)\<bar> \<le> 2 ^ 27" if "i < 10" for i
    using fe_bound_220 [OF h that] width_cases [of i] by auto
  have "sint (of_int (19 * sint q) :: s32) = 19 * sint q" by (rule s32_of_int_exact; use q(2) in \<open>auto simp: abs_le_iff\<close>)
  then have q19: "sint (19 * q) = 19 * sint q" by simp
  have x0: "sint (h ! 0 + 19 * q) = sint (h ! 0) + 19 * sint q"
    using sint_s32_add [of "h ! 0" "2 ^ 27" "19 * q" 600] hb [of 0] q(2) q19 by (simp add: abs_le_iff)
  have ne: "h \<noteq> []" using l by auto
  have "lval 10 x = lval 10 h + 19 * sint q"
    unfolding lval_def sum_10 using l ne by (simp add: x_def x0 weight_def)
  then have xv: "lval 10 x = lval 10 h mod p25519 + 2 ^ 255 * sint q"
    using mult_div_mod_eq [of p25519 "lval 10 h"] unfolding q(1) by (simp add: p25519_def)
  have "carried_up (lval 10 x) 0 x"
    unfolding carried_up_def
  proof (intro conjI allI impI)
    show "\<bar>sint (x ! i)\<bar> \<le> 2 ^ 27 + (if i = 0 then 600 else 0)" if "i < 10" for i
    proof (cases "i = 0")
      case True
      then show ?thesis using hb [of 0] q(2) x0 ne by (simp add: x_def)
    next
      case False
      then show ?thesis using hb [OF that] by (simp add: x_def)
    qed
  qed (simp_all add: l)
  then have y: "carried_up (lval 10 x) 9 y"
    unfolding y_def by (intro foldl_upt_invariant [where I = "carried_up (lval 10 x)"] carried_up_step)
  have ly: "length y = 10" "lval 10 y = lval 10 x" using y by (simp_all add: carried_up_def)
  have e: "fe_reduce h = y[9 := take_bit 25 (y ! 9)]"
    unfolding fe_reduce_def Let_def q_def [symmetric] x_def [symmetric] upto_9 [symmetric] y_def [symmetric]
    by (simp add: remainder_take_bit)
  have t: "sint (take_bit 25 (y ! 9)) = sint (y ! 9) mod 2 ^ 25" using sint_take_bit_width [of 9] by (simp add: width_def)
  show c: "s32_canonical (fe_reduce h)"
    unfolding s32_canonical_def
  proof (intro conjI allI impI)
    show "0 \<le> sint (fe_reduce h ! i)" "sint (fe_reduce h ! i) < 2 ^ width i" if "i < 10" for i
    proof -
      have "0 \<le> sint (fe_reduce h ! i) \<and> sint (fe_reduce h ! i) < 2 ^ width i"
      proof (cases "i = 9")
        case True
        then show ?thesis using ly(1) by (simp add: e t width_def)
      next
        case False
        then have "i < 9" using that by simp
        then show ?thesis using y False by (simp add: e carried_up_def)
      qed
      then show "0 \<le> sint (fe_reduce h ! i)" "sint (fe_reduce h ! i) < 2 ^ width i" by auto
    qed
  qed (simp add: e ly(1))
  have "lval 10 (fe_reduce h) = lval 10 y - 2 ^ 255 * (sint (y ! 9) div 2 ^ 25)"
    unfolding lval_def sum_10 e using ly(1) minus_div_mult_eq_mod [of "sint (y ! 9)" "2 ^ 25"]
    by (simp add: t weight_def)
  then have "lval 10 (fe_reduce h) mod 2 ^ 255 = (lval 10 h mod p25519) mod 2 ^ 255"
    unfolding ly(2) xv by (simp add: mod_eq_dvd_iff)
  moreover have "0 \<le> lval 10 h mod p25519" "lval 10 h mod p25519 < 2 ^ 255"
    using pos_mod_bound [of p25519 "lval 10 h"] by (simp_all add: p25519_def)
  ultimately show "lval 10 (fe_reduce h) = lval 10 h mod p25519"
    using s32_canonical_sum(1,2) [OF c] by simp
qed

section \<open>Writing bytes\<close>

lemma canonical_piece: "s32_canonical h \<Longrightarrow> i < 10 \<Longrightarrow> is_piece (lval 10 h) (offset i) (width i) (h ! i)"
  by (rule is_pieceI) (simp only: s32_canonical_sum(3), simp add: width_def)

lemma canonical_last:
  assumes "s32_canonical h"
  shows "is_piece (lval 10 h) 230 26 (h ! 9)"
proof -
  have "take_bit 255 (lval 10 h) = lval 10 h"
    using s32_canonical_sum(1,2) [OF assms] by (simp add: take_bit_int_eq_self)
  then have "\<not> bit (lval 10 h) 255" by (metis bit_take_bit_iff less_irrefl)
  moreover have p: "is_piece (lval 10 h) 230 25 (h ! 9)"
    using canonical_piece [OF assms, of 9] by (simp add: offset_def width_def)
  ultimately have "bit (h ! 9) n \<longleftrightarrow> n < 26 \<and> bit (lval 10 h) (230 + n)" for n
    unfolding is_piece_bit [OF p] by (cases "n = 25") auto
  then show ?thesis by (simp add: is_piece_def)
qed

lemma limb_bytes_spec:
  assumes "s32_canonical h"
  shows "limb_bytes h = map (vbyte (lval 10 h)) [0..<32]"
proof -
  note p = canonical_piece [OF assms]
  show ?thesis
    unfolding limb_bytes_def upto_32 list.map list.inject
    by (intro conjI refl; (rule byte_inside [OF canonical_last [OF assms]] | rule byte_across [OF p p] | rule byte_inside [OF p] |
        rule byte_start [OF p]); simp add: offset_def width_def)
qed

lemma fe_tobytes_spec:
  assumes "fe_bound 220 h"
  shows "length (fe_tobytes h) = 32" "le_val (fe_tobytes h) = lval 10 h mod p25519"
proof -
  note r = fe_reduce_spec [OF assms]
  have e: "fe_tobytes h = map (vbyte (lval 10 h mod p25519)) [0..<32]"
    by (simp add: fe_tobytes_def limb_bytes_spec [OF r(1)] r(2))
  show "length (fe_tobytes h) = 32" by (simp add: e)
  have "0 \<le> lval 10 h mod p25519" "lval 10 h mod p25519 < 2 ^ 256"
    using pos_mod_bound [of p25519 "lval 10 h"] by (simp_all add: p25519_def)
  then show "le_val (fe_tobytes h) = lval 10 h mod p25519" unfolding e le_val_vbytes by (simp add: take_bit_int_eq_self)
qed

section \<open>Selection, sign and zero\<close>

lemma word_mask: "x AND - 1 = (x :: s32)" "x AND 0 = (0 :: s32)" "x XOR (x XOR y) = y" "y XOR (x XOR y) = x"
  by (simp_all flip: xor.assoc) (simp add: xor.assoc xor.commute [of y])

lemma fe_cmov_spec:
  assumes "length f = 10" "length g = 10"
  shows "fe_cmov f g 0 = f" "fe_cmov f g 1 = g"
  using assms by (simp_all add: fe_cmov_def word_mask list_eq_iff_nth_eq)

lemma fe_cswap_spec:
  assumes "length f = 10" "length g = 10"
  shows "fe_cswap f g 0 = (f, g)" "fe_cswap f g 1 = (g, f)"
  using assms by (simp_all add: fe_cswap_def Let_def word_mask list_eq_iff_nth_eq)

lemma fe_copy_spec: "length f = 10 \<Longrightarrow> fe_copy f = f"
  by (simp add: fe_copy_def list_eq_iff_nth_eq)

lemma fe_mul121666_spec:
  assumes f: "fe_bound 220 f"
  shows "fe_bound 101 (fe_mul121666 f)" "lval 10 (fe_mul121666 f) mod p25519 = (121666 * lval 10 f) mod p25519"
proof -
  define h where "h = map (\<lambda>i. limb_of_s32 (f ! i) * 121666) [0..<10]"
  define B :: "int list" where "B = [33 * 2 ^ 38, 33 * 2 ^ 38, 33 * 2 ^ 38, 33 * 2 ^ 38, 33 * 2 ^ 38,
     33 * 2 ^ 38, 33 * 2 ^ 38, 33 * 2 ^ 38, 33 * 2 ^ 38, 33 * 2 ^ 38]"
  have lh: "length h = 10" and lB: "length B = 10" by (simp_all add: h_def B_def)
  have s: "sint (h ! i) = 121666 * sint (f ! i)" "\<bar>sint (h ! i)\<bar> \<le> B ! i" if "i < 10" for i
  proof -
    have b: "\<bar>121666 * sint (f ! i)\<bar> \<le> 33 * 2 ^ 38"
      using fe_bound_220 [OF f that] by (auto simp: width_def split: if_splits)
    have "h ! i = of_int (121666 * sint (f ! i))" using that by (simp add: h_def limb_of_s32_sint)
    moreover have "sint (of_int (121666 * sint (f ! i)) :: limb) = 121666 * sint (f ! i)"
      by (rule sint_of_int_exact; use b in \<open>simp add: abs_le_iff\<close>)
    ultimately show v: "sint (h ! i) = 121666 * sint (f ! i)" by simp
    have "B ! i = 33 * 2 ^ 38" by (rule list_all_10 [OF _ that]) (simp add: B_def)
    then show "\<bar>sint (h ! i)\<bar> \<le> B ! i" using b v by simp
  qed
  have b: "limbs_bounded B h"
    using s(2) lh lB by (simp add: limbs_bounded_def list_all2_conv_all_nth)
  have "\<exists>B'. carry_bounds B odd_even_carries = Some B' \<and>
      list_all (\<lambda>i. 100 * B' ! i \<le> 101 * 2 ^ (width i - 1)) [0, 1, 2, 3, 4, 5, 6, 7, 8, 9]"
    by (simp add: odd_even_carries_def Let_def width_def B_def)
  then obtain B' where B: "carry_bounds B odd_even_carries = Some B'"
    "list_all (\<lambda>i. 100 * B' ! i \<le> 101 * 2 ^ (width i - 1)) [0, 1, 2, 3, 4, 5, 6, 7, 8, 9]" by blast
  have i: "list_all (\<lambda>i. i < 10) odd_even_carries" by (simp add: odd_even_carries_def)
  have e: "fe_mul121666 f = map s32_of_limb (foldl fe_carry h odd_even_carries)"
    by (simp add: fe_mul121666_def h_def)
  note c = fe_carried [OF b lh i B, folded e]
  show "fe_bound 101 (fe_mul121666 f)" by (rule c) simp
  have "wsum weight h = 121666 * lval 10 f" by (simp add: wsum_def lh lval_def s sum_distrib_left mult.left_commute)
  then show "lval 10 (fe_mul121666 f) mod p25519 = (121666 * lval 10 f) mod p25519" using c(2) by simp
qed

lemma le_val_zero_iff: "le_val s = 0 \<longleftrightarrow> (\<forall>b\<in>set s. b = 0)"
proof (induction s)
  case (Cons b s)
  have "0 \<le> le_val s" unfolding le_val_def by (induction s) simp_all
  then show ?case using Cons by (auto simp: le_val_def add_nonneg_eq_0_iff uint_0_iff)
qed (simp add: le_val_def)

lemma fold_or_zero: "foldl (\<lambda>r i. r OR f i) x is = (0 :: byte) \<longleftrightarrow> x = 0 \<and> (\<forall>i\<in>set is. f i = 0)"
proof (induction "is" arbitrary: x)
  case (Cons i "is")
  have "x OR y = 0 \<longleftrightarrow> x = 0 \<and> y = (0 :: byte)" for x y by (simp add: bit_eq_iff bit_or_iff) blast
  then show ?case using Cons by auto
qed simp

lemma fe_isnonzero_spec:
  assumes "fe_bound 220 f"
  shows "fe_isnonzero f = (if lval 10 f mod p25519 = 0 then 0 else 1)"
proof -
  note t = fe_tobytes_spec [OF assms]
  have "foldl (\<lambda>r i. r OR fe_tobytes f ! i) (fe_tobytes f ! 0) [1..<32] = 0 \<longleftrightarrow> (\<forall>i<32. fe_tobytes f ! i = 0)"
    unfolding fold_or_zero by (auto simp: Ball_def) (metis One_nat_def less_one linorder_not_le)
  also have "\<dots> \<longleftrightarrow> lval 10 f mod p25519 = 0"
    unfolding t(2) [symmetric] le_val_zero_iff by (auto simp: all_set_conv_all_nth t(1))
  finally show ?thesis by (simp add: fe_isnonzero_def)
qed

lemma fe_isnegative_spec:
  assumes "fe_bound 220 f"
  shows "fe_isnegative f = (if odd (lval 10 f mod p25519) then 1 else 0)"
proof -
  note t = fe_tobytes_spec [OF assms]
  have "odd (le_val (fe_tobytes f)) \<longleftrightarrow> odd (fe_tobytes f ! 0)"
    using bit_le_val_byte [of 0 "fe_tobytes f" 0] t(1) by (simp add: bit_0)
  moreover have "(ucast b :: s32) AND 1 = (if odd b then 1 else 0)" for b :: byte
    by (rule bit_word_eqI) (auto simp: bit_simps bit_1_iff simp flip: bit_0 intro: gr0I)
  ultimately show ?thesis
    unfolding t(2) by (simp add: fe_isnegative_def)
qed

section \<open>Properties\<close>

text \<open>
  C27 Multiplication in \<open>fe.c\<close>: for operands within the bounds its comments state, \<open>1.65 * 2^26\<close> and
  \<open>1.65 * 2^25\<close> in turn, \<open>fe_mul\<close>, \<open>fe_sq\<close> and \<open>fe_sq2\<close> compute what they compute over the integers when
  every multiple, product, sum and carry is tested for overflow of its 32 or 64 bits, and no test fails;
  the limbs of the results are within \<open>1.01 * 2^25\<close> and \<open>1.01 * 2^24\<close>, and the results are the product,
  the square and twice the square modulo \<open>2^255 - 19\<close>.
\<close>

theorem fe_products_mod_prime:
  assumes "fe_bound 330 f" "fe_bound 330 g"
  shows "checked_mul (map sint f) (map sint g) = Some (map sint (fe_mul f g)) \<and>
    checked_square 1 (map sint f) = Some (map sint (fe_sq f)) \<and>
    checked_square 2 (map sint f) = Some (map sint (fe_sq2 f)) \<and>
    fe_bound 101 (fe_mul f g) \<and> lval 10 (fe_mul f g) mod p25519 = (lval 10 f * lval 10 g) mod p25519 \<and>
    fe_sq f = fe_mul f f \<and>
    fe_bound 101 (fe_sq2 f) \<and> lval 10 (fe_sq2 f) mod p25519 = (2 * lval 10 f ^ 2) mod p25519"
  using fe_mul_spec [OF assms] fe_sq_mul [OF assms(1)] fe_sq2_spec [OF assms(1)]
    checked_mul_exact [OF assms] checked_square_exact [OF assms(1)] by blast

theorem fe_products_mod_prime_witness:
  "fe_bound 101 (fe_mul (map (\<lambda>i. if even i then 110729625 else - 55364812) [0..<10]) fe_1) \<and>
   checked_mul (map sint (map (\<lambda>i. if even i then 110729625 else - 55364812) [0..<10] :: fe)) (map sint fe_1) =
     Some (map sint (fe_mul (map (\<lambda>i. if even i then 110729625 else - 55364812) [0..<10]) fe_1)) \<and>
   lval 10 (fe_sq2 (map (\<lambda>i. if even i then 110729625 else - 55364812) [0..<10])) mod p25519 =
     (2 * lval 10 (map (\<lambda>i. if even i then 110729625 else - 55364812) [0..<10] :: fe) ^ 2) mod p25519"
proof -
  have "fe_bound 330 (map (\<lambda>i. if even i then 110729625 else - 55364812) [0..<10])"
    by (simp add: fe_bound_def width_def)
  moreover have "fe_bound 330 fe_1" using fe_bound_mono [OF fe_1_spec(1)] by simp
  ultimately show ?thesis using fe_products_mod_prime by blast
qed

text \<open>
  C28 Encoding of field elements: \<open>fe_tobytes\<close>, which takes a quotient from an estimate and never
  compares or divides, writes 32 bytes of the one representative below the prime of any element
  with limbs up to \<open>1.1 * 2^26\<close> and \<open>1.1 * 2^25\<close>; and \<open>fe_frombytes\<close> reads it back, so that
  what it returns is congruent to the element written.
\<close>

theorem fe_encoding_canonical:
  assumes "fe_bound 220 h"
  shows "length (fe_tobytes h) = 32 \<and> le_val (fe_tobytes h) = lval 10 h mod p25519 \<and>
    fe_bound 101 (fe_frombytes (fe_tobytes h)) \<and>
    lval 10 (fe_frombytes (fe_tobytes h)) mod p25519 = lval 10 h mod p25519"
proof -
  note t = fe_tobytes_spec [OF assms]
  have "le_val (fe_tobytes h) mod 2 ^ 255 = le_val (fe_tobytes h)"
    unfolding t(2) using pos_mod_bound [of p25519 "lval 10 h"] by (simp add: p25519_def)
  then show ?thesis using t fe_frombytes_spec [OF t(1)] by simp
qed

theorem fe_encoding_canonical_witness:
  "le_val (fe_tobytes (replicate 10 (- 36909875))) = lval 10 (replicate 10 (- 36909875) :: fe) mod p25519"
proof -
  have "fe_bound 220 (replicate 10 (- 36909875))" by (simp add: fe_bound_def width_def)
  from fe_encoding_canonical [OF this] show ?thesis by blast
qed

end
