(* ===== verification/EdGroup.thy ===== *)
theory EdGroup
  imports EdTable
begin

text \<open>
  \<open>lib/ed25519/src/ge.c\<close>: the group of the curve \<open>-x^2 + y^2 = 1 + d x^2 y^2\<close> in four representations,
  and the encoding and decoding of points.  The lemmas relate every operation on limbs to formulas on
  integers modulo the prime, show that these are the addition law of the curve, and that limbs stay
  within the bounds the field operations need.  What the output parameters hold at the start of a
  function is never used; they are the results here.
\<close>

section \<open>Addition\<close>

definition ge_add :: "ge_p3 \<Rightarrow> ge_cached \<Rightarrow> ge_p1p1" where
  "ge_add p q =
     (let X = fe_add (p3_Y p) (p3_X p);
          Y = fe_sub (p3_Y p) (p3_X p);
          Z = fe_mul X (YplusX q);
          Y = fe_mul Y (YminusX q);
          T = fe_mul (T2d q) (p3_T p);
          X = fe_mul (p3_Z p) (ca_Z q);
          t0 = fe_add X X;
          X = fe_sub Z Y;
          Y = fe_add Z Y;
          Z = fe_add t0 T;
          T = fe_sub t0 T
      in \<lparr>p1_X = X, p1_Y = Y, p1_Z = Z, p1_T = T\<rparr>)"

definition ge_sub :: "ge_p3 \<Rightarrow> ge_cached \<Rightarrow> ge_p1p1" where
  "ge_sub p q =
     (let X = fe_add (p3_Y p) (p3_X p);
          Y = fe_sub (p3_Y p) (p3_X p);
          Z = fe_mul X (YminusX q);
          Y = fe_mul Y (YplusX q);
          T = fe_mul (T2d q) (p3_T p);
          X = fe_mul (p3_Z p) (ca_Z q);
          t0 = fe_add X X;
          X = fe_sub Z Y;
          Y = fe_add Z Y;
          Z = fe_sub t0 T;
          T = fe_add t0 T
      in \<lparr>p1_X = X, p1_Y = Y, p1_Z = Z, p1_T = T\<rparr>)"

definition ge_madd :: "ge_p3 \<Rightarrow> ge_precomp \<Rightarrow> ge_p1p1" where
  "ge_madd p q =
     (let X = fe_add (p3_Y p) (p3_X p);
          Y = fe_sub (p3_Y p) (p3_X p);
          Z = fe_mul X (yplusx q);
          Y = fe_mul Y (yminusx q);
          T = fe_mul (xy2d q) (p3_T p);
          t0 = fe_add (p3_Z p) (p3_Z p);
          X = fe_sub Z Y;
          Y = fe_add Z Y;
          Z = fe_add t0 T;
          T = fe_sub t0 T
      in \<lparr>p1_X = X, p1_Y = Y, p1_Z = Z, p1_T = T\<rparr>)"

definition ge_msub :: "ge_p3 \<Rightarrow> ge_precomp \<Rightarrow> ge_p1p1" where
  "ge_msub p q =
     (let X = fe_add (p3_Y p) (p3_X p);
          Y = fe_sub (p3_Y p) (p3_X p);
          Z = fe_mul X (yminusx q);
          Y = fe_mul Y (yplusx q);
          T = fe_mul (xy2d q) (p3_T p);
          t0 = fe_add (p3_Z p) (p3_Z p);
          X = fe_sub Z Y;
          Y = fe_add Z Y;
          Z = fe_sub t0 T;
          T = fe_add t0 T
      in \<lparr>p1_X = X, p1_Y = Y, p1_Z = Z, p1_T = T\<rparr>)"

definition ge_p1p1_to_p2 :: "ge_p1p1 \<Rightarrow> ge_p2" where
  "ge_p1p1_to_p2 p =
     \<lparr>p2_X = fe_mul (p1_X p) (p1_T p), p2_Y = fe_mul (p1_Y p) (p1_Z p), p2_Z = fe_mul (p1_Z p) (p1_T p)\<rparr>"

definition ge_p1p1_to_p3 :: "ge_p1p1 \<Rightarrow> ge_p3" where
  "ge_p1p1_to_p3 p =
     \<lparr>p3_X = fe_mul (p1_X p) (p1_T p), p3_Y = fe_mul (p1_Y p) (p1_Z p), p3_Z = fe_mul (p1_Z p) (p1_T p),
      p3_T = fe_mul (p1_X p) (p1_Y p)\<rparr>"

definition ge_p2_0 :: ge_p2 where
  "ge_p2_0 = \<lparr>p2_X = fe_0, p2_Y = fe_1, p2_Z = fe_1\<rparr>"

definition ge_p2_dbl :: "ge_p2 \<Rightarrow> ge_p1p1" where
  "ge_p2_dbl p =
     (let X = fe_sq (p2_X p);
          Z = fe_sq (p2_Y p);
          T = fe_sq2 (p2_Z p);
          Y = fe_add (p2_X p) (p2_Y p);
          t0 = fe_sq Y;
          Y = fe_add Z X;
          Z = fe_sub Z X;
          X = fe_sub t0 Y;
          T = fe_sub T Z
      in \<lparr>p1_X = X, p1_Y = Y, p1_Z = Z, p1_T = T\<rparr>)"

definition ge_p3_0 :: ge_p3 where
  "ge_p3_0 = \<lparr>p3_X = fe_0, p3_Y = fe_1, p3_Z = fe_1, p3_T = fe_0\<rparr>"

definition ge_p3_to_p2 :: "ge_p3 \<Rightarrow> ge_p2" where
  "ge_p3_to_p2 p = \<lparr>p2_X = fe_copy (p3_X p), p2_Y = fe_copy (p3_Y p), p2_Z = fe_copy (p3_Z p)\<rparr>"

definition ge_p3_dbl :: "ge_p3 \<Rightarrow> ge_p1p1" where
  "ge_p3_dbl p = (let q = ge_p3_to_p2 p in ge_p2_dbl q)"

text \<open>The constants \<open>d\<close>, \<open>2d\<close> and a square root of \<open>-1\<close>.\<close>

definition fe_d :: fe where
  "fe_d = [- 10913610, 13857413, - 15372611, 6949391, 114729, - 8787816, - 6275908, - 3247719, - 18696448,
     - 12055116]"

definition d2 :: fe where
  "d2 = [- 21827239, - 5839606, - 30745221, 13898782, 229458, 15978800, - 12551817, - 6495438, 29715968,
     9444199]"

definition sqrtm1 :: fe where
  "sqrtm1 = [- 32595792, - 7943725, 9377950, 3500415, 12389472, - 272473, - 25146209, - 2005654, 326686,
     11406482]"

definition ge_p3_to_cached :: "ge_p3 \<Rightarrow> ge_cached" where
  "ge_p3_to_cached p =
     \<lparr>YplusX = fe_add (p3_Y p) (p3_X p), YminusX = fe_sub (p3_Y p) (p3_X p), ca_Z = fe_copy (p3_Z p),
      T2d = fe_mul (p3_T p) d2\<rparr>"

section \<open>Encoding\<close>

definition ge_tobytes :: "ge_p2 \<Rightarrow> bytes" where
  "ge_tobytes h =
     (let recip = fe_invert (p2_Z h);
          x = fe_mul (p2_X h) recip;
          y = fe_mul (p2_Y h) recip;
          s = fe_tobytes y
      in s[31 := s ! 31 XOR ucast (push_bit 7 (fe_isnegative x))])"

definition ge_p3_tobytes :: "ge_p3 \<Rightarrow> bytes" where
  "ge_p3_tobytes h =
     (let recip = fe_invert (p3_Z h);
          x = fe_mul (p3_X h) recip;
          y = fe_mul (p3_Y h) recip;
          s = fe_tobytes y
      in s[31 := s ! 31 XOR ucast (push_bit 7 (fe_isnegative x))])"

text \<open>The return value \<open>-1\<close> is \<open>None\<close>.\<close>

definition ge_frombytes_negate_vartime :: "bytes \<Rightarrow> ge_p3 option" where
  "ge_frombytes_negate_vartime s =
     (let Y = fe_frombytes s;
          Z = fe_1;
          u = fe_sq Y;
          v = fe_mul u fe_d;
          u = fe_sub u Z;
          v = fe_add v Z;
          v3 = fe_sq v;
          v3 = fe_mul v3 v;
          X = fe_sq v3;
          X = fe_mul X v;
          X = fe_mul X u;
          X = fe_pow22523 X;
          X = fe_mul X v3;
          X = fe_mul X u;
          vxx = fe_sq X;
          vxx = fe_mul vxx v;
          check = fe_sub vxx u;
          root = (if fe_isnonzero check \<noteq> 0 then
                    let check = fe_add vxx u
                    in if fe_isnonzero check \<noteq> 0 then None else Some (fe_mul X sqrtm1)
                  else Some X)
      in case root of
           None \<Rightarrow> None
         | Some X \<Rightarrow>
             let X = (if fe_isnegative X = ucast (drop_bit 7 (s ! 31)) then fe_neg X else X)
             in Some \<lparr>p3_X = X, p3_Y = Y, p3_Z = Z, p3_T = fe_mul X Y\<rparr>)"

section \<open>Points over the integers\<close>

text \<open>
  Formulas of RFC 8032 on extended coordinates \<open>(X, Y, Z, T)\<close> with \<open>x = X/Z\<close>, \<open>y = Y/Z\<close>, \<open>xy = T/Z\<close>.  The
  coordinates of a double are the negatives of those in the RFC, which is the same point.
\<close>

type_synonym ext = "int \<times> int \<times> int \<times> int"

definition edwards_d :: int where
  "edwards_d = 37095705934669439343138083508754565189542113879843219016388785533085940283555"

definition ext_zero :: ext where
  "ext_zero = (0, 1, 1, 0)"

definition ext_neg :: "ext \<Rightarrow> ext" where
  "ext_neg = (\<lambda>(X, Y, Z, T). (- X mod p25519, Y, Z, - T mod p25519))"

definition ext_add :: "ext \<Rightarrow> ext \<Rightarrow> ext" where
  "ext_add = (\<lambda>(X1, Y1, Z1, T1) (X2, Y2, Z2, T2).
     let A = (Y1 - X1) * (Y2 - X2);
         B = (Y1 + X1) * (Y2 + X2);
         C = T2 * (2 * edwards_d) * T1;
         D = 2 * (Z1 * Z2);
         E = B - A; F = D - C; G = D + C; H = B + A
     in (E * F mod p25519, H * G mod p25519, G * F mod p25519, E * H mod p25519))"

definition ext_double :: "ext \<Rightarrow> ext" where
  "ext_double = (\<lambda>(X, Y, Z, T).
     let E = (X + Y) * (X + Y) - (Y * Y + X * X);
         H = Y * Y + X * X;
         G = Y * Y - X * X;
         F = 2 * Z ^ 2 - G
     in (E * F mod p25519, H * G mod p25519, G * F mod p25519, E * H mod p25519))"

section \<open>Operations on limbs and formulas on integers\<close>

text \<open>\<open>res f\<close> is the field element that limbs stand for.\<close>

definition res :: "fe \<Rightarrow> int" where
  "res f = lval 10 f mod p25519"

definition ext_of :: "ge_p3 \<Rightarrow> ext" where
  "ext_of p = (res (p3_X p), res (p3_Y p), res (p3_Z p), res (p3_T p))"

definition p3_ok :: "ge_p3 \<Rightarrow> bool" where
  "p3_ok p \<longleftrightarrow> fe_bound 101 (p3_X p) \<and> fe_bound 101 (p3_Y p) \<and> fe_bound 101 (p3_Z p) \<and> fe_bound 101 (p3_T p)"

definition p2_ok :: "ge_p2 \<Rightarrow> bool" where
  "p2_ok p \<longleftrightarrow> fe_bound 101 (p2_X p) \<and> fe_bound 101 (p2_Y p) \<and> fe_bound 101 (p2_Z p)"

definition p1_ok :: "ge_p1p1 \<Rightarrow> bool" where
  "p1_ok p \<longleftrightarrow> fe_bound 330 (p1_X p) \<and> fe_bound 330 (p1_Y p) \<and> fe_bound 330 (p1_Z p) \<and> fe_bound 330 (p1_T p)"

text \<open>A cached or precomputed form of the point \<open>(X, Y, Z, T)\<close>.\<close>

definition cached_as :: "ge_cached \<Rightarrow> ext \<Rightarrow> bool" where
  "cached_as c = (\<lambda>(X, Y, Z, T).
     fe_bound 330 (YplusX c) \<and> fe_bound 330 (YminusX c) \<and> fe_bound 330 (ca_Z c) \<and> fe_bound 330 (T2d c) \<and>
     res (YplusX c) = (Y + X) mod p25519 \<and> res (YminusX c) = (Y - X) mod p25519 \<and>
     res (ca_Z c) = Z mod p25519 \<and> res (T2d c) = T * (2 * edwards_d) mod p25519)"

definition precomp_as :: "ge_precomp \<Rightarrow> ext \<Rightarrow> bool" where
  "precomp_as c = (\<lambda>(X, Y, Z, T).
     fe_bound 330 (yplusx c) \<and> fe_bound 330 (yminusx c) \<and> fe_bound 330 (xy2d c) \<and>
     res (yplusx c) = (Y + X) mod p25519 \<and> res (yminusx c) = (Y - X) mod p25519 \<and>
     Z = 1 \<and> res (xy2d c) = T * (2 * edwards_d) mod p25519)"

text \<open>A completed point and the extended one it stands for.\<close>

definition ext_of_p1 :: "ge_p1p1 \<Rightarrow> ext" where
  "ext_of_p1 p =
     (res (p1_X p) * res (p1_T p) mod p25519, res (p1_Y p) * res (p1_Z p) mod p25519,
      res (p1_Z p) * res (p1_T p) mod p25519, res (p1_X p) * res (p1_Y p) mod p25519)"

definition p2_of :: "ge_p2 \<Rightarrow> ext \<Rightarrow> bool" where
  "p2_of p e \<longleftrightarrow> p2_ok p \<and> (\<exists>T. e = (res (p2_X p), res (p2_Y p), res (p2_Z p), T))"

definition p3_of :: "ge_p3 \<Rightarrow> ext \<Rightarrow> bool" where
  "p3_of p e \<longleftrightarrow> p3_ok p \<and> e = ext_of p"

lemma res_add:
  assumes "fe_bound a f" "fe_bound b g" "a + b \<le> c" "c \<le> 6000"
  shows "fe_bound c (fe_add f g)" "res (fe_add f g) = (res f + res g) mod p25519"
proof -
  have "a + b \<le> 6000" using assms(3,4) by simp
  note s = fe_add_spec [OF assms(1,2) this]
  show "fe_bound c (fe_add f g)" by (rule fe_bound_mono [OF s(1) assms(3)])
  show "res (fe_add f g) = (res f + res g) mod p25519" by (simp add: res_def s(2) mod_simps)
qed

lemma res_sub:
  assumes "fe_bound a f" "fe_bound b g" "a + b \<le> c" "c \<le> 6000"
  shows "fe_bound c (fe_sub f g)" "res (fe_sub f g) = (res f - res g) mod p25519"
proof -
  have "a + b \<le> 6000" using assms(3,4) by simp
  note s = fe_sub_spec [OF assms(1,2) this]
  show "fe_bound c (fe_sub f g)" by (rule fe_bound_mono [OF s(1) assms(3)])
  show "res (fe_sub f g) = (res f - res g) mod p25519" by (simp add: res_def s(2) mod_simps)
qed

lemma res_neg:
  assumes "fe_bound b f" "b \<le> 6000"
  shows "fe_bound b (fe_neg f)" "res (fe_neg f) = - res f mod p25519"
  using fe_neg_spec [OF assms] by (simp_all add: res_def mod_simps)

lemma res_mul:
  assumes "fe_bound 330 f" "fe_bound 330 g"
  shows "fe_bound 101 (fe_mul f g)" "res (fe_mul f g) = res f * res g mod p25519"
  using fe_mul_spec [OF assms] by (simp_all add: res_def mod_simps)

lemma res_sq:
  assumes "fe_bound 330 f"
  shows "fe_bound 101 (fe_sq f)" "res (fe_sq f) = res f * res f mod p25519"
  using res_mul [OF assms assms] by (simp_all add: fe_sq_mul [OF assms])

lemma res_sq2:
  assumes "fe_bound 330 f"
  shows "fe_bound 101 (fe_sq2 f)" "res (fe_sq2 f) = 2 * res f ^ 2 mod p25519"
proof -
  have "(2 * lval 10 f ^ 2) mod p25519 = (2 * res f ^ 2) mod p25519"
    unfolding res_def power2_eq_square by (metis mod_mult_eq mod_mod_trivial)
  then show "res (fe_sq2 f) = 2 * res f ^ 2 mod p25519"
    using fe_sq2_spec(2) [OF assms] by (simp add: res_def [of "fe_sq2 f"])
  show "fe_bound 101 (fe_sq2 f)" by (rule fe_sq2_spec [OF assms])
qed

lemma res_mod [simp]: "res f mod p25519 = res f"
  by (simp add: res_def)

lemma res_0 [simp]: "res fe_0 = 0"
  and res_1 [simp]: "res fe_1 = 1"
  by (simp_all add: res_def fe_0_spec fe_1_spec p25519_def)

lemma fe_copy_id: "length f = 10 \<Longrightarrow> fe_copy f = f"
  by (simp add: fe_copy_def list_eq_iff_nth_eq)

lemma fe_copy_bounded: "fe_bound b f \<Longrightarrow> fe_copy f = f"
  by (rule fe_copy_id) (rule fe_bound_length)

lemma bound_330: "fe_bound 101 f \<Longrightarrow> fe_bound 330 f" "fe_bound 202 f \<Longrightarrow> fe_bound 330 f"
  by (auto elim: fe_bound_mono)

definition wsum_list :: "int list \<Rightarrow> int" where
  "wsum_list x = (\<Sum>i<10. weight i * x ! i)"

lemma all_below_10: "(\<forall>i<10. P i) \<longleftrightarrow> list_all P [0, 1, 2, 3, 4, 5, 6, 7, 8, 9 :: nat]"
proof -
  have "(\<forall>i<10. P i) \<longleftrightarrow> list_all P [0..<10]" by (auto simp: list_all_iff)
  then show ?thesis by (simp only: upto_10)
qed

text \<open>The constants: \<open>d = -121665/121666\<close>, and the square root of \<open>-1\<close>.\<close>

lemma fe_d_spec: "fe_bound 101 fe_d" "res fe_d = edwards_d"
  and d2_spec: "fe_bound 101 d2" "res d2 = 2 * edwards_d mod p25519"
  and sqrtm1_spec: "fe_bound 101 sqrtm1" "(res sqrtm1 * res sqrtm1) mod p25519 = p25519 - 1"
proof -
  show "fe_bound 101 fe_d" "fe_bound 101 d2" "fe_bound 101 sqrtm1"
    by (simp_all add: fe_bound_def all_below_10 fe_d_def d2_def sqrtm1_def width_def)
  have l: "lval 10 f = wsum_list (map sint f)" if "length f = 10" for f :: fe
    using that by (simp add: lval_def wsum_list_def)
  show "res fe_d = edwards_d"
    by (simp add: res_def l fe_d_def wsum_list_def sum_10 weight_def edwards_d_def p25519_def)
  show "res d2 = 2 * edwards_d mod p25519"
    by (simp add: res_def l d2_def wsum_list_def sum_10 weight_def edwards_d_def p25519_def)
  have "res sqrtm1 = 19681161376707505956807079304988542015446066515923890162744021073123829784752"
    by (simp add: res_def l sqrtm1_def wsum_list_def sum_10 weight_def edwards_d_def p25519_def)
  then show "(res sqrtm1 * res sqrtm1) mod p25519 = p25519 - 1" by (simp add: p25519_def)
qed

lemma edwards_d_quotient: "(121666 * edwards_d + 121665) mod p25519 = 0"
  by (simp add: edwards_d_def p25519_def)

lemma ext_of_p1_eq:
  assumes "res (p1_X p) = E mod p25519" "res (p1_Y p) = H mod p25519" "res (p1_Z p) = G mod p25519"
    "res (p1_T p) = F mod p25519"
  shows "ext_of_p1 p = (E * F mod p25519, H * G mod p25519, G * F mod p25519, E * H mod p25519)"
  by (simp add: ext_of_p1_def assms mod_simps)

lemma ge_p1p1_to_p3_spec:
  assumes "p1_ok p"
  shows "p3_of (ge_p1p1_to_p3 p) (ext_of_p1 p)"
  using assms by (simp add: p3_of_def p3_ok_def p1_ok_def ge_p1p1_to_p3_def ext_of_def ext_of_p1_def res_mul)

lemma ge_p1p1_to_p2_spec:
  assumes "p1_ok p"
  shows "p2_of (ge_p1p1_to_p2 p) (ext_of_p1 p)"
  using assms by (simp add: p2_of_def p2_ok_def p1_ok_def ge_p1p1_to_p2_def ext_of_p1_def res_mul)

text \<open>The four additions have one shape.\<close>

definition addition :: "ge_p3 \<Rightarrow> fe \<Rightarrow> fe \<Rightarrow> fe \<Rightarrow> fe \<Rightarrow> fe \<times> fe \<times> fe \<times> fe" where
  "addition p a b t t0 =
     (let X = fe_mul (fe_add (p3_Y p) (p3_X p)) a; Y = fe_mul (fe_sub (p3_Y p) (p3_X p)) b; T = fe_mul t (p3_T p)
      in (fe_sub X Y, fe_add X Y, fe_add t0 T, fe_sub t0 T))"

lemma addition_spec:
  assumes "p3_ok p" "fe_bound 330 a" "fe_bound 330 b" "fe_bound 330 t" "fe_bound 202 t0"
    "addition p a b t t0 = (E, H, G, F)" "res a = a' mod p25519" "res b = b' mod p25519" "res t = t' mod p25519"
    "res t0 = z' mod p25519"
  shows "fe_bound 330 E" "fe_bound 330 H" "fe_bound 330 G" "fe_bound 330 F"
    "res E = ((res (p3_Y p) + res (p3_X p)) * a' - (res (p3_Y p) - res (p3_X p)) * b') mod p25519"
    "res H = ((res (p3_Y p) + res (p3_X p)) * a' + (res (p3_Y p) - res (p3_X p)) * b') mod p25519"
    "res G = (z' + t' * res (p3_T p)) mod p25519"
    "res F = (z' - t' * res (p3_T p)) mod p25519"
proof -
  note p = assms(1) [unfolded p3_ok_def]
  have s: "fe_bound 202 (fe_add (p3_Y p) (p3_X p))" "fe_bound 202 (fe_sub (p3_Y p) (p3_X p))"
    "res (fe_add (p3_Y p) (p3_X p)) = (res (p3_Y p) + res (p3_X p)) mod p25519"
    "res (fe_sub (p3_Y p) (p3_X p)) = (res (p3_Y p) - res (p3_X p)) mod p25519"
    using p by (simp_all add: res_add [where a = 101 and b = 101 and c = 202]
        res_sub [where a = 101 and b = 101 and c = 202])
  define X Y T where "X = fe_mul (fe_add (p3_Y p) (p3_X p)) a" and "Y = fe_mul (fe_sub (p3_Y p) (p3_X p)) b"
    and "T = fe_mul t (p3_T p)"
  have m: "fe_bound 101 X" "fe_bound 101 Y" "fe_bound 101 T"
    "res X = (res (p3_Y p) + res (p3_X p)) * a' mod p25519"
    "res Y = (res (p3_Y p) - res (p3_X p)) * b' mod p25519" "res T = t' * res (p3_T p) mod p25519"
    unfolding X_def Y_def T_def using p assms(2-4) s
    by (simp_all add: res_mul bound_330 assms(7-9) mod_simps)
  have e: "E = fe_sub X Y" "H = fe_add X Y" "G = fe_add t0 T" "F = fe_sub t0 T"
    using assms(6) by (simp_all add: addition_def Let_def X_def Y_def T_def)
  show "fe_bound 330 E" "fe_bound 330 H" "fe_bound 330 G" "fe_bound 330 F"
    unfolding e using m assms(5)
    by (simp_all add: res_add [where a = 101 and b = 101] res_sub [where a = 101 and b = 101]
        res_add [where a = 202 and b = 101] res_sub [where a = 202 and b = 101])
  show "res E = ((res (p3_Y p) + res (p3_X p)) * a' - (res (p3_Y p) - res (p3_X p)) * b') mod p25519"
    "res H = ((res (p3_Y p) + res (p3_X p)) * a' + (res (p3_Y p) - res (p3_X p)) * b') mod p25519"
    unfolding e using res_sub(2) [OF m(1,2), of 202] res_add(2) [OF m(1,2), of 202]
    by (simp_all add: m(4,5) mod_simps)
  show "res G = (z' + t' * res (p3_T p)) mod p25519" "res F = (z' - t' * res (p3_T p)) mod p25519"
    unfolding e using res_sub(2) [OF assms(5) m(3), of 303] res_add(2) [OF assms(5) m(3), of 303]
    by (simp_all add: m(6) assms(10) mod_simps)
qed

lemma same_quadruple:
  fixes E F G H :: int
  assumes "E' = E + p * a" "F' = F + p * b" "G' = G + p * c" "H' = H + p * d"
  shows "(E' * F' mod p, H' * G' mod p, G' * F' mod p, E' * H' mod p) =
    (E * F mod p, H * G mod p, G * F mod p, E * H mod p)"
proof -
  have "E' mod p = E mod p" "F' mod p = F mod p" "G' mod p = G mod p" "H' mod p = H mod p"
    by (simp_all add: assms)
  then show ?thesis by (auto intro: mod_mult_cong)
qed

text \<open>Adding the negative of a point, with the signs moved out.\<close>

lemma ext_add_neg:
  "ext_add P (ext_neg Q) =
     (case (P, Q) of ((X1, Y1, Z1, T1), (X2, Y2, Z2, T2)) \<Rightarrow>
        let A = (Y1 - X1) * (Y2 + X2); B = (Y1 + X1) * (Y2 - X2); C = T2 * (2 * edwards_d) * T1; D = 2 * (Z1 * Z2);
            E = B - A; F = D + C; G = D - C; H = B + A
        in (E * F mod p25519, H * G mod p25519, G * F mod p25519, E * H mod p25519))"
proof -
  obtain X1 Y1 Z1 T1 X2 Y2 Z2 T2 where PQ: "P = (X1, Y1, Z1, T1)" "Q = (X2, Y2, Z2, T2)"
    by (cases P, cases Q) blast
  have x: "\<exists>k. - X2 mod p25519 = - X2 + k * p25519" "\<exists>k. - T2 mod p25519 = - T2 + k * p25519"
    using minus_div_mult_eq_mod [of _ p25519, symmetric] by (metis uminus_add_conv_diff add.commute minus_mult_left)+
  then obtain k l where kl: "- X2 mod p25519 = - X2 + k * p25519" "- T2 mod p25519 = - T2 + l * p25519" by blast
  show ?thesis
    unfolding PQ ext_neg_def ext_add_def prod.case Let_def kl
    by (rule same_quadruple [where a = "k * (2 * Y1)" and b = "- l * (2 * edwards_d) * T1"
          and c = "l * (2 * edwards_d) * T1" and d = "k * (2 * X1)"])
      (simp_all add: algebra_simps)
qed

lemma ge_add_spec:
  assumes "p3_of p P" "cached_as q Q"
  shows "p1_ok (ge_add p q)" "ext_of_p1 (ge_add p q) = ext_add P Q"
    and "p1_ok (ge_sub p q)" "ext_of_p1 (ge_sub p q) = ext_add P (ext_neg Q)"
proof -
  obtain X2 Y2 Z2 T2 where Q: "Q = (X2, Y2, Z2, T2)" by (cases Q)
  have p: "p3_ok p" "P = ext_of p" using assms(1) by (simp_all add: p3_of_def)
  note q = assms(2) [unfolded cached_as_def Q prod.case]
  define X t0 where "X = fe_mul (p3_Z p) (ca_Z q)" and "t0 = fe_add X X"
  have X: "fe_bound 101 X" "res X = res (p3_Z p) * res (ca_Z q) mod p25519"
    using p q by (simp_all add: X_def res_mul p3_ok_def bound_330)
  have t0: "fe_bound 202 t0" "res t0 = 2 * (res (p3_Z p) * Z2) mod p25519"
    using res_add [OF X(1) X(1), of 202] q unfolding mult_2
    by (simp_all add: t0_def X(2) mod_simps mult.commute)
  obtain E H G F where r: "addition p (YplusX q) (YminusX q) (T2d q) t0 = (E, H, G, F)"
    by (cases "addition p (YplusX q) (YminusX q) (T2d q) t0")
  have a: "ge_add p q = \<lparr>p1_X = E, p1_Y = H, p1_Z = G, p1_T = F\<rparr>"
    using r by (simp add: addition_def ge_add_def Let_def t0_def X_def)
  have b: "fe_bound 330 (YplusX q)" "fe_bound 330 (YminusX q)" "fe_bound 330 (T2d q)" using q by auto
  have e: "res (YplusX q) = (Y2 + X2) mod p25519" "res (YminusX q) = (Y2 - X2) mod p25519"
    "res (T2d q) = T2 * (2 * edwards_d) mod p25519" using q by auto
  note s = addition_spec [OF p(1) b t0(1) r e t0(2)]
  show "p1_ok (ge_add p q)" using s by (simp add: p1_ok_def a)
  show "ext_of_p1 (ge_add p q) = ext_add P Q"
    unfolding Q p(2) ext_of_def ext_add_def prod.case Let_def
    by (rule ext_of_p1_eq) (simp_all add: a s mult.commute)
  obtain E H G F where r: "addition p (YminusX q) (YplusX q) (T2d q) t0 = (E, H, G, F)"
    by (cases "addition p (YminusX q) (YplusX q) (T2d q) t0")
  have a: "ge_sub p q = \<lparr>p1_X = E, p1_Y = H, p1_Z = F, p1_T = G\<rparr>"
    using r by (simp add: addition_def ge_sub_def Let_def t0_def X_def)
  note s = addition_spec [OF p(1) b(2,1,3) t0(1) r e(2,1,3) t0(2)]
  show "p1_ok (ge_sub p q)" using s by (simp add: p1_ok_def a)
  show "ext_of_p1 (ge_sub p q) = ext_add P (ext_neg Q)"
    unfolding Q p(2) ext_add_neg ext_of_def prod.case Let_def
    by (rule ext_of_p1_eq) (simp_all add: a s mult.commute)
qed

lemma ge_madd_spec:
  assumes "p3_of p P" "precomp_as q Q"
  shows "p1_ok (ge_madd p q)" "ext_of_p1 (ge_madd p q) = ext_add P Q"
    and "p1_ok (ge_msub p q)" "ext_of_p1 (ge_msub p q) = ext_add P (ext_neg Q)"
proof -
  obtain X2 Y2 Z2 T2 where Q: "Q = (X2, Y2, Z2, T2)" by (cases Q)
  have p: "p3_ok p" "P = ext_of p" using assms(1) by (simp_all add: p3_of_def)
  note q = assms(2) [unfolded precomp_as_def Q prod.case]
  define t0 where "t0 = fe_add (p3_Z p) (p3_Z p)"
  have z: "fe_bound 101 (p3_Z p)" using p(1) by (simp add: p3_ok_def)
  have t0: "fe_bound 202 t0" "res t0 = 2 * (res (p3_Z p) * Z2) mod p25519"
    using res_add [OF z z, of 202] q by (simp_all add: t0_def)
  obtain E H G F where r: "addition p (yplusx q) (yminusx q) (xy2d q) t0 = (E, H, G, F)"
    by (cases "addition p (yplusx q) (yminusx q) (xy2d q) t0")
  have a: "ge_madd p q = \<lparr>p1_X = E, p1_Y = H, p1_Z = G, p1_T = F\<rparr>"
    using r by (simp add: addition_def ge_madd_def Let_def t0_def)
  have b: "fe_bound 330 (yplusx q)" "fe_bound 330 (yminusx q)" "fe_bound 330 (xy2d q)" using q by auto
  have e: "res (yplusx q) = (Y2 + X2) mod p25519" "res (yminusx q) = (Y2 - X2) mod p25519"
    "res (xy2d q) = T2 * (2 * edwards_d) mod p25519" using q by auto
  note s = addition_spec [OF p(1) b t0(1) r e t0(2)]
  show "p1_ok (ge_madd p q)" using s by (simp add: p1_ok_def a)
  show "ext_of_p1 (ge_madd p q) = ext_add P Q"
    unfolding Q p(2) ext_of_def ext_add_def prod.case Let_def
    by (rule ext_of_p1_eq) (simp_all add: a s mult.commute)
  obtain E H G F where r: "addition p (yminusx q) (yplusx q) (xy2d q) t0 = (E, H, G, F)"
    by (cases "addition p (yminusx q) (yplusx q) (xy2d q) t0")
  have a: "ge_msub p q = \<lparr>p1_X = E, p1_Y = H, p1_Z = F, p1_T = G\<rparr>"
    using r by (simp add: addition_def ge_msub_def Let_def t0_def)
  note s = addition_spec [OF p(1) b(2,1,3) t0(1) r e(2,1,3) t0(2)]
  show "p1_ok (ge_msub p q)" using s by (simp add: p1_ok_def a)
  show "ext_of_p1 (ge_msub p q) = ext_add P (ext_neg Q)"
    unfolding Q p(2) ext_add_neg ext_of_def prod.case Let_def
    by (rule ext_of_p1_eq) (simp_all add: a s mult.commute)
qed

lemma ge_p2_dbl_spec:
  assumes "p2_of p P"
  shows "p1_ok (ge_p2_dbl p)" "ext_of_p1 (ge_p2_dbl p) = ext_double P"
proof -
  obtain T where P: "P = (res (p2_X p), res (p2_Y p), res (p2_Z p), T)"
    and b: "fe_bound 101 (p2_X p)" "fe_bound 101 (p2_Y p)" "fe_bound 101 (p2_Z p)"
    using assms by (auto simp: p2_of_def p2_ok_def)
  define X Z T' Y t0 where "X = fe_sq (p2_X p)" and "Z = fe_sq (p2_Y p)" and "T' = fe_sq2 (p2_Z p)"
    and "Y = fe_add (p2_X p) (p2_Y p)" and "t0 = fe_sq Y"
  note X = res_sq [OF bound_330(1) [OF b(1)], folded X_def]
  note Z = res_sq [OF bound_330(1) [OF b(2)], folded Z_def]
  note T = res_sq2 [OF bound_330(1) [OF b(3)], folded T'_def]
  have Y: "fe_bound 202 Y" "res Y = (res (p2_X p) + res (p2_Y p)) mod p25519"
    using res_add [OF b(1,2), of 202] by (simp_all add: Y_def)
  note t0 = res_sq [OF bound_330(2) [OF Y(1)], folded t0_def]
  define Y' Z' where "Y' = fe_add Z X" and "Z' = fe_sub Z X"
  have Y': "fe_bound 202 Y'" "res Y' = (res Z + res X) mod p25519"
    and Z': "fe_bound 202 Z'" "res Z' = (res Z - res X) mod p25519"
    using res_add [OF Z(1) X(1), of 202] res_sub [OF Z(1) X(1), of 202] by (simp_all add: Y'_def Z'_def)
  have e: "ge_p2_dbl p = \<lparr>p1_X = fe_sub t0 Y', p1_Y = Y', p1_Z = Z', p1_T = fe_sub T' Z'\<rparr>"
    by (simp add: ge_p2_dbl_def Let_def X_def Y_def Z_def T'_def t0_def Y'_def Z'_def)
  have r: "fe_bound 303 (fe_sub t0 Y')" "res (fe_sub t0 Y') = (res t0 - res Y') mod p25519"
    "fe_bound 303 (fe_sub T' Z')" "res (fe_sub T' Z') = (res T' - res Z') mod p25519"
    using res_sub [OF t0(1) Y'(1), of 303] res_sub [OF T(1) Z'(1), of 303] by simp_all
  show "p1_ok (ge_p2_dbl p)"
    using r Y' Z' by (auto simp: e p1_ok_def bound_330 elim: fe_bound_mono)
  show "ext_of_p1 (ge_p2_dbl p) = ext_double P"
    unfolding P ext_double_def prod.case Let_def
    by (rule ext_of_p1_eq) (simp_all add: e r X(2) Y(2) Z(2) T(2) t0(2) Y'(2) Z'(2) mod_simps)
qed

lemma ge_p3_to_p2_spec:
  assumes "p3_of p P"
  shows "p2_of (ge_p3_to_p2 p) P"
  using assms by (auto simp: p3_of_def p2_of_def p3_ok_def p2_ok_def ge_p3_to_p2_def ext_of_def fe_copy_bounded)

lemma ge_p3_dbl_spec:
  assumes "p3_of p P"
  shows "p1_ok (ge_p3_dbl p)" "ext_of_p1 (ge_p3_dbl p) = ext_double P"
  using ge_p2_dbl_spec [OF ge_p3_to_p2_spec [OF assms]] by (simp_all add: ge_p3_dbl_def Let_def)

lemma ge_p3_to_cached_spec:
  assumes "p3_of p P"
  shows "cached_as (ge_p3_to_cached p) P"
proof -
  have p: "fe_bound 101 (p3_X p)" "fe_bound 101 (p3_Y p)" "fe_bound 101 (p3_Z p)" "fe_bound 101 (p3_T p)"
    "P = ext_of p"
    using assms by (simp_all add: p3_of_def p3_ok_def)
  show ?thesis
    unfolding p(5) cached_as_def ext_of_def prod.case
    using res_add [OF p(2,1), of 202] res_sub [OF p(2,1), of 202]
      res_mul [OF bound_330(1) [OF p(4)] bound_330(1) [OF d2_spec(1)]] p(3)
    by (simp add: ge_p3_to_cached_def bound_330 fe_copy_bounded d2_spec(2) mod_simps)
qed

lemma ge_p3_0_spec: "p3_of ge_p3_0 ext_zero"
  and ge_p2_0_spec: "p2_of ge_p2_0 ext_zero"
  by (simp_all add: p3_of_def p2_of_def p3_ok_def p2_ok_def ge_p3_0_def ge_p2_0_def ext_of_def ext_zero_def
      fe_0_spec fe_1_spec)

section \<open>The formulas and the curve\<close>

text \<open>
  A point of the curve in extended coordinates satisfies \<open>Y^2 - X^2 = Z^2 + d T^2\<close> and \<open>XY = ZT\<close>.  The
  formulas keep these equations: no inverse and no property of the prime is needed.
\<close>

definition curve_eq :: "int \<Rightarrow> int \<Rightarrow> int \<Rightarrow> int \<Rightarrow> bool" where
  "curve_eq X Y Z T \<longleftrightarrow> p25519 dvd Y * Y - X * X - Z * Z - edwards_d * (T * T) \<and> p25519 dvd X * Y - Z * T"

definition on_curve :: "ext \<Rightarrow> bool" where
  "on_curve = (\<lambda>(X, Y, Z, T). curve_eq X Y Z T)"

lemma curve_eq_mod:
  "curve_eq (X mod p25519) (Y mod p25519) (Z mod p25519) (T mod p25519) \<longleftrightarrow> curve_eq X Y Z T"
proof -
  have "((Y mod p25519) * (Y mod p25519) - (X mod p25519) * (X mod p25519) - (Z mod p25519) * (Z mod p25519) -
      edwards_d * ((T mod p25519) * (T mod p25519))) mod p25519 =
    (Y * Y - X * X - Z * Z - edwards_d * (T * T)) mod p25519"
    by (intro mod_diff_cong mod_mult_cong refl mod_mod_trivial)
  moreover have "((X mod p25519) * (Y mod p25519) - (Z mod p25519) * (T mod p25519)) mod p25519 = (X * Y - Z * T) mod p25519"
    by (intro mod_diff_cong mod_mult_cong mod_mod_trivial)
  ultimately show ?thesis by (simp add: curve_eq_def dvd_eq_mod_eq_0)
qed

lemma curve_eq_products:
  assumes "p25519 dvd (H * G) * (H * G) - (E * F) * (E * F) - (G * F) * (G * F) - edwards_d * ((E * H) * (E * H))"
  shows "on_curve (E * F mod p25519, H * G mod p25519, G * F mod p25519, E * H mod p25519)"
proof -
  have "curve_eq (E * F) (H * G) (G * F) (E * H)" using assms by (simp add: curve_eq_def)
  then show ?thesis by (simp add: on_curve_def curve_eq_mod)
qed

lemma on_curve_zero: "on_curve ext_zero"
  by (simp add: on_curve_def curve_eq_def ext_zero_def)

lemma on_curve_neg: "on_curve P \<Longrightarrow> on_curve (ext_neg P)"
proof -
  assume a: "on_curve P"
  obtain X Y Z T where P: "P = (X, Y, Z, T)" by (cases P)
  have "p25519 dvd - (X * Y - Z * T)" using a unfolding dvd_minus_iff by (simp add: P on_curve_def curve_eq_def)
  then have "curve_eq (- X) Y Z (- T)"
    using a by (simp add: P on_curve_def curve_eq_def)
  then have "curve_eq (- X mod p25519) (Y mod p25519) (Z mod p25519) (- T mod p25519)" by (simp only: curve_eq_mod)
  then show ?thesis
    using curve_eq_mod [of "- X mod p25519" Y Z "- T mod p25519"] by (simp add: P on_curve_def ext_neg_def)
qed

lemma on_curve_add:
  assumes "on_curve P" "on_curve Q"
  shows "on_curve (ext_add P Q)"
proof -
  obtain X1 Y1 Z1 T1 X2 Y2 Z2 T2 where PQ: "P = (X1, Y1, Z1, T1)" "Q = (X2, Y2, Z2, T2)"
    by (cases P, cases Q) blast
  define d where "d = edwards_d"
  define A1 B1 A2 B2 where "A1 = Y1 * Y1 - X1 * X1" and "B1 = Z1 * Z1 + d * (T1 * T1)"
    and "A2 = Y2 * Y2 - X2 * X2" and "B2 = Z2 * Z2 + d * (T2 * T2)"
  define e h k g f w where "e = X1 * Y2 + X2 * Y1" and "h = Y1 * Y2 + X1 * X2" and "k = Y1 * Y2 - X1 * X2"
    and "g = Z1 * Z2 + d * (T1 * T2)" and "f = Z1 * Z2 - d * (T1 * T2)" and "w = Z1 * T2 + T1 * Z2"
  note defs = A1_def B1_def A2_def B2_def e_def h_def k_def g_def f_def w_def
  have c: "p25519 dvd A1 - B1" "p25519 dvd A2 - B2" "p25519 dvd X1 * Y1 - Z1 * T1" "p25519 dvd X2 * Y2 - Z2 * T2"
    using assms by (simp_all add: PQ on_curve_def curve_eq_def defs d_def algebra_simps)
  have "A1 * A2 - B1 * B2 = (A1 - B1) * A2 + B1 * (A2 - B2)" by (simp add: algebra_simps)
  then have 1: "p25519 dvd A1 * A2 - B1 * B2" using c by simp
  have "e * k - g * w = (X1 * Y1 - Z1 * T1) * A2 + Z1 * T1 * (A2 - B2) + (X2 * Y2 - Z2 * T2) * A1 + Z2 * T2 * (A1 - B1)"
    unfolding defs by (simp add: algebra_simps)
  then have 2: "p25519 dvd e * k - g * w" using c by simp
  have "(X1 * Y1) * (X2 * Y2) - (Z1 * T1) * (Z2 * T2) = (X1 * Y1 - Z1 * T1) * (X2 * Y2) + Z1 * T1 * (X2 * Y2 - Z2 * T2)"
    by (simp add: algebra_simps)
  then have 3: "p25519 dvd (X1 * Y1) * (X2 * Y2) - (Z1 * T1) * (Z2 * T2)" using c by simp
  have m: "h * h = A1 * A2 + e * e" "k * k = h * h - 4 * ((X1 * Y1) * (X2 * Y2))" "B1 * B2 - f * f = d * (w * w)"
    "g * g - f * f = 4 * d * ((Z1 * T1) * (Z2 * T2))"
    unfolding defs by (simp_all add: algebra_simps)
  have "(h * g) * (h * g) - (e * f) * (e * f) - (g * f) * (g * f) - d * ((e * h) * (e * h)) =
      (g * g) * (h * h - e * e - f * f) + (e * e) * (g * g - f * f) - d * ((e * e) * (h * h))"
    by (simp add: algebra_simps)
  also have "\<dots> = (g * g) * (A1 * A2 - f * f) - d * ((e * e) * (k * k)) -
      4 * d * (e * e) * ((X1 * Y1) * (X2 * Y2) - (Z1 * T1) * (Z2 * T2))"
    unfolding m(2,4) m(1) by (simp add: algebra_simps)
  also have "\<dots> = (g * g) * (A1 * A2 - B1 * B2) - d * ((e * k + g * w) * (e * k - g * w)) -
      4 * d * (e * e) * ((X1 * Y1) * (X2 * Y2) - (Z1 * T1) * (Z2 * T2))"
    using arg_cong [OF m(3), of "\<lambda>x. (g * g) * x"] by (simp add: algebra_simps)
  finally have "p25519 dvd (h * g) * (h * g) - (e * f) * (e * f) - (g * f) * (g * f) - d * ((e * h) * (e * h))"
    using 1 2 3 by (simp add: dvd_diff dvd_mult)
  then have "p25519 dvd 16 * ((h * g) * (h * g) - (e * f) * (e * f) - (g * f) * (g * f) - d * ((e * h) * (e * h)))"
    by (rule dvd_mult)
  then have r: "on_curve ((2 * e) * (2 * f) mod p25519, (2 * h) * (2 * g) mod p25519, (2 * g) * (2 * f) mod p25519,
      (2 * e) * (2 * h) mod p25519)"
    by (intro curve_eq_products) (simp add: d_def algebra_simps)
  have "ext_add P Q = ((2 * e) * (2 * f) mod p25519, (2 * h) * (2 * g) mod p25519, (2 * g) * (2 * f) mod p25519,
      (2 * e) * (2 * h) mod p25519)"
  proof -
    have "(Y1 + X1) * (Y2 + X2) - (Y1 - X1) * (Y2 - X2) = 2 * e" "(Y1 + X1) * (Y2 + X2) + (Y1 - X1) * (Y2 - X2) = 2 * h"
      "2 * (Z1 * Z2) + T2 * (2 * edwards_d) * T1 = 2 * g" "2 * (Z1 * Z2) - T2 * (2 * edwards_d) * T1 = 2 * f"
      unfolding defs d_def by (simp_all add: algebra_simps)
    then show ?thesis by (simp only: PQ ext_add_def prod.case Let_def)
  qed
  then show ?thesis using r by simp
qed

lemma on_curve_double:
  assumes "on_curve P"
  shows "on_curve (ext_double P)"
proof -
  obtain X Y Z T where P: "P = (X, Y, Z, T)" by (cases P)
  define d E H G F where "d = edwards_d" and "E = (X + Y) * (X + Y) - (Y * Y + X * X)" and "H = Y * Y + X * X"
    and "G = Y * Y - X * X" and "F = 2 * Z ^ 2 - G"
  define B where "B = Z * Z + d * (T * T)"
  have c: "p25519 dvd G - B" "p25519 dvd X * Y - Z * T"
    using assms by (simp_all add: P on_curve_def curve_eq_def G_def B_def d_def algebra_simps)
  have m: "H * H = G * G + E * E" by (simp add: H_def G_def E_def algebra_simps)
  have "G * G - F * F - d * (E * E) = 4 * (Z * Z) * (G - B) - 4 * d * ((X * Y - Z * T) * (X * Y + Z * T))"
    by (simp add: F_def G_def B_def E_def algebra_simps power2_eq_square)
  then have "p25519 dvd G * G - F * F - d * (E * E)" using c by (simp add: dvd_diff)
  moreover have "(H * G) * (H * G) - (E * F) * (E * F) - (G * F) * (G * F) - d * ((E * H) * (E * H)) =
      (G * G + E * E) * (G * G - F * F - d * (E * E))"
  proof -
    have "(H * G) * (H * G) - (E * F) * (E * F) - (G * F) * (G * F) - d * ((E * H) * (E * H)) =
        (H * H) * (G * G) - (E * E) * (F * F) - (G * G) * (F * F) - d * ((E * E) * (H * H))"
      by (simp add: algebra_simps)
    then show ?thesis unfolding m by (simp add: algebra_simps)
  qed
  ultimately have "p25519 dvd (H * G) * (H * G) - (E * F) * (E * F) - (G * F) * (G * F) - edwards_d * ((E * H) * (E * H))"
    by (simp add: d_def)
  from curve_eq_products [OF this] show ?thesis
    by (simp add: P ext_double_def Let_def E_def H_def G_def F_def)
qed

section \<open>The formulas and the addition law\<close>

text \<open>
  \<open>represents P (x, y)\<close>: the coordinates are those of the affine point, with an invertible \<open>Z\<close>.
  \<open>affine_sum\<close> is the addition law of the twisted Edwards curve, without divisions: its denominators
  are invertible, so that it has one solution modulo the prime.
\<close>

type_synonym affine = "int \<times> int"

definition represents :: "ext \<Rightarrow> affine \<Rightarrow> bool" where
  "represents = (\<lambda>(X, Y, Z, T) (x, y).
     coprime Z p25519 \<and> X mod p25519 = (x * Z) mod p25519 \<and> Y mod p25519 = (y * Z) mod p25519 \<and>
     T mod p25519 = (x * y * Z) mod p25519)"

definition affine_sum :: "affine \<Rightarrow> affine \<Rightarrow> affine \<Rightarrow> bool" where
  "affine_sum = (\<lambda>(x1, y1) (x2, y2) (x3, y3).
     (let w = edwards_d * (x1 * x2 * y1 * y2)
      in coprime (1 + w) p25519 \<and> coprime (1 - w) p25519 \<and>
         (x3 * (1 + w)) mod p25519 = (x1 * y2 + x2 * y1) mod p25519 \<and>
         (y3 * (1 - w)) mod p25519 = (y1 * y2 + x1 * x2) mod p25519))"

definition affine_neg :: "affine \<Rightarrow> affine" where
  "affine_neg = (\<lambda>(x, y). (- x, y))"

definition affine_on_curve :: "affine \<Rightarrow> bool" where
  "affine_on_curve = (\<lambda>(x, y). (y * y - x * x) mod p25519 = (1 + edwards_d * (x * x * (y * y))) mod p25519)"

lemma coprime_p25519_cong: "a mod p25519 = b mod p25519 \<Longrightarrow> coprime a p25519 \<longleftrightarrow> coprime b p25519"
  using coprime_mod_left_iff [of p25519 a] coprime_mod_left_iff [of p25519 b] by (simp add: p25519_def)

lemma coprime_2_p25519: "coprime 2 p25519"
  by (simp add: p25519_def coprime_left_2_iff_odd)

lemma represents_products:
  assumes "E mod p25519 = (x * G) mod p25519" "H mod p25519 = (y * F) mod p25519"
    "coprime G p25519" "coprime F p25519"
  shows "represents (E * F mod p25519, H * G mod p25519, G * F mod p25519, E * H mod p25519) (x, y)"
proof -
  have "(E * F) mod p25519 = (x * G * F) mod p25519" by (intro mod_mult_cong assms refl)
  moreover have "(H * G) mod p25519 = (y * F * G) mod p25519" by (intro mod_mult_cong assms refl)
  moreover have "(E * H) mod p25519 = (x * G * (y * F)) mod p25519" by (intro mod_mult_cong assms)
  ultimately show ?thesis
    using assms(3,4) coprime_p25519_cong [of "G * F mod p25519" "G * F"]
    unfolding represents_def prod.case mod_mod_trivial mod_mult_right_eq by (simp add: algebra_simps)
qed

lemma represents_neg: "represents P a \<Longrightarrow> represents (ext_neg P) (affine_neg a)"
  unfolding represents_def ext_neg_def affine_neg_def
  by (auto split: prod.splits simp: mod_simps) (metis mod_minus_eq)+

lemma represents_add:
  assumes "represents P a" "represents Q b" "affine_sum a b c"
  shows "represents (ext_add P Q) c"
proof -
  obtain X1 Y1 Z1 T1 X2 Y2 Z2 T2 where PQ: "P = (X1, Y1, Z1, T1)" "Q = (X2, Y2, Z2, T2)"
    by (cases P, cases Q) blast
  obtain x1 y1 x2 y2 x3 y3 where abc: "a = (x1, y1)" "b = (x2, y2)" "c = (x3, y3)"
    by (cases a, cases b, cases c) blast
  define w where "w = edwards_d * (x1 * x2 * y1 * y2)"
  define z where "z = 2 * (Z1 * Z2)"
  have p: "X1 mod p25519 = (x1 * Z1) mod p25519" "Y1 mod p25519 = (y1 * Z1) mod p25519"
    "T1 mod p25519 = (x1 * y1 * Z1) mod p25519" and q: "X2 mod p25519 = (x2 * Z2) mod p25519"
    "Y2 mod p25519 = (y2 * Z2) mod p25519" "T2 mod p25519 = (x2 * y2 * Z2) mod p25519"
    using assms(1,2) by (simp_all add: PQ abc represents_def)
  have s: "(x3 * (1 + w)) mod p25519 = (x1 * y2 + x2 * y1) mod p25519"
    "(y3 * (1 - w)) mod p25519 = (y1 * y2 + x1 * x2) mod p25519"
    and cw: "coprime (1 + w) p25519" "coprime (1 - w) p25519"
    using assms(3) by (simp_all add: abc affine_sum_def w_def Let_def)
  define A B C where "A = (Y1 - X1) * (Y2 - X2)" and "B = (Y1 + X1) * (Y2 + X2)" and "C = T2 * (2 * edwards_d) * T1"
  have e: "B - A = 2 * (X1 * Y2 + X2 * Y1)" "B + A = 2 * (Y1 * Y2 + X1 * X2)"
    by (simp_all add: A_def B_def algebra_simps)
  have c: "C mod p25519 = (z * w) mod p25519"
  proof -
    have "C mod p25519 = (x2 * y2 * Z2 * (2 * edwards_d) * (x1 * y1 * Z1)) mod p25519"
      unfolding C_def by (intro mod_mult_cong p q refl)
    then show ?thesis by (simp add: z_def w_def algebra_simps)
  qed
  have f: "(z - C) mod p25519 = (z * (1 - w)) mod p25519" "(z + C) mod p25519 = (z * (1 + w)) mod p25519"
    using mod_diff_cong [OF refl c, of z] mod_add_cong [OF refl c, of z] by (simp_all add: algebra_simps)
  have "coprime z p25519"
    using assms(1,2) coprime_2_p25519 by (simp add: z_def PQ abc represents_def)
  then have cz: "coprime (z + C) p25519" "coprime (z - C) p25519"
    using cw coprime_p25519_cong [OF f(2)] coprime_p25519_cong [OF f(1)] by simp_all
  have "(B - A) mod p25519 = (2 * (x1 * Z1 * (y2 * Z2) + x2 * Z2 * (y1 * Z1))) mod p25519"
    unfolding e by (intro mod_mult_cong mod_add_cong p q refl)
  also have "\<dots> = (z * (x1 * y2 + x2 * y1)) mod p25519" by (simp add: z_def algebra_simps)
  also have "\<dots> = (z * (x3 * (1 + w))) mod p25519" by (intro mod_mult_cong s(1) [symmetric] refl)
  also have "\<dots> = (x3 * (z + C)) mod p25519"
    using mod_mult_cong [OF refl f(2), of x3] by (simp add: algebra_simps)
  finally have E: "(B - A) mod p25519 = (x3 * (z + C)) mod p25519" .
  have "(B + A) mod p25519 = (2 * (y1 * Z1 * (y2 * Z2) + x1 * Z1 * (x2 * Z2))) mod p25519"
    unfolding e by (intro mod_mult_cong mod_add_cong p q refl)
  also have "\<dots> = (z * (y1 * y2 + x1 * x2)) mod p25519" by (simp add: z_def algebra_simps)
  also have "\<dots> = (z * (y3 * (1 - w))) mod p25519" by (intro mod_mult_cong s(2) [symmetric] refl)
  also have "\<dots> = (y3 * (z - C)) mod p25519"
    using mod_mult_cong [OF refl f(1), of y3] by (simp add: algebra_simps)
  finally have H: "(B + A) mod p25519 = (y3 * (z - C)) mod p25519" .
  show ?thesis
    unfolding PQ ext_add_def prod.case Let_def abc A_def [symmetric] B_def [symmetric] C_def [symmetric] z_def [symmetric]
    by (rule represents_products [OF E H cz])
qed

lemma represents_double:
  assumes "represents P a" "affine_sum a a c" "affine_on_curve a"
  shows "represents (ext_double P) c"
proof -
  obtain X Y Z T where P: "P = (X, Y, Z, T)" by (cases P)
  obtain x y x3 y3 where ac: "a = (x, y)" "c = (x3, y3)" by (cases a, cases c) blast
  define w where "w = edwards_d * (x * x * (y * y))"
  have p: "X mod p25519 = (x * Z) mod p25519" "Y mod p25519 = (y * Z) mod p25519"
    using assms(1) by (simp_all add: P ac represents_def)
  have s: "(x3 * (1 + w)) mod p25519 = (2 * (x * y)) mod p25519" "(y3 * (1 - w)) mod p25519 = (y * y + x * x) mod p25519"
    and cw: "coprime (1 + w) p25519" "coprime (1 - w) p25519"
    using assms(2) by (simp_all add: ac affine_sum_def w_def Let_def algebra_simps)
  have o: "(y * y - x * x) mod p25519 = (1 + w) mod p25519" using assms(3) by (simp add: ac affine_on_curve_def w_def)
  define E H G F where "E = (X + Y) * (X + Y) - (Y * Y + X * X)" and "H = Y * Y + X * X" and "G = Y * Y - X * X"
    and "F = 2 * Z ^ 2 - G"
  have e: "E = 2 * (X * Y)" by (simp add: E_def algebra_simps)
  have "G mod p25519 = (y * Z * (y * Z) - x * Z * (x * Z)) mod p25519"
    unfolding G_def by (intro mod_diff_cong mod_mult_cong p)
  also have "\<dots> = (Z * Z * (y * y - x * x)) mod p25519" by (simp add: algebra_simps)
  also have "\<dots> = (Z * Z * (1 + w)) mod p25519" by (intro mod_mult_cong o refl)
  finally have g: "G mod p25519 = (Z * Z * (1 + w)) mod p25519" .
  have f: "F mod p25519 = (Z * Z * (1 - w)) mod p25519"
    using mod_diff_cong [OF refl g, of "2 * Z ^ 2"] by (simp add: F_def algebra_simps power2_eq_square)
  have "coprime (Z * Z) p25519" using assms(1) by (simp add: P ac represents_def)
  then have cz: "coprime G p25519" "coprime F p25519"
    using cw coprime_p25519_cong [OF g] coprime_p25519_cong [OF f] by simp_all
  have "E mod p25519 = (2 * (x * Z * (y * Z))) mod p25519" unfolding e by (intro mod_mult_cong p refl)
  also have "\<dots> = (Z * Z * (2 * (x * y))) mod p25519" by (simp add: algebra_simps)
  also have "\<dots> = (Z * Z * (x3 * (1 + w))) mod p25519" by (intro mod_mult_cong s(1) [symmetric] refl)
  also have "\<dots> = (x3 * G) mod p25519" using mod_mult_cong [OF refl g, of x3] by (simp add: algebra_simps)
  finally have E: "E mod p25519 = (x3 * G) mod p25519" .
  have "H mod p25519 = (y * Z * (y * Z) + x * Z * (x * Z)) mod p25519"
    unfolding H_def by (intro mod_add_cong mod_mult_cong p)
  also have "\<dots> = (Z * Z * (y * y + x * x)) mod p25519" by (simp add: algebra_simps)
  also have "\<dots> = (Z * Z * (y3 * (1 - w))) mod p25519" by (intro mod_mult_cong s(2) [symmetric] refl)
  also have "\<dots> = (y3 * F) mod p25519" using mod_mult_cong [OF refl f, of y3] by (simp add: algebra_simps)
  finally have H: "H mod p25519 = (y3 * F) mod p25519" .
  show ?thesis
    using represents_products [OF E H cz] unfolding P ext_double_def prod.case Let_def ac E_def H_def G_def F_def .
qed

text \<open>
  C21 Point addition: for points of the curve with limbs in bounds and an invertible \<open>Z\<close>, that represent
  affine points of the curve, \<open>ge_add\<close> and \<open>ge_sub\<close>, with the conversions around them, give a
  representation of the sum and of the difference wherever the denominators of the addition law are
  invertible, \<open>ge_p3_dbl\<close> one of the double, all with limbs in bounds, an invertible \<open>Z\<close> and
  coordinates on the curve again.
\<close>

theorem point_addition:
  assumes "p3_ok p" "p3_ok q" "represents (ext_of p) a" "represents (ext_of q) b"
    "affine_sum a b s" "affine_sum a (affine_neg b) d" "affine_sum a a t" "affine_on_curve a"
    "on_curve (ext_of p)" "on_curve (ext_of q)"
    "u = ge_p1p1_to_p3 (ge_add p (ge_p3_to_cached q))" "v = ge_p1p1_to_p3 (ge_sub p (ge_p3_to_cached q))"
    "w = ge_p1p1_to_p3 (ge_p3_dbl p)"
  shows "p3_ok u \<and> represents (ext_of u) s \<and> on_curve (ext_of u) \<and>
    p3_ok v \<and> represents (ext_of v) d \<and> on_curve (ext_of v) \<and>
    p3_ok w \<and> represents (ext_of w) t \<and> on_curve (ext_of w)"
proof -
  have p: "p3_of p (ext_of p)" "p3_of q (ext_of q)" using assms(1,2) by (simp_all add: p3_of_def)
  note c = ge_p3_to_cached_spec [OF p(2)]
  note a = ge_add_spec [OF p(1) c]
  note o = ge_p3_dbl_spec [OF p(1)]
  have "p3_of u (ext_add (ext_of p) (ext_of q))" "p3_of v (ext_add (ext_of p) (ext_neg (ext_of q)))"
    "p3_of w (ext_double (ext_of p))"
    unfolding assms(11-13) using ge_p1p1_to_p3_spec [OF a(1)] ge_p1p1_to_p3_spec [OF a(3)] ge_p1p1_to_p3_spec [OF o(1)]
    by (simp_all add: a(2,4) o(2))
  then show ?thesis
    using represents_add [OF assms(3,4,5)] represents_add [OF assms(3) represents_neg [OF assms(4)] assms(6)]
      represents_double [OF assms(3,7,8)] on_curve_add [OF assms(9,10)] on_curve_add [OF assms(9) on_curve_neg [OF assms(10)]]
      on_curve_double [OF assms(9)]
    unfolding p3_of_def by metis
qed

theorem point_addition_witness:
  "represents (ext_of (ge_p1p1_to_p3 (ge_add \<lparr>p3_X = sqrtm1, p3_Y = fe_0, p3_Z = fe_1, p3_T = fe_0\<rparr>
       (ge_p3_to_cached \<lparr>p3_X = sqrtm1, p3_Y = fe_0, p3_Z = fe_1, p3_T = fe_0\<rparr>)))) (0, - 1)"
proof -
  define p where "p = \<lparr>p3_X = sqrtm1, p3_Y = fe_0, p3_Z = fe_1, p3_T = fe_0\<rparr>"
  define a where "a = (res sqrtm1, 0 :: int)"
  have r: "(res sqrtm1 * res sqrtm1) mod p25519 = - 1 mod p25519"
    using sqrtm1_spec(2) by (simp add: p25519_def)
  then have d: "p25519 dvd res sqrtm1 * res sqrtm1 + 1" by (simp add: mod_eq_dvd_iff)
  then have d': "p25519 dvd 1 + res sqrtm1 * res sqrtm1" "p25519 dvd - 1 - res sqrtm1 * res sqrtm1"
    using dvd_minus_iff [of p25519 "res sqrtm1 * res sqrtm1 + 1"] by (simp_all add: add.commute)
  have d'': "p25519 dvd - (res sqrtm1 * res sqrtm1) - 1" using d'(2) by (simp only: minus_diff_commute)
  have "p3_ok p" using sqrtm1_spec(1) by (simp add: p_def p3_ok_def fe_0_spec fe_1_spec)
  moreover have "represents (ext_of p) a" by (simp add: p_def a_def represents_def ext_of_def)
  moreover have "affine_sum a a (0, - 1)" "affine_sum a (affine_neg a) (0, 1)" "affine_on_curve a"
    using d d' d'' by (simp_all add: a_def affine_sum_def affine_neg_def affine_on_curve_def mod_eq_dvd_iff)
  moreover have "on_curve (ext_of p)"
    using d d' d'' by (simp add: p_def on_curve_def curve_eq_def ext_of_def)
  ultimately show ?thesis
    using point_addition [of p p a a "(0, - 1)" "(0, 1)" "(0, - 1)"] unfolding p_def by blast
qed

section \<open>Encoding and decoding\<close>

lemma le_val_append: "le_val (a @ b) = le_val a + 256 ^ length a * le_val b"
  by (simp add: le_val_def horner_sum_append)

lemma le_val_bounds: "0 \<le> le_val s" "le_val s < 256 ^ length s"
proof -
  have "0 \<le> le_val s \<and> le_val s < 256 ^ length s"
  proof (induction s)
    case (Cons b s)
    then show ?case using uint_lt2p [of b] by (auto simp: le_val_def)
  qed (simp add: le_val_def)
  then show "0 \<le> le_val s" "le_val s < 256 ^ length s" by simp_all
qed

lemma last_byte:
  assumes "length s = 32"
  shows "s = take 31 s @ [s ! 31]" "le_val s = le_val (take 31 s) + 256 ^ 31 * uint (s ! 31)"
proof -
  show e: "s = take 31 s @ [s ! 31]" using take_Suc_conv_app_nth [of 31 s] assms by simp
  have "le_val (take 31 s @ [s ! 31]) = le_val (take 31 s) + 256 ^ 31 * uint (s ! 31)"
    unfolding le_val_append using assms by (simp add: le_val_def)
  then show "le_val s = le_val (take 31 s) + 256 ^ 31 * uint (s ! 31)" using e by simp
qed

lemma sign_bit:
  assumes "length s = 32"
  shows "le_val s = le_val s mod 2 ^ 255 + 2 ^ 255 * (if bit (s ! 31) 7 then 1 else 0)"
proof -
  have b: "bit (le_val s) 255 = bit (s ! 31) 7" using bit_le_val_byte [of 7 s 31] assms by simp
  have "le_val s div 2 ^ 255 < 2" 
    using zdiv_mono1 [of "le_val s" "2 ^ 256 - 1" "2 ^ 255"] le_val_bounds(2) [of s] assms by simp
  moreover have "0 \<le> le_val s div 2 ^ 255" using le_val_bounds(1) [of s] by (simp add: pos_imp_zdiv_nonneg_iff)
  ultimately have "le_val s div 2 ^ 255 = 0 \<or> le_val s div 2 ^ 255 = 1" by linarith
  moreover have "odd (le_val s div 2 ^ 255) = bit (s ! 31) 7" using b by (simp add: bit_iff_odd)
  ultimately have "le_val s div 2 ^ 255 = (if bit (s ! 31) 7 then 1 else 0)" by auto
  moreover have "2 ^ 255 * (le_val s div 2 ^ 255) + le_val s mod 2 ^ 255 = le_val s" by (rule mult_div_mod_eq)
  ultimately show ?thesis by auto
qed

lemma set_sign_bit:
  assumes "length s = 32" "le_val s < 2 ^ 255" "n = (if c then 1 else 0 :: s32)"
  shows "le_val (s[31 := s ! 31 XOR ucast (push_bit 7 n)]) = le_val s + 2 ^ 255 * (if c then 1 else 0)"
proof (cases c)
  case True
  have "le_val s mod 2 ^ 255 = le_val s" using assms(2) le_val_bounds(1) [of s] by simp
  then have nb: "\<not> bit (s ! 31) 7" using sign_bit [OF assms(1)] by (auto split: if_splits)
  have "s ! 31 XOR 128 = s ! 31 + 128"
  proof -
    have "s ! 31 AND 128 = 0"
    proof (rule bit_word_eqI)
      fix k assume "k < LENGTH(8)"
      have "bit (128 :: byte) k \<longleftrightarrow> k = 7"
        using bit_push_bit_iff [of 7 "1 :: byte" k] by (auto simp: push_bit_eq_mult bit_1_iff)
      then show "bit (s ! 31 AND 128) k \<longleftrightarrow> bit (0 :: byte) k" using nb by (auto simp: bit_and_iff)
    qed
    then show ?thesis by (simp add: disjunctive_add_eq_xor)
  qed
  moreover have "uint (s ! 31) < 128"
  proof -
    have "256 ^ 31 * uint (s ! 31) < 2 ^ 255" using last_byte(2) [OF assms(1)] assms(2) le_val_bounds(1) [of "take 31 s"] by simp
    then show ?thesis by simp
  qed
  then have "uint (s ! 31 + 128) = uint (s ! 31) + 128"
    by (simp add: uint_word_ariths)
  moreover have "s[31 := v] = take 31 s @ [v]" for v
    using last_byte(1) [OF assms(1)] assms(1) by (simp add: upd_conv_take_nth_drop)
  ultimately show ?thesis
    using True assms(1) last_byte(2) [OF assms(1)]
    by (simp add: assms(3) le_val_append) (simp add: le_val_def push_bit_eq_mult)
next
  case False
  then show ?thesis using assms(3) by simp
qed

definition affine_bytes :: "int \<Rightarrow> int \<Rightarrow> int \<Rightarrow> int" where
  "affine_bytes X Y Z =
     (let recip = Z ^ nat (p25519 - 2) mod p25519;
          x = X * recip mod p25519;
          y = Y * recip mod p25519
      in y + 2 ^ 255 * (if odd x then 1 else 0))"

lemma encoding_steps:
  assumes "fe_bound 101 X" "fe_bound 101 Y" "fe_bound 101 Z"
  defines "recip \<equiv> fe_invert Z"
  shows "length ((fe_tobytes (fe_mul Y recip))[31 := fe_tobytes (fe_mul Y recip) ! 31 XOR
      ucast (push_bit 7 (fe_isnegative (fe_mul X recip)))]) = 32"
    "le_val ((fe_tobytes (fe_mul Y recip))[31 := fe_tobytes (fe_mul Y recip) ! 31 XOR
      ucast (push_bit 7 (fe_isnegative (fe_mul X recip)))]) = affine_bytes (res X) (res Y) (res Z)"
proof -
  note r = fe_invert_spec [OF bound_330(1) [OF assms(3)], folded recip_def]
  have "res recip = lval 10 Z ^ nat (p25519 - 2) mod p25519" by (simp add: res_def r(2))
  also have "\<dots> = res Z ^ nat (p25519 - 2) mod p25519" by (simp only: res_def power_mod)
  finally have recip: "res recip = res Z ^ nat (p25519 - 2) mod p25519" .
  note x = res_mul [OF bound_330(1) [OF assms(1)] bound_330(1) [OF r(1)]]
  note y = res_mul [OF bound_330(1) [OF assms(2)] bound_330(1) [OF r(1)]]
  have "fe_bound 220 (fe_mul X recip)" "fe_bound 220 (fe_mul Y recip)"
    using x(1) y(1) by (auto elim: fe_bound_mono)
  note t = fe_tobytes_spec [OF this(2), folded res_def] fe_isnegative_spec [OF this(1), folded res_def]
  have "le_val (fe_tobytes (fe_mul Y recip)) < 2 ^ 255"
    using pos_mod_bound [of p25519 "lval 10 (fe_mul Y recip)"] by (simp add: t(2) res_def p25519_def)
  from set_sign_bit [OF t(1) this t(3)]
  show "le_val ((fe_tobytes (fe_mul Y recip))[31 := fe_tobytes (fe_mul Y recip) ! 31 XOR
      ucast (push_bit 7 (fe_isnegative (fe_mul X recip)))]) = affine_bytes (res X) (res Y) (res Z)"
    unfolding t(2) x(2) y(2) recip affine_bytes_def Let_def .
qed (simp add: fe_tobytes_def limb_bytes_def)

lemma ge_tobytes_spec:
  assumes "p2_ok h"
  shows "length (ge_tobytes h) = 32" "le_val (ge_tobytes h) = affine_bytes (res (p2_X h)) (res (p2_Y h)) (res (p2_Z h))"
  using encoding_steps [of "p2_X h" "p2_Y h" "p2_Z h"] assms by (simp_all add: ge_tobytes_def Let_def p2_ok_def)

lemma ge_p3_tobytes_spec:
  assumes "p3_ok h"
  shows "length (ge_p3_tobytes h) = 32"
    "le_val (ge_p3_tobytes h) = affine_bytes (res (p3_X h)) (res (p3_Y h)) (res (p3_Z h))"
  using encoding_steps [of "p3_X h" "p3_Y h" "p3_Z h"] assms by (simp_all add: ge_p3_tobytes_def Let_def p3_ok_def)

lemma fe_1_small: "fe_bound 1 fe_1"
  by (simp add: fe_bound_def all_below_10 fe_1_def width_def)

lemma isnonzero_res: "fe_bound b f \<Longrightarrow> b \<le> 220 \<Longrightarrow> fe_isnonzero f = (if res f = 0 then 0 else 1)"
  using fe_isnonzero_spec [OF fe_bound_mono] by (simp add: res_def)

lemma isnegative_res: "fe_bound b f \<Longrightarrow> b \<le> 220 \<Longrightarrow> fe_isnegative f = (if odd (res f) then 1 else 0)"
  using fe_isnegative_spec [OF fe_bound_mono] by (simp add: res_def)

text \<open>
  The candidate for the root of RFC 8032, section 5.1.3, and the test whether it or its product with the
  root of \<open>-1\<close> is one.
\<close>

definition root_candidate :: "int \<Rightarrow> int" where
  "root_candidate y =
     (let u = y * y - 1; v = edwards_d * (y * y) + 1; v3 = v * v * v
      in (v3 * v3 * v * u) ^ nat ((p25519 - 5) div 8) * v3 * u)"

definition decodable :: "int \<Rightarrow> bool" where
  "decodable y \<longleftrightarrow>
     (let u = y * y - 1; v = edwards_d * (y * y) + 1; x = root_candidate y
      in (x * x * v - u) mod p25519 = 0 \<or> (x * x * v + u) mod p25519 = 0)"

lemma decoding_steps:
  assumes "length s = 32"
  shows "ge_frombytes_negate_vartime s = None \<longleftrightarrow> \<not> decodable (res (fe_frombytes s))"
    "ge_frombytes_negate_vartime s = Some h \<Longrightarrow> \<exists>X. fe_bound 101 X \<and> h = (let X = (if fe_isnegative X = ucast (drop_bit 7 (s ! 31)) then fe_neg X else X)
      in \<lparr>p3_X = X, p3_Y = fe_frombytes s, p3_Z = fe_1, p3_T = fe_mul X (fe_frombytes s)\<rparr>) \<and>
    fe_bound 101 (fe_frombytes s) \<and>
    p25519 dvd (edwards_d * (res (fe_frombytes s) * res (fe_frombytes s)) + 1) * (res X * res X) -
      (res (fe_frombytes s) * res (fe_frombytes s) - 1)"
proof -
  define Y where "Y = fe_frombytes s"
  note Y = fe_frombytes_spec(1) [OF assms(1), folded Y_def]
  define u0 where "u0 = fe_sq Y"
  note u0 = res_sq [OF bound_330(1) [OF Y], folded u0_def]
  define v0 where "v0 = fe_mul u0 fe_d"
  note v0 = res_mul [OF bound_330(1) [OF u0(1)] bound_330(1) [OF fe_d_spec(1)], folded v0_def]
  define u v where "u = fe_sub u0 fe_1" and "v = fe_add v0 fe_1"
  have u: "fe_bound 102 u" "res u = (res Y * res Y - 1) mod p25519"
    using res_sub [OF u0(1) fe_1_small, of 102] by (simp_all add: u_def u0(2) mod_simps)
  have v: "fe_bound 102 v" "res v = (edwards_d * (res Y * res Y) + 1) mod p25519"
    using res_add [OF v0(1) fe_1_small, of 102] by (simp_all add: v_def v0(2) u0(2) fe_d_spec(2) mod_simps mult.commute)
  have b: "fe_bound 330 u" "fe_bound 330 v" using u(1) v(1) by (auto elim: fe_bound_mono)
  define X where "X = fe_mul (fe_mul (fe_pow22523 (fe_mul (fe_mul (fe_sq (fe_mul (fe_sq v) v)) v) u)) (fe_mul (fe_sq v) v)) u"
  define u' v' where "u' = res Y * res Y - 1" and "v' = edwards_d * (res Y * res Y) + 1"
  have Xr: "res X = root_candidate (res Y) mod p25519"
  proof -
    have u': "res u = u' mod p25519" and v': "res v = v' mod p25519" by (simp_all add: u v u'_def v'_def)
    define v3 where "v3 = fe_mul (fe_sq v) v"
    have v3: "fe_bound 330 v3" "res v3 = v' * v' * v' mod p25519"
      using res_mul [OF bound_330(1) [OF res_sq(1) [OF b(2)]] b(2)] res_sq(2) [OF b(2)]
      by (simp_all add: v3_def v' bound_330 mod_simps)
    define z where "z = fe_mul (fe_mul (fe_sq v3) v) u"
    have z: "fe_bound 330 z" "res z = (v' * v' * v') * (v' * v' * v') * v' * u' mod p25519"
      using res_mul [OF bound_330(1) [OF res_mul(1) [OF bound_330(1) [OF res_sq(1) [OF v3(1)]] b(2)]] b(1)]
        res_mul(2) [OF bound_330(1) [OF res_sq(1) [OF v3(1)]] b(2)] res_sq(2) [OF v3(1)]
      by (simp_all add: z_def u' v' v3(2) bound_330 mod_simps)
    define e where "e = nat ((p25519 - 5) div 8)"
    define w where "w = fe_pow22523 z"
    have "res w = lval 10 z ^ e mod p25519"
      using fe_pow22523_spec(2) [OF z(1)] by (simp add: w_def e_def res_def)
    also have "\<dots> = res z ^ e mod p25519" by (simp only: res_def power_mod)
    also have "\<dots> = ((v' * v' * v') * (v' * v' * v') * v' * u') ^ e mod p25519" unfolding z(2) power_mod ..
    finally have w: "res w = ((v' * v' * v') * (v' * v' * v') * v' * u') ^ e mod p25519" .
    have wb: "fe_bound 330 w" using fe_pow22523_spec(1) [OF z(1)] by (simp add: w_def bound_330)
    have "X = fe_mul (fe_mul w v3) u" by (simp add: X_def w_def z_def v3_def)
    then show ?thesis
      using res_mul(2) [OF bound_330(1) [OF res_mul(1) [OF wb v3(1)]] b(1)] res_mul(2) [OF wb v3(1)]
      by (simp add: w v3(2) u' mod_simps root_candidate_def Let_def u'_def [symmetric] v'_def [symmetric] e_def [symmetric])
  qed
  have X: "fe_bound 101 X" 
    unfolding X_def by (intro res_mul(1) b bound_330(1) [OF res_mul(1)] bound_330(1) [OF res_sq(1)]
        bound_330(1) [OF fe_pow22523_spec(1)])
  define vxx where "vxx = fe_mul (fe_sq X) v"
  have vxx: "fe_bound 101 vxx" "res vxx = res X * res X * res v mod p25519"
    using res_mul [OF bound_330(1) [OF res_sq(1) [OF bound_330(1) [OF X]]] b(2)] res_sq(2) [OF bound_330(1) [OF X]]
    by (simp_all add: vxx_def mod_simps)
  have c1: "fe_isnonzero (fe_sub vxx u) = 0 \<longleftrightarrow> (res vxx - res u) mod p25519 = 0"
    using res_sub [OF vxx(1) u(1), of 203] isnonzero_res [of 203 "fe_sub vxx u"] by simp
  have c2: "fe_isnonzero (fe_add vxx u) = 0 \<longleftrightarrow> (res vxx + res u) mod p25519 = 0"
    using res_add [OF vxx(1) u(1), of 203] isnonzero_res [of 203 "fe_add vxx u"] by simp
  define root where "root = (if fe_isnonzero (fe_sub vxx u) \<noteq> 0 then
      if fe_isnonzero (fe_add vxx u) \<noteq> 0 then None else Some (fe_mul X sqrtm1) else Some X)"
  have g: "ge_frombytes_negate_vartime s = (case root of None \<Rightarrow> None | Some X \<Rightarrow>
      let X = (if fe_isnegative X = ucast (drop_bit 7 (s ! 31)) then fe_neg X else X)
      in Some \<lparr>p3_X = X, p3_Y = Y, p3_Z = fe_1, p3_T = fe_mul X Y\<rparr>)"
    by (simp add: ge_frombytes_negate_vartime_def Let_def root_def vxx_def X_def u_def v_def v0_def u0_def Y_def)
  define x where "x = root_candidate (res Y)"
  have "(res X * res X * res v) mod p25519 = (x * x * v') mod p25519"
    unfolding Xr v(2) v'_def x_def by (intro mod_mult_cong mod_mod_trivial)
  then have "res vxx mod p25519 = (x * x * v') mod p25519" by (simp add: vxx(2))
  moreover have "res u mod p25519 = u' mod p25519" by (simp add: u(2) u'_def)
  ultimately have "(res vxx - res u) mod p25519 = (x * x * v' - u') mod p25519"
    "(res vxx + res u) mod p25519 = (x * x * v' + u') mod p25519"
    by (auto intro: mod_diff_cong mod_add_cong)
  note c = c1 [unfolded this] c2 [unfolded this]
  have "root = None \<longleftrightarrow> \<not> decodable (res Y)"
    unfolding root_def decodable_def Let_def x_def [symmetric] u'_def [symmetric] v'_def [symmetric] using c by simp
  then show "ge_frombytes_negate_vartime s = None \<longleftrightarrow> \<not> decodable (res (fe_frombytes s))"
    unfolding g by (cases root) (simp_all add: Y_def Let_def)
  assume some: "ge_frombytes_negate_vartime s = Some h"
  then obtain R where R: "root = Some R" using g by (cases root) auto
  have k: "p25519 dvd res v * (res R * res R) - res u \<and> fe_bound 101 R"
  proof (cases "fe_isnonzero (fe_sub vxx u) = 0")
    case True
    then have "R = X" using R by (simp add: root_def)
    moreover have "(res X * res X * res v - res u) mod p25519 = 0" using True c1 vxx(2) by (simp add: mod_simps)
    ultimately show ?thesis using X by (simp add: dvd_eq_mod_eq_0 mult.commute)
  next
    case False
    then have r: "fe_isnonzero (fe_add vxx u) = 0" "R = fe_mul X sqrtm1" using R by (auto simp: root_def split: if_splits)
    note m = res_mul [OF bound_330(1) [OF X] bound_330(1) [OF sqrtm1_spec(1)]]
    have z: "p25519 dvd res X * res X * res v + res u" using r(1) c2 vxx(2) by (simp add: mod_simps dvd_eq_mod_eq_0)
    have q: "p25519 dvd res sqrtm1 * res sqrtm1 + 1"
      using sqrtm1_spec(2) by (simp add: dvd_eq_mod_eq_0 mod_add_left_eq [of "res sqrtm1 * res sqrtm1", symmetric]
          del: mod_add_left_eq)
    have e: "res v * (res X * res sqrtm1 * (res X * res sqrtm1)) - res u =
        res X * res X * res v * (res sqrtm1 * res sqrtm1 + 1) - (res X * res X * res v + res u)"
      by (simp add: algebra_simps)
    have "p25519 dvd res v * (res X * res sqrtm1 * (res X * res sqrtm1)) - res u"
      unfolding e by (intro dvd_diff dvd_mult z q)
    moreover have "(res v * (res R * res R) - res u) mod p25519 =
        (res v * (res X * res sqrtm1 * (res X * res sqrtm1)) - res u) mod p25519"
      unfolding r(2) m(2) by (intro mod_diff_cong mod_mult_cong mod_mod_trivial refl)
    ultimately show ?thesis using m(1) r(2) by (simp add: dvd_eq_mod_eq_0)
  qed
  have "(res v * (res R * res R) - res u) mod p25519 =
      ((edwards_d * (res Y * res Y) + 1) * (res R * res R) - (res Y * res Y - 1)) mod p25519"
    unfolding u(2) v(2) by (intro mod_diff_cong mod_mult_cong mod_mod_trivial refl)
  then have "p25519 dvd (edwards_d * (res Y * res Y) + 1) * (res R * res R) - (res Y * res Y - 1)"
    using k by (simp add: dvd_eq_mod_eq_0)
  then show "\<exists>X. fe_bound 101 X \<and> h = (let X = (if fe_isnegative X = ucast (drop_bit 7 (s ! 31)) then fe_neg X else X)
      in \<lparr>p3_X = X, p3_Y = fe_frombytes s, p3_Z = fe_1, p3_T = fe_mul X (fe_frombytes s)\<rparr>) \<and>
    fe_bound 101 (fe_frombytes s) \<and>
    p25519 dvd (edwards_d * (res (fe_frombytes s) * res (fe_frombytes s)) + 1) * (res X * res X) -
      (res (fe_frombytes s) * res (fe_frombytes s) - 1)"
    using k g some Y R by (auto simp: Y_def [symmetric] Let_def)
qed

lemma sign_byte: "ucast (drop_bit 7 (b :: byte)) = (if bit b 7 then 1 else 0 :: s32)"
proof (rule bit_word_eqI)
  fix n :: nat
  have "n = 0" if "bit b (n + 7)" using bit_imp_le_length [OF that] by simp
  then show "bit (ucast (drop_bit 7 b) :: s32) n \<longleftrightarrow> bit (if bit b 7 then 1 else 0 :: s32) n" if "n < LENGTH(32)"
    using that by (auto simp: bit_ucast_iff bit_drop_bit_eq bit_1_iff add.commute)
qed

lemma negation_parity:
  assumes "x mod p25519 = x" "x \<noteq> 0"
  shows "odd (- x mod p25519) \<longleftrightarrow> even x" "- x mod p25519 \<noteq> 0"
proof -
  have "0 < x" "x < p25519" using assms pos_mod_bound [of p25519 x] pos_mod_sign [of p25519 x] by (auto simp: p25519_def)
  then have "- x mod p25519 = p25519 - x" by (simp add: zmod_zminus1_eq_if)
  moreover have "odd p25519" by (simp add: p25519_def)
  ultimately show "odd (- x mod p25519) \<longleftrightarrow> even x" "- x mod p25519 \<noteq> 0" using \<open>x < p25519\<close> by auto
qed

lemma decoded_form:
  assumes "length s = 32" "ge_frombytes_negate_vartime s = Some h"
  defines "Y \<equiv> fe_frombytes s"
  shows "\<exists>R. h = \<lparr>p3_X = R, p3_Y = Y, p3_Z = fe_1, p3_T = fe_mul R Y\<rparr> \<and> fe_bound 101 R \<and> fe_bound 101 Y \<and>
    (res R = 0 \<or> odd (res R) \<noteq> bit (s ! 31) 7) \<and>
    p25519 dvd (edwards_d * (res Y * res Y) + 1) * (res R * res R) - (res Y * res Y - 1)"
proof -
  from decoding_steps(2) [OF assms(1,2), folded Y_def] obtain X where X: "fe_bound 101 X"
    "h = (let X = (if fe_isnegative X = ucast (drop_bit 7 (s ! 31)) then fe_neg X else X)
      in \<lparr>p3_X = X, p3_Y = Y, p3_Z = fe_1, p3_T = fe_mul X Y\<rparr>)" "fe_bound 101 Y"
    "p25519 dvd (edwards_d * (res Y * res Y) + 1) * (res X * res X) - (res Y * res Y - 1)" by blast
  define R where "R = (if fe_isnegative X = ucast (drop_bit 7 (s ! 31)) then fe_neg X else X)"
  note n = res_neg [OF X(1), simplified]
  have sq: "(res R * res R) mod p25519 = (res X * res X) mod p25519"
    using mod_mult_eq [of "- res X" p25519 "- res X"] by (auto simp: R_def n(2))
  have "((edwards_d * (res Y * res Y) + 1) * (res R * res R) - (res Y * res Y - 1)) mod p25519 =
      ((edwards_d * (res Y * res Y) + 1) * (res X * res X) - (res Y * res Y - 1)) mod p25519"
    by (rule mod_diff_cong [OF mod_mult_cong [OF refl sq] refl])
  moreover have "res R = 0 \<or> odd (res R) \<noteq> bit (s ! 31) 7"
    using isnegative_res [OF X(1)] negation_parity [of "res X"]
    by (cases "res X = 0") (auto simp: R_def n(2) sign_byte split: if_splits)
  moreover have "h = \<lparr>p3_X = R, p3_Y = Y, p3_Z = fe_1, p3_T = fe_mul R Y\<rparr>" by (simp add: X(2) R_def Let_def)
  moreover have "fe_bound 101 R" using X(1) n(1) by (simp add: R_def)
  ultimately show ?thesis using X(3,4) by (auto simp: dvd_eq_mod_eq_0)
qed

lemma decoded_ok:
  assumes "length s = 32" "ge_frombytes_negate_vartime s = Some h"
  shows "p3_ok h"
proof -
  from decoded_form [OF assms] obtain R where h: "h = \<lparr>p3_X = R, p3_Y = fe_frombytes s, p3_Z = fe_1, p3_T = fe_mul R (fe_frombytes s)\<rparr>"
    and R: "fe_bound 101 R" "fe_bound 101 (fe_frombytes s)" by blast
  note t = res_mul(1) [OF bound_330(1) [OF R(1)] bound_330(1) [OF R(2)]]
  show ?thesis using R t by (simp add: h p3_ok_def fe_1_spec)
qed

text \<open>
  C22 Decoding of points: \<open>ge_frombytes_negate_vartime\<close> accepts 32 bytes exactly if the candidate of
  RFC 8032 for the \<open>x\<close> coordinate, or its product with the root of \<open>-1\<close>, solves the curve equation; the
  point it returns has limbs in bounds, lies on the curve, has the \<open>y\<close> coordinate of the low 255 bits,
  and an \<open>x\<close> coordinate that is zero or has the sign opposite to the top bit.
\<close>

theorem point_decoding:
  assumes "length s = 32"
  shows "(ge_frombytes_negate_vartime s = None \<longleftrightarrow> \<not> decodable (le_val s mod 2 ^ 255 mod p25519)) \<and>
    (\<forall>h. ge_frombytes_negate_vartime s = Some h \<longrightarrow>
       p3_ok h \<and> on_curve (ext_of h) \<and> res (p3_Z h) = 1 \<and> res (p3_Y h) = le_val s mod 2 ^ 255 mod p25519 \<and>
       (res (p3_X h) = 0 \<or> odd (res (p3_X h)) \<noteq> bit (s ! 31) 7))"
proof (intro conjI allI impI)
  note d = decoding_steps [OF assms]
  define Y where "Y = fe_frombytes s"
  have y: "res Y = le_val s mod 2 ^ 255 mod p25519" using fe_frombytes_spec(2) [OF assms] by (simp add: res_def Y_def)
  show "ge_frombytes_negate_vartime s = None \<longleftrightarrow> \<not> decodable (le_val s mod 2 ^ 255 mod p25519)"
    using d(1) by (simp add: y [unfolded Y_def])
  fix h assume some: "ge_frombytes_negate_vartime s = Some h"
  then show "p3_ok h" by (rule decoded_ok [OF assms])
  from decoded_form [OF assms some, folded Y_def] obtain R where
    h: "h = \<lparr>p3_X = R, p3_Y = Y, p3_Z = fe_1, p3_T = fe_mul R Y\<rparr>" and R: "fe_bound 101 R" and X: "fe_bound 101 Y"
      "res R = 0 \<or> odd (res R) \<noteq> bit (s ! 31) 7"
      "p25519 dvd (edwards_d * (res Y * res Y) + 1) * (res R * res R) - (res Y * res Y - 1)" by blast
  note t = res_mul [OF bound_330(1) [OF R] bound_330(1) [OF X(1)]]
  show "res (p3_Z h) = 1" "res (p3_Y h) = le_val s mod 2 ^ 255 mod p25519" by (simp_all add: h y)
  show "res (p3_X h) = 0 \<or> odd (res (p3_X h)) \<noteq> bit (s ! 31) 7"
    using X(2) by (simp add: h)
  have "(res Y * res Y - res R * res R - 1 - edwards_d * (res R * res Y * (res R * res Y))) mod p25519 =
      (res Y * res Y - 1 - (edwards_d * (res Y * res Y) + 1) * (res R * res R)) mod p25519"
    by (simp add: algebra_simps)
  also have "\<dots> = 0"
    using dvd_minus_iff [THEN iffD2, OF X(3)] by (simp add: dvd_eq_mod_eq_0)
  finally have "curve_eq (res R) (res Y) 1 (res R * res Y)"
    by (simp add: curve_eq_def dvd_eq_mod_eq_0)
  then have "curve_eq (res R mod p25519) (res Y mod p25519) (1 mod p25519) (res R * res Y mod p25519)"
    by (simp only: curve_eq_mod)
  then show "on_curve (ext_of h)" by (simp add: on_curve_def ext_of_def h t(2)) (simp add: p25519_def)
qed

lemma decodable_0: "decodable 0"
proof -
  have "(- 1 :: int) ^ n * (- 1) ^ n = 1" for n by (simp add: power_mult_distrib [symmetric])
  then show ?thesis by (simp add: decodable_def root_candidate_def Let_def)
qed

theorem point_decoding_witness:
  "\<exists>h. ge_frombytes_negate_vartime (replicate 32 0) = Some h \<and> p3_ok h \<and> on_curve (ext_of h) \<and>
     res (p3_Y h) = 0 \<and> (res (p3_X h) = 0 \<or> odd (res (p3_X h)))"
  using point_decoding [of "replicate 32 0"] decodable_0 by (simp add: le_val_zeros) blast

text \<open>
  C23 Round trip of public keys: a point that was decoded from bytes with a canonical \<open>y\<close> coordinate and
  negated back, as long as its \<open>x\<close> coordinate is not zero, is encoded as the same bytes.
\<close>

theorem point_encoding_round_trip:
  assumes "length s = 32" "le_val s mod 2 ^ 255 < p25519" "ge_frombytes_negate_vartime s = Some h"
    "res (p3_X h) \<noteq> 0"
  shows "ge_p3_tobytes (h\<lparr>p3_X := fe_neg (p3_X h), p3_T := fe_neg (p3_T h)\<rparr>) = s"
proof -
  define Y where "Y = fe_frombytes s"
  from decoded_form [OF assms(1,3), folded Y_def] obtain R where
    h: "h = \<lparr>p3_X = R, p3_Y = Y, p3_Z = fe_1, p3_T = fe_mul R Y\<rparr>" and R: "fe_bound 101 R" and Y: "fe_bound 101 Y"
      "res R = 0 \<or> odd (res R) \<noteq> bit (s ! 31) 7" by blast
  note nR = res_neg [OF R, simplified]
  note t = res_neg [OF res_mul(1) [OF bound_330(1) [OF R] bound_330(1) [OF Y(1)]], simplified]
  have nz: "res R \<noteq> 0" using assms(4) by (simp add: h)
  then have "odd (res R) \<noteq> bit (s ! 31) 7" using Y(2) by simp
  then have par: "odd (- res R mod p25519) = bit (s ! 31) 7" using negation_parity(1) [of "res R"] nz by simp
  define g where "g = h\<lparr>p3_X := fe_neg (p3_X h), p3_T := fe_neg (p3_T h)\<rparr>"
  have g: "g = \<lparr>p3_X = fe_neg R, p3_Y = Y, p3_Z = fe_1, p3_T = fe_neg (fe_mul R Y)\<rparr>" by (simp add: g_def h)
  have "p3_ok g" using nR(1) Y(1) t(1) by (simp add: g p3_ok_def fe_1_spec Y_def)
  note e = ge_p3_tobytes_spec [OF this]
  have y: "res Y = le_val s mod 2 ^ 255"
    using fe_frombytes_spec(2) [OF assms(1)] assms(2) by (simp add: res_def Y_def)
  have one: "1 mod p25519 = 1" by (simp add: p25519_def)
  have "le_val (ge_p3_tobytes g) = res Y + 2 ^ 255 * (if bit (s ! 31) 7 then 1 else 0)"
    using par e(2) by (simp add: g affine_bytes_def one nR(2) Let_def)
  also have "\<dots> = le_val s" unfolding y using sign_bit [OF assms(1)] by simp
  finally have "le_val (ge_p3_tobytes g) = le_val s" .
  then show ?thesis using le_val_inject [OF e(1) assms(1)] by (simp add: g_def)
qed

theorem point_encoding_round_trip_witness:
  "\<exists>h. ge_frombytes_negate_vartime (replicate 32 0) = Some h \<and>
     ge_p3_tobytes (h\<lparr>p3_X := fe_neg (p3_X h), p3_T := fe_neg (p3_T h)\<rparr>) = replicate 32 0"
proof -
  have l: "length (replicate 32 (0 :: byte)) = 32" by simp
  have y: "res (fe_frombytes (replicate 32 0)) = 0"
    using fe_frombytes_spec(2) [OF l] by (simp add: res_def le_val_zeros)
  obtain h where h: "ge_frombytes_negate_vartime (replicate 32 0) = Some h"
    using decoding_steps(1) [OF l] decodable_0 by (auto simp: y)
  from decoded_form [OF l h] obtain R Y where
    R: "h = \<lparr>p3_X = R, p3_Y = Y, p3_Z = fe_1, p3_T = fe_mul R Y\<rparr>" "p25519 dvd res R * res R + 1"
    by (auto simp: y)
  then have "res (p3_X h) \<noteq> 0" by (auto simp: p25519_def)
  from point_encoding_round_trip [OF l _ h this] h show ?thesis by (simp add: le_val_zeros p25519_def)
qed

end
