(* ===== verification/EdMultiples.thy ===== *)
theory EdMultiples
  imports EdGroup
begin

text \<open>
  The scalar multiplications of \<open>lib/ed25519/src/ge.c\<close>: multiples of the base point, from a table and
  digits between -8 and 8, and sums of multiples of two points, from signed windows.  The lemmas show
  that the digits represent the scalar, and that the result is built from the point and the tables by
  additions, doublings and negations whose multiples add up to the scalars.
\<close>

section \<open>Multiples of the base point\<close>

text \<open>
  Digits of a scalar are of the type \<open>signed char\<close>, in which \<open>schar\<close> stores an integer.
\<close>

definition schar :: "int \<Rightarrow> int" where
  "schar x = (x + 128) mod 256 - 128"

definition ge_equal :: "int \<Rightarrow> int \<Rightarrow> byte" where
  "ge_equal b c =
     (let ub = word_of_int b :: byte;
          uc = word_of_int c :: byte;
          x = ub XOR uc;
          y = ucast x :: u64;
          y = y - 1;
          y = drop_bit 63 y
      in ucast y)"

definition ge_negative :: "int \<Rightarrow> byte" where
  "ge_negative b =
     (let x = word_of_int b :: u64;
          x = drop_bit 63 x
      in ucast x)"

definition ge_cmov :: "ge_precomp \<Rightarrow> ge_precomp \<Rightarrow> byte \<Rightarrow> ge_precomp" where
  "ge_cmov t u b =
     \<lparr>yplusx = fe_cmov (yplusx t) (yplusx u) (ucast b), yminusx = fe_cmov (yminusx t) (yminusx u) (ucast b),
      xy2d = fe_cmov (xy2d t) (xy2d u) (ucast b)\<rparr>"

definition ge_select :: "nat \<Rightarrow> int \<Rightarrow> ge_precomp" where
  "ge_select pos b =
     (let bnegative = ge_negative b;
          babs = word_of_int (b - push_bit 1 ((- uint bnegative) AND b)) :: byte;
          t = \<lparr>yplusx = fe_1, yminusx = fe_1, xy2d = fe_0\<rparr>;
          t = ge_cmov t (base ! pos ! 0) (ge_equal (schar (uint babs)) 1);
          t = ge_cmov t (base ! pos ! 1) (ge_equal (schar (uint babs)) 2);
          t = ge_cmov t (base ! pos ! 2) (ge_equal (schar (uint babs)) 3);
          t = ge_cmov t (base ! pos ! 3) (ge_equal (schar (uint babs)) 4);
          t = ge_cmov t (base ! pos ! 4) (ge_equal (schar (uint babs)) 5);
          t = ge_cmov t (base ! pos ! 5) (ge_equal (schar (uint babs)) 6);
          t = ge_cmov t (base ! pos ! 6) (ge_equal (schar (uint babs)) 7);
          t = ge_cmov t (base ! pos ! 7) (ge_equal (schar (uint babs)) 8);
          minust = \<lparr>yplusx = fe_copy (yminusx t), yminusx = fe_copy (yplusx t), xy2d = fe_neg (xy2d t)\<rparr>
      in ge_cmov t minust bnegative)"

definition nibbles :: "bytes \<Rightarrow> int list" where
  "nibbles a = concat (map (\<lambda>i. [uint (drop_bit 0 (a ! i) AND 15), uint (drop_bit 4 (a ! i) AND 15)]) [0..<32])"

definition recode_step :: "int list \<times> int \<Rightarrow> nat \<Rightarrow> int list \<times> int" where
  "recode_step = (\<lambda>(e, carry) i.
     let e = e[i := schar (e ! i + carry)];
         carry = schar (e ! i + 8);
         carry = drop_bit 4 carry;
         e = e[i := schar (e ! i - push_bit 4 carry)]
     in (e, carry))"

definition radix16_digits :: "bytes \<Rightarrow> int list" where
  "radix16_digits a =
     (let (e, carry) = foldl recode_step (nibbles a, 0) [0..<63]
      in e[63 := schar (e ! 63 + carry)])"

definition add_digit :: "int list \<Rightarrow> ge_p3 \<Rightarrow> nat \<Rightarrow> ge_p3" where
  "add_digit e h i =
     (let t = ge_select (i div 2) (e ! i);
          r = ge_madd h t
      in ge_p1p1_to_p3 r)"

definition ge_scalarmult_base :: "bytes \<Rightarrow> ge_p3" where
  "ge_scalarmult_base a =
     (let e = radix16_digits a;
          h = ge_p3_0;
          h = foldl (add_digit e) h (map (\<lambda>k. 2 * k + 1) [0..<32]);
          r = ge_p3_dbl h;
          s = ge_p1p1_to_p2 r;
          r = ge_p2_dbl s;
          s = ge_p1p1_to_p2 r;
          r = ge_p2_dbl s;
          s = ge_p1p1_to_p2 r;
          r = ge_p2_dbl s;
          h = ge_p1p1_to_p3 r
      in foldl (add_digit e) h (map (\<lambda>k. 2 * k) [0..<32]))"

section \<open>Multiples of two points\<close>

text \<open>
  \<open>slide\<close> turns the bits of a scalar into signed digits.  \<open>slide_carry\<close> is its loop over \<open>k\<close>,
  \<open>slide_window\<close> its loop over \<open>b\<close>.
\<close>

function slide_carry :: "int list \<Rightarrow> nat \<Rightarrow> int list" where
  "slide_carry r k =
     (if k < 256 then
        if r ! k = 0 then r[k := 1]
        else slide_carry (r[k := 0]) (k + 1)
      else r)"
  by pat_completeness auto
termination by (relation "measure (\<lambda>(r, k). 256 - k)") auto

function slide_window :: "int list \<Rightarrow> nat \<Rightarrow> nat \<Rightarrow> int list" where
  "slide_window r i b =
     (if b \<le> 6 \<and> i + b < 256 then
        if r ! (i + b) \<noteq> 0 then
          if r ! i + push_bit b (r ! (i + b)) \<le> 15 then
            let r = r[i := schar (r ! i + push_bit b (r ! (i + b)))];
                r = r[i + b := 0]
            in slide_window r i (b + 1)
          else if r ! i - push_bit b (r ! (i + b)) \<ge> - 15 then
            let r = r[i := schar (r ! i - push_bit b (r ! (i + b)))];
                r = slide_carry r (i + b)
            in slide_window r i (b + 1)
          else r
        else slide_window r i (b + 1)
      else r)"
  by pat_completeness auto
termination by (relation "measure (\<lambda>(r, i, b). 7 - b)") auto

declare slide_carry.simps [simp del] slide_window.simps [simp del]

definition slide :: "bytes \<Rightarrow> int list" where
  "slide a =
     (let r = map (\<lambda>i. uint (1 AND drop_bit (i AND 7) (a ! drop_bit 3 i))) [0..<256]
      in foldl (\<lambda>r i. if r ! i \<noteq> 0 then slide_window r i 1 else r) r [0..<256])"

text \<open>
  \<open>odd_multiples\<close> fills the array \<open>Ai\<close>; \<open>top_digit\<close> is the first loop over \<open>i\<close> and returns the number
  of digits the second one, \<open>double_add\<close>, still has to process.
\<close>

definition odd_multiples :: "ge_p3 \<Rightarrow> ge_cached list" where
  "odd_multiples A =
     (let a0 = ge_p3_to_cached A;
          t = ge_p3_dbl A;
          A2 = ge_p1p1_to_p3 t;
          t = ge_add A2 a0; u = ge_p1p1_to_p3 t; a1 = ge_p3_to_cached u;
          t = ge_add A2 a1; u = ge_p1p1_to_p3 t; a2 = ge_p3_to_cached u;
          t = ge_add A2 a2; u = ge_p1p1_to_p3 t; a3 = ge_p3_to_cached u;
          t = ge_add A2 a3; u = ge_p1p1_to_p3 t; a4 = ge_p3_to_cached u;
          t = ge_add A2 a4; u = ge_p1p1_to_p3 t; a5 = ge_p3_to_cached u;
          t = ge_add A2 a5; u = ge_p1p1_to_p3 t; a6 = ge_p3_to_cached u;
          t = ge_add A2 a6; u = ge_p1p1_to_p3 t; a7 = ge_p3_to_cached u
      in [a0, a1, a2, a3, a4, a5, a6, a7])"

primrec top_digit :: "int list \<Rightarrow> int list \<Rightarrow> nat \<Rightarrow> nat" where
  "top_digit aslide bslide 0 = 0"
| "top_digit aslide bslide (Suc i) =
     (if aslide ! i \<noteq> 0 \<or> bslide ! i \<noteq> 0 then Suc i else top_digit aslide bslide i)"

definition double_add_step :: "ge_cached list \<Rightarrow> int \<Rightarrow> int \<Rightarrow> ge_p2 \<Rightarrow> ge_p2" where
  "double_add_step Ai da db r =
     (let t = ge_p2_dbl r;
          t = (if da > 0 then
                 let u = ge_p1p1_to_p3 t in ge_add u (Ai ! nat (da div 2))
               else if da < 0 then
                 let u = ge_p1p1_to_p3 t in ge_sub u (Ai ! nat ((- da) div 2))
               else t);
          t = (if db > 0 then
                 let u = ge_p1p1_to_p3 t in ge_madd u (Bi ! nat (db div 2))
               else if db < 0 then
                 let u = ge_p1p1_to_p3 t in ge_msub u (Bi ! nat ((- db) div 2))
               else t)
      in ge_p1p1_to_p2 t)"

primrec double_add :: "ge_cached list \<Rightarrow> int list \<Rightarrow> int list \<Rightarrow> nat \<Rightarrow> ge_p2 \<Rightarrow> ge_p2" where
  "double_add Ai aslide bslide 0 r = r"
| "double_add Ai aslide bslide (Suc i) r =
     double_add Ai aslide bslide i (double_add_step Ai (aslide ! i) (bslide ! i) r)"

definition ge_double_scalarmult_vartime :: "bytes \<Rightarrow> ge_p3 \<Rightarrow> bytes \<Rightarrow> ge_p2" where
  "ge_double_scalarmult_vartime a A b =
     (let aslide = slide a;
          bslide = slide b;
          Ai = odd_multiples A;
          r = ge_p2_0;
          i = top_digit aslide bslide 256
      in double_add Ai aslide bslide i r)"

section \<open>Signed characters\<close>

lemma schar_id: "- 128 \<le> x \<Longrightarrow> x < 128 \<Longrightarrow> schar x = x"
  by (simp add: schar_def)

section \<open>The tables\<close>

definition precomp_ok :: "ge_precomp \<Rightarrow> bool" where
  "precomp_ok c \<longleftrightarrow> fe_bound 330 (yplusx c) \<and> fe_bound 330 (yminusx c) \<and> fe_bound 330 (xy2d c)"

definition cached_ok :: "ge_cached \<Rightarrow> bool" where
  "cached_ok c \<longleftrightarrow> fe_bound 330 (YplusX c) \<and> fe_bound 330 (YminusX c) \<and> fe_bound 330 (ca_Z c) \<and> fe_bound 330 (T2d c)"

lemma cached_as_ok: "cached_as c Q \<Longrightarrow> cached_ok c"
  by (auto simp: cached_as_def cached_ok_def split: prod.splits)

definition small_fe :: "fe \<Rightarrow> bool" where
  "small_fe f \<longleftrightarrow> length f = 10 \<and> list_all (\<lambda>x. \<bar>sint x\<bar> \<le> 55364812) f"

definition small_row :: "ge_precomp list \<Rightarrow> bool" where
  "small_row row \<longleftrightarrow> length row = 8 \<and> list_all (\<lambda>c. small_fe (yplusx c) \<and> small_fe (yminusx c) \<and> small_fe (xy2d c)) row"

lemma small_fe_bound: "small_fe f \<Longrightarrow> fe_bound 330 f"
  by (auto simp: small_fe_def fe_bound_def list_all_length width_def)

lemma small_row_ok: "small_row row \<Longrightarrow> j < 8 \<Longrightarrow> precomp_ok (row ! j)"
  by (auto simp: small_row_def precomp_ok_def list_all_length intro: small_fe_bound)

lemma small_Bi: "small_row Bi"
  by (simp add: small_row_def small_fe_def Bi_def)

lemma small_base_0:
  "small_row base_0" "small_row base_1" "small_row base_2" "small_row base_3"
  "small_row base_4" "small_row base_5" "small_row base_6" "small_row base_7"
  subgoal by (simp add: small_row_def small_fe_def base_0_def)
  subgoal by (simp add: small_row_def small_fe_def base_1_def)
  subgoal by (simp add: small_row_def small_fe_def base_2_def)
  subgoal by (simp add: small_row_def small_fe_def base_3_def)
  subgoal by (simp add: small_row_def small_fe_def base_4_def)
  subgoal by (simp add: small_row_def small_fe_def base_5_def)
  subgoal by (simp add: small_row_def small_fe_def base_6_def)
  subgoal by (simp add: small_row_def small_fe_def base_7_def)
  done

lemma small_base_8:
  "small_row base_8" "small_row base_9" "small_row base_10" "small_row base_11"
  "small_row base_12" "small_row base_13" "small_row base_14" "small_row base_15"
  subgoal by (simp add: small_row_def small_fe_def base_8_def)
  subgoal by (simp add: small_row_def small_fe_def base_9_def)
  subgoal by (simp add: small_row_def small_fe_def base_10_def)
  subgoal by (simp add: small_row_def small_fe_def base_11_def)
  subgoal by (simp add: small_row_def small_fe_def base_12_def)
  subgoal by (simp add: small_row_def small_fe_def base_13_def)
  subgoal by (simp add: small_row_def small_fe_def base_14_def)
  subgoal by (simp add: small_row_def small_fe_def base_15_def)
  done

lemma small_base_16:
  "small_row base_16" "small_row base_17" "small_row base_18" "small_row base_19"
  "small_row base_20" "small_row base_21" "small_row base_22" "small_row base_23"
  subgoal by (simp add: small_row_def small_fe_def base_16_def)
  subgoal by (simp add: small_row_def small_fe_def base_17_def)
  subgoal by (simp add: small_row_def small_fe_def base_18_def)
  subgoal by (simp add: small_row_def small_fe_def base_19_def)
  subgoal by (simp add: small_row_def small_fe_def base_20_def)
  subgoal by (simp add: small_row_def small_fe_def base_21_def)
  subgoal by (simp add: small_row_def small_fe_def base_22_def)
  subgoal by (simp add: small_row_def small_fe_def base_23_def)
  done

lemma small_base_24:
  "small_row base_24" "small_row base_25" "small_row base_26" "small_row base_27"
  "small_row base_28" "small_row base_29" "small_row base_30" "small_row base_31"
  subgoal by (simp add: small_row_def small_fe_def base_24_def)
  subgoal by (simp add: small_row_def small_fe_def base_25_def)
  subgoal by (simp add: small_row_def small_fe_def base_26_def)
  subgoal by (simp add: small_row_def small_fe_def base_27_def)
  subgoal by (simp add: small_row_def small_fe_def base_28_def)
  subgoal by (simp add: small_row_def small_fe_def base_29_def)
  subgoal by (simp add: small_row_def small_fe_def base_30_def)
  subgoal by (simp add: small_row_def small_fe_def base_31_def)
  done

lemma small_base: "length base = 32 \<and> list_all small_row base"
  by (simp add: base_def small_base_0 small_base_8 small_base_16 small_base_24)

lemma tables_ok:
  "j < 8 \<Longrightarrow> precomp_ok (Bi ! j)" "i < 32 \<Longrightarrow> j < 8 \<Longrightarrow> precomp_ok (base ! i ! j)"
  using small_row_ok [OF small_Bi] small_base by (auto intro: small_row_ok simp: list_all_length)

text \<open>
  The point an entry of a table stands for; \<open>2\<close> and \<open>2d\<close> have inverses.
\<close>

definition half :: int where
  "half = 28948022309329048855892746252171976963317496166410141009864396001978282409975"

definition half_of_d :: int where
  "half_of_d = 43549684094568965012858857662598492841029503910925194177450539249793226832920"

definition table_point :: "ge_precomp \<Rightarrow> ext" where
  "table_point c =
     ((res (yplusx c) - res (yminusx c)) * half mod p25519, (res (yplusx c) + res (yminusx c)) * half mod p25519, 1,
      res (xy2d c) * half_of_d mod p25519)"

lemma half_inverse: "2 * half = p25519 + 1"
  by (simp add: half_def p25519_def)

lemma half_of_d_inverse: "half_of_d * (2 * edwards_d) = 55807137961174422888521234347933942258682869123274760608603172410001660246251 * p25519 + 1"
  by (simp add: half_of_d_def edwards_d_def p25519_def)

lemma precomp_as_table_point:
  assumes "precomp_ok c"
  shows "precomp_as c (table_point c)"
proof -
  have h: "x * half + x * half = x + p25519 * x" for x
    using arg_cong [OF half_inverse, of "\<lambda>h. x * h"] by (simp add: algebra_simps)
  have t: "x * half_of_d * (2 * edwards_d) = x + p25519 * (55807137961174422888521234347933942258682869123274760608603172410001660246251 * x)" for x
    using arg_cong [OF half_of_d_inverse, of "\<lambda>h. x * h"] by (simp add: algebra_simps)
  have "res (yplusx c) = ((res (yplusx c) + res (yminusx c)) * half mod p25519 +
      (res (yplusx c) - res (yminusx c)) * half mod p25519) mod p25519"
    using h [of "res (yplusx c)"] by (simp add: mod_simps ring_distribs)
  moreover have "res (yminusx c) = ((res (yplusx c) + res (yminusx c)) * half mod p25519 -
      (res (yplusx c) - res (yminusx c)) * half mod p25519) mod p25519"
    using h [of "res (yminusx c)"] by (simp add: mod_simps ring_distribs)
  moreover have "res (xy2d c) = res (xy2d c) * half_of_d mod p25519 * (2 * edwards_d) mod p25519"
    unfolding mod_mult_left_eq t by simp
  ultimately show ?thesis
    using assms unfolding table_point_def precomp_as_def prod.case precomp_ok_def by blast
qed

lemma precomp_as_neg:
  assumes "precomp_as c Q"
  shows "precomp_as \<lparr>yplusx = fe_copy (yminusx c), yminusx = fe_copy (yplusx c), xy2d = fe_neg (xy2d c)\<rparr> (ext_neg Q)"
proof -
  obtain X Y Z T where Q: "Q = (X, Y, Z, T)" by (cases Q)
  note q = assms [unfolded precomp_as_def Q prod.case]
  have b: "fe_bound 330 (xy2d c)" using q by blast
  show ?thesis
    unfolding precomp_as_def Q ext_neg_def prod.case
    using q res_neg [OF b] by (auto simp: fe_copy_bounded mod_simps)
qed

lemma precomp_as_zero: "precomp_as \<lparr>yplusx = fe_1, yminusx = fe_1, xy2d = fe_0\<rparr> ext_zero"
  by (simp add: precomp_as_def ext_zero_def fe_0_spec bound_330 fe_1_spec) (simp add: p25519_def)

section \<open>Selecting an entry\<close>

lemma ge_equal_spec: "x \<in> {0..8} \<Longrightarrow> y \<in> {1..8} \<Longrightarrow> ge_equal x y = (if x = y then 1 else 0)"
proof -
  have "list_all (\<lambda>x. list_all (\<lambda>y. ge_equal x y = (if x = y then 1 else 0)) [1, 2, 3, 4, 5, 6, 7, 8])
      [0, 1, 2, 3, 4, 5, 6, 7, 8]"
    by (simp add: ge_equal_def Let_def)
  moreover assume "x \<in> {0..8}" "y \<in> {1..8}"
  then have "x \<in> set [0, 1, 2, 3, 4, 5, 6, 7, 8]" "y \<in> set [1, 2, 3, 4, 5, 6, 7, 8]" by auto
  ultimately show ?thesis unfolding list_all_iff by blast
qed

lemma ge_negative_spec:
  assumes "b \<in> {- 8..8}"
  shows "ge_negative b = (if b < 0 then 1 else 0)"
    "schar (uint (word_of_int (b - push_bit 1 ((- uint (ge_negative b)) AND b)) :: byte)) = \<bar>b\<bar>"
proof -
  have "list_all (\<lambda>b. ge_negative b = (if b < 0 then 1 else 0) \<and>
      schar (uint (word_of_int (b - push_bit 1 ((- uint (ge_negative b)) AND b)) :: byte)) = \<bar>b\<bar>)
    [- 8, - 7, - 6, - 5, - 4, - 3, - 2, - 1, 0, 1, 2, 3, 4, 5, 6, 7, 8]"
    by (simp add: ge_negative_def schar_def Let_def push_bit_eq_mult)
  moreover have "b \<in> set [- 8, - 7, - 6, - 5, - 4, - 3, - 2, - 1, 0, 1, 2, 3, 4, 5, 6, 7, 8]"
    using assms by (simp only: set_simps insert_iff atLeastAtMost_iff empty_iff) presburger
  ultimately show "ge_negative b = (if b < 0 then 1 else 0)"
    "schar (uint (word_of_int (b - push_bit 1 ((- uint (ge_negative b)) AND b)) :: byte)) = \<bar>b\<bar>"
    unfolding list_all_iff by blast+
qed

definition precomp_len :: "ge_precomp \<Rightarrow> bool" where
  "precomp_len c \<longleftrightarrow> length (yplusx c) = 10 \<and> length (yminusx c) = 10 \<and> length (xy2d c) = 10"

lemma precomp_ok_len: "precomp_ok c \<Longrightarrow> precomp_len c"
  by (auto simp: precomp_ok_def precomp_len_def intro: fe_bound_length)

lemma precomp_as_ok: "precomp_as c Q \<Longrightarrow> precomp_ok c"
  by (auto simp: precomp_as_def precomp_ok_def split: prod.splits)

lemma ge_cmov_spec:
  assumes "precomp_len t" "precomp_len u"
  shows "ge_cmov t u 0 = t" "ge_cmov t u 1 = u"
  using assms by (simp_all add: ge_cmov_def precomp_len_def fe_cmov_spec)

definition digit_point :: "nat \<Rightarrow> int \<Rightarrow> ext" where
  "digit_point pos b =
     (if b = 0 then ext_zero
      else if b < 0 then ext_neg (table_point (base ! pos ! nat (- b - 1)))
      else table_point (base ! pos ! nat (b - 1)))"

lemma ge_select_spec:
  assumes "pos < 32" "b \<in> {- 8..8}"
  shows "precomp_as (ge_select pos b) (digit_point pos b)"
proof -
  define z :: ge_precomp where "z = \<lparr>yplusx = fe_1, yminusx = fe_1, xy2d = fe_0\<rparr>"
  define t where "t = (if b = 0 then z else base ! pos ! nat (\<bar>b\<bar> - 1))"
  define Q where "Q = (if b = 0 then ext_zero else table_point (base ! pos ! nat (\<bar>b\<bar> - 1)))"
  have z: "precomp_as z ext_zero" unfolding z_def by (rule precomp_as_zero)
  have l: "precomp_len z" by (rule precomp_ok_len [OF precomp_as_ok [OF z]])
  have row: "precomp_len (base ! pos ! j)" if "j < 8" for j
    by (rule precomp_ok_len [OF tables_ok(2) [OF assms(1) that]])
  have t: "precomp_as t Q"
    unfolding t_def Q_def using z assms by (auto intro!: precomp_as_table_point tables_ok)
  have a: "\<bar>b\<bar> \<in> {0..8}" using assms(2) by auto
  then have "\<bar>b\<bar> \<in> set [0, 1, 2, 3, 4, 5, 6, 7, 8]" by auto
  then have sel: "ge_cmov (ge_cmov (ge_cmov (ge_cmov (ge_cmov (ge_cmov (ge_cmov (ge_cmov z
      (base ! pos ! 0) (ge_equal \<bar>b\<bar> 1)) (base ! pos ! 1) (ge_equal \<bar>b\<bar> 2)) (base ! pos ! 2) (ge_equal \<bar>b\<bar> 3))
      (base ! pos ! 3) (ge_equal \<bar>b\<bar> 4)) (base ! pos ! 4) (ge_equal \<bar>b\<bar> 5)) (base ! pos ! 5) (ge_equal \<bar>b\<bar> 6))
      (base ! pos ! 6) (ge_equal \<bar>b\<bar> 7)) (base ! pos ! 7) (ge_equal \<bar>b\<bar> 8) = t"
    unfolding t_def using row l by (auto simp: ge_equal_spec ge_cmov_spec)
  define minust where "minust = \<lparr>yplusx = fe_copy (yminusx t), yminusx = fe_copy (yplusx t), xy2d = fe_neg (xy2d t)\<rparr>"
  have m: "precomp_as minust (ext_neg Q)" unfolding minust_def by (rule precomp_as_neg [OF t])
  have "ge_select pos b = ge_cmov t minust (ge_negative b)"
    unfolding ge_select_def Let_def ge_negative_spec(2) [OF assms(2)] z_def [symmetric] sel minust_def by (rule refl)
  also have "\<dots> = (if b < 0 then minust else t)"
    unfolding ge_negative_spec(1) [OF assms(2)]
    using ge_cmov_spec [OF precomp_ok_len [OF precomp_as_ok [OF t]] precomp_ok_len [OF precomp_as_ok [OF m]]] by simp
  finally show ?thesis
    using t m by (auto simp: digit_point_def Q_def abs_if)
qed

section \<open>Digits in radix 16\<close>

lemma nibbles_value:
  assumes "length a = 32"
  shows "length (nibbles a) = 64" "\<forall>i<64. nibbles a ! i \<in> {0..15}" "(\<Sum>i<64. nibbles a ! i * 16 ^ i) = le_val a"
    "nibbles a ! 63 = uint (a ! 31) div 16"
proof -
  define nib :: "byte \<Rightarrow> int list" where "nib x = [uint (x AND 15), uint (drop_bit 4 x AND 15)]" for x
  have e: "nibbles a = concat (map nib a)"
    unfolding nibbles_def nib_def using map_nth [of a] assms
    by (metis (no_types, lifting) drop_bit_0 map_map comp_def id_apply map_eq_conv)
  have l: "length (concat (map nib x)) = 2 * length x" for x by (induction x) (simp_all add: nib_def)
  then show len: "length (nibbles a) = 64" using assms by (simp add: e)
  have r: "uint (x AND 15) = uint x mod 16" "uint (drop_bit 4 x AND 15) = uint x div 16" for x :: byte
  proof -
    have m: "y AND 15 = take_bit 4 y" for y :: byte by (simp add: take_bit_eq_mask mask_eq_exp_minus_1)
    show "uint (x AND 15) = uint x mod 16" unfolding m unsigned_take_bit_eq by (simp add: take_bit_eq_mod)
    have "uint x < 256" using uint_lt2p [of x] by simp
    then have "uint x div 16 < 16" "0 \<le> uint x div 16"
      using zdiv_mono1 [of "uint x" 255 16] by (simp_all add: pos_imp_zdiv_nonneg_iff)
    then show "uint (drop_bit 4 x AND 15) = uint x div 16"
      unfolding m unsigned_take_bit_eq unsigned_drop_bit_eq by (simp add: take_bit_eq_mod drop_bit_eq_div)
  qed
  have nib: "nib x = [uint x mod 16, uint x div 16]" for x
    using r [of x] by (simp only: nib_def)
  have "horner_sum id 16 (concat (map nib x)) = le_val x" for x
    by (induction x) (simp_all add: nib le_val_def)
  from this [of a] show "(\<Sum>i<64. nibbles a ! i * 16 ^ i) = le_val a"
    using len by (simp add: horner_sum_eq_sum e atLeast0LessThan)
  have "\<forall>y \<in> set (nib x). y \<in> {0..15}" for x
    using uint_lt2p [of x] zdiv_mono1 [of "uint x" 255 16] by (auto simp: nib pos_imp_zdiv_nonneg_iff)
  then have "\<forall>y \<in> set (nibbles a). y \<in> {0..15}" by (auto simp: e)
  then show "\<forall>i<64. nibbles a ! i \<in> {0..15}" using len by (metis nth_mem)
  have "a = take 31 a @ [a ! 31]" using take_Suc_conv_app_nth [of 31 a] assms by simp
  moreover have "length (take 31 a) = 31" using assms by simp
  ultimately obtain b c where a: "a = b @ [c]" "length b = 31" by blast
  have "nibbles a ! 63 = concat (map nib a) ! 63" by (simp only: e)
  also have "\<dots> = (concat (map nib b) @ nib c) ! 63" by (simp add: a(1))
  finally have "nibbles a ! 63 = (concat (map nib b) @ nib c) ! 63" .
  then show "nibbles a ! 63 = uint (a ! 31) div 16"
    using a(2) by (simp add: nth_append l a(1)) (simp add: nib)
qed

definition recoded :: "int list \<Rightarrow> nat \<Rightarrow> int list \<times> int \<Rightarrow> bool" where
  "recoded n k = (\<lambda>(e, carry). length e = 64 \<and> (\<forall>i<k. e ! i \<in> {- 8..7}) \<and> (\<forall>i. k \<le> i \<longrightarrow> i < 64 \<longrightarrow> e ! i = n ! i) \<and>
     carry \<in> {0..1} \<and> (\<Sum>i<k. e ! i * 16 ^ i) + carry * 16 ^ k = (\<Sum>i<k. n ! i * 16 ^ i))"

lemma recode_step_recoded:
  assumes "recoded n k s" "k < 64" "n ! k \<in> {0..15}"
  shows "recoded n (Suc k) (recode_step s k)"
proof -
  obtain e c where s: "s = (e, c)" by (cases s)
  note r = assms(1) [unfolded recoded_def s prod.case]
  have l: "length e = 64" "e ! k = n ! k" "c \<in> {0..1}" using r assms(2) by simp_all
  define v c' where "v = n ! k + c" and "c' = (v + 8) div 16"
  have v: "v \<in> {0..16}" using l assms(3) by (simp add: v_def)
  have c': "c' \<in> {0..1}" "v - 16 * c' \<in> {- 8..7}" using v by (auto simp: c'_def)
  have t: "recode_step s k = (e[k := v - 16 * c'], c')"
    using l v c' assms(2)
    by (simp add: s recode_step_def Let_def v_def [symmetric] schar_id drop_bit_eq_div push_bit_eq_mult c'_def [symmetric]
        mult.commute [of _ 16])
  have "(\<Sum>i<k. e[k := v - 16 * c'] ! i * 16 ^ i) = (\<Sum>i<k. e ! i * 16 ^ i)" by simp
  moreover have "(\<Sum>i<k. e ! i * 16 ^ i) + c * 16 ^ k = (\<Sum>i<k. n ! i * 16 ^ i)" using r by blast
  ultimately have "(\<Sum>i<Suc k. e[k := v - 16 * c'] ! i * 16 ^ i) + c' * 16 ^ Suc k = (\<Sum>i<Suc k. n ! i * 16 ^ i)"
    using l assms(2) by (simp add: v_def algebra_simps)
  then show ?thesis
    unfolding t recoded_def prod.case using r c' assms(2) by (auto simp: less_Suc_eq)
qed

lemma radix16_digits_spec:
  assumes "length a = 32" "a ! 31 \<le> 127"
  shows "length (radix16_digits a) = 64" "\<forall>i<64. radix16_digits a ! i \<in> {- 8..8}"
    "(\<Sum>i<64. radix16_digits a ! i * 16 ^ i) = le_val a"
proof -
  note n = nibbles_value [OF assms(1)]
  have "k \<le> 63 \<Longrightarrow> recoded (nibbles a) k (foldl recode_step (nibbles a, 0) [0..<k])" for k
  proof (induction k)
    case (Suc k)
    then have "recoded (nibbles a) k (foldl recode_step (nibbles a, 0) [0..<k])" by simp
    from recode_step_recoded [OF this] show ?case using Suc.prems n(2) by simp
  qed (simp add: recoded_def n(1))
  from this [of 63] obtain e c where e: "foldl recode_step (nibbles a, 0) [0..<63] = (e, c)"
    "recoded (nibbles a) 63 (e, c)"
    by (cases "foldl recode_step (nibbles a, 0) [0..<63]") auto
  note r = e(2) [unfolded recoded_def prod.case]
  have l: "length e = 64" "e ! 63 = uint (a ! 31) div 16" "c \<in> {0..1}" using r n(4) by simp_all
  have "uint (a ! 31) \<le> 127" using assms(2) by (simp add: word_le_def)
  then have t: "e ! 63 \<in> {0..7}" unfolding l(2) using zdiv_mono1 [of "uint (a ! 31)" 127 16] by (simp add: pos_imp_zdiv_nonneg_iff)
  have d: "radix16_digits a = e[63 := e ! 63 + c]"
    using t l(3) by (simp add: radix16_digits_def e(1) schar_id)
  show "length (radix16_digits a) = 64" by (simp add: d l(1))
  show "\<forall>i<64. radix16_digits a ! i \<in> {- 8..8}"
  proof (intro allI impI)
    fix i :: nat assume "i < 64"
    then consider "i < 63" | "i = 63" by linarith
    then show "radix16_digits a ! i \<in> {- 8..8}"
    proof cases
      case 1
      then have "e ! i \<in> {- 8..7}" using r by blast
      then show ?thesis using 1 by (simp add: d)
    qed (use t l in \<open>simp add: d\<close>)
  qed
  have s: "(\<Sum>i<64. f i) = (\<Sum>i<63. f i) + f 63" for f :: "nat \<Rightarrow> int"
    using sum.lessThan_Suc [of f 63] by simp
  have "(\<Sum>i<63. e[63 := e ! 63 + c] ! i * 16 ^ i) = (\<Sum>i<63. e ! i * 16 ^ i)" by simp
  moreover have "(\<Sum>i<63. e ! i * 16 ^ i) + c * 16 ^ 63 = (\<Sum>i<63. nibbles a ! i * 16 ^ i)" "e ! 63 = nibbles a ! 63"
    using r by simp_all
  ultimately have "(\<Sum>i<64. radix16_digits a ! i * 16 ^ i) = (\<Sum>i<64. nibbles a ! i * 16 ^ i)"
    unfolding s d using l(1) by (simp add: ring_distribs)
  then show "(\<Sum>i<64. radix16_digits a ! i * 16 ^ i) = le_val a" by (simp only: n(3))
qed

section \<open>Combinations of two points\<close>

text \<open>
  \<open>combination A m n P\<close>: \<open>P\<close> is built by the formulas from \<open>A\<close> and the entries of the tables, as a sum
  of \<open>m\<close> times \<open>A\<close> and \<open>n\<close> times the base point, when the entry \<open>j\<close> of \<open>base[i]\<close> counts as
  \<open>(j + 1) 256^i\<close> and the entry \<open>j\<close> of \<open>Bi\<close> as \<open>2 j + 1\<close> times the base point.
\<close>

inductive combination :: "ext \<Rightarrow> int \<Rightarrow> int \<Rightarrow> ext \<Rightarrow> bool" for A where
  comb_zero: "combination A 0 0 ext_zero"
| comb_point: "combination A 1 0 A"
| comb_Bi: "j < 8 \<Longrightarrow> combination A 0 (2 * int j + 1) (table_point (Bi ! j))"
| comb_base: "i < 32 \<Longrightarrow> j < 8 \<Longrightarrow> combination A 0 ((int j + 1) * 256 ^ i) (table_point (base ! i ! j))"
| comb_neg: "combination A m n P \<Longrightarrow> combination A (- m) (- n) (ext_neg P)"
| comb_add: "combination A m n P \<Longrightarrow> combination A m' n' Q \<Longrightarrow> combination A (m + m') (n + n') (ext_add P Q)"
| comb_double: "combination A m n P \<Longrightarrow> combination A (2 * m) (2 * n) (ext_double P)"

lemma combination_eq: "combination A m n P \<Longrightarrow> m = m' \<Longrightarrow> n = n' \<Longrightarrow> combination A m' n' P"
  by simp

lemma combination_digit:
  assumes "pos < 32" "b \<in> {- 8..8}"
  shows "combination A 0 (b * 256 ^ pos) (digit_point pos b)"
proof -
  consider "b = 0" | "b < 0" | "0 < b" by linarith
  then show ?thesis
  proof cases
    case 1
    then show ?thesis by (simp add: digit_point_def comb_zero)
  next
    case 2
    then have "nat (- b - 1) < 8" using assms(2) by auto
    from comb_neg [OF comb_base [OF assms(1) this, of A]] 2 show ?thesis
      by (simp add: digit_point_def)
  next
    case 3
    then have "nat (b - 1) < 8" using assms(2) by auto
    from comb_base [OF assms(1) this, of A] 3 show ?thesis
      by (simp add: digit_point_def)
  qed
qed

lemma add_digits:
  assumes "\<forall>i \<in> set js. i < 64 \<and> e ! i \<in> {- 8..8}" "p3_of h P" "combination A m n P"
  shows "\<exists>P'. p3_of (foldl (add_digit e) h js) P' \<and>
    combination A m (n + sum_list (map (\<lambda>i. e ! i * 256 ^ (i div 2)) js)) P'"
  using assms
proof (induction js arbitrary: h P n)
  case (Cons i js)
  define Q where "Q = digit_point (i div 2) (e ! i)"
  have i: "i div 2 < 32" "e ! i \<in> {- 8..8}" using Cons.prems(1) by auto
  note s = ge_madd_spec [OF Cons.prems(2) ge_select_spec [OF i]]
  have h: "p3_of (add_digit e h i) (ext_add P Q)"
    using ge_p1p1_to_p3_spec [OF s(1)] by (simp add: add_digit_def Let_def s(2) Q_def)
  have c: "combination A m (n + e ! i * 256 ^ (i div 2)) (ext_add P Q)"
    using comb_add [OF Cons.prems(3) combination_digit [OF i]] by (simp add: Q_def)
  show ?case using Cons.IH [OF _ h c] Cons.prems(1) by (simp add: add.assoc)
qed auto

lemma sum_list_upt: "sum_list (map f [0..<n]) = (\<Sum>i<n. f i :: int)"
  by (induction n) simp_all

lemma sum_even_odd:
  fixes n :: nat
  shows "(\<Sum>i<2 * n. f i :: int) = (\<Sum>k<n. f (2 * k)) + (\<Sum>k<n. f (2 * k + 1))"
  by (induction n) simp_all

lemma ge_scalarmult_base_spec:
  assumes "length a = 32" "a ! 31 \<le> 127"
  shows "\<exists>P. p3_of (ge_scalarmult_base a) P \<and> combination A 0 (le_val a) P"
proof -
  define e where "e = radix16_digits a"
  note d = radix16_digits_spec [OF assms, folded e_def]
  define n where "n = (\<Sum>k<32. e ! (2 * k + 1) * 256 ^ k)"
  obtain P where P: "p3_of (foldl (add_digit e) ge_p3_0 (map (\<lambda>k. 2 * k + 1) [0..<32])) P" "combination A 0 n P"
  proof -
    have "\<forall>i \<in> set (map (\<lambda>k. 2 * k + 1) [0..<32]). i < 64 \<and> e ! i \<in> {- 8..8}" using d(2) by auto
    from add_digits [OF this ge_p3_0_spec comb_zero [of A]] that show ?thesis
      unfolding map_map comp_def sum_list_upt by (auto simp: n_def)
  qed
  define p where "p = foldl (add_digit e) ge_p3_0 (map (\<lambda>k. 2 * k + 1) [0..<32])"
  define s where "s = ge_p1p1_to_p2 (ge_p2_dbl (ge_p1p1_to_p2 (ge_p2_dbl (ge_p1p1_to_p2 (ge_p3_dbl p)))))"
  have dbl: "p2_of (ge_p1p1_to_p2 (ge_p2_dbl q)) (ext_double Q)" if "p2_of q Q" for q Q
    using ge_p1p1_to_p2_spec [OF ge_p2_dbl_spec(1) [OF that]] ge_p2_dbl_spec(2) [OF that] by simp
  have "p2_of (ge_p1p1_to_p2 (ge_p3_dbl p)) (ext_double P)"
    using ge_p1p1_to_p2_spec [OF ge_p3_dbl_spec(1) [OF P(1)]] ge_p3_dbl_spec(2) [OF P(1)] by (simp add: p_def)
  then have s: "p2_of s (ext_double (ext_double (ext_double P)))" unfolding s_def by (intro dbl)
  define h where "h = ge_p1p1_to_p3 (ge_p2_dbl s)"
  define Q where "Q = ext_double (ext_double (ext_double (ext_double P)))"
  have h: "p3_of h Q"
    using ge_p1p1_to_p3_spec [OF ge_p2_dbl_spec(1) [OF s]] by (simp add: h_def Q_def ge_p2_dbl_spec(2) [OF s])
  have c: "combination A 0 (16 * n) Q"
    unfolding Q_def using P(2) [THEN comb_double, THEN comb_double, THEN comb_double, THEN comb_double] by simp
  have e: "\<forall>i \<in> set (map (\<lambda>k. 2 * k) [0..<32]). i < 64 \<and> e ! i \<in> {- 8..8}" using d(2) by auto
  have r: "ge_scalarmult_base a = foldl (add_digit e) h (map (\<lambda>k. 2 * k) [0..<32])"
    unfolding ge_scalarmult_base_def Let_def e_def [symmetric] p_def [symmetric] s_def [symmetric] h_def ..
  have pw: "(16 :: int) ^ (2 * k) = 256 ^ k" for k :: nat by (simp add: power_mult)
  have "(\<Sum>i<2 * 32. e ! i * 16 ^ i) = 16 * n + (\<Sum>k<32. e ! (2 * k) * 256 ^ k)"
    unfolding sum_even_odd n_def sum_distrib_left power_add power_one_right pw by (simp add: algebra_simps)
  then have v: "le_val a = 16 * n + (\<Sum>k<32. e ! (2 * k) * 256 ^ k)" using d(3) by simp
  show ?thesis
    using add_digits [OF e h c] unfolding r map_map comp_def sum_list_upt by (simp add: v)
qed

section \<open>Sliding windows\<close>

definition sval :: "int list \<Rightarrow> int" where
  "sval r = (\<Sum>i<256. r ! i * 2 ^ i)"

lemma sval_update:
  assumes "length r = 256" "i < 256"
  shows "sval (r[i := v]) = sval r + (v - r ! i) * 2 ^ i"
proof -
  have "sval (r[i := v]) = (\<Sum>j<256. r ! j * 2 ^ j + (if j = i then (v - r ! i) * 2 ^ i else 0))"
    unfolding sval_def using assms by (intro sum.cong) (auto simp: nth_list_update algebra_simps)
  then show ?thesis using assms(2) by (simp add: sum.distrib sval_def)
qed

lemma slide_carry_spec:
  assumes "length r = 256" "\<forall>j. k \<le> j \<longrightarrow> j < 256 \<longrightarrow> r ! j \<in> {0, 1}" "k \<le> m" "m < 256" "r ! m = 0"
  shows "length (slide_carry r k) = 256 \<and> (\<forall>j<k. slide_carry r k ! j = r ! j) \<and>
    (\<forall>j. k \<le> j \<longrightarrow> j < 256 \<longrightarrow> slide_carry r k ! j \<in> {0, 1}) \<and>
    (\<forall>j. m < j \<longrightarrow> j < 256 \<longrightarrow> slide_carry r k ! j = r ! j) \<and> sval (slide_carry r k) = sval r + 2 ^ k \<and>
    (slide_carry r k ! m \<noteq> 0 \<longrightarrow> (\<forall>j. k \<le> j \<longrightarrow> j < m \<longrightarrow> slide_carry r k ! j = 0))"
  using assms
proof (induction r k rule: slide_carry.induct)
  case (1 r k)
  have k: "k < 256" using "1.prems" by simp
  show ?case
  proof (cases "r ! k = 0")
    case True
    then have e: "slide_carry r k = r[k := 1]" using k by (simp add: slide_carry.simps [of r])
    show ?thesis
      unfolding e using "1.prems" True k sval_update [of r k 1] by (auto simp: nth_list_update)
  next
    case False
    define r0 where "r0 = r[k := 0]"
    have e: "slide_carry r k = slide_carry r0 (k + 1)" using k False by (simp add: slide_carry.simps [of r] r0_def)
    have one: "r ! k = 1" using "1.prems"(2) k False by auto
    have m: "k + 1 \<le> m" using "1.prems"(3,5) False by (cases "k = m") auto
    have p: "length r0 = 256" "\<forall>j. k + 1 \<le> j \<longrightarrow> j < 256 \<longrightarrow> r0 ! j \<in> {0, 1}" "r0 ! m = 0"
      using "1.prems" m by (auto simp: r0_def)
    note ih = "1.IH" [OF k False, folded r0_def, OF p(1,2) m "1.prems"(4) p(3)]
    have s: "sval r0 + 2 ^ (k + 1) = sval r + 2 ^ k"
      using sval_update [of r k 0] "1.prems"(1) k one by (simp add: r0_def)
    have z: "slide_carry r0 (k + 1) ! k = 0" using ih "1.prems"(1) k by (simp add: r0_def)
    have low: "\<forall>j<k. slide_carry r0 (k + 1) ! j = r ! j"
      using ih by (simp add: r0_def)
    have high: "\<forall>j. m < j \<longrightarrow> j < 256 \<longrightarrow> slide_carry r0 (k + 1) ! j = r ! j"
      using ih m by (auto simp: r0_def)
    have bits: "\<forall>j. k \<le> j \<longrightarrow> j < 256 \<longrightarrow> slide_carry r0 (k + 1) ! j \<in> {0, 1}"
    proof (intro allI impI)
      fix j assume "k \<le> j" "j < 256"
      then consider "j = k" | "k + 1 \<le> j" by linarith
      then show "slide_carry r0 (k + 1) ! j \<in> {0, 1}" by cases (use z ih \<open>j < 256\<close> in blast)+
    qed
    have zeros: "slide_carry r0 (k + 1) ! j = 0" if "slide_carry r0 (k + 1) ! m \<noteq> 0" "k \<le> j" "j < m" for j
    proof -
      consider "j = k" | "k + 1 \<le> j" using \<open>k \<le> j\<close> by linarith
      then show ?thesis by cases (use z ih that in blast)+
    qed
    show ?thesis unfolding e using ih s bits low high zeros by auto
  qed
qed

lemma window_unchanged:
  assumes "\<forall>c. b \<le> c \<longrightarrow> c \<le> 6 \<longrightarrow> i + c < 256 \<longrightarrow> r ! (i + c) = 0 \<or> (5 \<le> c \<and> r ! (i + c) = 1 \<and> \<bar>r ! i\<bar> \<le> 15)"
  shows "slide_window r i b = r"
  using assms
proof (induction "7 - b" arbitrary: b)
  case 0
  then show ?case by (simp add: slide_window.simps [of r])
next
  case (Suc n)
  then have ih: "slide_window r i (b + 1) = r" by simp
  have b: "b \<le> 6" using Suc by simp
  show ?case
  proof (cases "i + b < 256 \<and> r ! (i + b) \<noteq> 0")
    case True
    then have c: "b = 5 \<or> b = 6" "r ! (i + b) = 1" "\<bar>r ! i\<bar> \<le> 15" using Suc.prems b by force+
    then have "\<not> r ! i + push_bit b (r ! (i + b)) \<le> 15" "\<not> r ! i - push_bit b (r ! (i + b)) \<ge> - 15"
      by (auto simp: push_bit_eq_mult)
    then show ?thesis using True by (simp add: slide_window.simps [of r])
  next
    case False
    then show ?thesis using ih by (auto simp: slide_window.simps [of r])
  qed
qed

definition slide_digit :: "int \<Rightarrow> bool" where
  "slide_digit x \<longleftrightarrow> x = 0 \<or> odd x \<and> \<bar>x\<bar> \<le> 15"

text \<open>
  The state before the digit \<open>i\<close> is computed, for a scalar below \<open>2^253\<close>: no carry gets past the digit
  253, because one that reaches it leaves zeros behind.
\<close>

definition slid :: "int \<Rightarrow> nat \<Rightarrow> int list \<Rightarrow> bool" where
  "slid v i r \<longleftrightarrow> length r = 256 \<and> (\<forall>j<256. slide_digit (r ! j)) \<and> (\<forall>j. i \<le> j \<longrightarrow> j < 256 \<longrightarrow> r ! j \<in> {0, 1}) \<and>
     r ! 254 = 0 \<and> r ! 255 = 0 \<and> (r ! 253 = 0 \<or> (\<forall>j. i \<le> j \<longrightarrow> j < 253 \<longrightarrow> r ! j = 0)) \<and> sval r = v"

definition in_window :: "int \<Rightarrow> nat \<Rightarrow> nat \<Rightarrow> int list \<Rightarrow> bool" where
  "in_window v i b r \<longleftrightarrow> length r = 256 \<and> (\<forall>j<256. slide_digit (r ! j)) \<and> r ! i \<in> {1..<2 ^ b} \<and>
     (\<forall>j. i < j \<longrightarrow> j < 256 \<longrightarrow> r ! j \<in> {0, 1}) \<and> (\<forall>j. i < j \<longrightarrow> j < i + b \<longrightarrow> j < 256 \<longrightarrow> r ! j = 0) \<and>
     r ! 253 = 0 \<and> r ! 254 = 0 \<and> r ! 255 = 0 \<and> sval r = v"

lemma odd_digit: "slide_digit x \<Longrightarrow> x \<noteq> 0 \<Longrightarrow> odd x"
  by (simp add: slide_digit_def)

lemma window_absorbs:
  assumes "in_window v i b r" "i < 253" "1 \<le> b" "b \<le> 3"
  shows "\<exists>r'. in_window v i (b + 1) r' \<and> slide_window r i b = slide_window r' i (b + 1)"
proof (cases "i + b < 256 \<and> r ! (i + b) \<noteq> 0")
  case False
  have "in_window v i (b + 1) r"
    using assms False unfolding in_window_def by (auto simp: less_Suc_eq)
  moreover have "slide_window r i b = slide_window r i (b + 1)"
    using False assms(4) by (auto simp: slide_window.simps [of r i b] slide_window.simps [of r i "Suc b"])
  ultimately show ?thesis by blast
next
  case True
  note w = assms(1) [unfolded in_window_def]
  have l: "length r = 256" using w by blast
  have "i < i + b" using assms(3) by simp
  then have "r ! (i + b) \<in> {0, 1}" using w True by blast
  then have one: "r ! (i + b) = 1" using True by simp
  define x where "x = r ! i + 2 ^ b"
  have b: "b = 1 \<or> b = 2 \<or> b = 3" using assms(3,4) by auto
  have ri: "r ! i \<in> {1..<2 ^ b}" "slide_digit (r ! i)" using w assms(2) by simp_all
  then have "odd (r ! i)" using odd_digit [of "r ! i"] by simp
  with ri(1) b have x: "x \<in> {1..<2 ^ (b + 1)}" "x \<le> 15" "slide_digit x"
    unfolding x_def slide_digit_def by (elim disjE; simp)+
  define r' where "r' = r[i := x, i + b := 0]"
  have e: "slide_window r i b = slide_window r' i (b + 1)"
    using True assms(4) one x by (simp add: slide_window.simps [of r] push_bit_eq_mult schar_id Let_def r'_def flip: x_def)
  have s: "sval r' = v"
    using w l True assms(2,3) one by (simp add: r'_def sval_update x_def power_add algebra_simps)
  have n: "r' ! j = (if j = i then x else if j = i + b then 0 else r ! j)" if "j < 256" for j
    using that l True assms(3) by (simp add: r'_def nth_list_update)
  have "\<forall>j<256. slide_digit (r' ! j)"
    using w x(3) n by (auto simp: slide_digit_def)
  moreover have "r' ! i \<in> {1..<2 ^ (b + 1)}" using n [of i] assms(2) x(1) by simp
  moreover have "\<forall>j. i < j \<longrightarrow> j < 256 \<longrightarrow> r' ! j \<in> {0, 1}"
    using n w by auto
  moreover have "\<forall>j. i < j \<longrightarrow> j < i + (b + 1) \<longrightarrow> j < 256 \<longrightarrow> r' ! j = 0"
    using n w by (auto simp: less_Suc_eq)
  moreover have "r' ! 253 = 0" "r' ! 254 = 0" "r' ! 255 = 0"
    using n w assms(2) by auto
  ultimately have "in_window v i (b + 1) r'"
    using l s by (simp add: in_window_def r'_def)
  with e show ?thesis by blast
qed

lemma window_carries:
  assumes "in_window v i 4 r" "i < 253"
  shows "slid v (i + 1) (slide_window r i 4)"
proof (cases "i + 4 < 256 \<and> r ! (i + 4) \<noteq> 0")
  case False
  note w = assms(1) [unfolded in_window_def]
  have "\<forall>c. 4 \<le> c \<longrightarrow> c \<le> 6 \<longrightarrow> i + c < 256 \<longrightarrow> r ! (i + c) = 0 \<or> (5 \<le> c \<and> r ! (i + c) = 1 \<and> \<bar>r ! i\<bar> \<le> 15)"
  proof (intro allI impI)
    fix c assume c: "4 \<le> c" "c \<le> 6" "i + c < 256"
    have "r ! (i + c) \<in> {0, 1}" "r ! i \<in> {1..<16}" using w c by simp_all
    then show "r ! (i + c) = 0 \<or> (5 \<le> c \<and> r ! (i + c) = 1 \<and> \<bar>r ! i\<bar> \<le> 15)"
      using c False by (cases "c = 4") auto
  qed
  then have "slide_window r i 4 = r" by (rule window_unchanged)
  then show ?thesis using w by (simp add: slid_def)
next
  case True
  note w = assms(1) [unfolded in_window_def]
  have l: "length r = 256" using w by blast
  have "i < i + 4" by simp
  then have "r ! (i + 4) \<in> {0, 1}" using w True by blast
  then have one: "r ! (i + 4) = 1" using True by simp
  have i: "i + 4 \<noteq> 253" "i + 4 \<noteq> 254" "i + 4 \<noteq> 255" using one w by auto
  then have i4: "i + 4 \<le> 253" using True by simp
  define x where "x = r ! i - 16"
  have ri: "r ! i \<in> {1..<16}" "slide_digit (r ! i)" using w assms(2) by simp_all
  then have "odd (r ! i)" using odd_digit [of "r ! i"] by simp
  with ri(1) have x: "- 15 \<le> x" "x < 0" "slide_digit x" unfolding x_def slide_digit_def by simp_all
  define r0 where "r0 = r[i := x]"
  define r1 where "r1 = slide_carry r0 (i + 4)"
  have z: "length r0 = 256" "\<forall>j. i + 4 \<le> j \<longrightarrow> j < 256 \<longrightarrow> r0 ! j \<in> {0, 1}" "r0 ! 253 = 0"
    using l w assms(2) by (simp_all add: r0_def)
  note c = slide_carry_spec [OF z(1,2) i4 _ z(3), folded r1_def]
  have c': "length r1 = 256" "\<forall>j<i + 4. r1 ! j = r0 ! j" "\<forall>j. i + 4 \<le> j \<longrightarrow> j < 256 \<longrightarrow> r1 ! j \<in> {0, 1}"
    "\<forall>j. 253 < j \<longrightarrow> j < 256 \<longrightarrow> r1 ! j = r0 ! j" "sval r1 = sval r0 + 2 ^ (i + 4)"
    "r1 ! 253 \<noteq> 0 \<longrightarrow> (\<forall>j. i + 4 \<le> j \<longrightarrow> j < 253 \<longrightarrow> r1 ! j = 0)"
    using c by simp_all
  have low: "r1 ! j = 0" if "i < j" "j < i + 4" for j
    using c'(2) w that i4 by (simp add: r0_def)
  have bits: "r1 ! j \<in> {0, 1}" if "i < j" "j < 256" for j
    using low [of j] c'(3) that by (cases "j < i + 4") auto
  have r1i: "r1 ! i = x" using c'(2) l assms(2) by (simp add: r0_def)
  have e: "slide_window r i 4 = slide_window r1 i 5"
    using True one x w assms(2)
    by (simp add: slide_window.simps [of r] push_bit_eq_mult schar_id Let_def r1_def r0_def x_def)
  have "\<forall>c. 5 \<le> c \<longrightarrow> c \<le> 6 \<longrightarrow> i + c < 256 \<longrightarrow> r1 ! (i + c) = 0 \<or> (5 \<le> c \<and> r1 ! (i + c) = 1 \<and> \<bar>r1 ! i\<bar> \<le> 15)"
  proof (intro allI impI)
    fix c assume c: "5 \<le> c" "i + c < 256"
    then have "r1 ! (i + c) \<in> {0, 1}" by (intro bits) simp_all
    then show "r1 ! (i + c) = 0 \<or> (5 \<le> c \<and> r1 ! (i + c) = 1 \<and> \<bar>r1 ! i\<bar> \<le> 15)"
      using c(1) x by (auto simp: r1i)
  qed
  then have e': "slide_window r1 i 5 = r1" by (rule window_unchanged)
  have "sval r1 = v"
    using w l assms(2) by (simp add: c'(5) r0_def sval_update x_def power_add)
  moreover have "slide_digit (r1 ! j)" if "j < 256" for j
  proof -
    consider "j < i" | "j = i" | "i < j" by linarith
    then show ?thesis
    proof cases
      case 1
      then show ?thesis using c'(2) w that by (simp add: r0_def)
    qed (use r1i x(3) bits [of j] that in \<open>auto simp: slide_digit_def\<close>)
  qed
  moreover have "r1 ! 254 = 0" "r1 ! 255 = 0" using c'(4) w assms(2) by (simp_all add: r0_def)
  moreover have "r1 ! 253 = 0 \<or> (\<forall>j. i + 1 \<le> j \<longrightarrow> j < 253 \<longrightarrow> r1 ! j = 0)"
    using c'(6) low by (metis Suc_eq_plus1 Suc_le_lessD not_less)
  ultimately show ?thesis
    using c'(1) bits by (simp add: slid_def e e')
qed

lemma slide_step:
  assumes "slid v i r" "i < 256"
  shows "slid v (i + 1) (if r ! i \<noteq> 0 then slide_window r i 1 else r)"
proof (cases "r ! i = 0")
  case True
  then show ?thesis using assms by (auto simp: slid_def)
next
  case False
  note s = assms(1) [unfolded slid_def]
  have one: "r ! i = 1" using s assms(2) False by auto
  have i: "i \<noteq> 254" "i \<noteq> 255" using one s by auto
  show ?thesis
  proof (cases "i = 253")
    case True
    have "\<forall>c. 1 \<le> c \<longrightarrow> c \<le> 6 \<longrightarrow> i + c < 256 \<longrightarrow> r ! (i + c) = 0 \<or> (5 \<le> c \<and> r ! (i + c) = 1 \<and> \<bar>r ! i\<bar> \<le> 15)"
    proof (intro allI impI)
      fix c :: nat assume "1 \<le> c" "i + c < 256"
      then have "i + c = 254 \<or> i + c = 255" using True by auto
      then show "r ! (i + c) = 0 \<or> (5 \<le> c \<and> r ! (i + c) = 1 \<and> \<bar>r ! i\<bar> \<le> 15)" using s by auto
    qed
    then have "slide_window r i 1 = r" by (rule window_unchanged)
    then show ?thesis using assms False by (auto simp: slid_def)
  next
    case False
    then have lt: "i < 253" using i assms(2) by auto
    then have "r ! 253 = 0" using s one by force
    then have w: "in_window v i 1 r" using s one by (auto simp: in_window_def)
    obtain r2 where 2: "in_window v i 2 r2" "slide_window r i 1 = slide_window r2 i 2"
      using window_absorbs [OF w lt] unfolding one_add_one by auto
    obtain r3 where 3: "in_window v i 3 r3" "slide_window r2 i 2 = slide_window r3 i 3"
      using window_absorbs [OF 2(1) lt] by auto
    obtain r4 where 4: "in_window v i 4 r4" "slide_window r3 i 3 = slide_window r4 i 4"
      using window_absorbs [OF 3(1) lt] by auto
    have "slide_window r i 1 = slide_window r4 i 4" unfolding 2(2) 3(2) 4(2) ..
    then show ?thesis using window_carries [OF 4(1) lt] one by simp
  qed
qed

lemma slide_spec:
  assumes "length a = 32" "le_val a < 2 ^ 253"
  shows "length (slide a) = 256" "\<forall>j<256. slide_digit (slide a ! j)" "sval (slide a) = le_val a"
proof -
  define r where "r = map (\<lambda>i. uint (1 AND drop_bit (i AND 7) (a ! drop_bit 3 i))) [0..<256]"
  have pos: "0 \<le> le_val a" unfolding le_val_def by (induction a) simp_all
  have bits: "r ! i = of_bool (bit (le_val a) i)" if "i < 256" for i
  proof -
    have m: "i AND 7 = i mod 8" using take_bit_eq_mask [of 3 i] by (simp add: mask_eq_exp_minus_1 take_bit_eq_mod)
    have "bit (le_val a) i \<longleftrightarrow> bit (a ! (i div 8)) (i mod 8)"
      using assms(1) that by (simp add: bit_le_val less_mult_imp_div_less)
    moreover have "1 AND drop_bit k w = of_bool (bit w k)" for k and w :: byte
      by (simp add: one_and_eq mod_2_eq_odd bit_iff_odd_drop_bit)
    ultimately show ?thesis using that by (simp add: r_def m drop_bit_eq_div [of 3])
  qed
  have high: "\<not> bit (le_val a) i" if "253 \<le> i" for i
    using bit_take_bit_iff [of 253 "le_val a" i] pos assms(2) that by (simp add: take_bit_int_eq_self)
  have "(\<Sum>i<256. r ! i * 2 ^ i) = (\<Sum>i<256. push_bit i (of_bool (bit (le_val a) i)))"
    by (intro sum.cong) (auto simp: bits push_bit_eq_mult)
  also have "\<dots> = take_bit 256 (le_val a)" by (simp add: take_bit_sum atLeast0LessThan)
  also have "\<dots> = le_val a" using pos assms(2) by (simp add: take_bit_int_eq_self)
  finally have v: "sval r = le_val a" by (simp add: sval_def)
  have s: "slid (le_val a) 0 r"
    unfolding slid_def using v bits [of 253] bits [of 254] bits [of 255] high [of 253] high [of 254] high [of 255]
    by (simp add: bits slide_digit_def) (simp add: r_def)
  have "n \<le> 256 \<Longrightarrow> slid (le_val a) n (foldl (\<lambda>r i. if r ! i \<noteq> 0 then slide_window r i 1 else r) r [0..<n])" for n
  proof (induction n)
    case (Suc n)
    then show ?case using slide_step [of "le_val a" n] by simp
  qed (simp add: s)
  from this [of 256] have "slid (le_val a) 256 (slide a)" by (simp add: slide_def r_def [symmetric])
  then show "length (slide a) = 256" "\<forall>j<256. slide_digit (slide a ! j)" "sval (slide a) = le_val a"
    by (simp_all add: slid_def)
qed

section \<open>Sums of multiples of two points\<close>

definition p1_comb :: "ext \<Rightarrow> ge_p1p1 \<Rightarrow> int \<Rightarrow> int \<Rightarrow> bool" where
  "p1_comb A t m n \<longleftrightarrow> p1_ok t \<and> combination A m n (ext_of_p1 t)"

definition p3_comb :: "ext \<Rightarrow> ge_p3 \<Rightarrow> int \<Rightarrow> int \<Rightarrow> bool" where
  "p3_comb A p m n \<longleftrightarrow> (\<exists>P. p3_of p P \<and> combination A m n P)"

definition p2_comb :: "ext \<Rightarrow> ge_p2 \<Rightarrow> int \<Rightarrow> int \<Rightarrow> bool" where
  "p2_comb A p m n \<longleftrightarrow> (\<exists>P. p2_of p P \<and> combination A m n P)"

definition cached_comb :: "ext \<Rightarrow> ge_cached \<Rightarrow> int \<Rightarrow> bool" where
  "cached_comb A c m \<longleftrightarrow> (\<exists>Q. cached_as c Q \<and> combination A m 0 Q)"

lemma comb_convert:
  shows "p1_comb A t m n \<Longrightarrow> p3_comb A (ge_p1p1_to_p3 t) m n"
    and "p1_comb A t m n \<Longrightarrow> p2_comb A (ge_p1p1_to_p2 t) m n"
    and "p3_comb A p m 0 \<Longrightarrow> cached_comb A (ge_p3_to_cached p) m"
  using ge_p1p1_to_p3_spec [of t] ge_p1p1_to_p2_spec [of t] ge_p3_to_cached_spec [of p]
  unfolding p1_comb_def p3_comb_def p2_comb_def cached_comb_def by blast+

lemma comb_dbl:
  shows "p2_comb A r m n \<Longrightarrow> p1_comb A (ge_p2_dbl r) (2 * m) (2 * n)"
    and "p3_comb A p m n \<Longrightarrow> p1_comb A (ge_p3_dbl p) (2 * m) (2 * n)"
  by (auto simp: p1_comb_def p2_comb_def p3_comb_def ge_p2_dbl_spec ge_p3_dbl_spec intro: comb_double)

lemma comb_cached:
  assumes "p3_comb A p m n" "cached_comb A c k"
  shows "p1_comb A (ge_add p c) (m + k) n" "p1_comb A (ge_sub p c) (m - k) n"
proof -
  obtain P Q where p: "p3_of p P" "combination A m n P" "cached_as c Q" "combination A k 0 Q"
    using assms by (auto simp: p3_comb_def cached_comb_def)
  show "p1_comb A (ge_add p c) (m + k) n" "p1_comb A (ge_sub p c) (m - k) n"
    using ge_add_spec [OF p(1,3)] comb_add [OF p(2,4)] comb_add [OF p(2) comb_neg [OF p(4)]]
    by (simp_all add: p1_comb_def)
qed

lemma comb_Bi_entry:
  assumes "p3_comb A p m n" "j < 8"
  shows "p1_comb A (ge_madd p (Bi ! j)) m (n + (2 * int j + 1))" "p1_comb A (ge_msub p (Bi ! j)) m (n - (2 * int j + 1))"
proof -
  obtain P where p: "p3_of p P" "combination A m n P" using assms(1) by (auto simp: p3_comb_def)
  note c = comb_Bi [OF assms(2), of A]
  show "p1_comb A (ge_madd p (Bi ! j)) m (n + (2 * int j + 1))" "p1_comb A (ge_msub p (Bi ! j)) m (n - (2 * int j + 1))"
    using ge_madd_spec [OF p(1) precomp_as_table_point [OF tables_ok(1) [OF assms(2)]]]
      comb_add [OF p(2) c] comb_add [OF p(2) comb_neg [OF c]]
    by (simp_all add: p1_comb_def diff_conv_add_uminus del: add_uminus_conv_diff minus_add_distrib)
qed

lemma odd_multiples_spec:
  assumes "p3_of A P"
  shows "\<forall>k<8. cached_comb P (odd_multiples A ! k) (2 * int k + 1)"
proof -
  have "p3_comb P A 1 0" using assms comb_point unfolding p3_comb_def by blast
  note a = comb_convert(3) [OF this] comb_convert(1) [OF comb_dbl(2) [OF this]]
  have step: "cached_comb P (ge_p3_to_cached (ge_p1p1_to_p3 (ge_add (ge_p1p1_to_p3 (ge_p3_dbl A)) c))) (k + 2)"
    if "cached_comb P c k" for c k
  proof -
    have "p3_comb P (ge_p1p1_to_p3 (ge_p3_dbl A)) 2 0" using a(2) by simp
    from comb_convert(3) [OF comb_convert(1) [OF comb_cached(1) [OF this that]]] show ?thesis
      by (simp add: add.commute)
  qed
  note s = a(1) step [OF a(1)] step [OF step [OF a(1)]] step [OF step [OF step [OF a(1)]]]
    step [OF step [OF step [OF step [OF a(1)]]]] step [OF step [OF step [OF step [OF step [OF a(1)]]]]]
    step [OF step [OF step [OF step [OF step [OF step [OF a(1)]]]]]]
    step [OF step [OF step [OF step [OF step [OF step [OF step [OF a(1)]]]]]]]
  have "list_all (\<lambda>k. cached_comb P (odd_multiples A ! k) (2 * int k + 1)) [0, 1, 2, 3, 4, 5, 6, 7]"
    using s by (simp add: odd_multiples_def Let_def)
  moreover have "k \<in> set [0, 1, 2, 3, 4, 5, 6, 7]" if "k < 8" for k :: nat using that by auto
  ultimately show ?thesis unfolding list_all_iff by blast
qed

lemma half_digit:
  assumes "slide_digit x" "0 < x"
  shows "nat (x div 2) < 8" "2 * int (nat (x div 2)) + 1 = x"
  using assms by (auto simp: slide_digit_def)

lemma slide_digit_minus: "slide_digit x \<Longrightarrow> slide_digit (- x)"
  by (auto simp: slide_digit_def)

lemma double_add_step_spec:
  assumes "\<forall>k<8. cached_comb P (Ai ! k) (2 * int k + 1)" "slide_digit da" "slide_digit db" "p2_comb P r m n"
  shows "p2_comb P (double_add_step Ai da db r) (2 * m + da) (2 * n + db)"
proof -
  define t where "t = ge_p2_dbl r"
  have t: "p1_comb P t (2 * m) (2 * n)" unfolding t_def by (rule comb_dbl(1) [OF assms(4)])
  define t1 where "t1 = (if da > 0 then ge_add (ge_p1p1_to_p3 t) (Ai ! nat (da div 2))
      else if da < 0 then ge_sub (ge_p1p1_to_p3 t) (Ai ! nat ((- da) div 2)) else t)"
  have t1: "p1_comb P t1 (2 * m + da) (2 * n)"
  proof -
    consider "da > 0" | "da < 0" | "da = 0" by linarith
    then show ?thesis
    proof cases
      case 1
      note h = half_digit [OF assms(2) 1]
      have "cached_comb P (Ai ! nat (da div 2)) da" using assms(1) h by metis
      from comb_cached(1) [OF comb_convert(1) [OF t] this] show ?thesis using 1 by (simp add: t1_def)
    next
      case 2
      then have "0 < - da" by simp
      note h = half_digit [OF slide_digit_minus [OF assms(2)] this]
      have "cached_comb P (Ai ! nat ((- da) div 2)) (- da)" using assms(1) h by metis
      from comb_cached(2) [OF comb_convert(1) [OF t] this] show ?thesis using 2 by (simp add: t1_def)
    qed (use t in \<open>simp add: t1_def\<close>)
  qed
  define t2 where "t2 = (if db > 0 then ge_madd (ge_p1p1_to_p3 t1) (Bi ! nat (db div 2))
      else if db < 0 then ge_msub (ge_p1p1_to_p3 t1) (Bi ! nat ((- db) div 2)) else t1)"
  have t2: "p1_comb P t2 (2 * m + da) (2 * n + db)"
  proof -
    consider "db > 0" | "db < 0" | "db = 0" by linarith
    then show ?thesis
    proof cases
      case 1
      note h = half_digit [OF assms(3) 1]
      from comb_Bi_entry(1) [OF comb_convert(1) [OF t1] h(1)] show ?thesis
        unfolding h(2) using 1 by (simp add: t2_def)
    next
      case 2
      then have "0 < - db" by simp
      note h = half_digit [OF slide_digit_minus [OF assms(3)] this]
      from comb_Bi_entry(2) [OF comb_convert(1) [OF t1] h(1)] show ?thesis
        unfolding h(2) using 2 by (simp add: t2_def)
    qed (use t1 in \<open>simp add: t2_def\<close>)
  qed
  have "double_add_step Ai da db r = ge_p1p1_to_p2 t2"
    by (simp add: double_add_step_def Let_def t2_def t1_def t_def)
  then show ?thesis using comb_convert(2) [OF t2] by simp
qed

lemma double_add_spec:
  assumes "\<forall>k<8. cached_comb P (Ai ! k) (2 * int k + 1)" "\<forall>j<i. slide_digit (a ! j) \<and> slide_digit (b ! j)"
    "p2_comb P r m n"
  shows "p2_comb P (double_add Ai a b i r) (2 ^ i * m + (\<Sum>j<i. a ! j * 2 ^ j)) (2 ^ i * n + (\<Sum>j<i. b ! j * 2 ^ j))"
  using assms(2,3)
proof (induction i arbitrary: r m n)
  case (Suc i)
  have d: "slide_digit (a ! i)" "slide_digit (b ! i)" "\<forall>j<i. slide_digit (a ! j) \<and> slide_digit (b ! j)"
    using Suc.prems(1) by auto
  from Suc.IH [OF d(3) double_add_step_spec [OF assms(1) d(1,2) Suc.prems(2)]] show ?case
    by (simp add: algebra_simps)
qed simp

lemma top_digit_spec:
  "top_digit a b n \<le> n \<and> (\<forall>j. top_digit a b n \<le> j \<longrightarrow> j < n \<longrightarrow> a ! j = 0 \<and> b ! j = 0)"
  by (induction n) (auto simp: less_Suc_eq)

lemma sum_below_top:
  fixes f :: "nat \<Rightarrow> int"
  assumes "k \<le> n" "\<And>j. k \<le> j \<Longrightarrow> j < n \<Longrightarrow> f j = 0"
  shows "(\<Sum>j<k. f j) = (\<Sum>j<n. f j)"
  using assms by (intro sum.mono_neutral_left) auto

lemma ge_double_scalarmult_vartime_spec:
  assumes "length a = 32" "le_val a < 2 ^ 253" "length b = 32" "le_val b < 2 ^ 253" "p3_of A P"
  shows "p2_comb P (ge_double_scalarmult_vartime a A b) (le_val a) (le_val b)"
proof -
  note a = slide_spec [OF assms(1,2)]
  note b = slide_spec [OF assms(3,4)]
  define i where "i = top_digit (slide a) (slide b) 256"
  note i = top_digit_spec [of "slide a" "slide b" 256, folded i_def]
  have z: "p2_comb P ge_p2_0 0 0" using ge_p2_0_spec comb_zero unfolding p2_comb_def by blast
  have d: "\<forall>j<i. slide_digit (slide a ! j) \<and> slide_digit (slide b ! j)" using i a(2) b(2) by auto
  have "(\<Sum>j<i. slide a ! j * 2 ^ j) = le_val a" "(\<Sum>j<i. slide b ! j * 2 ^ j) = le_val b"
    using sum_below_top [of i 256 "\<lambda>j. slide a ! j * 2 ^ j"] sum_below_top [of i 256 "\<lambda>j. slide b ! j * 2 ^ j"] i a(3) b(3)
    by (simp_all add: sval_def)
  then show ?thesis
    using double_add_spec [OF odd_multiples_spec [OF assms(5)] d z]
    by (simp add: ge_double_scalarmult_vartime_def Let_def i_def [symmetric])
qed

section \<open>The base point\<close>

lemma half_eq:
  assumes "0 \<le> r" "r < p25519" "(2 * r) mod p25519 = a mod p25519"
  shows "a * half mod p25519 = r"
proof -
  have "a * half mod p25519 = (2 * r) * half mod p25519" by (intro mod_mult_cong assms(3) [symmetric] refl)
  also have "\<dots> = (r * (2 * half)) mod p25519" by (simp add: ac_simps)
  also have "\<dots> = r" unfolding half_inverse using assms(1,2) by (simp add: ring_distribs)
  finally show ?thesis .
qed

lemma half_of_d_eq:
  assumes "0 \<le> t" "t < p25519" "(t * (2 * edwards_d)) mod p25519 = a mod p25519"
  shows "a * half_of_d mod p25519 = t"
proof -
  have "a * half_of_d mod p25519 = (t * (2 * edwards_d)) * half_of_d mod p25519"
    by (intro mod_mult_cong assms(3) [symmetric] refl)
  also have "\<dots> = (t * (half_of_d * (2 * edwards_d))) mod p25519" by (simp only: ac_simps)
  also have "\<dots> = t" unfolding half_of_d_inverse using assms(1,2) by (simp add: ring_distribs mult.assoc [symmetric])
  finally show ?thesis .
qed

text \<open>Products modulo the prime, with the quotients given.\<close>

lemma curve_eq_check:
  assumes "Y * Y + 19 * qa = qa * 2 ^ 255 + sa" "X * X + 19 * qb = qb * 2 ^ 255 + sb"
    "T * T + 19 * qc = qc * 2 ^ 255 + sc" "edwards_d * sc + 19 * qd = qd * 2 ^ 255 + sd"
    "X * Y + 19 * qe = qe * 2 ^ 255 + T" "sa - sb - 1 - sd + 19 * k = k * 2 ^ 255"
  shows "curve_eq X Y 1 T"
proof -
  have e: "Y * Y = qa * p25519 + sa" "X * X = qb * p25519 + sb" "T * T = qc * p25519 + sc"
    "edwards_d * sc = qd * p25519 + sd" "X * Y - T = qe * p25519" "sa = sb + 1 + sd + k * p25519"
    using assms unfolding p25519_def by (simp_all only: right_diff_distrib)
  have "edwards_d * (T * T) = edwards_d * qc * p25519 + edwards_d * sc" unfolding e(3) by (simp add: algebra_simps)
  then have "Y * Y - X * X - 1 * 1 - edwards_d * (T * T) = (qa + k - qb - edwards_d * qc - qd) * p25519"
    unfolding e(1,2,4,6) by (simp add: algebra_simps)
  then show ?thesis unfolding curve_eq_def using e(5) by simp
qed

definition base_x :: int where
  "base_x = 15112221349535400772501151409588531511454012693041857206046113283949847762202"

definition base_y :: int where
  "base_y = 46316835694926478169428394003475163141307993866256225615783033603165251855960"

definition base_t :: int where
  "base_t = 46827403850823179245072216630277197565144205554125654976674165829533817101731"

lemma base_on_curve: "on_curve (base_x, base_y, 1, base_t)"
  unfolding on_curve_def prod.case
  by (rule curve_eq_check [where
        qa = 37053468555941182535542715202780130513046395093004980492626426882532201484768 and
        sa = 37053468555941182535542715202780130513046395093004980492626426882532201484768 and
        qb = 3944643120641682540557488748386534817562863454810087094083181913524639656337 and
        sb = 26187595835145689230469591415084376402084551887632582719101735842039498021991 and
        qc = 37874880155481576743800675453736195947824682036213940185119870298671986566951 and
        sc = 30655112042971184558329056706696549839726511367961720624960021019854854290862 and
        qd = 19641635784112395346641967481223427603076292420967697888635760513231183455066 and
        sd = 10865872720795493305073123787695754110961843205372397773524691040492703462776 and
        qe = 12089777079628320618000921127670825209163210154433485764836890627159878209761 and
        k = "0"])
    (simp_all add: base_x_def base_y_def base_t_def edwards_d_def)

lemma table_base_point: "table_point (base ! 0 ! 0) = (base_x, base_y, 1, base_t)"
proof -
  have l: "lval 10 f = wsum_list (map sint f)" if "length f = 10" for f :: fe
    using that by (simp add: lval_def wsum_list_def)
  have r: "res (yplusx (base ! 0 ! 0)) = 3533012425803781230144052908719740726127014226477800802100354883158534798213"
    "res (yminusx (base ! 0 ! 0)) = 31204614345391077396927242593886631629853981173214368409736920319215404093758"
    "res (xy2d (base ! 0 ! 0)) = 50237614328228664512531835696112167678046477356841409204013502641986506238568"
    by (simp_all add: res_def base_def base_0_def l wsum_list_def sum_10 weight_def p25519_def)
  have t: "base_t * (2 * edwards_d) + 19 * 60007401693010716848578972718972579622751081550669298468045873082723336218258 =
      60007401693010716848578972718972579622751081550669298468045873082723336218258 * 2 ^ 255 + 50237614328228664512531835696112167678046477356841409204013502641986506238568"
    by (simp add: base_t_def edwards_d_def)
  then have "base_t * (2 * edwards_d) = 50237614328228664512531835696112167678046477356841409204013502641986506238568 + 60007401693010716848578972718972579622751081550669298468045873082723336218258 * p25519"
    unfolding p25519_def by (simp only: right_diff_distrib)
  then have m: "base_t * (2 * edwards_d) mod p25519 = 50237614328228664512531835696112167678046477356841409204013502641986506238568 mod p25519" by simp
  have "0 \<le> base_t" "base_t < p25519" by (simp_all add: base_t_def p25519_def)
  from half_of_d_eq [OF this m] have "50237614328228664512531835696112167678046477356841409204013502641986506238568 * half_of_d mod p25519 = base_t" .
  moreover have "(3533012425803781230144052908719740726127014226477800802100354883158534798213 - 31204614345391077396927242593886631629853981173214368409736920319215404093758) * half mod p25519 = base_x"
    by (rule half_eq) (simp_all add: base_x_def p25519_def)
  moreover have "(3533012425803781230144052908719740726127014226477800802100354883158534798213 + 31204614345391077396927242593886631629853981173214368409736920319215404093758) * half mod p25519 = base_y"
    by (rule half_eq) (simp_all add: base_y_def p25519_def)
  ultimately show ?thesis unfolding table_point_def r by (simp only:)
qed

text \<open>
  The tables: the first entry of both is the base point of RFC 8032, whose \<open>y\<close> coordinate is \<open>4/5\<close>
  and whose \<open>x\<close> coordinate is even, and it lies on the curve; and the odd multiples up to seven are
  the same in both.
\<close>

theorem tables_start_at_base_point:
  "table_point (base ! 0 ! 0) = (base_x, base_y, 1, base_t) \<and> on_curve (table_point (base ! 0 ! 0)) \<and>
   (5 * base_y) mod p25519 = 4 \<and> even base_x \<and>
   Bi ! 0 = base ! 0 ! 0 \<and> Bi ! 1 = base ! 0 ! 2 \<and> Bi ! 2 = base ! 0 ! 4 \<and> Bi ! 3 = base ! 0 ! 6"
proof -
  have "(5 * base_y) mod p25519 = 4" "even base_x" by (simp_all add: base_y_def base_x_def p25519_def)
  moreover have "Bi ! 0 = base ! 0 ! 0 \<and> Bi ! 1 = base ! 0 ! 2 \<and> Bi ! 2 = base ! 0 ! 4 \<and> Bi ! 3 = base ! 0 ! 6"
    by (simp add: Bi_def base_def base_0_def)
  ultimately show ?thesis using base_on_curve by (simp add: table_base_point)
qed

section \<open>Properties\<close>

text \<open>
  Digits: the radix-16 digits of \<open>ge_scalarmult_base\<close>, for a last byte up to 127, are between -8 and 8
  and sum up to the scalar; those of \<open>slide\<close>, for scalars below \<open>2^253\<close>, are zero or odd, between -15 and
  15, and sum up to the scalar: the carry never leaves the 256 digits.  All of them fit in a
  \<open>signed char\<close>.
\<close>

theorem scalar_digits:
  assumes "length a = 32" "a ! 31 \<le> 127" "length b = 32" "le_val b < 2 ^ 253"
  shows "(\<forall>i<64. \<bar>radix16_digits a ! i\<bar> \<le> 8) \<and> (\<Sum>i<64. radix16_digits a ! i * 16 ^ i) = le_val a \<and>
    (\<forall>i<256. slide b ! i = 0 \<or> odd (slide b ! i) \<and> \<bar>slide b ! i\<bar> \<le> 15) \<and> (\<Sum>i<256. slide b ! i * 2 ^ i) = le_val b"
  using radix16_digits_spec [OF assms(1,2)] slide_spec [OF assms(3,4)]
  by (auto simp: slide_digit_def sval_def abs_le_iff)

theorem scalar_digits_witness:
  "(\<Sum>i<64. radix16_digits (replicate 32 0x7f) ! i * 16 ^ i) = le_val (replicate 32 0x7f) \<and>
   (\<Sum>i<256. slide (replicate 31 0xff @ [0x1f]) ! i * 2 ^ i) = le_val (replicate 31 0xff @ [0x1f])"
proof -
  have "le_val (replicate 31 0xff @ [0x1f]) < 2 ^ 253"
    using le_val_bounds(2) [of "replicate 31 0xff"] by (simp add: le_val_append) (simp add: le_val_def)
  then show ?thesis using scalar_digits [of "replicate 32 0x7f" "replicate 31 0xff @ [0x1f]"] by simp
qed

text \<open>
  C25 Bounds of representations: every conversion and addition of \<open>ge.c\<close> takes points with limbs in
  bounds to points with limbs in bounds, the cached form included; this holds for all entries of the
  tables and for everything the decoding returns.
\<close>

theorem representations_stay_in_bounds:
  assumes "p3_ok p" "p3_ok q" "p2_ok r" "i < 32" "j < 8" "b \<in> {- 8..8}" "length s = 32"
  shows "p1_ok (ge_add p (ge_p3_to_cached q)) \<and> p1_ok (ge_sub p (ge_p3_to_cached q)) \<and>
    p1_ok (ge_madd p (ge_select i b)) \<and> p1_ok (ge_madd p (Bi ! j)) \<and> p1_ok (ge_msub p (Bi ! j)) \<and>
    p1_ok (ge_p2_dbl r) \<and> p1_ok (ge_p3_dbl p) \<and>
    (\<forall>t. p1_ok t \<longrightarrow> p3_ok (ge_p1p1_to_p3 t) \<and> p2_ok (ge_p1p1_to_p2 t)) \<and>
    cached_ok (ge_p3_to_cached p) \<and> precomp_ok (ge_select i b) \<and> precomp_ok (Bi ! j) \<and> precomp_ok (base ! i ! j) \<and>
    p3_ok ge_p3_0 \<and> p2_ok ge_p2_0 \<and> p2_ok (ge_p3_to_p2 p) \<and>
    (\<forall>h. ge_frombytes_negate_vartime s = Some h \<longrightarrow> p3_ok h)"
proof -
  have p: "p3_of p (ext_of p)" "p3_of q (ext_of q)" using assms(1,2) by (simp_all add: p3_of_def)
  have r: "p2_of r (res (p2_X r), res (p2_Y r), res (p2_Z r), 0)" using assms(3) by (simp add: p2_of_def)
  have conv: "p1_ok t \<longrightarrow> p3_ok (ge_p1p1_to_p3 t) \<and> p2_ok (ge_p1p1_to_p2 t)" for t
    using ge_p1p1_to_p3_spec [of t] ge_p1p1_to_p2_spec [of t] by (simp add: p3_of_def p2_of_def)
  have "ge_frombytes_negate_vartime s = Some h \<longrightarrow> p3_ok h" for h
    using decoded_ok [OF assms(7), of h] by blast
  moreover have "p3_ok ge_p3_0" "p2_ok ge_p2_0" "p2_ok (ge_p3_to_p2 p)"
    using ge_p3_0_spec ge_p2_0_spec ge_p3_to_p2_spec [OF p(1)] by (simp_all add: p3_of_def p2_of_def)
  moreover have "cached_ok (ge_p3_to_cached p)" "precomp_ok (ge_select i b)" "precomp_ok (Bi ! j)" "precomp_ok (base ! i ! j)"
    using cached_as_ok [OF ge_p3_to_cached_spec [OF p(1)]] precomp_as_ok [OF ge_select_spec [OF assms(4,6)]]
      tables_ok assms(4,5) by blast+
  ultimately show ?thesis
    using ge_add_spec [OF p(1) ge_p3_to_cached_spec [OF p(2)]] ge_madd_spec(1) [OF p(1) ge_select_spec [OF assms(4,6)]]
      ge_madd_spec [OF p(1) precomp_as_table_point [OF tables_ok(1) [OF assms(5)]]] ge_p2_dbl_spec(1) [OF r]
      ge_p3_dbl_spec(1) [OF p(1)] conv by blast
qed

theorem representations_stay_in_bounds_witness:
  "p1_ok (ge_add ge_p3_0 (ge_p3_to_cached ge_p3_0)) \<and> p1_ok (ge_madd ge_p3_0 (ge_select 31 (- 8))) \<and>
   p1_ok (ge_msub ge_p3_0 (Bi ! 7))"
proof -
  have "p3_ok ge_p3_0" "p2_ok ge_p2_0" using ge_p3_0_spec ge_p2_0_spec by (simp_all add: p3_of_def p2_of_def)
  from representations_stay_in_bounds [OF this(1,1,2), of 31 7 "- 8" "replicate 32 0"] show ?thesis by simp
qed

text \<open>
  C20 Multiples of the base point: for a scalar with last byte up to 127, \<open>ge_scalarmult_base\<close> returns a
  point with limbs in bounds that is built from the table by additions, doublings and negations whose
  multiples of the base point add up to the scalar.
\<close>

theorem base_multiple:
  assumes "length a = 32" "a ! 31 \<le> 127"
  shows "p3_ok (ge_scalarmult_base a) \<and> combination A 0 (le_val a) (ext_of (ge_scalarmult_base a))"
  using ge_scalarmult_base_spec [OF assms, of A] by (auto simp: p3_of_def)

theorem base_multiple_witness:
  "combination ext_zero 0 (le_val (replicate 32 0x7f)) (ext_of (ge_scalarmult_base (replicate 32 0x7f)))"
  using base_multiple [of "replicate 32 0x7f" ext_zero] by simp

text \<open>
  C19 Sums of two multiples: for scalars below \<open>2^253\<close>, \<open>ge_double_scalarmult_vartime\<close> returns a point with
  limbs in bounds that is built from \<open>A\<close> and the table of odd multiples by operations whose multiples
  add up to the first scalar for \<open>A\<close> and to the second one for the base point, whatever leading zeros
  and signs the windows have.
\<close>

theorem double_multiple:
  assumes "length a = 32" "le_val a < 2 ^ 253" "length b = 32" "le_val b < 2 ^ 253" "p3_ok A"
    "r = ge_double_scalarmult_vartime a A b"
  shows "p2_ok r \<and> (\<exists>T. combination (ext_of A) (le_val a) (le_val b) (res (p2_X r), res (p2_Y r), res (p2_Z r), T))"
proof -
  have "p3_of A (ext_of A)" using assms(5) by (simp add: p3_of_def)
  from ge_double_scalarmult_vartime_spec [OF assms(1-4) this] obtain P where
    "p2_of r P" "combination (ext_of A) (le_val a) (le_val b) P"
    unfolding p2_comb_def assms(6) by blast
  then show ?thesis unfolding p2_of_def by metis
qed

theorem double_multiple_witness:
  "p2_ok (ge_double_scalarmult_vartime (replicate 31 0xff @ [0]) ge_p3_0 (replicate 31 0x55 @ [0]))"
proof -
  have z: "le_val (replicate 31 0xff @ [0]) < 2 ^ 253" "le_val (replicate 31 0x55 @ [0]) < 2 ^ 253"
    using le_val_bounds(2) [of "replicate 31 0xff"] le_val_bounds(2) [of "replicate 31 0x55"]
    by (simp_all add: le_val_append) (simp_all add: le_val_def)
  have "p3_ok ge_p3_0" using ge_p3_0_spec by (simp add: p3_of_def)
  from double_multiple [OF _ z(1) _ z(2) this refl] show ?thesis by simp
qed

end
