(* ===== verification/EdScalar.thy ===== *)
theory EdScalar
  imports EdLimbs
begin

text \<open>
  \<open>lib/ed25519/src/sc.c\<close>: arithmetic modulo the order \<open>l\<close> of the base point, on signed limbs of 21
  bits.  Both functions compute limbs of a number below \<open>2^512\<close> and reduce it by the same sequence of
  steps: multiples of \<open>l\<close> are subtracted at the upper limbs, between rounds of carries.  The lemmas
  bound the limbs at every step, so that each step changes the number as it does over the integers, and
  show that what is written is the remainder itself.
\<close>

section \<open>Operations\<close>

definition sc_load :: "bytes \<Rightarrow> limb list" where
  "sc_load s =
     [2097151 AND load_3 s, 2097151 AND drop_bit 5 (load_4 (drop 2 s)),
      2097151 AND drop_bit 2 (load_3 (drop 5 s)), 2097151 AND drop_bit 7 (load_4 (drop 7 s)),
      2097151 AND drop_bit 4 (load_4 (drop 10 s)), 2097151 AND drop_bit 1 (load_3 (drop 13 s)),
      2097151 AND drop_bit 6 (load_4 (drop 15 s)), 2097151 AND drop_bit 3 (load_3 (drop 18 s)),
      2097151 AND load_3 (drop 21 s), 2097151 AND drop_bit 5 (load_4 (drop 23 s)),
      2097151 AND drop_bit 2 (load_3 (drop 26 s)), 2097151 AND drop_bit 7 (load_4 (drop 28 s)),
      2097151 AND drop_bit 4 (load_4 (drop 31 s)), 2097151 AND drop_bit 1 (load_3 (drop 34 s)),
      2097151 AND drop_bit 6 (load_4 (drop 36 s)), 2097151 AND drop_bit 3 (load_3 (drop 39 s)),
      2097151 AND load_3 (drop 42 s), 2097151 AND drop_bit 5 (load_4 (drop 44 s)),
      2097151 AND drop_bit 2 (load_3 (drop 47 s)), 2097151 AND drop_bit 7 (load_4 (drop 49 s)),
      2097151 AND drop_bit 4 (load_4 (drop 52 s)), 2097151 AND drop_bit 1 (load_3 (drop 55 s)),
      2097151 AND drop_bit 6 (load_4 (drop 57 s)), drop_bit 3 (load_4 (drop 60 s))]"

definition sc_load_32 :: "bytes \<Rightarrow> limb list" where
  "sc_load_32 s =
     [2097151 AND load_3 s, 2097151 AND drop_bit 5 (load_4 (drop 2 s)),
      2097151 AND drop_bit 2 (load_3 (drop 5 s)), 2097151 AND drop_bit 7 (load_4 (drop 7 s)),
      2097151 AND drop_bit 4 (load_4 (drop 10 s)), 2097151 AND drop_bit 1 (load_3 (drop 13 s)),
      2097151 AND drop_bit 6 (load_4 (drop 15 s)), 2097151 AND drop_bit 3 (load_3 (drop 18 s)),
      2097151 AND load_3 (drop 21 s), 2097151 AND drop_bit 5 (load_4 (drop 23 s)),
      2097151 AND drop_bit 2 (load_3 (drop 26 s)), drop_bit 7 (load_4 (drop 28 s))]"

text \<open>
  Limb \<open>i\<close> is replaced by what it is modulo \<open>l\<close>, twelve limbs lower; a carry is rounded to the nearest
  or down.
\<close>

definition sc_fold :: "limb list \<Rightarrow> nat \<Rightarrow> limb list" where
  "sc_fold s i =
     (let s = s[i - 12 := s ! (i - 12) + s ! i * 666643];
          s = s[i - 11 := s ! (i - 11) + s ! i * 470296];
          s = s[i - 10 := s ! (i - 10) + s ! i * 654183];
          s = s[i - 9 := s ! (i - 9) - s ! i * 997805];
          s = s[i - 8 := s ! (i - 8) + s ! i * 136657];
          s = s[i - 7 := s ! (i - 7) - s ! i * 683901]
      in s[i := 0])"

definition sc_round :: "limb list \<Rightarrow> nat \<Rightarrow> limb list" where
  "sc_round s i =
     (let carry = round_carry 21 (s ! i);
          s = s[i + 1 := s ! (i + 1) + carry]
      in s[i := s ! i - push_bit 21 carry])"

definition sc_floor :: "limb list \<Rightarrow> nat \<Rightarrow> limb list" where
  "sc_floor s i =
     (let carry = floor_carry 21 (s ! i);
          s = s[i + 1 := s ! (i + 1) + carry]
      in s[i := s ! i - push_bit 21 carry])"

definition sc_reduce_limbs :: "limb list \<Rightarrow> limb list" where
  "sc_reduce_limbs s =
     (let s = foldl sc_fold s [23, 22, 21, 20, 19, 18];
          s = foldl sc_round s [6, 8, 10, 12, 14, 16, 7, 9, 11, 13, 15];
          s = foldl sc_fold s [17, 16, 15, 14, 13, 12];
          s = foldl sc_round s [0, 2, 4, 6, 8, 10, 1, 3, 5, 7, 9, 11];
          s = foldl sc_fold s [12];
          s = foldl sc_floor s [0, 1, 2, 3, 4, 5, 6, 7, 8, 9, 10, 11];
          s = foldl sc_fold s [12]
      in foldl sc_floor s [0, 1, 2, 3, 4, 5, 6, 7, 8, 9, 10])"

definition sc_bytes :: "limb list \<Rightarrow> bytes" where
  "sc_bytes s =
     [ucast (s ! 0), ucast (signed_drop_bit 8 (s ! 0)),
      ucast (signed_drop_bit 16 (s ! 0) OR push_bit 5 (s ! 1)),
      ucast (signed_drop_bit 3 (s ! 1)), ucast (signed_drop_bit 11 (s ! 1)),
      ucast (signed_drop_bit 19 (s ! 1) OR push_bit 2 (s ! 2)),
      ucast (signed_drop_bit 6 (s ! 2)),
      ucast (signed_drop_bit 14 (s ! 2) OR push_bit 7 (s ! 3)),
      ucast (signed_drop_bit 1 (s ! 3)), ucast (signed_drop_bit 9 (s ! 3)),
      ucast (signed_drop_bit 17 (s ! 3) OR push_bit 4 (s ! 4)),
      ucast (signed_drop_bit 4 (s ! 4)), ucast (signed_drop_bit 12 (s ! 4)),
      ucast (signed_drop_bit 20 (s ! 4) OR push_bit 1 (s ! 5)),
      ucast (signed_drop_bit 7 (s ! 5)),
      ucast (signed_drop_bit 15 (s ! 5) OR push_bit 6 (s ! 6)),
      ucast (signed_drop_bit 2 (s ! 6)), ucast (signed_drop_bit 10 (s ! 6)),
      ucast (signed_drop_bit 18 (s ! 6) OR push_bit 3 (s ! 7)),
      ucast (signed_drop_bit 5 (s ! 7)), ucast (signed_drop_bit 13 (s ! 7)), ucast (s ! 8),
      ucast (signed_drop_bit 8 (s ! 8)),
      ucast (signed_drop_bit 16 (s ! 8) OR push_bit 5 (s ! 9)),
      ucast (signed_drop_bit 3 (s ! 9)), ucast (signed_drop_bit 11 (s ! 9)),
      ucast (signed_drop_bit 19 (s ! 9) OR push_bit 2 (s ! 10)),
      ucast (signed_drop_bit 6 (s ! 10)),
      ucast (signed_drop_bit 14 (s ! 10) OR push_bit 7 (s ! 11)),
      ucast (signed_drop_bit 1 (s ! 11)), ucast (signed_drop_bit 9 (s ! 11)),
      ucast (signed_drop_bit 17 (s ! 11))]"

text \<open>\<open>sc_reduce\<close> overwrites the first 32 of its 64 bytes.\<close>

definition sc_reduce :: "bytes \<Rightarrow> bytes" where
  "sc_reduce s = sc_bytes (sc_reduce_limbs (sc_load s)) @ drop 32 s"

definition muladd_sums :: "(nat \<Rightarrow> 'a::comm_ring_1) \<Rightarrow> (nat \<Rightarrow> 'a) \<Rightarrow> (nat \<Rightarrow> 'a) \<Rightarrow> 'a list" where
  "muladd_sums a b c =
     [c 0 + a 0 * b 0,
      c 1 + a 0 * b 1 + a 1 * b 0,
      c 2 + a 0 * b 2 + a 1 * b 1 + a 2 * b 0,
      c 3 + a 0 * b 3 + a 1 * b 2 + a 2 * b 1 + a 3 * b 0,
      c 4 + a 0 * b 4 + a 1 * b 3 + a 2 * b 2 + a 3 * b 1 + a 4 * b 0,
      c 5 + a 0 * b 5 + a 1 * b 4 + a 2 * b 3 + a 3 * b 2 + a 4 * b 1 + a 5 * b 0,
      c 6 + a 0 * b 6 + a 1 * b 5 + a 2 * b 4 + a 3 * b 3 + a 4 * b 2 + a 5 * b 1 + a 6 * b 0,
      c 7 + a 0 * b 7 + a 1 * b 6 + a 2 * b 5 + a 3 * b 4 + a 4 * b 3 + a 5 * b 2 + a 6 * b 1 +
        a 7 * b 0,
      c 8 + a 0 * b 8 + a 1 * b 7 + a 2 * b 6 + a 3 * b 5 + a 4 * b 4 + a 5 * b 3 + a 6 * b 2 +
        a 7 * b 1 + a 8 * b 0,
      c 9 + a 0 * b 9 + a 1 * b 8 + a 2 * b 7 + a 3 * b 6 + a 4 * b 5 + a 5 * b 4 + a 6 * b 3 +
        a 7 * b 2 + a 8 * b 1 + a 9 * b 0,
      c 10 + a 0 * b 10 + a 1 * b 9 + a 2 * b 8 + a 3 * b 7 + a 4 * b 6 + a 5 * b 5 + a 6 * b 4 +
        a 7 * b 3 + a 8 * b 2 + a 9 * b 1 + a 10 * b 0,
      c 11 + a 0 * b 11 + a 1 * b 10 + a 2 * b 9 + a 3 * b 8 + a 4 * b 7 + a 5 * b 6 + a 6 * b 5 +
        a 7 * b 4 + a 8 * b 3 + a 9 * b 2 + a 10 * b 1 + a 11 * b 0,
      a 1 * b 11 + a 2 * b 10 + a 3 * b 9 + a 4 * b 8 + a 5 * b 7 + a 6 * b 6 + a 7 * b 5 +
        a 8 * b 4 + a 9 * b 3 + a 10 * b 2 + a 11 * b 1,
      a 2 * b 11 + a 3 * b 10 + a 4 * b 9 + a 5 * b 8 + a 6 * b 7 + a 7 * b 6 + a 8 * b 5 +
        a 9 * b 4 + a 10 * b 3 + a 11 * b 2,
      a 3 * b 11 + a 4 * b 10 + a 5 * b 9 + a 6 * b 8 + a 7 * b 7 + a 8 * b 6 + a 9 * b 5 +
        a 10 * b 4 + a 11 * b 3,
      a 4 * b 11 + a 5 * b 10 + a 6 * b 9 + a 7 * b 8 + a 8 * b 7 + a 9 * b 6 + a 10 * b 5 +
        a 11 * b 4,
      a 5 * b 11 + a 6 * b 10 + a 7 * b 9 + a 8 * b 8 + a 9 * b 7 + a 10 * b 6 + a 11 * b 5,
      a 6 * b 11 + a 7 * b 10 + a 8 * b 9 + a 9 * b 8 + a 10 * b 7 + a 11 * b 6,
      a 7 * b 11 + a 8 * b 10 + a 9 * b 9 + a 10 * b 8 + a 11 * b 7,
      a 8 * b 11 + a 9 * b 10 + a 10 * b 9 + a 11 * b 8,
      a 9 * b 11 + a 10 * b 10 + a 11 * b 9,
      a 10 * b 11 + a 11 * b 10,
      a 11 * b 11,
      0]"

definition sc_muladd :: "bytes \<Rightarrow> bytes \<Rightarrow> bytes \<Rightarrow> bytes" where
  "sc_muladd a b c =
     (let s = muladd_sums (\<lambda>i. sc_load_32 a ! i) (\<lambda>i. sc_load_32 b ! i) (\<lambda>i. sc_load_32 c ! i);
          s = foldl sc_round s [0, 2, 4, 6, 8, 10, 12, 14, 16, 18, 20, 22, 1, 3, 5, 7, 9, 11, 13, 15, 17, 19, 21]
      in sc_bytes (sc_reduce_limbs s))"

section \<open>Bounds and values\<close>

definition group_order :: int where
  "group_order = 2 ^ 252 + 27742317777372353535851937790883648493"

definition sc_weight :: "nat \<Rightarrow> int" where
  "sc_weight i = 2 ^ (21 * i)"

datatype sc_step = Fold nat | Round nat

primrec sc_run :: "limb list \<Rightarrow> sc_step \<Rightarrow> limb list" where
  "sc_run s (Fold i) = sc_fold s i"
| "sc_run s (Round i) = sc_round s i"

definition fold_terms :: "(nat \<times> int) list" where
  "fold_terms = [(0, 666643), (1, 470296), (2, 654183), (3, - 997805), (4, 136657), (5, - 683901)]"

definition add_term :: "nat \<Rightarrow> limb list \<Rightarrow> nat \<times> int \<Rightarrow> limb list" where
  "add_term i s = (\<lambda>(k, m). s[i - 12 + k := s ! (i - 12 + k) + s ! i * of_int m])"

primrec term_bounds :: "int list \<Rightarrow> nat \<Rightarrow> (nat \<times> int) list \<Rightarrow> int list option" where
  "term_bounds B i [] = Some B"
| "term_bounds B i (t # ts) =
     (let j = i - 12 + fst t; b = B ! j + B ! i * \<bar>snd t\<bar>
      in if b < 2 ^ 63 then term_bounds (B[j := b]) i ts else None)"

primrec step_bounds :: "int list \<Rightarrow> sc_step \<Rightarrow> int list option" where
  "step_bounds B (Fold i) =
     (if 12 \<le> i \<and> i < 24 then map_option (\<lambda>B. B[i := 0]) (term_bounds B i fold_terms) else None)"
| "step_bounds B (Round i) =
     (let c = (B ! i + 2 ^ 20) div 2 ^ 21
      in if i < 23 \<and> B ! i + 2 ^ 20 < 2 ^ 63 \<and> B ! (i + 1) + c < 2 ^ 63
         then Some (B[i + 1 := B ! (i + 1) + c, i := 2 ^ 20]) else None)"

primrec sc_bounds :: "int list \<Rightarrow> sc_step list \<Rightarrow> int list option" where
  "sc_bounds B [] = Some B"
| "sc_bounds B (t # ts) = (case step_bounds B t of None \<Rightarrow> None | Some B' \<Rightarrow> sc_bounds B' ts)"

lemma sc_fold_terms: "12 \<le> i \<Longrightarrow> sc_fold s i = (foldl (add_term i) s fold_terms)[i := 0]"
proof -
  assume "12 \<le> i"
  then have "i - 11 = i - 12 + 1" "i - 10 = i - 12 + 2" "i - 9 = i - 12 + 3" "i - 8 = i - 12 + 4" "i - 7 = i - 12 + 5"
    by simp_all
  then show ?thesis by (simp add: sc_fold_def Let_def fold_terms_def add_term_def del: list_update.simps)
qed

lemma add_terms_spec:
  assumes "limbs_bounded B s" "length s = 24" "12 \<le> i" "i < 24" "list_all (\<lambda>t. fst t < 12) ts" "term_bounds B i ts = Some B'"
  shows "limbs_bounded B' (foldl (add_term i) s ts) \<and> length (foldl (add_term i) s ts) = 24 \<and>
    foldl (add_term i) s ts ! i = s ! i \<and> B' ! i = B ! i \<and>
    wsum W (foldl (add_term i) s ts) = wsum W s + sint (s ! i) * (\<Sum>t\<leftarrow>ts. W (i - 12 + fst t) * snd t)"
  using assms
proof (induction ts arbitrary: B s)
  case (Cons t ts)
  define k m j where "k = fst t" and "m = snd t" and "j = i - 12 + k"
  define s1 where "s1 = s[j := s ! j + s ! i * of_int m]"
  have k: "k < 12" using Cons.prems(5) by (simp add: k_def)
  have ij: "i < length s" "j < length s" "j \<noteq> i" using Cons.prems(2-4) k by (auto simp: j_def)
  have b: "B ! j + B ! i * \<bar>m\<bar> < 2 ^ 63" "term_bounds (B[j := B ! j + B ! i * \<bar>m\<bar>]) i ts = Some B'"
    using Cons.prems(6) by (simp_all add: m_def k_def j_def Let_def split: if_splits)
  note a = add_multiple [OF Cons.prems(1) ij(1,2) b(1), folded s1_def]
  have e: "add_term i s t = s1" by (simp add: add_term_def case_prod_beta s1_def m_def k_def j_def)
  have l: "length s1 = 24" "s1 ! i = s ! i" using Cons.prems(2) ij(3) by (simp_all add: s1_def)
  have ts: "list_all (\<lambda>t. fst t < 12) ts" using Cons.prems(5) by simp
  show ?case
    using Cons.IH [OF a(1) l(1) Cons.prems(3,4) ts b(2)] ij(3) a(2) [of W] l(2)
    by (simp add: e k_def [symmetric] m_def [symmetric] j_def [symmetric] distrib_left mult.left_commute)
qed simp

lemma sc_weight_Suc: "sc_weight (Suc i) = 2 ^ 21 * sc_weight i"
  by (simp add: sc_weight_def power_add)

lemma fold_terms_order:
  assumes "12 \<le> i"
  shows "(\<Sum>t\<leftarrow>fold_terms. sc_weight (i - 12 + fst t) * snd t) - sc_weight i = - (sc_weight (i - 12) * group_order)"
proof -
  have "sc_weight (i - 12 + k) = sc_weight (i - 12) * 2 ^ (21 * k)" for k
    by (simp add: sc_weight_def power_add [symmetric] distrib_left)
  moreover from this [of 12] have "sc_weight i = sc_weight (i - 12) * 2 ^ 252" using assms by simp
  ultimately show ?thesis by (simp add: fold_terms_def group_order_def)
qed

lemma sc_fold_spec:
  assumes "limbs_bounded B s" "length s = 24" "step_bounds B (Fold i) = Some B'"
  shows "limbs_bounded B' (sc_fold s i)" "length (sc_fold s i) = 24"
    "wsum sc_weight (sc_fold s i) = wsum sc_weight s - sint (s ! i) * sc_weight (i - 12) * group_order"
proof -
  have i: "12 \<le> i" "i < 24" using assms(3) by (simp_all split: if_splits)
  obtain B1 where B1: "term_bounds B i fold_terms = Some B1" "B' = B1[i := 0]"
    using assms(3) i by auto
  have f: "list_all (\<lambda>t. fst t < 12) fold_terms" by (simp add: fold_terms_def)
  define t where "t = foldl (add_term i) s fold_terms"
  have a: "limbs_bounded B1 t" "length t = 24" "t ! i = s ! i"
    "wsum sc_weight t = wsum sc_weight s + sint (s ! i) * (\<Sum>t\<leftarrow>fold_terms. sc_weight (i - 12 + fst t) * snd t)"
    using add_terms_spec [OF assms(1,2) i f B1(1)] by (simp_all add: t_def)
  have e: "sc_fold s i = t[i := 0]" using i by (simp add: sc_fold_terms t_def)
  show "limbs_bounded B' (sc_fold s i)" unfolding e B1(2) by (rule limbs_bounded_update [OF a(1)]) simp
  show "length (sc_fold s i) = 24" by (simp add: e a(2))
  have "wsum sc_weight (sc_fold s i) = wsum sc_weight s +
      sint (s ! i) * ((\<Sum>t\<leftarrow>fold_terms. sc_weight (i - 12 + fst t) * snd t) - sc_weight i)"
    using a i by (simp add: e wsum_update right_diff_distrib mult.commute)
  then show "wsum sc_weight (sc_fold s i) = wsum sc_weight s - sint (s ! i) * sc_weight (i - 12) * group_order"
    unfolding fold_terms_order [OF i(1)] by simp
qed

lemma sc_round_spec:
  assumes "limbs_bounded B s" "length s = 24" "step_bounds B (Round i) = Some B'"
  shows "limbs_bounded B' (sc_round s i)" "length (sc_round s i) = 24" "wsum sc_weight (sc_round s i) = wsum sc_weight s"
proof -
  define c C where "c = round_carry 21 (s ! i)" and "C = (B ! i + 2 ^ 20) div 2 ^ 21"
  have b: "i < 23" "B ! i + 2 ^ (21 - 1) < 2 ^ 63" "B ! (i + 1) + C * 1 < 2 ^ 63" "B' = B[i + 1 := B ! (i + 1) + C * 1, i := 2 ^ (21 - 1)]"
    using assms(3) by (simp_all add: Let_def C_def split: if_splits)
  have ij: "i < length s" "i + 1 < length s" "i \<noteq> i + 1" using assms(2) b(1) by auto
  have r: "\<bar>sint c\<bar> \<le> C" "\<bar>sint (s ! i) - 2 ^ 21 * sint c\<bar> \<le> 2 ^ (21 - 1)"
    using sint_round_carry(2,3) [OF limbs_bounded_nth [OF assms(1) ij(1)] b(2)] by (simp_all add: c_def C_def)
  have e: "sc_round s i = s[i + 1 := s ! (i + 1) + c * of_int 1, i := s ! i - push_bit 21 c]"
    by (simp add: sc_round_def c_def Let_def)
  note mv = move_limb [OF assms(1) ij r _ _ b(3)]
  show "limbs_bounded B' (sc_round s i)" unfolding e b(4) by (rule mv) simp_all
  show "length (sc_round s i) = 24" by (simp add: e assms(2))
  show "wsum sc_weight (sc_round s i) = wsum sc_weight s"
    unfolding e by (subst mv) (simp_all add: sc_weight_Suc)
qed

lemma sc_run_spec:
  assumes "limbs_bounded B s" "length s = 24" "sc_bounds B ts = Some B'"
  shows "limbs_bounded B' (foldl sc_run s ts) \<and> length (foldl sc_run s ts) = 24 \<and>
    wsum sc_weight (foldl sc_run s ts) mod group_order = wsum sc_weight s mod group_order"
  using assms
proof (induction ts arbitrary: B s)
  case (Cons t ts)
  from Cons.prems(3) obtain B1 where B1: "step_bounds B t = Some B1" "sc_bounds B1 ts = Some B'"
    by (auto split: option.splits)
  have "limbs_bounded B1 (sc_run s t)" "length (sc_run s t) = 24"
    "wsum sc_weight (sc_run s t) mod group_order = wsum sc_weight s mod group_order"
    using sc_fold_spec [OF Cons.prems(1,2)] sc_round_spec [OF Cons.prems(1,2)] B1(1)
    by (cases t; simp add: mod_eq_dvd_iff)+
  then show ?case using Cons.IH [OF _ _ B1(2)] by simp
qed simp

section \<open>The last carries\<close>

text \<open>
  Carries rounded down leave limbs of 21 bits below the limb reached and keep the number.
\<close>

definition floored :: "limb list \<Rightarrow> nat \<Rightarrow> limb list \<Rightarrow> bool" where
  "floored s n x \<longleftrightarrow> length x = 24 \<and> wsum sc_weight x = wsum sc_weight s \<and>
     (\<forall>i<n. 0 \<le> sint (x ! i) \<and> sint (x ! i) < 2 ^ 21) \<and>
     (\<forall>i>n. i < 24 \<longrightarrow> x ! i = s ! i) \<and> \<bar>sint (x ! n)\<bar> \<le> 2 ^ 41"

lemma floored_step:
  assumes s: "\<And>i. i < 24 \<Longrightarrow> \<bar>sint (s ! i)\<bar> \<le> 2 ^ 40" and n: "n < 23" and x: "floored s n x"
  shows "floored s (Suc n) (sc_floor x n)"
proof -
  define c where "c = floor_carry 21 (x ! n)"
  have l: "length x = 24" using x by (simp add: floored_def)
  have xn: "\<bar>sint (x ! n)\<bar> \<le> 2 ^ 41" using x by (simp add: floored_def)
  note f = sint_floor_carry [OF xn, of 21, folded c_def]
  have c: "\<bar>sint c\<bar> \<le> 2 ^ 21" using f(2) by simp
  have y: "x ! (n + 1) = s ! (n + 1)" using x n by (simp add: floored_def)
  have y': "\<bar>sint (x ! (n + 1))\<bar> \<le> 2 ^ 40" unfolding y by (rule s) (use n in simp)
  have a: "sint (x ! (n + 1) + c) = sint (x ! (n + 1)) + sint c" using y' c by (intro sint_add; simp add: abs_le_iff)
  have r': "sint (x ! n - push_bit 21 c) = sint (x ! n) - 2 ^ 21 * sint c"
  proof -
    have "\<bar>sint (x ! n) - 2 ^ 21 * sint c\<bar> \<le> 2 ^ 21" unfolding f(3) by (simp add: abs_le_iff less_imp_le)
    then show ?thesis using sint_remainder [of "x ! n" 21 c "2 ^ 21"] by simp
  qed
  then have r: "sint (x ! n - push_bit 21 c) = sint (x ! n) mod 2 ^ 21" using f(3) by simp
  have e: "sc_floor x n = x[n + 1 := x ! (n + 1) + c, n := x ! n - push_bit 21 c]"
    by (simp add: sc_floor_def c_def Let_def)
  have w: "wsum sc_weight (sc_floor x n) = wsum sc_weight x"
    using n l by (simp add: e wsum_update sc_weight_Suc a [simplified] r' [simplified])
  show ?thesis
    unfolding floored_def
  proof (intro conjI allI impI)
    show "length (sc_floor x n) = 24" by (simp add: e l)
    show "wsum sc_weight (sc_floor x n) = wsum sc_weight s" using w x by (simp add: floored_def)
    show "0 \<le> sint (sc_floor x n ! i)" "sint (sc_floor x n ! i) < 2 ^ 21" if i: "i < Suc n" for i
    proof -
      consider "i = n" | "i < n" using i by linarith
      then have "0 \<le> sint (sc_floor x n ! i) \<and> sint (sc_floor x n ! i) < 2 ^ 21"
        using n l r x by cases (simp_all add: e floored_def)
      then show "0 \<le> sint (sc_floor x n ! i)" "sint (sc_floor x n ! i) < 2 ^ 21" by auto
    qed
    show "sc_floor x n ! i = s ! i" if "Suc n < i" "i < 24" for i
      using that x by (simp add: e floored_def)
    show "\<bar>sint (sc_floor x n ! Suc n)\<bar> \<le> 2 ^ 41" using n l a y' c by (simp add: e abs_le_iff)
  qed
qed

lemma floored_start: "length s = 24 \<Longrightarrow> (\<And>i. i < 24 \<Longrightarrow> \<bar>sint (s ! i)\<bar> \<le> 2 ^ 40) \<Longrightarrow> floored s 0 s"
  using order_trans [of "\<bar>sint (s ! 0)\<bar>" "2 ^ 40" "2 ^ 41"] by (simp add: floored_def)

lemma floored_chain:
  assumes "length s = 24" "\<And>i. i < 24 \<Longrightarrow> \<bar>sint (s ! i)\<bar> \<le> 2 ^ 40" "n \<le> 23"
  shows "floored s n (foldl sc_floor s [0..<n])"
  using assms(3) by (induction n) (simp_all add: floored_start [OF assms(1,2)] floored_step [OF assms(2)])

lemma wsum_split:
  assumes "length x = 24" "k \<le> 23" "\<And>i. k < i \<Longrightarrow> i < 24 \<Longrightarrow> sint (x ! i) = 0"
  shows "wsum sc_weight x = (\<Sum>i<k. sc_weight i * sint (x ! i)) + sc_weight k * sint (x ! k)"
proof -
  have "wsum sc_weight x = (\<Sum>i\<in>{..<24}. sc_weight i * sint (x ! i))" by (simp add: wsum_def assms(1))
  also have "\<dots> = (\<Sum>i\<in>{..<Suc k}. sc_weight i * sint (x ! i))"
    using assms(2,3) by (intro sum.mono_neutral_right) auto
  finally show ?thesis by simp
qed

lemma floored_low:
  assumes "\<And>i. i < n \<Longrightarrow> 0 \<le> sint (x ! i) \<and> sint (x ! i) < 2 ^ 21"
  shows "0 \<le> (\<Sum>i<n. sc_weight i * sint (x ! i))" "(\<Sum>i<n. sc_weight i * sint (x ! i)) < sc_weight n"
  using pieces_of_sum(1,2) [of "\<lambda>i. 21 * i" n "\<lambda>_. 21" "\<lambda>i. sint (x ! i)"] assms by (simp_all add: sc_weight_def)

text \<open>The limb above the chain is the quotient.\<close>

lemma floored_quotient:
  assumes "floored s n x" "n \<le> 23" "\<And>i. n < i \<Longrightarrow> i < 24 \<Longrightarrow> sint (s ! i) = 0"
  shows "sint (x ! n) = wsum sc_weight s div sc_weight n"
proof -
  have x: "length x = 24" "wsum sc_weight x = wsum sc_weight s"
    "\<And>i. n < i \<Longrightarrow> i < 24 \<Longrightarrow> sint (x ! i) = 0" "\<And>i. i < n \<Longrightarrow> 0 \<le> sint (x ! i) \<and> sint (x ! i) < 2 ^ 21"
    using assms(1,3) by (simp_all add: floored_def)
  note l = floored_low [OF x(4)]
  have "wsum sc_weight s = sc_weight n * sint (x ! n) + (\<Sum>i<n. sc_weight i * sint (x ! i))"
    using wsum_split [OF x(1) assms(2) x(3)] x(2) by simp
  from int_div_pos_eq [OF this l] show ?thesis by simp
qed

text \<open>
  When the carries begin, the limbs are small and the number is below \<open>2^252\<close> in absolute value, so
  that one more multiple of the order makes it non-negative.
\<close>

definition settled :: "int list \<Rightarrow> bool" where
  "settled B \<longleftrightarrow> length B = 24 \<and> list_all (\<lambda>b. b \<le> 2 ^ 40) B \<and> list_all (\<lambda>b. b = 0) (drop 12 B) \<and>
     (\<Sum>i\<leftarrow>[0, 1, 2, 3, 4, 5, 6, 7, 8, 9, 10, 11]. sc_weight i * B ! i) < 2 ^ 252"

lemma settled_value:
  assumes "limbs_bounded B s" "settled B"
  shows "length s = 24" "i < 24 \<Longrightarrow> \<bar>sint (s ! i)\<bar> \<le> 2 ^ 40" "12 \<le> i \<Longrightarrow> i < 24 \<Longrightarrow> sint (s ! i) = 0"
    "\<bar>wsum sc_weight s\<bar> < 2 ^ 252"
proof -
  have B: "length B = 24" using assms(2) by (simp add: settled_def)
  show l: "length s = 24" using B limbs_bounded_length [OF assms(1)] by simp
  have b: "\<bar>sint (s ! i)\<bar> \<le> B ! i" if "i < 24" for i using limbs_bounded_nth [OF assms(1)] l that by simp
  have "B ! i \<le> 2 ^ 40" if "i < 24" for i using assms(2) B that by (simp add: settled_def list_all_length)
  then show "i < 24 \<Longrightarrow> \<bar>sint (s ! i)\<bar> \<le> 2 ^ 40" using b [of i] by (meson order_trans)
  have "B ! i = 0" if "12 \<le> i" "i < 24" for i
  proof -
    have "B ! i = drop 12 B ! (i - 12)" using that B by simp
    also have "\<dots> = 0"
    proof -
      have "list_all (\<lambda>b. b = 0) (drop 12 B)" using assms(2) by (simp only: settled_def)
      moreover have "i - 12 < length (drop 12 B)" using that B by simp
      ultimately show ?thesis unfolding list_all_length by blast
    qed
    finally show ?thesis .
  qed
  then show z: "12 \<le> i \<Longrightarrow> i < 24 \<Longrightarrow> sint (s ! i) = 0" for i using b [of i] by simp
  have "wsum sc_weight s = (\<Sum>i<12. sc_weight i * sint (s ! i))"
    using wsum_split [of s 12] z l by simp
  then have "\<bar>wsum sc_weight s\<bar> \<le> (\<Sum>i<12. \<bar>sc_weight i * sint (s ! i)\<bar>)" by simp
  also have "\<dots> \<le> (\<Sum>i<12. sc_weight i * B ! i)"
    by (intro sum_mono) (use b in \<open>simp add: abs_mult sc_weight_def mult_left_mono\<close>)
  also have "\<dots> = (\<Sum>i\<leftarrow>[0, 1, 2, 3, 4, 5, 6, 7, 8, 9, 10, 11]. sc_weight i * B ! i)"
    by (simp add: lessThan_nat_numeral)
  also have "\<dots> < 2 ^ 252" using assms(2) by (simp add: settled_def)
  finally show "\<bar>wsum sc_weight s\<bar> < 2 ^ 252" .
qed

lemma fold_12_bounds:
  "step_bounds [2 ^ 21, 2 ^ 21, 2 ^ 21, 2 ^ 21, 2 ^ 21, 2 ^ 21, 2 ^ 21, 2 ^ 21, 2 ^ 21, 2 ^ 21, 2 ^ 21, 2 ^ 21,
     1, 0, 0, 0, 0, 0, 0, 0, 0, 0, 0, 0] (Fold 12) =
   Some [2763795, 2567448, 2751335, 3094957, 2233809, 2781053, 2 ^ 21, 2 ^ 21, 2 ^ 21, 2 ^ 21, 2 ^ 21, 2 ^ 21,
     0, 0, 0, 0, 0, 0, 0, 0, 0, 0, 0, 0]"
  by (simp add: fold_terms_def Let_def)

lemma sc_finish:
  assumes "limbs_bounded B s" "settled B"
  defines "x \<equiv> foldl sc_floor (sc_fold (foldl sc_floor s [0..<12]) 12) [0..<11]"
    and "v \<equiv> wsum sc_weight s mod group_order"
  shows "length x = 24" "i < 11 \<Longrightarrow> is_piece v (21 * i) 21 (x ! i)" "is_piece v 231 25 (x ! 11)"
    "0 \<le> v" "v < 2 ^ 253"
proof -
  note s = settled_value [OF assms(1,2)]
  define V y where "V = wsum sc_weight s" and "y = foldl sc_floor s [0..<12]"
  have y: "floored s 12 y" unfolding y_def by (rule floored_chain [OF s(1,2)]) simp_all
  have "sint (y ! 12) = V div sc_weight 12" unfolding V_def by (rule floored_quotient [OF y]) (use s(3) in simp_all)
  then have q: "sint (y ! 12) = (if V < 0 then - 1 else 0)"
    using s(4) unfolding V_def [symmetric]
    by (auto simp: sc_weight_def abs_less_iff intro: div_pos_pos_trivial int_div_pos_eq [where r = "V + 2 ^ 252"])
  have yl: "length y = 24" "wsum sc_weight y = V" using y by (simp_all add: floored_def V_def)
  have "limbs_bounded [2 ^ 21, 2 ^ 21, 2 ^ 21, 2 ^ 21, 2 ^ 21, 2 ^ 21, 2 ^ 21, 2 ^ 21, 2 ^ 21, 2 ^ 21, 2 ^ 21, 2 ^ 21,
      1, 0, 0, 0, 0, 0, 0, 0, 0, 0, 0, 0] y" (is "limbs_bounded ?Y y")
  proof -
    have "\<bar>sint (y ! i)\<bar> \<le> ?Y ! i" if "i < 24" for i
    proof -
      have Y: "?Y = replicate 12 (2 ^ 21) @ 1 # replicate 11 0" by (simp add: numeral_eq_Suc)
      consider "i < 12" | "i = 12" | "12 < i" by linarith
      then show ?thesis
      proof cases
        case 1
        then show ?thesis using y unfolding Y by (simp add: floored_def nth_append abs_le_iff less_imp_le)
      next
        case 2
        then show ?thesis using q unfolding Y by (simp add: nth_append)
      next
        case 3
        then have "y ! i = s ! i" "sint (s ! i) = 0" using y s(3) [of i] that by (simp_all add: floored_def)
        then show ?thesis using 3 that unfolding Y by (simp add: nth_append nth_Cons')
      qed
    qed
    then show ?thesis by (simp add: limbs_bounded_def list_all2_conv_all_nth yl)
  qed
  note f = sc_fold_spec [OF this yl(1) fold_12_bounds]
  define z where "z = sc_fold y 12"
  have zl: "length z = 24" using f(2) by (simp add: z_def)
  have zb: "\<bar>sint (z ! i)\<bar> \<le> 2 ^ 40" "12 \<le> i \<Longrightarrow> sint (z ! i) = 0" if "i < 24" for i
  proof -
    let ?Z = "[2763795, 2567448, 2751335, 3094957, 2233809, 2781053, 2 ^ 21, 2 ^ 21, 2 ^ 21, 2 ^ 21, 2 ^ 21, 2 ^ 21,
     0, 0, 0, 0, 0, 0, 0, 0, 0, 0, 0, 0] :: int list"
    have b: "\<bar>sint (z ! i)\<bar> \<le> ?Z ! i" using limbs_bounded_nth [OF f(1), of i] that zl by (simp add: z_def)
    have "list_all (\<lambda>b. b \<le> 2 ^ 40) ?Z" by simp
    then have "?Z ! i \<le> 2 ^ 40" using that by (simp only: list_all_length) simp
    then show "\<bar>sint (z ! i)\<bar> \<le> 2 ^ 40" using b by linarith
    assume "12 \<le> i"
    moreover have "drop 12 ?Z = replicate 12 0" by (simp add: numeral_eq_Suc)
    ultimately have "?Z ! i = 0" using nth_drop [of 12 ?Z "i - 12"] that by simp
    then show "sint (z ! i) = 0" using b by simp
  qed
  have w12: "sc_weight 0 = 1" by (simp add: sc_weight_def)
  have zv: "wsum sc_weight z = V - sint (y ! 12) * group_order" using f(3) yl by (simp add: z_def w12)
  have zr: "0 \<le> wsum sc_weight z" "wsum sc_weight z < group_order"
    using s(4) unfolding zv q V_def [symmetric] by (simp_all add: group_order_def abs_less_iff)
  have v: "wsum sc_weight z = v"
    using zr zv unfolding v_def V_def [symmetric] by (metis mod_diff_right_eq mod_mult_self2_is_0 diff_0_right mod_pos_pos_trivial)
  show v0: "0 \<le> v" "v < 2 ^ 253" using zr unfolding v by (simp_all add: group_order_def)
  have x: "floored z 11 x" unfolding x_def y_def [symmetric] z_def [symmetric] by (rule floored_chain [OF zl zb(1)]) simp_all
  show "length x = 24" using x by (simp add: floored_def)
  have q11: "sint (x ! 11) = v div sc_weight 11"
    unfolding v [symmetric] by (rule floored_quotient [OF x]) (use zb(2) in simp_all)
  have w: "0 \<le> sint (x ! i) \<and> sint (x ! i) < 2 ^ (if i = 11 then 25 else 21)" if "i < 12" for i
  proof (cases "i = 11")
    case True
    have "0 \<le> v div sc_weight 11" "v div sc_weight 11 < 2 ^ 25"
      using v0 by (simp_all add: sc_weight_def pos_imp_zdiv_nonneg_iff div_less_iff_less_mult)
    then show ?thesis using True q11 by simp
  next
    case False
    then show ?thesis using x that by (simp add: floored_def)
  qed
  define a where "a = (\<lambda>i. if i = 12 then 256 else 21 * i :: nat)"
  have av: "(\<Sum>k<12. 2 ^ a k * sint (x ! k)) = v"
  proof -
    have xz: "\<And>i. 11 < i \<Longrightarrow> i < 24 \<Longrightarrow> sint (x ! i) = 0" using x zb(2) by (simp add: floored_def)
    have "wsum sc_weight x = (\<Sum>k<11. sc_weight k * sint (x ! k)) + sc_weight 11 * sint (x ! 11)"
      by (rule wsum_split) (use x xz in \<open>simp_all add: floored_def\<close>)
    also have "\<dots> = (\<Sum>k<12. 2 ^ a k * sint (x ! k))"
      by (simp add: lessThan_nat_numeral a_def sc_weight_def)
    finally show ?thesis using x v by (simp add: floored_def)
  qed
  have p: "take_bit (if k = 11 then 25 else 21) (drop_bit (a k) v) = sint (x ! k)" if "k < 12" for k
    using pieces_of_sum(3) [of a 12 "\<lambda>i. if i = 11 then 25 else 21" "\<lambda>i. sint (x ! i)", OF _ _ w that]
    unfolding av by (simp add: a_def)
  show "i < 11 \<Longrightarrow> is_piece v (21 * i) 21 (x ! i)"
    using p [of i] by (intro is_pieceI) (simp_all add: a_def)
  show "is_piece v 231 25 (x ! 11)" using p [of 11] by (intro is_pieceI) (simp_all add: a_def)
qed

section \<open>Reading and writing\<close>

lemma uint_limb:
  assumes "uint (x :: u64) = take_bit n (drop_bit p v)" "sh + 21 \<le> n"
  shows "uint (2097151 AND drop_bit sh x) = take_bit 21 (drop_bit (p + sh) v)"
proof -
  have m: "(2097151 :: u64) = mask 21" by (simp add: mask_eq_exp_minus_1)
  have "uint (2097151 AND drop_bit sh x) = take_bit 21 (drop_bit sh (uint x))"
    unfolding m by (rule bit_eqI) (auto simp: bit_simps)
  also have "\<dots> = take_bit 21 (drop_bit (p + sh) v)"
    unfolding assms(1) using assms(2) by (intro bit_eqI) (auto simp: bit_simps ac_simps)
  finally show ?thesis .
qed

lemma uint_last_limb:
  assumes "uint (x :: u64) = take_bit n (drop_bit p v)"
  shows "uint (drop_bit sh x) = take_bit (n - sh) (drop_bit (p + sh) v)"
proof -
  have "uint (drop_bit sh x) = drop_bit sh (uint x)" by (rule bit_eqI) (auto simp: bit_simps)
  also have "\<dots> = take_bit (n - sh) (drop_bit (p + sh) v)"
    unfolding assms by (intro bit_eqI) (auto simp: bit_simps ac_simps)
  finally show ?thesis .
qed

lemma sint_small:
  assumes "uint (x :: limb) < 2 ^ 63"
  shows "sint x = uint x"
proof -
  have "- (2 ^ 63) \<le> uint x" using uint_ge_0 [of x] by (rule order_trans [rotated]) simp
  from sint_of_int_exact [OF this assms] show ?thesis by simp
qed

lemma sint_piece_21:
  assumes "uint (x :: limb) = take_bit n v" "n \<le> 62"
  shows "sint x = take_bit n v" "\<bar>sint x\<bar> \<le> 2 ^ n - 1"
proof -
  have "take_bit n v < 2 ^ n" by simp
  also have "(2 :: int) ^ n \<le> 2 ^ 62" using assms(2) by (intro power_increasing) auto
  finally have "uint x < 2 ^ 63" unfolding assms(1) by simp
  then show e: "sint x = take_bit n v" using sint_small assms(1) by simp
  show "\<bar>sint x\<bar> \<le> 2 ^ n - 1" unfolding e by simp
qed

text \<open>Limbs \<open>0\<close> to \<open>n\<close> with the positions of their first bits; the last takes what remains.\<close>

definition load_list :: "bytes \<Rightarrow> nat \<Rightarrow> limb list \<Rightarrow> bool" where
  "load_list s n h \<longleftrightarrow> length h = Suc n \<and>
     list_all (\<lambda>i. uint (h ! i) = take_bit (if i = n then 8 * length s - 21 * n else 21) (drop_bit (21 * i) (le_val s)))
       [0..<Suc n]"

lemma limb_loads:
  assumes "length s = n"
  shows "k + 4 \<le> n \<Longrightarrow> sh \<le> 3 \<Longrightarrow>
      uint (2097151 AND drop_bit sh (load_3 (drop k s))) = take_bit 21 (drop_bit (8 * k + sh) (le_val s))"
    "k + 4 \<le> n \<Longrightarrow> sh \<le> 11 \<Longrightarrow>
      uint (2097151 AND drop_bit sh (load_4 (drop k s))) = take_bit 21 (drop_bit (8 * k + sh) (le_val s))"
    "k + 4 \<le> n \<Longrightarrow>
      uint (drop_bit sh (load_4 (drop k s))) = take_bit (32 - sh) (drop_bit (8 * k + sh) (le_val s))"
  using uint_limb [OF uint_load_3 [of k s]] uint_limb [OF uint_load_4 [of k s]] uint_last_limb [OF uint_load_4 [of k s]] assms
  by simp_all

lemma sc_load_list: "length s = 64 \<Longrightarrow> load_list s 23 (sc_load s)"
proof -
  assume "length s = 64"
  note l = limb_loads [OF this]
  show ?thesis
    using l(1) [of 0 0] l(1) [of 21 0] l(1) [of 42 0] l(3) [of 60 3] \<open>length s = 64\<close>
    by (simp add: load_list_def sc_load_def l(1,2) upt_conv_Cons)
qed

lemma sc_load_32_list: "length s = 32 \<Longrightarrow> load_list s 11 (sc_load_32 s)"
proof -
  assume "length s = 32"
  note l = limb_loads [OF this]
  show ?thesis
    using l(1) [of 0 0] l(1) [of 21 0] l(3) [of 28 7] \<open>length s = 32\<close>
    by (simp add: load_list_def sc_load_32_def l(1,2) upt_conv_Cons)
qed

lemma load_list_spec:
  assumes "load_list s n h" "21 * n \<le> 8 * length s" "8 * length s \<le> 21 * n + 62"
  shows "i \<le> n \<Longrightarrow> \<bar>sint (h ! i)\<bar> \<le> 2 ^ (if i = n then 8 * length s - 21 * n else 21) - 1"
    "(\<Sum>i\<le>n. sc_weight i * sint (h ! i)) = le_val s"
proof -
  have u: "uint (h ! i) = take_bit (if i = n then 8 * length s - 21 * n else 21) (drop_bit (21 * i) (le_val s))"
    if "i \<le> n" for i
    using assms(1) that unfolding load_list_def list_all_iff by (metis atLeastLessThan_iff le_imp_less_Suc set_upt zero_le)
  note p = sint_piece_21 [OF u]
  show "i \<le> n \<Longrightarrow> \<bar>sint (h ! i)\<bar> \<le> 2 ^ (if i = n then 8 * length s - 21 * n else 21) - 1"
    by (rule p(2)) (use assms(3) in auto)
  define a where "a = (\<lambda>i. if i = Suc n then 8 * length s else 21 * i)"
  have "sc_weight i * sint (h ! i) = 2 ^ a i * take_bit (a (Suc i) - a i) (drop_bit (a i) (le_val s))" if "i < Suc n" for i
  proof -
    have "sint (h ! i) = take_bit (if i = n then 8 * length s - 21 * n else 21) (drop_bit (21 * i) (le_val s))"
      by (rule p(1)) (use assms(3) that in auto)
    then show ?thesis using that by (simp add: a_def sc_weight_def)
  qed
  then have "(\<Sum>i<Suc n. sc_weight i * sint (h ! i)) = take_bit (a (Suc n)) (le_val s)"
    using sum_pieces [of a "Suc n" "le_val s"] assms(2) by (simp add: a_def del: sum.lessThan_Suc)
  also have "\<dots> = le_val s"
    by (rule bit_eqI) (auto simp: a_def bit_take_bit_iff bit_le_val div_less_iff_less_mult mult.commute)
  finally show "(\<Sum>i\<le>n. sc_weight i * sint (h ! i)) = le_val s" by (simp only: lessThan_Suc_atMost)
qed

lemma sc_bytes_spec:
  assumes "length x = 24" "\<And>i. i < 11 \<Longrightarrow> is_piece v (21 * i) 21 (x ! i)" "is_piece v 231 25 (x ! 11)"
  shows "sc_bytes x = map (vbyte v) [0..<32]"
proof -
  have p: "is_piece v p 21 (x ! i)" if "i < 11" "p = 21 * i" for i p using assms(2) that by simp
  note l = assms(3)
  show ?thesis
    unfolding sc_bytes_def upto_32 list.map list.inject
    by (intro conjI refl; (rule byte_inside [OF l] | rule byte_across [OF p l] | rule byte_across [OF p p] |
        rule byte_inside [OF p] | rule byte_start [OF p]); (rule refl | simp))
qed

section \<open>Reduction\<close>

definition reduce_steps :: "sc_step list" where
  "reduce_steps = map Fold [23, 22, 21, 20, 19, 18] @ map Round [6, 8, 10, 12, 14, 16, 7, 9, 11, 13, 15] @
     map Fold [17, 16, 15, 14, 13, 12] @ map Round [0, 2, 4, 6, 8, 10, 1, 3, 5, 7, 9, 11] @ [Fold 12]"

definition muladd_steps :: "sc_step list" where
  "muladd_steps = map Round [0, 2, 4, 6, 8, 10, 12, 14, 16, 18, 20, 22, 1, 3, 5, 7, 9, 11, 13, 15, 17, 19, 21]"

definition load_limit :: "nat \<Rightarrow> int" where
  "load_limit i = (if i = 11 then 2 ^ 25 - 1 else 2 ^ 21 - 1)"

definition wide_limits :: "int list" where
  "wide_limits = [2 ^ 21, 2 ^ 21, 2 ^ 21, 2 ^ 21, 2 ^ 21, 2 ^ 21, 2 ^ 21, 2 ^ 21, 2 ^ 21, 2 ^ 21, 2 ^ 21, 2 ^ 21,
     2 ^ 21, 2 ^ 21, 2 ^ 21, 2 ^ 21, 2 ^ 21, 2 ^ 21, 2 ^ 21, 2 ^ 21, 2 ^ 21, 2 ^ 21, 2 ^ 21, 2 ^ 29]"

lemma wide_limits_nth: "i \<le> 23 \<Longrightarrow> wide_limits ! i = (if i = 23 then 2 ^ 29 else 2 ^ 21)"
proof -
  have "list_all (\<lambda>i. wide_limits ! i = (if i = 23 then 2 ^ 29 else 2 ^ 21)) [0..<24]"
    by (simp add: wide_limits_def upt_conv_Cons)
  then show "i \<le> 23 \<Longrightarrow> wide_limits ! i = (if i = 23 then 2 ^ 29 else 2 ^ 21)" by (simp add: list_all_iff)
qed

lemma reduce_limbs_steps:
  "sc_reduce_limbs s =
   foldl sc_floor (sc_fold (foldl sc_floor (foldl sc_run s reduce_steps) [0..<12]) 12) [0..<11]"
proof -
  have "[0..<12] = [0, 1, 2, 3, 4, 5, 6, 7, 8, 9, 10, 11]" "[0..<11] = [0, 1, 2, 3, 4, 5, 6, 7, 8, 9, 10]"
    by (simp_all add: upt_conv_Cons)
  then show ?thesis
    by (simp only: sc_reduce_limbs_def reduce_steps_def Let_def foldl_append foldl_map sc_run.simps foldl_Cons foldl_Nil)
qed

lemma reduce_bounds:
  "\<exists>B. sc_bounds wide_limits reduce_steps = Some B \<and> settled B"
  by (simp add: reduce_steps_def fold_terms_def Let_def settled_def sc_weight_def wide_limits_def)

lemma muladd_bounds:
  "\<exists>B. sc_bounds (muladd_sums load_limit load_limit load_limit) (muladd_steps @ reduce_steps) = Some B \<and> settled B"
  by (simp add: muladd_steps_def reduce_steps_def fold_terms_def Let_def settled_def sc_weight_def muladd_sums_def
    load_limit_def)

lemma reduced_bytes:
  assumes "limbs_bounded B s" "length s = 24" "sc_bounds B (ts @ reduce_steps) = Some B'" "settled B'"
  shows "le_val (sc_bytes (sc_reduce_limbs (foldl sc_run s ts))) = wsum sc_weight s mod group_order"
    "length (sc_bytes (sc_reduce_limbs (foldl sc_run s ts))) = 32"
proof -
  define u v where "u = foldl sc_run s (ts @ reduce_steps)" and "v = wsum sc_weight u mod group_order"
  have r: "limbs_bounded B' u" "v = wsum sc_weight s mod group_order"
    using sc_run_spec [OF assms(1-3)] by (simp_all add: u_def v_def)
  note f = sc_finish [OF r(1) assms(4), folded v_def]
  have e: "sc_reduce_limbs (foldl sc_run s ts) = foldl sc_floor (sc_fold (foldl sc_floor u [0..<12]) 12) [0..<11]"
    by (simp add: reduce_limbs_steps u_def)
  have b: "sc_bytes (sc_reduce_limbs (foldl sc_run s ts)) = map (vbyte v) [0..<32]"
    unfolding e by (rule sc_bytes_spec [OF f(1-3)])
  show "length (sc_bytes (sc_reduce_limbs (foldl sc_run s ts))) = 32" by (simp add: b)
  show "le_val (sc_bytes (sc_reduce_limbs (foldl sc_run s ts))) = wsum sc_weight s mod group_order"
    unfolding b le_val_vbytes using f(4,5) by (simp add: take_bit_int_eq_self r(2))
qed

lemma sc_reduce_spec:
  assumes "length s = 64"
  shows "le_val (take 32 (sc_reduce s)) = le_val s mod group_order" "length (sc_reduce s) = 64"
proof -
  note l = sc_load_list [OF assms]
  have n: "length (sc_load s) = 24" by (simp add: sc_load_def)
  note v = load_list_spec [OF l, unfolded assms, simplified]
  have "limbs_bounded wide_limits (sc_load s)"
    unfolding limbs_bounded_def list_all2_conv_all_nth
  proof (intro conjI allI impI)
    fix i assume "i < length wide_limits"
    then have i: "i \<le> 23" by (simp add: wide_limits_def)
    then show "\<bar>sint (sc_load s ! i)\<bar> \<le> wide_limits ! i"
      using v(1) [of i] unfolding wide_limits_nth [OF i] by (auto split: if_splits)
  qed (simp add: n wide_limits_def)
  moreover obtain B where "sc_bounds wide_limits ([] @ reduce_steps) = Some B" "settled B"
    using reduce_bounds by auto
  ultimately have r: "le_val (sc_bytes (sc_reduce_limbs (sc_load s))) = wsum sc_weight (sc_load s) mod group_order"
    "length (sc_bytes (sc_reduce_limbs (sc_load s))) = 32"
    using reduced_bytes [OF _ n, of _ "[]"] by simp_all
  have "wsum sc_weight (sc_load s) = le_val s"
    using v(2) by (simp add: wsum_def n lessThan_Suc_atMost [of 23, simplified])
  then show "le_val (take 32 (sc_reduce s)) = le_val s mod group_order" using r by (simp add: sc_reduce_def)
  show "length (sc_reduce s) = 64" using r(2) assms by (simp add: sc_reduce_def)
qed

section \<open>Multiplication and addition\<close>

lemma upto_24: "[0..<24] = [0, 1, 2, 3, 4, 5, 6, 7, 8, 9, 10, 11, 12, 13, 14, 15, 16, 17, 18, 19, 20, 21, 22, 23]"
  by (simp add: upt_conv_Cons)

lemma muladd_sums_nth:
  "i < 24 \<Longrightarrow> muladd_sums a b c ! i =
     (if i < 12 then c i else 0) + (\<Sum>k<12. if k \<le> i \<and> i < k + 12 then a k * b (i - k) else (0 :: int))"
proof -
  have "list_all (\<lambda>i. muladd_sums a b c ! i =
      (if i < 12 then c i else 0) + (\<Sum>k<12. if k \<le> i \<and> i < k + 12 then a k * b (i - k) else 0)) [0..<24]"
    unfolding upto_24 by (simp add: muladd_sums_def lessThan_nat_numeral)
  then show "i < 24 \<Longrightarrow> muladd_sums a b c ! i =
     (if i < 12 then c i else 0) + (\<Sum>k<12. if k \<le> i \<and> i < k + 12 then a k * b (i - k) else 0)"
    by (simp only: list_all_iff set_upt atLeastLessThan_iff le0 simp_thms Ball_def)
qed

lemma muladd_sums_value:
  "(\<Sum>i<24. sc_weight i * muladd_sums a b c ! i) =
   (\<Sum>i<12. sc_weight i * a i) * (\<Sum>i<12. sc_weight i * b i) + (\<Sum>i<12. sc_weight i * c i)"
proof -
  have c: "(\<Sum>i<24. sc_weight i * (if i < 12 then c i else 0)) = (\<Sum>i<12. sc_weight i * c i)"
    by (rule sum.mono_neutral_cong_right) auto
  have k: "(\<Sum>i<24. sc_weight i * (if k \<le> i \<and> i < k + 12 then a k * b (i - k) else 0)) =
      sc_weight k * a k * (\<Sum>j<12. sc_weight j * b j)" if "k < 12" for k
  proof -
    have "(\<Sum>i<24. sc_weight i * (if k \<le> i \<and> i < k + 12 then a k * b (i - k) else 0)) =
        (\<Sum>i\<in>{0 + k..<12 + k}. sc_weight i * (a k * b (i - k)))"
      by (rule sum.mono_neutral_cong_right) (use that in auto)
    also have "\<dots> = (\<Sum>j\<in>{0..<12}. sc_weight (j + k) * (a k * b j))"
      by (subst sum.shift_bounds_nat_ivl) simp
    also have "\<dots> = sc_weight k * a k * (\<Sum>j<12. sc_weight j * b j)"
      by (simp add: sc_weight_def power_add sum_distrib_left atLeast0LessThan distrib_left ac_simps)
    finally show ?thesis .
  qed
  have "(\<Sum>i<24. sc_weight i * muladd_sums a b c ! i) = (\<Sum>i<12. sc_weight i * c i) +
      (\<Sum>k<12. \<Sum>i<24. sc_weight i * (if k \<le> i \<and> i < k + 12 then a k * b (i - k) else 0))"
    by (subst sum.swap) (simp add: muladd_sums_nth distrib_left sum.distrib c sum_distrib_left)
  also have "\<dots> = (\<Sum>i<12. sc_weight i * c i) + (\<Sum>k<12. sc_weight k * a k * (\<Sum>j<12. sc_weight j * b j))"
    by (simp add: k)
  finally show ?thesis by (simp add: sum_distrib_right)
qed

lemma muladd_sums_of_int:
  "muladd_sums (\<lambda>i. of_int (a i)) (\<lambda>i. of_int (b i)) (\<lambda>i. of_int (c i)) = map of_int (muladd_sums a b c)"
  by (simp add: muladd_sums_def)

lemma muladd_sums_bound:
  assumes "\<And>i. i < 12 \<Longrightarrow> \<bar>a i\<bar> \<le> load_limit i" "\<And>i. i < 12 \<Longrightarrow> \<bar>b i\<bar> \<le> load_limit i" "\<And>i. i < 12 \<Longrightarrow> \<bar>c i\<bar> \<le> load_limit i"
  shows "list_all2 (\<lambda>b x. \<bar>x\<bar> \<le> b) (muladd_sums load_limit load_limit load_limit) (muladd_sums a b c)"
  unfolding muladd_sums_def list.rel_inject by (intro conjI bound_sum bound_product assms list.rel_intros; simp)

lemma sc_muladd_spec:
  assumes "length a = 32" "length b = 32" "length c = 32"
  shows "le_val (sc_muladd a b c) = (le_val a * le_val b + le_val c) mod group_order" "length (sc_muladd a b c) = 32"
proof -
  define x where "x = (\<lambda>s i. sint (sc_load_32 s ! i))"
  define S P where "S = muladd_sums (\<lambda>i. sc_load_32 a ! i) (\<lambda>i. sc_load_32 b ! i) (\<lambda>i. sc_load_32 c ! i)"
    and "P = muladd_sums (x a) (x b) (x c)"
  have x: "\<bar>x s i\<bar> \<le> load_limit i" "(\<Sum>i<12. sc_weight i * x s i) = le_val s" if "length s = 32" "i < 12" for s i
  proof -
    note v = load_list_spec [OF sc_load_32_list [OF that(1)], unfolded that(1)]
    show "\<bar>x s i\<bar> \<le> load_limit i" using v(1) [of i] that(2) by (cases "i = 11") (simp_all add: x_def load_limit_def)
    show "(\<Sum>i<12. sc_weight i * x s i) = le_val s" using v(2) by (simp add: x_def lessThan_Suc_atMost [of 11, simplified])
  qed
  have b: "list_all2 (\<lambda>b x. \<bar>x\<bar> \<le> b) (muladd_sums load_limit load_limit load_limit) P"
    unfolding P_def by (rule muladd_sums_bound) (use x(1) assms in auto)
  have S: "S = map of_int P" unfolding S_def P_def muladd_sums_of_int [symmetric] by (simp add: x_def)
  have l: "length S = 24" "length P = 24" by (simp_all add: S_def P_def muladd_sums_def)
  have m: "list_all (\<lambda>b. b < 2 ^ 63) (muladd_sums load_limit load_limit load_limit)"
    by (simp add: muladd_sums_def load_limit_def)
  have s: "sint (S ! i) = P ! i" "\<bar>sint (S ! i)\<bar> \<le> muladd_sums load_limit load_limit load_limit ! i" if "i < 24" for i
  proof -
    have p: "\<bar>P ! i\<bar> \<le> muladd_sums load_limit load_limit load_limit ! i"
      "muladd_sums load_limit load_limit load_limit ! i < 2 ^ 63"
      using b m that l by (simp_all only: list_all2_conv_all_nth list_all_length)
    have "S ! i = of_int (P ! i)" using that l by (simp add: S)
    then show e: "sint (S ! i) = P ! i" by (simp only:) (rule sint_of_int_exact; use p in linarith)
    show "\<bar>sint (S ! i)\<bar> \<le> muladd_sums load_limit load_limit load_limit ! i" using p(1) e by simp
  qed
  have "limbs_bounded (muladd_sums load_limit load_limit load_limit) S"
    unfolding limbs_bounded_def list_all2_conv_all_nth using s(2) l list_all2_lengthD [OF b] by simp
  moreover obtain B where "sc_bounds (muladd_sums load_limit load_limit load_limit) (muladd_steps @ reduce_steps) = Some B" "settled B"
    using muladd_bounds by blast
  ultimately have r: "le_val (sc_bytes (sc_reduce_limbs (foldl sc_run S muladd_steps))) = wsum sc_weight S mod group_order"
    "length (sc_bytes (sc_reduce_limbs (foldl sc_run S muladd_steps))) = 32"
    using reduced_bytes [OF _ l(1)] by simp_all
  have e: "sc_muladd a b c = sc_bytes (sc_reduce_limbs (foldl sc_run S muladd_steps))"
    unfolding sc_muladd_def Let_def S_def [symmetric] muladd_steps_def foldl_map sc_run.simps ..
  have "wsum sc_weight S = (\<Sum>i<24. sc_weight i * P ! i)" by (simp add: wsum_def l s(1))
  also have "\<dots> = le_val a * le_val b + le_val c"
    unfolding P_def muladd_sums_value using x(2) [of _ 0] assms by simp
  finally show "le_val (sc_muladd a b c) = (le_val a * le_val b + le_val c) mod group_order" using r(1) e by simp
  show "length (sc_muladd a b c) = 32" using r(2) e by simp
qed

section \<open>Properties\<close>

text \<open>
  C26 Arithmetic modulo the group order: \<open>sc_reduce\<close> replaces a 64-byte number by its remainder and
  \<open>sc_muladd\<close> computes \<open>(ab + c) mod l\<close> of any three 32-byte numbers, both exactly, with every
  remainder in its one representation below \<open>l\<close>.
\<close>

theorem scalar_arithmetic:
  assumes "length s = 64" "length a = 32" "length b = 32" "length c = 32"
  shows "length (sc_reduce s) = 64 \<and> le_val (take 32 (sc_reduce s)) = le_val s mod group_order \<and>
    length (sc_muladd a b c) = 32 \<and>
    le_val (sc_muladd a b c) = (le_val a * le_val b + le_val c) mod group_order"
  using sc_reduce_spec [OF assms(1)] sc_muladd_spec [OF assms(2-4)] by blast

theorem scalar_arithmetic_witness:
  "le_val (take 32 (sc_reduce (replicate 64 255))) = le_val (replicate 64 255) mod group_order \<and>
   le_val (sc_muladd (replicate 32 255) (replicate 32 254) (replicate 32 1)) =
     (le_val (replicate 32 255) * le_val (replicate 32 254) + le_val (replicate 32 1)) mod group_order"
  using scalar_arithmetic [of "replicate 64 255" "replicate 32 255" "replicate 32 254" "replicate 32 1"] by simp

end
