(* ===== verification/Sha512.thy ===== *)
theory Sha512
  imports Sha256
begin

text \<open>
  \<open>lib/ed25519/src/sha512.c\<close>: the streaming SHA-512 the signatures hash with.  The first part is the
  code, whose update takes whole blocks from the input when it has nothing buffered and whose
  rounds rename the variables instead of moving them.  The second part is the hash of a whole
  message as the standard has it, and the proof that the code computes it.  A non-zero return value
  is \<open>None\<close>.  The context is a structure of the caller, and input and output are arrays: the tests
  of the pointers against \<open>NULL\<close> do not fail and are left out.
\<close>

section \<open>The compression function\<close>

definition K :: "u64 list" where
  "K =
     [0x428a2f98d728ae22, 0x7137449123ef65cd, 0xb5c0fbcfec4d3b2f, 0xe9b5dba58189dbbc,
      0x3956c25bf348b538, 0x59f111f1b605d019, 0x923f82a4af194f9b, 0xab1c5ed5da6d8118] @
     [0xd807aa98a3030242, 0x12835b0145706fbe, 0x243185be4ee4b28c, 0x550c7dc3d5ffb4e2,
      0x72be5d74f27b896f, 0x80deb1fe3b1696b1, 0x9bdc06a725c71235, 0xc19bf174cf692694] @
     [0xe49b69c19ef14ad2, 0xefbe4786384f25e3, 0x0fc19dc68b8cd5b5, 0x240ca1cc77ac9c65,
      0x2de92c6f592b0275, 0x4a7484aa6ea6e483, 0x5cb0a9dcbd41fbd4, 0x76f988da831153b5] @
     [0x983e5152ee66dfab, 0xa831c66d2db43210, 0xb00327c898fb213f, 0xbf597fc7beef0ee4,
      0xc6e00bf33da88fc2, 0xd5a79147930aa725, 0x06ca6351e003826f, 0x142929670a0e6e70] @
     [0x27b70a8546d22ffc, 0x2e1b21385c26c926, 0x4d2c6dfc5ac42aed, 0x53380d139d95b3df,
      0x650a73548baf63de, 0x766a0abb3c77b2a8, 0x81c2c92e47edaee6, 0x92722c851482353b] @
     [0xa2bfe8a14cf10364, 0xa81a664bbc423001, 0xc24b8b70d0f89791, 0xc76c51a30654be30,
      0xd192e819d6ef5218, 0xd69906245565a910, 0xf40e35855771202a, 0x106aa07032bbd1b8] @
     [0x19a4c116b8d2d0c8, 0x1e376c085141ab53, 0x2748774cdf8eeb99, 0x34b0bcb5e19b48a8,
      0x391c0cb3c5c95a63, 0x4ed8aa4ae3418acb, 0x5b9cca4f7763e373, 0x682e6ff3d6b2b8a3] @
     [0x748f82ee5defb2fc, 0x78a5636f43172f60, 0x84c87814a1f0ab72, 0x8cc702081a6439ec,
      0x90befffa23631e28, 0xa4506cebde82bde9, 0xbef9a3f7b2c67915, 0xc67178f2e372532b] @
     [0xca273eceea26619c, 0xd186b8c721c0c207, 0xeada7dd6cde0eb1e, 0xf57d4f7fee6ed178,
      0x06f067aa72176fba, 0x0a637dc5a2c898a6, 0x113f9804bef90dae, 0x1b710b35131c471b] @
     [0x28db77f523047d84, 0x32caab7b40c72493, 0x3c9ebe0a15c9bebc, 0x431d67c49c100d4c,
      0x4cc5d4becb3e42b6, 0x597f299cfc657e2a, 0x5fcb6fab3ad6faec, 0x6c44198c4a475817]"

definition ROR64c :: "u64 \<Rightarrow> nat \<Rightarrow> u64" where
  "ROR64c x y = drop_bit (y AND 63) x OR push_bit (64 - (y AND 63)) x"

definition Ch :: "u64 \<Rightarrow> u64 \<Rightarrow> u64 \<Rightarrow> u64" where
  "Ch x y z = z XOR (x AND (y XOR z))"

definition Maj :: "u64 \<Rightarrow> u64 \<Rightarrow> u64 \<Rightarrow> u64" where
  "Maj x y z = ((x OR y) AND z) OR (x AND y)"

definition Sigma0 :: "u64 \<Rightarrow> u64" where
  "Sigma0 x = ROR64c x 28 XOR ROR64c x 34 XOR ROR64c x 39"

definition Sigma1 :: "u64 \<Rightarrow> u64" where
  "Sigma1 x = ROR64c x 14 XOR ROR64c x 18 XOR ROR64c x 41"

definition Gamma0 :: "u64 \<Rightarrow> u64" where
  "Gamma0 x = ROR64c x 1 XOR ROR64c x 8 XOR drop_bit 7 x"

definition Gamma1 :: "u64 \<Rightarrow> u64" where
  "Gamma1 x = ROR64c x 19 XOR ROR64c x 61 XOR drop_bit 6 x"

definition STORE64H :: "u64 \<Rightarrow> bytes" where
  "STORE64H x =
     [ucast (drop_bit 56 x AND 255), ucast (drop_bit 48 x AND 255), ucast (drop_bit 40 x AND 255),
      ucast (drop_bit 32 x AND 255), ucast (drop_bit 24 x AND 255), ucast (drop_bit 16 x AND 255),
      ucast (drop_bit 8 x AND 255), ucast (x AND 255)]"

definition LOAD64H :: "bytes \<Rightarrow> nat \<Rightarrow> u64" where
  "LOAD64H y a =
     push_bit 56 (ucast (y ! a)) OR push_bit 48 (ucast (y ! (a + 1))) OR push_bit 40 (ucast (y ! (a + 2))) OR
     push_bit 32 (ucast (y ! (a + 3))) OR push_bit 24 (ucast (y ! (a + 4))) OR
     push_bit 16 (ucast (y ! (a + 5))) OR push_bit 8 (ucast (y ! (a + 6))) OR ucast (y ! (a + 7))"

record sha512_context =
  md_length :: u64
  md_state :: "u64 list"
  md_curlen :: nat
  md_buf :: bytes

primrec expand_w :: "nat \<Rightarrow> u64 list \<Rightarrow> u64 list" where
  "expand_w 0 w = w"
| "expand_w (Suc n) w =
     (let i = length w
      in expand_w n (w @ [Gamma1 (w ! (i - 2)) + w ! (i - 7) + Gamma0 (w ! (i - 15)) + w ! (i - 16)]))"

text \<open>The macro \<open>RND\<close>, with the places of its variables in the array \<open>S\<close>.\<close>

definition RND :: "u64 list \<Rightarrow> u64 list \<Rightarrow> nat \<Rightarrow> nat \<Rightarrow> nat \<Rightarrow> nat \<Rightarrow> nat \<Rightarrow> nat \<Rightarrow> nat \<Rightarrow> nat \<Rightarrow> nat \<Rightarrow> u64 list" where
  "RND w s a b c d e f g h i =
     (let t0 = s ! h + Sigma1 (s ! e) + Ch (s ! e) (s ! f) (s ! g) + K ! i + w ! i;
          t1 = Sigma0 (s ! a) + Maj (s ! a) (s ! b) (s ! c);
          s = s[d := s ! d + t0]
      in s[h := t0 + t1])"

definition eight_rounds :: "u64 list \<Rightarrow> u64 list \<Rightarrow> nat \<Rightarrow> u64 list" where
  "eight_rounds w s i =
     (let s = RND w s 0 1 2 3 4 5 6 7 (i + 0);
          s = RND w s 7 0 1 2 3 4 5 6 (i + 1);
          s = RND w s 6 7 0 1 2 3 4 5 (i + 2);
          s = RND w s 5 6 7 0 1 2 3 4 (i + 3);
          s = RND w s 4 5 6 7 0 1 2 3 (i + 4);
          s = RND w s 3 4 5 6 7 0 1 2 (i + 5);
          s = RND w s 2 3 4 5 6 7 0 1 (i + 6)
      in RND w s 1 2 3 4 5 6 7 0 (i + 7))"

definition compress_state :: "u64 list \<Rightarrow> bytes \<Rightarrow> u64 list" where
  "compress_state st buf =
     (let s = map (\<lambda>i. st ! i) [0..<8];
          w = map (\<lambda>i. LOAD64H buf (8 * i)) [0..<16];
          w = expand_w 64 w;
          s = foldl (eight_rounds w) s [0, 8, 16, 24, 32, 40, 48, 56, 64, 72]
      in map (\<lambda>i. st ! i + s ! i) [0..<8])"

definition sha512_compress :: "sha512_context \<Rightarrow> bytes \<Rightarrow> sha512_context" where
  "sha512_compress md buf = md\<lparr>md_state := compress_state (md_state md) buf\<rparr>"

section \<open>The streaming interface\<close>

definition sha512_init :: "sha512_context \<Rightarrow> sha512_context" where
  "sha512_init md = md
     \<lparr>md_curlen := 0,
      md_length := 0,
      md_state :=
        [0x6a09e667f3bcc908, 0xbb67ae8584caa73b, 0x3c6ef372fe94f82b, 0xa54ff53a5f1d36f1,
         0x510e527fade682d1, 0x9b05688c2b3e6c1f, 0x1f83d9abfb41bd6b, 0x5be0cd19137e2179]\<rparr>"

text \<open>
  The loop of \<open>sha512_update\<close>.  With \<open>curlen\<close> above 128 it would write outside the buffer; the test
  before the loop refuses such a context and the model stops.
\<close>

definition fill_buf :: "sha512_context \<Rightarrow> bytes \<Rightarrow> nat \<Rightarrow> sha512_context" where
  "fill_buf md inp n =
     (let md = md\<lparr>md_buf := foldl (\<lambda>buf i. buf[i + md_curlen md := inp ! i]) (md_buf md) [0..<n]\<rparr>;
          md = md\<lparr>md_curlen := md_curlen md + n\<rparr>
      in if md_curlen md = 128 then
           let md = sha512_compress md (md_buf md);
               md = md\<lparr>md_length := md_length md + 8 * 128\<rparr>
           in md\<lparr>md_curlen := 0\<rparr>
         else md)"

function update_loop :: "sha512_context \<Rightarrow> bytes \<Rightarrow> sha512_context" where
  "update_loop md inp =
     (if inp = [] \<or> 128 < md_curlen md then md
      else if md_curlen md = 0 \<and> 128 \<le> length inp then
        let md = sha512_compress md (take 128 inp);
            md = md\<lparr>md_length := md_length md + 128 * 8\<rparr>
        in update_loop md (drop 128 inp)
      else
        let n = min (length inp) (128 - md_curlen md)
        in update_loop (fill_buf md inp n) (drop n inp))"
  by pat_completeness auto
termination
  by (relation "measures [\<lambda>(md, inp). length inp, \<lambda>(md, inp). md_curlen md]")
    (auto simp: fill_buf_def Let_def sha512_compress_def)

declare update_loop.simps [simp del]

definition sha512_update :: "sha512_context \<Rightarrow> bytes \<Rightarrow> sha512_context option" where
  "sha512_update md inp = (if md_curlen md > 128 then None else Some (update_loop md inp))"

definition put_buf :: "sha512_context \<Rightarrow> byte \<Rightarrow> sha512_context" where
  "put_buf md b = md\<lparr>md_buf := (md_buf md)[md_curlen md := b], md_curlen := md_curlen md + 1\<rparr>"

definition zero_to :: "nat \<Rightarrow> sha512_context \<Rightarrow> sha512_context" where
  "zero_to limit md =
     md\<lparr>md_buf := zero_fill (limit - md_curlen md) (md_buf md) (md_curlen md), md_curlen := max limit (md_curlen md)\<rparr>"

definition sha512_final :: "sha512_context \<Rightarrow> bytes option" where
  "sha512_final md =
     (if md_curlen md \<ge> 128 then None
      else
        let md = md\<lparr>md_length := md_length md + of_nat (md_curlen md) * 8\<rparr>;
            md = put_buf md 0x80;
            md = (if md_curlen md > 112 then
                    let md = zero_to 128 md;
                        md = sha512_compress md (md_buf md)
                    in md\<lparr>md_curlen := 0\<rparr>
                  else md);
            md = zero_to 120 md;
            md = md\<lparr>md_buf := take 120 (md_buf md) @ STORE64H (md_length md)\<rparr>;
            md = sha512_compress md (md_buf md)
        in Some (concat (map (\<lambda>i. STORE64H (md_state md ! i)) [0..<8])))"

text \<open>A context on the stack: its arrays have their sizes and any content, \<open>junk\<close>.\<close>

definition sha512 :: "sha512_context \<Rightarrow> bytes \<Rightarrow> bytes option" where
  "sha512 junk message =
     (let ctx = sha512_init junk
      in case sha512_update ctx message of
           None \<Rightarrow> None
         | Some ctx \<Rightarrow> sha512_final ctx)"

section \<open>Reference: the standard's hash of a message\<close>

definition fips_Sigma0 :: "u64 \<Rightarrow> u64" where
  "fips_Sigma0 x = word_rotr 28 x XOR word_rotr 34 x XOR word_rotr 39 x"

definition fips_Sigma1 :: "u64 \<Rightarrow> u64" where
  "fips_Sigma1 x = word_rotr 14 x XOR word_rotr 18 x XOR word_rotr 41 x"

definition fips_sigma0 :: "u64 \<Rightarrow> u64" where
  "fips_sigma0 x = word_rotr 1 x XOR word_rotr 8 x XOR drop_bit 7 x"

definition fips_sigma1 :: "u64 \<Rightarrow> u64" where
  "fips_sigma1 x = word_rotr 19 x XOR word_rotr 61 x XOR drop_bit 6 x"

fun fips_schedule :: "bytes \<Rightarrow> nat \<Rightarrow> u64" where
  "fips_schedule block t =
     (if t < 16 then LOAD64H block (8 * t)
      else fips_sigma1 (fips_schedule block (t - 2)) + fips_schedule block (t - 7) +
        fips_sigma0 (fips_schedule block (t - 15)) + fips_schedule block (t - 16))"

declare fips_schedule.simps [simp del]

type_synonym sha512_vars = "u64 \<times> u64 \<times> u64 \<times> u64 \<times> u64 \<times> u64 \<times> u64 \<times> u64"

fun fips_round :: "(nat \<Rightarrow> u64) \<Rightarrow> sha512_vars \<Rightarrow> nat \<Rightarrow> sha512_vars" where
  "fips_round w (a, b, c, d, e, f, g, h) t =
     (let t1 = h + fips_Sigma1 e + ((e AND f) XOR (NOT e AND g)) + K ! t + w t;
          t2 = fips_Sigma0 a + ((a AND b) XOR (a AND c) XOR (b AND c))
      in (t1 + t2, a, b, c, d + t1, e, f, g))"

definition fips_compress :: "u64 list \<Rightarrow> bytes \<Rightarrow> u64 list" where
  "fips_compress st block =
     (let (a, b, c, d, e, f, g, h) =
        foldl (fips_round (fips_schedule block))
          (st ! 0, st ! 1, st ! 2, st ! 3, st ! 4, st ! 5, st ! 6, st ! 7) [0..<80]
      in [st ! 0 + a, st ! 1 + b, st ! 2 + c, st ! 3 + d,
          st ! 4 + e, st ! 5 + f, st ! 6 + g, st ! 7 + h])"

definition be128 :: "nat \<Rightarrow> bytes" where
  "be128 n = map (\<lambda>i. of_nat (n div 2 ^ (120 - 8 * i))) [0..<16]"

definition pad512 :: "bytes \<Rightarrow> bytes" where
  "pad512 msg =
     msg @ [0x80] @ replicate ((239 - length msg mod 128) mod 128) 0 @ be128 (8 * length msg)"

function blocks128 :: "bytes \<Rightarrow> bytes list" where
  "blocks128 bs = (if length bs < 128 then [] else take 128 bs # blocks128 (drop 128 bs))"
  by pat_completeness auto
termination
  by (relation "measure length") auto

declare blocks128.simps [simp del]

definition sha512_iv :: "u64 list" where
  "sha512_iv =
     [0x6a09e667f3bcc908, 0xbb67ae8584caa73b, 0x3c6ef372fe94f82b, 0xa54ff53a5f1d36f1,
      0x510e527fade682d1, 0x9b05688c2b3e6c1f, 0x1f83d9abfb41bd6b, 0x5be0cd19137e2179]"

definition sha512_hash :: "bytes \<Rightarrow> bytes" where
  "sha512_hash msg = concat (map be64 (foldl fips_compress sha512_iv (blocks128 (pad512 msg))))"

section \<open>The compression function is the standard's\<close>

lemma ROR64c_rotr: "y < 64 \<Longrightarrow> ROR64c x y = word_rotr y x"
proof -
  assume y: "y < 64"
  have "y AND mask 6 = y" unfolding take_bit_eq_mask [symmetric] using y by (simp add: take_bit_nat_eq_self)
  then have m: "y AND 63 = y" by (simp add: mask_eq_exp_minus_1)
  show ?thesis
  proof (rule bit_word_eqI)
    fix n assume "n < LENGTH(64)"
    then have n: "n < 64" by simp
    have "(n + y) mod 64 = (if n + y < 64 then n + y else n - (64 - y))" using n y by (auto simp: mod_if)
    then show "bit (ROR64c x y) n = bit (word_rotr y x) n"
      using n y by (auto simp: ROR64c_def m bit_word_rotr_iff bit_or_iff bit_drop_bit_eq bit_push_bit_iff ac_simps
        dest: bit_imp_le_length)
  qed
qed

lemma Ch_fips: "Ch x y z = (x AND y) XOR (NOT x AND z)"
  by (rule bit_word_eqI) (auto simp: Ch_def bit_simps)

lemma Maj_fips: "Maj x y z = (x AND y) XOR (x AND z) XOR (y AND z)"
  by (rule bit_word_eqI) (auto simp: Maj_def bit_simps)

lemma Sigma_fips:
  "Sigma0 x = fips_Sigma0 x" "Sigma1 x = fips_Sigma1 x" "Gamma0 x = fips_sigma0 x" "Gamma1 x = fips_sigma1 x"
  by (simp_all add: Sigma0_def Sigma1_def Gamma0_def Gamma1_def fips_Sigma0_def fips_Sigma1_def
    fips_sigma0_def fips_sigma1_def ROR64c_rotr)

lemma expand_w_schedule:
  "16 \<le> k \<Longrightarrow> expand_w n (map (fips_schedule b) [0..<k]) = map (fips_schedule b) [0..<k + n]"
proof (induction n arbitrary: k)
  case (Suc n)
  have "fips_schedule b k = fips_sigma1 (fips_schedule b (k - 2)) + fips_schedule b (k - 7) +
        fips_sigma0 (fips_schedule b (k - 15)) + fips_schedule b (k - 16)"
    using Suc.prems by (subst fips_schedule.simps) simp
  then have "expand_w (Suc n) (map (fips_schedule b) [0..<k]) = expand_w n (map (fips_schedule b) [0..<Suc k])"
    using Suc.prems by (simp add: Sigma_fips)
  then show ?case using Suc.IH [of "Suc k"] Suc.prems by simp
qed simp

text \<open>The variables of the standard, read from the places they have in the array.\<close>

definition places :: "u64 list \<Rightarrow> nat \<Rightarrow> nat \<Rightarrow> nat \<Rightarrow> nat \<Rightarrow> nat \<Rightarrow> nat \<Rightarrow> nat \<Rightarrow> nat \<Rightarrow> sha512_vars" where
  "places s a b c d e f g h = (s ! a, s ! b, s ! c, s ! d, s ! e, s ! f, s ! g, s ! h)"

lemma RND_round:
  assumes "distinct [a, b, c, d, e, f, g, h]" "length s = 8" "d < 8" "h < 8" "w ! i = v i"
  shows "places (RND w s a b c d e f g h i) h a b c d e f g = fips_round v (places s a b c d e f g h) i"
    "length (RND w s a b c d e f g h i) = 8"
  using assms by (auto simp: places_def RND_def Let_def Ch_fips Maj_fips Sigma_fips)

lemma eight_rounds_spec:
  assumes s: "length s = 8" and w: "\<And>j. j < 8 \<Longrightarrow> w ! (i + j) = v (i + j)"
  shows "places (eight_rounds w s i) 0 1 2 3 4 5 6 7 = foldl (fips_round v) (places s 0 1 2 3 4 5 6 7) [i..<i + 8]"
    "length (eight_rounds w s i) = 8"
proof -
  define s0 where "s0 = RND w s 0 1 2 3 4 5 6 7 (i + 0)"
  define s1 where "s1 = RND w s0 7 0 1 2 3 4 5 6 (i + 1)"
  define s2 where "s2 = RND w s1 6 7 0 1 2 3 4 5 (i + 2)"
  define s3 where "s3 = RND w s2 5 6 7 0 1 2 3 4 (i + 3)"
  define s4 where "s4 = RND w s3 4 5 6 7 0 1 2 3 (i + 4)"
  define s5 where "s5 = RND w s4 3 4 5 6 7 0 1 2 (i + 5)"
  define s6 where "s6 = RND w s5 2 3 4 5 6 7 0 1 (i + 6)"
  define s7 where "s7 = RND w s6 1 2 3 4 5 6 7 0 (i + 7)"
  note r0 = RND_round [of 0 1 2 3 4 5 6 7 s w "i + 0" v, folded s0_def, OF _ s _ _ w [of 0]]
  note r1 = RND_round [of 7 0 1 2 3 4 5 6 s0 w "i + 1" v, folded s1_def, OF _ r0(2) _ _ w [of 1]]
  note r2 = RND_round [of 6 7 0 1 2 3 4 5 s1 w "i + 2" v, folded s2_def, OF _ r1(2) _ _ w [of 2]]
  note r3 = RND_round [of 5 6 7 0 1 2 3 4 s2 w "i + 3" v, folded s3_def, OF _ r2(2) _ _ w [of 3]]
  note r4 = RND_round [of 4 5 6 7 0 1 2 3 s3 w "i + 4" v, folded s4_def, OF _ r3(2) _ _ w [of 4]]
  note r5 = RND_round [of 3 4 5 6 7 0 1 2 s4 w "i + 5" v, folded s5_def, OF _ r4(2) _ _ w [of 5]]
  note r6 = RND_round [of 2 3 4 5 6 7 0 1 s5 w "i + 6" v, folded s6_def, OF _ r5(2) _ _ w [of 6]]
  note r7 = RND_round [of 1 2 3 4 5 6 7 0 s6 w "i + 7" v, folded s7_def, OF _ r6(2) _ _ w [of 7]]
  have e: "eight_rounds w s i = s7"
    unfolding eight_rounds_def Let_def s0_def s1_def s2_def s3_def s4_def s5_def s6_def s7_def ..
  have u: "[i..<i + 8] = [i + 0, i + 1, i + 2, i + 3, i + 4, i + 5, i + 6, i + 7]" by (simp add: upt_rec)
  show "places (eight_rounds w s i) 0 1 2 3 4 5 6 7 = foldl (fips_round v) (places s 0 1 2 3 4 5 6 7) [i..<i + 8]"
    unfolding e u foldl_Cons foldl_Nil using r0(1) r1(1) r2(1) r3(1) r4(1) r5(1) r6(1) r7(1) by simp
  show "length (eight_rounds w s i) = 8" unfolding e using r7(2) by simp
qed

lemma all_rounds:
  assumes "length s = 8" "\<And>t. t < 8 * n \<Longrightarrow> w ! t = v t"
  shows "places (foldl (eight_rounds w) s (map (\<lambda>k. 8 * k) [0..<n])) 0 1 2 3 4 5 6 7 =
      foldl (fips_round v) (places s 0 1 2 3 4 5 6 7) [0..<8 * n] \<and>
    length (foldl (eight_rounds w) s (map (\<lambda>k. 8 * k) [0..<n])) = 8"
  using assms(2)
proof (induction n)
  case (Suc n)
  define t where "t = foldl (eight_rounds w) s (map (\<lambda>k. 8 * k) [0..<n])"
  have t: "places t 0 1 2 3 4 5 6 7 = foldl (fips_round v) (places s 0 1 2 3 4 5 6 7) [0..<8 * n]" "length t = 8"
    using Suc.IH Suc.prems unfolding t_def by auto
  have "[0..<8 * Suc n] = [0..<8 * n] @ [8 * n..<8 * n + 8]" using upt_add_eq_append [of 0 "8 * n" 8] by (simp add: add.commute)
  moreover have "[0..<Suc n] = [0..<n] @ [n]" by simp
  ultimately show ?case
    using eight_rounds_spec [OF t(2), of w "8 * n" v] Suc.prems t(1) by (simp add: t_def [symmetric] del: upt_Suc)
qed (simp add: assms(1))

lemma upto_8: "[0..<8] = [0, 1, 2, 3, 4, 5, 6, 7]"
  by (simp add: upt_conv_Cons)

lemma compress_state_fips: "length st = 8 \<Longrightarrow> compress_state st buf = fips_compress st buf"
proof -
  assume l: "length st = 8"
  define w v s where "w = expand_w 64 (map (\<lambda>i. LOAD64H buf (8 * i)) [0..<16])" and "v = fips_schedule buf"
    and "s = map (\<lambda>i. st ! i) [0..<8]"
  have "map (\<lambda>i. LOAD64H buf (8 * i)) [0..<16] = map v [0..<16]"
    by (rule map_cong) (simp_all add: v_def fips_schedule.simps)
  then have w: "w = map v [0..<80]" using expand_w_schedule [of 16 64 buf] by (simp only: w_def v_def) simp
  have u: "map (\<lambda>k. 8 * k) [0..<10] = [0, 8, 16, 24, 32, 40, 48, 56, 64, 72]" by (simp add: upt_conv_Cons)
  define t where "t = foldl (eight_rounds w) s (map (\<lambda>k. 8 * k) [0..<10])"
  have t: "places t 0 1 2 3 4 5 6 7 = foldl (fips_round v) (places s 0 1 2 3 4 5 6 7) [0..<80]" "length t = 8"
    using all_rounds [of s 10 w v] by (simp_all add: t_def w s_def del: upt_rec_numeral)
  have p: "places s 0 1 2 3 4 5 6 7 = (st ! 0, st ! 1, st ! 2, st ! 3, st ! 4, st ! 5, st ! 6, st ! 7)"
    unfolding places_def s_def upto_8 by (simp add: numeral_2_eq_2)
  have e: "compress_state st buf = map (\<lambda>i. st ! i + t ! i) [0..<8]"
    unfolding compress_state_def Let_def w_def [symmetric] s_def [symmetric] u [symmetric] t_def [symmetric] ..
  show ?thesis
    unfolding e upto_8 fips_compress_def v_def [symmetric] p [symmetric] t(1) [symmetric]
    by (simp add: places_def)
qed

section \<open>The streaming code computes the standard's hash\<close>

lemma blocks128_short: "length bs < 128 \<Longrightarrow> blocks128 bs = []"
  by (simp add: blocks128.simps)

lemma blocks128_block: "length b = 128 \<Longrightarrow> blocks128 (b @ bs) = b # blocks128 bs"
  by (simp add: blocks128.simps [of "b @ bs"])

lemma blocks128_append: "128 dvd length xs \<Longrightarrow> blocks128 (xs @ ys) = blocks128 xs @ blocks128 ys"
proof (induction xs rule: blocks128.induct)
  case (1 bs)
  show ?case
  proof (cases "length bs < 128")
    case True
    with 1(2) have "bs = []" by (auto dest: dvd_imp_le)
    then show ?thesis by (simp add: blocks128_short)
  next
    case False
    then have "128 dvd length (drop 128 bs)" using 1(2) by (simp add: dvd_diff_nat)
    with 1(1) False have "blocks128 (drop 128 bs @ ys) = blocks128 (drop 128 bs) @ blocks128 ys" by simp
    then show ?thesis
      using False blocks128.simps [of "bs @ ys"] blocks128.simps [of bs] by simp
  qed
qed

lemma blocks128_snoc: "128 dvd length q \<Longrightarrow> length b = 128 \<Longrightarrow> blocks128 (q @ b) = blocks128 q @ [b]"
  using blocks128_block [of b "[]"] by (simp add: blocks128_append blocks128_short)

text \<open>The context has hashed the whole blocks \<open>q\<close> and buffers the rest \<open>t\<close>.\<close>

definition hashed :: "sha512_context \<Rightarrow> bytes \<Rightarrow> bytes \<Rightarrow> bool" where
  "hashed md q t \<longleftrightarrow>
     128 dvd length q \<and> length t < 128 \<and> length (md_buf md) = 128 \<and>
     md_curlen md = length t \<and> take (length t) (md_buf md) = t \<and>
     md_length md = of_nat (8 * length q) \<and>
     md_state md = foldl fips_compress sha512_iv (blocks128 q)"

lemma length_compress_state [simp]: "length (compress_state st b) = 8"
  by (simp add: compress_state_def Let_def)

lemma length_fips_compress [simp]: "length (fips_compress st b) = 8"
  by (simp add: fips_compress_def Let_def split: prod.split)

lemma length_fips_state [simp]: "length (foldl fips_compress sha512_iv bs) = 8"
  by (induction bs rule: rev_induct) (simp_all add: sha512_iv_def)

lemma hashed_init: "length (md_buf md) = 128 \<Longrightarrow> hashed (sha512_init md) [] []"
  by (simp add: hashed_def sha512_init_def sha512_iv_def blocks128_short)

lemma hashed_block:
  assumes "hashed md q t" "length b = 128"
  shows "md_state (sha512_compress md b) = foldl fips_compress sha512_iv (blocks128 (q @ b))"
  using assms by (simp_all add: hashed_def sha512_compress_def compress_state_fips blocks128_snoc)

lemma copy_loop:
  "c + n \<le> length buf \<Longrightarrow> foldl (\<lambda>buf i. buf[i + c := inp ! i]) buf [0..<n] = take c buf @ map (\<lambda>i. inp ! i) [0..<n] @ drop (c + n) buf"
proof (induction n)
  case (Suc n)
  then show ?case
    by (simp add: list_update_append Cons_nth_drop_Suc [symmetric])
qed simp

lemma fill_buf_state:
  assumes "hashed md q t" "n \<le> length inp" "length t + n \<le> 128"
  shows "if length t + n = 128 then hashed (fill_buf md inp n) (q @ t @ take n inp) []
    else hashed (fill_buf md inp n) q (t @ take n inp)"
proof -
  have m: "map (\<lambda>i. inp ! i) [0..<n] = take n inp" using assms(2) by (simp add: list_eq_iff_nth_eq)
  have h: "128 dvd length q" "length (md_buf md) = 128" "md_curlen md = length t" "take (length t) (md_buf md) = t"
    using assms(1) by (simp_all add: hashed_def)
  define b where "b = t @ take n inp @ drop (length t + n) (md_buf md)"
  have c: "foldl (\<lambda>buf i. buf[i + md_curlen md := inp ! i]) (md_buf md) [0..<n] = b"
    using copy_loop [of "length t" n "md_buf md" inp] assms(3) h m by (simp add: b_def)
  have b: "length b = 128" "take (length t + n) b = t @ take n inp" using assms(2,3) h by (simp_all add: b_def)
  show ?thesis
  proof (cases "length t + n = 128")
    case True
    then have "b = t @ take n inp" using h by (simp add: b_def)
    moreover have "128 dvd length (q @ b)" using h b by simp
    ultimately show ?thesis
      using True assms h c b hashed_block [OF assms(1) b(1)]
      by (simp add: fill_buf_def Let_def hashed_def sha512_compress_def algebra_simps)
  next
    case False
    then show ?thesis
      using assms h c b by (simp add: fill_buf_def Let_def hashed_def)
  qed
qed

lemma update_loop_hashed:
  "hashed md q t \<Longrightarrow> \<exists>q' t'. q' @ t' = q @ t @ inp \<and> hashed (update_loop md inp) q' t'"
proof (induction md inp arbitrary: q t rule: update_loop.induct)
  case (1 md inp)
  have c: "md_curlen md = length t" "length t < 128" "128 dvd length q" using 1(3) by (simp_all add: hashed_def)
  show ?case
  proof (cases "inp = []")
    case True
    then show ?thesis using 1(3) update_loop.simps [of md inp] by auto
  next
    case False
    note ne = this
    show ?thesis
    proof (cases "md_curlen md = 0 \<and> 128 \<le> length inp")
      case True
      define md' where "md' = (sha512_compress md (take 128 inp))\<lparr>md_length := md_length (sha512_compress md (take 128 inp)) + 128 * 8\<rparr>"
      have l: "length (take 128 inp) = 128" using True by simp
      have "hashed md' (q @ take 128 inp) []"
        using 1(3) True c hashed_block [OF 1(3) l]
        by (simp add: md'_def hashed_def sha512_compress_def algebra_simps)
      from 1(1) [OF _ True refl refl, folded md'_def, OF _ this] ne c
      obtain q' t' where "q' @ t' = q @ take 128 inp @ drop 128 inp" "hashed (update_loop md' (drop 128 inp)) q' t'" by auto
      moreover have "update_loop md inp = update_loop md' (drop 128 inp)"
        using ne c True by (subst update_loop.simps) (simp add: md'_def Let_def)
      ultimately show ?thesis using c True by (intro exI [of _ q'] exI [of _ t']) simp
    next
      case False
      define n where "n = min (length inp) (128 - md_curlen md)"
      define md' where "md' = fill_buf md inp n"
      have n: "n \<le> length inp" "length t + n \<le> 128" using c by (auto simp: n_def)
      have e: "update_loop md inp = update_loop md' (drop n inp)"
        using ne c False by (subst update_loop.simps) (auto simp: md'_def n_def Let_def)
      note IH = 1(2) [OF _ False n_def, folded md'_def]
      from fill_buf_state [OF 1(3) n, folded md'_def] show ?thesis
      proof (cases "length t + n = 128")
        case True
        then have "hashed md' (q @ t @ take n inp) []" using fill_buf_state [OF 1(3) n] by (simp add: md'_def)
        from IH [OF _ this] ne c show ?thesis by (auto simp: e)
      next
        case False
        then have "hashed md' q (t @ take n inp)" using fill_buf_state [OF 1(3) n] by (simp add: md'_def)
        from IH [OF _ this] ne c show ?thesis by (auto simp: e)
      qed
    qed
  qed
qed

lemma STORE64H_be64: "STORE64H x = be64 x"
proof -
  have m: "(255 :: u64) = mask 8" by (simp add: mask_eq_exp_minus_1)
  have "ucast (w AND 255) = (ucast w :: byte)" for w :: u64 unfolding m by (rule bit_word_eqI) (simp add: bit_simps)
  then show ?thesis by (simp add: STORE64H_def be64_def upto_8)
qed

lemma be128_be64:
  assumes n: "n < 2 ^ 64"
  shows "be128 n = replicate 8 0 @ be64 (of_nat n)"
proof (rule nth_equalityI)
  fix i assume "i < length (be128 n)"
  then have i: "i < 16" by (simp add: be128_def)
  show "be128 n ! i = (replicate 8 0 @ be64 (of_nat n)) ! i"
  proof (cases "i < 8")
    case True
    then have "(2 :: nat) ^ 64 \<le> 2 ^ (120 - 8 * i)" by (intro power_increasing) auto
    then show ?thesis using True n by (simp add: be128_def nth_append)
  next
    case False
    have j: "[0..<8] ! (i - 8) = i - 8" using False i by (subst nth_upt) auto
    have k: "120 - 8 * i = 56 - 8 * (i - 8)" "56 - 8 * (i - 8) \<le> 56" using False by auto
    have "of_nat (n div 2 ^ k) = (ucast (drop_bit k (of_nat n :: u64)) :: byte)" if "k \<le> 56" for k
      by (rule bit_word_eqI) (use that in \<open>simp add: bit_simps drop_bit_eq_div [symmetric]\<close>)
    from this [OF k(2)] show ?thesis using False i j by (simp add: be128_def be64_def nth_append k(1))
  qed
qed (simp add: be128_def)

lemma hashed_final:
  assumes h: "hashed md q t" and small: "8 * length (q @ t) < 2 ^ 64"
  shows "sha512_final md = Some (sha512_hash (q @ t))"
proof -
  let ?n = "length t" and ?l = "word_of_nat (8 * length (q @ t)) :: u64"
  let ?st = "foldl fips_compress sha512_iv (blocks128 q)"
  have t: "?n < 128" and d: "length (md_buf md) = 128" "take ?n (md_buf md) = t" "md_curlen md = ?n"
    and q: "128 dvd length q" and st: "md_state md = ?st"
    using h by (auto simp: hashed_def)
  have len: "md_length md + of_nat ?n * 8 = ?l" using h by (simp add: hashed_def algebra_simps)
  have m: "length (q @ t) mod 128 = ?n" using q t by (auto elim!: dvdE)
  have fill: "zero_fill k ((md_buf md)[?n := 0x80]) (Suc ?n) = t @ [0x80] @ replicate k 0 @ drop (Suc ?n + k) (md_buf md)"
    if "Suc ?n + k \<le> 128" for k
    using that d t by (simp add: zero_fill_eq take_Suc_conv_app_nth)
  have out: "map (\<lambda>i. be64 (s ! i)) [0..<8] = map be64 s" if "length s = 8" for s :: "u64 list"
    using that by (simp add: list_eq_iff_nth_eq)
  have be: "be128 (8 * length (q @ t)) = replicate 8 0 @ be64 ?l" by (rule be128_be64 [OF small])
  show ?thesis
  proof (cases "?n < 112")
    case True
    let ?b = "t @ [0x80] @ replicate (119 - ?n) 0 @ be64 ?l"
    have "(239 - ?n) mod 128 = 111 - ?n" using True by (simp add: mod_if)
    moreover have "replicate (111 - ?n) 0 @ replicate 8 0 = replicate (119 - ?n) (0 :: byte)"
      using True by (simp flip: replicate_add)
    ultimately have "pad512 (q @ t) = q @ ?b"
      unfolding pad512_def m be by (simp flip: append_assoc)
    moreover have b: "length ?b = 128" using True by simp
    ultimately have "sha512_hash (q @ t) = concat (map be64 (fips_compress ?st ?b))"
      by (simp only: sha512_hash_def blocks128_snoc [OF q b] foldl_append foldl_Cons foldl_Nil)
    moreover have "take 120 (zero_fill (119 - ?n) ((md_buf md)[?n := 0x80]) (Suc ?n)) = t @ [0x80] @ replicate (119 - ?n) 0"
    proof -
      have "zero_fill (119 - ?n) ((md_buf md)[?n := 0x80]) (Suc ?n) =
          (t @ [0x80] @ replicate (119 - ?n) 0) @ drop 120 (md_buf md)"
        using True by (subst fill) simp_all
      then show ?thesis by (simp only:) (rule take_append_exact, use True in simp)
    qed
    ultimately show ?thesis
      using True t by (simp add: sha512_final_def put_buf_def zero_to_def Let_def d(3) st len STORE64H_be64
        sha512_compress_def out compress_state_fips)
  next
    case False
    let ?b1 = "t @ [0x80] @ replicate (127 - ?n) 0"
    let ?b2 = "replicate 120 0 @ be64 ?l"
    have "(239 - ?n) mod 128 = (127 - ?n) + 112" using False t by (simp add: mod_if)
    moreover have "replicate (127 - ?n + 112) 0 @ replicate 8 0 = replicate (127 - ?n) 0 @ replicate 120 (0 :: byte)"
      by (simp flip: replicate_add)
    ultimately have "pad512 (q @ t) = (q @ ?b1) @ ?b2"
      unfolding pad512_def m be by (simp only: append_assoc) (simp flip: append_assoc)
    moreover have b: "length ?b1 = 128" "length ?b2 = 128" using t by simp_all
    moreover have "128 dvd length (q @ ?b1)" using q t by simp
    ultimately have "sha512_hash (q @ t) = concat (map be64 (fips_compress (fips_compress ?st ?b1) ?b2))"
      by (simp only: sha512_hash_def blocks128_snoc q b foldl_append foldl_Cons foldl_Nil)
    moreover have "zero_fill (127 - ?n) ((md_buf md)[?n := 0x80]) (Suc ?n) = ?b1"
      using d t by (subst fill) simp_all
    moreover have "take 120 (zero_fill 120 ?b1 0) = replicate 120 0"
      using b by (subst zero_fill_eq) simp_all
    ultimately show ?thesis
      using False t by (simp add: sha512_final_def put_buf_def zero_to_def Let_def d(3) st len STORE64H_be64
        sha512_compress_def out compress_state_fips)
  qed
qed

section \<open>Properties\<close>

text \<open>
  C29 SHA-512: for a message of less than \<open>2^64\<close> bits, whatever the context held before, \<open>sha512\<close>
  succeeds with the hash the standard defines: rounds that move eight variables, the recursive
  message schedule, and the padded message cut into blocks.
\<close>

theorem sha512_is_standard:
  assumes "length (md_buf junk) = 128" "8 * length message < 2 ^ 64"
  shows "sha512 junk message = Some (concat (map be64 (foldl fips_compress sha512_iv (blocks128 (pad512 message)))))"
proof -
  obtain q t where qt: "q @ t = message" "hashed (update_loop (sha512_init junk) message) q t"
    using update_loop_hashed [OF hashed_init [OF assms(1)], of message] by auto
  have "sha512_update (sha512_init junk) message = Some (update_loop (sha512_init junk) message)"
    by (simp add: sha512_update_def sha512_init_def)
  moreover have "8 * length (q @ t) < 2 ^ 64" using assms(2) by (simp add: qt(1))
  ultimately show ?thesis
    using hashed_final [OF qt(2)] by (simp add: sha512_def qt(1) sha512_hash_def)
qed

theorem sha512_is_standard_witness:
  "sha512 \<lparr>md_length = 7, md_state = [], md_curlen = 5, md_buf = replicate 128 1\<rparr> [0x61, 0x62, 0x63] =
    Some (concat (map be64 (foldl fips_compress sha512_iv (blocks128 (pad512 [0x61, 0x62, 0x63])))))"
  by (rule sha512_is_standard) simp_all

end
