(* ===== verification/EdSign.thy ===== *)
theory EdSign
  imports EdMultiples EdScalar Sha512 KeyAgreement
begin

text \<open>
  \<open>lib/ed25519/src/keypair.c\<close>, \<open>sign.c\<close> and \<open>verify.c\<close>: the signature scheme.  The lemmas show that the
  byte strings are those of RFC 8032: the clamped hash of the seed, the encoded multiple of the base
  point, the response modulo the group order, and the equation a verified signature satisfies.
  Arrays are passed as the bytes the callee reads; a context and a buffer on the stack have any content
  at first, which is a parameter.
\<close>

section \<open>Operations\<close>

text \<open>The callers of \<open>sha512.c\<close> ignore the return values: on failure nothing has changed.\<close>

definition sha512_more :: "sha512_context \<Rightarrow> bytes \<Rightarrow> sha512_context" where
  "sha512_more hash inp =
     (case sha512_update hash inp of
        None \<Rightarrow> hash
      | Some hash \<Rightarrow> hash)"

definition sha512_into :: "sha512_context \<Rightarrow> bytes \<Rightarrow> bytes" where
  "sha512_into hash out =
     (case sha512_final hash of
        None \<Rightarrow> out
      | Some out \<Rightarrow> out)"

definition ed25519_create_keypair_c :: "sha512_context \<Rightarrow> bytes \<Rightarrow> bytes \<Rightarrow> bytes \<times> bytes" where
  "ed25519_create_keypair_c ctx private_key seed =
     (let private_key = (case sha512 ctx (take 32 seed) of None \<Rightarrow> private_key | Some out \<Rightarrow> out);
          private_key = private_key[0 := private_key ! 0 AND 248];
          private_key = private_key[31 := private_key ! 31 AND 63];
          private_key = private_key[31 := private_key ! 31 OR 64];
          A = ge_scalarmult_base (take 32 private_key);
          public_key = ge_p3_tobytes A
      in (public_key, private_key))"

text \<open>
  The function uses one context twice; what the first use leaves in it is the parameter \<open>hash2\<close>, of
  which \<open>sha512_init\<close> keeps the buffer only.
\<close>

definition ed25519_sign_c ::
  "sha512_context \<Rightarrow> sha512_context \<Rightarrow> bytes \<Rightarrow> bytes \<Rightarrow> bytes \<Rightarrow> bytes \<Rightarrow> bytes \<Rightarrow> bytes" where
  "ed25519_sign_c hash hash2 r hram message public_key private_key =
     (let hash = sha512_init hash;
          hash = sha512_more hash (take 32 (drop 32 private_key));
          hash = sha512_more hash message;
          r = sha512_into hash r;
          r = sc_reduce r;
          R = ge_scalarmult_base (take 32 r);
          signature = ge_p3_tobytes R;
          hash = sha512_init hash2;
          hash = sha512_more hash (take 32 signature);
          hash = sha512_more hash (take 32 public_key);
          hash = sha512_more hash message;
          hram = sha512_into hash hram;
          hram = sc_reduce hram
      in signature @ sc_muladd (take 32 hram) (take 32 private_key) (take 32 r))"

definition consttime_equal :: "bytes \<Rightarrow> bytes \<Rightarrow> bool" where
  "consttime_equal x y =
     (let r = x ! 0 XOR y ! 0;
          r = foldl (\<lambda>r i. r OR (x ! i XOR y ! i)) r [1..<32]
      in r = 0)"

definition ed25519_verify_c :: "sha512_context \<Rightarrow> bytes \<Rightarrow> bytes \<Rightarrow> bytes \<Rightarrow> bytes \<Rightarrow> bool" where
  "ed25519_verify_c hash h signature message public_key =
     (if signature ! 63 AND 224 \<noteq> 0 then False
      else
        case ge_frombytes_negate_vartime (take 32 public_key) of
          None \<Rightarrow> False
        | Some A \<Rightarrow>
            let hash = sha512_init hash;
                hash = sha512_more hash (take 32 signature);
                hash = sha512_more hash (take 32 public_key);
                hash = sha512_more hash message;
                h = sha512_into hash h;
                h = sc_reduce h;
                R = ge_double_scalarmult_vartime (take 32 h) A (take 32 (drop 32 signature));
                checker = ge_tobytes R
            in consttime_equal checker signature)"

section \<open>Hashing and scalars\<close>

lemma length_sha512_hash [simp]: "length (sha512_hash m) = 64"
proof -
  have l: "length (foldl fips_compress st bs) = 8" if "length st = 8" for st bs
    using that by (induction bs arbitrary: st) simp_all
  have "length (concat (map be64 x)) = 8 * length x" for x by (induction x) (simp_all add: be64_def)
  then show ?thesis by (simp add: sha512_hash_def l sha512_iv_def)
qed

lemma sha512_more_hashed:
  assumes "hashed md q t"
  shows "\<exists>q' t'. q' @ t' = q @ t @ x \<and> hashed (sha512_more md x) q' t'"
proof -
  have "sha512_more md x = update_loop md x" using assms by (simp add: sha512_more_def sha512_update_def hashed_def)
  then show ?thesis using update_loop_hashed [OF assms, of x] by simp
qed

lemma sha512_stream:
  assumes "length (md_buf ctx) = 128" "8 * length (concat xs) < 2 ^ 64"
  shows "sha512_into (foldl sha512_more (sha512_init ctx) xs) out = sha512_hash (concat xs)"
proof -
  have "\<exists>q t. q @ t = a @ b @ concat xs \<and> hashed (foldl sha512_more md xs) q t" if "hashed md a b" for md a b
    using that
  proof (induction xs arbitrary: md a b)
    case (Cons x xs)
    obtain q t where q: "q @ t = a @ b @ x" "hashed (sha512_more md x) q t"
      using sha512_more_hashed [OF Cons.prems, of x] by blast
    from Cons.IH [OF q(2)] q(1) show ?case by (metis append.assoc concat.simps(2) foldl_Cons)
  qed auto
  from this [OF hashed_init [OF assms(1)]] obtain q t where
    q: "q @ t = concat xs" "hashed (foldl sha512_more (sha512_init ctx) xs) q t" by auto
  have "8 * length (q @ t) < 2 ^ 64" using assms(2) by (simp only: q(1))
  from hashed_final [OF q(2) this] show ?thesis by (simp add: sha512_into_def q(1))
qed

lemma sha512_hash_of:
  assumes "length (md_buf ctx) = 128" "8 * length m < 2 ^ 64"
  shows "sha512 ctx m = Some (sha512_hash m)"
proof -
  obtain q t where q: "q @ t = m" "hashed (update_loop (sha512_init ctx) m) q t"
    using update_loop_hashed [OF hashed_init [OF assms(1)], of m] by auto
  have "8 * length (q @ t) < 2 ^ 64" using assms(2) by (simp add: q(1))
  from hashed_final [OF q(2) this] show ?thesis
    by (simp add: sha512_def sha512_update_def sha512_init_def q(1))
qed

lemma reduced_scalar:
  assumes "length h = 64"
  shows "length (take 32 (sc_reduce h)) = 32" "le_val (take 32 (sc_reduce h)) = le_val h mod group_order"
    "le_val (take 32 (sc_reduce h)) < 2 ^ 253" "take 32 (sc_reduce h) ! 31 \<le> 127"
proof -
  note s = sc_reduce_spec [OF assms]
  show l: "length (take 32 (sc_reduce h)) = 32" by (simp add: s(2))
  show "le_val (take 32 (sc_reduce h)) = le_val h mod group_order" by (rule s(1))
  show b: "le_val (take 32 (sc_reduce h)) < 2 ^ 253"
    using pos_mod_bound [of group_order "le_val h"] by (simp add: s(1) group_order_def)
  have "256 ^ 31 * uint (take 32 (sc_reduce h) ! 31) < 2 ^ 253"
    using last_byte(2) [OF l] b le_val_bounds(1) [of "take 31 (take 32 (sc_reduce h))"] by linarith
  then show "take 32 (sc_reduce h) ! 31 \<le> 127" by (simp add: word_le_def)
qed

lemma consttime_equal_iff:
  assumes "length x = 32" "32 \<le> length y"
  shows "consttime_equal x y \<longleftrightarrow> x = take 32 y"
proof -
  have "a XOR b = 0 \<longleftrightarrow> a = b" for a b :: byte by (auto simp: bit_eq_iff bit_xor_iff)
  then have "consttime_equal x y \<longleftrightarrow> x ! 0 = y ! 0 \<and> (\<forall>i \<in> {1..<32}. x ! i = y ! i)"
    by (simp add: consttime_equal_def Let_def fold_or_zero)
  also have "\<dots> \<longleftrightarrow> (\<forall>i<32. x ! i = y ! i)"
    by (metis atLeastLessThan_iff less_one linorder_not_less zero_less_numeral)
  also have "\<dots> \<longleftrightarrow> x = take 32 y" using assms by (auto simp: list_eq_iff_nth_eq)
  finally show ?thesis .
qed

lemma top_bits_clear:
  assumes "length s = 32"
  shows "s ! 31 AND 224 = 0 \<longleftrightarrow> le_val s < 2 ^ 253"
proof -
  have "bit (224 :: byte) n \<longleftrightarrow> 5 \<le> n \<and> n < 8" for n
    using bit_push_bit_iff [of 5 "7 :: byte" n] bit_mask_iff [of 3 "n - 5", where 'a = byte] bit_imp_le_length [of "224 :: byte" n]
    by (auto simp: push_bit_eq_mult mask_eq_exp_minus_1)
  then have "s ! 31 AND 224 = 0 \<longleftrightarrow> (\<forall>n. 5 \<le> n \<longrightarrow> n < 8 \<longrightarrow> \<not> bit (le_val s) (8 * 31 + n))"
    using bit_le_val_byte [of _ s 31] assms by (auto simp: bit_eq_iff bit_and_iff)
  also have "\<dots> \<longleftrightarrow> take_bit 253 (le_val s) = le_val s"
  proof -
    have "n < 256" if "bit (le_val s) n" for n using that assms by (auto simp: bit_le_val)
    then have "take_bit 253 (le_val s) = le_val s \<longleftrightarrow> (\<forall>n. 253 \<le> n \<longrightarrow> n < 256 \<longrightarrow> \<not> bit (le_val s) n)"
      unfolding bit_eq_iff bit_take_bit_iff by (simp del: not_less) (meson not_less)
    also have "\<dots> \<longleftrightarrow> (\<forall>n. 5 \<le> n \<longrightarrow> n < 8 \<longrightarrow> \<not> bit (le_val s) (8 * 31 + n))"
    proof (intro iffI allI impI)
      fix n :: nat
      assume a: "\<forall>n. 5 \<le> n \<longrightarrow> n < 8 \<longrightarrow> \<not> bit (le_val s) (8 * 31 + n)" "253 \<le> n" "n < 256"
      from a(1) [rule_format, of "n - 248"] a(2,3) show "\<not> bit (le_val s) n" by simp
    qed simp
    finally show ?thesis by simp
  qed
  also have "\<dots> \<longleftrightarrow> le_val s < 2 ^ 253"
    using le_val_bounds(1) [of s] take_bit_int_less_exp [of 253 "le_val s"] by (auto simp: take_bit_int_eq_self_iff)
  finally show ?thesis .
qed

section \<open>Keys\<close>

lemma clamped_scalar:
  assumes "length k = 64"
  defines "c \<equiv> (k[0 := k ! 0 AND 248])[31 := (k[0 := k ! 0 AND 248]) ! 31 AND 63]"
  defines "c' \<equiv> c[31 := c ! 31 OR 64]"
  shows "length (take 32 c') = 32" "take 32 c' ! 31 \<le> 127"
    "2 ^ 254 \<le> le_val (take 32 c')" "le_val (take 32 c') < 2 ^ 255" "8 dvd le_val (take 32 c')"
    "drop 32 c' = drop 32 k"
proof -
  show l: "length (take 32 c') = 32" using assms(1) by (simp add: c'_def c_def)
  show "drop 32 c' = drop 32 k" by (simp add: c'_def c_def)
  have b: "c' ! 31 = (k ! 31 AND 63) OR 64" "c' ! 0 = k ! 0 AND 248"
    using assms(1) by (simp_all add: c'_def c_def)
  have bit63: "bit (63 :: byte) n \<longleftrightarrow> n < 6" for n using bit_mask_iff [of 6 n, where 'a = byte] by (auto simp: mask_eq_exp_minus_1)
  have bit64: "bit (64 :: byte) n \<longleftrightarrow> n = 6" for n
    using bit_push_bit_iff [of 6 "1 :: byte" n] by (auto simp: push_bit_eq_mult bit_1_iff)
  have nb: "\<not> bit (c' ! 31) 7" "bit (c' ! 31) 6" by (simp_all add: b bit_or_iff bit_and_iff bit63 bit64)
  have v: "bit (le_val (take 32 c')) (8 * 31 + j) \<longleftrightarrow> bit (c' ! 31) j" if "j < 8" for j
    using bit_le_val_byte [OF that, of "take 32 c'" 31] assms(1) by (simp add: c'_def c_def)
  have s: "le_val (take 32 c') = le_val (take 32 c') mod 2 ^ 255"
    using sign_bit [OF l] nb by simp
  show lt: "le_val (take 32 c') < 2 ^ 255" by (subst s) simp
  have "take_bit 255 (le_val (take 32 c')) = le_val (take 32 c')" using s by (simp add: take_bit_eq_mod)
  have "odd (le_val (take 32 c') div 2 ^ 254)" using v [of 6] nb by (simp add: bit_iff_odd)
  then have "le_val (take 32 c') div 2 ^ 254 \<noteq> 0" by auto
  then show "2 ^ 254 \<le> le_val (take 32 c')"
    using le_val_bounds(1) [of "take 32 c'"] by (simp add: div_pos_pos_trivial not_le [symmetric])
  show "take 32 c' ! 31 \<le> 127"
  proof -
    have "256 ^ 31 * uint (take 32 c' ! 31) < 2 ^ 255"
      using last_byte(2) [OF l] lt le_val_bounds(1) [of "take 31 (take 32 c')"] by linarith
    then show ?thesis by (simp add: word_le_def)
  qed
  have "\<not> bit (c' ! 0) j" if "j < 3" for j
  proof -
    have "\<not> bit (248 :: byte) j"
      using bit_push_bit_iff [of 3 "31 :: byte" j] that by (simp add: push_bit_eq_mult)
    then show ?thesis by (simp add: b(2) bit_and_iff)
  qed
  then have "\<not> bit (le_val (take 32 c')) j" if "j < 3" for j
    using bit_le_val_byte [of j "take 32 c'" 0] that by simp
  then have "take_bit 3 (le_val (take 32 c')) = 0" by (auto simp: bit_eq_iff bit_take_bit_iff)
  then show "8 dvd le_val (take 32 c')" by (simp add: take_bit_eq_0_iff)
qed

definition encodes :: "bytes \<Rightarrow> ext \<Rightarrow> bool" where
  "encodes s = (\<lambda>(X, Y, Z, T). length s = 32 \<and> le_val s = affine_bytes X Y Z)"

lemma ge_p3_tobytes_encodes: "p3_ok h \<Longrightarrow> encodes (ge_p3_tobytes h) (ext_of h)"
  by (simp add: encodes_def ext_of_def ge_p3_tobytes_spec)

lemma key_pair_spec:
  assumes "length (md_buf ctx) = 128" "length seed = 32" "ed25519_create_keypair_c ctx out seed = (pub, priv)"
  shows "length priv = 64" "drop 32 priv = drop 32 (sha512_hash seed)" "8 dvd le_val (take 32 priv)"
    "2 ^ 254 \<le> le_val (take 32 priv)" "le_val (take 32 priv) < 2 ^ 255"
    "\<exists>P. combination ext_zero 0 (le_val (take 32 priv)) P \<and> encodes pub P"
proof -
  define h where "h = sha512_hash seed"
  have h: "sha512 ctx (take 32 seed) = Some h" "length h = 64"
    using sha512_hash_of [OF assms(1), of "take 32 seed"] assms(2) by (simp_all add: h_def)
  define c c' where "c = (h[0 := h ! 0 AND 248])[31 := (h[0 := h ! 0 AND 248]) ! 31 AND 63]"
    and "c' = c[31 := c ! 31 OR 64]"
  note k = clamped_scalar [OF h(2), folded c_def, folded c'_def]
  have r: "priv = c'" "pub = ge_p3_tobytes (ge_scalarmult_base (take 32 c'))"
    using assms(3) unfolding ed25519_create_keypair_c_def Let_def h(1) option.case c_def [symmetric] c'_def [symmetric]
    by auto
  obtain P where P: "p3_of (ge_scalarmult_base (take 32 c')) P" "combination ext_zero 0 (le_val (take 32 c')) P"
    using ge_scalarmult_base_spec [OF k(1,2)] by blast
  then have "encodes pub P" using ge_p3_tobytes_encodes by (simp add: r(2) p3_of_def)
  then show "\<exists>P. combination ext_zero 0 (le_val (take 32 priv)) P \<and> encodes pub P" using P(2) unfolding r(1) by blast
  show "length priv = 64" using h(2) by (simp add: r(1) c'_def c_def)
  show "drop 32 priv = drop 32 (sha512_hash seed)" "8 dvd le_val (take 32 priv)"
    "2 ^ 254 \<le> le_val (take 32 priv)" "le_val (take 32 priv) < 2 ^ 255"
    unfolding r(1) using k(3-6) by (simp_all add: h_def)
qed

lemma key_lengths:
  assumes "length (md_buf ctx) = 128" "length seed = 32" "ed25519_create_keypair_c ctx out seed = (pub, priv)"
  shows "length pub = 32" "length priv = 64"
  using key_pair_spec [OF assms] by (auto simp: encodes_def)

section \<open>Properties\<close>

text \<open>
  C24 Key pairs: the private key is the SHA-512 hash of the seed with the first half clamped to a
  multiple of 8 between \<open>2^254\<close> and \<open>2^255\<close>; the public key encodes a point built from the entries of
  the table by additions, doublings and negations in which the multiples the entries are stored for
  add up to that number.
\<close>

theorem key_pair_of_seed:
  assumes "length (md_buf ctx) = 128" "length seed = 32" "ed25519_create_keypair_c ctx out seed = (pub, priv)"
  shows "length pub = 32 \<and> length priv = 64 \<and> drop 32 priv = drop 32 (sha512_hash seed) \<and>
    8 dvd le_val (take 32 priv) \<and> 2 ^ 254 \<le> le_val (take 32 priv) \<and> le_val (take 32 priv) < 2 ^ 255 \<and>
    (\<exists>P. combination ext_zero 0 (le_val (take 32 priv)) P \<and> encodes pub P)"
  using key_pair_spec [OF assms] key_lengths [OF assms] by blast

theorem key_pair_of_seed_witness:
  "8 dvd le_val (take 32 (snd (ed25519_create_keypair_c
     \<lparr>md_length = 7, md_state = [], md_curlen = 5, md_buf = replicate 128 1\<rparr> [] (replicate 32 3))))"
proof -
  obtain pub priv where x: "ed25519_create_keypair_c
     \<lparr>md_length = 7, md_state = [], md_curlen = 5, md_buf = replicate 128 1\<rparr> [] (replicate 32 3) = (pub, priv)"
    by (meson surj_pair)
  from key_pair_of_seed [OF _ _ x] show ?thesis unfolding x by simp
qed

text \<open>
  C17 Signatures: with \<open>r\<close> the hash of the second half of the private key and the message, the first half
  of the signature encodes a point built from the entries of the table by operations in which the
  multiples the entries are stored for add up to \<open>r\<close> modulo the group order \<open>l\<close>, and the second half is exactly \<open>(k a + r) mod l\<close>, where \<open>k\<close> hashes the first half, the public key and
  the message, and \<open>a\<close> is the first half of the private key; the contents of contexts and buffers before
  do not matter.
\<close>

theorem signature_equation:
  assumes "length (md_buf hash) = 128" "length (md_buf hash2) = 128" "length pub = 32" "length priv = 64"
    "8 * (64 + length message) < 2 ^ 64" "signature = ed25519_sign_c hash hash2 r0 h0 message pub priv"
  shows "length signature = 64 \<and>
    (\<exists>P. combination ext_zero 0 (le_val (sha512_hash (drop 32 priv @ message)) mod group_order) P \<and>
      encodes (take 32 signature) P) \<and>
    le_val (drop 32 signature) =
      (le_val (sha512_hash (take 32 signature @ pub @ message)) * le_val (take 32 priv) +
       le_val (sha512_hash (drop 32 priv @ message))) mod group_order"
proof -
  define rh where "rh = sha512_hash (drop 32 priv @ message)"
  define r where "r = take 32 (sc_reduce rh)"
  note r = reduced_scalar [of rh, folded r_def, unfolded rh_def length_sha512_hash, folded rh_def, OF refl]
  define R where "R = ge_p3_tobytes (ge_scalarmult_base r)"
  obtain P where P: "p3_of (ge_scalarmult_base r) P" "combination ext_zero 0 (le_val r) P"
    using ge_scalarmult_base_spec [OF r(1,4)] by blast
  then have R: "encodes R P" "length R = 32"
    using ge_p3_tobytes_encodes [of "ge_scalarmult_base r"] ge_p3_tobytes_spec(1) [of "ge_scalarmult_base r"]
    by (simp_all add: R_def p3_of_def)
  define kh where "kh = sha512_hash (R @ pub @ message)"
  define k where "k = take 32 (sc_reduce kh)"
  note k = reduced_scalar [of kh, folded k_def, unfolded kh_def length_sha512_hash, folded kh_def, OF refl]
  have 1: "sha512_into (sha512_more (sha512_more (sha512_init hash) (take 32 (drop 32 priv))) message) r0 = rh"
    using sha512_stream [OF assms(1), of "[take 32 (drop 32 priv), message]" r0] assms(4,5) by (simp add: rh_def)
  have 2: "sha512_into (sha512_more (sha512_more (sha512_more (sha512_init hash2) R) pub) message) h0 = kh"
    using sha512_stream [OF assms(2), of "[R, pub, message]" h0] assms(3,5) R(2) by (simp add: kh_def)
  have s: "signature = R @ sc_muladd k (take 32 priv) r"
    using 2 R(2) assms(3) by (simp add: assms(6) ed25519_sign_c_def Let_def 1 r_def [symmetric] R_def [symmetric] k_def)
  have l: "length (take 32 priv) = 32" using assms(4) by simp
  note m = sc_muladd_spec [OF k(1) l r(1)]
  have "le_val (drop 32 signature) = (le_val kh mod group_order * le_val (take 32 priv) + le_val rh mod group_order) mod group_order"
    using m(1) by (simp add: s R(2) k(2) r(2))
  also have "\<dots> = (le_val kh * le_val (take 32 priv) + le_val rh) mod group_order"
    by (intro mod_add_cong mod_mult_cong mod_mod_trivial refl)
  finally show ?thesis
    using P(2) R m(2) by (simp add: s kh_def [symmetric] rh_def [symmetric] r(2) del: split_paired_Ex) blast
qed

theorem signature_equation_witness:
  "length (ed25519_sign_c \<lparr>md_length = 7, md_state = [], md_curlen = 5, md_buf = replicate 128 1\<rparr>
     \<lparr>md_length = 0, md_state = [], md_curlen = 0, md_buf = replicate 128 2\<rparr> [] [] [1, 2, 3]
     (replicate 32 4) (replicate 64 5)) = 64"
  using signature_equation [OF _ _ _ _ _ refl, of "\<lparr>md_length = 7, md_state = [], md_curlen = 5, md_buf = replicate 128 1\<rparr>"
      "\<lparr>md_length = 0, md_state = [], md_curlen = 0, md_buf = replicate 128 2\<rparr>" "replicate 32 4" "replicate 64 5" "[1, 2, 3]"]
  by simp

text \<open>
  C18 Verification: a signature is accepted exactly if its second half \<open>S\<close> is below \<open>2^253\<close>, the public
  key decodes to a point \<open>A\<close> (the negative of the key's point), and its first half is the encoding of the
  point computed for \<open>k A + S B\<close>, with \<open>k\<close> the hash of first half, public key and message modulo the group
  order, built from \<open>A\<close> and the tables.
\<close>

theorem verification_equation:
  assumes "length (md_buf hash) = 128" "length signature = 64" "length pub = 32" "8 * (64 + length message) < 2 ^ 64"
    "k = take 32 (sc_reduce (sha512_hash (take 32 signature @ pub @ message)))"
  shows "le_val k = le_val (sha512_hash (take 32 signature @ pub @ message)) mod group_order \<and>
    (ed25519_verify_c hash h0 signature message pub \<longleftrightarrow>
      le_val (drop 32 signature) < 2 ^ 253 \<and>
      (\<exists>A P. ge_frombytes_negate_vartime pub = Some A \<and>
        p2_of (ge_double_scalarmult_vartime k A (drop 32 signature)) P \<and>
        combination (ext_of A) (le_val k) (le_val (drop 32 signature)) P \<and> encodes (take 32 signature) P))"
proof -
  define S where "S = drop 32 signature"
  define R where "R = take 32 signature"
  have l: "length S = 32" "length R = 32" using assms(2) by (simp_all add: S_def R_def)
  note k = reduced_scalar [of "sha512_hash (R @ pub @ message)", unfolded length_sha512_hash, OF refl,
      folded assms(5) [folded R_def]]
  have st: "sha512_into (sha512_more (sha512_more (sha512_more (sha512_init hash) R) pub) message) h0 = sha512_hash (R @ pub @ message)"
    using sha512_stream [OF assms(1), of "[R, pub, message]" h0] assms(3,4) l(2) by simp
  have S31: "S ! 31 = signature ! 63" and S32: "take 32 S = S" using assms(2) by (simp_all add: S_def)
  have "signature ! 63 AND 224 = 0 \<longleftrightarrow> le_val S < 2 ^ 253"
    using top_bits_clear [OF l(1)] by (simp only: S31)
  moreover have "consttime_equal (ge_tobytes (ge_double_scalarmult_vartime k A S)) signature \<longleftrightarrow>
      (\<exists>P. p2_of (ge_double_scalarmult_vartime k A S) P \<and>
        combination (ext_of A) (le_val k) (le_val S) P \<and> encodes R P)"
    if A: "ge_frombytes_negate_vartime pub = Some A" and S: "le_val S < 2 ^ 253" for A
  proof -
    define r where "r = ge_double_scalarmult_vartime k A S"
    have "p3_of A (ext_of A)" using decoded_ok [OF assms(3) A] by (simp add: p3_of_def)
    from ge_double_scalarmult_vartime_spec [OF k(1,3) l(1) S this, folded r_def] obtain P where
      P: "p2_of r P" "combination (ext_of A) (le_val k) (le_val S) P" unfolding p2_comb_def by blast
    note t = ge_tobytes_spec [of r]
    have ok: "p2_ok r" using P(1) by (simp add: p2_of_def)
    have e: "encodes R Q \<longleftrightarrow> R = ge_tobytes r" if "p2_of r Q" for Q
      using that t [OF ok] l(2) le_val_inject [OF l(2) t(1) [OF ok]] by (auto simp: p2_of_def encodes_def)
    have "consttime_equal (ge_tobytes r) signature \<longleftrightarrow> ge_tobytes r = R"
      using consttime_equal_iff [OF t(1) [OF ok], of signature] assms(2) by (simp add: R_def)
    then show ?thesis unfolding r_def [symmetric] using P e by metis
  qed
  ultimately have "ed25519_verify_c hash h0 signature message pub \<longleftrightarrow>
      le_val S < 2 ^ 253 \<and>
      (\<exists>A P. ge_frombytes_negate_vartime pub = Some A \<and> p2_of (ge_double_scalarmult_vartime k A S) P \<and>
        combination (ext_of A) (le_val k) (le_val S) P \<and> encodes R P)"
    using assms(2,3) st unfolding ed25519_verify_c_def Let_def
    by (auto simp: R_def [symmetric] S_def [symmetric] S32 assms(5) [folded R_def, symmetric] split: option.splits)
  then show ?thesis using k(2) by (simp add: S_def R_def)
qed

theorem verification_equation_witness:
  "\<not> ed25519_verify_c \<lparr>md_length = 7, md_state = [], md_curlen = 5, md_buf = replicate 128 1\<rparr> [] (replicate 64 255)
     [1, 2, 3] (replicate 32 0)"
proof -
  have "\<not> le_val (drop 32 (replicate 64 255)) < 2 ^ 253"
    using top_bits_clear [of "drop 32 (replicate 64 255)"] by simp
  then show ?thesis
    using verification_equation [OF _ _ _ _ refl, of "\<lparr>md_length = 7, md_state = [], md_curlen = 5, md_buf = replicate 128 1\<rparr>"
        "replicate 64 255" "replicate 32 0" "[1, 2, 3]" "[]"] by simp
qed

text \<open>
  The library over its own signature scheme and curve: the part of the contract of the protocol
  theories that states sizes holds for the code, for every content of the buffers it starts from.
\<close>

definition vendored_lib :: "bytes \<Rightarrow> sha512_context \<Rightarrow> sha512_context \<Rightarrow> bytes \<Rightarrow> bytes \<Rightarrow> crypto_lib" where
  "vendored_lib out ctx ctx2 b b2 =
     \<lparr>curve25519_donna = curve25519_donna_c out,
      ed25519_create_keypair = ed25519_create_keypair_c ctx b,
      ed25519_sign = ed25519_sign_c ctx ctx2 b b2,
      ed25519_verify = ed25519_verify_c ctx b\<rparr>"

theorem vendored_lib_sizes:
  assumes "L = vendored_lib out ctx ctx2 b b2" "length out = 32" "length (md_buf ctx) = 128" "length k = 32"
    "length p = 32" "length seed = 32"
  shows "length (curve25519_donna L k p) = 32 \<and>
    length (fst (ed25519_create_keypair L seed)) = 32 \<and> length (snd (ed25519_create_keypair L seed)) = 64 \<and>
    length (ed25519_sign L message pub priv) = 64"
proof -
  obtain pub' priv' where e: "ed25519_create_keypair_c ctx b seed = (pub', priv')" by (meson surj_pair)
  have "length (ge_p3_tobytes h) = 32" "length (sc_muladd x y z) = 32" for h x y z
    by (simp_all add: ge_p3_tobytes_def fe_tobytes_def limb_bytes_def sc_muladd_def sc_bytes_def Let_def)
  then have "length (ed25519_sign L message pub priv) = 64"
    by (simp add: assms(1) vendored_lib_def ed25519_sign_c_def Let_def)
  then show ?thesis
    using key_lengths [OF assms(3,6) e] curve25519_donna_c_spec(1) [OF assms(2,4,5)]
    by (simp add: assms(1) vendored_lib_def e)
qed

theorem vendored_lib_sizes_witness:
  "length (ed25519_sign (vendored_lib (replicate 32 0) (sha512_init \<lparr>md_length = 7, md_state = [], md_curlen = 5, md_buf = replicate 128 1\<rparr>)
     (sha512_init \<lparr>md_length = 7, md_state = [], md_curlen = 5, md_buf = replicate 128 1\<rparr>) [] []) [1, 2] [] []) = 64"
  using vendored_lib_sizes [OF refl, of "replicate 32 0"
      "sha512_init \<lparr>md_length = 7, md_state = [], md_curlen = 5, md_buf = replicate 128 1\<rparr>" "replicate 32 1" "replicate 32 2"
      "replicate 32 3"]
  by (simp add: sha512_init_def)

end
