(* ===== verification/Spec2Isabelle.thy ===== *)
theory Spec2Isabelle
  imports OlmMemory OlmList KeyAgreement InboundGroupSession Sas Pk EdSign
begin

text \<open>
  Verification of the Olm and Megolm library (self-olm, a fork of libolm).

  The library gives two devices an encrypted session (Olm, a double ratchet) and a group of devices
  an encrypted room (Megolm).  Its C interface works on opaque objects and on buffers of the caller;
  this development models it from the block cipher up to that interface and proves that what one
  party writes the other reads, that what was tampered with is refused, and that objects survive
  being stored.

  \<^bold>\<open>How the parts work together.\<close>  An \<open>Account\<close> holds the identity keys of a device and a list of
  one-time keys.  A device starts a session from the published keys of another one
  (\<open>new_outbound_session\<close>); the other device starts its side from the first message
  (\<open>new_inbound_session\<close>) and removes the one-time key.  A \<open>Session\<close> wraps a \<open>Ratchet\<close>, which derives
  a key for every message and keeps the keys of messages that are late.  A sender in a room keeps an
  outbound group session, shares its ratchet with the receivers over their Olm sessions, and signs
  every message; receivers keep an inbound group session.  All of them are stored as encrypted
  pickles.  \<open>olm.cpp\<close>, the group session files, \<open>sas.c\<close> and \<open>pk.cpp\<close> put base64 around this and are
  what clients call.

  \<^bold>\<open>State.\<close>  The buffers of the callers live in one flat memory, a function from addresses to bytes,
  because the library encodes and decodes in place; \<open>rd\<close> and \<open>wr\<close> read and write a region.  Objects are
  records with the fields of the structs, passed and returned explicitly.  A length that is
  \<open>size_t(-1)\<close> is \<open>None\<close>, or \<open>size_max\<close> where the code goes on computing with it; counters are 32-bit
  words and wrap around.  A local variable the code reads before it sets it is a parameter called
  \<open>junk\<close>.  Where the code would dereference a null pointer or not end, the result is an outer \<open>None\<close>.
  Constructors run on cleared memory.  Random input is read up front and erased with \<open>unset\<close> where
  the code erases it.

  \<^bold>\<open>Theories, in the order of the code.\<close>
  \<^item> \<open>OlmPrelude\<close>: bytes, words, the flat memory, strings; \<open>OlmError\<close>: \<open>error.h\<close>, \<open>error.c\<close>;
    \<open>OlmMemory\<close>: \<open>memory.cpp\<close>, \<open>memory.hh\<close>; \<open>OlmList\<close>: the bounded list of \<open>list.hh\<close>, with its
    refinement to a list cut at the capacity.
  \<^item> \<open>Base64\<close>: \<open>base64.cpp\<close>; \<open>Pickle\<close>: \<open>pickle.cpp\<close>, \<open>pickle.hh\<close>; \<open>PickleEncoding\<close>:
    \<open>pickle_encoding.c\<close>; \<open>SealedPickle\<close>: the interface of the objects that are pickled.
  \<^item> \<open>Sha256\<close>, \<open>Aes\<close>: \<open>lib/crypto-algorithms\<close>; \<open>Crypto\<close>: \<open>crypto.cpp\<close>; \<open>Cipher\<close>: \<open>cipher.cpp\<close>.
  \<^item> \<open>DonnaField\<close>, \<open>DonnaCodec\<close>, \<open>Donna\<close>: \<open>lib/curve25519-donna\<close>; \<open>KeyAgreement\<close>: the key agreement
    of \<open>crypto.cpp\<close> over it.
  \<^item> \<open>EdLimbs\<close>, \<open>EdField\<close>, \<open>EdScalar\<close>, \<open>Sha512\<close>: \<open>fe.c\<close>, \<open>sc.c\<close> and \<open>sha512.c\<close> of \<open>lib/ed25519\<close>; \<open>EdTable\<close>:
    \<open>ge.h\<close> and the tables of \<open>precomp_data.h\<close>; \<open>EdGroup\<close>, \<open>EdMultiples\<close>: \<open>ge.c\<close>; \<open>EdSign\<close>: \<open>keypair.c\<close>,
    \<open>sign.c\<close> and \<open>verify.c\<close>.
  \<^item> \<open>Message\<close>: \<open>message.cpp\<close>; \<open>Megolm\<close>: \<open>megolm.c\<close>; \<open>OutboundGroupSession\<close>, \<open>InboundGroupSession\<close>:
    the files of these names.
  \<^item> \<open>Ratchet\<close>: \<open>ratchet.cpp\<close>; \<open>Conversation\<close>: two ratchets that talk to each other; \<open>Account\<close>:
    \<open>account.cpp\<close>; \<open>Session\<close>: \<open>session.cpp\<close>; \<open>OlmApi\<close>: \<open>olm.cpp\<close> and \<open>utility.cpp\<close>.
  \<^item> \<open>Sas\<close>: \<open>sas.c\<close>; \<open>Pk\<close>: \<open>pk.cpp\<close>; this theory: sessions that are stored between messages.

  \<^bold>\<open>What the lemmas show.\<close>  The primitives are compared with their standards: SHA-256 with the padded
  block computation, SHA-512 likewise, HMAC and HKDF with their RFCs, X25519 with the ladder of
  RFC 7748 on integers; AES decryption inverts encryption.  For Ed25519 the limbs stay within the
  bounds the source states, the products of limbs overflow nowhere (they equal a version of the code
  that fails on every overflow), and the results are right modulo the prime and the group order; the
  point formulas are the addition law of the curve; the digits of the scalars sum up to them, and the
  points computed are combinations of the tables in which the multiples the entries are stored for
  add up to the scalars; signatures and keys have the bytes of RFC 8032, and verification accepts
  exactly what satisfies its equation.  Every encoder has a decoder that reads it back, in place where
  the library works in place, and every decoder stays inside its input and ends.  The ratchets have an
  invariant, that two of them are in sync, which every exchange of messages preserves, in both
  directions and with lost, late and repeated messages; from it follow the properties of the C
  interface: what was encrypted is decrypted, by sessions just made, long in use, or restored from
  storage.  The other properties state what is refused (forgeries, replays, wrong pickle keys, used
  one-time keys) and that a refusal leaves the keys as they were.  Some theorems prove a defect of
  the code, among them \<open>sas_mac_keeps_six_bytes\<close>, \<open>pk_mac_ignores_ciphertext\<close> and
  \<open>zero_key_gives_zero_secret\<close>.

  \<^bold>\<open>Interfaces.\<close>  The locales state what one part relies on: a decoder of message fields
  (\<open>field_decoder\<close>), items that are pickled and lists of them (\<open>pickler\<close>, \<open>list_pickler\<close>), objects that
  are sealed with a key (\<open>sealed_pickler\<close>).  Each is interpreted on the model of the code, and the
  properties rest on the facts of the interpretations.

  \<^bold>\<open>Bounds.\<close>  The loops of the decoders and of the ratchets run on the length of what is left or on the
  distance of two counters, and end; where the code would not end (\<open>generate_one_time_keys\<close> for \<open>2^32\<close>
  keys and more, \<open>sha256_update\<close> for a piece of \<open>2^32\<close> bytes and more) the model says so.  Lengths are natural numbers; the theorems assume that buffers do
  not reach the end of the address space and do not overlap, where the code relies on it.

  \<^bold>\<open>Not modelled.\<close>  The protocol theories take the curve functions as a parameter (\<open>crypto_lib\<close>) with
  the laws \<open>crypto_lib_ok\<close>; \<open>KeyAgreement\<close> and \<open>EdSign\<close> instantiate it with the models of the code, for which
  \<open>vendored_lib_sizes\<close> proves the laws on sizes.  That both parties of a key agreement compute the same
  secret and that a signature verifies rests on the group law of the curve and on the primality of
  \<open>2^255 - 19\<close>, and stays a hypothesis; so does that every entry of the tables is the multiple its place
  says: \<open>combination\<close> counts it as such, and only the first entries are checked.  The files of
  \<open>lib/ed25519\<close> that are not compiled into the library are left out.  The functions that return the size
  of an object and the version of the library, and the casts of the C interface, have no counterpart
  in the model.  The modes of \<open>aes.c\<close> the library does not call are left out.  \<open>libsodium\<close>, which is not part of the repository, is the
  parameter \<open>sodium\<close>.  Side channels are outside the model.  The
  bindings for other languages, the fuzzers and the tests are glue around the C interface.
\<close>

section \<open>Sessions that are stored and restored\<close>

text \<open>
  A ratchet that was restored from its pickle has the lists of the original up to the slots that are
  not in use, and the constants of its constructor.
\<close>

lemma same_items:
  assumes "items l' = items l"
  shows "ol_end l' = ol_end l" "i < ol_end l \<Longrightarrow> ol_nth l' i = ol_nth l i"
proof -
  show e: "ol_end l' = ol_end l" using assms by (metis length_items)
  show "i < ol_end l \<Longrightarrow> ol_nth l' i = ol_nth l i"
    using assms e by (metis nth_items ol_nth_def)
qed

lemma find_chain_items:
  assumes "items cs' = items cs" "i + n \<le> ol_end cs"
  shows "find_chain n cs' key i = find_chain n cs key i"
  using assms(2)
proof (induction n arbitrary: i)
  case (Suc n)
  then have "ol_nth cs' i = ol_nth cs i" by (intro same_items(2) [OF assms(1)]) simp
  moreover have "find_chain n cs' key (i + 1) = find_chain n cs key (i + 1)"
    by (rule Suc.IH) (use Suc.prems in simp)
  ultimately show ?case by simp
qed simp

definition same_ratchet :: "Ratchet \<Rightarrow> Ratchet \<Rightarrow> bool" where
  "same_ratchet r' r \<longleftrightarrow> wf_ratchet r' \<and> ratchet_view r' = ratchet_view r \<and>
     rt_cipher r' = rt_cipher r \<and> rt_kdf_info r' = rt_kdf_info r"

lemma same_ratchet_lists:
  assumes "same_ratchet r' r"
  shows "items (rt_sender_chain r') = items (rt_sender_chain r)"
    "items (rt_receiver_chains r') = items (rt_receiver_chains r)" "rt_root_key r' = rt_root_key r"
  using assms by (simp_all add: same_ratchet_def ratchet_view_def)

lemma same_ratchet_find:
  assumes "same_ratchet r' r"
  shows "find_chain (ol_size (rt_receiver_chains r')) (rt_receiver_chains r') key 0 =
    find_chain (ol_size (rt_receiver_chains r)) (rt_receiver_chains r) key 0"
  using find_chain_items [OF same_ratchet_lists(2) [OF assms], of 0 "ol_end (rt_receiver_chains r)" key]
    same_items(1) [OF same_ratchet_lists(2) [OF assms]] by (simp add: ol_size_def)

lemma find_chain_bound: "find_chain n cs key i = Some j \<Longrightarrow> j < i + n"
proof (induction n arbitrary: i)
  case (Suc n)
  show ?case
  proof (cases "take 32 (rc_ratchet_key (ol_nth cs i)) = key")
    case False
    then show ?thesis using Suc.prems Suc.IH [of "i + 1"] by simp
  qed (use Suc.prems in simp)
qed simp

lemma same_ratchet_sender:
  assumes "same_ratchet r' r"
  shows "ol_empty (rt_sender_chain r') = ol_empty (rt_sender_chain r)"
    "\<not> ol_empty (rt_sender_chain r) \<Longrightarrow> sender_chain r' = sender_chain r"
  using same_items [OF same_ratchet_lists(1) [OF assms]] by (simp_all add: ol_empty_def sender_chain_def)

lemma in_sync_same:
  assumes "same_ratchet a' a" "same_ratchet b' b" "in_sync L a b"
  shows "in_sync L a' b'"
proof -
  have wf: "wf_ratchet a'" "wf_ratchet b'" using assms(1,2) by (simp_all add: same_ratchet_def)
  have ne: "\<not> ol_empty (rt_sender_chain a)" using assms(3) by (simp add: in_sync_def in_step_def)
  note a = same_ratchet_sender [OF assms(1)] note b = same_ratchet_sender [OF assms(2)]
  note s = a(2) [OF ne]
  note e = same_items [OF same_ratchet_lists(2) [OF assms(2)]]
  have c: "rt_cipher a' = rt_cipher a" "rt_kdf_info a' = rt_kdf_info a" "rt_cipher b' = rt_cipher b"
    "rt_kdf_info b' = rt_kdf_info b"
    using assms(1,2) by (simp_all add: same_ratchet_def)
  obtain i where i: "find_chain (ol_size (rt_receiver_chains b)) (rt_receiver_chains b)
      (c_public (sc_ratchet_key (sender_chain a))) 0 = Some i"
    using assms(3) by (auto simp: in_sync_def in_step_def split: option.splits)
  then have n: "ol_nth (rt_receiver_chains b') i = ol_nth (rt_receiver_chains b) i"
    using find_chain_bound [OF i] e(2) by (simp add: ol_size_def)
  have "in_step a' b'"
    using assms(3) i n a(1) c
    by (simp add: in_sync_def in_step_def s same_ratchet_find [OF assms(2)])
  moreover have "can_reply L b' a'"
    using assms(3) a(1) b(1) e same_ratchet_lists(3) [OF assms(1)] same_ratchet_lists(3) [OF assms(2)]
    by (simp add: in_sync_def can_reply_def s)
  ultimately show ?thesis using wf by (simp add: in_sync_def)
qed

lemma unpickle_ratchet_params:
  "rt_cipher (snd (unpickle_ratchet m pos lim r inc)) = rt_cipher r"
  "rt_kdf_info (snd (unpickle_ratchet m pos lim r inc)) = rt_kdf_info r"
  by (simp_all add: unpickle_ratchet_def Let_def case_prod_beta)

lemma unpickle_session_params:
  "rt_cipher (ss_ratchet (snd (unpickle_session m pos lim s))) = rt_cipher (ss_ratchet s)"
  "rt_kdf_info (ss_ratchet (snd (unpickle_session m pos lim s))) = rt_kdf_info (ss_ratchet s)"
  by (rule unpickle_session_cases [of m pos lim s];
      simp add: Let_def case_prod_beta unpickle_ratchet_params)+

lemma olm_unpickle_session_params:
  assumes "olm_unpickle_session s key m p n = (s', m', r)"
  shows "rt_cipher (ss_ratchet s') = rt_cipher (ss_ratchet s)"
    "rt_kdf_info (ss_ratchet s') = rt_kdf_info (ss_ratchet s)"
proof -
  have "fst (olm_unpickle_session s key m p n) = s'" using assms by simp
  moreover have "rt_cipher (ss_ratchet (fst (olm_unpickle_session s key m p n))) = rt_cipher (ss_ratchet s) \<and>
      rt_kdf_info (ss_ratchet (fst (olm_unpickle_session s key m p n))) = rt_kdf_info (ss_ratchet s)"
    by (simp add: olm_unpickle_session_def Let_def case_prod_beta unpickle_session_params split: option.split)
  ultimately show "rt_cipher (ss_ratchet s') = rt_cipher (ss_ratchet s)"
    "rt_kdf_info (ss_ratchet s') = rt_kdf_info (ss_ratchet s)" by simp_all
qed

text \<open>Storing a session under a key and restoring it into a new object, in one buffer.\<close>

definition store_and_restore :: "bytes \<Rightarrow> mem \<Rightarrow> addr \<Rightarrow> Session \<Rightarrow> Session" where
  "store_and_restore key m p s =
     (let (_, m, _) = olm_pickle_session s key m p (olm_pickle_session_length s)
      in fst (olm_unpickle_session fresh_session key m p (olm_pickle_session_length s)))"

lemma restored:
  assumes "wf_session s" "constructor_params s"
  shows "wf_session (store_and_restore key m p s)"
    "same_ratchet (ss_ratchet (store_and_restore key m p s)) (ss_ratchet s)"
    "session_keys (store_and_restore key m p s) = session_keys s"
    "ss_received_message (store_and_restore key m p s) = ss_received_message s"
    "constructor_params (store_and_restore key m p s)"
proof -
  obtain m1 new m2 where o: "olm_pickle_session s key m p (olm_pickle_session_length s) =
      (s, m1, Some (olm_pickle_session_length s))"
    "olm_unpickle_session fresh_session key m1 p (olm_pickle_session_length s) =
      (new, m2, Some (olm_pickle_session_length s))" "session_view new = session_view s" "wf_session new"
    using session_api.open_seal_seal [OF assms(1) wf_fresh_session fresh_ratchet order.refl, of key m p] by blast
  have n: "store_and_restore key m p s = new" by (simp add: store_and_restore_def o(1,2))
  note par = olm_unpickle_session_params [OF o(2)]
  have fresh: "rt_cipher (ss_ratchet fresh_session) = OLM_CIPHER" "rt_kdf_info (ss_ratchet fresh_session) = OLM_KDF_INFO"
    by (simp_all add: fresh_session_def new_ratchet_def)
  show "wf_session (store_and_restore key m p s)" by (simp add: n o(4))
  show "same_ratchet (ss_ratchet (store_and_restore key m p s)) (ss_ratchet s)"
    using o(3,4) par fresh assms(2) by (simp add: n same_ratchet_def session_view_def wf_session_def constructor_params_def)
  show "session_keys (store_and_restore key m p s) = session_keys s"
    "ss_received_message (store_and_restore key m p s) = ss_received_message s"
    using o(3) by (simp_all add: n session_view_def)
  show "constructor_params (store_and_restore key m p s)" using par fresh by (simp add: n constructor_params_def)
qed

lemma restored_in_sync:
  assumes "sessions_in_sync L a b" "constructor_params a"
  shows "sessions_in_sync L (store_and_restore ka ma pa a) (store_and_restore kb mb pb b)"
proof -
  have wf: "wf_session a" "wf_session b" using assms(1) by (simp_all add: sessions_in_sync_def)
  have "constructor_params b" using in_sync_constructor_params [OF assms(1)] assms(2) by simp
  note ra = restored [OF wf(1) assms(2)] and rb = restored [OF wf(2) this]
  show ?thesis
    using assms(1) in_sync_same [OF ra(2) rb(2)] in_sync_same [OF rb(2) ra(2)] ra(1) rb(1)
    by (auto simp: sessions_in_sync_def)
qed

section \<open>Properties\<close>

text \<open>
  C3 Sessions survive storage: when both parties of a conversation have pickled their sessions, each
  under a key of its own, and restored them into new objects, the next message is delivered, under
  the same session keys, and the sessions stay in sync.
\<close>

theorem stored_sessions_deliver:
  assumes "crypto_lib_ok L" "sessions_in_sync L a b" "constructor_params a"
    "a1 = store_and_restore ka ma pa a" "b1 = store_and_restore kb mb pb b"
    "olm_exchange_ok L a1 b1 m pt n rnd rlen out olen inp buf" "stored m pt msg" "length msg = n"
  shows "\<exists>a' b' m1 m2. olm_exchange L junk junkm a1 b1 m pt n rnd rlen out olen M inp buf = (a', b', m1, m2, Some n) \<and>
    stored m2 buf msg \<and> sessions_in_sync L a' b' \<and> session_keys a' = session_keys a \<and>
    session_keys b' = session_keys b \<and> olm_encrypt_message_type a1 = olm_encrypt_message_type a"
proof -
  have sync: "sessions_in_sync L a1 b1" unfolding assms(4,5) by (rule restored_in_sync [OF assms(2,3)])
  have wf: "wf_session a" "wf_session b" using assms(2) by (simp_all add: sessions_in_sync_def)
  have pb: "constructor_params b" using in_sync_constructor_params [OF assms(2)] assms(3) by simp
  have k: "session_keys a1 = session_keys a" "session_keys b1 = session_keys b"
    "ss_received_message a1 = ss_received_message a"
    using restored [OF wf(1) assms(3)] restored [OF wf(2) pb] by (simp_all add: assms(4,5))
  obtain a' b' m1 m2 where
    "olm_exchange L junk junkm a1 b1 m pt n rnd rlen out olen M inp buf = (a', b', m1, m2, Some n)"
    "stored m2 buf msg" "rd m1 rnd rlen = replicate rlen 0" "sessions_in_sync L a' b'"
    "session_keys a' = session_keys a1" "session_keys b' = session_keys b1" "ss_received_message b'"
    by (rule olm_exchange_in_sync [OF assms(1,6) sync assms(7,8), where junk = junk and junkm = junkm and mb = M])
  then show ?thesis using k by (simp add: olm_encrypt_message_type_def encrypt_message_type_def)
qed

definition example_stored :: "Session \<times> Session" where
  "example_stored = (store_and_restore [1] (\<lambda>i. 0) 0 (fst example_sessions),
     store_and_restore [2] (\<lambda>i. 0) 9 (snd example_sessions))"

lemma example_params: "constructor_params (fst example_sessions)"
  using olm_conversation_in_sync [OF example_lib_ok example_conversation] by blast

lemma example_stored_ok:
  "olm_exchange_ok example_lib (fst example_stored) (snd example_stored) (\<lambda>i. 4) 2000 1 100 32 3000
    (olm_encrypt_message_length (fst example_stored) 1) 3000 0"
proof -
  have wf: "wf_session (fst example_sessions)"
    using example_sessions_in_sync by (simp add: sessions_in_sync_def)
  have "\<not> ol_empty (rt_sender_chain (ss_ratchet (fst example_sessions)))"
    using example_exchange by (auto simp: session_exchange_ok_def)
  then have "\<not> ol_empty (rt_sender_chain (ss_ratchet (fst example_stored)))"
    using same_ratchet_sender(1) [OF restored(2) [OF wf example_params]] by (simp add: example_stored_def)
  moreover have "encrypt_output_length r 1 < 2 ^ 64" for r
    by (rule order.strict_trans [OF encrypt_output_length_bound]) simp
  ultimately show ?thesis
    by (simp add: olm_exchange_ok_def olm_encrypt_ok_def aes_encrypt_cbc_length_def
        olm_encrypt_random_length_def session_encrypt_random_length_def encrypt_random_length_def)
qed

theorem stored_sessions_deliver_witness:
  "\<exists>a' b' m1 m2. olm_exchange example_lib zero_prekey_reader zero_reader (fst example_stored) (snd example_stored)
      (\<lambda>i. 4) 2000 1 100 32 3000 (olm_encrypt_message_length (fst example_stored) 1) (\<lambda>i. 0) 3000 0 =
      (a', b', m1, m2, Some 1) \<and> stored m2 0 [4] \<and> sessions_in_sync example_lib a' b' \<and>
    session_keys a' = session_keys (fst example_sessions) \<and> session_keys b' = session_keys (snd example_sessions) \<and>
    olm_encrypt_message_type (fst example_stored) = olm_encrypt_message_type (fst example_sessions)"
  by (rule stored_sessions_deliver [OF example_lib_ok example_sessions_in_sync example_params _ _ example_stored_ok])
    (simp_all add: example_stored_def)

end
